(* ===== verification/BswPrelude.thy ===== *)
theory BswPrelude imports Main "HOL-Library.Word" "HOL-Library.Monad_Syntax" begin

text \<open>
  The prelude of the development: the machine types the C++ code uses, the effect type of
  code that may not return normally, and byte-span primitives with the lemmas about them.

  An \<open>option\<close> around the result of an operation means: \<open>None\<close> is a run
  of the C++ code with no normal result (a failed \<^verbatim>\<open>ETL_ASSERT\<close>, an access outside a
  span or a list, or a loop that never ends); \<open>Some\<close> is a normal return. Error codes
  that the code returns are never \<open>None\<close>: they are values of a sum type.
\<close>

unbundle bit_operations_syntax

section \<open>Machine types\<close>

type_synonym u8 = "8 word"
type_synonym u16 = "16 word"
type_synonym u32 = "32 word"

text \<open>
  Sizes and indices that the code keeps in narrow unsigned variables are natural numbers
  here, with the narrowing written out where it can matter.
\<close>

definition to_u8 :: "nat \<Rightarrow> nat" where
  "to_u8 n = n mod 256"

definition to_u16 :: "nat \<Rightarrow> nat" where
  "to_u16 n = n mod 65536"

definition u8_sub :: "nat \<Rightarrow> nat \<Rightarrow> nat" where
  "u8_sub a b = nat ((int a - int b) mod 256)"

lemma to_u8_small [simp]: "n < 256 \<Longrightarrow> to_u8 n = n"
  by (simp add: to_u8_def)

lemma to_u8_less [simp]: "to_u8 n < 256"
  by (simp add: to_u8_def)

lemma to_u16_small [simp]: "n < 65536 \<Longrightarrow> to_u16 n = n"
  by (simp add: to_u16_def)

lemma to_u16_less [simp]: "to_u16 n < 65536"
  by (simp add: to_u16_def)

lemma u8_sub_exact [simp]:
  assumes "b \<le> a" and "a - b < 256"
  shows "u8_sub a b = a - b"
proof -
  have "int a - int b = int (a - b)" using assms(1) by (simp add: of_nat_diff)
  moreover have "int (a - b) mod 256 = int (a - b)" using assms(2) by simp
  ultimately show ?thesis unfolding u8_sub_def by (simp only: nat_int)
qed

lemma u8_sub_less: "u8_sub a b < 256"
  by (simp add: u8_sub_def nat_less_iff)

lemma unat_eq_Suc_0: "unat (x :: 'a::len word) = Suc 0 \<longleftrightarrow> x = 1"
  using word_unat_eq_iff [of x 1] by simp

lemma unat_bounds:
  "unat (x :: u8) < 256" "unat (y :: u16) < 65536" "unat (z :: u32) < 4294967296"
  using unsigned_less [of x, where ?'a = nat] unsigned_less [of y, where ?'a = nat]
    unsigned_less [of z, where ?'a = nat] by simp_all

section \<open>Aborting code\<close>

text \<open>\<^verbatim>\<open>ETL_ASSERT(b, ...)\<close>: the rest of the code runs only when \<open>b\<close> holds.\<close>

definition ensure :: "bool \<Rightarrow> unit option" where
  "ensure b = (if b then Some () else None)"

lemma ensure_simps [simp]: "ensure True = Some ()" "ensure False = None"
  by (simp_all add: ensure_def)

lemma ensure_eq_Some [simp]: "ensure b = Some u \<longleftrightarrow> b"
  by (simp add: ensure_def)

lemma bind_ensure [simp]: "b \<Longrightarrow> Option.bind (ensure b) f = f ()"
  by simp

section \<open>Byte spans\<close>

text \<open>Writing one byte of a span, and copying or filling a range of it.\<close>

definition put_byte :: "u8 list \<Rightarrow> nat \<Rightarrow> u8 \<Rightarrow> u8 list option" where
  "put_byte p i b = (if i < length p then Some (p[i := b]) else None)"

definition mem_copy :: "u8 list \<Rightarrow> nat \<Rightarrow> u8 list \<Rightarrow> nat \<Rightarrow> u8 list option" where
  "mem_copy src n p i =
     (if n \<le> length src \<and> i + n \<le> length p
      then Some (take i p @ take n src @ drop (i + n) p) else None)"

definition mem_set :: "u8 list \<Rightarrow> nat \<Rightarrow> nat \<Rightarrow> u8 \<Rightarrow> u8 list option" where
  "mem_set p i n b =
     (if i + n \<le> length p then Some (take i p @ replicate n b @ drop (i + n) p) else None)"

definition be16 :: "u8 list \<Rightarrow> nat \<Rightarrow> nat" where
  "be16 p i = unat (p ! i) * 256 + unat (p ! (i + 1))"

definition be32 :: "u8 list \<Rightarrow> nat \<Rightarrow> nat" where
  "be32 p i = unat (p ! i) * 16777216 + unat (p ! (i + 1)) * 65536
     + unat (p ! (i + 2)) * 256 + unat (p ! (i + 3))"

definition byte_of :: "nat \<Rightarrow> u8" where
  "byte_of n = of_nat n"

definition put_be16 :: "u8 list \<Rightarrow> nat \<Rightarrow> nat \<Rightarrow> u8 list option" where
  "put_be16 p i v = do { p \<leftarrow> put_byte p i (byte_of (v div 256)); put_byte p (i + 1) (byte_of v) }"

definition put_be32 :: "u8 list \<Rightarrow> nat \<Rightarrow> nat \<Rightarrow> u8 list option" where
  "put_be32 p i v = do {
     p \<leftarrow> put_byte p i (byte_of (v div 16777216));
     p \<leftarrow> put_byte p (i + 1) (byte_of (v div 65536));
     p \<leftarrow> put_byte p (i + 2) (byte_of (v div 256));
     put_byte p (i + 3) (byte_of v) }"

lemma unat_byte_of: "unat (byte_of n) = n mod 256"
  by (simp add: byte_of_def unat_of_nat)

lemma unat_byte_of_small [simp]: "n < 256 \<Longrightarrow> unat (byte_of n) = n"
  by (simp add: unat_byte_of)

lemma put_byte_Some [simp]: "i < length p \<Longrightarrow> put_byte p i b = Some (p[i := b])"
  by (simp add: put_byte_def)

lemma mem_copy_Some [simp]:
  "n \<le> length src \<Longrightarrow> i + n \<le> length p \<Longrightarrow>
   mem_copy src n p i = Some (take i p @ take n src @ drop (i + n) p)"
  by (simp add: mem_copy_def)

lemma mem_set_Some [simp]:
  "i + n \<le> length p \<Longrightarrow>
   mem_set p i n b = Some (take i p @ replicate n b @ drop (i + n) p)"
  by (simp add: mem_set_def)

lemma put_be16_Some:
  "i + 1 < length p \<Longrightarrow>
   put_be16 p i v = Some (p[i := byte_of (v div 256), i + 1 := byte_of v])"
  by (simp add: put_be16_def)

lemma put_be32_Some:
  "i + 3 < length p \<Longrightarrow>
   put_be32 p i v = Some (p[i := byte_of (v div 16777216), i + 1 := byte_of (v div 65536),
     i + 2 := byte_of (v div 256), i + 3 := byte_of v])"
  by (simp add: put_be32_def)

section \<open>Nibbles\<close>

text \<open>
  Frame headers keep a type in the high nibble of a byte and a value below 16 in the low one.
\<close>

lemma byte_and_0F: "byte_of k AND 0x0F = byte_of (k mod 16)"
proof (rule word_unat_eq_iff [THEN iffD2])
  have "unat (byte_of k AND 0x0F) = unat (take_bit 4 (byte_of k))"
    by (simp add: take_bit_eq_mask mask_eq_exp_minus_1)
  also have "\<dots> = take_bit 4 (unat (byte_of k))" by (simp add: unsigned_take_bit_eq)
  also have "\<dots> = k mod 256 mod 16" by (simp add: unat_byte_of take_bit_eq_mod)
  also have "\<dots> = k mod 16" by (simp add: mod_mod_cancel)
  finally show "unat (byte_of k AND 0x0F) = unat (byte_of (k mod 16))"
    by (simp add: unat_byte_of)
qed

lemma all_nibbles: "(\<forall>k \<in> set [0..<16]. P k) \<Longrightarrow> n < 16 \<Longrightarrow> P (n::nat)"
  by simp

lemma header_byte:
  assumes "k < 16"
  shows "unat (drop_bit 4 (byte_of k) AND 0x0F) = 0"
    and "unat (drop_bit 4 (byte_of k OR 0x10) AND 0x0F) = 1"
    and "unat (drop_bit 4 (0x20 OR byte_of k) AND 0x0F) = 2"
    and "unat (drop_bit 4 (0x30 OR byte_of k) AND 0x0F) = 3"
    and "byte_of k AND 0x0F = byte_of k"
    and "(0x20 OR byte_of k) AND 0x0F = byte_of k"
    and "(0x30 OR byte_of k) AND 0x0F = byte_of k"
    and "unat (byte_of k OR 0x10) = 16 + k"
  by (rule all_nibbles [OF _ assms], simp add: upt_rec byte_of_def)+

lemma take_Suc_update: "i < length p \<Longrightarrow> take (Suc i) (p[i := x]) = take i p @ [x]"
  by (simp add: take_Suc_conv_app_nth)

lemma take_update_2:
  "Suc i < length p \<Longrightarrow> take (Suc (Suc i)) (p[i := x, Suc i := y]) = take i p @ [x, y]"
  by (simp add: take_Suc_conv_app_nth)

lemma put_block3:
  assumes "i + 3 \<le> length p"
  shows "take (i + 3) (p[i := a, Suc i := b, Suc (Suc i) := c]) = take i p @ [a, b, c]"
proof -
  obtain pre r where p: "p = pre @ r" "length pre = i"
    using assms by (metis append_take_drop_id length_take min.absorb2 add_leD1)
  from assms p have "3 \<le> length r" by simp
  then obtain x0 x1 x2 post where r: "r = x0 # x1 # x2 # post"
    by (auto simp: eval_nat_numeral Suc_le_length_iff)
  show ?thesis using p r by (simp add: list_update_append)
qed

lemma put_block6:
  assumes "i + 6 \<le> length p"
  shows "p[i := a, Suc i := b, Suc (Suc i) := c, Suc (Suc (Suc i)) := d,
           Suc (Suc (Suc (Suc i))) := e, 5 + i := f] = take i p @ [a, b, c, d, e, f] @ drop (i + 6) p"
proof -
  obtain pre r where p: "p = pre @ r" "length pre = i"
    using assms by (metis append_take_drop_id length_take min.absorb2 add_leD1)
  from assms p have "6 \<le> length r" by simp
  then obtain x0 x1 x2 x3 x4 x5 post where r: "r = x0 # x1 # x2 # x3 # x4 # x5 # post"
    by (auto simp: eval_nat_numeral Suc_le_length_iff)
  have five: "5 + i = Suc (Suc (Suc (Suc (Suc i))))" by simp
  show ?thesis unfolding five using p r by (simp add: list_update_append)
qed

lemma be32_decompose:
  assumes "n < 4294967296"
  shows "n div 16777216 mod 256 * 16777216 + n div 65536 mod 256 * 65536
           + n div 256 mod 256 * 256 + n mod 256 = (n::nat)"
proof -
  have a: "n = 256 * (n div 256) + n mod 256" by simp
  have b: "n div 256 = 256 * (n div 65536) + n div 256 mod 256"
    using div_mult_mod_eq [of "n div 256" 256] by (simp add: div_mult2_eq [symmetric])
  have c: "n div 65536 = 256 * (n div 16777216) + n div 65536 mod 256"
    using div_mult_mod_eq [of "n div 65536" 256] by (simp add: div_mult2_eq [symmetric])
  have d: "n div 16777216 mod 256 = n div 16777216"
    using assms by (simp add: less_mult_imp_div_less)
  show ?thesis using a b c d by linarith
qed

section \<open>Slots\<close>

text \<open>
  Objects of a pool that a component keeps in a list: a slot number stands for the address of
  the object, and pointers and iterators are slot numbers.
\<close>

definition slot_put :: "nat \<Rightarrow> 'a \<Rightarrow> (nat \<times> 'a) list \<Rightarrow> (nat \<times> 'a) list" where
  "slot_put i x l = map (\<lambda>(j, y). if j = i then (j, x) else (j, y)) l"

text \<open>
  Walking along a list, erasing \<open>k\<close> elements that satisfy \<open>P\<close>; walking past the end is
  undefined.
\<close>

fun erase_walk :: "('a \<Rightarrow> bool) \<Rightarrow> nat \<Rightarrow> 'a list \<Rightarrow> 'a list option" where
  "erase_walk P 0 l = Some l"
| "erase_walk P (Suc k) [] = None"
| "erase_walk P (Suc k) (x # xs) =
     (if P x then erase_walk P k xs else map_option (\<lambda>l. x # l) (erase_walk P (Suc k) xs))"

lemma fst_slot_put [simp]: "map fst (slot_put i x l) = map fst l"
  by (induction l) (auto simp: slot_put_def)

lemma fst_set_slot_put [simp]: "fst ` set (slot_put i x l) = fst ` set l"
  by (metis fst_slot_put set_map)

lemma length_slot_put [simp]: "length (slot_put i x l) = length l"
  by (simp add: slot_put_def)

lemma slot_put_put [simp]: "slot_put i x (slot_put i y l) = slot_put i x l"
  by (auto simp: slot_put_def)

lemma map_of_slot_put:
  "map_of (slot_put i x l) j = (if j = i \<and> map_of l i \<noteq> None then Some x else map_of l j)"
  by (induction l) (auto simp: slot_put_def)

lemma slot_put_split:
  assumes "distinct (map fst l)" and "map_of l i = Some y"
  obtains as bs where "l = as @ (i, y) # bs" "\<And>x. slot_put i x l = as @ (i, x) # bs"
proof -
  obtain as bs where l: "l = as @ (i, y) # bs"
    using assms(2) by (metis map_of_SomeD split_list)
  have id: "slot_put i x zs = zs" if "i \<notin> fst ` set zs" for x :: 'a and zs
    using that by (induction zs) (auto simp: slot_put_def)
  have "slot_put i x l = as @ (i, x) # bs" for x
  proof -
    have "slot_put i x (as @ (i, y) # bs) = slot_put i x as @ (i, x) # slot_put i x bs"
      by (simp add: slot_put_def)
    then show ?thesis using assms(1) l id [of as x] id [of bs x] by force
  qed
  with l show thesis by (rule that)
qed

text \<open>What a list of slots holds in total, by a measure of one object.\<close>

definition slot_sum :: "('a \<Rightarrow> 'b::comm_monoid_add) \<Rightarrow> (nat \<times> 'a) list \<Rightarrow> 'b" where
  "slot_sum f l = sum_list (map (\<lambda>(_, x). f x) l)"

lemma slot_sum_simps [simp]:
  "slot_sum f [] = 0" "slot_sum f ((i, x) # l) = f x + slot_sum f l"
  "slot_sum f (l @ l') = slot_sum f l + slot_sum f l'"
  by (simp_all add: slot_sum_def)

lemma slot_sum_put:
  assumes "distinct (map fst l)" and "map_of l i = Some y"
  shows "slot_sum f (slot_put i x l) + f y = slot_sum f l + f x"
proof -
  obtain as bs where "l = as @ (i, y) # bs" "slot_put i x l = as @ (i, x) # bs"
    using slot_put_split [OF assms] by metis
  then show ?thesis by (simp add: ac_simps)
qed

lemma slot_sum_cong:
  "list_all2 (\<lambda>(i, x) (j, y). f x = f y) l l' \<Longrightarrow> slot_sum f l = slot_sum f l'"
  by (induction l l' rule: list_all2_induct) (auto simp: slot_sum_def)

lemma slot_sum_member:
  "map_of l i = Some y \<Longrightarrow> f y \<le> (slot_sum f l :: nat)"
  by (induction l) (auto split: if_splits simp: slot_sum_def)

lemma slot_sum_count: "slot_sum (\<lambda>x. if P x then 1 else 0) l = length (filter (\<lambda>(_, x). P x) l)"
  by (induction l) (auto simp: slot_sum_def)

lemma slot_sum_filter:
  "\<forall>(j, r) \<in> set l. \<not> P r \<longrightarrow> f r = 0 \<Longrightarrow> slot_sum f (filter (\<lambda>(j, r). P r) l) = slot_sum f l"
  by (induction l) auto

lemma slot_sum_le_length:
  assumes "\<And>x. f x \<le> (1 :: nat)" shows "slot_sum f l \<le> length l"
proof (induction l)
  case (Cons p l) then show ?case using assms [of "snd p"] by (cases p) simp
qed simp

lemma slot_sum_less_length:
  assumes "\<And>x. f x \<le> (1 :: nat)" and "map_of l i = Some y" and "f y = 0"
  shows "slot_sum f l < length l"
  using assms(2)
proof (induction l)
  case (Cons p l)
  obtain j x where p: "p = (j, x)" by (cases p)
  show ?case
  proof (cases "j = i")
    case True
    then show ?thesis using Cons p assms(3) slot_sum_le_length [of f l] assms(1) by auto
  next
    case False
    then show ?thesis using Cons p assms(1) [of x] by auto
  qed
qed simp

lemma erase_walk_all:
  "erase_walk P (length (filter P l)) l = Some (filter (\<lambda>x. \<not> P x) l)"
proof (induction l)
  case (Cons x l) then show ?case by (cases "length (filter P l)") auto
qed simp

lemma erase_walk_too_many:
  "length (filter P l) < k \<Longrightarrow> erase_walk P k l = None"
proof (induction l arbitrary: k)
  case Nil then show ?case by (cases k) auto
next
  case (Cons x l) then show ?case by (cases k) (auto split: if_splits)
qed

section \<open>State machines\<close>

text \<open>
  A component as a deterministic machine: a step takes an event and a state, and may produce
  observations. The contract of such a machine is an invariant every step keeps and a function
  of the state that a step extends by what it produced; the laws lift to whole runs.
\<close>

fun run_trace :: "('e \<Rightarrow> 's \<Rightarrow> 's) \<Rightarrow> ('e \<Rightarrow> 's \<Rightarrow> 'o list) \<Rightarrow> 'e list \<Rightarrow> 's \<Rightarrow> 'o list \<times> 's" where
  "run_trace step out [] s = ([], s)"
| "run_trace step out (e # es) s =
     (let (os, s') = run_trace step out es (step e s) in (out e s @ os, s'))"

lemma run_trace_append:
  "snd (run_trace step out (as @ bs) s) = snd (run_trace step out bs (snd (run_trace step out as s)))"
  by (induction as arbitrary: s) (simp_all add: case_prod_unfold Let_def)

locale traced_machine =
  fixes step :: "'e \<Rightarrow> 's \<Rightarrow> 's" and out :: "'e \<Rightarrow> 's \<Rightarrow> 'o list"
    and inv :: "'s \<Rightarrow> bool" and history :: "'s \<Rightarrow> 'o list"
  assumes step_inv: "inv s \<Longrightarrow> inv (step e s)"
    and step_history: "inv s \<Longrightarrow> history (step e s) = history s @ out e s"
begin

lemma run_inv: "inv s \<Longrightarrow> inv (snd (run_trace step out es s))"
  by (induction es arbitrary: s) (simp_all add: case_prod_unfold Let_def step_inv)

lemma run_history:
  "inv s \<Longrightarrow> history (snd (run_trace step out es s)) = history s @ fst (run_trace step out es s)"
  by (induction es arbitrary: s) (simp_all add: case_prod_unfold Let_def step_inv step_history)

end

text \<open>
  A machine against an abstract specification: the observations of a run drive a monitor, and
  an abstraction function maps the state of the machine to the state of the monitor. Where
  the machine relies on its environment, a guard says which events may come in which state.
\<close>

fun guarded_run :: "('e \<Rightarrow> 's \<Rightarrow> 's) \<Rightarrow> ('e \<Rightarrow> 's \<Rightarrow> bool) \<Rightarrow> 'e list \<Rightarrow> 's \<Rightarrow> bool" where
  "guarded_run step guard [] s \<longleftrightarrow> True"
| "guarded_run step guard (e # es) s \<longleftrightarrow> guard e s \<and> guarded_run step guard es (step e s)"

fun run_monitor :: "('m \<Rightarrow> 'o \<Rightarrow> 'm option) \<Rightarrow> 'm \<Rightarrow> 'o list \<Rightarrow> 'm option" where
  "run_monitor mon m [] = Some m"
| "run_monitor mon m (x # xs) =
     (case mon m x of None \<Rightarrow> None | Some m' \<Rightarrow> run_monitor mon m' xs)"

lemma run_monitor_append:
  "run_monitor mon m (xs @ ys) = Option.bind (run_monitor mon m xs) (\<lambda>m'. run_monitor mon m' ys)"
  by (induction xs arbitrary: m) (auto split: option.splits)

locale monitored_machine =
  fixes step :: "'e \<Rightarrow> 's \<Rightarrow> 's" and out :: "'e \<Rightarrow> 's \<Rightarrow> 'o list"
    and guard :: "'e \<Rightarrow> 's \<Rightarrow> bool" and inv :: "'s \<Rightarrow> bool"
    and mon :: "'m \<Rightarrow> 'o \<Rightarrow> 'm option" and abs :: "'s \<Rightarrow> 'm"
  assumes step_inv: "inv s \<Longrightarrow> guard e s \<Longrightarrow> inv (step e s)"
    and step_mon: "inv s \<Longrightarrow> guard e s \<Longrightarrow> run_monitor mon (abs s) (out e s) = Some (abs (step e s))"
begin

lemma run_inv: "inv s \<Longrightarrow> guarded_run step guard es s \<Longrightarrow> inv (snd (run_trace step out es s))"
  by (induction es arbitrary: s) (simp_all add: case_prod_unfold Let_def step_inv)

lemma run_mon:
  "inv s \<Longrightarrow> guarded_run step guard es s \<Longrightarrow>
   run_monitor mon (abs s) (fst (run_trace step out es s)) = Some (abs (snd (run_trace step out es s)))"
  by (induction es arbitrary: s)
    (simp_all add: case_prod_unfold Let_def run_monitor_append step_inv step_mon)

end

end
