(* ===== verification/DocanCodec.thy ===== *)
theory DocanCodec imports BswPrelude begin

text \<open>
  The ISO 15765-2 frame codec of \<^verbatim>\<open>libs/bsw/docan\<close>: frame types and flow
  status (\<^verbatim>\<open>DoCanConstants.h\<close>), the sizing configuration and its presets, the
  frame size mappers, \<^verbatim>\<open>DoCanFrameCodec\<close> with all of its encoders and decoders,
  and the dispatch of \<^verbatim>\<open>DoCanFrameDecoder\<close>. The template parameters are the
  defaults of the addressing classes: 16 bit message sizes and frame indices, 8 bit frame sizes.
\<close>

named_theorems codec_defs

section \<open>Constants and configuration\<close>

datatype FrameType = FT_SINGLE | FT_FIRST | FT_CONSECUTIVE | FT_FLOW_CONTROL | FT_other nat

definition frame_type_of :: "nat \<Rightarrow> FrameType" where
  "frame_type_of n =
     (if n = 0 then FT_SINGLE else if n = 1 then FT_FIRST else if n = 2 then FT_CONSECUTIVE
      else if n = 3 then FT_FLOW_CONTROL else FT_other n)"

datatype FlowStatus = FS_CTS | FS_WAIT | FS_OVFLW | FS_other nat

definition flow_status_of :: "nat \<Rightarrow> FlowStatus" where
  "flow_status_of n =
     (if n = 0 then FS_CTS else if n = 1 then FS_WAIT else if n = 2 then FS_OVFLW
      else FS_other n)"

fun flow_status_code :: "FlowStatus \<Rightarrow> nat" where
  "flow_status_code FS_CTS = 0"
| "flow_status_code FS_WAIT = 1"
| "flow_status_code FS_OVFLW = 2"
| "flow_status_code (FS_other n) = n"

text \<open>The error values of \<^verbatim>\<open>CodecResult\<close>; \<^verbatim>\<open>OK\<close> is an \<open>Inr\<close>.\<close>

datatype codec_error =
  INVALID_FRAME_SIZE | INVALID_MESSAGE_SIZE | INVALID_FRAME_INDEX | INVALID_FRAME_TYPE

record size_config =
  sc_min :: nat
  sc_max :: nat

record codec_config =
  cfg_single :: size_config
  cfg_first :: size_config
  cfg_consecutive :: size_config
  cfg_flow_control :: size_config
  cfg_filler :: u8
  cfg_offset :: nat

definition EXTENDED_SF_DL_EDGE_SIZE :: nat where
  "EXTENDED_SF_DL_EDGE_SIZE = 8"

definition ESCAPED_SEQ_MESSAGE_SIZE :: nat where
  "ESCAPED_SEQ_MESSAGE_SIZE = 4095"

abbreviation MAX_MESSAGE_SIZE :: nat where
  "MAX_MESSAGE_SIZE \<equiv> 65535"

abbreviation MAX_FRAME_INDEX :: nat where
  "MAX_FRAME_INDEX \<equiv> 65535"

abbreviation size_range :: "nat \<Rightarrow> nat \<Rightarrow> size_config" where
  "size_range lo hi \<equiv> \<lparr>sc_min = lo, sc_max = hi\<rparr>"

definition PADDED_CLASSIC :: codec_config where
  "PADDED_CLASSIC = \<lparr>cfg_single = size_range 8 8, cfg_first = size_range 8 8,
     cfg_consecutive = size_range 8 8, cfg_flow_control = size_range 8 8,
     cfg_filler = 0xCC, cfg_offset = 0\<rparr>"

definition PADDED_FD :: codec_config where
  "PADDED_FD = \<lparr>cfg_single = size_range 8 64, cfg_first = size_range 64 64,
     cfg_consecutive = size_range 8 64, cfg_flow_control = size_range 8 64,
     cfg_filler = 0xCC, cfg_offset = 0\<rparr>"

definition OPTIMIZED_CLASSIC :: codec_config where
  "OPTIMIZED_CLASSIC = \<lparr>cfg_single = size_range 0 8, cfg_first = size_range 8 8,
     cfg_consecutive = size_range 0 8, cfg_flow_control = size_range 0 8,
     cfg_filler = 0xCC, cfg_offset = 0\<rparr>"

definition OPTIMIZED_FD :: codec_config where
  "OPTIMIZED_FD = \<lparr>cfg_single = size_range 0 64, cfg_first = size_range 64 64,
     cfg_consecutive = size_range 0 64, cfg_flow_control = size_range 0 64,
     cfg_filler = 0xCC, cfg_offset = 0\<rparr>"

definition EA_PADDED_CLASSIC :: codec_config where
  "EA_PADDED_CLASSIC = \<lparr>cfg_single = size_range 8 8, cfg_first = size_range 8 8,
     cfg_consecutive = size_range 8 8, cfg_flow_control = size_range 8 8,
     cfg_filler = 0xCC, cfg_offset = 1\<rparr>"

definition EA_PADDED_FD :: codec_config where
  "EA_PADDED_FD = \<lparr>cfg_single = size_range 8 64, cfg_first = size_range 64 64,
     cfg_consecutive = size_range 8 64, cfg_flow_control = size_range 8 64,
     cfg_filler = 0xCC, cfg_offset = 1\<rparr>"

definition EA_OPTIMIZED_CLASSIC :: codec_config where
  "EA_OPTIMIZED_CLASSIC = \<lparr>cfg_single = size_range 0 8, cfg_first = size_range 8 8,
     cfg_consecutive = size_range 0 8, cfg_flow_control = size_range 0 8,
     cfg_filler = 0xCC, cfg_offset = 1\<rparr>"

definition EA_OPTIMIZED_FD :: codec_config where
  "EA_OPTIMIZED_FD = \<lparr>cfg_single = size_range 0 64, cfg_first = size_range 64 64,
     cfg_consecutive = size_range 0 64, cfg_flow_control = size_range 0 64,
     cfg_filler = 0xCC, cfg_offset = 1\<rparr>"

lemmas preset_defs =
  PADDED_CLASSIC_def PADDED_FD_def OPTIMIZED_CLASSIC_def OPTIMIZED_FD_def
  EA_PADDED_CLASSIC_def EA_PADDED_FD_def EA_OPTIMIZED_CLASSIC_def EA_OPTIMIZED_FD_def

section \<open>Frame size mappers\<close>

definition mapFrameSize_default :: "nat \<Rightarrow> nat option" where
  "mapFrameSize_default sz = Some sz"

definition fd_sizes :: "nat list" where
  "fd_sizes =
    [0, 1, 2, 3, 4, 5, 6, 7, 8, 12, 12, 12, 12, 16, 16, 16, 16,
     20, 20, 20, 20, 24, 24, 24, 24, 32, 32, 32, 32, 32, 32, 32, 32, 48,
     48, 48, 48, 48, 48, 48, 48, 48, 48, 48, 48, 48, 48, 48, 48, 64, 64,
     64, 64, 64, 64, 64, 64, 64, 64, 64, 64, 64, 64, 64, 64]"

definition mapFrameSize_fd :: "nat \<Rightarrow> nat option" where
  "mapFrameSize_fd sz = (if sz > 64 then None else Some (fd_sizes ! sz))"

section \<open>The codec\<close>

definition checkFrameSize :: "codec_config \<Rightarrow> u8 list \<Rightarrow> nat \<Rightarrow> size_config \<Rightarrow> bool" where
  "checkFrameSize c payload minPayloadSize frameSize =
     (length payload \<ge> cfg_offset c + minPayloadSize
      \<and> length payload \<ge> sc_min frameSize \<and> length payload \<le> sc_max frameSize)"

definition fitsIntoShortSingleFrame :: "codec_config \<Rightarrow> nat \<Rightarrow> bool" where
  "fitsIntoShortSingleFrame c messageSize =
     (let edge = min EXTENDED_SF_DL_EDGE_SIZE (sc_max (cfg_single c));
          offset = to_u8 (cfg_offset c + 1)
      in int messageSize \<le> int edge - int offset)"

definition fitsIntoLongSingleFrame :: "codec_config \<Rightarrow> nat \<Rightarrow> bool option" where
  "fitsIntoLongSingleFrame c messageSize = do {
     ensure (sc_max (cfg_single c) \<ge> cfg_offset c + 2);
     let offset = to_u8 (cfg_offset c + 2);
     Some (int messageSize \<le> int (sc_max (cfg_single c)) - int offset) }"

definition decodeFrameType :: "codec_config \<Rightarrow> u8 list \<Rightarrow> codec_error + FrameType" where
  "decodeFrameType c payload =
     (let offset = cfg_offset c
      in if length payload \<le> offset then Inl INVALID_FRAME_SIZE
         else Inr (frame_type_of (unat (drop_bit 4 (payload ! offset) AND 0x0F))))"

definition decodeSingleFrame :: "codec_config \<Rightarrow> u8 list \<Rightarrow> codec_error + (nat \<times> u8 list)" where
  "decodeSingleFrame c payload =
     (let offset = cfg_offset c
      in if checkFrameSize c payload 2 (cfg_single c)
         then let messageSize = unat (payload ! offset AND 0x0F);
                  isExtendedSfDlExpected = length payload > EXTENDED_SF_DL_EDGE_SIZE
              in if messageSize = 0 \<and> isExtendedSfDlExpected
                 then let messageSize = unat (payload ! (offset + 1));
                          checkPayloadSize = messageSize + offset + 2
                      in if checkPayloadSize \<le> sc_max (cfg_single c)
                            \<and> checkPayloadSize \<le> length payload
                         then Inr (messageSize, take messageSize (drop (offset + 2) payload))
                         else Inl INVALID_MESSAGE_SIZE
                 else if messageSize > 0 \<and> \<not> isExtendedSfDlExpected
                 then let checkPayloadSize = messageSize + offset + 1
                      in if checkPayloadSize \<le> length payload
                         then Inr (messageSize, take messageSize (drop (offset + 1) payload))
                         else Inl INVALID_MESSAGE_SIZE
                 else Inl INVALID_MESSAGE_SIZE
         else Inl INVALID_FRAME_SIZE)"

record first_frame =
  ff_messageSize :: nat
  ff_frameCount :: nat
  ff_consecutiveFrameDataSize :: nat
  ff_data :: "u8 list"

definition decodeFirstFrame_sized ::
  "codec_config \<Rightarrow> u8 list \<Rightarrow> nat \<Rightarrow> nat \<Rightarrow> nat \<Rightarrow> (codec_error + first_frame) option" where
  "decodeFirstFrame_sized c payload messageSize dataStart consecutiveFrameDataSize =
     (let count = messageSize div consecutiveFrameDataSize
      in if count \<ge> MAX_FRAME_INDEX then Some (Inl INVALID_MESSAGE_SIZE)
         else do {
           let frameCount = to_u16 (count + 1);
           msgFitsIntoLongSingleFrame \<leftarrow> fitsIntoLongSingleFrame c messageSize;
           let msgFitsIntoShortSingleFrame = fitsIntoShortSingleFrame c messageSize;
           if frameCount > 1 \<and> \<not> msgFitsIntoShortSingleFrame \<and> \<not> msgFitsIntoLongSingleFrame
           then Some (Inr \<lparr>ff_messageSize = messageSize, ff_frameCount = frameCount,
                  ff_consecutiveFrameDataSize = consecutiveFrameDataSize,
                  ff_data = take (consecutiveFrameDataSize + 1 - dataStart)
                              (drop (cfg_offset c + dataStart) payload)\<rparr>)
           else Some (Inl INVALID_MESSAGE_SIZE) })"

definition decodeFirstFrame ::
  "codec_config \<Rightarrow> u8 list \<Rightarrow> (codec_error + first_frame) option" where
  "decodeFirstFrame c payload =
     (if checkFrameSize c payload 3 (cfg_first c)
      then let offset = cfg_offset c;
               messageSize = be16 payload offset mod 4096;
               consecutiveFrameDataSize = u8_sub (to_u8 (length payload)) (to_u8 offset + 1)
           in if messageSize = 0
              then if \<not> checkFrameSize c payload 6 (cfg_first c)
                   then Some (Inl INVALID_FRAME_SIZE)
                   else let escapedMessageSize = be32 payload (offset + 2)
                        in if escapedMessageSize \<le> ESCAPED_SEQ_MESSAGE_SIZE
                              \<or> escapedMessageSize > MAX_MESSAGE_SIZE
                           then Some (Inl INVALID_MESSAGE_SIZE)
                           else decodeFirstFrame_sized c payload (to_u16 escapedMessageSize) 6
                                  consecutiveFrameDataSize
              else decodeFirstFrame_sized c payload messageSize 2 consecutiveFrameDataSize
      else Some (Inl INVALID_FRAME_SIZE))"

definition decodeConsecutiveFrame :: "codec_config \<Rightarrow> u8 list \<Rightarrow> codec_error + (u8 \<times> u8 list)" where
  "decodeConsecutiveFrame c payload =
     (if checkFrameSize c payload 2 (cfg_consecutive c)
      then let offset = cfg_offset c
           in Inr (payload ! offset AND 0x0F, drop (offset + 1) payload)
      else Inl INVALID_FRAME_SIZE)"

definition decodeFlowControlFrame ::
  "codec_config \<Rightarrow> u8 list \<Rightarrow> codec_error + (FlowStatus \<times> u8 \<times> u8)" where
  "decodeFlowControlFrame c payload =
     (if checkFrameSize c payload 3 (cfg_flow_control c)
      then let offset = cfg_offset c
           in Inr (flow_status_of (unat (payload ! offset AND 0x0F)),
                   payload ! (offset + 1), payload ! (offset + 2))
      else Inl INVALID_FRAME_SIZE)"

definition getEncodedFrameCount :: "codec_config \<Rightarrow> nat \<Rightarrow> (codec_error + (nat \<times> nat)) option" where
  "getEncodedFrameCount c messageSize = do {
     ensure (sc_max (cfg_consecutive c) \<ge> cfg_offset c + 2);
     if messageSize = 0 then Some (Inl INVALID_MESSAGE_SIZE)
     else do {
       msgFitsIntoLongSingleFrame \<leftarrow> fitsIntoLongSingleFrame c messageSize;
       let msgFitsIntoShortSingleFrame = fitsIntoShortSingleFrame c messageSize;
       if msgFitsIntoShortSingleFrame \<or> msgFitsIntoLongSingleFrame
       then Some (Inr (1, 0))
       else let consecutiveFrameDataSize =
                  u8_sub (sc_max (cfg_consecutive c)) (cfg_offset c + 1);
                count = messageSize div consecutiveFrameDataSize
            in if count \<ge> MAX_FRAME_INDEX then Some (Inl INVALID_MESSAGE_SIZE)
               else Some (Inr (to_u16 (count + 1), consecutiveFrameDataSize)) } }"

text \<open>
  \<^verbatim>\<open>adjustFrame\<close> pads the first \<open>payloadSize\<close> bytes of the buffer and
  shortens the span. The result holds the span after the call, also when the call fails.
\<close>

type_synonym mapper = "nat \<Rightarrow> nat option"

definition adjustFrame ::
  "codec_config \<Rightarrow> mapper \<Rightarrow> u8 list \<Rightarrow> nat \<Rightarrow> nat \<Rightarrow> (codec_error option \<times> u8 list) option" where
  "adjustFrame c m payload payloadSize minFrameSize =
     (case m (max payloadSize minFrameSize) of
        None \<Rightarrow> Some (Some INVALID_FRAME_SIZE, payload)
      | Some paddedFrameSize \<Rightarrow>
          if paddedFrameSize > payloadSize
          then if paddedFrameSize > length payload
               then Some (Some INVALID_FRAME_SIZE, payload)
               else do {
                 payload \<leftarrow> mem_set payload payloadSize (paddedFrameSize - payloadSize) (cfg_filler c);
                 Some (None, take paddedFrameSize payload) }
          else do {
            ensure (paddedFrameSize \<le> length payload);
            Some (None, take paddedFrameSize payload) })"

text \<open>
  The header of the first frame of a message: the buffer with the header bytes, the offset at
  which the data start, the number of data bytes and the minimum frame size.
\<close>

definition encodeFirstHeader ::
  "codec_config \<Rightarrow> u8 list \<Rightarrow> nat \<Rightarrow> nat \<Rightarrow> (u8 list \<times> nat \<times> nat \<times> nat) option" where
  "encodeFirstHeader c payload pendingMessageSize consecutiveFrameDataSize =
     (let offset = cfg_offset c in
      if pendingMessageSize \<le> ESCAPED_SEQ_MESSAGE_SIZE
      then do {
        payload \<leftarrow> put_be16 payload offset (pendingMessageSize mod 4096);
        payload \<leftarrow> put_byte payload offset (payload ! offset OR 0x10);
        Some (payload, to_u8 (to_u8 offset + 2), u8_sub consecutiveFrameDataSize 1,
              sc_min (cfg_first c)) }
      else do {
        payload \<leftarrow> put_byte payload offset 0;
        payload \<leftarrow> put_byte payload (offset + 1) 0;
        payload \<leftarrow> put_be32 payload (offset + 2) pendingMessageSize;
        payload \<leftarrow> put_byte payload offset (payload ! offset OR 0x10);
        Some (payload, to_u8 (to_u8 (to_u8 offset + 2) + 4),
              u8_sub (u8_sub consecutiveFrameDataSize 1) 4, sc_min (cfg_first c)) })"

definition encodeDataHeader ::
  "codec_config \<Rightarrow> u8 list \<Rightarrow> nat \<Rightarrow> nat \<Rightarrow> nat \<Rightarrow>
     (codec_error + (u8 list \<times> nat \<times> nat \<times> nat)) option" where
  "encodeDataHeader c payload pendingMessageSize frameIndex consecutiveFrameDataSize =
     (let offset = cfg_offset c in
      if frameIndex = 0
      then if fitsIntoShortSingleFrame c pendingMessageSize
           then do {
             payload \<leftarrow> put_byte payload offset 0;
             payload \<leftarrow> put_byte payload offset
                         (payload ! offset OR (byte_of pendingMessageSize AND 0x0F));
             Some (Inr (payload, to_u8 (to_u8 offset + 1), to_u8 pendingMessageSize,
                        sc_min (cfg_single c))) }
           else do {
             long \<leftarrow> fitsIntoLongSingleFrame c pendingMessageSize;
             if long
             then do {
               payload \<leftarrow> put_byte payload offset 0;
               payload \<leftarrow> put_byte payload (offset + 1) (byte_of pendingMessageSize);
               Some (Inr (payload, to_u8 (to_u8 offset + 2), to_u8 pendingMessageSize,
                          sc_min (cfg_single c))) }
             else if consecutiveFrameDataSize > 0
             then do {
               h \<leftarrow> encodeFirstHeader c payload pendingMessageSize consecutiveFrameDataSize;
               Some (Inr h) }
             else Some (Inl INVALID_FRAME_INDEX) }
      else if consecutiveFrameDataSize > 0
      then do {
        payload \<leftarrow> put_byte payload offset 0x20;
        payload \<leftarrow> put_byte payload offset
                    (payload ! offset OR (byte_of frameIndex AND 0x0F));
        let consumed = to_u8 (min consecutiveFrameDataSize pendingMessageSize);
        Some (Inr (payload, to_u8 (offset + 1), consumed,
                   max consumed (sc_min (cfg_consecutive c)))) }
      else Some (Inl INVALID_FRAME_INDEX))"

definition encodeDataFrame ::
  "codec_config \<Rightarrow> mapper \<Rightarrow> u8 list \<Rightarrow> u8 list \<Rightarrow> nat \<Rightarrow> nat \<Rightarrow>
     (codec_error + (u8 list \<times> nat)) option" where
  "encodeDataFrame c m payload data frameIndex consecutiveFrameDataSize =
     (if length data = 0 \<or> length data > MAX_MESSAGE_SIZE then Some (Inl INVALID_FRAME_INDEX)
      else do {
        hdr \<leftarrow> encodeDataHeader c payload (length data) frameIndex consecutiveFrameDataSize;
        case hdr of
          Inl e \<Rightarrow> Some (Inl e)
        | Inr (payload, destOffset, consumedDataSize, minFrameSize) \<Rightarrow>
            let payloadSize = to_u8 (destOffset + consumedDataSize) in
            if payloadSize > length payload then Some (Inl INVALID_FRAME_SIZE)
            else do {
              payload \<leftarrow> mem_copy data consumedDataSize payload destOffset;
              r \<leftarrow> adjustFrame c m payload payloadSize minFrameSize;
              (case r of
                 (Some e, _) \<Rightarrow> Some (Inl e)
               | (None, payload) \<Rightarrow> Some (Inr (payload, consumedDataSize))) } })"

text \<open>
  The flow control encoder. Its caller ignores the result and sends the span as it is after
  the call, so the span is part of the result in every case.
\<close>

definition encodeFlowControlFrame ::
  "codec_config \<Rightarrow> mapper \<Rightarrow> u8 list \<Rightarrow> FlowStatus \<Rightarrow> u8 \<Rightarrow> u8 \<Rightarrow>
     (codec_error option \<times> u8 list) option" where
  "encodeFlowControlFrame c m payload flowStatus blockSize encodedMinSeparationTime =
     (let offset = cfg_offset c in
      if length payload < offset + 3 then Some (Some INVALID_FRAME_SIZE, payload)
      else do {
        payload \<leftarrow> put_byte payload offset 0x30;
        payload \<leftarrow> put_byte payload offset
                    (payload ! offset OR (byte_of (flow_status_code flowStatus) AND 0x0F));
        payload \<leftarrow> put_byte payload (offset + 1) blockSize;
        payload \<leftarrow> put_byte payload (offset + 2) encodedMinSeparationTime;
        adjustFrame c m payload (to_u8 (to_u8 offset + 3)) (sc_min (cfg_flow_control c)) })"

section \<open>The frame decoder\<close>

text \<open>
  \<^verbatim>\<open>DoCanFrameDecoder::decodeFrame\<close> calls one method of the frame receiver; the
  model returns that call as a value.
\<close>

datatype frame_event =
    FirstDataFrame nat nat nat "u8 list"
  | ConsecutiveDataFrame u8 "u8 list"
  | FlowControlFrame FlowStatus u8 u8

definition decodeFrame :: "codec_config \<Rightarrow> u8 list \<Rightarrow> (codec_error + frame_event) option" where
  "decodeFrame c payload =
     (case decodeFrameType c payload of
        Inl e \<Rightarrow> Some (Inl e)
      | Inr FT_SINGLE \<Rightarrow>
          (case decodeSingleFrame c payload of
             Inl e \<Rightarrow> Some (Inl e)
           | Inr (messageSize, data) \<Rightarrow> Some (Inr (FirstDataFrame messageSize 1 0 data)))
      | Inr FT_FIRST \<Rightarrow> do {
          r \<leftarrow> decodeFirstFrame c payload;
          (case r of
             Inl e \<Rightarrow> Some (Inl e)
           | Inr f \<Rightarrow> Some (Inr (FirstDataFrame (ff_messageSize f) (ff_frameCount f)
                                   (ff_consecutiveFrameDataSize f) (ff_data f)))) }
      | Inr FT_CONSECUTIVE \<Rightarrow>
          (case decodeConsecutiveFrame c payload of
             Inl e \<Rightarrow> Some (Inl e)
           | Inr (sequenceNumber, data) \<Rightarrow> Some (Inr (ConsecutiveDataFrame sequenceNumber data)))
      | Inr FT_FLOW_CONTROL \<Rightarrow>
          (case decodeFlowControlFrame c payload of
             Inl e \<Rightarrow> Some (Inl e)
           | Inr (flowStatus, blockSize, st) \<Rightarrow> Some (Inr (FlowControlFrame flowStatus blockSize st)))
      | Inr (FT_other _) \<Rightarrow> Some (Inl INVALID_FRAME_TYPE))"

end
