(* ===== verification/DocanCodecCorrect.thy ===== *)
theory DocanCodecCorrect imports DocanCodec begin

text \<open>
  Correctness of the frame codec: the contract of a frame size mapper as a locale with the
  two mappers of the code as interpretations, the well-formed configurations, and for these
  the round trips of every frame type through the encoder and the decoder.
\<close>

section \<open>The frame size mapper contract\<close>

locale frame_size_mapper =
  fixes mapSize :: "nat \<Rightarrow> nat option" and frameMax :: nat
  assumes map_mono: "mapSize a = Some x \<Longrightarrow> mapSize b = Some y \<Longrightarrow> a \<le> b \<Longrightarrow> x \<le> y"
    and map_defined: "n \<le> frameMax \<Longrightarrow> mapSize n \<noteq> None"
    and map_ge: "mapSize n = Some k \<Longrightarrow> n \<le> k"
    and map_small: "n \<le> 8 \<Longrightarrow> mapSize n = Some n"
    and map_max: "mapSize frameMax = Some frameMax"
begin

lemma map_bounds:
  assumes "n \<le> frameMax"
  obtains k where "mapSize n = Some k" "n \<le> k" "k \<le> frameMax"
  using map_defined [OF assms] map_ge map_mono [OF _ map_max assms] by auto

lemma adjust_ok:
  assumes "length p = frameMax" "n \<le> frameMax" "mf \<le> frameMax"
  obtains k where "mapSize (max n mf) = Some k" "n \<le> k" "k \<le> frameMax"
    "adjustFrame c mapSize p n mf = Some (None, take n p @ replicate (k - n) (cfg_filler c))"
proof -
  obtain k where k: "mapSize (max n mf) = Some k" "max n mf \<le> k" "k \<le> frameMax"
    using assms by (auto intro: map_bounds [of "max n mf"])
  have "adjustFrame c mapSize p n mf = Some (None, take n p @ replicate (k - n) (cfg_filler c))"
    using k assms by (auto simp: adjustFrame_def)
  with k that show thesis by auto
qed

end

lemma mapFrameSize_fd_ge: "n \<le> 64 \<Longrightarrow> n \<le> fd_sizes ! n"
proof -
  have "\<forall>i \<in> set [0..<65]. i \<le> fd_sizes ! i" by (simp add: fd_sizes_def upt_rec)
  then show "n \<le> 64 \<Longrightarrow> n \<le> fd_sizes ! n" by simp
qed

lemma mapFrameSize_fd_small: "n \<le> 8 \<Longrightarrow> fd_sizes ! n = n"
proof -
  have "\<forall>i \<in> set [0..<9]. fd_sizes ! i = i" by (simp add: fd_sizes_def upt_rec)
  then show "n \<le> 8 \<Longrightarrow> fd_sizes ! n = n" by simp
qed

lemma length_fd_sizes [simp]: "length fd_sizes = 65"
  by (simp add: fd_sizes_def)

lemma fd_sizes_64: "fd_sizes ! 64 = 64"
  by (simp add: fd_sizes_def)

lemma mapFrameSize_fd_mono: "a \<le> b \<Longrightarrow> b \<le> 64 \<Longrightarrow> fd_sizes ! a \<le> fd_sizes ! b"
proof -
  have "sorted fd_sizes" by (simp add: fd_sizes_def)
  then show "a \<le> b \<Longrightarrow> b \<le> 64 \<Longrightarrow> fd_sizes ! a \<le> fd_sizes ! b" by (simp add: sorted_nth_mono)
qed

interpretation default_classic: frame_size_mapper mapFrameSize_default 8
  by unfold_locales (auto simp: mapFrameSize_default_def)

interpretation default_fd: frame_size_mapper mapFrameSize_default 64
  by unfold_locales (auto simp: mapFrameSize_default_def)

interpretation fd_classic: frame_size_mapper mapFrameSize_fd 8
  by unfold_locales
    (auto simp: mapFrameSize_fd_def mapFrameSize_fd_ge mapFrameSize_fd_small
      mapFrameSize_fd_mono split: if_splits)

interpretation fd_fd: frame_size_mapper mapFrameSize_fd 64
  by unfold_locales
    (auto simp: mapFrameSize_fd_def mapFrameSize_fd_ge mapFrameSize_fd_small fd_sizes_64
      mapFrameSize_fd_mono split: if_splits)

section \<open>Well-formed configurations\<close>

definition codec_wf :: "codec_config \<Rightarrow> nat \<Rightarrow> bool" where
  "codec_wf c F =
     (8 \<le> F \<and> F \<le> 64 \<and> cfg_offset c \<le> 1
      \<and> sc_min (cfg_single c) \<le> 8 \<and> sc_max (cfg_single c) = F
      \<and> sc_min (cfg_first c) \<le> F \<and> sc_max (cfg_first c) = F
      \<and> sc_min (cfg_consecutive c) \<le> F \<and> sc_max (cfg_consecutive c) = F
      \<and> sc_min (cfg_flow_control c) \<le> F \<and> sc_max (cfg_flow_control c) = F)"

text \<open>Data bytes in a consecutive frame, and in the first frame of a message of \<open>n\<close> bytes.\<close>

definition cf_size :: "codec_config \<Rightarrow> nat \<Rightarrow> nat" where
  "cf_size c F = F - (cfg_offset c + 1)"

definition ff_size :: "codec_config \<Rightarrow> nat \<Rightarrow> nat \<Rightarrow> nat" where
  "ff_size c F n = (if n \<le> 4095 then cf_size c F - 1 else cf_size c F - 5)"

definition fits_single :: "codec_config \<Rightarrow> nat \<Rightarrow> nat \<Rightarrow> bool" where
  "fits_single c F n \<longleftrightarrow> n + cfg_offset c + 1 \<le> 8 \<or> n + cfg_offset c + 2 \<le> F"

locale docan_link = frame_size_mapper mapSize frameMax
  for mapSize :: "nat \<Rightarrow> nat option" and frameMax :: nat +
  fixes c :: codec_config
  assumes wf: "codec_wf c frameMax"
begin

lemma wf_facts:
  "8 \<le> frameMax" "frameMax \<le> 64" "cfg_offset c \<le> 1"
  "sc_min (cfg_single c) \<le> 8" "sc_max (cfg_single c) = frameMax"
  "sc_min (cfg_first c) \<le> frameMax" "sc_max (cfg_first c) = frameMax"
  "sc_min (cfg_consecutive c) \<le> frameMax" "sc_max (cfg_consecutive c) = frameMax"
  "sc_min (cfg_flow_control c) \<le> frameMax" "sc_max (cfg_flow_control c) = frameMax"
  using wf by (simp_all add: codec_wf_def)

lemma cf_size_bounds: "6 \<le> cf_size c frameMax" "cf_size c frameMax < 64"
  using wf_facts by (simp_all add: cf_size_def)

lemma short_iff: "fitsIntoShortSingleFrame c n \<longleftrightarrow> n + cfg_offset c + 1 \<le> 8"
  using wf_facts
  by (auto simp: fitsIntoShortSingleFrame_def EXTENDED_SF_DL_EDGE_SIZE_def min_def Let_def)

lemma long_eq: "fitsIntoLongSingleFrame c n = Some (n + cfg_offset c + 2 \<le> frameMax)"
  using wf_facts by (auto simp: fitsIntoLongSingleFrame_def Let_def)

lemma frame_count:
  assumes "n \<noteq> 0" "n \<le> 65535"
  shows "getEncodedFrameCount c n =
    Some (if fits_single c frameMax n then Inr (1, 0)
          else Inr (n div cf_size c frameMax + 1, cf_size c frameMax))"
proof -
  have "n div cf_size c frameMax \<le> 65535 div 6"
    using assms cf_size_bounds by (meson div_le_mono2 div_le_mono le_trans zero_less_numeral)
  then have "n div cf_size c frameMax < 65535" by simp
  moreover have "u8_sub frameMax (cfg_offset c + 1) = cf_size c frameMax"
    using wf_facts by (simp add: cf_size_def)
  ultimately show ?thesis
    using assms wf_facts
    by (auto simp: getEncodedFrameCount_def long_eq short_iff fits_single_def Let_def)
qed


text \<open>
  Every data encoder ends in the same way: it copies the data behind the header and pads the
  frame. The frame is the header, the data and a padding.
\<close>

lemma encode_from_header:
  assumes hdr: "encodeDataHeader c p (length data) i cf = Some (Inr (q, d, n, mf))"
    and q: "length q = frameMax" "d + n \<le> frameMax" "n \<le> length data" "mf \<le> frameMax"
    and data: "data \<noteq> []" "length data \<le> 65535"
  obtains k where "mapSize (max (d + n) mf) = Some k" "d + n \<le> k" "k \<le> frameMax"
    "encodeDataFrame c mapSize p data i cf =
       Some (Inr (take d q @ take n data @ replicate (k - (d + n)) (cfg_filler c), n))"
proof -
  let ?q = "take d q @ take n data @ drop (d + n) q"
  have len: "length ?q = frameMax" using q by simp
  have t: "take (d + n) ?q = take d q @ take n data" using q by simp
  have small: "to_u8 (d + n) = d + n" "d + n \<le> length q" using q wf_facts by simp_all
  have cp: "mem_copy data n q d = Some ?q" using q by simp
  obtain k where k: "mapSize (max (d + n) mf) = Some k" "d + n \<le> k" "k \<le> frameMax"
    "adjustFrame c mapSize ?q (d + n) mf =
       Some (None, take d q @ take n data @ replicate (k - (d + n)) (cfg_filler c))"
    by (rule adjust_ok [OF len q(2,4), of c]) (simp only: t append.assoc)
  have "encodeDataFrame c mapSize p data i cf =
      Some (Inr (take d q @ take n data @ replicate (k - (d + n)) (cfg_filler c), n))"
    using hdr data small k(4) unfolding encodeDataFrame_def
    by (simp add: cp del: append_take_drop_id take_append)
  with k show thesis by (intro that)
qed

lemma encode_full_frame:
  assumes "encodeDataHeader c p (length data) i cf = Some (Inr (q, d, n, mf))"
    and "length q = frameMax" "d + n = frameMax" "n \<le> length data" "mf \<le> frameMax"
    and "data \<noteq> []" "length data \<le> 65535"
  shows "encodeDataFrame c mapSize p data i cf = Some (Inr (take d q @ take n data, n))"
proof -
  obtain k where "d + n \<le> k" "k \<le> frameMax"
    "encodeDataFrame c mapSize p data i cf =
       Some (Inr (take d q @ take n data @ replicate (k - (d + n)) (cfg_filler c), n))"
    using encode_from_header [OF assms(1,2) _ assms(4-7)] assms(3) by (metis eq_refl)
  then show ?thesis using assms(3) by simp
qed

lemma encode_single_short:
  assumes n: "length data = n" "0 < n" "n + cfg_offset c + 1 \<le> 8"
    and p: "length p = frameMax"
  obtains k where "n + cfg_offset c + 1 \<le> k" "k \<le> 8" "sc_min (cfg_single c) \<le> k"
    "mapSize (max (cfg_offset c + 1 + n) (sc_min (cfg_single c))) = Some k"
    "encodeDataFrame c mapSize p data 0 cf =
       Some (Inr (take (cfg_offset c) p @ byte_of n # data
                    @ replicate (k - (cfg_offset c + 1 + n)) (cfg_filler c), n))"
proof -
  let ?o = "cfg_offset c" and ?mf = "sc_min (cfg_single c)"
  let ?p = "p[?o := byte_of n]"
  have hdr: "encodeDataHeader c p (length data) 0 cf = Some (Inr (?p, ?o + 1, n, ?mf))"
    using assms wf_facts
    by (simp add: encodeDataHeader_def short_iff byte_and_0F Let_def)
  have t: "take (?o + 1) ?p = take ?o p @ [byte_of n]"
    using p wf_facts by (simp add: take_Suc_update)
  have sz: "length ?p = frameMax" "?o + 1 + n \<le> frameMax" "n \<le> length data" "?mf \<le> frameMax"
    "data \<noteq> []" "length data \<le> 65535"
    using assms wf_facts by auto
  obtain k where k: "mapSize (max (?o + 1 + n) ?mf) = Some k" "?o + 1 + n \<le> k"
    "encodeDataFrame c mapSize p data 0 cf =
       Some (Inr (take (?o + 1) ?p @ take n data @ replicate (k - (?o + 1 + n)) (cfg_filler c), n))"
    using encode_from_header [OF hdr sz] by metis
  have "max (?o + 1 + n) ?mf \<le> 8" using assms wf_facts by simp
  then have k8: "k = max (?o + 1 + n) ?mf" using k(1) map_small by simp
  have "encodeDataFrame c mapSize p data 0 cf =
      Some (Inr (take ?o p @ byte_of n # data @ replicate (k - (?o + 1 + n)) (cfg_filler c), n))"
    using k(3) n(1) unfolding t by simp
  then show thesis using k(1) k8 assms(3) wf_facts(4) by (intro that [of k]) auto
qed

lemma encode_single_long:
  assumes n: "length data = n" "8 < n + cfg_offset c + 1" "n + cfg_offset c + 2 \<le> frameMax"
    and p: "length p = frameMax"
  obtains k where "n + cfg_offset c + 2 \<le> k" "k \<le> frameMax" "sc_min (cfg_single c) \<le> k"
    "encodeDataFrame c mapSize p data 0 cf =
       Some (Inr (take (cfg_offset c) p @ 0 # byte_of n # data
                    @ replicate (k - (cfg_offset c + 2 + n)) (cfg_filler c), n))"
proof -
  let ?o = "cfg_offset c" and ?mf = "sc_min (cfg_single c)"
  let ?p = "p[?o := 0, Suc ?o := byte_of n]"
  have hdr: "encodeDataHeader c p (length data) 0 cf = Some (Inr (?p, ?o + 2, n, ?mf))"
    using assms wf_facts
    by (simp add: encodeDataHeader_def short_iff long_eq Let_def)
  have t: "take (?o + 2) ?p = take ?o p @ [0, byte_of n]"
    using p wf_facts by (simp add: take_update_2)
  have sz: "length ?p = frameMax" "?o + 2 + n \<le> frameMax" "n \<le> length data" "?mf \<le> frameMax"
    "data \<noteq> []" "length data \<le> 65535"
    using assms wf_facts by auto
  obtain k where k: "mapSize (max (?o + 2 + n) ?mf) = Some k" "?o + 2 + n \<le> k" "k \<le> frameMax"
    "encodeDataFrame c mapSize p data 0 cf =
       Some (Inr (take (?o + 2) ?p @ take n data @ replicate (k - (?o + 2 + n)) (cfg_filler c), n))"
    using encode_from_header [OF hdr sz] by metis
  have "encodeDataFrame c mapSize p data 0 cf =
      Some (Inr (take ?o p @ 0 # byte_of n # data @ replicate (k - (?o + 2 + n)) (cfg_filler c), n))"
    using k(4) n(1) unfolding t by simp
  moreover have "?mf \<le> k" using k(2) n(2) wf_facts(4) by linarith
  ultimately show thesis using k(2,3) by (intro that [of k]) auto
qed

lemma decode_single_short:
  assumes n: "length data = n" "0 < n" and pre: "length pre = cfg_offset c"
    and k: "cfg_offset c + 1 + n + length pad \<le> 8"
      "sc_min (cfg_single c) \<le> cfg_offset c + 1 + n + length pad"
  shows "decodeFrame c (pre @ byte_of n # data @ pad) = Some (Inr (FirstDataFrame n 1 0 data))"
proof -
  let ?f = "pre @ byte_of n # data @ pad"
  have n16: "n < 16" using assms by simp
  have at: "?f ! cfg_offset c = byte_of n" using pre by (simp add: nth_append)
  have "decodeFrameType c ?f = Inr FT_SINGLE"
    using n16 pre by (simp add: decodeFrameType_def at header_byte frame_type_of_def)
  moreover have "decodeSingleFrame c ?f = Inr (n, data)"
    using assms n16 wf_facts
    by (auto simp: decodeSingleFrame_def at header_byte checkFrameSize_def
        EXTENDED_SF_DL_EDGE_SIZE_def Let_def)
  ultimately show ?thesis by (simp add: decodeFrame_def)
qed

lemma decode_single_long:
  assumes n: "length data = n" "8 < n + cfg_offset c + 1" and pre: "length pre = cfg_offset c"
    and k: "cfg_offset c + 2 + n + length pad \<le> frameMax"
      "sc_min (cfg_single c) \<le> cfg_offset c + 2 + n + length pad"
  shows "decodeFrame c (pre @ 0 # byte_of n # data @ pad) = Some (Inr (FirstDataFrame n 1 0 data))"
proof -
  let ?f = "pre @ 0 # byte_of n # data @ pad"
  have at: "?f ! cfg_offset c = 0" "?f ! (cfg_offset c + 1) = byte_of n"
    using pre by (simp_all add: nth_append)
  have "decodeFrameType c ?f = Inr FT_SINGLE"
    using pre by (simp add: decodeFrameType_def at frame_type_of_def)
  moreover have "decodeSingleFrame c ?f = Inr (n, data)"
    using assms wf_facts at
    by (auto simp: decodeSingleFrame_def checkFrameSize_def EXTENDED_SF_DL_EDGE_SIZE_def Let_def)
  ultimately show ?thesis by (simp add: decodeFrame_def)
qed

lemma single_roundtrip:
  assumes "length data = n" "0 < n" "fits_single c frameMax n" "length p = frameMax"
  obtains f where "encodeDataFrame c mapSize p data 0 cf = Some (Inr (f, n))"
    "decodeFrame c f = Some (Inr (FirstDataFrame n 1 0 data))" "length f \<le> frameMax"
proof (cases "n + cfg_offset c + 1 \<le> 8")
  case True
  obtain k where k: "n + cfg_offset c + 1 \<le> k" "k \<le> 8" "sc_min (cfg_single c) \<le> k"
    "encodeDataFrame c mapSize p data 0 cf =
       Some (Inr (take (cfg_offset c) p @ byte_of n # data
                    @ replicate (k - (cfg_offset c + 1 + n)) (cfg_filler c), n))"
    using encode_single_short [OF assms(1,2) True assms(4)] by metis
  show thesis
    using k assms wf_facts by (intro that [OF k(4)] decode_single_short) auto
next
  case False
  then have n: "8 < n + cfg_offset c + 1" "n + cfg_offset c + 2 \<le> frameMax"
    using assms(3) by (auto simp: fits_single_def)
  obtain k where k: "n + cfg_offset c + 2 \<le> k" "k \<le> frameMax" "sc_min (cfg_single c) \<le> k"
    "encodeDataFrame c mapSize p data 0 cf =
       Some (Inr (take (cfg_offset c) p @ 0 # byte_of n # data
                    @ replicate (k - (cfg_offset c + 2 + n)) (cfg_filler c), n))"
    using encode_single_long [OF assms(1) n assms(4)] by metis
  show thesis
    using k n assms wf_facts by (intro that [OF k(4)] decode_single_long) auto
qed


lemma not_single_ge: "\<not> fits_single c frameMax n \<Longrightarrow> cf_size c frameMax \<le> n"
  by (auto simp: fits_single_def cf_size_def)

lemma decode_first_sized:
  assumes "\<not> fits_single c frameMax n" "n \<le> 65535"
  shows "decodeFirstFrame_sized c f n ds (cf_size c frameMax) =
    Some (Inr \<lparr>ff_messageSize = n, ff_frameCount = n div cf_size c frameMax + 1,
      ff_consecutiveFrameDataSize = cf_size c frameMax,
      ff_data = take (cf_size c frameMax + 1 - ds) (drop (cfg_offset c + ds) f)\<rparr>)"
proof -
  have "n div cf_size c frameMax \<le> 65535 div 6"
    using assms cf_size_bounds by (meson div_le_mono2 div_le_mono le_trans zero_less_numeral)
  then have "n div cf_size c frameMax < 65535" by simp
  moreover have "0 < n div cf_size c frameMax"
    using not_single_ge [OF assms(1)] cf_size_bounds by (simp add: div_greater_zero_iff)
  moreover have "\<not> n + cfg_offset c + 1 \<le> 8" "\<not> n + cfg_offset c + 2 \<le> frameMax"
    using assms(1) by (auto simp: fits_single_def)
  ultimately show ?thesis
    by (simp add: decodeFirstFrame_sized_def short_iff long_eq Let_def)
qed

lemma encode_first_short:
  assumes n: "length data = n" "n \<le> 4095" "\<not> fits_single c frameMax n"
    and p: "length p = frameMax"
  shows "encodeDataFrame c mapSize p data 0 (cf_size c frameMax) =
    Some (Inr (take (cfg_offset c) p @ [byte_of (n div 256) OR 0x10, byte_of n]
                 @ take (cf_size c frameMax - 1) data, cf_size c frameMax - 1))"
proof -
  let ?o = "cfg_offset c" and ?cf = "cf_size c frameMax"
  let ?p = "p[?o := byte_of (n div 256) OR 0x10, Suc ?o := byte_of n]"
  have "\<not> n + ?o + 1 \<le> 8" "\<not> n + ?o + 2 \<le> frameMax"
    using n by (auto simp: fits_single_def)
  then have hdr: "encodeDataHeader c p (length data) 0 ?cf =
      Some (Inr (?p, ?o + 2, ?cf - 1, sc_min (cfg_first c)))"
    using assms wf_facts cf_size_bounds
    by (simp add: encodeDataHeader_def encodeFirstHeader_def short_iff long_eq put_be16_Some
        ESCAPED_SEQ_MESSAGE_SIZE_def list_update_swap Let_def)
  have t: "take (?o + 2) ?p = take ?o p @ [byte_of (n div 256) OR 0x10, byte_of n]"
    using p wf_facts by (simp add: take_update_2)
  have sz: "length ?p = frameMax" "?o + 2 + (?cf - 1) = frameMax" "?cf - 1 \<le> length data"
    "sc_min (cfg_first c) \<le> frameMax" "data \<noteq> []" "length data \<le> 65535"
    using p n(1,2) wf_facts(1,3,6) not_single_ge [OF n(3)] cf_size_bounds(1)
    by (auto simp: cf_size_def)
  show ?thesis using encode_full_frame [OF hdr sz] unfolding t by simp
qed

lemma encode_first_escaped:
  assumes n: "length data = n" "4095 < n" "n \<le> 65535"
    and p: "length p = frameMax"
  shows "encodeDataFrame c mapSize p data 0 (cf_size c frameMax) =
    Some (Inr (take (cfg_offset c) p @ [0x10, 0, byte_of (n div 16777216), byte_of (n div 65536),
                 byte_of (n div 256), byte_of n] @ take (cf_size c frameMax - 5) data,
               cf_size c frameMax - 5))"
proof -
  let ?o = "cfg_offset c" and ?cf = "cf_size c frameMax"
  let ?h = "[0x10, 0, byte_of (n div 16777216), byte_of (n div 65536), byte_of (n div 256), byte_of n]"
  let ?p = "take ?o p @ ?h @ drop (?o + 6) p"
  have upd: "p[?o := 0, Suc ?o := 0, Suc (Suc ?o) := byte_of (n div 16777216),
      Suc (Suc (Suc ?o)) := byte_of (n div 65536), Suc (Suc (Suc (Suc ?o))) := byte_of (n div 256), 5 + ?o := byte_of n,
      ?o := 0x10] = ?p"
    using put_block6 [of ?o p 0 0 "byte_of (n div 16777216)" "byte_of (n div 65536)"
        "byte_of (n div 256)" "byte_of n"] p wf_facts by (simp add: list_update_append)
  have "\<not> n + ?o + 1 \<le> 8" "\<not> n + ?o + 2 \<le> frameMax" using n wf_facts by auto
  then have hdr: "encodeDataHeader c p (length data) 0 ?cf =
      Some (Inr (?p, ?o + 6, ?cf - 5, sc_min (cfg_first c)))"
    using assms wf_facts cf_size_bounds upd
    by (simp add: encodeDataHeader_def encodeFirstHeader_def short_iff long_eq put_be32_Some
        ESCAPED_SEQ_MESSAGE_SIZE_def nth_list_update Let_def)
  have t: "take (?o + 6) ?p = take ?o p @ ?h" using p wf_facts by simp
  have sz: "length ?p = frameMax" "?o + 6 + (?cf - 5) = frameMax" "?cf - 5 \<le> length data"
    "sc_min (cfg_first c) \<le> frameMax" "data \<noteq> []" "length data \<le> 65535"
    using p n wf_facts(1,2,3,6) by (auto simp: cf_size_def)
  show ?thesis using encode_full_frame [OF hdr sz] unfolding t by simp
qed

end

section \<open>Frames of segmented messages\<close>

context docan_link begin

lemma decode_first_short:
  assumes n: "n \<le> 4095" "\<not> fits_single c frameMax n" and pre: "length pre = cfg_offset c"
    and d: "length d = cf_size c frameMax - 1"
  shows "decodeFrame c (pre @ [byte_of (n div 256) OR 0x10, byte_of n] @ d) =
    Some (Inr (FirstDataFrame n (n div cf_size c frameMax + 1) (cf_size c frameMax) d))"
proof -
  let ?o = "cfg_offset c" and ?f = "pre @ [byte_of (n div 256) OR 0x10, byte_of n] @ d"
  have len: "length ?f = frameMax" using d pre wf_facts(1,3) by (simp add: cf_size_def)
  have at: "?f ! ?o = byte_of (n div 256) OR 0x10" "?f ! (?o + 1) = byte_of n"
    "drop (?o + 2) ?f = d"
    using pre by (simp_all add: nth_append)
  have k: "n div 256 < 16" "n < 4096" using n(1) by auto
  have be: "be16 ?f ?o mod 4096 = n"
  proof -
    have "be16 ?f ?o = (16 + n div 256) * 256 + n mod 256"
      unfolding be16_def at header_byte(8) [OF k(1)] unat_byte_of ..
    also have "\<dots> = 4096 + (n div 256 * 256 + n mod 256)" by (simp add: add_mult_distrib)
    also have "\<dots> = 4096 + n" by (simp only: div_mult_mod_eq)
    finally show ?thesis using k(2) by simp
  qed
  have n0: "n \<noteq> 0" using n(2) wf_facts(3) by (auto simp: fits_single_def)
  have chk: "checkFrameSize c ?f 3 (cfg_first c)"
    using len wf_facts(1,3,6,7) by (simp add: checkFrameSize_def)
  have cf: "u8_sub (to_u8 (length ?f)) (to_u8 ?o + 1) = cf_size c frameMax"
    using len wf_facts(1-3) by (simp add: cf_size_def)
  have ty: "decodeFrameType c ?f = Inr FT_FIRST"
    using pre unfolding decodeFrameType_def Let_def at(1) header_byte(2) [OF k(1)]
    by (simp add: frame_type_of_def)
  have sized: "decodeFirstFrame_sized c ?f n 2 (cf_size c frameMax) = Some (Inr \<lparr>ff_messageSize = n,
      ff_frameCount = n div cf_size c frameMax + 1,
      ff_consecutiveFrameDataSize = cf_size c frameMax, ff_data = d\<rparr>)"
    using decode_first_sized [OF n(2), of ?f 2] n(1) d unfolding at(3) by simp
  have "decodeFirstFrame c ?f = Some (Inr \<lparr>ff_messageSize = n,
      ff_frameCount = n div cf_size c frameMax + 1,
      ff_consecutiveFrameDataSize = cf_size c frameMax, ff_data = d\<rparr>)"
    unfolding decodeFirstFrame_def Let_def be cf sized using chk n0 by simp
  then show ?thesis unfolding decodeFrame_def ty by simp
qed

lemma decode_first_escaped:
  assumes n: "4095 < n" "n \<le> 65535" and pre: "length pre = cfg_offset c"
    and d: "length d = cf_size c frameMax - 5"
  shows "decodeFrame c (pre @ [0x10, 0, byte_of (n div 16777216), byte_of (n div 65536),
                 byte_of (n div 256), byte_of n] @ d) =
    Some (Inr (FirstDataFrame n (n div cf_size c frameMax + 1) (cf_size c frameMax) d))"
proof -
  let ?o = "cfg_offset c"
  let ?h = "[0x10, 0, byte_of (n div 16777216), byte_of (n div 65536), byte_of (n div 256), byte_of n]"
  let ?f = "pre @ ?h @ d"
  have len: "length ?f = frameMax" using d pre wf_facts(1,3) by (simp add: cf_size_def)
  have at: "?f ! ?o = 0x10" "?f ! (?o + 1) = 0" "?f ! (?o + 2) = byte_of (n div 16777216)"
    "?f ! (?o + 2 + 1) = byte_of (n div 65536)" "?f ! (?o + 2 + 2) = byte_of (n div 256)"
    "?f ! (?o + 2 + 3) = byte_of n" "drop (?o + 6) ?f = d"
    using pre by (simp_all add: nth_append)
  have be: "be16 ?f ?o mod 4096 = 0" unfolding be16_def at by simp
  have be': "be32 ?f (?o + 2) = n"
    unfolding be32_def at unat_byte_of using n(2) by (intro be32_decompose) simp
  have single: "\<not> fits_single c frameMax n" using n(1) wf_facts(2) by (simp add: fits_single_def)
  have chk: "checkFrameSize c ?f 3 (cfg_first c)" "checkFrameSize c ?f 6 (cfg_first c)"
    using len wf_facts(1,3,6,7) by (simp_all add: checkFrameSize_def)
  have cf: "u8_sub (to_u8 (length ?f)) (to_u8 ?o + 1) = cf_size c frameMax"
    using len wf_facts(1-3) by (simp add: cf_size_def)
  have ty: "decodeFrameType c ?f = Inr FT_FIRST"
    using pre unfolding decodeFrameType_def Let_def at(1) by (simp add: frame_type_of_def)
  have sized: "decodeFirstFrame_sized c ?f n 6 (cf_size c frameMax) = Some (Inr \<lparr>ff_messageSize = n,
      ff_frameCount = n div cf_size c frameMax + 1,
      ff_consecutiveFrameDataSize = cf_size c frameMax, ff_data = d\<rparr>)"
    using decode_first_sized [OF single n(2), of ?f 6] d unfolding at(7) by simp
  have u16: "to_u16 n = n" using n(2) by simp
  have "decodeFirstFrame c ?f = Some (Inr \<lparr>ff_messageSize = n,
      ff_frameCount = n div cf_size c frameMax + 1,
      ff_consecutiveFrameDataSize = cf_size c frameMax, ff_data = d\<rparr>)"
    unfolding decodeFirstFrame_def Let_def be cf be' u16 sized using chk n
    by (simp add: ESCAPED_SEQ_MESSAGE_SIZE_def)
  then show ?thesis unfolding decodeFrame_def ty by simp
qed

lemma encode_consecutive:
  assumes data: "data \<noteq> []" "length data \<le> 65535" and i: "0 < i" and p: "length p = frameMax"
  obtains k where "cfg_offset c + 1 + min (cf_size c frameMax) (length data) \<le> k" "k \<le> frameMax"
    "sc_min (cfg_consecutive c) \<le> k"
    "encodeDataFrame c mapSize p data i (cf_size c frameMax) =
       Some (Inr (take (cfg_offset c) p @ [0x20 OR byte_of (i mod 16)]
                    @ take (cf_size c frameMax) data
                    @ replicate (k - (cfg_offset c + 1 + min (cf_size c frameMax) (length data)))
                        (cfg_filler c),
                  min (cf_size c frameMax) (length data)))"
proof -
  let ?o = "cfg_offset c" and ?cf = "cf_size c frameMax"
  let ?n = "min ?cf (length data)" and ?p = "p[cfg_offset c := 0x20 OR byte_of (i mod 16)]"
  have o: "?o < length p" "?o + 1 < 256" "?n < 256" using p wf_facts(1-3) cf_size_bounds by auto
  have hdr: "encodeDataHeader c p (length data) i ?cf =
      Some (Inr (?p, ?o + 1, ?n, max ?n (sc_min (cfg_consecutive c))))"
    using i o cf_size_bounds(1) by (simp add: encodeDataHeader_def byte_and_0F Let_def)
  have t: "take (?o + 1) ?p = take ?o p @ [0x20 OR byte_of (i mod 16)]"
    using o(1) by (simp add: take_Suc_update)
  have cfF: "?o + 1 + ?cf = frameMax" using wf_facts(1,3) by (simp add: cf_size_def)
  have sz: "length ?p = frameMax" "?o + 1 + ?n \<le> frameMax" "?n \<le> length data"
    "max ?n (sc_min (cfg_consecutive c)) \<le> frameMax"
    using p cfF wf_facts(8) by auto
  obtain k where k: "mapSize (max (?o + 1 + ?n) (max ?n (sc_min (cfg_consecutive c)))) = Some k"
    "?o + 1 + ?n \<le> k" "k \<le> frameMax"
    "encodeDataFrame c mapSize p data i ?cf =
       Some (Inr (take (?o + 1) ?p @ take ?n data @ replicate (k - (?o + 1 + ?n)) (cfg_filler c), ?n))"
    using encode_from_header [OF hdr sz data] by metis
  have "sc_min (cfg_consecutive c) \<le> k" using map_ge [OF k(1)] by simp
  moreover have "take ?n data = take ?cf data" by (simp add: min_def)
  ultimately show thesis using k t by (intro that [of k]) auto
qed

lemma decode_consecutive:
  assumes pre: "length pre = cfg_offset c" and k: "k < 16" and d: "d \<noteq> []"
    and sz: "cfg_offset c + 1 + length d \<le> frameMax"
      "sc_min (cfg_consecutive c) \<le> cfg_offset c + 1 + length d"
  shows "decodeFrame c (pre @ [0x20 OR byte_of k] @ d) =
    Some (Inr (ConsecutiveDataFrame (byte_of k) d))"
proof -
  let ?f = "pre @ [0x20 OR byte_of k] @ d"
  have at: "?f ! cfg_offset c = 0x20 OR byte_of k" "drop (cfg_offset c + 1) ?f = d"
    using pre by (simp_all add: nth_append)
  have "1 \<le> length d" using d by (cases d) auto
  then have chk: "checkFrameSize c ?f 2 (cfg_consecutive c)"
    using sz pre wf_facts(9) by (simp add: checkFrameSize_def)
  have "decodeFrameType c ?f = Inr FT_CONSECUTIVE"
    using pre unfolding decodeFrameType_def Let_def at(1) header_byte(3) [OF k]
    by (simp add: frame_type_of_def)
  moreover have "decodeConsecutiveFrame c ?f = Inr (byte_of k, d)"
    unfolding decodeConsecutiveFrame_def Let_def at using chk header_byte(6) [OF k] by simp
  ultimately show ?thesis unfolding decodeFrame_def by simp
qed

lemma consecutive_roundtrip:
  assumes data: "data \<noteq> []" "length data \<le> 65535" and i: "0 < i" and p: "length p = frameMax"
  obtains f pad where
    "encodeDataFrame c mapSize p data i (cf_size c frameMax) =
       Some (Inr (f, min (cf_size c frameMax) (length data)))"
    "length f \<le> frameMax"
    "decodeFrame c f = Some (Inr (ConsecutiveDataFrame (byte_of (i mod 16))
                                    (take (cf_size c frameMax) data @ pad)))"
proof -
  let ?cf = "cf_size c frameMax" and ?o = "cfg_offset c"
  obtain k where k: "?o + 1 + min ?cf (length data) \<le> k" "k \<le> frameMax"
    "sc_min (cfg_consecutive c) \<le> k"
    "encodeDataFrame c mapSize p data i ?cf =
       Some (Inr (take ?o p @ [0x20 OR byte_of (i mod 16)] @ take ?cf data
          @ replicate (k - (?o + 1 + min ?cf (length data))) (cfg_filler c), min ?cf (length data)))"
    by (rule encode_consecutive [OF assms])
  let ?d = "take ?cf data @ replicate (k - (?o + 1 + min ?cf (length data))) (cfg_filler c)"
  have o: "length (take ?o p) = ?o" using p wf_facts(1,3) by simp
  have ne: "?d \<noteq> []" using data cf_size_bounds(1) by auto
  have len: "?o + 1 + length ?d = k" using k(1) by simp
  show thesis
  proof (rule that [OF k(4)])
    show "length (take ?o p @ [0x20 OR byte_of (i mod 16)] @ take ?cf data
        @ replicate (k - (?o + 1 + min ?cf (length data))) (cfg_filler c)) \<le> frameMax"
      using o len k(2) by simp
    show "decodeFrame c (take ?o p @ [0x20 OR byte_of (i mod 16)] @ take ?cf data
        @ replicate (k - (?o + 1 + min ?cf (length data))) (cfg_filler c)) =
      Some (Inr (ConsecutiveDataFrame (byte_of (i mod 16)) ?d))"
      using decode_consecutive [OF o _ ne, of "i mod 16"] len k(2,3) by simp
  qed
qed
end

context docan_link begin

lemma first_roundtrip:
  assumes n: "length data = n" "n \<le> 65535" "\<not> fits_single c frameMax n"
    and p: "length p = frameMax"
  obtains f where
    "encodeDataFrame c mapSize p data 0 (cf_size c frameMax) = Some (Inr (f, ff_size c frameMax n))"
    "length f = frameMax"
    "decodeFrame c f = Some (Inr (FirstDataFrame n (n div cf_size c frameMax + 1)
                               (cf_size c frameMax) (take (ff_size c frameMax n) data)))"
proof (cases "n \<le> 4095")
  case True
  let ?f = "take (cfg_offset c) p @ [byte_of (n div 256) OR 0x10, byte_of n]
              @ take (cf_size c frameMax - 1) data"
  have o: "length (take (cfg_offset c) p) = cfg_offset c" using p wf_facts(1,3) by simp
  have d: "length (take (cf_size c frameMax - 1) data) = cf_size c frameMax - 1"
    using n not_single_ge [OF n(3)] by simp
  have ff: "ff_size c frameMax n = cf_size c frameMax - 1" using True by (simp add: ff_size_def)
  have len: "length ?f = frameMax" using o d wf_facts(1,3) by (simp add: cf_size_def)
  show thesis
    by (rule that [of ?f])
      (simp_all only: ff len encode_first_short [OF n(1) True n(3) p]
        decode_first_short [OF True n(3) o d])
next
  case False
  then have big: "4095 < n" by simp
  let ?f = "take (cfg_offset c) p @ [0x10, 0, byte_of (n div 16777216), byte_of (n div 65536),
              byte_of (n div 256), byte_of n] @ take (cf_size c frameMax - 5) data"
  have o: "length (take (cfg_offset c) p) = cfg_offset c" using p wf_facts(1,3) by simp
  have d: "length (take (cf_size c frameMax - 5) data) = cf_size c frameMax - 5"
    using n(1) big cf_size_bounds(2) by simp
  have ff: "ff_size c frameMax n = cf_size c frameMax - 5" using big by (simp add: ff_size_def)
  have len: "length ?f = frameMax" using o d wf_facts(1,3) by (simp add: cf_size_def)
  show thesis
    by (rule that [of ?f])
      (simp_all only: ff len encode_first_escaped [OF n(1) big n(2) p]
        decode_first_escaped [OF big n(2) o d])
qed

lemma flow_control_roundtrip:
  assumes fs: "flow_status_of (flow_status_code fs) = fs" "flow_status_code fs < 16"
    and p: "length p = frameMax"
  obtains f where "encodeFlowControlFrame c mapSize p fs bs st = Some (None, f)"
    "length f \<le> frameMax" "decodeFrame c f = Some (Inr (FlowControlFrame fs bs st))"
proof -
  let ?o = "cfg_offset c" and ?k = "flow_status_code fs" and ?mf = "sc_min (cfg_flow_control c)"
  let ?h = "[0x30 OR byte_of ?k, bs, st]"
  let ?p = "p[?o := 0x30 OR byte_of ?k, Suc ?o := bs, Suc (Suc ?o) := st]"
  have len: "length ?p = frameMax" "?o + 3 \<le> frameMax" "?o + 3 \<le> length p"
    using p wf_facts(1,3) by simp_all
  obtain k where k: "?o + 3 \<le> k" "k \<le> frameMax" "mapSize (max (?o + 3) ?mf) = Some k"
    "adjustFrame c mapSize ?p (?o + 3) ?mf =
       Some (None, take (?o + 3) ?p @ replicate (k - (?o + 3)) (cfg_filler c))"
    using adjust_ok [OF len(1,2) wf_facts(10), of c] by metis
  let ?f = "take ?o p @ ?h @ replicate (k - (?o + 3)) (cfg_filler c)"
  have t: "take (?o + 3) ?p = take ?o p @ ?h" by (rule put_block3 [OF len(3)])
  have enc: "encodeFlowControlFrame c mapSize p fs bs st = Some (None, ?f)"
    using k(4) len(3) wf_facts(3) fs(2) unfolding t
    by (simp add: encodeFlowControlFrame_def byte_and_0F Let_def)
  have o: "length (take ?o p) = ?o" using len(3) by simp
  have at: "?f ! ?o = 0x30 OR byte_of ?k" "?f ! (?o + 1) = bs" "?f ! (?o + 2) = st"
    using o by (simp_all add: nth_append)
  have fl: "length ?f = k" using o k(1) by simp
  have chk: "checkFrameSize c ?f 3 (cfg_flow_control c)"
    unfolding checkFrameSize_def fl using k(1,2) map_ge [OF k(3)] wf_facts(11) by simp
  have "decodeFrameType c ?f = Inr FT_FLOW_CONTROL"
    using o unfolding decodeFrameType_def Let_def at(1) header_byte(4) [OF fs(2)]
    by (simp add: frame_type_of_def)
  moreover have "decodeFlowControlFrame c ?f = Inr (fs, bs, st)"
    unfolding decodeFlowControlFrame_def Let_def at header_byte(7) [OF fs(2)]
    using chk fs by simp
  ultimately have "decodeFrame c ?f = Some (Inr (FlowControlFrame fs bs st))"
    unfolding decodeFrame_def by simp
  with enc fl k(2) show thesis by (intro that) auto
qed

end

section \<open>The presets\<close>

interpretation padded_classic: docan_link mapFrameSize_default 8 PADDED_CLASSIC
  by unfold_locales (simp add: codec_wf_def preset_defs)

interpretation optimized_classic: docan_link mapFrameSize_default 8 OPTIMIZED_CLASSIC
  by unfold_locales (simp add: codec_wf_def preset_defs)

interpretation ea_padded_classic: docan_link mapFrameSize_default 8 EA_PADDED_CLASSIC
  by unfold_locales (simp add: codec_wf_def preset_defs)

interpretation ea_optimized_classic: docan_link mapFrameSize_default 8 EA_OPTIMIZED_CLASSIC
  by unfold_locales (simp add: codec_wf_def preset_defs)

interpretation padded_fd: docan_link mapFrameSize_fd 64 PADDED_FD
  by unfold_locales (simp add: codec_wf_def preset_defs)

interpretation optimized_fd: docan_link mapFrameSize_fd 64 OPTIMIZED_FD
  by unfold_locales (simp add: codec_wf_def preset_defs)

interpretation ea_padded_fd: docan_link mapFrameSize_fd 64 EA_PADDED_FD
  by unfold_locales (simp add: codec_wf_def preset_defs)

interpretation ea_optimized_fd: docan_link mapFrameSize_fd 64 EA_OPTIMIZED_FD
  by unfold_locales (simp add: codec_wf_def preset_defs)

text \<open>
  The eight presets, each with the mapper and the frame size of its kind of bus. Properties
  of the codec are stated over this list.
\<close>

definition preset_links :: "(codec_config \<times> mapper \<times> nat) list" where
  "preset_links =
    [(PADDED_CLASSIC, mapFrameSize_default, 8), (OPTIMIZED_CLASSIC, mapFrameSize_default, 8),
     (EA_PADDED_CLASSIC, mapFrameSize_default, 8), (EA_OPTIMIZED_CLASSIC, mapFrameSize_default, 8),
     (PADDED_FD, mapFrameSize_fd, 64), (OPTIMIZED_FD, mapFrameSize_fd, 64),
     (EA_PADDED_FD, mapFrameSize_fd, 64), (EA_OPTIMIZED_FD, mapFrameSize_fd, 64)]"

lemma preset_link: "(c, m, F) \<in> set preset_links \<Longrightarrow> docan_link m F c"
  using padded_classic.docan_link_axioms optimized_classic.docan_link_axioms
    ea_padded_classic.docan_link_axioms ea_optimized_classic.docan_link_axioms
    padded_fd.docan_link_axioms optimized_fd.docan_link_axioms
    ea_padded_fd.docan_link_axioms ea_optimized_fd.docan_link_axioms
  by (auto simp: preset_links_def)

section \<open>Properties\<close>

text \<open>On every preset, a message that fits into a single frame survives the codec: the
  encoder accepts it, and the decoder delivers the same bytes as a complete message.\<close>

theorem single_frame_roundtrip:
  assumes "(c, m, F) \<in> set preset_links" and "length p = F" and "data \<noteq> []"
    and "fits_single c F (length data)"
  shows "\<exists>f. encodeDataFrame c m p data 0 cf = Some (Inr (f, length data)) \<and> length f \<le> F
    \<and> decodeFrame c f = Some (Inr (FirstDataFrame (length data) 1 0 data))"
proof -
  obtain f where "encodeDataFrame c m p data 0 cf = Some (Inr (f, length data))"
    "decodeFrame c f = Some (Inr (FirstDataFrame (length data) 1 0 data))" "length f \<le> F"
    using docan_link.single_roundtrip [OF preset_link [OF assms(1)] refl _ assms(4,2)] assms(3)
    by (metis length_greater_0_conv)
  then show ?thesis by blast
qed

theorem single_frame_roundtrip_witness:
  "\<exists>f. encodeDataFrame EA_OPTIMIZED_FD mapFrameSize_fd (replicate 64 0) [1, 2, 3] 0 0
      = Some (Inr (f, length [1, 2, 3 :: u8])) \<and> length f \<le> 64
    \<and> decodeFrame EA_OPTIMIZED_FD f = Some (Inr (FirstDataFrame (length [1, 2, 3 :: u8]) 1 0 [1, 2, 3]))"
  by (rule single_frame_roundtrip) (simp_all add: preset_links_def fits_single_def preset_defs)

text \<open>On every preset, the first frame of a longer message of up to 65535 bytes fills the
  whole frame and tells the receiver the message size, the frame count and the size of the
  consecutive frames, with the first bytes of the message; from 4096 bytes on with the 32 bit
  length of the escape sequence.\<close>

theorem first_frame_roundtrip:
  assumes "(c, m, F) \<in> set preset_links" and "length p = F"
    and "length data \<le> 65535" and "\<not> fits_single c F (length data)"
  shows "\<exists>f. encodeDataFrame c m p data 0 (cf_size c F) = Some (Inr (f, ff_size c F (length data)))
    \<and> length f = F
    \<and> decodeFrame c f = Some (Inr (FirstDataFrame (length data)
          (length data div cf_size c F + 1) (cf_size c F) (take (ff_size c F (length data)) data)))"
proof -
  obtain f where "encodeDataFrame c m p data 0 (cf_size c F) = Some (Inr (f, ff_size c F (length data)))"
    "length f = F"
    "decodeFrame c f = Some (Inr (FirstDataFrame (length data)
          (length data div cf_size c F + 1) (cf_size c F) (take (ff_size c F (length data)) data)))"
    by (rule docan_link.first_roundtrip [OF preset_link [OF assms(1)] refl assms(3,4,2)])
  then show ?thesis by blast
qed

theorem first_frame_roundtrip_witness:
  "\<exists>f. encodeDataFrame PADDED_CLASSIC mapFrameSize_default (replicate 8 0) (replicate 20 7) 0
         (cf_size PADDED_CLASSIC 8)
      = Some (Inr (f, ff_size PADDED_CLASSIC 8 (length (replicate 20 (7 :: u8)))))
    \<and> length f = 8
    \<and> decodeFrame PADDED_CLASSIC f = Some (Inr (FirstDataFrame (length (replicate 20 (7 :: u8)))
          (length (replicate 20 (7 :: u8)) div cf_size PADDED_CLASSIC 8 + 1) (cf_size PADDED_CLASSIC 8)
          (take (ff_size PADDED_CLASSIC 8 (length (replicate 20 (7 :: u8)))) (replicate 20 7))))"
  by (rule first_frame_roundtrip) (simp_all add: preset_links_def fits_single_def preset_defs)

text \<open>On every preset, a consecutive frame carries the next bytes of the message, as many
  as fit, under the sequence number of its index modulo 16; what the receiver gets behind
  them is padding only.\<close>

theorem consecutive_frame_roundtrip:
  assumes "(c, m, F) \<in> set preset_links" and "length p = F"
    and "data \<noteq> []" and "length data \<le> 65535" and "0 < i"
  shows "\<exists>f pad. encodeDataFrame c m p data i (cf_size c F)
      = Some (Inr (f, min (cf_size c F) (length data))) \<and> length f \<le> F
    \<and> decodeFrame c f = Some (Inr (ConsecutiveDataFrame (byte_of (i mod 16))
          (take (cf_size c F) data @ pad)))"
proof -
  obtain f pad where "encodeDataFrame c m p data i (cf_size c F)
      = Some (Inr (f, min (cf_size c F) (length data)))" "length f \<le> F"
    "decodeFrame c f = Some (Inr (ConsecutiveDataFrame (byte_of (i mod 16))
          (take (cf_size c F) data @ pad)))"
    by (rule docan_link.consecutive_roundtrip [OF preset_link [OF assms(1)] assms(3-5,2)])
  then show ?thesis by blast
qed

theorem consecutive_frame_roundtrip_witness:
  "\<exists>f pad. encodeDataFrame OPTIMIZED_CLASSIC mapFrameSize_default (replicate 8 0) [1, 2] 17
         (cf_size OPTIMIZED_CLASSIC 8)
      = Some (Inr (f, min (cf_size OPTIMIZED_CLASSIC 8) (length [1, 2 :: u8]))) \<and> length f \<le> 8
    \<and> decodeFrame OPTIMIZED_CLASSIC f = Some (Inr (ConsecutiveDataFrame (byte_of (17 mod 16))
          (take (cf_size OPTIMIZED_CLASSIC 8) [1, 2] @ pad)))"
  by (rule consecutive_frame_roundtrip) (simp_all add: preset_links_def)

text \<open>On every preset, a flow control frame brings its status, block size and separation
  time to the peer unchanged.\<close>

theorem flow_control_frame_roundtrip:
  assumes "(c, m, F) \<in> set preset_links" and "length p = F" and "fs \<in> {FS_CTS, FS_WAIT, FS_OVFLW}"
  shows "\<exists>f. encodeFlowControlFrame c m p fs bs st = Some (None, f) \<and> length f \<le> F
    \<and> decodeFrame c f = Some (Inr (FlowControlFrame fs bs st))"
proof -
  have fs: "flow_status_of (flow_status_code fs) = fs" "flow_status_code fs < 16"
    using assms(3) by (auto simp: flow_status_of_def)
  obtain f where "encodeFlowControlFrame c m p fs bs st = Some (None, f)" "length f \<le> F"
    "decodeFrame c f = Some (Inr (FlowControlFrame fs bs st))"
    by (rule docan_link.flow_control_roundtrip [OF preset_link [OF assms(1)] fs assms(2)])
  then show ?thesis by blast
qed

theorem flow_control_frame_roundtrip_witness:
  "\<exists>f. encodeFlowControlFrame PADDED_FD mapFrameSize_fd (replicate 64 0) FS_CTS 8 20 = Some (None, f)
    \<and> length f \<le> 64 \<and> decodeFrame PADDED_FD f = Some (Inr (FlowControlFrame FS_CTS 8 20))"
  by (rule flow_control_frame_roundtrip) (simp_all add: preset_links_def)

lemma adjustFrame_length:
  "adjustFrame c m p n mf = Some (None, f) \<Longrightarrow> m (max n mf) = Some (length f)"
  by (auto simp: adjustFrame_def ensure_def mem_set_def Option.bind_eq_Some_conv
      split: option.splits if_splits)

lemma encodeDataFrame_adjusted:
  assumes "encodeDataFrame c m p data i cf = Some (Inr (f, n))"
  obtains q ps mf where "adjustFrame c m q ps mf = Some (None, f)"
proof -
  obtain hdr where hdr: "encodeDataHeader c p (length data) i cf = Some hdr" "length data \<noteq> 0"
      "\<not> length data > MAX_MESSAGE_SIZE"
    using assms by (auto simp: encodeDataFrame_def Option.bind_eq_Some_conv split: if_splits)
  then obtain q d k mf where "hdr = Inr (q, d, k, mf)"
    using assms by (cases hdr) (auto simp: encodeDataFrame_def)
  then show thesis using assms hdr that
    by (auto simp: encodeDataFrame_def Option.bind_eq_Some_conv Let_def
        split: if_splits option.splits prod.splits)
qed

text \<open>Whatever the configuration, the buffer and the message, every frame that the encoders
  produce with the CAN FD mapper has a length that CAN FD has a data length code for.\<close>

theorem encoded_lengths_are_can_fd_lengths:
  "(encodeDataFrame c mapFrameSize_fd p data i cf = Some (Inr (f, n)) \<longrightarrow> length f \<in> set fd_sizes)
   \<and> (encodeFlowControlFrame c mapFrameSize_fd p fs bs st = Some (None, g) \<longrightarrow> length g \<in> set fd_sizes)"
proof (intro conjI impI)
  have fd: "mapFrameSize_fd x = Some k \<Longrightarrow> k \<in> set fd_sizes" for x k
    by (auto simp: mapFrameSize_fd_def split: if_splits intro!: nth_mem)
  show "length f \<in> set fd_sizes" if "encodeDataFrame c mapFrameSize_fd p data i cf = Some (Inr (f, n))"
    using encodeDataFrame_adjusted [OF that] adjustFrame_length fd by metis
  show "length g \<in> set fd_sizes" if "encodeFlowControlFrame c mapFrameSize_fd p fs bs st = Some (None, g)"
    using that
    by (auto simp: encodeFlowControlFrame_def Option.bind_eq_Some_conv Let_def
        split: if_splits dest!: adjustFrame_length intro: fd)
qed

theorem encoded_lengths_are_can_fd_lengths_witness:
  "length ([0x30, 8, 20] @ replicate 5 0xCC :: u8 list) \<in> set fd_sizes"
  using encoded_lengths_are_can_fd_lengths [of PADDED_FD "replicate 64 0" "[]" 0 0 "[]" 0 FS_CTS 8 20
      "[0x30, 8, 20] @ replicate 5 0xCC"]
  by (simp add: encodeFlowControlFrame_def preset_defs adjustFrame_def mapFrameSize_fd_def fd_sizes_def
      byte_of_def numeral_eq_Suc Let_def)

end
