(* ===== verification/DocanParams.thy ===== *)
theory DocanParams imports BswPrelude begin

text \<open>
  Parameters and time of the transport layer: \<^verbatim>\<open>DoCanParameters\<close> with the encoding
  of the separation time STmin (ISO 15765-2, 9.6.5.4), and the wrapping comparison of
  microsecond counters in \<^verbatim>\<open>DoCanTimerManagement.h\<close>. Time is a \<open>32 word\<close>,
  whose subtraction wraps as \<^verbatim>\<open>uint32_t\<close> does.
\<close>

section \<open>Separation time\<close>

definition decodeMinSeparationTime :: "u8 \<Rightarrow> u32" where
  "decodeMinSeparationTime e =
     (if e \<le> 0x7F then ucast e * 1000
      else if e \<ge> 0xF1 \<and> e \<le> 0xF9 then (ucast e - 0xF0) * 100
      else 0x7F * 1000)"

definition encodeMinSeparationTime :: "u32 \<Rightarrow> u8" where
  "encodeMinSeparationTime t =
     (if t \<ge> 100 \<and> t < 1000 then ucast (t div 100) + 0xF0
      else if t < 0x7F * 1000 then ucast (t div 1000)
      else 0x7F)"

section \<open>Parameters\<close>

record params =
  waitAllocateTimeout :: u16
  waitRxTimeout :: u16
  waitTxCallbackTimeout :: u16
  waitFlowControlTimeout :: u16
  encodedMinSeparationTime :: u8
  maxBlockSize :: u8
  maxAllocateRetryCount :: u8
  maxFlowControlWaitCount :: u8

definition ms_to_us :: "u16 \<Rightarrow> u32" where
  "ms_to_us t = ucast t * 1000"

definition make_params ::
  "u16 \<Rightarrow> u16 \<Rightarrow> u16 \<Rightarrow> u16 \<Rightarrow> u8 \<Rightarrow> u8 \<Rightarrow> u32 \<Rightarrow> u8 \<Rightarrow> params option" where
  "make_params allocT rxT txT fcT retries waits st bs = do {
     ensure (st < ms_to_us allocT);
     ensure (st < ms_to_us rxT);
     ensure (st < ms_to_us txT);
     ensure (st < ms_to_us fcT);
     Some \<lparr>waitAllocateTimeout = allocT, waitRxTimeout = rxT, waitTxCallbackTimeout = txT,
       waitFlowControlTimeout = fcT, encodedMinSeparationTime = encodeMinSeparationTime st,
       maxBlockSize = bs, maxAllocateRetryCount = retries, maxFlowControlWaitCount = waits\<rparr> }"

section \<open>Time\<close>

definition time_less :: "u32 \<Rightarrow> u32 \<Rightarrow> bool" where
  "time_less firstTime secondTime \<longleftrightarrow> firstTime - secondTime > 0x7FFFFFFF"

definition timerExpired :: "u32 \<Rightarrow> u32 \<Rightarrow> bool" where
  "timerExpired timer nowUs = time_less timer (nowUs + 1)"

text \<open>
  A timer is expired exactly when the clock has moved less than half its range past it, so a
  timer set up to \<open>2 ^ 31\<close> microseconds ahead is recognised whatever the counter's value.
\<close>

lemma uint_neg_less:
  "uint (- d - 1 :: u32) = 2 ^ 32 - 1 - uint d"
proof -
  have "0 \<le> uint d" "uint d < 2 ^ 32" by (simp_all add: uint_lt2p [where 'a = 32, simplified])
  then have "(2 ^ 32 - 1 - uint d) mod 2 ^ 32 = 2 ^ 32 - 1 - uint d"
    by (intro mod_pos_pos_trivial) linarith+
  moreover have "(- uint d - 1) mod 2 ^ 32 = (2 ^ 32 - 1 - uint d) mod (2 ^ 32 :: int)"
    by (simp add: mod_eq_dvd_iff)
  ultimately show ?thesis by (simp add: uint_word_ariths mod_simps)
qed

lemma timerExpired_iff: "timerExpired timer now \<longleftrightarrow> uint (now - timer) < 2 ^ 31"
proof -
  have "timer - (now + 1) = - (now - timer) - 1" by simp
  then have "timerExpired timer now \<longleftrightarrow> 0x7FFFFFFF < - (now - timer) - 1"
    unfolding timerExpired_def time_less_def by metis
  also have "\<dots> \<longleftrightarrow> 0x7FFFFFFF < 2 ^ 32 - 1 - uint (now - timer)"
    unfolding word_less_def uint_neg_less by simp
  also have "\<dots> \<longleftrightarrow> uint (now - timer) < 2 ^ 31" by auto
  finally show ?thesis .
qed

lemma time_less_add:
  assumes "0 < d" and "d \<le> 0x80000000"
  shows "time_less t (t + d)"
proof -
  have "t - (t + d) = - (d - 1) - 1" by simp
  moreover have "uint (d - 1) < 2 ^ 31"
    using assms by (simp add: word_less_def word_le_def uint_word_ariths)
  ultimately show ?thesis
    unfolding time_less_def word_less_def by (simp only: uint_neg_less) simp
qed

lemma time_less_irrefl [simp]: "\<not> time_less t t"
  by (simp add: time_less_def)

section \<open>STmin through encoder and decoder\<close>

lemma st_min_micro:
  assumes "100 \<le> t" "t < 1000"
  shows "uint (decodeMinSeparationTime (encodeMinSeparationTime t)) = uint t div 100 * 100"
proof -
  define k where "k = uint t div 100"
  have t: "100 \<le> uint t" "uint t < 1000" using assms by (simp_all add: word_le_def word_less_def)
  then have k: "k \<in> {1, 2, 3, 4, 5, 6, 7, 8, 9}" proof -
    have "100 * k + uint t mod 100 = uint t" unfolding k_def by simp
    moreover have "0 \<le> uint t mod 100" "uint t mod 100 < 100" by simp_all
    ultimately have "1 \<le> k" "k < 10" using t by linarith+
    then show ?thesis by auto
  qed
  have e: "encodeMinSeparationTime t = word_of_int k + 0xF0"
    using assms unfolding encodeMinSeparationTime_def k_def
    by (simp add: ucast_eq uint_div)
  show ?thesis unfolding e k_def [symmetric] using k
    by (elim insertE) (simp_all add: decodeMinSeparationTime_def)
qed

lemma st_min_milli:
  assumes "t < 100 \<or> 1000 \<le> t" "t < 127000"
  shows "uint (decodeMinSeparationTime (encodeMinSeparationTime t)) = uint t div 1000 * 1000"
proof -
  define k where "k = uint t div 1000"
  have t: "uint t < 127000" "0 \<le> uint t" using assms by (simp_all add: word_less_def)
  then have k: "0 \<le> k" "k < 127"
    unfolding k_def by (simp_all add: pos_imp_zdiv_nonneg_iff del: uint_ge_0)
  have e: "encodeMinSeparationTime t = word_of_int k"
    using assms unfolding encodeMinSeparationTime_def k_def
    by (auto simp: ucast_eq uint_div)
  have u: "uint (word_of_int k :: u8) = k" using k by (simp add: uint_word_of_int)
  have "decodeMinSeparationTime (word_of_int k) = word_of_int k * 1000"
    using k u unfolding decodeMinSeparationTime_def by (simp add: word_le_def ucast_eq)
  then show ?thesis unfolding e k_def [symmetric] using k
    by (simp add: uint_word_ariths uint_word_of_int)
qed

lemma st_min_saturated:
  assumes "127000 \<le> t"
  shows "decodeMinSeparationTime (encodeMinSeparationTime t) = 127000"
proof -
  have "\<not> t < 1000" using assms by (simp add: word_less_def word_le_def)
  then show ?thesis
    using assms by (simp add: encodeMinSeparationTime_def decodeMinSeparationTime_def not_less [symmetric])
qed

lemma st_min_reencode_milli:
  assumes "e \<le> 0x7F"
  shows "encodeMinSeparationTime (decodeMinSeparationTime e) = e"
proof -
  have e: "0 \<le> uint e" "uint e \<le> 127" using assms by (simp_all add: word_le_def)
  let ?t = "ucast e * 1000 :: u32"
  have u: "uint (ucast e :: u32) = uint e"
    unfolding ucast_eq uint_word_of_int using e by (intro mod_pos_pos_trivial) auto
  have t: "uint ?t = uint e * 1000"
    unfolding uint_word_ariths u using e by (simp add: mod_pos_pos_trivial)
  have "\<not> (100 \<le> ?t \<and> ?t < 1000)" using e unfolding word_le_def word_less_def t by simp
  moreover have "uint (?t div 1000) = uint e" unfolding uint_div t by simp
  then have "ucast (?t div 1000) = e" by (simp only: ucast_eq [of "?t div 1000"]) simp
  moreover have "?t < 127000 \<or> e = 127"
    using e unfolding word_less_def word_uint_eq_iff t by auto
  ultimately show ?thesis
    using assms unfolding encodeMinSeparationTime_def decodeMinSeparationTime_def by auto
qed

lemma st_min_reencode_micro:
  assumes "0xF1 \<le> e" "e \<le> 0xF9"
  shows "encodeMinSeparationTime (decodeMinSeparationTime e) = e"
proof -
  have "uint e \<in> {241, 242, 243, 244, 245, 246, 247, 248, 249}"
    using assms by (simp add: word_le_def) linarith
  then have "e \<in> {241, 242, 243, 244, 245, 246, 247, 248, 249}"
    by (simp add: word_uint_eq_iff)
  then show ?thesis
    by (elim insertE) (simp_all add: encodeMinSeparationTime_def decodeMinSeparationTime_def)
qed

lemma uint_numeral_127000: "uint (127000 :: u32) = 127000"
  by simp

text \<open>A configured separation time is sent rounded down to the next value the protocol can
  express, to 100 microseconds below one millisecond and to one millisecond above, and saturates
  at 127 milliseconds; every valid STmin byte survives decoding and encoding.\<close>

theorem separation_time_roundtrip:
  "uint (decodeMinSeparationTime (encodeMinSeparationTime t)) =
     (if 100 \<le> t \<and> t < 1000 then uint t div 100 * 100
      else if t < 127000 then uint t div 1000 * 1000 else 127000)
   \<and> (if e \<le> 0x7F \<or> 0xF1 \<le> e \<and> e \<le> 0xF9
      then encodeMinSeparationTime (decodeMinSeparationTime e) = e
      else decodeMinSeparationTime e = 127000)"
proof (intro conjI)
  show "uint (decodeMinSeparationTime (encodeMinSeparationTime t)) =
     (if 100 \<le> t \<and> t < 1000 then uint t div 100 * 100
      else if t < 127000 then uint t div 1000 * 1000 else 127000)"
    using st_min_micro [of t] st_min_milli [of t] st_min_saturated [of t] not_less not_le
    by (metis uint_numeral_127000)
  show "if e \<le> 0x7F \<or> 0xF1 \<le> e \<and> e \<le> 0xF9
      then encodeMinSeparationTime (decodeMinSeparationTime e) = e
      else decodeMinSeparationTime e = 127000"
    using st_min_reencode_milli [of e] st_min_reencode_micro [of e]
    unfolding decodeMinSeparationTime_def by simp
qed

end
