(* ===== verification/DocanRxProtocol.thy ===== *)
theory DocanRxProtocol imports BswPrelude begin

text \<open>
  The protocol of the reception of one message, \<^verbatim>\<open>DoCanMessageReceiveProtocolHandler\<close>
  with 16 bit frame indices: its state, one definition per method, and the event handling as a
  run over events. The second half proves the invariant of the state machine and what it
  guarantees about the frames a message is made of.
\<close>

section \<open>Data\<close>

datatype ReceiveState = RS_ALLOCATE | RS_WAIT | RS_SEND | RS_PROCESSING | RS_DONE

fun receive_state_code :: "ReceiveState \<Rightarrow> u8" where
  "receive_state_code RS_ALLOCATE = 0"
| "receive_state_code RS_WAIT = 1"
| "receive_state_code RS_SEND = 2"
| "receive_state_code RS_PROCESSING = 3"
| "receive_state_code RS_DONE = 4"

datatype ReceiveTimeout = RT_NONE | RT_RX | RT_ALLOCATE

datatype ReceiveMessage =
    RM_NONE | RM_ILLEGAL_STATE | RM_ALLOCATION_RETRY_COUNT_EXCEEDED | RM_RX_TIMEOUT_EXPIRED
  | RM_BAD_SEQUENCE_NUMBER | RM_PROCESSING_FAILED

record rx_result =
  rr_transition :: bool
  rr_message :: ReceiveMessage
  rr_param :: u8

record rx_protocol =
  rx_frameIndex :: u16
  rx_frameCount :: u16
  rx_state :: ReceiveState
  rx_timeout :: ReceiveTimeout
  rx_blockFrameIndex :: u8
  rx_allocateRetryCount :: u8
  rx_isAllocating :: bool

definition rx_result :: "bool \<Rightarrow> rx_result" where
  "rx_result transition = \<lparr>rr_transition = transition, rr_message = RM_NONE, rr_param = 0\<rparr>"

definition rx_result_message :: "ReceiveMessage \<Rightarrow> u8 \<Rightarrow> rx_result" where
  "rx_result_message m v = \<lparr>rr_transition = True, rr_message = m, rr_param = v\<rparr>"

definition rx_new :: "u16 \<Rightarrow> rx_protocol" where
  "rx_new frameCount = \<lparr>rx_frameIndex = 1, rx_frameCount = frameCount, rx_state = RS_ALLOCATE,
     rx_timeout = RT_NONE, rx_blockFrameIndex = 0, rx_allocateRetryCount = 0,
     rx_isAllocating = True\<rparr>"

section \<open>Operations\<close>

definition isFlowControlWait :: "rx_protocol \<Rightarrow> bool" where
  "isFlowControlWait s \<longleftrightarrow> rx_allocateRetryCount s > 0 \<and> rx_frameCount s > 1"

definition rx_setState :: "ReceiveState \<Rightarrow> ReceiveTimeout \<Rightarrow> rx_protocol \<Rightarrow> rx_result \<times> rx_protocol" where
  "rx_setState st timeout s = (rx_result True, s\<lparr>rx_state := st, rx_timeout := timeout\<rparr>)"

definition rx_setDone :: "ReceiveMessage \<Rightarrow> u8 \<Rightarrow> rx_protocol \<Rightarrow> rx_result \<times> rx_protocol" where
  "rx_setDone m v s =
     (rx_result_message m v,
      s\<lparr>rx_state := RS_DONE, rx_timeout := RT_NONE, rx_isAllocating := False\<rparr>)"

definition rx_cancel :: "rx_protocol \<Rightarrow> rx_result \<times> rx_protocol" where
  "rx_cancel s = rx_setDone RM_NONE 0 s"

definition rx_shutdown :: "rx_protocol \<Rightarrow> rx_result \<times> rx_protocol" where
  "rx_shutdown s = (if rx_state s = RS_PROCESSING then (rx_result False, s) else rx_cancel s)"

definition rx_illegal_state :: "rx_protocol \<Rightarrow> rx_result \<times> rx_protocol" where
  "rx_illegal_state s = (rx_result_message RM_ILLEGAL_STATE (receive_state_code (rx_state s)), s)"

definition rx_allocated :: "bool \<Rightarrow> u8 \<Rightarrow> rx_protocol \<Rightarrow> rx_result \<times> rx_protocol" where
  "rx_allocated success maxRetryCount s =
     (if \<not> rx_isAllocating s then rx_illegal_state s
      else if success
      then rx_setState (if rx_frameCount s = 1 then RS_PROCESSING else RS_SEND) RT_NONE
             (s\<lparr>rx_isAllocating := False, rx_allocateRetryCount := 0\<rparr>)
      else let s = s\<lparr>rx_allocateRetryCount := rx_allocateRetryCount s + 1\<rparr>
           in if rx_frameCount s = 1
              then if rx_allocateRetryCount s > 1
                   then rx_setDone RM_ALLOCATION_RETRY_COUNT_EXCEEDED 0 s
                   else rx_setState RS_WAIT RT_ALLOCATE s
              else if rx_allocateRetryCount s > maxRetryCount
                   then rx_setDone RM_ALLOCATION_RETRY_COUNT_EXCEEDED 0 s
                   else rx_setState RS_SEND RT_NONE s)"

definition rx_frameSent :: "bool \<Rightarrow> rx_protocol \<Rightarrow> rx_result \<times> rx_protocol" where
  "rx_frameSent success s =
     (if rx_state s \<noteq> RS_SEND then rx_illegal_state s
      else if success
      then rx_setState RS_WAIT (if isFlowControlWait s then RT_ALLOCATE else RT_RX) s
      else (rx_result False, s))"

definition rx_consecutiveFrameReceived ::
  "u8 \<Rightarrow> u8 \<Rightarrow> rx_protocol \<Rightarrow> rx_result \<times> rx_protocol" where
  "rx_consecutiveFrameReceived frameIndex maxBlockSize s =
     (if rx_state s \<noteq> RS_WAIT \<or> rx_timeout s \<noteq> RT_RX then (rx_result False, s)
      else if rx_frameIndex s AND 0xF \<noteq> ucast frameIndex
      then rx_setDone RM_BAD_SEQUENCE_NUMBER frameIndex s
      else let s = s\<lparr>rx_frameIndex := rx_frameIndex s + 1\<rparr>
           in if rx_frameIndex s = rx_frameCount s then rx_setState RS_PROCESSING RT_NONE s
              else if maxBlockSize > 0
              then let s = s\<lparr>rx_blockFrameIndex := rx_blockFrameIndex s + 1\<rparr>
                   in if rx_blockFrameIndex s = maxBlockSize
                      then rx_setState RS_SEND RT_NONE (s\<lparr>rx_blockFrameIndex := 0\<rparr>)
                      else rx_setState RS_WAIT RT_RX s
              else rx_setState RS_WAIT RT_RX s)"

definition rx_processed :: "bool \<Rightarrow> rx_protocol \<Rightarrow> rx_result \<times> rx_protocol" where
  "rx_processed success s = rx_setDone (if success then RM_NONE else RM_PROCESSING_FAILED) 0 s"

definition rx_expired :: "rx_protocol \<Rightarrow> rx_result \<times> rx_protocol" where
  "rx_expired s =
     (case rx_timeout s of
        RT_RX \<Rightarrow> rx_setDone RM_RX_TIMEOUT_EXPIRED 0 s
      | RT_ALLOCATE \<Rightarrow> rx_setState RS_ALLOCATE RT_NONE s
      | RT_NONE \<Rightarrow> (rx_result False, s))"

section \<open>Runs\<close>

text \<open>
  The calls the receiver makes on a protocol handler. Two configured numbers, the allocation
  retries and the block size, are arguments of a run.
\<close>

datatype rx_event =
    RxAllocated bool | RxFrameSent bool | RxConsecutive u8 | RxProcessed bool
  | RxExpired | RxCancel | RxShutdown

fun rx_step :: "u8 \<Rightarrow> u8 \<Rightarrow> rx_event \<Rightarrow> rx_protocol \<Rightarrow> rx_result \<times> rx_protocol" where
  "rx_step retries bs (RxAllocated b) s = rx_allocated b retries s"
| "rx_step retries bs (RxFrameSent b) s = rx_frameSent b s"
| "rx_step retries bs (RxConsecutive i) s = rx_consecutiveFrameReceived i bs s"
| "rx_step retries bs (RxProcessed b) s = rx_processed b s"
| "rx_step retries bs RxExpired s = rx_expired s"
| "rx_step retries bs RxCancel s = rx_cancel s"
| "rx_step retries bs RxShutdown s = rx_shutdown s"

text \<open>A run, with the sequence numbers of the consecutive frames that were accepted.\<close>

fun rx_accepts :: "rx_event \<Rightarrow> rx_protocol \<Rightarrow> u8 list" where
  "rx_accepts (RxConsecutive i) s =
     (if rx_state s = RS_WAIT \<and> rx_timeout s = RT_RX \<and> rx_frameIndex s AND 0xF = ucast i
      then [i] else [])"
| "rx_accepts _ s = []"

definition rx_run :: "u8 \<Rightarrow> u8 \<Rightarrow> rx_event list \<Rightarrow> rx_protocol \<Rightarrow> u8 list \<times> rx_protocol" where
  "rx_run retries bs = run_trace (\<lambda>e s. snd (rx_step retries bs e s)) rx_accepts"

section \<open>The invariant\<close>

lemmas rx_ops =
  rx_setState_def rx_setDone_def rx_cancel_def rx_shutdown_def rx_illegal_state_def
  rx_allocated_def rx_frameSent_def rx_consecutiveFrameReceived_def rx_processed_def
  rx_expired_def rx_result_def rx_result_message_def

text \<open>
  Which fields go with which state. The retry counter is positive exactly while a message is
  still to be allocated and a wait frame is due, and the block counter is the frame index
  modulo the block size.
\<close>

definition rx_phase :: "u8 \<Rightarrow> u8 \<Rightarrow> rx_protocol \<Rightarrow> bool" where
  "rx_phase retries bs s =
     (let n = unat (rx_frameCount s); i = unat (rx_frameIndex s) in
      (case (rx_state s, rx_timeout s) of
        (RS_ALLOCATE, RT_NONE) \<Rightarrow> rx_isAllocating s \<and> i = 1
      | (RS_WAIT, RT_ALLOCATE) \<Rightarrow> rx_isAllocating s \<and> i = 1
      | (RS_WAIT, RT_RX) \<Rightarrow> \<not> rx_isAllocating s \<and> i < n \<and> rx_allocateRetryCount s = 0
      | (RS_SEND, RT_NONE) \<Rightarrow> i < n \<and>
          (if rx_isAllocating s then i = 1 \<and> rx_allocateRetryCount s > 0
           else rx_allocateRetryCount s = 0 \<and> (i = 1 \<or> 0 < bs \<and> (i - 1) mod unat bs = 0))
      | (RS_PROCESSING, RT_NONE) \<Rightarrow> \<not> rx_isAllocating s \<and> i = n
      | (RS_DONE, RT_NONE) \<Rightarrow> \<not> rx_isAllocating s
      | _ \<Rightarrow> False))"

definition rx_sound :: "u8 \<Rightarrow> u8 \<Rightarrow> rx_protocol \<Rightarrow> bool" where
  "rx_sound retries bs s \<longleftrightarrow>
     rx_phase retries bs s
     \<and> 1 \<le> unat (rx_frameIndex s) \<and> unat (rx_frameIndex s) \<le> unat (rx_frameCount s)
     \<and> (rx_state s \<noteq> RS_DONE \<and> rx_state s \<noteq> RS_PROCESSING \<longrightarrow>
         unat (rx_allocateRetryCount s) \<le> (if rx_frameCount s = 1 then 1 else unat retries)
         \<and> unat (rx_blockFrameIndex s) =
             (if bs = 0 then 0 else (unat (rx_frameIndex s) - 1) mod unat bs))"

text \<open>The steps preserve it when the retry counter cannot wrap around.\<close>

definition rx_inv :: "u8 \<Rightarrow> u8 \<Rightarrow> rx_protocol \<Rightarrow> bool" where
  "rx_inv retries bs s \<longleftrightarrow> retries < 255 \<and> rx_sound retries bs s"

lemma rx_inv_new: "retries < 255 \<Longrightarrow> 0 < n \<Longrightarrow> rx_inv retries bs (rx_new n)"
  by (auto simp: rx_inv_def rx_sound_def rx_phase_def rx_new_def word_less_nat_alt Let_def)

lemma rx_inv_setDone: "rx_inv retries bs s \<Longrightarrow> rx_inv retries bs (snd (rx_setDone m v s))"
  by (simp add: rx_inv_def rx_sound_def rx_phase_def rx_setDone_def)

lemma rx_inv_frameSent:
  assumes "rx_inv retries bs s" shows "rx_inv retries bs (snd (rx_frameSent b s))"
proof (cases "rx_state s = RS_SEND \<and> b")
  case False
  then show ?thesis using assms by (auto simp: rx_ops)
next
  case True
  then have t: "rx_timeout s = RT_NONE" "1 < unat (rx_frameCount s)"
    using assms by (auto simp: rx_inv_def rx_sound_def rx_phase_def Let_def split: ReceiveTimeout.splits)
  then have n: "rx_frameCount s > 1" "rx_frameCount s \<noteq> 1" by (auto simp: word_less_nat_alt)
  then show ?thesis
    using True t assms
    by (cases "rx_isAllocating s")
      (simp_all add: rx_inv_def rx_sound_def rx_phase_def rx_ops isFlowControlWait_def Let_def)
qed

lemma rx_inv_expired:
  assumes "rx_inv retries bs s" shows "rx_inv retries bs (snd (rx_expired s))"
proof (cases "rx_timeout s")
  case RT_ALLOCATE
  then have "rx_state s = RS_WAIT"
    using assms by (cases "rx_state s") (simp_all add: rx_inv_def rx_sound_def rx_phase_def Let_def)
  then show ?thesis using RT_ALLOCATE assms
    by (simp add: rx_inv_def rx_sound_def rx_phase_def rx_expired_def rx_setState_def Let_def)
qed (use assms rx_inv_setDone [OF assms] in \<open>simp_all add: rx_expired_def rx_result_def\<close>)

lemma rx_inv_shutdown: "rx_inv retries bs s \<Longrightarrow> rx_inv retries bs (snd (rx_shutdown s))"
  using rx_inv_setDone [of retries bs s RM_NONE 0]
  by (auto simp: rx_shutdown_def rx_cancel_def)

lemma rx_inv_allocated:
  assumes "rx_inv retries bs s" shows "rx_inv retries bs (snd (rx_allocated b retries s))"
proof (cases "rx_isAllocating s")
  case False
  then show ?thesis using assms by (simp add: rx_ops)
next
  case alloc: True
  then have st: "rx_state s = RS_ALLOCATE \<or> rx_state s = RS_WAIT \<or> rx_state s = RS_SEND"
    "rx_frameIndex s = 1"
    using assms
    by (auto simp: rx_inv_def rx_sound_def rx_phase_def Let_def unat_eq_Suc_0
        split: ReceiveState.splits ReceiveTimeout.splits if_splits)
  have n: "rx_frameCount s = 1 \<or> 1 < unat (rx_frameCount s)"
    using assms unat_eq_Suc_0 [of "rx_frameCount s"] by (auto simp: rx_inv_def rx_sound_def)
  show ?thesis
  proof (cases b)
    case True
    with assms alloc st n show ?thesis
      by (auto simp: rx_inv_def rx_sound_def rx_phase_def rx_ops Let_def word_less_nat_alt unat_eq_Suc_0)
  next
    case False
    have r: "unat (rx_allocateRetryCount s) \<le> (if rx_frameCount s = 1 then 1 else unat retries)"
      "retries < 255"
      using assms st by (auto simp: rx_inv_def rx_sound_def)
    then have "unat (rx_allocateRetryCount s + 1) = unat (rx_allocateRetryCount s) + 1"
      by (auto simp: unat_word_ariths word_less_nat_alt split: if_splits)
    with False assms alloc st n r show ?thesis
      by (auto simp: rx_inv_def rx_sound_def rx_phase_def rx_ops Let_def word_less_nat_alt unat_eq_Suc_0
          split: if_splits)
  qed
qed

lemma frame_index_nibble:
  "unat (i AND 0xF :: u16) = unat i mod 16"
proof -
  have "unat (i AND 0xF) = unat (take_bit 4 i)" by (simp add: take_bit_eq_mask mask_eq_exp_minus_1)
  then show ?thesis by (simp add: unat_mod take_bit_eq_mod)
qed

lemma rx_inv_consecutive:
  assumes "rx_inv retries bs s"
  shows "rx_inv retries bs (snd (rx_consecutiveFrameReceived k bs s))"
proof (cases "rx_state s = RS_WAIT \<and> rx_timeout s = RT_RX \<and> rx_frameIndex s AND 0xF = ucast k")
  case False
  then show ?thesis
    using assms rx_inv_setDone [OF assms] by (auto simp: rx_consecutiveFrameReceived_def)
next
  case True
  then have i: "unat (rx_frameIndex s) < unat (rx_frameCount s)" "\<not> rx_isAllocating s"
      "rx_allocateRetryCount s = 0" "1 \<le> unat (rx_frameIndex s)" "retries < 255"
      "unat (rx_blockFrameIndex s) = (if bs = 0 then 0 else (unat (rx_frameIndex s) - 1) mod unat bs)"
    using assms by (auto simp: rx_inv_def rx_sound_def rx_phase_def Let_def)
  then have nx: "unat (rx_frameIndex s + 1) = unat (rx_frameIndex s) + 1"
    using unat_bounds(2) [of "rx_frameCount s"] by (simp add: unat_word_ariths)
  obtain m where m: "unat (rx_frameIndex s) = Suc m" using i(4) by (cases "unat (rx_frameIndex s)") auto
  have blk: "bs \<noteq> 0 \<Longrightarrow> unat (rx_blockFrameIndex s + 1) = Suc (m mod unat bs)"
  proof -
    assume "bs \<noteq> 0"
    then have "m mod unat bs < unat bs" by (simp add: unat_gt_0)
    moreover have "unat bs < 256" by (rule unat_bounds)
    ultimately show ?thesis using i(6) m \<open>bs \<noteq> 0\<close> by (simp add: unat_word_ariths)
  qed
  have eq: "rx_blockFrameIndex s + 1 = bs \<longleftrightarrow> unat (rx_blockFrameIndex s + 1) = unat bs"
    by (simp add: word_unat_eq_iff)
  have done_eq: "rx_frameIndex s + 1 = rx_frameCount s \<longleftrightarrow> Suc (Suc m) = unat (rx_frameCount s)"
    using nx m by (simp add: word_unat_eq_iff)
  have n1: "rx_frameCount s \<noteq> 1" using i(1,4) by auto
  show ?thesis using True i nx m blk n1 unfolding rx_inv_def rx_sound_def rx_phase_def
    by (simp add: rx_ops Let_def word_less_nat_alt done_eq eq mod_Suc unat_gt_0)
qed

lemma rx_inv_step: "rx_inv retries bs s \<Longrightarrow> rx_inv retries bs (snd (rx_step retries bs e s))"
  by (cases e) (simp_all add: rx_inv_allocated rx_inv_frameSent rx_inv_consecutive rx_inv_expired
      rx_inv_shutdown rx_inv_setDone rx_processed_def rx_cancel_def)

lemma rx_step_frameCount: "rx_frameCount (snd (rx_step retries bs e s)) = rx_frameCount s"
  by (cases e) (auto simp: rx_ops Let_def split: ReceiveTimeout.splits)

lemma rx_run_frameCount: "rx_frameCount (snd (rx_run retries bs es s)) = rx_frameCount s"
  unfolding rx_run_def
  by (induction es arbitrary: s) (simp_all add: case_prod_unfold Let_def rx_step_frameCount)

text \<open>The sequence numbers a message has consumed, as its frame index determines them.\<close>

definition rx_consumed :: "rx_protocol \<Rightarrow> u8 list" where
  "rx_consumed s = map (\<lambda>k. word_of_nat (k mod 16)) [1..<unat (rx_frameIndex s)]"

lemma rx_frameIndex_accepts:
  assumes "rx_inv retries bs s"
  shows "rx_consumed (snd (rx_step retries bs e s)) = rx_consumed s @ rx_accepts e s"
proof (cases "\<exists>k. e = RxConsecutive k \<and> rx_accepts e s = [k]")
  case False
  then have "rx_accepts e s = []" "rx_frameIndex (snd (rx_step retries bs e s)) = rx_frameIndex s"
    by (cases e; auto simp: rx_ops Let_def split: if_splits ReceiveTimeout.splits)+
  then show ?thesis by (simp add: rx_consumed_def)
next
  case True
  then obtain k where k: "e = RxConsecutive k" "rx_state s = RS_WAIT" "rx_timeout s = RT_RX"
    "rx_frameIndex s AND 0xF = ucast k" "rx_accepts e s = [k]" by (auto split: if_splits)
  have i: "unat (rx_frameIndex s) < unat (rx_frameCount s)" "1 \<le> unat (rx_frameIndex s)"
    using assms k by (auto simp: rx_inv_def rx_sound_def rx_phase_def Let_def)
  then have nx: "unat (rx_frameIndex s + 1) = unat (rx_frameIndex s) + 1"
    using unat_bounds(2) [of "rx_frameCount s"] by (simp add: unat_word_ariths)
  have "rx_frameIndex (snd (rx_step retries bs e s)) = rx_frameIndex s + 1"
    using k by (auto simp: rx_ops Let_def)
  moreover have "unat (ucast k :: u16) = unat k"
    using unat_bounds(1) [of k] by (simp add: unsigned_ucast_eq take_bit_eq_mod)
  then have "unat k = unat (rx_frameIndex s) mod 16"
    using frame_index_nibble [of "rx_frameIndex s"] k(4) by simp
  then have "k = word_of_nat (unat (rx_frameIndex s) mod 16)"
    by (simp add: word_unat_eq_iff unat_of_nat)
  ultimately show ?thesis using nx i(2) k(5) by (simp add: rx_consumed_def)
qed

interpretation rx_machine: traced_machine
  "\<lambda>e s. snd (rx_step retries bs e s)" rx_accepts "rx_inv retries bs" rx_consumed
  for retries bs
  by unfold_locales (simp_all add: rx_inv_step rx_frameIndex_accepts)

section \<open>Properties\<close>

text \<open>
  The retry counter has eight bits: with 255 configured retries its comparison never fires and it
  wraps around. A message of one frame does not use the configured limit.
\<close>

definition rx_failed_retry :: "rx_event list" where
  "rx_failed_retry = [RxAllocated False, RxFrameSent True, RxExpired]"

lemma rx_failed_retries:
  assumes "1 < n"
  shows "k \<le> 255 \<Longrightarrow> snd (rx_run 255 bs (concat (replicate k rx_failed_retry)) (rx_new n)) =
     (rx_new n)\<lparr>rx_allocateRetryCount := word_of_nat k\<rparr>"
proof (induction k)
  case 0 then show ?case by (simp add: rx_run_def rx_new_def)
next
  case (Suc k)
  have "unat (word_of_nat (Suc k) :: u8) = Suc k"
    using Suc.prems by (simp add: unat_of_nat del: of_nat_Suc)
  then have k: "(0 :: u8) < word_of_nat (Suc k)" "\<not> (255 :: u8) < word_of_nat (Suc k)"
    using Suc.prems by (simp_all only: word_less_nat_alt) simp_all
  have n: "n \<noteq> 1" using assms by auto
  have "concat (replicate (Suc k) rx_failed_retry) = concat (replicate k rx_failed_retry) @ rx_failed_retry"
    by (simp add: replicate_append_same [symmetric] del: replicate_append_same)
  then show ?case using Suc k n assms
    by (simp add: rx_run_def run_trace_append rx_failed_retry_def rx_new_def rx_ops isFlowControlWait_def Let_def
        add.commute)
qed

lemma rx_wrapped:
  assumes "1 < n"
  shows "snd (rx_run 255 bs (concat (replicate 255 rx_failed_retry) @ [RxAllocated False]) (rx_new n))
    = (rx_new n)\<lparr>rx_state := RS_SEND\<rparr>"
proof -
  have "n \<noteq> 1" using assms by auto
  then show ?thesis using rx_failed_retries [OF assms, of 255 bs]
    by (simp add: rx_run_def run_trace_append rx_new_def rx_ops Let_def)
qed

lemma rx_run_single:
  "rx_frameCount s = 1 \<Longrightarrow> rx_run retries bs es s = rx_run 0 bs es s"
proof (induction es arbitrary: s)
  case (Cons e es)
  have "rx_step retries bs e s = rx_step 0 bs e s" using Cons.prems by (cases e) (simp_all add: rx_allocated_def Let_def)
  then show ?case using Cons.IH [of "snd (rx_step 0 bs e s)"] Cons.prems by (simp add: rx_run_def rx_step_frameCount)
qed (simp add: rx_run_def)

lemma rx_sound_single: "rx_frameCount s = 1 \<Longrightarrow> rx_sound retries bs s = rx_sound 0 bs s"
  by (simp add: rx_sound_def rx_phase_def)

text \<open>C28: Take a reception of at least one frame, any block size, and any configured number of allocation
  retries. It keeps its invariant whatever calls it sees (timeouts and counters match the state,
  the retry counter is positive in a sending state exactly while the message is not allocated and
  never above its limit, and a further clear-to-send is due only at a block boundary) exactly
  when fewer than 255 retries are configured, or the message has a single frame. With 255 retries the
  counter of eight bits wraps around, and a run breaks the invariant.\<close>

theorem reception_invariant:
  assumes "0 < n"
  shows "(\<forall>es. rx_sound retries bs (snd (rx_run retries bs es (rx_new n)))) \<longleftrightarrow> retries < 255 \<or> n = 1"
proof (intro iffI disjCI allI)
  assume a: "\<forall>es. rx_sound retries bs (snd (rx_run retries bs es (rx_new n)))" and "n \<noteq> 1"
  then have "unat n \<noteq> unat (1 :: u16)" "unat n \<noteq> unat (0 :: u16)" using assms by (auto simp only: word_unat_eq_iff [symmetric])
  then have n: "1 < n" by (simp add: word_less_nat_alt)
  show "retries < 255"
  proof (rule ccontr)
    assume "\<not> retries < 255"
    then have "unat retries = unat (255 :: u8)" using unsigned_less [of retries, where ?'a = nat] by (simp add: word_less_nat_alt)
    then have r: "retries = 255" by (simp only: word_unat_eq_iff)
    have "\<not> rx_sound 255 bs ((rx_new n)\<lparr>rx_state := RS_SEND\<rparr>)"
      by (simp add: rx_sound_def rx_phase_def rx_new_def Let_def)
    then show False using a rx_wrapped [OF n, of bs] r by metis
  qed
next
  fix es assume r: "retries < 255 \<or> n = 1"
  show "rx_sound retries bs (snd (rx_run retries bs es (rx_new n)))"
  proof (cases "n = 1")
    case True
    have "rx_inv 0 bs (snd (rx_run 0 bs es (rx_new n)))"
      unfolding rx_run_def by (rule rx_machine.run_inv [OF rx_inv_new [OF _ assms]]) simp
    then have "rx_sound 0 bs (snd (rx_run 0 bs es (rx_new n)))" by (simp add: rx_inv_def)
    moreover have c: "rx_frameCount (rx_new n) = 1" using True by (simp add: rx_new_def)
    moreover have "rx_frameCount (snd (rx_run 0 bs es (rx_new n))) = 1" by (simp only: rx_run_frameCount c)
    ultimately show ?thesis by (simp only: rx_run_single [OF c, of retries] rx_sound_single [of _ retries])
  next
    case False
    then have "rx_inv retries bs (rx_new n)" using r assms rx_inv_new by blast
    from rx_machine.run_inv [OF this] show ?thesis by (simp add: rx_run_def rx_inv_def)
  qed
qed

theorem reception_invariant_witness:
  "rx_sound 3 2 (snd (rx_run 3 2 [RxAllocated True, RxFrameSent True, RxConsecutive 1] (rx_new 3)))
    \<and> \<not> (\<forall>es. rx_sound 255 2 (snd (rx_run 255 2 es (rx_new 3))))"
proof -
  have "0 < (3 :: u16)" by simp
  from reception_invariant [OF this, of 3 2] reception_invariant [OF this, of 255 2] show ?thesis by simp
qed

text \<open>C13: With fewer than 255 configured allocation retries, a message is handed over for processing only after its consecutive frames have been
  accepted one by one, with the sequence numbers 1, 2, ... modulo 16 up to its frame count;
  lost, repeated or reordered frames never lead there.\<close>

theorem processing_needs_frames_in_order:
  assumes "retries < 255" and "0 < n" and "rx_run retries bs es (rx_new n) = (ks, s)"
    and "rx_state s = RS_PROCESSING"
  shows "ks = map (\<lambda>k. word_of_nat (k mod 16)) [1..<unat n]"
proof -
  have inv: "rx_inv retries bs (rx_new n)" by (rule rx_inv_new [OF assms(1,2)])
  have s: "rx_inv retries bs s" "rx_consumed s = rx_consumed (rx_new n) @ ks"
    using rx_machine.run_inv [OF inv, of es] rx_machine.run_history [OF inv, of es] assms(3)
    unfolding rx_run_def by simp_all
  have "unat (rx_frameIndex s) = unat (rx_frameCount s)"
    using s(1) assms(4) by (auto simp: rx_inv_def rx_sound_def rx_phase_def Let_def split: ReceiveTimeout.splits)
  moreover have "rx_frameCount s = n"
    using assms(3) rx_run_frameCount [of retries bs es "rx_new n"] by (simp add: rx_new_def)
  ultimately show ?thesis using s(2) by (simp add: rx_consumed_def rx_new_def)
qed

theorem processing_needs_frames_in_order_witness:
  "[1, 2] = map (\<lambda>k. word_of_nat (k mod 16) :: u8) [1..<unat (3 :: u16)]"
  by (rule processing_needs_frames_in_order
        [of 3 3 0 "[RxAllocated True, RxFrameSent True, RxConsecutive 1, RxConsecutive 2]" _
           "\<lparr>rx_frameIndex = 3, rx_frameCount = 3, rx_state = RS_PROCESSING, rx_timeout = RT_NONE,
             rx_blockFrameIndex = 0, rx_allocateRetryCount = 0, rx_isAllocating = False\<rparr>"])
    (simp_all add: rx_run_def rx_new_def rx_ops isFlowControlWait_def)

text \<open>With 255 configured allocation retries the 256th failed allocation wraps the retry
  counter: the reception does not end, and the next flow control frame is a clear-to-send
  although no message has been allocated.\<close>

theorem retry_counter_wraps:
  "\<exists>s. snd (rx_run 255 bs (concat (replicate 255 rx_failed_retry) @ [RxAllocated False]) (rx_new 2)) = s
     \<and> rx_state s = RS_SEND \<and> rx_isAllocating s \<and> \<not> isFlowControlWait s"
  using rx_wrapped [of 2 bs] by (simp add: rx_new_def isFlowControlWait_def)

end
