(* ===== verification/DocanTxProtocol.thy ===== *)
theory DocanTxProtocol imports DocanCodec begin

text \<open>
  The protocol of the transmission of one message, \<^verbatim>\<open>DoCanMessageTransmitProtocolHandler\<close>
  with 16 bit frame indices: its state, one definition per method and the event handling as a
  run over events. The second half proves its invariant and its contract with the receiver:
  frames in order, each inside a block the receiver has cleared.
\<close>

section \<open>Data\<close>

datatype TransmitState = TS_INITIALIZED | TS_SEND | TS_WAIT | TS_SUCCESS | TS_FAIL

fun transmit_state_code :: "TransmitState \<Rightarrow> u8" where
  "transmit_state_code TS_INITIALIZED = 0"
| "transmit_state_code TS_SEND = 1"
| "transmit_state_code TS_WAIT = 2"
| "transmit_state_code TS_SUCCESS = 3"
| "transmit_state_code TS_FAIL = 4"

datatype TransmitTimeout = TT_NONE | TT_TX_CALLBACK | TT_FLOW_CONTROL | TT_SEPARATION_TIME

datatype TransmitMessage =
    TM_NONE | TM_ILLEGAL_STATE | TM_TX_CALLBACK_TIMEOUT_EXPIRED
  | TM_FLOW_CONTROL_WAIT_COUNT_EXCEEDED | TM_FLOW_CONTROL_OVERFLOW
  | TM_FLOW_CONTROL_TIMEOUT_EXPIRED | TM_FLOW_CONTROL_INVALID

datatype FlowControl = FC_UNEXPECTED | FC_EXPECTED | FC_RECEIVED_CTS | FC_RECEIVED_WAIT

text \<open>A result; the action set is the two flags it can hold.\<close>

record tx_result =
  tr_transition :: bool
  tr_storeSeparationTime :: bool
  tr_cancelSend :: bool
  tr_message :: TransmitMessage
  tr_param :: u8

record tx_protocol =
  tx_frameIndex :: u16
  tx_frameCount :: u16
  tx_blockEnd :: u16
  tx_state :: TransmitState
  tx_timeout :: TransmitTimeout
  tx_flowControl :: FlowControl
  tx_errorMessage :: TransmitMessage
  tx_flowControlWaitCount :: u8
  tx_hasMinSeparationTime :: bool

definition tx_result :: "bool \<Rightarrow> tx_result" where
  "tx_result transition = \<lparr>tr_transition = transition, tr_storeSeparationTime = False,
     tr_cancelSend = False, tr_message = TM_NONE, tr_param = 0\<rparr>"

definition tx_new :: "u16 \<Rightarrow> tx_protocol" where
  "tx_new frameCount = \<lparr>tx_frameIndex = 0, tx_frameCount = frameCount, tx_blockEnd = 1,
     tx_state = TS_INITIALIZED, tx_timeout = TT_NONE, tx_flowControl = FC_UNEXPECTED,
     tx_errorMessage = TM_NONE, tx_flowControlWaitCount = 0, tx_hasMinSeparationTime = False\<rparr>"

section \<open>Operations\<close>

definition tx_isDone :: "tx_protocol \<Rightarrow> bool" where
  "tx_isDone s \<longleftrightarrow> tx_state s = TS_SUCCESS \<or> tx_state s = TS_FAIL"

definition tx_setSend :: "tx_protocol \<Rightarrow> tx_result \<times> tx_protocol" where
  "tx_setSend s = (tx_result True,
     s\<lparr>tx_state := TS_SEND, tx_flowControl := FC_UNEXPECTED, tx_timeout := TT_TX_CALLBACK\<rparr>)"

definition tx_setState ::
  "TransmitState \<Rightarrow> FlowControl \<Rightarrow> TransmitTimeout \<Rightarrow> tx_protocol \<Rightarrow> tx_result \<times> tx_protocol" where
  "tx_setState st fc timeout s =
     (tx_result True, s\<lparr>tx_state := st, tx_flowControl := fc, tx_timeout := timeout\<rparr>)"

definition tx_setFailed :: "TransmitMessage \<Rightarrow> u8 \<Rightarrow> tx_protocol \<Rightarrow> tx_result \<times> tx_protocol" where
  "tx_setFailed m v s =
     (\<lparr>tr_transition = True, tr_storeSeparationTime = False,
       tr_cancelSend = (tx_state s = TS_WAIT \<and> tx_timeout s = TT_TX_CALLBACK),
       tr_message = m, tr_param = v\<rparr>,
      s\<lparr>tx_state := TS_FAIL, tx_flowControl := FC_UNEXPECTED, tx_timeout := TT_NONE,
        tx_errorMessage := m\<rparr>)"

definition tx_cancel :: "tx_protocol \<Rightarrow> tx_result \<times> tx_protocol" where
  "tx_cancel s = tx_setFailed TM_NONE 0 s"

definition tx_start :: "tx_protocol \<Rightarrow> tx_result \<times> tx_protocol" where
  "tx_start s = tx_setSend s"

definition tx_frameSending :: "tx_protocol \<Rightarrow> tx_result \<times> tx_protocol" where
  "tx_frameSending s =
     (if tx_state s = TS_SEND
      then let nextFrameIndex = tx_frameIndex s + 1
           in if nextFrameIndex = tx_blockEnd s \<and> nextFrameIndex \<noteq> tx_frameCount s
              then tx_setState TS_WAIT FC_EXPECTED TT_TX_CALLBACK (s\<lparr>tx_flowControlWaitCount := 0\<rparr>)
              else tx_setState TS_WAIT FC_UNEXPECTED TT_TX_CALLBACK s
      else tx_setFailed TM_ILLEGAL_STATE (transmit_state_code (tx_state s)) s)"

definition tx_framesSent :: "u16 \<Rightarrow> tx_protocol \<Rightarrow> tx_result \<times> tx_protocol" where
  "tx_framesSent frameCount s =
     (if tx_state s \<noteq> TS_WAIT \<or> tx_timeout s \<noteq> TT_TX_CALLBACK
      then ((tx_result True)\<lparr>tr_message := TM_ILLEGAL_STATE,
              tr_param := transmit_state_code (tx_state s)\<rparr>, s)
      else let s = s\<lparr>tx_frameIndex := tx_frameIndex s + frameCount\<rparr>
           in if tx_frameIndex s \<ge> tx_frameCount s
              then tx_setState TS_SUCCESS FC_UNEXPECTED TT_NONE s
              else let s = (if frameCount > 1 \<and> tx_frameIndex s \<ge> tx_blockEnd s
                            then s\<lparr>tx_frameIndex := tx_blockEnd s, tx_flowControl := FC_EXPECTED\<rparr>
                            else s)
                   in (case tx_flowControl s of
                         FC_RECEIVED_CTS \<Rightarrow> tx_setSend s
                       | FC_RECEIVED_WAIT \<Rightarrow> tx_setState TS_WAIT FC_RECEIVED_WAIT TT_FLOW_CONTROL s
                       | FC_EXPECTED \<Rightarrow> tx_setState TS_WAIT FC_EXPECTED TT_FLOW_CONTROL s
                       | FC_UNEXPECTED \<Rightarrow>
                           if tx_hasMinSeparationTime s
                           then tx_setState TS_WAIT FC_UNEXPECTED TT_SEPARATION_TIME s
                           else tx_setSend s))"

definition tx_handleFlowControl ::
  "FlowStatus \<Rightarrow> u8 \<Rightarrow> bool \<Rightarrow> u8 \<Rightarrow> tx_protocol \<Rightarrow> tx_result \<times> tx_protocol" where
  "tx_handleFlowControl flowStatus blockSize hasMinSeparationTime maxWaitCount s =
     (if tx_flowControl s \<noteq> FC_EXPECTED then (tx_result False, s)
      else (case flowStatus of
        FS_CTS \<Rightarrow>
          let s = s\<lparr>tx_blockEnd := (if blockSize > 0 then tx_blockEnd s + ucast blockSize
                                      else tx_frameCount s),
                    tx_hasMinSeparationTime := hasMinSeparationTime\<rparr>
          in if tx_timeout s = TT_FLOW_CONTROL
             then ((tx_result True)\<lparr>tr_storeSeparationTime := True\<rparr>, snd (tx_setSend s))
             else ((tx_result False)\<lparr>tr_storeSeparationTime := True\<rparr>,
                   s\<lparr>tx_flowControl := FC_RECEIVED_CTS\<rparr>)
      | FS_WAIT \<Rightarrow>
          if tx_flowControlWaitCount s < maxWaitCount
          then let s = s\<lparr>tx_flowControlWaitCount := tx_flowControlWaitCount s + 1\<rparr>
               in if tx_timeout s = TT_FLOW_CONTROL
                  then tx_setState TS_WAIT FC_EXPECTED TT_FLOW_CONTROL s
                  else (tx_result False, s\<lparr>tx_flowControl := FC_RECEIVED_WAIT\<rparr>)
          else tx_setFailed TM_FLOW_CONTROL_WAIT_COUNT_EXCEEDED 0 s
      | FS_OVFLW \<Rightarrow> tx_setFailed TM_FLOW_CONTROL_OVERFLOW 0 s
      | FS_other _ \<Rightarrow> tx_setFailed TM_FLOW_CONTROL_INVALID 0 s))"

definition tx_expired :: "tx_protocol \<Rightarrow> tx_result \<times> tx_protocol" where
  "tx_expired s =
     (case tx_timeout s of
        TT_TX_CALLBACK \<Rightarrow> tx_setFailed TM_TX_CALLBACK_TIMEOUT_EXPIRED 0 s
      | TT_FLOW_CONTROL \<Rightarrow> tx_setFailed TM_FLOW_CONTROL_TIMEOUT_EXPIRED 0 s
      | TT_SEPARATION_TIME \<Rightarrow> tx_setSend s
      | TT_NONE \<Rightarrow> (tx_result False, s))"

lemmas tx_ops =
  tx_setSend_def tx_setState_def tx_setFailed_def tx_cancel_def tx_start_def tx_frameSending_def
  tx_framesSent_def tx_handleFlowControl_def tx_expired_def tx_result_def

section \<open>Runs\<close>

datatype tx_event =
    TxStart | TxFrameSending | TxFramesSent u16 | TxFlowControl FlowStatus u8 bool
  | TxExpired | TxCancel

fun tx_step :: "u8 \<Rightarrow> tx_event \<Rightarrow> tx_protocol \<Rightarrow> tx_result \<times> tx_protocol" where
  "tx_step waits TxStart s = tx_start s"
| "tx_step waits TxFrameSending s = tx_frameSending s"
| "tx_step waits (TxFramesSent k) s = tx_framesSent k s"
| "tx_step waits (TxFlowControl fs bs st) s = tx_handleFlowControl fs bs st waits s"
| "tx_step waits TxExpired s = tx_expired s"
| "tx_step waits TxCancel s = tx_cancel s"

text \<open>
  What the transmitter relies on: it starts a transmission once, and the data frame
  transmitter confirms at least one frame and none beyond the block it was given.
\<close>

fun tx_guard :: "tx_event \<Rightarrow> tx_protocol \<Rightarrow> bool" where
  "tx_guard TxStart s \<longleftrightarrow> tx_state s = TS_INITIALIZED"
| "tx_guard (TxFramesSent k) s \<longleftrightarrow>
     k = 1 \<or> 1 < k \<and> (tx_state s = TS_WAIT \<and> tx_timeout s = TT_TX_CALLBACK \<longrightarrow>
                tx_flowControl s = FC_UNEXPECTED
                \<and> unat (tx_frameIndex s) + unat k \<le> unat (tx_blockEnd s)
                \<and> unat (tx_frameIndex s) + unat k \<le> unat (tx_frameCount s))"
| "tx_guard _ s \<longleftrightarrow> True"

text \<open>What a peer sees of a transmission: the data frames sent and the clear-to-sends accepted.\<close>

datatype tx_observation = SentFrame nat | AcceptedCts u8

fun tx_observes :: "tx_event \<Rightarrow> tx_protocol \<Rightarrow> tx_observation list" where
  "tx_observes (TxFramesSent k) s =
     (if tx_state s = TS_WAIT \<and> tx_timeout s = TT_TX_CALLBACK
      then map SentFrame [unat (tx_frameIndex s)..<unat (tx_frameIndex s) + unat k] else [])"
| "tx_observes (TxFlowControl FS_CTS bs st) s =
     (if tx_flowControl s = FC_EXPECTED then [AcceptedCts bs] else [])"
| "tx_observes _ s = []"

definition tx_run :: "u8 \<Rightarrow> tx_event list \<Rightarrow> tx_protocol \<Rightarrow> tx_observation list \<times> tx_protocol" where
  "tx_run waits = run_trace (\<lambda>e s. snd (tx_step waits e s)) tx_observes"

section \<open>The invariant\<close>

definition tx_phase :: "nat \<Rightarrow> nat \<Rightarrow> nat \<Rightarrow> tx_protocol \<Rightarrow> bool" where
  "tx_phase i n be s =
     (case (tx_state s, tx_timeout s, tx_flowControl s) of
        (TS_INITIALIZED, TT_NONE, FC_UNEXPECTED) \<Rightarrow> i = 0 \<and> be = 1
      | (TS_SEND, TT_TX_CALLBACK, FC_UNEXPECTED) \<Rightarrow> i < n \<and> i < be
      | (TS_WAIT, TT_TX_CALLBACK, FC_UNEXPECTED) \<Rightarrow> i < n \<and> i < be \<and> (be = i + 1 \<longrightarrow> n = i + 1)
      | (TS_WAIT, TT_TX_CALLBACK, FC_RECEIVED_CTS) \<Rightarrow> i + 1 < n \<and> i + 1 < be
      | (TS_WAIT, TT_TX_CALLBACK, _) \<Rightarrow> be = i + 1 \<and> be < n
      | (TS_WAIT, TT_FLOW_CONTROL, FC_EXPECTED) \<Rightarrow> be = i \<and> i < n
      | (TS_WAIT, TT_FLOW_CONTROL, FC_RECEIVED_WAIT) \<Rightarrow> be = i \<and> i < n
      | (TS_WAIT, TT_SEPARATION_TIME, FC_UNEXPECTED) \<Rightarrow> i < n \<and> i < be
      | (TS_SUCCESS, TT_NONE, FC_UNEXPECTED) \<Rightarrow> i = n
      | (TS_FAIL, TT_NONE, FC_UNEXPECTED) \<Rightarrow> True
      | _ \<Rightarrow> False)"

definition tx_inv :: "tx_protocol \<Rightarrow> bool" where
  "tx_inv s \<longleftrightarrow>
     0 < unat (tx_frameCount s) \<and> unat (tx_frameCount s) \<le> 65280
     \<and> unat (tx_frameIndex s) \<le> unat (tx_frameCount s)
     \<and> unat (tx_blockEnd s) \<le> unat (tx_frameCount s) + 255
     \<and> tx_phase (unat (tx_frameIndex s)) (unat (tx_frameCount s)) (unat (tx_blockEnd s)) s"

lemma tx_inv_new: "0 < n \<Longrightarrow> n \<le> 65280 \<Longrightarrow> tx_inv (tx_new n)"
  by (simp add: tx_inv_def tx_phase_def tx_new_def word_less_nat_alt word_le_nat_alt)

lemma tx_inv_setFailed: "tx_inv s \<Longrightarrow> tx_inv (snd (tx_setFailed m v s))"
  by (simp add: tx_inv_def tx_phase_def tx_setFailed_def)

lemma tx_inv_setSend:
  "tx_inv s \<Longrightarrow> tx_frameIndex s < tx_frameCount s \<Longrightarrow> tx_frameIndex s < tx_blockEnd s \<Longrightarrow>
   tx_inv (snd (tx_setSend s))"
  by (simp add: tx_inv_def tx_phase_def tx_setSend_def word_less_nat_alt)

lemma tx_inv_start: "tx_inv s \<Longrightarrow> tx_state s = TS_INITIALIZED \<Longrightarrow> tx_inv (snd (tx_start s))"
  unfolding tx_start_def
  by (rule tx_inv_setSend)
    (auto simp: tx_inv_def tx_phase_def word_less_nat_alt
      split: TransmitTimeout.splits FlowControl.splits)

lemma tx_inv_frameSending: 
  assumes "tx_inv s" shows "tx_inv (snd (tx_frameSending s))"
proof (cases "tx_state s = TS_SEND")
  case False
  then show ?thesis using tx_inv_setFailed [OF assms] by (simp add: tx_frameSending_def)
next
  case True
  then have i: "unat (tx_frameIndex s) < unat (tx_frameCount s)"
    "unat (tx_frameIndex s) < unat (tx_blockEnd s)"
    using assms by (auto simp: tx_inv_def tx_phase_def split: TransmitTimeout.splits FlowControl.splits)
  then have nx: "unat (tx_frameIndex s + 1) = unat (tx_frameIndex s) + 1"
    using unat_bounds(2) [of "tx_frameCount s"] by (simp add: unat_word_ariths)
  then show ?thesis using True i assms
    by (simp add: tx_inv_def tx_phase_def tx_ops Let_def word_unat_eq_iff)
qed

lemma tx_inv_expired:
  assumes "tx_inv s" shows "tx_inv (snd (tx_expired s))"
proof (cases "tx_timeout s")
  case TT_SEPARATION_TIME
  then have "tx_inv (snd (tx_setSend s))"
    using assms
    by (intro tx_inv_setSend)
      (auto simp: tx_inv_def tx_phase_def word_less_nat_alt
        split: TransmitState.splits FlowControl.splits)
  then show ?thesis using TT_SEPARATION_TIME by (simp add: tx_expired_def)
qed (use assms tx_inv_setFailed [OF assms] in \<open>simp_all add: tx_expired_def\<close>)

lemma tx_expected:
  assumes "tx_inv s" "tx_flowControl s = FC_EXPECTED"
  shows "tx_state s = TS_WAIT"
    and "tx_timeout s = TT_TX_CALLBACK \<and> unat (tx_blockEnd s) = unat (tx_frameIndex s) + 1
         \<or> tx_timeout s = TT_FLOW_CONTROL \<and> tx_blockEnd s = tx_frameIndex s"
    and "unat (tx_blockEnd s) < unat (tx_frameCount s)"
  using assms
  by (auto simp: tx_inv_def tx_phase_def word_unat_eq_iff
      split: TransmitState.splits TransmitTimeout.splits)

lemma tx_inv_handleFlowControl:
  assumes "tx_inv s" shows "tx_inv (snd (tx_handleFlowControl fs bs st waits s))"
proof (cases "tx_flowControl s = FC_EXPECTED")
  case False
  then show ?thesis using assms by (simp add: tx_handleFlowControl_def)
next
  case exp: True
  note e = tx_expected [OF assms exp]
  show ?thesis
  proof (cases fs)
    case FS_CTS
    have n: "unat (tx_frameCount s) \<le> 65280" using assms by (simp add: tx_inv_def)
    have bs: "unat (ucast bs :: u16) = unat bs"
      using unat_bounds(1) [of bs] by (simp add: unsigned_ucast_eq take_bit_eq_mod)
    have be: "unat (tx_blockEnd s + ucast bs) = unat (tx_blockEnd s) + unat bs"
      using e(3) n unat_bounds(1) [of bs] by (simp add: unat_word_ariths bs)
    show ?thesis using FS_CTS exp e n be unat_bounds(1) [of bs] assms
      by (auto simp: tx_inv_def tx_phase_def tx_ops Let_def word_less_nat_alt)
  next
    case FS_WAIT
    show ?thesis using FS_WAIT exp e assms tx_inv_setFailed [OF assms]
      by (auto simp: tx_inv_def tx_phase_def tx_handleFlowControl_def tx_setState_def Let_def)
  qed (use exp tx_inv_setFailed [OF assms] in \<open>simp_all add: tx_handleFlowControl_def\<close>)
qed


lemma tx_awaiting_callback:
  assumes "tx_inv s" "tx_state s = TS_WAIT" "tx_timeout s = TT_TX_CALLBACK"
  shows "unat (tx_frameIndex s) < unat (tx_frameCount s)"
    and "unat (tx_frameIndex s) < unat (tx_blockEnd s)"
    and "tx_flowControl s = FC_UNEXPECTED \<Longrightarrow> unat (tx_blockEnd s) = unat (tx_frameIndex s) + 1 \<Longrightarrow>
           unat (tx_frameCount s) = unat (tx_frameIndex s) + 1"
    and "tx_flowControl s = FC_RECEIVED_CTS \<Longrightarrow> unat (tx_frameIndex s) + 1 < unat (tx_frameCount s)
           \<and> unat (tx_frameIndex s) + 1 < unat (tx_blockEnd s)"
    and "tx_flowControl s = FC_EXPECTED \<or> tx_flowControl s = FC_RECEIVED_WAIT \<Longrightarrow>
           unat (tx_blockEnd s) = unat (tx_frameIndex s) + 1"
  using assms by (auto simp: tx_inv_def tx_phase_def split: FlowControl.splits)

text \<open>Under the guard the confirmed frames end at or before the end of the block.\<close>

lemma tx_sent_bounds:
  assumes "tx_inv s" "tx_state s = TS_WAIT" "tx_timeout s = TT_TX_CALLBACK" "tx_guard (TxFramesSent k) s"
  shows "unat (tx_frameIndex s + k) = unat (tx_frameIndex s) + unat k"
    and "unat (tx_frameIndex s) + unat k \<le> unat (tx_frameCount s)"
    and "unat (tx_frameIndex s) + unat k \<le> unat (tx_blockEnd s)" and "0 < unat k"
proof -
  note c = tx_awaiting_callback [OF assms(1-3)]
  show n: "unat (tx_frameIndex s) + unat k \<le> unat (tx_frameCount s)"
    using assms c(1) by auto
  then show "unat (tx_frameIndex s + k) = unat (tx_frameIndex s) + unat k"
    using unat_bounds(2) [of "tx_frameCount s"] by (simp add: unat_word_ariths)
  show "unat (tx_frameIndex s) + unat k \<le> unat (tx_blockEnd s)" "0 < unat k"
    using assms c(2) by (auto simp: word_less_nat_alt)
qed

lemma tx_framesSent_simp:
  assumes "tx_inv s" "tx_state s = TS_WAIT" "tx_timeout s = TT_TX_CALLBACK" "tx_guard (TxFramesSent k) s"
  shows "snd (tx_framesSent k s) =
    (let s = s\<lparr>tx_frameIndex := tx_frameIndex s + k\<rparr>
     in if tx_frameIndex s = tx_frameCount s then snd (tx_setState TS_SUCCESS FC_UNEXPECTED TT_NONE s)
        else if tx_frameIndex s = tx_blockEnd s
        then snd (tx_setState TS_WAIT
               (if tx_flowControl s = FC_RECEIVED_WAIT then FC_RECEIVED_WAIT else FC_EXPECTED)
               TT_FLOW_CONTROL s)
        else if tx_flowControl s = FC_UNEXPECTED \<and> tx_hasMinSeparationTime s
        then snd (tx_setState TS_WAIT FC_UNEXPECTED TT_SEPARATION_TIME s)
        else snd (tx_setSend s))"
proof -
  note b = tx_sent_bounds [OF assms] and c = tx_awaiting_callback [OF assms(1-3)]
  have k: "k = 1 \<or> 1 < k \<and> tx_flowControl s = FC_UNEXPECTED"
    using assms by auto
  have k1: "k = 1 \<longleftrightarrow> unat k = 1" by (simp add: word_unat_eq_iff)
  show ?thesis
    using assms(2,3) b(2,3,4) c k unfolding k1
    by (cases "tx_flowControl s")
      (auto simp: tx_framesSent_def Let_def word_le_nat_alt word_less_nat_alt word_unat_eq_iff b(1)
        tx_setState_def tx_setSend_def)
qed

lemma tx_inv_framesSent:
  assumes "tx_inv s" "tx_guard (TxFramesSent k) s" shows "tx_inv (snd (tx_framesSent k s))"
proof (cases "tx_state s = TS_WAIT \<and> tx_timeout s = TT_TX_CALLBACK")
  case False
  then show ?thesis using assms by (auto simp: tx_framesSent_def)
next
  case True
  then have st: "tx_state s = TS_WAIT" "tx_timeout s = TT_TX_CALLBACK" by simp_all
  note b = tx_sent_bounds [OF assms(1) st assms(2)]
  let ?j = "tx_frameIndex s + k"
  have n: "?j = tx_frameCount s \<or> unat ?j < unat (tx_frameCount s)"
    and be: "?j = tx_blockEnd s \<or> unat ?j < unat (tx_blockEnd s)"
    using b(2,3) unfolding word_unat_eq_iff b(1) by auto
  show ?thesis unfolding tx_framesSent_simp [OF assms(1) st assms(2)]
    using n be assms(1)
    by (auto simp: tx_inv_def tx_phase_def Let_def tx_setState_def tx_setSend_def)
qed

lemma tx_inv_step: "tx_inv s \<Longrightarrow> tx_guard e s \<Longrightarrow> tx_inv (snd (tx_step waits e s))"
  by (cases e) (simp_all add: tx_inv_start tx_inv_frameSending tx_inv_framesSent tx_inv_expired
      tx_inv_handleFlowControl tx_inv_setFailed tx_cancel_def del: tx_guard.simps(2))

lemma tx_step_frameCount: "tx_frameCount (snd (tx_step waits e s)) = tx_frameCount s"
  by (cases e) (auto simp: tx_ops Let_def
      split: FlowStatus.splits TransmitTimeout.splits FlowControl.splits)

section \<open>The contract with the receiver\<close>

text \<open>
  The abstract transmission of \<open>n\<close> frames: the next frame to send and the end of the cleared
  block. A frame is sent in its turn and inside the block; a clear-to-send is accepted once
  the last frame of the block is on its way, and opens the next block.
\<close>

fun segment_monitor :: "nat \<Rightarrow> nat \<times> nat \<Rightarrow> tx_observation \<Rightarrow> (nat \<times> nat) option" where
  "segment_monitor n (i, be) (SentFrame j) =
     (if j = i \<and> i < be \<and> i < n then Some (i + 1, be) else None)"
| "segment_monitor n (i, be) (AcceptedCts bs) =
     (if i \<le> be \<and> be \<le> i + 1 \<and> be < n then Some (i, if bs = 0 then n else be + unat bs) else None)"

definition tx_progress :: "tx_protocol \<Rightarrow> nat \<times> nat" where
  "tx_progress s = (unat (tx_frameIndex s), unat (tx_blockEnd s))"

lemma segment_monitor_frames:
  "i + k \<le> n \<Longrightarrow> i + k \<le> be \<Longrightarrow>
   run_monitor (segment_monitor n) (i, be) (map SentFrame [i..<i + k]) = Some (i + k, be)"
proof (induction k arbitrary: i)
  case (Suc k)
  have "[i..<i + Suc k] = i # [Suc i..<Suc i + k]" by (simp add: upt_conv_Cons)
  then show ?case using Suc.IH [of "Suc i"] Suc.prems by simp
qed simp

lemma tx_index_unchanged:
  assumes "\<not> (\<exists>k. e = TxFramesSent k \<and> tx_state s = TS_WAIT \<and> tx_timeout s = TT_TX_CALLBACK)"
    and "\<not> (\<exists>bs st. e = TxFlowControl FS_CTS bs st \<and> tx_flowControl s = FC_EXPECTED)"
  shows "tx_observes e s = []" and "tx_progress (snd (tx_step waits e s)) = tx_progress s"
proof -
  show "tx_observes e s = []"
    using assms by (cases "(e, s)" rule: tx_observes.cases) auto
  show "tx_progress (snd (tx_step waits e s)) = tx_progress s"
    using assms
    by (cases e) (auto simp: tx_progress_def tx_ops Let_def
        split: FlowStatus.splits TransmitTimeout.splits)
qed

lemma tx_step_monitor:
  assumes inv: "tx_inv s" and g: "tx_guard e s"
  shows "run_monitor (segment_monitor (unat (tx_frameCount s))) (tx_progress s) (tx_observes e s)
    = Some (tx_progress (snd (tx_step waits e s)))"
proof -
  consider (sent) k where "e = TxFramesSent k" "tx_state s = TS_WAIT" "tx_timeout s = TT_TX_CALLBACK"
    | (cts) bs st where "e = TxFlowControl FS_CTS bs st" "tx_flowControl s = FC_EXPECTED"
    | (none) "\<not> (\<exists>k. e = TxFramesSent k \<and> tx_state s = TS_WAIT \<and> tx_timeout s = TT_TX_CALLBACK)"
       "\<not> (\<exists>bs st. e = TxFlowControl FS_CTS bs st \<and> tx_flowControl s = FC_EXPECTED)"
    by blast
  then show ?thesis
  proof cases
    case sent
    note b = tx_sent_bounds [OF inv sent(2,3) g [unfolded sent(1)]]
    have "tx_progress (snd (tx_framesSent k s)) =
        (unat (tx_frameIndex s) + unat k, unat (tx_blockEnd s))"
      unfolding tx_framesSent_simp [OF inv sent(2,3) g [unfolded sent(1)]]
      by (simp add: tx_progress_def tx_setState_def tx_setSend_def Let_def b(1) [symmetric])
    then show ?thesis using segment_monitor_frames [OF b(2,3)] sent by (simp add: tx_progress_def)
  next
    case cts
    note e = tx_expected [OF inv cts(2)]
    have bs: "unat (tx_blockEnd s + ucast bs) = unat (tx_blockEnd s) + unat bs"
      using e(3) inv unat_bounds(1) [of bs]
      by (simp add: tx_inv_def unat_word_ariths unsigned_ucast_eq take_bit_eq_mod)
    show ?thesis using cts e bs
      by (auto simp: tx_progress_def tx_ops Let_def word_less_nat_alt word_unat_eq_iff)
  next
    case none
    then show ?thesis
      by (simp only: tx_index_unchanged [OF none] run_monitor.simps)
  qed
qed


interpretation tx_machine: monitored_machine
  "\<lambda>e s. snd (tx_step waits e s)" tx_observes tx_guard "\<lambda>s. tx_inv s \<and> tx_frameCount s = n"
  "segment_monitor (unat n)" tx_progress
  for waits n
  by unfold_locales (auto simp: tx_inv_step tx_step_frameCount tx_step_monitor)

section \<open>Properties\<close>

text \<open>C14: A transmission sends its data frames in order and without gaps, each inside a block
  that the receiver has cleared, and accepts a clear-to-send only at the end of a block; when
  it reports success it has sent all of them.\<close>

theorem transmission_is_segmented:
  assumes "0 < n" and "n \<le> 65280" and "guarded_run (\<lambda>e s. snd (tx_step waits e s)) tx_guard es (tx_new n)"
    and "tx_run waits es (tx_new n) = (os, s)"
  shows "\<exists>i be. run_monitor (segment_monitor (unat n)) (0, 1) os = Some (i, be)
    \<and> (tx_state s = TS_SUCCESS \<longrightarrow> i = unat n)"
proof -
  have new: "tx_inv (tx_new n) \<and> tx_frameCount (tx_new n) = n"
    using tx_inv_new [OF assms(1,2)] by (simp add: tx_new_def)
  have "tx_inv s \<and> tx_frameCount s = n"
    using tx_machine.run_inv [OF new assms(3)] assms(4) by (simp add: tx_run_def)
  moreover from this have "tx_state s = TS_SUCCESS \<Longrightarrow> tx_frameIndex s = n"
    by (auto simp: tx_inv_def tx_phase_def word_unat_eq_iff
        split: TransmitTimeout.splits FlowControl.splits)
  moreover have "run_monitor (segment_monitor (unat n)) (0, 1) os = Some (tx_progress s)"
    using tx_machine.run_mon [OF new assms(3)] assms(4)
    by (simp add: tx_run_def tx_progress_def tx_new_def)
  ultimately show ?thesis by (auto simp: tx_progress_def)
qed

theorem transmission_is_segmented_witness:
  "\<exists>i be. run_monitor (segment_monitor (unat (2 :: u16))) (0, 1)
      [SentFrame 0, AcceptedCts 0, SentFrame 1] = Some (i, be)
    \<and> (TS_SUCCESS = TS_SUCCESS \<longrightarrow> i = unat (2 :: u16))"
  using transmission_is_segmented
    [of 2 3 "[TxStart, TxFrameSending, TxFramesSent 1, TxFlowControl FS_CTS 0 False,
              TxFrameSending, TxFramesSent 1]"
        "[SentFrame 0, AcceptedCts 0, SentFrame 1]"
        "\<lparr>tx_frameIndex = 2, tx_frameCount = 2, tx_blockEnd = 2, tx_state = TS_SUCCESS,
          tx_timeout = TT_NONE, tx_flowControl = FC_UNEXPECTED, tx_errorMessage = TM_NONE,
          tx_flowControlWaitCount = 0, tx_hasMinSeparationTime = False\<rparr>"]
  by (simp add: tx_run_def tx_new_def tx_ops)

text \<open>C29: A wait frame that arrives before the transceiver has confirmed the frame it answers
  stalls the transmission: every later flow control frame is ignored, and the only thing that
  still happens is the flow control timeout.\<close>

theorem early_wait_frame_stalls:
  assumes "tx_inv s" and "tx_flowControl s = FC_EXPECTED"
    and "tx_timeout s = TT_TX_CALLBACK" and "tx_flowControlWaitCount s < waits"
  shows "\<exists>s'. snd (tx_framesSent 1 (snd (tx_handleFlowControl FS_WAIT bs st waits s))) = s'
    \<and> (\<forall>fs bs' st'. tx_handleFlowControl fs bs' st' waits s' = (tx_result False, s'))
    \<and> tx_state (snd (tx_expired s')) = TS_FAIL
    \<and> tx_errorMessage (snd (tx_expired s')) = TM_FLOW_CONTROL_TIMEOUT_EXPIRED"
proof -
  note e = tx_expected [OF assms(1,2)]
  have "unat (tx_frameIndex s + 1) = unat (tx_frameIndex s) + 1"
    using e(2,3) assms(3) unat_bounds(2) [of "tx_frameCount s"] by (simp add: unat_word_ariths)
  then have "\<not> tx_frameCount s \<le> tx_frameIndex s + 1"
    using e(2,3) assms(3) by (auto simp: word_le_nat_alt)
  then show ?thesis using e(1) assms(2-4)
    by (simp add: tx_handleFlowControl_def tx_framesSent_def tx_expired_def tx_setState_def
        tx_setFailed_def Let_def)
qed

theorem early_wait_frame_stalls_witness:
  "\<exists>s'. snd (tx_framesSent 1 (snd (tx_handleFlowControl FS_WAIT 0 False 3
          ((tx_new 3)\<lparr>tx_state := TS_WAIT, tx_timeout := TT_TX_CALLBACK,
             tx_flowControl := FC_EXPECTED\<rparr>)))) = s'
    \<and> (\<forall>fs bs' st'. tx_handleFlowControl fs bs' st' 3 s' = (tx_result False, s'))
    \<and> tx_state (snd (tx_expired s')) = TS_FAIL
    \<and> tx_errorMessage (snd (tx_expired s')) = TM_FLOW_CONTROL_TIMEOUT_EXPIRED"
  by (rule early_wait_frame_stalls) (simp_all add: tx_inv_def tx_phase_def tx_new_def)

end
