(* ===== verification/TransportMsg.thy ===== *)
theory TransportMsg imports BswPrelude begin

text \<open>
  The message buffer of \<^verbatim>\<open>libs/bsw/transport\<close>: \<^verbatim>\<open>TransportMessage\<close>
  with a 16 bit payload length and count of valid bytes over a byte span. A null buffer is
  \<open>None\<close> in \<open>init\<close>, and an empty span afterwards.
\<close>

section \<open>State and operations\<close>

record transport_message =
  tm_buffer :: "u8 list"
  tm_sourceAddress :: u16
  tm_targetAddress :: u16
  tm_payloadLength :: nat
  tm_validBytes :: nat

datatype tm_error = TP_MSG_OK | TP_MSG_LENGTH_EXCEEDED

text \<open>The results of a transport layer\<close>

datatype tp_error =
    TP_OK | TP_SEND_FAIL | TP_QUEUE_FULL | TP_MESSAGE_INCOMPLETE
  | TP_MESSAGE_ALREADY_IN_PROGRESS | TP_GENERAL_ERROR

definition INVALID_ADDRESS16 :: u16 where
  "INVALID_ADDRESS16 = 0xFFFF"

definition tm_new :: "u8 list \<Rightarrow> transport_message" where
  "tm_new buf = \<lparr>tm_buffer = buf, tm_sourceAddress = INVALID_ADDRESS16,
     tm_targetAddress = INVALID_ADDRESS16, tm_payloadLength = 0, tm_validBytes = 0\<rparr>"

definition getMaxPayloadLength :: "transport_message \<Rightarrow> nat" where
  "getMaxPayloadLength m = to_u16 (length (tm_buffer m))"

definition setPayloadLength :: "nat \<Rightarrow> transport_message \<Rightarrow> transport_message option" where
  "setPayloadLength n m = do {
     ensure (n \<le> getMaxPayloadLength m);
     Some (m\<lparr>tm_payloadLength := n\<rparr>) }"

definition tm_init :: "u8 list option \<Rightarrow> nat \<Rightarrow> transport_message \<Rightarrow> transport_message option" where
  "tm_init buffer bufferLength m = do {
     ensure (\<not> (buffer = None \<and> bufferLength > 0));
     let m = m\<lparr>tm_buffer := (case buffer of None \<Rightarrow> [] | Some b \<Rightarrow> take bufferLength b),
               tm_validBytes := 0\<rparr>;
     if length (tm_buffer m) \<noteq> 0 then setPayloadLength 0 m else Some m }"

definition increaseValidBytes :: "nat \<Rightarrow> transport_message \<Rightarrow> tm_error \<times> transport_message" where
  "increaseValidBytes n m =
     (if tm_validBytes m + n > getMaxPayloadLength m
      then (TP_MSG_LENGTH_EXCEEDED, m\<lparr>tm_validBytes := getMaxPayloadLength m\<rparr>)
      else (TP_MSG_OK, m\<lparr>tm_validBytes := to_u16 (tm_validBytes m + n)\<rparr>))"

definition setServiceId :: "u8 \<Rightarrow> transport_message \<Rightarrow> transport_message option" where
  "setServiceId sid m = do {
     ensure (length (tm_buffer m) \<noteq> 0);
     let m = m\<lparr>tm_buffer := (tm_buffer m)[0 := sid]\<rparr>;
     Some (if tm_validBytes m = 0 then snd (increaseValidBytes 1 m) else m) }"

text \<open>\<open>append\<close> reads \<open>len\<close> bytes from \<open>data\<close>, whatever the length of the caller's object.\<close>

definition tm_append :: "u8 list \<Rightarrow> nat \<Rightarrow> transport_message \<Rightarrow> (tm_error \<times> transport_message) option" where
  "tm_append data len m =
     (if tm_validBytes m + len > getMaxPayloadLength m then Some (TP_MSG_LENGTH_EXCEEDED, m)
      else do {
        buf \<leftarrow> mem_copy data len (tm_buffer m) (tm_validBytes m);
        Some (TP_MSG_OK, snd (increaseValidBytes len (m\<lparr>tm_buffer := buf\<rparr>))) })"

definition tm_append_byte :: "u8 \<Rightarrow> transport_message \<Rightarrow> (tm_error \<times> transport_message) option" where
  "tm_append_byte b m =
     (if tm_validBytes m + 1 > getMaxPayloadLength m then Some (TP_MSG_LENGTH_EXCEEDED, m)
      else do {
        buf \<leftarrow> put_byte (tm_buffer m) (tm_validBytes m) b;
        Some (TP_MSG_OK, snd (increaseValidBytes 1 (m\<lparr>tm_buffer := buf\<rparr>))) })"

definition resetValidBytes :: "transport_message \<Rightarrow> transport_message" where
  "resetValidBytes m = m\<lparr>tm_validBytes := 0\<rparr>"

definition isComplete :: "transport_message \<Rightarrow> bool" where
  "isComplete m \<longleftrightarrow> tm_validBytes m \<ge> tm_payloadLength m"

definition missingBytes :: "transport_message \<Rightarrow> nat" where
  "missingBytes m = nat ((int (tm_payloadLength m) - int (tm_validBytes m)) mod 65536)"

definition tm_eq :: "transport_message \<Rightarrow> transport_message \<Rightarrow> bool" where
  "tm_eq a b \<longleftrightarrow> tm_payloadLength a = tm_payloadLength b \<and> tm_validBytes a = tm_validBytes b
     \<and> tm_targetAddress a = tm_targetAddress b \<and> tm_sourceAddress a = tm_sourceAddress b
     \<and> take (tm_validBytes a) (tm_buffer a) = take (tm_validBytes a) (tm_buffer b)"

section \<open>Invariant and abstraction\<close>

text \<open>The valid bytes lie inside the buffer; they are what the message holds.\<close>

definition tm_wf :: "transport_message \<Rightarrow> bool" where
  "tm_wf m \<longleftrightarrow> length (tm_buffer m) \<le> 65535 \<and> tm_validBytes m \<le> length (tm_buffer m)
     \<and> tm_payloadLength m \<le> length (tm_buffer m)"

definition tm_data :: "transport_message \<Rightarrow> u8 list" where
  "tm_data m = take (tm_validBytes m) (tm_buffer m)"

lemma getMaxPayloadLength_wf [simp]: "tm_wf m \<Longrightarrow> getMaxPayloadLength m = length (tm_buffer m)"
  by (simp add: tm_wf_def getMaxPayloadLength_def)

lemma length_tm_data [simp]: "tm_wf m \<Longrightarrow> length (tm_data m) = tm_validBytes m"
  by (simp add: tm_wf_def tm_data_def)

lemma tm_append_fits:
  assumes "tm_wf m" and "tm_validBytes m + len \<le> length (tm_buffer m)" and "len \<le> length data"
  obtains m' where "tm_append data len m = Some (TP_MSG_OK, m')" "tm_wf m'"
    "tm_data m' = tm_data m @ take len data" "tm_validBytes m' = tm_validBytes m + len"
    "length (tm_buffer m') = length (tm_buffer m)" "tm_payloadLength m' = tm_payloadLength m"
    "tm_sourceAddress m' = tm_sourceAddress m" "tm_targetAddress m' = tm_targetAddress m"
proof -
  let ?v = "tm_validBytes m"
  let ?b = "take ?v (tm_buffer m) @ take len data @ drop (?v + len) (tm_buffer m)"
  let ?m = "m\<lparr>tm_buffer := ?b, tm_validBytes := ?v + len\<rparr>"
  have b: "length ?b = length (tm_buffer m)" "mem_copy data len (tm_buffer m) ?v = Some ?b"
    using assms by (simp_all add: tm_wf_def)
  have app: "tm_append data len m = Some (TP_MSG_OK, ?m)"
    using assms b
    by (simp add: tm_append_def increaseValidBytes_def getMaxPayloadLength_def tm_wf_def
        del: append_take_drop_id)
  show thesis
    by (rule that [OF app]) (use assms b(1) in \<open>simp_all add: tm_wf_def tm_data_def\<close>)
qed

section \<open>Properties\<close>

text \<open>Appending to a well-formed message either adds exactly the given bytes behind the
  valid ones and leaves the rest of the buffer alone, or, when they do not fit into the buffer,
  changes nothing and says so.\<close>

theorem append_all_or_nothing:
  assumes "tm_wf m" and "len \<le> length data"
  shows "\<exists>r m'. tm_append data len m = Some (r, m') \<and> tm_wf m'
    \<and> (if tm_validBytes m + len \<le> length (tm_buffer m)
       then r = TP_MSG_OK \<and> tm_data m' = tm_data m @ take len data
            \<and> drop (tm_validBytes m') (tm_buffer m') = drop (tm_validBytes m + len) (tm_buffer m)
       else r = TP_MSG_LENGTH_EXCEEDED \<and> m' = m)"
proof (cases "tm_validBytes m + len \<le> length (tm_buffer m)")
  case True
  let ?v = "tm_validBytes m"
  let ?b = "take ?v (tm_buffer m) @ take len data @ drop (?v + len) (tm_buffer m)"
  have "tm_append data len m = Some (TP_MSG_OK, m\<lparr>tm_buffer := ?b, tm_validBytes := ?v + len\<rparr>)"
    using assms True
    by (simp add: tm_append_def increaseValidBytes_def getMaxPayloadLength_def tm_wf_def
        del: append_take_drop_id)
  then show ?thesis using True assms by (simp add: tm_wf_def tm_data_def)
next
  case False
  then show ?thesis using assms by (simp add: tm_append_def)
qed

theorem append_all_or_nothing_witness:
  "\<exists>r m'. tm_append [7, 8, 9] 2 (tm_new [1, 2, 3]) = Some (r, m') \<and> tm_wf m'
    \<and> (if tm_validBytes (tm_new [1, 2, 3]) + 2 \<le> length (tm_buffer (tm_new [1, 2, 3]))
       then r = TP_MSG_OK \<and> tm_data m' = tm_data (tm_new [1, 2, 3]) @ take 2 [7, 8, 9]
            \<and> drop (tm_validBytes m') (tm_buffer m')
                = drop (tm_validBytes (tm_new [1, 2, 3]) + 2) (tm_buffer (tm_new [1, 2, 3]))
       else r = TP_MSG_LENGTH_EXCEEDED \<and> m' = tm_new [1, 2, 3])"
  by (rule append_all_or_nothing) (simp_all add: tm_wf_def tm_new_def)

text \<open>The number of missing bytes is not bounded by the payload length: bytes may be appended
  up to the size of the buffer, and beyond the payload length the subtraction wraps.\<close>

theorem missing_bytes_wrap:
  assumes "tm_wf m" and "tm_payloadLength m < tm_validBytes m"
  shows "missingBytes m = 65536 - (tm_validBytes m - tm_payloadLength m) \<and> isComplete m"
proof -
  have "(int (tm_payloadLength m) - int (tm_validBytes m)) mod 65536
      = (int (tm_payloadLength m) - int (tm_validBytes m) + 65536) mod 65536" by simp
  also have "\<dots> = int (tm_payloadLength m) - int (tm_validBytes m) + 65536"
    using assms by (intro mod_pos_pos_trivial) (auto simp: tm_wf_def)
  finally show ?thesis using assms by (simp add: missingBytes_def isComplete_def)
qed

theorem missing_bytes_wrap_witness:
  "missingBytes ((tm_new [1, 2, 3])\<lparr>tm_validBytes := 1\<rparr>) = 65536 - (1 - 0)
   \<and> isComplete ((tm_new [1, 2, 3])\<lparr>tm_validBytes := 1\<rparr>)"
  using missing_bytes_wrap [of "(tm_new [1, 2, 3])\<lparr>tm_validBytes := 1\<rparr>"]
  by (simp add: tm_wf_def tm_new_def)

end
