(* ===== verification/DocanMessages.thy ===== *)
theory DocanMessages imports DocanCodec DocanParams DocanRxProtocol DocanTxProtocol TransportMsg begin

text \<open>
  The state of one message on either side: \<^verbatim>\<open>DoCanMessageReceiver\<close> and
  \<^verbatim>\<open>DoCanMessageTransmitter\<close>, which add the data, the addresses and the timer to the
  protocol handlers. A pointer to a transport message is the message together with a handle
  that tells messages apart; the receiver owns the message while it holds the pointer.
\<close>

section \<open>Connections\<close>

type_synonym address = u32
type_synonym message_ptr = "nat \<times> transport_message"

record connection =
  cn_codec :: codec_config
  cn_receptionAddress :: address
  cn_transmissionAddress :: address
  cn_sourceId :: u16
  cn_targetId :: u16

record job_handle =
  jh_counter :: u16
  jh_userData :: u16

definition JobHandle_default :: job_handle where
  "JobHandle_default = \<lparr>jh_counter = 0, jh_userData = 0\<rparr>"

section \<open>Message receiver\<close>

record message_receiver =
  mr_protocol :: rx_protocol
  mr_connection :: connection
  mr_message :: "message_ptr option"
  mr_firstFrameData :: "u8 list"
  mr_timer :: u32
  mr_messageSize :: nat
  mr_consecutiveFrameDataSize :: nat
  mr_isTimerSet :: bool
  mr_maxBlockSize :: u8
  mr_encodedMinSeparationTime :: u8
  mr_blocked :: bool

definition mr_new ::
  "connection \<Rightarrow> nat \<Rightarrow> nat \<Rightarrow> nat \<Rightarrow> u8 \<Rightarrow> u8 \<Rightarrow> u8 list \<Rightarrow> bool \<Rightarrow> message_receiver" where
  "mr_new conn messageSize frameCount consecutiveFrameDataSize bs st firstFrameData blocked =
     \<lparr>mr_protocol = rx_new (of_nat frameCount), mr_connection = conn, mr_message = None,
      mr_firstFrameData = firstFrameData, mr_timer = 0, mr_messageSize = messageSize,
      mr_consecutiveFrameDataSize = consecutiveFrameDataSize, mr_isTimerSet = False,
      mr_maxBlockSize = bs, mr_encodedMinSeparationTime = st, mr_blocked = blocked\<rparr>"

definition mr_lift ::
  "(rx_protocol \<Rightarrow> rx_result \<times> rx_protocol) \<Rightarrow> message_receiver \<Rightarrow> rx_result \<times> message_receiver" where
  "mr_lift f r = (let (res, p) = f (mr_protocol r) in (res, r\<lparr>mr_protocol := p\<rparr>))"

text \<open>\<open>append\<close> takes the length as \<^verbatim>\<open>uint16_t\<close> after a cast to the frame size type.\<close>

definition mr_allocated ::
  "message_ptr option \<Rightarrow> u8 \<Rightarrow> message_receiver \<Rightarrow> (rx_result \<times> message_receiver) option" where
  "mr_allocated message maxRetryCount r =
     (let (result, r) = mr_lift (rx_allocated (message \<noteq> None) maxRetryCount) r
      in (case message of
            Some (h, m) \<Rightarrow>
              if \<not> rx_isAllocating (mr_protocol r)
              then do {
                (_, m) \<leftarrow> tm_append (mr_firstFrameData r) (to_u8 (length (mr_firstFrameData r))) m;
                Some (result, r\<lparr>mr_message := Some (h, m)\<rparr>) }
              else Some (result, r)
          | None \<Rightarrow> Some (result, r)))"

definition isConsecutiveFrameExpected :: "message_receiver \<Rightarrow> bool" where
  "isConsecutiveFrameExpected r \<longleftrightarrow> mr_message r \<noteq> None"

definition getExpectedConsecutiveFrameDataSize :: "message_receiver \<Rightarrow> nat option" where
  "getExpectedConsecutiveFrameDataSize r =
     (case mr_message r of
        None \<Rightarrow> None
      | Some (_, m) \<Rightarrow>
          Some (if tm_validBytes m + mr_consecutiveFrameDataSize r \<le> mr_messageSize r
                then mr_consecutiveFrameDataSize r
                else u8_sub (mr_messageSize r) (tm_validBytes m)))"

definition mr_consecutiveFrameReceived ::
  "u8 \<Rightarrow> nat \<Rightarrow> u8 list \<Rightarrow> message_receiver \<Rightarrow> (rx_result \<times> message_receiver) option" where
  "mr_consecutiveFrameReceived sequenceNumber expectedSize data r =
     (let (result, r) = mr_lift (rx_consecutiveFrameReceived sequenceNumber (mr_maxBlockSize r)) r
      in if rx_state (mr_protocol r) \<noteq> RS_DONE
         then (case mr_message r of
                 None \<Rightarrow> None
               | Some (h, m) \<Rightarrow> do {
                   (_, m) \<leftarrow> tm_append data expectedSize m;
                   Some (result, r\<lparr>mr_message := Some (h, m)\<rparr>) })
         else Some (result, r))"

definition detachMessage :: "message_receiver \<Rightarrow> message_ptr option \<times> message_receiver" where
  "detachMessage r = (mr_message r, r\<lparr>mr_message := None\<rparr>)"

definition mr_release :: "message_receiver \<Rightarrow> message_ptr option \<times> message_receiver" where
  "mr_release r = detachMessage r"

definition mr_setTimer :: "u32 \<Rightarrow> message_receiver \<Rightarrow> message_receiver" where
  "mr_setTimer t r = r\<lparr>mr_timer := t, mr_isTimerSet := True\<rparr>"

definition mr_updateTimer :: "u32 \<Rightarrow> message_receiver \<Rightarrow> bool \<times> message_receiver" where
  "mr_updateTimer nowUs r =
     (if \<not> mr_isTimerSet r then (False, r)
      else if timerExpired (mr_timer r) nowUs then (True, r\<lparr>mr_isTimerSet := False\<rparr>)
      else (False, r))"

definition mr_less :: "message_receiver \<Rightarrow> message_receiver \<Rightarrow> bool" where
  "mr_less a b =
     (if \<not> mr_isTimerSet a then False
      else if \<not> mr_isTimerSet b then True
      else time_less (mr_timer a) (mr_timer b))"

section \<open>Message transmitter\<close>

record message_transmitter =
  mt_protocol :: tx_protocol
  mt_codec :: codec_config
  mt_message :: message_ptr
  mt_notificationListener :: "nat option"
  mt_receptionAddress :: address
  mt_transmissionAddress :: address
  mt_minSeparationTimeUs :: u32
  mt_timer :: u32
  mt_jobHandle :: job_handle
  mt_bytesSent :: nat
  mt_consecutiveFrameDataSize :: nat
  mt_isTimerSet :: bool
  mt_isSendingConsecutiveFrames :: bool

definition mt_new ::
  "job_handle \<Rightarrow> codec_config \<Rightarrow> address \<Rightarrow> address \<Rightarrow> message_ptr \<Rightarrow> nat option \<Rightarrow> nat \<Rightarrow> nat \<Rightarrow>
     message_transmitter" where
  "mt_new jobHandle codec reception transmission message listener frameCount consecutiveFrameDataSize =
     \<lparr>mt_protocol = tx_new (of_nat frameCount), mt_codec = codec, mt_message = message,
      mt_notificationListener = listener, mt_receptionAddress = reception,
      mt_transmissionAddress = transmission, mt_minSeparationTimeUs = 0, mt_timer = 0,
      mt_jobHandle = jobHandle, mt_bytesSent = 0,
      mt_consecutiveFrameDataSize = consecutiveFrameDataSize, mt_isTimerSet = False,
      mt_isSendingConsecutiveFrames = False\<rparr>"

definition mt_lift ::
  "(tx_protocol \<Rightarrow> tx_result \<times> tx_protocol) \<Rightarrow> message_transmitter \<Rightarrow> tx_result \<times> message_transmitter" where
  "mt_lift f t = (let (res, p) = f (mt_protocol t) in (res, t\<lparr>mt_protocol := p\<rparr>))"

text \<open>The unsent part of the payload; a count beyond the payload would wrap the size.\<close>

definition getSendData :: "message_transmitter \<Rightarrow> u8 list option" where
  "getSendData t =
     (let m = snd (mt_message t) in
      if mt_bytesSent t \<le> tm_payloadLength m \<and> tm_payloadLength m \<le> length (tm_buffer m)
      then Some (take (tm_payloadLength m - mt_bytesSent t) (drop (mt_bytesSent t) (tm_buffer m)))
      else None)"

definition mt_handleFlowControl ::
  "FlowStatus \<Rightarrow> u8 \<Rightarrow> u32 \<Rightarrow> u8 \<Rightarrow> message_transmitter \<Rightarrow> tx_result \<times> message_transmitter" where
  "mt_handleFlowControl flowStatus blockSize minSeparationTimeUs maxWaitCount t =
     (let (result, t) =
        mt_lift (tx_handleFlowControl flowStatus blockSize (minSeparationTimeUs > 0) maxWaitCount) t
      in (result, if tr_storeSeparationTime result
                  then t\<lparr>mt_minSeparationTimeUs := minSeparationTimeUs\<rparr> else t))"

definition mt_framesSent :: "nat \<Rightarrow> nat \<Rightarrow> message_transmitter \<Rightarrow> tx_result \<times> message_transmitter" where
  "mt_framesSent frameCount dataSize t =
     mt_lift (tx_framesSent (of_nat frameCount)) (t\<lparr>mt_bytesSent := to_u16 (mt_bytesSent t + dataSize)\<rparr>)"

definition INVALID_ADDRESS :: address where
  "INVALID_ADDRESS = 0xFFFFFFFF"

definition mt_release :: "message_transmitter \<Rightarrow> message_transmitter" where
  "mt_release t = t\<lparr>mt_jobHandle := JobHandle_default, mt_receptionAddress := INVALID_ADDRESS,
     mt_transmissionAddress := INVALID_ADDRESS\<rparr>"

definition mt_setTimer :: "u32 \<Rightarrow> bool \<Rightarrow> message_transmitter \<Rightarrow> message_transmitter" where
  "mt_setTimer nextExpiryUs isConsecutiveFrames t =
     t\<lparr>mt_timer := nextExpiryUs, mt_isTimerSet := True,
       mt_isSendingConsecutiveFrames := isConsecutiveFrames\<rparr>"

definition mt_updateTimer :: "u32 \<Rightarrow> message_transmitter \<Rightarrow> bool \<times> message_transmitter" where
  "mt_updateTimer nowUs t =
     (if \<not> mt_isTimerSet t then (False, t)
      else if timerExpired (mt_timer t) nowUs then (True, t\<lparr>mt_isTimerSet := False\<rparr>)
      else (False, t))"

definition mt_less :: "message_transmitter \<Rightarrow> message_transmitter \<Rightarrow> bool" where
  "mt_less a b =
     (if \<not> mt_isTimerSet a then False
      else if \<not> mt_isTimerSet b then True
      else time_less (mt_timer a) (mt_timer b))"

end
