(* ===== verification/DocanEndToEnd.thy ===== *)
theory DocanEndToEnd imports DocanCodecCorrect DocanMessages begin

text \<open>
  A sender and a receiver of one message back to back: message transmitter, encoder, decoder
  and message receiver, over a channel that loses nothing. The rounds below call the operations
  in the order in which \<^verbatim>\<open>DoCanTransmitter::sendNextFrames\<close> /
  \<^verbatim>\<open>dataFramesSent\<close> / \<^verbatim>\<open>flowControlFrameReceived\<close> and
  \<^verbatim>\<open>DoCanReceiver::handleTransitions\<close> call them when every step succeeds; whether a
  flow control frame overtakes the transmit confirmation of the frame it answers is an
  arbitrary choice per frame.
\<close>

section \<open>The composition\<close>

record link_config =
  lc_codec :: codec_config
  lc_mapper :: mapper
  lc_frameMax :: nat
  lc_blockSize :: u8
  lc_minSeparationTime :: u8
  lc_maxRetryCount :: u8
  lc_maxWaitCount :: u8
  lc_connection :: connection
  lc_buffer :: message_ptr
  lc_overtakes :: "nat \<Rightarrow> bool"

definition link_answer ::
  "link_config \<Rightarrow> message_receiver \<Rightarrow> (message_receiver \<times> u8 list option) option" where
  "link_answer L r =
     (if rx_state (mr_protocol r) = RS_SEND
      then do {
        (_, fc) \<leftarrow> encodeFlowControlFrame (lc_codec L) (lc_mapper L) (replicate (lc_frameMax L) 0)
                    (if isFlowControlWait (mr_protocol r) then FS_WAIT else FS_CTS)
                    (if isFlowControlWait (mr_protocol r) then 0 else mr_maxBlockSize r)
                    (if isFlowControlWait (mr_protocol r) then 0 else mr_encodedMinSeparationTime r);
        Some (snd (mr_lift (rx_frameSent True) r), Some fc) }
      else Some (r, None))"

definition link_deliver ::
  "link_config \<Rightarrow> u8 list \<Rightarrow> message_receiver option \<Rightarrow> (message_receiver option \<times> u8 list option) option" where
  "link_deliver L frame r = do {
     ev \<leftarrow> decodeFrame (lc_codec L) frame;
     case ev of
       Inr (FirstDataFrame messageSize count cf d) \<Rightarrow> do {
         let r = mr_new (lc_connection L) messageSize count cf (lc_blockSize L) (lc_minSeparationTime L) d False;
         m \<leftarrow> setPayloadLength messageSize (resetValidBytes (snd (lc_buffer L)));
         (_, r) \<leftarrow> mr_allocated (Some (fst (lc_buffer L), m)) (lc_maxRetryCount L) r;
         (r, fc) \<leftarrow> link_answer L r;
         Some (Some r, fc) }
     | Inr (ConsecutiveDataFrame k d) \<Rightarrow>
         (case r of
            None \<Rightarrow> Some (None, None)
          | Some r \<Rightarrow> do {
              expectedSize \<leftarrow> getExpectedConsecutiveFrameDataSize r;
              if length d < expectedSize then Some (Some r, None)
              else do {
                (_, r) \<leftarrow> mr_consecutiveFrameReceived k expectedSize d r;
                (r, fc) \<leftarrow> link_answer L r;
                Some (Some r, fc) } })
     | _ \<Rightarrow> Some (r, None) }"

definition link_flow_control ::
  "link_config \<Rightarrow> u8 list option \<Rightarrow> message_transmitter \<Rightarrow> message_transmitter option" where
  "link_flow_control L fc t =
     (case fc of
        None \<Rightarrow> Some t
      | Some frame \<Rightarrow> do {
          ev \<leftarrow> decodeFrame (lc_codec L) frame;
          case ev of
            Inr (FlowControlFrame fs bs st) \<Rightarrow>
              Some (snd (mt_handleFlowControl fs bs (decodeMinSeparationTime st) (lc_maxWaitCount L) t))
          | _ \<Rightarrow> Some t })"

type_synonym link_state = "message_transmitter \<times> message_receiver option"

definition link_send :: "link_config \<Rightarrow> link_state \<Rightarrow> link_state option" where
  "link_send L = (\<lambda>(t, r). do {
     let i = unat (tx_frameIndex (mt_protocol t));
     data \<leftarrow> getSendData t;
     enc \<leftarrow> encodeDataFrame (lc_codec L) (lc_mapper L) (replicate (lc_frameMax L) 0) data i
              (mt_consecutiveFrameDataSize t);
     case enc of
       Inl _ \<Rightarrow> None
     | Inr (frame, consumed) \<Rightarrow> do {
         let t = snd (mt_lift tx_frameSending t);
         (r, fc) \<leftarrow> link_deliver L frame r;
         t \<leftarrow> (if lc_overtakes L i
               then do { t \<leftarrow> link_flow_control L fc t; Some (snd (mt_framesSent 1 consumed t)) }
               else link_flow_control L fc (snd (mt_framesSent 1 consumed t)));
         Some (t, r) } })"

definition link_round :: "link_config \<Rightarrow> link_state \<Rightarrow> link_state option" where
  "link_round L = (\<lambda>(t, r).
     (case tx_state (mt_protocol t) of
        TS_INITIALIZED \<Rightarrow> Some (snd (mt_lift tx_start t), r)
      | TS_SEND \<Rightarrow> link_send L (t, r)
      | TS_WAIT \<Rightarrow>
          if tx_timeout (mt_protocol t) = TT_SEPARATION_TIME
          then Some (snd (mt_lift tx_expired t), r) else Some (t, r)
      | _ \<Rightarrow> Some (t, r)))"

fun link_rounds :: "link_config \<Rightarrow> nat \<Rightarrow> link_state \<Rightarrow> link_state option" where
  "link_rounds L 0 s = Some s"
| "link_rounds L (Suc k) s = Option.bind (link_round L s) (link_rounds L k)"

text \<open>The sender of a message as \<^verbatim>\<open>DoCanTransmitter::send\<close> creates it.\<close>

definition link_start :: "link_config \<Rightarrow> message_ptr \<Rightarrow> link_state option" where
  "link_start L msg =
     (case getEncodedFrameCount (lc_codec L) (tm_payloadLength (snd msg)) of
        Some (Inr (count, cf)) \<Rightarrow>
          Some (mt_new JobHandle_default (lc_codec L)
                 (cn_receptionAddress (lc_connection L)) (cn_transmissionAddress (lc_connection L))
                 msg None count cf, None)
      | _ \<Rightarrow> None)"

section \<open>What arrives\<close>

text \<open>Bytes of an \<open>n\<close> byte message that the first \<open>i\<close> frames carry.\<close>

definition sent_bytes :: "codec_config \<Rightarrow> nat \<Rightarrow> nat \<Rightarrow> nat \<Rightarrow> nat" where
  "sent_bytes c F n i = (if i = 0 then 0 else min n (ff_size c F n + (i - 1) * cf_size c F))"

definition delivered_bytes :: "codec_config \<Rightarrow> nat \<Rightarrow> nat \<Rightarrow> nat" where
  "delivered_bytes c F n =
     (if fits_single c F n then n else sent_bytes c F n (n div cf_size c F + 1))"

section \<open>The protocol handlers along a transfer\<close>

text \<open>The end of the block that frame \<open>i\<close> belongs to.\<close>

definition block_end :: "u8 \<Rightarrow> nat \<Rightarrow> nat \<Rightarrow> nat" where
  "block_end bs count i =
     (if i = 0 then 1 else if bs = 0 then count else ((i - 1) div unat bs + 1) * unat bs + 1)"

definition tx_sending :: "nat \<Rightarrow> nat \<Rightarrow> nat \<Rightarrow> bool \<Rightarrow> tx_protocol" where
  "tx_sending i count be st = \<lparr>tx_frameIndex = of_nat i, tx_frameCount = of_nat count,
     tx_blockEnd = of_nat be, tx_state = TS_SEND, tx_timeout = TT_TX_CALLBACK,
     tx_flowControl = FC_UNEXPECTED, tx_errorMessage = TM_NONE, tx_flowControlWaitCount = 0,
     tx_hasMinSeparationTime = st\<rparr>"

definition rx_waiting :: "u8 \<Rightarrow> nat \<Rightarrow> nat \<Rightarrow> rx_protocol" where
  "rx_waiting bs count i = \<lparr>rx_frameIndex = of_nat i, rx_frameCount = of_nat count,
     rx_state = RS_WAIT, rx_timeout = RT_RX,
     rx_blockFrameIndex = of_nat (if bs = 0 then 0 else (i - 1) mod unat bs),
     rx_allocateRetryCount = 0, rx_isAllocating = False\<rparr>"

lemma of_nat_u16_eq: "a < 65536 \<Longrightarrow> b < 65536 \<Longrightarrow> (of_nat a :: u16) = of_nat b \<longleftrightarrow> a = b"
  by (simp add: word_unat_eq_iff unat_of_nat)

lemma of_nat_u16_le: "a < 65536 \<Longrightarrow> b < 65536 \<Longrightarrow> (of_nat a :: u16) \<le> of_nat b \<longleftrightarrow> a \<le> b"
  by (simp add: word_le_nat_alt unat_of_nat)

lemma of_nat_u16_Suc: "(of_nat i + 1 :: u16) = of_nat (Suc i)"
  by simp

lemmas tx_transfer_simps =
  tx_sending_def tx_ops tx_isDone_def Let_def of_nat_u16_Suc of_nat_u16_eq of_nat_u16_le

lemma tx_no_flow_control:
  assumes "i < be" "be < 65536" "Suc i < count" "count < 65536" "Suc i \<noteq> be"
  shows "snd (tx_framesSent 1 (snd (tx_frameSending (tx_sending i count be st)))) =
    (if st then (tx_sending (Suc i) count be st)\<lparr>tx_state := TS_WAIT, tx_timeout := TT_SEPARATION_TIME\<rparr>
     else tx_sending (Suc i) count be st)"
  using assms by (simp add: tx_transfer_simps del: of_nat_Suc)

lemma tx_separation_over:
  "snd (tx_expired ((tx_sending i count be st)\<lparr>tx_state := TS_WAIT, tx_timeout := TT_SEPARATION_TIME\<rparr>)) =
   tx_sending i count be st"
  by (simp add: tx_transfer_simps)

lemma tx_last_frame:
  assumes "i < 65535" "be < 65536"
  shows "tx_state (snd (tx_framesSent 1 (snd (tx_frameSending (tx_sending i (Suc i) be st))))) = TS_SUCCESS"
  using assms by (simp add: tx_transfer_simps del: of_nat_Suc)

text \<open>A clear-to-send for the next block, before or after the confirmation of the frame.\<close>

lemma tx_flow_control:
  assumes "Suc i < count" "count \<le> 65280" and be: "be = (if bs = 0 then count else Suc i + unat bs)"
  shows "snd (tx_handleFlowControl FS_CTS bs st' waits
           (snd (tx_framesSent 1 (snd (tx_frameSending (tx_sending i count (Suc i) st)))))) =
         tx_sending (Suc i) count be st'"
    and "snd (tx_framesSent 1 (snd (tx_handleFlowControl FS_CTS bs st' waits
           (snd (tx_frameSending (tx_sending i count (Suc i) st)))))) =
         tx_sending (Suc i) count be st'"
proof -
  have sum: "(of_nat (Suc i) + ucast bs :: u16) = of_nat (Suc i + unat bs)"
    by simp
  show "snd (tx_handleFlowControl FS_CTS bs st' waits
           (snd (tx_framesSent 1 (snd (tx_frameSending (tx_sending i count (Suc i) st)))))) =
         tx_sending (Suc i) count be st'"
    and "snd (tx_framesSent 1 (snd (tx_handleFlowControl FS_CTS bs st' waits
           (snd (tx_frameSending (tx_sending i count (Suc i) st)))))) =
         tx_sending (Suc i) count be st'"
    using assms sum by (simp_all add: tx_transfer_simps word_gt_0 del: of_nat_Suc of_nat_add)
qed

lemma rx_sequence_ok:
  "i < 65536 \<Longrightarrow> (of_nat i :: u16) AND 0xF = ucast (byte_of (i mod 16))"
  by (simp add: word_unat_eq_iff frame_index_nibble unsigned_ucast_eq take_bit_eq_mod
      unat_byte_of unat_of_nat mod_mod_cancel)

lemma rx_last_frame:
  assumes "0 < i" "Suc i < 65536"
  shows "snd (rx_consecutiveFrameReceived (byte_of (i mod 16)) bs (rx_waiting bs (Suc i) i)) =
    (rx_waiting bs (Suc i) i)\<lparr>rx_frameIndex := of_nat (Suc i), rx_state := RS_PROCESSING,
       rx_timeout := RT_NONE\<rparr>"
  using assms
  by (simp add: rx_waiting_def rx_ops rx_sequence_ok Let_def of_nat_u16_Suc of_nat_u16_eq del: of_nat_Suc)

definition rx_sending :: "u8 \<Rightarrow> nat \<Rightarrow> nat \<Rightarrow> rx_protocol" where
  "rx_sending bs count i = (rx_waiting bs count i)\<lparr>rx_state := RS_SEND, rx_timeout := RT_NONE\<rparr>"

lemma rx_next_frame:
  assumes "0 < i" "Suc i < count" "count < 65536"
  shows "snd (rx_consecutiveFrameReceived (byte_of (i mod 16)) bs (rx_waiting bs count i)) =
    (if bs \<noteq> 0 \<and> i mod unat bs = 0 then rx_sending bs count (Suc i) else rx_waiting bs count (Suc i))"
proof -
  obtain j where j: "i = Suc j" using assms(1) by (cases i) auto
  let ?b = "unat bs"
  have small: "Suc (j mod ?b) < 256" if "bs \<noteq> 0"
  proof -
    have "j mod ?b < ?b" using that by (simp add: unat_gt_0)
    then show ?thesis using unat_bounds(1) [of bs] by simp
  qed
  have blk: "(of_nat (j mod ?b) + 1 :: u8) = bs \<longleftrightarrow> Suc (j mod ?b) = ?b" if "bs \<noteq> 0"
  proof -
    have "(of_nat (j mod ?b) + 1 :: u8) = of_nat (Suc (j mod ?b))" by simp
    then show ?thesis
      using small [OF that] by (simp add: word_unat_eq_iff unat_of_nat del: of_nat_Suc)
  qed
  show ?thesis
  proof (cases "bs = 0")
    case True
    then show ?thesis using assms
      by (simp add: rx_waiting_def rx_ops rx_sequence_ok Let_def of_nat_u16_Suc of_nat_u16_eq del: of_nat_Suc)
  next
    case False
    have idx: "rx_frameIndex (rx_waiting bs count i) AND 0xF = ucast (byte_of (i mod 16))"
      using assms by (simp add: rx_waiting_def rx_sequence_ok)
    have ne: "(of_nat i + 1 :: u16) \<noteq> of_nat count"
      unfolding of_nat_u16_Suc using assms by (simp add: of_nat_u16_eq del: of_nat_Suc)
    have im: "i mod ?b = (if Suc ((i - 1) mod ?b) = ?b then 0 else Suc ((i - 1) mod ?b))"
      using mod_Suc [of j ?b] j by simp
    have step: "snd (rx_consecutiveFrameReceived (byte_of (i mod 16)) bs (rx_waiting bs count i)) =
      (let s = (rx_waiting bs count i)\<lparr>rx_frameIndex := of_nat i + 1,
                 rx_blockFrameIndex := of_nat ((i - 1) mod ?b) + 1\<rparr>
       in if rx_blockFrameIndex s = bs
          then s\<lparr>rx_state := RS_SEND, rx_timeout := RT_NONE, rx_blockFrameIndex := 0\<rparr> else s)"
      using idx ne False
      by (simp add: rx_consecutiveFrameReceived_def rx_waiting_def rx_setState_def Let_def word_gt_0)
    show ?thesis unfolding step
      using blk [OF False] im j False
      by (simp add: rx_waiting_def rx_sending_def Let_def)
  qed
qed

lemma rx_clear_to_send:
  "snd (rx_frameSent True (rx_sending bs count i)) = rx_waiting bs count i"
  "\<not> isFlowControlWait (rx_sending bs count i)" "rx_state (rx_sending bs count i) = RS_SEND"
  by (simp_all add: rx_sending_def rx_waiting_def rx_ops isFlowControlWait_def)

lemma rx_first_frame:
  assumes "1 < count" "count < 65536"
  shows "snd (rx_allocated True retries (rx_new (of_nat count))) = rx_sending bs count 1"
proof -
  have "(of_nat count :: u16) \<noteq> 1" using assms of_nat_u16_eq [of count 1] by simp
  then show ?thesis by (simp add: rx_new_def rx_ops rx_sending_def rx_waiting_def)
qed

lemma rx_only_frame:
  "rx_state (snd (rx_allocated True retries (rx_new 1))) = RS_PROCESSING"
  by (simp add: rx_new_def rx_ops)

section \<open>Blocks\<close>

lemma block_end_bounds:
  assumes "i < count" "count \<le> 65280"
  shows "i < block_end bs count i \<and> block_end bs count i < 65536"
proof (cases "i = 0 \<or> bs = 0")
  case True
  then show ?thesis using assms by (auto simp: block_end_def)
next
  case False
  let ?q = "(i - 1) div unat bs * unat bs"
  have be: "block_end bs count i = ?q + unat bs + 1"
    using False by (simp add: block_end_def add_mult_distrib)
  have "?q \<le> i - 1" by (rule div_times_less_eq_dividend)
  moreover have "i - 1 < unat bs + ?q"
    using False by (intro dividend_less_div_times) (simp add: unat_gt_0)
  ultimately show ?thesis
    unfolding be using assms unat_bounds(1) [of bs] False by linarith
qed

lemma block_boundary:
  assumes "0 < i" "Suc i < count"
  shows "Suc i = block_end bs count i \<longleftrightarrow> bs \<noteq> 0 \<and> i mod unat bs = 0"
proof (cases "bs = 0")
  case True
  then show ?thesis using assms by (simp add: block_end_def)
next
  case False
  obtain j where j: "i = Suc j" using assms(1) by (cases i) auto
  have b: "0 < unat bs" using False by (simp add: unat_gt_0)
  have d: "j div unat bs * unat bs + j mod unat bs = j" by simp
  have "Suc i = block_end bs count i \<longleftrightarrow> Suc j = (j div unat bs + 1) * unat bs"
    using False j by (simp add: block_end_def)
  also have "\<dots> \<longleftrightarrow> Suc (j mod unat bs) = unat bs"
    unfolding add_mult_distrib using d by linarith
  also have "\<dots> \<longleftrightarrow> Suc j mod unat bs = 0" using b by (auto simp: mod_Suc)
  finally show ?thesis using False j by simp
qed

lemma block_end_Suc:
  assumes "Suc i < count"
  shows "block_end bs count (Suc i) =
    (if Suc i = block_end bs count i then if bs = 0 then count else Suc i + unat bs
     else block_end bs count i)"
proof (cases "i = 0 \<or> bs = 0")
  case True
  then show ?thesis using assms by (auto simp: block_end_def)
next
  case False
  then obtain j where j: "i = Suc j" by (cases i) auto
  have d: "j div unat bs * unat bs + j mod unat bs = j" by simp
  have b: "Suc i = block_end bs count i \<longleftrightarrow> i mod unat bs = 0"
    using block_boundary [of i count bs] assms False by simp
  show ?thesis
  proof (cases "i mod unat bs = 0")
    case True
    then have "i div unat bs * unat bs = i" by auto
    then show ?thesis using True b False by (simp add: block_end_def add_mult_distrib)
  next
    case False': False
    then have "i div unat bs = j div unat bs" using j by (simp add: div_Suc mod_Suc)
    then show ?thesis using b False' False j by (simp add: block_end_def)
  qed
qed

section \<open>Frames and data\<close>

context docan_link begin

lemma sent_bytes_Suc:
  assumes "0 < i"
  shows "sent_bytes c frameMax n (Suc i) = sent_bytes c frameMax n i
    + min (cf_size c frameMax) (n - sent_bytes c frameMax n i)"
proof -
  obtain j where "i = Suc j" using assms by (cases i) auto
  then show ?thesis by (simp add: sent_bytes_def)
qed

lemma sent_bytes_less:
  assumes "\<not> fits_single c frameMax n" "i < n div cf_size c frameMax + 1"
  shows "sent_bytes c frameMax n i < n"
proof -
  let ?cf = "cf_size c frameMax"
  have n: "?cf \<le> n" by (rule not_single_ge [OF assms(1)])
  have ff: "ff_size c frameMax n < ?cf" using cf_size_bounds by (simp add: ff_size_def)
  show ?thesis
  proof (cases i)
    case 0 then show ?thesis using n cf_size_bounds by (simp add: sent_bytes_def)
  next
    case (Suc j)
    then have "Suc j * ?cf \<le> n div ?cf * ?cf" using assms(2) by (intro mult_le_mono1) simp
    also have "\<dots> \<le> n" by (rule div_times_less_eq_dividend)
    finally show ?thesis using ff Suc by (simp add: sent_bytes_def)
  qed
qed

lemma frame_count_bounds:
  assumes "\<not> fits_single c frameMax n" "n \<le> 65535"
  shows "1 < n div cf_size c frameMax + 1" "n div cf_size c frameMax + 1 \<le> 65280"
proof -
  show "1 < n div cf_size c frameMax + 1"
    using not_single_ge [OF assms(1)] cf_size_bounds by (simp add: div_greater_zero_iff)
  have "n div cf_size c frameMax \<le> 65535 div 6"
    using assms cf_size_bounds by (meson div_le_mono2 div_le_mono le_trans zero_less_numeral)
  then show "n div cf_size c frameMax + 1 \<le> 65280" by simp
qed

end

section \<open>Sender and receiver along a transfer\<close>

definition receiver_at ::
  "link_config \<Rightarrow> nat \<Rightarrow> nat \<Rightarrow> rx_protocol \<Rightarrow> u8 list \<Rightarrow> message_receiver \<Rightarrow> bool" where
  "receiver_at L cf n p d r \<longleftrightarrow> mr_protocol r = p \<and> mr_messageSize r = n
     \<and> mr_consecutiveFrameDataSize r = cf \<and> mr_maxBlockSize r = lc_blockSize L
     \<and> mr_encodedMinSeparationTime r = lc_minSeparationTime L
     \<and> (\<exists>m. mr_message r = Some (fst (lc_buffer L), m) \<and> tm_wf m \<and> n \<le> length (tm_buffer m)
           \<and> tm_payloadLength m = n \<and> tm_data m = d)"

definition sender_at ::
  "nat \<Rightarrow> u8 list \<Rightarrow> tx_protocol \<Rightarrow> nat \<Rightarrow> message_transmitter \<Rightarrow> bool" where
  "sender_at cf data p sent t \<longleftrightarrow> mt_protocol t = p \<and> mt_bytesSent t = sent
     \<and> mt_consecutiveFrameDataSize t = cf
     \<and> tm_payloadLength (snd (mt_message t)) = length data
     \<and> length data \<le> length (tm_buffer (snd (mt_message t)))
     \<and> take (length data) (tm_buffer (snd (mt_message t))) = data"

text \<open>The receiver has a buffer for the message.\<close>

definition link_buffer_ok :: "link_config \<Rightarrow> nat \<Rightarrow> bool" where
  "link_buffer_ok L n \<longleftrightarrow> tm_wf (snd (lc_buffer L)) \<and> n \<le> length (tm_buffer (snd (lc_buffer L)))"

lemma sender_at_data:
  assumes "sender_at cf data p sent t" "sent \<le> length data"
  shows "getSendData t = Some (drop sent data)"
proof -
  let ?m = "snd (mt_message t)"
  have "take (length data - sent) (drop sent (tm_buffer ?m)) = drop sent (take (length data) (tm_buffer ?m))"
    by (simp add: drop_take)
  then show ?thesis using assms by (simp add: sender_at_def getSendData_def Let_def)
qed

lemma getExpected_at:
  assumes "receiver_at L cf n p d r" "length d \<le> n" "n - length d < 256 \<or> length d + cf \<le> n"
  shows "getExpectedConsecutiveFrameDataSize r = Some (min cf (n - length d))"
proof -
  obtain m where m: "mr_message r = Some (fst (lc_buffer L), m)" "tm_wf m" "tm_data m = d"
    using assms(1) by (auto simp: receiver_at_def)
  then have "tm_validBytes m = length d" using length_tm_data by metis
  then show ?thesis using assms m by (auto simp: getExpectedConsecutiveFrameDataSize_def receiver_at_def)
qed

lemma receiver_appends:
  assumes at: "receiver_at L cf n p d r" and len: "length d + k \<le> n" "k \<le> length new"
    and res: "snd (rx_consecutiveFrameReceived j (lc_blockSize L) p) = p'" "rx_state p' \<noteq> RS_DONE"
  obtains res r' where "mr_consecutiveFrameReceived j k new r = Some (res, r')"
    "receiver_at L cf n p' (d @ take k new) r'"
proof -
  obtain m where m: "mr_message r = Some (fst (lc_buffer L), m)" "tm_wf m" "tm_data m = d"
      "n \<le> length (tm_buffer m)" "tm_payloadLength m = n"
    using at by (auto simp: receiver_at_def)
  then have v: "tm_validBytes m = length d" using length_tm_data by metis
  then obtain m' where m': "tm_append new k m = Some (TP_MSG_OK, m')" "tm_wf m'"
    "tm_data m' = d @ take k new" "length (tm_buffer m') = length (tm_buffer m)" "tm_payloadLength m' = n"
    using tm_append_fits [of m k new] m len by (metis le_trans)
  obtain result where rx: "rx_consecutiveFrameReceived j (mr_maxBlockSize r) (mr_protocol r) = (result, p')"
    using at res(1) by (metis receiver_at_def prod.collapse)
  have "mr_consecutiveFrameReceived j k new r =
      Some (result, r\<lparr>mr_protocol := p', mr_message := Some (fst (lc_buffer L), m')\<rparr>)"
    using rx m(1) m'(1) res(2) by (simp add: mr_consecutiveFrameReceived_def mr_lift_def)
  moreover have "receiver_at L cf n p' (d @ take k new)
      (r\<lparr>mr_protocol := p', mr_message := Some (fst (lc_buffer L), m')\<rparr>)"
    using at m m' by (simp add: receiver_at_def)
  ultimately show thesis by (rule that)
qed

lemma receiver_starts:
  assumes buf: "link_buffer_ok L n" and len: "length d \<le> n" "length d < 256"
    and res: "snd (rx_allocated True (lc_maxRetryCount L) (rx_new (of_nat count))) = p"
      "\<not> rx_isAllocating p"
  obtains m res r where
    "setPayloadLength n (resetValidBytes (snd (lc_buffer L))) = Some m"
    "mr_allocated (Some (fst (lc_buffer L), m)) (lc_maxRetryCount L)
       (mr_new (lc_connection L) n count cf (lc_blockSize L) (lc_minSeparationTime L) d False) = Some (res, r)"
    "receiver_at L cf n p d r"
proof -
  let ?b = "snd (lc_buffer L)"
  let ?m = "?b\<lparr>tm_validBytes := 0, tm_payloadLength := n\<rparr>"
  let ?r = "mr_new (lc_connection L) n count cf (lc_blockSize L) (lc_minSeparationTime L) d False"
  have pl: "setPayloadLength n (resetValidBytes ?b) = Some ?m"
    using buf
    by (simp add: link_buffer_ok_def tm_wf_def setPayloadLength_def resetValidBytes_def
        getMaxPayloadLength_def)
  have wf: "tm_wf ?m" "tm_data ?m = []"
    using buf by (simp_all add: link_buffer_ok_def tm_wf_def tm_data_def)
  have n: "n \<le> length (tm_buffer ?m)" using buf by (simp add: link_buffer_ok_def)
  obtain m' where m': "tm_append d (length d) ?m = Some (TP_MSG_OK, m')" "tm_wf m'"
    "tm_data m' = d" "length (tm_buffer m') = length (tm_buffer ?m)" "tm_payloadLength m' = n"
    using tm_append_fits [of ?m "length d" d] wf n len by auto
  obtain result where rx: "rx_allocated True (lc_maxRetryCount L) (mr_protocol ?r) = (result, p)"
    using res(1) by (simp add: mr_new_def) (metis prod.collapse)
  have "mr_allocated (Some (fst (lc_buffer L), ?m)) (lc_maxRetryCount L) ?r =
      Some (result, ?r\<lparr>mr_protocol := p, mr_message := Some (fst (lc_buffer L), m')\<rparr>)"
    using rx m'(1) res(2) len by (simp add: mr_allocated_def mr_lift_def mr_new_def Let_def)
  moreover have "receiver_at L cf n p d (?r\<lparr>mr_protocol := p, mr_message := Some (fst (lc_buffer L), m')\<rparr>)"
    using m' n by (simp add: receiver_at_def mr_new_def)
  ultimately show thesis using pl that by blast
qed

context docan_link begin

lemma receiver_clears:
  assumes L: "lc_codec L = c" "lc_mapper L = mapSize" "lc_frameMax L = frameMax"
    and at: "receiver_at L cf n (rx_sending (lc_blockSize L) count i) d r"
  obtains r' f where "link_answer L r = Some (r', Some f)"
    "receiver_at L cf n (rx_waiting (lc_blockSize L) count i) d r'"
    "decodeFrame c f = Some (Inr (FlowControlFrame FS_CTS (lc_blockSize L) (lc_minSeparationTime L)))"
proof -
  let ?bs = "lc_blockSize L" and ?st = "lc_minSeparationTime L"
  obtain f where f: "encodeFlowControlFrame c mapSize (replicate frameMax 0) FS_CTS ?bs ?st = Some (None, f)"
    "decodeFrame c f = Some (Inr (FlowControlFrame FS_CTS ?bs ?st))"
    using flow_control_roundtrip [of FS_CTS "replicate frameMax 0" ?bs ?st]
    by (auto simp: flow_status_of_def)
  have p: "mr_protocol r = rx_sending ?bs count i" "mr_maxBlockSize r = ?bs"
    "mr_encodedMinSeparationTime r = ?st" using at by (simp_all add: receiver_at_def)
  have "link_answer L r = Some (snd (mr_lift (rx_frameSent True) r), Some f)"
    using f L p by (simp add: link_answer_def rx_clear_to_send)
  moreover have "receiver_at L cf n (rx_waiting ?bs count i) d (snd (mr_lift (rx_frameSent True) r))"
    using at p rx_clear_to_send(1) [of ?bs count i]
    by (simp add: receiver_at_def mr_lift_def case_prod_unfold)
  ultimately show thesis using f(2) by (rule that)
qed

lemma receiver_silent:
  "receiver_at L cf n p d r \<Longrightarrow> rx_state p \<noteq> RS_SEND \<Longrightarrow> link_answer L r = Some (r, None)"
  by (simp add: receiver_at_def link_answer_def)

end

text \<open>The sender's part of a round, behind the encoder.\<close>

definition link_confirm ::
  "link_config \<Rightarrow> nat \<Rightarrow> nat \<Rightarrow> u8 list option \<Rightarrow> message_transmitter \<Rightarrow> message_transmitter option" where
  "link_confirm L i consumed fc t =
     (let t = snd (mt_lift tx_frameSending t) in
      if lc_overtakes L i
      then do { t \<leftarrow> link_flow_control L fc t; Some (snd (mt_framesSent 1 consumed t)) }
      else link_flow_control L fc (snd (mt_framesSent 1 consumed t)))"

lemma sender_step:
  assumes "sender_at cf data p s t" "snd (f p) = p'"
  shows "sender_at cf data p' s (snd (mt_lift f t))"
  using assms by (simp add: sender_at_def mt_lift_def case_prod_unfold)

lemma sender_sent:
  assumes "sender_at cf data p s t" "snd (tx_framesSent 1 p) = p'" "s + k \<le> 65535"
  shows "sender_at cf data p' (s + k) (snd (mt_framesSent 1 k t))"
  using assms by (simp add: sender_at_def mt_framesSent_def mt_lift_def case_prod_unfold)

lemma sender_flow_control:
  assumes "sender_at cf data p s t" "snd (tx_handleFlowControl fs bs (0 < st) waits p) = p'"
  shows "sender_at cf data p' s (snd (mt_handleFlowControl fs bs st waits t))"
  using assms by (simp add: sender_at_def mt_handleFlowControl_def mt_lift_def case_prod_unfold Let_def)

lemma sender_cleared:
  assumes at: "sender_at cf data (tx_sending i count (Suc i) b) s t"
    and i: "Suc i < count" "count \<le> 65280" and k: "s + k \<le> 65535"
    and fc: "decodeFrame (lc_codec L) g = Some (Inr (FlowControlFrame FS_CTS bs st))"
  obtains t' where "link_confirm L i k (Some g) t = Some t'"
    "sender_at cf data (tx_sending (Suc i) count (if bs = 0 then count else Suc i + unat bs)
       (0 < decodeMinSeparationTime st)) (s + k) t'"
proof -
  let ?t = "snd (mt_lift tx_frameSending t)" and ?be = "if bs = 0 then count else Suc i + unat bs"
  let ?fc = "\<lambda>t. snd (mt_handleFlowControl FS_CTS bs (decodeMinSeparationTime st) (lc_maxWaitCount L) t)"
  note sending = sender_step [OF at, where f = tx_frameSending, OF refl]
  note cts = tx_flow_control [OF i refl, of bs "0 < decodeMinSeparationTime st" "lc_maxWaitCount L" b]
  have "sender_at cf data (tx_sending (Suc i) count ?be (0 < decodeMinSeparationTime st)) (s + k)
      (?fc (snd (mt_framesSent 1 k ?t)))"
    by (rule sender_flow_control [OF sender_sent [OF sending refl k]]) (rule cts(1))
  moreover have "sender_at cf data (tx_sending (Suc i) count ?be (0 < decodeMinSeparationTime st)) (s + k)
      (snd (mt_framesSent 1 k (?fc ?t)))"
    by (rule sender_sent [OF sender_flow_control [OF sending refl] _ k]) (rule cts(2))
  moreover have "link_confirm L i k (Some g) t =
      Some (if lc_overtakes L i then snd (mt_framesSent 1 k (?fc ?t)) else ?fc (snd (mt_framesSent 1 k ?t)))"
    using fc by (simp add: link_confirm_def link_flow_control_def Let_def)
  ultimately show thesis by (cases "lc_overtakes L i") (auto intro: that)
qed

lemma sender_confirmed:
  assumes "sender_at cf data p s t" "s + k \<le> 65535"
  obtains t' where "link_confirm L i k None t = Some t'"
    "sender_at cf data (snd (tx_framesSent 1 (snd (tx_frameSending p)))) (s + k) t'"
proof -
  note sent = sender_sent [OF sender_step [OF assms(1), where f = tx_frameSending, OF refl] refl assms(2)]
  show thesis
    by (rule that [OF _ sent]) (simp add: link_confirm_def link_flow_control_def Let_def)
qed

lemma link_send_confirm:
  assumes at: "sender_at cf data p s t" "s \<le> length data" "unat (tx_frameIndex p) = i"
    and enc: "encodeDataFrame (lc_codec L) (lc_mapper L) (replicate (lc_frameMax L) 0) (drop s data) i cf
      = Some (Inr (f, k))"
    and del: "link_deliver L f r = Some (r', fc)" and conf: "link_confirm L i k fc t = Some t'"
  shows "link_send L (t, r) = Some (t', r')"
  using sender_at_data [OF at(1,2)] assms
  by (simp add: link_send_def link_confirm_def sender_at_def Let_def)

context docan_link begin

lemma link_first_segment:
  assumes L: "lc_codec L = c" "lc_mapper L = mapSize" "lc_frameMax L = frameMax"
    and n: "length data = n" "n \<le> 65535" "\<not> fits_single c frameMax n" and buf: "link_buffer_ok L n"
    and count: "count = n div cf_size c frameMax + 1"
    and at: "sender_at (cf_size c frameMax) data (tx_sending 0 count 1 b) 0 t"
  obtains t' r where "link_send L (t, r0) = Some (t', Some r)"
    "sender_at (cf_size c frameMax) data (tx_sending 1 count (block_end (lc_blockSize L) count 1)
       (0 < decodeMinSeparationTime (lc_minSeparationTime L))) (sent_bytes c frameMax n 1) t'"
    "receiver_at L (cf_size c frameMax) n (rx_waiting (lc_blockSize L) count 1)
       (take (sent_bytes c frameMax n 1) data) r"
proof -
  let ?cf = "cf_size c frameMax" and ?ff = "ff_size c frameMax n" and ?bs = "lc_blockSize L"
  have cnt: "1 < count" "count \<le> 65280" using frame_count_bounds [OF n(3,2)] count by simp_all
  have ff: "?ff < ?cf" "?cf \<le> n" "?cf < 64"
    using cf_size_bounds not_single_ge [OF n(3)] by (auto simp: ff_size_def)
  have s1: "sent_bytes c frameMax n 1 = ?ff" using ff by (simp add: sent_bytes_def)
  obtain f where f: "encodeDataFrame c mapSize (replicate frameMax 0) data 0 ?cf = Some (Inr (f, ?ff))"
    "decodeFrame c f = Some (Inr (FirstDataFrame n count ?cf (take ?ff data)))"
    using first_roundtrip [OF n, of "replicate frameMax 0"] count by auto
  obtain m res r where r: "setPayloadLength n (resetValidBytes (snd (lc_buffer L))) = Some m"
    "mr_allocated (Some (fst (lc_buffer L), m)) (lc_maxRetryCount L)
       (mr_new (lc_connection L) n count ?cf ?bs (lc_minSeparationTime L) (take ?ff data) False) = Some (res, r)"
    "receiver_at L ?cf n (rx_sending ?bs count 1) (take ?ff data) r"
    using receiver_starts [OF buf, of "take ?ff data" count "rx_sending ?bs count 1" ?cf] n ff cnt
      rx_first_frame [of count "lc_maxRetryCount L" ?bs] by (auto simp: rx_sending_def rx_waiting_def)
  obtain r' g where g: "link_answer L r = Some (r', Some g)"
    "receiver_at L ?cf n (rx_waiting ?bs count 1) (take ?ff data) r'"
    "decodeFrame c g = Some (Inr (FlowControlFrame FS_CTS ?bs (lc_minSeparationTime L)))"
    by (rule receiver_clears [OF L r(3)])
  have del: "link_deliver L f r0 = Some (Some r', Some g)"
    using f(2) L(1) r(1,2) g(1) by (simp add: link_deliver_def)
  have k: "0 + ?ff \<le> 65535" using ff by simp
  obtain t' where t': "link_confirm L 0 ?ff (Some g) t = Some t'"
    "sender_at ?cf data (tx_sending 1 count (if ?bs = 0 then count else Suc 0 + unat ?bs)
       (0 < decodeMinSeparationTime (lc_minSeparationTime L))) ?ff t'"
    using sender_cleared [of ?cf data 0 count b 0 t ?ff L g, OF _ _ cnt(2) k] at cnt(1) g(3) L(1) by auto
  have "link_send L (t, r0) = Some (t', Some r')"
    by (rule link_send_confirm [OF at _ _ _ del t'(1)]) (use f(1) L in \<open>simp_all add: tx_sending_def\<close>)
  moreover have "block_end ?bs count 1 = (if ?bs = 0 then count else Suc 0 + unat ?bs)"
    by (simp add: block_end_def)
  ultimately show thesis
    by (intro that) (use t'(2) g(2) s1 in simp_all)
qed

end

context docan_link begin

lemma link_deliver_consecutive:
  assumes L: "lc_codec L = c"
    and n: "length data = n" "\<not> fits_single c frameMax n" and i: "0 < i" "i < n div cf_size c frameMax + 1"
    and s: "s = sent_bytes c frameMax n i"
    and at: "receiver_at L (cf_size c frameMax) n p (take s data) r"
    and f: "decodeFrame c f = Some (Inr (ConsecutiveDataFrame j (take (cf_size c frameMax) (drop s data) @ pad)))"
    and p': "snd (rx_consecutiveFrameReceived j (lc_blockSize L) p) = p'" "rx_state p' \<noteq> RS_DONE"
  obtains r' where "link_deliver L f (Some r) =
      Option.bind (link_answer L r') (\<lambda>(r, fc). Some (Some r, fc))"
    "receiver_at L (cf_size c frameMax) n p' (take (sent_bytes c frameMax n (Suc i)) data) r'"
proof -
  let ?cf = "cf_size c frameMax" and ?k = "min (cf_size c frameMax) (n - s)"
  let ?new = "take ?cf (drop s data) @ pad"
  have s': "s < n" using sent_bytes_less [OF n(2) i(2)] s by simp
  have len: "length (take s data) = s" using s' n(1) by simp
  have exp: "getExpectedConsecutiveFrameDataSize r = Some ?k"
  proof -
    have "n - s < 256 \<or> s + ?cf \<le> n" using cf_size_bounds by linarith
    then show ?thesis using getExpected_at [OF at] len s' by simp
  qed
  have k: "length (take s data) + ?k \<le> n" "?k \<le> length ?new" using len s' n(1) by auto
  obtain res r' where r': "mr_consecutiveFrameReceived j ?k ?new r = Some (res, r')"
    "receiver_at L ?cf n p' (take s data @ take ?k ?new) r'"
    by (rule receiver_appends [OF at k p'])
  have "take ?k ?new = take ?k (drop s data)" using n(1) s' by (simp add: min_def)
  then have "take s data @ take ?k ?new = take (s + ?k) data" by (simp add: take_add)
  moreover have "s + ?k = sent_bytes c frameMax n (Suc i)" using sent_bytes_Suc [OF i(1), of n] s by simp
  moreover have "link_deliver L f (Some r) = Option.bind (link_answer L r') (\<lambda>(r, fc). Some (Some r, fc))"
  proof -
    have "\<not> length ?new < ?k" using k(2) by (rule leD)
    then show ?thesis
      unfolding link_deliver_def L f using exp r'(1) by (simp del: length_append min_less_iff_conj)
  qed
  ultimately show thesis using r'(2) that by simp
qed

lemma link_consecutive_segment:
  assumes L: "lc_codec L = c" "lc_mapper L = mapSize" "lc_frameMax L = frameMax"
    and n: "length data = n" "n \<le> 65535" "\<not> fits_single c frameMax n"
    and count: "count = n div cf_size c frameMax + 1" and i: "0 < i" "Suc i < count"
    and st: "mst = (0 < decodeMinSeparationTime (lc_minSeparationTime L))"
    and tx: "sender_at (cf_size c frameMax) data
       (tx_sending i count (block_end (lc_blockSize L) count i) mst) (sent_bytes c frameMax n i) t"
    and rx: "receiver_at L (cf_size c frameMax) n (rx_waiting (lc_blockSize L) count i)
       (take (sent_bytes c frameMax n i) data) r"
  obtains p t' r' where "link_send L (t, Some r) = Some (t', Some r')"
    "p = tx_sending (Suc i) count (block_end (lc_blockSize L) count (Suc i)) mst
     \<or> mst \<and> p = (tx_sending (Suc i) count (block_end (lc_blockSize L) count (Suc i)) mst)
                  \<lparr>tx_state := TS_WAIT, tx_timeout := TT_SEPARATION_TIME\<rparr>"
    "sender_at (cf_size c frameMax) data p (sent_bytes c frameMax n (Suc i)) t'"
    "receiver_at L (cf_size c frameMax) n (rx_waiting (lc_blockSize L) count (Suc i))
       (take (sent_bytes c frameMax n (Suc i)) data) r'"
proof -
  let ?cf = "cf_size c frameMax" and ?s = "sent_bytes c frameMax n i" and ?bs = "lc_blockSize L"
  let ?be = "block_end ?bs count i" and ?s' = "sent_bytes c frameMax n (Suc i)"
  have cnt: "count \<le> 65280" using frame_count_bounds [OF n(3,2)] count by simp
  have be: "i < ?be" "?be < 65536" using block_end_bounds [of i count ?bs] i cnt by auto
  have s: "?s < n" "i < n div ?cf + 1" using sent_bytes_less [OF n(3), of i] i count by simp_all
  have s': "?s' = ?s + min ?cf (length (drop ?s data))" using sent_bytes_Suc [OF i(1), of n] n(1) by simp
  have k: "?s + min ?cf (length (drop ?s data)) \<le> 65535" using s n by simp
  have ne: "drop ?s data \<noteq> []" "length (drop ?s data) \<le> 65535" using s n by simp_all
  obtain f pad where f: "encodeDataFrame c mapSize (replicate frameMax 0) (drop ?s data) i ?cf =
       Some (Inr (f, min ?cf (length (drop ?s data))))"
    "decodeFrame c f = Some (Inr (ConsecutiveDataFrame (byte_of (i mod 16)) (take ?cf (drop ?s data) @ pad)))"
    using consecutive_roundtrip [OF ne i(1) length_replicate] by metis
  have idx: "unat (tx_frameIndex (tx_sending i count ?be mst)) = i"
    using i cnt by (simp add: tx_sending_def unat_of_nat)
  have send: "link_send L (t, Some r) = Some (t', Some r')"
    if "link_deliver L f (Some r) = Some (Some r', fc)"
      "link_confirm L i (min ?cf (length (drop ?s data))) fc t = Some t'" for t' r' fc
    by (rule link_send_confirm [OF tx _ idx _ that]) (use s n f L in simp_all)
  note rx_next = rx_next_frame [of i count ?bs]
  have bSuc: "Suc i = ?be \<longleftrightarrow> ?bs \<noteq> 0 \<and> i mod unat ?bs = 0" by (rule block_boundary [OF i])
  note deliver = link_deliver_consecutive [OF L(1) n(1,3) i(1) s(2) refl rx f(2)]
  show thesis
  proof (cases "Suc i = ?be")
    case True
    then have p': "snd (rx_consecutiveFrameReceived (byte_of (i mod 16)) ?bs (rx_waiting ?bs count i))
        = rx_sending ?bs count (Suc i)" using rx_next i cnt bSuc by simp
    obtain r1 where r1: "link_deliver L f (Some r) = Option.bind (link_answer L r1) (\<lambda>(r, fc). Some (Some r, fc))"
      "receiver_at L ?cf n (rx_sending ?bs count (Suc i)) (take ?s' data) r1"
      by (rule deliver [OF p']) (simp add: rx_clear_to_send)
    obtain r' g where g: "link_answer L r1 = Some (r', Some g)"
      "receiver_at L ?cf n (rx_waiting ?bs count (Suc i)) (take ?s' data) r'"
      "decodeFrame c g = Some (Inr (FlowControlFrame FS_CTS ?bs (lc_minSeparationTime L)))"
      by (rule receiver_clears [OF L r1(2)])
    have tx': "sender_at ?cf data (tx_sending i count (Suc i) mst) ?s t" using tx True by simp
    obtain t' where t': "link_confirm L i (min ?cf (length (drop ?s data))) (Some g) t = Some t'"
      "sender_at ?cf data (tx_sending (Suc i) count (if ?bs = 0 then count else Suc i + unat ?bs) mst)
         (?s + min ?cf (length (drop ?s data))) t'"
      unfolding st
      by (rule sender_cleared [OF tx' [unfolded st] i(2) cnt k g(3) [folded L(1)]])
    show thesis
      by (rule that [OF send [OF _ t'(1)] disjI1 [OF refl] _ g(2)])
        (use r1(1) g(1) t'(2) block_end_Suc [OF i(2), of ?bs] True s' in simp_all)
  next
    case False
    then have p': "snd (rx_consecutiveFrameReceived (byte_of (i mod 16)) ?bs (rx_waiting ?bs count i))
        = rx_waiting ?bs count (Suc i)" using rx_next i cnt bSuc by auto
    have quiet: "rx_state (rx_waiting ?bs count (Suc i)) = RS_WAIT" by (simp add: rx_waiting_def)
    obtain r' where r': "link_deliver L f (Some r) = Option.bind (link_answer L r') (\<lambda>(r, fc). Some (Some r, fc))"
      "receiver_at L ?cf n (rx_waiting ?bs count (Suc i)) (take ?s' data) r'"
      by (rule deliver [OF p']) (simp add: quiet)
    have d: "link_deliver L f (Some r) = Some (Some r', None)"
      using r' receiver_silent [OF r'(2)] quiet by simp
    obtain t' where t': "link_confirm L i (min ?cf (length (drop ?s data))) None t = Some t'"
      "sender_at ?cf data (snd (tx_framesSent 1 (snd (tx_frameSending (tx_sending i count ?be mst)))))
         (?s + min ?cf (length (drop ?s data))) t'"
      by (rule sender_confirmed [OF tx k])
    have "block_end ?bs count (Suc i) = ?be" using block_end_Suc [OF i(2), of ?bs] False by simp
    moreover have "count < 65536" using cnt by simp
    note nofc = tx_no_flow_control [OF be i(2) this False, of mst]
    ultimately show thesis
      by (intro that [OF send [OF d t'(1)] _ t'(2) [folded s'] r'(2)]) (simp add: nofc)
  qed
qed

end

lemma link_rounds_add:
  "link_rounds L (a + b) s = Option.bind (link_rounds L a s) (link_rounds L b)"
  by (induction a arbitrary: s) (auto simp: Option.bind_assoc split: Option.bind_split)

lemma link_rounds_Suc:
  "link_rounds L k s = Some s' \<Longrightarrow> link_round L s' = Some s'' \<Longrightarrow> link_rounds L (Suc k) s = Some s''"
  using link_rounds_add [of L k 1 s] by simp

lemma link_rounds_done:
  assumes "link_rounds L k s = Some (t, r)" "tx_state (mt_protocol t) = TS_SUCCESS" "k \<le> j"
  shows "link_rounds L j s = Some (t, r)"
proof -
  have stay: "link_rounds L d (t, r) = Some (t, r)" for d
    using assms(2) by (induction d) (simp_all add: link_round_def)
  show ?thesis using link_rounds_add [of L k "j - k" s] assms(1,3) stay by simp
qed

lemma link_round_send:
  assumes "sender_at cf data (tx_sending i count be b) s t"
  shows "link_round L (t, r) = link_send L (t, r)"
  using assms by (simp add: link_round_def sender_at_def tx_sending_def)

lemma link_round_separation:
  assumes at: "sender_at cf data ((tx_sending i count be b)
      \<lparr>tx_state := TS_WAIT, tx_timeout := TT_SEPARATION_TIME\<rparr>) s t"
  obtains t' where "link_round L (t, r) = Some (t', r)" "sender_at cf data (tx_sending i count be b) s t'"
proof
  show "link_round L (t, r) = Some (snd (mt_lift tx_expired t), r)"
    using at by (simp add: link_round_def sender_at_def)
  show "sender_at cf data (tx_sending i count be b) s (snd (mt_lift tx_expired t))"
    using sender_step [where f = tx_expired, OF at] tx_separation_over by simp
qed

text \<open>Sender and receiver agree before frame \<open>i\<close> of a segmented message.\<close>

definition link_at :: "link_config \<Rightarrow> u8 list \<Rightarrow> nat \<Rightarrow> message_transmitter \<Rightarrow> message_receiver \<Rightarrow> bool" where
  "link_at L data i t r \<longleftrightarrow>
     (let c = lc_codec L; F = lc_frameMax L; n = length data; cf = cf_size c F; count = n div cf + 1;
          bs = lc_blockSize L; sent = sent_bytes c F n i
      in sender_at cf data (tx_sending i count (block_end bs count i)
           (0 < decodeMinSeparationTime (lc_minSeparationTime L))) sent t
         \<and> receiver_at L cf n (rx_waiting bs count i) (take sent data) r)"

definition link_message_ok :: "message_ptr \<Rightarrow> u8 list \<Rightarrow> bool" where
  "link_message_ok msg data \<longleftrightarrow> tm_wf (snd msg) \<and> tm_payloadLength (snd msg) = length data
     \<and> tm_data (snd msg) = data"

context docan_link begin

lemma link_started:
  assumes L: "lc_codec L = c" and msg: "link_message_ok msg data"
    and n: "length data = n" "n \<noteq> 0" "n \<le> 65535"
  obtains s t cf b where "link_start L msg = Some s" "link_rounds L 1 s = Some (t, None)"
    "sender_at cf data (tx_sending 0 (if fits_single c frameMax n then 1 else n div cf_size c frameMax + 1)
       1 b) 0 t"
    "cf = (if fits_single c frameMax n then 0 else cf_size c frameMax)"
proof -
  let ?count = "if fits_single c frameMax n then 1 else n div cf_size c frameMax + 1"
  let ?cf = "if fits_single c frameMax n then 0 else cf_size c frameMax"
  let ?t = "mt_new JobHandle_default c (cn_receptionAddress (lc_connection L))
    (cn_transmissionAddress (lc_connection L)) msg None ?count ?cf"
  have m: "tm_payloadLength (snd msg) = n" "length data \<le> length (tm_buffer (snd msg))"
      "take (length data) (tm_buffer (snd msg)) = data"
    using msg n length_tm_data [of "snd msg"] by (auto simp: link_message_ok_def tm_wf_def tm_data_def)
  have start: "link_start L msg = Some (?t, None)"
    using L m(1) frame_count [OF n(2,3)] by (simp add: link_start_def)
  have round: "link_rounds L 1 (?t, None) = Some (snd (mt_lift tx_start ?t), None)"
    by (simp add: link_round_def mt_new_def tx_new_def)
  have p: "snd (tx_start (mt_protocol ?t)) = tx_sending 0 ?count 1 False"
    by (simp add: mt_new_def tx_new_def tx_ops tx_sending_def)
  have "sender_at ?cf data (mt_protocol ?t) 0 ?t"
    using m n by (simp add: sender_at_def mt_new_def)
  from sender_step [where f = tx_start, OF this p]
  have "sender_at ?cf data (tx_sending 0 ?count 1 False) 0 (snd (mt_lift tx_start ?t))" .
  with start round show thesis by (rule that) simp
qed

lemma link_reaches:
  assumes L: "lc_codec L = c" "lc_mapper L = mapSize" "lc_frameMax L = frameMax"
    and n: "length data = n" "n \<le> 65535" "\<not> fits_single c frameMax n" and buf: "link_buffer_ok L n"
    and msg: "link_message_ok msg data" and s: "link_start L msg = Some s"
    and i: "0 < i" "i < n div cf_size c frameMax + 1"
  shows "\<exists>k t r. k \<le> 2 * i \<and> link_rounds L k s = Some (t, Some r) \<and> link_at L data i t r"
  using i
proof (induction i)
  case 0 then show ?case by simp
next
  case (Suc i)
  let ?cf = "cf_size c frameMax" and ?mst = "0 < decodeMinSeparationTime (lc_minSeparationTime L)"
  have n0: "n \<noteq> 0" using not_single_ge [OF n(3)] cf_size_bounds by auto
  show ?case
  proof (cases "i = 0")
    case True
    obtain t b where t: "link_rounds L 1 s = Some (t, None)"
      "sender_at ?cf data (tx_sending 0 (n div ?cf + 1) 1 b) 0 t"
    proof -
      obtain s' t cf b where t: "link_start L msg = Some s'" "link_rounds L 1 s' = Some (t, None)"
        "sender_at cf data (tx_sending 0
           (if fits_single c frameMax n then 1 else n div ?cf + 1) 1 b) 0 t"
        "cf = (if fits_single c frameMax n then 0 else ?cf)"
        by (rule link_started [OF L(1) msg n(1) n0 n(2)])
      then show thesis using that [of t b] s n(3) by simp
    qed
    obtain t' r where t': "link_send L (t, None) = Some (t', Some r)"
      "sender_at ?cf data (tx_sending 1 (n div ?cf + 1) (block_end (lc_blockSize L) (n div ?cf + 1) 1) ?mst)
         (sent_bytes c frameMax n 1) t'"
      "receiver_at L ?cf n (rx_waiting (lc_blockSize L) (n div ?cf + 1) 1) (take (sent_bytes c frameMax n 1) data) r"
      by (rule link_first_segment [OF L n buf refl t(2)])
    have "link_rounds L 2 s = Some (t', Some r)"
      using link_rounds_Suc [OF t(1)] link_round_send [OF t(2), of L None] t'(1) by (simp add: numeral_2_eq_2)
    moreover have "link_at L data (Suc i) t' r" using t' True L n(1) by (simp add: link_at_def Let_def)
    ultimately show ?thesis using True by (intro exI [of _ 2]) auto
  next
    case False
    then obtain k t r where IH: "k \<le> 2 * i" "link_rounds L k s = Some (t, Some r)" "link_at L data i t r"
      using Suc by auto
    have at: "sender_at ?cf data (tx_sending i (n div ?cf + 1) (block_end (lc_blockSize L) (n div ?cf + 1) i) ?mst)
         (sent_bytes c frameMax n i) t"
      "receiver_at L ?cf n (rx_waiting (lc_blockSize L) (n div ?cf + 1) i) (take (sent_bytes c frameMax n i) data) r"
      using IH(3) L n(1) by (simp_all add: link_at_def Let_def)
    have i: "0 < i" "Suc i < n div ?cf + 1" using False Suc.prems by simp_all
    obtain p t' r' where st: "link_send L (t, Some r) = Some (t', Some r')"
      "p = tx_sending (Suc i) (n div ?cf + 1) (block_end (lc_blockSize L) (n div ?cf + 1) (Suc i)) ?mst
       \<or> ?mst \<and> p = (tx_sending (Suc i) (n div ?cf + 1) (block_end (lc_blockSize L) (n div ?cf + 1) (Suc i)) ?mst)
                  \<lparr>tx_state := TS_WAIT, tx_timeout := TT_SEPARATION_TIME\<rparr>"
      "sender_at ?cf data p (sent_bytes c frameMax n (Suc i)) t'"
      "receiver_at L ?cf n (rx_waiting (lc_blockSize L) (n div ?cf + 1) (Suc i))
         (take (sent_bytes c frameMax n (Suc i)) data) r'"
      by (rule link_consecutive_segment [OF L n refl i refl at])
    have k1: "link_rounds L (Suc k) s = Some (t', Some r')"
      using link_rounds_Suc [OF IH(2)] link_round_send [OF at(1)] st(1) by simp
    from st(2) show ?thesis
    proof
      assume "p = tx_sending (Suc i) (n div ?cf + 1) (block_end (lc_blockSize L) (n div ?cf + 1) (Suc i)) ?mst"
      then have "link_at L data (Suc i) t' r'" using st L n(1) by (simp add: link_at_def Let_def)
      then show ?thesis using k1 IH(1) by (intro exI [of _ "Suc k"]) auto
    next
      assume "?mst \<and> p = (tx_sending (Suc i) (n div ?cf + 1) (block_end (lc_blockSize L) (n div ?cf + 1) (Suc i)) ?mst)
                  \<lparr>tx_state := TS_WAIT, tx_timeout := TT_SEPARATION_TIME\<rparr>"
      then obtain t'' where t'': "link_round L (t', Some r') = Some (t'', Some r')"
        "sender_at ?cf data (tx_sending (Suc i) (n div ?cf + 1)
           (block_end (lc_blockSize L) (n div ?cf + 1) (Suc i)) ?mst) (sent_bytes c frameMax n (Suc i)) t''"
        using link_round_separation [of ?cf data "Suc i"] st(3) by blast
      then have "link_at L data (Suc i) t'' r'" using st(4) L n(1) by (simp add: link_at_def Let_def)
      then show ?thesis using link_rounds_Suc [OF k1 t''(1)] IH(1)
        by (intro exI [of _ "Suc (Suc k)"]) auto
    qed
  qed
qed

end

text \<open>The state in which both sides are done and the receiver holds \<open>d\<close>.\<close>

definition link_finished ::
  "link_config \<Rightarrow> nat \<Rightarrow> u8 list \<Rightarrow> link_state \<Rightarrow> bool" where
  "link_finished L n d s \<longleftrightarrow>
     tx_state (mt_protocol (fst s)) = TS_SUCCESS
     \<and> (\<exists>r m. snd s = Some r \<and> rx_state (mr_protocol r) = RS_PROCESSING
          \<and> mr_message r = Some (fst (lc_buffer L), m) \<and> tm_payloadLength m = n \<and> tm_data m = d)"

lemma link_finishedI:
  assumes "sender_at cf data p s t" "tx_state p = TS_SUCCESS"
    and "receiver_at L cf' n q d r" "rx_state q = RS_PROCESSING"
  shows "link_finished L n d (t, Some r)"
  using assms by (auto simp: link_finished_def sender_at_def receiver_at_def)

context docan_link begin

lemma link_last_segment:
  assumes L: "lc_codec L = c" "lc_mapper L = mapSize" "lc_frameMax L = frameMax"
    and n: "length data = n" "n \<le> 65535" "\<not> fits_single c frameMax n"
    and at: "link_at L data (n div cf_size c frameMax) t r"
  obtains s where "link_send L (t, Some r) = Some s"
    "link_finished L n (take (sent_bytes c frameMax n (n div cf_size c frameMax + 1)) data) s"
proof -
  let ?cf = "cf_size c frameMax" and ?bs = "lc_blockSize L"
  let ?i = "n div ?cf" and ?mst = "0 < decodeMinSeparationTime (lc_minSeparationTime L)"
  let ?s = "sent_bytes c frameMax n ?i" and ?be = "block_end ?bs (n div ?cf + 1) (n div ?cf)"
  have cnt: "0 < ?i" "?i + 1 \<le> 65280" using frame_count_bounds [OF n(3,2)] by simp_all
  have tx: "sender_at ?cf data (tx_sending ?i (Suc ?i) ?be ?mst) ?s t"
    and rx: "receiver_at L ?cf n (rx_waiting ?bs (Suc ?i) ?i) (take ?s data) r"
    using at L n(1) by (simp_all add: link_at_def Let_def)
  have be: "?be < 65536" using block_end_bounds [of ?i "?i + 1" ?bs] cnt by simp
  have s: "?s < n" "?i < n div ?cf + 1" using sent_bytes_less [OF n(3), of ?i] by simp_all
  have k: "?s + min ?cf (length (drop ?s data)) \<le> 65535" using s n by simp
  have ne: "drop ?s data \<noteq> []" "length (drop ?s data) \<le> 65535" using s n by simp_all
  obtain f pad where f: "encodeDataFrame c mapSize (replicate frameMax 0) (drop ?s data) ?i ?cf =
       Some (Inr (f, min ?cf (length (drop ?s data))))"
    "decodeFrame c f = Some (Inr (ConsecutiveDataFrame (byte_of (?i mod 16)) (take ?cf (drop ?s data) @ pad)))"
    using consecutive_roundtrip [OF ne cnt(1) length_replicate] by metis
  have last: "snd (rx_consecutiveFrameReceived (byte_of (?i mod 16)) ?bs (rx_waiting ?bs (Suc ?i) ?i)) =
      (rx_waiting ?bs (Suc ?i) ?i)\<lparr>rx_frameIndex := of_nat (Suc ?i), rx_state := RS_PROCESSING,
         rx_timeout := RT_NONE\<rparr>" (is "_ = ?q")
    by (rule rx_last_frame) (use cnt in simp_all)
  obtain r' where r': "link_deliver L f (Some r) = Option.bind (link_answer L r') (\<lambda>(r, fc). Some (Some r, fc))"
    "receiver_at L ?cf n ?q (take (sent_bytes c frameMax n (Suc ?i)) data) r'"
    by (rule link_deliver_consecutive [OF L(1) n(1,3) cnt(1) s(2) refl rx f(2) last]) simp
  have d: "link_deliver L f (Some r) = Some (Some r', None)"
    using r' receiver_silent [OF r'(2)] by simp
  obtain t' where t': "link_confirm L ?i (min ?cf (length (drop ?s data))) None t = Some t'"
    "sender_at ?cf data (snd (tx_framesSent 1 (snd (tx_frameSending (tx_sending ?i (Suc ?i) ?be ?mst)))))
       (?s + min ?cf (length (drop ?s data))) t'"
    by (rule sender_confirmed [OF tx k])
  have idx: "unat (tx_frameIndex (tx_sending ?i (Suc ?i) ?be ?mst)) = ?i"
    using cnt by (simp add: tx_sending_def unat_of_nat)
  have "link_send L (t, Some r) = Some (t', Some r')"
    by (rule link_send_confirm [OF tx _ idx _ d t'(1)]) (use s n f L in simp_all)
  moreover have "link_finished L n (take (sent_bytes c frameMax n (Suc ?i)) data) (t', Some r')"
    by (rule link_finishedI [OF t'(2) tx_last_frame r'(2)]) (use cnt be in simp_all)
  ultimately show thesis using that by simp
qed

lemma link_single_frame:
  assumes L: "lc_codec L = c" "lc_mapper L = mapSize" "lc_frameMax L = frameMax"
    and n: "length data = n" "0 < n" "fits_single c frameMax n" and buf: "link_buffer_ok L n"
    and at: "sender_at cf data (tx_sending 0 1 1 b) 0 t"
  obtains s where "link_send L (t, None) = Some s" "link_finished L n data s"
proof -
  have small: "n < 256" using n(3) wf_facts by (auto simp: fits_single_def)
  obtain f where f: "encodeDataFrame c mapSize (replicate frameMax 0) data 0 cf = Some (Inr (f, n))"
    "decodeFrame c f = Some (Inr (FirstDataFrame n 1 0 data))"
    using single_roundtrip [OF n length_replicate] by metis
  let ?q = "snd (rx_allocated True (lc_maxRetryCount L) (rx_new 1))"
  have q: "rx_state ?q = RS_PROCESSING" "\<not> rx_isAllocating ?q"
    by (simp_all add: rx_new_def rx_ops)
  obtain m res r where r: "setPayloadLength n (resetValidBytes (snd (lc_buffer L))) = Some m"
    "mr_allocated (Some (fst (lc_buffer L), m)) (lc_maxRetryCount L)
       (mr_new (lc_connection L) n 1 0 (lc_blockSize L) (lc_minSeparationTime L) data False) = Some (res, r)"
    "receiver_at L 0 n ?q data r"
    using receiver_starts [OF buf, of data 1 ?q 0] n(1) small q(2) by auto
  have d: "link_deliver L f None = Some (Some r, None)"
    using f(2) L(1) r receiver_silent [OF r(3)] q(1) by (simp add: link_deliver_def)
  have k: "0 + n \<le> 65535" using small by simp
  obtain t' where t': "link_confirm L 0 n None t = Some t'"
    "sender_at cf data (snd (tx_framesSent 1 (snd (tx_frameSending (tx_sending 0 1 1 b))))) (0 + n) t'"
    by (rule sender_confirmed [OF at k])
  have "link_send L (t, None) = Some (t', Some r)"
    by (rule link_send_confirm [OF at _ _ _ d t'(1)]) (use f L in \<open>simp_all add: tx_sending_def\<close>)
  moreover have "tx_state (snd (tx_framesSent 1 (snd (tx_frameSending (tx_sending 0 1 1 b))))) = TS_SUCCESS"
    using tx_last_frame [of 0 1 b] by simp
  then have "link_finished L n data (t', Some r)" by (intro link_finishedI [OF t'(2) _ r(3) q(1)])
  ultimately show thesis by (rule that)
qed

lemma link_transfer:
  assumes L: "lc_codec L = c" "lc_mapper L = mapSize" "lc_frameMax L = frameMax"
    and n: "length data = n" "0 < n" "n \<le> 65535" and buf: "link_buffer_ok L n"
    and msg: "link_message_ok msg data"
  shows "\<exists>s s'. link_start L msg = Some s
    \<and> link_rounds L (2 * (n div cf_size c frameMax + 1)) s = Some s'
    \<and> link_finished L n (take (delivered_bytes c frameMax n) data) s'"
proof -
  let ?i = "n div cf_size c frameMax"
  have n0: "n \<noteq> 0" using n by simp
  obtain s t cf b where s: "link_start L msg = Some s" "link_rounds L 1 s = Some (t, None)"
    "sender_at cf data (tx_sending 0 (if fits_single c frameMax n then 1 else ?i + 1) 1 b) 0 t"
    "cf = (if fits_single c frameMax n then 0 else cf_size c frameMax)"
    by (rule link_started [OF L(1) msg n(1) n0 n(3)])
  have "\<exists>k s'. k \<le> 2 * (?i + 1) \<and> link_rounds L k s = Some s'
      \<and> link_finished L n (take (delivered_bytes c frameMax n) data) s'"
  proof (cases "fits_single c frameMax n")
    case True
    then have at: "sender_at cf data (tx_sending 0 1 1 b) 0 t" using s by simp
    obtain s' where s': "link_send L (t, None) = Some s'" "link_finished L n data s'"
      by (rule link_single_frame [OF L n(1,2) True buf at])
    have "link_rounds L 2 s = Some s'"
      using link_rounds_Suc [OF s(2)] link_round_send [OF at, of L None] s'(1)
      by (simp add: numeral_2_eq_2)
    then show ?thesis using s'(2) True n(1) by (intro exI [of _ 2]) (auto simp: delivered_bytes_def)
  next
    case False
    have i: "0 < ?i" "?i < ?i + 1" using frame_count_bounds [OF False n(3)] by simp_all
    obtain k t r where k: "k \<le> 2 * ?i" "link_rounds L k s = Some (t, Some r)" "link_at L data ?i t r"
      using link_reaches [OF L n(1,3) False buf msg s(1) i] by blast
    obtain s' where s': "link_send L (t, Some r) = Some s'"
      "link_finished L n (take (sent_bytes c frameMax n (?i + 1)) data) s'"
      by (rule link_last_segment [OF L n(1,3) False k(3)])
    have "link_round L (t, Some r) = Some s'"
      using k(3) s'(1) link_round_send by (auto simp: link_at_def Let_def)
    then show ?thesis using link_rounds_Suc [OF k(2)] k(1) s'(2) False
      by (intro exI [of _ "Suc k"]) (auto simp: delivered_bytes_def)
  qed
  then obtain k t r where k: "k \<le> 2 * (?i + 1)" "link_rounds L k s = Some (t, r)"
    "link_finished L n (take (delivered_bytes c frameMax n) data) (t, r)" by auto
  have "tx_state (mt_protocol t) = TS_SUCCESS" using k(3) by (simp add: link_finished_def)
  from link_rounds_done [OF k(2) this k(1)] show ?thesis using s(1) k(3) by blast
qed

lemma delivered_all:
  assumes "n \<le> 65535"
  shows "n \<le> delivered_bytes c frameMax n \<longleftrightarrow>
    n \<le> 4095 \<or> n mod cf_size c frameMax + 5 \<le> cf_size c frameMax"
proof (cases "fits_single c frameMax n")
  case True
  then have "n \<le> 4095" using wf_facts by (auto simp: fits_single_def)
  then show ?thesis using True by (simp add: delivered_bytes_def)
next
  case False
  let ?cf = "cf_size c frameMax"
  obtain q r where qr: "q = n div ?cf * ?cf" "r = n mod ?cf" by simp
  have "q + r = n" unfolding qr by (rule div_mult_mod_eq)
  moreover have "r < ?cf" unfolding qr using cf_size_bounds by simp
  moreover have "6 \<le> ?cf" by (rule cf_size_bounds)
  moreover have "delivered_bytes c frameMax n = min n (ff_size c frameMax n + q)"
    unfolding qr using False by (simp add: delivered_bytes_def sent_bytes_def)
  ultimately show ?thesis unfolding ff_size_def qr(2) [symmetric]
    by (cases "n \<le> 4095") auto
qed

end

section \<open>Properties\<close>

text \<open>C1: End to end, on every preset, with every block size, separation time and order of
  confirmations and flow control frames: a message of up to 4095 bytes, or a longer one whose
  last segment fits, arrives whole. After at most two rounds per frame the sender reports
  success and the receiver hands over a message with exactly the bytes sent.\<close>

theorem message_arrives:
  assumes "(lc_codec L, lc_mapper L, lc_frameMax L) \<in> set preset_links"
    and "0 < length data" and "length data \<le> 65535"
    and "link_buffer_ok L (length data)" and "link_message_ok msg data"
    and "length data \<le> 4095 \<or> length data mod cf_size (lc_codec L) (lc_frameMax L) + 5
                                   \<le> cf_size (lc_codec L) (lc_frameMax L)"
  shows "\<exists>s s'. link_start L msg = Some s
    \<and> link_rounds L (2 * (length data div cf_size (lc_codec L) (lc_frameMax L) + 1)) s = Some s'
    \<and> link_finished L (length data) data s'"
proof -
  note link = preset_link [OF assms(1)]
  have "length data \<le> delivered_bytes (lc_codec L) (lc_frameMax L) (length data)"
    using docan_link.delivered_all [OF link assms(3)] assms(6) by blast
  with docan_link.link_transfer [OF link refl refl refl refl assms(2-5)] show ?thesis by simp
qed

text \<open>C30: End to end, a message of more than 4095 bytes whose last segment does not fit arrives
  truncated: the frame count misses the four bytes that the escaped length takes in the first
  frame, the sender reports success and the receiver hands over a message of the full
  length that holds only a proper prefix of the bytes.\<close>

theorem long_message_truncated:
  assumes "(lc_codec L, lc_mapper L, lc_frameMax L) \<in> set preset_links"
    and "4095 < length data" and "length data \<le> 65535"
    and "link_buffer_ok L (length data)" and "link_message_ok msg data"
    and "cf_size (lc_codec L) (lc_frameMax L)
           < length data mod cf_size (lc_codec L) (lc_frameMax L) + 5"
  shows "\<exists>s s' k. link_start L msg = Some s
    \<and> link_rounds L (2 * (length data div cf_size (lc_codec L) (lc_frameMax L) + 1)) s = Some s'
    \<and> link_finished L (length data) (take k data) s' \<and> k < length data"
proof -
  note link = preset_link [OF assms(1)]
  have pos: "0 < length data" by (rule less_trans [OF _ assms(2)]) simp
  have "delivered_bytes (lc_codec L) (lc_frameMax L) (length data) < length data"
    using docan_link.delivered_all [OF link assms(3)] assms(2,6) by linarith
  with docan_link.link_transfer [OF link refl refl refl refl pos assms(3-5)] show ?thesis by blast
qed

text \<open>A concrete link: classic CAN, block size 2, separation time 10 ms, every second flow
  control frame ahead of the confirmation.\<close>

definition classic_link :: "nat \<Rightarrow> link_config" where
  "classic_link n = \<lparr>lc_codec = PADDED_CLASSIC, lc_mapper = mapFrameSize_default, lc_frameMax = 8,
     lc_blockSize = 2, lc_minSeparationTime = 10, lc_maxRetryCount = 3, lc_maxWaitCount = 3,
     lc_connection = \<lparr>cn_codec = PADDED_CLASSIC, cn_receptionAddress = 0x700,
       cn_transmissionAddress = 0x701, cn_sourceId = 1, cn_targetId = 2\<rparr>,
     lc_buffer = (0, tm_new (replicate n 0)), lc_overtakes = even\<rparr>"

definition full_message :: "u8 list \<Rightarrow> message_ptr" where
  "full_message data =
     (0, (tm_new data)\<lparr>tm_payloadLength := length data, tm_validBytes := length data\<rparr>)"

lemma classic_link_ok:
  "n \<le> 65535 \<Longrightarrow> link_buffer_ok (classic_link n) n"
  "length data \<le> 65535 \<Longrightarrow> link_message_ok (full_message data) data"
  "(lc_codec (classic_link n), lc_mapper (classic_link n), lc_frameMax (classic_link n)) \<in> set preset_links"
  "cf_size (lc_codec (classic_link n)) (lc_frameMax (classic_link n)) = 7"
  by (simp_all add: link_buffer_ok_def link_message_ok_def classic_link_def full_message_def tm_new_def
      tm_wf_def tm_data_def preset_links_def cf_size_def preset_defs)

theorem message_arrives_witness:
  "\<exists>s s'. link_start (classic_link 100) (full_message (replicate 100 5)) = Some s
    \<and> link_rounds (classic_link 100) (2 * (length (replicate 100 (5 :: u8))
          div cf_size (lc_codec (classic_link 100)) (lc_frameMax (classic_link 100)) + 1)) s = Some s'
    \<and> link_finished (classic_link 100) (length (replicate 100 (5 :: u8))) (replicate 100 5) s'"
  by (rule message_arrives) (simp_all add: classic_link_ok)

theorem long_message_truncated_witness:
  "\<exists>s s' k. link_start (classic_link 4098) (full_message (replicate 4098 5)) = Some s
    \<and> link_rounds (classic_link 4098) (2 * (length (replicate 4098 (5 :: u8))
          div cf_size (lc_codec (classic_link 4098)) (lc_frameMax (classic_link 4098)) + 1)) s = Some s'
    \<and> link_finished (classic_link 4098) (length (replicate 4098 (5 :: u8))) (take k (replicate 4098 5)) s'
    \<and> k < length (replicate 4098 (5 :: u8))"
  by (rule long_message_truncated) (simp_all add: classic_link_ok)

end
