(* ===== verification/DocanReceiver.thy ===== *)
theory DocanReceiver imports DocanMessages begin

text \<open>
  The receiver of the transport layer, \<^verbatim>\<open>DoCanReceiver\<close>: a pool of message receivers
  in a list, the handlers of received frames, the cyclic task and the shutdown, with the lock
  that delays the removal of finished receivers.

  The interfaces it calls (message provider, flow control transmitter, clock, the sort of the
  list library) are the environment: a record of functions from the calls made so far to the
  next answer. Every call is added to the trace with its answer. Interrupt locks and log
  output are not modelled.
\<close>

section \<open>Environment\<close>

datatype provider_result =
    TPMSG_OK | TPMSG_INVALID_SRC_ADDRESS | TPMSG_INVALID_TGT_ADDRESS | TPMSG_NO_MSG_AVAILABLE
  | TPMSG_SIZE_TOO_LARGE | TPMSG_NOT_RESPONSIBLE

datatype rx_call =
    GetTransportMessage u16 u16 nat "u8 list" provider_result "message_ptr option"
  | ReleaseTransportMessage message_ptr
  | MessageReceived message_ptr bool
  | SendFlowControl codec_config address FlowStatus u8 u8 bool
  | ExecuteProcessReceivers

record rx_env =
  env_getTransportMessage ::
    "rx_call list \<Rightarrow> u16 \<Rightarrow> u16 \<Rightarrow> nat \<Rightarrow> u8 list \<Rightarrow> provider_result \<times> message_ptr option"
  env_messageReceived :: "rx_call list \<Rightarrow> bool"
  env_sendFlowControl :: "rx_call list \<Rightarrow> bool"
  env_nowUs :: "rx_call list \<Rightarrow> u32"
  env_sort :: "(nat \<times> message_receiver) list \<Rightarrow> (nat \<times> message_receiver) list"

section \<open>State\<close>

record receiver =
  rcv_list :: "(nat \<times> message_receiver) list"
  rcv_nextSlot :: nat
  rcv_poolSize :: nat
  rcv_maxFirstFrameDataSize :: nat
  rcv_params :: params
  rcv_removeLockCount :: nat
  rcv_releasedReceiverCount :: nat
  rcv_timersUpdated :: bool
  rcv_trace :: "rx_call list"

definition rcv_new :: "nat \<Rightarrow> nat \<Rightarrow> params \<Rightarrow> receiver" where
  "rcv_new poolSize maxFirstFrameDataSize p =
     \<lparr>rcv_list = [], rcv_nextSlot = 0, rcv_poolSize = poolSize,
      rcv_maxFirstFrameDataSize = maxFirstFrameDataSize, rcv_params = p, rcv_removeLockCount = 0,
      rcv_releasedReceiverCount = 0, rcv_timersUpdated = False, rcv_trace = []\<rparr>"

definition rcv_get :: "nat \<Rightarrow> receiver \<Rightarrow> message_receiver option" where
  "rcv_get i s = map_of (rcv_list s) i"

definition rcv_put :: "nat \<Rightarrow> message_receiver \<Rightarrow> receiver \<Rightarrow> receiver" where
  "rcv_put i r s = s\<lparr>rcv_list := slot_put i r (rcv_list s)\<rparr>"

definition rcv_call :: "rx_call \<Rightarrow> receiver \<Rightarrow> receiver" where
  "rcv_call c s = s\<lparr>rcv_trace := rcv_trace s @ [c]\<rparr>"

definition rcv_lift ::
  "nat \<Rightarrow> (rx_protocol \<Rightarrow> rx_result \<times> rx_protocol) \<Rightarrow> receiver \<Rightarrow> (rx_result \<times> receiver) option" where
  "rcv_lift i f s = do {
     r \<leftarrow> rcv_get i s;
     let (res, r) = mr_lift f r;
     Some (res, rcv_put i r s) }"

section \<open>Removal lock\<close>

definition rcv_setRemoveLock :: "receiver \<Rightarrow> receiver option" where
  "rcv_setRemoveLock s = do {
     ensure (rcv_removeLockCount s \<noteq> 255);
     Some (s\<lparr>rcv_removeLockCount := rcv_removeLockCount s + 1\<rparr>) }"

definition mr_isDone :: "message_receiver \<Rightarrow> bool" where
  "mr_isDone r \<longleftrightarrow> rx_state (mr_protocol r) = RS_DONE"

definition rcv_releaseRemoveLock :: "receiver \<Rightarrow> receiver option" where
  "rcv_releaseRemoveLock s = do {
     ensure (rcv_removeLockCount s \<noteq> 0);
     let s = s\<lparr>rcv_removeLockCount := rcv_removeLockCount s - 1\<rparr>;
     if rcv_removeLockCount s = 0 \<and> rcv_releasedReceiverCount s > 0
     then do {
       l \<leftarrow> erase_walk (\<lambda>(_, r). mr_isDone r) (rcv_releasedReceiverCount s) (rcv_list s);
       Some (s\<lparr>rcv_list := l, rcv_releasedReceiverCount := 0\<rparr>) }
     else Some s }"

section \<open>Transitions of one message receiver\<close>

definition rcv_resetTimer :: "rx_env \<Rightarrow> nat \<Rightarrow> receiver \<Rightarrow> receiver option" where
  "rcv_resetTimer E i s = do {
     r \<leftarrow> rcv_get i s;
     let nowUs = env_nowUs E (rcv_trace s);
     Some (rcv_put i (mr_setTimer
       (case rx_timeout (mr_protocol r) of
          RT_ALLOCATE \<Rightarrow> nowUs + ms_to_us (waitAllocateTimeout (rcv_params s))
        | RT_RX \<Rightarrow> nowUs + ms_to_us (waitRxTimeout (rcv_params s))
        | RT_NONE \<Rightarrow> nowUs) r) s) }"

definition rcv_handleResult :: "rx_env \<Rightarrow> nat \<Rightarrow> rx_result \<Rightarrow> receiver \<Rightarrow> receiver option" where
  "rcv_handleResult E i result s =
     (if rr_transition result
      then do {
        s \<leftarrow> rcv_resetTimer E i s;
        r \<leftarrow> rcv_get i s;
        Some (if mr_isDone r then s else s\<lparr>rcv_timersUpdated := True\<rparr>) }
      else Some s)"

text \<open>\<open>peek\<close>: a failed allocation is not counted as a retry.\<close>

definition rcv_allocateTransportMessage ::
  "rx_env \<Rightarrow> nat \<Rightarrow> bool \<Rightarrow> receiver \<Rightarrow> (rx_result \<times> receiver) option" where
  "rcv_allocateTransportMessage E i peek s = do {
     r \<leftarrow> rcv_get i s;
     let conn = mr_connection r;
     let (result, message) =
       (if mr_blocked r then (TPMSG_OK, None)
        else env_getTransportMessage E (rcv_trace s) (cn_sourceId conn) (cn_targetId conn)
               (mr_messageSize r) (mr_firstFrameData r));
     let s = (if mr_blocked r then s
              else rcv_call (GetTransportMessage (cn_sourceId conn) (cn_targetId conn)
                     (mr_messageSize r) (mr_firstFrameData r) result message) s);
     if result \<noteq> TPMSG_OK \<and> result \<noteq> TPMSG_NO_MSG_AVAILABLE then rcv_lift i rx_cancel s
     else do {
       message \<leftarrow> (case message of
           None \<Rightarrow> Some None
         | Some (h, m) \<Rightarrow> do {
             m \<leftarrow> setPayloadLength (mr_messageSize r)
                    ((resetValidBytes m)\<lparr>tm_sourceAddress := cn_sourceId conn,
                                         tm_targetAddress := cn_targetId conn\<rparr>);
             Some (Some (h, m)) });
       if message = None \<and> peek then Some (rx_result False, s)
       else do {
         (res, r) \<leftarrow> mr_allocated message (maxAllocateRetryCount (rcv_params s)) r;
         Some (res, rcv_put i r s) } } }"

definition rcv_sendFlowControlFrame :: "rx_env \<Rightarrow> nat \<Rightarrow> receiver \<Rightarrow> (rx_result \<times> receiver) option" where
  "rcv_sendFlowControlFrame E i s = do {
     r \<leftarrow> rcv_get i s;
     let wait = isFlowControlWait (mr_protocol r);
     let success = env_sendFlowControl E (rcv_trace s);
     let s = rcv_call (SendFlowControl (cn_codec (mr_connection r)) (cn_transmissionAddress (mr_connection r))
       (if wait then FS_WAIT else FS_CTS) (if wait then 0 else mr_maxBlockSize r)
       (if wait then 0 else mr_encodedMinSeparationTime r) success) s;
     rcv_lift i (rx_frameSent success) s }"

text \<open>Detaching a message that is not there would be a null dereference.\<close>

definition rcv_startProcessing :: "rx_env \<Rightarrow> nat \<Rightarrow> receiver \<Rightarrow> (rx_result \<times> receiver) option" where
  "rcv_startProcessing E i s = do {
     r \<leftarrow> rcv_get i s;
     let (message, r) = detachMessage r;
     message \<leftarrow> message;
     let success = env_messageReceived E (rcv_trace s);
     let s = rcv_call (MessageReceived message success) (rcv_put i r s);
     let s = (if success then s else rcv_call (ReleaseTransportMessage message) s);
     rcv_lift i (rx_processed success) s }"

fun unblock_first :: "address \<Rightarrow> (nat \<times> message_receiver) list \<Rightarrow> (nat \<times> message_receiver) list" where
  "unblock_first a [] = []"
| "unblock_first a ((i, r) # l) =
     (if mr_blocked r \<and> cn_receptionAddress (mr_connection r) = a
      then (i, r\<lparr>mr_blocked := False\<rparr>) # l else (i, r) # unblock_first a l)"

definition rcv_release :: "nat \<Rightarrow> receiver \<Rightarrow> (rx_result \<times> receiver) option" where
  "rcv_release i s = do {
     r \<leftarrow> rcv_get i s;
     let receptionAddress = cn_receptionAddress (mr_connection r);
     let (message, r) = mr_release r;
     let s = rcv_put i r s;
     let s = (case message of None \<Rightarrow> s | Some m \<Rightarrow> rcv_call (ReleaseTransportMessage m) s);
     let s = s\<lparr>rcv_list := unblock_first receptionAddress (rcv_list s)\<rparr>;
     ensure (rcv_releasedReceiverCount s \<noteq> 255);
     Some (rx_result False, s\<lparr>rcv_releasedReceiverCount := rcv_releasedReceiverCount s + 1\<rparr>) }"

definition rcv_handleTransition :: "rx_env \<Rightarrow> nat \<Rightarrow> receiver \<Rightarrow> (rx_result \<times> receiver) option" where
  "rcv_handleTransition E i s = do {
     r \<leftarrow> rcv_get i s;
     (case rx_state (mr_protocol r) of
        RS_ALLOCATE \<Rightarrow> rcv_allocateTransportMessage E i False s
      | RS_SEND \<Rightarrow> rcv_sendFlowControlFrame E i s
      | RS_PROCESSING \<Rightarrow> rcv_startProcessing E i s
      | RS_DONE \<Rightarrow> rcv_release i s
      | RS_WAIT \<Rightarrow> Some (rx_result False, s)) }"

text \<open>The transition loop; it returns only if a handler stops without a transition.\<close>

partial_function (option) rcv_handleTransitions ::
  "rx_env \<Rightarrow> nat \<Rightarrow> rx_result \<Rightarrow> receiver \<Rightarrow> receiver option" where
  "rcv_handleTransitions E i result s =
     (if rr_transition result
      then do {
        s \<leftarrow> rcv_handleResult E i result s;
        (result, s) \<leftarrow> rcv_handleTransition E i s;
        rcv_handleTransitions E i result s }
      else Some s)"

section \<open>Handlers\<close>

definition rcv_guarded :: "(receiver \<Rightarrow> receiver option) \<Rightarrow> receiver \<Rightarrow> receiver option" where
  "rcv_guarded f s = do {
     s \<leftarrow> rcv_setRemoveLock s;
     s \<leftarrow> f s;
     rcv_releaseRemoveLock s }"

fun rcv_shutdown_loop :: "rx_env \<Rightarrow> nat list \<Rightarrow> receiver \<Rightarrow> receiver option" where
  "rcv_shutdown_loop E [] s = Some s"
| "rcv_shutdown_loop E (i # is) s = do {
     (result, s) \<leftarrow> rcv_lift i rx_shutdown s;
     s \<leftarrow> rcv_handleTransitions E i result s;
     rcv_shutdown_loop E is s }"

definition rcv_shutdown :: "rx_env \<Rightarrow> receiver \<Rightarrow> receiver option" where
  "rcv_shutdown E = rcv_guarded (\<lambda>s. rcv_shutdown_loop E (map fst (rcv_list s)) s)"

text \<open>Cancels segmented receptions on the address; the result says whether a single frame is pending.\<close>

fun rcv_handlePending :: "rx_env \<Rightarrow> address \<Rightarrow> nat list \<Rightarrow> bool \<Rightarrow> receiver \<Rightarrow> (bool \<times> receiver) option" where
  "rcv_handlePending E a [] blocked s = Some (blocked, s)"
| "rcv_handlePending E a (i # is) blocked s = do {
     r \<leftarrow> rcv_get i s;
     if cn_receptionAddress (mr_connection r) = a
     then if rx_frameCount (mr_protocol r) > 1
          then do {
            (result, s) \<leftarrow> rcv_lift i rx_cancel s;
            s \<leftarrow> rcv_handleTransitions E i result s;
            rcv_handlePending E a is blocked s }
          else rcv_handlePending E a is True s
     else rcv_handlePending E a is blocked s }"

definition rcv_firstDataFrameReceived ::
  "rx_env \<Rightarrow> connection \<Rightarrow> nat \<Rightarrow> nat \<Rightarrow> nat \<Rightarrow> u8 list \<Rightarrow> receiver \<Rightarrow> receiver option" where
  "rcv_firstDataFrameReceived E conn messageSize frameCount consecutiveFrameDataSize data s =
     (if frameCount > 1 \<and> cn_transmissionAddress conn = INVALID_ADDRESS then Some s
      else if \<not> length (rcv_list s) = rcv_poolSize s
      then rcv_guarded (\<lambda>s.
        if length data \<le> rcv_maxFirstFrameDataSize s
        then do {
          (blocked, s) \<leftarrow> rcv_handlePending E (cn_receptionAddress conn) (map fst (rcv_list s)) False s;
          let i = rcv_nextSlot s;
          let s = s\<lparr>rcv_nextSlot := i + 1,
                    rcv_list := rcv_list s @ [(i, mr_new conn messageSize frameCount
                      consecutiveFrameDataSize (maxBlockSize (rcv_params s))
                      (encodedMinSeparationTime (rcv_params s)) data blocked)]\<rparr>;
          (result, s) \<leftarrow> rcv_handleTransition E i s;
          rcv_handleTransitions E i result s }
        else Some s) s
      else Some s)"

definition rcv_findMessageReceiver :: "address \<Rightarrow> receiver \<Rightarrow> nat option" where
  "rcv_findMessageReceiver a s =
     map_option fst (find (\<lambda>(_, r). cn_receptionAddress (mr_connection r) = a) (rcv_list s))"

definition rcv_consecutiveDataFrameReceived ::
  "rx_env \<Rightarrow> address \<Rightarrow> u8 \<Rightarrow> u8 list \<Rightarrow> receiver \<Rightarrow> receiver option" where
  "rcv_consecutiveDataFrameReceived E a sequenceNumber data s =
     (case rcv_findMessageReceiver a s of
        None \<Rightarrow> Some s
      | Some i \<Rightarrow> do {
          r \<leftarrow> rcv_get i s;
          if \<not> isConsecutiveFrameExpected r then Some s
          else do {
            expectedSize \<leftarrow> getExpectedConsecutiveFrameDataSize r;
            if length data < expectedSize then Some s
            else rcv_guarded (\<lambda>s. do {
              (result, r) \<leftarrow> mr_consecutiveFrameReceived sequenceNumber expectedSize data r;
              rcv_handleTransitions E i result (rcv_put i r s) }) s } })"

fun rcv_cyclic_loop :: "rx_env \<Rightarrow> u32 \<Rightarrow> nat list \<Rightarrow> receiver \<Rightarrow> receiver option" where
  "rcv_cyclic_loop E nowUs [] s = Some s"
| "rcv_cyclic_loop E nowUs (i # is) s = do {
     r \<leftarrow> rcv_get i s;
     let (expired, r) = mr_updateTimer nowUs r;
     if \<not> expired then Some s
     else do {
       (result, s) \<leftarrow> rcv_lift i rx_expired (rcv_put i r s);
       s \<leftarrow> rcv_handleTransitions E i result s;
       rcv_cyclic_loop E nowUs is s } }"

definition rcv_cyclicTask :: "rx_env \<Rightarrow> u32 \<Rightarrow> receiver \<Rightarrow> receiver option" where
  "rcv_cyclicTask E nowUs s = do {
     s \<leftarrow> rcv_guarded (\<lambda>s. rcv_cyclic_loop E nowUs (map fst (rcv_list s)) s) s;
     Some (if rcv_timersUpdated s
           then s\<lparr>rcv_list := env_sort E (rcv_list s), rcv_timersUpdated := False\<rparr> else s) }"

fun rcv_process_loop :: "rx_env \<Rightarrow> nat list \<Rightarrow> receiver \<Rightarrow> receiver option" where
  "rcv_process_loop E [] s = Some s"
| "rcv_process_loop E (i # is) s = do {
     r \<leftarrow> rcv_get i s;
     if rx_isAllocating (mr_protocol r)
     then do {
       (result, s) \<leftarrow> rcv_allocateTransportMessage E i True s;
       s \<leftarrow> rcv_handleTransitions E i result s;
       r \<leftarrow> rcv_get i s;
       if mr_message r = None then Some s else rcv_process_loop E is s }
     else rcv_process_loop E is s }"

definition rcv_processMessageReceivers :: "rx_env \<Rightarrow> receiver \<Rightarrow> receiver option" where
  "rcv_processMessageReceivers E = rcv_guarded (\<lambda>s. rcv_process_loop E (map fst (rcv_list s)) s)"

definition rcv_transportMessageProcessed :: "message_ptr \<Rightarrow> receiver \<Rightarrow> receiver" where
  "rcv_transportMessageProcessed m s =
     rcv_call ExecuteProcessReceivers (rcv_call (ReleaseTransportMessage m) s)"

end
