(* ===== verification/DocanReceiverCorrect.thy ===== *)
theory DocanReceiverCorrect imports DocanReceiver "HOL-Library.Multiset" begin

text \<open>
  Correctness of the receiver: under the contract of its environment every handler returns,
  without a failed assertion or an access to a removed receiver, keeps the invariant of the
  pool, and accounts for every transport message it was given.
\<close>

section \<open>The environment's contract\<close>

text \<open>
  A provider hands out a well-formed message of at least the requested size, and only with the
  result \<^verbatim>\<open>TPMSG_OK\<close> (\<^verbatim>\<open>ITransportMessageProvider\<close>); sorting permutes.
\<close>

definition rx_env_ok :: "rx_env \<Rightarrow> bool" where
  "rx_env_ok E \<longleftrightarrow>
     (\<forall>tr src tgt n d res h m. env_getTransportMessage E tr src tgt n d = (res, Some (h, m)) \<longrightarrow>
        res = TPMSG_OK \<and> tm_wf m \<and> n \<le> length (tm_buffer m))
     \<and> (\<forall>l. mset (env_sort E l) = mset l)"

section \<open>Invariant\<close>

text \<open>A receiver holds a message exactly from its allocation to its end.\<close>

definition mr_inv :: "u8 \<Rightarrow> message_receiver \<Rightarrow> bool" where
  "mr_inv retries r \<longleftrightarrow>
     rx_inv retries (mr_maxBlockSize r) (mr_protocol r)
     \<and> (\<not> mr_isDone r \<longrightarrow> (mr_message r = None \<longleftrightarrow> rx_isAllocating (mr_protocol r)))
     \<and> (\<forall>h m. mr_message r = Some (h, m) \<longrightarrow> tm_wf m)"

definition held :: "message_receiver \<Rightarrow> nat multiset" where
  "held r = (case mr_message r of None \<Rightarrow> {#} | Some (h, _) \<Rightarrow> {#h#})"

definition done1 :: "message_receiver \<Rightarrow> nat" where
  "done1 r = (if mr_isDone r then 1 else 0)"

text \<open>The handles of messages that the provider gave out, and of those that left the receiver.\<close>

fun obtained1 :: "rx_call \<Rightarrow> nat multiset" where
  "obtained1 (GetTransportMessage _ _ _ _ _ (Some (h, _))) = {#h#}"
| "obtained1 _ = {#}"

fun given1 :: "rx_call \<Rightarrow> nat multiset" where
  "given1 (MessageReceived (h, _) True) = {#h#}"
| "given1 (ReleaseTransportMessage (h, _)) = {#h#}"
| "given1 _ = {#}"

definition obtained :: "rx_call list \<Rightarrow> nat multiset" where
  "obtained tr = sum_list (map obtained1 tr)"

definition given :: "rx_call list \<Rightarrow> nat multiset" where
  "given tr = sum_list (map given1 tr)"

lemma obtained_append: "obtained (a @ c) = obtained a + obtained c"
  by (simp add: obtained_def)

lemma given_append: "given (a @ c) = given a + given c"
  by (simp add: given_def)

text \<open>\<open>back\<close>: messages that the receiver handed over and the application has given back.\<close>

definition rcv_wf :: "nat multiset \<Rightarrow> receiver \<Rightarrow> bool" where
  "rcv_wf back s \<longleftrightarrow>
     distinct (map fst (rcv_list s)) \<and> (\<forall>i \<in> set (map fst (rcv_list s)). i < rcv_nextSlot s)
     \<and> length (rcv_list s) \<le> rcv_poolSize s \<and> rcv_poolSize s \<le> 255
     \<and> maxAllocateRetryCount (rcv_params s) < 255
     \<and> (\<forall>(i, r) \<in> set (rcv_list s). mr_inv (maxAllocateRetryCount (rcv_params s)) r)
     \<and> obtained (rcv_trace s) + back = given (rcv_trace s) + slot_sum held (rcv_list s)"

lemma rcv_wf_get: "rcv_wf b s \<Longrightarrow> rcv_get i s = Some r \<Longrightarrow> mr_inv (maxAllocateRetryCount (rcv_params s)) r"
  by (auto simp: rcv_wf_def rcv_get_def dest!: map_of_SomeD)

lemma set_slot_put:
  "map_of l i = Some y \<Longrightarrow> set (slot_put i x l) \<subseteq> insert (i, x) (set l)"
  by (auto simp: slot_put_def split: if_splits)

lemma ledger_update:
  fixes S S' :: "nat multiset"
  assumes "ob + b = g + S" and "S' + h = S + h'" and "oc + h = gc + h'"
  shows "(ob + oc) + b = (g + gc) + S'"
proof -
  have "(ob + oc) + b + h = (ob + b) + (oc + h)" by (simp add: ac_simps)
  also have "\<dots> = (g + gc) + (S + h')" unfolding assms(1,3) by (simp add: ac_simps)
  also have "\<dots> = (g + gc) + S' + h" unfolding assms(2) [symmetric] by (simp add: ac_simps)
  finally show ?thesis by simp
qed

text \<open>Replacing one receiver, with calls that balance what it holds.\<close>

lemma rcv_wf_put:
  assumes wf: "rcv_wf b s" and r: "rcv_get i s = Some r"
    and s': "rcv_list s' = slot_put i r' (rcv_list s)" "rcv_trace s' = rcv_trace s @ calls"
      "rcv_nextSlot s' = rcv_nextSlot s" "rcv_poolSize s' = rcv_poolSize s" "rcv_params s' = rcv_params s"
    and inv: "mr_inv (maxAllocateRetryCount (rcv_params s)) r'"
    and bal: "obtained calls + held r = given calls + held r'"
  shows "rcv_wf b s'"
proof -
  have d: "distinct (map fst (rcv_list s))" and m: "map_of (rcv_list s) i = Some r"
    using wf r by (simp_all add: rcv_wf_def rcv_get_def)
  have "slot_sum held (rcv_list s') + held r = slot_sum held (rcv_list s) + held r'"
    unfolding s'(1) by (rule slot_sum_put [OF d m])
  moreover from wf have "obtained (rcv_trace s) + b = given (rcv_trace s) + slot_sum held (rcv_list s)"
    using wf by (simp add: rcv_wf_def)
  ultimately have "obtained (rcv_trace s') + b = given (rcv_trace s') + slot_sum held (rcv_list s')"
    unfolding s'(2) obtained_append given_append by (intro ledger_update [OF _ _ bal])
  moreover have "mr_inv (maxAllocateRetryCount (rcv_params s)) x" if "(j, x) \<in> set (rcv_list s')" for j x
    using that set_slot_put [OF m, of r'] inv wf unfolding s'(1) by (auto simp: rcv_wf_def)
  ultimately show ?thesis using wf s' unfolding rcv_wf_def by auto
qed

lemma rcv_get_put: "rcv_get i s = Some r \<Longrightarrow> rcv_get j (rcv_put i r' s) = (if j = i then Some r' else rcv_get j s)"
  by (simp add: rcv_get_def rcv_put_def map_of_slot_put)


section \<open>One step of one receiver\<close>

text \<open>Only receiver \<open>i\<close> changes, apart from the blocked flags of others.\<close>

definition rcv_frame :: "nat \<Rightarrow> receiver \<Rightarrow> receiver \<Rightarrow> bool" where
  "rcv_frame i s s' \<longleftrightarrow>
     map fst (rcv_list s') = map fst (rcv_list s) \<and> rcv_nextSlot s' = rcv_nextSlot s
     \<and> rcv_poolSize s' = rcv_poolSize s \<and> rcv_params s' = rcv_params s
     \<and> rcv_maxFirstFrameDataSize s' = rcv_maxFirstFrameDataSize s
     \<and> rcv_removeLockCount s' = rcv_removeLockCount s
     \<and> (\<forall>j. j \<noteq> i \<longrightarrow> map_option (mr_blocked_update (\<lambda>_. False)) (rcv_get j s')
                    = map_option (mr_blocked_update (\<lambda>_. False)) (rcv_get j s))"

lemma rcv_frame_refl [simp]: "rcv_frame i s s"
  by (simp add: rcv_frame_def)

lemma rcv_frame_trans: "rcv_frame i s s' \<Longrightarrow> rcv_frame i s' s'' \<Longrightarrow> rcv_frame i s s''"
  by (simp add: rcv_frame_def)

definition rcv_step_ok ::
  "nat multiset \<Rightarrow> nat \<Rightarrow> receiver \<Rightarrow> message_receiver \<Rightarrow> receiver \<Rightarrow> message_receiver \<Rightarrow> bool" where
  "rcv_step_ok b i s r s' r' \<longleftrightarrow>
     rcv_wf b s' \<and> rcv_frame i s s' \<and> rcv_get i s' = Some r'
     \<and> rcv_releasedReceiverCount s' = rcv_releasedReceiverCount s
     \<and> slot_sum done1 (rcv_list s') + done1 r = slot_sum done1 (rcv_list s) + done1 r'"

lemma rcv_step_okI:
  assumes wf: "rcv_wf b s" and r: "rcv_get i s = Some r"
    and inv: "mr_inv (maxAllocateRetryCount (rcv_params s)) r'"
    and bal: "obtained calls + held r = given calls + held r'"
  shows "rcv_step_ok b i s r ((rcv_put i r' s)\<lparr>rcv_trace := rcv_trace s @ calls\<rparr>) r'"
proof -
  have m: "map_of (rcv_list s) i = Some r" "distinct (map fst (rcv_list s))"
    using wf r by (simp_all add: rcv_wf_def rcv_get_def)
  have "rcv_wf b ((rcv_put i r' s)\<lparr>rcv_trace := rcv_trace s @ calls\<rparr>)"
    by (rule rcv_wf_put [OF wf r _ _ _ _ _ inv bal]) (simp_all add: rcv_put_def)
  then show ?thesis
    using m slot_sum_put [OF m(2,1), of done1 r']
    by (simp add: rcv_step_ok_def rcv_frame_def rcv_put_def rcv_get_def map_of_slot_put)
qed

lemma rcv_step_ok_put:
  assumes "rcv_wf b s" "rcv_get i s = Some r" "mr_inv (maxAllocateRetryCount (rcv_params s)) r'"
    "held r' = held r"
  shows "rcv_step_ok b i s r (rcv_put i r' s) r'"
  using rcv_step_okI [OF assms(1-3), of "[]"] assms(4) by (simp add: obtained_def given_def rcv_put_def)

lemma rcv_step_ok_trans:
  assumes "rcv_step_ok b i s r s' r'" "rcv_step_ok b i s' r' s'' r''"
  shows "rcv_step_ok b i s r s'' r''"
  using assms rcv_frame_trans by (auto simp: rcv_step_ok_def)

lemma mr_lift_eq: "mr_lift f r = (fst (f (mr_protocol r)), r\<lparr>mr_protocol := snd (f (mr_protocol r))\<rparr>)"
  by (simp add: mr_lift_def case_prod_unfold Let_def)

text \<open>The calls of the protocol handler keep the invariant of the message receiver.\<close>

lemma mr_inv_lift:
  assumes "mr_inv retries r" and "rx_inv retries (mr_maxBlockSize r) (snd (f (mr_protocol r)))"
    and "rx_state (snd (f (mr_protocol r))) = RS_DONE
      \<or> \<not> mr_isDone r \<and> rx_isAllocating (snd (f (mr_protocol r))) = rx_isAllocating (mr_protocol r)"
  shows "mr_inv retries (snd (mr_lift f r))" and "held (snd (mr_lift f r)) = held r"
  using assms by (auto simp: mr_inv_def mr_lift_eq mr_isDone_def held_def)

lemma rcv_lift_ok:
  assumes wf: "rcv_wf b s" and r: "rcv_get i s = Some r"
    and inv: "rx_inv (maxAllocateRetryCount (rcv_params s)) (mr_maxBlockSize r) (snd (f (mr_protocol r)))"
    and alloc: "rx_state (snd (f (mr_protocol r))) = RS_DONE
      \<or> \<not> mr_isDone r \<and> rx_isAllocating (snd (f (mr_protocol r))) = rx_isAllocating (mr_protocol r)"
  obtains s' where "rcv_lift i f s = Some (fst (f (mr_protocol r)), s')"
    "rcv_step_ok b i s r s' (snd (mr_lift f r))"
proof -
  have "rcv_step_ok b i s r (rcv_put i (snd (mr_lift f r)) s) (snd (mr_lift f r))"
    by (rule rcv_step_ok_put [OF wf r mr_inv_lift [where f = f, OF rcv_wf_get [OF wf r] inv alloc]])
  moreover have "rcv_lift i f s = Some (fst (f (mr_protocol r)), rcv_put i (snd (mr_lift f r)) s)"
    using r by (simp add: rcv_lift_def mr_lift_eq)
  ultimately show thesis using that by blast
qed

lemma rcv_wf_inv:
  "rcv_wf b s \<Longrightarrow> rcv_get i s = Some r \<Longrightarrow>
   rx_inv (maxAllocateRetryCount (rcv_params s)) (mr_maxBlockSize r) (mr_protocol r)"
  using rcv_wf_get by (auto simp: mr_inv_def)

text \<open>Receivers whose clean-up is done, or that wait for something to happen.\<close>

definition mr_resting :: "message_receiver \<Rightarrow> bool" where
  "mr_resting r \<longleftrightarrow> rx_state (mr_protocol r) = RS_WAIT \<or> rx_state (mr_protocol r) = RS_SEND"

lemma rcv_sendFlowControlFrame_ok:
  assumes wf: "rcv_wf b s" and r: "rcv_get i s = Some r" and st: "rx_state (mr_protocol r) = RS_SEND"
  obtains res s' r' where "rcv_sendFlowControlFrame E i s = Some (res, s')" "rcv_step_ok b i s r s' r'"
    "rx_state (mr_protocol r') = RS_WAIT \<and> rr_transition res
     \<or> rx_state (mr_protocol r') = RS_SEND \<and> \<not> rr_transition res"
proof -
  define wait where "wait = isFlowControlWait (mr_protocol r)"
  define ok where "ok = env_sendFlowControl E (rcv_trace s)"
  define c where "c = SendFlowControl (cn_codec (mr_connection r)) (cn_transmissionAddress (mr_connection r))
       (if wait then FS_WAIT else FS_CTS) (if wait then 0 else mr_maxBlockSize r)
       (if wait then 0 else mr_encodedMinSeparationTime r) ok"
  have c0: "obtained [c] = {#}" "given [c] = {#}" by (simp_all add: c_def obtained_def given_def)
  have first: "rcv_step_ok b i s r (rcv_call c s) r"
  proof -
    have same: "rcv_put i r s = s"
      using r wf slot_put_split [of "rcv_list s" i r]
      by (simp add: rcv_put_def rcv_wf_def rcv_get_def) (metis receiver.surjective receiver.update_convs(1))
    show ?thesis using rcv_step_okI [OF wf r rcv_wf_get [OF wf r], of "[c]"] c0 same
      by (simp add: rcv_call_def)
  qed
  then have wf1: "rcv_wf b (rcv_call c s)" "rcv_get i (rcv_call c s) = Some r"
    by (simp_all add: rcv_step_ok_def)
  have par: "rcv_params (rcv_call c s) = rcv_params s" by (simp add: rcv_call_def)
  have al: "rx_isAllocating (snd (rx_frameSent ok (mr_protocol r))) = rx_isAllocating (mr_protocol r)"
    "\<not> mr_isDone r" using st by (auto simp: rx_ops mr_isDone_def)
  obtain s' where s': "rcv_lift i (rx_frameSent ok) (rcv_call c s) =
      Some (fst (rx_frameSent ok (mr_protocol r)), s')"
    "rcv_step_ok b i (rcv_call c s) r s' (snd (mr_lift (rx_frameSent ok) r))"
    using rcv_lift_ok [OF wf1, of "rx_frameSent ok"] al
      rx_inv_frameSent [OF rcv_wf_inv [OF wf r]] par by auto
  have "rcv_sendFlowControlFrame E i s = Some (fst (rx_frameSent ok (mr_protocol r)), s')"
    using r s'(1) by (simp add: rcv_sendFlowControlFrame_def c_def wait_def ok_def Let_def)
  then show thesis
    by (rule that [OF _ rcv_step_ok_trans [OF first s'(2)]])
      (use st in \<open>auto simp: mr_lift_eq rx_ops\<close>)
qed

lemma rx_inv_consistent:
  assumes "rx_inv retries bs p"
  shows "rx_state p = RS_ALLOCATE \<Longrightarrow> rx_isAllocating p"
    and "rx_state p = RS_PROCESSING \<Longrightarrow> \<not> rx_isAllocating p"
    and "rx_isAllocating p \<Longrightarrow> rx_state p \<noteq> RS_DONE"
  using assms by (auto simp: rx_inv_def rx_sound_def rx_phase_def Let_def
      split: ReceiveState.splits ReceiveTimeout.splits)

lemma rcv_put_simps [simp]:
  "rcv_put i x (s\<lparr>rcv_trace := t\<rparr>) = (rcv_put i x s)\<lparr>rcv_trace := t\<rparr>"
  "rcv_put i x (rcv_put i y s) = rcv_put i x s"
  "rcv_trace (rcv_put i x s) = rcv_trace s" "rcv_params (rcv_put i x s) = rcv_params s"
  "rcv_get i (s\<lparr>rcv_trace := t\<rparr>) = rcv_get i s"
  by (cases s; simp add: rcv_put_def rcv_get_def)+

lemma rcv_startProcessing_ok:
  assumes wf: "rcv_wf b s" and r: "rcv_get i s = Some r" and st: "rx_state (mr_protocol r) = RS_PROCESSING"
  obtains res s' r' where "rcv_startProcessing E i s = Some (res, s')" "rcv_step_ok b i s r s' r'"
    "mr_isDone r'" "rr_transition res"
proof -
  have inv: "mr_inv (maxAllocateRetryCount (rcv_params s)) r" by (rule rcv_wf_get [OF wf r])
  have nd: "\<not> mr_isDone r" "\<not> rx_isAllocating (mr_protocol r)"
    using st rx_inv_consistent(2) rcv_wf_inv [OF wf r] by (auto simp: mr_isDone_def)
  then obtain h m where hm: "mr_message r = Some (h, m)" using inv by (auto simp: mr_inv_def)
  define ok where "ok = env_messageReceived E (rcv_trace s)"
  define calls where
    "calls = MessageReceived (h, m) ok # (if ok then [] else [ReleaseTransportMessage (h, m)])"
  let ?p = "snd (rx_processed ok (mr_protocol r))"
  let ?r = "r\<lparr>mr_message := None, mr_protocol := ?p\<rparr>"
  let ?s = "(rcv_put i ?r s)\<lparr>rcv_trace := rcv_trace s @ calls\<rparr>"
  have "mr_inv (maxAllocateRetryCount (rcv_params s)) ?r"
    using inv rx_inv_setDone [of _ _ "mr_protocol r"]
    by (simp add: mr_inv_def mr_isDone_def rx_processed_def rx_setDone_def)
  moreover have "obtained calls + held r = given calls + held ?r"
    using hm by (simp add: calls_def obtained_def given_def held_def)
  ultimately have ok': "rcv_step_ok b i s r ?s ?r" by (rule rcv_step_okI [OF wf r])
  have "rcv_startProcessing E i s = Some (fst (rx_processed ok (mr_protocol r)), ?s)"
    using r hm rcv_get_put [OF r, of i "r\<lparr>mr_message := None\<rparr>"]
    by (simp add: rcv_startProcessing_def detachMessage_def ok_def [symmetric] rcv_lift_def
        mr_lift_eq rcv_call_def calls_def Let_def)
  then show thesis
    by (rule that [OF _ ok']) (simp_all add: mr_isDone_def rx_processed_def rx_setDone_def
        rx_result_message_def)
qed

text \<open>Unblocking changes blocked flags only.\<close>

lemma unblock_first_same:
  "map fst (unblock_first a l) = map fst l"
  "map_option (mr_blocked_update (\<lambda>_. False)) (map_of (unblock_first a l) j) =
   map_option (mr_blocked_update (\<lambda>_. False)) (map_of l j)"
  by (induction l rule: unblock_first.induct [where ?a0.0 = a]) auto

lemma length_unblock_first: "length (unblock_first a l) = length l"
  using arg_cong [OF unblock_first_same(1) [of a l], of length] by simp

lemma unblock_first_sum:
  assumes "\<And>r. f (r\<lparr>mr_blocked := False\<rparr>) = f r"
  shows "slot_sum f (unblock_first a l) = slot_sum f l"
  using assms by (induction l) auto

lemma mr_inv_blocked [simp]: "mr_inv retries (r\<lparr>mr_blocked := x\<rparr>) = mr_inv retries r"
  by (simp add: mr_inv_def mr_isDone_def)

lemma unblock_first_inv:
  "\<forall>(i, r) \<in> set l. mr_inv retries r \<Longrightarrow> \<forall>(i, r) \<in> set (unblock_first a l). mr_inv retries r"
  by (induction l) (auto split: if_splits)

lemma unblock_first_get:
  "map_of l j = Some r \<Longrightarrow>
   map_of (unblock_first a l) j = Some r \<or> map_of (unblock_first a l) j = Some (r\<lparr>mr_blocked := False\<rparr>)"
  by (induction l) auto

text \<open>A finished receiver that has been released.\<close>

definition mr_gone :: "message_receiver \<Rightarrow> bool" where
  "mr_gone r \<longleftrightarrow> mr_isDone r \<and> mr_message r = None"

lemma rcv_release_ok:
  assumes wf: "rcv_wf b s" and r: "rcv_get i s = Some r" and dn: "mr_isDone r"
    and cnt: "rcv_releasedReceiverCount s < 255"
  obtains s' r' where "rcv_release i s = Some (rx_result False, s')"
    "rcv_wf b s'" "rcv_frame i s s'" "rcv_get i s' = Some r'" "mr_gone r'"
    "slot_sum done1 (rcv_list s') = slot_sum done1 (rcv_list s)"
    "rcv_releasedReceiverCount s' = rcv_releasedReceiverCount s + 1"
proof -
  let ?r = "r\<lparr>mr_message := None\<rparr>" and ?a = "cn_receptionAddress (mr_connection r)"
  define calls where "calls = (case mr_message r of None \<Rightarrow> [] | Some m \<Rightarrow> [ReleaseTransportMessage m])"
  let ?s1 = "(rcv_put i ?r s)\<lparr>rcv_trace := rcv_trace s @ calls\<rparr>"
  have "mr_inv (maxAllocateRetryCount (rcv_params s)) ?r"
    using rcv_wf_get [OF wf r] dn by (simp add: mr_inv_def mr_isDone_def)
  moreover have "obtained calls + held r = given calls + held ?r"
    by (auto simp: calls_def obtained_def given_def held_def split: option.splits)
  ultimately have s1: "rcv_step_ok b i s r ?s1 ?r" by (rule rcv_step_okI [OF wf r])
  let ?s2 = "?s1\<lparr>rcv_list := unblock_first ?a (rcv_list ?s1)\<rparr>"
  let ?s3 = "?s2\<lparr>rcv_releasedReceiverCount := rcv_releasedReceiverCount s + 1\<rparr>"
  have run: "rcv_release i s = Some (rx_result False, ?s3)"
    using r cnt
    by (auto simp: rcv_release_def mr_release_def detachMessage_def rcv_put_def rcv_call_def calls_def
        split: option.splits)
  have "held (r\<lparr>mr_blocked := False\<rparr>) = held r" "done1 (r\<lparr>mr_blocked := False\<rparr>) = done1 r" for r
    by (simp_all add: held_def done1_def mr_isDone_def)
  then have sums: "slot_sum held (rcv_list ?s3) = slot_sum held (rcv_list ?s1)"
    "slot_sum done1 (rcv_list ?s3) = slot_sum done1 (rcv_list ?s1)"
    by (simp_all add: unblock_first_sum)
  have "rcv_wf b ?s3"
    using s1 sums unblock_first_inv [of "rcv_list ?s1"]
    by (simp add: rcv_step_ok_def rcv_wf_def unblock_first_same length_unblock_first)
  moreover have "rcv_frame i s ?s3"
    using s1 unblock_first_same
    by (simp add: rcv_step_ok_def rcv_frame_def rcv_get_def)
  moreover obtain r' where r': "rcv_get i ?s3 = Some r'" "mr_gone r'"
    using s1 dn unblock_first_get [of "rcv_list ?s1" i ?r ?a]
    by (auto simp: rcv_step_ok_def rcv_get_def mr_isDone_def mr_gone_def)
  moreover have "slot_sum done1 (rcv_list ?s3) = slot_sum done1 (rcv_list s)"
    using s1 sums dn by (simp add: rcv_step_ok_def done1_def mr_isDone_def)
  ultimately show thesis
    using that [OF run, of r'] by simp
qed

lemma tm_append_wf:
  assumes "tm_wf m" "len \<le> length data"
  obtains e m' where "tm_append data len m = Some (e, m')" "tm_wf m'"
    "length (tm_buffer m') = length (tm_buffer m)"
proof (cases "tm_validBytes m + len \<le> length (tm_buffer m)")
  case True
  then show thesis using tm_append_fits [OF assms(1) True assms(2)] that by metis
next
  case False
  then show thesis using assms that by (simp add: tm_append_def)
qed

lemma rx_allocated_state:
  assumes "rx_inv retries bs p" "rx_isAllocating p"
  shows "b \<Longrightarrow> \<not> rx_isAllocating (snd (rx_allocated b k p))
      \<and> rx_state (snd (rx_allocated b k p)) \<in> {RS_PROCESSING, RS_SEND}"
    and "\<not> b \<Longrightarrow> rx_isAllocating (snd (rx_allocated b k p))
        \<and> rx_state (snd (rx_allocated b k p)) \<in> {RS_SEND, RS_WAIT}
      \<or> rx_state (snd (rx_allocated b k p)) = RS_DONE"
    and "rr_transition (fst (rx_allocated b k p))"
  using assms by (auto simp: rx_ops Let_def)

lemma mr_allocated_ok:
  assumes inv: "mr_inv retries r" and al: "rx_isAllocating (mr_protocol r)"
    and msg: "\<And>h m. message = Some (h, m) \<Longrightarrow> tm_wf m"
  obtains res r' where "mr_allocated message retries r = Some (res, r')" "mr_inv retries r'"
    "held r' = (case message of None \<Rightarrow> {#} | Some (h, _) \<Rightarrow> {#h#})"
    "rr_transition res" "rx_state (mr_protocol r') \<in> {RS_PROCESSING, RS_SEND, RS_WAIT, RS_DONE}"
proof -
  let ?f = "rx_allocated (message \<noteq> None) retries"
  have rxi: "rx_inv retries (mr_maxBlockSize r) (mr_protocol r)" using inv by (simp add: mr_inv_def)
  note st = rx_allocated_state [OF rxi al, of "message \<noteq> None" retries]
  have nd: "\<not> mr_isDone r" using rx_inv_consistent(3) [OF rxi al] by (simp add: mr_isDone_def)
  have none: "mr_message r = None" using inv al nd by (simp add: mr_inv_def)
  have inv': "rx_inv retries (mr_maxBlockSize r) (snd (?f (mr_protocol r)))"
    by (rule rx_inv_allocated [OF rxi])
  show thesis
  proof (cases message)
    case None
    have "mr_allocated message retries r = Some (mr_lift ?f r)"
      using None by (simp add: mr_allocated_def mr_lift_eq)
    then show thesis using None st inv' none nd
      by (intro that [of "fst (mr_lift ?f r)" "snd (mr_lift ?f r)"])
        (auto simp: mr_lift_eq mr_inv_def held_def mr_isDone_def)
  next
    case (Some hm)
    obtain h' m' where hm: "hm = (h', m')" by (cases hm)
    have wf: "tm_wf m'" using msg Some hm by simp
    obtain e m2 where m2: "tm_append (mr_firstFrameData r) (to_u8 (length (mr_firstFrameData r))) m' = Some (e, m2)"
      "tm_wf m2" using tm_append_wf [OF wf] by (metis to_u8_def mod_less_eq_dividend)
    let ?r = "(snd (mr_lift ?f r))\<lparr>mr_message := Some (h', m2)\<rparr>"
    have "mr_allocated message retries r = Some (fst (mr_lift ?f r), ?r)"
      using Some hm st(1) m2 by (simp add: mr_allocated_def mr_lift_eq)
    then show thesis using Some hm st inv' m2
      by (intro that [of "fst (mr_lift ?f r)" ?r])
        (auto simp: mr_lift_eq mr_inv_def held_def mr_isDone_def)
  qed
qed

lemma prepared_message:
  assumes "tm_wf m" "n \<le> length (tm_buffer m)"
  obtains m' where "setPayloadLength n ((resetValidBytes m)\<lparr>tm_sourceAddress := a, tm_targetAddress := c\<rparr>) = Some m'"
    "tm_wf m'"
  using assms by (auto simp: setPayloadLength_def resetValidBytes_def getMaxPayloadLength_def tm_wf_def)

lemma rcv_same_put:
  assumes "rcv_wf b s" "rcv_get i s = Some r" shows "rcv_put i r s = s"
  using assms slot_put_split [of "rcv_list s" i r]
  by (simp add: rcv_put_def rcv_wf_def rcv_get_def)
    (metis receiver.surjective receiver.update_convs(1))

lemma rcv_allocateTransportMessage_ok:
  assumes E: "rx_env_ok E" and wf: "rcv_wf b s" and r: "rcv_get i s = Some r"
    and al: "rx_isAllocating (mr_protocol r)"
  obtains res s' r' where "rcv_allocateTransportMessage E i peek s = Some (res, s')"
    "rcv_step_ok b i s r s' r'"
    "rr_transition res \<and> rx_state (mr_protocol r') \<in> {RS_PROCESSING, RS_SEND, RS_WAIT, RS_DONE}
     \<or> peek \<and> \<not> rr_transition res \<and> r' = r"
proof -
  let ?c = "mr_connection r" and ?k = "maxAllocateRetryCount (rcv_params s)"
  obtain res msg where q: "(if mr_blocked r then (TPMSG_OK, None)
      else env_getTransportMessage E (rcv_trace s) (cn_sourceId ?c) (cn_targetId ?c)
             (mr_messageSize r) (mr_firstFrameData r)) = (res, msg)" by fastforce
  define calls where "calls = (if mr_blocked r then []
      else [GetTransportMessage (cn_sourceId ?c) (cn_targetId ?c) (mr_messageSize r) (mr_firstFrameData r) res msg])"
  have ok: "res = TPMSG_OK \<and> tm_wf m \<and> mr_messageSize r \<le> length (tm_buffer m)" if "msg = Some (h, m)" for h m
    using q that E by (auto simp: rx_env_ok_def split: if_splits)
  have gv: "given calls = {#}" by (simp add: calls_def given_def)
  have ob: "obtained calls = (case msg of None \<Rightarrow> {#} | Some (h, _) \<Rightarrow> {#h#})"
    using q by (auto simp: calls_def obtained_def split: option.splits if_splits)
  let ?s = "s\<lparr>rcv_trace := rcv_trace s @ calls\<rparr>"
  have s1: "(if mr_blocked r then s
             else rcv_call (GetTransportMessage (cn_sourceId ?c) (cn_targetId ?c)
                     (mr_messageSize r) (mr_firstFrameData r) res msg) s) = ?s"
    by (simp add: calls_def rcv_call_def)
  have inv: "mr_inv ?k r" by (rule rcv_wf_get [OF wf r])
  have rxi: "rx_inv ?k (mr_maxBlockSize r) (mr_protocol r)" by (rule rcv_wf_inv [OF wf r])
  have nd: "\<not> mr_isDone r" using rx_inv_consistent(3) [OF rxi al] by (simp add: mr_isDone_def)
  have h0: "held r = {#}" using inv al nd by (simp add: mr_inv_def held_def)
  show thesis
  proof (cases "res \<noteq> TPMSG_OK \<and> res \<noteq> TPMSG_NO_MSG_AVAILABLE")
    case True
    then have "msg = None" using ok by (cases msg) auto
    let ?r = "snd (mr_lift rx_cancel r)"
    have "mr_inv ?k ?r \<and> held ?r = held r"
      using mr_inv_lift [OF inv, of rx_cancel] rx_inv_setDone [OF rxi]
      by (simp add: rx_cancel_def rx_setDone_def)
    then have st: "rcv_step_ok b i s r ((rcv_put i ?r s)\<lparr>rcv_trace := rcv_trace s @ calls\<rparr>) ?r"
      using rcv_step_okI [OF wf r, of ?r calls] ob gv \<open>msg = None\<close> by simp
    have "rcv_allocateTransportMessage E i peek s =
        Some (fst (mr_lift rx_cancel r), (rcv_put i ?r s)\<lparr>rcv_trace := rcv_trace s @ calls\<rparr>)"
      using r True unfolding rcv_allocateTransportMessage_def
      by (simp add: Let_def q s1 rcv_lift_def mr_lift_eq)
    then show thesis
      by (rule that [OF _ st]) (simp add: mr_lift_eq rx_cancel_def rx_setDone_def rx_result_message_def)
  next
    case False
    define prep where "prep = (case msg of None \<Rightarrow> Some None
         | Some (h, m) \<Rightarrow> do {
             m \<leftarrow> setPayloadLength (mr_messageSize r)
                    ((resetValidBytes m)\<lparr>tm_sourceAddress := cn_sourceId ?c, tm_targetAddress := cn_targetId ?c\<rparr>);
             Some (Some (h, m)) })"
    obtain msg' where msg': "prep = Some msg'" "\<And>h m. msg' = Some (h, m) \<Longrightarrow> tm_wf m"
      "(case msg' of None \<Rightarrow> {#} | Some (h, _) \<Rightarrow> {#h#}) = obtained calls"
    proof (cases msg)
      case None then show thesis using that [of None] ob by (simp add: prep_def)
    next
      case (Some hm)
      obtain h m where hm: "hm = (h, m)" by (cases hm)
      obtain m' where "setPayloadLength (mr_messageSize r)
          ((resetValidBytes m)\<lparr>tm_sourceAddress := cn_sourceId ?c, tm_targetAddress := cn_targetId ?c\<rparr>) = Some m'"
        "tm_wf m'"
        using prepared_message [of m "mr_messageSize r"] ok [of h m] Some hm by metis
      then show thesis using that [of "Some (h, m')"] Some hm ob by (simp add: prep_def)
    qed
    have run: "rcv_allocateTransportMessage E i peek s =
        (if msg' = None \<and> peek then Some (rx_result False, ?s)
         else do { (res, r) \<leftarrow> mr_allocated msg' ?k r; Some (res, rcv_put i r ?s) })"
    proof -
      have F: "(res \<noteq> TPMSG_OK \<and> res \<noteq> TPMSG_NO_MSG_AVAILABLE) = False" using False by simp
      show ?thesis
        using r msg'(1) unfolding rcv_allocateTransportMessage_def prep_def
        by (simp add: Let_def q s1 F)
    qed
    show thesis
    proof (cases "msg' = None \<and> peek")
      case True
      then have "rcv_step_ok b i s r ((rcv_put i r s)\<lparr>rcv_trace := rcv_trace s @ calls\<rparr>) r"
        using rcv_step_okI [OF wf r inv, of calls] msg'(3) gv by simp
      then have "rcv_step_ok b i s r ?s r" by (simp add: rcv_same_put [OF wf r])
      then show thesis by (rule that [rotated]) (use True run in \<open>auto simp: rx_result_def\<close>)
    next
      case False
      obtain res' r' where r': "mr_allocated msg' ?k r = Some (res', r')" "mr_inv ?k r'"
        "held r' = (case msg' of None \<Rightarrow> {#} | Some (h, _) \<Rightarrow> {#h#})" "rr_transition res'"
        "rx_state (mr_protocol r') \<in> {RS_PROCESSING, RS_SEND, RS_WAIT, RS_DONE}"
        by (rule mr_allocated_ok [OF inv al msg'(2)])
      have "rcv_step_ok b i s r ((rcv_put i r' s)\<lparr>rcv_trace := rcv_trace s @ calls\<rparr>) r'"
        using rcv_step_okI [OF wf r r'(2), of calls] r'(3) msg'(3) gv h0 by simp
      then show thesis by (rule that [rotated]) (use False run r' in auto)
    qed
  qed
qed

section \<open>The transition loop\<close>

text \<open>Finished receivers that the counter does not include yet.\<close>

definition rcv_pending :: "nat \<Rightarrow> receiver \<Rightarrow> bool" where
  "rcv_pending n s \<longleftrightarrow> slot_sum done1 (rcv_list s) = rcv_releasedReceiverCount s + n"

fun rx_rank :: "ReceiveState \<Rightarrow> nat" where
  "rx_rank RS_ALLOCATE = 4"
| "rx_rank RS_PROCESSING = 3"
| "rx_rank RS_SEND = 2"
| "rx_rank RS_DONE = 1"
| "rx_rank RS_WAIT = 0"

lemma done1_sum_le: "slot_sum done1 l \<le> length l"
  by (induction l) (auto simp: done1_def)

lemma mr_inv_timer [simp]:
  "mr_inv k (mr_setTimer t r) = mr_inv k r" "held (mr_setTimer t r) = held r"
  "mr_protocol (mr_setTimer t r) = mr_protocol r" "done1 (mr_setTimer t r) = done1 r"
  "mr_isDone (mr_setTimer t r) = mr_isDone r"
  by (simp_all add: mr_inv_def held_def mr_isDone_def mr_setTimer_def done1_def)

lemma rcv_timers_simps [simp]:
  "rcv_wf b (s\<lparr>rcv_timersUpdated := x\<rparr>) = rcv_wf b s"
  "rcv_frame i s' (s\<lparr>rcv_timersUpdated := x\<rparr>) = rcv_frame i s' s"
  "rcv_get i (s\<lparr>rcv_timersUpdated := x\<rparr>) = rcv_get i s"
  by (simp_all add: rcv_wf_def rcv_frame_def rcv_get_def)

lemma rcv_step_ok_timers:
  "rcv_step_ok b i s r s' r' \<Longrightarrow> rcv_step_ok b i s r (s'\<lparr>rcv_timersUpdated := x\<rparr>) r'"
  by (simp add: rcv_step_ok_def)

lemma rcv_handleResult_ok:
  assumes wf: "rcv_wf b s" and r: "rcv_get i s = Some r" and t: "rr_transition res"
  obtains s' r' where "rcv_handleResult E i res s = Some s'" "rcv_step_ok b i s r s' r'"
    "mr_protocol r' = mr_protocol r"
proof -
  define now where "now = env_nowUs E (rcv_trace s)"
  define t where "t = (case rx_timeout (mr_protocol r) of
          RT_ALLOCATE \<Rightarrow> now + ms_to_us (waitAllocateTimeout (rcv_params s))
        | RT_RX \<Rightarrow> now + ms_to_us (waitRxTimeout (rcv_params s))
        | RT_NONE \<Rightarrow> now)"
  let ?r = "mr_setTimer t r" and ?s = "rcv_put i (mr_setTimer t r) s"
  have ok: "rcv_step_ok b i s r ?s ?r"
    by (rule rcv_step_ok_put [OF wf r]) (simp_all add: rcv_wf_get [OF wf r])
  have "rcv_resetTimer E i s = Some ?s"
    unfolding t_def now_def using r by (simp add: rcv_resetTimer_def Let_def)
  then have "rcv_handleResult E i res s =
      Some (if mr_isDone r then ?s else ?s\<lparr>rcv_timersUpdated := True\<rparr>)"
    using assms(3) rcv_get_put [OF r, of i ?r] by (simp add: rcv_handleResult_def)
  then show thesis
    by (rule that [of _ ?r]) (use ok rcv_step_ok_timers [OF ok] in auto)
qed

lemma rcv_step_pending:
  assumes "rcv_step_ok b i s r s' r'"
  shows "rcv_pending (done1 r) s \<Longrightarrow> rcv_pending (done1 r') s'"
  using assms by (simp add: rcv_step_ok_def rcv_pending_def)

lemma rcv_handleTransition_ok:
  assumes E: "rx_env_ok E" and wf: "rcv_wf b s" and r: "rcv_get i s = Some r"
    and pend: "rcv_pending (done1 r) s"
  obtains res s' r' where "rcv_handleTransition E i s = Some (res, s')" "rcv_wf b s'"
    "rcv_frame i s s'" "rcv_get i s' = Some r'"
    "rr_transition res \<and> rcv_pending (done1 r') s'
       \<and> rx_rank (rx_state (mr_protocol r')) < rx_rank (rx_state (mr_protocol r))
     \<or> \<not> rr_transition res \<and> rcv_pending 0 s' \<and> (mr_resting r' \<or> mr_gone r')"
proof (cases "rx_state (mr_protocol r)")
  case RS_ALLOCATE
  then have al: "rx_isAllocating (mr_protocol r)"
    using rx_inv_consistent(1) [OF rcv_wf_inv [OF wf r]] by simp
  obtain res s' r' where s': "rcv_allocateTransportMessage E i False s = Some (res, s')"
    "rcv_step_ok b i s r s' r'" "rr_transition res"
    "rx_state (mr_protocol r') \<in> {RS_PROCESSING, RS_SEND, RS_WAIT, RS_DONE}"
    by (rule rcv_allocateTransportMessage_ok [OF E wf r al, of False]) auto
  show thesis
    by (rule that [of res s' r'])
      (use s' RS_ALLOCATE r rcv_step_pending [OF s'(2) pend]
       in \<open>auto simp: rcv_handleTransition_def rcv_step_ok_def\<close>)
next
  case RS_SEND
  obtain res s' r' where s': "rcv_sendFlowControlFrame E i s = Some (res, s')" "rcv_step_ok b i s r s' r'"
    "rx_state (mr_protocol r') = RS_WAIT \<and> rr_transition res
     \<or> rx_state (mr_protocol r') = RS_SEND \<and> \<not> rr_transition res"
    by (rule rcv_sendFlowControlFrame_ok [OF wf r RS_SEND])
  show thesis
    by (rule that [of res s' r'])
      (use s' RS_SEND r rcv_step_pending [OF s'(2) pend]
       in \<open>auto simp: rcv_handleTransition_def rcv_step_ok_def mr_resting_def done1_def mr_isDone_def\<close>)
next
  case RS_PROCESSING
  obtain res s' r' where s': "rcv_startProcessing E i s = Some (res, s')" "rcv_step_ok b i s r s' r'"
    "mr_isDone r'" "rr_transition res"
    by (rule rcv_startProcessing_ok [OF wf r RS_PROCESSING])
  show thesis
    by (rule that [of res s' r'])
      (use s' RS_PROCESSING r rcv_step_pending [OF s'(2) pend]
       in \<open>auto simp: rcv_handleTransition_def rcv_step_ok_def mr_isDone_def\<close>)
next
  case RS_DONE
  then have d: "mr_isDone r" "done1 r = 1" by (simp_all add: mr_isDone_def done1_def)
  have "slot_sum done1 (rcv_list s) \<le> 255"
    using done1_sum_le [of "rcv_list s"] wf by (simp add: rcv_wf_def)
  then have "rcv_releasedReceiverCount s < 255" using pend d by (simp add: rcv_pending_def)
  then obtain s' r' where s': "rcv_release i s = Some (rx_result False, s')"
    "rcv_wf b s'" "rcv_frame i s s'" "rcv_get i s' = Some r'" "mr_gone r'"
    "slot_sum done1 (rcv_list s') = slot_sum done1 (rcv_list s)"
    "rcv_releasedReceiverCount s' = rcv_releasedReceiverCount s + 1"
    by (rule rcv_release_ok [OF wf r d(1)])
  show thesis
    by (rule that [of "rx_result False" s' r'])
      (use s' RS_DONE r pend d in \<open>auto simp: rcv_handleTransition_def rcv_pending_def rx_result_def\<close>)
next
  case RS_WAIT
  show thesis
    by (rule that [of "rx_result False" s r])
      (use RS_WAIT wf r pend
       in \<open>auto simp: rcv_handleTransition_def rx_result_def mr_resting_def done1_def mr_isDone_def\<close>)
qed

lemma rcv_handleTransitions_ok:
  assumes E: "rx_env_ok E" and wf: "rcv_wf b s" and r: "rcv_get i s = Some r"
    and res: "rr_transition res \<and> rcv_pending (done1 r) s
      \<or> \<not> rr_transition res \<and> rcv_pending 0 s \<and> (mr_resting r \<or> mr_gone r)"
  shows "\<exists>s' r'. rcv_handleTransitions E i res s = Some s' \<and> rcv_wf b s' \<and> rcv_frame i s s'
    \<and> rcv_get i s' = Some r' \<and> rcv_pending 0 s' \<and> (mr_resting r' \<or> mr_gone r')"
  using wf r res
proof (induction "rx_rank (rx_state (mr_protocol r))" arbitrary: s r res rule: less_induct)
  case less
  show ?case
  proof (cases "rr_transition res")
    case False
    then show ?thesis using less.prems by (subst rcv_handleTransitions.simps) auto
  next
    case True
    then have pend: "rcv_pending (done1 r) s" using less.prems(3) by simp
    obtain s1 r1 where s1: "rcv_handleResult E i res s = Some s1" "rcv_step_ok b i s r s1 r1"
      "mr_protocol r1 = mr_protocol r"
      by (rule rcv_handleResult_ok [OF less.prems(1,2) True])
    then have wf1: "rcv_wf b s1" "rcv_get i s1 = Some r1" "rcv_frame i s s1"
      by (simp_all add: rcv_step_ok_def)
    have pend1: "rcv_pending (done1 r1) s1" by (rule rcv_step_pending [OF s1(2) pend])
    obtain res2 s2 r2 where s2: "rcv_handleTransition E i s1 = Some (res2, s2)" "rcv_wf b s2"
      "rcv_frame i s1 s2" "rcv_get i s2 = Some r2"
      "rr_transition res2 \<and> rcv_pending (done1 r2) s2
         \<and> rx_rank (rx_state (mr_protocol r2)) < rx_rank (rx_state (mr_protocol r1))
       \<or> \<not> rr_transition res2 \<and> rcv_pending 0 s2 \<and> (mr_resting r2 \<or> mr_gone r2)"
      by (rule rcv_handleTransition_ok [OF E wf1(1,2) pend1])
    have run: "rcv_handleTransitions E i res s = rcv_handleTransitions E i res2 s2"
      using True s1(1) s2(1) by (subst rcv_handleTransitions.simps) simp
    have fr: "rcv_frame i s s2" by (rule rcv_frame_trans [OF wf1(3) s2(3)])
    show ?thesis
    proof (cases "rr_transition res2")
      case True
      then have "rx_rank (rx_state (mr_protocol r2)) < rx_rank (rx_state (mr_protocol r))"
        using s2(5) s1(3) by simp
      then obtain s' r' where "rcv_handleTransitions E i res2 s2 = Some s'" "rcv_wf b s'"
        "rcv_frame i s2 s'" "rcv_get i s' = Some r'" "rcv_pending 0 s'" "mr_resting r' \<or> mr_gone r'"
        using less.hyps [of r2 s2 res2] s2 True by blast
      then show ?thesis using run rcv_frame_trans [OF fr] by auto
    next
      case False
      then have "rcv_handleTransitions E i res2 s2 = Some s2"
        by (subst rcv_handleTransitions.simps) simp
      then show ?thesis using run fr s2 False by auto
    qed
  qed
qed

section \<open>Handlers\<close>

text \<open>
  The pool between two steps of a handler that still has to visit \<open>is\<close>: every receiver waits or
  has been released, and those to be visited wait.
\<close>

definition rcv_calm :: "nat list \<Rightarrow> nat multiset \<Rightarrow> receiver \<Rightarrow> bool" where
  "rcv_calm is b s \<longleftrightarrow> rcv_wf b s \<and> rcv_pending 0 s
     \<and> (\<forall>(j, r) \<in> set (rcv_list s). mr_resting r \<or> mr_gone r \<and> j \<notin> set is)"

definition rcv_same :: "receiver \<Rightarrow> receiver \<Rightarrow> bool" where
  "rcv_same s s' \<longleftrightarrow>
     map fst (rcv_list s') = map fst (rcv_list s) \<and> rcv_nextSlot s' = rcv_nextSlot s
     \<and> rcv_poolSize s' = rcv_poolSize s \<and> rcv_params s' = rcv_params s
     \<and> rcv_maxFirstFrameDataSize s' = rcv_maxFirstFrameDataSize s
     \<and> rcv_removeLockCount s' = rcv_removeLockCount s"

lemma rcv_same_refl [simp]: "rcv_same s s" by (simp add: rcv_same_def)

lemma rcv_same_trans: "rcv_same s s' \<Longrightarrow> rcv_same s' s'' \<Longrightarrow> rcv_same s s''"
  by (simp add: rcv_same_def)

lemma rcv_frame_same: "rcv_frame i s s' \<Longrightarrow> rcv_same s s'"
  by (simp add: rcv_same_def rcv_frame_def)

lemma rcv_same_ids: "rcv_same s s' \<Longrightarrow> fst ` set (rcv_list s') = fst ` set (rcv_list s)"
  unfolding rcv_same_def by (metis set_map)

lemma rcv_frame_state:
  assumes "rcv_frame i s s'" "j \<noteq> i" "rcv_get j s' = Some r'"
  obtains r where "rcv_get j s = Some r" "mr_resting r' = mr_resting r" "mr_gone r' = mr_gone r"
proof -
  from assms have "map_option (mr_blocked_update (\<lambda>_. False)) (rcv_get j s) =
      Some (mr_blocked_update (\<lambda>_. False) r')"
    by (metis rcv_frame_def option.map(2))
  then obtain r where r: "rcv_get j s = Some r" "r\<lparr>mr_blocked := False\<rparr> = r'\<lparr>mr_blocked := False\<rparr>"
    by auto
  have "mr_protocol r = mr_protocol r'" "mr_message r = mr_message r'"
    using arg_cong [OF r(2), of mr_protocol] arg_cong [OF r(2), of mr_message] by simp_all
  then show thesis using r(1) that by (simp add: mr_resting_def mr_gone_def mr_isDone_def)
qed

lemma rcv_calm_get:
  "rcv_calm is b s \<longleftrightarrow> rcv_wf b s \<and> rcv_pending 0 s
     \<and> (\<forall>j r. rcv_get j s = Some r \<longrightarrow> mr_resting r \<or> mr_gone r \<and> j \<notin> set is)"
proof -
  have "(\<forall>(j, r) \<in> set (rcv_list s). P j r) = (\<forall>j r. rcv_get j s = Some r \<longrightarrow> P j r)" if "rcv_wf b s" for P
  proof -
    have "distinct (map fst (rcv_list s))" using that by (simp add: rcv_wf_def)
    then show ?thesis by (simp add: rcv_get_def case_prod_beta Ball_def)
  qed
  from this [of "\<lambda>j r. mr_resting r \<or> mr_gone r \<and> j \<notin> set is"] show ?thesis
    unfolding rcv_calm_def by argo
qed

text \<open>One visit: a change of receiver \<open>i\<close>, then its transitions.\<close>

lemma rcv_visit_ok:
  assumes E: "rx_env_ok E" and calm: "rcv_calm (i # is) b s" and i: "i \<notin> set is" "rcv_get i s = Some r"
    and step: "rcv_step_ok b i s r s1 r1" and res: "rr_transition res \<or> mr_resting r1"
  obtains s' r' where "rcv_handleTransitions E i res s1 = Some s'" "rcv_calm is b s'" "rcv_same s s'"
    "rcv_get i s' = Some r'"
proof -
  have "mr_resting r" using calm i by (auto simp: rcv_calm_get)
  then have "done1 r = 0" by (auto simp: done1_def mr_isDone_def mr_resting_def)
  then have p: "rcv_pending (done1 r1) s1"
    using rcv_step_pending [OF step] calm by (simp add: rcv_calm_def)
  have "rr_transition res \<and> rcv_pending (done1 r1) s1
      \<or> \<not> rr_transition res \<and> rcv_pending 0 s1 \<and> (mr_resting r1 \<or> mr_gone r1)"
    using res p by (auto simp: done1_def mr_isDone_def mr_resting_def)
  then obtain s' r' where s': "rcv_handleTransitions E i res s1 = Some s'" "rcv_wf b s'" "rcv_frame i s1 s'"
    "rcv_get i s' = Some r'" "rcv_pending 0 s'" "mr_resting r' \<or> mr_gone r'"
    using rcv_handleTransitions_ok [OF E _ _, of b s1 i r1 res] step by (auto simp: rcv_step_ok_def)
  have fr: "rcv_frame i s s'" using step s'(3) rcv_frame_trans by (auto simp: rcv_step_ok_def)
  have "mr_resting x \<or> mr_gone x \<and> j \<notin> set is" if x: "rcv_get j s' = Some x" for j x
  proof (cases "j = i")
    case True then show ?thesis using x s'(4,6) i by simp
  next
    case False
    obtain y where "rcv_get j s = Some y" "mr_resting x = mr_resting y" "mr_gone x = mr_gone y"
      by (rule rcv_frame_state [OF fr False x])
    then show ?thesis using calm False by (auto simp: rcv_calm_get)
  qed
  then have "rcv_calm is b s'" using s' by (simp add: rcv_calm_get)
  then show thesis using that s'(1,4) rcv_frame_same [OF fr] by blast
qed

lemma rcv_calm_weaken: "rcv_calm (i # is) b s \<Longrightarrow> rcv_calm is b s"
  unfolding rcv_calm_def by auto

lemma rcv_calm_member:
  assumes "rcv_calm (i # is) b s" "i \<in> fst ` set (rcv_list s)"
  obtains r where "rcv_get i s = Some r" "mr_resting r" "\<not> mr_isDone r"
proof -
  obtain r where "rcv_get i s = Some r"
    using assms(2) by (auto simp: rcv_get_def dest!: weak_map_of_SomeI)
  moreover from this have "mr_resting r" using assms(1) by (auto simp: rcv_calm_get)
  ultimately show thesis using that by (auto simp: mr_resting_def mr_isDone_def)
qed

lemma rcv_shutdown_loop_ok:
  assumes E: "rx_env_ok E"
  shows "rcv_calm is b s \<Longrightarrow> distinct is \<Longrightarrow> set is \<subseteq> fst ` set (rcv_list s) \<Longrightarrow>
    \<exists>s'. rcv_shutdown_loop E is s = Some s' \<and> rcv_calm [] b s' \<and> rcv_same s s'"
proof (induction "is" arbitrary: s)
  case (Cons i "is")
  obtain r where r: "rcv_get i s = Some r" "mr_resting r" "\<not> mr_isDone r"
    using rcv_calm_member [OF Cons.prems(1)] Cons.prems(3) by auto
  have wf: "rcv_wf b s" using Cons.prems(1) by (simp add: rcv_calm_def)
  have c: "rx_shutdown (mr_protocol r) = rx_cancel (mr_protocol r)"
    using r(2) by (auto simp: rx_shutdown_def mr_resting_def)
  obtain s1 where s1: "rcv_lift i rx_shutdown s = Some (fst (rx_shutdown (mr_protocol r)), s1)"
    "rcv_step_ok b i s r s1 (snd (mr_lift rx_shutdown r))"
    using rcv_lift_ok [OF wf r(1), of rx_shutdown] rx_inv_shutdown [OF rcv_wf_inv [OF wf r(1)]] c
    by (auto simp: rx_cancel_def rx_setDone_def)
  have t: "rr_transition (fst (rx_shutdown (mr_protocol r)))"
    by (simp add: c rx_cancel_def rx_setDone_def rx_result_message_def)
  obtain s2 where s2: "rcv_handleTransitions E i (fst (rx_shutdown (mr_protocol r))) s1 = Some s2"
    "rcv_calm is b s2" "rcv_same s s2"
    using rcv_visit_ok [OF E Cons.prems(1) _ r(1) s1(2)] Cons.prems(2) t by auto
  show ?case
    using Cons.IH [OF s2(2)] Cons.prems(2,3) s1(1) s2 rcv_same_ids [OF s2(3)] rcv_same_trans by auto
qed (auto simp: rcv_calm_def)

lemma rcv_handlePending_ok:
  assumes E: "rx_env_ok E"
  shows "rcv_calm is b s \<Longrightarrow> distinct is \<Longrightarrow> set is \<subseteq> fst ` set (rcv_list s) \<Longrightarrow>
    \<exists>bl s'. rcv_handlePending E a is blocked s = Some (bl, s') \<and> rcv_calm [] b s' \<and> rcv_same s s'"
proof (induction "is" arbitrary: s blocked)
  case (Cons i "is")
  obtain r where r: "rcv_get i s = Some r" "mr_resting r" "\<not> mr_isDone r"
    using rcv_calm_member [OF Cons.prems(1)] Cons.prems(3) by auto
  have wf: "rcv_wf b s" using Cons.prems(1) by (simp add: rcv_calm_def)
  show ?case
  proof (cases "cn_receptionAddress (mr_connection r) = a \<and> rx_frameCount (mr_protocol r) > 1")
    case True
    obtain s1 where s1: "rcv_lift i rx_cancel s = Some (fst (rx_cancel (mr_protocol r)), s1)"
      "rcv_step_ok b i s r s1 (snd (mr_lift rx_cancel r))"
      using rcv_lift_ok [OF wf r(1), of rx_cancel] rx_inv_setDone [OF rcv_wf_inv [OF wf r(1)]]
      by (auto simp: rx_cancel_def rx_setDone_def)
    have t: "rr_transition (fst (rx_cancel (mr_protocol r)))"
      by (simp add: rx_cancel_def rx_setDone_def rx_result_message_def)
    obtain s2 where s2: "rcv_handleTransitions E i (fst (rx_cancel (mr_protocol r))) s1 = Some s2"
      "rcv_calm is b s2" "rcv_same s s2"
      using rcv_visit_ok [OF E Cons.prems(1) _ r(1) s1(2)] Cons.prems(2) t by auto
    show ?thesis
      using Cons.IH [OF s2(2), of blocked] Cons.prems(2,3) True r s1(1) s2 rcv_same_ids [OF s2(3)]
        rcv_same_trans by auto
  next
    case False
    show ?thesis
      using Cons.IH [OF rcv_calm_weaken [OF Cons.prems(1)]] Cons.prems(2,3) r(1) False by auto
  qed
qed (auto simp: rcv_calm_def)

lemma rx_expired_resting:
  assumes "rx_inv retries bs p" "rx_state p \<noteq> RS_DONE"
  shows "rr_transition (fst (rx_expired p)) \<or> rx_state (snd (rx_expired p)) = rx_state p"
    and "rx_state (snd (rx_expired p)) = RS_DONE \<or> rx_isAllocating (snd (rx_expired p)) = rx_isAllocating p"
  by (auto simp: rx_ops split: ReceiveTimeout.splits)

lemma mr_updateTimer_same:
  assumes "mr_updateTimer now r = (x, r')"
  shows "mr_protocol r' = mr_protocol r" "mr_message r' = mr_message r" "mr_maxBlockSize r' = mr_maxBlockSize r"
  using assms by (auto simp: mr_updateTimer_def split: if_splits)

lemma rcv_cyclic_loop_ok:
  assumes E: "rx_env_ok E"
  shows "rcv_calm is b s \<Longrightarrow> distinct is \<Longrightarrow> set is \<subseteq> fst ` set (rcv_list s) \<Longrightarrow>
    \<exists>s'. rcv_cyclic_loop E now is s = Some s' \<and> rcv_calm [] b s' \<and> rcv_same s s'"
proof (induction "is" arbitrary: s)
  case (Cons i "is")
  obtain r where r: "rcv_get i s = Some r" "mr_resting r" "\<not> mr_isDone r"
    using rcv_calm_member [OF Cons.prems(1)] Cons.prems(3) by auto
  have wf: "rcv_wf b s" using Cons.prems(1) by (simp add: rcv_calm_def)
  have inv: "mr_inv (maxAllocateRetryCount (rcv_params s)) r" by (rule rcv_wf_get [OF wf r(1)])
  obtain x r0 where x: "mr_updateTimer now r = (x, r0)" by fastforce
  note r0 = mr_updateTimer_same [OF x]
  show ?case
  proof (cases x)
    case False
    then show ?thesis using r(1) x Cons.prems(1) by (auto simp: rcv_calm_def)
  next
    case True
    have step0: "rcv_step_ok b i s r (rcv_put i r0 s) r0"
      by (rule rcv_step_ok_put [OF wf r(1)]) (use inv r0 in \<open>simp_all add: mr_inv_def mr_isDone_def held_def\<close>)
    then have w0: "rcv_wf b (rcv_put i r0 s)" "rcv_get i (rcv_put i r0 s) = Some r0"
      by (simp_all add: rcv_step_ok_def)
    have rxi: "rx_inv (maxAllocateRetryCount (rcv_params s)) (mr_maxBlockSize r0) (mr_protocol r0)"
      using rcv_wf_inv [OF w0] by simp
    note ex = rx_expired_resting [OF rxi]
    have nd: "rx_state (mr_protocol r0) \<noteq> RS_DONE" "\<not> mr_isDone r0" using r(3) r0 by (simp_all add: mr_isDone_def)
    obtain s1 where s1: "rcv_lift i rx_expired (rcv_put i r0 s) = Some (fst (rx_expired (mr_protocol r0)), s1)"
      "rcv_step_ok b i (rcv_put i r0 s) r0 s1 (snd (mr_lift rx_expired r0))"
      using rcv_lift_ok [OF w0, of rx_expired] rx_inv_expired [OF rxi] ex nd by auto
    have t: "rr_transition (fst (rx_expired (mr_protocol r0))) \<or> mr_resting (snd (mr_lift rx_expired r0))"
      using ex(1) nd r(2) r0 by (auto simp: mr_resting_def mr_lift_eq)
    obtain s2 where s2: "rcv_handleTransitions E i (fst (rx_expired (mr_protocol r0))) s1 = Some s2"
      "rcv_calm is b s2" "rcv_same s s2"
      using rcv_visit_ok [OF E Cons.prems(1) _ r(1) rcv_step_ok_trans [OF step0 s1(2)] t] Cons.prems(2)
      by auto
    show ?thesis
      using Cons.IH [OF s2(2)] Cons.prems(2,3) True x r(1) s1(1) s2 rcv_same_ids [OF s2(3)]
        rcv_same_trans by auto
  qed
qed (auto simp: rcv_calm_def)

lemma rcv_process_loop_ok:
  assumes E: "rx_env_ok E"
  shows "rcv_calm is b s \<Longrightarrow> distinct is \<Longrightarrow> set is \<subseteq> fst ` set (rcv_list s) \<Longrightarrow>
    \<exists>s'. rcv_process_loop E is s = Some s' \<and> rcv_calm [] b s' \<and> rcv_same s s'"
proof (induction "is" arbitrary: s)
  case (Cons i "is")
  obtain r where r: "rcv_get i s = Some r" "mr_resting r" "\<not> mr_isDone r"
    using rcv_calm_member [OF Cons.prems(1)] Cons.prems(3) by auto
  have wf: "rcv_wf b s" using Cons.prems(1) by (simp add: rcv_calm_def)
  show ?case
  proof (cases "rx_isAllocating (mr_protocol r)")
    case False
    then show ?thesis
      using Cons.IH [OF rcv_calm_weaken [OF Cons.prems(1)]] Cons.prems(2,3) r(1) by auto
  next
    case True
    obtain res s1 r1 where s1: "rcv_allocateTransportMessage E i True s = Some (res, s1)"
      "rcv_step_ok b i s r s1 r1"
      "rr_transition res \<and> rx_state (mr_protocol r1) \<in> {RS_PROCESSING, RS_SEND, RS_WAIT, RS_DONE}
       \<or> True \<and> \<not> rr_transition res \<and> r1 = r"
      by (rule rcv_allocateTransportMessage_ok [OF E wf r(1) True])
    have t: "rr_transition res \<or> mr_resting r1" using s1(3) r(2) by auto
    obtain s2 r2 where s2: "rcv_handleTransitions E i res s1 = Some s2"
      "rcv_calm is b s2" "rcv_same s s2" "rcv_get i s2 = Some r2"
      using rcv_visit_ok [OF E Cons.prems(1) _ r(1) s1(2) t] Cons.prems(2) by auto
    have c2: "rcv_calm [] b s2" using s2(2) by (auto simp: rcv_calm_def)
    show ?thesis
      using Cons.IH [OF s2(2)] Cons.prems(2,3) True r(1) s1(1) s2 c2 rcv_same_ids [OF s2(3)]
        rcv_same_trans by auto
  qed
qed (auto simp: rcv_calm_def)

text \<open>
  The pool between two calls: no lock, no counted removal, and every receiver waits for a
  frame, a message or a time-out.
\<close>

definition rcv_rest :: "nat multiset \<Rightarrow> receiver \<Rightarrow> bool" where
  "rcv_rest b s \<longleftrightarrow> rcv_wf b s \<and> rcv_removeLockCount s = 0 \<and> rcv_releasedReceiverCount s = 0
     \<and> (\<forall>(j, r) \<in> set (rcv_list s). mr_resting r)"

lemma done1_zero: "slot_sum done1 l = 0 \<longleftrightarrow> (\<forall>(j, r) \<in> set l. \<not> mr_isDone r)"
  by (induction l) (auto simp: done1_def)

lemma resting_not_done: "mr_resting r \<Longrightarrow> \<not> mr_isDone r"
  by (auto simp: mr_resting_def mr_isDone_def)

lemma rcv_rest_calm:
  assumes "rcv_rest b s" shows "rcv_calm (map fst (rcv_list s)) b s"
proof -
  have "slot_sum done1 (rcv_list s) = 0"
    unfolding done1_zero using assms resting_not_done by (fastforce simp: rcv_rest_def)
  then show ?thesis using assms by (auto simp: rcv_calm_def rcv_rest_def rcv_pending_def)
qed

lemma held_gone: "mr_gone r \<Longrightarrow> held r = {#}"
  by (simp add: mr_gone_def held_def)

text \<open>Releasing the last lock removes exactly the released receivers.\<close>

lemma rcv_releaseRemoveLock_ok:
  assumes calm: "rcv_calm [] b s" and lock: "rcv_removeLockCount s = 1"
  shows "\<exists>s'. rcv_releaseRemoveLock s = Some s' \<and> rcv_rest b s'
    \<and> rcv_list s' = filter (\<lambda>(_, r). mr_resting r) (rcv_list s)
    \<and> rcv_poolSize s' = rcv_poolSize s \<and> rcv_params s' = rcv_params s
    \<and> rcv_maxFirstFrameDataSize s' = rcv_maxFirstFrameDataSize s \<and> rcv_trace s' = rcv_trace s"
proof -
  let ?l = "filter (\<lambda>(_, r). mr_resting r) (rcv_list s)"
  have st: "mr_resting r \<or> mr_gone r" if "(j, r) \<in> set (rcv_list s)" for j r
    using calm that by (auto simp: rcv_calm_def)
  have eq: "(\<not> mr_isDone r) = mr_resting r" if "(j, r) \<in> set (rcv_list s)" for j r
    using st [OF that] resting_not_done by (auto simp: mr_gone_def)
  have fl: "filter (\<lambda>x. \<not> (case x of (_, r) \<Rightarrow> mr_isDone r)) (rcv_list s) = ?l"
    using eq by (intro filter_cong) auto
  have n: "rcv_releasedReceiverCount s = length (filter (\<lambda>(_, r). mr_isDone r) (rcv_list s))"
    using calm slot_sum_count [of mr_isDone "rcv_list s"] unfolding rcv_calm_def rcv_pending_def done1_def
    by simp
  have walk: "erase_walk (\<lambda>(_, r). mr_isDone r) (rcv_releasedReceiverCount s) (rcv_list s) = Some ?l"
    unfolding n fl [symmetric] by (rule erase_walk_all)
  have same: "?l = rcv_list s" if "rcv_releasedReceiverCount s = 0"
    using walk that by simp
  have sum: "slot_sum held ?l = slot_sum held (rcv_list s)"
    using st held_gone by (intro slot_sum_filter) auto
  have "distinct (map fst ?l)" using calm by (simp add: rcv_calm_def rcv_wf_def distinct_map_filter)
  moreover have "length ?l \<le> rcv_poolSize s"
    by (rule order_trans [OF length_filter_le]) (use calm in \<open>simp add: rcv_calm_def rcv_wf_def\<close>)
  ultimately have "rcv_rest b (s\<lparr>rcv_removeLockCount := 0, rcv_list := ?l, rcv_releasedReceiverCount := 0\<rparr>)"
    using calm sum by (auto simp: rcv_calm_def rcv_rest_def rcv_wf_def)
  moreover have "rcv_releaseRemoveLock s =
      Some (s\<lparr>rcv_removeLockCount := 0, rcv_list := ?l, rcv_releasedReceiverCount := 0\<rparr>)"
    using lock walk same by (cases s) (auto simp: rcv_releaseRemoveLock_def Let_def)
  ultimately show ?thesis by simp
qed

lemma rcv_guarded_ok:
  assumes rest: "rcv_rest b s"
    and f: "\<And>s1. s1 = s\<lparr>rcv_removeLockCount := 1\<rparr> \<Longrightarrow> rcv_calm (map fst (rcv_list s1)) b s1 \<Longrightarrow>
      \<exists>s2. f s1 = Some s2 \<and> rcv_calm [] b s2 \<and> rcv_removeLockCount s2 = 1"
  shows "\<exists>s'. rcv_guarded f s = Some s' \<and> rcv_rest b s'"
proof -
  let ?s1 = "s\<lparr>rcv_removeLockCount := 1\<rparr>"
  have s1: "rcv_setRemoveLock s = Some ?s1" using rest by (simp add: rcv_rest_def rcv_setRemoveLock_def)
  have "rcv_calm (map fst (rcv_list ?s1)) b ?s1"
    using rcv_rest_calm [OF rest] by (simp add: rcv_calm_def rcv_wf_def rcv_pending_def)
  then obtain s2 where "f ?s1 = Some s2" "rcv_calm [] b s2" "rcv_removeLockCount s2 = 1" using f by blast
  then show ?thesis
    using rcv_releaseRemoveLock_ok [of b s2] s1 by (auto simp: rcv_guarded_def)
qed

lemma rcv_calm_ids:
  "rcv_calm is b s \<Longrightarrow> distinct (map fst (rcv_list s)) \<and> set (map fst (rcv_list s)) \<subseteq> fst ` set (rcv_list s)"
  by (simp add: rcv_calm_def rcv_wf_def)

text \<open>A new receiver.\<close>

lemma rcv_wf_add:
  assumes wf: "rcv_wf b s" and room: "length (rcv_list s) < rcv_poolSize s"
    and r: "mr_inv (maxAllocateRetryCount (rcv_params s)) r" "held r = {#}"
    and i: "i = rcv_nextSlot s"
  shows "rcv_wf b (s\<lparr>rcv_nextSlot := i + 1, rcv_list := rcv_list s @ [(i, r)]\<rparr>)"
    and "rcv_get i (s\<lparr>rcv_nextSlot := i + 1, rcv_list := rcv_list s @ [(i, r)]\<rparr>) = Some r"
proof -
  have "i \<notin> fst ` set (rcv_list s)" using wf i by (auto simp: rcv_wf_def)
  then show "rcv_get i (s\<lparr>rcv_nextSlot := i + 1, rcv_list := rcv_list s @ [(i, r)]\<rparr>) = Some r"
    using map_of_eq_None_iff [of "rcv_list s" i] by (simp add: rcv_get_def map_add_def)
  show "rcv_wf b (s\<lparr>rcv_nextSlot := i + 1, rcv_list := rcv_list s @ [(i, r)]\<rparr>)"
    using wf room r i by (auto simp: rcv_wf_def less_Suc_eq)
qed

lemma rcv_first_ok:
  assumes E: "rx_env_ok E" and calm: "rcv_calm [] b s"
    and room: "length (rcv_list s) < rcv_poolSize s" and i: "i = rcv_nextSlot s"
    and n: "0 < frameCount" "frameCount < 65536" and par: "maxAllocateRetryCount (rcv_params s) < 255"
    and r: "r = mr_new conn messageSize frameCount cfSize bs st data blocked"
  shows "\<exists>res s1 s'. rcv_handleTransition E i
        (s\<lparr>rcv_nextSlot := i + 1, rcv_list := rcv_list s @ [(i, r)]\<rparr>) = Some (res, s1)
      \<and> rcv_handleTransitions E i res s1 = Some s' \<and> rcv_calm [] b s'
      \<and> rcv_removeLockCount s' = rcv_removeLockCount s"
proof -
  let ?s = "s\<lparr>rcv_nextSlot := i + 1, rcv_list := rcv_list s @ [(i, r)]\<rparr>"
  have fc: "(0 :: u16) < of_nat frameCount" using n by (simp add: word_less_nat_alt unat_of_nat)
  have inv: "mr_inv (maxAllocateRetryCount (rcv_params s)) r" "held r = {#}" "\<not> mr_isDone r"
    using rx_inv_new [OF par fc] r
    by (simp_all add: mr_inv_def mr_new_def held_def mr_isDone_def rx_new_def)
  have wf: "rcv_wf b s" using calm by (simp add: rcv_calm_def)
  note s0 = rcv_wf_add [OF wf room inv(1,2) i]
  have p0: "rcv_pending (done1 r) ?s"
    using calm inv(3) by (simp add: rcv_calm_def rcv_pending_def done1_def)
  obtain res s1 r1 where s1: "rcv_handleTransition E i ?s = Some (res, s1)" "rcv_wf b s1"
    "rcv_frame i ?s s1" "rcv_get i s1 = Some r1"
    "rr_transition res \<and> rcv_pending (done1 r1) s1
       \<and> rx_rank (rx_state (mr_protocol r1)) < rx_rank (rx_state (mr_protocol r))
     \<or> \<not> rr_transition res \<and> rcv_pending 0 s1 \<and> (mr_resting r1 \<or> mr_gone r1)"
    by (rule rcv_handleTransition_ok [OF E s0 p0])
  then obtain s' r' where s': "rcv_handleTransitions E i res s1 = Some s'" "rcv_wf b s'" "rcv_frame i s1 s'"
    "rcv_get i s' = Some r'" "rcv_pending 0 s'" "mr_resting r' \<or> mr_gone r'"
    using rcv_handleTransitions_ok [OF E s1(2,4), of res] by auto
  have fr: "rcv_frame i ?s s'" using s1(3) s'(3) rcv_frame_trans by blast
  have "mr_resting x \<or> mr_gone x" if x: "rcv_get j s' = Some x" for j x
  proof (cases "j = i")
    case False
    obtain y where y: "rcv_get j ?s = Some y" "mr_resting x = mr_resting y" "mr_gone x = mr_gone y"
      by (rule rcv_frame_state [OF fr False x])
    then have "rcv_get j s = Some y" using False
      by (auto simp: rcv_get_def map_add_def split: option.splits)
    then show ?thesis using calm y(2,3) by (auto simp: rcv_calm_get)
  qed (use x s'(4,6) in simp)
  then have "rcv_calm [] b s'" using s'(2,5) by (simp add: rcv_calm_get)
  then show ?thesis using s1(1) s'(1) fr by (auto simp: rcv_frame_def)
qed

section \<open>Every handler\<close>

text \<open>
  The calls from outside. The codec delivers first frames of 1 to 65535 frames; a message that
  the application gives back is one that it was handed.
\<close>

datatype rcv_event =
    RcvFirstFrame connection nat nat nat "u8 list"
  | RcvConsecutiveFrame address u8 "u8 list"
  | RcvCyclicTask u32
  | RcvProcessReceivers
  | RcvMessageProcessed message_ptr
  | RcvShutdown

fun rcv_handle :: "rx_env \<Rightarrow> rcv_event \<Rightarrow> receiver \<Rightarrow> receiver option" where
  "rcv_handle E (RcvFirstFrame conn msize n cfSize data) s =
     rcv_firstDataFrameReceived E conn msize n cfSize data s"
| "rcv_handle E (RcvConsecutiveFrame a sn data) s = rcv_consecutiveDataFrameReceived E a sn data s"
| "rcv_handle E (RcvCyclicTask now) s = rcv_cyclicTask E now s"
| "rcv_handle E RcvProcessReceivers s = rcv_processMessageReceivers E s"
| "rcv_handle E (RcvMessageProcessed m) s = Some (rcv_transportMessageProcessed m s)"
| "rcv_handle E RcvShutdown s = rcv_shutdown E s"

fun rcv_event_ok :: "rcv_event \<Rightarrow> bool" where
  "rcv_event_ok (RcvFirstFrame _ _ n _ _) \<longleftrightarrow> 0 < n \<and> n < 65536"
| "rcv_event_ok _ \<longleftrightarrow> True"

fun event_back :: "rcv_event \<Rightarrow> nat multiset" where
  "event_back (RcvMessageProcessed (h, _)) = {#h#}"
| "event_back _ = {#}"

lemma rcv_shutdown_ok:
  assumes E: "rx_env_ok E" and rest: "rcv_rest b s"
  shows "\<exists>s'. rcv_shutdown E s = Some s' \<and> rcv_rest b s'"
  unfolding rcv_shutdown_def
  by (rule rcv_guarded_ok [OF rest])
    (use rcv_shutdown_loop_ok [OF E] rcv_calm_ids in \<open>fastforce simp: rcv_same_def\<close>)

lemma rcv_processMessageReceivers_ok:
  assumes E: "rx_env_ok E" and rest: "rcv_rest b s"
  shows "\<exists>s'. rcv_processMessageReceivers E s = Some s' \<and> rcv_rest b s'"
  unfolding rcv_processMessageReceivers_def
  by (rule rcv_guarded_ok [OF rest])
    (use rcv_process_loop_ok [OF E] rcv_calm_ids in \<open>fastforce simp: rcv_same_def\<close>)

lemma rcv_rest_sort:
  assumes "rcv_rest b s" and "mset l = mset (rcv_list s)"
  shows "rcv_rest b (s\<lparr>rcv_list := l, rcv_timersUpdated := x\<rparr>)"
proof -
  have "distinct (map fst l) = distinct (map fst (rcv_list s))"
    using assms(2) by (metis mset_map mset_eq_imp_distinct_iff)
  moreover have "slot_sum held l = slot_sum held (rcv_list s)"
    using assms(2) unfolding slot_sum_def by (metis mset_map sum_mset_sum_list)
  moreover have "set l = set (rcv_list s)" "length l = length (rcv_list s)"
    using assms(2) mset_eq_setD mset_eq_length by blast+
  ultimately show ?thesis using assms(1) by (simp add: rcv_rest_def rcv_wf_def)
qed

lemma rcv_cyclicTask_ok:
  assumes E: "rx_env_ok E" and rest: "rcv_rest b s"
  shows "\<exists>s'. rcv_cyclicTask E now s = Some s' \<and> rcv_rest b s'"
proof -
  have "\<exists>s1. rcv_guarded (\<lambda>s. rcv_cyclic_loop E now (map fst (rcv_list s)) s) s = Some s1 \<and> rcv_rest b s1"
    by (rule rcv_guarded_ok [OF rest])
      (use rcv_cyclic_loop_ok [OF E] rcv_calm_ids in \<open>fastforce simp: rcv_same_def\<close>)
  moreover have "mset (env_sort E l) = mset l" for l using E by (simp add: rx_env_ok_def)
  ultimately show ?thesis
    using rcv_rest_sort by (auto simp: rcv_cyclicTask_def)
qed

lemma rcv_firstDataFrameReceived_ok:
  assumes E: "rx_env_ok E" and rest: "rcv_rest b s" and n: "0 < n" "n < 65536"
  shows "\<exists>s'. rcv_firstDataFrameReceived E conn msize n cfSize data s = Some s' \<and> rcv_rest b s'"
proof (cases "n > 1 \<and> cn_transmissionAddress conn = INVALID_ADDRESS
    \<or> length (rcv_list s) = rcv_poolSize s")
  case True
  then show ?thesis using rest by (auto simp: rcv_firstDataFrameReceived_def)
next
  case False
  then have eq: "(n > 1 \<and> cn_transmissionAddress conn = INVALID_ADDRESS) = False"
    "(\<not> length (rcv_list s) = rcv_poolSize s) = True" by auto
  have "length (rcv_list s) \<le> rcv_poolSize s" using rest by (simp add: rcv_rest_def rcv_wf_def)
  with False have len: "length (rcv_list s) < rcv_poolSize s" by auto
  show ?thesis
    unfolding rcv_firstDataFrameReceived_def eq if_False if_True
  proof (rule rcv_guarded_ok [OF rest])
    fix s1 assume s1: "s1 = s\<lparr>rcv_removeLockCount := 1\<rparr>" and calm: "rcv_calm (map fst (rcv_list s1)) b s1"
    obtain bl s2 where s2: "rcv_handlePending E (cn_receptionAddress conn) (map fst (rcv_list s1)) False s1 =
        Some (bl, s2)" "rcv_calm [] b s2" "rcv_same s1 s2"
      using rcv_handlePending_ok [OF E calm] rcv_calm_ids [OF calm] by blast
    have "length (map fst (rcv_list s2)) = length (map fst (rcv_list s1))"
      using s2(3) by (simp only: rcv_same_def)
    then have len2: "length (rcv_list s2) < rcv_poolSize s2"
      using s2(3) s1 len by (simp add: rcv_same_def)
    have par2: "maxAllocateRetryCount (rcv_params s2) < 255" "rcv_removeLockCount s2 = 1"
      using s2 s1 by (simp_all add: rcv_same_def rcv_calm_def rcv_wf_def)
    have calm1: "rcv_calm [] b s1" "rcv_removeLockCount s1 = 1"
      using calm s1 by (auto simp: rcv_calm_def)
    let ?r = "mr_new conn msize n cfSize (maxBlockSize (rcv_params s2))
      (encodedMinSeparationTime (rcv_params s2)) data bl"
    obtain res s3 s4 where "rcv_handleTransition E (rcv_nextSlot s2)
          (s2\<lparr>rcv_nextSlot := rcv_nextSlot s2 + 1, rcv_list := rcv_list s2 @ [(rcv_nextSlot s2, ?r)]\<rparr>) =
        Some (res, s3)"
      "rcv_handleTransitions E (rcv_nextSlot s2) res s3 = Some s4" "rcv_calm [] b s4"
      "rcv_removeLockCount s4 = rcv_removeLockCount s2"
      using rcv_first_ok [OF E s2(2) len2 refl n par2(1) refl] by blast
    then show "\<exists>s2. (if length data \<le> rcv_maxFirstFrameDataSize s1
      then do {
        (blocked, s) \<leftarrow> rcv_handlePending E (cn_receptionAddress conn) (map fst (rcv_list s1)) False s1;
        let i = rcv_nextSlot s;
        let s = s\<lparr>rcv_nextSlot := i + 1,
                  rcv_list := rcv_list s @ [(i, mr_new conn msize n cfSize (maxBlockSize (rcv_params s))
                    (encodedMinSeparationTime (rcv_params s)) data blocked)]\<rparr>;
        (result, s) \<leftarrow> rcv_handleTransition E i s;
        rcv_handleTransitions E i result s }
      else Some s1) = Some s2 \<and> rcv_calm [] b s2 \<and> rcv_removeLockCount s2 = 1"
      using s2(1) par2(2) calm1 by (simp add: Let_def)
  qed
qed

lemma rx_consecutive_resting:
  assumes "rx_state p = RS_WAIT \<or> rx_state p = RS_SEND"
  shows "rr_transition (fst (rx_consecutiveFrameReceived sn bs p))
      \<or> rx_state (snd (rx_consecutiveFrameReceived sn bs p)) = rx_state p"
    and "rx_state (snd (rx_consecutiveFrameReceived sn bs p)) = RS_DONE
      \<or> rx_isAllocating (snd (rx_consecutiveFrameReceived sn bs p)) = rx_isAllocating p"
  by (auto simp: rx_ops Let_def)

lemma mr_consecutive_ok:
  assumes inv: "mr_inv k r" and rs: "mr_resting r" and msg: "mr_message r \<noteq> None"
    and len: "n \<le> length data"
  obtains res r' where "mr_consecutiveFrameReceived sn n data r = Some (res, r')" "mr_inv k r'"
    "held r' = held r" "rr_transition res \<or> mr_resting r'"
proof -
  let ?f = "rx_consecutiveFrameReceived sn (mr_maxBlockSize r)"
  obtain h m where hm: "mr_message r = Some (h, m)" using msg by auto
  have wf: "tm_wf m" using inv hm by (auto simp: mr_inv_def)
  note c = rx_consecutive_resting [OF rs [unfolded mr_resting_def], of sn "mr_maxBlockSize r"]
  have nd: "\<not> mr_isDone r" by (rule resting_not_done [OF rs])
  have rxi: "rx_inv k (mr_maxBlockSize r) (snd (?f (mr_protocol r)))"
    using inv rx_inv_consecutive by (simp add: mr_inv_def)
  have ml: "mr_inv k (snd (mr_lift ?f r))"  "held (snd (mr_lift ?f r)) = held r"
    using mr_inv_lift [where f = ?f, OF inv rxi] c(2) nd by auto
  have res: "rr_transition (fst (mr_lift ?f r)) \<or> mr_resting (snd (mr_lift ?f r))"
    using c(1) rs by (auto simp: mr_lift_eq mr_resting_def)
  show thesis
  proof (cases "mr_isDone (snd (mr_lift ?f r))")
    case True
    then have "mr_consecutiveFrameReceived sn n data r = Some (mr_lift ?f r)"
      by (simp add: mr_consecutiveFrameReceived_def mr_lift_eq mr_isDone_def)
    then show thesis using that ml res by (metis prod.collapse)
  next
    case False
    obtain e m2 where m2: "tm_append data n m = Some (e, m2)" "tm_wf m2"
      using tm_append_wf [OF wf len] by metis
    let ?r = "(snd (mr_lift ?f r))\<lparr>mr_message := Some (h, m2)\<rparr>"
    have run: "mr_consecutiveFrameReceived sn n data r = Some (fst (mr_lift ?f r), ?r)"
      using False m2 hm by (simp add: mr_consecutiveFrameReceived_def mr_lift_eq mr_isDone_def)
    show thesis
      by (rule that [OF run]) (use ml res False hm m2 in \<open>auto simp: mr_inv_def mr_isDone_def held_def mr_lift_eq mr_resting_def\<close>)
  qed
qed

lemma rcv_consecutiveDataFrameReceived_ok:
  assumes E: "rx_env_ok E" and rest: "rcv_rest b s"
  shows "\<exists>s'. rcv_consecutiveDataFrameReceived E a sn data s = Some s' \<and> rcv_rest b s'"
proof (cases "rcv_findMessageReceiver a s")
  case None
  then show ?thesis using rest by (simp add: rcv_consecutiveDataFrameReceived_def)
next
  case (Some i)
  then obtain x where "find (\<lambda>(_, r). cn_receptionAddress (mr_connection r) = a) (rcv_list s) = Some (i, x)"
    by (auto simp: rcv_findMessageReceiver_def)
  then have "(i, x) \<in> set (rcv_list s)" by (metis find_Some_iff nth_mem)
  then obtain r where r: "rcv_get i s = Some r" "(i, r) \<in> set (rcv_list s)"
    unfolding rcv_get_def by (metis map_of_SomeD weak_map_of_SomeI)
  have rs: "mr_resting r" using rest r(2) by (auto simp: rcv_rest_def)
  have wf: "rcv_wf b s" using rest by (simp add: rcv_rest_def)
  show ?thesis
  proof (cases "mr_message r")
    case None
    then show ?thesis
      using Some r(1) rest by (simp add: rcv_consecutiveDataFrameReceived_def isConsecutiveFrameExpected_def)
  next
    case (Some hm)
    then obtain n where n: "getExpectedConsecutiveFrameDataSize r = Some n"
      by (cases hm) (simp add: getExpectedConsecutiveFrameDataSize_def)
    show ?thesis
    proof (cases "length data < n")
      case True
      then show ?thesis using \<open>rcv_findMessageReceiver a s = Some i\<close> r(1) rest n Some
        by (simp add: rcv_consecutiveDataFrameReceived_def isConsecutiveFrameExpected_def)
    next
      case False
      obtain res r' where r': "mr_consecutiveFrameReceived sn n data r = Some (res, r')"
        "mr_inv (maxAllocateRetryCount (rcv_params s)) r'" "held r' = held r" "rr_transition res \<or> mr_resting r'"
        using mr_consecutive_ok [OF rcv_wf_get [OF wf r(1)] rs, of n data sn] Some False by auto
      have run: "rcv_consecutiveDataFrameReceived E a sn data s = rcv_guarded
          (\<lambda>s. rcv_handleTransitions E i res (rcv_put i r' s)) s"
        using \<open>rcv_findMessageReceiver a s = Some i\<close> r(1) rest n Some False r'(1)
        by (cases hm) (simp add: rcv_consecutiveDataFrameReceived_def isConsecutiveFrameExpected_def)
      show ?thesis
        unfolding run
      proof (rule rcv_guarded_ok [OF rest])
        fix s1 assume s1: "s1 = s\<lparr>rcv_removeLockCount := 1\<rparr>" and calm: "rcv_calm (map fst (rcv_list s1)) b s1"
        have calm1: "rcv_calm [i] b s1" using calm r(2) s1 by (force simp: rcv_calm_def)
        have g: "rcv_get i s1 = Some r" "rcv_params s1 = rcv_params s" "rcv_wf b s1"
          using r(1) s1 calm by (simp_all add: rcv_get_def rcv_calm_def)
        have st: "rcv_step_ok b i s1 r (rcv_put i r' s1) r'"
          by (rule rcv_step_ok_put [OF g(3,1)]) (use r' g in simp_all)
        obtain s2 r2 where "rcv_handleTransitions E i res (rcv_put i r' s1) = Some s2" "rcv_calm [] b s2"
          "rcv_same s1 s2" "rcv_get i s2 = Some r2"
          by (rule rcv_visit_ok [OF E calm1 _ g(1) st r'(4)]) auto
        then show "\<exists>s2. rcv_handleTransitions E i res (rcv_put i r' s1) = Some s2
            \<and> rcv_calm [] b s2 \<and> rcv_removeLockCount s2 = 1"
          using s1 by (auto simp: rcv_same_def)
      qed
    qed
  qed
qed

text \<open>Giving back a message adds to the ledger on both sides.\<close>

lemma rcv_transportMessageProcessed_ok:
  assumes "rcv_rest b s"
  shows "rcv_rest (b + {#fst m#}) (rcv_transportMessageProcessed m s)"
  using assms
  by (cases m) (simp add: rcv_transportMessageProcessed_def rcv_call_def rcv_rest_def rcv_wf_def
      obtained_append given_append obtained_def given_def)

lemma rcv_handle_ok:
  assumes E: "rx_env_ok E" and rest: "rcv_rest b s" and e: "rcv_event_ok e"
  shows "\<exists>s'. rcv_handle E e s = Some s' \<and> rcv_rest (b + event_back e) s'"
proof (cases e)
  case (RcvFirstFrame conn msize n cfSize data)
  then show ?thesis using rcv_firstDataFrameReceived_ok [OF E rest] e by simp
next
  case (RcvConsecutiveFrame a sn data)
  then show ?thesis using rcv_consecutiveDataFrameReceived_ok [OF E rest] by simp
next
  case (RcvCyclicTask now)
  then show ?thesis using rcv_cyclicTask_ok [OF E rest] by simp
next
  case RcvProcessReceivers
  then show ?thesis using rcv_processMessageReceivers_ok [OF E rest] by simp
next
  case (RcvMessageProcessed m)
  then show ?thesis using rcv_transportMessageProcessed_ok [OF rest, of m] by (cases m) simp
next
  case RcvShutdown
  then show ?thesis using rcv_shutdown_ok [OF E rest] by simp
qed

fun rcv_run :: "rx_env \<Rightarrow> rcv_event list \<Rightarrow> receiver \<Rightarrow> receiver option" where
  "rcv_run E [] s = Some s"
| "rcv_run E (e # es) s = do { s \<leftarrow> rcv_handle E e s; rcv_run E es s }"

definition given_back :: "rcv_event list \<Rightarrow> nat multiset" where
  "given_back es = sum_list (map event_back es)"

lemma rcv_run_ok:
  assumes E: "rx_env_ok E"
  shows "rcv_rest b s \<Longrightarrow> \<forall>e \<in> set es. rcv_event_ok e \<Longrightarrow>
    \<exists>s'. rcv_run E es s = Some s' \<and> rcv_rest (b + given_back es) s'"
proof (induction es arbitrary: b s)
  case (Cons e es)
  obtain s1 where s1: "rcv_handle E e s = Some s1" "rcv_rest (b + event_back e) s1"
    using rcv_handle_ok [OF E Cons.prems(1)] Cons.prems(2) by auto
  then show ?case using Cons.IH [OF s1(2)] Cons.prems(2) by (simp add: given_back_def ac_simps)
qed (simp add: given_back_def)

lemma rcv_rest_new:
  "n \<le> 255 \<Longrightarrow> maxAllocateRetryCount p < 255 \<Longrightarrow> rcv_rest {#} (rcv_new n m p)"
  by (simp add: rcv_rest_def rcv_wf_def rcv_new_def obtained_def given_def)

text \<open>A finished receiver is released at once.\<close>

lemma rcv_done_ok:
  assumes wf: "rcv_wf b s" and r: "rcv_get i s = Some r" and d: "mr_isDone r" and p: "rcv_pending 1 s"
    and t: "rr_transition res"
  shows "\<exists>s' r'. rcv_handleTransitions E i res s = Some s' \<and> rcv_get i s' = Some r' \<and> mr_gone r'"
proof -
  obtain s1 r1 where s1: "rcv_handleResult E i res s = Some s1" "rcv_step_ok b i s r s1 r1"
    "mr_protocol r1 = mr_protocol r"
    by (rule rcv_handleResult_ok [OF wf r t])
  then have w1: "rcv_wf b s1" "rcv_get i s1 = Some r1" "mr_isDone r1" "done1 r1 = 1" "done1 r = 1"
    using d by (simp_all add: rcv_step_ok_def mr_isDone_def done1_def)
  have p1: "rcv_pending 1 s1" using rcv_step_pending [OF s1(2)] p w1 by simp
  have "slot_sum done1 (rcv_list s1) \<le> 255"
    using done1_sum_le [of "rcv_list s1"] w1(1) by (simp add: rcv_wf_def)
  then have "rcv_releasedReceiverCount s1 < 255" using p1 by (simp add: rcv_pending_def)
  then obtain s2 r2 where s2: "rcv_release i s1 = Some (rx_result False, s2)"
    "rcv_get i s2 = Some r2" "mr_gone r2"
    by (rule rcv_release_ok [OF w1(1-3)])
  have "rcv_handleTransition E i s1 = Some (rx_result False, s2)"
    using s2(1) w1 by (simp add: rcv_handleTransition_def mr_isDone_def)
  then have "rcv_handleTransitions E i res s = rcv_handleTransitions E i (rx_result False) s2"
    using t s1(1) by (subst rcv_handleTransitions.simps) simp
  also have "\<dots> = Some s2" by (subst rcv_handleTransitions.simps) (simp add: rx_result_def)
  finally show ?thesis using s2 by blast
qed

end
