(* ===== verification/DocanReceiverProps.thy ===== *)
theory DocanReceiverProps imports DocanReceiverCorrect begin

text \<open>
  What the receiver guarantees over whole runs: it survives every sequence of calls, accounts
  for every transport message and releases everything on shutdown; and a state, reached in a
  run, in which its time-outs are no longer served.
\<close>


lemma rcv_frame_gone:
  assumes "rcv_frame i s s'" "j \<noteq> i" "rcv_get j s' = Some r'"
  obtains r where "rcv_get j s = Some r" "mr_resting r' = mr_resting r" "mr_gone r' = mr_gone r"
  by (rule rcv_frame_state [OF assms])

text \<open>A shutdown finishes every receiver it visits.\<close>

lemma rcv_shutdown_loop_gone:
  assumes E: "rx_env_ok E"
  shows "rcv_calm is b s \<Longrightarrow> distinct is \<Longrightarrow> set is \<subseteq> fst ` set (rcv_list s) \<Longrightarrow>
    rcv_shutdown_loop E is s = Some s' \<Longrightarrow> rcv_get j s' = Some r \<Longrightarrow>
    mr_gone r \<or> j \<notin> set is \<and> (\<exists>r0. rcv_get j s = Some r0 \<and> mr_gone r0 = mr_gone r)"
proof (induction "is" arbitrary: s)
  case (Cons i "is")
  obtain r0 where r: "rcv_get i s = Some r0" "mr_resting r0" "\<not> mr_isDone r0"
    using rcv_calm_member [OF Cons.prems(1)] Cons.prems(3) by auto
  have wf: "rcv_wf b s" using Cons.prems(1) by (simp add: rcv_calm_def)
  have c: "rx_shutdown (mr_protocol r0) = rx_cancel (mr_protocol r0)"
    using r(2) by (auto simp: rx_shutdown_def mr_resting_def)
  obtain s1 where s1: "rcv_lift i rx_shutdown s = Some (fst (rx_shutdown (mr_protocol r0)), s1)"
    "rcv_step_ok b i s r0 s1 (snd (mr_lift rx_shutdown r0))"
    using rcv_lift_ok [OF wf r(1), of rx_shutdown] rx_inv_shutdown [OF rcv_wf_inv [OF wf r(1)]] c
    by (auto simp: rx_cancel_def rx_setDone_def)
  let ?res = "fst (rx_shutdown (mr_protocol r0))" and ?r1 = "snd (mr_lift rx_shutdown r0)"
  have t: "rr_transition ?res" "mr_isDone ?r1"
    by (simp_all add: c rx_cancel_def rx_setDone_def rx_result_message_def mr_isDone_def mr_lift_eq)
  obtain s2 r2 where s2: "rcv_handleTransitions E i ?res s1 = Some s2"
    "rcv_calm is b s2" "rcv_same s s2" "rcv_get i s2 = Some r2"
    using rcv_visit_ok [OF E Cons.prems(1) _ r(1) s1(2)] Cons.prems(2) t by auto
  have w1: "rcv_wf b s1" "rcv_get i s1 = Some ?r1" "rcv_frame i s s1"
    using s1(2) by (simp_all add: rcv_step_ok_def)
  have p1: "rcv_pending 1 s1"
    using rcv_step_pending [OF s1(2)] Cons.prems(1) r(3) t(2) by (simp add: rcv_calm_def done1_def)
  have g2: "mr_gone r2" using rcv_done_ok [OF w1(1,2) t(2) p1 t(1), of E] s2(1,4) by auto
  have "rcv_handleTransitions E i ?res s1 = Some s2 \<Longrightarrow> rcv_frame i s1 s2"
    using rcv_handleTransitions_ok [OF E w1(1,2), of ?res] t p1 by (auto simp: done1_def)
  then have fr: "rcv_frame i s s2" using s2(1) w1(3) rcv_frame_trans by blast
  have "rcv_shutdown_loop E is s2 = Some s'" using Cons.prems(4) s1(1) s2(1) by simp
  moreover have "distinct is" "set is \<subseteq> fst ` set (rcv_list s2)"
    using Cons.prems(2,3) rcv_same_ids [OF s2(3)] by auto
  ultimately have ih: "mr_gone r \<or> j \<notin> set is \<and> (\<exists>r0. rcv_get j s2 = Some r0 \<and> mr_gone r0 = mr_gone r)"
    using Cons.IH [OF s2(2)] Cons.prems(5) by blast
  show ?case
  proof (cases "j = i")
    case True then show ?thesis using ih s2(4) g2 by auto
  next
    case False then show ?thesis using ih rcv_frame_gone [OF fr False] by (metis set_ConsD)
  qed
qed auto

lemma rcv_shutdown_empty:
  assumes E: "rx_env_ok E" and rest: "rcv_rest b s"
  shows "\<exists>s'. rcv_shutdown E s = Some s' \<and> rcv_rest b s' \<and> rcv_list s' = []"
proof -
  let ?s1 = "s\<lparr>rcv_removeLockCount := 1\<rparr>"
  have calm: "rcv_calm (map fst (rcv_list ?s1)) b ?s1"
    using rcv_rest_calm [OF rest] by (simp add: rcv_calm_def rcv_wf_def rcv_pending_def)
  note ids = rcv_calm_ids [OF calm]
  obtain s2 where s2: "rcv_shutdown_loop E (map fst (rcv_list ?s1)) ?s1 = Some s2"
    "rcv_calm [] b s2" "rcv_same ?s1 s2"
    using rcv_shutdown_loop_ok [OF E calm] ids by blast
  obtain s3 where s3: "rcv_releaseRemoveLock s2 = Some s3" "rcv_rest b s3"
    "rcv_list s3 = filter (\<lambda>(_, r). mr_resting r) (rcv_list s2)"
    using rcv_releaseRemoveLock_ok [OF s2(2)] s2(3) by (auto simp: rcv_same_def)
  have "\<not> mr_resting r" if "(j, r) \<in> set (rcv_list s2)" for j r
  proof -
    have "rcv_get j s2 = Some r" using that s2(2) by (simp add: rcv_calm_def rcv_wf_def rcv_get_def)
    moreover have "j \<in> set (map fst (rcv_list ?s1))"
      using that rcv_same_ids [OF s2(3)] by force
    ultimately have "mr_gone r" using rcv_shutdown_loop_gone [OF E calm _ _ s2(1)] ids by blast
    then show ?thesis using resting_not_done by (auto simp: mr_gone_def)
  qed
  then have "rcv_list s3 = []" unfolding s3(3) by (auto simp: filter_empty_conv)
  moreover have "rcv_shutdown E s = Some s3"
    using s2(1) s3(1) rest by (simp add: rcv_shutdown_def rcv_guarded_def rcv_setRemoveLock_def rcv_rest_def)
  ultimately show ?thesis using s3(2) by blast
qed

section \<open>Properties\<close>

text \<open>An environment to compute with: fresh messages, a clock that counts calls, insertion sort.\<close>

fun insert_by_timer :: "nat \<times> message_receiver \<Rightarrow> (nat \<times> message_receiver) list \<Rightarrow> (nat \<times> message_receiver) list" where
  "insert_by_timer x [] = [x]"
| "insert_by_timer x (y # ys) = (if mr_less (snd y) (snd x) then y # insert_by_timer x ys else x # y # ys)"

definition demo_rx_env :: "(rx_call list \<Rightarrow> bool) \<Rightarrow> rx_env" where
  "demo_rx_env sent =
     \<lparr>env_getTransportMessage = (\<lambda>tr _ _ n _.
        if n \<le> 65535 then (TPMSG_OK, Some (length tr, tm_new (replicate n 0)))
        else (TPMSG_SIZE_TOO_LARGE, None)),
      env_messageReceived = (\<lambda>_. True), env_sendFlowControl = sent,
      env_nowUs = (\<lambda>tr. of_nat (length tr)), env_sort = (\<lambda>l. foldr insert_by_timer l [])\<rparr>"

lemma mset_insert_by_timer: "mset (insert_by_timer x l) = mset (x # l)"
  by (induction l) auto

lemma demo_rx_env_ok: "rx_env_ok (demo_rx_env sent)"
proof -
  have "mset (foldr insert_by_timer l []) = mset l" for l
    by (induction l) (simp_all add: mset_insert_by_timer)
  then show ?thesis
    by (auto simp: rx_env_ok_def demo_rx_env_def tm_wf_def tm_new_def split: if_splits)
qed

definition demo_params :: params where
  "demo_params = \<lparr>waitAllocateTimeout = 100, waitRxTimeout = 1000, waitTxCallbackTimeout = 1000,
     waitFlowControlTimeout = 1000, encodedMinSeparationTime = 0, maxBlockSize = 0,
     maxAllocateRetryCount = 5, maxFlowControlWaitCount = 5\<rparr>"

definition demo_connection :: "address \<Rightarrow> connection" where
  "demo_connection a = \<lparr>cn_codec = OPTIMIZED_CLASSIC, cn_receptionAddress = a,
     cn_transmissionAddress = a + 1, cn_sourceId = 1, cn_targetId = 2\<rparr>"

definition demo_new :: receiver where "demo_new = rcv_new 4 8 demo_params"


lemma rcv_handleTransitions_stop: "\<not> rr_transition res \<Longrightarrow> rcv_handleTransitions E i res s = Some s"
  by (subst rcv_handleTransitions.simps) simp

lemma rcv_handleTransitions_go:
  "rr_transition res \<Longrightarrow> rcv_handleTransitions E i res s = do {
     s \<leftarrow> rcv_handleResult E i res s;
     (res, s) \<leftarrow> rcv_handleTransition E i s;
     rcv_handleTransitions E i res s }"
  by (subst rcv_handleTransitions.simps) simp

lemmas rcv_eval =
  demo_new_def demo_rx_env_def demo_params_def demo_connection_def rcv_new_def
  rcv_firstDataFrameReceived_def rcv_consecutiveDataFrameReceived_def rcv_cyclicTask_def rcv_processMessageReceivers_def
  rcv_guarded_def rcv_setRemoveLock_def rcv_releaseRemoveLock_def rcv_handleTransition_def rcv_allocateTransportMessage_def
  rcv_handleTransitions_stop rcv_handleTransitions_go rcv_handleResult_def rcv_resetTimer_def rcv_get_def rcv_put_def rcv_call_def
  rcv_lift_def rcv_sendFlowControlFrame_def rcv_startProcessing_def rcv_release_def mr_isDone_def slot_put_def
  mr_new_def mr_lift_def mr_allocated_def rx_ops rx_new_def isFlowControlWait_def tm_append_def tm_new_def setPayloadLength_def
  resetValidBytes_def getMaxPayloadLength_def increaseValidBytes_def mr_setTimer_def mr_updateTimer_def mr_less_def
  timerExpired_def time_less_def INVALID_ADDRESS_def to_u8_def to_u16_def mem_copy_def ms_to_us_def


text \<open>C3: Take a pool of at most 255 receivers, a limit of fewer than 255 allocation retries, and an
environment that keeps its contract (the provider gives well-formed messages of the requested size,
sorting permutes; the flow control may be refused at any time). The receiver survives every sequence of first
frames of messages with between one and 65535 frames, consecutive frames, cyclic tasks, message notifications and
shutdowns: each call returns (no assertion fails, no transition loop runs forever, no removed receiver
is accessed) and leaves every receiver in the list either waiting or in the state in which its flow
control frame is still to be sent, where it stays when the frame was refused. The locks are free, no finished
receiver is left over, and the pool and the protocol handlers keep their invariants. The limit on the
retries is needed: with 255 the retry counter of eight bits wraps around.\<close>

theorem receiver_survives_every_run:
  assumes "rx_env_ok E" and "poolSize \<le> 255" and "maxAllocateRetryCount p < 255"
    and "\<forall>e \<in> set es. rcv_event_ok e"
  shows "\<exists>s. rcv_run E es (rcv_new poolSize maxFirst p) = Some s
    \<and> length (rcv_list s) \<le> rcv_poolSize s \<and> distinct (map fst (rcv_list s))
    \<and> rcv_removeLockCount s = 0 \<and> rcv_releasedReceiverCount s = 0
    \<and> (\<forall>(i, r) \<in> set (rcv_list s). rx_state (mr_protocol r) \<in> {RS_WAIT, RS_SEND}
         \<and> rx_inv (maxAllocateRetryCount (rcv_params s)) (mr_maxBlockSize r) (mr_protocol r)
         \<and> (mr_message r = None \<longleftrightarrow> rx_isAllocating (mr_protocol r)))"
proof -
  obtain s where s: "rcv_run E es (rcv_new poolSize maxFirst p) = Some s" "rcv_rest ({#} + given_back es) s"
    using rcv_run_ok [OF assms(1) rcv_rest_new [OF assms(2,3)] assms(4)] by blast
  have "rx_state (mr_protocol r) \<in> {RS_WAIT, RS_SEND}
      \<and> rx_inv (maxAllocateRetryCount (rcv_params s)) (mr_maxBlockSize r) (mr_protocol r)
      \<and> (mr_message r = None \<longleftrightarrow> rx_isAllocating (mr_protocol r))" if "(i, r) \<in> set (rcv_list s)" for i r
  proof -
    have "mr_inv (maxAllocateRetryCount (rcv_params s)) r" "mr_resting r"
      using s(2) that by (auto simp: rcv_rest_def rcv_wf_def)
    then show ?thesis using resting_not_done [of r] by (auto simp: mr_inv_def mr_resting_def)
  qed
  then show ?thesis using s by (auto simp: rcv_rest_def rcv_wf_def)
qed

text \<open>C4: No transport message is lost or kept twice: in every run, under the conditions of the property
before, the messages obtained from
the provider together with those the application gave back are exactly the messages handed on,
those returned to the provider, and those receivers still hold.\<close>

theorem transport_messages_accounted:
  assumes "rx_env_ok E" and "poolSize \<le> 255" and "maxAllocateRetryCount p < 255"
    and "\<forall>e \<in> set es. rcv_event_ok e"
  shows "\<exists>s. rcv_run E es (rcv_new poolSize maxFirst p) = Some s
    \<and> obtained (rcv_trace s) + given_back es = given (rcv_trace s) + slot_sum held (rcv_list s)"
proof -
  obtain s where "rcv_run E es (rcv_new poolSize maxFirst p) = Some s" "rcv_rest ({#} + given_back es) s"
    using rcv_run_ok [OF assms(1) rcv_rest_new [OF assms(2,3)] assms(4)] by blast
  then show ?thesis by (simp add: rcv_rest_def rcv_wf_def)
qed

text \<open>A shutdown ends every reception: afterwards the pool is empty and every message the
receiver ever obtained has been handed on or returned.\<close>

theorem receiver_shutdown_releases_everything:
  assumes "rx_env_ok E" and "poolSize \<le> 255" and "maxAllocateRetryCount p < 255"
    and "\<forall>e \<in> set es. rcv_event_ok e"
  shows "\<exists>s. rcv_run E (es @ [RcvShutdown]) (rcv_new poolSize maxFirst p) = Some s
    \<and> rcv_list s = [] \<and> obtained (rcv_trace s) + given_back es = given (rcv_trace s)"
proof -
  obtain s where s: "rcv_run E es (rcv_new poolSize maxFirst p) = Some s" "rcv_rest ({#} + given_back es) s"
    using rcv_run_ok [OF assms(1) rcv_rest_new [OF assms(2,3)] assms(4)] by blast
  have app: "rcv_run E (xs @ ys) t = Option.bind (rcv_run E xs t) (rcv_run E ys)" for xs ys t
    by (induction xs arbitrary: t) (auto split: Option.bind_splits)
  obtain s' where "rcv_shutdown E s = Some s'" "rcv_rest ({#} + given_back es) s'" "rcv_list s' = []"
    using rcv_shutdown_empty [OF assms(1) s(2)] by blast
  then show ?thesis using s(1) by (simp add: app rcv_rest_def rcv_wf_def)
qed

text \<open>The runs of the witnesses: two segmented receptions, the second without a flow control.\<close>

definition demo_events :: "rcv_event list" where
  "demo_events = [RcvFirstFrame (demo_connection 0x10) 10 2 7 [1, 2, 3, 4, 5, 6],
     RcvFirstFrame (demo_connection 0x20) 10 2 7 [1, 2, 3, 4, 5, 6], RcvCyclicTask 10, RcvCyclicTask 20]"

abbreviation demo_busy :: rx_env where
  "demo_busy \<equiv> demo_rx_env (\<lambda>tr. length tr < 3)"

lemma demo_events_ok: "\<forall>e \<in> set demo_events. rcv_event_ok e"
  by (simp add: demo_events_def)

lemma demo_bounds: "(4 :: nat) \<le> 255" "maxAllocateRetryCount demo_params < 255"
  by (simp_all add: demo_params_def)

theorem receiver_survives_every_run_witness:
  "\<exists>s. rcv_run demo_busy demo_events (rcv_new 4 8 demo_params) = Some s \<and> rcv_removeLockCount s = 0"
  using receiver_survives_every_run [OF demo_rx_env_ok demo_bounds demo_events_ok, of _ 8] by blast

theorem transport_messages_accounted_witness:
  "\<exists>s. rcv_run demo_busy demo_events (rcv_new 4 8 demo_params) = Some s
    \<and> obtained (rcv_trace s) = given (rcv_trace s) + slot_sum held (rcv_list s)"
  using transport_messages_accounted [OF demo_rx_env_ok demo_bounds demo_events_ok, of _ 8]
  by (simp add: demo_events_def given_back_def)

theorem receiver_shutdown_releases_everything_witness:
  "\<exists>s. rcv_run demo_busy (demo_events @ [RcvShutdown]) (rcv_new 4 8 demo_params) = Some s
    \<and> rcv_list s = []"
  using receiver_shutdown_releases_everything [OF demo_rx_env_ok demo_bounds demo_events_ok, of _ 8]
  by blast

lemma demo_run:
  "\<exists>s x r. rcv_run demo_busy demo_events (rcv_new 4 8 demo_params) = Some s
    \<and> rcv_list s = [(1, x), (0, r)] \<and> \<not> mr_isTimerSet x \<and> mr_isTimerSet r \<and> mr_timer r = 1000002
    \<and> rx_timeout (mr_protocol r) = RT_RX \<and> \<not> rcv_timersUpdated s"
  by (simp add: rcv_eval demo_events_def Let_def)

text \<open>Once the first receiver of the list has no timer and no timer was set since, the
cyclic task does nothing, whatever the time: receivers behind it are never timed out.\<close>

theorem unset_timer_starves_timeouts:
  assumes "rcv_rest b s" and "rcv_list s = (i, r) # l" and "\<not> mr_isTimerSet r"
    and "\<not> rcv_timersUpdated s"
  shows "rcv_cyclicTask E now s = Some s"
proof -
  have "rcv_get i s = Some r" using assms(2) by (simp add: rcv_get_def)
  then show ?thesis
    using assms by (cases s) (simp add: rcv_cyclicTask_def rcv_guarded_def rcv_setRemoveLock_def
        rcv_releaseRemoveLock_def rcv_rest_def mr_updateTimer_def rcv_get_def)
qed

text \<open>
  Such a state is reached: the flow control of the second reception cannot be sent, so its
  timer expires at once and is not set again, and the first reception, whose last frame was due
  after a second, still waits an hour later.
\<close>

theorem unset_timer_starves_timeouts_witness:
  "\<exists>s x r. rcv_run demo_busy demo_events (rcv_new 4 8 demo_params) = Some s
    \<and> rcv_list s = [(1, x), (0, r)] \<and> rx_timeout (mr_protocol r) = RT_RX
    \<and> mr_isTimerSet r \<and> timerExpired (mr_timer r) 1800000000
    \<and> rcv_cyclicTask demo_busy 1800000000 s = Some s"
proof -
  obtain s x r where s: "rcv_run demo_busy demo_events (rcv_new 4 8 demo_params) = Some s"
    "rcv_list s = [(1, x), (0, r)]" "\<not> mr_isTimerSet x" "mr_isTimerSet r" "mr_timer r = 1000002"
    "rx_timeout (mr_protocol r) = RT_RX" "\<not> rcv_timersUpdated s"
    using demo_run by blast
  have "rcv_rest ({#} + given_back demo_events) s"
    using rcv_run_ok [OF demo_rx_env_ok rcv_rest_new [OF demo_bounds] demo_events_ok, of "\<lambda>tr. length tr < 3" 8] s(1)
    by auto
  then have "rcv_cyclicTask demo_busy 1800000000 s = Some s"
    by (rule unset_timer_starves_timeouts [OF _ s(2,3,7)])
  moreover have "timerExpired (mr_timer r) 1800000000" by (simp add: s(5) timerExpired_def time_less_def)
  ultimately show ?thesis using s by blast
qed

end
