(* ===== verification/DocanTransmitter.thy ===== *)
theory DocanTransmitter imports DocanMessages begin

text \<open>
  The transmitter of the transport layer, \<^verbatim>\<open>DoCanTransmitter\<close>: a pool of message
  transmitters in a list, the round robin that hands their frames to the data link layer, the
  handlers of confirmations and flow controls, the cyclic task and the shutdown, with the lock
  that delays the removal and the notification of finished transmitters.

  As in the receiver, the interfaces it calls are a record of functions from the calls made so
  far, and the calls are recorded in a trace. Callbacks do not re-enter the transmitter: a
  \<^verbatim>\<open>send\<close> from a notification is the next event of the run.
\<close>

section \<open>Environment\<close>

datatype SendResult = SR_QUEUED | SR_QUEUED_FULL | SR_FULL | SR_INVALID | SR_FAILED

datatype ProcessingResult =
    PROCESSED_NO_ERROR | PROCESSED_ERROR_TIMEOUT | PROCESSED_ERROR_OVERFLOW
  | PROCESSED_ERROR_ABORT | PROCESSED_ERROR_GENERAL

datatype tx_call =
    StartSendDataFrames codec_config job_handle address u16 u16 nat "u8 list" SendResult
  | CancelSendDataFrames job_handle
  | TransportMessageProcessed nat message_ptr ProcessingResult
  | TickNeeded
  | ExecuteProcessTransmitters

record tx_env =
  env_getTransmissionParameters :: "u16 \<Rightarrow> u16 \<Rightarrow> (codec_config \<times> address \<times> address) option"
  env_startSendDataFrames ::
    "tx_call list \<Rightarrow> codec_config \<Rightarrow> job_handle \<Rightarrow> address \<Rightarrow> u16 \<Rightarrow> u16 \<Rightarrow> nat \<Rightarrow> u8 list \<Rightarrow> SendResult"
  env_txNowUs :: "tx_call list \<Rightarrow> u32"
  env_poolIndex :: "nat \<Rightarrow> u16"
  env_txSort :: "(nat \<times> message_transmitter) list \<Rightarrow> (nat \<times> message_transmitter) list"

section \<open>State\<close>

text \<open>The iterator \<open>tmt_sendIt\<close> is the slot it points to; \<open>None\<close> is the end of the list.\<close>

record transmitter =
  tmt_list :: "(nat \<times> message_transmitter) list"
  tmt_nextSlot :: nat
  tmt_poolSize :: nat
  tmt_sendIt :: "nat option"
  tmt_params :: params
  tmt_jobCounter :: u16
  tmt_removeLockCount :: nat
  tmt_releasedTransmitterCount :: nat
  tmt_sendingConsecutiveFramesCount :: nat
  tmt_sendLock :: bool
  tmt_pendingSend :: bool
  tmt_switchContext :: bool
  tmt_timersUpdated :: bool
  tmt_trace :: "tx_call list"

definition tmt_new :: "nat \<Rightarrow> params \<Rightarrow> transmitter" where
  "tmt_new poolSize p =
     \<lparr>tmt_list = [], tmt_nextSlot = 0, tmt_poolSize = poolSize, tmt_sendIt = None, tmt_params = p,
      tmt_jobCounter = 0, tmt_removeLockCount = 0, tmt_releasedTransmitterCount = 0,
      tmt_sendingConsecutiveFramesCount = 0, tmt_sendLock = False, tmt_pendingSend = False,
      tmt_switchContext = False, tmt_timersUpdated = False, tmt_trace = []\<rparr>"

definition tmt_init :: "transmitter \<Rightarrow> transmitter" where
  "tmt_init s = s\<lparr>tmt_jobCounter := 0, tmt_sendIt := None\<rparr>"

definition tmt_get :: "nat \<Rightarrow> transmitter \<Rightarrow> message_transmitter option" where
  "tmt_get i s = map_of (tmt_list s) i"

definition tmt_put :: "nat \<Rightarrow> message_transmitter \<Rightarrow> transmitter \<Rightarrow> transmitter" where
  "tmt_put i t s = s\<lparr>tmt_list := slot_put i t (tmt_list s)\<rparr>"

definition tmt_call :: "tx_call \<Rightarrow> transmitter \<Rightarrow> transmitter" where
  "tmt_call c s = s\<lparr>tmt_trace := tmt_trace s @ [c]\<rparr>"

definition mt_isDone :: "message_transmitter \<Rightarrow> bool" where
  "mt_isDone t \<longleftrightarrow> tx_isDone (mt_protocol t)"

definition tmt_isSendingConsecutiveFrames :: "transmitter \<Rightarrow> bool" where
  "tmt_isSendingConsecutiveFrames s \<longleftrightarrow> tmt_sendingConsecutiveFramesCount s > 0"

section \<open>Results of one message transmitter\<close>

definition tmt_nextTimer :: "params \<Rightarrow> u32 \<Rightarrow> message_transmitter \<Rightarrow> message_transmitter" where
  "tmt_nextTimer p nowUs t =
     (case tx_timeout (mt_protocol t) of
        TT_TX_CALLBACK \<Rightarrow> mt_setTimer (nowUs + ms_to_us (waitTxCallbackTimeout p)) False t
      | TT_FLOW_CONTROL \<Rightarrow> mt_setTimer (nowUs + ms_to_us (waitFlowControlTimeout p)) False t
      | TT_SEPARATION_TIME \<Rightarrow> mt_setTimer (nowUs + mt_minSeparationTimeUs t) True t
      | TT_NONE \<Rightarrow> mt_setTimer nowUs False t)"

definition tmt_resetTimer :: "tx_env \<Rightarrow> nat \<Rightarrow> transmitter \<Rightarrow> transmitter option" where
  "tmt_resetTimer E i s = do {
     let nowUs = env_txNowUs E (tmt_trace s);
     t \<leftarrow> tmt_get i s;
     s \<leftarrow> (if mt_isSendingConsecutiveFrames t
          then do {
            ensure (tmt_sendingConsecutiveFramesCount s \<noteq> 0);
            Some (s\<lparr>tmt_sendingConsecutiveFramesCount := tmt_sendingConsecutiveFramesCount s - 1\<rparr>) }
          else Some s);
     let t = tmt_nextTimer (tmt_params s) nowUs t;
     s \<leftarrow> (if mt_isSendingConsecutiveFrames t
          then do {
            ensure (tmt_sendingConsecutiveFramesCount s \<noteq> 255);
            Some (s\<lparr>tmt_sendingConsecutiveFramesCount := tmt_sendingConsecutiveFramesCount s + 1\<rparr>) }
          else Some s);
     Some (tmt_put i t s) }"

definition tmt_handleResult :: "tx_env \<Rightarrow> nat \<Rightarrow> tx_result \<Rightarrow> transmitter \<Rightarrow> transmitter option" where
  "tmt_handleResult E i result s =
     (if tr_transition result
      then do {
        s \<leftarrow> tmt_resetTimer E i s;
        t \<leftarrow> tmt_get i s;
        if mt_isDone t
        then do {
          let s = (if tr_cancelSend result
                   then (tmt_call (CancelSendDataFrames (mt_jobHandle t)) s)\<lparr>tmt_pendingSend := False\<rparr>
                   else s);
          let s = tmt_put i (mt_release t) s;
          ensure (tmt_releasedTransmitterCount s \<noteq> 255);
          Some (s\<lparr>tmt_releasedTransmitterCount := tmt_releasedTransmitterCount s + 1,
                  tmt_switchContext := True\<rparr>) }
        else Some (s\<lparr>tmt_timersUpdated := True\<rparr>) }
      else Some s)"

text \<open>\<open>handleResult(*it, it->f(...), ...)\<close>.\<close>

definition tmt_apply ::
  "tx_env \<Rightarrow> nat \<Rightarrow> (message_transmitter \<Rightarrow> tx_result \<times> message_transmitter) \<Rightarrow> transmitter \<Rightarrow> transmitter option" where
  "tmt_apply E i f s = do {
     t \<leftarrow> tmt_get i s;
     let (result, t) = f t;
     tmt_handleResult E i result (tmt_put i t s) }"

section \<open>Sending in turn\<close>

definition tmt_first :: "(nat \<times> 'a) list \<Rightarrow> nat option" where
  "tmt_first l = (case l of [] \<Rightarrow> None | (i, _) # _ \<Rightarrow> Some i)"

text \<open>The element after slot \<open>i\<close>, and the list read in a circle from slot \<open>i\<close>.\<close>

definition tmt_next :: "nat \<Rightarrow> (nat \<times> 'a) list \<Rightarrow> nat option" where
  "tmt_next i l = tmt_first (tl (dropWhile (\<lambda>(j, _). j \<noteq> i) l))"

definition tmt_circle :: "nat \<Rightarrow> (nat \<times> 'a) list \<Rightarrow> (nat \<times> 'a) list" where
  "tmt_circle i l = dropWhile (\<lambda>(j, _). j \<noteq> i) l @ takeWhile (\<lambda>(j, _). j \<noteq> i) l"

fun tmt_scan :: "(nat \<times> message_transmitter) list \<Rightarrow> nat option" where
  "tmt_scan [] = None"
| "tmt_scan ((i, t) # l) = (if tx_state (mt_protocol t) = TS_SEND then Some i else tmt_scan l)"

definition tmt_setSendLock :: "transmitter \<Rightarrow> nat option \<times> transmitter" where
  "tmt_setSendLock s =
     (if tmt_sendLock s \<or> tmt_pendingSend s then (None, s)
      else (case tmt_list s of
              [] \<Rightarrow> (None, s)
            | (first, _) # _ \<Rightarrow>
                let start = (case tmt_sendIt s of None \<Rightarrow> first | Some i \<Rightarrow> i)
                in (case tmt_scan (tmt_circle start (tmt_list s)) of
                      Some i \<Rightarrow> (Some i, s\<lparr>tmt_sendIt := Some i, tmt_sendLock := True\<rparr>)
                    | None \<Rightarrow> (None, s\<lparr>tmt_sendIt := Some start\<rparr>))))"

definition tmt_releaseSendLock :: "bool \<Rightarrow> transmitter \<Rightarrow> transmitter" where
  "tmt_releaseSendLock success s =
     (s\<lparr>tmt_sendIt := (case tmt_sendIt s of
                           None \<Rightarrow> None
                         | Some i \<Rightarrow> if success then tmt_next i (tmt_list s) else Some i),
        tmt_sendLock := False\<rparr>)"

partial_function (option) tmt_sendNextFrames :: "tx_env \<Rightarrow> transmitter \<Rightarrow> transmitter option" where
  "tmt_sendNextFrames E s =
     (case tmt_setSendLock s of
        (None, s) \<Rightarrow> Some (tmt_releaseSendLock False s)
      | (Some i, s) \<Rightarrow> do {
          t \<leftarrow> tmt_get i s;
          let first = tx_frameIndex (mt_protocol t);
          let blockEnd = (if mt_minSeparationTimeUs t = 0 then tx_blockEnd (mt_protocol t) else first + 1);
          data \<leftarrow> getSendData t;
          let result = env_startSendDataFrames E (tmt_trace s) (mt_codec t) (mt_jobHandle t)
            (mt_transmissionAddress t) first blockEnd (mt_consecutiveFrameDataSize t) data;
          let s = tmt_call (StartSendDataFrames (mt_codec t) (mt_jobHandle t)
            (mt_transmissionAddress t) first blockEnd (mt_consecutiveFrameDataSize t) data result) s;
          if result = SR_QUEUED \<or> result = SR_QUEUED_FULL
          then do {
            s \<leftarrow> tmt_apply E i (mt_lift tx_frameSending)
                   (s\<lparr>tmt_pendingSend := (result = SR_QUEUED_FULL)\<rparr>);
            tmt_sendNextFrames E (tmt_releaseSendLock True s) }
          else do {
            s \<leftarrow> (if result = SR_FAILED then tmt_apply E i (mt_lift tx_cancel) s else Some s);
            Some (tmt_releaseSendLock False s) } })"

section \<open>Removal lock\<close>

definition tmt_setRemoveLock :: "transmitter \<Rightarrow> transmitter option" where
  "tmt_setRemoveLock s = do {
     ensure (tmt_removeLockCount s \<noteq> 255);
     Some (s\<lparr>tmt_removeLockCount := tmt_removeLockCount s + 1\<rparr>) }"

text \<open>
  The removal of finished transmitters: the rest of the list, the removed ones with the last
  one first, the send iterator and the pending flag. Walking past the end is undefined.
\<close>

fun tmt_remove_walk ::
  "nat \<Rightarrow> (nat \<times> message_transmitter) list \<Rightarrow> nat option \<Rightarrow> bool \<Rightarrow>
   ((nat \<times> message_transmitter) list \<times> message_transmitter list \<times> nat option \<times> bool) option" where
  "tmt_remove_walk 0 l it pending = Some (l, [], it, pending)"
| "tmt_remove_walk (Suc k) [] it pending = None"
| "tmt_remove_walk (Suc k) ((i, t) # l) it pending =
     (if mt_isDone t
      then do {
        (kept, removed, it, pending) \<leftarrow>
          (if it = Some i then tmt_remove_walk k l (tmt_first l) False
           else tmt_remove_walk k l it pending);
        Some (kept, removed @ [t], it, pending) }
      else do {
        (kept, removed, it, pending) \<leftarrow> tmt_remove_walk (Suc k) l it pending;
        Some ((i, t) # kept, removed, it, pending) })"

definition tmt_processingResult :: "tx_protocol \<Rightarrow> ProcessingResult" where
  "tmt_processingResult p =
     (if tx_state p = TS_SUCCESS then PROCESSED_NO_ERROR
      else if tx_errorMessage p = TM_FLOW_CONTROL_TIMEOUT_EXPIRED then PROCESSED_ERROR_TIMEOUT
      else if tx_errorMessage p = TM_FLOW_CONTROL_OVERFLOW then PROCESSED_ERROR_OVERFLOW
      else if tx_errorMessage p = TM_FLOW_CONTROL_INVALID then PROCESSED_ERROR_ABORT
      else PROCESSED_ERROR_GENERAL)"

definition tmt_notification :: "message_transmitter \<Rightarrow> tx_call list" where
  "tmt_notification t =
     (case mt_notificationListener t of
        None \<Rightarrow> []
      | Some l \<Rightarrow> [TransportMessageProcessed l (mt_message t) (tmt_processingResult (mt_protocol t))])"

definition tmt_releaseRemoveLock :: "tx_env \<Rightarrow> bool \<Rightarrow> transmitter \<Rightarrow> transmitter option" where
  "tmt_releaseRemoveLock E remove s = do {
     s \<leftarrow> tmt_sendNextFrames E s;
     ensure (tmt_removeLockCount s \<noteq> 0);
     let s = s\<lparr>tmt_removeLockCount := tmt_removeLockCount s - 1\<rparr>;
     (removed, s) \<leftarrow>
       (if remove \<and> tmt_removeLockCount s = 0
        then do {
          (kept, removed, it, pending) \<leftarrow> tmt_remove_walk (tmt_releasedTransmitterCount s)
            (tmt_list s) (tmt_sendIt s) (tmt_pendingSend s);
          Some (removed, s\<lparr>tmt_list := kept, tmt_sendIt := it, tmt_pendingSend := pending,
                           tmt_releasedTransmitterCount := 0\<rparr>) }
        else Some ([], s));
     let switchContext = tmt_switchContext s;
     let s = s\<lparr>tmt_switchContext := False,
               tmt_trace := tmt_trace s @ concat (map tmt_notification removed)\<rparr>;
     Some (if switchContext then tmt_call ExecuteProcessTransmitters s else s) }"

definition tmt_guarded ::
  "tx_env \<Rightarrow> bool \<Rightarrow> (transmitter \<Rightarrow> transmitter option) \<Rightarrow> transmitter \<Rightarrow> transmitter option" where
  "tmt_guarded E remove f s = do {
     s \<leftarrow> tmt_setRemoveLock s;
     s \<leftarrow> f s;
     tmt_releaseRemoveLock E remove s }"

section \<open>Handlers\<close>

definition tmt_findByReceptionAddress :: "address \<Rightarrow> transmitter \<Rightarrow> nat option" where
  "tmt_findByReceptionAddress a s =
     map_option fst (find (\<lambda>(_, t). a = mt_receptionAddress t) (tmt_list s))"

definition tmt_findByJobHandle :: "job_handle \<Rightarrow> transmitter \<Rightarrow> nat option" where
  "tmt_findByJobHandle j s = map_option fst (find (\<lambda>(_, t). j = mt_jobHandle t) (tmt_list s))"

definition tmt_send ::
  "tx_env \<Rightarrow> message_ptr \<Rightarrow> nat option \<Rightarrow> transmitter \<Rightarrow> (tp_error \<times> transmitter) option" where
  "tmt_send E message listener s =
     (let m = snd message in
      case env_getTransmissionParameters E (tm_sourceAddress m) (tm_targetAddress m) of
        None \<Rightarrow> Some (TP_SEND_FAIL, s)
      | Some (codec, reception, transmission) \<Rightarrow>
          if \<not> isComplete m then Some (TP_MESSAGE_INCOMPLETE, s)
          else do {
            counted \<leftarrow> getEncodedFrameCount codec (tm_payloadLength m);
            (case counted of
               Inl _ \<Rightarrow> Some (TP_GENERAL_ERROR, s)
             | Inr (frameCount, consecutiveFrameDataSize) \<Rightarrow>
                 if frameCount > 1 \<and> tmt_findByReceptionAddress reception s \<noteq> None
                 then Some (TP_SEND_FAIL, s)
                 else if length (tmt_list s) = tmt_poolSize s then Some (TP_QUEUE_FULL, s)
                 else let i = tmt_nextSlot s;
                          counter = tmt_jobCounter s + 1;
                          job = \<lparr>jh_counter = counter, jh_userData = env_poolIndex E i\<rparr>;
                          t = mt_new job codec reception transmission message listener
                                frameCount consecutiveFrameDataSize
                      in Some (TP_OK, tmt_call ExecuteProcessTransmitters
                           (s\<lparr>tmt_nextSlot := i + 1, tmt_jobCounter := counter,
                              tmt_list := tmt_list s @ [(i, t)]\<rparr>))) })"

definition tmt_dataFramesSent :: "tx_env \<Rightarrow> job_handle \<Rightarrow> nat \<Rightarrow> nat \<Rightarrow> transmitter \<Rightarrow> transmitter option" where
  "tmt_dataFramesSent E job frameCount dataSize = tmt_guarded E False (\<lambda>s.
     let s = s\<lparr>tmt_pendingSend := False\<rparr> in
     case tmt_findByJobHandle job s of
       None \<Rightarrow> Some s
     | Some i \<Rightarrow> do {
         s \<leftarrow> tmt_apply E i (mt_framesSent frameCount dataSize) s;
         Some (if tmt_isSendingConsecutiveFrames s then tmt_call TickNeeded s else s) })"

definition tmt_flowControlFrameReceived ::
  "tx_env \<Rightarrow> address \<Rightarrow> FlowStatus \<Rightarrow> u8 \<Rightarrow> u8 \<Rightarrow> transmitter \<Rightarrow> transmitter option" where
  "tmt_flowControlFrameReceived E a flowStatus blockSize encodedSt = tmt_guarded E True (\<lambda>s.
     case tmt_findByReceptionAddress a s of
       None \<Rightarrow> Some s
     | Some i \<Rightarrow> tmt_apply E i (mt_handleFlowControl flowStatus blockSize
         (decodeMinSeparationTime encodedSt) (maxFlowControlWaitCount (tmt_params s))) s)"

fun tmt_shutdown_loop :: "tx_env \<Rightarrow> nat list \<Rightarrow> transmitter \<Rightarrow> transmitter option" where
  "tmt_shutdown_loop E [] s = Some s"
| "tmt_shutdown_loop E (i # is) s = do {
     s \<leftarrow> tmt_apply E i (mt_lift tx_cancel) s;
     tmt_shutdown_loop E is s }"

definition tmt_shutdown :: "tx_env \<Rightarrow> transmitter \<Rightarrow> transmitter option" where
  "tmt_shutdown E = tmt_guarded E True (\<lambda>s. tmt_shutdown_loop E (map fst (tmt_list s)) s)"

fun tmt_cyclic_loop :: "tx_env \<Rightarrow> u32 \<Rightarrow> nat list \<Rightarrow> transmitter \<Rightarrow> transmitter option" where
  "tmt_cyclic_loop E nowUs [] s = Some s"
| "tmt_cyclic_loop E nowUs (i # is) s = do {
     t \<leftarrow> tmt_get i s;
     let (expired, t) = mt_updateTimer nowUs t;
     if \<not> expired then Some s
     else do {
       s \<leftarrow> tmt_apply E i (mt_lift tx_expired) (tmt_put i t s);
       tmt_cyclic_loop E nowUs is s } }"

definition tmt_cyclicTask :: "tx_env \<Rightarrow> u32 \<Rightarrow> transmitter \<Rightarrow> transmitter option" where
  "tmt_cyclicTask E nowUs s = do {
     s \<leftarrow> tmt_guarded E True (\<lambda>s. tmt_cyclic_loop E nowUs (map fst (tmt_list s)) s) s;
     Some (if tmt_timersUpdated s
           then s\<lparr>tmt_list := env_txSort E (tmt_list s), tmt_timersUpdated := False\<rparr> else s) }"

fun tmt_process_loop :: "tx_env \<Rightarrow> nat list \<Rightarrow> transmitter \<Rightarrow> transmitter option" where
  "tmt_process_loop E [] s = Some s"
| "tmt_process_loop E (i # is) s = do {
     t \<leftarrow> tmt_get i s;
     s \<leftarrow> (if tx_state (mt_protocol t) = TS_INITIALIZED then tmt_apply E i (mt_lift tx_start) s
          else Some s);
     tmt_process_loop E is s }"

definition tmt_processMessageTransmitters :: "tx_env \<Rightarrow> transmitter \<Rightarrow> transmitter option" where
  "tmt_processMessageTransmitters E =
     tmt_guarded E True (\<lambda>s. tmt_process_loop E (map fst (tmt_list s)) s)"

end
