(* ===== verification/DocanTransmitterCorrect.thy ===== *)
theory DocanTransmitterCorrect imports DocanTransmitter "HOL-Library.Multiset" begin

text \<open>
  Correctness of the transmitter: under the contract of its environment every handler returns,
  keeps the invariant of the pool, and notifies the listener of every accepted message once.
\<close>

section \<open>Invariant\<close>

text \<open>
  A finished transmitter is released at once: it has no job, no address and no timer to time
  out, and does not count as sending consecutive frames.
\<close>

definition mt_gone :: "message_transmitter \<Rightarrow> bool" where
  "mt_gone t \<longleftrightarrow> mt_isDone t \<and> mt_jobHandle t = JobHandle_default
     \<and> mt_receptionAddress t = INVALID_ADDRESS \<and> \<not> mt_isSendingConsecutiveFrames t"

definition mt_inv :: "message_transmitter \<Rightarrow> bool" where
  "mt_inv t \<longleftrightarrow> tm_wf (snd (mt_message t)) \<and> mt_bytesSent t \<le> tm_payloadLength (snd (mt_message t))
     \<and> (mt_isDone t \<longrightarrow> tx_timeout (mt_protocol t) = TT_NONE \<and> tx_flowControl (mt_protocol t) \<noteq> FC_EXPECTED)"

definition tdone1 :: "message_transmitter \<Rightarrow> nat" where
  "tdone1 t = (if mt_isDone t then 1 else 0)"

definition tsending1 :: "message_transmitter \<Rightarrow> nat" where
  "tsending1 t = (if mt_isSendingConsecutiveFrames t then 1 else 0)"

text \<open>The notification a transmitter owes its listener, and those a call delivers.\<close>

definition owed :: "message_transmitter \<Rightarrow> (nat \<times> nat) multiset" where
  "owed t = (case mt_notificationListener t of None \<Rightarrow> {#} | Some l \<Rightarrow> {#(l, fst (mt_message t))#})"

fun notified1 :: "tx_call \<Rightarrow> (nat \<times> nat) multiset" where
  "notified1 (TransportMessageProcessed l (h, _) _) = {#(l, h)#}"
| "notified1 _ = {#}"

definition notified :: "tx_call list \<Rightarrow> (nat \<times> nat) multiset" where
  "notified tr = sum_list (map notified1 tr)"

lemma notified_append: "notified (a @ b) = notified a + notified b"
  by (simp add: notified_def)

lemma notified_simps [simp]: "notified [] = {#}"
  by (simp add: notified_def)

definition tmt_wf :: "(nat \<times> nat) multiset \<Rightarrow> transmitter \<Rightarrow> bool" where
  "tmt_wf acc s \<longleftrightarrow>
     distinct (map fst (tmt_list s)) \<and> (\<forall>i \<in> set (map fst (tmt_list s)). i < tmt_nextSlot s)
     \<and> length (tmt_list s) \<le> tmt_poolSize s \<and> tmt_poolSize s \<le> 255
     \<and> (\<forall>i. tmt_sendIt s = Some i \<longrightarrow> i \<in> set (map fst (tmt_list s)))
     \<and> (\<forall>(i, t) \<in> set (tmt_list s). mt_inv t \<and> (mt_isDone t \<longrightarrow> mt_gone t))
     \<and> tmt_releasedTransmitterCount s = slot_sum tdone1 (tmt_list s)
     \<and> tmt_sendingConsecutiveFramesCount s = slot_sum tsending1 (tmt_list s)
     \<and> acc = notified (tmt_trace s) + slot_sum owed (tmt_list s)"

lemma tmt_wf_get: "tmt_wf acc s \<Longrightarrow> tmt_get i s = Some t \<Longrightarrow> mt_inv t \<and> (mt_isDone t \<longrightarrow> mt_gone t)"
  by (auto simp: tmt_wf_def tmt_get_def dest!: map_of_SomeD)

lemma tmt_get_put:
  "tmt_get i s = Some t \<Longrightarrow> tmt_get j (tmt_put i t' s) = (if j = i then Some t' else tmt_get j s)"
  by (simp add: tmt_get_def tmt_put_def map_of_slot_put)

text \<open>What a step of one transmitter leaves alone.\<close>

definition tmt_same :: "transmitter \<Rightarrow> transmitter \<Rightarrow> bool" where
  "tmt_same s s' \<longleftrightarrow>
     map fst (tmt_list s') = map fst (tmt_list s) \<and> tmt_nextSlot s' = tmt_nextSlot s
     \<and> tmt_poolSize s' = tmt_poolSize s \<and> tmt_params s' = tmt_params s
     \<and> tmt_removeLockCount s' = tmt_removeLockCount s \<and> tmt_sendLock s' = tmt_sendLock s
     \<and> tmt_sendIt s' = tmt_sendIt s \<and> tmt_jobCounter s' = tmt_jobCounter s"

lemma tmt_same_refl [simp]: "tmt_same s s" by (simp add: tmt_same_def)

lemma tmt_same_trans: "tmt_same s s' \<Longrightarrow> tmt_same s' s'' \<Longrightarrow> tmt_same s s''"
  by (simp add: tmt_same_def)

text \<open>Replacing one transmitter in a well-formed pool, with the counters adjusted.\<close>

lemma tmt_wf_put:
  assumes wf: "tmt_wf acc s" and t: "tmt_get i s = Some t"
    and s': "tmt_list s' = slot_put i t' (tmt_list s)" "tmt_trace s' = tmt_trace s @ calls"
      "tmt_nextSlot s' = tmt_nextSlot s" "tmt_poolSize s' = tmt_poolSize s" "tmt_sendIt s' = tmt_sendIt s"
    and calls: "notified calls = {#}" and owed: "owed t' = owed t"
    and inv: "mt_inv t'" "mt_isDone t' \<longrightarrow> mt_gone t'"
    and cnt: "tmt_releasedTransmitterCount s' + tdone1 t = tmt_releasedTransmitterCount s + tdone1 t'"
      "tmt_sendingConsecutiveFramesCount s' + tsending1 t = tmt_sendingConsecutiveFramesCount s + tsending1 t'"
  shows "tmt_wf acc s'"
proof -
  have d: "distinct (map fst (tmt_list s))" and m: "map_of (tmt_list s) i = Some t"
    using wf t by (simp_all add: tmt_wf_def tmt_get_def)
  have "slot_sum tdone1 (tmt_list s') + tdone1 t = slot_sum tdone1 (tmt_list s) + tdone1 t'"
    "slot_sum tsending1 (tmt_list s') + tsending1 t = slot_sum tsending1 (tmt_list s) + tsending1 t'"
    "slot_sum owed (tmt_list s') + owed t = slot_sum owed (tmt_list s) + owed t'"
    unfolding s'(1) by (rule slot_sum_put [OF d m])+
  moreover have "mt_inv x \<and> (mt_isDone x \<longrightarrow> mt_gone x)" if "(j, x) \<in> set (tmt_list s')" for j x
    using that inv wf unfolding s'(1) by (auto simp: tmt_wf_def slot_put_def split: if_splits)
  ultimately show ?thesis
    using wf s' calls owed cnt unfolding tmt_wf_def by (auto simp: notified_append)
qed

lemma owed_simps [simp]:
  "owed (mt_setTimer x y t) = owed t" "owed (mt_release t) = owed t" "owed (t\<lparr>mt_protocol := p\<rparr>) = owed t"
  by (cases "mt_notificationListener t"; simp add: owed_def mt_setTimer_def mt_release_def)+

lemma mt_timer_simps [simp]:
  "mt_protocol (mt_setTimer x y t) = mt_protocol t" "mt_isDone (mt_setTimer x y t) = mt_isDone t"
  "mt_inv (mt_setTimer x y t) = mt_inv t" "mt_isSendingConsecutiveFrames (mt_setTimer x y t) = y"
  "mt_protocol (mt_release t) = mt_protocol t" "mt_isDone (mt_release t) = mt_isDone t"
  "mt_inv (mt_release t) = mt_inv t"
  "mt_isSendingConsecutiveFrames (mt_release t) = mt_isSendingConsecutiveFrames t"
  "mt_bytesSent (mt_setTimer x y t) = mt_bytesSent t" "mt_bytesSent (mt_release t) = mt_bytesSent t"
  by (simp_all add: mt_setTimer_def mt_isDone_def mt_inv_def mt_release_def)

section \<open>One step of one transmitter\<close>

text \<open>Resetting the timer: only the timer and the count of consecutive frame senders change.\<close>

lemma tmt_resetTimer_ok:
  assumes wf: "tmt_wf acc s" and m: "map_of (tmt_list s) i = Some t0" and sl: "tmt_list s' = slot_put i t (tmt_list s)"
    and cnt: "tmt_sendingConsecutiveFramesCount s' = tmt_sendingConsecutiveFramesCount s"
    and same: "mt_isSendingConsecutiveFrames t = mt_isSendingConsecutiveFrames t0"
  obtains t' n where "tmt_resetTimer E i s' =
      Some ((tmt_put i t' s')\<lparr>tmt_sendingConsecutiveFramesCount := n\<rparr>)"
    "n + tsending1 t0 = tmt_sendingConsecutiveFramesCount s + tsending1 t'"
    "mt_isSendingConsecutiveFrames t' \<longleftrightarrow> tx_timeout (mt_protocol t) = TT_SEPARATION_TIME"
    "\<exists>x y. t' = mt_setTimer x y t"
proof -
  define t' where "t' = tmt_nextTimer (tmt_params s') (env_txNowUs E (tmt_trace s')) t"
  define c where "c = tmt_sendingConsecutiveFramesCount s"
  have ex: "\<exists>x y. t' = mt_setTimer x y t"
    unfolding t'_def tmt_nextTimer_def by (cases "tx_timeout (mt_protocol t)") auto
  have snd: "mt_isSendingConsecutiveFrames t' \<longleftrightarrow> tx_timeout (mt_protocol t) = TT_SEPARATION_TIME"
    unfolding t'_def tmt_nextTimer_def by (cases "tx_timeout (mt_protocol t)") auto
  have g: "tmt_get i s' = Some t" using m sl by (simp add: tmt_get_def map_of_slot_put)
  have c: "c = slot_sum tsending1 (tmt_list s)" using wf by (simp add: tmt_wf_def c_def)
  have le1: "tsending1 x \<le> 1" for x by (simp add: tsending1_def)
  have len: "length (tmt_list s) \<le> 255" using wf by (simp add: tmt_wf_def)
  have pos: "0 < c" if "mt_isSendingConsecutiveFrames t"
    using slot_sum_member [OF m, of tsending1] that same c by (simp add: tsending1_def)
  have room: "c < 255" if "\<not> mt_isSendingConsecutiveFrames t"
    using slot_sum_less_length [of tsending1, OF le1 m] that same c len by (simp add: tsending1_def)
  have room': "c - 1 < 255" if "mt_isSendingConsecutiveFrames t"
    using slot_sum_le_length [of tsending1, OF le1, of "tmt_list s"] c len pos [OF that] by simp
  have same_count: "x\<lparr>tmt_sendingConsecutiveFramesCount := tmt_sendingConsecutiveFramesCount x\<rparr> = x" for x :: transmitter
    by simp
  define n where "n = c - tsending1 t + tsending1 t'"
  have "tmt_resetTimer E i s' = Some ((tmt_put i t' s')\<lparr>tmt_sendingConsecutiveFramesCount := n\<rparr>)"
    using g pos room room' cnt same_count
    by (cases "mt_isSendingConsecutiveFrames t"; cases "mt_isSendingConsecutiveFrames t'")
      (simp_all add: tmt_resetTimer_def t'_def [symmetric] n_def c_def tsending1_def tmt_put_def)
  moreover have "n + tsending1 t0 = tmt_sendingConsecutiveFramesCount s + tsending1 t'"
    using pos same by (auto simp: n_def c_def [symmetric] tsending1_def)
  ultimately show thesis using that snd ex by blast
qed

definition tmt_step_ok ::
  "(nat \<times> nat) multiset \<Rightarrow> nat \<Rightarrow> transmitter \<Rightarrow> message_transmitter \<Rightarrow> transmitter \<Rightarrow> bool" where
  "tmt_step_ok acc i s t s' \<longleftrightarrow>
     tmt_wf acc s' \<and> tmt_same s s'
     \<and> (\<exists>t'. tmt_list s' = slot_put i t' (tmt_list s) \<and> mt_protocol t' = mt_protocol t)
     \<and> (\<exists>calls. tmt_trace s' = tmt_trace s @ calls)"

lemma notified_cancel [simp]: "notified [CancelSendDataFrames j] = {#}"
  by (simp add: notified_def)

text \<open>
  The result of an operation on a transmitter that was not finished, or that changes nothing
  that matters.
\<close>

lemma tmt_apply_ok:
  assumes wf: "tmt_wf acc s" and g: "tmt_get i s = Some t0" and f: "f t0 = (res, t)"
    and inv: "mt_inv t" and ow: "owed t = owed t0"
    and snd: "mt_isSendingConsecutiveFrames t = mt_isSendingConsecutiveFrames t0"
    and go: "tr_transition res \<and> \<not> mt_isDone t0
      \<or> \<not> tr_transition res \<and> mt_isDone t = mt_isDone t0 \<and> (mt_isDone t \<longrightarrow> mt_gone t)"
  shows "\<exists>s'. tmt_apply E i f s = Some s' \<and> tmt_step_ok acc i s t s'"
proof -
  have m: "map_of (tmt_list s) i = Some t0" using g by (simp add: tmt_get_def)
  have le1: "tdone1 x \<le> 1" for x by (simp add: tdone1_def)
  show ?thesis
  proof (cases "tr_transition res")
    case False
    have "tmt_wf acc (tmt_put i t s)"
      using go False snd
      by (intro tmt_wf_put [OF wf g, of _ t "[]"] inv ow)
        (auto simp: tmt_put_def tdone1_def tsending1_def)
    then have "tmt_step_ok acc i s t (tmt_put i t s)"
      by (auto simp: tmt_step_ok_def tmt_same_def tmt_put_def)
    moreover have "tmt_apply E i f s = Some (tmt_put i t s)"
      using g f False by (simp add: tmt_apply_def tmt_handleResult_def)
    ultimately show ?thesis by blast
  next
    case True
    then have nd: "\<not> mt_isDone t0" using go by simp
    obtain t' n where t': "tmt_resetTimer E i (tmt_put i t s) =
        Some ((tmt_put i t' (tmt_put i t s))\<lparr>tmt_sendingConsecutiveFramesCount := n\<rparr>)"
      "n + tsending1 t0 = tmt_sendingConsecutiveFramesCount s + tsending1 t'"
      "mt_isSendingConsecutiveFrames t' \<longleftrightarrow> tx_timeout (mt_protocol t) = TT_SEPARATION_TIME"
      "\<exists>x y. t' = mt_setTimer x y t"
      by (rule tmt_resetTimer_ok [OF wf m _ _ snd, of "tmt_put i t s"]) (auto simp: tmt_put_def)
    have p: "mt_protocol t' = mt_protocol t" "mt_isDone t' = mt_isDone t" "mt_inv t'" "owed t' = owed t0"
      using t'(4) inv ow by auto
    let ?s1 = "(tmt_put i t' s)\<lparr>tmt_sendingConsecutiveFramesCount := n\<rparr>"
    have s1: "tmt_resetTimer E i (tmt_put i t s) = Some ?s1"
      using t'(1) by (simp add: tmt_put_def)
    have g1: "tmt_get i ?s1 = Some t'" using m by (simp add: tmt_get_def tmt_put_def map_of_slot_put)
    show ?thesis
    proof (cases "mt_isDone t")
      case False
      let ?s2 = "?s1\<lparr>tmt_timersUpdated := True\<rparr>"
      have "tmt_wf acc ?s2"
        using False nd t' p
        by (intro tmt_wf_put [OF wf g, of _ t' "[]"]) (auto simp: tmt_put_def tdone1_def)
      then have "tmt_step_ok acc i s t ?s2"
        using p by (auto simp: tmt_step_ok_def tmt_same_def tmt_put_def)
      moreover have "tmt_apply E i f s = Some ?s2"
        using g f True False s1 g1 p by (simp add: tmt_apply_def tmt_handleResult_def)
      ultimately show ?thesis by blast
    next
      case fin: True
      let ?c = "if tr_cancelSend res then [CancelSendDataFrames (mt_jobHandle t')] else []"
      let ?r = "mt_release t'"
      let ?s3 = "s\<lparr>tmt_list := slot_put i ?r (tmt_list s), tmt_sendingConsecutiveFramesCount := n,
        tmt_trace := tmt_trace s @ ?c,
        tmt_pendingSend := (if tr_cancelSend res then False else tmt_pendingSend s),
        tmt_releasedTransmitterCount := tmt_releasedTransmitterCount s + 1, tmt_switchContext := True\<rparr>"
      have nosend: "\<not> mt_isSendingConsecutiveFrames t'"
        using fin inv t'(3) by (auto simp: mt_inv_def)
      have gone: "mt_gone ?r" using fin p nosend by (simp add: mt_gone_def mt_release_def mt_isDone_def)
      have lt: "tmt_releasedTransmitterCount s < 255"
        using slot_sum_less_length [of tdone1, OF le1 m] nd wf by (simp add: tdone1_def tmt_wf_def)
      have "tmt_wf acc ?s3"
        using fin nd t' p gone nosend
        by (intro tmt_wf_put [OF wf g, of _ ?r ?c]) (auto simp: tdone1_def tsending1_def)
      then have "tmt_step_ok acc i s t ?s3"
        using p by (auto simp: tmt_step_ok_def tmt_same_def)
      moreover have "tmt_apply E i f s = Some ?s3"
        using g f True fin s1 g1 p lt
        by (simp add: tmt_apply_def tmt_handleResult_def Let_def)
          (simp add: tmt_put_def tmt_call_def)
      ultimately show ?thesis by blast
    qed
  qed
qed

text \<open>The same, for the calls that are passed on to the protocol handler.\<close>

lemma mt_lift_eq: "mt_lift f t = (fst (f (mt_protocol t)), t\<lparr>mt_protocol := snd (f (mt_protocol t))\<rparr>)"
  by (simp add: mt_lift_def case_prod_unfold Let_def)

lemma tmt_lift_ok:
  assumes wf: "tmt_wf acc s" and g: "tmt_get i s = Some t" and nd: "\<not> mt_isDone t"
    and p: "tr_transition (fst (f (mt_protocol t))) \<or> \<not> tx_isDone (snd (f (mt_protocol t)))"
    and d: "tx_isDone (snd (f (mt_protocol t))) \<Longrightarrow>
      tx_timeout (snd (f (mt_protocol t))) = TT_NONE \<and> tx_flowControl (snd (f (mt_protocol t))) \<noteq> FC_EXPECTED"
  shows "\<exists>s'. tmt_apply E i (mt_lift f) s = Some s' \<and> tmt_step_ok acc i s (t\<lparr>mt_protocol := snd (f (mt_protocol t))\<rparr>) s'"
proof (rule tmt_apply_ok [OF wf g mt_lift_eq])
  show "mt_inv (t\<lparr>mt_protocol := snd (f (mt_protocol t))\<rparr>)"
    using tmt_wf_get [OF wf g] d by (simp add: mt_inv_def mt_isDone_def)
  show "tr_transition (fst (f (mt_protocol t))) \<and> \<not> mt_isDone t
      \<or> \<not> tr_transition (fst (f (mt_protocol t)))
        \<and> mt_isDone (t\<lparr>mt_protocol := snd (f (mt_protocol t))\<rparr>) = mt_isDone t
        \<and> (mt_isDone (t\<lparr>mt_protocol := snd (f (mt_protocol t))\<rparr>)
             \<longrightarrow> mt_gone (t\<lparr>mt_protocol := snd (f (mt_protocol t))\<rparr>))"
    using p nd by (auto simp: mt_isDone_def)
qed simp_all

section \<open>Sending in turn\<close>

lemma circle_set: "set (tmt_circle i l) = set l"
  unfolding tmt_circle_def by (metis append_take_drop_id set_append sup_commute takeWhile_dropWhile_id)

lemma scan_Some: "tmt_scan l = Some i \<Longrightarrow> \<exists>t. (i, t) \<in> set l \<and> tx_state (mt_protocol t) = TS_SEND"
  by (induction l rule: tmt_scan.induct) (auto split: if_splits)

lemma scan_None: "tmt_scan l = None \<Longrightarrow> (i, t) \<in> set l \<Longrightarrow> tx_state (mt_protocol t) \<noteq> TS_SEND"
  by (induction l rule: tmt_scan.induct) (auto split: if_splits)

lemma next_in:
  assumes "tmt_next i l = Some j" shows "j \<in> fst ` set l"
proof -
  obtain x r where r: "tl (dropWhile (\<lambda>(j, _). j \<noteq> i) l) = (j, x) # r"
    using assms by (auto simp: tmt_next_def tmt_first_def split: list.splits)
  then have "(j, x) \<in> set (dropWhile (\<lambda>(j, _). j \<noteq> i) l)"
    by (cases "dropWhile (\<lambda>(j, _). j \<noteq> i) l") auto
  then show ?thesis by (force dest: set_dropWhileD)
qed

text \<open>What the send loop leaves alone, and its measure: the transmitters ready to send.\<close>

definition tmt_keeps :: "transmitter \<Rightarrow> transmitter \<Rightarrow> bool" where
  "tmt_keeps s s' \<longleftrightarrow>
     map fst (tmt_list s') = map fst (tmt_list s) \<and> tmt_nextSlot s' = tmt_nextSlot s
     \<and> tmt_poolSize s' = tmt_poolSize s \<and> tmt_params s' = tmt_params s
     \<and> tmt_removeLockCount s' = tmt_removeLockCount s \<and> tmt_jobCounter s' = tmt_jobCounter s
     \<and> (\<exists>calls. tmt_trace s' = tmt_trace s @ calls)"

lemma tmt_keeps_trans: "tmt_keeps s s' \<Longrightarrow> tmt_keeps s' s'' \<Longrightarrow> tmt_keeps s s''"
  unfolding tmt_keeps_def by (metis append_assoc)

definition ready1 :: "message_transmitter \<Rightarrow> nat" where
  "ready1 t = (if tx_state (mt_protocol t) = TS_SEND then 1 else 0)"

fun refused :: "tx_call \<Rightarrow> bool" where
  "refused (StartSendDataFrames _ _ _ _ _ _ _ r) \<longleftrightarrow> r \<noteq> SR_QUEUED \<and> r \<noteq> SR_QUEUED_FULL"
| "refused _ \<longleftrightarrow> False"

text \<open>Nothing is left to hand to the data link layer, unless it is full or refused a job.\<close>

definition tmt_flushed :: "transmitter \<Rightarrow> transmitter \<Rightarrow> bool" where
  "tmt_flushed s s' \<longleftrightarrow> tmt_pendingSend s'
     \<or> (\<forall>(i, t) \<in> set (tmt_list s'). tx_state (mt_protocol t) \<noteq> TS_SEND)
     \<or> (\<exists>c \<in> set (drop (length (tmt_trace s)) (tmt_trace s')). refused c)"

lemma tmt_flushed_from:
  assumes "tmt_keeps s s'" "tmt_flushed s' s''" "tmt_keeps s' s''"
  shows "tmt_flushed s s''"
proof -
  obtain c d where "tmt_trace s' = tmt_trace s @ c" "tmt_trace s'' = tmt_trace s' @ d"
    using assms(1,3) by (auto simp: tmt_keeps_def)
  then show ?thesis using assms(2) unfolding tmt_flushed_def by auto
qed

lemma getSendData_ok: "mt_inv t \<Longrightarrow> \<exists>d. getSendData t = Some d"
  by (auto simp: getSendData_def mt_inv_def tm_wf_def Let_def)

lemma tmt_wf_lock [simp]:
  "tmt_wf acc (s\<lparr>tmt_sendLock := x\<rparr>) = tmt_wf acc s" "tmt_wf acc (s\<lparr>tmt_pendingSend := y\<rparr>) = tmt_wf acc s"
  by (simp_all add: tmt_wf_def)

lemma tmt_wf_it: "tmt_wf acc s \<Longrightarrow> (\<And>i. x = Some i \<Longrightarrow> i \<in> fst ` set (tmt_list s)) \<Longrightarrow> tmt_wf acc (s\<lparr>tmt_sendIt := x\<rparr>)"
  by (auto simp: tmt_wf_def)

lemma tmt_wf_call: "tmt_wf acc s \<Longrightarrow> notified [c] = {#} \<Longrightarrow> tmt_wf acc (tmt_call c s)"
  by (simp add: tmt_wf_def tmt_call_def notified_append)

lemma tmt_releaseSendLock_wf:
  "tmt_wf acc s \<Longrightarrow> tmt_wf acc (tmt_releaseSendLock b s)"
  using tmt_wf_it [of acc s "case tmt_sendIt s of None \<Rightarrow> None | Some i \<Rightarrow> if b then tmt_next i (tmt_list s) else Some i"]
    next_in [of _ "tmt_list s"]
  by (auto simp: tmt_releaseSendLock_def tmt_wf_def split: option.splits if_splits)

lemma tmt_setSendLock_ok:
  assumes wf: "tmt_wf acc s" and lock: "\<not> tmt_sendLock s"
  obtains (none) s' where "tmt_setSendLock s = (None, s')" "tmt_wf acc s'" "\<not> tmt_sendLock s'" "tmt_keeps s s'"
    "tmt_pendingSend s' \<or> (\<forall>(i, t) \<in> set (tmt_list s'). tx_state (mt_protocol t) \<noteq> TS_SEND)"
  | (some) i t s' where "tmt_setSendLock s = (Some i, s')" "tmt_wf acc s'" "tmt_keeps s s'"
    "tmt_get i s' = Some t" "tx_state (mt_protocol t) = TS_SEND" "tmt_list s' = tmt_list s"
    "tmt_trace s' = tmt_trace s" "\<not> tmt_pendingSend s"
proof (cases "tmt_pendingSend s \<or> tmt_list s = []")
  case True
  then show thesis using assms none [of s] by (auto simp: tmt_setSendLock_def tmt_keeps_def)
next
  case False
  then obtain first t0 r where l: "tmt_list s = (first, t0) # r" by (metis list.exhaust surj_pair)
  define start where "start = (case tmt_sendIt s of None \<Rightarrow> first | Some i \<Rightarrow> i)"
  have st: "start \<in> fst ` set (tmt_list s)"
    using wf l by (auto simp: start_def tmt_wf_def split: option.splits)
  show thesis
  proof (cases "tmt_scan (tmt_circle start (tmt_list s))")
    case None
    have "tmt_setSendLock s = (None, s\<lparr>tmt_sendIt := Some start\<rparr>)"
      using False lock l None by (simp add: tmt_setSendLock_def start_def)
    moreover have "tmt_wf acc (s\<lparr>tmt_sendIt := Some start\<rparr>)"
      using st by (intro tmt_wf_it [OF wf]) simp
    moreover have "tx_state (mt_protocol t) \<noteq> TS_SEND" if "(i, t) \<in> set (tmt_list s)" for i t
      using scan_None [OF None] that by (simp add: circle_set)
    ultimately show thesis using none [of "s\<lparr>tmt_sendIt := Some start\<rparr>"] lock
      by (auto simp: tmt_keeps_def)
  next
    case (Some i)
    let ?s = "s\<lparr>tmt_sendIt := Some i, tmt_sendLock := True\<rparr>"
    have eq: "tmt_setSendLock s = (Some i, ?s)"
      using False lock l Some by (simp add: tmt_setSendLock_def start_def)
    obtain t where t: "(i, t) \<in> set (tmt_list s)" "tx_state (mt_protocol t) = TS_SEND"
      using scan_Some [OF Some] circle_set by blast
    then have "tmt_wf acc ?s" using tmt_wf_it [OF wf, of "Some i"] by force
    moreover have "tmt_get i ?s = Some t" using t(1) wf by (simp add: tmt_get_def tmt_wf_def)
    ultimately show thesis using some [OF eq] t(2) False by (simp add: tmt_keeps_def)
  qed
qed

lemma tmt_step_ready:
  assumes wf: "tmt_wf acc s" and t: "tmt_get i s = Some t0" and st: "tmt_step_ok acc i s t s'"
  shows "slot_sum ready1 (tmt_list s') + ready1 t0 = slot_sum ready1 (tmt_list s) + ready1 t"
proof -
  obtain t' where t': "tmt_list s' = slot_put i t' (tmt_list s)" "mt_protocol t' = mt_protocol t"
    using st by (auto simp: tmt_step_ok_def)
  have "ready1 t' = ready1 t" using t'(2) by (simp add: ready1_def)
  moreover have "slot_sum ready1 (slot_put i t' (tmt_list s)) + ready1 t0 = slot_sum ready1 (tmt_list s) + ready1 t'"
    using wf t by (intro slot_sum_put) (simp_all add: tmt_wf_def tmt_get_def)
  ultimately show ?thesis using t'(1) by simp
qed

lemma tmt_step_keeps: "tmt_step_ok acc i s t s' \<Longrightarrow> tmt_keeps s s'"
  by (simp add: tmt_step_ok_def tmt_keeps_def tmt_same_def)

lemma frameSending_waits:
  assumes "tx_state p = TS_SEND"
  shows "tx_state (snd (tx_frameSending p)) = TS_WAIT" "tr_transition (fst (tx_frameSending p))"
  using assms by (auto simp: tx_ops Let_def)

lemma tmt_keeps_refl [simp]: "tmt_keeps s s" by (simp add: tmt_keeps_def)

lemma tmt_keeps_simps [simp]:
  "tmt_keeps s (s'\<lparr>tmt_pendingSend := x\<rparr>) = tmt_keeps s s'"
  "tmt_keeps s (tmt_releaseSendLock b s') = tmt_keeps s s'"
  "tmt_keeps s s' \<Longrightarrow> tmt_keeps s (tmt_call c s')"
  by (auto simp: tmt_keeps_def tmt_releaseSendLock_def tmt_call_def)

lemma tmt_releaseSendLock_lock [simp]: "tmt_sendLock (tmt_releaseSendLock b s) = False"
  by (simp add: tmt_releaseSendLock_def)

lemma tmt_sendNextFrames_ok:
  assumes "tmt_wf acc s" and "\<not> tmt_sendLock s"
  shows "\<exists>s'. tmt_sendNextFrames E s = Some s' \<and> tmt_wf acc s' \<and> \<not> tmt_sendLock s'
    \<and> tmt_keeps s s' \<and> tmt_flushed s s'"
  using assms
proof (induction "slot_sum ready1 (tmt_list s)" arbitrary: s rule: less_induct)
  case less
  show ?case
  proof (cases rule: tmt_setSendLock_ok [OF less.prems, case_names none some])
    case (none s1)
    let ?s = "tmt_releaseSendLock False s1"
    have "tmt_sendNextFrames E s = Some ?s"
      using none(1) by (subst tmt_sendNextFrames.simps) simp
    moreover have "tmt_wf acc ?s" by (rule tmt_releaseSendLock_wf [OF none(2)])
    moreover have "tmt_flushed s ?s" using none(5) by (auto simp: tmt_flushed_def tmt_releaseSendLock_def)
    ultimately show ?thesis using none(4) by simp
  next
    case (some i t s1)
    have inv: "mt_inv t" using tmt_wf_get [OF some(2,4)] by simp
    have nd: "\<not> mt_isDone t" using some(5) by (simp add: mt_isDone_def tx_isDone_def)
    obtain d where d: "getSendData t = Some d" using getSendData_ok [OF inv] by blast
    let ?f = "tx_frameIndex (mt_protocol t)"
    let ?e = "if mt_minSeparationTimeUs t = 0 then tx_blockEnd (mt_protocol t) else ?f + 1"
    define r where "r = env_startSendDataFrames E (tmt_trace s1) (mt_codec t) (mt_jobHandle t)
            (mt_transmissionAddress t) ?f ?e (mt_consecutiveFrameDataSize t) d"
    define c where "c = StartSendDataFrames (mt_codec t) (mt_jobHandle t)
            (mt_transmissionAddress t) ?f ?e (mt_consecutiveFrameDataSize t) d r"
    have c0: "notified [c] = {#}" by (simp add: c_def notified_def)
    define s2 where "s2 = tmt_call c s1"
    have s2: "tmt_wf acc s2" "tmt_get i s2 = Some t" "tmt_keeps s s2" "tmt_list s2 = tmt_list s"
      "tmt_trace s2 = tmt_trace s @ [c]"
      using tmt_wf_call [OF some(2) c0] some(3,4,6,7) by (simp_all add: s2_def tmt_call_def tmt_get_def tmt_keeps_def)
    have run: "tmt_sendNextFrames E s =
        (if r = SR_QUEUED \<or> r = SR_QUEUED_FULL
         then do {
           s \<leftarrow> tmt_apply E i (mt_lift tx_frameSending) (s2\<lparr>tmt_pendingSend := (r = SR_QUEUED_FULL)\<rparr>);
           tmt_sendNextFrames E (tmt_releaseSendLock True s) }
         else do {
           s \<leftarrow> (if r = SR_FAILED then tmt_apply E i (mt_lift tx_cancel) s2 else Some s2);
           Some (tmt_releaseSendLock False s) })"
      using some(1,4) d by (subst tmt_sendNextFrames.simps) (simp add: Let_def r_def c_def s2_def)
    show ?thesis
    proof (cases "r = SR_QUEUED \<or> r = SR_QUEUED_FULL")
      case True
      let ?s = "s2\<lparr>tmt_pendingSend := (r = SR_QUEUED_FULL)\<rparr>"
      have w: "tmt_wf acc ?s" "tmt_get i ?s = Some t" using s2(1,2) by (simp_all add: tmt_get_def)
      note fs = frameSending_waits [OF some(5)]
      have nfin: "\<not> tx_isDone (snd (tx_frameSending (mt_protocol t)))"
        using fs(1) by (simp add: tx_isDone_def)
      obtain s3 where s3: "tmt_apply E i (mt_lift tx_frameSending) ?s = Some s3"
        "tmt_step_ok acc i ?s (t\<lparr>mt_protocol := snd (tx_frameSending (mt_protocol t))\<rparr>) s3"
        using tmt_lift_ok [OF w nd, of tx_frameSending E] nfin by blast
      let ?s4 = "tmt_releaseSendLock True s3"
      have "ready1 t = 1" "ready1 (t\<lparr>mt_protocol := snd (tx_frameSending (mt_protocol t))\<rparr>) = 0"
        using some(5) fs(1) by (simp_all add: ready1_def)
      then have lt: "slot_sum ready1 (tmt_list ?s4) < slot_sum ready1 (tmt_list s)"
        using tmt_step_ready [OF w s3(2)] s2(4) by (simp add: tmt_releaseSendLock_def)
      have k: "tmt_keeps s ?s4" using tmt_keeps_trans [OF _ tmt_step_keeps [OF s3(2)], of s] s2(3) by simp
      have w4: "tmt_wf acc ?s4" "\<not> tmt_sendLock ?s4"
        using s3(2) tmt_releaseSendLock_wf by (auto simp: tmt_step_ok_def tmt_releaseSendLock_def)
      obtain s' where s': "tmt_sendNextFrames E ?s4 = Some s'" "tmt_wf acc s'" "\<not> tmt_sendLock s'"
        "tmt_keeps ?s4 s'" "tmt_flushed ?s4 s'"
        using less.hyps [OF lt w4] by blast
      then show ?thesis
        using run True s3(1) tmt_keeps_trans [OF k s'(4)] tmt_flushed_from [OF k s'(5,4)] by simp
    next
      case False
      have "\<exists>s3. (if r = SR_FAILED then tmt_apply E i (mt_lift tx_cancel) s2 else Some s2) = Some s3
          \<and> tmt_wf acc s3 \<and> tmt_keeps s2 s3"
      proof (cases "r = SR_FAILED")
        case True
        obtain s3 where s3: "tmt_apply E i (mt_lift tx_cancel) s2 = Some s3"
          "tmt_step_ok acc i s2 (t\<lparr>mt_protocol := snd (tx_cancel (mt_protocol t))\<rparr>) s3"
          using tmt_lift_ok [OF s2(1,2) nd, of tx_cancel E] by (auto simp: tx_cancel_def tx_setFailed_def)
        then show ?thesis using True tmt_step_keeps [OF s3(2)] by (auto simp: tmt_step_ok_def)
      next
        case False then show ?thesis using s2(1) by auto
      qed
      then obtain s3 where s3: "(if r = SR_FAILED then tmt_apply E i (mt_lift tx_cancel) s2 else Some s2) = Some s3"
        "tmt_wf acc s3" "tmt_keeps s2 s3" by blast
      let ?s4 = "tmt_releaseSendLock False s3"
      have "refused c" using False by (simp add: c_def)
      moreover obtain d where "tmt_trace ?s4 = tmt_trace s @ [c] @ d"
        using s3(3) s2(5) by (auto simp: tmt_keeps_def tmt_releaseSendLock_def)
      ultimately have "tmt_flushed s ?s4" by (simp add: tmt_flushed_def)
      moreover have "tmt_keeps s ?s4" using tmt_keeps_trans [OF s2(3) s3(3)] by simp
      moreover have "tmt_sendNextFrames E s = Some ?s4" using run False s3(1) by simp
      ultimately show ?thesis using tmt_releaseSendLock_wf [OF s3(2)] by simp
    qed
  qed
qed

section \<open>Removal\<close>

lemma tdone1_sum: "slot_sum tdone1 l = length (filter (\<lambda>(_, t). mt_isDone t) l)"
  using slot_sum_count [of mt_isDone l] by (simp add: tdone1_def [abs_def])

abbreviation unfinished :: "(nat \<times> message_transmitter) list \<Rightarrow> (nat \<times> message_transmitter) list" where
  "unfinished l \<equiv> filter (\<lambda>(_, t). \<not> mt_isDone t) l"

abbreviation finished :: "(nat \<times> message_transmitter) list \<Rightarrow> (nat \<times> message_transmitter) list" where
  "finished l \<equiv> filter (\<lambda>(_, t). mt_isDone t) l"

text \<open>Removing as many as are finished removes exactly those, and keeps the iterator valid.\<close>

lemma tmt_remove_walk_ok:
  assumes "distinct (map fst l)"
  shows "\<exists>it' pending'. tmt_remove_walk (length (finished l)) l it pending =
      Some (unfinished l, rev (map snd (finished l)), it', pending')
    \<and> (\<forall>j. it' = Some j \<longrightarrow> it = Some j \<and> j \<notin> fst ` set l \<or> j \<in> fst ` set (unfinished l))"
  using assms
proof (induction l arbitrary: it pending)
  case Nil then show ?case by simp
next
  case (Cons p l)
  obtain i t where p: "p = (i, t)" by (cases p)
  have i: "i \<notin> fst ` set l" and d: "distinct (map fst l)" using Cons.prems p by auto
  show ?case
  proof (cases "mt_isDone t")
    case fin: True
    show ?thesis
    proof (cases "it = Some i")
      case True
      have "tmt_first l = Some j \<Longrightarrow> j \<in> fst ` set l" for j
        by (cases l) (auto simp: tmt_first_def)
      then show ?thesis using Cons.IH [OF d, of "tmt_first l" False] fin True p by auto
    next
      case False
      obtain it' pn' where r: "tmt_remove_walk (length (finished l)) l it pending =
          Some (unfinished l, rev (map snd (finished l)), it', pn')"
        "\<forall>j. it' = Some j \<longrightarrow> it = Some j \<and> j \<notin> fst ` set l \<or> j \<in> fst ` set (unfinished l)"
        using Cons.IH [OF d] by blast
      have "it = Some j \<and> j \<notin> fst ` set (p # l) \<or> j \<in> fst ` set (unfinished (p # l))"
        if "it' = Some j" for j
        using r(2) that False p fin by auto
      then show ?thesis using r(1) False fin p by simp
    qed
  next
    case False
    obtain it' pn' where r: "tmt_remove_walk (length (finished l)) l it pending =
        Some (unfinished l, rev (map snd (finished l)), it', pn')"
      "\<forall>j. it' = Some j \<longrightarrow> it = Some j \<and> j \<notin> fst ` set l \<or> j \<in> fst ` set (unfinished l)"
      using Cons.IH [OF d] by blast
    then have "\<forall>j. it' = Some j \<longrightarrow> it = Some j \<and> j \<notin> fst ` set (p # l) \<or> j \<in> fst ` set (unfinished (p # l))"
      using p False by auto
    moreover have "tmt_remove_walk (length (finished l)) ((i, t) # l) it pending =
        Some ((i, t) # unfinished l, rev (map snd (finished l)), it', pn')"
    proof (cases "length (finished l)")
      case 0
      then have "unfinished l = l" "finished l = []"
        by (auto simp: filter_empty_conv filter_id_conv)
      then show ?thesis using r(1) 0 by simp
    next
      case (Suc k)
      then show ?thesis using r(1) False by simp
    qed
    ultimately show ?thesis using p False by auto
  qed
qed

lemma notified_notifications: "notified (concat (map tmt_notification ts)) = sum_list (map owed ts)"
proof (induction ts)
  case (Cons t ts)
  have "notified (tmt_notification t) = owed t"
    by (cases "mt_message t") (auto simp: tmt_notification_def owed_def notified_def split: option.splits)
  then show ?case using Cons by (simp add: notified_append)
qed simp

lemma slot_sum_partition:
  fixes f :: "'a \<Rightarrow> 'b multiset"
  shows "slot_sum f l = sum_list (map f (rev (map snd (filter (\<lambda>(_, t). P t) l))))
    + slot_sum f (filter (\<lambda>(_, t). \<not> P t) l)"
  by (induction l) (auto simp: ac_simps)

text \<open>The pool between two calls.\<close>

definition tmt_rest :: "(nat \<times> nat) multiset \<Rightarrow> transmitter \<Rightarrow> bool" where
  "tmt_rest acc s \<longleftrightarrow> tmt_wf acc s \<and> tmt_removeLockCount s = 0 \<and> \<not> tmt_sendLock s"

lemma tmt_releaseRemoveLock_ok:
  assumes wf: "tmt_wf acc s" and lock: "tmt_removeLockCount s = 1" "\<not> tmt_sendLock s"
  shows "\<exists>s1 s'. tmt_sendNextFrames E s = Some s1 \<and> tmt_releaseRemoveLock E remove s = Some s' \<and> tmt_rest acc s'
    \<and> (remove \<longrightarrow> tmt_list s' = unfinished (tmt_list s1))"
proof -
  obtain s1 where s1: "tmt_sendNextFrames E s = Some s1" "tmt_wf acc s1" "\<not> tmt_sendLock s1"
    "tmt_keeps s s1" "tmt_flushed s s1"
    using tmt_sendNextFrames_ok [OF wf lock(2)] by blast
  have l1: "tmt_removeLockCount s1 = 1" using s1(4) lock(1) by (simp add: tmt_keeps_def)
  show ?thesis
  proof (cases remove)
    case False
    let ?s = "s1\<lparr>tmt_removeLockCount := 0, tmt_switchContext := False\<rparr>"
    have "tmt_rest acc ?s" "tmt_rest acc (tmt_call ExecuteProcessTransmitters ?s)"
      using s1(2,3) by (simp_all add: tmt_rest_def tmt_wf_def tmt_call_def notified_append)
        (simp_all add: notified_def)
    then show ?thesis using s1(1) l1 False
      by (simp add: tmt_releaseRemoveLock_def Let_def tmt_call_def)
  next
    case True
    let ?kept = "unfinished (tmt_list s1)" and ?gone = "rev (map snd (finished (tmt_list s1)))"
    have d: "distinct (map fst (tmt_list s1))" using s1(2) by (simp add: tmt_wf_def)
    have n: "tmt_releasedTransmitterCount s1 = length (finished (tmt_list s1))"
      using s1(2) tdone1_sum by (simp add: tmt_wf_def)
    obtain it pn where walk: "tmt_remove_walk (tmt_releasedTransmitterCount s1) (tmt_list s1)
        (tmt_sendIt s1) (tmt_pendingSend s1) = Some (?kept, ?gone, it, pn)"
      "\<forall>j. it = Some j \<longrightarrow> tmt_sendIt s1 = Some j \<and> j \<notin> fst ` set (tmt_list s1) \<or> j \<in> fst ` set ?kept"
      using tmt_remove_walk_ok [OF d] unfolding n by blast
    have it: "i \<in> fst ` set ?kept" if "it = Some i" for i
      using walk(2) that s1(2) by (auto simp: tmt_wf_def)
    let ?s = "s1\<lparr>tmt_removeLockCount := 0, tmt_list := ?kept, tmt_sendIt := it, tmt_pendingSend := pn,
      tmt_releasedTransmitterCount := 0, tmt_switchContext := False,
      tmt_trace := tmt_trace s1 @ concat (map tmt_notification ?gone)\<rparr>"
    have "length ?kept \<le> tmt_poolSize s1"
      by (rule order_trans [OF length_filter_le]) (use s1(2) in \<open>simp add: tmt_wf_def\<close>)
    moreover have "distinct (map fst ?kept)" using d by (simp add: distinct_map_filter)
    moreover have "slot_sum tdone1 ?kept = 0" by (simp add: tdone1_sum filter_filter split_def)
    moreover have "slot_sum tsending1 ?kept = slot_sum tsending1 (tmt_list s1)"
      using s1(2) by (intro slot_sum_filter) (auto simp: tmt_wf_def tsending1_def mt_gone_def)
    moreover have "acc = notified (tmt_trace s1 @ concat (map tmt_notification ?gone)) + slot_sum owed ?kept"
      using s1(2) slot_sum_partition [of owed "tmt_list s1" mt_isDone]
      by (simp add: tmt_wf_def notified_append notified_notifications ac_simps)
    ultimately have "tmt_wf acc ?s" using s1(2) it by (auto simp: tmt_wf_def)
    then have "tmt_rest acc ?s" "tmt_rest acc (tmt_call ExecuteProcessTransmitters ?s)"
      using s1(3) tmt_wf_call [of acc ?s ExecuteProcessTransmitters]
      by (simp_all add: tmt_rest_def notified_def) (simp_all add: tmt_call_def)
    moreover have "tmt_releaseRemoveLock E remove s =
        Some (if tmt_switchContext s1 then tmt_call ExecuteProcessTransmitters ?s else ?s)"
      using s1(1) l1 True walk(1) by (simp add: tmt_releaseRemoveLock_def Let_def)
    ultimately show ?thesis using s1(1) by (auto simp: tmt_call_def)
  qed
qed

section \<open>Handlers\<close>

text \<open>The pool inside a handler, under the removal lock.\<close>

definition tmt_busy :: "(nat \<times> nat) multiset \<Rightarrow> transmitter \<Rightarrow> bool" where
  "tmt_busy acc s \<longleftrightarrow> tmt_wf acc s \<and> tmt_removeLockCount s = 1 \<and> \<not> tmt_sendLock s"

lemma tmt_busy_step: "tmt_busy acc s \<Longrightarrow> tmt_step_ok acc i s t s' \<Longrightarrow> tmt_busy acc s'"
  by (simp add: tmt_busy_def tmt_step_ok_def tmt_same_def)

lemma tmt_guarded_ok:
  assumes rest: "tmt_rest acc s"
    and f: "tmt_busy acc (s\<lparr>tmt_removeLockCount := 1\<rparr>) \<Longrightarrow>
      \<exists>s2. f (s\<lparr>tmt_removeLockCount := 1\<rparr>) = Some s2 \<and> tmt_busy acc s2"
  shows "\<exists>s'. tmt_guarded E remove f s = Some s' \<and> tmt_rest acc s'"
proof -
  have "tmt_busy acc (s\<lparr>tmt_removeLockCount := 1\<rparr>)"
    using rest by (simp add: tmt_busy_def tmt_rest_def tmt_wf_def)
  then obtain s2 where "f (s\<lparr>tmt_removeLockCount := 1\<rparr>) = Some s2" "tmt_busy acc s2" using f by blast
  then show ?thesis
    using tmt_releaseRemoveLock_ok [of acc s2 E remove] rest
    by (auto simp: tmt_guarded_def tmt_setRemoveLock_def tmt_rest_def tmt_busy_def)
qed

lemma tmt_step_others:
  assumes "tmt_step_ok acc i s t s'" "tmt_get i s = Some t0"
  shows "j \<noteq> i \<Longrightarrow> tmt_get j s' = tmt_get j s"
    and "\<exists>t'. tmt_get i s' = Some t' \<and> mt_protocol t' = mt_protocol t"
    and "fst ` set (tmt_list s') = fst ` set (tmt_list s)"
proof -
  obtain t' where t': "tmt_list s' = slot_put i t' (tmt_list s)" "mt_protocol t' = mt_protocol t"
    using assms(1) by (auto simp: tmt_step_ok_def)
  then show "j \<noteq> i \<Longrightarrow> tmt_get j s' = tmt_get j s"
    and "\<exists>t'. tmt_get i s' = Some t' \<and> mt_protocol t' = mt_protocol t"
    using assms(2) by (simp_all add: tmt_get_def map_of_slot_put)
  have "set (map fst (tmt_list s')) = set (map fst (tmt_list s))" unfolding t'(1) by simp
  then show "fst ` set (tmt_list s') = fst ` set (tmt_list s)" by simp
qed

lemma tmt_member: "i \<in> fst ` set (tmt_list s) \<Longrightarrow> \<exists>t. tmt_get i s = Some t"
  by (auto simp: tmt_get_def dest!: weak_map_of_SomeI)

lemma tx_cancel_done:
  "tr_transition (fst (tx_cancel p))" "tx_isDone (snd (tx_cancel p))"
  "tx_timeout (snd (tx_cancel p)) = TT_NONE" "tx_flowControl (snd (tx_cancel p)) \<noteq> FC_EXPECTED"
  by (simp_all add: tx_cancel_def tx_setFailed_def tx_isDone_def)

lemma tmt_shutdown_loop_ok:
  "tmt_busy acc s \<Longrightarrow> distinct is \<Longrightarrow> set is \<subseteq> fst ` set (tmt_list s) \<Longrightarrow>
   \<forall>i \<in> set is. \<forall>t. tmt_get i s = Some t \<longrightarrow> \<not> mt_isDone t \<Longrightarrow>
   \<exists>s'. tmt_shutdown_loop E is s = Some s' \<and> tmt_busy acc s'
     \<and> fst ` set (tmt_list s') = fst ` set (tmt_list s)
     \<and> (\<forall>j t'. tmt_get j s' = Some t' \<longrightarrow> mt_isDone t' \<or> j \<notin> set is \<and> tmt_get j s = Some t')"
proof (induction "is" arbitrary: s)
  case (Cons i "is")
  obtain t where t: "tmt_get i s = Some t" "\<not> mt_isDone t"
    using Cons.prems(3,4) tmt_member [of i s] by auto
  have wf: "tmt_wf acc s" using Cons.prems(1) by (simp add: tmt_busy_def)
  obtain s1 where s1: "tmt_apply E i (mt_lift tx_cancel) s = Some s1"
    "tmt_step_ok acc i s (t\<lparr>mt_protocol := snd (tx_cancel (mt_protocol t))\<rparr>) s1"
    using tmt_lift_ok [OF wf t, of tx_cancel E] tx_cancel_done by blast
  note o = tmt_step_others [OF s1(2) t(1)]
  have "\<forall>j \<in> set is. \<forall>t. tmt_get j s1 = Some t \<longrightarrow> \<not> mt_isDone t"
  proof (intro ballI allI impI)
    fix j t' assume j: "j \<in> set is" "tmt_get j s1 = Some t'"
    then have "j \<noteq> i" using Cons.prems(2) by auto
    then show "\<not> mt_isDone t'" using Cons.prems(4) j o(1) by auto
  qed
  then obtain s' where s': "tmt_shutdown_loop E is s1 = Some s'" "tmt_busy acc s'"
    "fst ` set (tmt_list s') = fst ` set (tmt_list s1)"
    "\<forall>j t'. tmt_get j s' = Some t' \<longrightarrow> mt_isDone t' \<or> j \<notin> set is \<and> tmt_get j s1 = Some t'"
    using Cons.IH [OF tmt_busy_step [OF Cons.prems(1) s1(2)]] Cons.prems(2,3) o(3) by auto
  have "mt_isDone t' \<or> j \<notin> set (i # is) \<and> tmt_get j s = Some t'" if "tmt_get j s' = Some t'" for j t'
  proof (cases "mt_isDone t'")
    case False
    then have j: "j \<notin> set is" "tmt_get j s1 = Some t'" using s'(4) that by auto
    then show ?thesis using o(1,2) tx_cancel_done(2) by (cases "j = i") (auto simp: mt_isDone_def)
  qed simp
  then show ?case using s1(1) s' o(3) by auto
qed auto

lemma tx_expired_ok:
  assumes "tx_isDone p \<Longrightarrow> tx_timeout p = TT_NONE"
  shows "tx_isDone p \<Longrightarrow> tx_expired p = (tx_result False, p)"
    and "\<not> tx_isDone p \<Longrightarrow> tr_transition (fst (tx_expired p)) \<or> snd (tx_expired p) = p"
    and "\<not> tx_isDone p \<Longrightarrow> tx_isDone (snd (tx_expired p)) \<Longrightarrow>
      tx_timeout (snd (tx_expired p)) = TT_NONE \<and> tx_flowControl (snd (tx_expired p)) \<noteq> FC_EXPECTED"
  using assms by (auto simp: tx_expired_def tx_setFailed_def tx_setSend_def tx_isDone_def tx_result_def
      split: TransmitTimeout.splits)

lemma mt_updateTimer_tx:
  assumes "mt_updateTimer now t = (x, t')"
  shows "mt_protocol t' = mt_protocol t" "mt_inv t' = mt_inv t" "mt_isDone t' = mt_isDone t"
    "mt_gone t' = mt_gone t" "owed t' = owed t" "mt_isSendingConsecutiveFrames t' = mt_isSendingConsecutiveFrames t"
  using assms
  by (auto simp: mt_updateTimer_def mt_inv_def mt_isDone_def mt_gone_def owed_def split: if_splits option.splits)

lemma tmt_cyclic_loop_ok:
  "tmt_busy acc s \<Longrightarrow> distinct is \<Longrightarrow> set is \<subseteq> fst ` set (tmt_list s) \<Longrightarrow>
   \<exists>s'. tmt_cyclic_loop E now is s = Some s' \<and> tmt_busy acc s'"
proof (induction "is" arbitrary: s)
  case (Cons i "is")
  obtain t where t: "tmt_get i s = Some t" using Cons.prems(3) tmt_member [of i s] by auto
  have wf: "tmt_wf acc s" using Cons.prems(1) by (simp add: tmt_busy_def)
  obtain x t1 where x: "mt_updateTimer now t = (x, t1)" by fastforce
  note u = mt_updateTimer_tx [OF x] and inv = tmt_wf_get [OF wf t]
  show ?case
  proof (cases x)
    case False then show ?thesis using t x Cons.prems(1) by simp
  next
    case True
    let ?s = "tmt_put i t1 s"
    have wf1: "tmt_wf acc ?s"
      by (rule tmt_wf_put [OF wf t, of _ t1 "[]"]) (use u inv in \<open>auto simp: tmt_put_def tdone1_def tsending1_def\<close>)
    have t1: "tmt_get i ?s = Some t1" using tmt_get_put [OF t] by simp
    have ids: "fst ` set (tmt_list ?s) = fst ` set (tmt_list s)"
      by (simp add: tmt_put_def)
    have b1: "tmt_busy acc ?s" using wf1 Cons.prems(1) by (simp add: tmt_busy_def tmt_put_def)
    have inv1: "mt_inv t1" "mt_isDone t1 \<longrightarrow> mt_gone t1" using u inv by simp_all
    note ex = tx_expired_ok [of "mt_protocol t1"]
    have st: "\<exists>s'. tmt_apply E i (mt_lift tx_expired) ?s = Some s'
        \<and> tmt_step_ok acc i ?s (t1\<lparr>mt_protocol := snd (tx_expired (mt_protocol t1))\<rparr>) s'"
    proof (rule tmt_apply_ok [OF wf1 t1 mt_lift_eq])
      show "mt_inv (t1\<lparr>mt_protocol := snd (tx_expired (mt_protocol t1))\<rparr>)"
        using inv1 ex by (cases "tx_isDone (mt_protocol t1)") (auto simp: mt_inv_def mt_isDone_def)
      show "tr_transition (fst (tx_expired (mt_protocol t1))) \<and> \<not> mt_isDone t1
        \<or> \<not> tr_transition (fst (tx_expired (mt_protocol t1)))
          \<and> mt_isDone (t1\<lparr>mt_protocol := snd (tx_expired (mt_protocol t1))\<rparr>) = mt_isDone t1
          \<and> (mt_isDone (t1\<lparr>mt_protocol := snd (tx_expired (mt_protocol t1))\<rparr>)
               \<longrightarrow> mt_gone (t1\<lparr>mt_protocol := snd (tx_expired (mt_protocol t1))\<rparr>))"
      proof (cases "mt_isDone t1")
        case True
        then have "tx_expired (mt_protocol t1) = (tx_result False, mt_protocol t1)"
          using ex(1) inv1(1) by (simp add: mt_inv_def mt_isDone_def)
        then show ?thesis using inv1(2) True by (simp add: tx_result_def)
      next
        case False
        then have "tr_transition (fst (tx_expired (mt_protocol t1))) \<or> snd (tx_expired (mt_protocol t1)) = mt_protocol t1"
          using ex(2) by (simp add: mt_isDone_def)
        then show ?thesis using False by auto
      qed
    qed simp_all
    then obtain s1 where s1: "tmt_apply E i (mt_lift tx_expired) ?s = Some s1"
      "tmt_step_ok acc i ?s (t1\<lparr>mt_protocol := snd (tx_expired (mt_protocol t1))\<rparr>) s1" by blast
    note o = tmt_step_others [OF s1(2) t1]
    then show ?thesis
      using Cons.IH [OF tmt_busy_step [OF b1 s1(2)]] Cons.prems(2,3) t x True s1(1) ids by auto
  qed
qed auto

lemma tmt_process_loop_ok:
  "tmt_busy acc s \<Longrightarrow> distinct is \<Longrightarrow> set is \<subseteq> fst ` set (tmt_list s) \<Longrightarrow>
   \<exists>s'. tmt_process_loop E is s = Some s' \<and> tmt_busy acc s'"
proof (induction "is" arbitrary: s)
  case (Cons i "is")
  obtain t where t: "tmt_get i s = Some t" using Cons.prems(3) tmt_member [of i s] by auto
  have wf: "tmt_wf acc s" using Cons.prems(1) by (simp add: tmt_busy_def)
  show ?case
  proof (cases "tx_state (mt_protocol t) = TS_INITIALIZED")
    case False
    then show ?thesis using Cons.IH [OF Cons.prems(1)] Cons.prems(2,3) t by simp
  next
    case True
    then have nd: "\<not> mt_isDone t" by (simp add: mt_isDone_def tx_isDone_def)
    obtain s1 where s1: "tmt_apply E i (mt_lift tx_start) s = Some s1"
      "tmt_step_ok acc i s (t\<lparr>mt_protocol := snd (tx_start (mt_protocol t))\<rparr>) s1"
      using tmt_lift_ok [OF wf t nd, of tx_start E] by (auto simp: tx_start_def tx_setSend_def tx_isDone_def tx_result_def)
    note o = tmt_step_others [OF s1(2) t]
    then show ?thesis
      using Cons.IH [OF tmt_busy_step [OF Cons.prems(1) s1(2)]] Cons.prems(2,3) t True s1(1) by auto
  qed
qed auto

section \<open>Every handler\<close>

text \<open>
  The environment's contract: the frame counts of the codecs of the address converter are
  defined, and sorting permutes.
\<close>

definition tx_env_ok :: "tx_env \<Rightarrow> bool" where
  "tx_env_ok E \<longleftrightarrow>
     (\<forall>a b c r t n. env_getTransmissionParameters E a b = Some (c, r, t) \<longrightarrow> getEncodedFrameCount c n \<noteq> None)
     \<and> (\<forall>l. mset (env_txSort E l) = mset l)"

datatype tmt_event =
    TmtSend message_ptr "nat option"
  | TmtFramesSent job_handle nat nat
  | TmtFlowControl address FlowStatus u8 u8
  | TmtCyclicTask u32
  | TmtProcess
  | TmtShutdown

fun tmt_handle :: "tx_env \<Rightarrow> tmt_event \<Rightarrow> transmitter \<Rightarrow> (tp_error option \<times> transmitter) option" where
  "tmt_handle E (TmtSend m l) s = map_option (\<lambda>(e, s). (Some e, s)) (tmt_send E m l s)"
| "tmt_handle E (TmtFramesSent j n k) s = map_option (Pair None) (tmt_dataFramesSent E j n k s)"
| "tmt_handle E (TmtFlowControl a fs bs st) s =
     map_option (Pair None) (tmt_flowControlFrameReceived E a fs bs st s)"
| "tmt_handle E (TmtCyclicTask now) s = map_option (Pair None) (tmt_cyclicTask E now s)"
| "tmt_handle E TmtProcess s = map_option (Pair None) (tmt_processMessageTransmitters E s)"
| "tmt_handle E TmtShutdown s = map_option (Pair None) (tmt_shutdown E s)"

text \<open>
  What may happen when: messages are well formed; the data link layer confirms jobs it was
  given, and no more bytes than they have; no shutdown comes between the end of a transmission
  and its removal.
\<close>

fun tmt_event_ok :: "tmt_event \<Rightarrow> transmitter \<Rightarrow> bool" where
  "tmt_event_ok (TmtSend m _) s \<longleftrightarrow> tm_wf (snd m)"
| "tmt_event_ok (TmtFramesSent j n k) s \<longleftrightarrow> j \<noteq> JobHandle_default
     \<and> (\<forall>(i, t) \<in> set (tmt_list s). mt_jobHandle t = j \<longrightarrow>
          mt_bytesSent t + k \<le> tm_payloadLength (snd (mt_message t)))"
| "tmt_event_ok TmtShutdown s \<longleftrightarrow> tmt_releasedTransmitterCount s = 0"
| "tmt_event_ok _ s \<longleftrightarrow> True"

fun tmt_run :: "tx_env \<Rightarrow> tmt_event list \<Rightarrow> transmitter \<Rightarrow> (tp_error option list \<times> transmitter) option" where
  "tmt_run E [] s = Some ([], s)"
| "tmt_run E (e # es) s = do {
     (r, s) \<leftarrow> tmt_handle E e s;
     (rs, s) \<leftarrow> tmt_run E es s;
     Some (r # rs, s) }"

fun tmt_run_ok :: "tx_env \<Rightarrow> tmt_event list \<Rightarrow> transmitter \<Rightarrow> bool" where
  "tmt_run_ok E [] s \<longleftrightarrow> True"
| "tmt_run_ok E (e # es) s \<longleftrightarrow> tmt_event_ok e s
     \<and> (case tmt_handle E e s of None \<Rightarrow> True | Some (_, s') \<Rightarrow> tmt_run_ok E es s')"

text \<open>The notifications that the accepted messages of a run ask for.\<close>

fun asked1 :: "tmt_event \<Rightarrow> tp_error option \<Rightarrow> (nat \<times> nat) multiset" where
  "asked1 (TmtSend m (Some l)) (Some TP_OK) = {#(l, fst m)#}"
| "asked1 _ _ = {#}"

definition asked :: "tmt_event list \<Rightarrow> tp_error option list \<Rightarrow> (nat \<times> nat) multiset" where
  "asked es rs = sum_list (map2 asked1 es rs)"

lemma find_member:
  assumes "map_option fst (find P l) = Some i" and "distinct (map fst l)"
  shows "\<exists>x. map_of l i = Some x \<and> (i, x) \<in> set l \<and> P (i, x)"
proof -
  obtain p where p: "find P l = Some p" "fst p = i" using assms(1) by auto
  then have "P p" "p \<in> set l" by (auto simp: find_Some_iff)
  then show ?thesis using p(2) assms(2) by (cases p) auto
qed

lemma owed_same:
  "mt_notificationListener t' = mt_notificationListener t \<Longrightarrow> mt_message t' = mt_message t \<Longrightarrow> owed t' = owed t"
  by (cases "mt_notificationListener t") (simp_all add: owed_def)

lemma tmt_dataFramesSent_ok:
  assumes rest: "tmt_rest acc s" and ok: "tmt_event_ok (TmtFramesSent j n k) s"
  shows "\<exists>s'. tmt_dataFramesSent E j n k s = Some s' \<and> tmt_rest acc s'"
  unfolding tmt_dataFramesSent_def Let_def
proof (rule tmt_guarded_ok [OF rest])
  let ?s = "s\<lparr>tmt_removeLockCount := 1, tmt_pendingSend := False\<rparr>"
  assume "tmt_busy acc (s\<lparr>tmt_removeLockCount := 1\<rparr>)"
  then have b: "tmt_busy acc ?s" by (simp add: tmt_busy_def)
  have tick: "tmt_busy acc (tmt_call TickNeeded x)" if "tmt_busy acc x" for x
    using that tmt_wf_call [of acc x TickNeeded] by (simp add: tmt_busy_def notified_def tmt_call_def)
  have "\<exists>s2. (case tmt_findByJobHandle j ?s of
       None \<Rightarrow> Some ?s
     | Some i \<Rightarrow> do {
         s \<leftarrow> tmt_apply E i (mt_framesSent n k) ?s;
         Some (if tmt_isSendingConsecutiveFrames s then tmt_call TickNeeded s else s) }) = Some s2
      \<and> tmt_busy acc s2"
  proof (cases "tmt_findByJobHandle j ?s")
    case None then show ?thesis using b by simp
  next
    case (Some i)
    have wf: "tmt_wf acc ?s" using b by (simp add: tmt_busy_def)
    obtain t where t: "map_of (tmt_list s) i = Some t" "(i, t) \<in> set (tmt_list s)" "j = mt_jobHandle t"
      using find_member [OF Some [unfolded tmt_findByJobHandle_def]] wf by (auto simp: tmt_wf_def)
    have g: "tmt_get i ?s = Some t" using t(1) by (simp add: tmt_get_def)
    have inv: "mt_inv t" "\<not> mt_isDone t"
      using tmt_wf_get [OF wf g] ok t(3) by (auto simp: mt_gone_def)
    have bytes: "mt_bytesSent t + k \<le> tm_payloadLength (snd (mt_message t))" "tm_payloadLength (snd (mt_message t)) < 65536"
      using ok t inv(1) by (auto simp: mt_inv_def tm_wf_def)
    let ?p = "tx_framesSent (of_nat n) (mt_protocol t)"
    let ?t = "t\<lparr>mt_bytesSent := mt_bytesSent t + k, mt_protocol := snd ?p\<rparr>"
    have f: "mt_framesSent n k t = (fst ?p, ?t)"
      using bytes by (simp add: mt_framesSent_def mt_lift_eq to_u16_def)
    have p: "tr_transition (fst ?p)"
      by (simp add: tx_ops Let_def split: FlowControl.splits)
    have d: "tx_isDone (snd ?p) \<Longrightarrow> tx_timeout (snd ?p) = TT_NONE \<and> tx_flowControl (snd ?p) \<noteq> FC_EXPECTED"
      using inv(2) unfolding tx_ops Let_def mt_isDone_def tx_isDone_def
      by (simp split: if_splits FlowControl.splits)
    have "owed ?t = owed t" by (rule owed_same) simp_all
    then obtain s2 where s2: "tmt_apply E i (mt_framesSent n k) ?s = Some s2" "tmt_step_ok acc i ?s ?t s2"
      using tmt_apply_ok [where f = "mt_framesSent n k", OF wf g f, of E] inv bytes p d
      by (auto simp: mt_inv_def mt_isDone_def)
    then show ?thesis using Some tmt_busy_step [OF b s2(2)] tick by simp
  qed
  then show "\<exists>s2. (case tmt_findByJobHandle j (s\<lparr>tmt_removeLockCount := 1, tmt_pendingSend := False\<rparr>) of
       None \<Rightarrow> Some (s\<lparr>tmt_removeLockCount := 1, tmt_pendingSend := False\<rparr>)
     | Some i \<Rightarrow> do {
         s \<leftarrow> tmt_apply E i (mt_framesSent n k) (s\<lparr>tmt_removeLockCount := 1, tmt_pendingSend := False\<rparr>);
         Some (if tmt_isSendingConsecutiveFrames s then tmt_call TickNeeded s else s) }) = Some s2
      \<and> tmt_busy acc s2" .
qed

lemma tmt_flowControlFrameReceived_ok:
  assumes rest: "tmt_rest acc s"
  shows "\<exists>s'. tmt_flowControlFrameReceived E a fs bs st s = Some s' \<and> tmt_rest acc s'"
  unfolding tmt_flowControlFrameReceived_def
proof (rule tmt_guarded_ok [OF rest])
  let ?s = "s\<lparr>tmt_removeLockCount := 1\<rparr>"
  assume b: "tmt_busy acc ?s"
  show "\<exists>s2. (case tmt_findByReceptionAddress a ?s of
       None \<Rightarrow> Some ?s
     | Some i \<Rightarrow> tmt_apply E i (mt_handleFlowControl fs bs
         (decodeMinSeparationTime st) (maxFlowControlWaitCount (tmt_params ?s))) ?s) = Some s2
      \<and> tmt_busy acc s2"
  proof (cases "tmt_findByReceptionAddress a ?s")
    case None then show ?thesis using b by simp
  next
    case (Some i)
    have wf: "tmt_wf acc ?s" using b by (simp add: tmt_busy_def)
    obtain t where t: "map_of (tmt_list s) i = Some t"
      using find_member [OF Some [unfolded tmt_findByReceptionAddress_def]] wf by (auto simp: tmt_wf_def)
    have g: "tmt_get i ?s = Some t" using t(1) by (simp add: tmt_get_def)
    have inv: "mt_inv t" "mt_isDone t \<longrightarrow> mt_gone t" using tmt_wf_get [OF wf g] by auto
    let ?st = "decodeMinSeparationTime st" and ?w = "maxFlowControlWaitCount (tmt_params s)"
    let ?p = "tx_handleFlowControl fs bs (?st > 0) ?w (mt_protocol t)"
    define t' where "t' = snd (mt_handleFlowControl fs bs ?st ?w t)"
    have f: "mt_handleFlowControl fs bs ?st ?w t = (fst ?p, t')"
      by (simp add: t'_def mt_handleFlowControl_def mt_lift_eq)
    have t': "mt_protocol t' = snd ?p" "mt_message t' = mt_message t" "mt_bytesSent t' = mt_bytesSent t"
      "mt_notificationListener t' = mt_notificationListener t"
      "mt_isSendingConsecutiveFrames t' = mt_isSendingConsecutiveFrames t"
      by (simp_all add: t'_def mt_handleFlowControl_def mt_lift_eq)
    have fin: "?p = (tx_result False, mt_protocol t) \<and> t' = t" if "tx_flowControl (mt_protocol t) \<noteq> FC_EXPECTED"
      using that by (simp add: t'_def mt_handleFlowControl_def mt_lift_eq tx_handleFlowControl_def tx_result_def)
    have d: "tx_isDone (snd ?p) \<Longrightarrow> tx_timeout (snd ?p) = TT_NONE \<and> tx_flowControl (snd ?p) \<noteq> FC_EXPECTED"
      if "\<not> mt_isDone t"
      using that unfolding tx_ops Let_def mt_isDone_def tx_isDone_def
      by (simp split: if_splits FlowStatus.splits)
    have tr: "tr_transition (fst ?p) \<or> \<not> tx_isDone (snd ?p)" if "\<not> mt_isDone t"
      using that unfolding tx_ops Let_def mt_isDone_def tx_isDone_def
      by (simp split: if_splits FlowStatus.splits)
    have "mt_inv t'"
    proof (cases "mt_isDone t")
      case True then show ?thesis using inv fin by (simp add: mt_inv_def)
    next
      case False then show ?thesis using inv d t' by (simp add: mt_inv_def mt_isDone_def)
    qed
    moreover have "owed t' = owed t" by (rule owed_same) (simp_all add: t')
    moreover have "tr_transition (fst ?p) \<and> \<not> mt_isDone t
      \<or> \<not> tr_transition (fst ?p) \<and> mt_isDone t' = mt_isDone t \<and> (mt_isDone t' \<longrightarrow> mt_gone t')"
    proof (cases "mt_isDone t")
      case True then show ?thesis using inv fin by (simp add: mt_inv_def tx_result_def)
    next
      case False then show ?thesis using tr t'(1) by (auto simp: mt_isDone_def)
    qed
    ultimately obtain s2 where "tmt_apply E i (mt_handleFlowControl fs bs ?st ?w) ?s = Some s2"
      "tmt_step_ok acc i ?s t' s2"
      using tmt_apply_ok [where f = "mt_handleFlowControl fs bs ?st ?w", OF wf g f, of E] t'(5) by blast
    then show ?thesis using Some tmt_busy_step [OF b] by auto
  qed
qed

lemma tmt_busy_ids: "tmt_busy acc s \<Longrightarrow> distinct (map fst (tmt_list s))"
  by (simp add: tmt_busy_def tmt_wf_def)

lemma tmt_processMessageTransmitters_ok:
  assumes "tmt_rest acc s"
  shows "\<exists>s'. tmt_processMessageTransmitters E s = Some s' \<and> tmt_rest acc s'"
  unfolding tmt_processMessageTransmitters_def
  by (rule tmt_guarded_ok [OF assms]) (use tmt_process_loop_ok tmt_busy_ids in force)

lemma tmt_rest_sort:
  assumes "tmt_rest acc s" and "mset l = mset (tmt_list s)"
  shows "tmt_rest acc (s\<lparr>tmt_list := l, tmt_timersUpdated := x\<rparr>)"
proof -
  have "distinct (map fst l) = distinct (map fst (tmt_list s))"
    using assms(2) by (metis mset_map mset_eq_imp_distinct_iff)
  moreover have "slot_sum f l = slot_sum f (tmt_list s)" for f :: "message_transmitter \<Rightarrow> nat"
    using assms(2) unfolding slot_sum_def by (metis mset_map sum_mset_sum_list)
  moreover have "slot_sum owed l = slot_sum owed (tmt_list s)"
    using assms(2) unfolding slot_sum_def by (metis mset_map sum_mset_sum_list)
  moreover have "set l = set (tmt_list s)" "length l = length (tmt_list s)"
    using assms(2) mset_eq_setD mset_eq_length by blast+
  ultimately show ?thesis using assms(1) by (simp add: tmt_rest_def tmt_wf_def)
qed

lemma tmt_cyclicTask_ok:
  assumes E: "tx_env_ok E" and rest: "tmt_rest acc s"
  shows "\<exists>s'. tmt_cyclicTask E now s = Some s' \<and> tmt_rest acc s'"
proof -
  have "\<exists>s1. tmt_guarded E True (\<lambda>s. tmt_cyclic_loop E now (map fst (tmt_list s)) s) s = Some s1 \<and> tmt_rest acc s1"
    by (rule tmt_guarded_ok [OF rest]) (use tmt_cyclic_loop_ok tmt_busy_ids in force)
  moreover have "mset (env_txSort E l) = mset l" for l using E by (simp add: tx_env_ok_def)
  ultimately show ?thesis using tmt_rest_sort by (auto simp: tmt_cyclicTask_def)
qed

lemma tdone1_zero: "slot_sum tdone1 l = 0 \<longleftrightarrow> (\<forall>(j, t) \<in> set l. \<not> mt_isDone t)"
  by (induction l) (auto simp: tdone1_def)

lemma tmt_sendNextFrames_idle:
  assumes "\<not> tmt_sendLock s" "\<forall>(i, t) \<in> set (tmt_list s). tx_state (mt_protocol t) \<noteq> TS_SEND"
  shows "\<exists>s'. tmt_sendNextFrames E s = Some s' \<and> tmt_list s' = tmt_list s"
proof -
  have "tmt_scan l = None" if "\<forall>(i, t) \<in> set l. tx_state (mt_protocol t) \<noteq> TS_SEND" for l
    using that by (induction l rule: tmt_scan.induct) auto
  then have "tmt_scan (tmt_circle i (tmt_list s)) = None" for i
    using assms(2) by (simp add: circle_set)
  then have "fst (tmt_setSendLock s) = None" "tmt_list (snd (tmt_setSendLock s)) = tmt_list s"
    by (auto simp: tmt_setSendLock_def split: list.splits)
  then show ?thesis
    by (subst tmt_sendNextFrames.simps) (cases "tmt_setSendLock s"; simp add: tmt_releaseSendLock_def)
qed

lemma tmt_shutdown_ok:
  assumes rest: "tmt_rest acc s" and none: "tmt_releasedTransmitterCount s = 0"
  shows "\<exists>s'. tmt_shutdown E s = Some s' \<and> tmt_rest acc s' \<and> tmt_list s' = []"
proof -
  let ?s = "s\<lparr>tmt_removeLockCount := 1\<rparr>"
  have b: "tmt_busy acc ?s" using rest by (simp add: tmt_busy_def tmt_rest_def tmt_wf_def)
  have "slot_sum tdone1 (tmt_list s) = 0" using rest none by (simp add: tmt_rest_def tmt_wf_def)
  then have nd: "\<not> mt_isDone t" if "tmt_get i ?s = Some t" for i t
    using that unfolding tdone1_zero tmt_get_def by (auto dest: map_of_SomeD)
  have nd': "\<forall>i \<in> set (map fst (tmt_list ?s)). \<forall>t. tmt_get i ?s = Some t \<longrightarrow> \<not> mt_isDone t"
    using nd by blast
  have sub: "set (map fst (tmt_list ?s)) \<subseteq> fst ` set (tmt_list ?s)" by simp
  from tmt_shutdown_loop_ok [OF b tmt_busy_ids [OF b] sub nd', of E]
  obtain s2 where s2: "tmt_shutdown_loop E (map fst (tmt_list ?s)) ?s = Some s2" "tmt_busy acc s2"
    "fst ` set (tmt_list s2) = fst ` set (tmt_list ?s)"
    "\<forall>j t'. tmt_get j s2 = Some t' \<longrightarrow> mt_isDone t' \<or> j \<notin> set (map fst (tmt_list ?s)) \<and> tmt_get j ?s = Some t'"
    by (elim exE conjE)
  have fin: "mt_isDone t" if "(i, t) \<in> set (tmt_list s2)" for i t
  proof -
    have "tmt_get i s2 = Some t" using that s2(2) by (simp add: tmt_get_def tmt_busy_def tmt_wf_def)
    moreover have "i \<in> set (map fst (tmt_list ?s))" using that s2(3) by force
    ultimately show ?thesis using s2(4) by blast
  qed
  have "tx_state (mt_protocol t) \<noteq> TS_SEND" if "(i, t) \<in> set (tmt_list s2)" for i t
    using fin [OF that] by (auto simp: mt_isDone_def tx_isDone_def)
  then have "\<forall>(i, t) \<in> set (tmt_list s2). tx_state (mt_protocol t) \<noteq> TS_SEND" by blast
  then obtain s3 where s3: "tmt_sendNextFrames E s2 = Some s3" "tmt_list s3 = tmt_list s2"
    using tmt_sendNextFrames_idle [of s2 E] s2(2) by (auto simp: tmt_busy_def)
  obtain s4 where s4: "tmt_releaseRemoveLock E True s2 = Some s4" "tmt_rest acc s4"
    "tmt_list s4 = unfinished (tmt_list s3)"
    using tmt_releaseRemoveLock_ok [of acc s2 E True] s2(2) s3(1) by (auto simp: tmt_busy_def)
  have "tmt_list s4 = []" unfolding s4(3) s3(2) using fin by (auto simp: filter_empty_conv)
  moreover have "tmt_shutdown E s = Some s4"
    using s2(1) s4(1) rest by (simp add: tmt_shutdown_def tmt_guarded_def tmt_setRemoveLock_def tmt_rest_def)
  ultimately show ?thesis using s4(2) by blast
qed

lemma tmt_send_ok:
  assumes E: "tx_env_ok E" and rest: "tmt_rest acc s" and m: "tm_wf (snd m)"
  shows "\<exists>e s'. tmt_send E m l s = Some (e, s') \<and> tmt_rest (acc + asked1 (TmtSend m l) (Some e)) s'"
proof -
  have none: "asked1 (TmtSend m l) (Some e) = {#}" if "e \<noteq> TP_OK" for e
    using that by (cases e; cases l) auto
  let ?m = "snd m"
  show ?thesis
  proof (cases "env_getTransmissionParameters E (tm_sourceAddress ?m) (tm_targetAddress ?m)")
    case None then show ?thesis using rest none by (simp add: tmt_send_def)
  next
    case (Some crt)
    obtain c r t where crt: "crt = (c, r, t)" by (cases crt)
    obtain fc where fc: "getEncodedFrameCount c (tm_payloadLength ?m) = Some fc"
      using E Some crt by (fastforce simp: tx_env_ok_def)
    show ?thesis
    proof (cases "isComplete ?m \<and> (\<exists>n k. fc = Inr (n, k) \<and> \<not> (n > 1 \<and> tmt_findByReceptionAddress r s \<noteq> None))
        \<and> length (tmt_list s) \<noteq> tmt_poolSize s")
      case False
      then show ?thesis using Some crt fc rest none
        by (cases fc) (auto simp: tmt_send_def Let_def)
    next
      case True
      then obtain n k where n: "fc = Inr (n, k)" "\<not> (n > 1 \<and> tmt_findByReceptionAddress r s \<noteq> None)" by auto
      let ?i = "tmt_nextSlot s" and ?j = "tmt_jobCounter s + 1"
      let ?t = "mt_new \<lparr>jh_counter = ?j, jh_userData = env_poolIndex E ?i\<rparr> c r t m l n k"
      let ?s = "tmt_call ExecuteProcessTransmitters
        (s\<lparr>tmt_nextSlot := ?i + 1, tmt_jobCounter := ?j, tmt_list := tmt_list s @ [(?i, ?t)]\<rparr>)"
      have eq: "tmt_send E m l s = Some (TP_OK, ?s)"
        using Some crt fc n True by (simp add: tmt_send_def Let_def)
      have t: "\<not> mt_isDone ?t" "mt_inv ?t" "owed ?t = asked1 (TmtSend m l) (Some TP_OK)"
        "\<not> mt_isSendingConsecutiveFrames ?t"
        using m by (cases l; simp add: mt_new_def mt_isDone_def tx_isDone_def tx_new_def mt_inv_def owed_def)+
      have "length (tmt_list s) < tmt_poolSize s" using True rest by (auto simp: tmt_rest_def tmt_wf_def)
      moreover have "?i \<notin> fst ` set (tmt_list s)" using rest by (auto simp: tmt_rest_def tmt_wf_def)
      ultimately have "tmt_rest (acc + asked1 (TmtSend m l) (Some TP_OK)) ?s"
        using rest t by (auto simp: tmt_rest_def tmt_wf_def tmt_call_def notified_append notified_def
            tdone1_def tsending1_def less_Suc_eq ac_simps)
      then show ?thesis using eq by blast
    qed
  qed
qed

lemma tmt_handle_ok:
  assumes E: "tx_env_ok E" and rest: "tmt_rest acc s" and e: "tmt_event_ok e s"
  shows "\<exists>r s'. tmt_handle E e s = Some (r, s') \<and> tmt_rest (acc + asked1 e r) s'"
proof (cases e)
  case (TmtSend m l)
  then obtain r s' where "tmt_send E m l s = Some (r, s')" "tmt_rest (acc + asked1 e (Some r)) s'"
    using tmt_send_ok [OF E rest, of m l] e by auto
  then show ?thesis using TmtSend by auto
next
  case (TmtFramesSent j n k)
  then show ?thesis using tmt_dataFramesSent_ok [OF rest] e by auto
next
  case (TmtFlowControl a fs bs st)
  then show ?thesis using tmt_flowControlFrameReceived_ok [OF rest, of E a fs bs st] by auto
next
  case (TmtCyclicTask now)
  then show ?thesis using tmt_cyclicTask_ok [OF E rest, of now] by auto
next
  case TmtProcess
  then show ?thesis using tmt_processMessageTransmitters_ok [OF rest, of E] by auto
next
  case TmtShutdown
  then show ?thesis using tmt_shutdown_ok [OF rest, of E] e by auto
qed

lemma tmt_run_rest:
  assumes E: "tx_env_ok E"
  shows "tmt_rest acc s \<Longrightarrow> tmt_run_ok E es s \<Longrightarrow>
    \<exists>rs s'. tmt_run E es s = Some (rs, s') \<and> tmt_rest (acc + asked es rs) s'"
proof (induction es arbitrary: acc s)
  case (Cons e es)
  obtain r s1 where s1: "tmt_handle E e s = Some (r, s1)" "tmt_rest (acc + asked1 e r) s1"
    using tmt_handle_ok [OF E Cons.prems(1), of e] Cons.prems(2) by auto
  obtain rs s' where "tmt_run E es s1 = Some (rs, s')" "tmt_rest (acc + asked1 e r + asked es rs) s'"
    using Cons.IH [OF s1(2)] Cons.prems(2) s1(1) by auto
  then show ?case using s1(1) by (auto simp: asked_def ac_simps)
qed (simp add: asked_def)

lemma tmt_rest_new: "n \<le> 255 \<Longrightarrow> tmt_rest {#} (tmt_new n p)"
  by (simp add: tmt_rest_def tmt_wf_def tmt_new_def)

end
