(* ===== verification/DocanTransmitterProps.thy ===== *)
theory DocanTransmitterProps imports DocanTransmitterCorrect begin

text \<open>
  What the transmitter guarantees over whole runs, and two ways in which it fails: a shutdown
  between the end of a transmission and its removal, and a send lock that is released by a call
  that did not take it.
\<close>


section \<open>Shutdown while finished transmissions wait for their removal\<close>

text \<open>Cancelling counts a removal whether or not the transmission has been counted already.\<close>

lemma tmt_resetTimer_Some:
  assumes r: "tmt_resetTimer E i s = Some s1" and g: "tmt_get i s = Some t"
  shows "\<exists>n x y. s1 = (tmt_put i (mt_setTimer x y t) s)\<lparr>tmt_sendingConsecutiveFramesCount := n\<rparr>"
proof -
  define t' where "t' = tmt_nextTimer (tmt_params s) (env_txNowUs E (tmt_trace s)) t"
  have t': "\<exists>x y. t' = mt_setTimer x y t"
    unfolding t'_def tmt_nextTimer_def by (cases "tx_timeout (mt_protocol t)") auto
  have "s1 = (tmt_put i t' s)\<lparr>tmt_sendingConsecutiveFramesCount := tmt_sendingConsecutiveFramesCount s1\<rparr>"
    using r g
    by (cases "mt_isSendingConsecutiveFrames t"; cases "mt_isSendingConsecutiveFrames t'")
      (auto simp: tmt_resetTimer_def t'_def [symmetric] tmt_put_def split: Option.bind_splits)
  then show ?thesis using t' by metis
qed

lemma tmt_cancel_counts:
  assumes "tmt_apply E i (mt_lift tx_cancel) s = Some s'"
  shows "tmt_releasedTransmitterCount s' = tmt_releasedTransmitterCount s + 1"
    and "map fst (tmt_list s') = map fst (tmt_list s)" and "tmt_sendLock s' = tmt_sendLock s"
    and "tmt_removeLockCount s' = tmt_removeLockCount s"
    and "\<exists>t. tmt_get i s' = Some t \<and> mt_isDone t"
    and "j \<noteq> i \<Longrightarrow> tmt_get j s' = tmt_get j s"
proof -
  obtain t0 where t0: "tmt_get i s = Some t0" using assms by (cases "tmt_get i s") (auto simp: tmt_apply_def)
  let ?t = "t0\<lparr>mt_protocol := snd (tx_cancel (mt_protocol t0))\<rparr>"
  obtain s1 where s1: "tmt_resetTimer E i (tmt_put i ?t s) = Some s1"
    using assms t0 by (cases "tmt_resetTimer E i (tmt_put i ?t s)")
      (auto simp: tmt_apply_def mt_lift_eq tmt_handleResult_def tx_cancel_done)
  have g: "tmt_get i (tmt_put i ?t s) = Some ?t" using t0 by (simp add: tmt_get_put)
  have "\<exists>n x y. s1 = (tmt_put i (mt_setTimer x y ?t) (tmt_put i ?t s))\<lparr>tmt_sendingConsecutiveFramesCount := n\<rparr>"
    by (rule tmt_resetTimer_Some [OF s1]) (use g in simp)
  then have "\<exists>n x y. s1 = (tmt_put i (mt_setTimer x y ?t) s)\<lparr>tmt_sendingConsecutiveFramesCount := n\<rparr>"
    by (simp add: tmt_put_def)
  then obtain n x y where s1': "s1 = (tmt_put i (mt_setTimer x y ?t) s)\<lparr>tmt_sendingConsecutiveFramesCount := n\<rparr>"
    by blast
  have g1: "tmt_get i s1 = Some (mt_setTimer x y ?t)"
    using t0 unfolding s1' by (simp add: tmt_get_def tmt_put_def map_of_slot_put)
  have d: "mt_isDone ?t" by (simp add: mt_isDone_def tx_cancel_done)
  obtain calls pn where "s' = s1\<lparr>tmt_list := slot_put i (mt_release (mt_setTimer x y ?t)) (tmt_list s1),
      tmt_trace := calls, tmt_pendingSend := pn,
      tmt_releasedTransmitterCount := tmt_releasedTransmitterCount s + 1, tmt_switchContext := True\<rparr>"
    using assms t0 s1 g1 d
    by (cases s) (auto simp: tmt_apply_def mt_lift_eq tmt_handleResult_def tx_cancel_done Let_def tmt_put_def
        tmt_call_def s1' split: if_splits Option.bind_splits)
  then show "tmt_releasedTransmitterCount s' = tmt_releasedTransmitterCount s + 1"
    and "map fst (tmt_list s') = map fst (tmt_list s)" and "tmt_sendLock s' = tmt_sendLock s"
    and "tmt_removeLockCount s' = tmt_removeLockCount s"
    and "\<exists>t. tmt_get i s' = Some t \<and> mt_isDone t"
    and "j \<noteq> i \<Longrightarrow> tmt_get j s' = tmt_get j s"
    using t0 d by (simp_all add: s1' tmt_get_def tmt_put_def map_of_slot_put)
qed

lemma tmt_shutdown_loop_counts:
  "tmt_shutdown_loop E is s = Some s' \<Longrightarrow>
   tmt_releasedTransmitterCount s' = tmt_releasedTransmitterCount s + length is
   \<and> map fst (tmt_list s') = map fst (tmt_list s) \<and> tmt_sendLock s' = tmt_sendLock s
   \<and> tmt_removeLockCount s' = tmt_removeLockCount s
   \<and> (\<forall>j t. tmt_get j s' = Some t \<longrightarrow> mt_isDone t \<or> j \<notin> set is)"
proof (induction "is" arbitrary: s)
  case (Cons i "is")
  obtain s1 where s1: "tmt_apply E i (mt_lift tx_cancel) s = Some s1" "tmt_shutdown_loop E is s1 = Some s'"
    using Cons.prems by (cases "tmt_apply E i (mt_lift tx_cancel) s") auto
  note c = tmt_cancel_counts [OF s1(1)] and ih = Cons.IH [OF s1(2)]
  have stay: "tmt_shutdown_loop E js r = Some r' \<Longrightarrow> tmt_get i r = Some u \<Longrightarrow> mt_isDone u \<Longrightarrow>
      \<exists>u'. tmt_get i r' = Some u' \<and> mt_isDone u'" for js r r' u
  proof (induction js arbitrary: r u)
    case (Cons k js)
    obtain r1 where r1: "tmt_apply E k (mt_lift tx_cancel) r = Some r1" "tmt_shutdown_loop E js r1 = Some r'"
      using Cons.prems by (cases "tmt_apply E k (mt_lift tx_cancel) r") auto
    then show ?case using tmt_cancel_counts(5,6) [OF r1(1)] Cons.IH [OF r1(2)] Cons.prems
      by (cases "k = i") auto
  qed auto
  obtain u where "tmt_get i s' = Some u" "mt_isDone u" using stay [OF s1(2)] c(5) by blast
  then show ?case using c ih by auto
qed simp

lemma tmt_remove_walk_too_many:
  "length (finished l) < k \<Longrightarrow> tmt_remove_walk k l it pending = None"
proof (induction l arbitrary: k it pending)
  case Nil then show ?case by (cases k) auto
next
  case (Cons p l)
  obtain i t where p: "p = (i, t)" by (cases p)
  obtain k' where k: "k = Suc k'" using Cons.prems by (cases k) auto
  show ?case using Cons.IH Cons.prems unfolding p k by auto
qed

lemma tmt_shutdown_aborts:
  assumes rest: "tmt_rest acc s" and fin: "tmt_releasedTransmitterCount s > 0"
  shows "tmt_shutdown E s = None"
proof (cases "tmt_shutdown_loop E (map fst (tmt_list s)) (s\<lparr>tmt_removeLockCount := 1\<rparr>)")
  case None
  then show ?thesis using rest
    by (simp add: tmt_shutdown_def tmt_guarded_def tmt_setRemoveLock_def tmt_rest_def)
next
  case (Some s2)
  note c = tmt_shutdown_loop_counts [OF Some]
  have ids: "map fst (tmt_list s2) = map fst (tmt_list s)" using c by simp
  have d: "mt_isDone t" if "(i, t) \<in> set (tmt_list s2)" for i t
  proof -
    have "distinct (map fst (tmt_list s2))" using ids rest by (simp add: tmt_rest_def tmt_wf_def)
    then have "tmt_get i s2 = Some t" using that by (simp add: tmt_get_def)
    moreover have "i \<in> set (map fst (tmt_list s))" unfolding ids [symmetric] using that by force
    ultimately show ?thesis using c by blast
  qed
  have ns: "tx_state (mt_protocol t) \<noteq> TS_SEND" if "(i, t) \<in> set (tmt_list s2)" for i t
    using d [OF that] by (auto simp: mt_isDone_def tx_isDone_def)
  have lock: "\<not> tmt_sendLock s2" using c rest by (simp add: tmt_rest_def)
  have none: "tmt_scan (tmt_circle i (tmt_list s2)) = None" for i
  proof -
    have "tmt_scan l = None" if "\<forall>(i, t) \<in> set l. tx_state (mt_protocol t) \<noteq> TS_SEND" for l
      using that by (induction l rule: tmt_scan.induct) auto
    moreover have "\<forall>(j, t) \<in> set (tmt_circle i (tmt_list s2)). tx_state (mt_protocol t) \<noteq> TS_SEND"
      unfolding circle_set using ns by blast
    ultimately show ?thesis by blast
  qed
  have "\<exists>it. tmt_sendNextFrames E s2 = Some (s2\<lparr>tmt_sendIt := it, tmt_sendLock := False\<rparr>)"
    using none lock by (subst tmt_sendNextFrames.simps)
      (cases s2; cases "tmt_list s2"; auto simp: tmt_setSendLock_def tmt_releaseSendLock_def split: list.splits)
  then obtain it where snd: "tmt_sendNextFrames E s2 = Some (s2\<lparr>tmt_sendIt := it, tmt_sendLock := False\<rparr>)" ..
  have "length (finished (tmt_list s2)) \<le> length (tmt_list s2)" by simp
  also have "\<dots> = length (map fst (tmt_list s))" using arg_cong [OF ids, of length] by simp
  also have "\<dots> < tmt_releasedTransmitterCount s2" using c fin by simp
  finally have walk: "tmt_remove_walk (tmt_releasedTransmitterCount s2) (tmt_list s2) x y = None" for x y
    by (rule tmt_remove_walk_too_many)
  have "tmt_removeLockCount s2 = 1" using c by simp
  then have "tmt_releaseRemoveLock E True s2 = None"
    using walk snd by (simp add: tmt_releaseRemoveLock_def Let_def)
  then show ?thesis using Some rest
    by (simp add: tmt_shutdown_def tmt_guarded_def tmt_setRemoveLock_def tmt_rest_def)
qed

section \<open>Properties\<close>

definition demo_tx_env :: "(tx_call list \<Rightarrow> SendResult) \<Rightarrow> tx_env" where
  "demo_tx_env result =
     \<lparr>env_getTransmissionParameters = (\<lambda>_ _. Some (OPTIMIZED_CLASSIC, 0x10, 0x11)),
      env_startSendDataFrames = (\<lambda>tr _ _ _ _ _ _ _. result tr), env_txNowUs = (\<lambda>_. 0),
      env_poolIndex = of_nat, env_txSort = (\<lambda>l. l)\<rparr>"

lemma demo_tx_env_ok: "tx_env_ok (demo_tx_env result)"
proof -
  have "getEncodedFrameCount OPTIMIZED_CLASSIC n \<noteq> None" for n
    by (auto simp: getEncodedFrameCount_def OPTIMIZED_CLASSIC_def fitsIntoLongSingleFrame_def Let_def)
  then show ?thesis by (simp add: tx_env_ok_def demo_tx_env_def)
qed

definition demo_tx_params :: params where
  "demo_tx_params = \<lparr>waitAllocateTimeout = 100, waitRxTimeout = 1000, waitTxCallbackTimeout = 1000,
     waitFlowControlTimeout = 1000, encodedMinSeparationTime = 0, maxBlockSize = 0,
     maxAllocateRetryCount = 5, maxFlowControlWaitCount = 5\<rparr>"

definition demo_message :: message_ptr where
  "demo_message = (42, (tm_new [1, 2, 3])\<lparr>tm_payloadLength := 3, tm_validBytes := 3\<rparr>)"

text \<open>A message in a single frame is sent and confirmed.\<close>

definition demo_tx_events :: "tmt_event list" where
  "demo_tx_events = [TmtSend demo_message (Some 7), TmtProcess,
     TmtFramesSent \<lparr>jh_counter = 1, jh_userData = 0\<rparr> 1 3]"

abbreviation demo_queued :: tx_env where
  "demo_queued \<equiv> demo_tx_env (\<lambda>_. SR_QUEUED)"

lemmas tmt_eval =
  demo_tx_env_def demo_message_def demo_tx_params_def tm_new_def tmt_new_def
  tmt_send_def isComplete_def getEncodedFrameCount_def OPTIMIZED_CLASSIC_def
  fitsIntoLongSingleFrame_def fitsIntoShortSingleFrame_def tmt_findByReceptionAddress_def
  tmt_processMessageTransmitters_def tmt_guarded_def tmt_setRemoveLock_def tmt_releaseRemoveLock_def
  tmt_sendNextFrames.simps tmt_setSendLock_def tmt_releaseSendLock_def tmt_circle_def tmt_next_def
  tmt_first_def tmt_dataFramesSent_def tmt_findByJobHandle_def tmt_apply_def tmt_handleResult_def
  tmt_resetTimer_def tmt_nextTimer_def tmt_get_def tmt_put_def tmt_call_def slot_put_def
  mt_new_def mt_lift_eq mt_framesSent_def mt_isDone_def tx_isDone_def mt_setTimer_def
  getSendData_def tmt_isSendingConsecutiveFrames_def tx_ops tx_new_def mt_release_def
  to_u16_def ms_to_us_def

lemma demo_tx_run:
  "\<exists>rs s. tmt_run demo_queued demo_tx_events (tmt_new 4 demo_tx_params) = Some (rs, s)
    \<and> tmt_releasedTransmitterCount s = 1 \<and> rs = [Some TP_OK, None, None]"
  by (simp add: demo_tx_events_def tmt_eval Let_def)

lemma demo_tx_run_ok: "tmt_run_ok demo_queued demo_tx_events (tmt_new 4 demo_tx_params)"
  by (simp add: demo_tx_events_def tmt_eval tm_wf_def JobHandle_default_def Let_def)

text \<open>What the environment may do at all; a shutdown may come at any time.\<close>

fun tmt_event_fits :: "tmt_event \<Rightarrow> transmitter \<Rightarrow> bool" where
  "tmt_event_fits TmtShutdown s \<longleftrightarrow> True"
| "tmt_event_fits e s \<longleftrightarrow> tmt_event_ok e s"

fun tmt_run_fits :: "tx_env \<Rightarrow> tmt_event list \<Rightarrow> transmitter \<Rightarrow> bool" where
  "tmt_run_fits E [] s \<longleftrightarrow> True"
| "tmt_run_fits E (e # es) s \<longleftrightarrow> tmt_event_fits e s
     \<and> (case tmt_handle E e s of None \<Rightarrow> True | Some (_, s') \<Rightarrow> tmt_run_fits E es s')"

text \<open>A shutdown comes between the end of a transmission and its removal.\<close>

fun tmt_early_shutdown :: "tx_env \<Rightarrow> tmt_event list \<Rightarrow> transmitter \<Rightarrow> bool" where
  "tmt_early_shutdown E [] s \<longleftrightarrow> False"
| "tmt_early_shutdown E (e # es) s \<longleftrightarrow> e = TmtShutdown \<and> 0 < tmt_releasedTransmitterCount s
     \<or> (case tmt_handle E e s of None \<Rightarrow> False | Some (_, s') \<Rightarrow> tmt_early_shutdown E es s')"

lemma event_fits: "tmt_event_ok e s \<longleftrightarrow> tmt_event_fits e s \<and> \<not> (e = TmtShutdown \<and> 0 < tmt_releasedTransmitterCount s)"
  by (cases e) auto

lemma run_fits: "tmt_run_ok E es s \<longleftrightarrow> tmt_run_fits E es s \<and> \<not> tmt_early_shutdown E es s"
  by (induction es arbitrary: s) (auto simp: event_fits split: option.splits)

lemma early_shutdown_fails:
  assumes E: "tx_env_ok E"
  shows "tmt_rest acc s \<Longrightarrow> tmt_run_fits E es s \<Longrightarrow> tmt_early_shutdown E es s \<Longrightarrow> tmt_run E es s = None"
proof (induction es arbitrary: acc s)
  case (Cons e es)
  show ?case
  proof (cases "e = TmtShutdown \<and> 0 < tmt_releasedTransmitterCount s")
    case True
    then show ?thesis using tmt_shutdown_aborts [OF Cons.prems(1)] by simp
  next
    case False
    then have "tmt_event_ok e s" using Cons.prems(2) event_fits by simp
    from tmt_handle_ok [OF E Cons.prems(1) this] obtain r s1 where
      "tmt_handle E e s = Some (r, s1)" "tmt_rest (acc + asked1 e r) s1" by blast
    then show ?thesis using Cons.IH [of "acc + asked1 e r" s1] Cons.prems(2,3) False by auto
  qed
qed simp

text \<open>C5: Take a pool of at most 255 transmitters and an environment that keeps its contract: the messages are
well formed, and the data link layer confirms jobs it was given and no more bytes than they have. A
sequence of send requests, confirmations, flow controls, cyclic tasks and shutdowns fails exactly when one of
its shutdowns comes while a finished transmission still waits for its removal. In every
other sequence each call returns (no assertion fails, the send loop ends, the removal stays inside
the list), and leaves the pool consistent: the counters of finished and of consecutive frame
transmissions are exact, the locks are free and the round robin points into the list.\<close>

theorem transmitter_survives_every_run:
  assumes "tx_env_ok E" and "poolSize \<le> 255" and "tmt_run_fits E es (tmt_new poolSize p)"
  shows "if tmt_early_shutdown E es (tmt_new poolSize p) then tmt_run E es (tmt_new poolSize p) = None
    else \<exists>rs s. tmt_run E es (tmt_new poolSize p) = Some (rs, s)
    \<and> length (tmt_list s) \<le> tmt_poolSize s \<and> distinct (map fst (tmt_list s))
    \<and> tmt_removeLockCount s = 0 \<and> \<not> tmt_sendLock s
    \<and> (\<forall>i. tmt_sendIt s = Some i \<longrightarrow> i \<in> fst ` set (tmt_list s))
    \<and> tmt_releasedTransmitterCount s = length (filter (\<lambda>(_, t). mt_isDone t) (tmt_list s))
    \<and> tmt_sendingConsecutiveFramesCount s =
        length (filter (\<lambda>(_, t). mt_isSendingConsecutiveFrames t) (tmt_list s))"
proof (cases "tmt_early_shutdown E es (tmt_new poolSize p)")
  case True
  then show ?thesis using early_shutdown_fails [OF assms(1) tmt_rest_new [OF assms(2)] assms(3)] by simp
next
  case False
  then have ok: "tmt_run_ok E es (tmt_new poolSize p)" using assms(3) run_fits by simp
  obtain rs s where s: "tmt_run E es (tmt_new poolSize p) = Some (rs, s)" "tmt_rest ({#} + asked es rs) s"
    using tmt_run_rest [OF assms(1) tmt_rest_new [OF assms(2)] ok] by blast
  have "slot_sum tsending1 l = length (filter (\<lambda>(_, t). mt_isSendingConsecutiveFrames t) l)" for l
    using slot_sum_count [of mt_isSendingConsecutiveFrames l] by (simp add: tsending1_def [abs_def])
  then show ?thesis using False s tdone1_sum by (auto simp: tmt_rest_def tmt_wf_def)
qed

text \<open>The same sequence is survived, and fails when a shutdown follows at once.\<close>

lemma demo_tx_fits:
  "tmt_run_fits demo_queued demo_tx_events (tmt_new 4 demo_tx_params)" "\<not> tmt_early_shutdown demo_queued demo_tx_events (tmt_new 4 demo_tx_params)"
  using demo_tx_run_ok run_fits by blast+

lemma run_fits_append:
  "tmt_run_fits E (es @ [TmtShutdown]) s \<longleftrightarrow> tmt_run_fits E es s"
  "tmt_run E es s = Some (rs, s') \<Longrightarrow> 0 < tmt_releasedTransmitterCount s' \<Longrightarrow> tmt_early_shutdown E (es @ [TmtShutdown]) s"
  by (induction es arbitrary: s rs) (auto split: option.splits Option.bind_splits)

theorem transmitter_survives_every_run_witness:
  "\<exists>rs s. tmt_run demo_queued demo_tx_events (tmt_new 4 demo_tx_params) = Some (rs, s)
    \<and> tmt_removeLockCount s = 0 \<and> \<not> tmt_sendLock s
    \<and> tmt_run demo_queued (demo_tx_events @ [TmtShutdown]) (tmt_new 4 demo_tx_params) = None"
proof -
  obtain rs s where s: "tmt_run demo_queued demo_tx_events (tmt_new 4 demo_tx_params) = Some (rs, s)" "tmt_releasedTransmitterCount s = 1"
    using demo_tx_run by blast
  have "tmt_early_shutdown demo_queued (demo_tx_events @ [TmtShutdown]) (tmt_new 4 demo_tx_params)"
    by (rule run_fits_append(2) [OF s(1)]) (simp add: s(2))
  then have "tmt_run demo_queued (demo_tx_events @ [TmtShutdown]) (tmt_new 4 demo_tx_params) = None"
    using transmitter_survives_every_run [OF demo_tx_env_ok _ run_fits_append(1) [THEN iffD2, OF demo_tx_fits(1)]] by simp
  then show ?thesis using transmitter_survives_every_run [OF demo_tx_env_ok _ demo_tx_fits(1)] demo_tx_fits(2) by auto
qed

text \<open>C6: Every listener is told about the end of every message that was accepted for it exactly
once: in every run without a shutdown that comes before a finished transmission has been removed, the
notifications asked for by accepted send requests are those delivered
and those still owed by the transmissions in the list.\<close>

theorem every_message_notified_once:
  assumes "tx_env_ok E" and "poolSize \<le> 255" and "tmt_run_ok E es (tmt_new poolSize p)"
  shows "\<exists>rs s. tmt_run E es (tmt_new poolSize p) = Some (rs, s)
    \<and> asked es rs = notified (tmt_trace s) + slot_sum owed (tmt_list s)"
proof -
  obtain rs s where "tmt_run E es (tmt_new poolSize p) = Some (rs, s)" "tmt_rest ({#} + asked es rs) s"
    using tmt_run_rest [OF assms(1) tmt_rest_new [OF assms(2)] assms(3)] by blast
  then show ?thesis by (simp add: tmt_rest_def tmt_wf_def)
qed

theorem every_message_notified_once_witness:
  "\<exists>rs s. tmt_run demo_queued demo_tx_events (tmt_new 4 demo_tx_params) = Some (rs, s)
    \<and> asked demo_tx_events rs = notified (tmt_trace s) + slot_sum owed (tmt_list s)"
  by (rule every_message_notified_once [OF demo_tx_env_ok _ demo_tx_run_ok]) simp

text \<open>C27: When the send loop, run in any reachable state, is done, a transmission that is ready waits only because
the data link layer has reported to be full, or has refused a job during this very loop.\<close>

theorem nothing_ready_is_forgotten:
  assumes "tx_env_ok E" and "poolSize \<le> 255" and "tmt_run_ok E es (tmt_new poolSize p)"
  shows "\<exists>rs s s'. tmt_run E es (tmt_new poolSize p) = Some (rs, s) \<and> tmt_sendNextFrames E s = Some s'
    \<and> map fst (tmt_list s') = map fst (tmt_list s)
    \<and> (\<exists>calls. tmt_trace s' = tmt_trace s @ calls
         \<and> (tmt_pendingSend s' \<or> (\<exists>c \<in> set calls. refused c)
            \<or> (\<forall>(i, t) \<in> set (tmt_list s'). tx_state (mt_protocol t) \<noteq> TS_SEND)))"
proof -
  obtain rs s where s: "tmt_run E es (tmt_new poolSize p) = Some (rs, s)" "tmt_rest ({#} + asked es rs) s"
    using tmt_run_rest [OF assms(1) tmt_rest_new [OF assms(2)] assms(3)] by blast
  then obtain s' where s': "tmt_sendNextFrames E s = Some s'" "tmt_keeps s s'" "tmt_flushed s s'"
    using tmt_sendNextFrames_ok [of "asked es rs" s E] by (auto simp: tmt_rest_def)
  obtain calls where "tmt_trace s' = tmt_trace s @ calls" "map fst (tmt_list s') = map fst (tmt_list s)"
    using s'(2) by (auto simp: tmt_keeps_def)
  then show ?thesis using s(1) s'(1,3) unfolding tmt_flushed_def by auto
qed

theorem nothing_ready_is_forgotten_witness:
  "\<exists>rs s s'. tmt_run demo_queued demo_tx_events (tmt_new 4 demo_tx_params) = Some (rs, s)
    \<and> tmt_sendNextFrames demo_queued s = Some s'"
  using nothing_ready_is_forgotten [OF demo_tx_env_ok _ demo_tx_run_ok] by auto

text \<open>C31: Take the pool and the environment of C5. A shutdown in a state reached by a run, with no finished
transmission in the list, ends and notifies all: the
list is empty afterwards, and the listener of every message accepted in the run has been told exactly
once, also of those in progress.\<close>

theorem transmitter_shutdown_notifies_all:
  assumes "tx_env_ok E" and "poolSize \<le> 255" and "tmt_run_ok E es (tmt_new poolSize p)"
    and "tmt_run E es (tmt_new poolSize p) = Some (rs, s)" and "tmt_releasedTransmitterCount s = 0"
  shows "\<exists>s'. tmt_shutdown E s = Some s' \<and> tmt_list s' = [] \<and> asked es rs = notified (tmt_trace s')"
proof -
  have "tmt_rest ({#} + asked es rs) s"
    using tmt_run_rest [OF assms(1) tmt_rest_new [OF assms(2)] assms(3)] assms(4) by auto
  then show ?thesis using tmt_shutdown_ok [OF _ assms(5)] by (fastforce simp: tmt_rest_def tmt_wf_def)
qed

text \<open>
  Three messages are accepted: a segmented one that has been handed to the data link layer, and two that have
  not been started, one of them without a listener.
\<close>

definition demo_long_message :: message_ptr where
  "demo_long_message = (43, (tm_new (replicate 20 7))\<lparr>tm_payloadLength := 20, tm_validBytes := 20\<rparr>)"

definition demo_shutdown_events :: "tmt_event list" where
  "demo_shutdown_events = [TmtSend demo_long_message (Some 9), TmtProcess, TmtSend demo_message (Some 7), TmtSend demo_message None]"

lemma demo_shutdown_run:
  "\<exists>rs s. tmt_run demo_queued demo_shutdown_events (tmt_new 4 demo_tx_params) = Some (rs, s)
    \<and> tmt_releasedTransmitterCount s = 0 \<and> rs = [Some TP_OK, None, Some TP_OK, Some TP_OK]
    \<and> length (tmt_list s) = 3 \<and> notified (tmt_trace s) = {#}"
  by (simp add: demo_shutdown_events_def demo_long_message_def tmt_eval Let_def notified_def)

lemma demo_shutdown_run_ok: "tmt_run_ok demo_queued demo_shutdown_events (tmt_new 4 demo_tx_params)"
  by (simp add: demo_shutdown_events_def demo_long_message_def tmt_eval tm_wf_def Let_def)

theorem transmitter_shutdown_notifies_all_witness:
  "\<exists>rs s s'. tmt_run demo_queued demo_shutdown_events (tmt_new 4 demo_tx_params) = Some (rs, s)
    \<and> length (tmt_list s) = 3 \<and> notified (tmt_trace s) = {#}
    \<and> tmt_shutdown demo_queued s = Some s' \<and> tmt_list s' = [] \<and> notified (tmt_trace s') = {#(9, 43), (7, 42)#}"
proof -
  obtain rs s where s: "tmt_run demo_queued demo_shutdown_events (tmt_new 4 demo_tx_params) = Some (rs, s)"
    "tmt_releasedTransmitterCount s = 0" "rs = [Some TP_OK, None, Some TP_OK, Some TP_OK]" "length (tmt_list s) = 3" "notified (tmt_trace s) = {#}"
    using demo_shutdown_run by blast
  have a: "asked demo_shutdown_events rs = {#(9, 43), (7, 42)#}"
    by (simp add: s(3) asked_def demo_shutdown_events_def demo_long_message_def demo_message_def)
  from transmitter_shutdown_notifies_all [OF demo_tx_env_ok _ demo_shutdown_run_ok s(1,2)] obtain s' where
    "tmt_shutdown demo_queued s = Some s'" "tmt_list s' = []" "asked demo_shutdown_events rs = notified (tmt_trace s')" by auto
  then show ?thesis using s(1,4,5) a by auto
qed



text \<open>A send loop that finds the send lock taken does not leave it alone: it releases the lock
of the call it has interrupted, so that a third call can send the same frames again.\<close>

theorem nested_send_releases_the_lock:
  assumes "tmt_sendLock s"
  shows "\<exists>s'. tmt_sendNextFrames E s = Some s' \<and> \<not> tmt_sendLock s'
    \<and> tmt_list s' = tmt_list s \<and> tmt_sendIt s' = tmt_sendIt s"
proof -
  have "tmt_sendNextFrames E s = Some (tmt_releaseSendLock False s)"
    using assms by (subst tmt_sendNextFrames.simps) (simp add: tmt_setSendLock_def)
  then show ?thesis by (simp add: tmt_releaseSendLock_def split: option.splits)
qed

theorem nested_send_releases_the_lock_witness:
  "\<exists>s'. tmt_sendNextFrames demo_queued ((tmt_new 4 demo_tx_params)\<lparr>tmt_sendLock := True\<rparr>) = Some s'
    \<and> \<not> tmt_sendLock s'"
  using nested_send_releases_the_lock [of "(tmt_new 4 demo_tx_params)\<lparr>tmt_sendLock := True\<rparr>" demo_queued]
  by auto

end
