(* ===== verification/IoMemoryQueue.thy ===== *)
theory IoMemoryQueue imports BswPrelude begin

text \<open>
  The memory queue of \<^verbatim>\<open>libs/bsw/io\<close>: a lock free single producer single consumer
  ring buffer for slices of variable size. The template parameters are a configuration. Every
  method shares one atomic access with the other side, at which it takes effect, so that
  interleavings of the two sides are sequences of the methods below; the producer fills an
  allocated slice byte by byte in between. Sizes and indices are below four times the capacity,
  which has to fit into \<^verbatim>\<open>size_t\<close>.
\<close>

section \<open>State\<close>

record mq_config =
  mq_CAPACITY :: nat
  mq_MAX_ELEMENT_SIZE :: nat
  mq_SIZE_BYTES :: nat

record memory_queue =
  mq_received :: nat
  mq_sent :: nat
  mq_data :: "u8 list"
  mq_allocated :: nat
  mq_minAvailable :: nat

text \<open>A span into the data is its offset and size; the empty span has size zero.\<close>

type_synonym span = "nat \<times> nat"

definition empty_span :: span where "empty_span = (0, 0)"

text \<open>\<^verbatim>\<open>unaligned_type_ext\<close> in big endian order, after the cast to the size type.\<close>

fun be_encode :: "nat \<Rightarrow> nat \<Rightarrow> u8 list" where
  "be_encode 0 n = []"
| "be_encode (Suc k) n = byte_of (n div 256 ^ k) # be_encode k n"

fun be_decode :: "u8 list \<Rightarrow> nat" where
  "be_decode [] = 0"
| "be_decode (b # bs) = unat b * 256 ^ length bs + be_decode bs"

definition mq_new :: "mq_config \<Rightarrow> u8 list \<Rightarrow> memory_queue" where
  "mq_new c data = \<lparr>mq_received = 0, mq_sent = 0, mq_data = data, mq_allocated = 0,
     mq_minAvailable = mq_CAPACITY c\<rparr>"

section \<open>Indices\<close>

definition mq_advanceIndex :: "mq_config \<Rightarrow> nat \<Rightarrow> nat \<Rightarrow> nat" where
  "mq_advanceIndex c index sz =
     (let index = (index + sz + mq_SIZE_BYTES c) mod (2 * mq_CAPACITY c);
          space = (2 * mq_CAPACITY c - index) mod mq_CAPACITY c
      in if space < mq_MAX_ELEMENT_SIZE c + mq_SIZE_BYTES c
         then (index + space) mod (2 * mq_CAPACITY c) else index)"

definition mq_available :: "mq_config \<Rightarrow> memory_queue \<Rightarrow> nat" where
  "mq_available c q =
     (let writeIndex = mq_sent q; readIndex = mq_received q;
          usedBytes = (if writeIndex < readIndex then writeIndex + 2 * mq_CAPACITY c - readIndex
                       else writeIndex - readIndex);
          freeBytes = mq_CAPACITY c - usedBytes
      in if freeBytes < mq_MAX_ELEMENT_SIZE c + mq_SIZE_BYTES c then 0 else freeBytes)"

section \<open>Writer\<close>

definition mq_allocate :: "mq_config \<Rightarrow> nat \<Rightarrow> memory_queue \<Rightarrow> span \<times> memory_queue" where
  "mq_allocate c sz q =
     (let q = q\<lparr>mq_allocated := 0\<rparr>
      in if sz > mq_MAX_ELEMENT_SIZE c \<or> sz = 0 then (empty_span, q)
         else let freeBytes = mq_available c q;
                  q = q\<lparr>mq_minAvailable := min freeBytes (mq_minAvailable q)\<rparr>
              in if freeBytes = 0 then (empty_span, q)
                 else ((mq_sent q mod mq_CAPACITY c + mq_SIZE_BYTES c, sz), q\<lparr>mq_allocated := sz\<rparr>))"

definition mq_commit :: "mq_config \<Rightarrow> memory_queue \<Rightarrow> memory_queue" where
  "mq_commit c q =
     (if mq_allocated q = 0 then q
      else let writeIndex = mq_sent q;
               index = writeIndex mod mq_CAPACITY c;
               header = be_encode (mq_SIZE_BYTES c) (mq_allocated q);
               data = take index (mq_data q) @ header @ drop (index + mq_SIZE_BYTES c) (mq_data q)
           in q\<lparr>mq_data := data, mq_allocated := 0,
                mq_sent := mq_advanceIndex c writeIndex (be_decode header)\<rparr>)"

definition mq_full :: "mq_config \<Rightarrow> memory_queue \<Rightarrow> bool" where
  "mq_full c q \<longleftrightarrow> mq_available c q = 0"

definition mq_resetMinAvailable :: "mq_config \<Rightarrow> memory_queue \<Rightarrow> memory_queue" where
  "mq_resetMinAvailable c q = q\<lparr>mq_minAvailable := mq_available c q\<rparr>"

text \<open>What the producer does with a slice: it stores a byte at an offset of the span.\<close>

definition span_store :: "span \<Rightarrow> nat \<Rightarrow> u8 \<Rightarrow> memory_queue \<Rightarrow> memory_queue" where
  "span_store sp i b q = (if i < snd sp then q\<lparr>mq_data := (mq_data q)[fst sp + i := b]\<rparr> else q)"

section \<open>Reader\<close>

definition mq_empty :: "memory_queue \<Rightarrow> bool" where
  "mq_empty q \<longleftrightarrow> mq_sent q = mq_received q"

definition mq_size_at :: "mq_config \<Rightarrow> nat \<Rightarrow> memory_queue \<Rightarrow> nat" where
  "mq_size_at c index q = be_decode (take (mq_SIZE_BYTES c) (drop index (mq_data q)))"

definition mq_peek :: "mq_config \<Rightarrow> memory_queue \<Rightarrow> span" where
  "mq_peek c q =
     (if mq_empty q then empty_span
      else let index = mq_received q mod mq_CAPACITY c
           in (index + mq_SIZE_BYTES c, mq_size_at c index q))"

definition mq_release :: "mq_config \<Rightarrow> memory_queue \<Rightarrow> memory_queue" where
  "mq_release c q =
     (if mq_empty q then q
      else let readIndex = mq_received q;
               index = readIndex mod mq_CAPACITY c
           in q\<lparr>mq_received := mq_advanceIndex c readIndex (mq_size_at c index q)\<rparr>)"

partial_function (option) mq_clear :: "mq_config \<Rightarrow> memory_queue \<Rightarrow> memory_queue option" where
  "mq_clear c q = (if mq_empty q then Some q else mq_clear c (mq_release c q))"

text \<open>The bytes a span refers to.\<close>

definition span_bytes :: "memory_queue \<Rightarrow> span \<Rightarrow> u8 list" where
  "span_bytes q sp = take (snd sp) (drop (fst sp) (mq_data q))"

end
