(* ===== verification/IoMemoryQueueCorrect.thy ===== *)
theory IoMemoryQueueCorrect imports IoMemoryQueue begin

text \<open>
  The memory queue refines a first-in first-out queue of slices together with the content of
  the slice being written: positions and laps, the relation between the ring buffer and that
  queue, the laws of every method, and the contracts of readers and writers that the adapters
  of the io library rely on.
\<close>

section \<open>Big endian numbers\<close>

lemma length_be_encode [simp]: "length (be_encode k n) = k"
  by (induction k) auto

lemma be_decode_encode_mod: "be_decode (be_encode k n) = n mod 256 ^ k"
proof (induction k)
  case (Suc k)
  have "n mod 256 ^ Suc k = n div 256 ^ k mod 256 * 256 ^ k + n mod 256 ^ k"
    using mod_mult2_eq [of n "256 ^ k" 256] by (simp add: ac_simps)
  then show ?case using Suc by (simp add: unat_byte_of)
qed simp

lemma be_decode_encode [simp]: "n < 256 ^ k \<Longrightarrow> be_decode (be_encode k n) = n"
  by (simp add: be_decode_encode_mod)

section \<open>Positions\<close>

text \<open>
  The template's assertion, and what it leaves out: the size type holds the largest size.
\<close>

definition mq_config_ok :: "mq_config \<Rightarrow> bool" where
  "mq_config_ok c \<longleftrightarrow> mq_MAX_ELEMENT_SIZE c + mq_SIZE_BYTES c \<le> mq_CAPACITY c
     \<and> 0 < mq_SIZE_BYTES c \<and> mq_MAX_ELEMENT_SIZE c < 256 ^ mq_SIZE_BYTES c"

text \<open>
  Positions count all bytes that ever went through the queue; an index is a position modulo
  twice the capacity. After an entry of \<open>n\<close> bytes, the next position skips the rest of a lap
  that is too short for the largest entry.
\<close>

definition mq_next :: "mq_config \<Rightarrow> nat \<Rightarrow> nat \<Rightarrow> nat" where
  "mq_next c v n =
     (let v' = v + n + mq_SIZE_BYTES c;
          space = (mq_CAPACITY c - v' mod mq_CAPACITY c) mod mq_CAPACITY c
      in if space < mq_MAX_ELEMENT_SIZE c + mq_SIZE_BYTES c then v' + space else v')"

definition mq_aligned :: "mq_config \<Rightarrow> nat \<Rightarrow> bool" where
  "mq_aligned c v \<longleftrightarrow> v mod mq_CAPACITY c + mq_MAX_ELEMENT_SIZE c + mq_SIZE_BYTES c \<le> mq_CAPACITY c"

lemma mod_double_space:
  assumes "0 < (C :: nat)"
  shows "(2 * C - v mod (2 * C)) mod C = (C - v mod C) mod C"
proof -
  have m: "v mod (2 * C) mod C = v mod C" by (simp add: mod_mod_cancel)
  show ?thesis
  proof (cases "v mod (2 * C) < C")
    case True
    then have "v mod C = v mod (2 * C)" using m by simp
    moreover have "2 * C - v mod (2 * C) = C + (C - v mod (2 * C))" using True by simp
    ultimately show ?thesis by (metis mod_add_self1)
  next
    case False
    have "v mod (2 * C) < 2 * C" using assms by simp
    then have "v mod (2 * C) mod C = v mod (2 * C) - C" using False
      by (simp add: mod_if [of "v mod (2 * C)" C])
    then have "2 * C - v mod (2 * C) = C - v mod C" using m False by simp
    then show ?thesis by simp
  qed
qed

lemma mq_advance_next:
  assumes "mq_config_ok c"
  shows "mq_advanceIndex c (v mod (2 * mq_CAPACITY c)) n = mq_next c v n mod (2 * mq_CAPACITY c)"
proof -
  let ?C = "mq_CAPACITY c"
  have C: "0 < ?C" using assms by (simp add: mq_config_ok_def)
  let ?v = "v + n + mq_SIZE_BYTES c"
  have i: "(v mod (2 * ?C) + n + mq_SIZE_BYTES c) mod (2 * ?C) = ?v mod (2 * ?C)"
    by (metis (no_types, lifting) add.assoc mod_add_left_eq)
  show ?thesis
    using mod_double_space [OF C, of ?v] i
    by (simp add: mq_advanceIndex_def mq_next_def Let_def mod_add_left_eq)
qed

lemma lap_end:
  assumes "0 < (C :: nat)"
  shows "(v + (C - v mod C) mod C) mod C = 0"
    and "(C - v mod C) mod C = (if v mod C = 0 then 0 else C - v mod C)"
proof -
  have "v mod C < C" using assms by simp
  then show s: "(C - v mod C) mod C = (if v mod C = 0 then 0 else C - v mod C)" by auto
  show "(v + (C - v mod C) mod C) mod C = 0"
  proof (cases "v mod C = 0")
    case False
    have "(v + (C - v mod C)) mod C = (v mod C + (C - v mod C)) mod C" by (simp add: mod_add_left_eq)
    also have "\<dots> = C mod C" using \<open>v mod C < C\<close> by simp
    finally show ?thesis using False s by simp
  qed (simp add: s)
qed

lemma mq_next_aligned:
  assumes "mq_config_ok c" shows "mq_aligned c (mq_next c v n)"
proof -
  let ?C = "mq_CAPACITY c" and ?v = "v + n + mq_SIZE_BYTES c"
  have C: "0 < ?C" using assms by (simp add: mq_config_ok_def)
  note e = lap_end [OF C, of ?v]
  show ?thesis
    using e assms by (auto simp: mq_aligned_def mq_next_def Let_def mq_config_ok_def split: if_splits)
qed

lemma mq_next_grows: "mq_config_ok c \<Longrightarrow> v + n + mq_SIZE_BYTES c \<le> mq_next c v n"
  by (simp add: mq_next_def Let_def)

text \<open>A new entry never overtakes the reader, although the end of the lap may be skipped.\<close>

lemma mq_next_room:
  assumes c: "mq_config_ok c" and al: "mq_aligned c r" "mq_aligned c v"
    and n: "n \<le> mq_MAX_ELEMENT_SIZE c"
    and room: "v + mq_MAX_ELEMENT_SIZE c + mq_SIZE_BYTES c \<le> r + mq_CAPACITY c"
  shows "mq_next c v n \<le> r + mq_CAPACITY c"
proof -
  let ?C = "mq_CAPACITY c" and ?v = "v + n + mq_SIZE_BYTES c"
  let ?s = "(?C - ?v mod ?C) mod ?C" and ?m = "mq_MAX_ELEMENT_SIZE c + mq_SIZE_BYTES c"
  have C: "0 < ?C" using c by (simp add: mq_config_ok_def)
  show ?thesis
  proof (rule ccontr)
    assume "\<not> mq_next c v n \<le> r + ?C"
    then have over: "?s < ?m" "r + ?C < ?v + ?s" using n room
      by (auto simp: mq_next_def Let_def split: if_splits)
    have s: "0 < ?s" using over room n by linarith
    then have "?s = ?C - ?v mod ?C" using lap_end(2) [OF C, of ?v] by (auto split: if_splits)
    define k where "k = ?v div ?C"
    have vk: "?v = k * ?C + ?v mod ?C" by (simp add: k_def)
    have "?v mod ?C < ?C" using C by simp
    then have e: "?v + ?s = (k + 1) * ?C" using vk \<open>?s = _\<close> by simp
    have lo: "k * ?C \<le> r + ?C" using vk room n by linarith
    then have lo': "(k - 1) * ?C \<le> r" by (cases k) auto
    have hi: "r < k * ?C" using over(2) e by simp
    then obtain j where j: "k = Suc j" by (cases k) auto
    then have "r div ?C = j" using lo' hi by (intro div_nat_eqI) (auto simp: mult.commute)
    then have "r = j * ?C + r mod ?C" using div_mult_mod_eq [of r ?C] by simp
    then have "r + ?C + ?m \<le> (k + 1) * ?C" using al(1) j by (simp add: mq_aligned_def)
    then show False using over e room n by linarith
  qed
qed

section \<open>The queue in the ring buffer\<close>

fun mq_end :: "mq_config \<Rightarrow> nat \<Rightarrow> u8 list list \<Rightarrow> nat" where
  "mq_end c v [] = v"
| "mq_end c v (x # xs) = mq_end c (mq_next c v (length x)) xs"

text \<open>The data holds the entries, each a header and its bytes, from a position on.\<close>

fun mq_holds :: "mq_config \<Rightarrow> u8 list \<Rightarrow> nat \<Rightarrow> u8 list list \<Rightarrow> bool" where
  "mq_holds c d v [] \<longleftrightarrow> True"
| "mq_holds c d v (x # xs) \<longleftrightarrow>
     x \<noteq> [] \<and> length x \<le> mq_MAX_ELEMENT_SIZE c
     \<and> take (mq_SIZE_BYTES c) (drop (v mod mq_CAPACITY c) d) = be_encode (mq_SIZE_BYTES c) (length x)
     \<and> take (length x) (drop (v mod mq_CAPACITY c + mq_SIZE_BYTES c) d) = x
     \<and> mq_holds c d (mq_next c v (length x)) xs"

definition mq_at :: "mq_config \<Rightarrow> memory_queue \<Rightarrow> u8 list list \<Rightarrow> u8 list \<Rightarrow> nat \<Rightarrow> nat \<Rightarrow> bool" where
  "mq_at c q xs p v w \<longleftrightarrow> w = mq_end c v xs \<and> mq_config_ok c \<and> length (mq_data q) = mq_CAPACITY c
     \<and> mq_received q = v mod (2 * mq_CAPACITY c) \<and> mq_sent q = w mod (2 * mq_CAPACITY c)
     \<and> mq_aligned c v \<and> mq_aligned c w \<and> v \<le> w \<and> w \<le> v + mq_CAPACITY c
     \<and> mq_holds c (mq_data q) v xs
     \<and> p = take (mq_allocated q) (drop (w mod mq_CAPACITY c + mq_SIZE_BYTES c) (mq_data q))
     \<and> (0 < mq_allocated q \<longrightarrow> w + mq_MAX_ELEMENT_SIZE c + mq_SIZE_BYTES c \<le> v + mq_CAPACITY c)
     \<and> mq_allocated q \<le> mq_MAX_ELEMENT_SIZE c"

definition mq_rep :: "mq_config \<Rightarrow> memory_queue \<Rightarrow> u8 list list \<Rightarrow> u8 list \<Rightarrow> bool" where
  "mq_rep c q xs p \<longleftrightarrow> (\<exists>v w. mq_at c q xs p v w)"

lemma mq_end_append: "mq_end c v (xs @ ys) = mq_end c (mq_end c v xs) ys"
  by (induction xs arbitrary: v) auto

lemma mq_holds_append:
  "mq_holds c d v (xs @ ys) \<longleftrightarrow> mq_holds c d v xs \<and> mq_holds c d (mq_end c v xs) ys"
  by (induction xs arbitrary: v) auto

lemma mq_end_grows: "mq_config_ok c \<Longrightarrow> v \<le> mq_end c v xs"
proof (induction xs arbitrary: v)
  case (Cons x xs)
  have "v \<le> mq_next c v (length x)" using mq_next_grows [OF Cons.prems, of v "length x"] by simp
  also have "\<dots> \<le> mq_end c (mq_next c v (length x)) xs" by (rule Cons.IH [OF Cons.prems])
  finally show ?case by simp
qed simp

lemma mq_end_aligned: "mq_config_ok c \<Longrightarrow> mq_aligned c v \<Longrightarrow> mq_aligned c (mq_end c v xs)"
  by (induction xs arbitrary: v) (auto simp: mq_next_aligned)

lemma mq_end_eq_iff: "mq_config_ok c \<Longrightarrow> mq_end c v xs = v \<longleftrightarrow> xs = []"
proof (cases xs)
  case (Cons x ys)
  assume c: "mq_config_ok c"
  then have "v < mq_next c v (length x)"
    using mq_next_grows [OF c, of v "length x"] by (simp add: mq_config_ok_def)
  then show ?thesis using mq_end_grows [OF c, of "mq_next c v (length x)" ys] Cons by simp
qed simp

text \<open>Two positions less than a lap apart use different bytes.\<close>

lemma lap_disjoint:
  assumes "u + a < w + b" "w + b < u + a + C" "u mod C + a < C" "w mod C + b < (C :: nat)"
  shows "u mod C + a \<noteq> w mod C + b"
proof
  assume eq: "u mod C + a = w mod C + b"
  have "(u + a) mod C = u mod C + a" "(w + b) mod C = w mod C + b"
    using assms(3,4) by (metis mod_add_left_eq mod_less)+
  then have "(w + b) mod C = (u + a) mod C" using eq by simp
  then have "C dvd (w + b) - (u + a)" using assms(1) by (simp add: mod_eq_dvd_iff_nat)
  then show False using assms(1,2) by (auto dest: dvd_imp_le)
qed

lemma slice_agree:
  assumes "length d' = length d" "i + n \<le> length d" "\<And>j. i \<le> j \<Longrightarrow> j < i + n \<Longrightarrow> d' ! j = d ! j"
  shows "take n (drop i d') = take n (drop i d)"
  using assms by (intro nth_equalityI) auto

text \<open>Writing into the next slice leaves the entries alone.\<close>

lemma mq_holds_write:
  assumes c: "mq_config_ok c" and len: "length d = mq_CAPACITY c" "length d' = length d"
    and same: "\<And>j. j < mq_CAPACITY c \<Longrightarrow>
      j < w mod mq_CAPACITY c \<or> w mod mq_CAPACITY c + mq_MAX_ELEMENT_SIZE c + mq_SIZE_BYTES c \<le> j \<Longrightarrow> d' ! j = d ! j"
    and w: "mq_aligned c w" "w + mq_MAX_ELEMENT_SIZE c + mq_SIZE_BYTES c \<le> v0 + mq_CAPACITY c"
  shows "mq_holds c d v xs \<Longrightarrow> mq_aligned c v \<Longrightarrow> v0 \<le> v \<Longrightarrow> mq_end c v xs = w \<Longrightarrow> mq_holds c d' v xs"
proof (induction xs arbitrary: v)
  case (Cons x xs)
  let ?C = "mq_CAPACITY c" and ?k = "mq_SIZE_BYTES c" and ?M = "mq_MAX_ELEMENT_SIZE c"
  have g: "v + length x + ?k \<le> w"
    using mq_next_grows [OF c, of v "length x"] mq_end_grows [OF c, of "mq_next c v (length x)" xs] Cons.prems(4)
    by simp
  have fit: "v mod ?C + ?k + length x \<le> ?C"
    using Cons.prems(1,2) by (simp add: mq_aligned_def)
  have agree: "d' ! j = d ! j" if j: "v mod ?C \<le> j" "j < v mod ?C + ?k + length x" for j
  proof (rule same)
    show "j < ?C" using j fit by simp
    show "j < w mod ?C \<or> w mod ?C + ?M + ?k \<le> j"
    proof (rule ccontr)
      assume "\<not> ?thesis"
      then obtain b where b: "j = w mod ?C + b" "b < ?M + ?k" by (metis add.assoc add_less_cancel_left le_add_diff_inverse not_le)
      obtain a where a: "j = v mod ?C + a" "a < ?k + length x"
        using j by (metis add.assoc add_less_cancel_left le_add_diff_inverse)
      have "v mod ?C + a \<noteq> w mod ?C + b"
        by (rule lap_disjoint) (use a b g w Cons.prems(3) fit in \<open>auto simp: mq_aligned_def\<close>)
      then show False using a(1) b(1) by simp
    qed
  qed
  have "take ?k (drop (v mod ?C) d') = take ?k (drop (v mod ?C) d)"
    by (rule slice_agree) (use len fit agree in auto)
  moreover have "take (length x) (drop (v mod ?C + ?k) d') = take (length x) (drop (v mod ?C + ?k) d)"
    by (rule slice_agree) (use len fit agree in auto)
  moreover have "mq_holds c d' (mq_next c v (length x)) xs"
    using Cons.IH [of "mq_next c v (length x)"] Cons.prems mq_next_aligned [OF c] mq_next_grows [OF c, of v "length x"]
    by auto
  ultimately show ?case using Cons.prems(1) by simp
qed simp

section \<open>The laws of the methods\<close>

lemma mod_distance:
  assumes "0 < (C :: nat)" "v \<le> w" "w \<le> v + C"
  shows "(if w mod (2 * C) < v mod (2 * C) then w mod (2 * C) + 2 * C - v mod (2 * C)
          else w mod (2 * C) - v mod (2 * C)) = w - v"
    and "w mod (2 * C) = v mod (2 * C) \<longleftrightarrow> w = v"
proof -
  define r where "r = v mod (2 * C)"
  define e where "e = w - v"
  have e: "w = v + e" "e \<le> C" using assms(2,3) by (simp_all add: e_def)
  have r: "r < 2 * C" using assms(1) by (simp add: r_def)
  have m: "w mod (2 * C) = (r + e) mod (2 * C)" unfolding e(1) r_def by (simp add: mod_add_left_eq)
  have w: "w mod (2 * C) = (if r + e < 2 * C then r + e else r + e - 2 * C)"
    unfolding m using r e(2) assms(1) by (simp add: le_mod_geq)
  show "(if w mod (2 * C) < v mod (2 * C) then w mod (2 * C) + 2 * C - v mod (2 * C)
          else w mod (2 * C) - v mod (2 * C)) = w - v"
    unfolding r_def [symmetric] w e_def [symmetric] using e(2) r assms(1) by auto
  show "w mod (2 * C) = v mod (2 * C) \<longleftrightarrow> w = v"
    unfolding r_def [symmetric] w using e r assms(1) by auto
qed

lemma mq_available_free:
  assumes "mq_config_ok c" "mq_received q = v mod (2 * mq_CAPACITY c)" "mq_sent q = w mod (2 * mq_CAPACITY c)"
    "v \<le> w" "w \<le> v + mq_CAPACITY c"
  shows "mq_available c q =
    (if w + mq_MAX_ELEMENT_SIZE c + mq_SIZE_BYTES c \<le> v + mq_CAPACITY c then v + mq_CAPACITY c - w else 0)"
proof -
  have C: "0 < mq_CAPACITY c" "0 < mq_SIZE_BYTES c" using assms(1) by (auto simp: mq_config_ok_def)
  show ?thesis
    unfolding mq_available_def Let_def assms(2,3) mod_distance(1) [OF C(1) assms(4,5)]
    using assms(4,5) by auto
qed

lemma mq_free_pos:
  "mq_config_ok c \<Longrightarrow> w + mq_MAX_ELEMENT_SIZE c + mq_SIZE_BYTES c \<le> v + mq_CAPACITY c \<Longrightarrow> w < v + mq_CAPACITY c"
  by (simp add: mq_config_ok_def)

lemma mq_atD:
  assumes "mq_at c q xs p v w"
  shows "w = mq_end c v xs" "mq_config_ok c" "length (mq_data q) = mq_CAPACITY c"
    "mq_received q = v mod (2 * mq_CAPACITY c)" "mq_sent q = w mod (2 * mq_CAPACITY c)"
    "mq_aligned c v" "mq_aligned c w" "v \<le> w" "w \<le> v + mq_CAPACITY c" "mq_holds c (mq_data q) v xs"
    "p = take (mq_allocated q) (drop (w mod mq_CAPACITY c + mq_SIZE_BYTES c) (mq_data q))"
    "0 < mq_allocated q \<Longrightarrow> w + mq_MAX_ELEMENT_SIZE c + mq_SIZE_BYTES c \<le> v + mq_CAPACITY c"
    "mq_allocated q \<le> mq_MAX_ELEMENT_SIZE c"
  using assms unfolding mq_at_def by blast+

lemma mq_pending_length: "mq_rep c q xs p \<Longrightarrow> length p = mq_allocated q"
  by (auto simp: mq_rep_def mq_at_def mq_aligned_def)

lemma mq_rep_allocated: "mq_rep c q xs p \<Longrightarrow> mq_allocated q = 0 \<longleftrightarrow> p = []"
  using mq_pending_length by fastforce

lemma mq_new_rep:
  assumes "mq_config_ok c" "length d = mq_CAPACITY c"
  shows "mq_rep c (mq_new c d) [] []"
  unfolding mq_rep_def mq_at_def using assms
  by (intro exI [of _ 0]) (simp add: mq_new_def mq_aligned_def mq_config_ok_def)

text \<open>Whether the largest slice fits, as the contents tell: the queue's own measure of fullness.\<close>

lemma mq_available_at:
  "mq_at c q xs p v w \<Longrightarrow> mq_available c q =
    (if w + mq_MAX_ELEMENT_SIZE c + mq_SIZE_BYTES c \<le> v + mq_CAPACITY c then v + mq_CAPACITY c - w else 0)"
  by (rule mq_available_free) (auto dest: mq_atD)

lemma mq_allocate_span:
  assumes "mq_rep c q xs p"
  shows "fst (mq_allocate c n q) =
    (if n = 0 \<or> mq_MAX_ELEMENT_SIZE c < n \<or> mq_full c q then empty_span
     else (mq_sent q mod mq_CAPACITY c + mq_SIZE_BYTES c, n))"
  by (auto simp: mq_allocate_def mq_full_def mq_available_def Let_def)

lemma mq_allocate_rep:
  assumes "mq_rep c q xs p"
  shows "mq_rep c (snd (mq_allocate c n q)) xs
           (span_bytes q (fst (mq_allocate c n q)))"
proof -
  obtain v w where at: "mq_at c q xs p v w" using assms by (auto simp: mq_rep_def)
  note d = mq_atD [OF at] and av = mq_available_at [OF at]
  have s: "mq_sent q mod mq_CAPACITY c = w mod mq_CAPACITY c" using d(5) by (simp add: mod_mod_cancel)
  note sp = mq_allocate_span [OF assms, of n]
  have q: "mq_data (snd (mq_allocate c n q)) = mq_data q" "mq_sent (snd (mq_allocate c n q)) = mq_sent q"
      "mq_received (snd (mq_allocate c n q)) = mq_received q"
      "mq_allocated (snd (mq_allocate c n q)) = snd (fst (mq_allocate c n q))"
    by (auto simp: mq_allocate_def Let_def empty_span_def)
  have "mq_at c (snd (mq_allocate c n q)) xs (span_bytes q (fst (mq_allocate c n q))) v w"
    using d(1-10) av s unfolding mq_at_def q
    by (simp add: sp span_bytes_def empty_span_def mq_full_def)
  then show ?thesis by (auto simp: mq_rep_def)
qed

text \<open>The slice that is allocated now; a smaller allocation later keeps its bytes.\<close>

definition mq_slice :: "mq_config \<Rightarrow> memory_queue \<Rightarrow> span" where
  "mq_slice c q = (mq_sent q mod mq_CAPACITY c + mq_SIZE_BYTES c, mq_allocated q)"

lemma mq_at_slice:
  assumes "mq_at c q xs p v w"
  shows "mq_slice c q = (w mod mq_CAPACITY c + mq_SIZE_BYTES c, length p)"
proof -
  have "mq_rep c q xs p" using assms by (auto simp: mq_rep_def)
  then show ?thesis using mq_atD(5) [OF assms] mq_pending_length
    by (simp add: mq_slice_def mod_mod_cancel)
qed

lemma mq_slice_bytes: "mq_rep c q xs p \<Longrightarrow> span_bytes q (mq_slice c q) = p"
proof -
  assume "mq_rep c q xs p"
  then obtain v w where at: "mq_at c q xs p v w" by (auto simp: mq_rep_def)
  have "mq_sent q mod mq_CAPACITY c = w mod mq_CAPACITY c" using mq_atD(5) [OF at] by (simp add: mod_mod_cancel)
  then show ?thesis using mq_atD(11) [OF at] by (simp add: mq_slice_def span_bytes_def)
qed

lemma mq_at_write:
  assumes at: "mq_at c q xs p v w" and len: "length d = length (mq_data q)"
    and same: "\<And>j. j < mq_CAPACITY c \<Longrightarrow>
      j < w mod mq_CAPACITY c \<or> w mod mq_CAPACITY c + mq_MAX_ELEMENT_SIZE c + mq_SIZE_BYTES c \<le> j \<Longrightarrow> d ! j = mq_data q ! j"
    and room: "w + mq_MAX_ELEMENT_SIZE c + mq_SIZE_BYTES c \<le> v + mq_CAPACITY c"
  shows "mq_holds c d v xs"
  by (rule mq_holds_write [OF mq_atD(2) [OF at] mq_atD(3) [OF at] len same mq_atD(7) [OF at] room])
    (use mq_atD [OF at] in auto)

lemma mq_store_rep:
  assumes "mq_rep c q xs p" "i < length p"
  shows "mq_rep c (span_store (mq_slice c q) i b q) xs (p[i := b])"
proof -
  obtain v w where at: "mq_at c q xs p v w" using assms(1) by (auto simp: mq_rep_def)
  note d = mq_atD [OF at] and sl = mq_at_slice [OF at]
  have len: "length p = mq_allocated q" by (rule mq_pending_length [OF assms(1)])
  let ?o = "w mod mq_CAPACITY c + mq_SIZE_BYTES c"
  have room: "w + mq_MAX_ELEMENT_SIZE c + mq_SIZE_BYTES c \<le> v + mq_CAPACITY c"
    using d(12) len assms(2) by simp
  have p: "p[i := b] = take (mq_allocated q) (drop ?o ((mq_data q)[?o + i := b]))"
    using d(11) by (simp add: drop_update_swap take_update_swap)
  have "mq_holds c ((mq_data q)[?o + i := b]) v xs"
    by (rule mq_at_write [OF at _ _ room]) (use d(13) len assms(2) in \<open>auto simp: nth_list_update\<close>)
  then have "mq_at c (span_store (mq_slice c q) i b q) xs (p[i := b]) v w"
    using d p assms(2) unfolding mq_at_def by (simp add: span_store_def sl)
  then show ?thesis by (auto simp: mq_rep_def)
qed

lemma mq_commit_rep:
  assumes "mq_rep c q xs p"
  shows "mq_rep c (mq_commit c q) (if p = [] then xs else xs @ [p]) []"
proof (cases "p = []")
  case True
  then show ?thesis using assms mq_pending_length [OF assms] by (simp add: mq_commit_def)
next
  case False
  obtain v w where at: "mq_at c q xs p v w" using assms by (auto simp: mq_rep_def)
  note d = mq_atD [OF at]
  have len: "length p = mq_allocated q" by (rule mq_pending_length [OF assms])
  then have pos: "0 < mq_allocated q" using False by (cases "mq_allocated q") auto
  note room = d(12) [OF pos]
  let ?i = "w mod mq_CAPACITY c" and ?k = "mq_SIZE_BYTES c"
  let ?d = "take ?i (mq_data q) @ be_encode ?k (mq_allocated q) @ drop (?i + ?k) (mq_data q)"
  have i: "?i + ?k + mq_MAX_ELEMENT_SIZE c \<le> length (mq_data q)"
    using d(3,7) by (simp add: mq_aligned_def)
  have dec: "be_decode (be_encode ?k (mq_allocated q)) = mq_allocated q"
    using d(2,13) by (simp add: mq_config_ok_def)
  have q: "mq_commit c q = q\<lparr>mq_data := ?d, mq_allocated := 0,
      mq_sent := mq_next c w (mq_allocated q) mod (2 * mq_CAPACITY c)\<rparr>"
    using pos d(5) dec mq_advance_next [OF d(2)] by (simp add: mq_commit_def Let_def mod_mod_cancel)
  have h: "mq_holds c ?d v xs"
    by (rule mq_at_write [OF at _ _ room]) (use i d(3) in \<open>auto simp: nth_append min_def\<close>)
  have last: "mq_holds c ?d w [p]"
    using i d(11,13) False len by (simp add: min_def)
  have "mq_at c (mq_commit c q) (xs @ [p]) [] v (mq_next c w (mq_allocated q))"
    using h last d i len mq_next_aligned [OF d(2)] mq_next_grows [OF d(2), of w "mq_allocated q"]
      mq_next_room [OF d(2,6,7,13) room]
    unfolding mq_at_def q by (simp add: mq_end_append mq_holds_append min_def)
  then show ?thesis using False by (auto simp: mq_rep_def)
qed

lemma mq_empty_iff: "mq_rep c q xs p \<Longrightarrow> mq_empty q \<longleftrightarrow> xs = []"
proof -
  assume "mq_rep c q xs p"
  then obtain v w where at: "mq_at c q xs p v w" by (auto simp: mq_rep_def)
  note d = mq_atD [OF at]
  have "mq_empty q \<longleftrightarrow> w = v"
    using mod_distance(2) [OF _ d(8,9)] d(2,4,5) by (auto simp: mq_empty_def mq_config_ok_def)
  then show ?thesis using mq_end_eq_iff [OF d(2)] d(1) by auto
qed

lemma mq_size_at_hd:
  assumes "mq_at c q (x # xs) p v w"
  shows "mq_size_at c (v mod mq_CAPACITY c) q = length x"
proof -
  note d = mq_atD [OF assms]
  have "length x < 256 ^ mq_SIZE_BYTES c" using d(2,10) by (simp add: mq_config_ok_def)
  then show ?thesis using d(10) by (simp add: mq_size_at_def)
qed

lemma mq_peek_span:
  assumes "mq_rep c q xs p"
  shows "snd (mq_peek c q) = (if xs = [] then 0 else length (hd xs))"
    and "span_bytes q (mq_peek c q) = (if xs = [] then [] else hd xs)"
proof -
  obtain v w where at: "mq_at c q xs p v w" using assms by (auto simp: mq_rep_def)
  note d = mq_atD [OF at] and e = mq_empty_iff [OF assms]
  have r: "mq_received q mod mq_CAPACITY c = v mod mq_CAPACITY c" using d(4) by (simp add: mod_mod_cancel)
  have "snd (mq_peek c q) = (if xs = [] then 0 else length (hd xs)) \<and>
      span_bytes q (mq_peek c q) = (if xs = [] then [] else hd xs)"
  proof (cases xs)
    case Nil
    then show ?thesis using e by (simp add: mq_peek_def empty_span_def span_bytes_def)
  next
    case (Cons x ys)
    then show ?thesis using e r mq_size_at_hd [of c q x ys p v w] at d(10)
      by (simp add: mq_peek_def span_bytes_def)
  qed
  then show "snd (mq_peek c q) = (if xs = [] then 0 else length (hd xs))"
    and "span_bytes q (mq_peek c q) = (if xs = [] then [] else hd xs)" by blast+
qed

lemma mq_release_rep:
  assumes "mq_rep c q xs p" shows "mq_rep c (mq_release c q) (tl xs) p"
proof (cases xs)
  case Nil
  then show ?thesis using assms mq_empty_iff [OF assms] by (simp add: mq_release_def)
next
  case (Cons x ys)
  obtain v w where at: "mq_at c q (x # ys) p v w" using assms Cons by (auto simp: mq_rep_def)
  note d = mq_atD [OF at]
  have q: "mq_release c q = q\<lparr>mq_received := mq_next c v (length x) mod (2 * mq_CAPACITY c)\<rparr>"
    using mq_empty_iff [OF assms] Cons d(4) mq_size_at_hd [OF at] mq_advance_next [OF d(2)]
    by (simp add: mq_release_def Let_def mod_mod_cancel)
  have later: "v \<le> mq_next c v (length x)" using mq_next_grows [OF d(2), of v "length x"] by simp
  then have "0 < mq_allocated q \<Longrightarrow>
      w + mq_MAX_ELEMENT_SIZE c + mq_SIZE_BYTES c \<le> mq_next c v (length x) + mq_CAPACITY c"
    using d(12) by (meson add_right_mono order_trans)
  then have "mq_at c (mq_release c q) ys p (mq_next c v (length x)) w"
    using later d(1-11,13) mq_next_aligned [OF d(2)] mq_next_grows [OF d(2), of v "length x"]
      mq_end_grows [OF d(2), of "mq_next c v (length x)" ys]
    unfolding mq_at_def q by simp
  then show ?thesis using Cons by (auto simp: mq_rep_def)
qed

lemma mq_clear_rep: "mq_rep c q xs p \<Longrightarrow> \<exists>q'. mq_clear c q = Some q' \<and> mq_rep c q' [] p"
proof (induction xs arbitrary: q)
  case Nil
  then show ?case using mq_empty_iff [OF Nil] by (subst mq_clear.simps) simp
next
  case (Cons x xs)
  show ?case using Cons.IH [OF mq_release_rep [OF Cons.prems, simplified]] mq_empty_iff [OF Cons.prems]
    by (subst mq_clear.simps) simp
qed

end
