(* ===== verification/IoAdapters.thy ===== *)
theory IoAdapters imports IoMemoryQueue begin

text \<open>
  The adapters of \<^verbatim>\<open>libs/bsw/io\<close> around the interfaces \<^verbatim>\<open>IReader\<close> and
  \<^verbatim>\<open>IWriter\<close>. An interface is a record of its virtual functions on a state; a span is an
  offset and a size in the memory of the reader or writer it came from, so that the interfaces
  also say how bytes are read and written through a span. Statistics counters have the width of
  \<^verbatim>\<open>size_t\<close> on the 32 bit targets.
\<close>

section \<open>Interfaces\<close>

record 'r reader_ops =
  rd_maxSize :: nat
  rd_peek :: "'r \<Rightarrow> span"
  rd_release :: "'r \<Rightarrow> 'r"
  rd_bytes :: "span \<Rightarrow> 'r \<Rightarrow> u8 list"

record 'w writer_ops =
  wr_maxSize :: nat
  wr_allocate :: "nat \<Rightarrow> 'w \<Rightarrow> span \<times> 'w"
  wr_commit :: "'w \<Rightarrow> 'w"
  wr_flush :: "'w \<Rightarrow> 'w"
  wr_store :: "span \<Rightarrow> nat \<Rightarrow> u8 \<Rightarrow> 'w \<Rightarrow> 'w"
  wr_bytes :: "span \<Rightarrow> 'w \<Rightarrow> u8 list"

definition mq_reader :: "mq_config \<Rightarrow> memory_queue reader_ops" where
  "mq_reader c = \<lparr>rd_maxSize = mq_MAX_ELEMENT_SIZE c, rd_peek = mq_peek c, rd_release = mq_release c,
     rd_bytes = (\<lambda>sp q. span_bytes q sp)\<rparr>"

definition mq_writer :: "mq_config \<Rightarrow> memory_queue writer_ops" where
  "mq_writer c = \<lparr>wr_maxSize = mq_MAX_ELEMENT_SIZE c, wr_allocate = mq_allocate c, wr_commit = mq_commit c,
     wr_flush = (\<lambda>q. q), wr_store = span_store, wr_bytes = (\<lambda>sp q. span_bytes q sp)\<rparr>"

section \<open>Spans\<close>

definition span_first :: "nat \<Rightarrow> span \<Rightarrow> span" where
  "span_first n sp = (fst sp, n)"

definition span_advance :: "nat \<Rightarrow> span \<Rightarrow> span" where
  "span_advance n sp = (fst sp + min n (snd sp), snd sp - min n (snd sp))"

text \<open>Copying bytes to the start of a span.\<close>

fun span_write :: "'w writer_ops \<Rightarrow> span \<Rightarrow> nat \<Rightarrow> u8 list \<Rightarrow> 'w \<Rightarrow> 'w" where
  "span_write W sp i [] w = w"
| "span_write W sp i (b # bs) w = span_write W sp (Suc i) bs (wr_store W sp i b w)"

section \<open>ForwardingReader\<close>

record ('r, 'w) forwarding_reader =
  fr_source :: 'r
  fr_destination :: 'w
  fr_sourceData :: span
  fr_destinationData :: span
  fr_failedAllocations :: u32

definition fr_new :: "'r \<Rightarrow> 'w \<Rightarrow> ('r, 'w) forwarding_reader" where
  "fr_new r w = \<lparr>fr_source = r, fr_destination = w, fr_sourceData = empty_span,
     fr_destinationData = empty_span, fr_failedAllocations = 0\<rparr>"

definition fr_maxSize :: "'r reader_ops \<Rightarrow> nat" where
  "fr_maxSize R = rd_maxSize R"

definition fr_peek ::
    "'r reader_ops \<Rightarrow> 'w writer_ops \<Rightarrow> ('r, 'w) forwarding_reader \<Rightarrow> span \<times> ('r, 'w) forwarding_reader" where
  "fr_peek R W f =
     (let f = f\<lparr>fr_sourceData := rd_peek R (fr_source f)\<rparr>
      in if snd (fr_sourceData f) > 0
         then let (sp, w) = wr_allocate W (snd (fr_sourceData f)) (fr_destination f);
                  f = f\<lparr>fr_destination := w, fr_destinationData := sp\<rparr>;
                  f = (if snd sp = 0 then f\<lparr>fr_failedAllocations := fr_failedAllocations f + 1\<rparr> else f)
              in (fr_sourceData f, f)
         else (fr_sourceData f, f))"

text \<open>\<^verbatim>\<open>etl::copy\<close> of spans copies nothing when the destination is smaller.\<close>

definition fr_release ::
    "'r reader_ops \<Rightarrow> 'w writer_ops \<Rightarrow> ('r, 'w) forwarding_reader \<Rightarrow> ('r, 'w) forwarding_reader" where
  "fr_release R W f =
     (let w = (if snd (fr_sourceData f) \<le> snd (fr_destinationData f)
               then span_write W (fr_destinationData f) 0 (rd_bytes R (fr_sourceData f) (fr_source f))
                 (fr_destination f)
               else fr_destination f)
      in f\<lparr>fr_destination := wr_commit W w, fr_destinationData := empty_span,
           fr_sourceData := empty_span, fr_source := rd_release R (fr_source f)\<rparr>)"

section \<open>BufferedWriter\<close>

record 'w buffered_writer =
  bw_destination :: 'w
  bw_currentBuffer :: span
  bw_size :: nat

definition bw_new :: "'w \<Rightarrow> 'w buffered_writer" where
  "bw_new w = \<lparr>bw_destination = w, bw_currentBuffer = empty_span, bw_size = 0\<rparr>"

definition bw_flush :: "'w writer_ops \<Rightarrow> 'w buffered_writer \<Rightarrow> 'w buffered_writer" where
  "bw_flush W b =
     (let w = (if snd (bw_currentBuffer b) > 0
               then snd (wr_allocate W (wr_maxSize W - snd (bw_currentBuffer b)) (bw_destination b))
               else bw_destination b)
      in b\<lparr>bw_destination := wr_commit W w, bw_currentBuffer := empty_span\<rparr>)"

definition bw_allocate :: "'w writer_ops \<Rightarrow> nat \<Rightarrow> 'w buffered_writer \<Rightarrow> span \<times> 'w buffered_writer" where
  "bw_allocate W sz b =
     (if sz > wr_maxSize W then (empty_span, b\<lparr>bw_size := 0\<rparr>)
      else if snd (bw_currentBuffer b) \<ge> sz
      then (span_first sz (bw_currentBuffer b), b\<lparr>bw_size := sz\<rparr>)
      else let b = bw_flush W b;
               (sp, w) = wr_allocate W (wr_maxSize W) (bw_destination b);
               b = b\<lparr>bw_destination := w, bw_currentBuffer := sp\<rparr>
           in if snd sp < wr_maxSize W then (empty_span, b\<lparr>bw_size := 0\<rparr>)
              else (span_first sz sp, b\<lparr>bw_size := sz\<rparr>))"

definition bw_commit :: "'w buffered_writer \<Rightarrow> 'w buffered_writer" where
  "bw_commit b = b\<lparr>bw_currentBuffer := span_advance (bw_size b) (bw_currentBuffer b), bw_size := 0\<rparr>"

section \<open>JoinReader\<close>

record 'r join_reader =
  jr_sources :: "'r list"
  jr_stats :: "u32 list"
  jr_currentPosition :: nat
  jr_hasPeeked :: bool

definition jr_new :: "'r list \<Rightarrow> 'r join_reader" where
  "jr_new rs = \<lparr>jr_sources = rs, jr_stats = replicate (length rs) 0, jr_currentPosition = 0,
     jr_hasPeeked = False\<rparr>"

fun jr_scan :: "'r reader_ops \<Rightarrow> 'r list \<Rightarrow> nat \<Rightarrow> nat \<Rightarrow> (nat \<times> span) option" where
  "jr_scan R rs i 0 = None"
| "jr_scan R rs i (Suc n) =
     (let real_i = i mod length rs; b = rd_peek R (rs ! real_i)
      in if snd b > 0 then Some (real_i, b) else jr_scan R rs (Suc i) n)"

definition jr_peek :: "'r reader_ops \<Rightarrow> 'r join_reader \<Rightarrow> span \<times> 'r join_reader" where
  "jr_peek R j =
     (case jr_scan R (jr_sources j) (jr_currentPosition j) (length (jr_sources j)) of
        Some (i, b) \<Rightarrow> (b, j\<lparr>jr_currentPosition := i, jr_hasPeeked := True\<rparr>)
      | None \<Rightarrow> (empty_span, j))"

definition jr_release :: "'r reader_ops \<Rightarrow> 'r join_reader \<Rightarrow> 'r join_reader" where
  "jr_release R j =
     (let p = jr_currentPosition j;
          j = (if jr_hasPeeked j then j\<lparr>jr_stats := (jr_stats j)[p := jr_stats j ! p + 1]\<rparr> else j)
      in j\<lparr>jr_sources := (jr_sources j)[p := rd_release R (jr_sources j ! p)],
           jr_currentPosition := (p + 1) mod length (jr_sources j), jr_hasPeeked := False\<rparr>)"

section \<open>SplitWriter\<close>

record 'w split_writer =
  sw_destinations :: "'w list"
  sw_drops :: "u32 list"
  sw_sent :: "u32 list"
  sw_buffer :: span
  sw_bufNum :: "nat option"

definition sw_new :: "'w list \<Rightarrow> 'w split_writer" where
  "sw_new ws = \<lparr>sw_destinations = ws, sw_drops = replicate (length ws) 0,
     sw_sent = replicate (length ws) 0, sw_buffer = empty_span, sw_bufNum = None\<rparr>"

fun sw_allocate_from :: "'w writer_ops \<Rightarrow> nat \<Rightarrow> nat \<Rightarrow> nat \<Rightarrow> 'w split_writer \<Rightarrow> span \<times> 'w split_writer" where
  "sw_allocate_from W sz i 0 s = (empty_span, s)"
| "sw_allocate_from W sz i (Suc n) s =
     (let (tmp, w) = wr_allocate W sz (sw_destinations s ! i);
          s = s\<lparr>sw_destinations := (sw_destinations s)[i := w]\<rparr>
      in if snd tmp = sz then (tmp, s\<lparr>sw_buffer := tmp, sw_bufNum := Some i\<rparr>)
         else sw_allocate_from W sz (Suc i) n s)"

definition sw_allocate :: "'w writer_ops \<Rightarrow> nat \<Rightarrow> 'w split_writer \<Rightarrow> span \<times> 'w split_writer" where
  "sw_allocate W sz s =
     (if sw_bufNum s \<noteq> None then (sw_buffer s, s)
      else sw_allocate_from W sz 0 (length (sw_destinations s)) s)"

definition sw_bump :: "nat \<Rightarrow> u32 list \<Rightarrow> u32 list" where
  "sw_bump i cs = cs[i := cs ! i + 1]"

fun sw_copy_from :: "'w writer_ops \<Rightarrow> nat \<Rightarrow> nat \<Rightarrow> nat \<Rightarrow> 'w split_writer \<Rightarrow> 'w split_writer" where
  "sw_copy_from W k i 0 s = s"
| "sw_copy_from W k i (Suc n) s =
     (if i = k then sw_copy_from W k (Suc i) n s
      else let (tmp, w) = wr_allocate W (snd (sw_buffer s)) (sw_destinations s ! i)
           in if snd tmp < snd (sw_buffer s)
              then sw_copy_from W k (Suc i) n
                (s\<lparr>sw_destinations := (sw_destinations s)[i := w], sw_drops := sw_bump i (sw_drops s)\<rparr>)
              else sw_copy_from W k (Suc i) n
                (s\<lparr>sw_destinations := (sw_destinations s)[i := wr_commit W
                      (span_write W tmp 0 (wr_bytes W (sw_buffer s) (sw_destinations s ! k)) w)],
                   sw_sent := sw_bump i (sw_sent s)\<rparr>))"

definition sw_commit :: "'w writer_ops \<Rightarrow> 'w split_writer \<Rightarrow> 'w split_writer" where
  "sw_commit W s =
     (case sw_bufNum s of
        None \<Rightarrow> s
      | Some k \<Rightarrow>
          let s = sw_copy_from W k 0 (length (sw_destinations s)) s
          in s\<lparr>sw_sent := sw_bump k (sw_sent s),
               sw_destinations := (sw_destinations s)[k := wr_commit W (sw_destinations s ! k)],
               sw_bufNum := None\<rparr>)"

end
