(* ===== verification/IoContracts.thy ===== *)
theory IoContracts imports IoMemoryQueueCorrect IoAdapters begin

text \<open>
  The contracts of \<^verbatim>\<open>IReader\<close> and \<^verbatim>\<open>IWriter\<close> as locales over an abstract queue of
  slices, their interpretation on the memory queue, and what follows for a channel whose two
  sides are used in any interleaving.
\<close>

section \<open>Contracts\<close>

locale io_reader =
  fixes R :: "'r reader_ops" and rrep :: "'r \<Rightarrow> u8 list list \<Rightarrow> bool"
  assumes rd_size: "rrep r xs \<Longrightarrow> snd (rd_peek R r) = (if xs = [] then 0 else length (hd xs))"
    and rd_content: "rrep r xs \<Longrightarrow> rd_bytes R (rd_peek R r) r = (if xs = [] then [] else hd xs)"
    and rd_next: "rrep r xs \<Longrightarrow> rrep (rd_release R r) (tl xs)"
    and rd_proper: "rrep r xs \<Longrightarrow> [] \<notin> set xs"
begin

lemma rd_size_pos: "rrep r xs \<Longrightarrow> 0 < snd (rd_peek R r) \<longleftrightarrow> xs \<noteq> []"
  using rd_size rd_proper by (cases xs) fastforce+

end

text \<open>
  A writer keeps the committed slices and the content of the slice being written, which
  \<open>slice\<close> locates; a smaller allocation trims that slice.
\<close>

definition span_in :: "span \<Rightarrow> span \<Rightarrow> bool" where
  "span_in sp outer \<longleftrightarrow> fst outer \<le> fst sp \<and> fst sp + snd sp \<le> fst outer + snd outer"

locale io_writer =
  fixes W :: "'w writer_ops" and wrep :: "'w \<Rightarrow> u8 list list \<Rightarrow> u8 list \<Rightarrow> bool" and slice :: "'w \<Rightarrow> span"
  assumes wr_length: "wrep w xs p \<Longrightarrow> snd (slice w) = length p"
    and wr_max: "wrep w xs p \<Longrightarrow> length p \<le> wr_maxSize W"
    and wr_alloc: "wrep w xs p \<Longrightarrow>
      (let (sp, w') = wr_allocate W n w
       in if snd sp = 0 then wrep w' xs []
          else snd sp = n \<and> slice w' = sp \<and> (\<exists>p'. wrep w' xs p'))"
    and wr_trim: "wrep w xs p \<Longrightarrow> 0 < n \<Longrightarrow> n \<le> length p \<Longrightarrow>
      (let (sp, w') = wr_allocate W n w in sp = (fst (slice w), n) \<and> slice w' = sp \<and> wrep w' xs (take n p))"
    and wr_put: "wrep w xs p \<Longrightarrow> span_in sp (slice w) \<Longrightarrow> i < snd sp \<Longrightarrow>
      wrep (wr_store W sp i b w) xs (p[fst sp - fst (slice w) + i := b])
      \<and> slice (wr_store W sp i b w) = slice w"
    and wr_content: "wrep w xs p \<Longrightarrow> span_in sp (slice w) \<Longrightarrow>
      wr_bytes W sp w = take (snd sp) (drop (fst sp - fst (slice w)) p)"
    and wr_send: "wrep w xs p \<Longrightarrow> wrep (wr_commit W w) (if p = [] then xs else xs @ [p]) []"
begin

lemma wr_slice_content: "wrep w xs p \<Longrightarrow> wr_bytes W (slice w) w = p"
  using wr_content [of w xs p "slice w"] wr_length [of w xs p] by (simp add: span_in_def)

lemma wr_write:
  "wrep w xs p \<Longrightarrow> span_in sp (slice w) \<Longrightarrow> i + length bs \<le> snd sp \<Longrightarrow>
    \<exists>p'. wrep (span_write W sp i bs w) xs p' \<and> slice (span_write W sp i bs w) = slice w
      \<and> p' = take (fst sp - fst (slice w) + i) p @ bs @ drop (fst sp - fst (slice w) + i + length bs) p"
proof (induction bs arbitrary: i w p)
  case (Cons b bs)
  let ?o = "fst sp - fst (slice w)"
  have i: "i < snd sp" using Cons.prems(3) by simp
  note put = wr_put [OF Cons.prems(1,2) i, of b]
  have in': "span_in sp (slice (wr_store W sp i b w))" using put Cons.prems(2) by simp
  have len: "?o + i + length (b # bs) \<le> length p"
    using Cons.prems wr_length [OF Cons.prems(1)] by (auto simp: span_in_def)
  obtain p' where p': "wrep (span_write W sp (Suc i) bs (wr_store W sp i b w)) xs p'"
      "slice (span_write W sp (Suc i) bs (wr_store W sp i b w)) = slice w"
      "p' = take (?o + Suc i) (p[?o + i := b]) @ bs @ drop (?o + Suc i + length bs) (p[?o + i := b])"
    using Cons.IH [OF conjunct1 [OF put] in', of "Suc i"] Cons.prems(3) put by auto
  have "p' = take (?o + i) p @ (b # bs) @ drop (?o + i + length (b # bs)) p"
    using p'(3) len by (simp add: take_Suc_conv_app_nth)
  then show ?case using p'(1,2) by auto
qed simp

end

text \<open>A channel is a writer and a reader on one state.\<close>

locale io_channel = io_writer W wrep slice
  for W :: "'w writer_ops" and wrep :: "'w \<Rightarrow> u8 list list \<Rightarrow> u8 list \<Rightarrow> bool" and slice :: "'w \<Rightarrow> span" +
  fixes R :: "'w reader_ops"
  assumes ch_size: "wrep w xs p \<Longrightarrow> snd (rd_peek R w) = (if xs = [] then 0 else length (hd xs))"
    and ch_content: "wrep w xs p \<Longrightarrow> rd_bytes R (rd_peek R w) w = (if xs = [] then [] else hd xs)"
    and ch_release: "wrep w xs p \<Longrightarrow> wrep (rd_release R w) (tl xs) p \<and> slice (rd_release R w) = slice w"
    and ch_proper: "wrep w xs p \<Longrightarrow> [] \<notin> set xs"

sublocale io_channel \<subseteq> rd: io_reader R "\<lambda>w xs. \<exists>p. wrep w xs p"
  using ch_size ch_content ch_release ch_proper by unfold_locales blast+

section \<open>The memory queue is a channel\<close>

lemma mq_allocate_full: "mq_full c q \<Longrightarrow> fst (mq_allocate c n q) = empty_span"
  by (simp add: mq_allocate_def mq_full_def mq_available_def Let_def)

lemma mq_allocate_slice: "fst (mq_allocate c n q) \<noteq> empty_span \<Longrightarrow> mq_slice c (snd (mq_allocate c n q)) = fst (mq_allocate c n q)"
  by (auto simp: mq_allocate_def mq_slice_def empty_span_def Let_def split: if_splits)

lemma mq_allocate_size: "snd (fst (mq_allocate c n q)) = (if fst (mq_allocate c n q) = empty_span then 0 else n)
    \<and> (n = 0 \<longrightarrow> fst (mq_allocate c n q) = empty_span)"
  by (auto simp: mq_allocate_def empty_span_def Let_def)

text \<open>A pending slice shows that the largest slice fits.\<close>

lemma mq_pending_not_full:
  assumes "mq_rep c q xs p" "p \<noteq> []" shows "\<not> mq_full c q"
proof -
  obtain v w where at: "mq_at c q xs p v w" using assms(1) by (auto simp: mq_rep_def)
  have "0 < mq_allocated q" using assms mq_pending_length [OF assms(1)] by (cases "mq_allocated q") auto
  note room = mq_atD(12) [OF at this]
  then have "mq_available c q = v + mq_CAPACITY c - w" using mq_available_at [OF at] by simp
  then show ?thesis using mq_free_pos [OF mq_atD(2) [OF at] room] by (simp add: mq_full_def)
qed

lemma mq_rep_max: "mq_rep c q xs p \<Longrightarrow> length p \<le> mq_MAX_ELEMENT_SIZE c"
  using mq_pending_length [of c q xs p] mq_atD(13) [of c q xs p] by (auto simp: mq_rep_def)

lemma mq_trim_rep:
  assumes "mq_rep c q xs p" "0 < n" "n \<le> length p"
  shows "fst (mq_allocate c n q) = (fst (mq_slice c q), n)"
    and "mq_slice c (snd (mq_allocate c n q)) = (fst (mq_slice c q), n)"
    and "mq_rep c (snd (mq_allocate c n q)) xs (take n p)"
proof -
  have "\<not> mq_full c q" using mq_pending_not_full [OF assms(1)] assms(2,3) by (cases p) auto
  then show sp: "fst (mq_allocate c n q) = (fst (mq_slice c q), n)"
    using mq_allocate_span [OF assms(1), of n] assms mq_rep_max [OF assms(1)] by (simp add: mq_slice_def)
  then have "fst (mq_allocate c n q) \<noteq> empty_span" using assms(2) by (simp add: empty_span_def)
  then show "mq_slice c (snd (mq_allocate c n q)) = (fst (mq_slice c q), n)"
    using mq_allocate_slice sp by simp
  have "span_bytes q (fst (mq_slice c q), n) = take n (span_bytes q (mq_slice c q))"
    using assms(3) mq_pending_length [OF assms(1)] by (simp add: span_bytes_def mq_slice_def min_def)
  then show "mq_rep c (snd (mq_allocate c n q)) xs (take n p)"
    using mq_allocate_rep [OF assms(1), of n] sp mq_slice_bytes [OF assms(1)] by simp
qed

lemma mq_holds_proper: "mq_holds c d v xs \<Longrightarrow> [] \<notin> set xs"
  by (induction xs arbitrary: v) auto

lemma mq_rep_proper: "mq_rep c q xs p \<Longrightarrow> [] \<notin> set xs"
  using mq_atD(10) mq_holds_proper unfolding mq_rep_def by blast

lemma mq_slice_length: "mq_rep c q xs p \<Longrightarrow> snd (mq_slice c q) = length p"
  by (simp add: mq_slice_def mq_pending_length)

lemma mq_writer_alloc:
  assumes "mq_rep c q xs p"
  shows "let (sp, q') = mq_allocate c n q
    in if snd sp = 0 then mq_rep c q' xs []
       else snd sp = n \<and> mq_slice c q' = sp \<and> (\<exists>p'. mq_rep c q' xs p')"
  using mq_allocate_rep [OF assms, of n] mq_allocate_size [of c n q] mq_allocate_slice [of c n q]
  by (auto simp: case_prod_unfold Let_def span_bytes_def empty_span_def split: if_splits)

lemma mq_writer_put:
  assumes "mq_rep c q xs p" "span_in sp (mq_slice c q)" "i < snd sp"
  shows "mq_rep c (span_store sp i b q) xs (p[fst sp - fst (mq_slice c q) + i := b])
    \<and> mq_slice c (span_store sp i b q) = mq_slice c q"
proof -
  let ?j = "fst sp - fst (mq_slice c q) + i"
  have j: "?j < length p" "fst (mq_slice c q) + ?j = fst sp + i"
    using assms mq_slice_length [OF assms(1)] by (auto simp: span_in_def)
  then have "span_store sp i b q = span_store (mq_slice c q) ?j b q"
    using assms(3) mq_slice_length [OF assms(1)] by (simp add: span_store_def)
  then show ?thesis using mq_store_rep [OF assms(1) j(1), of b]
    by (auto simp: mq_slice_def span_store_def)
qed

lemma mq_writer_content:
  assumes "mq_rep c q xs p" "span_in sp (mq_slice c q)"
  shows "span_bytes q sp = take (snd sp) (drop (fst sp - fst (mq_slice c q)) p)"
proof -
  let ?o = "fst (mq_slice c q)"
  have "p = take (snd (mq_slice c q)) (drop ?o (mq_data q))"
    using mq_slice_bytes [OF assms(1)] by (simp add: span_bytes_def)
  moreover have "?o + (fst sp - ?o) = fst sp" "snd sp \<le> snd (mq_slice c q) - (fst sp - ?o)"
    using assms(2) by (auto simp: span_in_def)
  ultimately show ?thesis by (simp add: span_bytes_def drop_take min_def)
qed

interpretation mqc: io_channel "mq_writer c" "mq_rep c" "mq_slice c" "mq_reader c" for c
proof (unfold_locales, goal_cases)
  case 3 then show ?case using mq_writer_alloc by (simp add: mq_writer_def)
next
  case 4 then show ?case using mq_trim_rep by (simp add: mq_writer_def case_prod_unfold)
next
  case 5 then show ?case using mq_writer_put by (simp add: mq_writer_def)
next
  case 6 then show ?case using mq_writer_content by (simp add: mq_writer_def)
next
  case (10 w xs p)
  then show ?case using mq_release_rep [OF 10]
    by (auto simp: mq_reader_def mq_slice_def mq_release_def Let_def)
qed (simp_all add: mq_writer_def mq_reader_def mq_slice_length mq_rep_max mq_commit_rep mq_peek_span mq_rep_proper)

section \<open>First in, first out\<close>

text \<open>
  A run of both sides in any order: the producer works on the span it was given last, the
  consumer takes what it peeks. The ghost lists are what has been committed and released.
\<close>

datatype channel_call = ChAllocate nat | ChStore nat u8 | ChCommit | ChRelease

record 'w channel_run =
  cr_channel :: 'w
  cr_span :: span
  cr_sent :: "u8 list list"
  cr_got :: "u8 list list"

definition cr_new :: "'w \<Rightarrow> 'w channel_run" where
  "cr_new w = \<lparr>cr_channel = w, cr_span = empty_span, cr_sent = [], cr_got = []\<rparr>"

fun cr_step :: "'w writer_ops \<Rightarrow> 'w reader_ops \<Rightarrow> channel_call \<Rightarrow> 'w channel_run \<Rightarrow> 'w channel_run" where
  "cr_step W R (ChAllocate n) s =
     (let (sp, w) = wr_allocate W n (cr_channel s) in s\<lparr>cr_channel := w, cr_span := sp\<rparr>)"
| "cr_step W R (ChStore i b) s =
     (if i < snd (cr_span s) then s\<lparr>cr_channel := wr_store W (cr_span s) i b (cr_channel s)\<rparr> else s)"
| "cr_step W R ChCommit s =
     s\<lparr>cr_channel := wr_commit W (cr_channel s), cr_span := empty_span,
       cr_sent := cr_sent s @ (if snd (cr_span s) = 0 then [] else [wr_bytes W (cr_span s) (cr_channel s)])\<rparr>"
| "cr_step W R ChRelease s =
     s\<lparr>cr_channel := rd_release R (cr_channel s),
       cr_got := cr_got s @ (if snd (rd_peek R (cr_channel s)) = 0 then []
         else [rd_bytes R (rd_peek R (cr_channel s)) (cr_channel s)])\<rparr>"

definition cr_run :: "'w writer_ops \<Rightarrow> 'w reader_ops \<Rightarrow> channel_call list \<Rightarrow> 'w channel_run \<Rightarrow> 'w channel_run" where
  "cr_run W R calls s = fold (cr_step W R) calls s"

context io_channel
begin

definition cr_inv :: "'w channel_run \<Rightarrow> u8 list list \<Rightarrow> bool" where
  "cr_inv s xs \<longleftrightarrow> cr_sent s = cr_got s @ xs \<and> (\<exists>p. wrep (cr_channel s) xs p
     \<and> snd (cr_span s) = length p \<and> (p \<noteq> [] \<longrightarrow> slice (cr_channel s) = cr_span s))"

lemma cr_inv_step: "cr_inv s xs \<Longrightarrow> \<exists>xs'. cr_inv (cr_step W R call s) xs'"
proof -
  assume "cr_inv s xs"
  then obtain p where p: "wrep (cr_channel s) xs p" "snd (cr_span s) = length p"
      "p \<noteq> [] \<Longrightarrow> slice (cr_channel s) = cr_span s" and eq: "cr_sent s = cr_got s @ xs"
    by (auto simp: cr_inv_def)
  show ?thesis
  proof (cases call)
    case (ChAllocate n)
    obtain sp w where al: "wr_allocate W n (cr_channel s) = (sp, w)" by (cases "wr_allocate W n (cr_channel s)")
    have "if snd sp = 0 then wrep w xs [] else snd sp = n \<and> slice w = sp \<and> (\<exists>p'. wrep w xs p')"
      using wr_alloc [OF p(1), of n] al by simp
    then have "cr_inv (cr_step W R call s) xs" using eq wr_length ChAllocate al
      by (fastforce simp: cr_inv_def split: if_splits)
    then show ?thesis ..
  next
    case (ChStore i b)
    show ?thesis
    proof (cases "i < snd (cr_span s)")
      case True
      have sl: "slice (cr_channel s) = cr_span s" using p(2,3) True by (cases p) auto
      from wr_put [OF p(1) _ True, of b] have "wrep (wr_store W (cr_span s) i b (cr_channel s)) xs (p[i := b])"
          "slice (wr_store W (cr_span s) i b (cr_channel s)) = cr_span s"
        by (simp_all add: sl span_in_def)
      then have "cr_inv (cr_step W R call s) xs" using eq p(2) True ChStore
        by (auto simp: cr_inv_def intro!: exI [of _ "p[i := b]"])
      then show ?thesis ..
    qed (use \<open>cr_inv s xs\<close> ChStore in auto)
  next
    case ChCommit
    have "wr_bytes W (cr_span s) (cr_channel s) = p" if "p \<noteq> []"
      using wr_slice_content [OF p(1)] p(3) [OF that] by simp
    then have "cr_inv (cr_step W R call s) (if p = [] then xs else xs @ [p])"
      using wr_send [OF p(1)] p(2) eq ChCommit
      by (auto simp: cr_inv_def empty_span_def intro!: exI [of _ "[]"])
    then show ?thesis ..
  next
    case ChRelease
    have "cr_inv (cr_step W R call s) (tl xs)"
      using ch_release [OF p(1)] ch_size [OF p(1)] ch_content [OF p(1)] ch_proper [OF p(1)] p eq ChRelease
      by (cases xs) (auto simp: cr_inv_def)
    then show ?thesis ..
  qed
qed

lemma cr_inv_run: "cr_inv s xs \<Longrightarrow> \<exists>xs'. cr_inv (cr_run W R calls s) xs'"
  unfolding cr_run_def
proof (induction calls arbitrary: s xs)
  case (Cons call calls)
  then show ?case using cr_inv_step [OF Cons.prems, of call] by auto
qed auto

text \<open>What has been released is a prefix of what has been committed, and peeking shows the next.\<close>

lemma cr_fifo:
  assumes "wrep w [] []"
  shows "let s = cr_run W R calls (cr_new w)
    in cr_got s = take (length (cr_got s)) (cr_sent s)
       \<and> rd_bytes R (rd_peek R (cr_channel s)) (cr_channel s)
           = (if cr_got s = cr_sent s then [] else cr_sent s ! length (cr_got s))
       \<and> (snd (rd_peek R (cr_channel s)) = 0 \<longleftrightarrow> cr_got s = cr_sent s)"
proof -
  let ?s = "cr_run W R calls (cr_new w)"
  have "cr_inv (cr_new w) []" using assms by (auto simp: cr_inv_def cr_new_def empty_span_def)
  then obtain xs where "cr_inv ?s xs" using cr_inv_run by blast
  then obtain p where "wrep (cr_channel ?s) xs p" and s: "cr_sent ?s = cr_got ?s @ xs"
    by (auto simp: cr_inv_def)
  from ch_size [OF this(1)] ch_content [OF this(1)] ch_proper [OF this(1)] s show ?thesis
    by (cases xs) (auto simp: Let_def)
qed

end

section \<open>The buffered writer\<close>

text \<open>
  Chunks go to the destination in slices of its largest size. The ghost lists are the chunks
  committed here, the slices the destination's reader took.
\<close>

datatype buffered_call = BwAllocate nat | BwStore nat u8 | BwCommit | BwFlush | BwRelease

record 'w buffered_run =
  br_writer :: "'w buffered_writer"
  br_span :: span
  br_chunks :: "u8 list list"
  br_got :: "u8 list list"

definition br_new :: "'w \<Rightarrow> 'w buffered_run" where
  "br_new w = \<lparr>br_writer = bw_new w, br_span = empty_span, br_chunks = [], br_got = []\<rparr>"

fun br_step :: "'w writer_ops \<Rightarrow> 'w reader_ops \<Rightarrow> buffered_call \<Rightarrow> 'w buffered_run \<Rightarrow> 'w buffered_run" where
  "br_step W R (BwAllocate n) s =
     (let (sp, b) = bw_allocate W n (br_writer s) in s\<lparr>br_writer := b, br_span := sp\<rparr>)"
| "br_step W R (BwStore i b) s =
     (if i < snd (br_span s)
      then s\<lparr>br_writer := (br_writer s)\<lparr>bw_destination :=
        wr_store W (br_span s) i b (bw_destination (br_writer s))\<rparr>\<rparr> else s)"
| "br_step W R BwCommit s =
     s\<lparr>br_writer := bw_commit (br_writer s), br_span := empty_span,
       br_chunks := br_chunks s @ (if snd (br_span s) = 0 then []
         else [wr_bytes W (br_span s) (bw_destination (br_writer s))])\<rparr>"
| "br_step W R BwFlush s = s\<lparr>br_writer := bw_flush W (br_writer s), br_span := empty_span\<rparr>"
| "br_step W R BwRelease s =
     (let w = bw_destination (br_writer s)
      in s\<lparr>br_writer := (br_writer s)\<lparr>bw_destination := rd_release R w\<rparr>,
           br_got := br_got s @ [rd_bytes R (rd_peek R w) w]\<rparr>)"

definition br_run :: "'w writer_ops \<Rightarrow> 'w reader_ops \<Rightarrow> buffered_call list \<Rightarrow> 'w buffered_run \<Rightarrow> 'w buffered_run" where
  "br_run W R calls s = fold (br_step W R) calls s"

context io_channel
begin

text \<open>The buffer is the rest of the largest slice; \<open>used\<close> bytes of it are committed chunks.\<close>

definition bw_inv :: "'w buffered_writer \<Rightarrow> u8 list list \<Rightarrow> u8 list \<Rightarrow> bool" where
  "bw_inv b xs used \<longleftrightarrow> (\<exists>p. wrep (bw_destination b) xs p \<and> used = take (length used) p
     \<and> snd (bw_currentBuffer b) = length p - length used \<and> length used \<le> length p
     \<and> (p = [] \<or> length p = wr_maxSize W)
     \<and> (0 < snd (bw_currentBuffer b) \<longrightarrow>
         fst (bw_currentBuffer b) = fst (slice (bw_destination b)) + length used))"

lemma bw_inv_flush:
  assumes "bw_inv b xs used"
  shows "bw_inv (bw_flush W b) (if used = [] then xs else xs @ [used]) []"
    and "bw_currentBuffer (bw_flush W b) = empty_span"
proof -
  obtain p where p: "wrep (bw_destination b) xs p" "used = take (length used) p" "length used \<le> length p"
      "snd (bw_currentBuffer b) = length p - length used" "p = [] \<or> length p = wr_maxSize W"
    using assms by (auto simp: bw_inv_def)
  have res: "wrep (bw_destination (bw_flush W b)) (if used = [] then xs else xs @ [used]) []"
  proof (cases "0 < snd (bw_currentBuffer b)")
    case False
    then have "used = p" using p(2-4) by simp
    then show ?thesis using wr_send [OF p(1)] False by (simp add: bw_flush_def split: if_splits)
  next
    case True
    then have n: "wr_maxSize W - snd (bw_currentBuffer b) = length used" using p(3-5) by auto
    show ?thesis
    proof (cases "used = []")
      case True
      obtain sp w where al: "wr_allocate W 0 (bw_destination b) = (sp, w)"
        by (cases "wr_allocate W 0 (bw_destination b)")
      have "wrep w xs []" using wr_alloc [OF p(1), of 0] al by (auto split: if_splits)
      then show ?thesis using wr_send [of w xs "[]"] al True n \<open>0 < snd (bw_currentBuffer b)\<close>
        by (simp add: bw_flush_def)
    next
      case False
      then have "wrep (snd (wr_allocate W (length used) (bw_destination b))) xs used"
        using wr_trim [OF p(1), of "length used"] p(2,3) by (simp add: case_prod_unfold Let_def)
      then show ?thesis using wr_send [of _ xs used] False n \<open>0 < snd (bw_currentBuffer b)\<close>
        by (simp add: bw_flush_def)
    qed
  qed
  show e: "bw_currentBuffer (bw_flush W b) = empty_span" by (simp add: bw_flush_def)
  show "bw_inv (bw_flush W b) (if used = [] then xs else xs @ [used]) []"
    using res e unfolding bw_inv_def by (intro exI [of _ "[]"]) (simp add: empty_span_def)
qed

definition br_inv :: "'w buffered_run \<Rightarrow> u8 list list \<Rightarrow> u8 list \<Rightarrow> bool" where
  "br_inv s xs used \<longleftrightarrow> bw_inv (br_writer s) xs used
     \<and> concat (br_chunks s) = concat (br_got s) @ concat xs @ used
     \<and> snd (br_span s) \<le> snd (bw_currentBuffer (br_writer s))
     \<and> (snd (br_span s) > 0 \<longrightarrow>
          fst (br_span s) = fst (bw_currentBuffer (br_writer s)) \<and> bw_size (br_writer s) = snd (br_span s))
     \<and> (snd (br_span s) = 0 \<longrightarrow> bw_size (br_writer s) = 0 \<or> snd (bw_currentBuffer (br_writer s)) = 0)"

lemma bw_inv_allocate:
  assumes "bw_inv b xs used"
  shows "\<exists>xs' used'. bw_inv (snd (bw_allocate W n b)) xs' used' \<and> concat xs' @ used' = concat xs @ used
    \<and> snd (fst (bw_allocate W n b)) \<le> snd (bw_currentBuffer (snd (bw_allocate W n b)))
    \<and> bw_size (snd (bw_allocate W n b)) = snd (fst (bw_allocate W n b))
    \<and> (snd (fst (bw_allocate W n b)) > 0 \<longrightarrow>
        fst (fst (bw_allocate W n b)) = fst (bw_currentBuffer (snd (bw_allocate W n b))))"
proof (cases "n \<le> wr_maxSize W \<and> snd (bw_currentBuffer b) < n")
  case False
  then have "bw_inv (snd (bw_allocate W n b)) xs used" using assms
    by (auto simp: bw_allocate_def bw_inv_def)
  then show ?thesis using False
    by (intro exI [of _ xs] exI [of _ used]) (auto simp: bw_allocate_def span_first_def empty_span_def)
next
  case True
  let ?b = "bw_flush W b" and ?xs = "if used = [] then xs else xs @ [used]"
  note fl = bw_inv_flush [OF assms]
  obtain p0 where p0: "wrep (bw_destination ?b) ?xs p0" "p0 = []" using fl
    by (auto simp: bw_inv_def empty_span_def)
  obtain sp w where al: "wr_allocate W (wr_maxSize W) (bw_destination ?b) = (sp, w)"
    by (cases "wr_allocate W (wr_maxSize W) (bw_destination ?b)")
  note law = wr_alloc [OF p0(1), of "wr_maxSize W"]
  show ?thesis
  proof (cases "snd sp < wr_maxSize W")
    case small: True
    then have "snd sp = 0" "wrep w ?xs []" using law al by (auto split: if_splits)
    then have "bw_inv (snd (bw_allocate W n b)) ?xs []" using al small True
      by (auto simp: bw_allocate_def bw_inv_def Let_def intro!: exI [of _ "[]"])
    then show ?thesis using True al small
      by (intro exI [of _ ?xs] exI [of _ "[]"]) (auto simp: bw_allocate_def Let_def empty_span_def)
  next
    case big: False
    then have pos: "0 < snd sp" using True by simp
    then obtain p' where w: "snd sp = wr_maxSize W" "slice w = sp" "wrep w ?xs p'"
      using law al by (auto split: if_splits)
    then have "length p' = wr_maxSize W" using wr_length [OF w(3)] by simp
    then have "bw_inv (snd (bw_allocate W n b)) ?xs []" using al big True w
      by (auto simp: bw_allocate_def bw_inv_def Let_def intro!: exI [of _ p'])
    then show ?thesis using True al big w(1)
      by (intro exI [of _ ?xs] exI [of _ "[]"]) (auto simp: bw_allocate_def Let_def span_first_def)
  qed
qed

lemma br_inv_step:
  assumes "br_inv s xs used" shows "\<exists>xs' used'. br_inv (br_step W R call s) xs' used'"
proof (cases call)
  case (BwAllocate n)
  from bw_inv_allocate [of "br_writer s" xs used n] assms
  obtain xs' used' where "bw_inv (snd (bw_allocate W n (br_writer s))) xs' used'"
      "concat xs' @ used' = concat xs @ used"
      "snd (fst (bw_allocate W n (br_writer s))) \<le> snd (bw_currentBuffer (snd (bw_allocate W n (br_writer s))))"
      "bw_size (snd (bw_allocate W n (br_writer s))) = snd (fst (bw_allocate W n (br_writer s)))"
      "snd (fst (bw_allocate W n (br_writer s))) > 0 \<Longrightarrow>
        fst (fst (bw_allocate W n (br_writer s))) = fst (bw_currentBuffer (snd (bw_allocate W n (br_writer s))))"
    by (auto simp: br_inv_def)
  then have "br_inv (br_step W R call s) xs' used'" using assms BwAllocate
    by (auto simp: br_inv_def case_prod_unfold Let_def)
  then show ?thesis by blast
next
  case (BwStore i b)
  show ?thesis
  proof (cases "i < snd (br_span s)")
    case True
    let ?b = "br_writer s" and ?o = "length used"
    obtain p where p: "wrep (bw_destination ?b) xs p" "used = take ?o p" "?o \<le> length p"
        "snd (bw_currentBuffer ?b) = length p - ?o" "p = [] \<or> length p = wr_maxSize W"
        "fst (bw_currentBuffer ?b) = fst (slice (bw_destination ?b)) + ?o"
      using assms True by (auto simp: br_inv_def bw_inv_def)
    have sp: "fst (br_span s) = fst (slice (bw_destination ?b)) + ?o" "snd (br_span s) \<le> length p - ?o"
      using assms True p(4,6) by (auto simp: br_inv_def)
    then have "span_in (br_span s) (slice (bw_destination ?b))"
      using wr_length [OF p(1)] p(3) by (auto simp: span_in_def)
    from wr_put [OF p(1) this True, of b]
    have w: "wrep (wr_store W (br_span s) i b (bw_destination ?b)) xs (p[?o + i := b])"
        "slice (wr_store W (br_span s) i b (bw_destination ?b)) = slice (bw_destination ?b)"
      by (simp_all add: sp(1))
    have "bw_inv (?b\<lparr>bw_destination := wr_store W (br_span s) i b (bw_destination ?b)\<rparr>) xs used"
      using w p(2-6) unfolding bw_inv_def by (intro exI [of _ "p[?o + i := b]"]) auto
    then have "br_inv (br_step W R call s) xs used" using assms True BwStore by (auto simp: br_inv_def)
    then show ?thesis by blast
  qed (use assms BwStore in auto)
next
  case BwCommit
  let ?b = "br_writer s" and ?o = "length used" and ?n = "snd (br_span s)"
  have b: "bw_inv ?b xs used" using assms by (simp add: br_inv_def)
  show ?thesis
  proof (cases "?n = 0")
    case True
    then have "bw_currentBuffer (bw_commit ?b) = bw_currentBuffer ?b"
      using assms by (auto simp: bw_commit_def br_inv_def span_advance_def prod_eq_iff)
    then have "br_inv (br_step W R call s) xs used" using assms BwCommit True
      by (simp add: br_inv_def bw_inv_def bw_commit_def empty_span_def)
    then show ?thesis by blast
  next
    case False
    obtain p where p: "wrep (bw_destination ?b) xs p" "used = take ?o p" "?o \<le> length p"
        "snd (bw_currentBuffer ?b) = length p - ?o" "p = [] \<or> length p = wr_maxSize W"
        "fst (bw_currentBuffer ?b) = fst (slice (bw_destination ?b)) + ?o"
      using assms False by (auto simp: br_inv_def bw_inv_def)
    have sp: "fst (br_span s) = fst (slice (bw_destination ?b)) + ?o" "?n \<le> length p - ?o" "bw_size ?b = ?n"
      using assms False p(4,6) by (auto simp: br_inv_def)
    then have "span_in (br_span s) (slice (bw_destination ?b))"
      using wr_length [OF p(1)] p(3) by (auto simp: span_in_def)
    from wr_content [OF p(1) this]
    have c: "wr_bytes W (br_span s) (bw_destination ?b) = take ?n (drop ?o p)" by (simp add: sp(1))
    let ?u = "used @ take ?n (drop ?o p)"
    have u: "?u = take (?o + ?n) p" using p(2) by (metis take_add)
    have l: "length ?u = ?o + ?n" using sp(2) p(3) by simp
    have "bw_inv (bw_commit ?b) xs ?u"
      unfolding bw_inv_def bw_commit_def using p sp l u
      by (intro exI [of _ p]) (simp add: span_advance_def min_def)
    then have "br_inv (br_step W R call s) xs ?u" using assms BwCommit False c
      by (simp add: br_inv_def bw_commit_def empty_span_def)
    then show ?thesis by blast
  qed
next
  case BwFlush
  have "bw_inv (br_writer s) xs used" using assms by (simp add: br_inv_def)
  from bw_inv_flush [OF this] assms
  have "br_inv (br_step W R call s) (if used = [] then xs else xs @ [used]) []" using BwFlush
    by (auto simp: br_inv_def empty_span_def)
  then show ?thesis by blast
next
  case BwRelease
  let ?w = "bw_destination (br_writer s)"
  obtain p where p: "wrep ?w xs p" using assms by (auto simp: br_inv_def bw_inv_def)
  have "bw_inv ((br_writer s)\<lparr>bw_destination := rd_release R ?w\<rparr>) (tl xs) used"
    using assms ch_release by (fastforce simp: br_inv_def bw_inv_def)
  then have "br_inv (br_step W R call s) (tl xs) used"
    using assms BwRelease ch_content [OF p] by (cases xs) (auto simp: br_inv_def Let_def)
  then show ?thesis by blast
qed

lemma br_inv_run: "br_inv s xs used \<Longrightarrow> \<exists>xs' used'. br_inv (br_run W R calls s) xs' used'"
  unfolding br_run_def
proof (induction calls arbitrary: s xs used)
  case (Cons call calls)
  then show ?case using br_inv_step [OF Cons.prems, of call] by auto
qed auto

lemma br_new_inv: "wrep w [] [] \<Longrightarrow> br_inv (br_new w) [] []"
  by (auto simp: br_inv_def bw_inv_def br_new_def bw_new_def empty_span_def intro!: exI [of _ "[]"])

text \<open>After a flush, all chunks are in the slices taken and the slices still waiting.\<close>

lemma br_flushed:
  assumes "wrep w [] []"
  shows "\<exists>xs. (\<exists>p. wrep (bw_destination (br_writer (br_run W R (calls @ [BwFlush]) (br_new w)))) xs p)
    \<and> concat (br_chunks (br_run W R (calls @ [BwFlush]) (br_new w)))
       = concat (br_got (br_run W R (calls @ [BwFlush]) (br_new w))) @ concat xs"
proof -
  let ?s = "br_run W R calls (br_new w)"
  obtain xs used where s: "br_inv ?s xs used" using br_inv_run [OF br_new_inv [OF assms]] by blast
  then have b: "bw_inv (br_writer ?s) xs used" by (simp add: br_inv_def)
  let ?xs = "if used = [] then xs else xs @ [used]"
  have "\<exists>p. wrep (bw_destination (bw_flush W (br_writer ?s))) ?xs p"
    using bw_inv_flush(1) [OF b] by (auto simp: bw_inv_def split: if_splits)
  moreover have "concat (br_chunks ?s) = concat (br_got ?s) @ concat ?xs" using s by (simp add: br_inv_def)
  moreover have "br_run W R (calls @ [BwFlush]) (br_new w)
      = ?s\<lparr>br_writer := bw_flush W (br_writer ?s), br_span := empty_span\<rparr>"
    by (simp add: br_run_def)
  ultimately show ?thesis by auto
qed

end

section \<open>The join reader\<close>

text \<open>One turn of a client: peek, use what was peeked, release. It tells which source was served.\<close>

definition jr_serve :: "'r reader_ops \<Rightarrow> 'r join_reader \<Rightarrow> (nat \<times> u8 list) list \<times> 'r join_reader" where
  "jr_serve R j =
     (let (sp, j) = jr_peek R j; p = jr_currentPosition j
      in (if snd sp = 0 then [] else [(p, rd_bytes R sp (jr_sources j ! p))], jr_release R j))"

fun jr_serves :: "'r reader_ops \<Rightarrow> nat \<Rightarrow> 'r join_reader \<Rightarrow> (nat \<times> u8 list) list \<times> 'r join_reader" where
  "jr_serves R 0 j = ([], j)"
| "jr_serves R (Suc n) j =
     (let (served, j) = jr_serve R j; (more, j) = jr_serves R n j in (served @ more, j))"

lemma jr_serve_eq:
  "jr_serve R j =
    (if snd (fst (jr_peek R j)) = 0 then []
     else [(jr_currentPosition (snd (jr_peek R j)),
        rd_bytes R (fst (jr_peek R j)) (jr_sources (snd (jr_peek R j)) ! jr_currentPosition (snd (jr_peek R j))))],
     jr_release R (snd (jr_peek R j)))"
  by (simp add: jr_serve_def case_prod_unfold Let_def)

declare jr_serves.simps(2) [simp del]

lemma jr_serves_Suc [simp]:
  "jr_serves R (Suc n) j =
    (fst (jr_serve R j) @ fst (jr_serves R n (snd (jr_serve R j))), snd (jr_serves R n (snd (jr_serve R j))))"
  by (simp add: jr_serves.simps(2) case_prod_unfold Let_def)

context io_reader
begin

definition jr_inv :: "'r join_reader \<Rightarrow> u8 list list list \<Rightarrow> bool" where
  "jr_inv j xss \<longleftrightarrow> list_all2 rrep (jr_sources j) xss \<and> jr_currentPosition j < length xss \<and> \<not> jr_hasPeeked j"

lemma jr_scan_first:
  assumes "list_all2 rrep rs xss" "rs \<noteq> []"
  shows "xss ! ((i + e) mod length rs) \<noteq> [] \<Longrightarrow> \<forall>e' < e. xss ! ((i + e') mod length rs) = [] \<Longrightarrow> e < n \<Longrightarrow>
    jr_scan R rs i n = Some ((i + e) mod length rs, rd_peek R (rs ! ((i + e) mod length rs)))"
proof (induction n arbitrary: i e)
  case (Suc n)
  have m: "i mod length rs < length rs" using assms(2) by simp
  have size: "0 < snd (rd_peek R (rs ! (i mod length rs))) \<longleftrightarrow> xss ! (i mod length rs) \<noteq> []"
    using rd_size_pos list_all2_nthD [OF assms(1) m] .
  show ?case
  proof (cases e)
    case 0
    then show ?thesis using Suc.prems(1) size by (simp add: Let_def)
  next
    case (Suc d)
    have "xss ! (i mod length rs) = []" using Suc.prems(2) Suc by (metis add_0_right zero_less_Suc)
    moreover have "\<forall>e' < d. xss ! ((Suc i + e') mod length rs) = []"
      using Suc.prems(2) Suc by (metis Suc_less_eq add_Suc add_Suc_right)
    ultimately show ?thesis using Suc.IH [of "Suc i" d] Suc.prems Suc size by (simp add: Let_def)
  qed
qed simp

lemma jr_scan_none:
  assumes "list_all2 rrep rs xss" "rs \<noteq> []"
  shows "\<forall>e < n. xss ! ((i + e) mod length rs) = [] \<Longrightarrow> jr_scan R rs i n = None"
proof (induction n arbitrary: i)
  case (Suc n)
  have m: "i mod length rs < length rs" using assms(2) by simp
  have "0 < snd (rd_peek R (rs ! (i mod length rs))) \<longleftrightarrow> xss ! (i mod length rs) \<noteq> []"
    using rd_size_pos list_all2_nthD [OF assms(1) m] .
  moreover have "xss ! (i mod length rs) = []" using Suc.prems by (metis add_0_right zero_less_Suc)
  moreover have "\<forall>e < n. xss ! ((Suc i + e) mod length rs) = []"
    using Suc.prems by (metis Suc_less_eq add_Suc add_Suc_right)
  ultimately show ?case using Suc.IH [of "Suc i"] by (simp add: Let_def)
qed simp

lemma jr_release_inv:
  assumes "list_all2 rrep (jr_sources j) xss" "i < length xss"
  shows "jr_inv (jr_release R (j\<lparr>jr_currentPosition := i, jr_hasPeeked := h\<rparr>)) (xss[i := tl (xss ! i)])"
    and "jr_currentPosition (jr_release R (j\<lparr>jr_currentPosition := i, jr_hasPeeked := h\<rparr>)) = (i + 1) mod length xss"
proof -
  have "length (jr_sources j) = length xss" using assms(1) by (rule list_all2_lengthD)
  moreover have "Suc i mod length xss < length xss" using assms(2) by (intro mod_less_divisor) linarith
  ultimately show "jr_inv (jr_release R (j\<lparr>jr_currentPosition := i, jr_hasPeeked := h\<rparr>)) (xss[i := tl (xss ! i)])"
    and "jr_currentPosition (jr_release R (j\<lparr>jr_currentPosition := i, jr_hasPeeked := h\<rparr>)) = (i + 1) mod length xss"
    using assms rd_next list_all2_nthD [OF assms(1), of i]
    by (auto simp: jr_inv_def jr_release_def Let_def intro!: list_all2_update_cong)
qed

text \<open>The first source with data, from the current position on, is served.\<close>

lemma jr_serve_first:
  assumes j: "jr_inv j xss" and e: "e < length xss"
    "xss ! ((jr_currentPosition j + e) mod length xss) \<noteq> []"
    "\<forall>e' < e. xss ! ((jr_currentPosition j + e') mod length xss) = []"
    and i: "i = (jr_currentPosition j + e) mod length xss"
  shows "fst (jr_serve R j) = [(i, hd (xss ! i))]"
    and "jr_inv (snd (jr_serve R j)) (xss[i := tl (xss ! i)])"
    and "jr_currentPosition (snd (jr_serve R j)) = (i + 1) mod length xss"
proof -
  let ?N = "length xss"
  have l: "list_all2 rrep (jr_sources j) xss" and n: "length (jr_sources j) = ?N" and ne: "jr_sources j \<noteq> []"
    using j e(1) by (auto simp: jr_inv_def dest: list_all2_lengthD)
  have "0 < ?N" using e(1) by linarith
  then have iN: "i < ?N" unfolding i by (rule mod_less_divisor)
  have p: "jr_peek R j = (rd_peek R (jr_sources j ! i), j\<lparr>jr_currentPosition := i, jr_hasPeeked := True\<rparr>)"
    using jr_scan_first [OF l ne, of "jr_currentPosition j" e ?N] e i n by (simp add: jr_peek_def)
  have r: "rrep (jr_sources j ! i) (xss ! i)" using list_all2_nthD [OF l] iN n by simp
  have "xss ! i \<noteq> []" using e(2) i by simp
  then show "fst (jr_serve R j) = [(i, hd (xss ! i))]"
    using rd_size_pos [OF r] rd_content [OF r] by (simp add: jr_serve_eq p)
  show "jr_inv (snd (jr_serve R j)) (xss[i := tl (xss ! i)])"
    and "jr_currentPosition (snd (jr_serve R j)) = (i + 1) mod length xss"
    using jr_release_inv [OF l iN] by (simp_all add: jr_serve_eq p)
qed

lemma jr_serve_none:
  assumes j: "jr_inv j xss" and e: "\<forall>x \<in> set xss. x = []"
  shows "fst (jr_serve R j) = []" and "jr_inv (snd (jr_serve R j)) xss"
proof -
  have l: "list_all2 rrep (jr_sources j) xss" and n: "length (jr_sources j) = length xss"
    and p: "jr_currentPosition j < length xss" and h: "\<not> jr_hasPeeked j"
    using j by (auto simp: jr_inv_def dest: list_all2_lengthD)
  then have "jr_sources j \<noteq> []" by auto
  then have pk: "jr_peek R j = (empty_span, j)"
  proof -
    have "xss ! ((jr_currentPosition j + e') mod length xss) = []" for e'
    proof -
      have "(jr_currentPosition j + e') mod length xss < length xss" using p by (intro mod_less_divisor) linarith
      then show ?thesis using e by simp
    qed
    then show ?thesis
      using jr_scan_none [OF l \<open>jr_sources j \<noteq> []\<close>, of "length xss" "jr_currentPosition j"] n
      by (simp add: jr_peek_def)
  qed
  show "fst (jr_serve R j) = []" by (simp add: jr_serve_eq pk empty_span_def)
  have "xss ! jr_currentPosition j = []" using e p by simp
  then have "xss[jr_currentPosition j := tl (xss ! jr_currentPosition j)] = xss" using p
    by (metis list.sel(2) list_update_id)
  moreover have "j\<lparr>jr_currentPosition := jr_currentPosition j, jr_hasPeeked := False\<rparr> = j" using h by simp
  ultimately show "jr_inv (snd (jr_serve R j)) xss"
    using jr_release_inv(1) [OF l p, of False] by (simp add: jr_serve_eq pk empty_span_def)
qed

lemma jr_first_exists:
  assumes "d < length xss" "xss ! ((c + d) mod length xss) \<noteq> []"
  obtains e where "e \<le> d" "xss ! ((c + e) mod length xss) \<noteq> []" "\<forall>e' < e. xss ! ((c + e') mod length xss) = []"
proof -
  let ?P = "\<lambda>e. xss ! ((c + e) mod length xss) \<noteq> []"
  have "?P (LEAST e. ?P e)" by (rule LeastI [of ?P d]) (rule assms(2))
  moreover have "(LEAST e. ?P e) \<le> d" by (rule Least_le) (rule assms(2))
  moreover have "\<not> ?P e'" if "e' < (LEAST e. ?P e)" for e' using not_less_Least [OF that] .
  ultimately show thesis using that by blast
qed

lemma jr_nonempty_distance:
  assumes "k < length xss" "c < length xss"
  shows "(c + (k + length xss - c) mod length xss) mod length xss = k"
  using assms by (simp add: mod_add_right_eq)

text \<open>A source at distance \<open>d\<close> is served within \<open>d + 1\<close> turns.\<close>

lemma jr_fair:
  "jr_inv j xss \<Longrightarrow> k = (jr_currentPosition j + d) mod length xss \<Longrightarrow> d < length xss \<Longrightarrow> xss ! k \<noteq> [] \<Longrightarrow>
    d < n \<Longrightarrow> (k, hd (xss ! k)) \<in> set (fst (jr_serves R n j))"
proof (induction d arbitrary: j xss n rule: less_induct)
  case (less d)
  let ?N = "length xss"
  obtain e where e: "e \<le> d" "xss ! ((jr_currentPosition j + e) mod ?N) \<noteq> []"
      "\<forall>e' < e. xss ! ((jr_currentPosition j + e') mod ?N) = []"
    using jr_first_exists less.prems(2,3,4) by metis
  define i where "i = (jr_currentPosition j + e) mod ?N"
  have "e < ?N" using e(1) less.prems(3) by simp
  note s = jr_serve_first [OF less.prems(1) this e(2,3) i_def]
  obtain m where n: "n = Suc m" using less.prems(5) by (cases n) auto
  show ?case
  proof (cases "e = d")
    case True
    then have "i = k" using less.prems(2) by (simp add: i_def)
    then show ?thesis using s(1) n by simp
  next
    case False
    then have d: "d - e - 1 < d" "d - e - 1 < ?N" "d - e - 1 < m" using e(1) less.prems(3,5) n by auto
    let ?j = "snd (jr_serve R j)" and ?xss = "xss[i := tl (xss ! i)]"
    have "(jr_currentPosition ?j + (d - e - 1)) mod ?N = (jr_currentPosition j + e + 1 + (d - e - 1)) mod ?N"
      by (simp add: s(3) i_def mod_simps)
    also have "\<dots> = k" using False e(1) less.prems(2) by (simp add: less.prems(2))
    finally have k: "k = (jr_currentPosition ?j + (d - e - 1)) mod length ?xss" by simp
    have "i \<noteq> k"
    proof
      assume "i = k"
      then have "(jr_currentPosition j + d) mod ?N = (jr_currentPosition j + e) mod ?N"
        using less.prems(2) by (simp add: i_def)
      then have "?N dvd (jr_currentPosition j + d) - (jr_currentPosition j + e)"
        using e(1) by (subst mod_eq_dvd_iff_nat [symmetric]) simp_all
      then show False using False e(1) less.prems(3) by (auto dest: dvd_imp_le)
    qed
    then have x: "?xss ! k = xss ! k" by simp
    have "(k, hd (?xss ! k)) \<in> set (fst (jr_serves R m ?j))"
      by (rule less.IH [OF d(1) s(2) k]) (use d x less.prems(4) in simp_all)
    then show ?thesis using x n by simp
  qed
qed

text \<open>Each source's slices come in order, none lost and none repeated.\<close>

lemma jr_in_order:
  "jr_inv j xss \<Longrightarrow> \<exists>yss. jr_inv (snd (jr_serves R n j)) yss \<and> length yss = length xss \<and>
    (\<forall>k < length xss. map snd (filter (\<lambda>s. fst s = k) (fst (jr_serves R n j))) @ yss ! k = xss ! k)"
proof (induction n arbitrary: j xss)
  case (Suc n)
  have "\<exists>zss. jr_inv (snd (jr_serve R j)) zss \<and> length zss = length xss \<and>
    (\<forall>k < length xss. map snd (filter (\<lambda>s. fst s = k) (fst (jr_serve R j))) @ zss ! k = xss ! k)"
  proof (cases "\<forall>x \<in> set xss. x = []")
    case True
    then show ?thesis using jr_serve_none [OF Suc.prems] by auto
  next
    case False
    let ?N = "length xss" and ?c = "jr_currentPosition j"
    obtain k where k: "k < ?N" "xss ! k \<noteq> []" using False by (auto simp: in_set_conv_nth)
    have c: "?c < ?N" using Suc.prems by (simp add: jr_inv_def)
    let ?d = "(k + ?N - ?c) mod ?N"
    have d: "?d < ?N" using k(1) by (intro mod_less_divisor) linarith
    have "xss ! ((?c + ?d) mod ?N) \<noteq> []" using jr_nonempty_distance [OF k(1) c] k(2) by simp
    from jr_first_exists [OF d this] obtain e where "e \<le> ?d" and e': "xss ! ((?c + e) mod ?N) \<noteq> []"
        "\<forall>e' < e. xss ! ((?c + e') mod ?N) = []" by metis
    then have "e < ?N" using d by linarith
    note e = this e'
    note s = jr_serve_first [OF Suc.prems e refl]
    let ?i = "(?c + e) mod ?N"
    have "map snd (filter (\<lambda>s. fst s = k) (fst (jr_serve R j))) @ xss[?i := tl (xss ! ?i)] ! k = xss ! k"
      if "k < ?N" for k
      using s(1) e(2) that by (cases "?i = k") simp_all
    then show ?thesis using s(2) by (intro exI [of _ "xss[?i := tl (xss ! ?i)]"]) simp
  qed
  then obtain zss where z: "jr_inv (snd (jr_serve R j)) zss" "length zss = length xss"
      "\<forall>k < length xss. map snd (filter (\<lambda>s. fst s = k) (fst (jr_serve R j))) @ zss ! k = xss ! k" by blast
  from Suc.IH [OF z(1)] obtain yss where "jr_inv (snd (jr_serves R n (snd (jr_serve R j)))) yss"
      "length yss = length xss" "\<forall>k < length xss.
        map snd (filter (\<lambda>s. fst s = k) (fst (jr_serves R n (snd (jr_serve R j))))) @ yss ! k = zss ! k"
    unfolding z(2) by blast
  then show ?case using z(3) by (intro exI [of _ yss]) simp
qed auto

end

section \<open>The split writer\<close>

context io_writer
begin

text \<open>What commit does to one destination: it gets the slice and counts it, or counts a drop.\<close>

definition sw_outcome :: "u8 list \<Rightarrow> u8 list list list \<Rightarrow> 'w split_writer \<Rightarrow> 'w split_writer \<Rightarrow> nat \<Rightarrow> bool" where
  "sw_outcome p xss s s' i \<longleftrightarrow>
     wrep (sw_destinations s' ! i) (xss ! i @ [p]) [] \<and> sw_sent s' ! i = sw_sent s ! i + 1
       \<and> sw_drops s' ! i = sw_drops s ! i
     \<or> wrep (sw_destinations s' ! i) (xss ! i) [] \<and> sw_sent s' ! i = sw_sent s ! i
       \<and> sw_drops s' ! i = sw_drops s ! i + 1"

definition sw_same :: "'w split_writer \<Rightarrow> 'w split_writer \<Rightarrow> nat \<Rightarrow> bool" where
  "sw_same s s' i \<longleftrightarrow> sw_destinations s' ! i = sw_destinations s ! i \<and> sw_sent s' ! i = sw_sent s ! i
     \<and> sw_drops s' ! i = sw_drops s ! i"

definition sw_ready :: "u8 list \<Rightarrow> u8 list list list \<Rightarrow> nat \<Rightarrow> 'w split_writer \<Rightarrow> bool" where
  "sw_ready p xss k s \<longleftrightarrow> k < length xss \<and> length (sw_destinations s) = length xss
     \<and> length (sw_sent s) = length xss \<and> length (sw_drops s) = length xss
     \<and> p \<noteq> [] \<and> wrep (sw_destinations s ! k) (xss ! k) p \<and> sw_buffer s = slice (sw_destinations s ! k)"

lemma sw_copy_step:
  assumes "sw_ready p xss k s" "i < length xss" "i \<noteq> k" "\<exists>q. wrep (sw_destinations s ! i) (xss ! i) q"
  shows "\<exists>s1. sw_copy_from W k i (Suc n) s = sw_copy_from W k (Suc i) n s1 \<and> sw_ready p xss k s1
    \<and> sw_buffer s1 = sw_buffer s \<and> sw_bufNum s1 = sw_bufNum s
    \<and> sw_outcome p xss s s1 i \<and> (\<forall>j. j \<noteq> i \<longrightarrow> sw_same s s1 j)"
proof -
  note r = assms(1) [unfolded sw_ready_def]
  obtain q where q: "wrep (sw_destinations s ! i) (xss ! i) q" using assms(4) by blast
  obtain tmp w where al: "wr_allocate W (snd (sw_buffer s)) (sw_destinations s ! i) = (tmp, w)"
    by (cases "wr_allocate W (snd (sw_buffer s)) (sw_destinations s ! i)")
  have len: "snd (sw_buffer s) = length p" using r wr_length by metis
  note law = wr_alloc [OF q, of "snd (sw_buffer s)", unfolded al prod.case Let_def]
  show ?thesis
  proof (cases "snd tmp < snd (sw_buffer s)")
    case True
    then have "wrep w (xss ! i) []" using law by (auto split: if_splits)
    then show ?thesis using r assms(2,3) True al
      by (intro exI [of _ "s\<lparr>sw_destinations := (sw_destinations s)[i := w],
          sw_drops := sw_bump i (sw_drops s)\<rparr>"])
        (simp add: sw_ready_def sw_outcome_def sw_same_def sw_bump_def)
  next
    case False
    then have "0 < snd tmp" using r len by (cases p) auto
    then obtain q' where w: "snd tmp = length p" "slice w = tmp" "wrep w (xss ! i) q'"
      using law len by (auto split: if_splits)
    have c: "wr_bytes W (sw_buffer s) (sw_destinations s ! k) = p" using r wr_slice_content by metis
    have "span_in tmp (slice w)" using w(2) by (simp add: span_in_def)
    from wr_write [OF w(3) this, of 0 p] have "wrep (span_write W tmp 0 p w) (xss ! i) p"
      using w wr_length [OF w(3)] by simp
    then have "wrep (wr_commit W (span_write W tmp 0 p w)) (xss ! i @ [p]) []"
      using wr_send [of _ "xss ! i" p] r by auto
    then show ?thesis using r assms(2,3) False al c
      by (intro exI [of _ "s\<lparr>sw_destinations := (sw_destinations s)[i := wr_commit W (span_write W tmp 0 p w)],
          sw_sent := sw_bump i (sw_sent s)\<rparr>"])
        (simp add: sw_ready_def sw_outcome_def sw_same_def sw_bump_def)
  qed
qed

lemma sw_copy_from_ok:
  "sw_ready p xss k s \<Longrightarrow> i + n = length xss \<Longrightarrow>
    (\<And>j. i \<le> j \<Longrightarrow> j < length xss \<Longrightarrow> \<exists>q. wrep (sw_destinations s ! j) (xss ! j) q) \<Longrightarrow>
    sw_ready p xss k (sw_copy_from W k i n s) \<and> sw_bufNum (sw_copy_from W k i n s) = sw_bufNum s
    \<and> (\<forall>j < length xss. if j < i \<or> j = k then sw_same s (sw_copy_from W k i n s) j
         else sw_outcome p xss s (sw_copy_from W k i n s) j)"
proof (induction n arbitrary: i s)
  case 0
  then show ?case by (simp add: sw_same_def)
next
  case (Suc n)
  show ?case
  proof (cases "i = k")
    case True
    then have e: "sw_copy_from W k i (Suc n) s = sw_copy_from W k (Suc i) n s" by simp
    show ?thesis using Suc.IH [OF Suc.prems(1), of "Suc i"] Suc.prems(2,3) True unfolding e by auto
  next
    case False
    have "i < length xss" using Suc.prems(2) by simp
    from sw_copy_step [OF Suc.prems(1) this False Suc.prems(3) [OF order_refl this], of n]
    obtain s1 where s1: "sw_copy_from W k i (Suc n) s = sw_copy_from W k (Suc i) n s1" "sw_ready p xss k s1"
        "sw_bufNum s1 = sw_bufNum s" "sw_outcome p xss s s1 i" "\<And>j. j \<noteq> i \<Longrightarrow> sw_same s s1 j" by blast
    let ?s = "sw_copy_from W k (Suc i) n s1"
    have "\<exists>q. wrep (sw_destinations s1 ! j) (xss ! j) q" if "Suc i \<le> j" "j < length xss" for j
      using Suc.prems(3) [of j] s1(5) [of j] that by (simp add: sw_same_def)
    from Suc.IH [OF s1(2) _ this] Suc.prems(2)
    have ih: "sw_ready p xss k ?s" "sw_bufNum ?s = sw_bufNum s1"
        "\<And>j. j < length xss \<Longrightarrow> if j < Suc i \<or> j = k then sw_same s1 ?s j else sw_outcome p xss s1 ?s j"
      by auto
    have "if j < i \<or> j = k then sw_same s ?s j else sw_outcome p xss s ?s j" if j: "j < length xss" for j
    proof (cases "j = i")
      case True
      then show ?thesis using ih(3) [OF j] s1(4) False by (simp add: sw_same_def sw_outcome_def)
    next
      case jf: False
      then show ?thesis using ih(3) [OF j] s1(5) [OF jf]
        by (auto simp: sw_same_def sw_outcome_def split: if_splits)
    qed
    then show ?thesis unfolding s1(1) using ih(1,2) s1(3) by simp
  qed
qed

lemma sw_commit_ok:
  assumes "sw_ready p xss k s" "sw_bufNum s = Some k"
    and "\<And>j. j < length xss \<Longrightarrow> \<exists>q. wrep (sw_destinations s ! j) (xss ! j) q"
  shows "\<forall>j < length xss. sw_outcome p xss s (sw_commit W s) j"
    and "wrep (sw_destinations (sw_commit W s) ! k) (xss ! k @ [p]) []"
    and "sw_bufNum (sw_commit W s) = None"
proof -
  let ?s = "sw_copy_from W k 0 (length xss) s"
  have n: "length (sw_destinations s) = length xss" using assms(1) by (simp add: sw_ready_def)
  note c = sw_copy_from_ok [OF assms(1), of 0 "length xss"]
  have c: "sw_ready p xss k ?s" "\<And>j. j < length xss \<Longrightarrow> if j = k then sw_same s ?s j else sw_outcome p xss s ?s j"
    using c assms(3) by auto
  have k: "k < length xss" "sw_same s ?s k" using c by (auto simp: sw_ready_def)
  note r = c(1) [unfolded sw_ready_def]
  have w: "wrep (wr_commit W (sw_destinations ?s ! k)) (xss ! k @ [p]) []"
    using r wr_send [of "sw_destinations ?s ! k" "xss ! k" p] by simp
  have e: "sw_commit W s = ?s\<lparr>sw_sent := sw_bump k (sw_sent ?s),
      sw_destinations := (sw_destinations ?s)[k := wr_commit W (sw_destinations ?s ! k)], sw_bufNum := None\<rparr>"
    using assms(2) n by (simp add: sw_commit_def Let_def)
  show "wrep (sw_destinations (sw_commit W s) ! k) (xss ! k @ [p]) []" using w r by (simp add: e)
  show "sw_bufNum (sw_commit W s) = None" by (simp add: e)
  show "\<forall>j < length xss. sw_outcome p xss s (sw_commit W s) j"
  proof (intro allI impI)
    fix j assume j: "j < length xss"
    show "sw_outcome p xss s (sw_commit W s) j"
    proof (cases "j = k")
      case True
      then show ?thesis using w r k by (simp add: e sw_outcome_def sw_same_def sw_bump_def)
    next
      case False
      then show ?thesis using c(2) [OF j] r by (auto simp: e sw_outcome_def sw_bump_def)
    qed
  qed
qed

end

section \<open>The forwarding reader\<close>

locale forwarding = source: io_reader R rrep + destination: io_writer W wrep slice
  for R :: "'r reader_ops" and rrep and W :: "'w writer_ops" and wrep and slice
begin

text \<open>Peek and release move the next slice; without room at the destination it is dropped and counted.\<close>

lemma fr_forward:
  assumes "rrep (fr_source f) (x # xs)" "wrep (fr_destination f) ys q"
  shows "rd_bytes R (fst (fr_peek R W f)) (fr_source f) = x"
    and "rrep (fr_source (fr_release R W (snd (fr_peek R W f)))) xs"
    and "wrep (fr_destination (fr_release R W (snd (fr_peek R W f)))) (ys @ [x]) []
        \<and> fr_failedAllocations (fr_release R W (snd (fr_peek R W f))) = fr_failedAllocations f
      \<or> wrep (fr_destination (fr_release R W (snd (fr_peek R W f)))) ys []
        \<and> fr_failedAllocations (fr_release R W (snd (fr_peek R W f))) = fr_failedAllocations f + 1"
proof -
  note src = source.rd_size [OF assms(1)] source.rd_content [OF assms(1)] source.rd_next [OF assms(1)]
  have x: "x \<noteq> []" using source.rd_proper [OF assms(1)] by auto
  then have pos: "0 < length x" by simp
  obtain sp w where al: "wr_allocate W (length x) (fr_destination f) = (sp, w)"
    by (cases "wr_allocate W (length x) (fr_destination f)")
  note law = destination.wr_alloc [OF assms(2), of "length x", unfolded al prod.case Let_def]
  have f: "fr_peek R W f = (rd_peek R (fr_source f),
      f\<lparr>fr_sourceData := rd_peek R (fr_source f), fr_destination := w, fr_destinationData := sp,
        fr_failedAllocations := fr_failedAllocations f + (if snd sp = 0 then 1 else 0)\<rparr>)"
    using src pos al by (simp add: fr_peek_def Let_def)
  show "rd_bytes R (fst (fr_peek R W f)) (fr_source f) = x" using src(2) by (simp add: f)
  show "rrep (fr_source (fr_release R W (snd (fr_peek R W f)))) xs" using src(3) by (simp add: f fr_release_def)
  show "wrep (fr_destination (fr_release R W (snd (fr_peek R W f)))) (ys @ [x]) []
        \<and> fr_failedAllocations (fr_release R W (snd (fr_peek R W f))) = fr_failedAllocations f
      \<or> wrep (fr_destination (fr_release R W (snd (fr_peek R W f)))) ys []
        \<and> fr_failedAllocations (fr_release R W (snd (fr_peek R W f))) = fr_failedAllocations f + 1"
  proof (cases "snd sp = 0")
    case True
    then have "wrep w ys []" using law by simp
    from destination.wr_send [OF this] True show ?thesis using src(1) x by (simp add: f fr_release_def)
  next
    case False
    then obtain q' where w: "snd sp = length x" "slice w = sp" "wrep w ys q'" using law by auto
    have "span_in sp (slice w)" using w(2) by (simp add: span_in_def)
    from destination.wr_write [OF w(3) this, of 0 x] have "wrep (span_write W sp 0 x w) ys x"
      using w destination.wr_length [OF w(3)] by simp
    from destination.wr_send [OF this] show ?thesis using False src(1,2) w(1) x by (simp add: f fr_release_def)
  qed
qed

end

interpretation mqf: forwarding "mq_reader c" "\<lambda>q xs. \<exists>p. mq_rep c q xs p" "mq_writer d" "mq_rep d" "mq_slice d"
  for c d
  by unfold_locales

end
