(* ===== verification/IoProps.thy ===== *)
theory IoProps imports IoContracts begin

text \<open>
  The properties of the io library: the memory queue as a channel, its clearing, the buffered
  writer and the join reader on memory queues. Runs are lists of calls of both sides in any
  order, from a new queue whose memory has any content.
\<close>

section \<open>Runs on the memory queue\<close>

definition mq_run :: "mq_config \<Rightarrow> u8 list \<Rightarrow> channel_call list \<Rightarrow> memory_queue channel_run" where
  "mq_run c mem calls = cr_run (mq_writer c) (mq_reader c) calls (cr_new (mq_new c mem))"

lemma mq_run_rep:
  assumes "mq_config_ok c" "length mem = mq_CAPACITY c"
  obtains xs p where "mq_rep c (cr_channel (mq_run c mem calls)) xs p"
    "cr_sent (mq_run c mem calls) = cr_got (mq_run c mem calls) @ xs"
proof -
  have "mqc.cr_inv c (cr_new (mq_new c mem)) []"
    using mq_new_rep [OF assms] by (auto simp: mqc.cr_inv_def cr_new_def empty_span_def)
  then show thesis using mqc.cr_inv_run that unfolding mq_run_def mqc.cr_inv_def by blast
qed

lemma mq_drained_room:
  assumes "mq_rep c q [] p" "0 < n" "n \<le> mq_MAX_ELEMENT_SIZE c"
  shows "snd (fst (mq_allocate c n q)) = n"
proof -
  obtain v w where at: "mq_at c q [] p v w" using assms(1) by (auto simp: mq_rep_def)
  then have "w = v" using mq_atD(1) by fastforce
  then have "\<not> mq_full c q" using mq_available_at [OF at] mq_atD(2) [OF at]
    by (simp add: mq_full_def mq_config_ok_def)
  then show ?thesis using mq_allocate_span [OF assms(1), of n] assms(2,3) by simp
qed

text \<open>C7: The memory queue is a first-in first-out channel of slices: for every interleaving of
  the writer's and the reader's calls, what the reader has released is a prefix of what the
  writer has committed, byte for byte, and peek returns the next committed slice, or the empty
  span exactly when everything committed has been released.\<close>

theorem queue_is_first_in_first_out:
  assumes "mq_config_ok c" "length mem = mq_CAPACITY c"
  shows "let s = mq_run c mem calls; q = cr_channel s
    in cr_got s = take (length (cr_got s)) (cr_sent s)
       \<and> span_bytes q (mq_peek c q) = (if cr_got s = cr_sent s then [] else cr_sent s ! length (cr_got s))
       \<and> (snd (mq_peek c q) = 0 \<longleftrightarrow> cr_got s = cr_sent s)"
  using mqc.cr_fifo [OF mq_new_rep [OF assms], of calls]
  by (simp add: mq_run_def mq_reader_def Let_def)

definition small_queue :: mq_config where
  "small_queue = \<lparr>mq_CAPACITY = 16, mq_MAX_ELEMENT_SIZE = 4, mq_SIZE_BYTES = 2\<rparr>"

definition wrapping_calls :: "channel_call list" where
  "wrapping_calls = [ChAllocate 3, ChStore 0 1, ChStore 2 9, ChCommit, ChAllocate 4, ChStore 3 7,
     ChAllocate 2, ChStore 1 5, ChCommit, ChRelease, ChAllocate 1, ChStore 0 8, ChCommit]"

lemma queue_is_first_in_first_out_witness:
  "let s = mq_run small_queue (replicate 16 0) wrapping_calls; q = cr_channel s
   in cr_got s = take (length (cr_got s)) (cr_sent s) \<and> cr_got s = [[1, 0, 9]]
      \<and> cr_sent s = [[1, 0, 9], [0, 5], [8]] \<and> span_bytes q (mq_peek small_queue q) = [0, 5]"
proof -
  let ?s = "mq_run small_queue (replicate 16 0) wrapping_calls"
  have "mq_config_ok small_queue" "length (replicate 16 (0 :: u8)) = mq_CAPACITY small_queue"
    by (simp_all add: mq_config_ok_def small_queue_def)
  note f = queue_is_first_in_first_out [OF this, of wrapping_calls, unfolded Let_def]
  have "cr_got ?s = [[1, 0, 9]]" "cr_sent ?s = [[1, 0, 9], [0, 5], [8]]" by code_simp+
  then show ?thesis using f by (simp add: Let_def)
qed

text \<open>Clearing the queue returns, whatever calls came before: the queue is empty after it,
  and then the writer gets every size up to the largest.\<close>

theorem clear_returns_and_makes_room:
  assumes "mq_config_ok c" "length mem = mq_CAPACITY c"
    and "0 < n" "n \<le> mq_MAX_ELEMENT_SIZE c"
  shows "\<exists>q. mq_clear c (cr_channel (mq_run c mem calls)) = Some q \<and> mq_empty q
    \<and> snd (fst (mq_allocate c n q)) = n"
proof -
  obtain xs p where "mq_rep c (cr_channel (mq_run c mem calls)) xs p" using mq_run_rep [OF assms(1,2)] .
  from mq_clear_rep [OF this] show ?thesis using mq_empty_iff mq_drained_room [OF _ assms(3,4)] by blast
qed

lemma clear_returns_and_makes_room_witness:
  "\<exists>q. mq_clear small_queue (cr_channel (mq_run small_queue (replicate 16 0) wrapping_calls)) = Some q
     \<and> mq_empty q \<and> snd (fst (mq_allocate small_queue 4 q)) = 4"
  by (rule clear_returns_and_makes_room) (simp_all add: mq_config_ok_def small_queue_def)

definition bw_queue_run :: "mq_config \<Rightarrow> u8 list \<Rightarrow> buffered_call list \<Rightarrow> memory_queue buffered_run" where
  "bw_queue_run c mem calls = br_run (mq_writer c) (mq_reader c) calls (br_new (mq_new c mem))"

text \<open>The slices left in a queue, by peeking and releasing at most \<open>n\<close> times.\<close>

fun mq_rest :: "mq_config \<Rightarrow> nat \<Rightarrow> memory_queue \<Rightarrow> u8 list list" where
  "mq_rest c 0 q = []"
| "mq_rest c (Suc n) q =
     (if mq_empty q then [] else span_bytes q (mq_peek c q) # mq_rest c n (mq_release c q))"

lemma mq_rest_rep: "mq_rep c q xs p \<Longrightarrow> length xs \<le> n \<Longrightarrow> mq_rest c n q = xs"
proof (induction n arbitrary: q xs)
  case (Suc n)
  then show ?case using mq_empty_iff [OF Suc.prems(1)] mq_peek_span(2) [OF Suc.prems(1)]
      mq_release_rep [OF Suc.prems(1)] by (cases xs) auto
qed simp

lemma mq_end_length: "mq_config_ok c \<Longrightarrow> v + length xs \<le> mq_end c v xs"
proof (induction xs arbitrary: v)
  case (Cons x xs)
  have "v < mq_next c v (length x)"
    using mq_next_grows [OF Cons.prems, of v "length x"] Cons.prems by (simp add: mq_config_ok_def)
  then show ?case using Cons.IH [OF Cons.prems, of "mq_next c v (length x)"] by simp
qed simp

lemma mq_rep_length: "mq_rep c q xs p \<Longrightarrow> length xs \<le> mq_CAPACITY c"
proof -
  assume "mq_rep c q xs p"
  then obtain v w where at: "mq_at c q xs p v w" by (auto simp: mq_rep_def)
  show ?thesis using mq_atD(1,2,9) [OF at] mq_end_length [of c v xs] by simp
qed

text \<open>C33: The buffered writer loses, repeats and reorders nothing: for every interleaving of
  its calls with the reader of the queue it writes to, after a flush the bytes of all committed
  chunks are, in order, the bytes of the slices the reader has taken followed by those that
  clearing the queue would still release.\<close>

theorem buffered_writer_keeps_the_bytes:
  assumes "mq_config_ok c" "length mem = mq_CAPACITY c"
  shows "let s = bw_queue_run c mem (calls @ [BwFlush])
    in concat (br_chunks s)
       = concat (br_got s) @ concat (mq_rest c (mq_CAPACITY c) (bw_destination (br_writer s)))"
proof -
  obtain xs p where "mq_rep c (bw_destination (br_writer (bw_queue_run c mem (calls @ [BwFlush])))) xs p"
    and "concat (br_chunks (bw_queue_run c mem (calls @ [BwFlush])))
      = concat (br_got (bw_queue_run c mem (calls @ [BwFlush]))) @ concat xs"
    using mqc.br_flushed [OF mq_new_rep [OF assms], of calls] unfolding bw_queue_run_def by blast
  then show ?thesis using mq_rest_rep mq_rep_length unfolding Let_def by metis
qed

definition buffered_calls :: "buffered_call list" where
  "buffered_calls = [BwAllocate 2, BwStore 0 1, BwStore 1 2, BwCommit, BwAllocate 1, BwStore 0 3,
     BwCommit, BwAllocate 2, BwStore 0 4, BwStore 1 5, BwCommit, BwRelease]"

lemma buffered_writer_keeps_the_bytes_witness:
  "let s = bw_queue_run small_queue (replicate 16 0) (buffered_calls @ [BwFlush])
   in br_chunks s = [[1, 2], [3], [4, 5]] \<and> br_got s = [[1, 2, 3]]
      \<and> concat (mq_rest small_queue 16 (bw_destination (br_writer s))) = [4, 5]"
proof -
  let ?s = "bw_queue_run small_queue (replicate 16 0) (buffered_calls @ [BwFlush])"
  have "mq_config_ok small_queue" "length (replicate 16 (0 :: u8)) = mq_CAPACITY small_queue"
    by (simp_all add: mq_config_ok_def small_queue_def)
  note f = buffered_writer_keeps_the_bytes [OF this, of buffered_calls, unfolded Let_def]
  have "br_chunks ?s = [[1, 2], [3], [4, 5]]" "br_got ?s = [[1, 2, 3]]" by code_simp+
  moreover have "mq_CAPACITY small_queue = 16" by (simp add: small_queue_def)
  ultimately show ?thesis using f by (simp add: Let_def)
qed

definition joined :: "mq_config \<Rightarrow> u8 list \<Rightarrow> channel_call list list \<Rightarrow> memory_queue join_reader" where
  "joined c mem callss = jr_new (map (\<lambda>calls. cr_channel (mq_run c mem calls)) callss)"

text \<open>The join reader is fair: whatever has been done with the queues it joins before, a
  queue that has an uncollected slice has its next slice served within as many turns of peek
  and release as there are queues.\<close>

theorem join_reader_is_fair:
  assumes "mq_config_ok c" "length mem = mq_CAPACITY c" "k < length callss"
    and "s = mq_run c mem (callss ! k)" "cr_got s \<noteq> cr_sent s"
  shows "(k, cr_sent s ! length (cr_got s))
    \<in> set (fst (jr_serves (mq_reader c) (length callss) (joined c mem callss)))"
proof -
  define xss where "xss = map (\<lambda>calls. drop (length (cr_got (mq_run c mem calls))) (cr_sent (mq_run c mem calls))) callss"
  have rep: "\<exists>p. mq_rep c (cr_channel (mq_run c mem calls))
      (drop (length (cr_got (mq_run c mem calls))) (cr_sent (mq_run c mem calls))) p" for calls
    using mq_run_rep [OF assms(1,2), of calls] by (metis append_eq_conv_conj)
  have j: "mqc.rd.jr_inv c (joined c mem callss) xss"
    using rep assms(3) by (auto simp: mqc.rd.jr_inv_def joined_def jr_new_def xss_def list_all2_conv_all_nth)
  have k: "xss ! k = drop (length (cr_got s)) (cr_sent s)" using assms(3,4) by (simp add: xss_def)
  obtain ys where ys: "cr_sent s = cr_got s @ ys" using mq_run_rep [OF assms(1,2)] assms(4) by metis
  then have ne: "xss ! k \<noteq> []" "hd (xss ! k) = cr_sent s ! length (cr_got s)"
    using assms(5) by (auto simp: k hd_conv_nth nth_append)
  have l: "length xss = length callss" by (simp add: xss_def)
  show ?thesis using mqc.rd.jr_fair [OF j _ _ ne(1), of k "length callss"] assms(3) l ne(2)
    by (simp add: joined_def jr_new_def)
qed

lemma join_reader_is_fair_witness:
  "(1, [0, 5]) \<in> set (fst (jr_serves (mq_reader small_queue) 2
     (joined small_queue (replicate 16 0) [[ChAllocate 1, ChCommit], wrapping_calls])))"
proof -
  let ?s = "mq_run small_queue (replicate 16 0) wrapping_calls"
  have "cr_got ?s = [[1, 0, 9]]" "cr_sent ?s = [[1, 0, 9], [0, 5], [8]]" by code_simp+
  then show ?thesis
    using join_reader_is_fair [of small_queue "replicate 16 0" 1 "[[ChAllocate 1, ChCommit], wrapping_calls]" ?s]
    by (simp add: mq_config_ok_def small_queue_def numeral_2_eq_2 del: One_nat_def replicate.simps)
qed

end
