(* ===== verification/BuddyMemory.thy ===== *)
theory BuddyMemory imports BswPrelude begin

text \<open>
  The buddy memory manager of \<^verbatim>\<open>libs/bsw/util\<close>: a full binary tree of tags in an array
  manages a power of two of buckets. The node at position \<open>p\<close> has its children at
  \<open>2 * p + 1\<close> and \<open>2 * p + 2\<close>. Positions and sizes are below twice the number of
  buckets, which fits into \<^verbatim>\<open>size_t\<close>.
\<close>

section \<open>Tags and positions\<close>

definition TAG_NODE_FREE :: u8 where "TAG_NODE_FREE = 0x02"
definition TAG_NODE_LINK :: u8 where "TAG_NODE_LINK = 0x01"
definition TAG_NODE_USED :: u8 where "TAG_NODE_USED = 0x00"

function fastLog2_loop :: "nat \<Rightarrow> nat \<Rightarrow> nat" where
  "fastLog2_loop v result = (if v > 1 then fastLog2_loop (drop_bit 1 v) (result + 1) else result)"
  by pat_completeness auto
termination by (relation "measure fst") (auto simp: drop_bit_eq_div)

declare fastLog2_loop.simps [simp del]

definition fastLog2 :: "nat \<Rightarrow> nat" where
  "fastLog2 v = fastLog2_loop v 0"

text \<open>The specialisations with the compiler's count of leading zeros, which is undefined for zero.\<close>

definition clzToLog2 :: "nat \<Rightarrow> nat \<Rightarrow> nat" where
  "clzToLog2 sizeofT v = sizeofT * 8 - 1 - v"

definition fastLog2_clz :: "nat \<Rightarrow> (nat \<Rightarrow> nat) \<Rightarrow> nat \<Rightarrow> nat" where
  "fastLog2_clz sizeofT builtin_clz v = clzToLog2 sizeofT (builtin_clz v)"

record buddy_manager =
  bm_nodeTree :: "u8 list"
  bm_nodeTreeDepth :: nat
  bm_numBuckets :: nat

definition isLeftSibling :: "nat \<Rightarrow> bool" where
  "isLeftSibling nodePosition \<longleftrightarrow> nodePosition AND 1 \<noteq> 0"

definition isNodeFree :: "u8 list \<Rightarrow> nat \<Rightarrow> bool" where
  "isNodeFree t nodePosition \<longleftrightarrow> t ! nodePosition = TAG_NODE_FREE"

definition isNodeUsed :: "u8 list \<Rightarrow> nat \<Rightarrow> bool" where
  "isNodeUsed t nodePosition \<longleftrightarrow> t ! nodePosition = TAG_NODE_USED"

definition tagNodeFree :: "nat \<Rightarrow> u8 list \<Rightarrow> u8 list" where
  "tagNodeFree nodePosition t = t[nodePosition := TAG_NODE_FREE]"

definition tagNodeLink :: "nat \<Rightarrow> u8 list \<Rightarrow> u8 list" where
  "tagNodeLink nodePosition t = t[nodePosition := TAG_NODE_LINK]"

definition tagNodeUsed :: "nat \<Rightarrow> u8 list \<Rightarrow> u8 list" where
  "tagNodeUsed nodePosition t = t[nodePosition := TAG_NODE_USED]"

definition parentPosition :: "nat \<Rightarrow> nat" where
  "parentPosition nodePosition = drop_bit 1 (nodePosition - 1)"

definition buddy :: "nat \<Rightarrow> nat" where
  "buddy nodePosition = (if isLeftSibling nodePosition then nodePosition + 1 else nodePosition - 1)"

definition levelToBucketNum :: "nat \<Rightarrow> buddy_manager \<Rightarrow> nat" where
  "levelToBucketNum level b = push_bit (bm_nodeTreeDepth b - 1 - level) 1"

section \<open>Construction\<close>

definition clearNodeTree :: "buddy_manager \<Rightarrow> buddy_manager" where
  "clearNodeTree b = b\<lparr>bm_nodeTree :=
     (replicate (length (bm_nodeTree b)) TAG_NODE_LINK)[0 := TAG_NODE_FREE]\<rparr>"

definition bm_clear :: "buddy_manager \<Rightarrow> buddy_manager" where
  "bm_clear b = clearNodeTree b"

definition bm_new :: "u8 list \<Rightarrow> buddy_manager" where
  "bm_new nodeTree =
     (let depth = fastLog2 (length nodeTree + 1)
      in bm_clear \<lparr>bm_nodeTree = nodeTree, bm_nodeTreeDepth = depth, bm_numBuckets = push_bit (depth - 1) 1\<rparr>)"

definition isEmpty :: "buddy_manager \<Rightarrow> bool" where
  "isEmpty b \<longleftrightarrow> bm_nodeTree b ! 0 = TAG_NODE_FREE
     \<and> list_all (\<lambda>i. bm_nodeTree b ! i = TAG_NODE_LINK) [1..<length (bm_nodeTree b)]"

text \<open>The template parameters of the declared manager.\<close>

fun Log2 :: "nat \<Rightarrow> nat" where
  "Log2 n = (if n \<le> 1 then 0 else Log2 (n div 2) + 1)"

declare Log2.simps [simp del]

definition RoundToNextPowerOf2 :: "nat \<Rightarrow> nat" where
  "RoundToNextPowerOf2 n = push_bit (Log2 (n * 2 - 1)) 1"

definition declare_BuddyMemoryManager :: "nat \<Rightarrow> buddy_manager" where
  "declare_BuddyMemoryManager MIN_NUM_BUCKETS =
     bm_clear (bm_new (replicate (RoundToNextPowerOf2 MIN_NUM_BUCKETS * 2 - 1) 0))"

section \<open>Acquiring\<close>

text \<open>A result is the first bucket and the number of buckets, which is zero when it is invalid.\<close>

type_synonym acquire_result = "nat \<times> nat"

definition isValid :: "acquire_result \<Rightarrow> bool" where
  "isValid r \<longleftrightarrow> snd r \<noteq> 0"

definition findBucketInLevel :: "nat \<Rightarrow> buddy_manager \<Rightarrow> acquire_result \<times> buddy_manager" where
  "findBucketInLevel level b =
     (let numberOfNodesInLevel = push_bit level 1; start = numberOfNodesInLevel - 1
      in case List.find (isNodeFree (bm_nodeTree b)) [start..<start + numberOfNodesInLevel] of
           None \<Rightarrow> ((0, 0), b)
         | Some i \<Rightarrow>
             let bucketNum = levelToBucketNum level b
             in (((i - start) * bucketNum, bucketNum),
                 b\<lparr>bm_nodeTree := tagNodeUsed i (bm_nodeTree b)\<rparr>))"

function splitNodeUntilLevelReached :: "nat \<Rightarrow> nat \<Rightarrow> nat \<Rightarrow> u8 list \<Rightarrow> u8 list" where
  "splitNodeUntilLevelReached nodePosition level targetLevel t =
     (let t = tagNodeLink nodePosition t;
          leftChild = push_bit 1 nodePosition + 1;
          rightChild = leftChild + 1;
          t = tagNodeFree rightChild (tagNodeFree leftChild t);
          level = level + 1
      in if level < targetLevel then splitNodeUntilLevelReached leftChild level targetLevel t else t)"
  by pat_completeness auto
termination by (relation "measure (\<lambda>(_, level, targetLevel, _). targetLevel - level)") auto

declare splitNodeUntilLevelReached.simps [simp del]

fun splitParent_loop :: "nat \<Rightarrow> nat \<Rightarrow> u8 list \<Rightarrow> u8 list" where
  "splitParent_loop level currentLevel t =
     (let numberOfNodesInLevel = push_bit currentLevel 1; start = numberOfNodesInLevel - 1
      in case List.find (isNodeFree t) [start..<start + numberOfNodesInLevel] of
           Some i \<Rightarrow> splitNodeUntilLevelReached i currentLevel level t
         | None \<Rightarrow> if currentLevel = 0 then t else splitParent_loop level (currentLevel - 1) t)"

declare splitParent_loop.simps [simp del]

definition tryToSplitParentLevel :: "nat \<Rightarrow> buddy_manager \<Rightarrow> buddy_manager" where
  "tryToSplitParentLevel level b =
     b\<lparr>bm_nodeTree := splitParent_loop level (level - 1) (bm_nodeTree b)\<rparr>"

definition acquireMemory :: "nat \<Rightarrow> buddy_manager \<Rightarrow> acquire_result \<times> buddy_manager" where
  "acquireMemory numBuckets b =
     (if numBuckets > bm_numBuckets b then ((0, 0), b)
      else let numBuckets = (if numBuckets = 0 then 1 else numBuckets);
               level = bm_nodeTreeDepth b - fastLog2 (push_bit 1 numBuckets - 1) - 1;
               (bucket, b) = findBucketInLevel level b
           in if isValid bucket then (bucket, b)
              else if level = 0 then ((0, 0), b)
              else findBucketInLevel level (tryToSplitParentLevel level b))"

section \<open>Releasing\<close>

lemma parentPosition_less: "0 < p \<Longrightarrow> parentPosition p < p"
  by (simp add: parentPosition_def drop_bit_eq_div)

function freeNode :: "nat \<Rightarrow> u8 list \<Rightarrow> u8 list" where
  "freeNode nodePosition t =
     (if nodePosition > 0
      then if isNodeFree t (buddy nodePosition)
           then freeNode (parentPosition nodePosition) (tagNodeLink (buddy nodePosition) (tagNodeLink nodePosition t))
           else tagNodeFree nodePosition t
      else tagNodeFree nodePosition t)"
  by pat_completeness auto
termination by (relation "measure fst") (auto simp: parentPosition_less)

declare freeNode.simps [simp del]

text \<open>The loop over the levels, with the number of levels left.\<close>

fun release_loop :: "nat \<Rightarrow> nat \<Rightarrow> nat \<Rightarrow> nat \<Rightarrow> nat \<Rightarrow> buddy_manager \<Rightarrow> nat \<times> buddy_manager" where
  "release_loop bucketIndex level 0 numBuckets numberOfNodesInLevel b = (0, b)"
| "release_loop bucketIndex level (Suc levels) numBuckets numberOfNodesInLevel b =
     (let i = numberOfNodesInLevel - 1 + drop_bit (bm_nodeTreeDepth b - level - 1) bucketIndex
      in if bucketIndex AND (numBuckets - 1) = 0 \<and> i \<ge> numberOfNodesInLevel - 1 + numberOfNodesInLevel
         then (0, b)
         else if bucketIndex AND (numBuckets - 1) = 0 \<and> isNodeUsed (bm_nodeTree b) i
         then (numBuckets, b\<lparr>bm_nodeTree := freeNode i (bm_nodeTree b)\<rparr>)
         else release_loop bucketIndex (level + 1) levels (drop_bit 1 numBuckets)
                (push_bit 1 numberOfNodesInLevel) b)"

definition releaseMemoryExtended :: "nat \<Rightarrow> buddy_manager \<Rightarrow> nat \<times> buddy_manager" where
  "releaseMemoryExtended bucketIndex b =
     release_loop bucketIndex 0 (bm_nodeTreeDepth b) (bm_numBuckets b) 1 b"

definition releaseMemory :: "nat \<Rightarrow> buddy_manager \<Rightarrow> bool \<times> buddy_manager" where
  "releaseMemory bucketIndex b =
     (let (n, b) = releaseMemoryExtended bucketIndex b in (n \<noteq> 0, b))"

end
