(* ===== verification/BuddyMemoryCorrect.thy ===== *)
theory BuddyMemoryCorrect imports BuddyMemory begin

text \<open>
  Correctness of the buddy memory manager. A node is a level and an index in the level; a
  bucket's ancestors are one node per level. The invariant: every bucket has exactly one
  ancestor that is not a link, and no two buddies are both free.
\<close>

section \<open>Powers of two\<close>

lemma fastLog2_loop_bounds:
  "0 < v \<Longrightarrow> \<exists>e. fastLog2_loop v r = r + e \<and> 2 ^ e \<le> v \<and> v < 2 ^ Suc e"
proof (induction v r rule: fastLog2_loop.induct)
  case (1 v r)
  show ?case
  proof (cases "1 < v")
    case True
    have "drop_bit 1 v = v div 2" by (simp add: drop_bit_eq_div)
    then have "0 < drop_bit 1 v" using True by simp
    from "1.IH" [OF True this] obtain e where e: "fastLog2_loop (drop_bit 1 v) (r + 1) = r + 1 + e"
        "2 ^ e \<le> v div 2" "v div 2 < 2 ^ Suc e" using \<open>drop_bit 1 v = v div 2\<close> by auto
    have "fastLog2_loop v r = fastLog2_loop (drop_bit 1 v) (r + 1)"
      using True by (simp add: fastLog2_loop.simps [of v r])
    then have "fastLog2_loop v r = r + Suc e" "2 ^ Suc e \<le> v" "v < 2 ^ Suc (Suc e)"
      using e by simp_all
    then show ?thesis by blast
  next
    case False
    then have "v = 1" using "1.prems" by simp
    then show ?thesis by (auto simp: fastLog2_loop.simps [of "Suc 0" r] intro!: exI [of _ 0])
  qed
qed

lemma fastLog2_bounds:
  assumes "0 < v" shows "2 ^ fastLog2 v \<le> v" and "v < 2 ^ Suc (fastLog2 v)"
  using fastLog2_loop_bounds [OF assms, of 0] by (auto simp: fastLog2_def)

lemma floor_log2_unique: "2 ^ a \<le> (v :: nat) \<Longrightarrow> v < 2 ^ Suc a \<Longrightarrow> 2 ^ e \<le> v \<Longrightarrow> v < 2 ^ Suc e \<Longrightarrow> a = e"
proof -
  have "a \<le> e" if "2 ^ a \<le> (v :: nat)" "v < 2 ^ Suc e" for a e
  proof -
    have "(2 :: nat) ^ a < 2 ^ Suc e" using that by (rule le_less_trans)
    then have "a < Suc e" by (rule power_less_imp_less_exp [rotated]) simp
    then show ?thesis by simp
  qed
  then show "2 ^ a \<le> (v :: nat) \<Longrightarrow> v < 2 ^ Suc a \<Longrightarrow> 2 ^ e \<le> v \<Longrightarrow> v < 2 ^ Suc e \<Longrightarrow> a = e"
    by (meson order_antisym)
qed

lemma fastLog2_eq: "2 ^ e \<le> v \<Longrightarrow> v < 2 ^ Suc e \<Longrightarrow> fastLog2 v = e"
proof -
  assume a: "2 ^ e \<le> v" "v < 2 ^ Suc e"
  then have "0 < v" by (metis gr0I not_le zero_less_numeral zero_less_power)
  from fastLog2_bounds [OF this] a show ?thesis by (rule floor_log2_unique)
qed

text \<open>
  The specialisation agrees with the loop when the builtin counts leading zeros: exactly the
  bit after them is the highest bit set.
\<close>

lemma fastLog2_clz_eq:
  assumes "0 < v" "clz v < sizeofT * 8" "v div 2 ^ (sizeofT * 8 - 1 - clz v) = 1"
  shows "fastLog2_clz sizeofT clz v = fastLog2 v"
proof -
  let ?e = "sizeofT * 8 - 1 - clz v"
  have "2 ^ ?e \<le> v" using assms(3) by (metis div_less not_le zero_neq_one)
  moreover have "v < 2 ^ Suc ?e"
  proof -
    have "v = 2 ^ ?e + v mod 2 ^ ?e" using div_mult_mod_eq [of v "2 ^ ?e"] assms(3) by simp
    moreover have "v mod 2 ^ ?e < 2 ^ ?e" by simp
    ultimately show ?thesis unfolding power_Suc by linarith
  qed
  ultimately show ?thesis using fastLog2_eq by (simp add: fastLog2_clz_def clzToLog2_def)
qed

lemma Log2_bounds: "0 < n \<Longrightarrow> 2 ^ Log2 n \<le> n \<and> n < 2 ^ Suc (Log2 n)"
proof (induction n rule: Log2.induct)
  case (1 n)
  show ?case
  proof (cases "n \<le> 1")
    case True
    then show ?thesis using "1.prems" by (simp add: Log2.simps [of n])
  next
    case False
    then have "2 ^ Log2 (n div 2) \<le> n div 2 \<and> n div 2 < 2 ^ Suc (Log2 (n div 2))" using "1.IH" by simp
    then show ?thesis using False by (simp add: Log2.simps [of n]) linarith
  qed
qed

text \<open>The smallest power of two that is not below a number.\<close>

lemma double_minus_one_bounds:
  assumes "0 < (n :: nat)" "2 ^ e \<le> n * 2 - 1" "n * 2 - 1 < 2 ^ Suc e"
  shows "n \<le> 2 ^ e" and "2 ^ e < 2 * n"
  using assms by simp_all

section \<open>Nodes\<close>

definition bnode :: "nat \<Rightarrow> nat \<Rightarrow> nat" where
  "bnode l j = 2 ^ l - 1 + j"

lemma bnode_Suc: "bnode l j + 1 = 2 ^ l + j"
  by (simp add: bnode_def)

lemma bnode_inj: "j < 2 ^ l \<Longrightarrow> j' < 2 ^ l' \<Longrightarrow> bnode l j = bnode l' j' \<longleftrightarrow> l = l' \<and> j = j'"
proof
  assume j: "j < 2 ^ l" "j' < 2 ^ l'" and eq: "bnode l j = bnode l' j'"
  then have e: "2 ^ l + j = 2 ^ l' + j'" using bnode_Suc by metis
  have "l = l'" by (rule floor_log2_unique [of l "2 ^ l + j"]) (use j e in simp_all)
  then show "l = l' \<and> j = j'" using e by simp
qed simp

lemma bnode_less: "l \<le> m \<Longrightarrow> j < 2 ^ l \<Longrightarrow> bnode l j < 2 ^ Suc m - 1"
proof -
  assume a: "l \<le> m" "j < 2 ^ l"
  have "(2 :: nat) ^ l \<le> 2 ^ m" using a(1) by simp
  then have "2 ^ l + j < 2 ^ Suc m" using a(2) unfolding power_Suc by linarith
  then show ?thesis unfolding bnode_def by (simp add: less_diff_conv)
qed

lemma bnode_cases:
  assumes "i < 2 ^ Suc m - 1"
  obtains l j where "i = bnode l j" "l \<le> m" "j < 2 ^ l"
proof -
  let ?l = "fastLog2 (i + 1)"
  have b: "2 ^ ?l \<le> i + 1" "i + 1 < 2 ^ Suc ?l" using fastLog2_bounds [of "i + 1"] by simp_all
  have "(2 :: nat) ^ ?l < 2 ^ Suc m" using b(1) assms by linarith
  then have "?l < Suc m" by (rule power_less_imp_less_exp [rotated]) simp
  moreover have "i = bnode ?l (i + 1 - 2 ^ ?l)" using b(1) unfolding bnode_def by (simp add: le_simps)
  moreover have "i + 1 - 2 ^ ?l < 2 ^ ?l" using b(2) by simp
  ultimately show thesis using that by simp
qed

lemma bnode_0 [simp]: "bnode 0 0 = 0"
  by (simp add: bnode_def)

definition sib :: "nat \<Rightarrow> nat" where
  "sib j = (if even j then j + 1 else j - 1)"

lemma sib_less: "0 < l \<Longrightarrow> j < 2 ^ l \<Longrightarrow> sib j < 2 ^ l"
proof -
  assume a: "0 < l" "j < 2 ^ l"
  have "even ((2 :: nat) ^ l)" using a(1) by simp
  then have "even j \<Longrightarrow> j + 1 \<noteq> 2 ^ l" by (metis even_plus_one_iff)
  then show ?thesis using a(2) by (auto simp: sib_def)
qed

lemma sib_simps [simp]: "sib (sib j) = j" "sib j \<noteq> j" "sib j div 2 = j div 2"
  by (auto simp: sib_def elim!: evenE oddE)

lemma sib_unique: "i div 2 = j div 2 \<longleftrightarrow> i = j \<or> i = sib j"
  by (auto simp: sib_def elim!: evenE oddE)

lemma buddy_bnode: "0 < l \<Longrightarrow> buddy (bnode l j) = bnode l (sib j)"
proof -
  assume "0 < l"
  then obtain k where l: "l = Suc k" by (cases l) auto
  have "odd ((2 :: nat) ^ l - 1)" using l by simp
  then have "odd (bnode l j) \<longleftrightarrow> even j" by (simp add: bnode_def)
  then have "isLeftSibling (bnode l j) \<longleftrightarrow> even j" by (simp add: isLeftSibling_def and_one_eq odd_iff_mod_2_eq_one)
  then show ?thesis by (auto simp: buddy_def sib_def bnode_def elim!: oddE)
qed

lemma parent_bnode: "0 < l \<Longrightarrow> parentPosition (bnode l j) = bnode (l - 1) (j div 2)"
proof -
  assume "0 < l"
  then obtain k where l: "l = Suc k" by (cases l) auto
  have p: "(1 :: nat) \<le> 2 ^ k" by simp
  have "bnode l j - 1 = 2 * (2 ^ k - 1) + j" 
    using p unfolding bnode_def l power_Suc by linarith
  then have "(bnode l j - 1) div 2 = 2 ^ k - 1 + j div 2" by simp
  then show ?thesis by (simp add: parentPosition_def drop_bit_eq_div bnode_def l)
qed

lemma child_bnode: "push_bit 1 (bnode l j) + 1 = bnode (Suc l) (2 * j)"
proof -
  obtain k where "(2 :: nat) ^ l = Suc k" by (metis gr0_implies_Suc zero_less_numeral zero_less_power)
  then show ?thesis by (simp add: push_bit_eq_mult bnode_def)
qed

section \<open>The invariant\<close>

definition anc :: "nat \<Rightarrow> nat \<Rightarrow> nat \<Rightarrow> nat" where
  "anc m l b = b div 2 ^ (m - l)"

text \<open>Bucket \<open>b\<close> is covered at level \<open>l0\<close>: its only ancestor there that is not a link.\<close>

definition cov_at :: "nat \<Rightarrow> u8 list \<Rightarrow> nat \<Rightarrow> nat \<Rightarrow> bool" where
  "cov_at m t b l0 \<longleftrightarrow> l0 \<le> m \<and> (\<forall>l \<le> m. t ! bnode l (anc m l b) \<noteq> TAG_NODE_LINK \<longleftrightarrow> l = l0)"

definition bm_cov :: "nat \<Rightarrow> u8 list \<Rightarrow> bool" where
  "bm_cov m t \<longleftrightarrow> length t = 2 ^ Suc m - 1 \<and> set t \<subseteq> {TAG_NODE_FREE, TAG_NODE_LINK, TAG_NODE_USED}
     \<and> (\<forall>b < 2 ^ m. \<exists>l0. cov_at m t b l0)"

text \<open>Free buddies occur at most at one node, which the next merge or use repairs.\<close>

definition bm_coal_but :: "nat \<Rightarrow> u8 list \<Rightarrow> nat \<Rightarrow> nat \<Rightarrow> bool" where
  "bm_coal_but m t l0 j0 \<longleftrightarrow> (\<forall>l \<le> m. \<forall>j < 2 ^ l. 0 < l \<and> isNodeFree t (bnode l j) \<and> isNodeFree t (bnode l (sib j))
     \<longrightarrow> l = l0 \<and> (j = j0 \<or> j = sib j0))"

definition bm_coal :: "nat \<Rightarrow> u8 list \<Rightarrow> bool" where
  "bm_coal m t \<longleftrightarrow> bm_coal_but m t 0 0"

definition bm_used :: "nat \<Rightarrow> u8 list \<Rightarrow> (nat \<times> nat) set" where
  "bm_used m t = {(l, j). l \<le> m \<and> j < 2 ^ l \<and> isNodeUsed t (bnode l j)}"

lemma tags_distinct [simp]:
  "TAG_NODE_FREE \<noteq> TAG_NODE_LINK" "TAG_NODE_LINK \<noteq> TAG_NODE_FREE" "TAG_NODE_FREE \<noteq> TAG_NODE_USED"
  "TAG_NODE_USED \<noteq> TAG_NODE_FREE" "TAG_NODE_LINK \<noteq> TAG_NODE_USED" "TAG_NODE_USED \<noteq> TAG_NODE_LINK"
  by (simp_all add: TAG_NODE_FREE_def TAG_NODE_LINK_def TAG_NODE_USED_def)

lemma anc_less: "b < 2 ^ m \<Longrightarrow> l \<le> m \<Longrightarrow> anc m l b < 2 ^ l"
proof -
  assume a: "b < 2 ^ m" "l \<le> m"
  have "(2 :: nat) ^ m = 2 ^ l * 2 ^ (m - l)" using a(2) by (simp add: power_add [symmetric])
  then show ?thesis using a(1) by (simp add: anc_def less_mult_imp_div_less)
qed

lemma anc_bucket: "l \<le> m \<Longrightarrow> j < 2 ^ l \<Longrightarrow> j * 2 ^ (m - l) < 2 ^ m \<and> anc m l (j * 2 ^ (m - l)) = j"
proof -
  assume a: "l \<le> m" "j < 2 ^ l"
  have "(2 :: nat) ^ m = 2 ^ l * 2 ^ (m - l)" using a(1) by (simp add: power_add [symmetric])
  then show ?thesis using a(2) by (simp add: anc_def)
qed

lemma anc_up: "l \<le> k \<Longrightarrow> k \<le> m \<Longrightarrow> anc m l b = anc m k b div 2 ^ (k - l)"
proof -
  assume a: "l \<le> k" "k \<le> m"
  then have "m - l = (m - k) + (k - l)" by simp
  then show ?thesis by (simp add: anc_def div_mult2_eq power_add)
qed

lemma anc_Suc: "l < m \<Longrightarrow> anc m l b = anc m (Suc l) b div 2"
  using anc_up [of l "Suc l" m b] by simp

lemma nth_bnode_update:
  assumes "length t = 2 ^ Suc m - 1" "l \<le> m" "j < 2 ^ l" "l' \<le> m" "j' < 2 ^ l'"
  shows "t[bnode l j := x] ! bnode l' j' = (if l' = l \<and> j' = j then x else t ! bnode l' j')"
  using bnode_less [OF assms(2,3)] bnode_inj [OF assms(3,5)] assms(1) by (auto simp: nth_list_update)

lemma cov_atD: "cov_at m t b l0 \<Longrightarrow> l \<le> m \<Longrightarrow> t ! bnode l (anc m l b) \<noteq> TAG_NODE_LINK \<Longrightarrow> l = l0"
  by (simp add: cov_at_def)

lemma cov_at_node:
  assumes "bm_cov m t" "b < 2 ^ m" "l \<le> m" "t ! bnode l (anc m l b) \<noteq> TAG_NODE_LINK"
  shows "cov_at m t b l"
  using assms cov_atD unfolding bm_cov_def by blast

lemma tag_cases:
  assumes "bm_cov m t" "l \<le> m" "j < 2 ^ l"
  shows "isNodeFree t (bnode l j) \<or> isNodeUsed t (bnode l j) \<or> t ! bnode l j = TAG_NODE_LINK"
proof -
  have "bnode l j < length t" using assms bnode_less by (simp add: bm_cov_def)
  then have "t ! bnode l j \<in> set t" by simp
  then show ?thesis using assms(1) by (auto simp: bm_cov_def isNodeFree_def isNodeUsed_def)
qed

text \<open>A change that keeps the covering of most buckets and moves that of the others.\<close>

lemma bm_cov_change:
  assumes "bm_cov m t" "length t' = length t" "set t' \<subseteq> {TAG_NODE_FREE, TAG_NODE_LINK, TAG_NODE_USED}"
    and "\<And>b l0. b < 2 ^ m \<Longrightarrow> cov_at m t b l0 \<Longrightarrow> \<exists>l1. cov_at m t' b l1"
  shows "bm_cov m t'"
  using assms unfolding bm_cov_def by metis

lemma set_update_tags:
  "set t \<subseteq> S \<Longrightarrow> x \<in> S \<Longrightarrow> set (t[i := x]) \<subseteq> S"
  by (rule order_trans [OF set_update_subset_insert]) simp

lemma bm_cov_retag:
  assumes "bm_cov m t" "l \<le> m" "j < 2 ^ l" "t ! bnode l j \<noteq> TAG_NODE_LINK"
    and "x \<in> {TAG_NODE_FREE, TAG_NODE_USED}"
  shows "bm_cov m (t[bnode l j := x])"
proof (rule bm_cov_change [OF assms(1)])
  fix b l0 assume b: "b < 2 ^ m" and c: "cov_at m t b l0"
  have "t[bnode l j := x] ! bnode k (anc m k b) \<noteq> TAG_NODE_LINK \<longleftrightarrow> t ! bnode k (anc m k b) \<noteq> TAG_NODE_LINK"
    if "k \<le> m" for k
    using nth_bnode_update [of t m l j k "anc m k b" x] assms anc_less [OF b that] that
    by (auto simp: bm_cov_def)
  then have "cov_at m (t[bnode l j := x]) b l0" using c by (simp add: cov_at_def)
  then show "\<exists>l1. cov_at m (t[bnode l j := x]) b l1" ..
next
  show "set (t[bnode l j := x]) \<subseteq> {TAG_NODE_FREE, TAG_NODE_LINK, TAG_NODE_USED}"
    by (rule set_update_tags) (use assms(1,5) in \<open>auto simp: bm_cov_def\<close>)
qed simp

section \<open>Splitting and merging one node\<close>

definition split_node :: "nat \<Rightarrow> nat \<Rightarrow> u8 list \<Rightarrow> u8 list" where
  "split_node l j t = t[bnode l j := TAG_NODE_LINK, bnode (Suc l) (2 * j) := TAG_NODE_FREE,
     bnode (Suc l) (2 * j + 1) := TAG_NODE_FREE]"

definition merge_node :: "nat \<Rightarrow> nat \<Rightarrow> u8 list \<Rightarrow> u8 list" where
  "merge_node l j t = t[bnode (Suc l) j := TAG_NODE_LINK, bnode (Suc l) (sib j) := TAG_NODE_LINK,
     bnode l (j div 2) := TAG_NODE_FREE]"

lemma nth_split_node:
  assumes "length t = 2 ^ Suc m - 1" "l < m" "j < 2 ^ l" "k \<le> m" "i < 2 ^ k"
  shows "split_node l j t ! bnode k i =
    (if k = l \<and> i = j then TAG_NODE_LINK else if k = Suc l \<and> i div 2 = j then TAG_NODE_FREE
     else t ! bnode k i)"
proof -
  have "i div 2 = j \<longleftrightarrow> i = 2 * j \<or> i = 2 * j + 1" by auto
  then show ?thesis using assms by (auto simp: split_node_def nth_bnode_update)
qed

lemma nth_merge_node:
  assumes "length t = 2 ^ Suc m - 1" "l < m" "j < 2 ^ Suc l" "k \<le> m" "i < 2 ^ k"
  shows "merge_node l j t ! bnode k i =
    (if k = l \<and> i = j div 2 then TAG_NODE_FREE else if k = Suc l \<and> i div 2 = j div 2 then TAG_NODE_LINK
     else t ! bnode k i)"
proof -
  have "sib j < 2 ^ Suc l" using sib_less assms(3) by blast
  then show ?thesis using assms sib_unique [of i j] by (auto simp: merge_node_def nth_bnode_update)
qed

lemma length_split_merge [simp]: "length (split_node l j t) = length t" "length (merge_node l j t) = length t"
  by (simp_all add: split_node_def merge_node_def)

lemma set_split_merge:
  assumes "set t \<subseteq> {TAG_NODE_FREE, TAG_NODE_LINK, TAG_NODE_USED}"
  shows "set (split_node l j t) \<subseteq> {TAG_NODE_FREE, TAG_NODE_LINK, TAG_NODE_USED}"
    and "set (merge_node l j t) \<subseteq> {TAG_NODE_FREE, TAG_NODE_LINK, TAG_NODE_USED}"
  unfolding split_node_def merge_node_def by (intro set_update_tags assms; simp)+

lemma bm_cov_split:
  assumes t: "bm_cov m t" and l: "l < m" "j < 2 ^ l" and n: "t ! bnode l j \<noteq> TAG_NODE_LINK"
  shows "bm_cov m (split_node l j t)"
proof (rule bm_cov_change [OF t])
  have len: "length t = 2 ^ Suc m - 1" using t by (simp add: bm_cov_def)
  fix b l0 assume b: "b < 2 ^ m" and c: "cov_at m t b l0"
  note nth = nth_split_node [OF len l(1,2) _ anc_less [OF b]]
  show "\<exists>l1. cov_at m (split_node l j t) b l1"
  proof (cases "anc m l b = j")
    case True
    then have "l0 = l" using cov_atD [OF c, of l] l(1) n by simp
    then have "cov_at m (split_node l j t) b (Suc l)"
      using c True l(1) nth anc_Suc [OF l(1), of b] by (auto simp: cov_at_def)
    then show ?thesis ..
  next
    case False
    then have "cov_at m (split_node l j t) b l0"
      using c l(1) nth anc_Suc [OF l(1), of b] by (auto simp: cov_at_def)
    then show ?thesis ..
  qed
qed (use t set_split_merge in \<open>auto simp: bm_cov_def\<close>)

lemma bm_cov_merge:
  assumes t: "bm_cov m t" and l: "l < m" "j < 2 ^ Suc l"
    and n: "t ! bnode (Suc l) j \<noteq> TAG_NODE_LINK" "t ! bnode (Suc l) (sib j) \<noteq> TAG_NODE_LINK"
  shows "bm_cov m (merge_node l j t)"
proof (rule bm_cov_change [OF t])
  have len: "length t = 2 ^ Suc m - 1" using t by (simp add: bm_cov_def)
  fix b l0 assume b: "b < 2 ^ m" and c: "cov_at m t b l0"
  note nth = nth_merge_node [OF len l(1,2) _ anc_less [OF b]]
  show "\<exists>l1. cov_at m (merge_node l j t) b l1"
  proof (cases "anc m l b = j div 2")
    case True
    then have "anc m (Suc l) b = j \<or> anc m (Suc l) b = sib j"
      using anc_Suc [OF l(1), of b] sib_unique by simp
    then have "l0 = Suc l" using cov_atD [OF c, of "Suc l"] l(1) n by auto
    then have "cov_at m (merge_node l j t) b l"
      using c True l(1) nth anc_Suc [OF l(1), of b] by (auto simp: cov_at_def)
    then show ?thesis ..
  next
    case False
    then have "cov_at m (merge_node l j t) b l0"
      using c l(1) nth anc_Suc [OF l(1), of b] by (auto simp: cov_at_def)
    then show ?thesis ..
  qed
qed (use t set_split_merge in \<open>auto simp: bm_cov_def\<close>)

text \<open>A node's relatives under a covering: if it is not a link, all above and below it are.\<close>

lemma cov_relative:
  assumes "bm_cov m t" "l \<le> k" "k \<le> m" "i < 2 ^ k" "l \<noteq> k"
    and "t ! bnode k i \<noteq> TAG_NODE_LINK"
  shows "t ! bnode l (i div 2 ^ (k - l)) = TAG_NODE_LINK"
proof (rule ccontr)
  assume a: "t ! bnode l (i div 2 ^ (k - l)) \<noteq> TAG_NODE_LINK"
  let ?b = "i * 2 ^ (m - k)"
  have b: "?b < 2 ^ m" "anc m k ?b = i" using anc_bucket assms(3,4) by auto
  have "anc m l ?b = i div 2 ^ (k - l)" using anc_up [OF assms(2,3)] b(2) by simp
  then have "cov_at m t ?b l" using cov_at_node [OF assms(1) b(1)] assms(2,3) a by simp
  from cov_atD [OF this assms(3)] b(2) assms(5,6) show False by simp
qed

lemma child_link:
  assumes "bm_cov m t" "l < m" "j < 2 ^ l" "t ! bnode l j \<noteq> TAG_NODE_LINK" "i div 2 = j"
  shows "t ! bnode (Suc l) i = TAG_NODE_LINK"
proof (rule ccontr)
  assume "t ! bnode (Suc l) i \<noteq> TAG_NODE_LINK"
  moreover have "i < 2 ^ Suc l" using assms(3,5) by auto
  ultimately have "t ! bnode l (i div 2) = TAG_NODE_LINK"
    using cov_relative [OF assms(1), of l "Suc l" i] assms(2) by simp
  then show False using assms(4,5) by simp
qed

lemma bm_used_split:
  assumes "bm_cov m t" "l < m" "j < 2 ^ l" "isNodeFree t (bnode l j)"
  shows "bm_used m (split_node l j t) = bm_used m t"
proof -
  have len: "length t = 2 ^ Suc m - 1" using assms(1) by (simp add: bm_cov_def)
  have ne: "t ! bnode l j \<noteq> TAG_NODE_LINK" using assms(4) by (simp add: isNodeFree_def)
  have "isNodeUsed (split_node l j t) (bnode k i) \<longleftrightarrow> isNodeUsed t (bnode k i)" if "k \<le> m" "i < 2 ^ k" for k i
    using nth_split_node [OF len assms(2,3) that] child_link [OF assms(1-3) ne, of i] assms(4)
    by (auto simp: isNodeUsed_def isNodeFree_def)
  then show ?thesis by (auto simp: bm_used_def)
qed

lemma bm_used_merge:
  assumes "bm_cov m t" "l < m" "j < 2 ^ Suc l"
    and "\<not> isNodeUsed t (bnode (Suc l) (sib j))" "\<not> isNodeUsed t (bnode l (j div 2))"
  shows "bm_used m (merge_node l j t) = bm_used m t - {(Suc l, j)}"
proof -
  have len: "length t = 2 ^ Suc m - 1" using assms(1) by (simp add: bm_cov_def)
  have "isNodeUsed (merge_node l j t) (bnode k i) \<longleftrightarrow> isNodeUsed t (bnode k i) \<and> (k, i) \<noteq> (Suc l, j)"
    if "k \<le> m" "i < 2 ^ k" for k i
    using nth_merge_node [OF len assms(2,3) that] sib_unique [of i j] assms(4,5)
    by (auto simp: isNodeUsed_def)
  then show ?thesis by (auto simp: bm_used_def)
qed

lemma bm_coal_split:
  assumes "bm_cov m t" "l < m" "j < 2 ^ l" "bm_coal_but m t l j"
  shows "bm_coal_but m (split_node l j t) (Suc l) (2 * j)"
proof -
  have len: "length t = 2 ^ Suc m - 1" using assms(1) by (simp add: bm_cov_def)
  have "k = Suc l \<and> (i = 2 * j \<or> i = sib (2 * j))"
    if k: "k \<le> m" "i < 2 ^ k" "0 < k" and f: "isNodeFree (split_node l j t) (bnode k i)"
      "isNodeFree (split_node l j t) (bnode k (sib i))" for k i
  proof (rule ccontr)
    assume n: "\<not> ?thesis"
    have s: "sib i < 2 ^ k" by (rule sib_less [OF k(3,2)])
    note nth = nth_split_node [OF len assms(2,3) k(1)]
    have "isNodeFree t (bnode k i) \<and> isNodeFree t (bnode k (sib i)) \<and> (k, i) \<noteq> (l, j) \<and> (k, sib i) \<noteq> (l, j)"
      using f nth [OF k(2)] nth [OF s] n sib_unique [of i "2 * j"]
      by (auto simp: isNodeFree_def split: if_splits)
    then show False using assms(4) k unfolding bm_coal_but_def by (metis sib_simps(1))
  qed
  then show ?thesis unfolding bm_coal_but_def by blast
qed

lemma bm_coal_merge:
  assumes "bm_cov m t" "l < m" "j < 2 ^ Suc l" "bm_coal_but m t (Suc l) j"
  shows "bm_coal_but m (merge_node l j t) l (j div 2)"
proof -
  have len: "length t = 2 ^ Suc m - 1" using assms(1) by (simp add: bm_cov_def)
  have "k = l \<and> (i = j div 2 \<or> i = sib (j div 2))"
    if k: "k \<le> m" "i < 2 ^ k" "0 < k" and f: "isNodeFree (merge_node l j t) (bnode k i)"
      "isNodeFree (merge_node l j t) (bnode k (sib i))" for k i
  proof (rule ccontr)
    assume n: "\<not> ?thesis"
    have s: "sib i < 2 ^ k" by (rule sib_less [OF k(3,2)])
    note nth = nth_merge_node [OF len assms(2,3) k(1)]
    have "(k, sib i) \<noteq> (l, j div 2)" using n by (metis prod.inject sib_simps(1))
    then have "isNodeFree t (bnode k i) \<and> isNodeFree t (bnode k (sib i)) \<and> \<not> (k = Suc l \<and> i div 2 = j div 2)"
      using f nth [OF k(2)] nth [OF s] n by (auto simp: isNodeFree_def split: if_splits)
    then show False using assms(4) k unfolding bm_coal_but_def by (metis sib_unique)
  qed
  then show ?thesis unfolding bm_coal_but_def by blast
qed

section \<open>The loops\<close>

lemma freeNode_ok:
  "l \<le> m \<Longrightarrow> j < 2 ^ l \<Longrightarrow> bm_cov m (t[bnode l j := TAG_NODE_FREE]) \<Longrightarrow>
    bm_coal_but m (t[bnode l j := TAG_NODE_FREE]) l j \<Longrightarrow>
    bm_cov m (freeNode (bnode l j) t) \<and> bm_coal m (freeNode (bnode l j) t)
    \<and> bm_used m (freeNode (bnode l j) t) = bm_used m (t[bnode l j := TAG_NODE_FREE])"
proof (induction l arbitrary: j t)
  case 0
  then have "bm_coal m (t[bnode 0 j := TAG_NODE_FREE])" by (simp add: bm_coal_def)
  then show ?case using 0 by (simp add: freeNode.simps tagNodeFree_def)
next
  case (Suc k)
  let ?t0 = "t[bnode (Suc k) j := TAG_NODE_FREE]" and ?p = "bnode (Suc k) j"
  have km: "k < m" and len: "length t = 2 ^ Suc m - 1" using Suc.prems by (auto simp: bm_cov_def)
  have "(1 :: nat) \<le> 2 ^ k" by simp
  then have pos: "0 < ?p" unfolding bnode_def power_Suc by linarith
  have s: "sib j < 2 ^ Suc k" using sib_less Suc.prems(2) by blast
  have bud: "buddy ?p = bnode (Suc k) (sib j)" by (simp add: buddy_bnode)
  have nf: "t ! bnode (Suc k) (sib j) = ?t0 ! bnode (Suc k) (sib j)"
    using nth_bnode_update [OF len Suc.prems(1,2,1) s] by simp
  have f0: "isNodeFree ?t0 ?p" using nth_bnode_update [OF len Suc.prems(1,2,1,2)] by (simp add: isNodeFree_def)
  show ?case
  proof (cases "isNodeFree t (buddy ?p)")
    case False
    have "bm_coal m ?t0"
      unfolding bm_coal_def bm_coal_but_def
    proof (intro allI impI)
      fix l i assume a: "l \<le> m" "i < 2 ^ l" "0 < l \<and> isNodeFree ?t0 (bnode l i) \<and> isNodeFree ?t0 (bnode l (sib i))"
      then have "l = Suc k \<and> (i = j \<or> i = sib j)" using Suc.prems(4) unfolding bm_coal_but_def by blast
      then show "l = 0 \<and> (i = 0 \<or> i = sib 0)" using a(3) False nf by (auto simp: bud isNodeFree_def)
    qed
    then show ?thesis using Suc.prems(3) False pos by (simp add: freeNode.simps [of ?p] tagNodeFree_def)
  next
    case True
    then have f1: "isNodeFree ?t0 (bnode (Suc k) (sib j))" using nf by (simp add: bud isNodeFree_def)
    let ?t1 = "t[?p := TAG_NODE_LINK, bnode (Suc k) (sib j) := TAG_NODE_LINK]"
    have "freeNode ?p t = freeNode (bnode k (j div 2)) ?t1"
      using True pos parent_bnode [of "Suc k" j]
      by (simp add: freeNode.simps [of ?p] bud tagNodeLink_def)
    moreover have m1: "?t1[bnode k (j div 2) := TAG_NODE_FREE] = merge_node k j ?t0"
      by (simp add: merge_node_def)
    moreover have "bm_cov m (merge_node k j ?t0)"
      by (rule bm_cov_merge [OF Suc.prems(3) km Suc.prems(2)]) (use f0 f1 in \<open>auto simp: isNodeFree_def\<close>)
    moreover have "bm_coal_but m (merge_node k j ?t0) k (j div 2)"
      by (rule bm_coal_merge [OF Suc.prems(3) km Suc.prems(2,4)])
    moreover have "bm_used m (merge_node k j ?t0) = bm_used m ?t0"
    proof -
      have "?t0 ! bnode k (j div 2) = TAG_NODE_LINK"
        using cov_relative [OF Suc.prems(3), of k "Suc k" j] Suc.prems(1,2) f0 by (simp add: isNodeFree_def)
      moreover have "(Suc k, j) \<notin> bm_used m ?t0" using f0 by (simp add: bm_used_def isNodeFree_def isNodeUsed_def)
      ultimately show ?thesis
        using bm_used_merge [OF Suc.prems(3) km Suc.prems(2)] f1 by (simp add: isNodeFree_def isNodeUsed_def)
    qed
    moreover have "k \<le> m" "j div 2 < 2 ^ k" using km Suc.prems(2) by auto
    ultimately show ?thesis using Suc.IH [of "j div 2" ?t1] by simp
  qed
qed

lemma split_children:
  assumes "bm_cov m t" "l < m" "j < 2 ^ l"
  shows "isNodeFree (split_node l j t) (bnode (Suc l) (2 * j))" and "2 * j < 2 ^ Suc l"
proof -
  show "2 * j < 2 ^ Suc l" using assms(3) by simp
  then show "isNodeFree (split_node l j t) (bnode (Suc l) (2 * j))"
    using nth_split_node [of t m l j "Suc l" "2 * j"] assms by (simp add: bm_cov_def isNodeFree_def)
qed

lemma splitNode_step:
  "splitNodeUntilLevelReached (bnode l j) l L t =
    (if Suc l < L then splitNodeUntilLevelReached (bnode (Suc l) (2 * j)) (Suc l) L (split_node l j t)
     else split_node l j t)"
proof -
  have "bnode (Suc l) (2 * j) + 1 = bnode (Suc l) (2 * j + 1)" by (simp add: bnode_def)
  then show ?thesis unfolding splitNodeUntilLevelReached.simps [of "bnode l j"]
    by (simp add: Let_def child_bnode [simplified] tagNodeLink_def tagNodeFree_def split_node_def)
qed

lemma splitNode_ok:
  "l < L \<Longrightarrow> L \<le> m \<Longrightarrow> j < 2 ^ l \<Longrightarrow> bm_cov m t \<Longrightarrow> isNodeFree t (bnode l j) \<Longrightarrow> bm_coal_but m t l j \<Longrightarrow>
    t' = splitNodeUntilLevelReached (bnode l j) l L t \<Longrightarrow>
    bm_cov m t' \<and> bm_used m t' = bm_used m t
    \<and> (\<exists>x < 2 ^ L. isNodeFree t' (bnode L x) \<and> bm_coal_but m t' L x
        \<and> (\<forall>i < 2 ^ L. isNodeFree t' (bnode L i) \<longrightarrow> isNodeFree t (bnode L i) \<or> i = x \<or> i = sib x))"
proof (induction "L - l" arbitrary: l j t)
  case (Suc d)
  have lm: "l < m" using Suc.prems(1,2) by simp
  have len: "length t = 2 ^ Suc m - 1" using Suc.prems(4) by (simp add: bm_cov_def)
  let ?t1 = "split_node l j t"
  have ne: "t ! bnode l j \<noteq> TAG_NODE_LINK" using Suc.prems(5) by (simp add: isNodeFree_def)
  note c = split_children [OF Suc.prems(4) lm Suc.prems(3)]
  note cov = bm_cov_split [OF Suc.prems(4) lm Suc.prems(3) ne]
  note used = bm_used_split [OF Suc.prems(4) lm Suc.prems(3,5)]
  note coal = bm_coal_split [OF Suc.prems(4) lm Suc.prems(3,6)]
  show ?case
  proof (cases "Suc l < L")
    case True
    have "bm_cov m t' \<and> bm_used m t' = bm_used m ?t1
      \<and> (\<exists>x < 2 ^ L. isNodeFree t' (bnode L x) \<and> bm_coal_but m t' L x
        \<and> (\<forall>i < 2 ^ L. isNodeFree t' (bnode L i) \<longrightarrow> isNodeFree ?t1 (bnode L i) \<or> i = x \<or> i = sib x))"
      by (rule Suc.hyps(1) [OF _ True Suc.prems(2) c(2) cov c(1) coal])
        (use Suc.hyps(2) Suc.prems(7) True in \<open>simp_all add: splitNode_step [of l]\<close>)
    moreover have "isNodeFree ?t1 (bnode L i) \<longleftrightarrow> isNodeFree t (bnode L i)" if "i < 2 ^ L" for i
      using nth_split_node [OF len lm Suc.prems(3,2) that] True by (simp add: isNodeFree_def)
    ultimately show ?thesis unfolding used by blast
  next
    case False
    then have L: "L = Suc l" and t': "t' = ?t1" using Suc.prems(1,7) by (simp_all add: splitNode_step [of l])
    have "isNodeFree t (bnode L i) \<or> i = 2 * j \<or> i = sib (2 * j)"
      if "i < 2 ^ L" "isNodeFree ?t1 (bnode L i)" for i
      using nth_split_node [OF len lm Suc.prems(3,2) that(1)] that(2) L sib_unique [of i "2 * j"]
      by (auto simp: isNodeFree_def split: if_splits)
    then show ?thesis using cov used coal c L unfolding t' by blast
  qed
qed simp

lemma find_level:
  assumes "s = push_bit l 1 - 1" "n = push_bit l (1 :: nat)"
  shows "case List.find (isNodeFree t) [s..<s + n] of
      None \<Rightarrow> \<forall>j < 2 ^ l. \<not> isNodeFree t (bnode l j)
    | Some i \<Rightarrow> \<exists>j < 2 ^ l. i = bnode l j \<and> isNodeFree t (bnode l j)"
proof -
  have s: "s = 2 ^ l - 1" "n = 2 ^ l" using assms by (simp_all add: push_bit_eq_mult)
  show ?thesis
  proof (cases "List.find (isNodeFree t) [s..<s + n]")
    case None
    then have "\<not> isNodeFree t (bnode l j)" if "j < 2 ^ l" for j
      using that by (simp add: find_None_iff bnode_def s)
    then show ?thesis using None by simp
  next
    case (Some i)
    then have "isNodeFree t i" "s \<le> i" "i < s + n" by (auto simp: find_Some_iff)
    then show ?thesis using s Some by (auto simp: bnode_def intro!: exI [of _ "i - s"])
  qed
qed

lemma splitParent_ok:
  "k < L \<Longrightarrow> L \<le> m \<Longrightarrow> bm_cov m t \<Longrightarrow> bm_coal m t \<Longrightarrow> \<forall>i < 2 ^ L. \<not> isNodeFree t (bnode L i) \<Longrightarrow>
    t' = splitParent_loop L k t \<Longrightarrow>
    t' = t \<and> (\<forall>l \<le> k. \<forall>j < 2 ^ l. \<not> isNodeFree t (bnode l j))
    \<or> bm_cov m t' \<and> bm_used m t' = bm_used m t
      \<and> (\<exists>x < 2 ^ L. isNodeFree t' (bnode L x) \<and> bm_coal_but m t' L x
        \<and> (\<forall>i < 2 ^ L. isNodeFree t' (bnode L i) \<longrightarrow> i = x \<or> i = sib x))"
proof (induction k)
  case (Suc k)
  let ?s = "push_bit (Suc k) 1 - 1 :: nat" and ?n = "push_bit (Suc k) 1 :: nat"
  show ?case
  proof (cases "List.find (isNodeFree t) [?s..<?s + ?n]")
    case None
    then have "\<forall>j < 2 ^ Suc k. \<not> isNodeFree t (bnode (Suc k) j)"
      using find_level [OF refl refl, of "Suc k" t] by simp
    moreover have "splitParent_loop L (Suc k) t = splitParent_loop L k t"
      using None by (simp add: splitParent_loop.simps [of L "Suc k"] Let_def del: push_bit_Suc)
    ultimately show ?thesis using Suc.IH Suc.prems by (auto simp: le_Suc_eq)
  next
    case (Some i)
    then obtain j where j: "j < 2 ^ Suc k" "i = bnode (Suc k) j" "isNodeFree t (bnode (Suc k) j)"
      using find_level [OF refl refl, of "Suc k" t] by auto
    have t': "t' = splitNodeUntilLevelReached (bnode (Suc k) j) (Suc k) L t"
      using Some Suc.prems(6) by (simp add: splitParent_loop.simps [of L "Suc k"] Let_def j(2) del: push_bit_Suc)
    have "bm_coal_but m t (Suc k) j" using Suc.prems(4) by (auto simp: bm_coal_def bm_coal_but_def)
    from splitNode_ok [OF Suc.prems(1,2) j(1) Suc.prems(3) j(3) this t'] show ?thesis
      using Suc.prems(5) by blast
  qed
next
  case 0
  let ?s = "push_bit 0 1 - 1 :: nat" and ?n = "push_bit 0 1 :: nat"
  show ?case
  proof (cases "List.find (isNodeFree t) [?s..<?s + ?n]")
    case None
    then have "\<forall>j < 2 ^ 0. \<not> isNodeFree t (bnode 0 j)"
      using find_level [OF refl refl, of 0 t] by simp
    moreover have "splitParent_loop L 0 t = t"
      using None by (simp add: splitParent_loop.simps [of L 0] Let_def)
    ultimately show ?thesis using 0 by simp
  next
    case (Some i)
    then obtain j where j: "j < 2 ^ 0" "i = bnode 0 j" "isNodeFree t (bnode 0 j)"
      using find_level [OF refl refl, of 0 t] by auto
    have t': "t' = splitNodeUntilLevelReached (bnode 0 j) 0 L t"
      using Some 0(6) by (simp add: splitParent_loop.simps [of L 0] Let_def j(2))
    have "bm_coal_but m t 0 j" using 0(4) by (auto simp: bm_coal_def bm_coal_but_def)
    from splitNode_ok [OF 0(1,2) j(1) 0(3) j(3) this t'] show ?thesis using 0(5) by blast
  qed
qed

section \<open>Free blocks are found\<close>

lemma free_block:
  assumes t: "bm_cov m t" "bm_coal m t" and l: "l \<le> m" "j < 2 ^ l"
    and unused: "\<And>b k. b < 2 ^ m \<Longrightarrow> anc m l b = j \<Longrightarrow> k \<le> m \<Longrightarrow> \<not> isNodeUsed t (bnode k (anc m k b))"
  shows "\<exists>k \<le> l. isNodeFree t (bnode k (j div 2 ^ (l - k)))"
proof (rule ccontr)
  assume none: "\<not> ?thesis"
  have free: "\<exists>k. k \<le> m \<and> l < k \<and> isNodeFree t (bnode k (anc m k b))" if b: "b < 2 ^ m" "anc m l b = j" for b
  proof -
    obtain k where k: "cov_at m t b k" using t(1) b(1) unfolding bm_cov_def by blast
    then have km: "k \<le> m" "t ! bnode k (anc m k b) \<noteq> TAG_NODE_LINK" by (auto simp: cov_at_def)
    then have f: "isNodeFree t (bnode k (anc m k b))"
      using tag_cases [OF t(1) km(1) anc_less [OF b(1) km(1)]] unused [OF b km(1)] by blast
    have "l < k"
    proof (rule ccontr)
      assume "\<not> l < k"
      then have "anc m k b = j div 2 ^ (l - k)" using anc_up [of k l m b] l(1) b(2) by simp
      then show False using none f \<open>\<not> l < k\<close> by auto
    qed
    then show ?thesis using f km(1) by blast
  qed
  define P where "P k \<longleftrightarrow> k \<le> m \<and> l < k \<and> (\<exists>i < 2 ^ k. isNodeFree t (bnode k i) \<and> i div 2 ^ (k - l) = j)" for k
  have P_anc: "P k" if "b < 2 ^ m" "anc m l b = j" "k \<le> m" "l < k" "isNodeFree t (bnode k (anc m k b))" for b k
    using that anc_less [OF that(1,3)] anc_up [of l k m b] by (auto simp: P_def)
  obtain k0 where k0: "P k0" using free P_anc anc_bucket [OF l] by blast
  have bound: "\<And>k. P k \<Longrightarrow> k \<le> m" by (simp add: P_def)
  obtain K where K: "P K" "\<And>k. P k \<Longrightarrow> k \<le> K"
    using GreatestI_nat [of P, OF k0 bound] Greatest_le_nat [of P, OF _ bound] by blast
  then obtain i where i: "K \<le> m" "l < K" "i < 2 ^ K" "isNodeFree t (bnode K i)" "i div 2 ^ (K - l) = j"
    by (auto simp: P_def)
  have s: "sib i < 2 ^ K" using sib_less i(2,3) by simp
  let ?b = "sib i * 2 ^ (m - K)"
  have b: "?b < 2 ^ m" "anc m K ?b = sib i" using anc_bucket [OF i(1) s] by auto
  have up: "anc m k ?b = i div 2 ^ (K - k)" if "k < K" for k
  proof -
    have e: "K - k = Suc (K - k - 1)" using that by simp
    have "anc m k ?b = sib i div 2 ^ (K - k)" using anc_up [of k K m ?b] that i(1) b(2) by simp
    also have "\<dots> = i div 2 ^ (K - k)" by (subst (1 2) e) (simp add: div_mult2_eq)
    finally show ?thesis .
  qed
  have "anc m l ?b = j" using up [OF i(2)] i(5) by simp
  from free [OF b(1) this] obtain k where k: "k \<le> m" "l < k" "isNodeFree t (bnode k (anc m k ?b))" by blast
  have "k \<le> K" by (rule K(2)) (rule P_anc [OF b(1) \<open>anc m l ?b = j\<close> k])
  show False
  proof (cases "k = K")
    case True
    then show False using t(2) i(1-4) k(3) b(2) by (auto simp: bm_coal_def bm_coal_but_def)
  next
    case False
    then have "k < K" using \<open>k \<le> K\<close> by simp
    moreover have "t ! bnode K i \<noteq> TAG_NODE_LINK" using i(4) by (simp add: isNodeFree_def)
    ultimately have "t ! bnode k (i div 2 ^ (K - k)) = TAG_NODE_LINK"
      using cov_relative [OF t(1), of k K i] i(1,3) by simp
    then show False using k(3) up [OF \<open>k < K\<close>] by (simp add: isNodeFree_def)
  qed
qed

section \<open>The operations\<close>

definition bm_inv :: "nat \<Rightarrow> buddy_manager \<Rightarrow> bool" where
  "bm_inv m b \<longleftrightarrow> bm_nodeTreeDepth b = Suc m \<and> bm_numBuckets b = 2 ^ m
     \<and> bm_cov m (bm_nodeTree b) \<and> bm_coal m (bm_nodeTree b)"

text \<open>The blocks in use: first bucket and number of buckets.\<close>

definition node_block :: "nat \<Rightarrow> nat \<times> nat \<Rightarrow> nat \<times> nat" where
  "node_block m n = (snd n * 2 ^ (m - fst n), 2 ^ (m - fst n))"

definition bm_live :: "nat \<Rightarrow> buddy_manager \<Rightarrow> (nat \<times> nat) set" where
  "bm_live m b = node_block m ` bm_used m (bm_nodeTree b)"

lemma node_block_inj: "l \<le> m \<Longrightarrow> l' \<le> m \<Longrightarrow> node_block m (l, j) = node_block m (l', j') \<longleftrightarrow> l = l' \<and> j = j'"
  by (auto simp: node_block_def)

lemma node_block_bucket:
  "l \<le> m \<Longrightarrow> b \<in> {fst (node_block m (l, j))..<fst (node_block m (l, j)) + snd (node_block m (l, j))}
    \<longleftrightarrow> anc m l b = j"
proof -
  have p: "0 < (2 :: nat) ^ (m - l)" by simp
  have "b div 2 ^ (m - l) = j \<longleftrightarrow> j * 2 ^ (m - l) \<le> b \<and> b < (j + 1) * 2 ^ (m - l)"
    using p by (metis Suc_eq_plus1 div_nat_eqI dividend_less_div_times div_times_less_eq_dividend
        add.commute mult.commute mult_Suc)
  then show ?thesis by (auto simp: node_block_def anc_def)
qed

lemma bm_coal_use:
  assumes "length t = 2 ^ Suc m - 1" "l \<le> m" "j < 2 ^ l" "bm_coal_but m t l x" "j = x \<or> j = sib x"
  shows "bm_coal m (t[bnode l j := TAG_NODE_USED])"
  unfolding bm_coal_def bm_coal_but_def
proof (intro allI impI)
  let ?t = "t[bnode l j := TAG_NODE_USED]"
  fix k i assume a: "k \<le> m" "i < 2 ^ k" "0 < k \<and> isNodeFree ?t (bnode k i) \<and> isNodeFree ?t (bnode k (sib i))"
  have s: "sib i < 2 ^ k" using sib_less a(2,3) by blast
  have "isNodeFree t (bnode k i)" "isNodeFree t (bnode k (sib i))" "(k, i) \<noteq> (l, j)" "(k, sib i) \<noteq> (l, j)"
    using a(3) nth_bnode_update [OF assms(1-3) a(1,2)] nth_bnode_update [OF assms(1-3) a(1) s]
    by (auto simp: isNodeFree_def split: if_splits)
  moreover have "k = l \<and> (i = x \<or> i = sib x)"
    using assms(4) a calculation(1,2) unfolding bm_coal_but_def by blast
  ultimately show "k = 0 \<and> (i = 0 \<or> i = sib 0)" using assms(5) by (metis sib_simps(1))
qed

lemma bm_used_use:
  assumes "length t = 2 ^ Suc m - 1" "l \<le> m" "j < 2 ^ l"
  shows "bm_used m (t[bnode l j := TAG_NODE_USED]) = insert (l, j) (bm_used m t)"
proof -
  have "isNodeUsed (t[bnode l j := TAG_NODE_USED]) (bnode k i) \<longleftrightarrow> (k, i) = (l, j) \<or> isNodeUsed t (bnode k i)"
    if "k \<le> m" "i < 2 ^ k" for k i
    using nth_bnode_update [OF assms that] by (auto simp: isNodeUsed_def)
  then show ?thesis using assms(2,3) by (auto simp: bm_used_def)
qed

lemma bm_used_free:
  assumes "length t = 2 ^ Suc m - 1" "l \<le> m" "j < 2 ^ l"
  shows "bm_used m (t[bnode l j := TAG_NODE_FREE]) = bm_used m t - {(l, j)}"
proof -
  have "isNodeUsed (t[bnode l j := TAG_NODE_FREE]) (bnode k i) \<longleftrightarrow> (k, i) \<noteq> (l, j) \<and> isNodeUsed t (bnode k i)"
    if "k \<le> m" "i < 2 ^ k" for k i
    using nth_bnode_update [OF assms that] by (auto simp: isNodeUsed_def)
  then show ?thesis by (auto simp: bm_used_def)
qed

lemma findBucket_ok:
  assumes b: "bm_nodeTreeDepth b = Suc m" "bm_numBuckets b = 2 ^ m" "bm_cov m (bm_nodeTree b)" and l: "l \<le> m"
    and coal: "bm_coal_but m (bm_nodeTree b) l x"
      "\<And>i. i < 2 ^ l \<Longrightarrow> isNodeFree (bm_nodeTree b) (bnode l i) \<Longrightarrow> bm_coal m (bm_nodeTree b) \<or> i = x \<or> i = sib x"
  shows "findBucketInLevel l b = ((0, 0), b) \<and> (\<forall>j < 2 ^ l. \<not> isNodeFree (bm_nodeTree b) (bnode l j))
    \<or> (\<exists>j < 2 ^ l. isNodeFree (bm_nodeTree b) (bnode l j)
        \<and> fst (findBucketInLevel l b) = node_block m (l, j) \<and> bm_inv m (snd (findBucketInLevel l b))
        \<and> bm_live m (snd (findBucketInLevel l b)) = insert (node_block m (l, j)) (bm_live m b))"
proof -
  let ?t = "bm_nodeTree b" and ?s = "push_bit l 1 - 1 :: nat" and ?n = "push_bit l 1 :: nat"
  have len: "length ?t = 2 ^ Suc m - 1" using b(3) by (simp add: bm_cov_def)
  show ?thesis
  proof (cases "List.find (isNodeFree ?t) [?s..<?s + ?n]")
    case None
    then show ?thesis using find_level [OF refl refl, of l ?t] by (simp add: findBucketInLevel_def Let_def)
  next
    case (Some i)
    then obtain j where j: "j < 2 ^ l" "i = bnode l j" "isNodeFree ?t (bnode l j)"
      using find_level [OF refl refl, of l ?t] by auto
    have "i - ?s = j" by (simp add: j(2) bnode_def push_bit_eq_mult)
    moreover have "levelToBucketNum l b = 2 ^ (m - l)" by (simp add: levelToBucketNum_def b(1) push_bit_eq_mult)
    ultimately have r: "findBucketInLevel l b =
        (node_block m (l, j), b\<lparr>bm_nodeTree := ?t[bnode l j := TAG_NODE_USED]\<rparr>)"
      using Some by (simp add: findBucketInLevel_def Let_def node_block_def tagNodeUsed_def j(2))
    have "bm_cov m (?t[bnode l j := TAG_NODE_USED])"
      by (rule bm_cov_retag [OF b(3) l j(1)]) (use j(3) in \<open>simp_all add: isNodeFree_def\<close>)
    moreover have "bm_coal m (?t[bnode l j := TAG_NODE_USED])"
    proof (cases "bm_coal m ?t")
      case True
      then have "bm_coal_but m ?t l j" unfolding bm_coal_def bm_coal_but_def by blast
      then show ?thesis by (rule bm_coal_use [OF len l j(1)]) simp
    next
      case False
      then show ?thesis using bm_coal_use [OF len l j(1) coal(1)] coal(2) [OF j(1,3)] by blast
    qed
    ultimately show ?thesis using r b(1,2) j(1,3) bm_used_use [OF len l j(1)]
      by (intro disjI2 exI [of _ j]) (simp add: bm_inv_def bm_live_def)
  qed
qed

definition block_buckets :: "nat \<times> nat \<Rightarrow> nat set" where
  "block_buckets r = {fst r..<fst r + snd r}"

lemma in_node_block: "l \<le> m \<Longrightarrow> b \<in> block_buckets (node_block m (l, j)) \<longleftrightarrow> anc m l b = j"
  unfolding block_buckets_def by (rule node_block_bucket)

lemma bm_live_cases:
  assumes "r \<in> bm_live m b"
  obtains l j where "r = node_block m (l, j)" "l \<le> m" "j < 2 ^ l" "isNodeUsed (bm_nodeTree b) (bnode l j)"
  using assms by (auto simp: bm_live_def bm_used_def)

lemma bm_live_disjoint:
  assumes "bm_inv m b" "r \<in> bm_live m b" "r' \<in> bm_live m b" "r \<noteq> r'"
  shows "block_buckets r \<inter> block_buckets r' = {}"
proof -
  obtain l j where l: "r = node_block m (l, j)" "l \<le> m" "j < 2 ^ l" "isNodeUsed (bm_nodeTree b) (bnode l j)"
    using assms(2) by (rule bm_live_cases)
  obtain k i where k: "r' = node_block m (k, i)" "k \<le> m" "i < 2 ^ k" "isNodeUsed (bm_nodeTree b) (bnode k i)"
    using assms(3) by (rule bm_live_cases)
  have cov: "bm_cov m (bm_nodeTree b)" using assms(1) by (simp add: bm_inv_def)
  show ?thesis
  proof (rule ccontr)
    assume "\<not> ?thesis"
    then obtain x where x: "anc m l x = j" "anc m k x = i"
      using in_node_block l(1,2) k(1,2) by blast
    have "x div 2 ^ (m - l) < 2 ^ l" using x(1) l(3) by (simp add: anc_def)
    then have "x < 2 ^ l * 2 ^ (m - l)" by (simp add: div_less_iff_less_mult)
    then have "x < 2 ^ m" using l(2) by (simp add: power_add [symmetric])
    from cov_at_node [OF cov this l(2)] x(1) l(4)
    have "cov_at m (bm_nodeTree b) x l" by (simp add: isNodeUsed_def)
    from cov_atD [OF this k(2)] x(2) k(4) have "k = l" by (simp add: isNodeUsed_def)
    then show False using x l(1) k(1) assms(4) by simp
  qed
qed

lemma bm_live_range: "r \<in> bm_live m b \<Longrightarrow> block_buckets r \<subseteq> {..<2 ^ m} \<and> 0 < snd r"
proof -
  assume "r \<in> bm_live m b"
  then obtain l j where l: "r = node_block m (l, j)" "l \<le> m" "j < 2 ^ l" by (rule bm_live_cases)
  have "(j + 1) * 2 ^ (m - l) \<le> 2 ^ l * 2 ^ (m - l)" using l(3) by (intro mult_right_mono) simp_all
  also have "\<dots> = 2 ^ m" using l(2) by (simp add: power_add [symmetric])
  finally show ?thesis by (auto simp: block_buckets_def node_block_def l(1))
qed

lemma bm_no_room:
  assumes "bm_inv m b" "l \<le> m" "j < 2 ^ l" "\<forall>k \<le> l. \<forall>i < 2 ^ k. \<not> isNodeFree (bm_nodeTree b) (bnode k i)"
  shows "\<exists>r \<in> bm_live m b. block_buckets r \<inter> block_buckets (node_block m (l, j)) \<noteq> {}"
proof -
  have inv: "bm_cov m (bm_nodeTree b)" "bm_coal m (bm_nodeTree b)" using assms(1) by (simp_all add: bm_inv_def)
  have "j div 2 ^ (l - k) < 2 ^ k" if "k \<le> l" for k
  proof -
    have "(2 :: nat) ^ l = 2 ^ k * 2 ^ (l - k)" using that by (simp add: power_add [symmetric])
    then show ?thesis using assms(3) by (simp add: less_mult_imp_div_less)
  qed
  then have "\<not> (\<exists>k \<le> l. isNodeFree (bm_nodeTree b) (bnode k (j div 2 ^ (l - k))))" using assms(4) by blast
  then obtain x k where x: "x < 2 ^ m" "anc m l x = j" "k \<le> m" "isNodeUsed (bm_nodeTree b) (bnode k (anc m k x))"
    using free_block [OF inv assms(2,3)] by blast
  have "node_block m (k, anc m k x) \<in> bm_live m b"
    using x anc_less [OF x(1,3)] by (auto simp: bm_live_def bm_used_def)
  moreover have "x \<in> block_buckets (node_block m (k, anc m k x)) \<inter> block_buckets (node_block m (l, j))"
    using x in_node_block assms(2) by simp
  ultimately show ?thesis by blast
qed

lemma acquire_level:
  assumes "n \<le> 2 ^ m" "n' = (if n = 0 then 1 else n)" "e = fastLog2 (push_bit 1 n' - 1)"
  shows "e \<le> m" "n' \<le> 2 ^ e" "2 ^ e < 2 * n'" "Suc m - e - 1 = m - e"
proof -
  have n: "0 < n'" "n' \<le> 2 ^ m" using assms(1,2) by auto
  have e: "2 ^ e \<le> n' * 2 - 1" "n' * 2 - 1 < 2 ^ Suc e"
    using fastLog2_bounds [of "push_bit 1 n' - 1"] n(1) assms(3) by (simp_all add: push_bit_eq_mult)
  show b: "n' \<le> 2 ^ e" "2 ^ e < 2 * n'" using double_minus_one_bounds [OF n(1) e] .
  have "(2 :: nat) ^ e < 2 ^ Suc m" using b(2) n(2) by simp
  then have "e < Suc m" by (rule power_less_imp_less_exp [rotated]) simp
  then show "e \<le> m" "Suc m - e - 1 = m - e" by simp_all
qed

lemma node_block_valid: "isValid (node_block m (l, j))"
  by (simp add: isValid_def node_block_def)

text \<open>
  Acquiring gives a fresh block of the smallest power of two that is large enough, or fails
  and changes nothing when every aligned block of this size meets one in use.
\<close>

lemma acquire_ok:
  assumes inv: "bm_inv m b" and n: "n \<le> 2 ^ m" "n' = (if n = 0 then 1 else n)"
    "e = fastLog2 (push_bit 1 n' - 1)"
  shows "(\<exists>j < 2 ^ (m - e). fst (acquireMemory n b) = node_block m (m - e, j)
      \<and> node_block m (m - e, j) \<notin> bm_live m b \<and> bm_inv m (snd (acquireMemory n b))
      \<and> bm_live m (snd (acquireMemory n b)) = insert (node_block m (m - e, j)) (bm_live m b))
    \<or> acquireMemory n b = ((0, 0), b) \<and> (\<forall>j < 2 ^ (m - e). \<exists>r \<in> bm_live m b.
        block_buckets r \<inter> block_buckets (node_block m (m - e, j)) \<noteq> {})"
proof -
  let ?l = "m - e" and ?t = "bm_nodeTree b"
  note b = inv [unfolded bm_inv_def]
  have l: "?l \<le> m" by simp
  have lev: "bm_nodeTreeDepth b - fastLog2 (push_bit 1 n' - 1) - 1 = ?l"
    using acquire_level(4) [OF n] b n(3) by simp
  have n0: "\<not> n > bm_numBuckets b" using b n(1) by simp
  have fresh: "node_block m (?l, j) \<notin> bm_live m c" if "isNodeFree (bm_nodeTree c) (bnode ?l j)" for c j
    using that by (auto simp: bm_live_def bm_used_def isNodeFree_def isNodeUsed_def node_block_inj)
  have acq: "acquireMemory n b =
    (if isValid (fst (findBucketInLevel ?l b)) then findBucketInLevel ?l b
     else if ?l = 0 then ((0, 0), snd (findBucketInLevel ?l b))
     else findBucketInLevel ?l (tryToSplitParentLevel ?l (snd (findBucketInLevel ?l b))))"
    unfolding acquireMemory_def Let_def n(2) [symmetric] lev using n0
    by (cases "findBucketInLevel ?l b") (auto simp: Let_def)
  have coal0: "bm_coal_but m ?t ?l 0" using b by (auto simp: bm_coal_def bm_coal_but_def)
  from findBucket_ok [of b m, OF _ _ _ l coal0] b
  consider (found) j where "j < 2 ^ ?l" "isNodeFree ?t (bnode ?l j)"
      "fst (findBucketInLevel ?l b) = node_block m (?l, j)" "bm_inv m (snd (findBucketInLevel ?l b))"
      "bm_live m (snd (findBucketInLevel ?l b)) = insert (node_block m (?l, j)) (bm_live m b)"
    | (none) "findBucketInLevel ?l b = ((0, 0), b)" "\<forall>j < 2 ^ ?l. \<not> isNodeFree ?t (bnode ?l j)"
    by blast
  then show ?thesis
  proof cases
    case found
    then show ?thesis using fresh [OF found(2)] node_block_valid by (intro disjI1 exI [of _ j]) (simp add: acq)
  next
    case none
    have inval: "\<not> isValid (0, 0)" by (simp add: isValid_def)
    show ?thesis
    proof (cases "?l = 0")
      case True
      then have "\<forall>k \<le> ?l. \<forall>i < 2 ^ k. \<not> isNodeFree ?t (bnode k i)" using none(2) by auto
      then show ?thesis using bm_no_room [OF inv l] none(1) True inval by (simp add: acq)
    next
      case False
      let ?b = "tryToSplitParentLevel ?l b"
      have a: "acquireMemory n b = findBucketInLevel ?l ?b" using none(1) inval False by (simp add: acq)
      have bt: "?b = b\<lparr>bm_nodeTree := splitParent_loop ?l (?l - 1) ?t\<rparr>" by (simp add: tryToSplitParentLevel_def)
      have "?l - 1 < ?l" using False by simp
      from splitParent_ok [OF this l _ _ none(2) refl] b
      consider (same) "splitParent_loop ?l (?l - 1) ?t = ?t" "\<forall>k \<le> ?l - 1. \<forall>j < 2 ^ k. \<not> isNodeFree ?t (bnode k j)"
        | (split) x where "bm_cov m (bm_nodeTree ?b)" "bm_used m (bm_nodeTree ?b) = bm_used m ?t" "x < 2 ^ ?l"
          "isNodeFree (bm_nodeTree ?b) (bnode ?l x)" "bm_coal_but m (bm_nodeTree ?b) ?l x"
          "\<And>i. i < 2 ^ ?l \<Longrightarrow> isNodeFree (bm_nodeTree ?b) (bnode ?l i) \<Longrightarrow> i = x \<or> i = sib x"
        by (auto simp: bt)
      then show ?thesis
      proof cases
        case same
        then have "?b = b" by (simp add: bt)
        moreover have "\<not> isNodeFree ?t (bnode k i)" if "k \<le> ?l" "i < 2 ^ k" for k i
          using same(2) none(2) that False by (cases "k = ?l") auto
        ultimately show ?thesis using bm_no_room [OF inv l] none(1) a by simp
      next
        case split
        have "bm_nodeTreeDepth ?b = Suc m" "bm_numBuckets ?b = 2 ^ m" using b by (simp_all add: bt)
        from findBucket_ok [OF this split(1) l split(5)] split(3,4,6)
        obtain j where j: "j < 2 ^ ?l" "isNodeFree (bm_nodeTree ?b) (bnode ?l j)"
            "fst (findBucketInLevel ?l ?b) = node_block m (?l, j)" "bm_inv m (snd (findBucketInLevel ?l ?b))"
            "bm_live m (snd (findBucketInLevel ?l ?b)) = insert (node_block m (?l, j)) (bm_live m ?b)"
          by blast
        moreover have "bm_live m ?b = bm_live m b" using split(2) by (simp add: bm_live_def)
        ultimately show ?thesis using fresh [OF j(2)] a by (intro disjI1 exI [of _ j]) simp
      qed
    qed
  qed
qed

lemma and_mask_dvd: "i AND (2 ^ k - 1) = 0 \<longleftrightarrow> 2 ^ k dvd (i :: nat)"
  unfolding mask_eq_exp_minus_1 [symmetric] take_bit_eq_mask [symmetric] by (rule take_bit_eq_0_iff)

lemma bm_coalD:
  "bm_coal m t \<Longrightarrow> k \<le> m \<Longrightarrow> i < 2 ^ k \<Longrightarrow> 0 < k \<Longrightarrow> isNodeFree t (bnode k i) \<Longrightarrow>
    isNodeFree t (bnode k (sib i)) \<Longrightarrow> False"
  by (auto simp: bm_coal_def bm_coal_but_def)

lemma freeing_ok:
  assumes inv: "bm_inv m b" and l: "l \<le> m" "j < 2 ^ l" "isNodeUsed (bm_nodeTree b) (bnode l j)"
    and b': "b' = b\<lparr>bm_nodeTree := freeNode (bnode l j) (bm_nodeTree b)\<rparr>"
  shows "bm_inv m b'" and "bm_live m b' = bm_live m b - {node_block m (l, j)}"
proof -
  let ?t = "bm_nodeTree b" and ?tf = "(bm_nodeTree b)[bnode l j := TAG_NODE_FREE]"
  note b = inv [unfolded bm_inv_def]
  have len: "length ?t = 2 ^ Suc m - 1" using b by (simp add: bm_cov_def)
  have cov: "bm_cov m ?tf"
    by (rule bm_cov_retag) (use b l in \<open>simp_all add: isNodeUsed_def\<close>)
  have "bm_coal_but m ?tf l j"
    unfolding bm_coal_but_def
  proof (intro allI impI)
    fix k i assume a: "k \<le> m" "i < 2 ^ k" "0 < k \<and> isNodeFree ?tf (bnode k i) \<and> isNodeFree ?tf (bnode k (sib i))"
    have s: "sib i < 2 ^ k" using sib_less a(2,3) by blast
    show "k = l \<and> (i = j \<or> i = sib j)"
    proof (rule ccontr)
      assume n: "\<not> ?thesis"
      then have "(k, i) \<noteq> (l, j)" by blast
      then have e1: "?tf ! bnode k i = ?t ! bnode k i"
        using nth_bnode_update [OF len l(1,2) a(1,2), of TAG_NODE_FREE] by auto
      have "\<not> (k = l \<and> sib i = j)" using n sib_simps(1) [of i] by auto
      then have "?tf ! bnode k (sib i) = ?t ! bnode k (sib i)"
        using nth_bnode_update [OF len l(1,2) a(1) s, of TAG_NODE_FREE] by auto
      then have "isNodeFree ?t (bnode k i)" "isNodeFree ?t (bnode k (sib i))"
        using a(3) e1 by (simp_all only: isNodeFree_def)
      then show False using bm_coalD b a by blast
    qed
  qed
  from freeNode_ok [OF l(1,2) cov this]
  have f: "bm_cov m (freeNode (bnode l j) ?t)" "bm_coal m (freeNode (bnode l j) ?t)"
      "bm_used m (freeNode (bnode l j) ?t) = bm_used m ?t - {(l, j)}"
    using bm_used_free [OF len l(1,2)] by auto
  show "bm_inv m b'" using f b by (simp add: bm_inv_def b')
  have "node_block m ` (bm_used m ?t - {(l, j)}) = node_block m ` bm_used m ?t - {node_block m (l, j)}"
    using l(1) node_block_inj by (auto simp: bm_used_def)
  then show "bm_live m b' = bm_live m b - {node_block m (l, j)}" by (simp add: bm_live_def b' f(3))
qed

definition starts_at :: "nat \<Rightarrow> buddy_manager \<Rightarrow> nat \<Rightarrow> nat \<Rightarrow> bool" where
  "starts_at m b i l \<longleftrightarrow> 2 ^ (m - l) dvd i \<and> i < 2 ^ m \<and> isNodeUsed (bm_nodeTree b) (bnode l (i div 2 ^ (m - l)))"

lemma level_of_bucket: "l \<le> m \<Longrightarrow> i div 2 ^ (m - l) < 2 ^ l \<longleftrightarrow> i < (2 :: nat) ^ m"
  by (simp add: div_less_iff_less_mult power_add [symmetric])

lemma release_loop_ok:
  "bm_nodeTreeDepth b = Suc m \<Longrightarrow> level + levels = Suc m \<Longrightarrow> (levels > 0 \<Longrightarrow> nb = 2 ^ (m - level)) \<Longrightarrow> nn = 2 ^ level \<Longrightarrow>
    (\<exists>l \<le> m. level \<le> l \<and> starts_at m b i l \<and> release_loop i level levels nb nn b
        = (2 ^ (m - l), b\<lparr>bm_nodeTree := freeNode (bnode l (i div 2 ^ (m - l))) (bm_nodeTree b)\<rparr>))
    \<or> release_loop i level levels nb nn b = (0, b) \<and> (\<forall>l \<le> m. level \<le> l \<longrightarrow> \<not> starts_at m b i l)"
proof (induction levels arbitrary: level nb nn)
  case (Suc n)
  have lm: "level \<le> m" and nb: "nb = 2 ^ (m - level)" using Suc.prems by auto
  let ?i = "nn - 1 + drop_bit (bm_nodeTreeDepth b - level - 1) i"
  have i: "?i = bnode level (i div 2 ^ (m - level))"
    using Suc.prems(1,4) by (simp add: bnode_def drop_bit_eq_div)
  have range: "nn - 1 + nn \<le> ?i \<longleftrightarrow> \<not> i < 2 ^ m"
  proof -
    have "nn - 1 + nn \<le> ?i \<longleftrightarrow> nn \<le> i div 2 ^ (m - level)" unfolding i unfolding bnode_def Suc.prems(4) by (rule add_le_cancel_left)
    then show ?thesis using level_of_bucket [OF lm, of i] Suc.prems(4) by auto
  qed
  have al: "i AND (nb - 1) = 0 \<longleftrightarrow> 2 ^ (m - level) dvd i" unfolding nb by (rule and_mask_dvd)
  have step: "release_loop i level (Suc n) nb nn b =
    (if 2 ^ (m - level) dvd i \<and> \<not> i < 2 ^ m then (0, b)
     else if 2 ^ (m - level) dvd i \<and> isNodeUsed (bm_nodeTree b) (bnode level (i div 2 ^ (m - level)))
     then (2 ^ (m - level), b\<lparr>bm_nodeTree := freeNode (bnode level (i div 2 ^ (m - level))) (bm_nodeTree b)\<rparr>)
     else release_loop i (level + 1) n (drop_bit 1 nb) (push_bit 1 nn) b)"
    unfolding release_loop.simps Let_def al range unfolding i nb ..
  consider (out) "\<not> i < 2 ^ m" "2 ^ (m - level) dvd i" | (here) "starts_at m b i level"
    | (on) "\<not> starts_at m b i level" "\<not> (2 ^ (m - level) dvd i \<and> \<not> i < 2 ^ m)" by blast
  then show ?case
  proof cases
    case out
    then show ?thesis using step by (simp add: starts_at_def)
  next
    case here
    then show ?thesis using step lm by (intro disjI1 exI [of _ level]) (simp add: starts_at_def)
  next
    case on
    have "release_loop i level (Suc n) nb nn b = release_loop i (Suc level) n (drop_bit 1 nb) (push_bit 1 nn) b"
      using on step by (auto simp: starts_at_def)
    moreover have "n > 0 \<Longrightarrow> drop_bit 1 nb = 2 ^ (m - Suc level)"
    proof -
      assume "n > 0"
      then have "m - level = Suc (m - Suc level)" using Suc.prems(2) by simp
      then show ?thesis by (simp add: nb drop_bit_eq_div)
    qed
    moreover have "push_bit 1 nn = 2 ^ Suc level" using Suc.prems(4) by (simp add: push_bit_eq_mult)
    moreover have "Suc level + n = Suc m" using Suc.prems(2) by simp
    ultimately show ?thesis using Suc.IH [of "Suc level" "drop_bit 1 nb" "push_bit 1 nn"] Suc.prems(1) on(1)
      by (metis Suc_leD le_antisym not_less_eq_eq)
  qed
qed auto

lemma starts_at_live:
  assumes "l \<le> m"
  shows "starts_at m b i l \<Longrightarrow> (i, 2 ^ (m - l)) = node_block m (l, i div 2 ^ (m - l))"
    and "starts_at m b i l \<Longrightarrow> (i, 2 ^ (m - l)) \<in> bm_live m b"
proof -
  assume s: "starts_at m b i l"
  then show e: "(i, 2 ^ (m - l)) = node_block m (l, i div 2 ^ (m - l))"
    by (simp add: starts_at_def node_block_def)
  show "(i, 2 ^ (m - l)) \<in> bm_live m b"
    using s assms level_of_bucket [OF assms, of i] unfolding e bm_live_def
    by (intro imageI) (simp add: starts_at_def bm_used_def)
qed

lemma live_starts_at: "(i, s) \<in> bm_live m b \<Longrightarrow> \<exists>l \<le> m. s = 2 ^ (m - l) \<and> starts_at m b i l"
proof -
  assume "(i, s) \<in> bm_live m b"
  then obtain l j where l: "(i, s) = node_block m (l, j)" "l \<le> m" "j < 2 ^ l" "isNodeUsed (bm_nodeTree b) (bnode l j)"
    by (rule bm_live_cases)
  then have "i = j * 2 ^ (m - l)" "s = 2 ^ (m - l)" by (simp_all add: node_block_def)
  then show ?thesis using l(2-4) anc_bucket [OF l(2,3)] by (intro exI [of _ l]) (simp add: starts_at_def anc_def)
qed

text \<open>Releasing frees exactly the block that starts at the bucket, or changes nothing.\<close>

lemma release_ok:
  assumes inv: "bm_inv m b"
  shows "(\<exists>s. (i, s) \<in> bm_live m b \<and> fst (releaseMemoryExtended i b) = s \<and> 0 < s
      \<and> bm_inv m (snd (releaseMemoryExtended i b))
      \<and> bm_live m (snd (releaseMemoryExtended i b)) = bm_live m b - {(i, s)})
    \<or> releaseMemoryExtended i b = (0, b) \<and> (\<forall>s. (i, s) \<notin> bm_live m b)"
proof -
  have d: "bm_nodeTreeDepth b = Suc m" "bm_numBuckets b = 2 ^ m" using inv by (simp_all add: bm_inv_def)
  have r: "releaseMemoryExtended i b = release_loop i 0 (Suc m) (2 ^ m) 1 b"
    by (simp only: releaseMemoryExtended_def d)
  have "(\<exists>l \<le> m. 0 \<le> l \<and> starts_at m b i l \<and> release_loop i 0 (Suc m) (2 ^ m) 1 b
        = (2 ^ (m - l), b\<lparr>bm_nodeTree := freeNode (bnode l (i div 2 ^ (m - l))) (bm_nodeTree b)\<rparr>))
    \<or> release_loop i 0 (Suc m) (2 ^ m) 1 b = (0, b) \<and> (\<forall>l \<le> m. 0 \<le> l \<longrightarrow> \<not> starts_at m b i l)"
    by (rule release_loop_ok [OF d(1)]) simp_all
  then consider (freed) l where "l \<le> m" "starts_at m b i l"
      "releaseMemoryExtended i b = (2 ^ (m - l), b\<lparr>bm_nodeTree := freeNode (bnode l (i div 2 ^ (m - l))) (bm_nodeTree b)\<rparr>)"
    | (no) "releaseMemoryExtended i b = (0, b)" "\<forall>l \<le> m. \<not> starts_at m b i l"
    unfolding r by blast
  then show ?thesis
  proof cases
    case freed
    have "i div 2 ^ (m - l) < 2 ^ l" using freed(1,2) level_of_bucket by (simp add: starts_at_def)
    from freeing_ok [OF inv freed(1) this _ refl] freed(2)
    have "bm_inv m (snd (releaseMemoryExtended i b))"
      "bm_live m (snd (releaseMemoryExtended i b)) = bm_live m b - {(i, 2 ^ (m - l))}"
      unfolding freed(3) starts_at_live(1) [OF freed(1,2)] by (simp_all add: starts_at_def)
    then show ?thesis using starts_at_live(2) [OF freed(1,2)] freed(3)
      by (intro disjI1 exI [of _ "2 ^ (m - l)"]) simp
  next
    case no
    then show ?thesis using live_starts_at by blast
  qed
qed

section \<open>The empty manager\<close>

lemma isEmpty_iff:
  assumes inv: "bm_inv m b" shows "isEmpty b \<longleftrightarrow> bm_live m b = {}"
proof -
  let ?t = "bm_nodeTree b"
  have c: "bm_cov m ?t" "bm_coal m ?t" using inv by (simp_all add: bm_inv_def)
  have len: "length ?t = 2 ^ Suc m - 1" using c(1) by (simp add: bm_cov_def)
  have link: "?t ! bnode l j = TAG_NODE_LINK" if "?t ! bnode 0 0 \<noteq> TAG_NODE_LINK" "0 < l" "l \<le> m" "j < 2 ^ l" for l j
    using cov_relative [OF c(1), of 0 l j] that by fastforce
  show ?thesis
  proof
    assume e: "isEmpty b"
    have "\<not> isNodeUsed ?t (bnode l j)" if "l \<le> m" "j < 2 ^ l" for l j
    proof (cases "l = 0")
      case True
      then show ?thesis using e that by (simp add: isEmpty_def isNodeUsed_def)
    next
      case False
      then show ?thesis using link [of l j] e that by (simp add: isEmpty_def isNodeUsed_def)
    qed
    then show "bm_live m b = {}" by (auto simp: bm_live_def bm_used_def)
  next
    assume n: "bm_live m b = {}"
    then have "\<not> isNodeUsed ?t (bnode k (anc m k x))" if "x < 2 ^ m" "k \<le> m" for x k
      using that anc_less by (auto simp: bm_live_def bm_used_def)
    then have "\<exists>k \<le> 0. isNodeFree ?t (bnode k (0 div 2 ^ (0 - k)))" by (intro free_block [OF c]) auto
    then have f: "isNodeFree ?t (bnode 0 0)" by simp
    have "?t ! i = TAG_NODE_LINK" if i: "0 < i" "i < length ?t" for i
    proof -
      obtain l j where l: "i = bnode l j" "l \<le> m" "j < 2 ^ l" using bnode_cases i(2) len by metis
      then have "0 < l" using i(1) by (cases l) auto
      then show ?thesis using link f l by (simp add: isNodeFree_def)
    qed
    then show "isEmpty b" using f by (simp add: isEmpty_def isNodeFree_def list_all_iff)
  qed
qed

lemma bm_new_inv:
  assumes "length t = 2 ^ Suc m - 1"
  shows "bm_inv m (bm_new t)" and "bm_live m (bm_new t) = {}" and "bm_clear (bm_new t) = bm_new t"
proof -
  have d: "fastLog2 (length t + 1) = Suc m" by (rule fastLog2_eq) (use assms in simp_all)
  define s where "s = (replicate (length t) TAG_NODE_LINK)[0 := TAG_NODE_FREE]"
  have b: "bm_new t = \<lparr>bm_nodeTree = s, bm_nodeTreeDepth = Suc m, bm_numBuckets = 2 ^ m\<rparr>"
    unfolding bm_new_def d Let_def bm_clear_def clearNodeTree_def by (simp add: s_def push_bit_eq_mult)
  have len: "length s = 2 ^ Suc m - 1" by (simp add: s_def assms)
  have nth: "s ! bnode l j = (if l = 0 then TAG_NODE_FREE else TAG_NODE_LINK)" if "l \<le> m" "j < 2 ^ l" for l j
  proof -
    have "bnode l j < length t" using bnode_less that assms by simp
    moreover have "bnode l j = 0 \<longleftrightarrow> l = 0" using bnode_inj [OF that(2), of 0 0] that(2) by auto
    ultimately show ?thesis by (cases "l = 0") (simp_all add: s_def nth_list_update)
  qed
  have "cov_at m s x 0" if "x < 2 ^ m" for x
    using nth anc_less [OF that] by (simp add: cov_at_def)
  moreover have "set s \<subseteq> {TAG_NODE_FREE, TAG_NODE_LINK, TAG_NODE_USED}"
    unfolding s_def by (rule set_update_tags) auto
  ultimately have "bm_cov m s" using len by (auto simp: bm_cov_def)
  moreover have "bm_coal m s"
    using nth by (auto simp: bm_coal_def bm_coal_but_def isNodeFree_def)
  ultimately show "bm_inv m (bm_new t)" by (simp add: bm_inv_def b)
  show "bm_live m (bm_new t) = {}" using nth by (auto simp: b bm_live_def bm_used_def isNodeUsed_def)
  show "bm_clear (bm_new t) = bm_new t"
    by (simp add: b bm_clear_def clearNodeTree_def s_def)
qed

lemma declare_inv:
  assumes "0 < n"
  shows "\<exists>m. bm_inv m (declare_BuddyMemoryManager n) \<and> bm_live m (declare_BuddyMemoryManager n) = {}
    \<and> n \<le> 2 ^ m \<and> 2 ^ m < 2 * n \<and> RoundToNextPowerOf2 n = 2 ^ m"
proof -
  let ?m = "Log2 (n * 2 - 1)"
  have l: "2 ^ ?m \<le> n * 2 - 1" "n * 2 - 1 < 2 ^ Suc ?m" using Log2_bounds [of "n * 2 - 1"] assms by auto
  note m = double_minus_one_bounds [OF assms l]
  have "RoundToNextPowerOf2 n = 2 ^ ?m" by (simp add: RoundToNextPowerOf2_def push_bit_eq_mult)
  moreover from this have "length (replicate (RoundToNextPowerOf2 n * 2 - 1) (0 :: u8)) = 2 ^ Suc ?m - 1" by simp
  from bm_new_inv [OF this] have "bm_inv ?m (declare_BuddyMemoryManager n)"
      "bm_live ?m (declare_BuddyMemoryManager n) = {}" by (simp_all add: declare_BuddyMemoryManager_def)
  ultimately show ?thesis using m by blast
qed

end
