(* ===== verification/BuddyMemoryProps.thy ===== *)
theory BuddyMemoryProps imports BuddyMemoryCorrect begin

text \<open>
  The properties of the buddy memory manager, over runs of a client that keeps the list of the
  blocks it holds: what it acquired and has not released.
\<close>

datatype buddy_call = Acquire nat | Release nat

fun buddy_step :: "buddy_call \<Rightarrow> buddy_manager \<times> (nat \<times> nat) list \<Rightarrow> buddy_manager \<times> (nat \<times> nat) list" where
  "buddy_step (Acquire n) (b, held) =
     (let (r, b) = acquireMemory n b in (b, if isValid r then r # held else held))"
| "buddy_step (Release i) (b, held) =
     (let (n, b) = releaseMemoryExtended i b in (b, if n = 0 then held else removeAll (i, n) held))"

definition buddy_run :: "nat \<Rightarrow> buddy_call list \<Rightarrow> buddy_manager \<times> (nat \<times> nat) list" where
  "buddy_run n calls = fold buddy_step calls (declare_BuddyMemoryManager n, [])"

definition holds :: "nat \<Rightarrow> buddy_manager \<times> (nat \<times> nat) list \<Rightarrow> bool" where
  "holds m s \<longleftrightarrow> bm_inv m (fst s) \<and> bm_live m (fst s) = set (snd s) \<and> distinct (snd s)"

lemma acquire_too_much: "bm_inv m b \<Longrightarrow> 2 ^ m < n \<Longrightarrow> acquireMemory n b = ((0, 0), b)"
  by (simp add: acquireMemory_def bm_inv_def)

lemma holds_step: "holds m s \<Longrightarrow> holds m (buddy_step call s)"
proof -
  assume h: "holds m s"
  obtain b held where s: "s = (b, held)" by (cases s)
  have inv: "bm_inv m b" "bm_live m b = set held" "distinct held" using h by (simp_all add: holds_def s)
  show ?thesis
  proof (cases call)
    case (Release i)
    from release_ok [OF inv(1), of i] show ?thesis
      using inv Release by (auto simp: holds_def s case_prod_unfold Let_def distinct_removeAll)
  next
    case (Acquire n)
    show ?thesis
    proof (cases "n \<le> 2 ^ m")
      case True
      from acquire_ok [OF inv(1) True refl refl] show ?thesis
      proof (elim disjE exE conjE)
        fix j assume "fst (acquireMemory n b) = node_block m j"
          and "node_block m j \<notin> bm_live m b" "bm_inv m (snd (acquireMemory n b))"
          "bm_live m (snd (acquireMemory n b)) = insert (node_block m j) (bm_live m b)"
        moreover have "isValid (node_block m j)" using node_block_valid by (metis surj_pair)
        ultimately show ?thesis using inv Acquire by (simp add: holds_def s case_prod_unfold Let_def)
      qed (use inv Acquire in \<open>simp add: holds_def s isValid_def\<close>)
    qed (use inv Acquire acquire_too_much [OF inv(1)] in \<open>auto simp: holds_def s isValid_def\<close>)
  qed
qed

lemma holds_run:
  assumes "0 < n"
  obtains m where "holds m (buddy_run n calls)" "n \<le> 2 ^ m" "RoundToNextPowerOf2 n = 2 ^ m"
proof -
  obtain m where m: "bm_inv m (declare_BuddyMemoryManager n)" "bm_live m (declare_BuddyMemoryManager n) = {}"
      "n \<le> 2 ^ m" "RoundToNextPowerOf2 n = 2 ^ m" using declare_inv [OF assms] by blast
  have "holds m (fold buddy_step calls s)" if "holds m s" for s
    using that by (induction calls arbitrary: s) (auto simp: holds_step)
  then have "holds m (buddy_run n calls)" using m(1,2) by (simp add: buddy_run_def holds_def)
  then show thesis using that m(3,4) by blast
qed

text \<open>C11: After every sequence of acquire and release calls the blocks a client holds lie inside
  the managed buckets and no bucket belongs to two of them; the manager has at least the number
  of buckets asked for.\<close>

theorem buddy_blocks_are_disjoint:
  assumes "0 < n"
  shows "let (b, held) = buddy_run n calls
    in n \<le> bm_numBuckets b
       \<and> (\<forall>r \<in> set held. 0 < snd r \<and> fst r + snd r \<le> bm_numBuckets b)
       \<and> distinct held
       \<and> (\<forall>r \<in> set held. \<forall>r' \<in> set held. r \<noteq> r' \<longrightarrow> fst r + snd r \<le> fst r' \<or> fst r' + snd r' \<le> fst r)"
proof -
  obtain b held where r: "buddy_run n calls = (b, held)" by (cases "buddy_run n calls")
  obtain m where m: "bm_inv m b" "bm_live m b = set held" "distinct held" "n \<le> 2 ^ m"
    using holds_run [OF assms, of calls] by (auto simp: holds_def r)
  have nb: "bm_numBuckets b = 2 ^ m" using m(1) by (simp add: bm_inv_def)
  have range: "0 < snd r \<and> fst r + snd r \<le> 2 ^ m" if "r \<in> set held" for r
  proof -
    have "block_buckets r \<subseteq> {..<2 ^ m}" "0 < snd r" using bm_live_range that m(2) by blast+
    moreover from this(2) have "fst r + snd r - 1 \<in> block_buckets r" by (auto simp: block_buckets_def)
    ultimately have "fst r + snd r - 1 < 2 ^ m" by blast
    then show ?thesis using \<open>0 < snd r\<close> by auto
  qed
  have disj: "fst r + snd r \<le> fst r' \<or> fst r' + snd r' \<le> fst r"
    if "r \<in> set held" "r' \<in> set held" "r \<noteq> r'" for r r'
  proof (rule ccontr)
    assume "\<not> ?thesis"
    then have "max (fst r) (fst r') \<in> block_buckets r \<inter> block_buckets r'"
      using range [OF that(1)] range [OF that(2)] by (auto simp: block_buckets_def)
    then show False using bm_live_disjoint [OF m(1)] that m(2) by blast
  qed
  show ?thesis using range disj m(3,4) nb by (simp add: r)
qed

lemma buddy_blocks_are_disjoint_witness:
  "let (b, held) = buddy_run 6 [Acquire 1, Acquire 2, Release 0, Acquire 3, Acquire 1]
   in 6 \<le> bm_numBuckets b \<and> held = [(0, 1), (4, 4), (2, 2)] \<and> distinct held"
proof -
  have "snd (buddy_run 6 [Acquire 1, Acquire 2, Release 0, Acquire 3, Acquire 1]) = [(0, 1), (4, 4), (2, 2)]"
    by code_simp
  then show ?thesis
    using buddy_blocks_are_disjoint [of 6 "[Acquire 1, Acquire 2, Release 0, Acquire 3, Acquire 1]"]
    by (simp add: case_prod_unfold Let_def del: One_nat_def)
qed

lemma round_level:
  assumes "0 < k" "e = fastLog2 (push_bit 1 k - 1)"
  shows "RoundToNextPowerOf2 k = 2 ^ e"
proof -
  have v: "0 < k * 2 - 1" "push_bit 1 k - 1 = k * 2 - 1" using assms(1) by (simp_all add: push_bit_eq_mult)
  have "Log2 (k * 2 - 1) = e"
    using Log2_bounds [OF v(1)] fastLog2_bounds [OF v(1)] assms(2) v(2)
    by (intro floor_log2_unique [of _ "k * 2 - 1"]) auto
  then show ?thesis by (simp add: RoundToNextPowerOf2_def push_bit_eq_mult)
qed

text \<open>A place for a block: aligned to its size, inside the memory, away from all blocks held.\<close>

definition place :: "nat \<Rightarrow> (nat \<times> nat) list \<Rightarrow> nat \<Rightarrow> nat \<Rightarrow> bool" where
  "place tot held sz i \<longleftrightarrow> sz dvd i \<and> i + sz \<le> tot
     \<and> list_all (\<lambda>r. fst r + snd r \<le> i \<or> i + sz \<le> fst r) held"

lemma place_iff_free:
  assumes inv: "bm_inv m b" "bm_live m b = set held" and l: "l \<le> m"
  shows "place (2 ^ m) held (2 ^ (m - l)) i \<longleftrightarrow>
    (\<exists>j < 2 ^ l. i = fst (node_block m (l, j))
      \<and> (\<forall>r \<in> bm_live m b. block_buckets r \<inter> block_buckets (node_block m (l, j)) = {}))"
proof -
  let ?s = "2 ^ (m - l) :: nat"
  have m: "2 ^ m = 2 ^ l * ?s" using l by (simp add: power_add [symmetric])
  have disj: "(fst r + snd r \<le> i \<or> i + ?s \<le> fst r) \<longleftrightarrow> block_buckets r \<inter> block_buckets (i, ?s) = {}"
    if "r \<in> set held" for r
  proof -
    have pos: "0 < snd r" "0 < ?s" using bm_live_range [of r m b] that inv(2) by simp_all
    show ?thesis
    proof (cases "fst r + snd r \<le> i \<or> i + ?s \<le> fst r")
      case True
      then show ?thesis by (auto simp: block_buckets_def)
    next
      case False
      then have "max (fst r) i \<in> block_buckets r \<inter> block_buckets (i, ?s)"
        using pos by (simp add: block_buckets_def not_le max_def)
      then show ?thesis using False by blast
    qed
  qed
  have "?s dvd i \<and> i + ?s \<le> 2 ^ m \<longleftrightarrow> (\<exists>j < 2 ^ l. i = j * ?s)"
  proof
    assume a: "?s dvd i \<and> i + ?s \<le> 2 ^ m"
    then obtain j where j: "i = j * ?s" by (metis dvd_div_mult_self)
    then have "(j + 1) * ?s \<le> 2 ^ l * ?s" using a m by simp
    then have "Suc j \<le> 2 ^ l" by (subst (asm) mult_le_cancel2) simp
    then have "j < 2 ^ l" by simp
    then show "\<exists>j < 2 ^ l. i = j * ?s" using j by blast
  next
    assume "\<exists>j < 2 ^ l. i = j * ?s"
    then obtain j where j: "j < 2 ^ l" "i = j * ?s" by blast
    have "(j + 1) * ?s \<le> 2 ^ l * ?s" using j(1) by (intro mult_right_mono) simp_all
    then show "?s dvd i \<and> i + ?s \<le> 2 ^ m" using j(2) m by simp
  qed
  moreover have "list_all (\<lambda>r. fst r + snd r \<le> i \<or> i + ?s \<le> fst r) held
      \<longleftrightarrow> (\<forall>r \<in> bm_live m b. block_buckets r \<inter> block_buckets (i, ?s) = {})"
    unfolding list_all_iff inv(2) by (rule ball_cong [OF refl disj])
  ultimately have "place (2 ^ m) held ?s i \<longleftrightarrow> (\<exists>j < 2 ^ l. i = j * ?s)
      \<and> (\<forall>r \<in> bm_live m b. block_buckets r \<inter> block_buckets (i, ?s) = {})"
    unfolding place_def conj_assoc [symmetric] by simp
  moreover have "node_block m (l, j) = (j * ?s, ?s)" for j by (simp add: node_block_def)
  ultimately show ?thesis by (metis fst_conv)
qed

text \<open>C25: Acquiring is exact: in every reachable state, a request for \<open>k\<close> buckets gets a block
  of the smallest power of two that holds them, at a place that meets no block held, and it
  fails only when there is no such place at all, so merging never loses room.\<close>

theorem buddy_acquire_is_exact:
  assumes "0 < n" "buddy_run n calls = (b, held)" "0 < k" "k \<le> bm_numBuckets b"
  shows "let (r, b') = acquireMemory k b; size = RoundToNextPowerOf2 k
    in if isValid r then snd r = size \<and> place (bm_numBuckets b) held size (fst r)
       else b' = b \<and> (\<forall>i. \<not> place (bm_numBuckets b) held size i)"
proof -
  obtain m where m: "bm_inv m b" "bm_live m b = set held"
    using holds_run [OF assms(1), of calls] assms(2) by (auto simp: holds_def)
  have nb: "bm_numBuckets b = 2 ^ m" using m(1) by (simp add: bm_inv_def)
  define e where "e = fastLog2 (push_bit 1 k - 1)"
  have k: "k \<le> 2 ^ m" "k = (if k = 0 then 1 else k)" using assms(3,4) nb by simp_all
  have size: "RoundToNextPowerOf2 k = 2 ^ e" by (rule round_level [OF assms(3) e_def])
  have em: "e \<le> m" by (rule acquire_level(1) [OF k e_def])
  have l: "m - e \<le> m" "m - (m - e) = e" using em by auto
  note pl = place_iff_free [OF m l(1), unfolded l(2)]
  from acquire_ok [OF m(1) k e_def] show ?thesis
  proof
    assume "\<exists>j < 2 ^ (m - e). fst (acquireMemory k b) = node_block m (m - e, j)
      \<and> node_block m (m - e, j) \<notin> bm_live m b \<and> bm_inv m (snd (acquireMemory k b))
      \<and> bm_live m (snd (acquireMemory k b)) = insert (node_block m (m - e, j)) (bm_live m b)"
    then obtain j where j: "j < 2 ^ (m - e)" "fst (acquireMemory k b) = node_block m (m - e, j)"
      "node_block m (m - e, j) \<notin> bm_live m b" "bm_inv m (snd (acquireMemory k b))"
      "bm_live m (snd (acquireMemory k b)) = insert (node_block m (m - e, j)) (bm_live m b)" by blast
    have "block_buckets r \<inter> block_buckets (node_block m (m - e, j)) = {}" if "r \<in> bm_live m b" for r
      using bm_live_disjoint [OF j(4)] j(3,5) that by blast
    then have "place (2 ^ m) held (2 ^ e) (fst (node_block m (m - e, j)))" using pl j(1) by blast
    moreover have "snd (node_block m (m - e, j)) = 2 ^ e" using l(2) by (simp add: node_block_def)
    ultimately show ?thesis using j(2) node_block_valid nb size by (simp add: case_prod_unfold)
  next
    assume "acquireMemory k b = ((0, 0), b) \<and> (\<forall>j < 2 ^ (m - e). \<exists>r \<in> bm_live m b.
        block_buckets r \<inter> block_buckets (node_block m (m - e, j)) \<noteq> {})"
    then show ?thesis using pl nb size by (auto simp: isValid_def)
  qed
qed

lemma buddy_acquire_is_exact_witness:
  "let (b, held) = buddy_run 6 [Acquire 1, Acquire 2]; (r, b') = acquireMemory 3 b
   in held = [(2, 2), (0, 1)] \<and> r = (4, 4) \<and> place (bm_numBuckets b) held 4 4"
proof -
  obtain b held where r: "buddy_run 6 [Acquire 1, Acquire 2] = (b, held)" by (cases "buddy_run 6 [Acquire 1, Acquire 2]")
  have v: "bm_numBuckets (fst (buddy_run 6 [Acquire 1, Acquire 2])) = 8"
      "snd (buddy_run 6 [Acquire 1, Acquire 2]) = [(2, 2), (0, 1)]"
      "fst (acquireMemory 3 (fst (buddy_run 6 [Acquire 1, Acquire 2]))) = (4, 4)"
      "RoundToNextPowerOf2 3 = 4"
    by code_simp+
  have "3 \<le> bm_numBuckets b" using v(1) unfolding r by simp
  note e = buddy_acquire_is_exact [OF _ r _ this]
  obtain x b' where a: "acquireMemory 3 b = (x, b')" by (cases "acquireMemory 3 b")
  have x: "x = (4, 4)" "held = [(2, 2), (0, 1)]" using v(2,3) unfolding r fst_conv snd_conv a by simp_all
  have "place (bm_numBuckets b) held 4 4"
    using e unfolding a x(1) v(4) Let_def prod.case isValid_def by simp
  then show ?thesis unfolding r a x(1) prod.case Let_def using x(2) by simp
qed

text \<open>C26: Releasing is exact: it reports the size of the block held at that bucket, or zero when
  no block held starts there, and then changes nothing. The manager is back in its initial
  state, one free root, exactly when no block is held.\<close>

theorem buddy_release_is_exact:
  assumes "0 < n" "buddy_run n calls = (b, held)"
  shows "(let (size, b') = releaseMemoryExtended i b
      in if size = 0 then b' = b \<and> i \<notin> fst ` set held else (i, size) \<in> set held)
    \<and> (isEmpty b \<longleftrightarrow> held = [])"
proof -
  obtain m where m: "bm_inv m b" "bm_live m b = set held"
    using holds_run [OF assms(1), of calls] assms(2) by (auto simp: holds_def)
  have "isEmpty b \<longleftrightarrow> held = []" using isEmpty_iff [OF m(1)] m(2) by simp
  then show ?thesis using release_ok [OF m(1), of i] m(2) by (auto simp: case_prod_unfold Let_def)
qed

lemma buddy_release_is_exact_witness:
  "let (b, held) = buddy_run 6 [Acquire 1, Acquire 2, Release 0] in fst (releaseMemoryExtended 2 b) = 2
     \<and> \<not> isEmpty b
     \<and> isEmpty (fst (buddy_run 6 [Acquire 1, Acquire 2, Release 0, Release 2]))"
proof -
  let ?c = "[Acquire 1, Acquire 2, Release 0]"
  have v: "snd (buddy_run 6 ?c) = [(2, 2)]" "fst (releaseMemoryExtended 2 (fst (buddy_run 6 ?c))) = 2"
      "snd (buddy_run 6 (?c @ [Release 2])) = []"
    by code_simp+
  have "\<not> isEmpty (fst (buddy_run 6 ?c))"
    using buddy_release_is_exact [of 6 ?c "fst (buddy_run 6 ?c)" "snd (buddy_run 6 ?c)" 2] v(1) by simp
  moreover have "isEmpty (fst (buddy_run 6 (?c @ [Release 2])))"
    using buddy_release_is_exact [of 6 "?c @ [Release 2]" "fst (buddy_run 6 (?c @ [Release 2]))"
        "snd (buddy_run 6 (?c @ [Release 2]))" 0] v(3) by simp
  ultimately show ?thesis using v(2) by (simp add: case_prod_unfold)
qed

end
