(* ===== verification/TimerModel.thy ===== *)
theory TimerModel imports BswPrelude begin

text \<open>
  The timer of \<^verbatim>\<open>libs/bsw/timer\<close>: an intrusive list of timeouts ordered by the time
  left. Timeouts are objects that the code identifies by their address, here by a number; an
  object is linked when its number is in the list. The lock guards make each critical section
  one step. The virtual function \<^verbatim>\<open>expired\<close> is client code and a parameter: it gets the
  number of the timeout and the timer, which it may use.
\<close>

record timeout =
  to_time :: u32
  to_cycleTime :: u32

record timer =
  ti_timeoutList :: "nat list"
  ti_timeouts :: "nat \<Rightarrow> timeout"

definition ti_new :: "(nat \<Rightarrow> timeout) \<Rightarrow> timer" where
  "ti_new objects = \<lparr>ti_timeoutList = [], ti_timeouts = objects\<rparr>"

definition ti_diff :: "u32 \<Rightarrow> u32 \<Rightarrow> int" where
  "ti_diff a b = sint (a - b)"

definition ti_is_linked :: "nat \<Rightarrow> timer \<Rightarrow> bool" where
  "ti_is_linked i tm \<longleftrightarrow> i \<in> set (ti_timeoutList tm)"

definition ti_isActive :: "nat \<Rightarrow> timer \<Rightarrow> bool" where
  "ti_isActive i tm \<longleftrightarrow> ti_is_linked i tm"

text \<open>The loop that looks for the last timeout not later than the new one, and the insertion.\<close>

fun ti_insert_after :: "timer \<Rightarrow> u32 \<Rightarrow> int \<Rightarrow> nat \<Rightarrow> nat list \<Rightarrow> nat list" where
  "ti_insert_after tm now timeoutDiff i [] = [i]"
| "ti_insert_after tm now timeoutDiff i (current # rest) =
     (if ti_diff (to_time (ti_timeouts tm current)) now > timeoutDiff then i # current # rest
      else current # ti_insert_after tm now timeoutDiff i rest)"

definition ti_addTimeout :: "nat \<Rightarrow> u32 \<Rightarrow> u32 \<Rightarrow> u32 \<Rightarrow> timer \<Rightarrow> bool \<times> timer" where
  "ti_addTimeout i absoluteTimeout cycleTime now tm =
     (if ti_is_linked i tm then (False, tm)
      else let tm = tm\<lparr>ti_timeouts := (ti_timeouts tm)(i := \<lparr>to_time = absoluteTimeout, to_cycleTime = cycleTime\<rparr>)\<rparr>;
               timeoutDiff = ti_diff absoluteTimeout now;
               tm = tm\<lparr>ti_timeoutList := ti_insert_after tm now timeoutDiff i (ti_timeoutList tm)\<rparr>
           in (hd (ti_timeoutList tm) = i, tm))"

definition ti_set :: "nat \<Rightarrow> u32 \<Rightarrow> u32 \<Rightarrow> timer \<Rightarrow> bool \<times> timer" where
  "ti_set i delay now tm = ti_addTimeout i (delay + now) 0 now tm"

definition ti_setCyclic :: "nat \<Rightarrow> u32 \<Rightarrow> u32 \<Rightarrow> timer \<Rightarrow> bool \<times> timer" where
  "ti_setCyclic i period now tm = ti_addTimeout i (period + now) period now tm"

definition ti_cancel :: "nat \<Rightarrow> timer \<Rightarrow> timer" where
  "ti_cancel i tm =
     (if ti_is_linked i tm then tm\<lparr>ti_timeoutList := remove1 i (ti_timeoutList tm)\<rparr> else tm)"

definition ti_rescheduleCyclicTimeout :: "nat \<Rightarrow> u32 \<Rightarrow> timer \<Rightarrow> timer" where
  "ti_rescheduleCyclicTimeout i now tm =
     (let t = ti_timeouts tm i
      in if to_cycleTime t > 0
         then snd (ti_addTimeout i (to_cycleTime t + to_time t) (to_cycleTime t) now tm) else tm)"

text \<open>The result also tells which timeout expired.\<close>

definition ti_processNextTimeout ::
    "(nat \<Rightarrow> timer \<Rightarrow> timer) \<Rightarrow> u32 \<Rightarrow> timer \<Rightarrow> (bool \<times> nat option) \<times> timer" where
  "ti_processNextTimeout expired now tm =
     (case ti_timeoutList tm of
        [] \<Rightarrow> ((False, None), tm)
      | i # rest \<Rightarrow>
          let diffTimeout = ti_diff (to_time (ti_timeouts tm i)) now
          in if diffTimeout \<le> 0
             then let tm = tm\<lparr>ti_timeoutList := rest\<rparr>;
                      tm = ti_rescheduleCyclicTimeout i now tm
                  in ((diffTimeout = 0, Some i), expired i tm)
             else ((False, None), tm))"

definition ti_getNextDelta :: "u32 \<Rightarrow> timer \<Rightarrow> bool \<times> u32" where
  "ti_getNextDelta now tm =
     (case ti_timeoutList tm of
        [] \<Rightarrow> (False, 0)
      | i # rest \<Rightarrow>
          (True, if ti_diff (to_time (ti_timeouts tm i)) now < 0 then 0
                 else to_time (ti_timeouts tm i) - now))"

end
