(* ===== verification/TimerCorrect.thy ===== *)
theory TimerCorrect imports TimerModel begin

text \<open>
  The timer refines a timer with unbounded time: as long as every deadline is less than half the
  range of the 32 bit clock away, wrap-around is not observable. The unbounded timer keeps a
  list of timeouts with deadline and period, ordered by deadline.
\<close>

section \<open>Unbounded time\<close>

type_synonym entry = "nat \<times> int \<times> int"

fun ut_insert :: "entry \<Rightarrow> entry list \<Rightarrow> entry list" where
  "ut_insert e [] = [e]"
| "ut_insert e (x # xs) = (if fst (snd x) > fst (snd e) then e # x # xs else x # ut_insert e xs)"

definition ut_add :: "nat \<Rightarrow> int \<Rightarrow> int \<Rightarrow> entry list \<Rightarrow> bool \<times> entry list" where
  "ut_add i deadline cycle es =
     (if i \<in> fst ` set es then (False, es)
      else let es = ut_insert (i, deadline, cycle) es in (fst (hd es) = i, es))"

definition ut_cancel :: "nat \<Rightarrow> entry list \<Rightarrow> entry list" where
  "ut_cancel i es = filter (\<lambda>e. fst e \<noteq> i) es"

definition ut_reschedule :: "entry \<Rightarrow> entry list \<Rightarrow> entry list" where
  "ut_reschedule e es =
     (case e of (i, deadline, cycle) \<Rightarrow> if cycle > 0 then snd (ut_add i (deadline + cycle) cycle es) else es)"

definition ut_process :: "(nat \<Rightarrow> entry list \<Rightarrow> entry list) \<Rightarrow> int \<Rightarrow> entry list \<Rightarrow> (bool \<times> nat option) \<times> entry list" where
  "ut_process expired now es =
     (case es of [] \<Rightarrow> ((False, None), es)
      | e # rest \<Rightarrow>
          if fst (snd e) \<le> now
          then ((fst (snd e) = now, Some (fst e)), expired (fst e) (ut_reschedule e rest))
          else ((False, None), es))"

definition ut_sorted :: "entry list \<Rightarrow> bool" where
  "ut_sorted es \<longleftrightarrow> sorted (map (\<lambda>e. fst (snd e)) es) \<and> distinct (map fst es)"

lemma set_ut_insert [simp]: "set (ut_insert e es) = insert e (set es)"
  by (induction es) auto

lemma sorted_ut_insert:
  "sorted (map (\<lambda>e. fst (snd e)) es) \<Longrightarrow> sorted (map (\<lambda>e. fst (snd e)) (ut_insert e es))"
  by (induction es) auto

lemma distinct_ut_insert:
  "distinct (map fst es) \<Longrightarrow> fst e \<notin> fst ` set es \<Longrightarrow> distinct (map fst (ut_insert e es))"
  by (induction es) auto

lemma ut_add_sorted: "ut_sorted es \<Longrightarrow> ut_sorted (snd (ut_add i d c es))"
  by (simp add: ut_sorted_def ut_add_def Let_def sorted_ut_insert distinct_ut_insert)

lemma ut_cancel_sorted: "ut_sorted es \<Longrightarrow> ut_sorted (ut_cancel i es)"
  by (auto simp: ut_sorted_def ut_cancel_def sorted_filter intro: distinct_map_filter)

lemma ut_sorted_tl: "ut_sorted (e # es) \<Longrightarrow> ut_sorted es"
  by (simp add: ut_sorted_def)

lemma ut_reschedule_sorted: "ut_sorted es \<Longrightarrow> ut_sorted (ut_reschedule e es)"
  by (simp add: ut_reschedule_def ut_add_sorted split: prod.split)

lemma ut_sorted_hd: "ut_sorted (e # es) \<Longrightarrow> e' \<in> set es \<Longrightarrow> fst (snd e) \<le> fst (snd e')"
  by (auto simp: ut_sorted_def)

section \<open>Wrap-around\<close>

text \<open>A deadline in the window around the current time, half the range of the clock wide on each side.\<close>

definition in_window :: "int \<Rightarrow> int \<Rightarrow> bool" where
  "in_window now d \<longleftrightarrow> now - 2 ^ 31 \<le> d \<and> d < now + 2 ^ 31"

lemma ti_diff_exact:
  assumes "in_window now d"
  shows "ti_diff (word_of_int d) (word_of_int now) = d - now"
proof -
  have "ti_diff (word_of_int d) (word_of_int now) = sint (word_of_int (d - now) :: u32)"
    unfolding ti_diff_def wi_hom_sub ..
  also have "\<dots> = signed_take_bit 31 (d - now)" by (subst sint_sbintrunc') simp
  also have "\<dots> = d - now"
  proof (rule signed_take_bit_int_eq_self)
    show "- (2 ^ 31) \<le> d - now" "d - now < 2 ^ 31" using assms unfolding in_window_def by linarith+
  qed
  finally show ?thesis .
qed

definition ti_abs :: "timer \<Rightarrow> entry list \<Rightarrow> bool" where
  "ti_abs tm es \<longleftrightarrow> ti_timeoutList tm = map fst es
     \<and> (\<forall>(i, d, c) \<in> set es. ti_timeouts tm i = \<lparr>to_time = word_of_int d, to_cycleTime = word_of_int c\<rparr>
          \<and> 0 \<le> c \<and> c < 2 ^ 32)"

lemma ti_absD: "ti_abs tm es \<Longrightarrow> (i, d, c) \<in> set es \<Longrightarrow>
    ti_timeouts tm i = \<lparr>to_time = word_of_int d, to_cycleTime = word_of_int c\<rparr> \<and> 0 \<le> c \<and> c < 2 ^ 32"
  by (auto simp: ti_abs_def)

lemma ti_insert_refines:
  assumes "\<And>j d c. (j, d, c) \<in> set es \<Longrightarrow> to_time (ti_timeouts tm j) = word_of_int d \<and> in_window now d"
    and "dif = fst (snd e) - now"
  shows "ti_insert_after tm (word_of_int now) dif (fst e) (map fst es) = map fst (ut_insert e es)"
  using assms(1)
proof (induction es)
  case (Cons x es)
  obtain j d c where x: "x = (j, d, c)" by (cases x)
  have "ti_diff (to_time (ti_timeouts tm j)) (word_of_int now) = d - now"
    using Cons.prems [of j d c] x ti_diff_exact by simp
  then show ?case using Cons x assms(2) by auto
qed simp

text \<open>Each operation on the timer is the operation on the unbounded timer.\<close>

lemma ti_add_refines:
  assumes tm: "ti_abs tm es" and w: "\<forall>(j, d, c) \<in> set es. in_window now d" "in_window now d"
    and c: "0 \<le> c" "c < 2 ^ 32"
  shows "fst (ti_addTimeout i (word_of_int d) (word_of_int c) (word_of_int now) tm) = fst (ut_add i d c es)"
    and "ti_abs (snd (ti_addTimeout i (word_of_int d) (word_of_int c) (word_of_int now) tm)) (snd (ut_add i d c es))"
proof -
  let ?tm = "tm\<lparr>ti_timeouts := (ti_timeouts tm)(i := \<lparr>to_time = word_of_int d, to_cycleTime = word_of_int c\<rparr>)\<rparr>"
  have l: "ti_is_linked i tm \<longleftrightarrow> i \<in> fst ` set es" using tm by (simp add: ti_is_linked_def ti_abs_def)
  have ins: "ti_insert_after ?tm (word_of_int now) (d - now) i (map fst es) = map fst (ut_insert (i, d, c) es)"
    if "i \<notin> fst ` set es"
  proof -
    have "to_time (ti_timeouts ?tm j) = word_of_int d' \<and> in_window now d'" if "(j, d', c') \<in> set es" for j d' c'
      using ti_absD [OF tm that] w(1) that \<open>i \<notin> fst ` set es\<close> by force
    from ti_insert_refines [of es ?tm now "d - now" "(i, d, c)", OF this] show ?thesis by simp
  qed
  have list: "ti_timeoutList tm = map fst es" using tm by (simp add: ti_abs_def)
  have ne: "ut_insert (i, d, c) es \<noteq> []" by (cases es) auto
  have "ti_abs (?tm\<lparr>ti_timeoutList := map fst (ut_insert (i, d, c) es)\<rparr>) (ut_insert (i, d, c) es)"
    if fresh: "i \<notin> fst ` set es"
  proof -
    have "ti_timeouts ?tm j = \<lparr>to_time = word_of_int d', to_cycleTime = word_of_int c'\<rparr> \<and> 0 \<le> c' \<and> c' < 2 ^ 32"
      if x: "(j, d', c') \<in> set (ut_insert (i, d, c) es)" for j d' c'
    proof (cases "(j, d', c') = (i, d, c)")
      case False
      then have "(j, d', c') \<in> set es" using x by auto
      moreover from this have "j \<noteq> i" using fresh by force
      ultimately show ?thesis using ti_absD [OF tm, of j d' c'] by simp
    qed (use c in simp)
    then show ?thesis unfolding ti_abs_def by auto
  qed
  then show "fst (ti_addTimeout i (word_of_int d) (word_of_int c) (word_of_int now) tm) = fst (ut_add i d c es)"
    and "ti_abs (snd (ti_addTimeout i (word_of_int d) (word_of_int c) (word_of_int now) tm)) (snd (ut_add i d c es))"
    using l tm ins list ne ti_diff_exact [OF w(2)]
    by (auto simp: ti_addTimeout_def ut_add_def Let_def hd_map)
qed

lemma ti_cancel_refines: "ti_abs tm es \<Longrightarrow> ut_sorted es \<Longrightarrow> ti_abs (ti_cancel i tm) (ut_cancel i es)"
proof -
  assume tm: "ti_abs tm es" and s: "ut_sorted es"
  have "remove1 i (map fst es) = map fst (ut_cancel i es)"
  proof -
    have "remove1 i (map fst es) = filter (\<lambda>j. j \<noteq> i) (map fst es)"
      using s
      by (simp add: ut_sorted_def distinct_remove1_removeAll removeAll_filter_not_eq eq_commute [of i])
    then show ?thesis by (simp add: ut_cancel_def filter_map comp_def)
  qed
  moreover have "ut_cancel i es = es" if "i \<notin> fst ` set es" using that by (force simp: ut_cancel_def filter_id_conv)
  ultimately show ?thesis using tm by (auto simp: ti_abs_def ti_cancel_def ti_is_linked_def ut_cancel_def)
qed

section \<open>Processing\<close>

definition ut_valid :: "int \<Rightarrow> entry list \<Rightarrow> bool" where
  "ut_valid now es \<longleftrightarrow> ut_sorted es
     \<and> (\<forall>e \<in> set es. fst (snd e) < now + 2 ^ 31 \<and> 0 \<le> snd (snd e) \<and> snd (snd e) < 2 ^ 31)"

definition ut_lag_ok :: "int \<Rightarrow> entry list \<Rightarrow> bool" where
  "ut_lag_ok now es \<longleftrightarrow> list_all (\<lambda>e. now - 2 ^ 31 \<le> fst (snd e)) es"

lemma ut_window: "ut_valid now es \<Longrightarrow> ut_lag_ok now es \<Longrightarrow> \<forall>(j, d, c) \<in> set es. in_window now d"
  by (auto simp: ut_valid_def ut_lag_ok_def in_window_def list_all_iff)

lemma ut_add_valid:
  assumes "ut_valid now es" "d < now + 2 ^ 31" "0 \<le> c" "c < 2 ^ 31"
  shows "ut_valid now (snd (ut_add i d c es))"
  using assms ut_add_sorted [of es i d c] by (auto simp: ut_valid_def ut_add_def Let_def)

lemma ut_add_lag: "ut_lag_ok now es \<Longrightarrow> now - 2 ^ 31 \<le> d \<Longrightarrow> ut_lag_ok now (snd (ut_add i d c es))"
  by (auto simp: ut_lag_ok_def ut_add_def Let_def list_all_iff)

lemma ut_cancel_valid: "ut_valid now es \<Longrightarrow> ut_valid now (ut_cancel i es)"
  using ut_cancel_sorted by (auto simp: ut_valid_def ut_cancel_def)

lemma ut_cancel_lag: "ut_lag_ok now es \<Longrightarrow> ut_lag_ok now (ut_cancel i es)"
  by (auto simp: ut_lag_ok_def ut_cancel_def list_all_iff)

text \<open>What a client may do, also inside the callback.\<close>

datatype timer_op = SetOnce nat nat | SetCyclic nat nat | CancelIt nat

fun ti_op :: "int \<Rightarrow> timer_op \<Rightarrow> timer \<Rightarrow> bool \<times> timer" where
  "ti_op now (SetOnce i delay) tm = ti_set i (of_nat delay) (word_of_int now) tm"
| "ti_op now (SetCyclic i period) tm = ti_setCyclic i (of_nat period) (word_of_int now) tm"
| "ti_op now (CancelIt i) tm = (False, ti_cancel i tm)"

fun ut_op :: "int \<Rightarrow> timer_op \<Rightarrow> entry list \<Rightarrow> bool \<times> entry list" where
  "ut_op now (SetOnce i delay) es = ut_add i (now + int delay) 0 es"
| "ut_op now (SetCyclic i period) es = ut_add i (now + int period) (int period) es"
| "ut_op now (CancelIt i) es = (False, ut_cancel i es)"

fun op_ok :: "timer_op \<Rightarrow> bool" where
  "op_ok (SetOnce i delay) \<longleftrightarrow> delay < 2 ^ 31"
| "op_ok (SetCyclic i period) \<longleftrightarrow> period < 2 ^ 31"
| "op_ok (CancelIt i) \<longleftrightarrow> True"

text \<open>The state relation at a time.\<close>

definition ti_rel :: "int \<Rightarrow> timer \<Rightarrow> entry list \<Rightarrow> bool" where
  "ti_rel now tm es \<longleftrightarrow> ti_abs tm es \<and> ut_valid now es \<and> ut_lag_ok now es"

lemma ti_op_refines:
  assumes "ti_rel now tm es" "op_ok x"
  shows "fst (ti_op now x tm) = fst (ut_op now x es)" and "ti_rel now (snd (ti_op now x tm)) (snd (ut_op now x es))"
proof -
  have tm: "ti_abs tm es" "ut_valid now es" "ut_lag_ok now es" using assms(1) by (auto simp: ti_rel_def)
  note w = ut_window [OF tm(2,3)]
  have add: "fst (ti_addTimeout i (word_of_int (now + int n)) cw (word_of_int now) tm)
        = fst (ut_add i (now + int n) c es)
      \<and> ti_rel now (snd (ti_addTimeout i (word_of_int (now + int n)) cw (word_of_int now) tm))
          (snd (ut_add i (now + int n) c es))"
    if "n < 2 ^ 31" "0 \<le> c" "c < 2 ^ 31" "cw = word_of_int c" for i n c cw
  proof -
    have n: "int n < 2 ^ 31" using that(1) by simp
    have iw: "in_window now (now + int n)" unfolding in_window_def using n by linarith
    have c: "c < 2 ^ 32" using that(3) by (rule order_less_trans) simp
    show ?thesis unfolding ti_rel_def that(4)
      by (intro conjI ti_add_refines [OF tm(1) w iw that(2) c] ut_add_valid [OF tm(2)] ut_add_lag [OF tm(3)] that)
        (use n in linarith)+
  qed
  have word: "of_nat n + word_of_int now = (word_of_int (now + int n) :: u32)" for n
    by (simp add: add.commute)
  have z: "(0 :: u32) = word_of_int 0" by simp
  have p: "of_nat n = (word_of_int (int n) :: u32)" for n by simp
  have "fst (ti_op now x tm) = fst (ut_op now x es) \<and> ti_rel now (snd (ti_op now x tm)) (snd (ut_op now x es))"
  proof (cases x)
    case (SetOnce i n)
    have "(0 :: int) < 2 ^ 31" by simp
    from add [OF _ order_refl this z, of n i] show ?thesis using assms(2) SetOnce
      by (simp only: ti_op.simps ut_op.simps ti_set_def word op_ok.simps)
  next
    case (SetCyclic i n)
    have "0 \<le> int n" "int n < 2 ^ 31" using assms(2) SetCyclic by simp_all
    from add [OF _ this p, of n i] show ?thesis using assms(2) SetCyclic
      by (simp only: ti_op.simps ut_op.simps ti_setCyclic_def word op_ok.simps)
  next
    case (CancelIt i)
    have "ut_sorted es" using tm(2) by (simp add: ut_valid_def)
    from ti_cancel_refines [OF tm(1) this] ut_cancel_valid [OF tm(2)] ut_cancel_lag [OF tm(3)]
    show ?thesis using CancelIt by (simp add: ti_rel_def)
  qed
  then show "fst (ti_op now x tm) = fst (ut_op now x es)" and "ti_rel now (snd (ti_op now x tm)) (snd (ut_op now x es))"
    by blast+
qed


section \<open>Runs\<close>

text \<open>
  The callback of a timeout is a list of calls; an event is a call of the client or the
  processing of the next timeout. The outputs are the results and the timeout that expired.
\<close>

definition ti_callback :: "(nat \<Rightarrow> timer_op list) \<Rightarrow> int \<Rightarrow> nat \<Rightarrow> timer \<Rightarrow> timer" where
  "ti_callback cb now i tm = fold (\<lambda>x tm. snd (ti_op now x tm)) (cb i) tm"

definition ut_callback :: "(nat \<Rightarrow> timer_op list) \<Rightarrow> int \<Rightarrow> nat \<Rightarrow> entry list \<Rightarrow> entry list" where
  "ut_callback cb now i es = fold (\<lambda>x es. snd (ut_op now x es)) (cb i) es"

datatype timer_event = Call timer_op | Process

fun ti_event :: "(nat \<Rightarrow> timer_op list) \<Rightarrow> int \<Rightarrow> timer_event \<Rightarrow> timer \<Rightarrow> (bool \<times> nat option) \<times> timer" where
  "ti_event cb now (Call x) tm = (let (r, tm) = ti_op now x tm in ((r, None), tm))"
| "ti_event cb now Process tm = ti_processNextTimeout (ti_callback cb now) (word_of_int now) tm"

fun ut_event :: "(nat \<Rightarrow> timer_op list) \<Rightarrow> int \<Rightarrow> timer_event \<Rightarrow> entry list \<Rightarrow> (bool \<times> nat option) \<times> entry list" where
  "ut_event cb now (Call x) es = (let (r, es) = ut_op now x es in ((r, None), es))"
| "ut_event cb now Process es = ut_process (ut_callback cb now) now es"

lemma callback_refines:
  assumes "ti_rel now tm es" "\<forall>i. list_all op_ok (cb i)"
  shows "ti_rel now (ti_callback cb now i tm) (ut_callback cb now i es)"
proof -
  have "ti_rel now (fold (\<lambda>x tm. snd (ti_op now x tm)) xs tm) (fold (\<lambda>x es. snd (ut_op now x es)) xs es)"
    if "ti_rel now tm es" "list_all op_ok xs" for xs tm es
    using that by (induction xs arbitrary: tm es) (auto simp: ti_op_refines(2))
  then show ?thesis using assms by (simp add: ti_callback_def ut_callback_def)
qed

lemma ti_rel_tl: "ti_rel now tm (e # es) \<Longrightarrow> ti_rel now (tm\<lparr>ti_timeoutList := map fst es\<rparr>) es"
  using ut_sorted_tl by (auto simp: ti_rel_def ti_abs_def ut_valid_def ut_lag_ok_def)

lemma reschedule_refines:
  assumes "ti_rel now tm (e # es)" "fst (snd e) \<le> now"
  shows "ti_rel now (ti_rescheduleCyclicTimeout (fst e) (word_of_int now) (tm\<lparr>ti_timeoutList := map fst es\<rparr>))
    (ut_reschedule e es)"
proof -
  obtain i d c where e: "e = (i, d, c)" by (cases e)
  let ?tm = "tm\<lparr>ti_timeoutList := map fst es\<rparr>"
  note tl = ti_rel_tl [OF assms(1)]
  have o: "ti_timeouts ?tm i = \<lparr>to_time = word_of_int d, to_cycleTime = word_of_int c\<rparr>"
      "0 \<le> c" "c < 2 ^ 31" "now - 2 ^ 31 \<le> d" "d \<le> now"
    using assms ti_absD [of tm "e # es" i d c] by (auto simp: ti_rel_def ut_valid_def ut_lag_ok_def e)
  have c: "(word_of_int c :: u32) > 0 \<longleftrightarrow> c > 0"
  proof -
    have "uint (word_of_int c :: u32) = c mod 2 ^ 32" by (simp add: uint_word_of_int)
    also have "\<dots> = c" using o(2,3) by (intro mod_pos_pos_trivial) auto
    finally show ?thesis by (simp add: word_less_def)
  qed
  show ?thesis
  proof (cases "c > 0")
    case False
    then show ?thesis using tl c o(1) by (simp add: ti_rescheduleCyclicTimeout_def ut_reschedule_def e Let_def)
  next
    case True
    have w: "\<forall>(j, d, c) \<in> set es. in_window now d" using tl ut_window [of now es] by (simp add: ti_rel_def)
    have iw: "in_window now (d + c)" using o unfolding in_window_def by linarith
    have c32: "c < 2 ^ 32" using o(3) by (rule order_less_trans) simp
    have word: "word_of_int c + word_of_int d = (word_of_int d + word_of_int c :: u32)" by (rule add.commute)
    have "ti_rel now (snd (ti_addTimeout i (word_of_int (d + c)) (word_of_int c) (word_of_int now) ?tm))
        (snd (ut_add i (d + c) c es))"
      unfolding ti_rel_def
      by (intro conjI ti_add_refines(2) [OF _ w iw o(2) c32] ut_add_valid ut_add_lag)
        (use tl o in \<open>auto simp: ti_rel_def\<close>)
    then show ?thesis using True c o(1) word
      unfolding ti_rescheduleCyclicTimeout_def ut_reschedule_def e Let_def fst_conv o(1) by (simp add: word)
  qed
qed

lemma ti_event_refines:
  assumes rel: "ti_rel now tm es" and ok: "\<forall>i. list_all op_ok (cb i)" "\<And>x. ev = Call x \<Longrightarrow> op_ok x"
  shows "fst (ti_event cb now ev tm) = fst (ut_event cb now ev es)"
    and "ti_rel now (snd (ti_event cb now ev tm)) (snd (ut_event cb now ev es))"
proof -
  have "fst (ti_event cb now ev tm) = fst (ut_event cb now ev es)
    \<and> ti_rel now (snd (ti_event cb now ev tm)) (snd (ut_event cb now ev es))"
  proof (cases ev)
    case (Call x)
    then show ?thesis using ti_op_refines [OF rel, of x] ok(2) [OF Call] by (simp add: case_prod_unfold Let_def)
  next
    case Process
    have list: "ti_timeoutList tm = map fst es" using rel by (simp add: ti_rel_def ti_abs_def)
    show ?thesis
    proof (cases es)
      case Nil
      then show ?thesis using Process rel list by (simp add: ti_processNextTimeout_def ut_process_def)
    next
      case (Cons e rest)
      obtain i d c where e: "e = (i, d, c)" by (cases e)
      have t: "to_time (ti_timeouts tm i) = word_of_int d" "in_window now d"
        using rel Cons ti_absD [of tm es i d c] ut_window [of now es] by (auto simp: ti_rel_def e)
      note dif = ti_diff_exact [OF t(2)]
      show ?thesis
      proof (cases "d \<le> now")
        case False
        then show ?thesis using Process rel list t dif Cons
          by (simp add: ti_processNextTimeout_def ut_process_def e Let_def)
      next
        case True
        have "ti_rel now (ti_rescheduleCyclicTimeout i (word_of_int now) (tm\<lparr>ti_timeoutList := map fst rest\<rparr>))
            (ut_reschedule e rest)"
          using reschedule_refines [of now tm e rest] rel Cons True by (simp add: e)
        from callback_refines [OF this ok(1), of i] show ?thesis
          using Process list t dif Cons True
          by (simp add: ti_processNextTimeout_def ut_process_def e Let_def)
      qed
    qed
  qed
  then show "fst (ti_event cb now ev tm) = fst (ut_event cb now ev es)"
    and "ti_rel now (snd (ti_event cb now ev tm)) (snd (ut_event cb now ev es))" by blast+
qed

text \<open>A run is a list of events with their times; between events only time passes.\<close>

fun ti_run :: "(nat \<Rightarrow> timer_op list) \<Rightarrow> (int \<times> timer_event) list \<Rightarrow> timer \<Rightarrow> (bool \<times> nat option) list \<times> timer" where
  "ti_run cb [] tm = ([], tm)"
| "ti_run cb ((now, ev) # evs) tm =
     (let (out, tm) = ti_event cb now ev tm; (outs, tm) = ti_run cb evs tm in (out # outs, tm))"

fun ut_run :: "(nat \<Rightarrow> timer_op list) \<Rightarrow> (int \<times> timer_event) list \<Rightarrow> entry list \<Rightarrow> (bool \<times> nat option) list \<times> entry list" where
  "ut_run cb [] es = ([], es)"
| "ut_run cb ((now, ev) # evs) es =
     (let (out, es) = ut_event cb now ev es; (outs, es) = ut_run cb evs es in (out # outs, es))"

text \<open>Processing is late by less than half the range of the clock, at every event.\<close>

fun ut_punctual :: "(nat \<Rightarrow> timer_op list) \<Rightarrow> (int \<times> timer_event) list \<Rightarrow> entry list \<Rightarrow> bool" where
  "ut_punctual cb [] es \<longleftrightarrow> True"
| "ut_punctual cb ((now, ev) # evs) es \<longleftrightarrow> ut_lag_ok now es \<and> ut_punctual cb evs (snd (ut_event cb now ev es))"

definition event_ok :: "timer_event \<Rightarrow> bool" where
  "event_ok ev \<longleftrightarrow> (case ev of Call x \<Rightarrow> op_ok x | Process \<Rightarrow> True)"

lemma ut_valid_later: "ut_valid t es \<Longrightarrow> t \<le> now \<Longrightarrow> ut_valid now es"
  by (force simp: ut_valid_def)

lemma ti_run_refines:
  "ti_abs tm es \<Longrightarrow> ut_valid t es \<Longrightarrow> sorted (t # map fst evs) \<Longrightarrow> list_all (\<lambda>e. event_ok (snd e)) evs \<Longrightarrow>
    \<forall>i. list_all op_ok (cb i) \<Longrightarrow> ut_punctual cb evs es \<Longrightarrow>
    fst (ti_run cb evs tm) = fst (ut_run cb evs es)
    \<and> ti_abs (snd (ti_run cb evs tm)) (snd (ut_run cb evs es))
    \<and> ut_valid (last (t # map fst evs)) (snd (ut_run cb evs es))"
proof (induction evs arbitrary: tm es t)
  case (Cons x evs)
  obtain now ev where x: "x = (now, ev)" by (cases x)
  have v: "ut_valid now es" by (rule ut_valid_later [OF Cons.prems(2)]) (use Cons.prems(3) x in simp)
  have rel: "ti_rel now tm es" using Cons.prems(1,6) v x by (simp add: ti_rel_def)
  have ok: "\<And>y. ev = Call y \<Longrightarrow> op_ok y" using Cons.prems(4) x by (simp add: event_ok_def)
  note s = ti_event_refines [OF rel Cons.prems(5) ok]
  have "fst (ti_run cb evs (snd (ti_event cb now ev tm))) = fst (ut_run cb evs (snd (ut_event cb now ev es)))
    \<and> ti_abs (snd (ti_run cb evs (snd (ti_event cb now ev tm)))) (snd (ut_run cb evs (snd (ut_event cb now ev es))))
    \<and> ut_valid (last (now # map fst evs)) (snd (ut_run cb evs (snd (ut_event cb now ev es))))"
    by (rule Cons.IH) (use s(2) Cons.prems(3-6) x in \<open>auto simp: ti_rel_def\<close>)
  then show ?case using s(1) x by (simp add: case_prod_unfold Let_def)
qed simp

end
