(* ===== verification/TimerProps.thy ===== *)
theory TimerProps imports TimerCorrect begin

text \<open>The properties of the timer.\<close>

text \<open>C8: Wrap-around of the 32 bit clock is not observable: for every run of set, cancel and
  processing events with callbacks that set and cancel timeouts, in which delays are below half
  the clock's range and processing is never late by more than that, every result and the order
  in which timeouts expire are those of the timer with unbounded time. That timer is ordered by
  deadline, and its head expires at or after its deadline, first set first among equals.\<close>

theorem timer_refines_unbounded_time:
  assumes "\<forall>i. list_all op_ok (cb i)" "list_all (\<lambda>e. event_ok (snd e)) evs" "sorted (map fst evs)"
    and "ut_punctual cb evs []"
  shows "fst (ti_run cb evs (ti_new objects)) = fst (ut_run cb evs [])
    \<and> ti_timeoutList (snd (ti_run cb evs (ti_new objects))) = map fst (snd (ut_run cb evs []))
    \<and> sorted (map (\<lambda>e. fst (snd e)) (snd (ut_run cb evs [])))"
proof -
  define t where "t = (if evs = [] then 0 else fst (hd evs))"
  have "ti_abs (ti_new objects) []" by (simp add: ti_abs_def ti_new_def)
  moreover have "ut_valid t []" by (simp add: ut_valid_def ut_sorted_def)
  moreover have "sorted (t # map fst evs)" using assms(3) by (cases evs) (auto simp: t_def)
  ultimately show ?thesis
    using ti_run_refines [of "ti_new objects" "[]" t evs cb] assms
    by (auto simp: ti_abs_def ut_valid_def ut_sorted_def)
qed

text \<open>A cyclic timeout over the wrap-around; its callback starts a single shot timeout.\<close>

definition wrap_events :: "(int \<times> timer_event) list" where
  "wrap_events = [(4294967290, Call (SetCyclic 1 10)), (4294967290, Call (SetOnce 2 4)),
     (4294967294, Process), (4294967299, Process), (4294967300, Process), (4294967301, Process),
     (4294967311, Process)]"

definition wrap_callback :: "nat \<Rightarrow> timer_op list" where
  "wrap_callback i = (if i = 1 then [SetOnce 3 1] else [])"

lemma wrap_events_ok:
  "\<forall>i. list_all op_ok (wrap_callback i)" "list_all (\<lambda>e. event_ok (snd e)) wrap_events"
  "sorted (map fst wrap_events @ [4294967311])"
  by (simp_all add: wrap_callback_def wrap_events_def event_ok_def)

lemma timer_refines_unbounded_time_witness:
  "fst (ti_run wrap_callback wrap_events (ti_new (\<lambda>i. \<lparr>to_time = 0, to_cycleTime = 0\<rparr>)))
    = [(True, None), (True, None), (True, Some 2), (False, None), (True, Some 1), (True, Some 3), (False, Some 1)]"
proof -
  have "sorted (map fst wrap_events)" using wrap_events_ok(3) by (simp add: sorted_append)
  moreover have "ut_punctual wrap_callback wrap_events []" by code_simp
  ultimately have "fst (ti_run wrap_callback wrap_events (ti_new (\<lambda>i. \<lparr>to_time = 0, to_cycleTime = 0\<rparr>)))
      = fst (ut_run wrap_callback wrap_events [])" 
    
    by (rule conjunct1 [OF timer_refines_unbounded_time [OF wrap_events_ok(1,2)]])
  also have "\<dots> = [(True, None), (True, None), (True, Some 2), (False, None), (True, Some 1), (True, Some 3), (False, Some 1)]"
    by code_simp
  finally show ?thesis .
qed

text \<open>The delta is exact: after such a run, with processing not late, the delta for the
  current time is reported exactly when a timeout is active, and it is the time until the
  earliest deadline, or zero when that has passed, so a wait of this length misses nothing.\<close>

theorem timer_delta_is_exact:
  assumes "\<forall>i. list_all op_ok (cb i)" "list_all (\<lambda>e. event_ok (snd e)) evs" "sorted (map fst evs @ [now])"
    and "ut_punctual cb evs []" "es = snd (ut_run cb evs [])" "ut_lag_ok now es"
  shows "ti_getNextDelta (word_of_int now) (snd (ti_run cb evs (ti_new objects)))
    = (es \<noteq> [], if es = [] then 0
        else word_of_int (max 0 (Min (set (map (\<lambda>e. fst (snd e)) es)) - now)))"
proof -
  define t where "t = fst (hd (evs @ [(now, Process)]))"
  let ?tm = "snd (ti_run cb evs (ti_new objects))"
  have new: "ti_abs (ti_new objects) []" "ut_valid t []"
    by (simp_all add: ti_abs_def ti_new_def ut_valid_def ut_sorted_def)
  have srt: "sorted (t # map fst evs)" "\<forall>x \<in> set (t # map fst evs). x \<le> now"
    using assms(3) by (cases evs; simp add: t_def sorted_append)+
  have r: "ti_abs ?tm es \<and> ut_valid (last (t # map fst evs)) es"
    using ti_run_refines [OF new srt(1) assms(2,1,4)] assms(5) by simp
  have "last (t # map fst evs) \<in> set (t # map fst evs)" by (rule last_in_set) simp
  then have v: "ut_valid now es" using ut_valid_later r srt(2) by blast
  show ?thesis
  proof (cases es)
    case Nil
    then show ?thesis using r by (simp add: ti_getNextDelta_def ti_abs_def)
  next
    case (Cons e rest)
    obtain i d c where e: "e = (i, d, c)" by (cases e)
    have tl: "ti_timeoutList ?tm = i # map fst rest" using r Cons by (simp add: ti_abs_def e)
    have tt: "to_time (ti_timeouts ?tm i) = word_of_int d"
      using r ti_absD [of ?tm es i d c] Cons by (simp add: e)
    have w: "in_window now d" using ut_window [OF v assms(6)] Cons by (simp add: e)
    have "Min (set (map (\<lambda>e. fst (snd e)) es)) = d"
      by (rule Min_eqI) (use v Cons e in \<open>auto simp: ut_valid_def ut_sorted_def\<close>)
    then show ?thesis unfolding ti_getNextDelta_def tl list.case tt ti_diff_exact [OF w]
      using Cons by (simp add: max_def)
  qed
qed

lemma timer_delta_is_exact_witness:
  "ti_getNextDelta (word_of_int 4294967311)
     (snd (ti_run wrap_callback wrap_events (ti_new (\<lambda>i. \<lparr>to_time = 0, to_cycleTime = 0\<rparr>)))) = (True, 1)"
proof -
  have p: "ut_punctual wrap_callback wrap_events []" by code_simp
  have l: "ut_lag_ok 4294967311 (snd (ut_run wrap_callback wrap_events []))" by code_simp
  have e: "snd (ut_run wrap_callback wrap_events []) = [(3, 4294967312, 0), (1, 4294967320, 10)]" by code_simp
  show ?thesis
    using timer_delta_is_exact [OF wrap_events_ok p refl l, of "\<lambda>i. \<lparr>to_time = 0, to_cycleTime = 0\<rparr>"]
    unfolding e by simp
qed

text \<open>A delay of half the clock's range or more expires at once: the timeout counts as
  overdue when the next processing happens at the time it was set.\<close>

theorem long_delay_expires_at_once:
  assumes "2 ^ 31 \<le> unat delay" "ti_timeoutList tm = []"
  shows "fst (ti_processNextTimeout expired now (snd (ti_set i delay now tm))) = (False, Some i)"
proof -
  have "sint delay < 0"
  proof -
    define u where "u = uint delay"
    have "int (2 ^ 31) \<le> int (unat delay)" using assms(1) by (simp only: zle_int)
    then have lo: "2147483648 \<le> u" by (simp add: u_def)
    have "u < 2 ^ LENGTH(32)" unfolding u_def by (rule uint_bounded)
    then have hi: "u < 4294967296" by simp
    have "u div 2147483648 = 1" using lo hi by linarith
    then have "bit u 31" by (simp add: bit_iff_odd)
    then show ?thesis unfolding sint_uint u_def [symmetric] by (simp add: signed_take_bit_negative_iff)
  qed
  then show ?thesis using assms(2)
    by (simp add: ti_set_def ti_addTimeout_def ti_is_linked_def ti_processNextTimeout_def ti_diff_def Let_def)
qed

lemma long_delay_expires_at_once_witness:
  "fst (ti_processNextTimeout (\<lambda>i tm. tm) 5 (snd (ti_set 7 2147483648 5 (ti_new (\<lambda>i. \<lparr>to_time = 0, to_cycleTime = 0\<rparr>)))))
    = (False, Some 7)"
  by (rule long_delay_expires_at_once) (simp_all add: ti_new_def)

end
