(* ===== verification/Lifecycle.thy ===== *)
theory Lifecycle imports BswPrelude begin

text \<open>
  The lifecycle manager of \<^verbatim>\<open>libs/bsw/lifecycle\<close>. Components are numbers (their
  addresses). What the manager asks of its environment is a list of actions: to execute the
  manager or a transition executor in a context, and to notify a listener. The timestamp is a
  parameter. Levels and counts fit into 8 bits, as the sizes of the arrays are at most 255.
  Logging is left out. A listener may react to a notification with a new target level, which
  is a parameter too; listeners do not change the list of listeners while they are notified.
\<close>

section \<open>State\<close>

datatype transition = INIT | RUN | SHUTDOWN

fun transition_index :: "transition \<Rightarrow> nat" where
  "transition_index INIT = 0"
| "transition_index RUN = 1"
| "transition_index SHUTDOWN = 2"

record component_info =
  ci_component :: nat
  ci_transitionTimes :: "u32 list"
  ci_isTransitionPending :: bool
  ci_lastTransition :: transition

record transition_executor =
  te_component :: nat
  te_componentIndex :: nat
  te_transition :: transition
  te_isPending :: bool

record lifecycle_manager =
  lm_componentInfos :: "component_info list"
  lm_infoCapacity :: nat
  lm_executors :: "transition_executor list"
  lm_executorCapacity :: nat
  lm_levelIndices :: "nat list"
  lm_listeners :: "nat list"
  lm_transitionStartTimestamp :: u32
  lm_transitionContext :: nat
  lm_isTransitionPending :: bool
  lm_transition :: transition
  lm_transitionLevel :: nat
  lm_levelCount :: nat
  lm_initLevelCount :: nat
  lm_currentLevel :: nat
  lm_targetLevel :: nat

datatype lm_action =
    ExecuteManager nat
  | ExecuteStart nat nat transition
  | LevelReached nat nat transition

text \<open>The component infos are the used part of the array.\<close>

definition lm_componentCount :: "lifecycle_manager \<Rightarrow> nat" where
  "lm_componentCount m = length (lm_componentInfos m)"

definition lm_new :: "nat \<Rightarrow> nat \<Rightarrow> nat \<Rightarrow> nat \<Rightarrow> lifecycle_manager" where
  "lm_new context MAX_NUM_COMPONENTS MAX_NUM_LEVELS MAX_NUM_COMPONENTS_PER_LEVEL =
     \<lparr>lm_componentInfos = [], lm_infoCapacity = MAX_NUM_COMPONENTS, lm_executors = [],
      lm_executorCapacity = MAX_NUM_COMPONENTS_PER_LEVEL,
      lm_levelIndices = replicate (MAX_NUM_LEVELS + 1) 0, lm_listeners = [],
      lm_transitionStartTimestamp = 0, lm_transitionContext = context,
      lm_isTransitionPending = False, lm_transition = INIT, lm_transitionLevel = 0,
      lm_levelCount = 0, lm_initLevelCount = 0, lm_currentLevel = 0, lm_targetLevel = 0\<rparr>"

definition getLevelComponentCount :: "nat \<Rightarrow> lifecycle_manager \<Rightarrow> nat" where
  "getLevelComponentCount level m = lm_levelIndices m ! level - lm_levelIndices m ! (level - 1)"

section \<open>Registration\<close>

text \<open>The while loop that opens the levels up to the given one.\<close>

fun lm_open_levels :: "nat \<Rightarrow> lifecycle_manager \<Rightarrow> lifecycle_manager" where
  "lm_open_levels 0 m = m"
| "lm_open_levels (Suc n) m =
     (let c = lm_levelCount m + 1
      in lm_open_levels n (m\<lparr>lm_levelCount := c,
           lm_levelIndices := (lm_levelIndices m)[c := lm_levelIndices m ! (c - 1)]\<rparr>))"

definition lm_addComponent :: "nat \<Rightarrow> nat \<Rightarrow> lifecycle_manager \<Rightarrow> lifecycle_manager option" where
  "lm_addComponent component level m =
     (if lm_componentCount m < lm_infoCapacity m \<and> level > 0 \<and> level < length (lm_levelIndices m)
         \<and> level \<ge> lm_levelCount m
      then let m = lm_open_levels (level - lm_levelCount m) m
           in if getLevelComponentCount level m < lm_executorCapacity m
              then Some (m\<lparr>lm_componentInfos := lm_componentInfos m @
                     [\<lparr>ci_component = component, ci_transitionTimes = replicate 3 0,
                       ci_isTransitionPending = False, ci_lastTransition = INIT\<rparr>],
                   lm_levelIndices := (lm_levelIndices m)[lm_levelCount m := lm_levelIndices m ! lm_levelCount m + 1]\<rparr>)
              else None
      else None)"

definition lm_transitionToLevel :: "nat \<Rightarrow> lifecycle_manager \<Rightarrow> lm_action list \<times> lifecycle_manager" where
  "lm_transitionToLevel level m =
     ([ExecuteManager (lm_transitionContext m)],
      m\<lparr>lm_targetLevel := (if level < length (lm_levelIndices m) then level else length (lm_levelIndices m) - 1)\<rparr>)"

definition lm_addLifecycleListener :: "nat \<Rightarrow> lifecycle_manager \<Rightarrow> lifecycle_manager" where
  "lm_addLifecycleListener listener m = m\<lparr>lm_listeners := listener # lm_listeners m\<rparr>"

definition lm_removeLifecycleListener :: "nat \<Rightarrow> lifecycle_manager \<Rightarrow> lifecycle_manager" where
  "lm_removeLifecycleListener listener m = m\<lparr>lm_listeners := remove1 listener (lm_listeners m)\<rparr>"

section \<open>Transitions\<close>

fun lm_find_executor :: "nat \<Rightarrow> nat \<Rightarrow> transition_executor list \<Rightarrow> nat option" where
  "lm_find_executor component i [] = None"
| "lm_find_executor component i (e # es) =
     (if te_component e = component then Some i else lm_find_executor component (i + 1) es)"

definition lm_transitionDone :: "nat \<Rightarrow> u32 \<Rightarrow> lifecycle_manager \<Rightarrow> lm_action list \<times> lifecycle_manager" where
  "lm_transitionDone component now m =
     (case lm_find_executor component 0 (lm_executors m) of
        None \<Rightarrow> ([], m)
      | Some i \<Rightarrow>
          let e = lm_executors m ! i;
              k = te_componentIndex e;
              info = lm_componentInfos m ! k
          in ([ExecuteManager (lm_transitionContext m)],
              m\<lparr>lm_executors := (lm_executors m)[i := e\<lparr>te_isPending := False\<rparr>],
                lm_componentInfos := (lm_componentInfos m)[k := info\<lparr>ci_isTransitionPending := False,
                  ci_transitionTimes := (ci_transitionTimes info)[transition_index (te_transition e)
                    := now - lm_transitionStartTimestamp m]\<rparr>]\<rparr>))"

text \<open>Notification of the listeners, each of which may react.\<close>

fun lm_notify ::
    "(nat \<Rightarrow> nat \<Rightarrow> transition \<Rightarrow> nat option) \<Rightarrow> transition \<Rightarrow> nat list \<Rightarrow> lifecycle_manager \<Rightarrow> lm_action list \<times> lifecycle_manager" where
  "lm_notify react t [] m = ([], m)"
| "lm_notify react t (l # ls) m =
     (let (acts, m') = (case react l (lm_currentLevel m) t of None \<Rightarrow> ([], m)
            | Some level \<Rightarrow> lm_transitionToLevel level m);
          (acts', m'') = lm_notify react t ls m'
      in (LevelReached l (lm_currentLevel m) t # acts @ acts', m''))"

definition lm_checkLevelTransitionDone ::
    "(nat \<Rightarrow> nat \<Rightarrow> transition \<Rightarrow> nat option) \<Rightarrow> lifecycle_manager \<Rightarrow> bool \<times> lm_action list \<times> lifecycle_manager" where
  "lm_checkLevelTransitionDone react m =
     (if \<not> lm_isTransitionPending m then (True, [], m)
      else if list_ex te_isPending (lm_executors m) then (False, [], m)
      else let m = m\<lparr>lm_isTransitionPending := False, lm_executors := []\<rparr>
           in if lm_transition m \<noteq> INIT
              then (True, lm_notify react (lm_transition m) (lm_listeners m) (m\<lparr>lm_transition := INIT\<rparr>))
              else (True, [], m))"

text \<open>
  The loop over the components of the transition's level. A component that has no context of
  its own uses the manager's.
\<close>

fun lm_start_components ::
    "(nat \<Rightarrow> transition \<Rightarrow> nat option) \<Rightarrow> nat list \<Rightarrow> lifecycle_manager \<Rightarrow> lm_action list \<times> lifecycle_manager" where
  "lm_start_components ctx [] m = ([], m)"
| "lm_start_components ctx (k # ks) m =
     (let info = lm_componentInfos m ! k;
          c = ci_component info;
          t = lm_transition m;
          (acts, m') = lm_start_components ctx ks
            (m\<lparr>lm_executors := lm_executors m @
                 [\<lparr>te_component = c, te_componentIndex = k, te_transition = t, te_isPending = True\<rparr>],
               lm_componentInfos := (lm_componentInfos m)[k := info\<lparr>ci_isTransitionPending := True, ci_lastTransition := t\<rparr>]\<rparr>)
      in (ExecuteStart (case ctx c t of None \<Rightarrow> lm_transitionContext m | Some x \<Rightarrow> x) c t # acts, m'))"

definition lm_next_transition :: "lifecycle_manager \<Rightarrow> lifecycle_manager" where
  "lm_next_transition m =
     (if lm_targetLevel m < lm_currentLevel m
      then m\<lparr>lm_transitionLevel := lm_currentLevel m, lm_currentLevel := lm_currentLevel m - 1,
             lm_transition := SHUTDOWN\<rparr>
      else if lm_initLevelCount m < lm_targetLevel m \<and> lm_initLevelCount m = lm_currentLevel m
      then m\<lparr>lm_initLevelCount := lm_initLevelCount m + 1,
             lm_transitionLevel := lm_initLevelCount m + 1, lm_transition := INIT\<rparr>
      else m\<lparr>lm_currentLevel := lm_currentLevel m + 1, lm_transitionLevel := lm_currentLevel m + 1,
             lm_transition := RUN\<rparr>)"

definition lm_execute ::
    "(nat \<Rightarrow> transition \<Rightarrow> nat option) \<Rightarrow> (nat \<Rightarrow> nat \<Rightarrow> transition \<Rightarrow> nat option) \<Rightarrow> u32 \<Rightarrow> lifecycle_manager \<Rightarrow> lm_action list \<times> lifecycle_manager" where
  "lm_execute ctx react now m =
     (let (ready, notes, m) = lm_checkLevelTransitionDone react m
      in if \<not> ready \<or> lm_currentLevel m = lm_targetLevel m \<and> lm_initLevelCount m \<ge> lm_targetLevel m
         then (notes, m)
         else let m = (lm_next_transition m)\<lparr>lm_isTransitionPending := True, lm_transitionStartTimestamp := now\<rparr>;
                  (acts, m) = lm_start_components ctx
                    [lm_levelIndices m ! (lm_transitionLevel m - 1)..<lm_levelIndices m ! lm_transitionLevel m] m
              in (notes @ acts @ (if lm_executors m = [] then [ExecuteManager (lm_transitionContext m)] else []), m))"

end
