(* ===== verification/LifecycleCorrect.thy ===== *)
theory LifecycleCorrect imports Lifecycle begin

text \<open>
  The lifecycle manager in its environment: a world of the manager, what has been handed to the
  contexts for execution and not been executed yet, the components in transition, and the
  history of transitions. The invariant relates the phase each component has reached, by the
  history, to the manager's levels.
\<close>

section \<open>The world\<close>

datatype lc_event = Started nat transition | Finished nat transition

record lc_world =
  lw_manager :: lifecycle_manager
  lw_posted :: bool
  lw_starts :: "(nat \<times> transition) list"
  lw_running :: "(nat \<times> transition) list"
  lw_history :: "lc_event list"

definition lw_new :: "lifecycle_manager \<Rightarrow> lc_world" where
  "lw_new m = \<lparr>lw_manager = m, lw_posted = False, lw_starts = [], lw_running = [], lw_history = []\<rparr>"

text \<open>A runnable that is already enqueued is not enqueued again.\<close>

fun lw_act :: "lm_action \<Rightarrow> lc_world \<Rightarrow> lc_world" where
  "lw_act (ExecuteManager x) w = w\<lparr>lw_posted := True\<rparr>"
| "lw_act (ExecuteStart x c t) w = w\<lparr>lw_starts := lw_starts w @ [(c, t)]\<rparr>"
| "lw_act (LevelReached l level t) w = w"

definition lw_acts :: "lm_action list \<times> lifecycle_manager \<Rightarrow> lc_world \<Rightarrow> lc_world" where
  "lw_acts r w = fold lw_act (fst r) (w\<lparr>lw_manager := snd r\<rparr>)"

datatype lw_label = Target nat | Manager u32 | Begin nat | Complete nat u32

text \<open>
  One step: a new target, a run of the posted manager, a posted component start, the completion
  of a component's transition. A step that is not possible is \<open>None\<close>.
\<close>

fun lw_step :: "(nat \<Rightarrow> transition \<Rightarrow> nat option) \<Rightarrow> (nat \<Rightarrow> nat \<Rightarrow> transition \<Rightarrow> nat option)
    \<Rightarrow> lw_label \<Rightarrow> lc_world \<Rightarrow> lc_world option" where
  "lw_step ctx react (Target level) w = Some (lw_acts (lm_transitionToLevel level (lw_manager w)) w)"
| "lw_step ctx react (Manager now) w =
     (if lw_posted w
      then Some (lw_acts (lm_execute ctx react now (lw_manager w)) (w\<lparr>lw_posted := False\<rparr>)) else None)"
| "lw_step ctx react (Begin i) w =
     (if i < length (lw_starts w)
      then let (c, t) = lw_starts w ! i
           in Some (w\<lparr>lw_starts := take i (lw_starts w) @ drop (i + 1) (lw_starts w),
                      lw_running := (c, t) # lw_running w,
                      lw_history := Started c t # lw_history w\<rparr>)
      else None)"
| "lw_step ctx react (Complete i now) w =
     (if i < length (lw_running w)
      then let (c, t) = lw_running w ! i
           in Some (lw_acts (lm_transitionDone c now (lw_manager w))
                (w\<lparr>lw_running := take i (lw_running w) @ drop (i + 1) (lw_running w),
                   lw_history := Finished c t # lw_history w\<rparr>))
      else None)"

inductive lw_reach for ctx react w0 where
  lw_start: "lw_reach ctx react w0 w0"
| lw_next: "lw_reach ctx react w0 w \<Longrightarrow> lw_step ctx react lab w = Some w' \<Longrightarrow> lw_reach ctx react w0 w'"

section \<open>Phases\<close>

datatype phase = New | Initializing | Initialized | Starting | Running | Stopping | Stopped

fun phase_next :: "lc_event \<Rightarrow> phase \<Rightarrow> phase option" where
  "phase_next (Started c INIT) p = (if p = New then Some Initializing else None)"
| "phase_next (Finished c INIT) p = (if p = Initializing then Some Initialized else None)"
| "phase_next (Started c RUN) p = (if p = Initialized \<or> p = Stopped then Some Starting else None)"
| "phase_next (Finished c RUN) p = (if p = Starting then Some Running else None)"
| "phase_next (Started c SHUTDOWN) p = (if p = Running then Some Stopping else None)"
| "phase_next (Finished c SHUTDOWN) p = (if p = Stopping then Some Stopped else None)"

fun event_component :: "lc_event \<Rightarrow> nat" where
  "event_component (Started c t) = c"
| "event_component (Finished c t) = c"

text \<open>The phase of a component after a history, newest event first; \<open>None\<close> if it broke the order.\<close>

fun phase_of :: "nat \<Rightarrow> lc_event list \<Rightarrow> phase option" where
  "phase_of c [] = Some New"
| "phase_of c (e # h) =
     (if event_component e = c then Option.bind (phase_of c h) (phase_next e) else phase_of c h)"

text \<open>
  The levels are respected: when a transition of a component starts, all components of lower
  levels are running, and no component of a higher level is running or in transition.
\<close>

definition start_ok :: "(nat \<times> nat) list \<Rightarrow> nat \<Rightarrow> lc_event list \<Rightarrow> bool" where
  "start_ok comps c h \<longleftrightarrow> list_all (\<lambda>(c', l').
     list_all (\<lambda>(d, l). d = c \<longrightarrow>
       (l' < l \<longrightarrow> phase_of c' h = Some Running)
       \<and> (l < l' \<longrightarrow> phase_of c' h \<in> {Some New, Some Initialized, Some Stopped})) comps) comps"

fun history_ok :: "(nat \<times> nat) list \<Rightarrow> lc_event list \<Rightarrow> bool" where
  "history_ok comps [] \<longleftrightarrow> True"
| "history_ok comps (Started c t # h) \<longleftrightarrow> start_ok comps c h \<and> history_ok comps h"
| "history_ok comps (Finished c t # h) \<longleftrightarrow> history_ok comps h"

section \<open>The invariant\<close>

definition level_comps :: "(nat \<times> nat) list \<Rightarrow> nat \<Rightarrow> nat list" where
  "level_comps comps l = map fst (filter (\<lambda>x. snd x = l) comps)"

definition comp_at :: "lifecycle_manager \<Rightarrow> nat \<Rightarrow> nat" where
  "comp_at m k = ci_component (lm_componentInfos m ! k)"

definition lm_static :: "(nat \<times> nat) list \<Rightarrow> lifecycle_manager \<Rightarrow> bool" where
  "lm_static comps m \<longleftrightarrow> distinct (map fst comps) \<and> (\<forall>x \<in> set comps. 0 < snd x \<and> snd x < length (lm_levelIndices m))
     \<and> (\<forall>l. 0 < l \<and> l < length (lm_levelIndices m) \<longrightarrow>
          map (comp_at m) [lm_levelIndices m ! (l - 1)..<lm_levelIndices m ! l] = level_comps comps l)"

definition lm_ok :: "lifecycle_manager \<Rightarrow> bool" where
  "lm_ok m \<longleftrightarrow> lm_currentLevel m \<le> lm_initLevelCount m \<and> lm_initLevelCount m < length (lm_levelIndices m)
     \<and> lm_targetLevel m < length (lm_levelIndices m)
     \<and> (lm_isTransitionPending m \<longrightarrow> (case lm_transition m of
          INIT \<Rightarrow> lm_transitionLevel m = lm_initLevelCount m \<and> lm_currentLevel m + 1 = lm_transitionLevel m
        | RUN \<Rightarrow> lm_transitionLevel m = lm_currentLevel m \<and> 0 < lm_transitionLevel m
        | SHUTDOWN \<Rightarrow> lm_transitionLevel m = lm_currentLevel m + 1 \<and> lm_transitionLevel m \<le> lm_initLevelCount m))
     \<and> (\<not> lm_isTransitionPending m \<longrightarrow> lm_executors m = [])"

fun before :: "transition \<Rightarrow> phase set" where
  "before INIT = {New}"
| "before RUN = {Initialized, Stopped}"
| "before SHUTDOWN = {Running}"

fun during :: "transition \<Rightarrow> phase" where
  "during INIT = Initializing"
| "during RUN = Starting"
| "during SHUTDOWN = Stopping"

fun after :: "transition \<Rightarrow> phase" where
  "after INIT = Initialized"
| "after RUN = Running"
| "after SHUTDOWN = Stopped"

definition stable :: "lifecycle_manager \<Rightarrow> nat \<Rightarrow> phase set" where
  "stable m l = (if l \<le> lm_currentLevel m then {Running}
     else if l \<le> lm_initLevelCount m then {Initialized, Stopped} else {New})"

definition busy :: "lc_world \<Rightarrow> nat set" where
  "busy w = fst ` (set (lw_starts w) \<union> set (lw_running w))"

definition lw_executors_ok :: "(nat \<times> nat) list \<Rightarrow> lc_world \<Rightarrow> bool" where
  "lw_executors_ok comps w \<longleftrightarrow> (let m = lw_manager w in lm_isTransitionPending m \<longrightarrow>
     map te_component (lm_executors m) = level_comps comps (lm_transitionLevel m)
     \<and> (\<forall>e \<in> set (lm_executors m). te_isPending e \<longleftrightarrow> te_component e \<in> busy w))"

definition lw_busy_ok :: "(nat \<times> nat) list \<Rightarrow> lc_world \<Rightarrow> bool" where
  "lw_busy_ok comps w \<longleftrightarrow> (let m = lw_manager w in distinct (map fst (lw_starts w @ lw_running w))
     \<and> (\<forall>x \<in> set (lw_starts w @ lw_running w). lm_isTransitionPending m \<and> snd x = lm_transition m
          \<and> (fst x, lm_transitionLevel m) \<in> set comps))"

definition lw_phase_ok :: "(nat \<times> nat) list \<Rightarrow> lc_world \<Rightarrow> bool" where
  "lw_phase_ok comps w \<longleftrightarrow> (let m = lw_manager w in \<forall>x \<in> set comps. \<exists>p. phase_of (fst x) (lw_history w) = Some p
     \<and> (if lm_isTransitionPending m \<and> snd x = lm_transitionLevel m
        then if fst x \<in> fst ` set (lw_starts w) then p \<in> before (lm_transition m)
             else if fst x \<in> fst ` set (lw_running w) then p = during (lm_transition m)
             else p = after (lm_transition m)
        else p \<in> stable m (snd x)))"

definition lw_live_ok :: "lc_world \<Rightarrow> bool" where
  "lw_live_ok w \<longleftrightarrow> (let m = lw_manager w in lw_posted w \<or> busy w \<noteq> {}
     \<or> \<not> lm_isTransitionPending m \<and> lm_currentLevel m = lm_targetLevel m
         \<and> lm_targetLevel m \<le> lm_initLevelCount m)"

definition lw_inv :: "(nat \<times> nat) list \<Rightarrow> lc_world \<Rightarrow> bool" where
  "lw_inv comps w \<longleftrightarrow> lm_static comps (lw_manager w) \<and> lm_ok (lw_manager w) \<and> lw_executors_ok comps w
     \<and> lw_busy_ok comps w \<and> lw_phase_ok comps w \<and> lw_live_ok w \<and> history_ok comps (lw_history w)"

lemma in_level_comps: "c \<in> set (level_comps comps l) \<longleftrightarrow> (c, l) \<in> set comps"
  by (auto simp: level_comps_def intro!: image_eqI [of _ _ "(c, l)"])

lemma comps_level: "distinct (map fst comps) \<Longrightarrow> (c, l) \<in> set comps \<Longrightarrow> (c, l') \<in> set comps \<Longrightarrow> l = l'"
  by (metis eq_key_imp_eq_value)

section \<open>Starting and finishing a component\<close>

lemma phase_before: "p \<in> before t \<Longrightarrow> phase_next (Started c t) p = Some (during t)"
  by (cases t) auto

lemma phase_during: "phase_next (Finished c t) (during t) = Some (after t)"
  by (cases t) auto

text \<open>A component at another level than that of the transition.\<close>

lemma lower_running:
  assumes "lw_phase_ok comps w" "lm_ok (lw_manager w)" "lm_isTransitionPending (lw_manager w)"
    and "(c, l) \<in> set comps"
  shows "l < lm_transitionLevel (lw_manager w) \<Longrightarrow> phase_of c (lw_history w) = Some Running"
    and "lm_transitionLevel (lw_manager w) < l \<Longrightarrow>
      phase_of c (lw_history w) \<in> {Some New, Some Initialized, Some Stopped}"
proof -
  let ?m = "lw_manager w"
  obtain p where p: "phase_of c (lw_history w) = Some p" "l \<noteq> lm_transitionLevel ?m \<Longrightarrow> p \<in> stable ?m l"
    using bspec [OF assms(1) [unfolded lw_phase_ok_def Let_def] assms(4)] by (auto split: if_splits)
  show "l < lm_transitionLevel ?m \<Longrightarrow> phase_of c (lw_history w) = Some Running"
    using p assms(2,3) by (auto simp: lm_ok_def stable_def split: transition.splits if_splits)
  show "lm_transitionLevel ?m < l \<Longrightarrow> phase_of c (lw_history w) \<in> {Some New, Some Initialized, Some Stopped}"
    using p assms(2,3) by (auto simp: lm_ok_def stable_def split: transition.splits if_splits)
qed

lemma take_drop_split: "i < length xs \<Longrightarrow> \<exists>ys zs. xs = ys @ xs ! i # zs \<and> take i xs @ drop (i + 1) xs = ys @ zs"
  using id_take_nth_drop by fastforce

lemma begin_inv:
  assumes inv: "lw_inv comps w" and s: "lw_starts w = ys @ (c, t) # zs"
  shows "lw_inv comps (w\<lparr>lw_starts := ys @ zs, lw_running := (c, t) # lw_running w,
    lw_history := Started c t # lw_history w\<rparr>)"
proof -
  let ?m = "lw_manager w" and ?w = "w\<lparr>lw_starts := ys @ zs, lw_running := (c, t) # lw_running w,
    lw_history := Started c t # lw_history w\<rparr>"
  have st: "lm_static comps ?m" "lm_ok ?m" "lw_executors_ok comps w" "lw_busy_ok comps w"
      "lw_phase_ok comps w" "lw_live_ok w" "history_ok comps (lw_history w)"
    using inv by (simp_all add: lw_inv_def)
  have b: "lm_isTransitionPending ?m" "t = lm_transition ?m" "(c, lm_transitionLevel ?m) \<in> set comps"
      "c \<notin> fst ` set (ys @ zs)" "c \<notin> fst ` set (lw_running w)"
    using st(4) s by (auto simp: lw_busy_ok_def Let_def)
  have d: "distinct (map fst comps)" using st(1) by (simp add: lm_static_def)
  have busy: "busy ?w = busy w" using s by (auto simp: busy_def)
  have ph: "lw_phase_ok comps ?w"
    unfolding lw_phase_ok_def Let_def
  proof
    fix x assume x: "x \<in> set comps"
    obtain p where p: "phase_of (fst x) (lw_history w) = Some p"
      "if lm_isTransitionPending ?m \<and> snd x = lm_transitionLevel ?m
        then if fst x \<in> fst ` set (lw_starts w) then p \<in> before (lm_transition ?m)
             else if fst x \<in> fst ` set (lw_running w) then p = during (lm_transition ?m)
             else p = after (lm_transition ?m)
        else p \<in> stable ?m (snd x)"
      using bspec [OF st(5) [unfolded lw_phase_ok_def Let_def] x] by blast
    show "\<exists>p. phase_of (fst x) (lw_history ?w) = Some p
     \<and> (if lm_isTransitionPending (lw_manager ?w) \<and> snd x = lm_transitionLevel (lw_manager ?w)
        then if fst x \<in> fst ` set (lw_starts ?w) then p \<in> before (lm_transition (lw_manager ?w))
             else if fst x \<in> fst ` set (lw_running ?w) then p = during (lm_transition (lw_manager ?w))
             else p = after (lm_transition (lw_manager ?w))
        else p \<in> stable (lw_manager ?w) (snd x))"
    proof (cases "fst x = c")
      case True
      then have "snd x = lm_transitionLevel ?m" using comps_level [OF d, of c] b(3) x by (metis prod.collapse)
      moreover have "fst x \<in> fst ` set (lw_starts w)" using s True by simp
      ultimately have "p \<in> before t" using p(2) b(1,2) by simp
      then show ?thesis using p(1) phase_before [of p t c] b True \<open>snd x = _\<close> by simp
    next
      case False
      then show ?thesis using p s by (intro exI [of _ p]) auto
    qed
  qed
  have "start_ok comps c (lw_history w)"
    unfolding start_ok_def list_all_iff
  proof (clarify)
    fix c' l' l assume x: "(c', l') \<in> set comps" "(c, l) \<in> set comps"
    have "l = lm_transitionLevel ?m" by (rule comps_level [OF d x(2) b(3)])
    then show "(l' < l \<longrightarrow> phase_of c' (lw_history w) = Some Running)
       \<and> (l < l' \<longrightarrow> phase_of c' (lw_history w) \<in> {Some New, Some Initialized, Some Stopped})"
      using lower_running [OF st(5,2) b(1) x(1)] by blast
  qed
  moreover have "lw_busy_ok comps ?w" using st(4) s by (auto simp: lw_busy_ok_def Let_def)
  moreover have "lw_executors_ok comps ?w" using st(3) busy by (simp add: lw_executors_ok_def)
  moreover have "lw_live_ok ?w" using b by (auto simp: lw_live_ok_def busy_def)
  ultimately show ?thesis using st ph by (simp add: lw_inv_def)
qed

text \<open>The effect of the manager's actions on the world.\<close>

fun action_starts :: "lm_action list \<Rightarrow> (nat \<times> transition) list" where
  "action_starts [] = []"
| "action_starts (ExecuteStart x c t # as) = (c, t) # action_starts as"
| "action_starts (_ # as) = action_starts as"

fun action_posts :: "lm_action list \<Rightarrow> bool" where
  "action_posts [] \<longleftrightarrow> False"
| "action_posts (ExecuteManager x # as) \<longleftrightarrow> True"
| "action_posts (_ # as) \<longleftrightarrow> action_posts as"

lemma fold_acts: "fold lw_act as w = w\<lparr>lw_posted := lw_posted w \<or> action_posts as, lw_starts := lw_starts w @ action_starts as\<rparr>"
proof (induction as arbitrary: w)
  case (Cons a as)
  then show ?case by (cases a) auto
qed simp

lemma lw_acts_eq: "lw_acts (as, m) w = w\<lparr>lw_manager := m, lw_posted := lw_posted w \<or> action_posts as,
    lw_starts := lw_starts w @ action_starts as\<rparr>"
  by (simp add: lw_acts_def fold_acts)

lemma action_append [simp]:
  "action_starts (as @ bs) = action_starts as @ action_starts bs"
  "action_posts (as @ bs) \<longleftrightarrow> action_posts as \<or> action_posts bs"
  by (induction as rule: action_starts.induct) auto

lemma find_executor_nth:
  assumes "c \<in> set (map te_component es)"
  shows "\<exists>i < length es. lm_find_executor c k es = Some (k + i) \<and> te_component (es ! i) = c"
  using assms
proof (induction es arbitrary: k)
  case (Cons e es)
  show ?case
  proof (cases "te_component e = c")
    case False
    then obtain i where "i < length es" "lm_find_executor c (k + 1) es = Some (k + 1 + i)" "te_component (es ! i) = c"
      using Cons.IH [of "k + 1"] Cons.prems by auto
    then show ?thesis using False by (intro exI [of _ "Suc i"]) simp
  qed (intro exI [of _ 0], simp)
qed simp

lemma comp_at_update:
  "ci_component x = comp_at m k \<Longrightarrow> comp_at (m\<lparr>lm_componentInfos := (lm_componentInfos m)[k := x]\<rparr>) = comp_at m"
proof
  fix j assume "ci_component x = comp_at m k"
  then show "comp_at (m\<lparr>lm_componentInfos := (lm_componentInfos m)[k := x]\<rparr>) j = comp_at m j"
    by (cases "k < length (lm_componentInfos m)"; cases "j = k") (simp_all add: comp_at_def list_update_beyond)
qed

lemma complete_inv:
  assumes inv: "lw_inv comps w" and s: "lw_running w = ys @ (c, t) # zs"
  shows "lw_inv comps (lw_acts (lm_transitionDone c now (lw_manager w))
    (w\<lparr>lw_running := ys @ zs, lw_history := Finished c t # lw_history w\<rparr>))"
proof -
  let ?m = "lw_manager w"
  have st: "lm_static comps ?m" "lm_ok ?m" "lw_executors_ok comps w" "lw_busy_ok comps w"
      "lw_phase_ok comps w" "lw_live_ok w" "history_ok comps (lw_history w)"
    using inv by (simp_all add: lw_inv_def)
  have b: "lm_isTransitionPending ?m" "t = lm_transition ?m" "(c, lm_transitionLevel ?m) \<in> set comps"
      "c \<notin> fst ` set (lw_starts w)" "c \<notin> fst ` set (ys @ zs)"
    using st(4) s by (auto simp: lw_busy_ok_def Let_def)
  have d: "distinct (map fst comps)" using st(1) by (simp add: lm_static_def)
  have ex: "map te_component (lm_executors ?m) = level_comps comps (lm_transitionLevel ?m)"
      "\<forall>e \<in> set (lm_executors ?m). te_isPending e \<longleftrightarrow> te_component e \<in> busy w"
    using st(3) b(1) by (simp_all add: lw_executors_ok_def Let_def)
  have "c \<in> set (map te_component (lm_executors ?m))" using b(3) by (simp add: ex(1) in_level_comps)
  from find_executor_nth [OF this, of 0] obtain i where
    i: "i < length (lm_executors ?m)" "lm_find_executor c 0 (lm_executors ?m) = Some i" "te_component (lm_executors ?m ! i) = c"
    by auto
  have dl: "distinct (map te_component (lm_executors ?m))"
    using d by (simp add: ex(1) level_comps_def distinct_map_filter)
  let ?e = "lm_executors ?m ! i"
  let ?es = "(lm_executors ?m)[i := ?e\<lparr>te_isPending := False\<rparr>]"
  obtain infos where m': "snd (lm_transitionDone c now ?m) = ?m\<lparr>lm_executors := ?es, lm_componentInfos := infos\<rparr>"
      "comp_at (?m\<lparr>lm_componentInfos := infos\<rparr>) = comp_at ?m"
    using i(2) by (auto simp: lm_transitionDone_def Let_def comp_at_update comp_at_def [of ?m])
  have acts: "fst (lm_transitionDone c now ?m) = [ExecuteManager (lm_transitionContext ?m)]"
    using i(2) by (simp add: lm_transitionDone_def Let_def)
  let ?w = "w\<lparr>lw_manager := ?m\<lparr>lm_executors := ?es, lm_componentInfos := infos\<rparr>, lw_posted := True,
      lw_running := ys @ zs, lw_history := Finished c t # lw_history w\<rparr>"
  have w': "lw_acts (lm_transitionDone c now ?m)
      (w\<lparr>lw_running := ys @ zs, lw_history := Finished c t # lw_history w\<rparr>) = ?w"
    by (subst surjective_pairing [of "lm_transitionDone c now ?m"])
      (simp only: acts m'(1) lw_acts_eq action_posts.simps action_starts.simps, simp)
  have busy: "busy ?w = busy w - {c}" using s b(4,5) by (auto simp: busy_def)
  have "comp_at (lw_manager ?w) = comp_at ?m" using m'(2) by (simp add: comp_at_def fun_eq_iff)
  then have "lm_static comps (lw_manager ?w)" using st(1) by (simp add: lm_static_def)
  moreover have "lm_ok (lw_manager ?w)" using st(2) b(1) by (cases "lm_transition ?m") (simp_all add: lm_ok_def)
  moreover have "lw_executors_ok comps ?w"
  proof -
    have "te_isPending e \<longleftrightarrow> te_component e \<in> busy w - {c}" if e: "e \<in> set ?es" for e
    proof -
      obtain j where j: "j < length (lm_executors ?m)" "e = ?es ! j"
        using e unfolding in_set_conv_nth length_list_update by blast
      show ?thesis
      proof (cases "j = i")
        case False
        then have "te_component (lm_executors ?m ! j) \<noteq> c"
          using dl i(1,3) j(1) by (auto simp: distinct_conv_nth)
        then show ?thesis using ex(2) j False by simp
      qed (use i j in simp)
    qed
    moreover have "map te_component ?es = map te_component (lm_executors ?m)"
      by (rule nth_equalityI) (use i(1) in \<open>auto simp: nth_list_update\<close>)
    ultimately show ?thesis unfolding lw_executors_ok_def Let_def busy by (simp add: ex(1))
  qed
  moreover have "lw_busy_ok comps ?w" using st(4) s by (auto simp: lw_busy_ok_def Let_def)
  moreover have "lw_phase_ok comps ?w"
    unfolding lw_phase_ok_def Let_def
  proof
    fix x assume x: "x \<in> set comps"
    obtain p where p: "phase_of (fst x) (lw_history w) = Some p"
      "if lm_isTransitionPending ?m \<and> snd x = lm_transitionLevel ?m
        then if fst x \<in> fst ` set (lw_starts w) then p \<in> before (lm_transition ?m)
             else if fst x \<in> fst ` set (lw_running w) then p = during (lm_transition ?m)
             else p = after (lm_transition ?m)
        else p \<in> stable ?m (snd x)"
      using bspec [OF st(5) [unfolded lw_phase_ok_def Let_def] x] by blast
    show "\<exists>p. phase_of (fst x) (lw_history ?w) = Some p
     \<and> (if lm_isTransitionPending (lw_manager ?w) \<and> snd x = lm_transitionLevel (lw_manager ?w)
        then if fst x \<in> fst ` set (lw_starts ?w) then p \<in> before (lm_transition (lw_manager ?w))
             else if fst x \<in> fst ` set (lw_running ?w) then p = during (lm_transition (lw_manager ?w))
             else p = after (lm_transition (lw_manager ?w))
        else p \<in> stable (lw_manager ?w) (snd x))"
    proof (cases "fst x = c")
      case True
      then have "snd x = lm_transitionLevel ?m" using comps_level [OF d, of c] b(3) x by (metis prod.collapse)
      moreover have "fst x \<in> fst ` set (lw_running w)" using s True by simp
      ultimately have "p = during t" using p(2) b(1,2,4) True by simp
      then show ?thesis using p(1) phase_during [of c t] b True \<open>snd x = _\<close> by simp
    next
      case False
      then show ?thesis using p s by (intro exI [of _ p]) (auto simp: stable_def)
    qed
  qed
  moreover have "lw_live_ok ?w" by (simp add: lw_live_ok_def)
  ultimately show ?thesis using st(7) unfolding w' by (simp add: lw_inv_def)
qed

section \<open>A run of the manager\<close>

lemma notify_target:
  assumes "lm_targetLevel m < length (lm_levelIndices m)"
  shows "\<exists>x < length (lm_levelIndices m). snd (lm_notify react t ls m) = m\<lparr>lm_targetLevel := x\<rparr>
    \<and> action_starts (fst (lm_notify react t ls m)) = []"
  using assms
proof (induction ls arbitrary: m)
  case Nil
  then show ?case by (intro exI [of _ "lm_targetLevel m"]) simp
next
  case (Cons l ls)
  obtain acts m' where r: "(case react l (lm_currentLevel m) t of None \<Rightarrow> ([], m)
      | Some level \<Rightarrow> lm_transitionToLevel level m) = (acts, m')" by fastforce
  have m': "\<exists>y < length (lm_levelIndices m). m' = m\<lparr>lm_targetLevel := y\<rparr>" "action_starts acts = []"
  proof -
    have "0 < length (lm_levelIndices m)" using Cons.prems by linarith
    then have to: "\<exists>y < length (lm_levelIndices m). snd (lm_transitionToLevel lv m) = m\<lparr>lm_targetLevel := y\<rparr>" for lv
      by (intro exI [of _ "if lv < length (lm_levelIndices m) then lv else length (lm_levelIndices m) - 1"])
        (simp add: lm_transitionToLevel_def)
    have "\<exists>y < length (lm_levelIndices m). m' = m\<lparr>lm_targetLevel := y\<rparr> \<and> action_starts acts = []"
    proof (cases "react l (lm_currentLevel m) t")
      case None
      then show ?thesis using r Cons.prems by (intro exI [of _ "lm_targetLevel m"]) auto
    next
      case (Some lv)
      then have "m' = snd (lm_transitionToLevel lv m)" "action_starts acts = []"
        using r by (auto simp: lm_transitionToLevel_def)
      then show ?thesis using to by metis
    qed
    then show "\<exists>y < length (lm_levelIndices m). m' = m\<lparr>lm_targetLevel := y\<rparr>" "action_starts acts = []" by auto
  qed
  then obtain y where y: "y < length (lm_levelIndices m)" "m' = m\<lparr>lm_targetLevel := y\<rparr>" by blast
  have "lm_targetLevel m' < length (lm_levelIndices m')" using y by simp
  from Cons.IH [OF this] obtain x where x: "x < length (lm_levelIndices m)"
      "snd (lm_notify react t ls m') = m\<lparr>lm_targetLevel := x\<rparr>" "action_starts (fst (lm_notify react t ls m')) = []"
    using y by auto
  have n: "lm_notify react t (l # ls) m =
      (LevelReached l (lm_currentLevel m) t # acts @ fst (lm_notify react t ls m'), snd (lm_notify react t ls m'))"
    using r by (simp add: case_prod_unfold Let_def)
  show ?case unfolding n using x m'(2) by auto
qed

lemma start_components_eq:
  "\<exists>infos. snd (lm_start_components ctx ks m) = m\<lparr>lm_executors := lm_executors m @
        map (\<lambda>k. \<lparr>te_component = comp_at m k, te_componentIndex = k, te_transition = lm_transition m, te_isPending = True\<rparr>) ks,
      lm_componentInfos := infos\<rparr>
    \<and> comp_at (m\<lparr>lm_componentInfos := infos\<rparr>) = comp_at m
    \<and> action_starts (fst (lm_start_components ctx ks m)) = map (\<lambda>k. (comp_at m k, lm_transition m)) ks
    \<and> \<not> action_posts (fst (lm_start_components ctx ks m))"
proof (induction ks arbitrary: m)
  case Nil
  show ?case by (intro exI [of _ "lm_componentInfos m"]) simp
next
  case (Cons k ks)
  let ?i = "(lm_componentInfos m)[k := (lm_componentInfos m ! k)\<lparr>ci_isTransitionPending := True,
      ci_lastTransition := lm_transition m\<rparr>]"
  let ?e = "\<lparr>te_component = comp_at m k, te_componentIndex = k, te_transition = lm_transition m, te_isPending = True\<rparr>"
  let ?m = "m\<lparr>lm_executors := lm_executors m @ [?e], lm_componentInfos := ?i\<rparr>"
  have c: "comp_at (m\<lparr>lm_componentInfos := ?i\<rparr>) = comp_at m"
    by (rule comp_at_update) (simp add: comp_at_def)
  then have c': "comp_at ?m = comp_at m" by (simp add: comp_at_def fun_eq_iff)
  obtain infos where ih: "snd (lm_start_components ctx ks ?m) = ?m\<lparr>lm_executors := lm_executors ?m @
        map (\<lambda>k. \<lparr>te_component = comp_at ?m k, te_componentIndex = k, te_transition = lm_transition ?m, te_isPending = True\<rparr>) ks,
      lm_componentInfos := infos\<rparr>" "comp_at (?m\<lparr>lm_componentInfos := infos\<rparr>) = comp_at ?m"
    "action_starts (fst (lm_start_components ctx ks ?m)) = map (\<lambda>k. (comp_at ?m k, lm_transition ?m)) ks"
    "\<not> action_posts (fst (lm_start_components ctx ks ?m))"
    using Cons.IH [of ?m] by blast
  have e: "lm_start_components ctx (k # ks) m =
      (ExecuteStart (case ctx (comp_at m k) (lm_transition m) of None \<Rightarrow> lm_transitionContext m | Some x \<Rightarrow> x)
         (comp_at m k) (lm_transition m) # fst (lm_start_components ctx ks ?m),
       snd (lm_start_components ctx ks ?m))"
    by (simp add: case_prod_unfold Let_def comp_at_def)
  show ?case unfolding e using ih(1,3,4) ih(2) c'
    by (intro exI [of _ infos]) (simp add: comp_at_def fun_eq_iff)
qed

text \<open>When no executor is pending, nothing is under way and all phases are stable.\<close>

lemma level_done:
  assumes inv: "lw_inv comps w" and p: "lm_isTransitionPending (lw_manager w)"
    and r: "\<not> list_ex te_isPending (lm_executors (lw_manager w))"
  shows "lw_starts w = []" "lw_running w = []"
    and "\<forall>x \<in> set comps. \<exists>p. phase_of (fst x) (lw_history w) = Some p \<and> p \<in> stable (lw_manager w) (snd x)"
proof -
  let ?m = "lw_manager w"
  have st: "lm_ok ?m" "lw_executors_ok comps w" "lw_busy_ok comps w" "lw_phase_ok comps w"
    using inv by (simp_all add: lw_inv_def)
  have "\<not> (c, t) \<in> set (lw_starts w @ lw_running w)" for c t
  proof
    assume ct: "(c, t) \<in> set (lw_starts w @ lw_running w)"
    then have "(c, lm_transitionLevel ?m) \<in> set comps" using st(3) by (force simp: lw_busy_ok_def Let_def)
    then have "c \<in> set (map te_component (lm_executors ?m))"
      using st(2) p by (simp add: lw_executors_ok_def Let_def in_level_comps)
    then obtain e where e: "e \<in> set (lm_executors ?m)" "te_component e = c" by auto
    moreover have "c \<in> busy w" using ct by (force simp: busy_def)
    ultimately have "te_isPending e" using st(2) p by (simp add: lw_executors_ok_def Let_def)
    then show False using r e(1) by (auto simp: list_ex_iff)
  qed
  then have "lw_starts w @ lw_running w = []" by (metis last_in_set surj_pair)
  then show n: "lw_starts w = []" "lw_running w = []" by auto
  show "\<forall>x \<in> set comps. \<exists>p. phase_of (fst x) (lw_history w) = Some p \<and> p \<in> stable ?m (snd x)"
  proof
    fix x assume x: "x \<in> set comps"
    obtain q where q: "phase_of (fst x) (lw_history w) = Some q"
      "if snd x = lm_transitionLevel ?m then q = after (lm_transition ?m) else q \<in> stable ?m (snd x)"
      using bspec [OF st(4) [unfolded lw_phase_ok_def Let_def] x] p n by auto
    have "after (lm_transition ?m) \<in> stable ?m (lm_transitionLevel ?m)"
      using st(1) p by (cases "lm_transition ?m") (auto simp: lm_ok_def stable_def)
    then show "\<exists>p. phase_of (fst x) (lw_history w) = Some p \<and> p \<in> stable ?m (snd x)" using q by (auto split: if_splits)
  qed
qed

text \<open>A quiet world: no transition is pending and nothing is under way.\<close>

definition quiet :: "(nat \<times> nat) list \<Rightarrow> lc_world \<Rightarrow> bool" where
  "quiet comps w \<longleftrightarrow> lm_static comps (lw_manager w) \<and> lm_ok (lw_manager w) \<and> \<not> lm_isTransitionPending (lw_manager w)
     \<and> lw_starts w = [] \<and> lw_running w = [] \<and> history_ok comps (lw_history w)
     \<and> (\<forall>x \<in> set comps. \<exists>p. phase_of (fst x) (lw_history w) = Some p \<and> p \<in> stable (lw_manager w) (snd x))"

lemma quiet_inv: "quiet comps w \<Longrightarrow> lw_live_ok w \<Longrightarrow> lw_inv comps w"
  by (auto simp: quiet_def lw_inv_def lw_executors_ok_def lw_busy_ok_def lw_phase_ok_def Let_def)

lemma notify_none:
  "(\<And>l lev t. react l lev t = None) \<Longrightarrow> snd (lm_notify react t ls m) = m \<and> \<not> action_posts (fst (lm_notify react t ls m))"
  by (induction ls) (simp_all add: case_prod_unfold Let_def)

lemma check_quiet:
  assumes inv: "lw_inv comps w"
    and ch: "lm_checkLevelTransitionDone react (lw_manager w) = (ready, notes, m)"
  shows "action_starts notes = []"
    and "ready \<Longrightarrow> quiet comps (w\<lparr>lw_manager := m\<rparr>)"
    and "\<not> ready \<Longrightarrow> m = lw_manager w \<and> notes = [] \<and> busy w \<noteq> {}"
    and "ready \<Longrightarrow> lm_currentLevel m = lm_currentLevel (lw_manager w)
      \<and> lm_initLevelCount m = lm_initLevelCount (lw_manager w)"
    and "(\<And>l lev t. react l lev t = None) \<Longrightarrow> lm_targetLevel m = lm_targetLevel (lw_manager w) \<and> \<not> action_posts notes"
proof -
  let ?m = "lw_manager w"
  have st: "lm_static comps ?m" "lm_ok ?m" "lw_executors_ok comps w" "history_ok comps (lw_history w)"
    using inv by (simp_all add: lw_inv_def)
  have "action_starts notes = [] \<and> (ready \<longrightarrow> quiet comps (w\<lparr>lw_manager := m\<rparr>))
    \<and> (\<not> ready \<longrightarrow> m = ?m \<and> notes = [] \<and> busy w \<noteq> {})
    \<and> (ready \<longrightarrow> lm_currentLevel m = lm_currentLevel ?m \<and> lm_initLevelCount m = lm_initLevelCount ?m)
    \<and> ((\<forall>l lev t. react l lev t = None) \<longrightarrow> lm_targetLevel m = lm_targetLevel ?m \<and> \<not> action_posts notes)"
  proof (cases "lm_isTransitionPending ?m")
    case False
    then have e: "ready" "notes = []" "m = ?m" using ch by (auto simp: lm_checkLevelTransitionDone_def)
    have "set (lw_starts w @ lw_running w) = {}"
    proof (rule equals0I)
      fix x assume "x \<in> set (lw_starts w @ lw_running w)"
      then show False using inv False by (simp only: lw_inv_def lw_busy_ok_def Let_def) blast
    qed
    then have n: "lw_starts w = []" "lw_running w = []" by (simp_all only: set_empty append_is_Nil_conv)
    have "\<forall>x \<in> set comps. \<exists>p. phase_of (fst x) (lw_history w) = Some p \<and> p \<in> stable ?m (snd x)"
      using inv False by (simp add: lw_inv_def lw_phase_ok_def Let_def)
    then show ?thesis using n e st False by (simp add: quiet_def)
  next
    case pend: True
    show ?thesis
    proof (cases "list_ex te_isPending (lm_executors ?m)")
      case True
      then have e: "\<not> ready" "notes = []" "m = ?m" using ch pend by (auto simp: lm_checkLevelTransitionDone_def)
      from True obtain e where "e \<in> set (lm_executors ?m)" "te_isPending e" by (auto simp: list_ex_iff)
      then have "te_component e \<in> busy w" using st(3) pend by (simp add: lw_executors_ok_def Let_def)
      then show ?thesis using e by auto
    next
      case False
      note d = level_done [OF inv pend False]
      define m1 where "m1 = ?m\<lparr>lm_isTransitionPending := False, lm_executors := [], lm_transition := INIT\<rparr>"
      have ok1: "lm_targetLevel m1 < length (lm_levelIndices m1)" using st(2) by (simp add: lm_ok_def m1_def)
      have ready: ready using ch pend False by (auto simp: lm_checkLevelTransitionDone_def Let_def split: if_splits)
      have "\<exists>x < length (lm_levelIndices ?m). m = m1\<lparr>lm_targetLevel := x\<rparr>" and a: "action_starts notes = []"
        and none: "(\<forall>l lev t. react l lev t = None) \<longrightarrow> lm_targetLevel m = lm_targetLevel ?m \<and> \<not> action_posts notes"
      proof -
        have "(\<exists>x < length (lm_levelIndices ?m). m = m1\<lparr>lm_targetLevel := x\<rparr>) \<and> action_starts notes = []
          \<and> ((\<forall>l lev t. react l lev t = None) \<longrightarrow> lm_targetLevel m = lm_targetLevel ?m \<and> \<not> action_posts notes)"
        proof (cases "lm_transition ?m = INIT")
          case True
          then have e: "m = ?m\<lparr>lm_isTransitionPending := False, lm_executors := []\<rparr>" "notes = []" using ch pend False
            by (simp_all add: lm_checkLevelTransitionDone_def Let_def)
          have "m\<lparr>lm_transition := lm_transition m\<rparr> = m" by simp
          then have "m = m1" using e(1) True by (simp add: m1_def)
          then show ?thesis using ok1 e(2) by (intro conjI exI [of _ "lm_targetLevel m1"]) (simp_all add: m1_def)
        next
          case nI: False
          then have "(notes, m) = lm_notify react (lm_transition ?m) (lm_listeners ?m) m1" using ch pend False
            by (simp add: lm_checkLevelTransitionDone_def Let_def m1_def)
          then have "notes = fst (lm_notify react (lm_transition ?m) (lm_listeners ?m) m1)"
              "m = snd (lm_notify react (lm_transition ?m) (lm_listeners ?m) m1)" by (metis fst_conv snd_conv)+
          then show ?thesis using notify_target [OF ok1, of react "lm_transition ?m" "lm_listeners ?m"]
              notify_none [of react "lm_transition ?m" "lm_listeners ?m" m1]
            by (auto simp: m1_def)
        qed
        then show "\<exists>x < length (lm_levelIndices ?m). m = m1\<lparr>lm_targetLevel := x\<rparr>" "action_starts notes = []"
          "(\<forall>l lev t. react l lev t = None) \<longrightarrow> lm_targetLevel m = lm_targetLevel ?m \<and> \<not> action_posts notes" by blast+
      qed
      then obtain x where x: "x < length (lm_levelIndices ?m)" "m = m1\<lparr>lm_targetLevel := x\<rparr>" by blast
      have "comp_at m = comp_at ?m" by (simp add: x(2) m1_def comp_at_def fun_eq_iff)
      then have "lm_static comps m" using st(1) x(2) by (simp add: lm_static_def m1_def)
      moreover have "lm_ok m" using st(2) x by (simp add: lm_ok_def m1_def)
      moreover have "stable m = stable ?m" by (simp add: x(2) m1_def stable_def fun_eq_iff)
      ultimately have "quiet comps (w\<lparr>lw_manager := m\<rparr>)"
        using d st(4) x(2) by (simp add: quiet_def m1_def)
      then show ?thesis using ready a none x(2) by (simp add: m1_def)
    qed
  qed
  then show "action_starts notes = []"
    and "ready \<Longrightarrow> quiet comps (w\<lparr>lw_manager := m\<rparr>)"
    and "\<not> ready \<Longrightarrow> m = lw_manager w \<and> notes = [] \<and> busy w \<noteq> {}"
    and "ready \<Longrightarrow> lm_currentLevel m = lm_currentLevel (lw_manager w)
      \<and> lm_initLevelCount m = lm_initLevelCount (lw_manager w)"
    and "(\<And>l lev t. react l lev t = None) \<Longrightarrow> lm_targetLevel m = lm_targetLevel (lw_manager w) \<and> \<not> action_posts notes"
    by blast+
qed

definition lm_idle :: "lifecycle_manager \<Rightarrow> bool" where
  "lm_idle m \<longleftrightarrow> lm_currentLevel m = lm_targetLevel m \<and> lm_targetLevel m \<le> lm_initLevelCount m"

text \<open>The next transition leaves the stable phases of all levels but its own.\<close>

lemma next_transition_ok:
  assumes ok: "lm_ok m" and idle: "\<not> lm_idle m" and n: "n = lm_next_transition m"
  shows "0 < lm_transitionLevel n" "lm_transitionLevel n < length (lm_levelIndices n)"
    and "lm_ok (n\<lparr>lm_isTransitionPending := True, lm_transitionStartTimestamp := now\<rparr>)"
    and "stable m (lm_transitionLevel n) = before (lm_transition n)"
    and "l \<noteq> lm_transitionLevel n \<Longrightarrow> stable n l = stable m l"
    and "lm_levelIndices n = lm_levelIndices m" "comp_at n = comp_at m" "lm_executors n = lm_executors m"
    and "lm_targetLevel n = lm_targetLevel m"
proof -
  have b: "lm_currentLevel m \<le> lm_initLevelCount m" "lm_initLevelCount m < length (lm_levelIndices m)"
      "lm_targetLevel m < length (lm_levelIndices m)"
    using ok by (simp_all add: lm_ok_def)
  consider "lm_targetLevel m < lm_currentLevel m"
    | "lm_initLevelCount m < lm_targetLevel m" "lm_initLevelCount m = lm_currentLevel m"
    | "lm_currentLevel m < lm_targetLevel m" "lm_currentLevel m < lm_initLevelCount m"
    using idle b(1) by (fastforce simp: lm_idle_def)
  then have "0 < lm_transitionLevel n \<and> lm_transitionLevel n < length (lm_levelIndices n)
    \<and> lm_ok (n\<lparr>lm_isTransitionPending := True, lm_transitionStartTimestamp := now\<rparr>)
    \<and> stable m (lm_transitionLevel n) = before (lm_transition n)
    \<and> (l \<noteq> lm_transitionLevel n \<longrightarrow> stable n l = stable m l)"
    by cases (use b in \<open>auto simp: n lm_next_transition_def lm_ok_def stable_def\<close>)
  then show "0 < lm_transitionLevel n" "lm_transitionLevel n < length (lm_levelIndices n)"
    "lm_ok (n\<lparr>lm_isTransitionPending := True, lm_transitionStartTimestamp := now\<rparr>)"
    "stable m (lm_transitionLevel n) = before (lm_transition n)"
    "l \<noteq> lm_transitionLevel n \<Longrightarrow> stable n l = stable m l"
    by blast+
  show "lm_levelIndices n = lm_levelIndices m" "comp_at n = comp_at m" "lm_executors n = lm_executors m"
    "lm_targetLevel n = lm_targetLevel m"
    by (auto simp: n lm_next_transition_def comp_at_def fun_eq_iff)
qed

lemma transition_inv:
  assumes q: "quiet comps w" and idle: "\<not> lm_idle (lw_manager w)"
    and m: "m = (lm_next_transition (lw_manager w))\<lparr>lm_isTransitionPending := True, lm_transitionStartTimestamp := now\<rparr>"
    and r: "lm_start_components ctx
        [lm_levelIndices m ! (lm_transitionLevel m - 1)..<lm_levelIndices m ! lm_transitionLevel m] m = (acts, m')"
    and p: "p \<or> level_comps comps (lm_transitionLevel m) \<noteq> []"
  shows "lw_inv comps (w\<lparr>lw_manager := m', lw_posted := p, lw_starts := lw_starts w @ action_starts acts\<rparr>)"
    and "lm_executors m' = [] \<longleftrightarrow> level_comps comps (lm_transitionLevel m) = []" "\<not> action_posts acts"
    and "action_starts acts = map (\<lambda>c. (c, lm_transition m)) (level_comps comps (lm_transitionLevel m))"
    and "m' = m\<lparr>lm_executors := lm_executors m', lm_componentInfos := lm_componentInfos m'\<rparr>"
proof -
  let ?m = "lw_manager w" and ?T = "lm_transitionLevel m" and ?t = "lm_transition m"
  let ?ks = "[lm_levelIndices m ! (?T - 1)..<lm_levelIndices m ! ?T]"
  let ?w = "w\<lparr>lw_manager := m', lw_posted := p, lw_starts := lw_starts w @ action_starts acts\<rparr>"
  have qs: "lm_static comps ?m" "lm_ok ?m" "\<not> lm_isTransitionPending ?m" "lw_starts w = []" "lw_running w = []"
      "history_ok comps (lw_history w)" "lm_executors ?m = []"
    using q by (simp_all add: quiet_def lm_ok_def)
  have ph: "\<exists>p. phase_of (fst x) (lw_history w) = Some p \<and> p \<in> stable ?m (snd x)" if "x \<in> set comps" for x
    using q that by (simp add: quiet_def)
  note n = next_transition_ok [OF qs(2) idle refl]
  obtain infos where s: "m' = m\<lparr>lm_executors := lm_executors m @
        map (\<lambda>k. \<lparr>te_component = comp_at m k, te_componentIndex = k, te_transition = ?t, te_isPending = True\<rparr>) ?ks,
      lm_componentInfos := infos\<rparr>"
    "comp_at (m\<lparr>lm_componentInfos := infos\<rparr>) = comp_at m"
    "action_starts acts = map (\<lambda>k. (comp_at m k, ?t)) ?ks" "\<not> action_posts acts"
    using start_components_eq [of ctx ?ks m] unfolding r by auto
  have cm: "comp_at m = comp_at ?m" using n(7) by (simp add: m comp_at_def fun_eq_iff)
  have cm': "comp_at m' = comp_at ?m" using s(1,2) cm by (simp add: comp_at_def fun_eq_iff)
  have li: "lm_levelIndices m = lm_levelIndices ?m" using n(6) by (simp add: m)
  have lv: "map (comp_at ?m) ?ks = level_comps comps ?T"
    using qs(1) n(1,2,6) by (simp add: lm_static_def m)
  have ex: "map te_component (lm_executors m') = level_comps comps ?T" "\<forall>e \<in> set (lm_executors m'). te_isPending e"
    using lv qs(7) n(8) by (auto simp: s(1) m comp_def cm [symmetric])
  have st: "action_starts acts = map (\<lambda>c. (c, ?t)) (level_comps comps ?T)"
    by (simp add: s(3) cm lv [symmetric] comp_def)
  show "lm_executors m' = [] \<longleftrightarrow> level_comps comps ?T = []" using ex(1) by (metis map_is_Nil_conv)
  show "\<not> action_posts acts" "action_starts acts = map (\<lambda>c. (c, ?t)) (level_comps comps ?T)" by (rule s(4), rule st)
  show "m' = m\<lparr>lm_executors := lm_executors m', lm_componentInfos := lm_componentInfos m'\<rparr>" by (simp add: s(1))
  have bz: "busy ?w = set (level_comps comps ?T)" using qs(4,5) by (auto simp: busy_def st image_image)
  have d: "distinct (map fst comps)" using qs(1) by (simp add: lm_static_def)
  have m'eq: "lm_transition m' = ?t" "lm_transitionLevel m' = ?T" "lm_isTransitionPending m'"
      "lm_levelIndices m' = lm_levelIndices ?m"
    using li by (simp_all add: s(1) m)
  have "lm_static comps m'" using qs(1) m'eq(4) cm' by (simp add: lm_static_def)
  moreover have "lm_ok m'"
  proof -
    have "lm_ok m" unfolding m by (rule n(3))
    moreover have "lm_isTransitionPending m" by (simp add: m)
    ultimately show ?thesis by (cases "lm_transition m") (simp_all add: s(1) lm_ok_def)
  qed
  moreover have "lw_executors_ok comps ?w"
  proof -
    have "te_component e \<in> set (level_comps comps ?T)" if "e \<in> set (lm_executors m')" for e
      using that unfolding ex(1) [symmetric] by simp
    then show ?thesis unfolding lw_executors_ok_def Let_def bz using ex m'eq by simp
  qed
  moreover have "lw_busy_ok comps ?w"
    using d qs(4,5) m'eq by (auto simp: lw_busy_ok_def Let_def st in_level_comps comp_def level_comps_def distinct_map_filter)
  moreover have "lw_phase_ok comps ?w"
    unfolding lw_phase_ok_def Let_def
  proof
    fix x assume x: "x \<in> set comps"
    obtain p where p: "phase_of (fst x) (lw_history w) = Some p" "p \<in> stable ?m (snd x)" using ph [OF x] by blast
    have stb: "stable m' l = stable ?m l" if "l \<noteq> ?T" for l
    proof -
      have "stable m' l = stable (lm_next_transition ?m) l" by (simp add: s(1) m stable_def)
      then show ?thesis using n(5) that by (simp add: m)
    qed
    have in_starts: "fst x \<in> fst ` set (action_starts acts)" if "snd x = ?T"
    proof -
      have "fst x \<in> set (level_comps comps ?T)" using x that by (metis in_level_comps prod.collapse)
      then show ?thesis by (simp add: st image_image)
    qed
    have "stable ?m ?T = before ?t" using n(4) by (simp add: m)
    then show "\<exists>p. phase_of (fst x) (lw_history ?w) = Some p
     \<and> (if lm_isTransitionPending (lw_manager ?w) \<and> snd x = lm_transitionLevel (lw_manager ?w)
        then if fst x \<in> fst ` set (lw_starts ?w) then p \<in> before (lm_transition (lw_manager ?w))
             else if fst x \<in> fst ` set (lw_running ?w) then p = during (lm_transition (lw_manager ?w))
             else p = after (lm_transition (lw_manager ?w))
        else p \<in> stable (lw_manager ?w) (snd x))"
      using p m'eq in_starts stb qs(4) by (intro exI [of _ p]) auto
  qed
  moreover have "lw_live_ok ?w" using p bz by (auto simp: lw_live_ok_def)
  ultimately show "lw_inv comps ?w" using qs(6) by (simp add: lw_inv_def)
qed

section \<open>Progress\<close>

text \<open>The number of level transitions to the target, and the measure of a world.\<close>

definition lm_distance :: "lifecycle_manager \<Rightarrow> nat" where
  "lm_distance m = (if lm_targetLevel m < lm_currentLevel m then lm_currentLevel m - lm_targetLevel m
     else (lm_targetLevel m - lm_currentLevel m) + (lm_targetLevel m - lm_initLevelCount m))"

definition lw_measure :: "(nat \<times> nat) list \<Rightarrow> lc_world \<Rightarrow> nat" where
  "lw_measure comps w = (4 * length comps + 1) * lm_distance (lw_manager w) + 4 * length (lw_starts w)
     + 2 * length (lw_running w) + (if lw_posted w then 1 else 0)"

lemma next_transition_distance:
  "lm_ok m \<Longrightarrow> \<not> lm_idle m \<Longrightarrow> Suc (lm_distance (lm_next_transition m)) = lm_distance m"
  by (auto simp: lm_distance_def lm_idle_def lm_ok_def lm_next_transition_def)

lemma length_level_comps: "length (level_comps comps l) \<le> length comps"
  by (simp add: level_comps_def)

lemma measure_transition:
  assumes "Suc d' = d" "n \<le> N"
  shows "(4 * N + 1) * d' + 4 * n + 1 < (4 * N + 1) * d + (1 :: nat)"
proof -
  have "(4 * N + 1) * d = (4 * N + 1) * d' + (4 * N + 1)" unfolding assms(1) [symmetric] by simp
  then show ?thesis using assms(2) by linarith
qed

lemma posted_inv:
  "lw_inv comps (w\<lparr>lw_posted := b\<rparr>) \<longleftrightarrow> lm_static comps (lw_manager w) \<and> lm_ok (lw_manager w) \<and> lw_executors_ok comps w
     \<and> lw_busy_ok comps w \<and> lw_phase_ok comps w \<and> lw_live_ok (w\<lparr>lw_posted := b\<rparr>) \<and> history_ok comps (lw_history w)"
proof -
  have "lw_phase_ok comps (w\<lparr>lw_posted := b\<rparr>) = lw_phase_ok comps w" by (simp add: lw_phase_ok_def)
  moreover have "lw_executors_ok comps (w\<lparr>lw_posted := b\<rparr>) = lw_executors_ok comps w"
    by (simp add: lw_executors_ok_def busy_def)
  moreover have "lw_busy_ok comps (w\<lparr>lw_posted := b\<rparr>) = lw_busy_ok comps w" by (simp add: lw_busy_ok_def)
  ultimately show ?thesis by (simp add: lw_inv_def)
qed

lemma execute_inv:
  assumes inv: "lw_inv comps w"
    and w': "w' = lw_acts (lm_execute ctx react now (lw_manager w)) (w\<lparr>lw_posted := False\<rparr>)"
  shows "lw_inv comps w'"
    and "(\<And>l lev t. react l lev t = None) \<Longrightarrow> lm_targetLevel (lw_manager w') = lm_targetLevel (lw_manager w)"
    and "(\<And>l lev t. react l lev t = None) \<Longrightarrow> lw_posted w \<Longrightarrow> lw_measure comps w' < lw_measure comps w"
proof -
  let ?none = "\<forall>l lev t. react l lev t = None"
  let ?m = "lw_manager w"
  obtain ready nts m where ch: "lm_checkLevelTransitionDone react ?m = (ready, nts, m)"
    by (cases "lm_checkLevelTransitionDone react ?m") auto
  note c = check_quiet [OF inv ch]
  have "lw_inv comps w' \<and> (?none \<longrightarrow> lm_targetLevel (lw_manager w') = lm_targetLevel ?m)
    \<and> (?none \<longrightarrow> lw_posted w \<longrightarrow> lw_measure comps w' < lw_measure comps w)"
  proof (cases "ready \<and> \<not> lm_idle m")
    case False
    then have "lm_execute ctx react now ?m = (nts, m)"
      by (auto simp: lm_execute_def ch Let_def lm_idle_def)
    then have w'': "w' = w\<lparr>lw_manager := m, lw_posted := action_posts nts\<rparr>"
      using c(1) by (simp add: w' lw_acts_eq)
    have "lw_inv comps w'"
    proof (cases ready)
      case True
      have "quiet comps w'" using c(2) [OF True] by (simp add: w'' quiet_def)
      moreover have "lw_live_ok w'"
        using False True c(2) by (simp add: w'' lw_live_ok_def lm_idle_def quiet_def)
      ultimately show ?thesis by (rule quiet_inv)
    next
      case no: False
      note n = c(3) [OF no]
      have "w' = w\<lparr>lw_posted := False\<rparr>" using n by (simp add: w'')
      moreover have "lw_live_ok (w\<lparr>lw_posted := False\<rparr>)" using n by (simp add: lw_live_ok_def busy_def)
      ultimately show ?thesis using inv by (simp only: posted_inv) (simp add: lw_inv_def)
    qed
    moreover have "lm_distance m = lm_distance ?m" if ?none
    proof (cases ready)
      case True
      then show ?thesis using c(4,5) that by (simp add: lm_distance_def)
    next
      case no: False
      then show ?thesis using c(3) by simp
    qed
    ultimately show ?thesis using c(5) by (auto simp: w'' lw_measure_def)
  next
    case True
    then have ready: "ready" and idle: "\<not> lm_idle m" by auto
    define m1 where "m1 = (lm_next_transition m)\<lparr>lm_isTransitionPending := True, lm_transitionStartTimestamp := now\<rparr>"
    obtain acts m2 where r: "lm_start_components ctx
        [lm_levelIndices m1 ! (lm_transitionLevel m1 - 1)..<lm_levelIndices m1 ! lm_transitionLevel m1] m1 = (acts, m2)"
      by fastforce
    let ?w = "w\<lparr>lw_manager := m\<rparr>"
    let ?e = "lm_executors m2 = []"
    define p where "p = (action_posts nts \<or> ?e)"
    have q: "quiet comps ?w" by (rule c(2) [OF ready])
    have ok: "lm_ok m" and em: "lw_starts w = []" "lw_running w = []" using q by (simp_all add: quiet_def)
    have idle': "\<not> lm_idle (lw_manager ?w)" using idle by simp
    have m1': "m1 = (lm_next_transition (lw_manager ?w))\<lparr>lm_isTransitionPending := True, lm_transitionStartTimestamp := now\<rparr>"
      by (simp add: m1_def)
    have "lm_executors m2 = [] \<longleftrightarrow> level_comps comps (lm_transitionLevel m1) = []"
      by (rule transition_inv(2) [OF q idle' m1' r disjI1 [OF TrueI]])
    then have pp: "p \<or> level_comps comps (lm_transitionLevel m1) \<noteq> []" by (auto simp: p_def)
    note t = transition_inv [OF q idle' m1' r pp]
    have "lm_execute ctx react now ?m = (nts @ acts @ (if ?e then [ExecuteManager (lm_transitionContext m2)] else []), m2)"
    proof -
      have "(\<not> ready \<or> lm_currentLevel m = lm_targetLevel m \<and> lm_initLevelCount m \<ge> lm_targetLevel m) = False"
        using ready idle by (auto simp: lm_idle_def)
      then show ?thesis by (simp only: lm_execute_def ch prod.case Let_def if_False m1_def [symmetric] r)
    qed
    then have w'': "w' = ?w\<lparr>lw_manager := m2, lw_posted := p, lw_starts := lw_starts ?w @ action_starts acts\<rparr>"
      using c(1) t(3) by (auto simp: w' lw_acts_eq p_def)
    have "lw_inv comps w'" unfolding w'' by (rule t(1))
    moreover have tl: "lm_targetLevel m2 = lm_targetLevel m"
      using arg_cong [OF t(5), of lm_targetLevel] next_transition_ok(9) [OF ok idle refl] by (simp add: m1_def)
    moreover have "lw_measure comps w' < lw_measure comps w" if none: ?none and po: "lw_posted w"
    proof -
      have "lm_distance m2 = lm_distance (lm_next_transition m)"
        using arg_cong [OF t(5), of lm_distance] by (simp add: lm_distance_def m1_def)
      moreover have "lm_distance m = lm_distance ?m" using c(4) [OF ready] c(5) none by (simp add: lm_distance_def)
      ultimately have "Suc (lm_distance m2) = lm_distance ?m" using next_transition_distance [OF ok idle] by simp
      from measure_transition [OF this length_level_comps [of comps "lm_transitionLevel m1"]]
      show ?thesis using em po by (simp add: w'' lw_measure_def t(4))
    qed
    ultimately show ?thesis using c(5) by (simp add: w'')
  qed
  then show "lw_inv comps w'"
    "(\<And>l lev t. react l lev t = None) \<Longrightarrow> lm_targetLevel (lw_manager w') = lm_targetLevel ?m"
    "(\<And>l lev t. react l lev t = None) \<Longrightarrow> lw_posted w \<Longrightarrow> lw_measure comps w' < lw_measure comps w"
    by blast+
qed

section \<open>Every step\<close>

lemma target_phase: "lw_phase_ok comps (w\<lparr>lw_manager := lw_manager w\<lparr>lm_targetLevel := x\<rparr>\<rparr>) = lw_phase_ok comps w"
proof -
  have "stable (lw_manager w\<lparr>lm_targetLevel := x\<rparr>) = stable (lw_manager w)" by (simp add: stable_def fun_eq_iff)
  then show ?thesis unfolding lw_phase_ok_def Let_def by (simp split del: if_split cong: if_cong)
qed

lemma lm_ok_target: "lm_ok (m\<lparr>lm_targetLevel := x\<rparr>) \<longleftrightarrow> lm_ok (m\<lparr>lm_targetLevel := 0\<rparr>) \<and> x < length (lm_levelIndices m)"
  by (cases "lm_transition m") (auto simp: lm_ok_def)

lemma target_inv:
  assumes inv: "lw_inv comps w"
  shows "lw_inv comps (lw_acts (lm_transitionToLevel level (lw_manager w)) w)"
proof -
  let ?m = "lw_manager w"
  define x where "x = (if level < length (lm_levelIndices ?m) then level else length (lm_levelIndices ?m) - 1)"
  let ?w = "w\<lparr>lw_manager := ?m\<lparr>lm_targetLevel := x\<rparr>\<rparr>"
  have e: "lw_acts (lm_transitionToLevel level ?m) w = ?w\<lparr>lw_posted := True\<rparr>"
    by (simp add: lm_transitionToLevel_def lw_acts_eq x_def)
  have st: "lm_static comps ?m" "lm_ok ?m" "lw_executors_ok comps w" "lw_busy_ok comps w"
      "lw_phase_ok comps w" "history_ok comps (lw_history w)"
    using inv by (simp_all add: lw_inv_def)
  have "0 < length (lm_levelIndices ?m)" using st(2) by (auto simp: lm_ok_def)
  then have "x < length (lm_levelIndices ?m)" by (simp add: x_def)
  then have "lm_ok (lw_manager ?w)" using st(2) lm_ok_target [of "lm_targetLevel ?m" ?m] lm_ok_target [of x ?m] by simp
  moreover have "comp_at (lw_manager ?w) = comp_at ?m" by (simp add: comp_at_def fun_eq_iff)
  then have "lm_static comps (lw_manager ?w)" using st(1) by (simp add: lm_static_def)
  moreover have "lw_executors_ok comps ?w" "lw_busy_ok comps ?w" "lw_live_ok (?w\<lparr>lw_posted := True\<rparr>)"
    using st(3,4) by (simp_all add: lw_executors_ok_def lw_busy_ok_def lw_live_ok_def busy_def Let_def)
  ultimately show ?thesis
    unfolding e posted_inv using st(5,6) target_phase by simp
qed

lemma remove_measure:
  assumes "i < length xs"
  shows "length (take i xs @ drop (i + 1) xs) + 1 = length xs"
  using assms by simp

lemma done_frame:
  assumes "lm_transitionDone c now m = (acts, m')"
  shows "lm_distance m' = lm_distance m" "lm_targetLevel m' = lm_targetLevel m" "action_starts acts = []"
  using assms by (auto simp: lm_transitionDone_def lm_distance_def Let_def split: option.splits)

lemma step_inv:
  assumes inv: "lw_inv comps w" and step: "lw_step ctx react lab w = Some w'"
  shows "lw_inv comps w'"
proof (cases lab)
  case (Target level)
  then show ?thesis using step target_inv [OF inv] by auto
next
  case (Manager now)
  then show ?thesis using step execute_inv(1) [OF inv refl, of ctx react now] by (simp split: if_splits)
next
  case (Begin i)
  then have i: "i < length (lw_starts w)" using step by (simp split: if_splits)
  obtain c t where ct: "lw_starts w ! i = (c, t)" by fastforce
  from take_drop_split [OF i] obtain ys zs where "lw_starts w = ys @ (c, t) # zs"
    "take i (lw_starts w) @ drop (i + 1) (lw_starts w) = ys @ zs" using ct by auto
  then show ?thesis using begin_inv [OF inv, of ys c t zs] step Begin i ct by auto
next
  case (Complete i now)
  then have i: "i < length (lw_running w)" using step by (simp split: if_splits)
  obtain c t where ct: "lw_running w ! i = (c, t)" by fastforce
  from take_drop_split [OF i] obtain ys zs where "lw_running w = ys @ (c, t) # zs"
    "take i (lw_running w) @ drop (i + 1) (lw_running w) = ys @ zs" using ct by auto
  then show ?thesis using complete_inv [OF inv, of ys c t zs now] step Complete i ct by auto
qed

lemma reach_inv: "lw_reach ctx react w0 w \<Longrightarrow> lw_inv comps w0 \<Longrightarrow> lw_inv comps w"
  by (induction rule: lw_reach.induct) (auto intro: step_inv)

fun is_target :: "lw_label \<Rightarrow> bool" where
  "is_target (Target level) \<longleftrightarrow> True"
| "is_target (Manager now) \<longleftrightarrow> False"
| "is_target (Begin i) \<longleftrightarrow> False"
| "is_target (Complete i now) \<longleftrightarrow> False"

lemma step_progress:
  assumes inv: "lw_inv comps w" and step: "lw_step ctx (\<lambda>l lev t. None) lab w = Some w'" and lab: "\<not> is_target lab"
  shows "lw_measure comps w' < lw_measure comps w \<and> lm_targetLevel (lw_manager w') = lm_targetLevel (lw_manager w)"
proof (cases lab)
  case (Target level)
  then show ?thesis using lab by simp
next
  case (Manager now)
  then show ?thesis using step execute_inv(2,3) [OF inv refl, of "\<lambda>l lev t. None" ctx now] by (simp split: if_splits)
next
  case (Begin i)
  then have i: "i < length (lw_starts w)" using step by (simp split: if_splits)
  then show ?thesis using step Begin remove_measure [OF i] by (auto simp: lw_measure_def case_prod_unfold Let_def)
next
  case (Complete i now)
  then have i: "i < length (lw_running w)" using step by (simp split: if_splits)
  obtain c t where ct: "lw_running w ! i = (c, t)" by fastforce
  obtain acts m' where r: "lm_transitionDone c now (lw_manager w) = (acts, m')" by fastforce
  have "w' = w\<lparr>lw_running := take i (lw_running w) @ drop (i + 1) (lw_running w),
      lw_history := Finished c t # lw_history w, lw_manager := m', lw_posted := lw_posted w \<or> action_posts acts\<rparr>"
    using step Complete i ct r done_frame(3) [OF r] by (simp add: lw_acts_eq)
  then show ?thesis using i done_frame(1,2) [OF r] by (auto simp: lw_measure_def)
qed

fun lw_run :: "(nat \<Rightarrow> transition \<Rightarrow> nat option) \<Rightarrow> (nat \<Rightarrow> nat \<Rightarrow> transition \<Rightarrow> nat option)
    \<Rightarrow> lw_label list \<Rightarrow> lc_world \<Rightarrow> lc_world option" where
  "lw_run ctx react [] w = Some w"
| "lw_run ctx react (lab # labs) w = Option.bind (lw_step ctx react lab w) (lw_run ctx react labs)"

lemma run_progress:
  assumes "lw_inv comps w" "lw_run ctx (\<lambda>l lev t. None) labs w = Some w'" "\<not> list_ex is_target labs"
  shows "lw_inv comps w' \<and> length labs + lw_measure comps w' \<le> lw_measure comps w
    \<and> lm_targetLevel (lw_manager w') = lm_targetLevel (lw_manager w)"
  using assms
proof (induction labs arbitrary: w)
  case (Cons lab labs)
  then obtain v where v: "lw_step ctx (\<lambda>l lev t. None) lab w = Some v" "lw_run ctx (\<lambda>l lev t. None) labs v = Some w'"
    by (auto simp: bind_eq_Some_conv)
  then show ?case using Cons.IH [of v] step_inv [OF Cons.prems(1) v(1)] step_progress [OF Cons.prems(1) v(1)] Cons.prems(3)
    by fastforce
qed simp

text \<open>A world in which nothing is left to happen has reached the target.\<close>

definition lw_stuck :: "lc_world \<Rightarrow> bool" where
  "lw_stuck w \<longleftrightarrow> \<not> lw_posted w \<and> lw_starts w = [] \<and> lw_running w = []"

lemma stuck_steps: "lw_stuck w \<longleftrightarrow> (\<forall>lab. \<not> is_target lab \<longrightarrow> lw_step ctx react lab w = None)"
proof
  assume s: "lw_stuck w"
  show "\<forall>lab. \<not> is_target lab \<longrightarrow> lw_step ctx react lab w = None"
  proof (intro allI impI)
    fix lab assume "\<not> is_target lab"
    then show "lw_step ctx react lab w = None" using s by (cases lab) (simp_all add: lw_stuck_def)
  qed
next
  assume a: "\<forall>lab. \<not> is_target lab \<longrightarrow> lw_step ctx react lab w = None"
  show "lw_stuck w"
    using spec [OF a, of "Manager 0"] spec [OF a, of "Begin 0"] spec [OF a, of "Complete 0 0"]
    by (auto simp: lw_stuck_def case_prod_unfold Let_def split: if_splits)
qed

lemma stuck_phases:
  assumes inv: "lw_inv comps w" and s: "lw_stuck w" and c: "(c, l) \<in> set comps"
  shows "lm_currentLevel (lw_manager w) = lm_targetLevel (lw_manager w)"
    and "l \<le> lm_targetLevel (lw_manager w) \<Longrightarrow> phase_of c (lw_history w) = Some Running"
    and "lm_targetLevel (lw_manager w) < l \<Longrightarrow> phase_of c (lw_history w) \<in> {Some New, Some Initialized, Some Stopped}"
proof -
  let ?m = "lw_manager w"
  have l: "\<not> lm_isTransitionPending ?m" "lm_currentLevel ?m = lm_targetLevel ?m"
    using inv s by (auto simp: lw_inv_def lw_live_ok_def lw_stuck_def busy_def Let_def)
  then obtain p where p: "phase_of c (lw_history w) = Some p" "p \<in> stable ?m l"
    using inv c by (fastforce simp: lw_inv_def lw_phase_ok_def Let_def)
  show "lm_currentLevel ?m = lm_targetLevel ?m" by (rule l(2))
  show "l \<le> lm_targetLevel ?m \<Longrightarrow> phase_of c (lw_history w) = Some Running"
    using p l(2) by (simp add: stable_def)
  show "lm_targetLevel ?m < l \<Longrightarrow> phase_of c (lw_history w) \<in> {Some New, Some Initialized, Some Stopped}"
    using p l(2) by (auto simp: stable_def split: if_splits)
qed

section \<open>Registration\<close>

fun lm_register :: "(nat \<times> nat) list \<Rightarrow> lifecycle_manager \<Rightarrow> lifecycle_manager option" where
  "lm_register [] m = Some m"
| "lm_register ((c, l) # comps) m = Option.bind (lm_addComponent c l m) (lm_register comps)"

definition lm_fresh :: "lifecycle_manager \<Rightarrow> bool" where
  "lm_fresh m \<longleftrightarrow> \<not> lm_isTransitionPending m \<and> lm_executors m = [] \<and> lm_currentLevel m = 0
     \<and> lm_initLevelCount m = 0 \<and> lm_targetLevel m = 0"

definition reg_ok :: "(nat \<times> nat) list \<Rightarrow> lifecycle_manager \<Rightarrow> bool" where
  "reg_ok comps m \<longleftrightarrow> lm_levelCount m < length (lm_levelIndices m) \<and> lm_fresh m
     \<and> lm_levelIndices m ! lm_levelCount m = length (lm_componentInfos m)
     \<and> (\<forall>l \<le> lm_levelCount m. lm_levelIndices m ! l \<le> length (lm_componentInfos m))
     \<and> (\<forall>l. lm_levelCount m < l \<and> l < length (lm_levelIndices m) \<longrightarrow> lm_levelIndices m ! l = 0)
     \<and> (\<forall>l. 0 < l \<and> l < length (lm_levelIndices m) \<longrightarrow>
          map (comp_at m) [lm_levelIndices m ! (l - 1)..<lm_levelIndices m ! l] = level_comps comps l)
     \<and> (\<forall>x \<in> set comps. 0 < snd x \<and> snd x \<le> lm_levelCount m)"

lemma no_level: "(\<forall>x \<in> set comps. snd x \<le> n) \<Longrightarrow> n < l \<Longrightarrow> level_comps comps l = []"
  by (force simp: level_comps_def filter_empty_conv)

lemma open_one:
  assumes ok: "reg_ok comps m" and b: "lm_levelCount m + 1 < length (lm_levelIndices m)"
    and m': "m' = m\<lparr>lm_levelCount := lm_levelCount m + 1,
        lm_levelIndices := (lm_levelIndices m)[lm_levelCount m + 1 := lm_levelIndices m ! (lm_levelCount m + 1 - 1)]\<rparr>"
  shows "reg_ok comps m'"
proof -
  let ?c = "lm_levelCount m"
  have ca: "comp_at m' = comp_at m" by (simp add: m' comp_at_def fun_eq_iff)
  have "\<forall>l. 0 < l \<and> l < length (lm_levelIndices m') \<longrightarrow>
          map (comp_at m') [lm_levelIndices m' ! (l - 1)..<lm_levelIndices m' ! l] = level_comps comps l"
  proof (intro allI impI)
    fix l assume l: "0 < l \<and> l < length (lm_levelIndices m')"
    consider "l \<le> ?c" | "l = ?c + 1" | "?c + 1 < l" by linarith
    then show "map (comp_at m') [lm_levelIndices m' ! (l - 1)..<lm_levelIndices m' ! l] = level_comps comps l"
    proof cases
      case 1
      then show ?thesis using ok l b unfolding ca by (simp add: m' reg_ok_def)
    next
      case 2
      then show ?thesis using no_level [of comps ?c l] ok b by (simp add: m' reg_ok_def)
    next
      case 3
      then show ?thesis using no_level [of comps ?c l] ok b l by (simp add: m' reg_ok_def)
    qed
  qed
  then show ?thesis using ok b by (auto simp: reg_ok_def m' lm_fresh_def nth_list_update)
qed

lemma open_levels_ok:
  "reg_ok comps m \<Longrightarrow> lm_levelCount m + n < length (lm_levelIndices m) \<Longrightarrow> reg_ok comps (lm_open_levels n m)
     \<and> lm_levelCount (lm_open_levels n m) = lm_levelCount m + n
     \<and> length (lm_levelIndices (lm_open_levels n m)) = length (lm_levelIndices m)"
proof (induction n arbitrary: m)
  case (Suc n)
  let ?m = "m\<lparr>lm_levelCount := lm_levelCount m + 1,
        lm_levelIndices := (lm_levelIndices m)[lm_levelCount m + 1 := lm_levelIndices m ! (lm_levelCount m + 1 - 1)]\<rparr>"
  have "reg_ok comps ?m" using open_one [OF Suc.prems(1) _ refl] Suc.prems(2) by simp
  then show ?case using Suc.IH [of ?m] Suc.prems(2) by (simp add: Let_def)
qed simp

lemma add_component_ok:
  assumes ok: "reg_ok comps m" and a: "lm_addComponent c level m = Some m'"
  shows "reg_ok (comps @ [(c, level)]) m'"
proof -
  have b: "0 < level" "level < length (lm_levelIndices m)" "lm_levelCount m \<le> level"
    using a by (auto simp: lm_addComponent_def split: if_splits)
  define n where "n = lm_open_levels (level - lm_levelCount m) m"
  have n: "reg_ok comps n" "lm_levelCount n = level" "length (lm_levelIndices n) = length (lm_levelIndices m)"
    using open_levels_ok [OF ok, of "level - lm_levelCount m"] b by (simp_all add: n_def)
  let ?k = "length (lm_componentInfos n)"
  let ?i = "\<lparr>ci_component = c, ci_transitionTimes = replicate 3 0, ci_isTransitionPending = False, ci_lastTransition = INIT\<rparr>"
  have m': "m' = n\<lparr>lm_componentInfos := lm_componentInfos n @ [?i],
      lm_levelIndices := (lm_levelIndices n)[level := ?k + 1]\<rparr>"
    using a n by (auto simp: lm_addComponent_def n_def Let_def reg_ok_def split: if_splits)
  have ca: "comp_at m' j = (if j = ?k then c else comp_at n j)" if "j \<le> ?k" for j
    using that by (simp add: m' comp_at_def nth_append)
  have lev: "map (comp_at n) [lm_levelIndices n ! (l - 1)..<lm_levelIndices n ! l] = level_comps comps l"
    if "0 < l" "l < length (lm_levelIndices n)" for l
    using n(1) that by (simp add: reg_ok_def)
  have le: "lm_levelIndices n ! l \<le> ?k" if "l \<le> level" for l using n(1,2) that by (simp add: reg_ok_def)
  have k: "lm_levelIndices n ! level = ?k" using n(1,2) by (simp add: reg_ok_def)
  have z: "lm_levelIndices n ! l = 0" if "level < l" "l < length (lm_levelIndices n)" for l
    using n(1,2) that by (simp add: reg_ok_def)
  have in_n: "\<forall>x \<in> set comps. 0 < snd x \<and> snd x \<le> level" "lm_fresh n" using n(1,2) by (simp_all add: reg_ok_def)
  have "map (comp_at m') [lm_levelIndices m' ! (l - 1)..<lm_levelIndices m' ! l] = level_comps (comps @ [(c, level)]) l"
    if l: "0 < l" "l < length (lm_levelIndices m')" for l
  proof -
    have l': "l < length (lm_levelIndices n)" using l by (simp add: m')
    consider "l < level" | "l = level" | "level < l" by linarith
    then show ?thesis
    proof cases
      case 1
      have "comp_at m' j = comp_at n j" if "j < lm_levelIndices n ! l" for j
        using that le [of l] 1 ca [of j] by simp
      then have "map (comp_at m') [lm_levelIndices n ! (l - 1)..<lm_levelIndices n ! l]
          = map (comp_at n) [lm_levelIndices n ! (l - 1)..<lm_levelIndices n ! l]"
        by (intro map_cong refl) simp
      then have "map (comp_at m') [lm_levelIndices n ! (l - 1)..<lm_levelIndices n ! l] = level_comps comps l"
        using lev [OF l(1) l'] by (rule trans)
      moreover have "lm_levelIndices m' ! l = lm_levelIndices n ! l" "lm_levelIndices m' ! (l - 1) = lm_levelIndices n ! (l - 1)"
        using 1 by (simp_all add: m')
      ultimately show ?thesis using 1 by (simp add: level_comps_def)
    next
      case 2
      have "lm_levelIndices n ! (level - 1) \<le> ?k" using le by simp
      moreover have "map (comp_at m') [lm_levelIndices n ! (level - 1)..<?k] = level_comps comps level"
      proof -
        have "map (comp_at m') [lm_levelIndices n ! (level - 1)..<?k] = map (comp_at n) [lm_levelIndices n ! (level - 1)..<?k]"
          using ca by (intro map_cong refl) simp
        then show ?thesis using lev [OF l(1) l', unfolded 2 k] by (rule trans)
      qed
      moreover have "lm_levelIndices m' ! level = ?k + 1" "lm_levelIndices m' ! (level - 1) = lm_levelIndices n ! (level - 1)"
        using b n(3) by (simp_all add: m')
      ultimately show ?thesis using 2 ca [of ?k] by (simp add: level_comps_def)
    next
      case 3
      then show ?thesis using z [OF _ l'] no_level [of "comps @ [(c, level)]" level l] in_n by (auto simp: m')
    qed
  qed
  moreover have "lm_fresh m'" using in_n(2) by (simp add: lm_fresh_def m')
  moreover have "lm_levelIndices m' ! l \<le> length (lm_componentInfos m')" if "l \<le> level" for l
    using le [OF that] b n(3) by (auto simp: m' nth_list_update)
  ultimately show ?thesis using in_n(1) n(2,3) b z by (auto simp: reg_ok_def m')
qed

lemma register_ok: "reg_ok comps m \<Longrightarrow> lm_register rest m = Some m' \<Longrightarrow> reg_ok (comps @ rest) m'"
proof (induction rest arbitrary: comps m)
  case (Cons x rest)
  obtain c l where x: "x = (c, l)" by fastforce
  then obtain n where n: "lm_addComponent c l m = Some n" "lm_register rest n = Some m'"
    using Cons.prems(2) by (auto simp: bind_eq_Some_conv)
  show ?case using Cons.IH [OF add_component_ok [OF Cons.prems(1) n(1)] n(2)] x by simp
qed simp

theorem registered_inv:
  assumes "lm_register comps (lm_new ctx0 C L P) = Some m" "distinct (map fst comps)"
  shows "lw_inv comps (lw_new m)"
proof -
  have "reg_ok [] (lm_new ctx0 C L P)"
    by (auto simp: reg_ok_def lm_new_def lm_fresh_def level_comps_def nth_Cons' less_Suc_eq_le)
  from register_ok [OF this assms(1)] have ok: "reg_ok comps m" by simp
  then have "lm_static comps m" using assms(2) by (auto simp: reg_ok_def lm_static_def)
  moreover have "lm_ok m" using ok by (auto simp: reg_ok_def lm_ok_def lm_fresh_def)
  ultimately have "quiet comps (lw_new m)"
    using ok by (auto simp: quiet_def lw_new_def reg_ok_def lm_fresh_def stable_def)
  then show ?thesis
    using ok by (intro quiet_inv) (auto simp: lw_live_ok_def lw_new_def reg_ok_def lm_fresh_def)
qed

end
