(* ===== verification/LifecycleProps.thy ===== *)
theory LifecycleProps imports LifecycleCorrect begin

text \<open>
  The properties of the lifecycle manager in its environment: components follow their levels, and
  a requested level is reached.
\<close>

text \<open>C10: However the runs of the manager, the starts and the completions of the components and the
  requests for levels interleave, and whatever the listeners request, every component goes through
  its phases in the declared order: it is initialised once and first, and from then on runs and shuts
  down in turn. Whenever a transition of a component starts, all components of lower levels are
  running and none of a higher level is running or in transition.\<close>

theorem components_follow_the_levels:
  assumes "lm_register comps (lm_new ctx0 C L P) = Some m" "distinct (map fst comps)"
    and "lw_reach ctx react (lw_new m) w"
  shows "(\<forall>x \<in> set comps. phase_of (fst x) (lw_history w) \<noteq> None) \<and> history_ok comps (lw_history w)"
proof -
  have inv: "lw_inv comps w" by (rule reach_inv [OF assms(3) registered_inv [OF assms(1,2)]])
  have "phase_of (fst x) (lw_history w) \<noteq> None" if "x \<in> set comps" for x
    using inv that by (fastforce simp: lw_inv_def lw_phase_ok_def Let_def)
  then show ?thesis using inv by (simp add: lw_inv_def)
qed

definition two_components :: lifecycle_manager where
  "two_components = the (lm_register [(7, 1), (8, 2)] (lm_new 0 4 3 2))"

definition none_react :: "nat \<Rightarrow> nat \<Rightarrow> transition \<Rightarrow> nat option" where
  "none_react l lev t = None"

theorem components_follow_the_levels_witness:
  "phase_of 7 (lw_history (the (lw_step (\<lambda>c t. None) none_react (Target 2) (lw_new two_components)))) \<noteq> None
   \<and> history_ok [(7, 1), (8, 2)] (lw_history (the (lw_step (\<lambda>c t. None) none_react (Target 2) (lw_new two_components))))"
proof -
  have r: "lm_register [(7, 1), (8, 2)] (lm_new 0 4 3 2) = Some two_components"
    by (simp add: two_components_def) code_simp
  have d: "distinct (map fst [(7 :: nat, 1), (8, 2 :: nat)])" by simp
  have w: "lw_reach (\<lambda>c t. None) none_react (lw_new two_components)
      (the (lw_step (\<lambda>c t. None) none_react (Target 2) (lw_new two_components)))"
    by (rule lw_next [OF lw_start, where lab = "Target 2"]) simp
  show ?thesis using components_follow_the_levels [OF r d w] by fastforce
qed

text \<open>C9: After a request for a level the manager reaches it, if no listener interferes: only a bounded
  number of steps can follow, in whatever order they are taken, and when none is possible
  any more, all components up to the level are running and no other component is running or
  in transition.\<close>

theorem requested_level_is_reached:
  assumes "lm_register comps (lm_new ctx0 C L P) = Some m" "distinct (map fst comps)"
    and "lw_reach ctx none_react (lw_new m) w"
    and "lw_step ctx none_react (Target level) w = Some w1"
    and "\<not> list_ex is_target labs" "lw_run ctx none_react labs w1 = Some w2"
  shows "length labs \<le> lw_measure comps w1
    \<and> ((\<forall>lab. \<not> is_target lab \<longrightarrow> lw_step ctx none_react lab w2 = None) \<longrightarrow>
        list_all (\<lambda>(c, l). if l \<le> level then phase_of c (lw_history w2) = Some Running
          else phase_of c (lw_history w2) \<in> {Some New, Some Initialized, Some Stopped}) comps)"
proof -
  have n: "none_react = (\<lambda>l lev t. None)" by (simp add: fun_eq_iff none_react_def)
  have inv: "lw_inv comps w" by (rule reach_inv [OF assms(3) registered_inv [OF assms(1,2)]])
  have inv1: "lw_inv comps w1" by (rule step_inv [OF inv assms(4)])
  note r = run_progress [OF inv1 assms(6) [unfolded n] assms(5)]
  let ?n = "length (lm_levelIndices (lw_manager w1))"
  have t: "lm_targetLevel (lw_manager w1) = (if level < ?n then level else ?n - 1)"
    using assms(4) by (auto simp: lw_acts_eq lm_transitionToLevel_def)
  have "if l \<le> level then phase_of c (lw_history w2) = Some Running
          else phase_of c (lw_history w2) \<in> {Some New, Some Initialized, Some Stopped}"
    if stuck: "\<forall>lab. \<not> is_target lab \<longrightarrow> lw_step ctx none_react lab w2 = None" and c: "(c, l) \<in> set comps" for c l
  proof -
    have "lw_stuck w2" using stuck stuck_steps by blast
    note p = stuck_phases [OF conjunct1 [OF r] this c]
    have "l < ?n" using inv1 c by (auto simp: lw_inv_def lm_static_def)
    then have "l \<le> level \<longleftrightarrow> l \<le> lm_targetLevel (lw_manager w2)" using r t by auto
    then show ?thesis using p(2,3) by auto
  qed
  then show ?thesis using r by (fastforce simp: list_all_iff simp del: insert_iff split del: if_split)
qed

definition manager_steps :: "lw_label list" where
  "manager_steps = [Manager 0, Begin 0, Complete 0 5, Manager 6, Begin 0, Complete 0 7, Manager 8]"

definition manager_end :: lc_world where
  "manager_end = the (lw_run (\<lambda>c t. None) none_react (Target 1 # manager_steps) (lw_new two_components))"

lemma manager_end_stuck: "lw_stuck manager_end" by code_simp

theorem requested_level_is_reached_witness:
  "length manager_steps \<le> lw_measure [(7, 1), (8, 2)] (the (lw_step (\<lambda>c t. None) none_react (Target 1) (lw_new two_components)))
    \<and> list_all (\<lambda>(c, l). if l \<le> 1 then phase_of c (lw_history manager_end) = Some Running
          else phase_of c (lw_history manager_end) \<in> {Some New, Some Initialized, Some Stopped}) [(7, 1), (8, 2 :: nat)]"
proof -
  have r: "lm_register [(7, 1), (8, 2)] (lm_new 0 4 3 2) = Some two_components"
    by (simp add: two_components_def) code_simp
  have d: "distinct (map fst [(7 :: nat, 1), (8, 2 :: nat)])" by simp
  have s: "lw_step (\<lambda>c t. None) none_react (Target 1) (lw_new two_components)
      = Some (the (lw_step (\<lambda>c t. None) none_react (Target 1) (lw_new two_components)))" by simp
  have t: "\<not> list_ex is_target manager_steps" by (simp add: manager_steps_def)
  have "lw_run (\<lambda>c t. None) none_react (Target 1 # manager_steps) (lw_new two_components) \<noteq> None" by code_simp
  then have e: "lw_run (\<lambda>c t. None) none_react manager_steps (the (lw_step (\<lambda>c t. None) none_react (Target 1) (lw_new two_components)))
      = Some manager_end"
    by (auto simp: bind_eq_Some_conv manager_end_def simp del: lw_step.simps)
  show ?thesis
    using requested_level_is_reached [OF r d lw_start s t e] iffD1 [OF stuck_steps manager_end_stuck] by blast
qed

end
