(* ===== verification/CanFilters.thy ===== *)
theory CanFilters imports BswPrelude begin

text \<open>
  CAN identifiers and the filters of \<^verbatim>\<open>libs/bsw/cpp2can\<close>: the bit field over the base
  identifiers, the constant bit field, the interval and the mask filter, the merging of a filter
  into a bit field, and the distribution of received frames by the hardware independent part of
  the transceiver.
\<close>

section \<open>Identifiers\<close>

definition EXTENDED_QUALIFIER_BIT :: u32 where "EXTENDED_QUALIFIER_BIT = 0x80000000"
definition INVALID_QUALIFIER_BIT :: u32 where "INVALID_QUALIFIER_BIT = 0x40000000"
definition FORCE_NON_FD_QUALIFIER_BIT :: u32 where "FORCE_NON_FD_QUALIFIER_BIT = 0x20000000"

definition id_base :: "u16 \<Rightarrow> u32" where "id_base baseId = ucast baseId"

definition id_extended :: "u32 \<Rightarrow> u32" where "id_extended extendedId = extendedId OR EXTENDED_QUALIFIER_BIT"

definition id_forceNoFd :: "u32 \<Rightarrow> u32" where "id_forceNoFd i = i OR FORCE_NON_FD_QUALIFIER_BIT"

definition id_id :: "u32 \<Rightarrow> bool \<Rightarrow> u32" where
  "id_id value isValueExtended = value OR (if isValueExtended then EXTENDED_QUALIFIER_BIT else 0)"

definition id_id_fd :: "u32 \<Rightarrow> bool \<Rightarrow> bool \<Rightarrow> u32" where
  "id_id_fd value isValueExtended forceNoFd =
     value OR (if isValueExtended then EXTENDED_QUALIFIER_BIT else 0)
       OR (if forceNoFd then FORCE_NON_FD_QUALIFIER_BIT else 0)"

definition id_rawId :: "u32 \<Rightarrow> u32" where
  "id_rawId value = value AND NOT (EXTENDED_QUALIFIER_BIT OR FORCE_NON_FD_QUALIFIER_BIT)"

definition id_isValid :: "u32 \<Rightarrow> bool" where "id_isValid value \<longleftrightarrow> value AND INVALID_QUALIFIER_BIT = 0"

definition id_isBase :: "u32 \<Rightarrow> bool" where "id_isBase value \<longleftrightarrow> value AND EXTENDED_QUALIFIER_BIT = 0"

definition id_isExtended :: "u32 \<Rightarrow> bool" where "id_isExtended value \<longleftrightarrow> value AND EXTENDED_QUALIFIER_BIT \<noteq> 0"

definition id_isForceNoFd :: "u32 \<Rightarrow> bool" where "id_isForceNoFd value \<longleftrightarrow> value AND FORCE_NON_FD_QUALIFIER_BIT \<noteq> 0"

section \<open>Frames\<close>

text \<open>The payload is the whole array of \<open>MAX_FRAME_LENGTH\<close> bytes (8, or 64 with FD frames).\<close>

record can_frame =
  cf_id :: u32
  cf_timestamp :: u32
  cf_payload :: "u8 list"
  cf_payloadLength :: nat

definition MAX_FRAME_ID :: u32 where "MAX_FRAME_ID = 0x7FF"
definition MAX_FRAME_ID_EXTENDED :: u32 where "MAX_FRAME_ID_EXTENDED = 0x1FFFFFFF"

definition cf_empty :: "nat \<Rightarrow> can_frame" where
  "cf_empty MAX_FRAME_LENGTH =
     \<lparr>cf_id = 0, cf_timestamp = 0, cf_payload = replicate MAX_FRAME_LENGTH 0, cf_payloadLength = 0\<rparr>"

definition cf_with_id :: "nat \<Rightarrow> u32 \<Rightarrow> can_frame" where
  "cf_with_id MAX_FRAME_LENGTH i =
     \<lparr>cf_id = i, cf_timestamp = 0, cf_payload = replicate MAX_FRAME_LENGTH 0xFF, cf_payloadLength = 0\<rparr>"

text \<open>The bytes behind the copied ones are not initialised; their values are a parameter.\<close>

definition cf_new :: "u8 list \<Rightarrow> u32 \<Rightarrow> u8 list \<Rightarrow> can_frame option" where
  "cf_new uninit i payload = do {
     ensure (length payload \<le> length uninit);
     Some \<lparr>cf_id = i, cf_timestamp = 0, cf_payload = payload @ drop (length payload) uninit,
           cf_payloadLength = length payload\<rparr> }"

definition cf_new_raw :: "u8 list \<Rightarrow> u32 \<Rightarrow> u8 list \<Rightarrow> bool \<Rightarrow> can_frame option" where
  "cf_new_raw uninit rawId payload isExtendedId = do {
     ensure (rawId \<le> MAX_FRAME_ID_EXTENDED);
     cf_new uninit (id_id rawId isExtendedId) payload }"

definition cf_setPayload :: "u8 list \<Rightarrow> can_frame \<Rightarrow> can_frame option" where
  "cf_setPayload payload f = do {
     ensure (length payload \<le> length (cf_payload f));
     Some (f\<lparr>cf_payload := payload @ drop (length payload) (cf_payload f), cf_payloadLength := length payload\<rparr>) }"

definition cf_setPayloadLength :: "nat \<Rightarrow> can_frame \<Rightarrow> can_frame" where
  "cf_setPayloadLength len f = (if len \<le> length (cf_payload f) then f\<lparr>cf_payloadLength := len\<rparr> else f)"

definition cf_equal :: "can_frame \<Rightarrow> can_frame \<Rightarrow> bool" where
  "cf_equal f g \<longleftrightarrow> cf_id f = cf_id g \<and> cf_payloadLength f = cf_payloadLength g
     \<and> list_all (\<lambda>i. cf_payload f ! i = cf_payload g ! i) [0..<cf_payloadLength f]"

section \<open>The bit field filter\<close>

type_synonym bit_field = "u8 list"

definition MASK_SIZE :: nat where "MASK_SIZE = 256"

definition bf_clear :: bit_field where "bf_clear = replicate MASK_SIZE 0"

definition bf_open :: bit_field where "bf_open = replicate MASK_SIZE 0xFF"

definition bf_add :: "u32 \<Rightarrow> bit_field \<Rightarrow> bit_field" where
  "bf_add filterId bits =
     (if filterId \<le> MAX_FRAME_ID
      then let idx = unat filterId div 8
           in bits[idx := bits ! idx OR push_bit (unat filterId mod 8) 1]
      else bits)"

text \<open>The loop over an identifier range; for the largest 32 bit number as the end it does not end.\<close>

partial_function (option) bf_add_loop :: "u32 \<Rightarrow> u32 \<Rightarrow> bit_field \<Rightarrow> bit_field option" where
  "bf_add_loop i to bits = (if i \<le> to then bf_add_loop (i + 1) to (bf_add i bits) else Some bits)"

definition bf_add_range :: "u32 \<Rightarrow> u32 \<Rightarrow> bit_field \<Rightarrow> bit_field option" where
  "bf_add_range from to bits = bf_add_loop from to bits"

definition bf_match :: "bit_field \<Rightarrow> u32 \<Rightarrow> bool" where
  "bf_match bits filterId \<longleftrightarrow>
     (if filterId \<le> MAX_FRAME_ID
      then let idx = unat filterId div 8; maskIndex = push_bit (unat filterId mod 8) (1 :: u16)
           in ucast (bits ! idx) AND maskIndex = maskIndex
      else False)"

definition bf_equal :: "bit_field \<Rightarrow> bit_field \<Rightarrow> bool" where
  "bf_equal x y \<longleftrightarrow> list_all (\<lambda>i. x ! i = y ! i) [0..<MASK_SIZE]"

section \<open>The interval filter\<close>

record interval_filter =
  if_from :: u32
  if_to :: u32

definition INTERVAL_MAX_ID :: u32 where "INTERVAL_MAX_ID = EXTENDED_QUALIFIER_BIT OR MAX_FRAME_ID_EXTENDED"

definition if_clear :: interval_filter where "if_clear = \<lparr>if_from = INTERVAL_MAX_ID, if_to = 0\<rparr>"

definition if_open :: interval_filter where "if_open = \<lparr>if_from = 0, if_to = INTERVAL_MAX_ID\<rparr>"

definition if_add_range :: "u32 \<Rightarrow> u32 \<Rightarrow> interval_filter \<Rightarrow> interval_filter" where
  "if_add_range from to f =
     (let from = (if from > INTERVAL_MAX_ID then INTERVAL_MAX_ID else from);
          to = (if to > INTERVAL_MAX_ID then INTERVAL_MAX_ID else to);
          (from, to) = (if from > to then (to, from) else (from, to))
      in \<lparr>if_from = min (if_from f) from, if_to = max (if_to f) to\<rparr>)"

definition if_add :: "u32 \<Rightarrow> interval_filter \<Rightarrow> interval_filter" where
  "if_add filterId f = if_add_range filterId filterId f"

definition if_new :: "u32 \<Rightarrow> u32 \<Rightarrow> interval_filter" where
  "if_new from to = if_add_range from to if_clear"

definition if_match :: "interval_filter \<Rightarrow> u32 \<Rightarrow> bool" where
  "if_match f filterId \<longleftrightarrow> filterId \<ge> if_from f \<and> filterId \<le> if_to f"

section \<open>The mask filter\<close>

record mask_filter =
  mf_mask :: u32
  mf_pattern :: u32
  mf_empty :: bool

definition mf_clear :: mask_filter where "mf_clear = \<lparr>mf_mask = 0, mf_pattern = 0, mf_empty = True\<rparr>"

definition mf_open :: mask_filter where "mf_open = \<lparr>mf_mask = 0, mf_pattern = 0, mf_empty = False\<rparr>"

definition mf_widen :: "u32 \<Rightarrow> u32 \<Rightarrow> mask_filter \<Rightarrow> mask_filter" where
  "mf_widen bits pattern f =
     (if mf_empty f then \<lparr>mf_mask = bits, mf_pattern = pattern AND bits, mf_empty = False\<rparr>
      else let commonMask = mf_mask f AND bits AND NOT (mf_pattern f XOR pattern)
           in f\<lparr>mf_mask := commonMask, mf_pattern := mf_pattern f AND commonMask\<rparr>)"

definition mf_add :: "u32 \<Rightarrow> mask_filter \<Rightarrow> mask_filter" where
  "mf_add filterId f = mf_widen 0xFFFFFFFF filterId f"

function mf_block_loop :: "u32 \<Rightarrow> u32 \<Rightarrow> u32" where
  "mf_block_loop difference blockMask =
     (if difference \<noteq> 0 then mf_block_loop (drop_bit 1 difference) (push_bit 1 blockMask) else blockMask)"
  by pat_completeness auto
termination
proof (relation "measure (\<lambda>(d, _). unat d)")
  fix d b :: u32 assume "d \<noteq> 0"
  then have "0 < unat d" by (simp add: unat_gt_0)
  moreover have "unat (drop_bit 1 d) = unat d div 2"
    using unat_drop_bit_eq [of 1 d] by (simp only: drop_bit_eq_div [of 1 "unat d"] power_one_right)
  ultimately have "unat (drop_bit 1 d) < unat d" by linarith
  then show "((drop_bit 1 d, push_bit 1 b), d, b) \<in> measure (\<lambda>(d, _). unat d)"
    by (simp only: in_measure prod.case)
qed simp

definition mf_add_range :: "u32 \<Rightarrow> u32 \<Rightarrow> mask_filter \<Rightarrow> mask_filter" where
  "mf_add_range from to f =
     (let (from, to) = (if from > to then (to, from) else (from, to));
          blockMask = mf_block_loop (from XOR to) 0xFFFFFFFF
      in mf_widen blockMask (from AND blockMask) f)"

definition mf_new :: "u32 \<Rightarrow> u32 \<Rightarrow> mask_filter" where
  "mf_new from to = mf_add_range from to mf_clear"

definition mf_match :: "mask_filter \<Rightarrow> u32 \<Rightarrow> bool" where
  "mf_match f filterId \<longleftrightarrow> \<not> mf_empty f \<and> filterId AND mf_mask f = mf_pattern f"

section \<open>Merging\<close>

text \<open>The bit field is the only merger. A static bit field is given by its constant bytes.\<close>

datatype can_filter =
    BitField bit_field
  | StaticBitField bit_field
  | Interval interval_filter
  | MaskPattern mask_filter

definition bf_mergeWithBitField :: "bit_field \<Rightarrow> bit_field \<Rightarrow> bit_field" where
  "bf_mergeWithBitField other bits = map (\<lambda>i. bits ! i OR other ! i) [0..<MASK_SIZE]"

definition bf_mergeWithStaticBitField :: "bit_field \<Rightarrow> bit_field \<Rightarrow> bit_field" where
  "bf_mergeWithStaticBitField values bits = map (\<lambda>i. bits ! i OR values ! i) [0..<MASK_SIZE]"

definition bf_mergeWithInterval :: "interval_filter \<Rightarrow> bit_field \<Rightarrow> bit_field option" where
  "bf_mergeWithInterval other bits =
     (if if_from other \<le> if_to other
      then let toId = (if if_to other \<le> MAX_FRAME_ID then if_to other else MAX_FRAME_ID)
           in bf_add_range (if_from other) toId bits
      else Some bits)"

definition bf_mergeWithMask :: "mask_filter \<Rightarrow> bit_field \<Rightarrow> bit_field" where
  "bf_mergeWithMask other bits =
     fold (\<lambda>i bits. if mf_match other (of_nat i) then bf_add (of_nat i) bits else bits)
       [0..<unat MAX_FRAME_ID + 1] bits"

definition static_match :: "bit_field \<Rightarrow> u32 \<Rightarrow> bool" where
  "static_match values filterId \<longleftrightarrow>
     (if filterId \<le> MAX_FRAME_ID
      then let idx = unat filterId div 8; maskIndex = push_bit (unat filterId mod 8) (1 :: u16)
           in ucast (values ! idx) AND maskIndex = maskIndex
      else False)"

fun filter_match :: "can_filter \<Rightarrow> u32 \<Rightarrow> bool" where
  "filter_match (BitField bits) i = bf_match bits i"
| "filter_match (StaticBitField values) i = static_match values i"
| "filter_match (Interval f) i = if_match f i"
| "filter_match (MaskPattern f) i = mf_match f i"

fun acceptMerger :: "can_filter \<Rightarrow> bit_field \<Rightarrow> bit_field option" where
  "acceptMerger (BitField m) bits = Some (bf_mergeWithBitField m bits)"
| "acceptMerger (StaticBitField values) bits = Some (bf_mergeWithStaticBitField values bits)"
| "acceptMerger (Interval f) bits = bf_mergeWithInterval f bits"
| "acceptMerger (MaskPattern f) bits = Some (bf_mergeWithMask f bits)"

section \<open>Distribution of received frames\<close>

text \<open>
  The listeners are numbers; \<open>flt l\<close> is the filter of listener \<open>l\<close>, which is configured before
  the listener is added and not changed afterwards.
\<close>

datatype can_state = CLOSED | INITIALIZED | WAKING | OPEN | MUTED

record can_transceiver =
  ct_filter :: bit_field
  ct_listeners :: "nat list"
  ct_sentListeners :: "nat list"
  ct_state :: can_state
  ct_busId :: u8

definition ct_new :: "u8 \<Rightarrow> can_transceiver" where
  "ct_new busId = \<lparr>ct_filter = bf_clear, ct_listeners = [], ct_sentListeners = [], ct_state = CLOSED, ct_busId = busId\<rparr>"

definition ct_setState :: "can_state \<Rightarrow> can_transceiver \<Rightarrow> can_transceiver" where
  "ct_setState newState t = t\<lparr>ct_state := newState\<rparr>"

definition addCANFrameListener :: "(nat \<Rightarrow> can_filter) \<Rightarrow> nat \<Rightarrow> can_transceiver \<Rightarrow> can_transceiver option" where
  "addCANFrameListener flt l t =
     (if l \<notin> set (ct_listeners t)
      then do {
        bits \<leftarrow> acceptMerger (flt l) (ct_filter t);
        Some (t\<lparr>ct_listeners := ct_listeners t @ [l], ct_filter := bits\<rparr>) }
      else Some t)"

definition addVIPCANFrameListener :: "(nat \<Rightarrow> can_filter) \<Rightarrow> nat \<Rightarrow> can_transceiver \<Rightarrow> can_transceiver option" where
  "addVIPCANFrameListener flt l t =
     (if l \<notin> set (ct_listeners t)
      then do {
        bits \<leftarrow> acceptMerger (flt l) (ct_filter t);
        Some (t\<lparr>ct_listeners := l # ct_listeners t, ct_filter := bits\<rparr>) }
      else Some t)"

definition removeCANFrameListener :: "nat \<Rightarrow> can_transceiver \<Rightarrow> can_transceiver" where
  "removeCANFrameListener l t = t\<lparr>ct_listeners := remove1 l (ct_listeners t)\<rparr>"

definition addCANFrameSentListener :: "nat \<Rightarrow> can_transceiver \<Rightarrow> can_transceiver" where
  "addCANFrameSentListener l t = t\<lparr>ct_sentListeners := l # ct_sentListeners t\<rparr>"

definition removeCANFrameSentListener :: "nat \<Rightarrow> can_transceiver \<Rightarrow> can_transceiver" where
  "removeCANFrameSentListener l t = t\<lparr>ct_sentListeners := remove1 l (ct_sentListeners t)\<rparr>"

text \<open>The listeners notified of a frame, in order.\<close>

definition notifyListeners :: "(nat \<Rightarrow> can_filter) \<Rightarrow> u32 \<Rightarrow> can_transceiver \<Rightarrow> nat list" where
  "notifyListeners flt frameId t =
     (if ct_state t = CLOSED then []
      else filter (\<lambda>l. filter_match (flt l) frameId) (ct_listeners t))"

definition notifySentListeners :: "u32 \<Rightarrow> can_frame \<Rightarrow> can_transceiver \<Rightarrow> (nat \<times> can_frame) list" where
  "notifySentListeners now frame t =
     (if ct_sentListeners t = [] then []
      else map (\<lambda>l. (l, frame\<lparr>cf_timestamp := now\<rparr>)) (ct_sentListeners t))"

end
