(* ===== verification/CanFiltersCorrect.thy ===== *)
theory CanFiltersCorrect imports CanFilters begin

text \<open>
  The filters against sets of identifiers: the bit field is a set of base identifiers under every
  operation, and the mask filter is the smallest block of identifiers that holds all added ones.
\<close>

section \<open>The bit field is a set of base identifiers\<close>

definition bf_ids :: "bit_field \<Rightarrow> u32 set" where
  "bf_ids bits = {i. bf_match bits i}"

lemma and_single_bit:
  fixes w :: "'a::len word"
  shows "n < LENGTH('a) \<Longrightarrow> w AND push_bit n 1 = push_bit n 1 \<longleftrightarrow> bit w n"
proof (rule iffI)
  assume n: "n < LENGTH('a)" and e: "w AND push_bit n 1 = push_bit n 1"
  have "bit (push_bit n 1 :: 'a word) n" using n by (simp add: bit_simps)
  then have "bit (w AND push_bit n 1) n" by (simp only: e)
  then show "bit w n" by (simp only: bit_and_iff)
next
  assume "n < LENGTH('a)" "bit w n"
  then show "w AND push_bit n 1 = push_bit n 1" by (intro bit_word_eqI) (auto simp: bit_simps)
qed

lemma unat_id_less: "i \<le> MAX_FRAME_ID \<longleftrightarrow> unat i < 2048"
  by (auto simp: MAX_FRAME_ID_def word_le_nat_alt)

lemma id_split: "unat (i :: u32) < 2048 \<Longrightarrow> unat i div 8 < MASK_SIZE"
  by (simp add: MASK_SIZE_def less_mult_imp_div_less)

lemma bit_index_match:
  "(ucast (w :: u8) AND push_bit (k mod 8) (1 :: u16) = push_bit (k mod 8) 1) \<longleftrightarrow> bit w (k mod 8)"
proof -
  have "k mod 8 < 8" "k mod 8 < 16" by (simp_all add: order.strict_trans [of _ 8])
  then show ?thesis by (subst and_single_bit) (simp_all add: bit_simps)
qed

lemma bf_match_bit: "bf_match bits i \<longleftrightarrow> i \<le> MAX_FRAME_ID \<and> bit (bits ! (unat i div 8)) (unat i mod 8)"
  unfolding bf_match_def Let_def bit_index_match by simp

lemma static_match_eq: "static_match values i = bf_match values i"
  by (simp add: static_match_def bf_match_def)

lemma div_mod_8: "unat (i :: u32) div 8 = unat j div 8 \<Longrightarrow> unat i mod 8 = unat j mod 8 \<Longrightarrow> i = j"
  by (metis div_mult_mod_eq word_unat_eq_iff)

lemma bf_add_length [simp]: "length (bf_add i bits) = length bits"
  by (simp add: bf_add_def Let_def)

lemma bf_add_ids:
  assumes "length bits = MASK_SIZE"
  shows "bf_ids (bf_add a bits) = bf_ids bits \<union> ({a} \<inter> {..MAX_FRAME_ID})"
proof (cases "a \<le> MAX_FRAME_ID")
  case False
  then show ?thesis by (simp add: bf_add_def)
next
  case True
  let ?k = "unat a div 8" and ?b = "unat a mod 8"
  have k: "?k < length bits" using True assms id_split by (simp add: unat_id_less)
  have b: "?b < 8" by simp
  have "bf_match (bf_add a bits) i \<longleftrightarrow> bf_match bits i \<or> i = a" for i
  proof (cases "?k = unat i div 8")
    case k': True
    have "bit (push_bit ?b (1 :: u8)) (unat i mod 8) \<longleftrightarrow> unat i mod 8 = ?b"
      by (auto simp: bit_simps)
    then show ?thesis using True k k' div_mod_8 [of i a]
      by (auto simp: bf_match_bit bf_add_def Let_def bit_or_iff)
  next
    case False
    then show ?thesis using True k by (auto simp: bf_match_bit bf_add_def Let_def)
  qed
  then show ?thesis using True by (auto simp: bf_ids_def)
qed

lemma bf_clear_ids [simp]: "bf_ids bf_clear = {}"
  using id_split by (auto simp: bf_ids_def bf_match_bit bf_clear_def unat_id_less)

lemma bf_open_ids [simp]: "bf_ids bf_open = {..MAX_FRAME_ID}"
proof -
  have "bit (0xFF :: u8) (k mod 8)" for k :: nat
  proof -
    have "(0xFF :: u8) = - 1" by simp
    moreover have "k mod 8 < 8" by simp
    ultimately show ?thesis by (simp only: bit_minus_1_iff) simp
  qed
  then show ?thesis using id_split by (auto simp: bf_ids_def bf_match_bit bf_open_def unat_id_less)
qed

text \<open>The range loop ends unless the end is the largest number.\<close>

lemma bf_add_loop_ids:
  assumes "to < 0xFFFFFFFF" "length bits = MASK_SIZE"
  shows "\<exists>bits'. bf_add_loop i to bits = Some bits' \<and> length bits' = MASK_SIZE
    \<and> bf_ids bits' = bf_ids bits \<union> ({i..to} \<inter> {..MAX_FRAME_ID})"
  using assms(2)
proof (induction "unat to + 1 - unat i" arbitrary: i bits rule: less_induct)
  case less
  show ?case
  proof (cases "i \<le> to")
    case False
    then show ?thesis using less.prems by (subst bf_add_loop.simps) auto
  next
    case True
    have "i < 0xFFFFFFFF" using True assms(1) by (rule order_le_less_trans)
    then have i: "unat (i + 1) = unat i + 1"
      by (simp add: unat_word_ariths word_less_nat_alt)
    have m: "unat to + 1 - unat (i + 1) < unat to + 1 - unat i"
      using True by (simp add: i word_le_nat_alt)
    have "length (bf_add i bits) = MASK_SIZE" using less.prems by simp
    from less.hyps [OF m this] obtain bits' where
      "bf_add_loop (i + 1) to (bf_add i bits) = Some bits'" "length bits' = MASK_SIZE"
      "bf_ids bits' = bf_ids (bf_add i bits) \<union> ({i + 1..to} \<inter> {..MAX_FRAME_ID})" by blast
    moreover have "{i..to} = insert i {i + 1..to}"
    proof -
      have "i \<le> x \<longleftrightarrow> x = i \<or> i + 1 \<le> x" for x :: u32
        by (auto simp: word_le_nat_alt i word_unat_eq_iff)
      moreover have "x \<le> to" if "x = i" for x using that True by simp
      ultimately show ?thesis by (intro set_eqI) (metis atLeastAtMost_iff insert_iff)
    qed
    ultimately show ?thesis using True bf_add_ids [OF less.prems, of i]
      by (subst bf_add_loop.simps) auto
  qed
qed

lemma bf_add_loop_max: "bf_add_loop i 0xFFFFFFFF bits = None"
proof -
  have "to \<noteq> 0xFFFFFFFF" if "bf_add_loop i to bits = Some bits'" for i to bits bits'
  proof (rule bf_add_loop.raw_induct [where P = "\<lambda>i to bits y. to \<noteq> 0xFFFFFFFF", OF _ that])
    fix loop :: "u32 \<Rightarrow> u32 \<Rightarrow> bit_field \<Rightarrow> bit_field option" and i to :: u32 and bits bits' :: bit_field
    assume ih: "\<And>i to bits y. loop i to bits = Some y \<Longrightarrow> to \<noteq> 0xFFFFFFFF"
      and step: "(if i \<le> to then loop (i + 1) to (bf_add i bits) else Some bits) = Some bits'"
    show "to \<noteq> 0xFFFFFFFF"
    proof
      assume to: "to = 0xFFFFFFFF"
      have "(0xFFFFFFFF :: u32) = - 1" by simp
      then have "i \<le> to" by (simp only: to word_n1_ge)
      then show False using step ih to by auto
    qed
  qed
  then show ?thesis by (metis option.exhaust)
qed

section \<open>Merging\<close>

lemma merge_bits_ids:
  "bf_ids (map (\<lambda>i. bits ! i OR other ! i) [0..<MASK_SIZE]) = bf_ids bits \<union> bf_ids other"
  using id_split by (auto simp: bf_ids_def bf_match_bit unat_id_less bit_or_iff)

lemma bf_mergeWithMask_ids:
  assumes "length bits = MASK_SIZE"
  shows "bf_ids (bf_mergeWithMask f bits) = bf_ids bits \<union> ({i. mf_match f i} \<inter> {..MAX_FRAME_ID})
    \<and> length (bf_mergeWithMask f bits) = MASK_SIZE"
proof -
  define g :: "nat \<Rightarrow> bit_field \<Rightarrow> bit_field" where
    "g i bits = (if mf_match f (of_nat i) then bf_add (of_nat i) bits else bits)" for i bits
  have "n \<le> 2048 \<Longrightarrow> bf_ids (fold g [0..<n] bits) = bf_ids bits \<union> {i. mf_match f i \<and> unat i < n}
      \<and> length (fold g [0..<n] bits) = MASK_SIZE" for n
  proof (induction n)
    case 0
    then show ?case using assms by simp
  next
    case (Suc n)
    have ih: "bf_ids (fold g [0..<n] bits) = bf_ids bits \<union> {i. mf_match f i \<and> unat i < n}"
      "length (fold g [0..<n] bits) = MASK_SIZE" using Suc by simp_all
    have n: "unat (of_nat n :: u32) = n" using Suc.prems by (simp add: unat_of_nat)
    then have "unat i = n \<longleftrightarrow> i = of_nat n" for i :: u32 by (metis word_unat_eq_iff)
    then have split: "{i. mf_match f i \<and> unat i < Suc n}
        = {i. mf_match f i \<and> unat i < n} \<union> {i. mf_match f i \<and> i = of_nat n}"
      by (auto simp: less_Suc_eq)
    have "(of_nat n :: u32) \<le> MAX_FRAME_ID" using n Suc.prems by (simp add: unat_id_less)
    then have "bf_ids (g n b) = bf_ids b \<union> {i. mf_match f i \<and> i = of_nat n} \<and> length (g n b) = MASK_SIZE"
      if "length b = MASK_SIZE" for b
      using bf_add_ids [OF that, of "of_nat n"] that by (auto simp: g_def)
    then have "bf_ids (g n (fold g [0..<n] bits)) = bf_ids bits \<union> {i. mf_match f i \<and> unat i < Suc n}
        \<and> length (g n (fold g [0..<n] bits)) = MASK_SIZE"
      using ih split by (simp only: Un_assoc)
    then show ?case by simp
  qed
  from this [of 2048] have r: "bf_ids (fold g [0..<2048] bits) = bf_ids bits \<union> {i. mf_match f i \<and> unat i < 2048}
      \<and> length (fold g [0..<2048] bits) = MASK_SIZE" by simp
  have "unat MAX_FRAME_ID + 1 = 2048" by (simp add: MAX_FRAME_ID_def)
  then have e: "bf_mergeWithMask f bits = fold g [0..<2048] bits"
    unfolding bf_mergeWithMask_def g_def by simp
  have "{i. mf_match f i} \<inter> {..MAX_FRAME_ID} = {i. mf_match f i \<and> unat i < 2048}" by (auto simp: unat_id_less)
  then show ?thesis using r unfolding e by simp
qed

lemma bf_ids_base: "{i. bf_match m i} \<inter> {..MAX_FRAME_ID} = bf_ids m"
  by (auto simp: bf_ids_def bf_match_bit)

fun filter_ok :: "can_filter \<Rightarrow> bool" where
  "filter_ok (BitField m) \<longleftrightarrow> length m = MASK_SIZE"
| "filter_ok (StaticBitField m) \<longleftrightarrow> length m = MASK_SIZE"
| "filter_ok _ \<longleftrightarrow> True"

lemma acceptMerger_ids:
  assumes "length bits = MASK_SIZE" "filter_ok f"
  shows "\<exists>bits'. acceptMerger f bits = Some bits' \<and> length bits' = MASK_SIZE
    \<and> bf_ids bits' = bf_ids bits \<union> ({i. filter_match f i} \<inter> {..MAX_FRAME_ID})"
proof (cases f)
  case (Interval g)
  let ?to = "if if_to g \<le> MAX_FRAME_ID then if_to g else MAX_FRAME_ID"
  have "?to < 0xFFFFFFFF" by (simp add: MAX_FRAME_ID_def word_le_nat_alt word_less_nat_alt)
  note r = bf_add_loop_ids [OF this assms(1), of "if_from g"]
  show ?thesis
  proof (cases "if_from g \<le> if_to g")
    case True
    have "{if_from g..?to} \<inter> {..MAX_FRAME_ID} = {i. if_match g i} \<inter> {..MAX_FRAME_ID}"
      by (auto simp: if_match_def)
    then show ?thesis using r True by (simp add: Interval bf_mergeWithInterval_def bf_add_range_def Let_def)
  next
    case False
    then have "{i. if_match g i} = {}" by (auto simp: if_match_def)
    then show ?thesis using False assms(1) by (simp add: Interval bf_mergeWithInterval_def)
  qed
next
  case (BitField m)
  then show ?thesis
    by (simp add: bf_mergeWithBitField_def merge_bits_ids bf_ids_base)
next
  case (StaticBitField m)
  then show ?thesis
    by (simp add: bf_mergeWithStaticBitField_def merge_bits_ids static_match_eq bf_ids_base)
next
  case (MaskPattern g)
  then show ?thesis using bf_mergeWithMask_ids [OF assms(1), of g] by simp
qed

section \<open>Operations on a bit field and on a set\<close>

datatype bf_op = BfAdd u32 | BfAddRange u32 u32 | BfClear | BfOpen | BfMerge can_filter

fun bf_apply :: "bf_op \<Rightarrow> bit_field \<Rightarrow> bit_field option" where
  "bf_apply (BfAdd i) bits = Some (bf_add i bits)"
| "bf_apply (BfAddRange from to) bits = bf_add_range from to bits"
| "bf_apply BfClear bits = Some bf_clear"
| "bf_apply BfOpen bits = Some bf_open"
| "bf_apply (BfMerge f) bits = acceptMerger f bits"

fun bf_run :: "bf_op list \<Rightarrow> bit_field \<Rightarrow> bit_field option" where
  "bf_run [] bits = Some bits"
| "bf_run (x # xs) bits = Option.bind (bf_apply x bits) (bf_run xs)"

text \<open>The same operations on a set of identifiers, of which the base identifiers count.\<close>

fun set_apply :: "bf_op \<Rightarrow> u32 set \<Rightarrow> u32 set" where
  "set_apply (BfAdd i) S = S \<union> {i}"
| "set_apply (BfAddRange from to) S = S \<union> {from..to}"
| "set_apply BfClear S = {}"
| "set_apply BfOpen S = UNIV"
| "set_apply (BfMerge f) S = S \<union> {i. filter_match f i}"

fun bf_op_ok :: "bf_op \<Rightarrow> bool" where
  "bf_op_ok (BfAddRange from to) \<longleftrightarrow> to < 0xFFFFFFFF"
| "bf_op_ok (BfMerge f) \<longleftrightarrow> filter_ok f"
| "bf_op_ok _ \<longleftrightarrow> True"

lemma bf_lengths: "length bf_clear = MASK_SIZE" "length bf_open = MASK_SIZE"
  by (simp_all add: bf_clear_def bf_open_def)

lemma bf_apply_ids:
  assumes "length bits = MASK_SIZE" "bf_ids bits = S \<inter> {..MAX_FRAME_ID}" "bf_op_ok x"
  shows "\<exists>bits'. bf_apply x bits = Some bits' \<and> length bits' = MASK_SIZE
    \<and> bf_ids bits' = set_apply x S \<inter> {..MAX_FRAME_ID}"
proof (cases x)
  case (BfAdd i)
  then show ?thesis using bf_add_ids [OF assms(1), of i] assms(1,2) by auto
next
  case (BfAddRange a b)
  then show ?thesis using bf_add_loop_ids [of b bits a] assms
    by (auto simp: bf_add_range_def)
next
  case BfClear
  then show ?thesis by (simp add: bf_lengths)
next
  case BfOpen
  then show ?thesis by (simp add: bf_lengths)
next
  case (BfMerge f)
  then show ?thesis using acceptMerger_ids [OF assms(1), of f] assms(2,3) by auto
qed

lemma bf_run_ids:
  assumes "length bits = MASK_SIZE" "bf_ids bits = S \<inter> {..MAX_FRAME_ID}" "list_all bf_op_ok xs"
  shows "\<exists>bits'. bf_run xs bits = Some bits' \<and> length bits' = MASK_SIZE
    \<and> bf_ids bits' = fold set_apply xs S \<inter> {..MAX_FRAME_ID}"
  using assms
proof (induction xs arbitrary: bits S)
  case (Cons x xs)
  from bf_apply_ids [OF Cons.prems(1,2), of x] Cons.prems(3) obtain bits1 where
    "bf_apply x bits = Some bits1" "length bits1 = MASK_SIZE" "bf_ids bits1 = set_apply x S \<inter> {..MAX_FRAME_ID}" by auto
  then show ?case using Cons.IH [of bits1 "set_apply x S"] Cons.prems(3) by auto
qed simp

section \<open>The mask filter is the smallest block\<close>

definition agree :: "u32 set \<Rightarrow> nat \<Rightarrow> bool" where
  "agree A i \<longleftrightarrow> (\<forall>x \<in> A. \<forall>y \<in> A. bit x i = bit y i)"

definition block_of :: "u32 \<Rightarrow> u32 \<Rightarrow> u32 set \<Rightarrow> bool" where
  "block_of msk pat A \<longleftrightarrow> A \<noteq> {} \<and> (\<forall>i < 32. bit msk i \<longleftrightarrow> agree A i) \<and> (\<forall>a \<in> A. pat = a AND msk)"

definition mf_rep :: "mask_filter \<Rightarrow> u32 set \<Rightarrow> bool" where
  "mf_rep f A \<longleftrightarrow> (if mf_empty f then A = {} else block_of (mf_mask f) (mf_pattern f) A)"

lemma block_and: "block_of msk pat A \<Longrightarrow> pat AND msk = pat"
  by (auto simp: block_of_def and.assoc)

lemma block_bits: "block_of msk pat A \<Longrightarrow> i < 32 \<Longrightarrow> bit msk i = agree A i"
  by (simp only: block_of_def)

lemma widen_rep:
  assumes f: "mf_rep f A" and b: "block_of msk pat R"
  shows "mf_rep (mf_widen msk pat f) (A \<union> R)"
proof (cases "mf_empty f")
  case True
  then show ?thesis using f b block_and [OF b] by (simp add: mf_rep_def mf_widen_def)
next
  case False
  let ?m = "mf_mask f AND msk AND NOT (mf_pattern f XOR pat)"
  have a: "block_of (mf_mask f) (mf_pattern f) A" using f False by (simp add: mf_rep_def)
  then obtain x y where x: "x \<in> A" "mf_pattern f = x AND mf_mask f" and y: "y \<in> R" "pat = y AND msk"
    using b by (auto simp: block_of_def)
  have m: "bit ?m i \<longleftrightarrow> agree (A \<union> R) i" if "i < 32" for i
  proof -
    have "bit (mf_mask f) i = agree A i" "bit msk i = agree R i"
      using block_bits [OF a that] block_bits [OF b that] by simp_all
    moreover have "bit ?m i \<longleftrightarrow> bit (mf_mask f) i \<and> bit msk i \<and> bit (mf_pattern f) i = bit pat i"
      using that by (auto simp: bit_and_iff bit_not_iff bit_xor_iff)
    moreover have "bit (mf_pattern f) i \<longleftrightarrow> bit x i \<and> bit (mf_mask f) i" "bit pat i \<longleftrightarrow> bit y i \<and> bit msk i"
      unfolding x(2) y(2) by (simp_all add: bit_and_iff)
    ultimately have "bit ?m i \<longleftrightarrow> agree A i \<and> agree R i \<and> bit x i = bit y i" by blast
    also have "\<dots> \<longleftrightarrow> agree (A \<union> R) i"
      using x(1) y(1) by (auto simp: agree_def)
    finally show ?thesis .
  qed
  have "mf_pattern f AND ?m = z AND ?m" if z: "z \<in> A \<union> R" for z
  proof (rule bit_word_eqI)
    fix i assume "i < LENGTH(32)"
    then have i: "i < 32" by simp
    show "bit (mf_pattern f AND ?m) i \<longleftrightarrow> bit (z AND ?m) i"
    proof (cases "bit ?m i")
      case True
      then have "agree (A \<union> R) i" using m [OF i] by simp
      then have "bit z i = bit x i" using z x(1) unfolding agree_def by blast
      moreover have "bit (mf_pattern f) i = bit x i"
        using True unfolding x(2) by (simp add: bit_and_iff)
      ultimately show ?thesis by (simp only: bit_and_iff)
    next
      case False
      then show ?thesis by (simp only: bit_and_iff simp_thms)
    qed
  qed
  then have "block_of ?m (mf_pattern f AND ?m) (A \<union> R)"
    unfolding block_of_def using m x(1) by blast
  then show ?thesis using False by (simp add: mf_rep_def mf_widen_def Let_def)
qed

lemma crossing:
  fixes a b :: nat
  assumes "a div 2 ^ j < b div 2 ^ j" "i \<le> j"
  shows "\<exists>x. a \<le> x \<and> x < b \<and> odd (x div 2 ^ i) \<noteq> odd ((x + 1) div 2 ^ i)"
proof -
  define n where "n = b div 2 ^ j * 2 ^ (j - i)"
  have n: "n * 2 ^ i = b div 2 ^ j * 2 ^ j"
    using assms(2) by (simp add: n_def mult.assoc flip: power_add)
  have "0 < n" using assms(1) by (simp add: n_def)
  then have pos: "0 < n * 2 ^ i" by simp
  have le: "n * 2 ^ i \<le> b" unfolding n by (rule div_times_less_eq_dividend)
  have "a < n * 2 ^ i" unfolding n using assms(1) by (metis div_less_iff_less_mult zero_less_numeral zero_less_power)
  moreover have "(n * 2 ^ i - 1) div 2 ^ i = n - 1"
  proof -
    have "n * 2 ^ i - 1 = (n - 1) * 2 ^ i + (2 ^ i - 1)"
      using \<open>0 < n\<close> by (cases n) simp_all
    then have "(n * 2 ^ i - 1) div 2 ^ i = ((2 ^ i - 1) + (n - 1) * 2 ^ i) div 2 ^ i" by (simp only: add.commute)
    also have "\<dots> = (n - 1) + (2 ^ i - 1) div 2 ^ i" by (rule div_mult_self1) simp
    also have "(2 ^ i - 1 :: nat) div 2 ^ i = 0" by (rule div_less) simp
    finally show ?thesis by simp
  qed
  moreover have "odd n \<noteq> odd (n - 1)" using \<open>0 < n\<close> by (cases n) simp_all
  ultimately show ?thesis using pos le by (intro exI [of _ "n * 2 ^ i - 1"]) auto
qed

lemma block_loop_shift:
  "\<exists>k. mf_block_loop d b = push_bit k b \<and> drop_bit k d = 0 \<and> (k = 0 \<or> bit d (k - 1))"
proof (induction d b rule: mf_block_loop.induct)
  case (1 d b)
  show ?case
  proof (cases "d = 0")
    case True
    then show ?thesis by (intro exI [of _ 0]) (simp add: mf_block_loop.simps)
  next
    case False
    from 1 [OF False] obtain k where k: "mf_block_loop (drop_bit 1 d) (push_bit 1 b) = push_bit k (push_bit 1 b)"
      "drop_bit k (drop_bit 1 d) = 0" "k = 0 \<or> bit (drop_bit 1 d) (k - 1)" by blast
    have "mf_block_loop d b = push_bit (k + 1) b"
      using k(1) False by (subst mf_block_loop.simps) (simp add: push_bit_push_bit del: push_bit_of_1 drop_bit_eq_div)
    moreover have "drop_bit (k + 1) d = 0" using k(2) by (simp add: drop_bit_drop_bit)
    moreover have "bit d k"
    proof (cases "k = 0")
      case True
      then have z: "drop_bit 1 d = 0" using k(2) by simp
      obtain i where i: "bit d i" using False by (auto simp: bit_eq_iff)
      have "i = 0"
      proof (rule ccontr)
        assume "i \<noteq> 0"
        then have "bit (drop_bit 1 d) (i - 1)" using i by (simp add: bit_drop_bit_eq)
        then show False using z by simp
      qed
      then show ?thesis using i True by simp
    next
      case nz: False
      then have "bit (drop_bit 1 d) (k - 1)" using k(3) by simp
      then show ?thesis using nz by (simp add: bit_drop_bit_eq)
    qed
    ultimately show ?thesis by (intro exI [of _ "k + 1"]) simp
  qed
qed

lemma bit_odd: "bit (x :: u32) i \<longleftrightarrow> odd (unat x div 2 ^ i)"
proof -
  have "bit (unat x) i \<longleftrightarrow> bit x i" by (auto simp: bit_unsigned_iff dest: bit_imp_le_length)
  then show ?thesis by (simp add: bit_iff_odd)
qed

lemma bit_shift_odd: "k \<le> i \<Longrightarrow> bit (x :: u32) i \<longleftrightarrow> odd (unat x div 2 ^ k div 2 ^ (i - k))"
  by (simp add: bit_odd div_mult2_eq [symmetric] flip: power_add)

lemma range_agree:
  assumes le: "a \<le> b" and top: "drop_bit k (a XOR b) = 0" and low: "k = 0 \<or> bit (a XOR b) (k - 1)" and i: "i < 32"
  shows "agree {a..b} i \<longleftrightarrow> k \<le> i"
proof
  assume ki: "k \<le> i"
  have "drop_bit k a = drop_bit k b"
  proof (rule bit_word_eqI)
    fix n
    have "\<not> bit (drop_bit k (a XOR b)) n" unfolding top by simp
    then show "bit (drop_bit k a) n = bit (drop_bit k b) n"
      by (simp only: bit_drop_bit_eq bit_xor_iff comp_def) blast
  qed
  then have "unat (drop_bit k a) = unat (drop_bit k b)" by simp
  then have eq: "unat a div 2 ^ k = unat b div 2 ^ k"
    unfolding unat_drop_bit_eq by (simp only: drop_bit_eq_div)
  have same: "unat x div 2 ^ k = unat a div 2 ^ k" if "x \<in> {a..b}" for x
  proof -
    have "unat a div 2 ^ k \<le> unat x div 2 ^ k" "unat x div 2 ^ k \<le> unat b div 2 ^ k"
      using that by (auto simp: word_le_nat_alt intro: div_le_mono)
    then show ?thesis using eq by simp
  qed
  show "agree {a..b} i"
    unfolding agree_def
  proof (intro ballI)
    fix x y assume "x \<in> {a..b}" "y \<in> {a..b}"
    then show "bit x i = bit y i" by (simp only: bit_shift_odd [OF ki] same)
  qed
next
  assume ag: "agree {a..b} i"
  show "k \<le> i"
  proof (rule ccontr)
    assume ki: "\<not> k \<le> i"
    then have "bit a (k - 1) \<noteq> bit b (k - 1)" using low by (auto simp: bit_xor_iff)
    then have "unat a div 2 ^ (k - 1) \<noteq> unat b div 2 ^ (k - 1)" unfolding bit_odd by metis
    moreover have "unat a div 2 ^ (k - 1) \<le> unat b div 2 ^ (k - 1)"
      using le by (simp add: word_le_nat_alt div_le_mono)
    ultimately have "unat a div 2 ^ (k - 1) < unat b div 2 ^ (k - 1)" by linarith
    moreover have "i \<le> k - 1" using ki by linarith
    ultimately obtain x where x: "unat a \<le> x" "x < unat b"
      "odd (x div 2 ^ i) \<noteq> odd ((x + 1) div 2 ^ i)" using crossing by blast
    have b: "unat b < 2 ^ 32" using unsigned_less [where w = b] by (simp only: len_num1 len_bit0 mult_1_right) simp
    have u: "unat (of_nat y :: u32) = y" if "y \<le> unat b" for y
    proof -
      have "y < 2 ^ LENGTH(32)" using that b by (simp del: power_numeral)
      then show ?thesis by (simp only: unat_of_nat mod_less)
    qed
    have ux: "unat (of_nat x :: u32) = x" by (rule u) (use x(2) in simp)
    have ux1: "unat (of_nat (x + 1) :: u32) = x + 1" by (rule u) (use x(2) in simp)
    have "bit (of_nat x :: u32) i \<noteq> bit (of_nat (x + 1) :: u32) i"
      unfolding bit_odd ux ux1 by (rule x(3))
    moreover have "(of_nat x :: u32) \<in> {a..b}" "(of_nat (x + 1) :: u32) \<in> {a..b}"
      unfolding atLeastAtMost_iff word_le_nat_alt ux ux1 using x(1,2) by auto
    ultimately show False using ag unfolding agree_def by blast
  qed
qed

lemma range_block:
  assumes "a \<le> b"
  shows "block_of (mf_block_loop (a XOR b) 0xFFFFFFFF) (a AND mf_block_loop (a XOR b) 0xFFFFFFFF) {a..b}"
proof -
  obtain k where k: "mf_block_loop (a XOR b) 0xFFFFFFFF = push_bit k 0xFFFFFFFF" "drop_bit k (a XOR b) = 0"
    "k = 0 \<or> bit (a XOR b) (k - 1)" using block_loop_shift by blast
  let ?m = "push_bit k (0xFFFFFFFF :: u32)"
  have f: "(0xFFFFFFFF :: u32) = - 1" by simp
  have m: "bit ?m i \<longleftrightarrow> k \<le> i" if "i < 32" for i
    unfolding f using that by (simp only: bit_push_bit_iff bit_minus_1_iff possible_bit_word) auto
  have "a AND ?m = x AND ?m" if x: "x \<in> {a..b}" for x
  proof (rule bit_word_eqI)
    fix i assume "i < LENGTH(32)"
    then have i: "i < 32" by simp
    show "bit (a AND ?m) i \<longleftrightarrow> bit (x AND ?m) i"
    proof (cases "k \<le> i")
      case True
      then have "agree {a..b} i" using range_agree [OF assms k(2,3) i] by simp
      moreover have "a \<in> {a..b}" using assms by simp
      ultimately have "bit a i = bit x i" using x unfolding agree_def by blast
      then show ?thesis by (simp only: bit_and_iff)
    next
      case False
      then show ?thesis using m [OF i] by (simp only: bit_and_iff simp_thms)
    qed
  qed
  moreover have "\<forall>i < 32. bit ?m i = agree {a..b} i" using m range_agree [OF assms k(2,3)] by simp
  moreover have "{a..b} \<noteq> {}" using assms by simp
  ultimately show ?thesis unfolding k(1) block_of_def by blast
qed

text \<open>The identifiers added.\<close>

datatype mf_op = MfAdd u32 | MfAddRange u32 u32

fun mf_apply :: "mf_op \<Rightarrow> mask_filter \<Rightarrow> mask_filter" where
  "mf_apply (MfAdd i) f = mf_add i f"
| "mf_apply (MfAddRange a b) f = mf_add_range a b f"

fun mf_op_ids :: "mf_op \<Rightarrow> u32 set" where
  "mf_op_ids (MfAdd i) = {i}"
| "mf_op_ids (MfAddRange a b) = {min a b..max a b}"

lemma single_block: "block_of 0xFFFFFFFF i {i}"
proof -
  have f: "(0xFFFFFFFF :: u32) = - 1" by simp
  show ?thesis unfolding f block_of_def agree_def by simp
qed

lemma apply_rep: "mf_rep f A \<Longrightarrow> mf_rep (mf_apply x f) (A \<union> mf_op_ids x)"
proof (cases x)
  case (MfAdd i)
  assume "mf_rep f A"
  from widen_rep [OF this single_block] show ?thesis by (simp add: MfAdd mf_add_def)
next
  case (MfAddRange a b)
  assume f: "mf_rep f A"
  show ?thesis
  proof (cases "a > b")
    case True
    then have le: "b \<le> a" and m: "min a b = b" "max a b = a" by simp_all
    have "mf_apply x f = mf_widen (mf_block_loop (b XOR a) 0xFFFFFFFF) (b AND mf_block_loop (b XOR a) 0xFFFFFFFF) f"
      unfolding MfAddRange mf_apply.simps mf_add_range_def Let_def using True by (simp only: if_True prod.case)
    then show ?thesis using widen_rep [OF f range_block [OF le]] by (simp only: MfAddRange mf_op_ids.simps m)
  next
    case False
    then have le: "a \<le> b" and m: "min a b = a" "max a b = b" by simp_all
    have "mf_apply x f = mf_widen (mf_block_loop (a XOR b) 0xFFFFFFFF) (a AND mf_block_loop (a XOR b) 0xFFFFFFFF) f"
      unfolding MfAddRange mf_apply.simps mf_add_range_def Let_def using False by (simp only: if_False prod.case)
    then show ?thesis using widen_rep [OF f range_block [OF le]] by (simp only: MfAddRange mf_op_ids.simps m)
  qed
qed

lemma run_rep: "mf_rep f A \<Longrightarrow> mf_rep (fold mf_apply xs f) (A \<union> (\<Union>x \<in> set xs. mf_op_ids x))"
proof (induction xs arbitrary: f A)
  case (Cons x xs)
  from Cons.IH [OF apply_rep [OF Cons.prems]] show ?case by (simp add: Un_assoc)
qed simp

lemma clear_rep: "mf_rep mf_clear {}"
  by (simp add: mf_rep_def mf_clear_def)

lemma rep_match:
  assumes "mf_rep f A"
  shows "mf_match f i \<longleftrightarrow> A \<noteq> {} \<and> (\<forall>msk pat. (\<forall>a \<in> A. a AND msk = pat) \<longrightarrow> i AND msk = pat)"
proof (cases "mf_empty f")
  case True
  then show ?thesis using assms by (simp add: mf_rep_def mf_match_def)
next
  case False
  then have b: "block_of (mf_mask f) (mf_pattern f) A" using assms by (simp add: mf_rep_def)
  then obtain a where a: "a \<in> A" "mf_pattern f = a AND mf_mask f" "\<forall>x \<in> A. mf_pattern f = x AND mf_mask f" "A \<noteq> {}"
    unfolding block_of_def by blast
  have "i AND msk = pat" if m: "i AND mf_mask f = mf_pattern f" and p: "\<forall>a \<in> A. a AND msk = pat" for msk pat
  proof -
    have "i AND msk = a AND msk"
    proof (rule bit_word_eqI)
      fix n assume "n < LENGTH(32)"
      then have n: "n < 32" by simp
      show "bit (i AND msk) n = bit (a AND msk) n"
      proof (cases "bit msk n")
        case True
        have "bit x n = bit y n" if "x \<in> A" "y \<in> A" for x y
        proof -
          have "bit (x AND msk) n = bit (y AND msk) n" using p that by simp
          then show ?thesis using True by (simp only: bit_and_iff simp_thms)
        qed
        then have "agree A n" unfolding agree_def by blast
        then have "bit (mf_mask f) n" using block_bits [OF b n] by simp
        moreover have "bit (i AND mf_mask f) n = bit (a AND mf_mask f) n" using m a(2) by simp
        ultimately show ?thesis by (simp only: bit_and_iff simp_thms)
      next
        case False
        then show ?thesis by (simp only: bit_and_iff simp_thms)
      qed
    qed
    then show ?thesis using p a(1) by simp
  qed
  moreover have "i AND mf_mask f = mf_pattern f"
    if "\<forall>msk pat. (\<forall>a \<in> A. a AND msk = pat) \<longrightarrow> i AND msk = pat"
    using that a(3) by metis
  ultimately show ?thesis using False a(4) unfolding mf_match_def by blast
qed

section \<open>The contract of a filter\<close>

text \<open>
  What the code that configures a filter relies on: an added identifier matches, a range that may
  be added is covered, and nothing that matched is lost.
\<close>

locale id_filter =
  fixes add :: "u32 \<Rightarrow> 'f \<Rightarrow> 'f"
    and add_range :: "u32 \<Rightarrow> u32 \<Rightarrow> 'f \<Rightarrow> 'f option"
    and matches :: "'f \<Rightarrow> u32 \<Rightarrow> bool"
    and valid :: "'f \<Rightarrow> bool"
    and ids :: "u32 set"
    and ends :: "u32 set"
  assumes add_valid: "valid f \<Longrightarrow> valid (add i f)"
    and add_matches: "valid f \<Longrightarrow> i \<in> ids \<Longrightarrow> matches (add i f) i"
    and add_keeps: "valid f \<Longrightarrow> matches f j \<Longrightarrow> matches (add i f) j"
    and range_covers: "valid f \<Longrightarrow> b \<in> ends \<Longrightarrow> \<exists>g. add_range a b f = Some g \<and> valid g
      \<and> (\<forall>i \<in> {a..b} \<inter> ids. matches g i) \<and> (\<forall>j. matches f j \<longrightarrow> matches g j)"
begin

fun configure :: "(u32 + u32 \<times> u32) list \<Rightarrow> 'f \<Rightarrow> 'f option" where
  "configure [] f = Some f"
| "configure (Inl i # xs) f = configure xs (add i f)"
| "configure (Inr (a, b) # xs) f = Option.bind (add_range a b f) (configure xs)"

lemma configure_covers:
  assumes "valid f" "\<forall>x \<in> set xs. case x of Inl i \<Rightarrow> True | Inr (a, b) \<Rightarrow> b \<in> ends"
  shows "\<exists>g. configure xs f = Some g \<and> valid g
    \<and> (\<forall>x \<in> set xs. \<forall>i \<in> ids. (case x of Inl j \<Rightarrow> i = j | Inr (a, b) \<Rightarrow> i \<in> {a..b}) \<longrightarrow> matches g i)
    \<and> (\<forall>j. matches f j \<longrightarrow> matches g j)"
  using assms
proof (induction xs f rule: configure.induct)
  case (2 i xs f)
  then obtain g where "configure xs (add i f) = Some g" "valid g" "\<forall>j. matches (add i f) j \<longrightarrow> matches g j"
    "\<forall>x \<in> set xs. \<forall>i \<in> ids. (case x of Inl j \<Rightarrow> i = j | Inr (a, b) \<Rightarrow> i \<in> {a..b}) \<longrightarrow> matches g i"
    using add_valid by auto
  then show ?case using add_matches [OF 2(2)] add_keeps [OF 2(2)] by auto
next
  case (3 a b xs f)
  then have "b \<in> ends" by simp
  from range_covers [OF 3(2) this, of a] obtain f' where f': "add_range a b f = Some f'" "valid f'"
    "\<forall>i \<in> {a..b} \<inter> ids. matches f' i" "\<forall>j. matches f j \<longrightarrow> matches f' j" by blast
  from 3(1) [OF f'(1) f'(2)] 3(3) obtain g where "configure xs f' = Some g" "valid g"
    "\<forall>x \<in> set xs. \<forall>i \<in> ids. (case x of Inl j \<Rightarrow> i = j | Inr (a, b) \<Rightarrow> i \<in> {a..b}) \<longrightarrow> matches g i"
    "\<forall>j. matches f' j \<longrightarrow> matches g j" by auto
  then show ?case using f' by auto
qed simp

end

lemma match_ids: "bf_match bits i \<longleftrightarrow> i \<in> bf_ids bits"
  by (simp add: bf_ids_def)

interpretation bff: id_filter bf_add bf_add_range bf_match "\<lambda>bits. length bits = MASK_SIZE" "{..MAX_FRAME_ID}" "{..<0xFFFFFFFF}"
proof
  fix f :: bit_field and i j a b :: u32 assume f: "length f = MASK_SIZE"
  show "length (bf_add i f) = MASK_SIZE" using f by simp
  show "bf_match (bf_add i f) i" if "i \<in> {..MAX_FRAME_ID}" using that by (simp add: match_ids bf_add_ids [OF f])
  show "bf_match (bf_add i f) j" if "bf_match f j" using that by (simp add: match_ids bf_add_ids [OF f])
  assume "b \<in> {..<0xFFFFFFFF}"
  then show "\<exists>g. bf_add_range a b f = Some g \<and> length g = MASK_SIZE
      \<and> (\<forall>i \<in> {a..b} \<inter> {..MAX_FRAME_ID}. bf_match g i) \<and> (\<forall>j. bf_match f j \<longrightarrow> bf_match g j)"
    using bf_add_loop_ids [of b f a] f by (auto simp: match_ids bf_add_range_def)
qed

lemma if_add_range_bounds:
  "if_from (if_add_range a b f) = min (if_from f) (min (min a INTERVAL_MAX_ID) (min b INTERVAL_MAX_ID))"
  "if_to (if_add_range a b f) = max (if_to f) (max (min a INTERVAL_MAX_ID) (min b INTERVAL_MAX_ID))"
proof -
  have c: "(if x > INTERVAL_MAX_ID then INTERVAL_MAX_ID else x) = min x INTERVAL_MAX_ID" for x
    by (auto simp: min_def)
  have s: "(if x > y then (y, x) else (x, y)) = (min x y, max x y)" for x y :: u32
    by (auto simp: min_def max_def)
  show "if_from (if_add_range a b f) = min (if_from f) (min (min a INTERVAL_MAX_ID) (min b INTERVAL_MAX_ID))"
    "if_to (if_add_range a b f) = max (if_to f) (max (min a INTERVAL_MAX_ID) (min b INTERVAL_MAX_ID))"
    unfolding if_add_range_def Let_def c s by simp_all
qed

lemma if_add_range_match:
  "if_match (if_add_range a b f) i \<longleftrightarrow>
     (if_from f \<le> i \<or> a \<le> i \<or> b \<le> i \<or> INTERVAL_MAX_ID \<le> i)
     \<and> (i \<le> if_to f \<or> i \<le> INTERVAL_MAX_ID \<and> (i \<le> a \<or> i \<le> b))"
  unfolding if_match_def if_add_range_bounds min_le_iff_disj le_max_iff_disj min_le_iff_disj min.bounded_iff by blast

interpretation itf: id_filter if_add "\<lambda>a b f. Some (if_add_range a b f)" if_match "\<lambda>f. True" "{..INTERVAL_MAX_ID}" UNIV
proof
  fix f :: interval_filter and i j a b :: u32
  show "if_match (if_add i f) i" if "i \<in> {..INTERVAL_MAX_ID}"
    using that by (simp add: if_add_def if_add_range_match)
  show "if_match (if_add i f) j" if "if_match f j"
    using that by (simp add: if_add_def if_add_range_match) (simp add: if_match_def)
  have "if_match (if_add_range a b f) j" if "if_match f j" for j
    using that by (simp add: if_add_range_match) (simp add: if_match_def)
  then show "\<exists>g. Some (if_add_range a b f) = Some g \<and> True
      \<and> (\<forall>i \<in> {a..b} \<inter> {..INTERVAL_MAX_ID}. if_match g i) \<and> (\<forall>j. if_match f j \<longrightarrow> if_match g j)"
    by (simp add: if_add_range_match)
qed simp

lemma rep_mono: "mf_rep f A \<Longrightarrow> mf_rep g (A \<union> B) \<Longrightarrow> mf_match f j \<Longrightarrow> mf_match g j"
  unfolding rep_match by blast

lemma rep_in: "mf_rep f A \<Longrightarrow> i \<in> A \<Longrightarrow> mf_match f i"
  unfolding rep_match by blast

interpretation mkf: id_filter mf_add "\<lambda>a b f. Some (mf_add_range a b f)" mf_match "\<lambda>f. \<exists>A. mf_rep f A" UNIV UNIV
proof
  fix f :: mask_filter and i j a b :: u32
  assume "\<exists>A. mf_rep f A"
  then obtain A where A: "mf_rep f A" by blast
  have one: "mf_rep (mf_add i f) (A \<union> {i})" using apply_rep [OF A, of "MfAdd i"] by simp
  have rng: "mf_rep (mf_add_range a b f) (A \<union> {min a b..max a b})" using apply_rep [OF A, of "MfAddRange a b"] by simp
  show "\<exists>A. mf_rep (mf_add i f) A" using one by blast
  show "mf_match (mf_add i f) i" using rep_in [OF one] by simp
  show "mf_match (mf_add i f) j" if "mf_match f j" by (rule rep_mono [OF A one that])
  show "\<exists>g. Some (mf_add_range a b f) = Some g \<and> (\<exists>A. mf_rep g A)
      \<and> (\<forall>i \<in> {a..b} \<inter> UNIV. mf_match g i) \<and> (\<forall>j. mf_match f j \<longrightarrow> mf_match g j)"
  proof (intro exI [of _ "mf_add_range a b f"] conjI ballI allI impI)
    show "\<exists>A. mf_rep (mf_add_range a b f) A" using rng by blast
    fix x assume "x \<in> {a..b} \<inter> UNIV"
    then show "mf_match (mf_add_range a b f) x"
      by (intro rep_in [OF rng]) (auto simp: min_le_iff_disj le_max_iff_disj)
  next
    fix x assume "mf_match f x"
    then show "mf_match (mf_add_range a b f) x" by (rule rep_mono [OF A rng])
  qed simp
qed

section \<open>The transceiver\<close>

datatype ct_op = CtAdd nat | CtAddVip nat | CtRemove nat | CtState can_state

fun ct_apply :: "(nat \<Rightarrow> can_filter) \<Rightarrow> ct_op \<Rightarrow> can_transceiver \<Rightarrow> can_transceiver option" where
  "ct_apply flt (CtAdd l) t = addCANFrameListener flt l t"
| "ct_apply flt (CtAddVip l) t = addVIPCANFrameListener flt l t"
| "ct_apply flt (CtRemove l) t = Some (removeCANFrameListener l t)"
| "ct_apply flt (CtState s) t = Some (ct_setState s t)"

fun ct_run :: "(nat \<Rightarrow> can_filter) \<Rightarrow> ct_op list \<Rightarrow> can_transceiver \<Rightarrow> can_transceiver option" where
  "ct_run flt [] t = Some t"
| "ct_run flt (x # xs) t = Option.bind (ct_apply flt x t) (ct_run flt xs)"

text \<open>The registered listeners as a list without duplicates, most important first.\<close>

fun registered :: "ct_op \<Rightarrow> nat list \<Rightarrow> nat list" where
  "registered (CtAdd l) ls = (if l \<in> set ls then ls else ls @ [l])"
| "registered (CtAddVip l) ls = (if l \<in> set ls then ls else l # ls)"
| "registered (CtRemove l) ls = removeAll l ls"
| "registered (CtState s) ls = ls"

definition ct_inv :: "(nat \<Rightarrow> can_filter) \<Rightarrow> can_transceiver \<Rightarrow> bool" where
  "ct_inv flt t \<longleftrightarrow> length (ct_filter t) = MASK_SIZE \<and> distinct (ct_listeners t)
     \<and> (\<forall>l \<in> set (ct_listeners t). {i. filter_match (flt l) i} \<inter> {..MAX_FRAME_ID} \<subseteq> bf_ids (ct_filter t))"

lemma ct_apply_inv:
  assumes "\<And>l. filter_ok (flt l)" "ct_inv flt t"
  shows "\<exists>t'. ct_apply flt x t = Some t' \<and> ct_inv flt t' \<and> ct_listeners t' = registered x (ct_listeners t)"
proof -
  have len: "length (ct_filter t) = MASK_SIZE" using assms(2) by (simp add: ct_inv_def)
  have merge: "\<exists>m. acceptMerger (flt l) (ct_filter t) = Some m \<and> length m = MASK_SIZE
    \<and> bf_ids m = bf_ids (ct_filter t) \<union> ({i. filter_match (flt l) i} \<inter> {..MAX_FRAME_ID})" for l
    using acceptMerger_ids [OF len assms(1)] by blast
  show ?thesis
  proof (cases x)
    case (CtAdd l)
    obtain m where m: "acceptMerger (flt l) (ct_filter t) = Some m" "length m = MASK_SIZE"
      "bf_ids m = bf_ids (ct_filter t) \<union> ({i. filter_match (flt l) i} \<inter> {..MAX_FRAME_ID})" using merge by blast
    show ?thesis
    proof (cases "l \<in> set (ct_listeners t)")
      case True
      then show ?thesis using assms(2) by (simp add: CtAdd addCANFrameListener_def)
    next
      case False
      then show ?thesis using assms(2) m unfolding ct_inv_def by (simp add: CtAdd addCANFrameListener_def) blast
    qed
  next
    case (CtAddVip l)
    obtain m where m: "acceptMerger (flt l) (ct_filter t) = Some m" "length m = MASK_SIZE"
      "bf_ids m = bf_ids (ct_filter t) \<union> ({i. filter_match (flt l) i} \<inter> {..MAX_FRAME_ID})" using merge by blast
    show ?thesis
    proof (cases "l \<in> set (ct_listeners t)")
      case True
      then show ?thesis using assms(2) by (simp add: CtAddVip addVIPCANFrameListener_def)
    next
      case False
      then show ?thesis using assms(2) m unfolding ct_inv_def by (simp add: CtAddVip addVIPCANFrameListener_def) blast
    qed
  next
    case (CtRemove l)
    then show ?thesis using assms(2)
      by (auto simp: removeCANFrameListener_def ct_inv_def distinct_remove1_removeAll distinct_removeAll)
  next
    case (CtState s)
    then show ?thesis using assms(2) by (auto simp: ct_setState_def ct_inv_def)
  qed
qed

lemma ct_run_inv:
  assumes "\<And>l. filter_ok (flt l)" "ct_inv flt t"
  shows "\<exists>t'. ct_run flt xs t = Some t' \<and> ct_inv flt t' \<and> ct_listeners t' = fold registered xs (ct_listeners t)"
  using assms(2)
proof (induction xs arbitrary: t)
  case (Cons x xs)
  from ct_apply_inv [OF assms(1) Cons.prems, of x] obtain t1 where
    "ct_apply flt x t = Some t1" "ct_inv flt t1" "ct_listeners t1 = registered x (ct_listeners t)" by blast
  then show ?case using Cons.IH [of t1] by auto
qed simp

lemma ct_new_inv: "ct_inv flt (ct_new b)"
  by (simp add: ct_inv_def ct_new_def bf_lengths)

end
