(* ===== verification/CanProps.thy ===== *)
theory CanProps imports CanFiltersCorrect begin

text \<open>
  The properties of the CAN filters and of the distribution of received frames.
\<close>

text \<open>C12: The bit field filter is equivalent to a set of base identifiers under every sequence of its
  operations (adding identifiers and ranges, clearing, opening and merging any kind of filter),
  if no range ends at the largest 32 bit number.\<close>

theorem bit_field_is_a_set:
  assumes "list_all bf_op_ok xs"
  shows "\<exists>bits. bf_run xs bf_clear = Some bits
    \<and> (\<forall>i. bf_match bits i \<longleftrightarrow> i \<in> fold set_apply xs {} \<and> i \<le> MAX_FRAME_ID)"
proof -
  obtain bits where "bf_run xs bf_clear = Some bits" "bf_ids bits = fold set_apply xs {} \<inter> {..MAX_FRAME_ID}"
    using bf_run_ids [of bf_clear "{}", OF _ _ assms] bf_lengths by auto
  then show ?thesis by (auto simp: match_ids)
qed

definition sample_bf_ops :: "bf_op list" where
  "sample_bf_ops = [BfAddRange 5 7, BfAdd 0x800, BfMerge (Interval \<lparr>if_from = 9, if_to = 0xFFF\<rparr>)]"

theorem bit_field_is_a_set_witness:
  "\<exists>bits. bf_run sample_bf_ops bf_clear = Some bits
    \<and> (\<forall>i. bf_match bits i \<longleftrightarrow> i \<in> fold set_apply sample_bf_ops {} \<and> i \<le> MAX_FRAME_ID)"
  by (rule bit_field_is_a_set) (simp add: sample_bf_ops_def)

text \<open>A range that ends at the largest number is added for ever.\<close>

lemma endless_range: "bf_add_range a 0xFFFFFFFF bits = None"
  by (simp add: bf_add_range_def bf_add_loop_max)

text \<open>C15: The mask filter accepts exactly the identifiers of the smallest block (the identifiers that agree
  with a pattern on a mask) that holds every identifier and range added to it.\<close>

theorem mask_filter_is_the_smallest_block:
  "mf_match (fold mf_apply xs mf_clear) i \<longleftrightarrow>
     (\<exists>x \<in> set xs. mf_op_ids x \<noteq> {})
     \<and> (\<forall>msk pat. (\<forall>a \<in> (\<Union>x \<in> set xs. mf_op_ids x). a AND msk = pat) \<longrightarrow> i AND msk = pat)"
  using rep_match [OF run_rep [OF clear_rep, of xs]] by simp

theorem mask_filter_is_the_smallest_block_witness:
  "mf_match (fold mf_apply [MfAdd 5, MfAddRange 8 9] mf_clear) 8 \<and> \<not> mf_match (fold mf_apply [MfAdd 5, MfAddRange 8 9] mf_clear) 6"
proof
  have e: "a = 8 \<or> a = 9" if "8 \<le> a" "a \<le> 9" for a :: u32
    using that by (simp add: word_le_nat_alt word_unat_eq_iff) linarith
  show "mf_match (fold mf_apply [MfAdd 5, MfAddRange 8 9] mf_clear) 8"
    unfolding mask_filter_is_the_smallest_block by auto
  show "\<not> mf_match (fold mf_apply [MfAdd 5, MfAddRange 8 9] mf_clear) 6"
    unfolding mask_filter_is_the_smallest_block
  proof
    assume "(\<exists>x \<in> set [MfAdd 5, MfAddRange 8 9]. mf_op_ids x \<noteq> {})
      \<and> (\<forall>msk pat. (\<forall>a \<in> (\<Union>x \<in> set [MfAdd 5, MfAddRange 8 9]. mf_op_ids x). a AND msk = pat) \<longrightarrow> 6 AND msk = pat)"
    then have "(\<forall>a \<in> (\<Union>x \<in> set [MfAdd 5, MfAddRange 8 9]. mf_op_ids x). a AND 2 = 0) \<longrightarrow> 6 AND (2 :: u32) = 0" by blast
    moreover have "\<forall>a \<in> (\<Union>x \<in> set [MfAdd 5, MfAddRange 8 9]. mf_op_ids x). a AND 2 = 0" using e by fastforce
    ultimately show False by simp
  qed
qed

text \<open>Identifiers and ranges of base identifiers given to a bit field, an interval and a mask filter
  are accepted by all three.\<close>

theorem filters_cover_their_configuration:
  assumes "\<forall>x \<in> set xs. case x of Inl i \<Rightarrow> i \<le> MAX_FRAME_ID | Inr (a, b) \<Rightarrow> b \<le> MAX_FRAME_ID"
  shows "\<exists>bits f g. bff.configure xs bf_clear = Some bits \<and> itf.configure xs if_clear = Some f
    \<and> mkf.configure xs mf_clear = Some g
    \<and> (\<forall>x \<in> set xs. \<forall>i. (case x of Inl j \<Rightarrow> i = j | Inr (a, b) \<Rightarrow> i \<in> {a..b}) \<longrightarrow>
         bf_match bits i \<and> if_match f i \<and> mf_match g i)"
proof -
  have le: "i < 0xFFFFFFFF" "i \<le> INTERVAL_MAX_ID" if "i \<le> MAX_FRAME_ID" for i
  proof -
    have "unat i < 2048" using that by (simp add: unat_id_less)
    then show "i < 0xFFFFFFFF" "i \<le> INTERVAL_MAX_ID"
      by (simp_all add: word_less_nat_alt word_le_nat_alt INTERVAL_MAX_ID_def EXTENDED_QUALIFIER_BIT_def MAX_FRAME_ID_EXTENDED_def)
  qed
  have in_base: "i \<le> MAX_FRAME_ID"
    if "x \<in> set xs" "case x of Inl j \<Rightarrow> i = j | Inr (a, b) \<Rightarrow> i \<in> {a..b}" for x i
    using bspec [OF assms that(1)] that(2) by (auto split: sum.splits intro: order_trans)
  have ends: "\<forall>x \<in> set xs. case x of Inl i \<Rightarrow> True | Inr (a, b) \<Rightarrow> b \<in> {..<0xFFFFFFFF}"
    "\<forall>x \<in> set xs. case x of Inl i \<Rightarrow> True | Inr (a, b) \<Rightarrow> b \<in> (UNIV :: u32 set)"
    using assms le by (auto split: sum.splits)
  obtain bits where b: "bff.configure xs bf_clear = Some bits"
    "\<forall>x \<in> set xs. \<forall>i \<in> {..MAX_FRAME_ID}. (case x of Inl j \<Rightarrow> i = j | Inr (a, b) \<Rightarrow> i \<in> {a..b}) \<longrightarrow> bf_match bits i"
    using bff.configure_covers [OF bf_lengths(1) ends(1)] by blast
  obtain f where f: "itf.configure xs if_clear = Some f"
    "\<forall>x \<in> set xs. \<forall>i \<in> {..INTERVAL_MAX_ID}. (case x of Inl j \<Rightarrow> i = j | Inr (a, b) \<Rightarrow> i \<in> {a..b}) \<longrightarrow> if_match f i"
    using itf.configure_covers [OF TrueI ends(2), of if_clear] by blast
  obtain g where g: "mkf.configure xs mf_clear = Some g"
    "\<forall>x \<in> set xs. \<forall>i \<in> UNIV. (case x of Inl j \<Rightarrow> i = j | Inr (a, b) \<Rightarrow> i \<in> {a..b}) \<longrightarrow> mf_match g i"
    using mkf.configure_covers [OF exI [of "mf_rep mf_clear", OF clear_rep] ends(2)] by blast
  show ?thesis
    using b f g in_base le(2) by (intro exI [of _ bits] exI [of _ f] exI [of _ g]) (simp add: Ball_def)
qed

theorem filters_cover_their_configuration_witness:
  "\<exists>bits f g. bff.configure [Inl 3, Inr (0x10, 0x1F)] bf_clear = Some bits
    \<and> itf.configure [Inl 3, Inr (0x10, 0x1F)] if_clear = Some f
    \<and> mkf.configure [Inl 3, Inr (0x10, 0x1F)] mf_clear = Some g
    \<and> bf_match bits 0x15 \<and> if_match f 0x15 \<and> mf_match g 0x15"
proof -
  have "\<forall>x \<in> set [Inl 3, Inr (0x10, 0x1F)]. case x of Inl i \<Rightarrow> i \<le> MAX_FRAME_ID | Inr (a, b) \<Rightarrow> a \<le> b \<and> b \<le> MAX_FRAME_ID"
    by (simp add: MAX_FRAME_ID_def)
  then show ?thesis using filters_cover_their_configuration [of "[Inl 3, Inr (0x10, 0x1F)]"] by fastforce
qed

text \<open>C16: After any registrations and removals of listeners, an open transceiver notifies of a frame exactly
  the registered listeners whose filter matches, each once and in the order of registration with
  the important ones first, and the filter given to the hardware accepts every base identifier
  that one of them accepts.\<close>

theorem no_listener_misses_a_frame:
  assumes "\<forall>l. filter_ok (flt l)"
  shows "\<exists>t. ct_run flt xs (ct_new busId) = Some t \<and> distinct (ct_listeners t)
    \<and> (\<forall>i. notifyListeners flt i t = (if ct_state t = CLOSED then []
          else filter (\<lambda>l. filter_match (flt l) i) (fold registered xs [])))
    \<and> (\<forall>i. i \<le> MAX_FRAME_ID \<and> notifyListeners flt i t \<noteq> [] \<longrightarrow> bf_match (ct_filter t) i)"
proof -
  obtain t where t: "ct_run flt xs (ct_new busId) = Some t" "ct_inv flt t" "ct_listeners t = fold registered xs []"
    using ct_run_inv [OF _ ct_new_inv, of flt xs busId] assms by (auto simp: ct_new_def)
  have "bf_match (ct_filter t) i" if h: "i \<le> MAX_FRAME_ID" "notifyListeners flt i t \<noteq> []" for i
  proof -
    obtain l where "l \<in> set (ct_listeners t)" "filter_match (flt l) i"
      using h(2) by (auto simp: notifyListeners_def filter_empty_conv split: if_splits)
    then show ?thesis using t(2) h(1) unfolding ct_inv_def match_ids by blast
  qed
  then show ?thesis using t by (auto simp: notifyListeners_def ct_inv_def)
qed

definition sample_filters :: "nat \<Rightarrow> can_filter" where
  "sample_filters l = (if l = 0 then Interval \<lparr>if_from = 0x100, if_to = 0x1FF\<rparr> else BitField bf_open)"

theorem no_listener_misses_a_frame_witness:
  "\<exists>t. ct_run sample_filters [CtAdd 0, CtAddVip 1, CtState OPEN, CtRemove 0] (ct_new 1) = Some t \<and> distinct (ct_listeners t)
    \<and> notifyListeners sample_filters 0x150 t = (if ct_state t = CLOSED then [] else [1])"
proof -
  have "\<forall>l. filter_ok (sample_filters l)" by (simp add: sample_filters_def bf_lengths)
  then obtain t where "ct_run sample_filters [CtAdd 0, CtAddVip 1, CtState OPEN, CtRemove 0] (ct_new 1) = Some t" "distinct (ct_listeners t)"
    "\<forall>i. notifyListeners sample_filters i t = (if ct_state t = CLOSED then []
          else filter (\<lambda>l. filter_match (sample_filters l) i) (fold registered [CtAdd 0, CtAddVip 1, CtState OPEN, CtRemove 0] []))"
    using no_listener_misses_a_frame [of sample_filters "[CtAdd 0, CtAddVip 1, CtState OPEN, CtRemove 0]" 1] by blast
  moreover have "filter_match (sample_filters 1) 0x150" by (simp add: sample_filters_def) code_simp
  ultimately show ?thesis by (intro exI [of _ t]) simp
qed

end
