(* ===== verification/StorageEep.thy ===== *)
theory StorageEep imports BswPrelude begin

text \<open>
  Persistent storage: the jobs of \<^verbatim>\<open>libs/bsw/storage\<close>, the low-level storage
  \<^verbatim>\<open>EepStorage\<close> and the EEPROM driver of the POSIX platform. The checksum function is a
  parameter (it is a part of the template library the code uses). A linked buffer is the list
  of its spans, a span of a read job holds its bytes.
\<close>

section \<open>Jobs\<close>

datatype job_result = ResultInit | ResultError | ResultDataLoss | ResultSuccess

text \<open>A write job has its buffers and an offset, a read job also the number of bytes read.\<close>

datatype job_type =
    JobNone
  | JobWrite "u8 list list" nat
  | JobRead "u8 list list" nat nat

record storage_job =
  sj_result :: job_result
  sj_job :: job_type
  sj_id :: nat

definition sj_new :: storage_job where
  "sj_new = \<lparr>sj_result = ResultInit, sj_job = JobNone, sj_id = 0\<rparr>"

definition sj_init :: "nat \<Rightarrow> storage_job \<Rightarrow> storage_job" where
  "sj_init i j = j\<lparr>sj_id := i, sj_result := ResultInit\<rparr>"

definition sj_initWrite :: "u8 list list \<Rightarrow> nat \<Rightarrow> storage_job \<Rightarrow> storage_job" where
  "sj_initWrite buffer offset j = j\<lparr>sj_job := JobWrite buffer offset\<rparr>"

definition sj_initRead :: "u8 list list \<Rightarrow> nat \<Rightarrow> storage_job \<Rightarrow> storage_job" where
  "sj_initRead buffer offset j = j\<lparr>sj_job := JobRead buffer offset 0\<rparr>"

text \<open>The result is set before the callback runs; the callback is the caller's concern.\<close>

definition sj_sendResult :: "job_result \<Rightarrow> storage_job \<Rightarrow> storage_job" where
  "sj_sendResult result j = j\<lparr>sj_result := result\<rparr>"

section \<open>The driver interface\<close>

text \<open>
  \<open>read\<close> returns whether it succeeded, the buffer and the driver, \<open>write\<close> whether it succeeded
  and the driver.
\<close>

record 'd eeprom_ops =
  ee_read :: "nat \<Rightarrow> u8 list \<Rightarrow> 'd \<Rightarrow> bool \<times> u8 list \<times> 'd"
  ee_write :: "nat \<Rightarrow> u8 list \<Rightarrow> 'd \<Rightarrow> bool \<times> 'd"

section \<open>EepStorage\<close>

record block_config =
  bc_address :: nat
  bc_dataSize :: nat
  bc_errorDetection :: bool

record eep_config =
  ec_config :: "block_config list"
  ec_nvCrcSize :: nat
  ec_headerSize :: nat

text \<open>\<^verbatim>\<open>declare::EepStorage\<close>: two bytes for the checksum and two for the size of the data.\<close>

definition ec_declare :: "block_config list \<Rightarrow> eep_config" where
  "ec_declare blocks = \<lparr>ec_config = blocks, ec_nvCrcSize = 2, ec_headerSize = 2 + 2\<rparr>"

definition span_of :: "u8 list \<Rightarrow> nat \<Rightarrow> nat \<Rightarrow> u8 list option" where
  "span_of p i n = (if i + n \<le> length p then Some (take n (drop i p)) else None)"

definition isCrcValid :: "(u8 list \<Rightarrow> u16) \<Rightarrow> u8 list \<Rightarrow> nat \<Rightarrow> bool" where
  "isCrcValid crc data stored \<longleftrightarrow> unat (crc data) = stored"

definition calculateCrc :: "(u8 list \<Rightarrow> u16) \<Rightarrow> u8 list \<Rightarrow> u8 list \<Rightarrow> nat \<Rightarrow> u8 list option" where
  "calculateCrc crc data p i = put_be16 p i (unat (crc data))"

text \<open>
  The copying loop of a write job; \<open>Inl\<close> is the early return when the data does not fit. It
  returns the progress in the block, the progress for the user and the buffer.
\<close>

fun eep_copy_in :: "nat \<Rightarrow> nat \<Rightarrow> u8 list list \<Rightarrow> nat \<Rightarrow> nat \<Rightarrow> u8 list \<Rightarrow> (u8 list + nat \<times> nat \<times> u8 list) option" where
  "eep_copy_in dataSize headerSize [] progressInBlock progressForUser buf =
     Some (Inr (progressInBlock, progressForUser, buf))"
| "eep_copy_in dataSize headerSize (writeBuf # bufs) progressInBlock progressForUser buf =
     (let sizeToCopy = length writeBuf
      in if progressInBlock + sizeToCopy > dataSize then Some (Inl buf)
         else do {
           buf \<leftarrow> mem_copy writeBuf sizeToCopy buf (headerSize + progressInBlock);
           eep_copy_in dataSize headerSize bufs (progressInBlock + sizeToCopy) (progressForUser + sizeToCopy) buf })"

text \<open>
  What a write job does before it copies: with error detection the block is read back. The
  result is \<open>Inl\<close> when the driver fails, otherwise the number of bytes in use.
\<close>

definition eep_prepare ::
  "'d eeprom_ops \<Rightarrow> (u8 list \<Rightarrow> u16) \<Rightarrow> eep_config \<Rightarrow> nat \<Rightarrow> block_config \<Rightarrow> u8 list \<Rightarrow> 'd \<Rightarrow>
   ((u8 list \<times> 'd) + (nat \<times> u8 list \<times> 'd)) option" where
  "eep_prepare D crc ec offset entry buf d =
     (if bc_errorDetection entry
      then let (ok, buf, d) = ee_read D (bc_address entry) buf d
           in if \<not> ok then Some (Inl (buf, d))
              else let usedDataSize = min (be16 buf (ec_nvCrcSize ec)) (bc_dataSize entry)
                   in do {
                     data \<leftarrow> span_of buf (ec_headerSize ec) usedDataSize;
                     if \<not> isCrcValid crc data (be16 buf 0)
                     then do {
                       buf \<leftarrow> mem_set buf (ec_headerSize ec) offset 0;
                       Some (Inr (0, buf, d)) }
                     else Some (Inr (usedDataSize, buf, d)) }
      else Some (Inr (0, buf, d)))"

definition eep_finish ::
  "(u8 list \<Rightarrow> u16) \<Rightarrow> eep_config \<Rightarrow> nat \<Rightarrow> nat \<Rightarrow> block_config \<Rightarrow> u8 list \<Rightarrow> u8 list option" where
  "eep_finish crc ec usedDataSize progressInBlock entry buf =
     (if bc_errorDetection entry
      then let usedDataSize = max usedDataSize progressInBlock
           in do {
             buf \<leftarrow> put_be16 buf (ec_nvCrcSize ec) usedDataSize;
             data \<leftarrow> span_of buf (ec_headerSize ec) usedDataSize;
             calculateCrc crc data buf 0 }
      else Some buf)"

definition eep_write ::
  "'d eeprom_ops \<Rightarrow> (u8 list \<Rightarrow> u16) \<Rightarrow> eep_config \<Rightarrow> u8 list list \<Rightarrow> nat \<Rightarrow> block_config \<Rightarrow> nat \<Rightarrow> u8 list \<Rightarrow> 'd \<Rightarrow>
   (job_result \<times> u8 list \<times> 'd) option" where
  "eep_write D crc ec buffers offset entry headerSize buf d =
     (if offset \<ge> bc_dataSize entry then Some (ResultError, buf, d)
      else do {
        prepared \<leftarrow> eep_prepare D crc ec offset entry buf d;
        (case prepared of
           Inl (buf, d) \<Rightarrow> Some (ResultError, buf, d)
         | Inr (usedDataSize, buf, d) \<Rightarrow> do {
             copied \<leftarrow> eep_copy_in (bc_dataSize entry) headerSize buffers offset 0 buf;
             (case copied of
                Inl buf \<Rightarrow> Some (ResultError, buf, d)
              | Inr (progressInBlock, progressForUser, buf) \<Rightarrow>
                  if progressForUser = 0 then Some (ResultError, buf, d)
                  else do {
                    buf \<leftarrow> eep_finish crc ec usedDataSize progressInBlock entry buf;
                    data \<leftarrow> span_of buf 0 (headerSize + progressInBlock);
                    let (ok, d) = ee_write D (bc_address entry) data d;
                    Some (if ok then ResultSuccess else ResultError, buf, d) }) }) })"

text \<open>The copying loop of a read job: the filled buffers and the number of bytes copied.\<close>

fun eep_copy_out :: "nat \<Rightarrow> nat \<Rightarrow> u8 list list \<Rightarrow> nat \<Rightarrow> nat \<Rightarrow> u8 list \<Rightarrow> (u8 list list \<times> nat) option" where
  "eep_copy_out usedDataSize headerSize [] progressInBlock progressForUser buf = Some ([], progressForUser)"
| "eep_copy_out usedDataSize headerSize (readBuf # bufs) progressInBlock progressForUser buf =
     (if progressInBlock \<ge> usedDataSize then Some (readBuf # bufs, progressForUser)
      else let sizeToCopy = length readBuf;
               sizeToCopy = (if progressInBlock + sizeToCopy > usedDataSize then usedDataSize - progressInBlock else sizeToCopy)
           in do {
             data \<leftarrow> span_of buf (headerSize + progressInBlock) sizeToCopy;
             readBuf \<leftarrow> mem_copy data sizeToCopy readBuf 0;
             (bufs, n) \<leftarrow> eep_copy_out usedDataSize headerSize bufs (progressInBlock + sizeToCopy) (progressForUser + sizeToCopy) buf;
             Some (readBuf # bufs, n) })"

text \<open>Returns the result, the filled buffers with the number of bytes read, the buffer and the driver.\<close>

definition eep_read ::
  "'d eeprom_ops \<Rightarrow> (u8 list \<Rightarrow> u16) \<Rightarrow> eep_config \<Rightarrow> u8 list list \<Rightarrow> nat \<Rightarrow> nat \<Rightarrow> block_config \<Rightarrow> nat \<Rightarrow> u8 list \<Rightarrow> 'd \<Rightarrow>
   (job_result \<times> (u8 list list \<times> nat) \<times> u8 list \<times> 'd) option" where
  "eep_read D crc ec buffers offset readSize entry headerSize buf d = do {
     buf \<leftarrow> mem_set buf 0 (length buf) 0;
     let (ok, buf, d) = ee_read D (bc_address entry) buf d;
     if \<not> ok then Some (ResultError, (buffers, readSize), buf, d)
     else do {
       checked \<leftarrow>
         (if bc_errorDetection entry
          then let usedDataSize = min (be16 buf (ec_nvCrcSize ec)) (bc_dataSize entry)
               in do {
                 data \<leftarrow> span_of buf headerSize usedDataSize;
                 Some (if isCrcValid crc data (be16 buf 0) then Some usedDataSize else None) }
          else Some (Some (bc_dataSize entry)));
       (case checked of
          None \<Rightarrow> Some (ResultDataLoss, (buffers, readSize), buf, d)
        | Some usedDataSize \<Rightarrow> do {
            copied \<leftarrow> eep_copy_out usedDataSize headerSize buffers offset 0 buf;
            Some (ResultSuccess, copied, buf, d) }) } }"

text \<open>The state of the storage is its buffer and the driver.\<close>

definition eep_process ::
  "'d eeprom_ops \<Rightarrow> (u8 list \<Rightarrow> u16) \<Rightarrow> eep_config \<Rightarrow> storage_job \<Rightarrow> u8 list \<times> 'd \<Rightarrow> (storage_job \<times> u8 list \<times> 'd) option" where
  "eep_process D crc ec job s =
     (case s of (eepBuf, d) \<Rightarrow>
      if sj_id job \<ge> length (ec_config ec) then Some (sj_sendResult ResultError job, eepBuf, d)
      else let confEntry = ec_config ec ! sj_id job;
               headerSize = (if bc_errorDetection confEntry then ec_headerSize ec else 0);
               totalSize = headerSize + bc_dataSize confEntry
           in if totalSize > length eepBuf then Some (sj_sendResult ResultError job, eepBuf, d)
              else (case sj_job job of
                  JobNone \<Rightarrow> Some (sj_sendResult ResultError job, eepBuf, d)
                | JobWrite buffers offset \<Rightarrow> do {
                    (result, buf, d) \<leftarrow> eep_write D crc ec buffers offset confEntry headerSize (take totalSize eepBuf) d;
                    Some (sj_sendResult result job, buf @ drop totalSize eepBuf, d) }
                | JobRead buffers offset readSize \<Rightarrow> do {
                    (result, (buffers, readSize), buf, d) \<leftarrow>
                      eep_read D crc ec buffers offset readSize confEntry headerSize (take totalSize eepBuf) d;
                    Some (sj_sendResult result (job\<lparr>sj_job := JobRead buffers offset readSize\<rparr>),
                          buf @ drop totalSize eepBuf, d) }))"

section \<open>The driver of the POSIX platform\<close>

text \<open>
  The file is its bytes. What the operating system answers is a parameter: whether the n-th
  positioning or synchronising call succeeds, and how many bytes the n-th reading or writing
  call transfers at most.
\<close>

record posix_os =
  os_ok :: "nat \<Rightarrow> bool"
  os_count :: "nat \<Rightarrow> nat"

record posix_eeprom =
  pe_file :: "u8 list"
  pe_open :: bool
  pe_calls :: nat

definition pe_write :: "posix_os \<Rightarrow> nat \<Rightarrow> nat \<Rightarrow> u8 list \<Rightarrow> posix_eeprom \<Rightarrow> bool \<times> posix_eeprom" where
  "pe_write os EEPROM_SIZE address buffer e =
     (let len = length buffer; k = pe_calls e in
      if \<not> (pe_open e \<and> address < EEPROM_SIZE \<and> len \<le> EEPROM_SIZE - address) then (False, e)
      else if \<not> os_ok os k then (False, e\<lparr>pe_calls := k + 1\<rparr>)
      else let n = min (os_count os (k + 1)) len;
               e = e\<lparr>pe_file := take address (pe_file e) @ take n buffer @ drop (address + n) (pe_file e)\<rparr>
           in if n \<noteq> len then (False, e\<lparr>pe_calls := k + 2\<rparr>)
              else (os_ok os (k + 2), e\<lparr>pe_calls := k + 3\<rparr>))"

definition pe_read :: "posix_os \<Rightarrow> nat \<Rightarrow> nat \<Rightarrow> u8 list \<Rightarrow> posix_eeprom \<Rightarrow> bool \<times> u8 list \<times> posix_eeprom" where
  "pe_read os EEPROM_SIZE address buffer e =
     (let len = length buffer; k = pe_calls e in
      if \<not> (pe_open e \<and> address < EEPROM_SIZE \<and> len \<le> EEPROM_SIZE - address) then (False, buffer, e)
      else if \<not> os_ok os k then (False, buffer, e\<lparr>pe_calls := k + 1\<rparr>)
      else let n = min (os_count os (k + 1)) (min len (length (pe_file e) - address))
           in (n = len, take n (drop address (pe_file e)) @ drop n buffer, e\<lparr>pe_calls := k + 2\<rparr>))"

definition pe_ops :: "posix_os \<Rightarrow> nat \<Rightarrow> posix_eeprom eeprom_ops" where
  "pe_ops os EEPROM_SIZE = \<lparr>ee_read = pe_read os EEPROM_SIZE, ee_write = pe_write os EEPROM_SIZE\<rparr>"

end
