(* ===== verification/StorageEepCorrect.thy ===== *)
theory StorageEepCorrect imports StorageEep begin

text \<open>
  The low-level storage on any driver that keeps its contract: what a job does to the content of
  its block and to the other blocks; and the POSIX driver as such a driver.
\<close>

section \<open>The contract of an EEPROM driver\<close>

text \<open>
  What the interface promises: a successful access transfers all bytes, a failed write may have
  changed the bytes it was to write, and nothing else is touched.
\<close>

locale eeprom_driver =
  fixes ops :: "'d eeprom_ops" and valid :: "'d \<Rightarrow> bool" and mem :: "'d \<Rightarrow> u8 list"
  assumes read_law: "valid d \<Longrightarrow> ee_read ops a buf d = (ok, buf', d') \<Longrightarrow>
      valid d' \<and> mem d' = mem d \<and> length buf' = length buf
      \<and> (ok \<longrightarrow> a + length buf \<le> length (mem d) \<and> buf' = take (length buf) (drop a (mem d)))"
    and write_law: "valid d \<Longrightarrow> ee_write ops a bs d = (ok, d') \<Longrightarrow>
      valid d' \<and> length (mem d') = length (mem d)
      \<and> take a (mem d') = take a (mem d) \<and> drop (a + length bs) (mem d') = drop (a + length bs) (mem d)
      \<and> (ok \<longrightarrow> a + length bs \<le> length (mem d) \<and> mem d' = take a (mem d) @ bs @ drop (a + length bs) (mem d))"

definition pe_valid :: "nat \<Rightarrow> posix_eeprom \<Rightarrow> bool" where
  "pe_valid sz e \<longleftrightarrow> length (pe_file e) = sz"

lemma pe_read_law:
  "pe_valid sz d \<Longrightarrow> pe_read os sz a buf d = (ok, buf', d') \<Longrightarrow>
      pe_valid sz d' \<and> pe_file d' = pe_file d \<and> length buf' = length buf
      \<and> (ok \<longrightarrow> a + length buf \<le> length (pe_file d) \<and> buf' = take (length buf) (drop a (pe_file d)))"
  by (auto simp: pe_read_def pe_valid_def Let_def min_def split: if_splits)

lemma pe_write_law:
  "pe_valid sz d \<Longrightarrow> pe_write os sz a bs d = (ok, d') \<Longrightarrow>
      pe_valid sz d' \<and> length (pe_file d') = length (pe_file d)
      \<and> take a (pe_file d') = take a (pe_file d) \<and> drop (a + length bs) (pe_file d') = drop (a + length bs) (pe_file d)
      \<and> (ok \<longrightarrow> a + length bs \<le> length (pe_file d) \<and> pe_file d' = take a (pe_file d) @ bs @ drop (a + length bs) (pe_file d))"
  by (auto simp: pe_write_def pe_valid_def Let_def min_def add.commute split: if_splits)

section \<open>Copying\<close>

lemma copy_in:
  assumes "length buf = hs + ds" "p \<le> ds"
  shows "\<exists>r. eep_copy_in ds hs bufs p u buf = Some r \<and> (case r of
      Inl buf' \<Rightarrow> length buf' = hs + ds
    | Inr (p', u', buf') \<Rightarrow> p' = p + length (concat bufs) \<and> u' = u + length (concat bufs) \<and> p' \<le> ds
        \<and> buf' = take (hs + p) buf @ concat bufs @ drop (hs + p') buf)"
  using assms
proof (induction bufs arbitrary: p u buf)
  case Nil
  then show ?case by simp
next
  case (Cons b bufs)
  show ?case
  proof (cases "p + length b > ds")
    case True
    then show ?thesis using Cons.prems by simp
  next
    case False
    let ?buf = "take (hs + p) buf @ b @ drop (hs + (p + length b)) buf"
    have c: "mem_copy b (length b) buf (hs + p) = Some ?buf"
      using False Cons.prems by (simp add: add.assoc)
    have "length ?buf = hs + ds" "p + length b \<le> ds" using False Cons.prems by simp_all
    from Cons.IH [OF this, of "u + length b"] obtain r where
      r: "eep_copy_in ds hs bufs (p + length b) (u + length b) ?buf = Some r" "case r of
          Inl buf' \<Rightarrow> length buf' = hs + ds
        | Inr (p', u', buf') \<Rightarrow> p' = p + length b + length (concat bufs) \<and> u' = u + length b + length (concat bufs) \<and> p' \<le> ds
            \<and> buf' = take (hs + (p + length b)) ?buf @ concat bufs @ drop (hs + p') ?buf" by blast
    have e: "eep_copy_in ds hs (b # bufs) p u buf = Some r" using False c r(1) by (simp add: Let_def)
    have "take (hs + (p + length b)) ?buf = take (hs + p) buf @ b" using Cons.prems by simp
    moreover have "drop (hs + p') ?buf = drop (hs + p') buf" if "p' = p + length b + length (concat bufs)" for p'
      using that Cons.prems by (simp add: ac_simps)
    ultimately show ?thesis using e r(2) by (intro exI [of _ r]) (cases r; auto)
  qed
qed

lemma min_split:
  "k = min B U \<Longrightarrow> n = min L (U - k) \<Longrightarrow> k + n = min (B + L) (U :: nat) \<and> (n = 0 \<or> k = B)"
  by (cases "B \<le> U"; cases "L \<le> U - B") simp_all

lemma copy_out:
  assumes "hs + used \<le> length buf"
  shows "\<exists>out n. eep_copy_out used hs bufs p u buf = Some (out, u + n) \<and> map length out = map length bufs
    \<and> n = min (length (concat bufs)) (used - p)
    \<and> concat out = take n (drop p (take used (drop hs buf))) @ drop n (concat bufs)"
proof (induction bufs arbitrary: p u)
  case Nil
  then show ?case by simp
next
  case (Cons b bufs)
  show ?case
  proof (cases "p \<ge> used")
    case True
    then show ?thesis by (intro exI [of _ "b # bufs"] exI [of _ 0]) simp
  next
    case False
    define k where "k = (if p + length b > used then used - p else length b)"
    have k: "k = min (length b) (used - p)" using False by (auto simp: k_def)
    let ?d = "take k (drop (hs + p) buf)"
    have s: "span_of buf (hs + p) k = Some ?d" using False assms k by (simp add: span_of_def)
    have lk: "length ?d = k" using False assms k by simp
    have c: "mem_copy ?d k b 0 = Some (?d @ drop k b)" using lk k by simp
    from Cons.IH [of "p + k" "u + k"] obtain out n where o: "eep_copy_out used hs bufs (p + k) (u + k) buf = Some (out, u + k + n)"
      "map length out = map length bufs" "n = min (length (concat bufs)) (used - (p + k))"
      "concat out = take n (drop (p + k) (take used (drop hs buf))) @ drop n (concat bufs)" by blast
    have e: "eep_copy_out used hs (b # bufs) p u buf = Some ((?d @ drop k b) # out, u + (k + n))"
      using False s c o(1) unfolding k_def by (simp add: Let_def add.assoc)
    have l: "length (?d @ drop k b) = length b" using lk k by simp
    have kn: "k + n = min (length (concat (b # bufs))) (used - p)" using min_split [OF k, of n "length (concat bufs)"] o(3) by (simp add: diff_diff_left)
    have "take (k + n) (drop p (take used (drop hs buf))) = ?d @ take n (drop (p + k) (take used (drop hs buf)))"
    proof -
      have "take k (drop p (take used (drop hs buf))) = ?d"
        using k by (simp add: drop_take min_def add.commute)
      then show ?thesis by (simp add: take_add add.commute)
    qed
    note split = this
    have "n = 0 \<or> k = length b" using min_split [OF k, of n "length (concat bufs)"] o(3) by (simp add: diff_diff_left)
    then have "concat ((?d @ drop k b) # out)
        = take (k + n) (drop p (take used (drop hs buf))) @ drop (k + n) (concat (b # bufs))"
    proof
      assume "n = 0"
      moreover have "k \<le> length b" using k by simp
      ultimately show ?thesis unfolding split using o(4) by simp
    next
      assume "k = length b"
      then show ?thesis unfolding split using o(4) by simp
    qed
    moreover have "map length ((?d @ drop k b) # out) = map length (b # bufs)" using l o(2) by simp
    ultimately show ?thesis using e kn by blast
  qed
qed

section \<open>The content of a block\<close>

definition region :: "nat \<Rightarrow> nat \<Rightarrow> u8 list \<Rightarrow> u8 list" where
  "region a n m = take n (drop a m)"

text \<open>The data of a block with error detection, if its checksum holds.\<close>

definition content :: "(u8 list \<Rightarrow> u16) \<Rightarrow> nat \<Rightarrow> u8 list \<Rightarrow> u8 list option" where
  "content crc ds r = (let c = take (min (be16 r 2) ds) (drop 4 r)
     in if unat (crc c) = be16 r 0 then Some c else None)"

definition written :: "u8 list option \<Rightarrow> u8 list \<Rightarrow> nat \<Rightarrow> u8 list \<Rightarrow> u8 list" where
  "written old raw offset data = (case old of
       None \<Rightarrow> replicate offset 0 @ data
     | Some c \<Rightarrow> if offset \<le> length c then take offset c @ data @ drop (offset + length data) c
                else c @ take (offset - length c) (drop (length c) raw) @ data)"

lemma content_length: "length r = 4 + ds \<Longrightarrow> content crc ds r = Some c \<Longrightarrow> length c \<le> ds"
  by (auto simp: content_def Let_def split: if_splits)

lemma written_data: "take (length data) (drop offset (written old raw offset data)) = data"
  if "case old of None \<Rightarrow> True | Some c \<Rightarrow> offset \<le> length c + length (drop (length c) raw)"
  using that by (auto simp: written_def split: option.splits)

lemma header_bytes:
  assumes "u < 65536" "v < 65536" "length buf = 4 + ds"
  shows "be16 (buf[2 := byte_of (u div 256), 3 := byte_of u, 0 := byte_of (v div 256), 1 := byte_of v]) 2 = u"
    and "be16 (buf[2 := byte_of (u div 256), 3 := byte_of u, 0 := byte_of (v div 256), 1 := byte_of v]) 0 = v"
    and "drop 4 (buf[2 := byte_of (u div 256), 3 := byte_of u, 0 := byte_of (v div 256), 1 := byte_of v]) = drop 4 buf"
proof -
  have d: "w div 256 mod 256 * 256 + w mod 256 = w" if "w < 65536" for w :: nat
    using that by (simp add: less_mult_imp_div_less)
  show "be16 (buf[2 := byte_of (u div 256), 3 := byte_of u, 0 := byte_of (v div 256), 1 := byte_of v]) 2 = u"
    "be16 (buf[2 := byte_of (u div 256), 3 := byte_of u, 0 := byte_of (v div 256), 1 := byte_of v]) 0 = v"
    using assms(3) d [OF assms(1)] d [OF assms(2)] by (simp_all add: be16_def unat_byte_of)
  show "drop 4 (buf[2 := byte_of (u div 256), 3 := byte_of u, 0 := byte_of (v div 256), 1 := byte_of v]) = drop 4 buf"
    by simp
qed

lemma finish_content:
  assumes "bc_errorDetection entry" "length buf = 4 + ds" "max used prog \<le> ds" "ds < 65536"
  shows "\<exists>buf'. eep_finish crc (ec_declare blocks) used prog entry buf = Some buf' \<and> length buf' = 4 + ds
    \<and> drop 4 buf' = drop 4 buf \<and> content crc ds buf' = Some (take (max used prog) (drop 4 buf))"
proof -
  let ?u = "max used prog"
  let ?c = "crc (take ?u (drop 4 buf))"
  let ?b = "buf[2 := byte_of (?u div 256), 3 := byte_of ?u]"
  let ?r = "?b[0 := byte_of (unat ?c div 256), 1 := byte_of (unat ?c)]"
  have u: "?u < 65536" using assms(3,4) by linarith
  have c: "unat ?c < 65536" by (rule unat_bounds(2))
  note h = header_bytes [OF u c assms(2)]
  have s: "span_of ?b 4 ?u = Some (take ?u (drop 4 buf))" using assms(2,3) by (simp add: span_of_def)
  have p: "put_be16 buf 2 ?u = Some ?b" "put_be16 ?b 0 (unat ?c) = Some ?r"
    using assms(2) by (simp_all add: put_be16_Some)
  have "eep_finish crc (ec_declare blocks) used prog entry buf = Some ?r"
    using assms(1) p s by (simp add: eep_finish_def ec_declare_def calculateCrc_def Let_def)
  moreover have "content crc ds ?r = Some (take ?u (drop 4 buf))"
    unfolding content_def Let_def h(1,2,3) using assms(3) by (simp add: min.absorb1)
  ultimately show ?thesis using h(3) assms(2) by (intro exI [of _ ?r]) simp
qed

context eeprom_driver
begin

lemma prepare:
  assumes d: "valid d" and e: "bc_errorDetection entry" "ds = bc_dataSize entry" "offset < ds" "length buf = 4 + ds"
  shows "\<exists>p. eep_prepare ops crc (ec_declare blocks) offset entry buf d = Some p \<and> (case p of
      Inl (buf', d') \<Rightarrow> valid d' \<and> mem d' = mem d \<and> length buf' = 4 + ds
    | Inr (used, buf', d') \<Rightarrow> valid d' \<and> mem d' = mem d \<and> length buf' = 4 + ds
        \<and> (let r = region (bc_address entry) (4 + ds) (mem d); x = drop 4 r in length r = 4 + ds
           \<and> (case content crc ds r of
                None \<Rightarrow> used = 0 \<and> drop 4 buf' = replicate offset 0 @ drop offset x
              | Some c \<Rightarrow> used = length c \<and> c = take used x \<and> used \<le> ds \<and> drop 4 buf' = x)))"
proof -
  obtain ok buf1 d1 where r: "ee_read ops (bc_address entry) buf d = (ok, buf1, d1)" by (metis prod.exhaust)
  note l = read_law [OF d r]
  show ?thesis
  proof (cases ok)
    case False
    then show ?thesis using l e r by (simp add: eep_prepare_def)
  next
    case True
    let ?r = "region (bc_address entry) (4 + ds) (mem d)"
    have b: "buf1 = ?r" "length ?r = 4 + ds" using l True e(4) by (auto simp: region_def)
    let ?u = "min (be16 ?r 2) ds"
    have s: "span_of ?r 4 ?u = Some (take ?u (drop 4 ?r))" using b(2) by (simp add: span_of_def)
    show ?thesis
    proof (cases "isCrcValid crc (take ?u (drop 4 ?r)) (be16 ?r 0)")
      case v: True
      then have c: "content crc ds ?r = Some (take ?u (drop 4 ?r))" by (simp add: content_def isCrcValid_def)
      have "eep_prepare ops crc (ec_declare blocks) offset entry buf d = Some (Inr (?u, ?r, d1))"
        using e r True b(1) s v by (simp add: eep_prepare_def ec_declare_def Let_def)
      moreover have "length (take ?u (drop 4 ?r)) = ?u" using b(2) by simp
      ultimately show ?thesis using l b c unfolding Let_def
        by (intro exI [of _ "Inr (?u, ?r, d1)"]) (simp only: sum.case prod.case option.case take_take min.idem, simp)
    next
      case v: False
      then have c: "content crc ds ?r = None" by (simp add: content_def isCrcValid_def)
      let ?z = "take 4 ?r @ replicate offset 0 @ drop (4 + offset) ?r"
      have "mem_set ?r 4 offset 0 = Some ?z" using b(2) e(3) by simp
      then have "eep_prepare ops crc (ec_declare blocks) offset entry buf d = Some (Inr (0, ?z, d1))"
        using e r True b(1) s v by (simp add: eep_prepare_def ec_declare_def Let_def)
      moreover have "drop 4 ?z = replicate offset 0 @ drop offset (drop 4 ?r)" "length ?z = 4 + ds"
        using b(2) e(3) by (simp_all add: add.commute)
      ultimately show ?thesis using l b c by (simp add: Let_def)
    qed
  qed
qed

end

lemma block_after:
  assumes "a + (4 + ds) \<le> length m" "length b = 4 + ds" "p \<le> ds"
    and "drop (4 + p) b = drop (4 + p) (region a (4 + ds) m)"
  shows "region a (4 + ds) (take a m @ take (4 + p) b @ drop (a + (4 + p)) m) = b"
proof -
  have t: "drop (4 + p) (region a (4 + ds) m) = take (ds - p) (drop (a + (4 + p)) m)"
    using assms(3) by (simp add: region_def drop_take add.commute add.left_commute)
  have l: "length (take (4 + p) b) = 4 + p" using assms(2,3) by simp
  have "region a (4 + ds) (take a m @ take (4 + p) b @ drop (a + (4 + p)) m)
      = take (4 + ds) (take (4 + p) b @ drop (a + (4 + p)) m)"
    using assms(1) by (simp add: region_def)
  also have "\<dots> = take (4 + p) b @ take (ds - p) (drop (a + (4 + p)) m)"
    using l assms(3) by (simp add: take_append)
  also have "\<dots> = take (4 + p) b @ drop (4 + p) b" unfolding assms(4) t ..
  finally show ?thesis by simp
qed

lemma written_take:
  assumes x: "length x = ds" and p: "p = offset + length data" "p \<le> ds"
    and old: "case old of None \<Rightarrow> used = 0 \<and> x' = replicate offset 0 @ drop offset x
      | Some c \<Rightarrow> used = length c \<and> c = take used x \<and> used \<le> ds \<and> x' = x"
  shows "take (max used p) (take offset x' @ data @ drop p x') = written old x offset data"
    and "drop p (take offset x' @ data @ drop p x') = drop p x"
proof -
  have x'_cases: "old = None \<and> used = 0 \<and> x' = replicate offset 0 @ drop offset x \<or> old \<noteq> None \<and> x' = x"
  proof (cases old)
    case None
    then show ?thesis using old unfolding None option.case by blast
  next
    case (Some c)
    then show ?thesis using old unfolding Some option.case by blast
  qed
  have lx: "length x' = ds" using x'_cases p x by auto
  show "take (max used p) (take offset x' @ data @ drop p x') = written old x offset data"
  proof (cases old)
    case None
    then show ?thesis using x'_cases p by (auto simp: written_def)
  next
    case (Some c)
    then have c: "used = length c" "c = take used x" "used \<le> ds" "x' = x" using old unfolding Some option.case by blast+
    show ?thesis
    proof (cases "offset \<le> used")
      case True
      have "take (max used p) (take offset x @ data @ drop p x) = take offset x @ data @ take (used - p) (drop p x)"
      proof -
        have "length (take offset x @ data) = p" using p x by simp
        moreover have "take (max used p) (A @ B) = A @ take (max used p - p) B" if "length A = p" for A B :: "u8 list"
          using that by simp
        ultimately have "take (max used p) ((take offset x @ data) @ drop p x)
            = (take offset x @ data) @ take (max used p - p) (drop p x)" by blast
        moreover have "max used p - p = used - p" by simp
        ultimately show ?thesis by simp
      qed
      moreover have "drop p c = take (used - p) (drop p x)" using c(2) by (metis drop_take)
      moreover have "take offset c = take offset x" unfolding c(2) using True by (simp add: min.absorb1)
      ultimately show ?thesis using True c(1,4) p Some by (simp add: written_def)
    next
      case False
      have "take offset x = c @ take (offset - used) (drop used x)"
        using False c(2) by (metis le_add_diff_inverse nat_le_linear take_add)
      then show ?thesis using False c(1,4) p Some x by (simp add: written_def max_def)
    qed
  qed
  show "drop p (take offset x' @ data @ drop p x') = drop p x"
  proof -
    have "drop p (take offset x' @ data @ drop p x') = drop p x'" using p lx by simp
    moreover have "drop p x' = drop p x" using x'_cases p x by (auto simp: add.commute)
    ultimately show ?thesis by simp
  qed
qed

context eeprom_driver
begin

lemma write_block:
  assumes d: "valid d" and e: "bc_errorDetection entry" and ds: "ds = bc_dataSize entry" "ds < 65536"
    and b: "length buf = 4 + ds" and a: "a = bc_address entry"
  shows "\<exists>res buf' d'. eep_write ops crc (ec_declare blocks) bufs offset entry 4 buf d = Some (res, buf', d')
    \<and> res \<in> {ResultError, ResultSuccess} \<and> valid d' \<and> length buf' = 4 + ds \<and> length (mem d') = length (mem d)
    \<and> take a (mem d') = take a (mem d) \<and> drop (a + (4 + ds)) (mem d') = drop (a + (4 + ds)) (mem d)
    \<and> (res = ResultSuccess \<longrightarrow> offset + length (concat bufs) \<le> ds \<and> a + (4 + ds) \<le> length (mem d)
        \<and> content crc ds (region a (4 + ds) (mem d')) = Some (written (content crc ds (region a (4 + ds) (mem d)))
            (drop 4 (region a (4 + ds) (mem d))) offset (concat bufs)))"
proof (cases "offset \<ge> ds")
  case True
  then show ?thesis using d b ds by (simp add: eep_write_def)
next
  case False
  let ?r = "region a (4 + ds) (mem d)"
  have off: "offset < ds" using False by simp
  from prepare [OF d e ds(1) off b, of crc blocks] obtain q where
    q: "eep_prepare ops crc (ec_declare blocks) offset entry buf d = Some q" "case q of
      Inl (buf', d') \<Rightarrow> valid d' \<and> mem d' = mem d \<and> length buf' = 4 + ds
    | Inr (used, buf', d') \<Rightarrow> valid d' \<and> mem d' = mem d \<and> length buf' = 4 + ds
        \<and> (let r = region (bc_address entry) (4 + ds) (mem d); x = drop 4 r in length r = 4 + ds
           \<and> (case content crc ds r of
                None \<Rightarrow> used = 0 \<and> drop 4 buf' = replicate offset 0 @ drop offset x
              | Some c \<Rightarrow> used = length c \<and> c = take used x \<and> used \<le> ds \<and> drop 4 buf' = x))" by blast
  show ?thesis
  proof (cases q)
    case (Inl bd)
    then show ?thesis using q off ds by (cases bd) (simp add: eep_write_def)
  next
    case (Inr ubd)
    obtain used b1 d1 where u: "ubd = (used, b1, d1)" by (metis prod.exhaust)
    let ?x = "drop 4 ?r"
    have p: "valid d1" "mem d1 = mem d" "length b1 = 4 + ds" "length ?r = 4 + ds"
      and old: "case content crc ds ?r of None \<Rightarrow> used = 0 \<and> drop 4 b1 = replicate offset 0 @ drop offset ?x
              | Some c \<Rightarrow> used = length c \<and> c = take used ?x \<and> used \<le> ds \<and> drop 4 b1 = ?x"
      using q(2) [folded a] Inr u by (simp_all add: Let_def)
    have used: "used \<le> ds"
    proof (cases "content crc ds ?r")
      case None
      then show ?thesis using old unfolding None option.case by blast
    next
      case (Some c)
      then show ?thesis using old unfolding Some option.case by blast
    qed
    from copy_in [OF p(3), of offset bufs 0] off obtain ci where
      ci: "eep_copy_in ds 4 bufs offset 0 b1 = Some ci" "case ci of
        Inl buf' \<Rightarrow> length buf' = 4 + ds
      | Inr (p', u', buf') \<Rightarrow> p' = offset + length (concat bufs) \<and> u' = 0 + length (concat bufs) \<and> p' \<le> ds
          \<and> buf' = take (4 + offset) b1 @ concat bufs @ drop (4 + p') b1" by (meson less_imp_le)
    show ?thesis
    proof (cases ci)
      case (Inl b2)
      then show ?thesis using q(1) Inr u p ci off ds by (simp add: eep_write_def)
    next
      case ciR: (Inr pub)
      obtain pg us b2 where pub: "pub = (pg, us, b2)" by (metis prod.exhaust)
      have c: "pg = offset + length (concat bufs)" "us = length (concat bufs)" "pg \<le> ds"
        "b2 = take (4 + offset) b1 @ concat bufs @ drop (4 + pg) b1" using ci(2) ciR pub by auto
      have l2: "length b2 = 4 + ds" using c p(3) off by simp
      show ?thesis
      proof (cases "us = 0")
        case True
        then show ?thesis using q(1) Inr u p ci ciR pub off ds l2 by (simp add: eep_write_def)
      next
        case False
        have "max used pg \<le> ds" using used c(3) by simp
        from finish_content [OF e l2 this ds(2), of crc blocks] obtain b3 where
          b3: "eep_finish crc (ec_declare blocks) used pg entry b2 = Some b3" "length b3 = 4 + ds"
            "drop 4 b3 = drop 4 b2" "content crc ds b3 = Some (take (max used pg) (drop 4 b2))" by blast
        have sp: "span_of b3 0 (4 + pg) = Some (take (4 + pg) b3)" using b3(2) c(3) by (simp add: span_of_def)
        obtain ok d2 where w: "ee_write ops (bc_address entry) (take (4 + pg) b3) d1 = (ok, d2)" by fastforce
        note wl = write_law [OF p(1) w]
        have lt: "length (take (4 + pg) b3) = 4 + pg" using b3(2) c(3) by simp
        have ew: "eep_write ops crc (ec_declare blocks) bufs offset entry 4 buf d
            = Some (if ok then ResultSuccess else ResultError, b3, d2)"
          using q(1) Inr u ci(1) ciR pub off ds False b3(1) sp w by (simp add: eep_write_def)
        have dr: "drop (a + (4 + ds)) (mem d2) = drop (a + (4 + ds)) (mem d)"
        proof -
          have "drop (ds - pg) (drop (a + (4 + pg)) (mem d2)) = drop (ds - pg) (drop (a + (4 + pg)) (mem d))"
            using wl lt p(2) a by simp
          moreover have "ds - pg + (a + (4 + pg)) = a + (4 + ds)" using c(3) by simp
          ultimately show ?thesis by (simp only: drop_drop)
        qed
        have y: "drop 4 b2 = take offset (drop 4 b1) @ concat bufs @ drop pg (drop 4 b1)"
          using c(4) p(3) off by (simp add: drop_take add.commute)
        have "content crc ds (region a (4 + ds) (mem d2))
            = Some (written (content crc ds ?r) ?x offset (concat bufs)) \<and> a + (4 + ds) \<le> length (mem d)" if ok
        proof -
          have am: "a + (4 + ds) \<le> length (mem d)"
            using p(4) by (auto simp: region_def)
          have lx: "length ?x = ds" using p(4) by simp
          note wt = written_take [OF lx c(1,3) old]
          have "drop (4 + pg) b3 = drop pg (drop 4 b3)" by (simp add: add.commute)
          also have "\<dots> = drop pg ?x" unfolding b3(3) y by (rule wt(2))
          also have "\<dots> = drop (4 + pg) ?r" by (simp add: add.commute)
          finally have "region a (4 + ds) (take a (mem d) @ take (4 + pg) b3 @ drop (a + (4 + pg)) (mem d)) = b3"
            by (rule block_after [OF am b3(2) c(3)])
          moreover have "mem d2 = take a (mem d) @ take (4 + pg) b3 @ drop (a + (4 + pg)) (mem d)"
            using wl that lt p(2) a by simp
          ultimately show ?thesis using b3(4) am unfolding y wt(1) by simp
        qed
        then show ?thesis using ew wl p(2) a b3(2) dr c(1,3) by auto
      qed
    qed
  qed
qed

end

context eeprom_driver
begin

lemma write_plain:
  assumes d: "valid d" and e: "\<not> bc_errorDetection entry" and ds: "ds = bc_dataSize entry"
    and b: "length buf = ds" and a: "a = bc_address entry"
  shows "\<exists>res buf' d'. eep_write ops crc ec bufs offset entry 0 buf d = Some (res, buf', d')
    \<and> res \<in> {ResultError, ResultSuccess} \<and> valid d' \<and> length buf' = ds \<and> length (mem d') = length (mem d)
    \<and> take a (mem d') = take a (mem d) \<and> drop (a + ds) (mem d') = drop (a + ds) (mem d)
    \<and> (res = ResultSuccess \<longrightarrow> mem d' = take a (mem d) @ take offset buf @ concat bufs
         @ drop (a + (offset + length (concat bufs))) (mem d))"
proof (cases "offset \<ge> ds")
  case True
  then show ?thesis using d b ds by (simp add: eep_write_def)
next
  case False
  then have off: "offset < ds" by simp
  have b0: "length buf = 0 + ds" and le: "offset \<le> ds" using b off by simp_all
  from copy_in [OF b0 le, of bufs 0] obtain ci where
      ci: "eep_copy_in ds 0 bufs offset 0 buf = Some ci" "case ci of
        Inl buf' \<Rightarrow> length buf' = 0 + ds
      | Inr (p', u', buf') \<Rightarrow> p' = offset + length (concat bufs) \<and> u' = 0 + length (concat bufs) \<and> p' \<le> ds
          \<and> buf' = take (0 + offset) buf @ concat bufs @ drop (0 + p') buf" by blast
  have prep: "eep_prepare ops crc ec offset entry buf d = Some (Inr (0, buf, d))" using e by (simp add: eep_prepare_def)
  show ?thesis
  proof (cases ci)
    case (Inl b2)
    then show ?thesis using prep d ci off ds by (simp add: eep_write_def)
  next
    case ciR: (Inr pub)
    obtain pg us b2 where pub: "pub = (pg, us, b2)" by (metis prod.exhaust)
    have c: "pg = offset + length (concat bufs)" "us = length (concat bufs)" "pg \<le> ds"
      "b2 = take offset buf @ concat bufs @ drop pg buf" using ci(2) ciR pub by auto
    have l2: "length b2 = ds" using c b off by simp
    show ?thesis
    proof (cases "us = 0")
      case True
      then show ?thesis using prep d ci ciR pub off ds l2 by (simp add: eep_write_def)
    next
      case False
      have f: "eep_finish crc ec 0 pg entry b2 = Some b2" using e by (simp add: eep_finish_def)
      have t: "take pg b2 = take offset buf @ concat bufs" using c(1,3,4) b by simp
      have sp: "span_of b2 0 pg = Some (take offset buf @ concat bufs)" using l2 c(3) t by (simp add: span_of_def)
      obtain ok d2 where w: "ee_write ops (bc_address entry) (take offset buf @ concat bufs) d = (ok, d2)" by fastforce
      note wl = write_law [OF d w]
      have lt: "length (take offset buf @ concat bufs) = pg" using c(1) b off by simp
      have ew: "eep_write ops crc ec bufs offset entry 0 buf d
          = Some (if ok then ResultSuccess else ResultError, b2, d2)"
        using prep ci(1) ciR pub off ds False f sp w by (simp add: eep_write_def)
      have dr: "drop (a + ds) (mem d2) = drop (a + ds) (mem d)"
      proof -
        have "drop (ds - pg) (drop (a + pg) (mem d2)) = drop (ds - pg) (drop (a + pg) (mem d))"
          using wl lt a by simp
        moreover have "ds - pg + (a + pg) = a + ds" using c(3) by simp
        ultimately show ?thesis by (simp only: drop_drop)
      qed
      then show ?thesis using ew wl a l2 lt c(1) by auto
    qed
  qed
qed

lemma read_block:
  assumes d: "valid d" and ds: "ds = bc_dataSize entry" and hs: "hs = (if bc_errorDetection entry then 4 else 0)"
    and b: "length buf = hs + ds" and a: "a = bc_address entry"
  shows "\<exists>res out n buf' d'. eep_read ops crc (ec_declare blocks) bufs offset rs entry hs buf d = Some (res, (out, n), buf', d')
    \<and> res \<in> {ResultError, ResultDataLoss, ResultSuccess} \<and> valid d' \<and> length buf' = hs + ds \<and> mem d' = mem d
    \<and> (bc_errorDetection entry \<and> res \<noteq> ResultError \<longrightarrow> (case content crc ds (region a (4 + ds) (mem d)) of
          None \<Rightarrow> res = ResultDataLoss
        | Some c \<Rightarrow> res = ResultSuccess \<and> map length out = map length bufs
            \<and> n = min (length (concat bufs)) (length c - offset)
            \<and> concat out = take n (drop offset c) @ drop n (concat bufs)))"
proof -
  have z: "mem_set buf 0 (length buf) 0 = Some (replicate (length buf) 0)" by simp
  obtain ok b1 d1 where r: "ee_read ops (bc_address entry) (replicate (length buf) 0) d = (ok, b1, d1)" by (metis prod.exhaust)
  note l = read_law [OF d r]
  show ?thesis
  proof (cases ok)
    case False
    then show ?thesis using z r l b unfolding eep_read_def
      by (simp del: mem_set_Some)
  next
    case True
    have b1: "length b1 = hs + ds" "b1 = region a (hs + ds) (mem d)" using l True b a by (auto simp: region_def)
    show ?thesis
    proof (cases "bc_errorDetection entry")
      case plain: False
      then have h0: "hs = 0" using hs by simp
      from copy_out [of hs ds b1 bufs offset 0] b1(1) obtain out n where
        "eep_copy_out ds hs bufs offset 0 b1 = Some (out, 0 + n)" by auto
      then have "eep_read ops crc (ec_declare blocks) bufs offset rs entry hs buf d = Some (ResultSuccess, (out, n), b1, d1)"
        using z r True plain ds unfolding eep_read_def by (simp del: mem_set_Some)
      then show ?thesis using l b1(1) plain by simp
    next
      case ed: True
      then have h4: "hs = 4" using hs by simp
      let ?r = "region a (4 + ds) (mem d)"
      have br: "b1 = ?r" "length ?r = 4 + ds" using b1 h4 by simp_all
      let ?u = "min (be16 ?r 2) ds"
      let ?c = "take ?u (drop 4 ?r)"
      have s: "span_of ?r 4 ?u = Some ?c" using br(2) by (simp add: span_of_def)
      show ?thesis
      proof (cases "isCrcValid crc ?c (be16 ?r 0)")
        case v: False
        then have "content crc ds ?r = None" by (simp add: content_def isCrcValid_def)
        moreover have "eep_read ops crc (ec_declare blocks) bufs offset rs entry hs buf d = Some (ResultDataLoss, (bufs, rs), ?r, d1)"
          using z r True ed ds br s v h4 unfolding eep_read_def ec_declare_def by (simp del: mem_set_Some)
        ultimately show ?thesis using l br h4 by simp
      next
        case v: True
        then have c: "content crc ds ?r = Some ?c" by (simp add: content_def isCrcValid_def)
        have lc: "length ?c = ?u" using br(2) by simp
        from copy_out [of 4 ?u ?r bufs offset 0] br(2) obtain out n where o: "eep_copy_out ?u 4 bufs offset 0 ?r = Some (out, 0 + n)"
          "map length out = map length bufs" "n = min (length (concat bufs)) (?u - offset)"
          "concat out = take n (drop offset ?c) @ drop n (concat bufs)" by auto
        have "eep_read ops crc (ec_declare blocks) bufs offset rs entry hs buf d = Some (ResultSuccess, (out, n), ?r, d1)"
          using z r True ed ds br s v h4 o(1) unfolding eep_read_def ec_declare_def by (simp del: mem_set_Some)
        note er = this
        define cc where "cc = ?c"
        have "n = min (length (concat bufs)) (length cc - offset)" unfolding cc_def lc by (rule o(3))
        moreover have "content crc ds ?r = Some cc" unfolding cc_def by (rule c)
        moreover have "concat out = take n (drop offset cc) @ drop n (concat bufs)" unfolding cc_def by (rule o(4))
        ultimately show ?thesis using er l br h4 o(2) by simp
      qed
    qed
  qed
qed

end

section \<open>Jobs one after the other\<close>

definition block_total :: "block_config \<Rightarrow> nat" where
  "block_total b = (if bc_errorDetection b then 4 else 0) + bc_dataSize b"

definition block_header :: "block_config \<Rightarrow> nat" where
  "block_header b = (if bc_errorDetection b then 4 else 0)"

lemma block_total_header: "block_header b + bc_dataSize b = block_total b"
  by (simp add: block_header_def block_total_def)

lemma eep_process_block:
  assumes "sj_id j < length blocks"
  shows "eep_process D crc (ec_declare blocks) j (buf, d) = (let b = blocks ! sj_id j; t = block_total b in
    if t > length buf then Some (sj_sendResult ResultError j, buf, d)
    else case sj_job j of
      JobNone \<Rightarrow> Some (sj_sendResult ResultError j, buf, d)
    | JobWrite bufs offset \<Rightarrow> do {
        (result, buf', d) \<leftarrow> eep_write D crc (ec_declare blocks) bufs offset b (block_header b) (take t buf) d;
        Some (sj_sendResult result j, buf' @ drop t buf, d) }
    | JobRead bufs offset rs \<Rightarrow> do {
        (result, (bufs, rs), buf', d) \<leftarrow> eep_read D crc (ec_declare blocks) bufs offset rs b (block_header b) (take t buf) d;
        Some (sj_sendResult result (j\<lparr>sj_job := JobRead bufs offset rs\<rparr>), buf' @ drop t buf, d) })"
  unfolding eep_process_def Let_def prod.case ec_declare_def eep_config.simps numeral_plus_numeral semiring_norm
    block_header_def [symmetric] block_total_header
  using assms by (simp only: not_le [symmetric] if_False)

text \<open>The blocks of a configuration do not overlap, and their sizes fit into 16 bits.\<close>

definition blocks_ok :: "block_config list \<Rightarrow> bool" where
  "blocks_ok blocks \<longleftrightarrow> (\<forall>b \<in> set blocks. bc_dataSize b < 65536)
     \<and> (\<forall>i < length blocks. \<forall>j < length blocks. i \<noteq> j \<longrightarrow>
          bc_address (blocks ! i) + block_total (blocks ! i) \<le> bc_address (blocks ! j)
          \<or> bc_address (blocks ! j) + block_total (blocks ! j) \<le> bc_address (blocks ! i))"

fun is_write :: "job_type \<Rightarrow> bool" where
  "is_write (JobWrite buffers offset) \<longleftrightarrow> True"
| "is_write _ \<longleftrightarrow> False"

definition block_region :: "block_config \<Rightarrow> u8 list \<Rightarrow> u8 list" where
  "block_region b m = region (bc_address b) (block_total b) m"

lemma region_frame:
  assumes t: "take a m' = take a m" and d: "drop (a + k) m' = drop (a + k) m" and o: "b + n \<le> a \<or> a + k \<le> b"
  shows "region b n m' = region b n m"
  using o
proof
  assume "b + n \<le> a"
  then have "take (b + n) m' = take (b + n) m" using t by (metis min.absorb1 take_take)
  then show ?thesis unfolding region_def by (metis add.commute drop_take take_drop)
next
  assume "a + k \<le> b"
  then have "drop b m' = drop b m" using d by (metis drop_drop le_add_diff_inverse2)
  then show ?thesis by (simp add: region_def)
qed

context eeprom_driver
begin

lemma process_job:
  assumes ok: "blocks_ok blocks" and d: "valid d"
  shows "\<exists>j' buf' d'. eep_process ops crc (ec_declare blocks) j (buf, d) = Some (j', buf', d')
    \<and> sj_id j' = sj_id j \<and> sj_result j' \<in> {ResultError, ResultDataLoss, ResultSuccess}
    \<and> valid d' \<and> length buf' = length buf \<and> length (mem d') = length (mem d)
    \<and> (\<forall>k < length blocks. k \<noteq> sj_id j \<or> \<not> is_write (sj_job j) \<longrightarrow>
         block_region (blocks ! k) (mem d') = block_region (blocks ! k) (mem d))"
proof (cases "sj_id j \<ge> length blocks")
  case True
  then show ?thesis using d by (simp add: eep_process_def ec_declare_def sj_sendResult_def)
next
  case False
  define b where "b = blocks ! sj_id j"
  have bin: "b \<in> set blocks" using False by (simp add: b_def)
  have idl: "sj_id j < length blocks" using False by simp
  note ep = eep_process_block [OF idl, folded b_def]
  show ?thesis
  proof (cases "block_total b > length buf")
    case True
    then show ?thesis using d by (simp add: ep sj_sendResult_def)
  next
    case fits: False
    then have lb: "length (take (block_total b) buf) = block_header b + bc_dataSize b" by (simp add: block_total_header)
    have other: "region (bc_address (blocks ! k)) (block_total (blocks ! k)) m' = region (bc_address (blocks ! k)) (block_total (blocks ! k)) m"
      if k: "k < length blocks" "k \<noteq> sj_id j" and t: "take (bc_address b) m' = take (bc_address b) m"
        "drop (bc_address b + block_total b) m' = drop (bc_address b + block_total b) m" for k m m'
    proof (rule region_frame [OF t])
      show "bc_address (blocks ! k) + block_total (blocks ! k) \<le> bc_address b \<or> bc_address b + block_total b \<le> bc_address (blocks ! k)"
        using ok k False unfolding blocks_ok_def b_def by (metis not_le)
    qed
    show ?thesis
    proof (cases "sj_job j")
      case JobNone
      then show ?thesis using d fits by (simp add: ep sj_sendResult_def)
    next
      case (JobRead bufs offset rs)
      from read_block [OF d refl block_header_def lb refl, of crc blocks bufs offset rs] obtain res out n buf' d' where
        r: "eep_read ops crc (ec_declare blocks) bufs offset rs b (block_header b) (take (block_total b) buf) d = Some (res, (out, n), buf', d')"
        "res \<in> {ResultError, ResultDataLoss, ResultSuccess}" "valid d'" "length buf' = block_header b + bc_dataSize b" "mem d' = mem d" by blast
      have "eep_process ops crc (ec_declare blocks) j (buf, d)
          = Some (sj_sendResult res (j\<lparr>sj_job := JobRead out offset n\<rparr>), buf' @ drop (block_total b) buf, d')"
        using fits r(1) JobRead by (simp add: ep)
      then show ?thesis using r fits block_total_header [of b] by (auto simp: sj_sendResult_def)
    next
      case (JobWrite bufs offset)
      have "\<exists>res buf' d'. eep_write ops crc (ec_declare blocks) bufs offset b (block_header b) (take (block_total b) buf) d = Some (res, buf', d')
        \<and> res \<in> {ResultError, ResultSuccess} \<and> valid d' \<and> length buf' = block_total b \<and> length (mem d') = length (mem d)
        \<and> take (bc_address b) (mem d') = take (bc_address b) (mem d)
        \<and> drop (bc_address b + block_total b) (mem d') = drop (bc_address b + block_total b) (mem d)"
      proof (cases "bc_errorDetection b")
        case True
        have "bc_dataSize b < 65536" using ok bin by (simp add: blocks_ok_def)
        have h: "block_header b = 4" "block_total b = 4 + bc_dataSize b" using True by (simp_all add: block_total_def block_header_def)
        from lb have "length (take (block_total b) buf) = 4 + bc_dataSize b" unfolding h .
        from write_block [OF d True refl \<open>bc_dataSize b < 65536\<close> this refl, of crc blocks bufs offset]
        show ?thesis unfolding h by blast
      next
        case False
        have h: "block_header b = 0" "block_total b = bc_dataSize b" using False by (simp_all add: block_total_def block_header_def)
        from lb have "length (take (block_total b) buf) = bc_dataSize b" unfolding h by simp
        from write_plain [OF d False refl this refl, of crc "ec_declare blocks" bufs offset]
        show ?thesis unfolding h by blast
      qed
      then obtain res buf' d' where
        w: "eep_write ops crc (ec_declare blocks) bufs offset b (block_header b) (take (block_total b) buf) d = Some (res, buf', d')"
          "res \<in> {ResultError, ResultSuccess}" "valid d'" "length buf' = block_total b" "length (mem d') = length (mem d)"
          "take (bc_address b) (mem d') = take (bc_address b) (mem d)"
          "drop (bc_address b + block_total b) (mem d') = drop (bc_address b + block_total b) (mem d)" by blast
      have "eep_process ops crc (ec_declare blocks) j (buf, d)
          = Some (sj_sendResult res j, buf' @ drop (block_total b) buf, d')"
        using fits w(1) JobWrite by (simp add: ep)
      moreover have "block_region (blocks ! k) (mem d') = block_region (blocks ! k) (mem d)"
        if "k < length blocks" "k \<noteq> sj_id j \<or> \<not> is_write (sj_job j)" for k
        unfolding block_region_def using that JobWrite by (intro other w(6,7)) auto
      moreover have "length (buf' @ drop (block_total b) buf) = length buf" using w(4) fits by simp
      ultimately show ?thesis using w(2,3,5) by (auto simp: sj_sendResult_def)
    qed
  qed
qed

end

fun eep_run :: "'d eeprom_ops \<Rightarrow> (u8 list \<Rightarrow> u16) \<Rightarrow> eep_config \<Rightarrow> storage_job list \<Rightarrow> u8 list \<times> 'd \<Rightarrow> (storage_job list \<times> u8 list \<times> 'd) option" where
  "eep_run D crc ec [] s = Some ([], s)"
| "eep_run D crc ec (j # js) s = do {
     (j, s) \<leftarrow> eep_process D crc ec j s;
     (js, s) \<leftarrow> eep_run D crc ec js s;
     Some (j # js, s) }"

context eeprom_driver
begin

lemma run_jobs:
  assumes ok: "blocks_ok blocks" and d: "valid d" and k: "k < length blocks"
    and js: "\<forall>j \<in> set js. sj_id j = k \<longrightarrow> \<not> is_write (sj_job j)"
  shows "\<exists>js' buf' d'. eep_run ops crc (ec_declare blocks) js (buf, d) = Some (js', buf', d')
    \<and> length js' = length js \<and> valid d' \<and> length buf' = length buf \<and> length (mem d') = length (mem d)
    \<and> block_region (blocks ! k) (mem d') = block_region (blocks ! k) (mem d)"
  using d js
proof (induction js arbitrary: buf d)
  case (Cons j js)
  from process_job [OF ok Cons.prems(1), of crc j buf] obtain j1 buf1 d1 where
    p: "eep_process ops crc (ec_declare blocks) j (buf, d) = Some (j1, buf1, d1)" "valid d1" "length buf1 = length buf"
      "length (mem d1) = length (mem d)"
      "\<forall>k < length blocks. k \<noteq> sj_id j \<or> \<not> is_write (sj_job j) \<longrightarrow>
         block_region (blocks ! k) (mem d1) = block_region (blocks ! k) (mem d)" by blast
  have "block_region (blocks ! k) (mem d1) = block_region (blocks ! k) (mem d)"
    using p(5) k Cons.prems(2) by auto
  then show ?case using p(1-4) Cons.IH [OF p(2), of buf1] Cons.prems(2) by auto
qed simp

text \<open>A job that writes a block with error detection successfully, and one that reads it.\<close>

lemma successful_write:
  assumes ok: "blocks_ok blocks" and d: "valid d" and k: "k < length blocks" "bc_errorDetection (blocks ! k)"
    and j: "sj_id j = k" "sj_job j = JobWrite bufs offset"
    and p: "eep_process ops crc (ec_declare blocks) j (buf, d) = Some (j', buf', d')" and s: "sj_result j' = ResultSuccess"
  shows "valid d' \<and> length buf' = length buf \<and> block_total (blocks ! k) \<le> length buf
    \<and> offset + length (concat bufs) \<le> bc_dataSize (blocks ! k)
    \<and> length (block_region (blocks ! k) (mem d)) = block_total (blocks ! k)
    \<and> content crc (bc_dataSize (blocks ! k)) (block_region (blocks ! k) (mem d'))
        = Some (written (content crc (bc_dataSize (blocks ! k)) (block_region (blocks ! k) (mem d)))
            (drop 4 (block_region (blocks ! k) (mem d))) offset (concat bufs))"
proof -
  define b where "b = blocks ! k"
  have ds: "bc_dataSize b < 65536" using ok k by (simp add: blocks_ok_def b_def)
  have ed: "bc_errorDetection b" using k by (simp add: b_def)
  have idl: "sj_id j < length blocks" using k(1) j(1) by simp
  note ep = eep_process_block [OF idl, unfolded j(1), folded b_def]
  have hd: "block_header b = 4" using ed by (simp add: block_header_def)
  have tot: "block_total b = 4 + bc_dataSize b" using ed by (simp add: block_total_def)
  have fits: "block_total b \<le> length buf"
  proof (rule ccontr)
    assume "\<not> block_total b \<le> length buf"
    then show False using p s by (auto simp: ep Let_def sj_sendResult_def)
  qed
  then have lb: "length (take (block_total b) buf) = 4 + bc_dataSize b" by (simp add: tot)
  from write_block [OF d ed refl ds lb refl, of crc blocks bufs offset] obtain res buf1 d1 where
    w: "eep_write ops crc (ec_declare blocks) bufs offset b 4 (take (block_total b) buf) d = Some (res, buf1, d1)"
      "valid d1" "length buf1 = 4 + bc_dataSize b" "res = ResultSuccess \<longrightarrow> offset + length (concat bufs) \<le> bc_dataSize b
        \<and> bc_address b + (4 + bc_dataSize b) \<le> length (mem d)
        \<and> content crc (bc_dataSize b) (region (bc_address b) (4 + bc_dataSize b) (mem d1))
          = Some (written (content crc (bc_dataSize b) (region (bc_address b) (4 + bc_dataSize b) (mem d)))
            (drop 4 (region (bc_address b) (4 + bc_dataSize b) (mem d))) offset (concat bufs))" by blast
  have "eep_process ops crc (ec_declare blocks) j (buf, d)
      = Some (sj_sendResult res j, buf1 @ drop (block_total b) buf, d1)"
    using j fits w(1) by (simp add: ep hd)
  then have e: "j' = sj_sendResult res j" "buf' = buf1 @ drop (block_total b) buf" "d' = d1" using p by simp_all
  then have "res = ResultSuccess" using s by (simp add: sj_sendResult_def)
  moreover have "length (region (bc_address b) (4 + bc_dataSize b) (mem d)) = 4 + bc_dataSize b"
    if "bc_address b + (4 + bc_dataSize b) \<le> length (mem d)" using that by (simp add: region_def)
  ultimately show ?thesis using w e fits unfolding b_def [symmetric] block_region_def tot by simp
qed

lemma read_job:
  assumes ok: "blocks_ok blocks" and d: "valid d" and k: "k < length blocks" "bc_errorDetection (blocks ! k)"
    and fits: "block_total (blocks ! k) \<le> length buf"
    and j: "sj_id j = k" "sj_job j = JobRead bufs offset rs"
    and p: "eep_process ops crc (ec_declare blocks) j (buf, d) = Some (j', buf', d')"
    and c: "content crc (bc_dataSize (blocks ! k)) (block_region (blocks ! k) (mem d)) = Some c"
  shows "sj_result j' = ResultError \<or> sj_result j' = ResultSuccess \<and> (\<exists>out n. sj_job j' = JobRead out offset n
    \<and> map length out = map length bufs \<and> n = min (length (concat bufs)) (length c - offset)
    \<and> concat out = take n (drop offset c) @ drop n (concat bufs))"
proof -
  define b where "b = blocks ! k"
  have ed: "bc_errorDetection b" using k by (simp add: b_def)
  have idl: "sj_id j < length blocks" using k(1) j(1) by simp
  note ep = eep_process_block [OF idl, unfolded j(1), folded b_def]
  have hd: "block_header b = 4" using ed by (simp add: block_header_def)
  have tot: "block_total b = 4 + bc_dataSize b" using ed by (simp add: block_total_def)
  have lb: "length (take (block_total b) buf) = 4 + bc_dataSize b" using fits by (simp add: tot flip: b_def)
  have hs: "(4 :: nat) = (if bc_errorDetection b then 4 else 0)" using ed by simp
  from read_block [OF d refl hs lb refl, of crc blocks bufs offset rs] obtain res out n buf1 d1 where
    r: "eep_read ops crc (ec_declare blocks) bufs offset rs b 4 (take (block_total b) buf) d = Some (res, (out, n), buf1, d1)"
      "bc_errorDetection b \<and> res \<noteq> ResultError \<longrightarrow> (case content crc (bc_dataSize b) (region (bc_address b) (4 + bc_dataSize b) (mem d)) of
          None \<Rightarrow> res = ResultDataLoss
        | Some c \<Rightarrow> res = ResultSuccess \<and> map length out = map length bufs
            \<and> n = min (length (concat bufs)) (length c - offset)
            \<and> concat out = take n (drop offset c) @ drop n (concat bufs))" by blast
  have "eep_process ops crc (ec_declare blocks) j (buf, d)
      = Some (sj_sendResult res (j\<lparr>sj_job := JobRead out offset n\<rparr>), buf1 @ drop (block_total b) buf, d1)"
    using j fits r(1) by (simp add: ep hd flip: b_def)
  then have e: "j' = sj_sendResult res (j\<lparr>sj_job := JobRead out offset n\<rparr>)" using p by simp
  have "content crc (bc_dataSize b) (region (bc_address b) (4 + bc_dataSize b) (mem d)) = Some c"
    using c unfolding b_def [symmetric] block_region_def tot by simp
  then show ?thesis using r(2) ed e by (auto simp: sj_sendResult_def)
qed

end

section \<open>The POSIX driver keeps the contract\<close>

interpretation ped: eeprom_driver "pe_ops os sz" "pe_valid sz" pe_file for os sz
  unfolding pe_ops_def by unfold_locales (simp only: eeprom_ops.simps, rule pe_read_law pe_write_law, assumption+)+

end
