(* ===== verification/StorageEepProps.thy ===== *)
theory StorageEepProps imports StorageEepCorrect begin

text \<open>
  The properties of the low-level storage on the driver of the POSIX platform, whatever the
  operating system answers.
\<close>

section \<open>What was written is read\<close>

text \<open>C17: A write job to a block with error detection that reports success stores its data: after
  any jobs that do not write this block again, a read job at the same offset is processed and
  reports either an error of the driver or success with exactly the written bytes, never a loss
  of data. The blocks must not overlap and their sizes must fit into 16 bits.\<close>

theorem written_data_is_read_back:
  assumes cfg: "blocks_ok blocks" "k < length blocks" "bc_errorDetection (blocks ! k)" and d: "pe_valid sz d"
    and w: "sj_id w = k" "sj_job w = JobWrite bufs offset"
    and pw: "eep_process (pe_ops os sz) crc (ec_declare blocks) w (buf, d) = Some (w', s1)" "sj_result w' = ResultSuccess"
    and js: "\<forall>j \<in> set js. sj_id j = k \<longrightarrow> \<not> is_write (sj_job j)"
    and r: "sj_id r = k" "sj_job r = JobRead outs offset 0" "length (concat outs) = length (concat bufs)"
  shows "\<exists>js' s2 r' s3. eep_run (pe_ops os sz) crc (ec_declare blocks) js s1 = Some (js', s2)
    \<and> eep_process (pe_ops os sz) crc (ec_declare blocks) r s2 = Some (r', s3)
    \<and> (sj_result r' = ResultError \<or> sj_result r' = ResultSuccess
        \<and> (\<exists>out. sj_job r' = JobRead out offset (length (concat bufs)) \<and> concat out = concat bufs))"
proof -
  obtain buf1 d1 where s1: "s1 = (buf1, d1)" by fastforce
  let ?R = "block_region (blocks ! k)" and ?ds = "bc_dataSize (blocks ! k)"
  define c where "c = written (content crc ?ds (?R (pe_file d))) (drop 4 (?R (pe_file d))) offset (concat bufs)"
  note sw = ped.successful_write [OF cfg(1) d cfg(2,3) w pw(1) [unfolded s1] pw(2), folded c_def]
  then have v1: "pe_valid sz d1" by blast
  from ped.run_jobs [OF cfg(1) v1 cfg(2) js, of os crc buf1] obtain js' buf2 d2 where
    run: "eep_run (pe_ops os sz) crc (ec_declare blocks) js (buf1, d1) = Some (js', buf2, d2)" "pe_valid sz d2"
      "length buf2 = length buf1" "?R (pe_file d2) = ?R (pe_file d1)" by blast
  from ped.process_job [OF cfg(1) run(2), of os crc r buf2] obtain r' buf3 d3 where
    pr: "eep_process (pe_ops os sz) crc (ec_declare blocks) r (buf2, d2) = Some (r', buf3, d3)" by blast
  have fits: "block_total (blocks ! k) \<le> length buf2" using sw run(3) by simp
  have c2: "content crc ?ds (?R (pe_file d2)) = Some c" using sw run(4) by simp
  have "take (length (concat bufs)) (drop offset c) = concat bufs"
    unfolding c_def
  proof (rule written_data)
    show "case content crc ?ds (?R (pe_file d)) of None \<Rightarrow> True
      | Some c \<Rightarrow> offset \<le> length c + length (drop (length c) (drop 4 (?R (pe_file d))))"
      using sw cfg(3) by (auto simp: block_total_def split: option.split)
  qed
  note rd = this
  then have ln: "length (concat bufs) \<le> length c - offset" by (metis length_drop length_take min.cobounded2 length_take min.absorb_iff2 min.commute)
  from ped.read_job [OF cfg(1) run(2) cfg(2,3) fits r(1,2) pr c2] ln rd r(3)
  have "sj_result r' = ResultError \<or> sj_result r' = ResultSuccess
        \<and> (\<exists>out. sj_job r' = JobRead out offset (length (concat bufs)) \<and> concat out = concat bufs)" by auto
  then show ?thesis using run(1) pr s1 by blast
qed

section \<open>A write with an offset and no error detection\<close>

text \<open>C34: A successful write job with an offset to a block without error detection also writes the
  bytes of the block that precede the offset: they become the bytes the internal buffer happens
  to hold, whatever the block held before.\<close>

theorem offset_write_destroys_the_prefix:
  assumes d: "pe_valid sz d" and k: "k < length blocks" "\<not> bc_errorDetection (blocks ! k)"
    and w: "sj_id w = k" "sj_job w = JobWrite bufs offset" and buf: "block_total (blocks ! k) \<le> length buf"
    and pw: "eep_process (pe_ops os sz) crc (ec_declare blocks) w (buf, d) = Some (w', buf', d')" "sj_result w' = ResultSuccess"
  shows "region (bc_address (blocks ! k)) offset (pe_file d') = take offset buf"
proof -
  define b where "b = blocks ! k"
  have ed: "\<not> bc_errorDetection b" using k by (simp add: b_def)
  have idl: "sj_id w < length blocks" using k(1) w(1) by simp
  note ep = eep_process_block [OF idl, unfolded w(1), folded b_def]
  have h: "block_header b = 0" "block_total b = bc_dataSize b" using ed by (simp_all add: block_header_def block_total_def)
  have fits: "bc_dataSize b \<le> length buf" using buf h(2) by (simp add: b_def)
  then have l: "length (take (bc_dataSize b) buf) = bc_dataSize b" by simp
  from ped.write_plain [OF d ed refl l refl, of os crc "ec_declare blocks" bufs offset] obtain res buf1 d1 where
    wp: "eep_write (pe_ops os sz) crc (ec_declare blocks) bufs offset b 0 (take (bc_dataSize b) buf) d = Some (res, buf1, d1)"
      "length (pe_file d1) = length (pe_file d)"
      "res = ResultSuccess \<longrightarrow> pe_file d1 = take (bc_address b) (pe_file d) @ take offset (take (bc_dataSize b) buf) @ concat bufs
         @ drop (bc_address b + (offset + length (concat bufs))) (pe_file d)" by blast
  have "eep_process (pe_ops os sz) crc (ec_declare blocks) w (buf, d)
      = Some (sj_sendResult res w, buf1 @ drop (bc_dataSize b) buf, d1)"
    using w(2) fits wp(1) by (simp add: ep h)
  then have "res = ResultSuccess" "d' = d1" using pw by (simp_all add: sj_sendResult_def)
  have off: "offset < bc_dataSize b"
  proof (rule ccontr)
    assume "\<not> offset < bc_dataSize b"
    then show False using wp(1) \<open>res = ResultSuccess\<close> by (simp add: eep_write_def)
  qed
  let ?a = "bc_address b"
  have f: "pe_file d' = take ?a (pe_file d) @ take offset buf @ concat bufs @ drop (?a + (offset + length (concat bufs))) (pe_file d)"
    using wp(3) \<open>res = ResultSuccess\<close> \<open>d' = d1\<close> off by simp
  have "offset = 0 \<or> ?a \<le> length (pe_file d)"
  proof (rule ccontr)
    assume "\<not> (offset = 0 \<or> ?a \<le> length (pe_file d))"
    then show False using arg_cong [OF f, of length] wp(2) \<open>d' = d1\<close> off fits by simp
  qed
  then show ?thesis unfolding b_def [symmetric] region_def f using off fits by auto
qed

text \<open>A checksum function and a file with two blocks for the witnesses.\<close>

definition wSum :: "u8 list \<Rightarrow> u16" where
  "wSum bs = of_nat (sum_list (map unat bs) + 1)"

definition wBlocks :: "block_config list" where
  "wBlocks = [\<lparr>bc_address = 0, bc_dataSize = 4, bc_errorDetection = True\<rparr>, \<lparr>bc_address = 8, bc_dataSize = 4, bc_errorDetection = False\<rparr>]"

definition wFile :: posix_eeprom where
  "wFile = \<lparr>pe_file = [255, 255, 255, 255, 255, 255, 255, 255, 7, 8, 9, 10], pe_open = True, pe_calls = 0\<rparr>"

definition wOs :: posix_os where
  "wOs = \<lparr>os_ok = (\<lambda>_. True), os_count = (\<lambda>_. 100)\<rparr>"

definition wJob :: "nat \<Rightarrow> job_type \<Rightarrow> storage_job" where
  "wJob i t = sj_init i (sj_new\<lparr>sj_job := t\<rparr>)"

lemmas storage_eval = eep_process_def pe_ops_def ec_declare_def wBlocks_def wJob_def sj_init_def sj_new_def eep_write_def
  eep_prepare_def eep_finish_def eep_read_def pe_read_def pe_write_def wOs_def wFile_def span_of_def sj_sendResult_def Let_def
  be16_def put_be16_Some calculateCrc_def isCrcValid_def wSum_def unat_byte_of

definition wWritten :: posix_eeprom where
  "wWritten = \<lparr>pe_file = [0, 4, 0, 3, 0, 1, 2, 255, 7, 8, 9, 10], pe_open = True, pe_calls = 5\<rparr>"

lemma wEepWrite: "eep_process (pe_ops wOs 12) wSum (ec_declare wBlocks) (wJob 0 (JobWrite [[1], [2]] 1)) ([0, 0, 0, 0, 0, 0, 0, 0], wFile)
  = Some (wJob 0 (JobWrite [[1], [2]] 1)\<lparr>sj_result := ResultSuccess\<rparr>, [0, 4, 0, 3, 0, 1, 2, 255], wWritten)"
  by (simp add: storage_eval wWritten_def; simp add: byte_of_def)

lemma wEepPlain: "eep_process (pe_ops wOs 12) wSum (ec_declare wBlocks) (wJob 1 (JobWrite [[1], [2]] 1)) ([0, 0, 0, 0, 0, 0, 0, 0], wFile)
  = Some (wJob 1 (JobWrite [[1], [2]] 1)\<lparr>sj_result := ResultSuccess\<rparr>, [0, 1, 2, 0, 0, 0, 0, 0],
      \<lparr>pe_file = [255, 255, 255, 255, 255, 255, 255, 255, 0, 1, 2, 10], pe_open = True, pe_calls = 3\<rparr>)"
  by (simp add: storage_eval)

lemma wPlain: "region 8 1 (pe_file (\<lparr>pe_file = [255, 255, 255, 255, 255, 255, 255, 255, 0, 1, 2, 10], pe_open = True, pe_calls = 3\<rparr>)) = [0]"
  by (simp add: region_def)

lemma wBlocks_ok: "blocks_ok wBlocks"
  by (auto simp: blocks_ok_def wBlocks_def block_total_def nth_Cons split: nat.splits)

lemma written_data_is_read_back_witness:
  "\<exists>js' s2 r' s3. eep_run (pe_ops wOs 12) wSum (ec_declare wBlocks) [wJob 1 (JobWrite [[5]] 0), wJob 0 (JobRead [[0]] 0 0)]
        ([0, 4, 0, 3, 0, 1, 2, 255], wWritten) = Some (js', s2)
    \<and> eep_process (pe_ops wOs 12) wSum (ec_declare wBlocks) (wJob 0 (JobRead [[0], [0]] 1 0)) s2 = Some (r', s3)
    \<and> (sj_result r' = ResultError \<or> sj_result r' = ResultSuccess
        \<and> (\<exists>out. sj_job r' = JobRead out 1 (length (concat [[1 :: u8], [2]])) \<and> concat out = concat [[1], [2]]))"
  by (rule written_data_is_read_back [where outs = "[[0], [0]]", OF wBlocks_ok, of 0 12 wFile "wJob 0 (JobWrite [[1], [2]] 1)", OF _ _ _ _ _ wEepWrite])
    (simp_all add: wJob_def sj_init_def sj_new_def wBlocks_def pe_valid_def wFile_def)

lemma offset_write_destroys_the_prefix_witness:
  "region (bc_address (wBlocks ! 1)) 1 [255, 255, 255, 255, 255, 255, 255, 255, 0, 1, 2, 10] = take 1 [0, 0, 0, 0, 0, 0, 0, 0 :: u8]
   \<and> region (bc_address (wBlocks ! 1)) 1 (pe_file wFile) = [7]"
  using offset_write_destroys_the_prefix [of 12 wFile 1 wBlocks "wJob 1 (JobWrite [[1], [2]] 1)", OF _ _ _ _ _ _ wEepPlain]
  by (simp add: wJob_def sj_init_def sj_new_def wBlocks_def pe_valid_def wFile_def block_total_def region_def)

end
