(* ===== verification/StorageMapping.thy ===== *)
theory StorageMapping imports StorageEep begin

text \<open>
  The storages of \<^verbatim>\<open>libs/bsw/storage\<close> that hand jobs on: \<^verbatim>\<open>MappingStorage\<close>, which maps the
  blocks of the application to blocks of lower storages and has a number of slots for jobs under
  way, and \<^verbatim>\<open>QueuingStorage\<close>, which processes the jobs of any task in one context. Jobs of the
  application are numbers (their addresses) into a store of jobs.
\<close>

section \<open>MappingStorage\<close>

record mapping_config =
  mc_blockId :: nat
  mc_outgoingBlockId :: nat
  mc_outgoingIdx :: nat

text \<open>\<^verbatim>\<open>etl::lower_bound\<close> over the configuration, from \<open>first\<close> over \<open>count\<close> entries.\<close>

function lower_bound :: "mapping_config list \<Rightarrow> nat \<Rightarrow> nat \<Rightarrow> nat \<Rightarrow> nat" where
  "lower_bound config blockId first count =
     (if count = 0 then first
      else let step = count div 2; itr = first + step
           in if mc_blockId (config ! itr) < blockId
              then lower_bound config blockId (itr + 1) (count - (step + 1))
              else lower_bound config blockId first step)"
  by pat_completeness auto
termination by (relation "measure (\<lambda>(config, blockId, first, count). count)") auto

declare lower_bound.simps [simp del]

definition getConfigEntry :: "mapping_config list \<Rightarrow> nat \<Rightarrow> mapping_config option" where
  "getConfigEntry config blockId =
     (let it = lower_bound config blockId 0 (length config)
      in if it \<noteq> length config \<and> mc_blockId (config ! it) = blockId then Some (config ! it) else None)"

text \<open>
  A slot holds the incoming job under way, its outgoing job has the slot's number.
\<close>

record mapping_storage =
  ms_config :: "mapping_config list"
  ms_inJobs :: "nat option list"
  ms_outJobs :: "storage_job list"
  ms_storages :: nat
  ms_waitingJobs :: "nat list"
  ms_failedJobs :: "nat list"

definition ms_declare :: "mapping_config list \<Rightarrow> nat \<Rightarrow> nat \<Rightarrow> mapping_storage" where
  "ms_declare config NUM_STORAGES NUM_JOB_SLOTS =
     \<lparr>ms_config = config, ms_inJobs = replicate NUM_JOB_SLOTS None, ms_outJobs = replicate NUM_JOB_SLOTS sj_new,
      ms_storages = NUM_STORAGES, ms_waitingJobs = [], ms_failedJobs = []\<rparr>"

text \<open>
  The calls the storage makes: it hands itself to its context, an outgoing job (its slot) to a
  lower storage, or a job to its callback.
\<close>

datatype ms_action =
    MsExecute
  | MsProcess nat nat
  | MsDone nat storage_job

definition ms_jobFailed :: "nat \<Rightarrow> mapping_storage \<Rightarrow> ms_action list \<times> mapping_storage" where
  "ms_jobFailed job m = ([MsExecute], m\<lparr>ms_failedJobs := ms_failedJobs m @ [job]\<rparr>)"

definition ms_triggerJob ::
  "storage_job \<Rightarrow> mapping_config \<Rightarrow> nat \<Rightarrow> mapping_storage \<Rightarrow> (ms_action list \<times> mapping_storage) option" where
  "ms_triggerJob jobIn confEntry slotIdx m = do {
     ensure (slotIdx < length (ms_outJobs m));
     let jobOut = sj_init (mc_outgoingBlockId confEntry) (ms_outJobs m ! slotIdx);
     jobOut \<leftarrow> (case sj_job jobIn of
         JobRead buffer offset readSize \<Rightarrow> Some (sj_initRead buffer offset jobOut)
       | JobWrite buffer offset \<Rightarrow> Some (sj_initWrite buffer offset jobOut)
       | JobNone \<Rightarrow> None);
     ensure (mc_outgoingIdx confEntry < ms_storages m);
     Some ([MsProcess (mc_outgoingIdx confEntry) slotIdx], m\<lparr>ms_outJobs := (ms_outJobs m)[slotIdx := jobOut]\<rparr>) }"

text \<open>The search for a free slot.\<close>

fun ms_free_slot :: "nat \<Rightarrow> nat option list \<Rightarrow> nat option" where
  "ms_free_slot slotIdx [] = None"
| "ms_free_slot slotIdx (j # js) = (if j = None then Some slotIdx else ms_free_slot (slotIdx + 1) js)"

definition ms_process ::
  "(nat \<Rightarrow> storage_job) \<Rightarrow> nat \<Rightarrow> mapping_storage \<Rightarrow> (ms_action list \<times> mapping_storage) option" where
  "ms_process jobs job m =
     (if sj_job (jobs job) = JobNone then Some (ms_jobFailed job m)
      else case getConfigEntry (ms_config m) (sj_id (jobs job)) of
          None \<Rightarrow> Some (ms_jobFailed job m)
        | Some confEntry \<Rightarrow>
            if mc_outgoingIdx confEntry \<ge> ms_storages m then Some (ms_jobFailed job m)
            else (case ms_free_slot 0 (ms_inJobs m) of
                Some slotIdx \<Rightarrow> ms_triggerJob (jobs job) confEntry slotIdx
                                  (m\<lparr>ms_inJobs := (ms_inJobs m)[slotIdx := Some job]\<rparr>)
              | None \<Rightarrow> Some ([], m\<lparr>ms_waitingJobs := ms_waitingJobs m @ [job]\<rparr>)))"

definition ms_execute :: "(nat \<Rightarrow> storage_job) \<Rightarrow> mapping_storage \<Rightarrow> ms_action list \<times> mapping_storage" where
  "ms_execute jobs m =
     (case ms_failedJobs m of
        [] \<Rightarrow> ([], m)
      | job # failed \<Rightarrow> ([MsDone job (sj_sendResult ResultError (jobs job)), MsExecute], m\<lparr>ms_failedJobs := failed\<rparr>))"

definition ms_getUsedSlotIdx :: "nat \<Rightarrow> mapping_storage \<Rightarrow> nat" where
  "ms_getUsedSlotIdx job m = (let maxSlot = length (ms_outJobs m) in if job < maxSlot then job else maxSlot)"

text \<open>
  The callback for an outgoing job, up to and including the callback of the incoming job. The
  two jobs refer to one linked buffer: its bytes are those the lower storage left.
\<close>

definition ms_callback :: "(nat \<Rightarrow> storage_job) \<Rightarrow> nat \<Rightarrow> mapping_storage \<Rightarrow> ms_action option" where
  "ms_callback jobs job m = do {
     let slotIdx = ms_getUsedSlotIdx job m;
     ensure (slotIdx < length (ms_inJobs m));
     jobIn \<leftarrow> ms_inJobs m ! slotIdx;
     let out = ms_outJobs m ! slotIdx;
     j \<leftarrow> (case sj_job out of
        JobRead outBuffer outOffset outReadSize \<Rightarrow>
          (case sj_job (jobs jobIn) of
             JobRead buffer offset readSize \<Rightarrow> Some ((jobs jobIn)\<lparr>sj_job := JobRead outBuffer offset outReadSize\<rparr>)
           | _ \<Rightarrow> None)
      | _ \<Rightarrow> Some (jobs jobIn));
     Some (MsDone jobIn (sj_sendResult (sj_result out) j)) }"

text \<open>The rest of the callback: the slot is freed or taken by the next job.\<close>

definition ms_callback_end ::
  "(nat \<Rightarrow> storage_job) \<Rightarrow> nat \<Rightarrow> mapping_storage \<Rightarrow> (ms_action list \<times> mapping_storage) option" where
  "ms_callback_end jobs slotIdx m =
     (case ms_waitingJobs m of
        [] \<Rightarrow> Some ([], m\<lparr>ms_inJobs := (ms_inJobs m)[slotIdx := None]\<rparr>)
      | nextJob # waiting \<Rightarrow> do {
          confEntry \<leftarrow> getConfigEntry (ms_config m) (sj_id (jobs nextJob));
          ms_triggerJob (jobs nextJob) confEntry slotIdx
            (m\<lparr>ms_waitingJobs := waiting, ms_inJobs := (ms_inJobs m)[slotIdx := Some nextJob]\<rparr>) })"

section \<open>QueuingStorage\<close>

text \<open>\<open>QsExecute\<close> hands the storage to its context, \<open>QsProcess\<close> a job to the lower storage.\<close>

datatype qs_action = QsExecute | QsProcess nat

definition qs_process :: "nat \<Rightarrow> nat list \<Rightarrow> qs_action list \<times> nat list" where
  "qs_process job jobs = ([QsExecute], jobs @ [job])"

definition qs_execute :: "nat list \<Rightarrow> qs_action list \<times> nat list" where
  "qs_execute jobs = (case jobs of [] \<Rightarrow> ([], []) | job # jobs \<Rightarrow> ([QsProcess job, QsExecute], jobs))"

end
