(* ===== verification/StorageMappingCorrect.thy ===== *)
theory StorageMappingCorrect imports StorageMapping "HOL-Library.Multiset" begin

text \<open>
  The mapping storage among its users and lower storages, which act in any order, and the queueing
  storage: every job is completed once, with the result of the block it is mapped to.
\<close>

section \<open>The search in the configuration\<close>

lemma lower_bound_split:
  assumes "sorted (map mc_blockId config)" "first + cnt \<le> length config"
    and "\<forall>i < first. mc_blockId (config ! i) < blockId"
    and "\<forall>i. first + cnt \<le> i \<and> i < length config \<longrightarrow> blockId \<le> mc_blockId (config ! i)"
  shows "let r = lower_bound config blockId first cnt in r \<le> length config
    \<and> (\<forall>i < r. mc_blockId (config ! i) < blockId) \<and> (\<forall>i. r \<le> i \<and> i < length config \<longrightarrow> blockId \<le> mc_blockId (config ! i))"
  using assms(2-4)
proof (induction cnt arbitrary: first rule: less_induct)
  case (less cnt)
  have mono: "mc_blockId (config ! i) \<le> mc_blockId (config ! j)" if "i \<le> j" "j < length config" for i j
    using sorted_nth_mono [OF assms(1), of i j] that by simp
  show ?case
  proof (cases "cnt = 0")
    case True
    then show ?thesis using less.prems by (simp add: lower_bound.simps [of _ _ _ 0])
  next
    case False
    let ?s = "cnt div 2"
    have s: "?s < cnt" using False by simp
    show ?thesis
    proof (cases "mc_blockId (config ! (first + ?s)) < blockId")
      case True
      have "let r = lower_bound config blockId (first + ?s + 1) (cnt - (?s + 1)) in r \<le> length config
        \<and> (\<forall>i < r. mc_blockId (config ! i) < blockId) \<and> (\<forall>i. r \<le> i \<and> i < length config \<longrightarrow> blockId \<le> mc_blockId (config ! i))"
      proof (rule less.IH)
        show "\<forall>i < first + ?s + 1. mc_blockId (config ! i) < blockId"
        proof (intro allI impI)
          fix i assume "i < first + ?s + 1"
          then have "mc_blockId (config ! i) \<le> mc_blockId (config ! (first + ?s))" using mono less.prems(1) s by simp
          then show "mc_blockId (config ! i) < blockId" using True by simp
        qed
      qed (use s less.prems in auto)
      then show ?thesis using False True by (simp add: lower_bound.simps [of _ _ _ cnt] Let_def)
    next
      case g: False
      have "let r = lower_bound config blockId first ?s in r \<le> length config
        \<and> (\<forall>i < r. mc_blockId (config ! i) < blockId) \<and> (\<forall>i. r \<le> i \<and> i < length config \<longrightarrow> blockId \<le> mc_blockId (config ! i))"
      proof (rule less.IH)
        show "\<forall>i. first + ?s \<le> i \<and> i < length config \<longrightarrow> blockId \<le> mc_blockId (config ! i)"
          using mono [of "first + ?s"] g by (meson le_less_trans not_less order_trans)
      qed (use s less.prems in auto)
      then show ?thesis using False g by (simp add: lower_bound.simps [of _ _ _ cnt] Let_def)
    qed
  qed
qed

lemma getConfigEntry_find:
  assumes "sorted (map mc_blockId config)"
  shows "getConfigEntry config blockId = find (\<lambda>c. mc_blockId c = blockId) config"
proof -
  define r where "r = lower_bound config blockId 0 (length config)"
  have r: "r \<le> length config" "\<forall>i < r. mc_blockId (config ! i) < blockId"
    "\<forall>i. r \<le> i \<and> i < length config \<longrightarrow> blockId \<le> mc_blockId (config ! i)"
    using lower_bound_split [OF assms, of 0 "length config" blockId] by (simp_all add: r_def Let_def)
  show ?thesis
  proof (cases "r \<noteq> length config \<and> mc_blockId (config ! r) = blockId")
    case True
    then have "find (\<lambda>c. mc_blockId c = blockId) config = Some (config ! r)"
      using r(1,2) unfolding find_Some_iff by (metis le_neq_implies_less less_irrefl)
    then show ?thesis using True by (simp add: getConfigEntry_def r_def [symmetric] Let_def)
  next
    case False
    have "mc_blockId (config ! i) \<noteq> blockId" if i: "i < length config" for i
    proof (cases "i < r")
      case True
      then show ?thesis using r(2) by auto
    next
      case ge: False
      then have "r < length config" using i by simp
      then have "blockId < mc_blockId (config ! r)" using False r(3) by (metis le_neq_implies_less nat_neq_iff order_refl)
      also have "\<dots> \<le> mc_blockId (config ! i)" using sorted_nth_mono [OF assms, of r i] ge i by simp
      finally show ?thesis by simp
    qed
    then have "find (\<lambda>c. mc_blockId c = blockId) config = None"
      unfolding find_None_iff by (metis in_set_conv_nth)
    then show ?thesis using False by (auto simp: getConfigEntry_def r_def [symmetric] Let_def)
  qed
qed

lemma getConfigEntry_in: "getConfigEntry config b = Some e \<Longrightarrow> mc_blockId e = b"
  by (auto simp: getConfigEntry_def Let_def split: if_splits)

section \<open>The world of the mapping storage\<close>

text \<open>
  \<open>mw_posted\<close>: the storage has been handed to its context; \<open>mw_lower\<close>: the outgoing jobs the lower
  storages have (storage and slot); \<open>mw_returning\<close>: the slots whose callback is in the callback of
  the user; \<open>mw_submitted\<close> and \<open>mw_done\<close>: all jobs given to the storage, and those it completed
  with the job at completion and, unless the job was refused, the storage and the outgoing job.
\<close>

record mapping_world =
  mw_storage :: mapping_storage
  mw_jobs :: "nat \<Rightarrow> storage_job"
  mw_posted :: bool
  mw_lower :: "(nat \<times> nat) list"
  mw_returning :: "nat list"
  mw_submitted :: "nat list"
  mw_done :: "(nat \<times> storage_job \<times> (nat \<times> storage_job) option) list"

definition mw_new :: "mapping_config list \<Rightarrow> nat \<Rightarrow> nat \<Rightarrow> mapping_world" where
  "mw_new config storages slots = \<lparr>mw_storage = ms_declare config storages slots, mw_jobs = (\<lambda>_. sj_new), mw_posted = False,
     mw_lower = [], mw_returning = [], mw_submitted = [], mw_done = []\<rparr>"

text \<open>The jobs the storage has and has not completed.\<close>

definition mw_active :: "mapping_world \<Rightarrow> nat list" where
  "mw_active w = map (\<lambda>(st, slot). the (ms_inJobs (mw_storage w) ! slot)) (mw_lower w)
     @ ms_waitingJobs (mw_storage w) @ ms_failedJobs (mw_storage w)"

text \<open>What a lower storage may do to a job: fill the buffers, set the number of bytes read and a result.\<close>

definition is_outcome :: "storage_job \<Rightarrow> storage_job \<Rightarrow> bool" where
  "is_outcome j j' \<longleftrightarrow> sj_id j' = sj_id j \<and> sj_result j' \<noteq> ResultInit
     \<and> (case sj_job j of
          JobNone \<Rightarrow> sj_job j' = JobNone
        | JobWrite buffers offset \<Rightarrow> sj_job j' = JobWrite buffers offset
        | JobRead buffers offset n \<Rightarrow> (case sj_job j' of
            JobRead buffers' offset' n' \<Rightarrow> offset' = offset \<and> map length buffers' = map length buffers
          | _ \<Rightarrow> False))"

fun mw_act :: "(nat \<times> storage_job) option \<Rightarrow> ms_action \<Rightarrow> mapping_world \<Rightarrow> mapping_world" where
  "mw_act via MsExecute w = w\<lparr>mw_posted := True\<rparr>"
| "mw_act via (MsProcess st slot) w = w\<lparr>mw_lower := mw_lower w @ [(st, slot)]\<rparr>"
| "mw_act via (MsDone job j) w = w\<lparr>mw_jobs := (mw_jobs w)(job := j), mw_done := mw_done w @ [(job, j, via)]\<rparr>"

definition mw_acts :: "(nat \<times> storage_job) option \<Rightarrow> ms_action list \<times> mapping_storage \<Rightarrow> mapping_world \<Rightarrow> mapping_world" where
  "mw_acts via am w = fold (mw_act via) (fst am) (w\<lparr>mw_storage := snd am\<rparr>)"

datatype mw_label =
    Submit nat storage_job
  | Execute
  | LowerDone nat storage_job
  | CallbackEnds nat

fun mw_enabled :: "mw_label \<Rightarrow> mapping_world \<Rightarrow> bool" where
  "mw_enabled (Submit job j) w \<longleftrightarrow> job \<notin> set (mw_active w)"
| "mw_enabled Execute w \<longleftrightarrow> mw_posted w"
| "mw_enabled (LowerDone i j) w \<longleftrightarrow> i < length (mw_lower w)
     \<and> is_outcome (ms_outJobs (mw_storage w) ! snd (mw_lower w ! i)) j"
| "mw_enabled (CallbackEnds i) w \<longleftrightarrow> i < length (mw_returning w)"

text \<open>One step; \<open>None\<close> when the storage fails.\<close>

fun mw_step :: "mw_label \<Rightarrow> mapping_world \<Rightarrow> mapping_world option" where
  "mw_step (Submit job j) w =
     (let w = w\<lparr>mw_jobs := (mw_jobs w)(job := j), mw_submitted := mw_submitted w @ [job]\<rparr>
      in map_option (\<lambda>am. mw_acts None am w) (ms_process (mw_jobs w) job (mw_storage w)))"
| "mw_step Execute w = Some (mw_acts None (ms_execute (mw_jobs w) (mw_storage w)) (w\<lparr>mw_posted := False\<rparr>))"
| "mw_step (LowerDone i j) w =
     (let (st, slot) = mw_lower w ! i;
          m = (mw_storage w)\<lparr>ms_outJobs := (ms_outJobs (mw_storage w))[slot := j]\<rparr>
      in map_option (\<lambda>a. mw_acts (Some (st, j)) ([a], m)
            (w\<lparr>mw_lower := take i (mw_lower w) @ drop (i + 1) (mw_lower w), mw_returning := slot # mw_returning w\<rparr>))
          (ms_callback (mw_jobs w) slot m))"
| "mw_step (CallbackEnds i) w =
     map_option (\<lambda>am. mw_acts None am (w\<lparr>mw_returning := take i (mw_returning w) @ drop (i + 1) (mw_returning w)\<rparr>))
       (ms_callback_end (mw_jobs w) (mw_returning w ! i) (mw_storage w))"

text \<open>A run; a step that is not possible is left out.\<close>

fun mw_run :: "mw_label list \<Rightarrow> mapping_world \<Rightarrow> mapping_world option" where
  "mw_run [] w = Some w"
| "mw_run (lab # labs) w =
     (if mw_enabled lab w then (case mw_step lab w of None \<Rightarrow> None | Some w' \<Rightarrow> mw_run labs w') else mw_run labs w)"

section \<open>The invariant\<close>

text \<open>A job the storage can hand on, and an outgoing job that stands for an incoming one.\<close>

definition goes_through :: "mapping_config list \<Rightarrow> nat \<Rightarrow> storage_job \<Rightarrow> bool" where
  "goes_through c S j \<longleftrightarrow> sj_job j \<noteq> JobNone
     \<and> (case getConfigEntry c (sj_id j) of None \<Rightarrow> False | Some e \<Rightarrow> mc_outgoingIdx e < S)"

fun same_access :: "job_type \<Rightarrow> job_type \<Rightarrow> bool" where
  "same_access (JobWrite b off) (JobWrite b' off') \<longleftrightarrow> b' = b \<and> off' = off"
| "same_access (JobRead b off n) (JobRead b' off' n') \<longleftrightarrow> b' = b \<and> off' = off"
| "same_access _ _ \<longleftrightarrow> False"

definition mapped :: "mapping_config list \<Rightarrow> nat \<Rightarrow> storage_job \<Rightarrow> nat \<Rightarrow> storage_job \<Rightarrow> bool" where
  "mapped c S j st out \<longleftrightarrow> goes_through c S j \<and> (case getConfigEntry c (sj_id j) of None \<Rightarrow> False
     | Some e \<Rightarrow> st = mc_outgoingIdx e \<and> sj_id out = mc_outgoingBlockId e) \<and> same_access (sj_job j) (sj_job out)"

text \<open>How a job is completed: refused with an error, or with what the lower storage made of it.\<close>

definition completed_ok :: "mapping_config list \<Rightarrow> nat \<Rightarrow> nat \<times> storage_job \<times> (nat \<times> storage_job) option \<Rightarrow> bool" where
  "completed_ok c S x = (case x of (job, j, via) \<Rightarrow> (case via of
       None \<Rightarrow> \<not> goes_through c S j \<and> sj_result j = ResultError
     | Some (st, out) \<Rightarrow> mapped c S j st out \<and> sj_job j = sj_job out \<and> sj_result j = sj_result out))"

text \<open>The slots: those of the lower storages and of running callbacks are exactly the taken ones.\<close>

definition slots_ok :: "nat \<Rightarrow> nat option list \<Rightarrow> storage_job list \<Rightarrow> nat list \<Rightarrow> nat list \<Rightarrow> bool" where
  "slots_ok N ins outs slots waiting \<longleftrightarrow> length ins = N \<and> length outs = N \<and> distinct slots \<and> set slots \<subseteq> {..<N}
     \<and> (\<forall>s < N. ins ! s \<noteq> None \<longleftrightarrow> s \<in> set slots) \<and> (waiting \<noteq> [] \<longrightarrow> None \<notin> set ins)"

definition actives :: "nat option list \<Rightarrow> (nat \<times> nat) list \<Rightarrow> nat list" where
  "actives ins lower = map (\<lambda>p. the (ins ! snd p)) lower"

definition jobs_ok :: "mapping_config list \<Rightarrow> nat \<Rightarrow> (nat \<Rightarrow> storage_job) \<Rightarrow> nat option list \<Rightarrow> storage_job list
    \<Rightarrow> (nat \<times> nat) list \<Rightarrow> nat list \<Rightarrow> nat list \<Rightarrow> bool" where
  "jobs_ok c S jobs ins outs lower waiting failed \<longleftrightarrow> distinct (actives ins lower @ waiting @ failed)
     \<and> (\<forall>p \<in> set lower. mapped c S (jobs (the (ins ! snd p))) (fst p) (outs ! snd p))
     \<and> (\<forall>j \<in> set waiting. goes_through c S (jobs j)) \<and> (\<forall>j \<in> set failed. \<not> goes_through c S (jobs j))"

definition mw_inv :: "mapping_config list \<Rightarrow> nat \<Rightarrow> nat \<Rightarrow> mapping_world \<Rightarrow> bool" where
  "mw_inv c S N w \<longleftrightarrow> (let m = mw_storage w in
     ms_config m = c \<and> ms_storages m = S
     \<and> slots_ok N (ms_inJobs m) (ms_outJobs m) (map snd (mw_lower w) @ mw_returning w) (ms_waitingJobs m)
     \<and> jobs_ok c S (mw_jobs w) (ms_inJobs m) (ms_outJobs m) (mw_lower w) (ms_waitingJobs m) (ms_failedJobs m)
     \<and> (ms_failedJobs m \<noteq> [] \<longrightarrow> mw_posted w)
     \<and> mset (mw_submitted w) = mset (map fst (mw_done w)) + mset (mw_active w)
     \<and> list_all (completed_ok c S) (mw_done w))"

lemma active_eq: "mw_active w = actives (ms_inJobs (mw_storage w)) (mw_lower w)
    @ ms_waitingJobs (mw_storage w) @ ms_failedJobs (mw_storage w)"
  by (simp add: mw_active_def actives_def case_prod_unfold)

lemma mw_invD:
  assumes "mw_inv c S N w"
  defines "m \<equiv> mw_storage w"
  shows "ms_config m = c" and "ms_storages m = S"
    and "slots_ok N (ms_inJobs m) (ms_outJobs m) (map snd (mw_lower w) @ mw_returning w) (ms_waitingJobs m)"
    and "jobs_ok c S (mw_jobs w) (ms_inJobs m) (ms_outJobs m) (mw_lower w) (ms_waitingJobs m) (ms_failedJobs m)"
    and "ms_failedJobs m \<noteq> [] \<longrightarrow> mw_posted w"
    and "mset (mw_submitted w) = mset (map fst (mw_done w))
      + mset (actives (ms_inJobs m) (mw_lower w) @ ms_waitingJobs m @ ms_failedJobs m)"
    and "list_all (completed_ok c S) (mw_done w)"
  using assms(1) by (simp_all add: mw_inv_def Let_def m_def active_eq)

lemma mw_new_inv: "mw_inv c S N (mw_new c S N)"
  by (simp add: mw_inv_def mw_new_def ms_declare_def mw_active_def slots_ok_def jobs_ok_def actives_def)

lemma slots_take:
  assumes "slots_ok N ins outs slots waiting" "s < N" "ins ! s = None" "set slots' = insert s (set slots)" "distinct slots'"
  shows "slots_ok N (ins[s := Some j]) (outs[s := out]) slots' waiting \<and> waiting = [] \<and> s \<notin> set slots"
  using assms unfolding slots_ok_def by (auto simp: nth_list_update) (metis nth_mem)+

lemma actives_upd: "s \<notin> snd ` set lower \<Longrightarrow> actives (ins[s := x]) lower = actives ins lower"
  by (auto simp: actives_def nth_list_update_neq) (metis imageI nth_list_update_neq snd_conv)

lemma jobs_upd:
  "job \<notin> set (actives ins lower @ waiting @ failed) \<Longrightarrow>
   jobs_ok c S (jobs(job := j)) ins outs lower waiting failed = jobs_ok c S jobs ins outs lower waiting failed"
  unfolding jobs_ok_def actives_def by (auto simp: image_iff)

lemma free_slot_None: "ms_free_slot k js = None \<longleftrightarrow> None \<notin> set js"
  by (induction js arbitrary: k) auto

lemma free_slot_Some: "ms_free_slot k js = Some s \<Longrightarrow> k \<le> s \<and> s < k + length js \<and> js ! (s - k) = None"
proof (induction js arbitrary: k)
  case (Cons j js)
  show ?case
  proof (cases "j = None")
    case True
    then show ?thesis using Cons.prems by simp
  next
    case False
    then have "ms_free_slot (k + 1) js = Some s" using Cons.prems by (simp del: not_None_eq)
    from Cons.IH [OF this] show ?thesis by (auto simp: nth_Cons')
  qed
qed simp

lemma goes_through_entry:
  assumes "goes_through c S j"
  obtains e where "getConfigEntry c (sj_id j) = Some e" "mc_outgoingIdx e < S" "sj_job j \<noteq> JobNone"
  using assms by (auto simp: goes_through_def split: option.splits)

lemma trigger:
  assumes g: "getConfigEntry c (sj_id j) = Some e" "mc_outgoingIdx e < S" "sj_job j \<noteq> JobNone"
    and m: "ms_storages m = S" "s < length (ms_outJobs m)"
  shows "\<exists>out. ms_triggerJob j e s m = Some ([MsProcess (mc_outgoingIdx e) s], m\<lparr>ms_outJobs := (ms_outJobs m)[s := out]\<rparr>)
    \<and> mapped c S j (mc_outgoingIdx e) out"
proof (cases "sj_job j")
  case (JobWrite b off)
  then show ?thesis using g m
    by (simp add: ms_triggerJob_def sj_init_def sj_initWrite_def mapped_def goes_through_def Let_def) (intro exI conjI, rule refl, simp_all)
next
  case (JobRead b off n)
  then show ?thesis using g m
    by (simp add: ms_triggerJob_def sj_init_def sj_initRead_def mapped_def goes_through_def Let_def) (intro exI conjI, rule refl, simp_all)
qed (use g in simp)

lemma taken_slot:
  assumes "i < length xs"
  obtains as bs where "xs = as @ xs ! i # bs" "take i xs @ drop (i + 1) xs = as @ bs"
  using id_take_nth_drop [OF assms] by auto


lemma jobs_trigger:
  assumes ok: "jobs_ok c S jobs ins outs lower waiting failed" and new: "job \<notin> set (actives ins lower @ waiting @ failed)"
    and s: "s \<notin> snd ` set lower" "s < length ins" "s < length outs" and m: "mapped c S (jobs job) st out"
  shows "jobs_ok c S jobs (ins[s := Some job]) (outs[s := out]) (lower @ [(st, s)]) waiting failed"
    and "actives (ins[s := Some job]) (lower @ [(st, s)]) = actives ins lower @ [job]"
proof -
  have a: "actives (ins[s := Some job]) (lower @ [(st, s)]) = actives ins lower @ [job]"
    using actives_upd [OF s(1), of ins "Some job"] s(2) by (simp add: actives_def)
  then show "actives (ins[s := Some job]) (lower @ [(st, s)]) = actives ins lower @ [job]" .
  have "mapped c S (jobs (the (ins[s := Some job] ! snd p))) (fst p) (outs[s := out] ! snd p)" if "p \<in> set (lower @ [(st, s)])" for p
  proof (cases "p = (st, s)")
    case True
    then show ?thesis using m s by simp
  next
    case False
    then have "p \<in> set lower" "snd p \<noteq> s" using that s(1) by auto
    then show ?thesis using ok by (simp add: jobs_ok_def)
  qed
  then show "jobs_ok c S jobs (ins[s := Some job]) (outs[s := out]) (lower @ [(st, s)]) waiting failed"
    using ok new unfolding jobs_ok_def a by auto
qed

section \<open>Every step keeps the invariant\<close>

lemma mw_submit_inv:
  assumes inv: "mw_inv c S N w" and new: "job \<notin> set (mw_active w)"
  shows "\<exists>w'. mw_step (Submit job j) w = Some w' \<and> mw_inv c S N w' \<and> mw_submitted w' = mw_submitted w @ [job]"
proof -
  define m where "m = mw_storage w"
  let ?js = "(mw_jobs w)(job := j)"
  let ?w = "w\<lparr>mw_jobs := ?js, mw_submitted := mw_submitted w @ [job]\<rparr>"
  let ?L = "mw_lower w" and ?W = "ms_waitingJobs m" and ?F = "ms_failedJobs m"
  note i = mw_invD [OF inv, folded m_def]
  have new': "job \<notin> set (actives (ms_inJobs m) ?L @ ?W @ ?F)" using new by (simp add: active_eq m_def)
  have j: "jobs_ok c S ?js (ms_inJobs m) (ms_outJobs m) ?L ?W ?F" unfolding jobs_upd [OF new'] by (rule i(4))
  have jd: "distinct (actives (ms_inJobs m) ?L @ ?W @ ?F)" using i(4) by (simp add: jobs_ok_def)
  show ?thesis
  proof (cases "goes_through c S j")
    case False
    have "ms_process ?js job m = Some (ms_jobFailed job m)"
      using False i(1,2) by (auto simp: ms_process_def goes_through_def split: option.splits)
    then have "mw_step (Submit job j) w = Some (?w\<lparr>mw_storage := m\<lparr>ms_failedJobs := ?F @ [job]\<rparr>, mw_posted := True\<rparr>)"
      by (simp add: ms_jobFailed_def mw_acts_def m_def)
    moreover have "jobs_ok c S ?js (ms_inJobs m) (ms_outJobs m) ?L ?W (?F @ [job])"
      using j new' False by (auto simp: jobs_ok_def)
    ultimately show ?thesis using i by (simp add: mw_inv_def Let_def active_eq del: mw_step.simps)
  next
    case True
    from goes_through_entry [OF True] obtain e where
      e: "getConfigEntry c (sj_id j) = Some e" "mc_outgoingIdx e < S" "sj_job j \<noteq> JobNone" .
    show ?thesis
    proof (cases "ms_free_slot 0 (ms_inJobs m)")
      case None
      then have "ms_process ?js job m = Some ([], m\<lparr>ms_waitingJobs := ?W @ [job]\<rparr>)"
        using e i(1,2) by (simp add: ms_process_def)
      then have "mw_step (Submit job j) w = Some (?w\<lparr>mw_storage := m\<lparr>ms_waitingJobs := ?W @ [job]\<rparr>\<rparr>)"
        by (simp add: mw_acts_def m_def)
      moreover have "jobs_ok c S ?js (ms_inJobs m) (ms_outJobs m) ?L (?W @ [job]) ?F"
        using j new' True by (auto simp: jobs_ok_def)
      moreover have "slots_ok N (ms_inJobs m) (ms_outJobs m) (map snd ?L @ mw_returning w) (?W @ [job])"
        using i(3) None by (simp add: slots_ok_def free_slot_None)
      ultimately show ?thesis using i by (simp add: mw_inv_def Let_def active_eq del: mw_step.simps)
    next
      case (Some s)
      from free_slot_Some [OF this] have s: "s < N" "ms_inJobs m ! s = None" using i(3) by (simp_all add: slots_ok_def)
      let ?m = "m\<lparr>ms_inJobs := (ms_inJobs m)[s := Some job]\<rparr>"
      have so: "s < length (ms_outJobs ?m)" using s i(3) by (simp add: slots_ok_def)
      from trigger [OF e _ so] i(2) obtain out where
        t: "ms_triggerJob j e s ?m = Some ([MsProcess (mc_outgoingIdx e) s], ?m\<lparr>ms_outJobs := (ms_outJobs m)[s := out]\<rparr>)"
          "mapped c S j (mc_outgoingIdx e) out" by auto
      have "ms_process ?js job m = ms_triggerJob j e s ?m"
        using e i(1,2) Some by (simp add: ms_process_def)
      then have st: "mw_step (Submit job j) w = Some (?w\<lparr>mw_storage := ?m\<lparr>ms_outJobs := (ms_outJobs m)[s := out]\<rparr>,
          mw_lower := ?L @ [(mc_outgoingIdx e, s)]\<rparr>)"
        using t(1) by (simp add: mw_acts_def m_def)
      have sl: "s \<notin> set (map snd ?L @ mw_returning w)" using i(3) s unfolding slots_ok_def by blast
      have k: "slots_ok N ((ms_inJobs m)[s := Some job]) ((ms_outJobs m)[s := out]) (map snd (?L @ [(mc_outgoingIdx e, s)]) @ mw_returning w) ?W"
        using slots_take [OF i(3) s, of "map snd (?L @ [(mc_outgoingIdx e, s)]) @ mw_returning w" job out] i(3) sl
        by (auto simp: slots_ok_def)
      have mj: "mapped c S (?js job) (mc_outgoingIdx e) out" using t(2) by simp
      have ls: "s < length (ms_inJobs m)" "s < length (ms_outJobs m)" "s \<notin> snd ` set ?L" using i(3) s sl by (simp_all add: slots_ok_def)
      have jt: "jobs_ok c S ?js ((ms_inJobs m)[s := Some job]) ((ms_outJobs m)[s := out]) (?L @ [(mc_outgoingIdx e, s)]) ?W ?F"
        by (rule jobs_trigger(1) [OF j new' ls(3,1,2) mj])
      note at = jobs_trigger(2) [OF j new' ls(3,1,2) mj]
      show ?thesis using st k jt at i by (simp add: mw_inv_def Let_def active_eq del: mw_step.simps)
    qed
  qed
qed

lemma mw_execute_inv:
  assumes inv: "mw_inv c S N w"
  shows "\<exists>w'. mw_step Execute w = Some w' \<and> mw_inv c S N w' \<and> mw_submitted w' = mw_submitted w"
proof -
  define m where "m = mw_storage w"
  let ?L = "mw_lower w" and ?W = "ms_waitingJobs m" and ?F = "ms_failedJobs m"
  note i = mw_invD [OF inv, folded m_def]
  show ?thesis
  proof (cases ?F)
    case Nil
    then have "mw_step Execute w = Some (w\<lparr>mw_posted := False\<rparr>)"
      by (simp add: mw_acts_def ms_execute_def m_def)
    then show ?thesis using i Nil by (simp add: mw_inv_def Let_def active_eq m_def del: mw_step.simps)
  next
    case (Cons job F)
    let ?j = "sj_sendResult ResultError (mw_jobs w job)"
    have st: "mw_step Execute w = Some (w\<lparr>mw_posted := True, mw_jobs := (mw_jobs w)(job := ?j),
        mw_done := mw_done w @ [(job, ?j, None)], mw_storage := m\<lparr>ms_failedJobs := F\<rparr>\<rparr>)"
      using Cons by (simp add: mw_acts_def ms_execute_def m_def)
    have n: "job \<notin> set (actives (ms_inJobs m) ?L @ ?W @ F)" and f: "\<not> goes_through c S (mw_jobs w job)"
      and j: "jobs_ok c S (mw_jobs w) (ms_inJobs m) (ms_outJobs m) ?L ?W F"
      using i(4) Cons by (auto simp: jobs_ok_def)
    have "jobs_ok c S ((mw_jobs w)(job := ?j)) (ms_inJobs m) (ms_outJobs m) ?L ?W F" unfolding jobs_upd [OF n] by (rule j)
    moreover have "completed_ok c S (job, ?j, None)" using f by (simp add: completed_ok_def sj_sendResult_def goes_through_def)
    ultimately show ?thesis using st i Cons by (simp add: mw_inv_def Let_def active_eq del: mw_step.simps)
  qed
qed

lemma in_set_upd: "x \<in> set (xs[i := y]) \<Longrightarrow> x = y \<or> x \<in> set xs"
  by (meson insertE set_update_subset_insert subsetD)

lemma callback_ok:
  assumes m: "mapped c S (jobs job) st out0" and o: "is_outcome out0 (ms_outJobs m ! s)"
    and s: "s < length (ms_inJobs m)" "s < length (ms_outJobs m)" "ms_inJobs m ! s = Some job"
  shows "\<exists>j. ms_callback jobs s m = Some (MsDone job j) \<and> completed_ok c S (job, j, Some (st, ms_outJobs m ! s))"
proof (cases "sj_job (jobs job)")
  case JobNone
  then show ?thesis using m by (simp add: mapped_def)
next
  case (JobWrite b off)
  then have "sj_job out0 = JobWrite b off" using m by (cases "sj_job out0") (auto simp: mapped_def)
  then have "sj_job (ms_outJobs m ! s) = JobWrite b off" using o by (simp add: is_outcome_def)
  then show ?thesis using JobWrite m o s
    by (auto simp: ms_callback_def ms_getUsedSlotIdx_def completed_ok_def mapped_def goes_through_def is_outcome_def sj_sendResult_def
        split: option.splits)
next
  case (JobRead b off n)
  then obtain n' where "sj_job out0 = JobRead b off n'" using m by (cases "sj_job out0") (auto simp: mapped_def)
  then obtain b2 n2 where "sj_job (ms_outJobs m ! s) = JobRead b2 off n2" using o by (auto simp: is_outcome_def split: job_type.splits)
  then show ?thesis using JobRead m o s
    by (auto simp: ms_callback_def ms_getUsedSlotIdx_def completed_ok_def mapped_def goes_through_def is_outcome_def sj_sendResult_def
        split: option.splits)
qed

lemma jobs_remove:
  assumes ok: "jobs_ok c S jobs ins outs (as @ p # bs) W F" and d: "distinct (map snd (as @ p # bs))"
  shows "jobs_ok c S jobs ins (outs[snd p := x]) (as @ bs) W F"
    and "the (ins ! snd p) \<notin> set (actives ins (as @ bs) @ W @ F)"
    and "mset (actives ins (as @ p # bs)) = add_mset (the (ins ! snd p)) (mset (actives ins (as @ bs)))"
proof -
  have "outs[snd p := x] ! snd q = outs ! snd q" if "q \<in> set (as @ bs)" for q
    using d that by (intro nth_list_update_neq) (auto simp: image_iff)
  then show "jobs_ok c S jobs ins (outs[snd p := x]) (as @ bs) W F"
    using ok by (auto simp: jobs_ok_def actives_def)
  show "the (ins ! snd p) \<notin> set (actives ins (as @ bs) @ W @ F)"
    using ok by (auto simp: jobs_ok_def actives_def)
  show "mset (actives ins (as @ p # bs)) = add_mset (the (ins ! snd p)) (mset (actives ins (as @ bs)))"
    by (simp add: actives_def)
qed

lemma slots_perm:
  assumes "slots_ok N ins outs slots W" "mset slots' = mset slots" "length outs' = length outs"
  shows "slots_ok N ins outs' slots' W"
proof -
  have "distinct slots' = distinct slots" "set slots' = set slots"
    using assms(2) by (metis mset_eq_imp_distinct_iff, metis mset_eq_setD)
  then show ?thesis using assms(1,3) by (simp add: slots_ok_def)
qed

lemma lower_done_inv:
  assumes inv: "mw_inv c S N w" and en: "mw_enabled (LowerDone i j) w"
  shows "\<exists>w'. mw_step (LowerDone i j) w = Some w' \<and> mw_inv c S N w' \<and> mw_submitted w' = mw_submitted w"
proof -
  define m where "m = mw_storage w"
  let ?L = "mw_lower w" and ?W = "ms_waitingJobs m" and ?F = "ms_failedJobs m"
  note i = mw_invD [OF inv, folded m_def]
  obtain st s where p: "?L ! i = (st, s)" by fastforce
  have il: "i < length ?L" and o: "is_outcome (ms_outJobs m ! s) j" using en p by (simp_all add: m_def)
  from taken_slot [OF il] obtain as bs where l: "?L = as @ (st, s) # bs" "take i ?L @ drop (i + 1) ?L = as @ bs"
    unfolding p by metis
  have sn: "s < length (ms_inJobs m)" "s < length (ms_outJobs m)" "ms_inJobs m ! s \<noteq> None"
    using i(3) unfolding slots_ok_def l(1) by auto
  then obtain job where job: "ms_inJobs m ! s = Some job" by blast
  let ?m = "m\<lparr>ms_outJobs := (ms_outJobs m)[s := j]\<rparr>"
  have mp: "mapped c S (mw_jobs w job) st (ms_outJobs m ! s)" using i(4) l(1) job by (simp add: jobs_ok_def)
  have "is_outcome (ms_outJobs m ! s) (ms_outJobs ?m ! s)" using o sn by simp
  from callback_ok [where m = ?m and jobs = "mw_jobs w" and job = job, OF mp this] sn job obtain jn where
    cb: "ms_callback (mw_jobs w) s ?m = Some (MsDone job jn)" "completed_ok c S (job, jn, Some (st, j))" by auto
  have step: "mw_step (LowerDone i j) w = Some (w\<lparr>mw_lower := as @ bs, mw_returning := s # mw_returning w, mw_storage := ?m,
      mw_jobs := (mw_jobs w)(job := jn), mw_done := mw_done w @ [(job, jn, Some (st, j))]\<rparr>)"
    using cb(1) l(2) p by (simp add: mw_acts_def m_def)
  have d: "distinct (map snd (as @ (st, s) # bs))" using i(3) l(1) by (auto simp: slots_ok_def)
  note r = jobs_remove [OF i(4) [unfolded l(1)] d, unfolded snd_conv job option.sel]
  have "jobs_ok c S ((mw_jobs w)(job := jn)) (ms_inJobs m) ((ms_outJobs m)[s := j]) (as @ bs) ?W ?F"
    unfolding jobs_upd [OF r(2)] by (rule r(1))
  moreover have "slots_ok N (ms_inJobs m) ((ms_outJobs m)[s := j]) (map snd (as @ bs) @ s # mw_returning w) ?W"
    by (rule slots_perm [OF i(3)]) (simp_all add: l(1))
  ultimately show ?thesis using step i r(3) cb(2) unfolding l(1) by (simp add: mw_inv_def Let_def active_eq del: mw_step.simps)
qed

lemma callback_ends_inv:
  assumes inv: "mw_inv c S N w" and en: "mw_enabled (CallbackEnds i) w"
  shows "\<exists>w'. mw_step (CallbackEnds i) w = Some w' \<and> mw_inv c S N w' \<and> mw_submitted w' = mw_submitted w"
proof -
  define m where "m = mw_storage w"
  let ?L = "mw_lower w" and ?W = "ms_waitingJobs m" and ?F = "ms_failedJobs m" and ?s = "mw_returning w ! i"
  note i = mw_invD [OF inv, folded m_def]
  have il: "i < length (mw_returning w)" using en by simp
  from taken_slot [OF il] obtain as bs where l: "mw_returning w = as @ ?s # bs" "take i (mw_returning w) @ drop (i + 1) (mw_returning w) = as @ bs"
    by metis
  define s where "s = ?s"
  have lr: "mw_returning w = as @ s # bs" using l(1) by (simp add: s_def)
  have sn: "s < length (ms_inJobs m)" "s < length (ms_outJobs m)" "s \<notin> snd ` set ?L" "s \<notin> set (as @ bs)"
    using i(3) unfolding slots_ok_def lr by auto
  show ?thesis
  proof (cases ?W)
    case Nil
    have step: "mw_step (CallbackEnds i) w = Some (w\<lparr>mw_returning := as @ bs, mw_storage := m\<lparr>ms_inJobs := (ms_inJobs m)[s := None]\<rparr>\<rparr>)"
      using Nil l(2) by (simp add: ms_callback_end_def mw_acts_def m_def s_def)
    have "slots_ok N ((ms_inJobs m)[s := None]) (ms_outJobs m) (map snd ?L @ as @ bs) ?W"
      using i(3) sn unfolding slots_ok_def lr Nil by (auto simp: nth_list_update)
    moreover have "jobs_ok c S (mw_jobs w) ((ms_inJobs m)[s := None]) (ms_outJobs m) ?L ?W ?F"
      using i(4) sn(3) unfolding jobs_ok_def actives_upd [OF sn(3)] by (auto simp: nth_list_update_neq image_iff) 
    ultimately show ?thesis using step i Nil actives_upd [OF sn(3)] by (simp add: mw_inv_def Let_def active_eq del: mw_step.simps)
  next
    case (Cons job W)
    then have "goes_through c S (mw_jobs w job)" using i(4) by (simp add: jobs_ok_def)
    from goes_through_entry [OF this] obtain e where
      e: "getConfigEntry c (sj_id (mw_jobs w job)) = Some e" "mc_outgoingIdx e < S" "sj_job (mw_jobs w job) \<noteq> JobNone" .
    let ?m = "m\<lparr>ms_waitingJobs := W, ms_inJobs := (ms_inJobs m)[s := Some job]\<rparr>"
    from trigger [OF e, of ?m s] i(2) sn obtain out where
      t: "ms_triggerJob (mw_jobs w job) e s ?m = Some ([MsProcess (mc_outgoingIdx e) s], ?m\<lparr>ms_outJobs := (ms_outJobs m)[s := out]\<rparr>)"
        "mapped c S (mw_jobs w job) (mc_outgoingIdx e) out" by auto
    have step: "mw_step (CallbackEnds i) w = Some (w\<lparr>mw_returning := as @ bs, mw_storage := ?m\<lparr>ms_outJobs := (ms_outJobs m)[s := out]\<rparr>,
        mw_lower := ?L @ [(mc_outgoingIdx e, s)]\<rparr>)"
      using Cons l(2) e i(1) t(1) by (simp add: ms_callback_end_def mw_acts_def m_def s_def)
    have "slots_ok N ((ms_inJobs m)[s := Some job]) ((ms_outJobs m)[s := out]) (map snd (?L @ [(mc_outgoingIdx e, s)]) @ as @ bs) W"
      using i(3) sn unfolding slots_ok_def lr Cons by (auto simp: nth_list_update dest: in_set_upd) 
    moreover have n: "job \<notin> set (actives (ms_inJobs m) ?L @ W @ ?F)" and j: "jobs_ok c S (mw_jobs w) (ms_inJobs m) (ms_outJobs m) ?L W ?F"
      using i(4) Cons by (auto simp: jobs_ok_def)
    moreover have "jobs_ok c S (mw_jobs w) ((ms_inJobs m)[s := Some job]) ((ms_outJobs m)[s := out]) (?L @ [(mc_outgoingIdx e, s)]) W ?F"
      by (rule jobs_trigger(1) [OF j n sn(3,1,2) t(2)])
    moreover note jobs_trigger(2) [OF j n sn(3,1,2) t(2)]
    ultimately show ?thesis using step i Cons by (simp add: mw_inv_def Let_def active_eq del: mw_step.simps)
  qed
qed

end
