(* ===== verification/StorageMappingProps.thy ===== *)
theory StorageMappingProps imports StorageMappingCorrect begin

text \<open>The properties of the mapping storage and of the queueing storage.\<close>

section \<open>Every job is completed once\<close>

lemma step_inv_any:
  assumes "mw_inv c S N w" "mw_enabled lab w"
  shows "\<exists>w'. mw_step lab w = Some w' \<and> mw_inv c S N w'"
  using assms by (cases lab) (use mw_submit_inv mw_execute_inv lower_done_inv callback_ends_inv in \<open>fastforce simp del: mw_step.simps\<close>)+

lemma mw_run_inv: "mw_inv c S N w \<Longrightarrow> \<exists>w'. mw_run labs w = Some w' \<and> mw_inv c S N w'"
proof (induction labs arbitrary: w)
  case (Cons lab labs)
  show ?case
  proof (cases "mw_enabled lab w")
    case True
    from step_inv_any [OF Cons.prems True] obtain w1 where "mw_step lab w = Some w1" "mw_inv c S N w1" by blast
    then show ?thesis using True Cons.IH by simp
  next
    case False
    then show ?thesis using Cons by simp
  qed
qed simp

text \<open>C18: However jobs are submitted, lower storages complete them and callbacks end, the mapping
  storage never fails, and every submitted job is either still with it, once, or was completed,
  once per submission: refused with an error when its block is not configured, otherwise with the
  result, the buffers and the read size of the lower storage's job for the block it is mapped to.\<close>

theorem storage_jobs_complete_once:
  "\<exists>w. mw_run labs (mw_new config storages slots) = Some w \<and> distinct (mw_active w)
     \<and> mset (mw_submitted w) = mset (map fst (mw_done w)) + mset (mw_active w)
     \<and> list_all (completed_ok config storages) (mw_done w)"
proof -
  from mw_run_inv [OF mw_new_inv, of labs config storages slots] obtain w where
    w: "mw_run labs (mw_new config storages slots) = Some w" "mw_inv config storages slots w" by blast
  then show ?thesis using mw_invD(4,6,7) [OF w(2)] by (auto simp: active_eq jobs_ok_def)
qed

definition mw_measure :: "mapping_world \<Rightarrow> nat" where
  "mw_measure w = 3 * length (ms_waitingJobs (mw_storage w)) + 2 * length (mw_lower w) + length (mw_returning w)
     + 2 * length (ms_failedJobs (mw_storage w)) + (if mw_posted w then 1 else 0)"

fun is_submit :: "mw_label \<Rightarrow> bool" where
  "is_submit (Submit job j) \<longleftrightarrow> True"
| "is_submit _ \<longleftrightarrow> False"

lemma trigger_measure:
  assumes "ms_triggerJob j e s m = Some (as, m')"
  shows "ms_waitingJobs m' = ms_waitingJobs m \<and> ms_failedJobs m' = ms_failedJobs m \<and> (\<exists>st. as = [MsProcess st s])"
  using assms by (auto simp: ms_triggerJob_def bind_eq_Some_conv Let_def split: job_type.splits)

lemma step_measure:
  assumes "\<not> is_submit lab" "mw_enabled lab w" "mw_step lab w = Some w'"
  shows "mw_measure w' < mw_measure w"
proof (cases lab)
  case Execute
  then show ?thesis using assms(2,3)
    by (auto simp: mw_measure_def mw_acts_def ms_execute_def split: list.splits)
next
  case (LowerDone i j)
  obtain st s where p: "mw_lower w ! i = (st, s)" by fastforce
  let ?m = "(mw_storage w)\<lparr>ms_outJobs := (ms_outJobs (mw_storage w))[s := j]\<rparr>"
  obtain a where a: "ms_callback (mw_jobs w) s ?m = Some a" "w' = mw_acts (Some (st, j)) ([a], ?m)
      (w\<lparr>mw_lower := take i (mw_lower w) @ drop (i + 1) (mw_lower w), mw_returning := s # mw_returning w\<rparr>)"
    using assms(3) LowerDone p by (auto simp: Let_def)
  moreover obtain job jn where "a = MsDone job jn"
    using a(1) by (auto simp: ms_callback_def bind_eq_Some_conv Let_def)
  ultimately show ?thesis using assms(2) LowerDone by (auto simp: mw_measure_def mw_acts_def)
next
  case (CallbackEnds i)
  then obtain as m' where e: "ms_callback_end (mw_jobs w) (mw_returning w ! i) (mw_storage w) = Some (as, m')"
    "w' = mw_acts None (as, m') (w\<lparr>mw_returning := take i (mw_returning w) @ drop (i + 1) (mw_returning w)\<rparr>)"
    using assms(3) by auto
  show ?thesis
  proof (cases "ms_waitingJobs (mw_storage w)")
    case Nil
    then show ?thesis using e assms(2) CallbackEnds by (auto simp: ms_callback_end_def mw_acts_def mw_measure_def)
  next
    case (Cons job W)
    then show ?thesis using e assms(2) CallbackEnds
      by (auto simp: ms_callback_end_def mw_acts_def mw_measure_def bind_eq_Some_conv dest!: trigger_measure)
  qed
qed (use assms in simp)

lemma an_outcome: "is_outcome j (j\<lparr>sj_result := ResultError\<rparr>)"
  by (simp add: is_outcome_def split: job_type.split)

text \<open>C24: The storage never loses sight of a job: while it has a job, a step other than a new submission
  is possible (its context runs, a lower storage completes a job or a callback ends), each such
  step brings it nearer to completion, and when none is left, every submission has been
  completed.\<close>

theorem storage_completes_its_jobs:
  assumes "0 < slots" "mw_run labs (mw_new config storages slots) = Some w"
  shows "(\<forall>lab w'. \<not> is_submit lab \<and> mw_enabled lab w \<and> mw_step lab w = Some w' \<longrightarrow> mw_measure w' < mw_measure w)
    \<and> ((\<forall>lab. is_submit lab \<or> \<not> mw_enabled lab w) \<longrightarrow> mset (map fst (mw_done w)) = mset (mw_submitted w))"
proof -
  have inv: "mw_inv config storages slots w" using mw_run_inv [OF mw_new_inv, of labs config storages slots] assms(2) by auto
  note i = mw_invD [OF inv]
  have "mw_active w = []" if s: "\<forall>lab. is_submit lab \<or> \<not> mw_enabled lab w"
  proof -
    have l: "mw_lower w = []"
      using spec [OF s, of "LowerDone 0 ((ms_outJobs (mw_storage w) ! snd (mw_lower w ! 0))\<lparr>sj_result := ResultError\<rparr>)"] an_outcome by simp
    have r: "mw_returning w = []" using spec [OF s, of "CallbackEnds 0"] by simp
    have f: "ms_failedJobs (mw_storage w) = []" using spec [OF s, of Execute] i(5) by auto
    have "ms_inJobs (mw_storage w) ! 0 = None" "0 < length (ms_inJobs (mw_storage w))"
      using i(3) assms(1) l r by (simp_all add: slots_ok_def)
    then have "None \<in> set (ms_inJobs (mw_storage w))" by (metis nth_mem)
    then have "ms_waitingJobs (mw_storage w) = []" using i(3) by (auto simp: slots_ok_def)
    then show ?thesis using l f by (simp add: mw_active_def)
  qed
  then show ?thesis using step_measure i(6) by (auto simp: active_eq simp del: mw_step.simps mw_enabled.simps)
qed

text \<open>Two slots, three jobs and a job for a block that is not configured.\<close>

definition wMapping :: "mapping_config list" where
  "wMapping = [\<lparr>mc_blockId = 3, mc_outgoingBlockId = 30, mc_outgoingIdx = 0\<rparr>, \<lparr>mc_blockId = 5, mc_outgoingBlockId = 50, mc_outgoingIdx = 1\<rparr>]"

definition wMapRun :: "mw_label list" where
  "wMapRun = [Submit 1 (sj_init 3 (sj_initWrite [[1]] 0 sj_new)), Submit 2 (sj_init 4 (sj_initRead [[0]] 0 sj_new)),
     Submit 3 (sj_init 5 (sj_initRead [[0]] 2 sj_new)), Execute,
     LowerDone 0 (sj_sendResult ResultSuccess (sj_init 30 (sj_initWrite [[1]] 0 sj_new))), CallbackEnds 0,
     LowerDone 0 (sj_sendResult ResultSuccess ((sj_init 50 sj_new)\<lparr>sj_job := JobRead [[7]] 2 1\<rparr>)), CallbackEnds 0, Execute]"

definition wMapEnd :: mapping_world where
  "wMapEnd = the (mw_run wMapRun (mw_new wMapping 2 1))"

lemma wMapEnd: "mw_run wMapRun (mw_new wMapping 2 1) = Some wMapEnd"
proof -
  have "mw_run wMapRun (mw_new wMapping 2 1) \<noteq> None" by code_simp
  then show ?thesis by (auto simp: wMapEnd_def)
qed

lemma wMapEnd_stuck: "is_submit lab \<or> \<not> mw_enabled lab wMapEnd"
proof -
  have "mw_lower wMapEnd = [] \<and> mw_returning wMapEnd = [] \<and> \<not> mw_posted wMapEnd" by code_simp
  then show ?thesis by (cases lab) auto
qed

theorem storage_completes_its_jobs_witness:
  "mset (map fst (mw_done wMapEnd)) = mset (mw_submitted wMapEnd) \<and> mw_submitted wMapEnd = [1, 2, 3]"
proof
  have n: "0 < (1 :: nat)" by simp
  show "mset (map fst (mw_done wMapEnd)) = mset (mw_submitted wMapEnd)"
    using storage_completes_its_jobs [OF n wMapEnd] wMapEnd_stuck by blast
  show "mw_submitted wMapEnd = [1, 2, 3]" by code_simp
qed

section \<open>The search\<close>

text \<open>In a configuration sorted by blocks, as its comment demands, the binary search finds the first
  entry of a block exactly when there is one.\<close>

theorem config_search_is_linear_search:
  assumes "sorted (map mc_blockId config)"
  shows "getConfigEntry config blockId = find (\<lambda>c. mc_blockId c = blockId) config"
  by (rule getConfigEntry_find [OF assms])

theorem config_search_is_linear_search_witness:
  "getConfigEntry wMapping 5 = find (\<lambda>c. mc_blockId c = 5) wMapping"
  by (rule config_search_is_linear_search) (simp add: wMapping_def)

section \<open>The queueing storage\<close>

text \<open>
  The jobs in the queue, whether the storage has been handed to its context, the jobs submitted
  and the jobs handed to the lower storage.
\<close>

datatype qs_label = QsSubmit nat | QsRun

fun qs_acts :: "qs_action list \<Rightarrow> bool \<times> nat list \<Rightarrow> bool \<times> nat list" where
  "qs_acts [] s = s"
| "qs_acts (QsExecute # as) (posted, handed) = qs_acts as (True, handed)"
| "qs_acts (QsProcess j # as) (posted, handed) = qs_acts as (posted, handed @ [j])"

fun qs_run :: "qs_label list \<Rightarrow> nat list \<Rightarrow> bool \<times> nat list \<Rightarrow> nat list \<times> bool \<times> nat list" where
  "qs_run [] jobs s = (jobs, s)"
| "qs_run (QsSubmit j # labs) jobs s = (let (as, jobs) = qs_process j jobs in qs_run labs jobs (qs_acts as s))"
| "qs_run (QsRun # labs) jobs (posted, handed) =
     (if posted then let (as, jobs) = qs_execute jobs in qs_run labs jobs (qs_acts as (False, handed))
      else qs_run labs jobs (posted, handed))"

fun qs_submitted :: "qs_label list \<Rightarrow> nat list" where
  "qs_submitted [] = []"
| "qs_submitted (QsSubmit j # labs) = j # qs_submitted labs"
| "qs_submitted (QsRun # labs) = qs_submitted labs"

text \<open>C35: The queueing storage hands the jobs to its lower storage in the order of their submission,
  each once: what was handed over, followed by what is queued, is what was submitted, and the
  storage is due in its context while jobs are queued.\<close>

theorem queueing_storage_keeps_the_order:
  "case qs_run labs [] (False, []) of (jobs, posted, handed) \<Rightarrow>
     handed @ jobs = qs_submitted labs \<and> (jobs = [] \<or> posted)"
proof -
  have "case qs_run labs jobs (posted, handed) of (jobs', posted', handed') \<Rightarrow>
     handed' @ jobs' = handed @ jobs @ qs_submitted labs \<and> (jobs' = [] \<or> posted')" if "jobs \<noteq> [] \<longrightarrow> posted" for jobs posted handed
    using that
  proof (induction labs arbitrary: jobs posted handed)
    case (Cons lab labs)
    show ?case
    proof (cases lab)
      case (QsSubmit j)
      then show ?thesis using Cons.IH [of "jobs @ [j]" True handed] by (simp add: qs_process_def)
    next
      case QsRun
      then show ?thesis using Cons.prems Cons.IH [of jobs posted handed] Cons.IH [of "[]" False handed] Cons.IH [of "tl jobs" True "handed @ [hd jobs]"]
        by (cases jobs) (auto simp: qs_execute_def)
    qed
  qed auto
  from this [of "[]" False "[]"] show ?thesis by simp
qed

end
