(* ===== verification/UdsConnection.thy ===== *)
theory UdsConnection imports TransportMsg begin

text \<open>
  A diagnostic request in progress: \<^verbatim>\<open>IncomingDiagConnection\<close> of \<^verbatim>\<open>libs/bsw/uds\<close>, with
  \<^verbatim>\<open>PositiveResponse\<close> and \<^verbatim>\<open>NestedDiagRequest\<close>. The response is built in the buffer of the request,
  so both messages change together. What the connection has handed to its context and to the
  transport layer is a part of the state.
\<close>

section \<open>Codes\<close>

definition NEGATIVE_RESPONSE_IDENTIFIER :: u8 where "NEGATIVE_RESPONSE_IDENTIFIER = 0x7F"
definition POSITIVE_RESPONSE_OFFSET :: u8 where "POSITIVE_RESPONSE_OFFSET = 0x40"

definition ISO_SERVICE_NOT_SUPPORTED :: u8 where "ISO_SERVICE_NOT_SUPPORTED = 0x11"
definition ISO_SUBFUNCTION_NOT_SUPPORTED :: u8 where "ISO_SUBFUNCTION_NOT_SUPPORTED = 0x12"
definition ISO_RESPONSE_TOO_LONG :: u8 where "ISO_RESPONSE_TOO_LONG = 0x14"
definition ISO_REQUEST_OUT_OF_RANGE :: u8 where "ISO_REQUEST_OUT_OF_RANGE = 0x31"
definition ISO_RESPONSE_PENDING :: u8 where "ISO_RESPONSE_PENDING = 0x78"
definition ISO_SUBFUNCTION_NOT_SUPPORTED_IN_ACTIVE_SESSION :: u8 where "ISO_SUBFUNCTION_NOT_SUPPORTED_IN_ACTIVE_SESSION = 0x7E"
definition ISO_SERVICE_NOT_SUPPORTED_IN_ACTIVE_SESSION :: u8 where "ISO_SERVICE_NOT_SUPPORTED_IN_ACTIVE_SESSION = 0x7F"
definition DIAG_OK :: u8 where "DIAG_OK = 0xFF"

definition NEGATIVE_RESPONSE_MESSAGE_LENGTH :: nat where "NEGATIVE_RESPONSE_MESSAGE_LENGTH = 3"
definition MAXIMUM_NUMBER_OF_IDENTIFIERS :: nat where "MAXIMUM_NUMBER_OF_IDENTIFIERS = 6"
definition PENDING_MESSAGE_PAYLOAD_LENGTH :: nat where "PENDING_MESSAGE_PAYLOAD_LENGTH = 3"

definition isFunctionalAddress :: "u16 \<Rightarrow> bool" where
  "isFunctionalAddress address \<longleftrightarrow> address = 0x00DF"

datatype uds_error = UDS_OK | NO_TP_MESSAGE | UDS_SEND_FAILED | CONNECTION_NOT_OPEN | CONFLICTING_REQUEST | CONNECTION_BUSY

section \<open>State\<close>

text \<open>A span in the shared buffer is its offset and length.\<close>

record positive_response =
  pr_original :: "nat \<times> nat"
  pr_buffer :: "nat \<times> nat"
  pr_isOverflow :: bool

record nested_request =
  nr_senderJob :: nat
  nr_pendingResponseSender :: "nat option"
  nr_prefixLength :: nat
  nr_isPendingSent :: bool
  nr_responseCode :: u8
  nr_responseLength :: nat
  nr_messageBuffer :: "nat \<times> nat"
  nr_storedRequestLength :: nat
  nr_numIdentifiers :: nat
  nr_numPrefixIdentifiers :: nat
  nr_nestedRequest :: "nat \<times> nat"

text \<open>The two messages a connection sends, and what it hands to its context.\<close>

datatype con_message = PendingMessage | ResponseMessage

datatype con_closure = TransportMessageProcessed | SendPositiveResponse | SendNegativeResponse | TriggerNextNestedRequest

text \<open>
  The calls of a connection: a message given to the transport layer, and whether it was accepted;
  the session manager told of a response; a job told of the end of its response, and whether it
  was sent; the request given back to its listener, the response message released, and the
  connection destroyed.
\<close>

datatype con_call =
    SendMessage con_message transport_message bool
  | SessionResponseSent u8
  | ResponseSent nat bool
  | RequestProcessed transport_message
  | ReleaseResponseMessage
  | ConnectionDestroyed

record diag_connection =
  con_sourceAddress :: u16
  con_targetAddress :: u16
  con_responseSourceAddress :: u16
  con_serviceId :: u8
  con_requestListener :: bool
  con_requestMessage :: "transport_message option"
  con_responseMessage :: "transport_message option"
  con_messageSender :: bool
  con_diagDispatcher :: bool
  con_isOpen :: bool
  con_responsePendingTimeout :: bool
  con_globalPendingTimeout :: bool
  con_sender :: "nat option"
  con_numPendingMessageProcessedCallbacks :: u8
  con_connectionTerminationIsPending :: bool
  con_suppressPositiveResponse :: bool
  con_pendingActivated :: bool
  con_responsePendingIsPending :: bool
  con_responsePendingSent :: bool
  con_responsePendingIsBeingSent :: bool
  con_isResponseActive :: bool
  con_processedArgs :: "con_message \<times> bool"
  con_positiveArgs :: "nat \<times> nat option"
  con_negativeArgs :: "u8 \<times> nat option"
  con_pendingMessage :: transport_message
  con_positiveResponse :: positive_response
  con_negativeResponseTempBuffer :: "u8 list"
  con_identifiers :: "u8 list"
  con_nestedRequest :: "nested_request option"
  con_posted :: "con_closure list"
  con_flight :: "con_message list"
  con_trace :: "con_call list"

text \<open>
  The environment: whether the transport layer accepts a message, given all calls before; whether a
  job ends its connection when its response has been sent, as \<^verbatim>\<open>AbstractDiagJob::responseSent\<close> does;
  and the two virtual methods of a nested request.
\<close>

record con_env =
  ce_send :: "con_call list \<Rightarrow> bool"
  ce_terminates :: "nat \<Rightarrow> bool"
  ce_prepareNestedRequest :: "nested_request \<Rightarrow> u8 list \<Rightarrow> (nat \<times> nat) \<times> nested_request"
  ce_processNestedRequest :: "nat \<times> nat \<Rightarrow> diag_connection \<Rightarrow> (u8 \<times> diag_connection) option"

definition con_call :: "con_call \<Rightarrow> diag_connection \<Rightarrow> diag_connection" where
  "con_call x c = c\<lparr>con_trace := con_trace c @ [x]\<rparr>"

text \<open>\<^verbatim>\<open>async::execute\<close>: what is already enqueued is not enqueued again.\<close>

definition con_post :: "con_closure \<Rightarrow> diag_connection \<Rightarrow> diag_connection" where
  "con_post k c = (if k \<in> set (con_posted c) then c else c\<lparr>con_posted := con_posted c @ [k]\<rparr>)"

text \<open>\<^verbatim>\<open>messageSender->send\<close>\<close>

definition con_send :: "con_env \<Rightarrow> con_message \<Rightarrow> transport_message \<Rightarrow> diag_connection \<Rightarrow> bool \<times> diag_connection" where
  "con_send E k m c =
     (let ok = ce_send E (con_trace c); c = con_call (SendMessage k m ok) c
      in (ok, if ok then c\<lparr>con_flight := con_flight c @ [k]\<rparr> else c))"

text \<open>The response shares its buffer with the request.\<close>

definition con_setResponse :: "transport_message \<Rightarrow> diag_connection \<Rightarrow> diag_connection" where
  "con_setResponse m c = c\<lparr>con_responseMessage := Some m,
     con_requestMessage := map_option (\<lambda>r. r\<lparr>tm_buffer := tm_buffer m\<rparr>) (con_requestMessage c)\<rparr>"

section \<open>PositiveResponse\<close>

definition pr_init :: "nat \<Rightarrow> nat \<Rightarrow> positive_response" where
  "pr_init buffer maximumLength =
     \<lparr>pr_original = (buffer, maximumLength), pr_buffer = (buffer, maximumLength), pr_isOverflow = False\<rparr>"

definition pr_reset :: "positive_response \<Rightarrow> positive_response" where
  "pr_reset p = p\<lparr>pr_buffer := pr_original p\<rparr>"

definition pr_advance :: "nat \<Rightarrow> positive_response \<Rightarrow> positive_response" where
  "pr_advance n p = p\<lparr>pr_buffer := (fst (pr_buffer p) + n, snd (pr_buffer p) - n)\<rparr>"

definition pr_getLength :: "positive_response \<Rightarrow> nat" where
  "pr_getLength p = snd (pr_original p) - snd (pr_buffer p)"

text \<open>Appends to the response of a connection, and returns the number of bytes appended.\<close>

definition pr_appendData :: "u8 list \<Rightarrow> diag_connection \<Rightarrow> (nat \<times> diag_connection) option" where
  "pr_appendData sourceData c =
     (let p = con_positiveResponse c in
      if snd (pr_buffer p) < length sourceData
      then Some (0, c\<lparr>con_positiveResponse := p\<lparr>pr_isOverflow := True\<rparr>\<rparr>)
      else do {
        m \<leftarrow> con_responseMessage c;
        buf \<leftarrow> mem_copy sourceData (length sourceData) (tm_buffer m) (fst (pr_buffer p));
        Some (length sourceData,
          (con_setResponse (m\<lparr>tm_buffer := buf\<rparr>) c)\<lparr>con_positiveResponse := pr_advance (length sourceData) p\<rparr>) })"

text \<open>Integers are appended in network byte order.\<close>

definition pr_appendUint8 :: "u8 \<Rightarrow> diag_connection \<Rightarrow> (bool \<times> diag_connection) option" where
  "pr_appendUint8 d c = map_option (apfst (\<lambda>n. n = 1)) (pr_appendData [d] c)"

definition pr_appendUint16 :: "u16 \<Rightarrow> diag_connection \<Rightarrow> (bool \<times> diag_connection) option" where
  "pr_appendUint16 d c = map_option (apfst (\<lambda>n. n = 2)) (pr_appendData [ucast (drop_bit 8 d), ucast d] c)"

definition pr_appendUint24 :: "u32 \<Rightarrow> diag_connection \<Rightarrow> (bool \<times> diag_connection) option" where
  "pr_appendUint24 d c = map_option (apfst (\<lambda>n. n = 3)) (pr_appendData [ucast (drop_bit 16 d), ucast (drop_bit 8 d), ucast d] c)"

definition pr_appendUint32 :: "u32 \<Rightarrow> diag_connection \<Rightarrow> (bool \<times> diag_connection) option" where
  "pr_appendUint32 d c = map_option (apfst (\<lambda>n. n = 4)) (pr_appendData [ucast (drop_bit 24 d), ucast (drop_bit 16 d), ucast (drop_bit 8 d), ucast d] c)"

definition pr_getMaximumLength :: "positive_response \<Rightarrow> nat" where
  "pr_getMaximumLength p = snd (pr_original p)"

definition pr_getAvailableDataLength :: "positive_response \<Rightarrow> nat" where
  "pr_getAvailableDataLength p = snd (pr_buffer p)"

definition pr_increaseDataLength :: "nat \<Rightarrow> positive_response \<Rightarrow> (nat \<times> positive_response) option" where
  "pr_increaseDataLength n p = do {
     ensure (n \<le> snd (pr_buffer p));
     let p = pr_advance n p;
     Some (pr_getLength p, p) }"

section \<open>NestedDiagRequest\<close>

definition nr_subspan :: "nat \<times> nat \<Rightarrow> nat \<Rightarrow> nat \<Rightarrow> nat \<times> nat" where
  "nr_subspan sp i n = (fst sp + i, n)"

text \<open>The default \<^verbatim>\<open>storeRequest\<close> copies the request to the end of the buffer.\<close>

definition nr_init :: "nat \<Rightarrow> nat \<times> nat \<Rightarrow> u8 list \<Rightarrow> u8 list \<Rightarrow> nested_request \<Rightarrow> (u8 list \<times> nested_request) option" where
  "nr_init sender messageBuffer request buf n =
     (let n = n\<lparr>nr_senderJob := sender, nr_pendingResponseSender := None, nr_messageBuffer := messageBuffer,
                nr_storedRequestLength := length request, nr_responseLength := 0, nr_numIdentifiers := 0,
                nr_numPrefixIdentifiers := 0, nr_isPendingSent := False, nr_responseCode := DIAG_OK\<rparr>
      in if nr_storedRequestLength n > 0
         then do {
           ensure (nr_storedRequestLength n \<le> snd messageBuffer);
           buf \<leftarrow> mem_copy request (length request) buf (fst messageBuffer + (snd messageBuffer - nr_storedRequestLength n));
           Some (buf, n) }
         else Some (buf, n))"

definition nr_prepareNextRequest :: "con_env \<Rightarrow> u8 list \<Rightarrow> nested_request \<Rightarrow> bool \<times> nested_request" where
  "nr_prepareNextRequest E buf n =
     (let n = (if nr_responseCode n = DIAG_OK
               then let (off, len) = nr_messageBuffer n;
                        stored = take (nr_storedRequestLength n) (drop (off + (len - nr_storedRequestLength n)) buf);
                        (sp, n) = ce_prepareNestedRequest E n stored
                    in n\<lparr>nr_nestedRequest := sp\<rparr>
               else n)
      in (nr_responseCode n = DIAG_OK \<and> snd (nr_nestedRequest n) > 0, n))"

definition nr_handleNestedResponseCode :: "u8 \<Rightarrow> nested_request \<Rightarrow> nested_request" where
  "nr_handleNestedResponseCode code n = n\<lparr>nr_responseCode := code\<rparr>"

definition nr_handleOverflow :: "nested_request \<Rightarrow> nested_request" where
  "nr_handleOverflow n = n\<lparr>nr_responseCode := ISO_RESPONSE_TOO_LONG\<rparr>"

text \<open>Returns the span of the response, the buffer and the request.\<close>

definition nr_getResponseBuffer :: "u8 list \<Rightarrow> nested_request \<Rightarrow> ((nat \<times> nat) \<times> u8 list \<times> nested_request) option" where
  "nr_getResponseBuffer buf n = do {
     (buf, n) \<leftarrow>
       (if nr_numIdentifiers n \<ge> nr_prefixLength n
        then let k = nr_numIdentifiers n - nr_prefixLength n;
                 src = take k (drop (fst (nr_nestedRequest n) + nr_prefixLength n) buf)
             in do {
               ensure (nr_prefixLength n + k \<le> snd (nr_nestedRequest n));
               buf \<leftarrow> mem_copy src k buf (fst (nr_messageBuffer n));
               Some (buf, n\<lparr>nr_numPrefixIdentifiers := k\<rparr>) }
        else Some (buf, n));
     ensure (nr_storedRequestLength n + nr_numPrefixIdentifiers n \<le> snd (nr_messageBuffer n));
     Some (nr_subspan (nr_messageBuffer n) (nr_numPrefixIdentifiers n)
             (snd (nr_messageBuffer n) - nr_storedRequestLength n - nr_numPrefixIdentifiers n), buf, n) }"

definition nr_getMaxNestedResponseLength :: "nested_request \<Rightarrow> nat" where
  "nr_getMaxNestedResponseLength n = snd (nr_messageBuffer n) - nr_storedRequestLength n - nr_numIdentifiers n"

definition nr_setNestedResponseLength :: "nat \<Rightarrow> nested_request \<Rightarrow> nested_request option" where
  "nr_setNestedResponseLength responseLength n = do {
     let responseLength = responseLength + nr_numPrefixIdentifiers n;
     ensure (responseLength \<le> snd (nr_messageBuffer n));
     Some (nr_handleNestedResponseCode DIAG_OK
       (n\<lparr>nr_messageBuffer := (fst (nr_messageBuffer n) + responseLength, snd (nr_messageBuffer n) - responseLength),
          nr_responseLength := nr_responseLength n + responseLength\<rparr>)) }"

definition nr_consumeStoredRequest :: "nat \<Rightarrow> nested_request \<Rightarrow> (nat \<times> nat) \<times> nested_request" where
  "nr_consumeStoredRequest consumedLength n =
     (if nr_storedRequestLength n < consumedLength then ((0, 0), n)
      else let n = n\<lparr>nr_storedRequestLength := nr_storedRequestLength n - consumedLength\<rparr>
           in (nr_subspan (nr_messageBuffer n) (snd (nr_messageBuffer n) - (nr_storedRequestLength n + consumedLength)) consumedLength, n))"

section \<open>Sending\<close>

definition con_addIdentifier :: "diag_connection \<Rightarrow> diag_connection option" where
  "con_addIdentifier c = do {
     ensure (\<not> con_isResponseActive c);
     (case con_nestedRequest c of
        Some n \<Rightarrow> Some (c\<lparr>con_nestedRequest := Some (n\<lparr>nr_numIdentifiers := nr_numIdentifiers n + 1\<rparr>)\<rparr>)
      | None \<Rightarrow>
          (case con_requestMessage c of
             Some r \<Rightarrow>
               if length (con_identifiers c) < MAXIMUM_NUMBER_OF_IDENTIFIERS
               then do {
                 ensure (length (con_identifiers c) < length (tm_buffer r));
                 Some (c\<lparr>con_identifiers := con_identifiers c @ [tm_buffer r ! length (con_identifiers c)]\<rparr>) }
               else Some c
           | None \<Rightarrow> Some c)) }"

definition con_getIdentifier :: "nat \<Rightarrow> diag_connection \<Rightarrow> u8" where
  "con_getIdentifier idx c =
     (case con_nestedRequest c of
        Some n \<Rightarrow> (case con_responseMessage c of
            Some m \<Rightarrow> if idx < nr_numIdentifiers n then tm_buffer m ! (fst (nr_nestedRequest n) + idx) else 0
          | None \<Rightarrow> 0)
      | None \<Rightarrow> if idx \<ge> length (con_identifiers c) then 0 else con_identifiers c ! idx)"

definition con_getMaximumResponseLength :: "diag_connection \<Rightarrow> nat option" where
  "con_getMaximumResponseLength c =
     (case con_nestedRequest c of
        Some n \<Rightarrow> Some (nr_getMaxNestedResponseLength n)
      | None \<Rightarrow> map_option (\<lambda>r. getMaxPayloadLength r - length (con_identifiers c)) (con_requestMessage c))"

text \<open>\<open>None\<close> when there is no request message to build the response in.\<close>

definition con_releaseRequestGetResponse :: "diag_connection \<Rightarrow> diag_connection option" where
  "con_releaseRequestGetResponse c =
     (case con_nestedRequest c of
        Some n \<Rightarrow> do {
          m \<leftarrow> con_responseMessage c;
          (sp, buf, n) \<leftarrow> nr_getResponseBuffer (tm_buffer m) n;
          Some ((con_setResponse (m\<lparr>tm_buffer := buf\<rparr>) c)\<lparr>con_isResponseActive := True, con_nestedRequest := Some n,
                 con_positiveResponse := pr_init (fst sp) (snd sp)\<rparr>) }
      | None \<Rightarrow> do {
          m \<leftarrow> (case con_responseMessage c of
                 Some m \<Rightarrow> Some m
               | None \<Rightarrow> do {
                   r \<leftarrow> con_requestMessage c;
                   tm_init (Some (tm_buffer r)) (length (tm_buffer r)) (tm_new []) });
          Some ((con_setResponse m c)\<lparr>con_isResponseActive := True,
                 con_positiveResponse := pr_init (length (con_identifiers c)) (getMaxPayloadLength m - length (con_identifiers c))\<rparr>) })"

definition con_sendPositiveResponseInternal :: "nat \<Rightarrow> nat \<Rightarrow> diag_connection \<Rightarrow> uds_error \<times> diag_connection" where
  "con_sendPositiveResponseInternal len sender c =
     (if \<not> con_isOpen c then (CONNECTION_NOT_OPEN, c)
      else if \<not> con_messageSender c then (UDS_SEND_FAILED, c)
      else if con_sender c \<noteq> None then (CONNECTION_BUSY, c)
      else if con_responseMessage c = None then (NO_TP_MESSAGE, c)
      else (UDS_OK, con_post SendPositiveResponse
              (c\<lparr>con_numPendingMessageProcessedCallbacks := con_numPendingMessageProcessedCallbacks c + 1,
                 con_positiveArgs := (len, Some sender)\<rparr>)))"

definition con_sendPositiveResponse :: "nat \<Rightarrow> diag_connection \<Rightarrow> (uds_error \<times> diag_connection) option" where
  "con_sendPositiveResponse sender c = do {
     c \<leftarrow> (if \<not> con_isResponseActive c then con_releaseRequestGetResponse c else Some c);
     Some (con_sendPositiveResponseInternal (pr_getLength (con_positiveResponse c)) sender c) }"

definition con_sendNegativeResponse :: "u8 \<Rightarrow> nat \<Rightarrow> diag_connection \<Rightarrow> (uds_error \<times> diag_connection) option" where
  "con_sendNegativeResponse responseCode sender c =
     (if \<not> con_isOpen c then Some (CONNECTION_NOT_OPEN, c)
      else if \<not> con_messageSender c then Some (UDS_SEND_FAILED, c)
      else do {
        c \<leftarrow> (if \<not> con_isResponseActive c then con_releaseRequestGetResponse c else Some c);
        Some (if con_responseMessage c = None then (NO_TP_MESSAGE, c)
              else (UDS_OK, con_post SendNegativeResponse
                     (c\<lparr>con_numPendingMessageProcessedCallbacks := con_numPendingMessageProcessedCallbacks c + 1,
                        con_negativeArgs := (responseCode, Some sender)\<rparr>))) })"

section \<open>Termination\<close>

definition con_endNestedRequest :: "diag_connection \<Rightarrow> diag_connection option" where
  "con_endNestedRequest c = do {
     n \<leftarrow> con_nestedRequest c;
     let sender = nr_senderJob n;
     let len = nr_responseLength n;
     let responseCode = nr_responseCode n;
     let c = c\<lparr>con_nestedRequest := None\<rparr>;
     if responseCode = DIAG_OK then Some (snd (con_sendPositiveResponseInternal len sender c))
     else map_option snd (con_sendNegativeResponse responseCode sender c) }"

text \<open>Returns whether there was no nested request.\<close>

definition con_terminateNestedRequest :: "diag_connection \<Rightarrow> (bool \<times> diag_connection) option" where
  "con_terminateNestedRequest c =
     (case con_nestedRequest c of
        None \<Rightarrow> Some (True, c)
      | Some n \<Rightarrow>
          if nr_responseCode n = DIAG_OK then Some (False, con_post TriggerNextNestedRequest c)
          else map_option (Pair False) (con_endNestedRequest c))"

text \<open>
  \<^verbatim>\<open>DiagDispatcher::diagConnectionTerminated\<close>: the request goes back to its listener, the response
  is released and the connection destroyed.
\<close>

definition dd_diagConnectionTerminated :: "diag_connection \<Rightarrow> diag_connection" where
  "dd_diagConnectionTerminated c =
     (let c = (case con_requestMessage c of
                 Some r \<Rightarrow> if con_requestListener c
                   then let r = snd (increaseValidBytes (tm_payloadLength r) (resetValidBytes r))
                        in con_call (RequestProcessed r) (c\<lparr>con_requestMessage := Some r\<rparr>)
                   else c
               | None \<Rightarrow> c);
          c = (if con_responseMessage c \<noteq> None then con_call ReleaseResponseMessage c else c);
          c = con_call ConnectionDestroyed c
      in c\<lparr>con_requestMessage := None, con_responseMessage := None, con_diagDispatcher := False,
           con_messageSender := False, con_requestListener := False\<rparr>)"

definition con_terminate :: "diag_connection \<Rightarrow> diag_connection option" where
  "con_terminate c = do {
     (ended, c) \<leftarrow> con_terminateNestedRequest c;
     if \<not> ended then Some c
     else if \<not> con_isOpen c then Some c
     else if con_numPendingMessageProcessedCallbacks c \<noteq> 0 then Some (c\<lparr>con_connectionTerminationIsPending := True\<rparr>)
     else do {
       let c = c\<lparr>con_isOpen := False, con_responsePendingTimeout := False, con_globalPendingTimeout := False\<rparr>;
       ensure (con_diagDispatcher c);
       Some (dd_diagConnectionTerminated (c\<lparr>con_connectionTerminationIsPending := False, con_sender := None\<rparr>)) } }"

text \<open>\<^verbatim>\<open>responseSent\<close> of a job\<close>

definition con_responseSent :: "con_env \<Rightarrow> nat \<Rightarrow> bool \<Rightarrow> diag_connection \<Rightarrow> diag_connection option" where
  "con_responseSent E job sent c =
     (let c = con_call (ResponseSent job sent) c in if ce_terminates E job then con_terminate c else Some c)"

definition con_sendResponse :: "con_env \<Rightarrow> diag_connection \<Rightarrow> (uds_error \<times> diag_connection) option" where
  "con_sendResponse E c =
     (case con_responseMessage c of
        None \<Rightarrow> Some (NO_TP_MESSAGE, c)
      | Some m \<Rightarrow> do {
          ensure (con_messageSender c);
          let (ok, c) = con_send E ResponseMessage m c;
          if ok then Some (UDS_OK, c)
          else do {
            let c = c\<lparr>con_numPendingMessageProcessedCallbacks := con_numPendingMessageProcessedCallbacks c - 1\<rparr>;
            c \<leftarrow> (case con_sender c of
                   Some job \<Rightarrow> con_responseSent E job False (c\<lparr>con_sender := None\<rparr>)
                 | None \<Rightarrow> Some c);
            c \<leftarrow> (if con_connectionTerminationIsPending c \<and> con_numPendingMessageProcessedCallbacks c = 0
                  then con_terminate c else Some c);
            Some (UDS_SEND_FAILED, c) } })"

section \<open>Response pending\<close>

definition buildResponsePendingTransportMessage :: "u16 \<Rightarrow> u16 \<Rightarrow> u8 \<Rightarrow> transport_message \<Rightarrow> transport_message option" where
  "buildResponsePendingTransportMessage sourceAddress responseSourceAddress serviceId m = do {
     m \<leftarrow> tm_init (Some (replicate PENDING_MESSAGE_PAYLOAD_LENGTH 0)) PENDING_MESSAGE_PAYLOAD_LENGTH m;
     let m = resetValidBytes (m\<lparr>tm_targetAddress := sourceAddress, tm_sourceAddress := responseSourceAddress\<rparr>);
     (_, m) \<leftarrow> tm_append_byte NEGATIVE_RESPONSE_IDENTIFIER m;
     (_, m) \<leftarrow> tm_append_byte serviceId m;
     (_, m) \<leftarrow> tm_append_byte ISO_RESPONSE_PENDING m;
     setPayloadLength PENDING_MESSAGE_PAYLOAD_LENGTH m }"

definition sendResponsePending :: "con_env \<Rightarrow> diag_connection \<Rightarrow> diag_connection" where
  "sendResponsePending E c =
     (let before = (con_responsePendingSent c, con_responsePendingIsBeingSent c);
          c = c\<lparr>con_numPendingMessageProcessedCallbacks := con_numPendingMessageProcessedCallbacks c + 1,
                con_responsePendingSent := True, con_responsePendingIsBeingSent := True\<rparr>;
          (ok, c) = con_send E PendingMessage (con_pendingMessage c) c
      in if ok then c
         else c\<lparr>con_numPendingMessageProcessedCallbacks := con_numPendingMessageProcessedCallbacks c - 1,
                con_responsePendingSent := fst before, con_responsePendingIsBeingSent := snd before\<rparr>)"

text \<open>The three places that send a response pending do the same.\<close>

definition con_trySendPending :: "con_env \<Rightarrow> diag_connection \<Rightarrow> diag_connection option" where
  "con_trySendPending E c =
     (if con_isOpen c \<and> con_messageSender c
      then do {
        m \<leftarrow> buildResponsePendingTransportMessage (con_sourceAddress c) (con_responseSourceAddress c) (con_serviceId c) (con_pendingMessage c);
        Some (sendResponsePending E (c\<lparr>con_pendingMessage := m\<rparr>)) }
      else Some c)"

definition con_restartPendingTimeout :: "diag_connection \<Rightarrow> diag_connection" where
  "con_restartPendingTimeout c = c\<lparr>con_responsePendingTimeout := con_pendingActivated c\<rparr>"

definition con_disableResponseTimeout :: "diag_connection \<Rightarrow> diag_connection" where
  "con_disableResponseTimeout c = c\<lparr>con_responsePendingTimeout := False\<rparr>"

definition con_disableGlobalTimeout :: "diag_connection \<Rightarrow> diag_connection" where
  "con_disableGlobalTimeout c = c\<lparr>con_globalPendingTimeout := False\<rparr>"

section \<open>What runs in the context\<close>

text \<open>The identifiers are appended one by one; a failed \<^verbatim>\<open>append\<close> is ignored.\<close>

fun con_append_all :: "u8 list \<Rightarrow> transport_message \<Rightarrow> transport_message option" where
  "con_append_all [] m = Some m"
| "con_append_all (b # bs) m = do { (_, m) \<leftarrow> tm_append_byte b m; con_append_all bs m }"

text \<open>The response message of a positive response.\<close>

definition con_positiveMessage :: "nat \<Rightarrow> diag_connection \<Rightarrow> transport_message \<Rightarrow> transport_message option" where
  "con_positiveMessage len c m = do {
     let m = m\<lparr>tm_sourceAddress := con_responseSourceAddress c, tm_targetAddress := con_sourceAddress c\<rparr>;
     ensure (tm_buffer m \<noteq> []);
     buf \<leftarrow> (if tm_buffer m ! 0 = NEGATIVE_RESPONSE_IDENTIFIER
             then mem_copy (con_negativeResponseTempBuffer c) NEGATIVE_RESPONSE_MESSAGE_LENGTH (tm_buffer m) 0
             else Some (tm_buffer m));
     m \<leftarrow> con_append_all (con_identifiers c) (resetValidBytes (m\<lparr>tm_buffer := buf\<rparr>));
     m \<leftarrow> setServiceId (con_serviceId c + POSITIVE_RESPONSE_OFFSET) m;
     setPayloadLength (length (con_identifiers c) + len) (snd (increaseValidBytes len m)) }"

definition con_asyncSendPositiveResponse :: "con_env \<Rightarrow> nat \<Rightarrow> nat option \<Rightarrow> diag_connection \<Rightarrow> diag_connection option" where
  "con_asyncSendPositiveResponse E len pSender c =
     (case (pSender, con_nestedRequest c) of
        (Some job, Some n) \<Rightarrow> do {
          let c = c\<lparr>con_numPendingMessageProcessedCallbacks := con_numPendingMessageProcessedCallbacks c - 1\<rparr>;
          n \<leftarrow> nr_setNestedResponseLength len n;
          let n = (if pr_isOverflow (con_positiveResponse c) then nr_handleOverflow n else n);
          con_responseSent E job True (c\<lparr>con_nestedRequest := Some n\<rparr>) }
      | _ \<Rightarrow> do {
          c \<leftarrow> (case con_responseMessage c of
                 None \<Rightarrow> Some c
               | Some m \<Rightarrow> do {
                   m \<leftarrow> con_positiveMessage len c m;
                   Some (con_call (SessionResponseSent DIAG_OK) ((con_setResponse m c)\<lparr>con_sender := pSender\<rparr>)) });
          if \<not> con_suppressPositiveResponse c \<or> con_responsePendingSent c
          then (if \<not> con_responsePendingIsBeingSent c then map_option snd (con_sendResponse E c) else Some c)
          else do {
            let c = c\<lparr>con_numPendingMessageProcessedCallbacks := con_numPendingMessageProcessedCallbacks c - 1\<rparr>;
            (case con_sender c of
               Some job \<Rightarrow> con_responseSent E job True (c\<lparr>con_sender := None\<rparr>)
             | None \<Rightarrow> Some c) } })"

text \<open>The response message of a negative response and the bytes it overwrites.\<close>

definition con_negativeMessage :: "u8 \<Rightarrow> diag_connection \<Rightarrow> transport_message \<Rightarrow> (u8 list \<times> transport_message) option" where
  "con_negativeMessage responseCode c m = do {
     m \<leftarrow> setPayloadLength NEGATIVE_RESPONSE_MESSAGE_LENGTH m;
     let m = m\<lparr>tm_sourceAddress := con_responseSourceAddress c, tm_targetAddress := con_sourceAddress c\<rparr>;
     ensure (NEGATIVE_RESPONSE_MESSAGE_LENGTH \<le> length (tm_buffer m));
     let backup = (if tm_buffer m ! 0 \<noteq> NEGATIVE_RESPONSE_IDENTIFIER
                   then take NEGATIVE_RESPONSE_MESSAGE_LENGTH (tm_buffer m) else con_negativeResponseTempBuffer c);
     m \<leftarrow> con_append_all [NEGATIVE_RESPONSE_IDENTIFIER, con_serviceId c, responseCode] (resetValidBytes m);
     Some (backup, m) }"

definition suppressed_code :: "u8 \<Rightarrow> bool" where
  "suppressed_code responseCode \<longleftrightarrow> responseCode = ISO_SERVICE_NOT_SUPPORTED \<or> responseCode = ISO_SUBFUNCTION_NOT_SUPPORTED
     \<or> responseCode = ISO_REQUEST_OUT_OF_RANGE \<or> responseCode = ISO_SUBFUNCTION_NOT_SUPPORTED_IN_ACTIVE_SESSION
     \<or> responseCode = ISO_SERVICE_NOT_SUPPORTED_IN_ACTIVE_SESSION"

definition con_asyncSendNegativeResponse :: "con_env \<Rightarrow> u8 \<Rightarrow> nat option \<Rightarrow> diag_connection \<Rightarrow> diag_connection option" where
  "con_asyncSendNegativeResponse E responseCode pSender c =
     (case con_nestedRequest c of
        Some n \<Rightarrow> do {
          let c = c\<lparr>con_numPendingMessageProcessedCallbacks := con_numPendingMessageProcessedCallbacks c - 1\<rparr>;
          if responseCode \<noteq> ISO_RESPONSE_PENDING
          then do {
            job \<leftarrow> pSender;
            con_responseSent E job True (c\<lparr>con_nestedRequest := Some (nr_handleNestedResponseCode responseCode n)\<rparr>) }
          else if \<not> nr_isPendingSent n
          then do {
            let c = c\<lparr>con_nestedRequest := Some (n\<lparr>nr_pendingResponseSender := pSender\<rparr>),
                     con_responsePendingIsPending := (con_numPendingMessageProcessedCallbacks c \<noteq> 0)\<rparr>;
            c \<leftarrow> (if \<not> con_responsePendingIsPending c then con_trySendPending E c else Some c);
            Some (con_restartPendingTimeout c) }
          else do { job \<leftarrow> pSender; con_responseSent E job True c } }
      | None \<Rightarrow> do {
          m \<leftarrow> con_responseMessage c;
          (backup, m) \<leftarrow> con_negativeMessage responseCode c m;
          let c = (con_setResponse m c)\<lparr>con_negativeResponseTempBuffer := backup, con_sender := pSender\<rparr>;
          let c = (if responseCode \<noteq> ISO_RESPONSE_PENDING then con_call (SessionResponseSent responseCode) c else c);
          if \<not> (isFunctionalAddress (con_targetAddress c) \<and> suppressed_code responseCode)
          then (if con_responsePendingIsBeingSent c then Some c
                else let c = (if responseCode = ISO_RESPONSE_PENDING then con_restartPendingTimeout c else c)
                     in map_option snd (con_sendResponse E c))
          else do {
            let c = c\<lparr>con_numPendingMessageProcessedCallbacks := con_numPendingMessageProcessedCallbacks c - 1\<rparr>;
            (case con_sender c of
               Some job \<Rightarrow> con_responseSent E job True (c\<lparr>con_sender := None\<rparr>)
             | None \<Rightarrow> Some c) } })"

text \<open>The loop over the requests of a nested request; it may run for ever.\<close>

partial_function (option) con_triggerNextNestedRequest :: "con_env \<Rightarrow> diag_connection \<Rightarrow> diag_connection option" where
  "con_triggerNextNestedRequest E c = do {
     n \<leftarrow> con_nestedRequest c;
     m \<leftarrow> con_responseMessage c;
     let (prepared, n) = (if nr_responseCode n = DIAG_OK then nr_prepareNextRequest E (tm_buffer m) n else (False, n));
     let c = c\<lparr>con_nestedRequest := Some n\<rparr>;
     if prepared
     then do {
       let c = c\<lparr>con_isResponseActive := False, con_nestedRequest := Some (n\<lparr>nr_numIdentifiers := 0, nr_numPrefixIdentifiers := 0\<rparr>)\<rparr>;
       (responseCode, c) \<leftarrow> ce_processNestedRequest E (nr_nestedRequest n) c;
       if responseCode = DIAG_OK then Some c
       else do {
         n \<leftarrow> con_nestedRequest c;
         con_triggerNextNestedRequest E (c\<lparr>con_nestedRequest := Some (nr_handleNestedResponseCode responseCode n)\<rparr>) } }
     else con_endNestedRequest c }"

definition con_startNestedRequest :: "con_env \<Rightarrow> nat \<Rightarrow> nested_request \<Rightarrow> u8 list \<Rightarrow> diag_connection \<Rightarrow> diag_connection option" where
  "con_startNestedRequest E sender n request c = do {
     ensure (con_nestedRequest c = None);
     c \<leftarrow> con_releaseRequestGetResponse c;
     m \<leftarrow> con_responseMessage c;
     ensure (length request < length (tm_buffer m));
     let k = nr_prefixLength n;
     ensure (k \<le> MAXIMUM_NUMBER_OF_IDENTIFIERS);
     let ids = take k (con_identifiers c) @ replicate (k - length (con_identifiers c)) 0;
     (buf, n) \<leftarrow> nr_init sender (k, length (tm_buffer m) - k) request (tm_buffer m) n;
     con_triggerNextNestedRequest E
       ((con_setResponse (m\<lparr>tm_buffer := buf\<rparr>) c)\<lparr>con_identifiers := ids, con_nestedRequest := Some n\<rparr>) }"

definition con_transportMessageProcessed :: "con_message \<Rightarrow> bool \<Rightarrow> diag_connection \<Rightarrow> diag_connection" where
  "con_transportMessageProcessed k noError c = con_post TransportMessageProcessed (c\<lparr>con_processedArgs := (k, noError)\<rparr>)"

text \<open>What follows when a message has been processed and no nested request has taken the notice.\<close>

definition con_processed_rest :: "con_env \<Rightarrow> con_message \<Rightarrow> bool \<Rightarrow> diag_connection \<Rightarrow> diag_connection option" where
  "con_processed_rest E k noError c = do {
     c \<leftarrow> (case con_sender c of
            Some job \<Rightarrow>
              if k \<noteq> PendingMessage then con_responseSent E job noError (c\<lparr>con_sender := None\<rparr>)
              else map_option snd (con_sendResponse E c)
          | None \<Rightarrow> Some c);
     if con_numPendingMessageProcessedCallbacks c = 0
     then (if con_connectionTerminationIsPending c then con_terminate c
           else if con_responsePendingIsPending c
           then con_trySendPending E (c\<lparr>con_responsePendingIsPending := False\<rparr>)
           else Some c)
     else Some c }"

definition con_asyncTransportMessageProcessed :: "con_env \<Rightarrow> con_message \<Rightarrow> bool \<Rightarrow> diag_connection \<Rightarrow> diag_connection option" where
  "con_asyncTransportMessageProcessed E k noError c =
     (let c = c\<lparr>con_numPendingMessageProcessedCallbacks := con_numPendingMessageProcessedCallbacks c - 1\<rparr>;
          c = (if k = PendingMessage then c\<lparr>con_responsePendingIsBeingSent := False\<rparr> else c)
      in (case con_nestedRequest c of
            Some n \<Rightarrow>
              if k = PendingMessage
              then (let c = c\<lparr>con_nestedRequest := Some (n\<lparr>nr_isPendingSent := True, nr_pendingResponseSender := None\<rparr>)\<rparr>
                    in case nr_pendingResponseSender n of
                        Some job \<Rightarrow> con_responseSent E job noError c
                      | None \<Rightarrow> Some c)
              else con_processed_rest E k noError c
          | None \<Rightarrow> con_processed_rest E k noError c))"

definition con_expiredResponsePending :: "con_env \<Rightarrow> diag_connection \<Rightarrow> diag_connection option" where
  "con_expiredResponsePending E c = do {
     let c = c\<lparr>con_responsePendingIsPending := (con_numPendingMessageProcessedCallbacks c \<noteq> 0)\<rparr>;
     c \<leftarrow> (if \<not> con_responsePendingIsPending c then con_trySendPending E c else Some c);
     Some (con_restartPendingTimeout c) }"

definition con_expiredGlobal :: "diag_connection \<Rightarrow> diag_connection option" where
  "con_expiredGlobal c = con_terminate (c\<lparr>con_responsePendingTimeout := False\<rparr>)"

text \<open>A closure of the context runs with the arguments stored last.\<close>

definition con_execute :: "con_env \<Rightarrow> con_closure \<Rightarrow> diag_connection \<Rightarrow> diag_connection option" where
  "con_execute E k c =
     (let c = c\<lparr>con_posted := removeAll k (con_posted c)\<rparr>
      in case k of
          TransportMessageProcessed \<Rightarrow> con_asyncTransportMessageProcessed E (fst (con_processedArgs c)) (snd (con_processedArgs c)) c
        | SendPositiveResponse \<Rightarrow> con_asyncSendPositiveResponse E (fst (con_positiveArgs c)) (snd (con_positiveArgs c)) c
        | SendNegativeResponse \<Rightarrow> con_asyncSendNegativeResponse E (fst (con_negativeArgs c)) (snd (con_negativeArgs c)) c
        | TriggerNextNestedRequest \<Rightarrow> con_triggerNextNestedRequest E c)"

section \<open>Opening\<close>

definition con_open :: "bool \<Rightarrow> diag_connection \<Rightarrow> diag_connection" where
  "con_open activatePending c =
     (if con_isOpen c then c
      else c\<lparr>con_isOpen := True, con_pendingActivated := activatePending, con_suppressPositiveResponse := False,
             con_responsePendingSent := False, con_responsePendingIsBeingSent := False, con_isResponseActive := False,
             con_identifiers := [], con_responsePendingTimeout := activatePending,
             con_globalPendingTimeout := (activatePending \<or> con_globalPendingTimeout c)\<rparr>)"

text \<open>A connection as the pool constructs it.\<close>

definition con_new :: diag_connection where
  "con_new = \<lparr>con_sourceAddress = 0xFF, con_targetAddress = 0xFF, con_responseSourceAddress = 0xFF, con_serviceId = 0xFF,
     con_requestListener = False, con_requestMessage = None, con_responseMessage = None, con_messageSender = False,
     con_diagDispatcher = False, con_isOpen = False, con_responsePendingTimeout = False, con_globalPendingTimeout = False,
     con_sender = None, con_numPendingMessageProcessedCallbacks = 0, con_connectionTerminationIsPending = False,
     con_suppressPositiveResponse = False, con_pendingActivated = True, con_responsePendingIsPending = False,
     con_responsePendingSent = False, con_responsePendingIsBeingSent = False, con_isResponseActive = False,
     con_processedArgs = (PendingMessage, False), con_positiveArgs = (0, None), con_negativeArgs = (0, None),
     con_pendingMessage = tm_new [], con_positiveResponse = pr_init 0 0, con_negativeResponseTempBuffer = [0, 0, 0],
     con_identifiers = [], con_nestedRequest = None, con_posted = [], con_flight = [], con_trace = []\<rparr>"

text \<open>\<^verbatim>\<open>requestIncomingConnection\<close> of the dispatcher, and the pointer it sets in \<^verbatim>\<open>dispatchIncomingRequest\<close>.\<close>

definition dd_openConnection :: "u16 \<Rightarrow> bool \<Rightarrow> bool \<Rightarrow> transport_message \<Rightarrow> diag_connection option" where
  "dd_openConnection diagAddress activateOutgoingPending listener m = do {
     ensure (tm_buffer m \<noteq> []);
     let c = con_open activateOutgoingPending
       (con_new\<lparr>con_messageSender := True, con_sourceAddress := tm_sourceAddress m, con_targetAddress := tm_targetAddress m,
               con_responseSourceAddress := (if isFunctionalAddress (tm_targetAddress m) then diagAddress else tm_targetAddress m),
               con_serviceId := tm_buffer m ! 0\<rparr>);
     Some (c\<lparr>con_requestMessage := Some m, con_requestListener := listener, con_diagDispatcher := True\<rparr>) }"

end
