(* ===== verification/UdsConnectionCorrect.thy ===== *)
theory UdsConnectionCorrect imports UdsConnection begin

text \<open>
  A connection among its job, its context, the transport layer and the dispatcher, which act in
  any order: what is outstanding at any time, and that a response comes to its end.
\<close>

section \<open>What is outstanding\<close>

text \<open>
  A response that waits in the context, and the message on its way: in the transport layer, or
  processed with the notice waiting in the context.
\<close>

definition closure_ok :: "con_closure option \<Rightarrow> bool" where
  "closure_ok cl \<longleftrightarrow> cl = None \<or> cl = Some SendPositiveResponse \<or> cl = Some SendNegativeResponse"

fun flying :: "(con_message \<times> bool) option \<Rightarrow> con_message list" where
  "flying (Some (k, False)) = [k]"
| "flying _ = []"

fun noticed :: "(con_message \<times> bool) option \<Rightarrow> bool" where
  "noticed (Some (k, True)) \<longleftrightarrow> True"
| "noticed _ \<longleftrightarrow> False"

definition on_way :: "con_message \<Rightarrow> (con_message \<times> bool) option \<Rightarrow> bool" where
  "on_way k msg \<longleftrightarrow> map_option fst msg = Some k"

definition shape :: "con_closure option \<Rightarrow> (con_message \<times> bool) option \<Rightarrow> diag_connection \<Rightarrow> bool" where
  "shape cl msg c \<longleftrightarrow> con_nestedRequest c = None \<and> closure_ok cl \<and> distinct (con_posted c)
     \<and> set (con_posted c) = set_option cl \<union> (if noticed msg then {TransportMessageProcessed} else {})
     \<and> con_flight c = flying msg \<and> (noticed msg \<longrightarrow> on_way (fst (con_processedArgs c)) msg)"

definition count_ok :: "con_closure option \<Rightarrow> (con_message \<times> bool) option \<Rightarrow> nat option \<Rightarrow> bool \<Rightarrow> u8 \<Rightarrow> bool" where
  "count_ok cl msg sender beingSent n \<longleftrightarrow> (cl \<noteq> None \<longrightarrow> sender = None) \<and> (beingSent \<longleftrightarrow> on_way PendingMessage msg)
     \<and> (on_way ResponseMessage msg \<longleftrightarrow> sender \<noteq> None \<and> \<not> on_way PendingMessage msg)
     \<and> n = of_bool (cl \<noteq> None) + of_bool (on_way PendingMessage msg) + of_bool (sender \<noteq> None)"

fun is_notice :: "con_call \<Rightarrow> bool" where
  "is_notice (ResponseSent job sent) \<longleftrightarrow> True"
| "is_notice _ \<longleftrightarrow> False"

definition notices :: "diag_connection \<Rightarrow> nat" where
  "notices c = length (filter is_notice (con_trace c))"

fun is_request_end :: "con_call \<Rightarrow> bool" where
  "is_request_end (RequestProcessed m) \<longleftrightarrow> True"
| "is_request_end _ \<longleftrightarrow> False"

definition request_ends :: "diag_connection \<Rightarrow> nat" where
  "request_ends c = length (filter is_request_end (con_trace c))"

definition destructions :: "diag_connection \<Rightarrow> nat" where
  "destructions c = length (filter ((=) ConnectionDestroyed) (con_trace c))"

text \<open>The messages of an open connection: the response, if there is one, lies in the request's buffer.\<close>

definition blen :: "diag_connection \<Rightarrow> nat" where
  "blen c = (case con_requestMessage c of None \<Rightarrow> 0 | Some q \<Rightarrow> length (tm_buffer q))"

definition messages_ok :: "diag_connection \<Rightarrow> bool" where
  "messages_ok c \<longleftrightarrow> (\<exists>q. con_requestMessage c = Some q \<and> tm_wf q
       \<and> (\<forall>m. con_responseMessage c = Some m \<longrightarrow> tm_wf m \<and> tm_buffer m = tm_buffer q))
     \<and> 3 \<le> blen c \<and> length (con_identifiers c) \<le> blen c \<and> length (con_negativeResponseTempBuffer c) = 3"

definition response_ok :: "diag_connection \<Rightarrow> bool" where
  "response_ok c \<longleftrightarrow> con_isResponseActive c \<longrightarrow> con_responseMessage c \<noteq> None
     \<and> pr_original (con_positiveResponse c) = (length (con_identifiers c), blen c - length (con_identifiers c))
     \<and> fst (pr_buffer (con_positiveResponse c)) + snd (pr_buffer (con_positiveResponse c)) = blen c
     \<and> snd (pr_buffer (con_positiveResponse c)) \<le> blen c - length (con_identifiers c)"

text \<open>The arguments of a response that waits in the context.\<close>

definition args_ok :: "con_closure option \<Rightarrow> diag_connection \<Rightarrow> bool" where
  "args_ok cl c \<longleftrightarrow>
     (cl = Some SendPositiveResponse \<longrightarrow> (\<exists>len job. con_positiveArgs c = (len, Some job) \<and> length (con_identifiers c) + len \<le> blen c))
     \<and> (cl = Some SendNegativeResponse \<longrightarrow> (\<exists>code job. con_negativeArgs c = (code, Some job) \<and> code \<noteq> ISO_RESPONSE_PENDING))"

definition life_ok :: "con_closure option \<Rightarrow> bool \<Rightarrow> diag_connection \<Rightarrow> bool" where
  "life_ok cl r c \<longleftrightarrow> notices c + of_bool (cl \<noteq> None) + of_bool (con_sender c \<noteq> None) = of_bool r
     \<and> request_ends c = of_bool (\<not> con_isOpen c) \<and> destructions c = of_bool (\<not> con_isOpen c)
     \<and> (con_isOpen c \<longrightarrow> messages_ok c \<and> response_ok c \<and> args_ok cl c \<and> con_messageSender c \<and> con_diagDispatcher c \<and> con_requestListener c)
     \<and> ((cl \<noteq> None \<or> con_sender c \<noteq> None) \<longrightarrow> con_isOpen c \<and> con_responseMessage c \<noteq> None)
     \<and> (\<not> con_isOpen c \<longrightarrow> con_numPendingMessageProcessedCallbacks c = 0 \<and> \<not> con_globalPendingTimeout c
           \<and> \<not> con_connectionTerminationIsPending c \<and> con_requestMessage c = None \<and> con_responseMessage c = None)"

definition con_core :: "con_closure option \<Rightarrow> (con_message \<times> bool) option \<Rightarrow> bool \<Rightarrow> diag_connection \<Rightarrow> bool" where
  "con_core cl msg r c \<longleftrightarrow> shape cl msg c
     \<and> count_ok cl msg (con_sender c) (con_responsePendingIsBeingSent c) (con_numPendingMessageProcessedCallbacks c)
     \<and> life_ok cl r c"

definition con_inv :: "con_closure option \<Rightarrow> (con_message \<times> bool) option \<Rightarrow> bool \<Rightarrow> diag_connection \<Rightarrow> bool" where
  "con_inv cl msg r c \<longleftrightarrow> con_core cl msg r c
     \<and> (r \<and> con_isOpen c \<longrightarrow> cl \<noteq> None \<or> con_sender c \<noteq> None \<or> con_connectionTerminationIsPending c)
     \<and> (con_connectionTerminationIsPending c \<longrightarrow> con_numPendingMessageProcessedCallbacks c \<noteq> 0)"

lemmas counts_defs = notices_def request_ends_def destructions_def con_call_def

lemma no_activity:
  assumes "count_ok cl msg sender beingSent 0"
  shows "cl = None \<and> msg = None \<and> sender = None \<and> \<not> beingSent"
proof -
  have "cl = None" using assms by (auto simp: count_ok_def split: if_splits)
  moreover have "\<not> on_way PendingMessage msg" "sender = None" using assms by (auto simp: count_ok_def of_bool_def split: if_splits)
  moreover have "msg = None"
  proof (cases msg)
    case (Some p)
    then show ?thesis using assms \<open>\<not> on_way PendingMessage msg\<close> \<open>sender = None\<close>
      by (cases "fst p") (auto simp: count_ok_def on_way_def)
  qed
  ultimately show ?thesis using assms by (auto simp: count_ok_def)
qed

lemma terminate_inv:
  assumes "con_core cl msg r c"
  shows "\<exists>c'. con_terminate c = Some c' \<and> con_inv cl msg r c'"
proof (cases "con_isOpen c \<and> con_numPendingMessageProcessedCallbacks c = 0")
  case False
  have n: "con_nestedRequest c = None" using assms by (simp add: con_core_def shape_def)
  show ?thesis
  proof (cases "con_isOpen c")
    case o: False
    then have "con_terminate c = Some c" using n by (simp add: con_terminate_def con_terminateNestedRequest_def)
    then show ?thesis using assms o by (auto simp: con_inv_def con_core_def life_ok_def)
  next
    case o: True
    then have "con_terminate c = Some (c\<lparr>con_connectionTerminationIsPending := True\<rparr>)"
      using n False by (simp add: con_terminate_def con_terminateNestedRequest_def)
    then show ?thesis using assms o False
      by (auto simp: con_inv_def con_core_def shape_def life_ok_def messages_ok_def response_ok_def args_ok_def blen_def counts_defs)
  qed
next
  case True
  have n: "con_nestedRequest c = None" using assms by (simp add: con_core_def shape_def)
  obtain q where q: "con_requestMessage c = Some q" using assms True by (auto simp: con_core_def life_ok_def messages_ok_def)
  have z: "cl = None" "msg = None" "con_sender c = None" "\<not> con_responsePendingIsBeingSent c"
    using no_activity assms True by (auto simp: con_core_def)
  have l: "con_requestListener c" "con_diagDispatcher c" using assms True by (auto simp: con_core_def life_ok_def)
  let ?c = "c\<lparr>con_isOpen := False, con_responsePendingTimeout := False, con_globalPendingTimeout := False,
     con_connectionTerminationIsPending := False, con_sender := None\<rparr>"
  have t: "con_terminate c = Some (dd_diagConnectionTerminated ?c)"
    using n True l by (simp add: con_terminate_def con_terminateNestedRequest_def)
  have "con_core cl msg r (dd_diagConnectionTerminated ?c)"
    using assms q z l True unfolding con_core_def
    by (auto simp: shape_def count_ok_def life_ok_def dd_diagConnectionTerminated_def counts_defs Let_def)
  moreover have "\<not> con_isOpen (dd_diagConnectionTerminated ?c)" "\<not> con_connectionTerminationIsPending (dd_diagConnectionTerminated ?c)"
    using q by (auto simp: dd_diagConnectionTerminated_def con_call_def Let_def)
  ultimately show ?thesis using t by (simp add: con_inv_def)
qed

section \<open>The messages\<close>

lemma append_byte_fits:
  assumes "tm_wf m" "tm_validBytes m < length (tm_buffer m)"
  shows "\<exists>e m'. tm_append_byte b m = Some (e, m') \<and> tm_wf m' \<and> tm_buffer m' = (tm_buffer m)[tm_validBytes m := b]
    \<and> tm_validBytes m' = tm_validBytes m + 1 \<and> tm_payloadLength m' = tm_payloadLength m
    \<and> tm_sourceAddress m' = tm_sourceAddress m \<and> tm_targetAddress m' = tm_targetAddress m"
proof -
  have "tm_validBytes m + 1 \<le> 65535" "length (tm_buffer m) \<le> 65535" using assms by (simp_all add: tm_wf_def)
  then show ?thesis using assms
    by (simp add: tm_append_byte_def put_byte_def increaseValidBytes_def getMaxPayloadLength_def tm_wf_def to_u16_small)
qed

lemma append_all_fits:
  assumes "tm_wf m" "tm_validBytes m + length bs \<le> length (tm_buffer m)"
  shows "\<exists>m'. con_append_all bs m = Some m' \<and> tm_wf m' \<and> tm_validBytes m' = tm_validBytes m + length bs
    \<and> tm_buffer m' = take (tm_validBytes m) (tm_buffer m) @ bs @ drop (tm_validBytes m + length bs) (tm_buffer m)
    \<and> tm_payloadLength m' = tm_payloadLength m
    \<and> tm_sourceAddress m' = tm_sourceAddress m \<and> tm_targetAddress m' = tm_targetAddress m"
  using assms
proof (induction bs arbitrary: m)
  case (Cons b bs)
  then have "tm_validBytes m < length (tm_buffer m)" by simp
  from append_byte_fits [OF Cons.prems(1) this, of b] obtain e m1 where
    m1: "tm_append_byte b m = Some (e, m1)" "tm_wf m1" "tm_buffer m1 = (tm_buffer m)[tm_validBytes m := b]"
      "tm_validBytes m1 = tm_validBytes m + 1" "tm_payloadLength m1 = tm_payloadLength m"
      "tm_sourceAddress m1 = tm_sourceAddress m" "tm_targetAddress m1 = tm_targetAddress m" by blast
  have "tm_validBytes m1 + length bs \<le> length (tm_buffer m1)" using Cons.prems m1(3,4) by simp
  from Cons.IH [OF m1(2) this] obtain m' where
    "con_append_all bs m1 = Some m'" "tm_wf m'" "tm_validBytes m' = tm_validBytes m1 + length bs"
    "tm_buffer m' = take (tm_validBytes m1) (tm_buffer m1) @ bs @ drop (tm_validBytes m1 + length bs) (tm_buffer m1)"
    "tm_payloadLength m' = tm_payloadLength m1"
    "tm_sourceAddress m' = tm_sourceAddress m1" "tm_targetAddress m' = tm_targetAddress m1" by blast
  moreover have "take (tm_validBytes m + 1) ((tm_buffer m)[tm_validBytes m := b]) = take (tm_validBytes m) (tm_buffer m) @ [b]"
    using Cons.prems by (simp add: upd_conv_take_nth_drop)
  ultimately show ?case using m1 by simp
qed simp

text \<open>
  The bytes of a positive response: the service identifier of the request raised by 64, the other
  identifiers and the data, which are restored when a negative response had overwritten them.
\<close>

definition restored :: "u8 list \<Rightarrow> u8 list \<Rightarrow> u8 list" where
  "restored temp buf = (if buf ! 0 = NEGATIVE_RESPONSE_IDENTIFIER then temp @ drop 3 buf else buf)"

lemma positive_message:
  assumes m: "tm_wf m" "3 \<le> length (tm_buffer m)" and t: "length (con_negativeResponseTempBuffer c) = 3"
    and l: "length (con_identifiers c) + len \<le> length (tm_buffer m)"
  shows "\<exists>m'. con_positiveMessage len c m = Some m' \<and> tm_wf m' \<and> length (tm_buffer m') = length (tm_buffer m)
    \<and> tm_sourceAddress m' = con_responseSourceAddress c \<and> tm_targetAddress m' = con_sourceAddress c
    \<and> tm_payloadLength m' = length (con_identifiers c) + len
    \<and> (con_identifiers c \<noteq> [] \<longrightarrow> tm_validBytes m' = length (con_identifiers c) + len
        \<and> tm_data m' = (con_serviceId c + POSITIVE_RESPONSE_OFFSET) # tl (con_identifiers c)
          @ take len (drop (length (con_identifiers c)) (restored (con_negativeResponseTempBuffer c) (tm_buffer m))))"
proof -
  let ?ids = "con_identifiers c" and ?b = "restored (con_negativeResponseTempBuffer c) (tm_buffer m)"
  let ?m = "m\<lparr>tm_sourceAddress := con_responseSourceAddress c, tm_targetAddress := con_sourceAddress c, tm_buffer := ?b, tm_validBytes := 0\<rparr>"
  have lb: "length ?b = length (tm_buffer m)" using m(2) t by (simp add: restored_def)
  have mc: "(if tm_buffer m ! 0 = NEGATIVE_RESPONSE_IDENTIFIER
       then mem_copy (con_negativeResponseTempBuffer c) NEGATIVE_RESPONSE_MESSAGE_LENGTH (tm_buffer m) 0 else Some (tm_buffer m)) = Some ?b"
    using m(2) t by (simp add: restored_def NEGATIVE_RESPONSE_MESSAGE_LENGTH_def)
  have "tm_wf ?m" "tm_validBytes ?m + length ?ids \<le> length (tm_buffer ?m)" using m l lb by (simp_all add: tm_wf_def)
  from append_all_fits [OF this] obtain m1 where
    m1: "con_append_all ?ids ?m = Some m1" "tm_wf m1" "tm_validBytes m1 = length ?ids" "tm_buffer m1 = ?ids @ drop (length ?ids) ?b"
      "tm_sourceAddress m1 = con_responseSourceAddress c" "tm_targetAddress m1 = con_sourceAddress c" by auto
  let ?s = "con_serviceId c + POSITIVE_RESPONSE_OFFSET"
  have l1: "length (tm_buffer m1) = length (tm_buffer m)" using m1(4) lb l by simp
  have b65: "length (tm_buffer m) \<le> 65535" using m(1) by (simp add: tm_wf_def)
  have n: "tm_buffer m1 \<noteq> []" using l1 m(2) by auto
  obtain m2 where m2: "setServiceId ?s m1 = Some m2" "tm_wf m2" "tm_buffer m2 = (tm_buffer m1)[0 := ?s]"
    "tm_validBytes m2 = max 1 (length ?ids)" "tm_sourceAddress m2 = con_responseSourceAddress c" "tm_targetAddress m2 = con_sourceAddress c"
  proof (cases "?ids = []")
    case True
    then show ?thesis using that m1 n l1 m(2) b65
      by (simp add: setServiceId_def increaseValidBytes_def getMaxPayloadLength_def tm_wf_def to_u16_small)
  next
    case False
    then have "1 \<le> length ?ids" by (simp add: Suc_leI)
    then show ?thesis using that m1 n False by (simp add: setServiceId_def tm_wf_def max_def)
  qed
  let ?i = "increaseValidBytes len m2"
  have i: "tm_wf (snd ?i)" "tm_buffer (snd ?i) = tm_buffer m2" "tm_sourceAddress (snd ?i) = tm_sourceAddress m2"
    "tm_targetAddress (snd ?i) = tm_targetAddress m2" "?ids \<noteq> [] \<Longrightarrow> tm_validBytes (snd ?i) = length ?ids + len"
    using m2(2,3,4) l1 l b65 by (auto simp: increaseValidBytes_def getMaxPayloadLength_def tm_wf_def to_u16_small max_def Suc_le_eq)
  let ?r = "(snd ?i)\<lparr>tm_payloadLength := length ?ids + len\<rparr>"
  have sp: "setPayloadLength (length ?ids + len) (snd ?i) = Some ?r"
    using i(2) m2(3) l1 l b65 by (simp add: setPayloadLength_def getMaxPayloadLength_def to_u16_small)
  have e: "con_positiveMessage len c m = Some ?r"
    using m(2) mc m1(1) m2(1) sp unfolding con_positiveMessage_def Let_def
    by (auto simp: resetValidBytes_def bind_eq_Some_conv)
  have "tm_data ?r = ?s # tl ?ids @ take len (drop (length ?ids) ?b)" if "?ids \<noteq> []"
    using that i(2,5) m2(3) m1(4) by (cases ?ids) (simp_all add: tm_data_def)
  then show ?thesis using e i m2 l1 l by (intro exI [of _ ?r]) (simp add: tm_wf_def)
qed

lemma negative_message:
  assumes m: "tm_wf m" "3 \<le> length (tm_buffer m)" and t: "length (con_negativeResponseTempBuffer c) = 3"
  shows "\<exists>backup m'. con_negativeMessage code c m = Some (backup, m') \<and> tm_wf m' \<and> length (tm_buffer m') = length (tm_buffer m)
    \<and> length backup = 3 \<and> tm_sourceAddress m' = con_responseSourceAddress c \<and> tm_targetAddress m' = con_sourceAddress c
    \<and> tm_payloadLength m' = 3 \<and> tm_data m' = [NEGATIVE_RESPONSE_IDENTIFIER, con_serviceId c, code]"
proof -
  let ?m = "m\<lparr>tm_payloadLength := 3, tm_sourceAddress := con_responseSourceAddress c, tm_targetAddress := con_sourceAddress c, tm_validBytes := 0\<rparr>"
  let ?bs = "[NEGATIVE_RESPONSE_IDENTIFIER, con_serviceId c, code]"
  have "length (tm_buffer m) \<le> 65535" using m(1) by (simp add: tm_wf_def)
  then have sp: "setPayloadLength 3 m = Some (m\<lparr>tm_payloadLength := 3\<rparr>)"
    using m(2) by (simp add: setPayloadLength_def getMaxPayloadLength_def to_u16_small)
  have "tm_wf ?m" "tm_validBytes ?m + length ?bs \<le> length (tm_buffer ?m)" using m by (simp_all add: tm_wf_def)
  from append_all_fits [OF this] obtain m1 where
    m1: "con_append_all ?bs ?m = Some m1" "tm_wf m1" "tm_validBytes m1 = 3" "tm_buffer m1 = ?bs @ drop 3 (tm_buffer m)"
      "tm_payloadLength m1 = 3" "tm_sourceAddress m1 = con_responseSourceAddress c" "tm_targetAddress m1 = con_sourceAddress c"
    by (auto simp: numeral_3_eq_3 simp del: con_append_all.simps)
  then show ?thesis using sp m t
    by (auto simp: con_negativeMessage_def NEGATIVE_RESPONSE_MESSAGE_LENGTH_def resetValidBytes_def tm_data_def simp del: con_append_all.simps)
qed

section \<open>A response on its way out\<close>

text \<open>
  The closure of a response has run, and the response is to be sent, kept back or dropped: it is
  still counted, but has neither been sent nor its job told.
\<close>

definition con_ready :: "(con_message \<times> bool) option \<Rightarrow> diag_connection \<Rightarrow> bool" where
  "con_ready msg c \<longleftrightarrow> shape None msg c \<and> \<not> on_way ResponseMessage msg
     \<and> (con_responsePendingIsBeingSent c \<longleftrightarrow> on_way PendingMessage msg)
     \<and> con_numPendingMessageProcessedCallbacks c = of_bool (on_way PendingMessage msg) + 1
     \<and> notices c = 0 \<and> request_ends c = 0 \<and> destructions c = 0 \<and> con_isOpen c \<and> messages_ok c \<and> response_ok c
     \<and> con_messageSender c \<and> con_diagDispatcher c \<and> con_requestListener c \<and> con_responseMessage c \<noteq> None"

lemma shape_simps:
  "shape cl msg (c\<lparr>con_numPendingMessageProcessedCallbacks := n\<rparr>) = shape cl msg c"
  "shape cl msg (c\<lparr>con_sender := s\<rparr>) = shape cl msg c"
  "shape cl msg (con_call x c) = shape cl msg c"
  "shape cl msg (c\<lparr>con_responsePendingIsPending := b\<rparr>) = shape cl msg c"
  "shape cl msg (c\<lparr>con_responsePendingIsBeingSent := b\<rparr>) = shape cl msg c"
  "shape cl msg (c\<lparr>con_responsePendingTimeout := b\<rparr>) = shape cl msg c"
  "shape cl msg (con_setResponse m c) = shape cl msg c"
  by (simp_all add: shape_def con_call_def con_setResponse_def)

lemma ready_finish:
  assumes c: "con_ready msg c" and E: "ce_terminates E job"
  shows "\<exists>c'. con_responseSent E job ok (c\<lparr>con_numPendingMessageProcessedCallbacks := con_numPendingMessageProcessedCallbacks c - 1, con_sender := None\<rparr>)
      = Some c' \<and> con_inv None msg True c'"
proof -
  let ?c = "con_call (ResponseSent job ok) (c\<lparr>con_numPendingMessageProcessedCallbacks := con_numPendingMessageProcessedCallbacks c - 1, con_sender := None\<rparr>)"
  have "con_core None msg True ?c"
    using c by (auto simp: con_ready_def con_core_def shape_def count_ok_def life_ok_def messages_ok_def response_ok_def args_ok_def blen_def counts_defs)
  from terminate_inv [OF this] show ?thesis using E by (simp add: con_responseSent_def)
qed

lemma ready_send:
  assumes c: "con_ready None c" "con_sender c = Some job" and E: "ce_terminates E job"
  shows "\<exists>x c' msg'. con_sendResponse E c = Some (x, c') \<and> con_inv None msg' True c'"
proof -
  obtain m where m: "con_responseMessage c = Some m" "con_messageSender c" using c(1) by (auto simp: con_ready_def)
  let ?c = "con_call (SendMessage ResponseMessage m (ce_send E (con_trace c))) c"
  show ?thesis
  proof (cases "ce_send E (con_trace c)")
    case True
    then have "con_sendResponse E c = Some (UDS_OK, ?c\<lparr>con_flight := con_flight ?c @ [ResponseMessage]\<rparr>)"
      using m by (simp add: con_sendResponse_def con_send_def Let_def)
    moreover have "con_inv None (Some (ResponseMessage, False)) True (?c\<lparr>con_flight := con_flight ?c @ [ResponseMessage]\<rparr>)"
      using c by (auto simp: con_inv_def con_ready_def con_core_def shape_def count_ok_def life_ok_def messages_ok_def response_ok_def
        args_ok_def blen_def counts_defs on_way_def)
    ultimately show ?thesis by blast
  next
    case False
    have r: "con_ready None ?c"
      using c(1) by (auto simp: con_ready_def shape_def messages_ok_def response_ok_def blen_def counts_defs)
    from ready_finish [OF r E, of False] obtain c' where
      c': "con_responseSent E job False (?c\<lparr>con_numPendingMessageProcessedCallbacks := con_numPendingMessageProcessedCallbacks ?c - 1, con_sender := None\<rparr>)
        = Some c'" "con_inv None None True c'" by blast
    have n: "\<not> (con_connectionTerminationIsPending c' \<and> con_numPendingMessageProcessedCallbacks c' = 0)"
      using c'(2) by (simp add: con_inv_def)
    have "con_sender ?c = Some job" using c(2) by (simp add: con_call_def)
    then have "con_sendResponse E c = Some (UDS_SEND_FAILED, c')"
      using m False c'(1) n by (auto simp: con_sendResponse_def con_send_def Let_def con_call_def)
    then show ?thesis using c'(2) by blast
  qed
qed

lemma ready_wait:
  assumes "con_ready msg c" "on_way PendingMessage msg" "con_sender c = Some job" "args_ok None c"
  shows "con_inv None msg True c"
  using assms by (auto simp: con_inv_def con_ready_def con_core_def count_ok_def life_ok_def on_way_def)

lemma args_none [simp]: "args_ok None c"
  by (simp add: args_ok_def)

section \<open>Response pending\<close>

lemma pending_message: "\<exists>m'. buildResponsePendingTransportMessage sa ra sid m = Some m'"
  by (simp add: buildResponsePendingTransportMessage_def tm_init_def PENDING_MESSAGE_PAYLOAD_LENGTH_def setPayloadLength_def
    getMaxPayloadLength_def to_u16_small tm_append_byte_def put_byte_def resetValidBytes_def increaseValidBytes_def)

lemma idle_open:
  assumes "con_inv cl msg r c" "con_numPendingMessageProcessedCallbacks c = 0"
  shows "cl = None \<and> msg = None \<and> con_sender c = None \<and> \<not> con_responsePendingIsBeingSent c
    \<and> \<not> con_connectionTerminationIsPending c \<and> (con_isOpen c \<longrightarrow> \<not> r)"
proof -
  have "cl = None \<and> msg = None \<and> con_sender c = None \<and> \<not> con_responsePendingIsBeingSent c"
    using assms no_activity unfolding con_inv_def con_core_def by metis
  then show ?thesis using assms by (auto simp: con_inv_def)
qed

lemma try_pending:
  assumes c: "con_inv cl msg r c" "con_numPendingMessageProcessedCallbacks c = 0"
  shows "\<exists>c' msg'. con_trySendPending E (c\<lparr>con_responsePendingIsPending := b\<rparr>) = Some c' \<and> con_inv cl msg' r c'"
proof (cases "con_isOpen c")
  case False
  then have "con_trySendPending E (c\<lparr>con_responsePendingIsPending := b\<rparr>) = Some (c\<lparr>con_responsePendingIsPending := b\<rparr>)"
    by (simp add: con_trySendPending_def)
  moreover have "con_inv cl msg r (c\<lparr>con_responsePendingIsPending := b\<rparr>)"
    using c(1) by (auto simp: con_inv_def con_core_def shape_simps life_ok_def counts_defs messages_ok_def response_ok_def args_ok_def blen_def)
  ultimately show ?thesis by blast
next
  case True
  note i = idle_open [OF c]
  have s: "con_messageSender c" using c True by (auto simp: con_inv_def con_core_def life_ok_def)
  obtain m where m: "buildResponsePendingTransportMessage (con_sourceAddress c) (con_responseSourceAddress c) (con_serviceId c) (con_pendingMessage c) = Some m"
    using pending_message by blast
  let ?c = "c\<lparr>con_responsePendingIsPending := b, con_pendingMessage := m\<rparr>"
  have t: "con_trySendPending E (c\<lparr>con_responsePendingIsPending := b\<rparr>) = Some (sendResponsePending E ?c)"
    using True s m by (simp add: con_trySendPending_def)
  have "con_inv cl (if ce_send E (con_trace c) then Some (PendingMessage, False) else None) r (sendResponsePending E ?c)"
    using c i True
    by (auto simp: sendResponsePending_def con_send_def Let_def con_inv_def con_core_def shape_def count_ok_def life_ok_def
      messages_ok_def response_ok_def args_ok_def blen_def counts_defs on_way_def)
  then show ?thesis using t by blast
qed

section \<open>What runs in the context\<close>

lemma posted_cases:
  assumes "shape cl msg c" "k \<in> set (con_posted c)"
  shows "k = TransportMessageProcessed \<and> (\<exists>x. msg = Some (x, True) \<and> fst (con_processedArgs c) = x)
    \<or> k = SendPositiveResponse \<and> cl = Some SendPositiveResponse \<or> k = SendNegativeResponse \<and> cl = Some SendNegativeResponse"
proof -
  have "k \<in> set_option cl \<or> k = TransportMessageProcessed \<and> noticed msg"
    using assms by (auto simp: shape_def split: if_splits)
  then show ?thesis
  proof
    assume "k \<in> set_option cl"
    then show ?thesis using assms(1) by (auto simp: shape_def closure_ok_def)
  next
    assume k: "k = TransportMessageProcessed \<and> noticed msg"
    then obtain x where "msg = Some (x, True)" by (cases msg rule: noticed.cases) auto
    then show ?thesis using assms(1) k by (auto simp: shape_def on_way_def)
  qed
qed

text \<open>A response closure is taken from the context.\<close>

lemma closure_taken:
  assumes c: "con_inv (Some k) msg r c" and k: "k \<noteq> TransportMessageProcessed"
    and m: "con_responseMessage c = Some m" "tm_wf m'" "length (tm_buffer m') = length (tm_buffer m)" "length temp = 3"
  shows "con_ready msg ((con_setResponse m' (c\<lparr>con_posted := removeAll k (con_posted c)\<rparr>))
      \<lparr>con_negativeResponseTempBuffer := temp, con_sender := s\<rparr>) \<and> r"
proof -
  obtain q where q: "con_requestMessage c = Some q" "tm_wf q" "tm_buffer m = tm_buffer q"
    using c m(1) by (auto simp: con_inv_def con_core_def life_ok_def messages_ok_def)
  have w: "tm_wf (q\<lparr>tm_buffer := tm_buffer m'\<rparr>)" using q m(3) by (simp add: tm_wf_def)
  let ?c = "(con_setResponse m' (c\<lparr>con_posted := removeAll k (con_posted c)\<rparr>))\<lparr>con_negativeResponseTempBuffer := temp, con_sender := s\<rparr>"
  have i: "shape (Some k) msg c" "count_ok (Some k) msg (con_sender c) (con_responsePendingIsBeingSent c) (con_numPendingMessageProcessedCallbacks c)"
    "life_ok (Some k) r c" using c by (simp_all add: con_inv_def con_core_def)
  have "set (removeAll k (con_posted c)) = (if noticed msg then {TransportMessageProcessed} else {})"
    using i(1) k by (auto simp: shape_def)
  then have "shape None msg ?c"
    using i(1) by (simp add: shape_def con_setResponse_def distinct_removeAll closure_ok_def)
  moreover have "con_sender c = None" "\<not> on_way ResponseMessage msg" "con_responsePendingIsBeingSent ?c = on_way PendingMessage msg"
    "con_numPendingMessageProcessedCallbacks ?c = of_bool (on_way PendingMessage msg) + 1"
    using i(2) by (auto simp: count_ok_def con_setResponse_def)
  moreover have "blen ?c = blen c" using q m(3) by (simp add: blen_def con_setResponse_def)
  moreover have "messages_ok c" "response_ok c" "con_isOpen c" "con_messageSender c" "con_diagDispatcher c" "con_requestListener c" "r"
    "notices c = 0" "request_ends c = 0" "destructions c = 0"
    using i(3) by (auto simp: life_ok_def of_bool_def split: if_splits)
  moreover have "messages_ok ?c"
    using \<open>messages_ok c\<close> \<open>blen ?c = blen c\<close> q w m by (simp add: messages_ok_def con_setResponse_def)
  moreover have "response_ok ?c"
    using \<open>response_ok c\<close> \<open>blen ?c = blen c\<close> by (simp add: response_ok_def con_setResponse_def)
  ultimately show ?thesis
    by (simp add: con_ready_def counts_defs con_setResponse_def)
qed

lemma ready_call:
  "con_ready msg c \<Longrightarrow> con_ready msg (con_call (SessionResponseSent code) c)"
proof -
  have "messages_ok (con_call x c) = messages_ok c" "response_ok (con_call x c) = response_ok c" for x
    by (simp_all add: messages_ok_def response_ok_def blen_def con_call_def)
  then show "con_ready msg c \<Longrightarrow> con_ready msg (con_call (SessionResponseSent code) c)"
    by (simp add: con_ready_def shape_simps) (simp add: counts_defs)
qed

lemma ready_idle:
  assumes "con_ready msg c" "\<not> con_responsePendingIsBeingSent c"
  shows "msg = None"
proof (cases msg)
  case (Some p)
  then show ?thesis using assms by (cases "fst p") (auto simp: con_ready_def on_way_def)
qed

text \<open>A response that is ready is sent, waits for the response pending message, or is dropped.\<close>

lemma ready_ends:
  assumes c: "con_ready msg c" "con_sender c = Some job" and E: "\<And>j. ce_terminates E j"
  shows "\<exists>c' msg'. (if b then (if \<not> con_responsePendingIsBeingSent c then map_option snd (con_sendResponse E c) else Some c)
      else con_responseSent E job True (c\<lparr>con_numPendingMessageProcessedCallbacks := con_numPendingMessageProcessedCallbacks c - 1, con_sender := None\<rparr>))
      = Some c' \<and> con_inv None msg' True c'"
proof (cases b)
  case b: True
  show ?thesis
  proof (cases "con_responsePendingIsBeingSent c")
    case True
    then have "on_way PendingMessage msg" using c(1) by (simp add: con_ready_def)
    from ready_wait [OF c(1) this c(2)] show ?thesis using b True by auto
  next
    case False
    with ready_idle [OF c(1) this] ready_send [of c job E] c E b show ?thesis by fastforce
  qed
next
  case False
  then show ?thesis using ready_finish [OF c(1) E, of job True] by auto
qed

lemma waiting_response:
  assumes "con_inv (Some k) msg r c"
  obtains m where "con_responseMessage c = Some m" "tm_wf m" "length (tm_buffer m) = blen c" "3 \<le> blen c"
    "length (con_negativeResponseTempBuffer c) = 3" "args_ok (Some k) c" "con_nestedRequest c = None" "con_sender c = None"
proof -
  have i: "shape (Some k) msg c" "count_ok (Some k) msg (con_sender c) (con_responsePendingIsBeingSent c) (con_numPendingMessageProcessedCallbacks c)"
    "life_ok (Some k) r c" using assms by (simp_all add: con_inv_def con_core_def)
  then obtain m q where "con_responseMessage c = Some m" "con_requestMessage c = Some q" "messages_ok c" "args_ok (Some k) c"
    by (auto simp: life_ok_def messages_ok_def)
  then show ?thesis using that i by (auto simp: messages_ok_def blen_def shape_def count_ok_def)
qed

lemma execute_positive:
  assumes c: "con_inv (Some SendPositiveResponse) msg r c" and E: "\<And>j. ce_terminates E j"
  shows "\<exists>c' msg'. con_execute E SendPositiveResponse c = Some c' \<and> con_inv None msg' r c'"
proof -
  from waiting_response [OF c] obtain m where
    m: "con_responseMessage c = Some m" "tm_wf m" "length (tm_buffer m) = blen c" "3 \<le> blen c"
    "length (con_negativeResponseTempBuffer c) = 3" "args_ok (Some SendPositiveResponse) c" "con_nestedRequest c = None" "con_sender c = None" .
  obtain len job where a: "con_positiveArgs c = (len, Some job)" "length (con_identifiers c) + len \<le> blen c"
    using m(6) by (auto simp: args_ok_def)
  let ?c = "c\<lparr>con_posted := removeAll SendPositiveResponse (con_posted c)\<rparr>"
  obtain m' where m': "con_positiveMessage len ?c m = Some m'" "tm_wf m'" "length (tm_buffer m') = length (tm_buffer m)"
    using positive_message [of m ?c len] m a by auto
  let ?d = "con_call (SessionResponseSent DIAG_OK) ((con_setResponse m' ?c)\<lparr>con_sender := Some job\<rparr>)"
  have "(con_setResponse m' ?c)\<lparr>con_negativeResponseTempBuffer := con_negativeResponseTempBuffer c, con_sender := Some job\<rparr>
      = (con_setResponse m' ?c)\<lparr>con_sender := Some job\<rparr>" by (simp add: con_setResponse_def)
  then have r: "con_ready msg ?d" "r"
    using closure_taken [OF c _ m(1) m'(2,3) m(5), of "Some job"] ready_call by auto
  have s: "con_sender ?d = Some job" "con_nestedRequest ?d = None" by (simp_all add: con_call_def con_setResponse_def m(7))
  have "con_execute E SendPositiveResponse c
      = (if \<not> con_suppressPositiveResponse ?d \<or> con_responsePendingSent ?d
          then (if \<not> con_responsePendingIsBeingSent ?d then map_option snd (con_sendResponse E ?d) else Some ?d)
          else con_responseSent E job True (?d\<lparr>con_numPendingMessageProcessedCallbacks := con_numPendingMessageProcessedCallbacks ?d - 1, con_sender := None\<rparr>))"
    using m(1,7) a(1) m'(1) s(1)
    by (simp add: con_execute_def con_asyncSendPositiveResponse_def Let_def del: fun_upd_apply)
  then show ?thesis using ready_ends [OF r(1) s(1) E, of "\<not> con_suppressPositiveResponse ?d \<or> con_responsePendingSent ?d"] r(2) by simp
qed

lemma execute_negative:
  assumes c: "con_inv (Some SendNegativeResponse) msg r c" and E: "\<And>j. ce_terminates E j"
  shows "\<exists>c' msg'. con_execute E SendNegativeResponse c = Some c' \<and> con_inv None msg' r c'"
proof -
  from waiting_response [OF c] obtain m where
    m: "con_responseMessage c = Some m" "tm_wf m" "length (tm_buffer m) = blen c" "3 \<le> blen c"
    "length (con_negativeResponseTempBuffer c) = 3" "args_ok (Some SendNegativeResponse) c" "con_nestedRequest c = None" "con_sender c = None" .
  obtain code job where a: "con_negativeArgs c = (code, Some job)" "code \<noteq> ISO_RESPONSE_PENDING"
    using m(6) by (auto simp: args_ok_def)
  let ?c = "c\<lparr>con_posted := removeAll SendNegativeResponse (con_posted c)\<rparr>"
  obtain backup m' where m': "con_negativeMessage code ?c m = Some (backup, m')" "tm_wf m'" "length (tm_buffer m') = length (tm_buffer m)" "length backup = 3"
    using negative_message [of m ?c code] m a by auto
  let ?d = "con_call (SessionResponseSent code) ((con_setResponse m' ?c)\<lparr>con_negativeResponseTempBuffer := backup, con_sender := Some job\<rparr>)"
  have r: "con_ready msg ?d" "r"
    using closure_taken [OF c _ m(1) m'(2,3,4), of "Some job"] ready_call by auto
  have s: "con_sender ?d = Some job" "con_nestedRequest ?d = None" by (simp_all add: con_call_def con_setResponse_def m(7))
  let ?b = "\<not> (isFunctionalAddress (con_targetAddress ?d) \<and> suppressed_code code)"
  have "con_execute E SendNegativeResponse c
      = (if ?b then (if \<not> con_responsePendingIsBeingSent ?d then map_option snd (con_sendResponse E ?d) else Some ?d)
          else con_responseSent E job True (?d\<lparr>con_numPendingMessageProcessedCallbacks := con_numPendingMessageProcessedCallbacks ?d - 1, con_sender := None\<rparr>))"
    using m(1,7) a m'(1) s(1)
    by (simp add: con_execute_def con_asyncSendNegativeResponse_def Let_def)
  then show ?thesis using ready_ends [OF r(1) s(1) E, of ?b] r(2) by simp
qed

lemma rest_inv:
  assumes "con_inv cl msg r c"
  shows "\<exists>c' msg'. (if con_numPendingMessageProcessedCallbacks c = 0
     then (if con_connectionTerminationIsPending c then con_terminate c
           else if con_responsePendingIsPending c then con_trySendPending E (c\<lparr>con_responsePendingIsPending := False\<rparr>)
           else Some c)
     else Some c) = Some c' \<and> con_inv cl msg' r c'"
proof -
  have "\<not> (con_numPendingMessageProcessedCallbacks c = 0 \<and> con_connectionTerminationIsPending c)"
    using assms by (auto simp: con_inv_def)
  then show ?thesis using assms try_pending [OF assms, of E False] by auto
qed

text \<open>The message on its way has been processed, and its notice is taken from the context.\<close>

lemma notice_taken:
  assumes "con_inv cl (Some (k, True)) r c"
  shows "shape cl None (c\<lparr>con_posted := removeAll TransportMessageProcessed (con_posted c)\<rparr>)"
proof -
  have s: "shape cl (Some (k, True)) c" using assms by (simp add: con_inv_def con_core_def)
  then have "set (removeAll TransportMessageProcessed (con_posted c)) = set_option cl"
    by (auto simp: shape_def closure_ok_def)
  then show ?thesis using s by (simp add: shape_def distinct_removeAll)
qed

lemma notice_ready:
  assumes c: "con_inv cl (Some (k, True)) r c" "con_sender c = Some job"
  defines "d \<equiv> c\<lparr>con_posted := removeAll TransportMessageProcessed (con_posted c)\<rparr>"
  shows "cl = None \<and> r \<and> con_ready None (if k = PendingMessage
    then d\<lparr>con_numPendingMessageProcessedCallbacks := con_numPendingMessageProcessedCallbacks c - 1, con_responsePendingIsBeingSent := False\<rparr> else d)"
proof -
  have i: "count_ok cl (Some (k, True)) (con_sender c) (con_responsePendingIsBeingSent c) (con_numPendingMessageProcessedCallbacks c)"
    "life_ok cl r c" using c(1) by (simp_all add: con_inv_def con_core_def)
  have cl: "cl = None" using i(1) c(2) by (auto simp: count_ok_def)
  have s: "shape None None d" using notice_taken [OF c(1)] cl by (simp add: d_def)
  have l: "notices c = 0" "request_ends c = 0" "destructions c = 0" "r" "con_isOpen c" "messages_ok c" "response_ok c"
    "con_messageSender c" "con_diagDispatcher c" "con_requestListener c" "con_responseMessage c \<noteq> None"
    using i(2) c(2) by (auto simp: life_ok_def of_bool_def split: if_splits)
  have m: "messages_ok d" "response_ok d" using l(6,7) by (simp_all add: d_def messages_ok_def response_ok_def blen_def)
  show ?thesis
  proof (cases k)
    case PendingMessage
    let ?e = "d\<lparr>con_numPendingMessageProcessedCallbacks := con_numPendingMessageProcessedCallbacks c - 1, con_responsePendingIsBeingSent := False\<rparr>"
    have "messages_ok ?e" "response_ok ?e" using m by (simp_all add: messages_ok_def response_ok_def blen_def)
    then show ?thesis using PendingMessage i(1) cl s l c(2)
      by (simp add: con_ready_def shape_simps count_ok_def on_way_def) (simp add: d_def counts_defs)
  next
    case ResponseMessage
    then show ?thesis using i(1) cl s l m c(2)
      by (simp add: con_ready_def count_ok_def on_way_def) (simp add: d_def counts_defs)
  qed
qed

lemma notice_core:
  assumes c: "con_inv cl (Some (PendingMessage, True)) r c" "con_sender c = None"
  defines "d \<equiv> c\<lparr>con_posted := removeAll TransportMessageProcessed (con_posted c),
    con_numPendingMessageProcessedCallbacks := con_numPendingMessageProcessedCallbacks c - 1, con_responsePendingIsBeingSent := False\<rparr>"
  shows "con_core cl None r d"
    and "con_numPendingMessageProcessedCallbacks d = 0 \<and> con_connectionTerminationIsPending d \<or> con_inv cl None r d"
proof -
  have i: "count_ok cl (Some (PendingMessage, True)) (con_sender c) (con_responsePendingIsBeingSent c) (con_numPendingMessageProcessedCallbacks c)"
    "life_ok cl r c" using c(1) by (simp_all add: con_inv_def con_core_def)
  have n: "count_ok cl None (con_sender d) (con_responsePendingIsBeingSent d) (con_numPendingMessageProcessedCallbacks d)"
    using i(1) c(2) by (simp add: count_ok_def on_way_def d_def)
  have "con_numPendingMessageProcessedCallbacks c \<noteq> 0" using no_activity i(1) by fastforce
  then have o: "con_isOpen c" using i(2) by (auto simp: life_ok_def)
  have l: "life_ok cl r d"
    using i(2) o by (simp add: life_ok_def d_def messages_ok_def response_ok_def args_ok_def blen_def counts_defs)
  have s: "shape cl None d" using notice_taken [OF c(1)] by (simp add: d_def shape_simps)
  show core: "con_core cl None r d" using n l s by (simp add: con_core_def)
  show "con_numPendingMessageProcessedCallbacks d = 0 \<and> con_connectionTerminationIsPending d \<or> con_inv cl None r d"
    using c core by (auto simp: con_inv_def d_def)
qed

lemma execute_processed:
  assumes c: "con_inv cl (Some (k, True)) r c" and k: "fst (con_processedArgs c) = k" and E: "\<And>j. ce_terminates E j"
  shows "\<exists>c' msg'. con_execute E TransportMessageProcessed c = Some c' \<and> con_inv cl msg' r c'"
proof -
  let ?ok = "snd (con_processedArgs c)"
  let ?d = "c\<lparr>con_posted := removeAll TransportMessageProcessed (con_posted c)\<rparr>"
  let ?e = "?d\<lparr>con_numPendingMessageProcessedCallbacks := con_numPendingMessageProcessedCallbacks c - 1\<rparr>"
  let ?f = "if k = PendingMessage then ?e\<lparr>con_responsePendingIsBeingSent := False\<rparr> else ?e"
  have n: "con_nestedRequest ?f = None" using c by (simp add: con_inv_def con_core_def shape_def)
  have x: "con_execute E TransportMessageProcessed c = con_processed_rest E k ?ok ?f"
    using n k by (cases k) (simp_all add: con_execute_def con_asyncTransportMessageProcessed_def Let_def)
  show ?thesis
  proof (cases "con_sender c")
    case None
    have kp: "k = PendingMessage" using c None by (cases k) (auto simp: con_inv_def con_core_def count_ok_def on_way_def)
    note nc = notice_core [OF c [unfolded kp] None]
    let ?g = "?e\<lparr>con_responsePendingIsBeingSent := False\<rparr>"
    have g: "con_processed_rest E k ?ok ?f = (if con_numPendingMessageProcessedCallbacks ?g = 0
     then (if con_connectionTerminationIsPending ?g then con_terminate ?g
           else if con_responsePendingIsPending ?g then con_trySendPending E (?g\<lparr>con_responsePendingIsPending := False\<rparr>)
           else Some ?g)
     else Some ?g)" using kp None by (simp add: con_processed_rest_def)
    show ?thesis
    proof (cases "con_numPendingMessageProcessedCallbacks ?g = 0 \<and> con_connectionTerminationIsPending ?g")
      case True
      then show ?thesis unfolding x g using terminate_inv [OF nc(1)] by auto
    next
      case False
      then have "con_inv cl None r ?g" using nc(2) by blast
      from rest_inv [OF this, of E] show ?thesis unfolding x g .
    qed
  next
    case (Some job)
    note nr = notice_ready [OF c Some]
    obtain c1 msg1 where c1: "(if k \<noteq> PendingMessage then con_responseSent E job ?ok (?f\<lparr>con_sender := None\<rparr>)
        else map_option snd (con_sendResponse E ?f)) = Some c1" "con_inv None msg1 True c1"
    proof (cases "k = PendingMessage")
      case True
      then have "con_ready None ?f" "con_sender ?f = Some job" using nr Some by simp_all
      from ready_send [OF this E] show ?thesis using that True by fastforce
    next
      case False
      then have "con_ready None ?d" using nr by simp
      from ready_finish [OF this E, of job ?ok] show ?thesis using that False by auto
    qed
    have "con_sender ?f = Some job" using Some by simp
    then have "con_processed_rest E k ?ok ?f = (if con_numPendingMessageProcessedCallbacks c1 = 0
     then (if con_connectionTerminationIsPending c1 then con_terminate c1
           else if con_responsePendingIsPending c1 then con_trySendPending E (c1\<lparr>con_responsePendingIsPending := False\<rparr>)
           else Some c1)
     else Some c1)" using c1(1) unfolding con_processed_rest_def by simp
    then show ?thesis unfolding x using rest_inv [OF c1(2), of E] nr by simp
  qed
qed

section \<open>Timers\<close>

lemma inv_timeouts:
  "con_inv cl msg r (c\<lparr>con_responsePendingTimeout := b\<rparr>) = con_inv cl msg r c"
  "con_inv cl msg r (c\<lparr>con_responsePendingIsPending := b\<rparr>) = con_inv cl msg r c"
  "con_inv cl msg r c \<Longrightarrow> con_inv cl msg r (c\<lparr>con_globalPendingTimeout := False\<rparr>)"
  by (auto simp: con_inv_def con_core_def shape_def life_ok_def counts_defs messages_ok_def response_ok_def args_ok_def blen_def)

lemma expired_pending:
  assumes "con_inv cl msg r c"
  shows "\<exists>c' msg'. con_expiredResponsePending E c = Some c' \<and> con_inv cl msg' r c'"
proof (cases "con_numPendingMessageProcessedCallbacks c = 0")
  case True
  from try_pending [OF assms True, of E False] obtain c1 msg1 where
    "con_trySendPending E (c\<lparr>con_responsePendingIsPending := False\<rparr>) = Some c1" "con_inv cl msg1 r c1" by blast
  then show ?thesis using True
    by (auto simp: con_expiredResponsePending_def Let_def con_restartPendingTimeout_def inv_timeouts)
next
  case False
  then show ?thesis using assms
    by (auto simp: con_expiredResponsePending_def Let_def con_restartPendingTimeout_def inv_timeouts)
qed

lemma expired_global:
  assumes "con_inv cl msg r c"
  shows "\<exists>c'. con_expiredGlobal c = Some c' \<and> con_inv cl msg r c'"
proof -
  have "con_inv cl msg r (c\<lparr>con_responsePendingTimeout := False\<rparr>)" using assms by (simp add: inv_timeouts)
  then have "con_core cl msg r (c\<lparr>con_responsePendingTimeout := False\<rparr>)" by (simp add: con_inv_def)
  from terminate_inv [OF this] show ?thesis by (simp add: con_expiredGlobal_def)
qed

section \<open>What a job does\<close>

lemma unanswered:
  assumes "con_inv cl msg False c" "con_isOpen c"
  shows "cl = None" "con_sender c = None" "messages_ok c" "response_ok c" "con_nestedRequest c = None" "con_messageSender c"
  using assms by (auto simp: con_inv_def con_core_def life_ok_def shape_def)

text \<open>Changes of an open, unanswered connection that only concern its messages.\<close>

lemma unanswered_change:
  assumes c: "con_inv None msg False c" "con_isOpen c"
    and d: "messages_ok d" "response_ok d"
    and e: "con_nestedRequest d = con_nestedRequest c" "con_posted d = con_posted c" "con_flight d = con_flight c"
      "con_processedArgs d = con_processedArgs c" "con_sender d = con_sender c"
      "con_responsePendingIsBeingSent d = con_responsePendingIsBeingSent c"
      "con_numPendingMessageProcessedCallbacks d = con_numPendingMessageProcessedCallbacks c"
      "con_trace d = con_trace c" "con_isOpen d = con_isOpen c" "con_messageSender d = con_messageSender c"
      "con_diagDispatcher d = con_diagDispatcher c" "con_requestListener d = con_requestListener c"
      "con_connectionTerminationIsPending d = con_connectionTerminationIsPending c"
  shows "con_inv None msg False d"
  using c d e unfolding con_inv_def con_core_def
  by (auto simp: shape_def life_ok_def counts_defs)

lemma add_identifier:
  assumes c: "con_inv None msg False c" "con_isOpen c" "\<not> con_isResponseActive c" "length (con_identifiers c) < blen c"
  shows "\<exists>c'. con_addIdentifier c = Some c' \<and> con_inv None msg False c'"
proof -
  note u = unanswered [OF c(1,2)]
  obtain q where q: "con_requestMessage c = Some q" using u(3) by (auto simp: messages_ok_def)
  show ?thesis
  proof (cases "length (con_identifiers c) < MAXIMUM_NUMBER_OF_IDENTIFIERS")
    case True
    let ?d = "c\<lparr>con_identifiers := con_identifiers c @ [tm_buffer q ! length (con_identifiers c)]\<rparr>"
    have "messages_ok ?d" "response_ok ?d" using u(3) c(3,4) by (auto simp: messages_ok_def response_ok_def blen_def)
    from unanswered_change [OF c(1,2) this] have "con_inv None msg False ?d" by simp
    moreover have "con_addIdentifier c = Some ?d" using c(3,4) u(5) q True by (simp add: con_addIdentifier_def blen_def)
    ultimately show ?thesis by blast
  next
    case False
    then show ?thesis using c u(5) q by (simp add: con_addIdentifier_def)
  qed
qed

lemma get_response:
  assumes c: "con_inv None msg False c" "con_isOpen c"
  shows "\<exists>c'. con_releaseRequestGetResponse c = Some c' \<and> con_inv None msg False c' \<and> con_isOpen c' \<and> con_isResponseActive c'
    \<and> con_responseMessage c' \<noteq> None \<and> con_positiveArgs c' = con_positiveArgs c \<and> blen c' = blen c"
proof -
  note u = unanswered [OF c]
  obtain q where q: "con_requestMessage c = Some q" "tm_wf q" using u(3) by (auto simp: messages_ok_def)
  define m where "m = (case con_responseMessage c of Some m \<Rightarrow> m
     | None \<Rightarrow> (tm_new [])\<lparr>tm_buffer := tm_buffer q, tm_validBytes := 0, tm_payloadLength := 0\<rparr>)"
  have i: "tm_init (Some (tm_buffer q)) (length (tm_buffer q)) (tm_new []) = Some ((tm_new [])\<lparr>tm_buffer := tm_buffer q, tm_validBytes := 0, tm_payloadLength := 0\<rparr>)"
    by (simp add: tm_init_def tm_new_def setPayloadLength_def Let_def)
  have m: "tm_wf m" "tm_buffer m = tm_buffer q"
  proof -
    have "tm_wf m \<and> tm_buffer m = tm_buffer q"
    proof (cases "con_responseMessage c")
      case None
      then show ?thesis using q(2) by (simp add: m_def tm_wf_def)
    next
      case (Some m1)
      then show ?thesis using u(3) q(1) by (simp add: m_def messages_ok_def)
    qed
    then show "tm_wf m" "tm_buffer m = tm_buffer q" by simp_all
  qed
  have g: "(case con_responseMessage c of Some m \<Rightarrow> Some m
     | None \<Rightarrow> do { r \<leftarrow> con_requestMessage c; tm_init (Some (tm_buffer r)) (length (tm_buffer r)) (tm_new []) }) = Some m"
    using i q by (simp add: m_def split: option.split)
  let ?d = "(con_setResponse m c)\<lparr>con_isResponseActive := True,
     con_positiveResponse := pr_init (length (con_identifiers c)) (getMaxPayloadLength m - length (con_identifiers c))\<rparr>"
  have d: "con_releaseRequestGetResponse c = Some ?d" using g u(5) by (simp add: con_releaseRequestGetResponse_def)
  have b: "blen ?d = blen c" "getMaxPayloadLength m = blen c" using q m by (simp_all add: blen_def con_setResponse_def)
  have "messages_ok ?d" using u(3) b q m by (simp add: messages_ok_def con_setResponse_def) 
  moreover have "response_ok ?d" using u(3) b by (simp add: response_ok_def con_setResponse_def pr_init_def messages_ok_def)
  ultimately have "con_inv None msg False ?d" by (rule unanswered_change [OF c]) (simp_all add: con_setResponse_def)
  then show ?thesis using d c(2) b by (simp add: con_setResponse_def)
qed

lemma append_response:
  assumes c: "con_inv None msg False c" "con_isOpen c" "con_isResponseActive c"
  shows "\<exists>n c'. pr_appendData bs c = Some (n, c') \<and> con_inv None msg False c'"
proof -
  note u = unanswered [OF c(1,2)]
  let ?p = "con_positiveResponse c"
  show ?thesis
  proof (cases "snd (pr_buffer ?p) < length bs")
    case True
    let ?d = "c\<lparr>con_positiveResponse := ?p\<lparr>pr_isOverflow := True\<rparr>\<rparr>"
    have "messages_ok ?d" "response_ok ?d" using u(3,4) by (simp_all add: messages_ok_def response_ok_def blen_def)
    from unanswered_change [OF c(1,2) this] have "con_inv None msg False ?d" by simp
    then show ?thesis using True by (simp add: pr_appendData_def Let_def)
  next
    case False
    obtain q m where q: "con_requestMessage c = Some q" "tm_wf q" "con_responseMessage c = Some m" "tm_wf m" "tm_buffer m = tm_buffer q"
      using u(3,4) c(3) by (auto simp: messages_ok_def response_ok_def)
    have p: "fst (pr_buffer ?p) + snd (pr_buffer ?p) = blen c" "snd (pr_buffer ?p) \<le> blen c - length (con_identifiers c)"
      using u(4) c(3) by (simp_all add: response_ok_def)
    let ?b = "take (fst (pr_buffer ?p)) (tm_buffer m) @ bs @ drop (fst (pr_buffer ?p) + length bs) (tm_buffer m)"
    have f: "fst (pr_buffer ?p) + length bs \<le> length (tm_buffer m)" using False p q by (simp add: blen_def)
    then have mc: "mem_copy bs (length bs) (tm_buffer m) (fst (pr_buffer ?p)) = Some ?b" by simp
    have lb: "length ?b = length (tm_buffer q)" using f q(5) by simp
    let ?d = "(con_setResponse (m\<lparr>tm_buffer := ?b\<rparr>) c)\<lparr>con_positiveResponse := pr_advance (length bs) ?p\<rparr>"
    have "blen ?d = blen c" using q(1) lb by (simp add: blen_def con_setResponse_def)
    then have "messages_ok ?d" "response_ok ?d"
      using u(3,4) q lb False p c(3) by (simp_all add: messages_ok_def response_ok_def con_setResponse_def tm_wf_def pr_advance_def)
    then have "con_inv None msg False ?d" by (rule unanswered_change [OF c(1,2)]) (simp_all add: con_setResponse_def)
    moreover have "pr_appendData bs c = Some (length bs, ?d)" using False q(3) mc by (simp add: pr_appendData_def Let_def)
    ultimately show ?thesis by blast
  qed
qed

end
