(* ===== verification/UdsConnectionRuns.thy ===== *)
theory UdsConnectionRuns imports UdsConnectionCorrect begin

text \<open>
  The runs of a connection: what its job, its context, the transport layer, its timers and the
  dispatcher do in any order, and that the invariant holds in all of them.
\<close>

text \<open>A response is handed to the context.\<close>

lemma response_posted:
  assumes c: "con_inv None msg False c" "con_isOpen c" and m: "con_responseMessage c \<noteq> None"
    and k: "k = SendPositiveResponse \<or> k = SendNegativeResponse"
    and a: "args_ok (Some k) (c\<lparr>con_positiveArgs := pa, con_negativeArgs := na\<rparr>)"
  shows "con_inv (Some k) msg True (con_post k (c\<lparr>con_numPendingMessageProcessedCallbacks := con_numPendingMessageProcessedCallbacks c + 1,
    con_positiveArgs := pa, con_negativeArgs := na\<rparr>))"
proof -
  note u = unanswered [OF c]
  let ?d = "c\<lparr>con_numPendingMessageProcessedCallbacks := con_numPendingMessageProcessedCallbacks c + 1,
    con_positiveArgs := pa, con_negativeArgs := na\<rparr>"
  have s: "shape None msg c" "count_ok None msg None (con_responsePendingIsBeingSent c) (con_numPendingMessageProcessedCallbacks c)"
    "life_ok None False c" using c(1) u(2) by (simp_all add: con_inv_def con_core_def)
  have n: "k \<notin> set (con_posted ?d)" using s(1) k by (auto simp: shape_def)
  have p: "con_post k ?d = ?d\<lparr>con_posted := con_posted c @ [k]\<rparr>" using n by (simp add: con_post_def)
  have "shape (Some k) msg (con_post k ?d)" unfolding p using s(1) k n by (auto simp: shape_def closure_ok_def)
  moreover have "count_ok (Some k) msg None (con_responsePendingIsBeingSent c) (con_numPendingMessageProcessedCallbacks c + 1)"
    using s(2) by (auto simp: count_ok_def)
  moreover have "life_ok (Some k) True (con_post k ?d)"
  proof -
    have "messages_ok (con_post k ?d)" using u(3) unfolding p by (simp add: messages_ok_def blen_def)
    moreover have "response_ok (con_post k ?d)" using u(4) unfolding p by (simp add: response_ok_def blen_def)
    moreover have "args_ok (Some k) (con_post k ?d)" using a unfolding p by (simp add: args_ok_def blen_def)
    moreover have "notices (con_post k ?d) = notices c" "request_ends (con_post k ?d) = request_ends c"
      "destructions (con_post k ?d) = destructions c" unfolding p by (simp_all add: counts_defs)
    moreover have "notices c = 0" "request_ends c = 0" "destructions c = 0" "con_diagDispatcher c" "con_requestListener c"
      using s(3) c(2) u(2) by (simp_all add: life_ok_def)
    ultimately show ?thesis using c(2) m u(2,6) unfolding life_ok_def by (simp add: p)
  qed
  ultimately have "con_core (Some k) msg True (con_post k ?d)" unfolding con_core_def p using u(2) by simp
  moreover have "con_numPendingMessageProcessedCallbacks c + 1 \<noteq> 0" using s(2) by (auto simp: count_ok_def of_bool_def)
  ultimately show ?thesis unfolding con_inv_def p by simp
qed

lemma respond_positive_length:
  assumes c: "con_inv None msg False c" "con_isOpen c" "con_responseMessage c \<noteq> None" and l: "length (con_identifiers c) + len \<le> blen c"
  shows "\<exists>c'. con_sendPositiveResponseInternal len job c = (UDS_OK, c') \<and> con_inv (Some SendPositiveResponse) msg True c'"
proof -
  note u = unanswered [OF c(1,2)]
  have "args_ok (Some SendPositiveResponse) (c\<lparr>con_positiveArgs := (len, Some job), con_negativeArgs := con_negativeArgs c\<rparr>)"
    using l by (simp add: args_ok_def blen_def)
  from response_posted [OF c(1,2,3) _ this] show ?thesis
    using c u by (simp add: con_sendPositiveResponseInternal_def)
qed

lemma respond_positive:
  assumes c: "con_inv None msg False c" "con_isOpen c"
  shows "\<exists>c'. con_sendPositiveResponse job c = Some (UDS_OK, c') \<and> con_inv (Some SendPositiveResponse) msg True c'"
proof -
  obtain c1 where c1: "(if \<not> con_isResponseActive c then con_releaseRequestGetResponse c else Some c) = Some c1"
    "con_inv None msg False c1" "con_isOpen c1" "con_isResponseActive c1"
    using get_response [OF c] c by (cases "con_isResponseActive c") auto
  note u = unanswered [OF c1(2,3)]
  have "length (con_identifiers c1) \<le> blen c1" using u(3) by (simp add: messages_ok_def)
  moreover have "con_responseMessage c1 \<noteq> None" "snd (pr_original (con_positiveResponse c1)) = blen c1 - length (con_identifiers c1)"
    using u(4) c1(4) by (simp_all add: response_ok_def)
  ultimately have "con_responseMessage c1 \<noteq> None" "length (con_identifiers c1) + pr_getLength (con_positiveResponse c1) \<le> blen c1"
    by (simp_all add: pr_getLength_def)
  from respond_positive_length [OF c1(2,3) this, of job] show ?thesis
    using c1(1) by (auto simp: con_sendPositiveResponse_def)
qed

lemma respond_negative:
  assumes c: "con_inv None msg False c" "con_isOpen c" and code: "code \<noteq> ISO_RESPONSE_PENDING"
  shows "\<exists>c'. con_sendNegativeResponse code job c = Some (UDS_OK, c') \<and> con_inv (Some SendNegativeResponse) msg True c'"
proof -
  obtain c1 where c1: "(if \<not> con_isResponseActive c then con_releaseRequestGetResponse c else Some c) = Some c1"
    "con_inv None msg False c1" "con_isOpen c1" "con_isResponseActive c1"
    using get_response [OF c] c by (cases "con_isResponseActive c") auto
  note u = unanswered [OF c1(2,3)]
  have r: "con_responseMessage c1 \<noteq> None" using u(4) c1(4) by (simp add: response_ok_def)
  have "args_ok (Some SendNegativeResponse) (c1\<lparr>con_positiveArgs := con_positiveArgs c1, con_negativeArgs := (code, Some job)\<rparr>)"
    using code by (simp add: args_ok_def)
  from response_posted [OF c1(2,3) r _ this] show ?thesis
    using c c1(1) r unanswered(6) [OF c] by (simp add: con_sendNegativeResponse_def)
qed

section \<open>Runs\<close>

text \<open>
  What can happen to a connection. A job prepares its response and responds once, which the
  first component of the state records. It may do so at any time, also when the connection
  has been closed meanwhile, and while it is open within the bounds of the request and the response
  buffer. The response pending that a job asks for itself and nested requests are left out.
\<close>

datatype con_label =
    JobAddIdentifier
  | JobGetResponse
  | JobAppend "u8 list"
  | JobSuppress
  | JobDisableResponseTimeout
  | JobDisableGlobalTimeout
  | JobPositive nat
  | JobPositiveLength nat nat
  | JobNegative u8 nat
  | Runs con_closure
  | Processed bool
  | ResponsePendingExpires
  | GlobalExpires
  | Terminates

fun con_enabled :: "con_label \<Rightarrow> bool \<times> diag_connection \<Rightarrow> bool" where
  "con_enabled JobAddIdentifier (r, c) \<longleftrightarrow> \<not> r \<and> \<not> con_isResponseActive c \<and> (con_isOpen c \<longrightarrow> length (con_identifiers c) < blen c)"
| "con_enabled JobGetResponse (r, c) \<longleftrightarrow> \<not> r"
| "con_enabled (JobAppend bs) (r, c) \<longleftrightarrow> \<not> r \<and> con_isResponseActive c"
| "con_enabled JobSuppress (r, c) \<longleftrightarrow> \<not> r"
| "con_enabled JobDisableResponseTimeout (r, c) \<longleftrightarrow> \<not> r"
| "con_enabled JobDisableGlobalTimeout (r, c) \<longleftrightarrow> \<not> r"
| "con_enabled (JobPositive job) (r, c) \<longleftrightarrow> \<not> r"
| "con_enabled (JobPositiveLength len job) (r, c) \<longleftrightarrow> \<not> r
     \<and> (con_isOpen c \<longrightarrow> con_isResponseActive c \<and> length (con_identifiers c) + len \<le> blen c)"
| "con_enabled (JobNegative code job) (r, c) \<longleftrightarrow> \<not> r \<and> code \<noteq> ISO_RESPONSE_PENDING"
| "con_enabled (Runs k) (r, c) \<longleftrightarrow> k \<in> set (con_posted c)"
| "con_enabled (Processed ok) (r, c) \<longleftrightarrow> con_flight c \<noteq> []"
| "con_enabled ResponsePendingExpires (r, c) \<longleftrightarrow> con_responsePendingTimeout c"
| "con_enabled GlobalExpires (r, c) \<longleftrightarrow> con_globalPendingTimeout c"
| "con_enabled Terminates (r, c) \<longleftrightarrow> True"

fun con_step :: "con_env \<Rightarrow> con_label \<Rightarrow> bool \<times> diag_connection \<Rightarrow> (bool \<times> diag_connection) option" where
  "con_step E JobAddIdentifier (r, c) = map_option (Pair r) (con_addIdentifier c)"
| "con_step E JobGetResponse (r, c) = map_option (Pair r) (con_releaseRequestGetResponse c)"
| "con_step E (JobAppend bs) (r, c) = map_option (\<lambda>x. (r, snd x)) (pr_appendData bs c)"
| "con_step E JobSuppress (r, c) = Some (r, c\<lparr>con_suppressPositiveResponse := True\<rparr>)"
| "con_step E JobDisableResponseTimeout (r, c) = Some (r, con_disableResponseTimeout c)"
| "con_step E JobDisableGlobalTimeout (r, c) = Some (r, con_disableGlobalTimeout c)"
| "con_step E (JobPositive job) (r, c) = map_option (\<lambda>x. (fst x = UDS_OK, snd x)) (con_sendPositiveResponse job c)"
| "con_step E (JobPositiveLength len job) (r, c) =
     (let x = con_sendPositiveResponseInternal len job c in Some (fst x = UDS_OK, snd x))"
| "con_step E (JobNegative code job) (r, c) = map_option (\<lambda>x. (fst x = UDS_OK, snd x)) (con_sendNegativeResponse code job c)"
| "con_step E (Runs k) (r, c) = map_option (Pair r) (con_execute E k c)"
| "con_step E (Processed ok) (r, c) =
     Some (r, con_transportMessageProcessed (hd (con_flight c)) ok (c\<lparr>con_flight := tl (con_flight c)\<rparr>))"
| "con_step E ResponsePendingExpires (r, c) =
     map_option (Pair r) (con_expiredResponsePending E (c\<lparr>con_responsePendingTimeout := False\<rparr>))"
| "con_step E GlobalExpires (r, c) = map_option (Pair r) (con_expiredGlobal (c\<lparr>con_globalPendingTimeout := False\<rparr>))"
| "con_step E Terminates (r, c) = map_option (Pair r) (con_terminate c)"

text \<open>A step that is not possible is left out; \<open>None\<close> when the code fails.\<close>

fun con_run :: "con_env \<Rightarrow> con_label list \<Rightarrow> bool \<times> diag_connection \<Rightarrow> (bool \<times> diag_connection) option" where
  "con_run E [] s = Some s"
| "con_run E (lab # labs) s =
     (if con_enabled lab s then (case con_step E lab s of None \<Rightarrow> None | Some s' \<Rightarrow> con_run E labs s') else con_run E labs s)"

text \<open>A job that takes or fills the response buffer after the connection has been closed\<close>

fun con_late :: "con_label \<Rightarrow> bool \<times> diag_connection \<Rightarrow> bool" where
  "con_late JobGetResponse (r, c) \<longleftrightarrow> \<not> r \<and> \<not> con_isOpen c"
| "con_late (JobAppend bs) (r, c) \<longleftrightarrow> \<not> r \<and> \<not> con_isOpen c \<and> length bs \<le> snd (pr_buffer (con_positiveResponse c))"
| "con_late (JobPositive job) (r, c) \<longleftrightarrow> \<not> r \<and> \<not> con_isOpen c \<and> \<not> con_isResponseActive c"
| "con_late _ _ \<longleftrightarrow> False"

text \<open>A run in which no job does so\<close>

fun con_timely :: "con_env \<Rightarrow> con_label list \<Rightarrow> bool \<times> diag_connection \<Rightarrow> bool" where
  "con_timely E [] s \<longleftrightarrow> True"
| "con_timely E (lab # labs) s \<longleftrightarrow>
     (if con_enabled lab s
      then \<not> con_late lab s \<and> (case con_step E lab s of None \<Rightarrow> True | Some s' \<Rightarrow> con_timely E labs s')
      else con_timely E labs s)"

lemma late_responded [simp]: "\<not> con_late lab (True, c)"
  by (cases lab) simp_all

lemma closed_empty:
  assumes "con_inv cl msg r c" "\<not> con_isOpen c"
  shows "con_requestMessage c = None" "con_responseMessage c = None" "con_nestedRequest c = None"
  using assms by (simp_all add: con_inv_def con_core_def life_ok_def shape_def)

lemma late_fails:
  assumes "con_inv cl msg r c" "con_late lab (r, c)"
  shows "con_step E lab (r, c) = None"
proof -
  have o: "\<not> con_isOpen c" using assms(2) by (cases lab) simp_all
  note e = closed_empty [OF assms(1) o]
  show ?thesis using assms(2) e
    by (cases lab) (simp_all add: con_releaseRequestGetResponse_def con_sendPositiveResponse_def pr_appendData_def Let_def)
qed

text \<open>What a job may still do with a closed connection\<close>

fun job_step :: "con_label \<Rightarrow> bool" where
  "job_step (Runs k) \<longleftrightarrow> False"
| "job_step (Processed ok) \<longleftrightarrow> False"
| "job_step ResponsePendingExpires \<longleftrightarrow> False"
| "job_step GlobalExpires \<longleftrightarrow> False"
| "job_step Terminates \<longleftrightarrow> False"
| "job_step _ \<longleftrightarrow> True"

lemma closed_step:
  assumes c: "con_inv cl msg False c" "\<not> con_isOpen c" and e: "con_enabled lab (False, c)" "\<not> con_late lab (False, c)" and l: "job_step lab"
  shows "\<exists>c'. con_step E lab (False, c) = Some (False, c') \<and> con_inv cl msg False c'"
proof -
  note n = closed_empty [OF c]
  have i: "con_inv cl msg False (c\<lparr>con_suppressPositiveResponse := True\<rparr>)"
    "con_inv cl msg False (c\<lparr>con_positiveResponse := p\<rparr>)"
    "con_inv cl msg False (c\<lparr>con_responsePendingTimeout := False\<rparr>)" "con_inv cl msg False (c\<lparr>con_globalPendingTimeout := False\<rparr>)" for p
    using c by (auto simp: con_inv_def con_core_def shape_def life_ok_def counts_defs)
  show ?thesis using c n e l i
    by (cases lab) (simp_all add: con_addIdentifier_def pr_appendData_def Let_def con_sendPositiveResponse_def con_sendPositiveResponseInternal_def
        con_sendNegativeResponse_def con_disableResponseTimeout_def con_disableGlobalTimeout_def)
qed

lemma processed_inv:
  assumes c: "con_inv cl msg r c" and f: "con_flight c \<noteq> []"
  shows "con_inv cl (Some (hd (con_flight c), True)) r (con_transportMessageProcessed (hd (con_flight c)) ok (c\<lparr>con_flight := tl (con_flight c)\<rparr>))"
proof -
  have s: "shape cl msg c" using c by (simp add: con_inv_def con_core_def)
  then obtain k where k: "msg = Some (k, False)" "con_flight c = [k]"
    using f by (cases msg rule: flying.cases) (auto simp: shape_def)
  have n: "TransportMessageProcessed \<notin> set (con_posted c)" using s k by (auto simp: shape_def closure_ok_def)
  let ?d = "c\<lparr>con_flight := [], con_processedArgs := (k, ok), con_posted := con_posted c @ [TransportMessageProcessed]\<rparr>"
  have d: "con_transportMessageProcessed (hd (con_flight c)) ok (c\<lparr>con_flight := tl (con_flight c)\<rparr>) = ?d"
    using n k by (simp add: con_transportMessageProcessed_def con_post_def)
  have "shape cl (Some (k, True)) ?d" using s n k by (auto simp: shape_def on_way_def)
  moreover have "life_ok cl r ?d = life_ok cl r c"
    by (simp add: life_ok_def counts_defs messages_ok_def response_ok_def args_ok_def blen_def)
  moreover have "count_ok cl (Some (k, True)) = count_ok cl (Some (k, False))" by (intro ext) (simp add: count_ok_def on_way_def)
  ultimately show ?thesis using c k unfolding d by (simp add: con_inv_def con_core_def)
qed

lemma open_step:
  assumes c: "con_inv cl msg r c" and e: "con_enabled lab (r, c)" and o: "job_step lab \<Longrightarrow> con_isOpen c" and E: "\<And>j. ce_terminates E j"
  shows "\<exists>r' c' cl' msg'. con_step E lab (r, c) = Some (r', c') \<and> con_inv cl' msg' r' c'"
proof (cases lab)
  case (Runs k)
  have "shape cl msg c" "k \<in> set (con_posted c)" using c e Runs by (simp_all add: con_inv_def con_core_def)
  from posted_cases [OF this] obtain cl' msg' c' where "con_execute E k c = Some c'" "con_inv cl' msg' r c'"
  proof (elim disjE conjE exE)
    fix x assume x: "k = TransportMessageProcessed" "msg = Some (x, True)" "fst (con_processedArgs c) = x"
    from execute_processed [OF c [unfolded x(2)] x(3) E] show thesis using that x(1) by blast
  next
    assume x: "k = SendPositiveResponse" "cl = Some SendPositiveResponse"
    from execute_positive [OF c [unfolded x(2)] E] show thesis using that x(1) by blast
  next
    assume x: "k = SendNegativeResponse" "cl = Some SendNegativeResponse"
    from execute_negative [OF c [unfolded x(2)] E] show thesis using that x(1) by blast
  qed
  then show ?thesis using Runs by auto
next
  case (Processed ok)
  then show ?thesis using processed_inv [OF c] e by auto
next
  case ResponsePendingExpires
  have "con_inv cl msg r (c\<lparr>con_responsePendingTimeout := False\<rparr>)" using c by (simp add: inv_timeouts)
  from expired_pending [OF this, of E] show ?thesis using ResponsePendingExpires by auto
next
  case GlobalExpires
  from expired_global [OF inv_timeouts(3) [OF c]] show ?thesis using GlobalExpires by auto
next
  case Terminates
  have "con_core cl msg r c" using c by (simp add: con_inv_def)
  from terminate_inv [OF this] show ?thesis using Terminates by auto
next
  case JobSuppress
  then have i: "con_inv cl msg False c" "con_isOpen c" "\<not> r" using c e o by auto
  note u = unanswered [OF i(1,2)]
  let ?d = "c\<lparr>con_suppressPositiveResponse := True\<rparr>"
  have "messages_ok ?d" "response_ok ?d" using u(3,4) by (simp_all add: messages_ok_def response_ok_def blen_def)
  from unanswered_change [OF i(1) [unfolded u(1)] i(2) this] have "con_inv None msg False ?d" by simp
  then show ?thesis using JobSuppress i(3) by auto
next
  case JobDisableResponseTimeout
  then show ?thesis using c by (auto simp: con_disableResponseTimeout_def inv_timeouts)
next
  case JobDisableGlobalTimeout
  then show ?thesis using inv_timeouts(3) [OF c] by (auto simp: con_disableGlobalTimeout_def)
next
  case JobAddIdentifier
  then have c': "con_inv None msg False c" "con_isOpen c" using unanswered(1) [of cl msg c] c e o by auto
  from add_identifier [OF this] show ?thesis using JobAddIdentifier e o by auto
next
  case JobGetResponse
  then have "con_inv None msg False c" "con_isOpen c" using unanswered(1) [of cl msg c] c e o by auto
  from get_response [OF this] show ?thesis using JobGetResponse e by auto
next
  case (JobAppend bs)
  then have "con_inv None msg False c" "con_isOpen c" "con_isResponseActive c" using unanswered(1) [of cl msg c] c e o by auto
  from append_response [OF this, of bs] show ?thesis using JobAppend e by auto
next
  case (JobPositive job)
  then have "con_inv None msg False c" "con_isOpen c" using unanswered(1) [of cl msg c] c e o by auto
  from respond_positive [OF this, of job] show ?thesis using JobPositive by auto
next
  case (JobPositiveLength len job)
  then have i: "con_inv None msg False c" "con_isOpen c" using unanswered(1) [of cl msg c] c e o by auto
  then have "con_responseMessage c \<noteq> None" using unanswered(4) [OF i] e o JobPositiveLength by (simp add: response_ok_def)
  from respond_positive_length [OF i this, of len job] show ?thesis using JobPositiveLength e o by fastforce
next
  case (JobNegative code job)
  then have "con_inv None msg False c" "con_isOpen c" using unanswered(1) [of cl msg c] c e o by auto
  from respond_negative [OF this, of code job] show ?thesis using JobNegative e by auto
qed

lemma con_step_inv:
  assumes c: "con_inv cl msg r c" and e: "con_enabled lab (r, c)" "\<not> con_late lab (r, c)" and E: "\<And>j. ce_terminates E j"
  shows "\<exists>r' c' cl' msg'. con_step E lab (r, c) = Some (r', c') \<and> con_inv cl' msg' r' c'"
proof (cases "job_step lab \<and> \<not> con_isOpen c")
  case True
  then have "\<not> r" using e(1) by (cases lab) auto
  then show ?thesis using closed_step [of cl msg c lab E] True c e by auto
next
  case False
  then show ?thesis using open_step [OF c e(1) _ E] by blast
qed

lemma con_run_inv:
  assumes "con_inv cl msg r c" "\<And>j. ce_terminates E j" "con_timely E labs (r, c)"
  shows "\<exists>r' c' cl' msg'. con_run E labs (r, c) = Some (r', c') \<and> con_inv cl' msg' r' c'"
  using assms
proof (induction labs arbitrary: cl msg r c)
  case (Cons lab labs)
  show ?case
  proof (cases "con_enabled lab (r, c)")
    case True
    then have l: "\<not> con_late lab (r, c)" using Cons.prems(3) by simp
    from con_step_inv [OF Cons.prems(1) True l Cons.prems(2)] obtain r1 c1 cl1 msg1 where
      s: "con_step E lab (r, c) = Some (r1, c1)" "con_inv cl1 msg1 r1 c1" by blast
    have "con_timely E labs (r1, c1)" using Cons.prems(3) True s(1) by simp
    from Cons.IH [OF s(2) Cons.prems(2) this] show ?thesis using True s(1) by simp
  next
    case False
    then show ?thesis using Cons.IH [OF Cons.prems(1,2)] Cons.prems(3) by simp
  qed
qed auto

lemma late_run_fails:
  assumes "con_inv cl msg r c" "\<And>j. ce_terminates E j" "\<not> con_timely E labs (r, c)"
  shows "con_run E labs (r, c) = None"
  using assms
proof (induction labs arbitrary: cl msg r c)
  case (Cons lab labs)
  show ?case
  proof (cases "con_enabled lab (r, c)")
    case True
    show ?thesis
    proof (cases "con_late lab (r, c)")
      case l: True
      then show ?thesis using True late_fails [OF Cons.prems(1) l, of E] by simp
    next
      case l: False
      from con_step_inv [OF Cons.prems(1) True l Cons.prems(2)] obtain r1 c1 cl1 msg1 where
        s: "con_step E lab (r, c) = Some (r1, c1)" "con_inv cl1 msg1 r1 c1" by blast
      have "\<not> con_timely E labs (r1, c1)" using Cons.prems(3) True l s(1) by simp
      from Cons.IH [OF s(2) Cons.prems(2) this] show ?thesis using True s(1) by simp
    qed
  next
    case False
    then show ?thesis using Cons.IH [OF Cons.prems(1,2)] Cons.prems(3) by simp
  qed
qed simp

lemma opened:
  assumes "tm_wf m" "3 \<le> length (tm_buffer m)"
  shows "\<exists>c. dd_openConnection addr activate True m = Some c \<and> con_inv None None False c \<and> con_isOpen c"
proof -
  have n: "tm_buffer m \<noteq> []" using assms(2) by auto
  define c where "c = the (dd_openConnection addr activate True m)"
  have c: "dd_openConnection addr activate True m = Some c" using n by (simp add: dd_openConnection_def c_def)
  have f: "con_isOpen c" "con_nestedRequest c = None" "con_posted c = []" "con_flight c = []" "con_sender c = None"
    "\<not> con_responsePendingIsBeingSent c" "con_numPendingMessageProcessedCallbacks c = 0" "con_trace c = []"
    "con_requestMessage c = Some m" "con_responseMessage c = None" "con_identifiers c = []"
    "con_negativeResponseTempBuffer c = [0, 0, 0]" "\<not> con_isResponseActive c" "con_messageSender c" "con_diagDispatcher c"
    "con_requestListener c" "\<not> con_connectionTerminationIsPending c"
    using n by (simp_all add: c_def dd_openConnection_def con_open_def con_new_def)
  have "messages_ok c" using f assms by (simp add: messages_ok_def blen_def)
  moreover have "response_ok c" using f by (simp add: response_ok_def)
  ultimately have "con_inv None None False c" using f
    by (simp add: con_inv_def con_core_def shape_def closure_ok_def count_ok_def on_way_def life_ok_def counts_defs args_ok_def)
  then show ?thesis using c f(1) by simp
qed

text \<open>What the invariant says of what the outside has seen.\<close>

lemma con_inv_seen:
  assumes "con_inv cl msg r c"
  shows "length (con_flight c) \<le> 1" "notices c \<le> of_bool r" "request_ends c = of_bool (\<not> con_isOpen c)"
    "destructions c = of_bool (\<not> con_isOpen c)" "r \<and> con_posted c = [] \<and> con_flight c = [] \<Longrightarrow> \<not> con_isOpen c \<and> notices c = 1"
proof -
  have s: "shape cl msg c" and l: "life_ok cl r c"
    and n: "count_ok cl msg (con_sender c) (con_responsePendingIsBeingSent c) (con_numPendingMessageProcessedCallbacks c)"
    using assms by (simp_all add: con_inv_def con_core_def)
  show "length (con_flight c) \<le> 1" using s by (cases msg rule: flying.cases) (simp_all add: shape_def)
  show "notices c \<le> of_bool r" using l by (simp add: life_ok_def)
  show "request_ends c = of_bool (\<not> con_isOpen c)" "destructions c = of_bool (\<not> con_isOpen c)" using l by (simp_all add: life_ok_def)
  assume q: "r \<and> con_posted c = [] \<and> con_flight c = []"
  have cl: "cl = None" using s q by (auto simp: shape_def)
  have msg: "msg = None"
  proof (cases msg)
    case (Some p)
    then show ?thesis using s q by (cases p; cases "snd p") (simp_all add: shape_def)
  qed simp
  note cl = cl msg
  have se: "con_sender c = None" using n by (simp add: count_ok_def on_way_def cl)
  then have "con_numPendingMessageProcessedCallbacks c = 0" using n by (simp add: count_ok_def on_way_def cl)
  then have "\<not> con_connectionTerminationIsPending c" "r \<and> con_isOpen c \<longrightarrow> con_connectionTerminationIsPending c"
    using assms se cl by (auto simp: con_inv_def)
  moreover have "notices c = of_bool r" using l se cl by (simp add: life_ok_def)
  ultimately show "\<not> con_isOpen c \<and> notices c = 1" using q by simp
qed

end
