(* ===== verification/UdsProps.thy ===== *)
theory UdsProps imports UdsConnectionRuns begin

text \<open>The properties of a diagnostic connection.\<close>

section \<open>Every request is answered once\<close>

text \<open>C19: A well-formed request with a buffer of at least three bytes is opened as a connection. Its job prepares its response and responds at any time, also when
  the connection has been closed meanwhile; the context runs what is enqueued, the transport layer
  accepts, rejects and processes messages, the timers expire and the dispatcher terminates, in any order. As
  every job of the repository does, the job ends the connection when it is told of the end of its response;
  it asks neither for a response pending itself nor for a nested request. Such a run fails exactly when the job
  takes or fills the response buffer after the connection has been closed. In every other run at most
  one message is in the transport layer, the job is told of the end of its response at most once and not
  before it gave one, and the request goes back to its listener once, exactly when the connection is
  destroyed. When the job has responded and nothing waits any more, the connection is closed and the job told.\<close>

theorem request_is_answered_once:
  assumes "tm_wf m" "3 \<le> length (tm_buffer m)" "\<And>j. ce_terminates E j"
  shows "\<exists>c0. dd_openConnection addr activate True m = Some c0
    \<and> (if con_timely E labs (False, c0)
       then \<exists>r c. con_run E labs (False, c0) = Some (r, c)
         \<and> length (con_flight c) \<le> 1 \<and> notices c \<le> of_bool r
         \<and> request_ends c = of_bool (\<not> con_isOpen c) \<and> destructions c = of_bool (\<not> con_isOpen c)
         \<and> (r \<and> con_posted c = [] \<and> con_flight c = [] \<longrightarrow> \<not> con_isOpen c \<and> notices c = 1)
       else con_run E labs (False, c0) = None)"
proof -
  from opened [OF assms(1,2)] obtain c0 where c0: "dd_openConnection addr activate True m = Some c0" "con_inv None None False c0"
    by blast
  show ?thesis
  proof (cases "con_timely E labs (False, c0)")
    case True
    from con_run_inv [OF c0(2) assms(3) True] obtain r c cl msg where
      "con_run E labs (False, c0) = Some (r, c)" "con_inv cl msg r c" by blast
    with c0(1) True con_inv_seen [OF this(2)] show ?thesis by auto
  next
    case False
    then show ?thesis using c0(1) late_run_fails [OF c0(2) assms(3) False] by simp
  qed
qed

definition example_env :: con_env where
  "example_env = \<lparr>ce_send = (\<lambda>t. True), ce_terminates = (\<lambda>j. True), ce_prepareNestedRequest = (\<lambda>n bs. ((0, 0), n)),
     ce_processNestedRequest = (\<lambda>sp c. None)\<rparr>"

definition example_request :: transport_message where
  "example_request = (tm_new [0x22, 0xF1, 0x90, 0, 0, 0])\<lparr>tm_sourceAddress := 0xF1, tm_targetAddress := 0x10, tm_validBytes := 3, tm_payloadLength := 3\<rparr>"

lemma example_request_wf: "tm_wf example_request" "3 \<le> length (tm_buffer example_request)"
  by (simp_all add: example_request_def tm_wf_def tm_new_def)

section \<open>What a response contains\<close>

lemma con_run_append: "con_run E (xs @ ys) s = (case con_run E xs s of None \<Rightarrow> None | Some s' \<Rightarrow> con_run E ys s')"
  by (induction xs arbitrary: s) (auto split: option.split)

lemma identifiers_added:
  assumes "con_isOpen c" "con_nestedRequest c = None" "\<not> con_isResponseActive c" "con_requestMessage c = Some m"
    "con_identifiers c = []" "k \<le> MAXIMUM_NUMBER_OF_IDENTIFIERS" "k \<le> length (tm_buffer m)"
  shows "con_run E (replicate k JobAddIdentifier) (False, c) = Some (False, c\<lparr>con_identifiers := take k (tm_buffer m)\<rparr>)"
  using assms(6,7)
proof (induction k)
  case 0
  then show ?case using assms(5) by simp
next
  case (Suc k)
  then have "con_run E (replicate k JobAddIdentifier @ [JobAddIdentifier]) (False, c) = Some (False, c\<lparr>con_identifiers := take (Suc k) (tm_buffer m)\<rparr>)"
    using assms(1-4) by (simp add: con_run_append blen_def con_addIdentifier_def take_Suc_conv_app_nth)
  then show ?case by (simp add: replicate_append_same)
qed

text \<open>The response that a job has prepared: the identifiers and the data lie in the buffer.\<close>

definition prepared :: "transport_message \<Rightarrow> nat \<Rightarrow> u8 list \<Rightarrow> diag_connection \<Rightarrow> diag_connection" where
  "prepared m k bs c = (let b = take k (tm_buffer m) @ bs @ drop (k + length bs) (tm_buffer m) in
     c\<lparr>con_identifiers := take k (tm_buffer m), con_isResponseActive := True,
       con_responseMessage := Some ((tm_new [])\<lparr>tm_buffer := b\<rparr>),
       con_requestMessage := Some (m\<lparr>tm_buffer := b\<rparr>),
       con_positiveResponse := \<lparr>pr_original = (k, length (tm_buffer m) - k),
         pr_buffer = (k + length bs, length (tm_buffer m) - k - length bs), pr_isOverflow = False\<rparr>\<rparr>)"

lemma response_prepared:
  assumes "con_isOpen c" "con_nestedRequest c = None" "\<not> con_isResponseActive c" "con_requestMessage c = Some m"
    "con_responseMessage c = None" "con_identifiers c = []" "k \<le> MAXIMUM_NUMBER_OF_IDENTIFIERS" "k + length bs \<le> length (tm_buffer m)" "tm_wf m"
  shows "con_run E (replicate k JobAddIdentifier @ [JobGetResponse, JobAppend bs]) (False, c) = Some (False, prepared m k bs c)"
proof -
  have k: "k \<le> length (tm_buffer m)" using assms(8) by simp
  have i: "tm_init (Some (tm_buffer m)) (length (tm_buffer m)) (tm_new []) = Some ((tm_new [])\<lparr>tm_buffer := tm_buffer m, tm_validBytes := 0, tm_payloadLength := 0\<rparr>)"
    by (simp add: tm_init_def tm_new_def setPayloadLength_def Let_def)
  have n: "(tm_new [])\<lparr>tm_buffer := b, tm_validBytes := 0, tm_payloadLength := 0\<rparr> = (tm_new [])\<lparr>tm_buffer := b\<rparr>" for b by (simp add: tm_new_def)
  show ?thesis unfolding con_run_append identifiers_added [OF assms(1-4,6,7) k]
    using assms i k
    by (simp add: con_releaseRequestGetResponse_def pr_appendData_def Let_def con_setResponse_def pr_init_def pr_advance_def
        getMaxPayloadLength_def prepared_def n tm_wf_def to_u16_small)
qed

lemma opened_connection:
  assumes "tm_buffer m \<noteq> []"
  obtains c where "dd_openConnection addr activate l m = Some c" "con_isOpen c" "con_nestedRequest c = None"
    "\<not> con_isResponseActive c" "con_requestMessage c = Some m" "con_responseMessage c = None" "con_identifiers c = []"
    "con_posted c = []" "con_flight c = []" "con_sender c = None" "con_trace c = []" "con_messageSender c"
    "\<not> con_responsePendingIsBeingSent c" "\<not> con_suppressPositiveResponse c" "\<not> con_connectionTerminationIsPending c"
    "con_numPendingMessageProcessedCallbacks c = 0" "con_negativeResponseTempBuffer c = [0, 0, 0]" "con_serviceId c = tm_buffer m ! 0"
    "con_sourceAddress c = tm_sourceAddress m" "con_targetAddress c = tm_targetAddress m" "con_diagDispatcher c"
    "con_responseSourceAddress c = (if isFunctionalAddress (tm_targetAddress m) then addr else tm_targetAddress m)"
proof -
  define c where "c = the (dd_openConnection addr activate l m)"
  have c: "dd_openConnection addr activate l m = Some c" using assms by (simp add: dd_openConnection_def c_def)
  show ?thesis by (rule that [OF c]) (use assms in \<open>simp_all add: c_def dd_openConnection_def con_open_def con_new_def\<close>)
qed

lemma positive_response_run:
  assumes m: "tm_wf m" "3 \<le> length (tm_buffer m)" "tm_buffer m ! 0 \<noteq> NEGATIVE_RESPONSE_IDENTIFIER"
    and k: "1 \<le> k" "k \<le> MAXIMUM_NUMBER_OF_IDENTIFIERS" "k + length bs \<le> length (tm_buffer m)"
    and E: "ce_send E [SessionResponseSent DIAG_OK]"
  shows "\<exists>c0 c r. dd_openConnection addr activate l m = Some c0
    \<and> con_run E (replicate k JobAddIdentifier @ [JobGetResponse, JobAppend bs] @ [JobPositive job, Runs SendPositiveResponse]) (False, c0) = Some (True, c)
    \<and> con_trace c = [SessionResponseSent DIAG_OK, SendMessage ResponseMessage r True] \<and> con_flight c = [ResponseMessage]
    \<and> tm_data r = (tm_buffer m ! 0 + POSITIVE_RESPONSE_OFFSET) # take (k - 1) (drop 1 (tm_buffer m)) @ bs
    \<and> tm_payloadLength r = k + length bs \<and> tm_targetAddress r = tm_sourceAddress m
    \<and> tm_sourceAddress r = (if isFunctionalAddress (tm_targetAddress m) then addr else tm_targetAddress m)"
proof -
  have n: "tm_buffer m \<noteq> []" using m(2) by auto
  from opened_connection [OF n, of addr activate l] obtain c where
    c: "dd_openConnection addr activate l m = Some c" "con_isOpen c" "con_nestedRequest c = None"
    "\<not> con_isResponseActive c" "con_requestMessage c = Some m" "con_responseMessage c = None" "con_identifiers c = []"
    "con_posted c = []" "con_flight c = []" "con_sender c = None" "con_trace c = []" "con_messageSender c"
    "\<not> con_responsePendingIsBeingSent c" "\<not> con_suppressPositiveResponse c" "\<not> con_connectionTerminationIsPending c"
    "con_numPendingMessageProcessedCallbacks c = 0" "con_negativeResponseTempBuffer c = [0, 0, 0]" "con_serviceId c = tm_buffer m ! 0"
    "con_sourceAddress c = tm_sourceAddress m" "con_targetAddress c = tm_targetAddress m" "con_diagDispatcher c"
    "con_responseSourceAddress c = (if isFunctionalAddress (tm_targetAddress m) then addr else tm_targetAddress m)" .
  let ?b = "take k (tm_buffer m) @ bs @ drop (k + length bs) (tm_buffer m)" and ?p = "prepared m k bs c"
  let ?q = "?p\<lparr>con_numPendingMessageProcessedCallbacks := 1, con_positiveArgs := (length bs, Some job), con_posted := []\<rparr>"
  have k0: "?b ! 0 = tm_buffer m ! 0" "length ?b = length (tm_buffer m)" using k n by (auto simp: nth_append)
  have w: "tm_wf ((tm_new [])\<lparr>tm_buffer := ?b\<rparr>)" "3 \<le> length (tm_buffer ((tm_new [])\<lparr>tm_buffer := ?b\<rparr>))"
    using m(1,2) k by (auto simp: tm_wf_def tm_new_def)
  have q: "length (con_negativeResponseTempBuffer ?q) = 3" "length (con_identifiers ?q) + length bs \<le> length (tm_buffer ((tm_new [])\<lparr>tm_buffer := ?b\<rparr>))"
    "con_identifiers ?q = take k (tm_buffer m)" "con_identifiers ?q \<noteq> []" using c k n by (auto simp: prepared_def Let_def)
  from positive_message [OF w q(1,2)] q(4) obtain r where
    r: "con_positiveMessage (length bs) ?q ((tm_new [])\<lparr>tm_buffer := ?b\<rparr>) = Some r" "tm_sourceAddress r = con_responseSourceAddress ?q"
      "tm_targetAddress r = con_sourceAddress ?q" "tm_payloadLength r = length (con_identifiers ?q) + length bs"
      "tm_data r = (con_serviceId ?q + POSITIVE_RESPONSE_OFFSET) # tl (con_identifiers ?q)
          @ take (length bs) (drop (length (con_identifiers ?q)) (restored (con_negativeResponseTempBuffer ?q) ?b))" by auto
  have s: "con_execute E SendPositiveResponse (?q\<lparr>con_posted := [SendPositiveResponse]\<rparr>)
      = map_option snd (con_sendResponse E (con_call (SessionResponseSent DIAG_OK) ((con_setResponse r ?q)\<lparr>con_sender := Some job\<rparr>)))"
    using c r(1) by (simp add: con_execute_def con_asyncSendPositiveResponse_def prepared_def Let_def con_call_def con_setResponse_def)
  have j: "con_run E (replicate k JobAddIdentifier @ [JobGetResponse, JobAppend bs]) (False, c) = Some (False, ?p)"
    by (rule response_prepared) (use c k m in simp_all)
  have t: "con_step E (JobPositive job) (False, ?p) = Some (True, ?q\<lparr>con_posted := [SendPositiveResponse]\<rparr>)"
    using c k by (simp add: con_sendPositiveResponse_def con_sendPositiveResponseInternal_def prepared_def Let_def pr_getLength_def con_post_def)
  let ?d = "con_call (SessionResponseSent DIAG_OK) ((con_setResponse r ?q)\<lparr>con_sender := Some job\<rparr>)"
  have d: "con_responseMessage ?d = Some r" "con_messageSender ?d" "con_trace ?d = [SessionResponseSent DIAG_OK]" "con_flight ?d = []"
    using c by (simp_all add: prepared_def Let_def con_call_def con_setResponse_def)
  let ?e = "?d\<lparr>con_trace := [SessionResponseSent DIAG_OK, SendMessage ResponseMessage r True], con_flight := [ResponseMessage]\<rparr>"
  have e: "con_sendResponse E ?d = Some (UDS_OK, ?e)" unfolding con_sendResponse_def con_send_def
    using d E by (simp add: Let_def con_call_def)
  have "con_run E [JobPositive job, Runs SendPositiveResponse] (False, ?p) = Some (True, ?e)"
    using c t s e by (simp del: con_step.simps(7) add: prepared_def Let_def)
  then have "con_run E (replicate k JobAddIdentifier @ [JobGetResponse, JobAppend bs] @ [JobPositive job, Runs SendPositiveResponse]) (False, c) = Some (True, ?e)"
    using j unfolding append_assoc [symmetric] by (subst con_run_append) simp
  moreover have "tm_data r = (tm_buffer m ! 0 + POSITIVE_RESPONSE_OFFSET) # take (k - 1) (drop 1 (tm_buffer m)) @ bs"
    using r(5) c k m(3) n k0 by (simp add: prepared_def Let_def restored_def tl_take drop_Suc)
  moreover have "tm_payloadLength r = k + length bs" "tm_targetAddress r = tm_sourceAddress m"
    "tm_sourceAddress r = (if isFunctionalAddress (tm_targetAddress m) then addr else tm_targetAddress m)"
    using r(2,3,4) c k by (simp_all add: prepared_def Let_def)
  ultimately show ?thesis using c(1) by (intro exI [of _ c] exI [of _ ?e] exI [of _ r]) simp
qed

text \<open>C23: A job adds the first \<open>k\<close> bytes of the request as identifiers, appends its data and responds
  positively. The message that the transport layer gets goes from the address of the request, or
  the diagnostic address when the request was functional, to the tester, and consists of the
  service identifier raised by 64, the other identifiers as the request has them, and the data.\<close>

theorem positive_response_echoes_the_request:
  assumes m: "tm_wf m" "3 \<le> length (tm_buffer m)" "tm_buffer m ! 0 \<noteq> NEGATIVE_RESPONSE_IDENTIFIER"
    and k: "1 \<le> k" "k \<le> MAXIMUM_NUMBER_OF_IDENTIFIERS" "k + length bs \<le> length (tm_buffer m)"
    and E: "ce_send E [SessionResponseSent DIAG_OK]"
  shows "\<exists>c0 c r. dd_openConnection addr activate l m = Some c0
    \<and> con_run E (replicate k JobAddIdentifier @ [JobGetResponse, JobAppend bs] @ [JobPositive job, Runs SendPositiveResponse]) (False, c0) = Some (True, c)
    \<and> con_trace c = [SessionResponseSent DIAG_OK, SendMessage ResponseMessage r True] \<and> con_flight c = [ResponseMessage]
    \<and> tm_data r = (tm_buffer m ! 0 + POSITIVE_RESPONSE_OFFSET) # take (k - 1) (drop 1 (tm_buffer m)) @ bs
    \<and> tm_payloadLength r = k + length bs \<and> tm_targetAddress r = tm_sourceAddress m
    \<and> tm_sourceAddress r = (if isFunctionalAddress (tm_targetAddress m) then addr else tm_targetAddress m)"
  by (rule positive_response_run [OF assms])

theorem positive_response_echoes_the_request_witness:
  "\<exists>c0 c r. dd_openConnection 0x10 True True example_request = Some c0
    \<and> con_run example_env (replicate 3 JobAddIdentifier @ [JobGetResponse, JobAppend [1, 2]] @ [JobPositive 4, Runs SendPositiveResponse]) (False, c0) = Some (True, c)
    \<and> tm_data r = [0x62, 0xF1, 0x90, 1, 2]"
proof -
  have e: "ce_send example_env [SessionResponseSent DIAG_OK]" "tm_buffer example_request ! 0 \<noteq> NEGATIVE_RESPONSE_IDENTIFIER"
    "1 \<le> (3::nat)" "3 \<le> MAXIMUM_NUMBER_OF_IDENTIFIERS" "3 + length [1, 2 :: u8] \<le> length (tm_buffer example_request)"
    "(tm_buffer example_request ! 0 + POSITIVE_RESPONSE_OFFSET) # take (3 - 1) (drop 1 (tm_buffer example_request)) @ [1, 2] = [0x62, 0xF1, 0x90, 1, 2]"
    by (simp_all add: example_env_def example_request_def tm_new_def NEGATIVE_RESPONSE_IDENTIFIER_def MAXIMUM_NUMBER_OF_IDENTIFIERS_def
      POSITIVE_RESPONSE_OFFSET_def)
  note w = positive_response_echoes_the_request [OF example_request_wf e(2,3,4,5,1), where addr = "0x10" and activate = True and l = True and job = 4]
  show ?thesis using w [unfolded e(6)] by (elim exE conjE) (intro exI conjI)
qed

lemma opened_response:
  assumes "con_nestedRequest c = None" "con_requestMessage c = Some m" "con_responseMessage c = None" "con_identifiers c = []"
  shows "con_releaseRequestGetResponse c = Some (c\<lparr>con_requestMessage := Some m, con_responseMessage := Some ((tm_new [])\<lparr>tm_buffer := tm_buffer m\<rparr>),
    con_isResponseActive := True, con_positiveResponse := pr_init 0 (getMaxPayloadLength m)\<rparr>)"
  using assms
  by (simp add: con_releaseRequestGetResponse_def tm_init_def tm_new_def setPayloadLength_def Let_def con_setResponse_def getMaxPayloadLength_def)

lemma opened_listener:
  "dd_openConnection addr activate l m = Some c \<Longrightarrow> con_requestListener c = l \<and> \<not> con_responsePendingIsPending c"
  by (auto simp: dd_openConnection_def bind_eq_Some_conv con_open_def con_new_def)

text \<open>The calls that end a connection: the request goes back to the listener, if there is one.\<close>

lemma terminate_calls:
  assumes "con_isOpen c" "con_nestedRequest c = None" "con_numPendingMessageProcessedCallbacks c = 0" "con_diagDispatcher c"
    "con_requestMessage c = Some q" "con_responseMessage c \<noteq> None"
  shows "\<exists>q' d. con_terminate c = Some d \<and> \<not> con_isOpen d \<and> con_flight d = con_flight c
    \<and> \<not> con_connectionTerminationIsPending d \<and> con_responsePendingIsPending d = con_responsePendingIsPending c
    \<and> con_trace d = con_trace c @ (if con_requestListener c then [RequestProcessed q'] else []) @ [ReleaseResponseMessage, ConnectionDestroyed]"
  using assms
  by (simp add: con_terminate_def con_terminateNestedRequest_def dd_diagConnectionTerminated_def Let_def con_call_def)

lemma told_terminates:
  assumes "con_isOpen c" "con_nestedRequest c = None" "con_numPendingMessageProcessedCallbacks c = 0" "con_diagDispatcher c"
    "con_requestMessage c = Some q" "con_responseMessage c \<noteq> None" "ce_terminates E job"
  shows "\<exists>q' d. con_responseSent E job sent c = Some d \<and> \<not> con_isOpen d \<and> con_flight d = con_flight c
    \<and> \<not> con_connectionTerminationIsPending d \<and> con_responsePendingIsPending d = con_responsePendingIsPending c
    \<and> con_trace d = con_trace c @ ResponseSent job sent # (if con_requestListener c then [RequestProcessed q'] else []) @ [ReleaseResponseMessage, ConnectionDestroyed]"
  using terminate_calls [of "con_call (ResponseSent job sent) c" q] assms by (simp add: con_responseSent_def con_call_def Let_def)

text \<open>C36: Take a well-formed request with a buffer of at least three bytes, and a transport layer that takes the response.
  A job that responds negatively with any code but response pending sends the negative response identifier,
  the service identifier of the request and its code from the address of the request, or the diagnostic
  address when the request was functional, to the tester. When the transport layer has processed this
  message, the job is told whether it was sent and ends the connection, as all jobs of the
  repository do, and the request goes back to its listener. The codes that say that the ECU does not
  support the request are not sent when the request was functional; the job is told at once that its
  response was sent all the same, and the connection ends in the same way.\<close>

theorem negative_response_names_the_service:
  assumes m: "tm_wf m" "3 \<le> length (tm_buffer m)" and code: "code \<noteq> ISO_RESPONSE_PENDING"
    and E: "ce_send E [SessionResponseSent code]" "ce_terminates E job"
  shows "\<exists>c0 c. dd_openConnection addr activate l m = Some c0
    \<and> con_run E [JobNegative code job, Runs SendNegativeResponse] (False, c0) = Some (True, c)
    \<and> (if isFunctionalAddress (tm_targetAddress m) \<and> suppressed_code code
       then \<exists>q. con_trace c = [SessionResponseSent code, ResponseSent job True]
           @ (if l then [RequestProcessed q] else []) @ [ReleaseResponseMessage, ConnectionDestroyed]
         \<and> con_flight c = [] \<and> \<not> con_isOpen c
       else \<exists>r q d. con_trace c = [SessionResponseSent code, SendMessage ResponseMessage r True] \<and> con_flight c = [ResponseMessage]
         \<and> tm_data r = [NEGATIVE_RESPONSE_IDENTIFIER, tm_buffer m ! 0, code] \<and> tm_payloadLength r = 3
         \<and> tm_targetAddress r = tm_sourceAddress m
         \<and> tm_sourceAddress r = (if isFunctionalAddress (tm_targetAddress m) then addr else tm_targetAddress m)
         \<and> con_run E [Processed sent, Runs TransportMessageProcessed] (True, c) = Some (True, d)
         \<and> con_trace d = con_trace c @ ResponseSent job sent
             # (if l then [RequestProcessed q] else []) @ [ReleaseResponseMessage, ConnectionDestroyed]
         \<and> con_flight d = [] \<and> \<not> con_isOpen d)"
proof -
  have n: "tm_buffer m \<noteq> []" using m(2) by auto
  from opened_connection [OF n, of addr activate l] obtain c where
    c: "dd_openConnection addr activate l m = Some c" "con_isOpen c" "con_nestedRequest c = None"
    "\<not> con_isResponseActive c" "con_requestMessage c = Some m" "con_responseMessage c = None" "con_identifiers c = []"
    "con_posted c = []" "con_flight c = []" "con_sender c = None" "con_trace c = []" "con_messageSender c"
    "\<not> con_responsePendingIsBeingSent c" "\<not> con_suppressPositiveResponse c" "\<not> con_connectionTerminationIsPending c"
    "con_numPendingMessageProcessedCallbacks c = 0" "con_negativeResponseTempBuffer c = [0, 0, 0]" "con_serviceId c = tm_buffer m ! 0"
    "con_sourceAddress c = tm_sourceAddress m" "con_targetAddress c = tm_targetAddress m" "con_diagDispatcher c"
    "con_responseSourceAddress c = (if isFunctionalAddress (tm_targetAddress m) then addr else tm_targetAddress m)" .
  let ?m = "(tm_new [])\<lparr>tm_buffer := tm_buffer m\<rparr>"
  let ?q = "c\<lparr>con_requestMessage := Some m, con_responseMessage := Some ?m,
    con_isResponseActive := True, con_positiveResponse := pr_init 0 (getMaxPayloadLength m),
    con_numPendingMessageProcessedCallbacks := 1, con_negativeArgs := (code, Some job), con_posted := []\<rparr>"
  have w: "tm_wf ?m" "3 \<le> length (tm_buffer ?m)" "length (con_negativeResponseTempBuffer ?q) = 3"
    using m c by (simp_all add: tm_wf_def tm_new_def)
  from negative_message [OF w, of code] obtain backup r where
    r: "con_negativeMessage code ?q ?m = Some (backup, r)" "tm_sourceAddress r = con_responseSourceAddress c"
      "tm_targetAddress r = con_sourceAddress c" "tm_payloadLength r = 3"
      "tm_data r = [NEGATIVE_RESPONSE_IDENTIFIER, con_serviceId c, code]" by auto
  have t: "con_step E (JobNegative code job) (False, c) = Some (True, ?q\<lparr>con_posted := [SendNegativeResponse]\<rparr>)"
    using c opened_response [OF c(3,5,6,7)] by (simp add: con_sendNegativeResponse_def con_post_def)
  define d where "d = con_call (SessionResponseSent code) ((con_setResponse r ?q)\<lparr>con_negativeResponseTempBuffer := backup, con_sender := Some job\<rparr>)"
  let ?b = "isFunctionalAddress (tm_targetAddress m) \<and> suppressed_code code"
  have d: "con_responseMessage d = Some r" "con_messageSender d" "con_trace d = [SessionResponseSent code]" "con_flight d = []"
    "con_numPendingMessageProcessedCallbacks d = 1" "con_sender d = Some job" "con_isOpen d" "con_nestedRequest d = None" "con_diagDispatcher d"
    "\<not> con_responsePendingIsBeingSent d" "\<not> con_connectionTerminationIsPending d" "con_posted d = []"
    "con_requestMessage d = Some (m\<lparr>tm_buffer := tm_buffer r\<rparr>)" "con_requestListener d = l"
    "\<not> con_responsePendingIsPending d"
    using c opened_listener [OF c(1)] by (simp_all add: d_def con_call_def con_setResponse_def)
  have s: "con_execute E SendNegativeResponse (?q\<lparr>con_posted := [SendNegativeResponse]\<rparr>)
      = (if \<not> ?b then map_option snd (con_sendResponse E d)
         else con_responseSent E job True (d\<lparr>con_numPendingMessageProcessedCallbacks := 0, con_sender := None\<rparr>))"
    using c r(1) code by (simp add: con_execute_def con_asyncSendNegativeResponse_def Let_def con_call_def con_setResponse_def d_def)
  have run: "con_run E [JobNegative code job, Runs SendNegativeResponse] (False, c)
      = map_option (Pair True) (con_execute E SendNegativeResponse (?q\<lparr>con_posted := [SendNegativeResponse]\<rparr>))"
    using c t code by (simp del: con_step.simps(9) split: option.split)
  show ?thesis
  proof (cases ?b)
    case True
    from told_terminates [of "d\<lparr>con_numPendingMessageProcessedCallbacks := 0, con_sender := None\<rparr>" _ E job True] d E(2) obtain q e where
      "con_responseSent E job True (d\<lparr>con_numPendingMessageProcessedCallbacks := 0, con_sender := None\<rparr>) = Some e" "\<not> con_isOpen e" "con_flight e = []"
      "con_trace e = [SessionResponseSent code, ResponseSent job True] @ (if l then [RequestProcessed q] else []) @ [ReleaseResponseMessage, ConnectionDestroyed]"
      by auto
    then show ?thesis using c(1) run s True by (intro exI [of _ c] exI [of _ e]) auto
  next
    case False
    define e where "e = d\<lparr>con_trace := [SessionResponseSent code, SendMessage ResponseMessage r True], con_flight := [ResponseMessage]\<rparr>"
    have e: "con_sendResponse E d = Some (UDS_OK, e)"
      unfolding con_sendResponse_def con_send_def using d E by (simp add: Let_def con_call_def e_def)
    let ?f = "e\<lparr>con_flight := [], con_processedArgs := (ResponseMessage, sent), con_posted := [],
      con_numPendingMessageProcessedCallbacks := 0, con_sender := None\<rparr>"
    have f: "con_isOpen ?f" "con_nestedRequest ?f = None" "con_numPendingMessageProcessedCallbacks ?f = 0" "con_diagDispatcher ?f"
      "con_requestMessage ?f = Some (m\<lparr>tm_buffer := tm_buffer r\<rparr>)" "con_responseMessage ?f \<noteq> None" "con_requestListener ?f = l"
      "\<not> con_responsePendingIsPending ?f"
      using d by (simp_all add: e_def)
    from told_terminates [OF f(1-6) E(2), of sent] obtain q g where
      g: "con_responseSent E job sent ?f = Some g" "\<not> con_isOpen g" "con_flight g = []"
      "\<not> con_connectionTerminationIsPending g" "\<not> con_responsePendingIsPending g"
      "con_trace g = con_trace e @ ResponseSent job sent # (if l then [RequestProcessed q] else []) @ [ReleaseResponseMessage, ConnectionDestroyed]"
      using f(7,8) by auto
    have "con_run E [Processed sent, Runs TransportMessageProcessed] (True, e) = Some (True, g)"
      using d g(1,4,5) by (simp add: e_def con_transportMessageProcessed_def con_post_def con_execute_def con_asyncTransportMessageProcessed_def
        con_processed_rest_def Let_def)
    moreover have "con_run E [JobNegative code job, Runs SendNegativeResponse] (False, c) = Some (True, e)" using run s False e by simp
    moreover have "con_trace e = [SessionResponseSent code, SendMessage ResponseMessage r True]" "con_flight e = [ResponseMessage]" by (simp_all add: e_def)
    ultimately show ?thesis using c r g False by (intro exI [of _ c] exI [of _ e]) auto
  qed
qed

text \<open>A physical request, and one to the functional address that is not answered\<close>

theorem negative_response_names_the_service_witness:
  "(\<exists>c0 c r d. dd_openConnection 0x10 True True example_request = Some c0
    \<and> con_run example_env [JobNegative 0x31 4, Runs SendNegativeResponse] (False, c0) = Some (True, c)
    \<and> con_trace c = [SessionResponseSent 0x31, SendMessage ResponseMessage r True] \<and> tm_data r = [NEGATIVE_RESPONSE_IDENTIFIER, 0x22, 0x31]
    \<and> con_run example_env [Processed True, Runs TransportMessageProcessed] (True, c) = Some (True, d) \<and> \<not> con_isOpen d)
   \<and> (\<exists>c0 c. dd_openConnection 0x10 True True (example_request\<lparr>tm_targetAddress := 0xDF\<rparr>) = Some c0
    \<and> con_run example_env [JobNegative 0x31 4, Runs SendNegativeResponse] (False, c0) = Some (True, c)
    \<and> con_flight c = [] \<and> \<not> con_isOpen c)"
proof -
  have E: "ce_send example_env [SessionResponseSent 0x31]" "ce_terminates example_env 4" "(0x31 :: u8) \<noteq> ISO_RESPONSE_PENDING"
    by (simp_all add: example_env_def ISO_RESPONSE_PENDING_def)
  have f: "tm_wf (example_request\<lparr>tm_targetAddress := 0xDF\<rparr>)" "3 \<le> length (tm_buffer (example_request\<lparr>tm_targetAddress := 0xDF\<rparr>))"
    by (simp_all add: example_request_def tm_wf_def tm_new_def)
  have x: "tm_buffer example_request ! 0 = 0x22" "\<not> isFunctionalAddress (tm_targetAddress example_request)"
    "isFunctionalAddress (tm_targetAddress (example_request\<lparr>tm_targetAddress := 0xDF\<rparr>)) \<and> suppressed_code 0x31"
    by (simp_all add: example_request_def tm_new_def isFunctionalAddress_def suppressed_code_def ISO_REQUEST_OUT_OF_RANGE_def)
  note a = negative_response_names_the_service [OF example_request_wf E(3,1,2), where addr = "0x10" and activate = True and l = True and sent = True]
  note b = negative_response_names_the_service [OF f E(3,1,2), where addr = "0x10" and activate = True and l = True and sent = True]
  show ?thesis using a b x by (simp del: con_run.simps) blast
qed

lemma expired_connection:
  assumes m: "tm_wf m" "3 \<le> length (tm_buffer m)"
  obtains c d where "dd_openConnection addr True l m = Some c" "con_run E [GlobalExpires] (False, c) = Some (False, d)"
    "\<not> con_isOpen d" "\<not> con_isResponseActive d" "con_requestMessage d = None" "con_responseMessage d = None" "con_nestedRequest d = None"
proof -
  have n: "tm_buffer m \<noteq> []" using m(2) by auto
  define c where "c = the (dd_openConnection addr True l m)"
  have c: "dd_openConnection addr True l m = Some c" "con_globalPendingTimeout c" "con_isOpen c" "con_nestedRequest c = None"
    "con_numPendingMessageProcessedCallbacks c = 0" "con_diagDispatcher c" "\<not> con_isResponseActive c" "con_responseMessage c = None"
    using n by (simp_all add: dd_openConnection_def c_def con_open_def con_new_def)
  define d where "d = the (con_expiredGlobal (c\<lparr>con_globalPendingTimeout := False\<rparr>))"
  have d: "con_expiredGlobal (c\<lparr>con_globalPendingTimeout := False\<rparr>) = Some d" "\<not> con_isOpen d" "\<not> con_isResponseActive d"
    "con_requestMessage d = None" "con_responseMessage d = None" "con_nestedRequest d = None"
    using c unfolding d_def
    by (simp_all add: con_expiredGlobal_def con_terminate_def con_terminateNestedRequest_def dd_diagConnectionTerminated_def Let_def con_call_def
        split: option.split)
  have "con_run E [GlobalExpires] (False, c) = Some (False, d)" using c(2) d(1) by simp
  then show thesis using that c(1) d by blast
qed

text \<open>C37: When the global timer has closed a connection before its job responded, a negative response
  is refused with an error, whereas a positive response fails: it takes the response buffer out of
  a request message that is gone before it asks whether the connection is open.\<close>

theorem late_positive_response_fails:
  assumes m: "tm_wf m" "3 \<le> length (tm_buffer m)"
  shows "\<exists>c0 c. dd_openConnection addr True True m = Some c0 \<and> con_run E [GlobalExpires] (False, c0) = Some (False, c)
    \<and> con_sendNegativeResponse code job c = Some (CONNECTION_NOT_OPEN, c) \<and> con_sendPositiveResponse job c = None"
proof -
  obtain c d where c: "dd_openConnection addr True True m = Some c" "con_run E [GlobalExpires] (False, c) = Some (False, d)"
    and d: "\<not> con_isOpen d" "\<not> con_isResponseActive d" "con_requestMessage d = None" "con_responseMessage d = None" "con_nestedRequest d = None"
    by (rule expired_connection [OF m])
  have "con_sendNegativeResponse code job d = Some (CONNECTION_NOT_OPEN, d)" "con_sendPositiveResponse job d = None"
    using d by (simp_all add: con_sendNegativeResponse_def con_sendPositiveResponse_def con_releaseRequestGetResponse_def)
  then show ?thesis using c by blast
qed

theorem late_positive_response_fails_witness:
  "\<exists>c0 c. dd_openConnection 0x10 True True example_request = Some c0
    \<and> con_run example_env [GlobalExpires] (False, c0) = Some (False, c)
    \<and> con_sendPositiveResponse 4 c = None"
  using late_positive_response_fails [OF example_request_wf, where addr = "0x10" and E = example_env and job = 4] by blast

section \<open>A job in time and a late one\<close>

lemma timely_append:
  "con_timely E (xs @ ys) s \<longleftrightarrow> con_timely E xs s \<and> (case con_run E xs s of None \<Rightarrow> True | Some s' \<Rightarrow> con_timely E ys s')"
  by (induction xs arbitrary: s) (auto split: option.split)

lemma timely_rest:
  "\<forall>lab \<in> set labs. \<not> job_step lab \<or> (\<exists>code job. lab = JobNegative code job) \<Longrightarrow> con_timely E labs s"
proof (induction labs arbitrary: s)
  case (Cons lab labs)
  have "\<not> con_late lab s" for s using Cons.prems by (cases s; cases lab) auto
  then show ?case using Cons by (simp split: option.split)
qed simp

text \<open>A job responds in time; another one that comes too late is refused a negative response, and fails with a positive one.\<close>

abbreviation example_labels :: "con_label list" where
  "example_labels \<equiv> replicate 3 JobAddIdentifier @ [JobGetResponse, JobAppend [1, 2]] @ [JobPositive 4, Runs SendPositiveResponse]"

theorem request_is_answered_once_witness:
  "\<exists>c0 r c r' c'. dd_openConnection 0x10 True True example_request = Some c0
    \<and> con_run example_env (example_labels @ [GlobalExpires, Processed True, Runs TransportMessageProcessed]) (False, c0) = Some (r, c)
    \<and> length (con_flight c) \<le> 1 \<and> notices c \<le> of_bool r
    \<and> con_run example_env [GlobalExpires, JobNegative 0x31 7] (False, c0) = Some (r', c') \<and> request_ends c' = of_bool (\<not> con_isOpen c')
    \<and> con_run example_env [GlobalExpires, JobPositive 7] (False, c0) = None"
proof -
  let ?more = "[GlobalExpires, Processed True, Runs TransportMessageProcessed]"
  have E: "ce_terminates example_env j" for j by (simp add: example_env_def)
  obtain c0 d where c0: "dd_openConnection 0x10 True True example_request = Some c0"
    and d: "con_run example_env [GlobalExpires] (False, c0) = Some (False, d)" "\<not> con_isOpen d" "\<not> con_isResponseActive d"
    by (rule expired_connection [OF example_request_wf])
  have x: "ce_send example_env [SessionResponseSent DIAG_OK]" "tm_buffer example_request ! 0 \<noteq> NEGATIVE_RESPONSE_IDENTIFIER"
    "1 \<le> (3::nat)" "3 \<le> MAXIMUM_NUMBER_OF_IDENTIFIERS" "3 + length [1, 2 :: u8] \<le> length (tm_buffer example_request)"
    by (simp_all add: example_env_def example_request_def tm_new_def NEGATIVE_RESPONSE_IDENTIFIER_def MAXIMUM_NUMBER_OF_IDENTIFIERS_def)
  from positive_response_run [OF example_request_wf x(2-5,1), of "0x10" True True 4] c0 obtain c where
    r: "con_run example_env example_labels (False, c0) = Some (True, c)" by auto
  obtain c1 where c1: "dd_openConnection 0x10 True True example_request = Some c1" "con_inv None None False c1"
    using opened [OF example_request_wf] by blast
  have "con_timely example_env example_labels (False, c0)"
    using late_run_fails [OF c1(2) E, of example_labels] r c0 c1(1) by fastforce
  moreover have "con_timely example_env ?more s" for s by (rule timely_rest) simp
  ultimately have t: "con_timely example_env (example_labels @ ?more) (False, c0)" unfolding timely_append [of _ example_labels] r by (simp only: option.case simp_thms)
  have u: "con_timely example_env [GlobalExpires, JobNegative 0x31 7] (False, c0)" by (rule timely_rest) simp
  have v: "\<not> con_timely example_env ([GlobalExpires] @ [JobPositive 7]) (False, c0)"
    unfolding timely_append d(1) using d(2,3) by simp
  note w = request_is_answered_once [OF example_request_wf E, where addr = "0x10" and activate = True, unfolded c0 option.inject ex_simps simp_thms]
  from w [of "example_labels @ ?more"] t obtain r c where
    "con_run example_env (example_labels @ ?more) (False, c0) = Some (r, c)" "length (con_flight c) \<le> 1" "notices c \<le> of_bool r" by auto
  moreover from w [of "[GlobalExpires, JobNegative 0x31 7]"] u obtain r' c' where
    "con_run example_env [GlobalExpires, JobNegative 0x31 7] (False, c0) = Some (r', c')" "request_ends c' = of_bool (\<not> con_isOpen c')"
    by (simp only: if_True) blast
  moreover from w [of "[GlobalExpires] @ [JobPositive 7]"] v have "con_run example_env [GlobalExpires, JobPositive 7] (False, c0) = None"
    by (simp only: if_False append.simps)
  ultimately show ?thesis using c0 by blast
qed

end
