(* ===== verification/UdsSessions.thy ===== *)
theory UdsSessions imports UdsConnection begin

text \<open>
  Diagnostic sessions: \<^verbatim>\<open>DiagSession\<close> of the reference application, the session masks of the jobs, and
  \<^verbatim>\<open>DiagnosticSessionControl\<close> as the session manager, with its timeout, its listeners and the
  dispatcher it may disable.
\<close>

section \<open>Codes\<close>

definition ISO_GENERAL_REJECT :: u8 where "ISO_GENERAL_REJECT = 0x10"
definition ISO_INVALID_FORMAT :: u8 where "ISO_INVALID_FORMAT = 0x13"
definition ISO_BUSY_REPEAT_REQUEST :: u8 where "ISO_BUSY_REPEAT_REQUEST = 0x21"
definition ISO_CONDITIONS_NOT_CORRECT :: u8 where "ISO_CONDITIONS_NOT_CORRECT = 0x22"
definition ISO_REQUEST_SEQUENCE_ERROR :: u8 where "ISO_REQUEST_SEQUENCE_ERROR = 0x24"
definition ISO_GENERAL_PROGRAMMING_FAILURE :: u8 where "ISO_GENERAL_PROGRAMMING_FAILURE = 0x72"
definition NOT_RESPONSIBLE :: u8 where "NOT_RESPONSIBLE = 0xFE"

lemmas code_defs = NEGATIVE_RESPONSE_IDENTIFIER_def ISO_SERVICE_NOT_SUPPORTED_def ISO_SUBFUNCTION_NOT_SUPPORTED_def
  ISO_RESPONSE_TOO_LONG_def ISO_REQUEST_OUT_OF_RANGE_def ISO_RESPONSE_PENDING_def
  ISO_SUBFUNCTION_NOT_SUPPORTED_IN_ACTIVE_SESSION_def ISO_SERVICE_NOT_SUPPORTED_IN_ACTIVE_SESSION_def DIAG_OK_def
  ISO_GENERAL_REJECT_def ISO_INVALID_FORMAT_def ISO_BUSY_REPEAT_REQUEST_def ISO_CONDITIONS_NOT_CORRECT_def
  ISO_REQUEST_SEQUENCE_ERROR_def ISO_GENERAL_PROGRAMMING_FAILURE_def NOT_RESPONSIBLE_def

section \<open>Sessions\<close>

text \<open>The session objects; the last one exists on platforms that support programming in the application.\<close>

datatype session = DefaultSession | ExtendedSession | ProgrammingSession | AppProgrammingSession

definition SESSION_DEFAULT :: u8 where "SESSION_DEFAULT = 1"
definition SESSION_PROGRAMMING :: u8 where "SESSION_PROGRAMMING = 2"
definition SESSION_EXTENDED :: u8 where "SESSION_EXTENDED = 3"

lemmas session_defs = SESSION_DEFAULT_def SESSION_PROGRAMMING_def SESSION_EXTENDED_def

fun session_type :: "session \<Rightarrow> u8" where
  "session_type DefaultSession = SESSION_DEFAULT"
| "session_type ExtendedSession = SESSION_EXTENDED"
| "session_type ProgrammingSession = SESSION_PROGRAMMING"
| "session_type AppProgrammingSession = SESSION_PROGRAMMING"

fun session_index :: "session \<Rightarrow> nat" where
  "session_index DefaultSession = 1"
| "session_index ExtendedSession = 3"
| "session_index ProgrammingSession = 4"
| "session_index AppProgrammingSession = 3"

text \<open>Sessions are compared by their index.\<close>

definition session_equal :: "session \<Rightarrow> session \<Rightarrow> bool" where
  "session_equal x y \<longleftrightarrow> session_index x = session_index y"

fun isTransitionPossible :: "bool \<Rightarrow> session \<Rightarrow> u8 \<Rightarrow> u8" where
  "isTransitionPossible prog DefaultSession target =
     (if target = SESSION_DEFAULT \<or> target = SESSION_EXTENDED then DIAG_OK
      else if target = SESSION_PROGRAMMING
      then (if prog then DIAG_OK else ISO_SUBFUNCTION_NOT_SUPPORTED_IN_ACTIVE_SESSION)
      else ISO_SUBFUNCTION_NOT_SUPPORTED)"
| "isTransitionPossible prog ExtendedSession target =
     (if target = SESSION_DEFAULT \<or> target = SESSION_EXTENDED \<or> target = SESSION_PROGRAMMING then DIAG_OK
      else ISO_SUBFUNCTION_NOT_SUPPORTED)"
| "isTransitionPossible prog ProgrammingSession target =
     (if target = SESSION_DEFAULT \<or> target = SESSION_PROGRAMMING then DIAG_OK else ISO_SUBFUNCTION_NOT_SUPPORTED)"
| "isTransitionPossible prog AppProgrammingSession target =
     (if target = SESSION_DEFAULT \<or> target = SESSION_EXTENDED \<or> target = SESSION_PROGRAMMING then DIAG_OK
      else ISO_SUBFUNCTION_NOT_SUPPORTED)"

fun getTransitionResult :: "bool \<Rightarrow> session \<Rightarrow> u8 \<Rightarrow> session" where
  "getTransitionResult prog DefaultSession target =
     (if target = SESSION_EXTENDED then ExtendedSession
      else if prog \<and> target = SESSION_PROGRAMMING then AppProgrammingSession
      else DefaultSession)"
| "getTransitionResult prog ExtendedSession target =
     (if target = SESSION_DEFAULT then DefaultSession
      else if target = SESSION_PROGRAMMING then (if prog then AppProgrammingSession else ProgrammingSession)
      else ExtendedSession)"
| "getTransitionResult prog ProgrammingSession target =
     (if target = SESSION_DEFAULT then DefaultSession else ProgrammingSession)"
| "getTransitionResult prog AppProgrammingSession target =
     (if target = SESSION_DEFAULT then DefaultSession
      else if target = SESSION_EXTENDED then ExtendedSession
      else AppProgrammingSession)"

text \<open>A mask has a bit for each session index.\<close>

definition mask_match :: "u8 \<Rightarrow> session \<Rightarrow> bool" where
  "mask_match m t \<longleftrightarrow> m AND push_bit (session_index t) 1 > 0"

definition mask_add :: "session \<Rightarrow> u8 \<Rightarrow> u8" where
  "mask_add t m = m OR push_bit (session_index t) 1"

definition mask_remove :: "session \<Rightarrow> u8 \<Rightarrow> u8" where
  "mask_remove t m = m AND NOT (push_bit (session_index t) 1)"

definition mask_open :: u8 where "mask_open = NOT 0"

lemma mask_match_bit: "mask_match m t \<longleftrightarrow> bit m (session_index t)"
proof -
  have "m AND push_bit (session_index t) 1 > 0 \<longleftrightarrow> m AND 2 ^ session_index t \<noteq> 0" by (simp add: word_neq_0_conv push_bit_eq_mult)
  then show ?thesis unfolding mask_match_def by (simp only: and_exp_eq_0_iff_not_bit not_not)
qed

lemma mask_match_open [simp]: "mask_match mask_open t"
  by (cases t) (simp_all add: mask_match_bit mask_open_def bit_not_iff)

lemma mask_match_add [simp]: "mask_match (mask_add s m) t \<longleftrightarrow> session_equal s t \<or> mask_match m t"
  unfolding mask_match_bit mask_add_def session_equal_def
  by (cases s; cases t) (simp_all add: bit_or_iff bit_push_bit_iff)

section \<open>DiagnosticSessionControl\<close>

definition TESTER_PRESENT_TIMEOUT_MS :: nat where "TESTER_PRESENT_TIMEOUT_MS = 5000"

text \<open>What the manager tells its listeners, its persistence and the lifecycle.\<close>

datatype session_call =
    DiagSessionChanged session
  | DiagSessionResponseSent u8
  | ReadSession
  | WriteSession u8
  | InitComplete
  | RequestHardReset

record session_control =
  sc_current :: session
  sc_testerPresent :: "nat option"
  sc_dispatcher :: bool
  sc_enabled :: bool
  sc_nextSessionTimeout :: nat
  sc_initializing :: bool
  sc_requestProgrammingSession :: bool
  sc_testerPresentReceived :: bool
  sc_timeout :: "nat option"
  sc_isActive :: bool
  sc_initCompleteDelegate :: bool
  sc_listeners :: "nat list"
  sc_calls :: "session_call list"

definition sc_new :: session_control where
  "sc_new = \<lparr>sc_current = DefaultSession, sc_testerPresent = None, sc_dispatcher = False, sc_enabled = True,
     sc_nextSessionTimeout = TESTER_PRESENT_TIMEOUT_MS, sc_initializing = False, sc_requestProgrammingSession = False,
     sc_testerPresentReceived = False, sc_timeout = None, sc_isActive = False, sc_initCompleteDelegate = False,
     sc_listeners = [], sc_calls = []\<rparr>"

definition sc_call :: "session_call \<Rightarrow> session_control \<Rightarrow> session_control" where
  "sc_call x s = s\<lparr>sc_calls := sc_calls s @ [x]\<rparr>"

definition sc_notify :: "session_call \<Rightarrow> session_control \<Rightarrow> session_control" where
  "sc_notify x s = s\<lparr>sc_calls := sc_calls s @ map (\<lambda>_. x) (sc_listeners s)\<rparr>"

definition sc_init :: "nat \<Rightarrow> bool \<Rightarrow> session_control \<Rightarrow> session_control" where
  "sc_init testerPresent initializedDelegate s =
     sc_call ReadSession (s\<lparr>sc_initCompleteDelegate := initializedDelegate, sc_testerPresent := Some testerPresent, sc_initializing := True\<rparr>)"

definition sc_shutdown :: "session_control \<Rightarrow> session_control" where
  "sc_shutdown s = s\<lparr>sc_timeout := None, sc_isActive := False\<rparr>"

definition sc_setTimeout :: "nat \<Rightarrow> session_control \<Rightarrow> session_control" where
  "sc_setTimeout timeout s = s\<lparr>sc_isActive := True, sc_timeout := Some timeout\<rparr>"

definition sc_startTimeout :: "session_control \<Rightarrow> session_control" where
  "sc_startTimeout s =
     (if session_equal (sc_current s) ExtendedSession \<or> session_equal (sc_current s) ProgrammingSession
      then (sc_setTimeout (sc_nextSessionTimeout s) s)\<lparr>sc_nextSessionTimeout := TESTER_PRESENT_TIMEOUT_MS\<rparr>
      else s)"

definition sc_stopTimeout :: "session_control \<Rightarrow> session_control" where
  "sc_stopTimeout s = s\<lparr>sc_timeout := None, sc_isActive := True\<rparr>"

definition sc_switchSession :: "session \<Rightarrow> session_control \<Rightarrow> session_control" where
  "sc_switchSession newSession s =
     (let s = (if session_equal newSession DefaultSession then sc_stopTimeout (s\<lparr>sc_current := newSession\<rparr>)
               else if session_equal newSession ExtendedSession
               then sc_setTimeout TESTER_PRESENT_TIMEOUT_MS (s\<lparr>sc_current := newSession\<rparr>)
               else if session_equal newSession ProgrammingSession
               then s\<lparr>sc_enabled := (if sc_dispatcher s then False else sc_enabled s), sc_requestProgrammingSession := True\<rparr>
               else s\<lparr>sc_current := newSession\<rparr>)
      in sc_notify (DiagSessionChanged (sc_current s)) s)"

definition sc_resetToDefaultSession :: "bool \<Rightarrow> session_control \<Rightarrow> session_control" where
  "sc_resetToDefaultSession prog s = sc_switchSession (getTransitionResult prog (sc_current s) SESSION_DEFAULT) s"

definition sc_acceptedJob :: "nat \<Rightarrow> session_control \<Rightarrow> session_control" where
  "sc_acceptedJob job s = sc_stopTimeout (s\<lparr>sc_testerPresentReceived := (sc_testerPresent s = Some job)\<rparr>)"

text \<open>\<^verbatim>\<open>responseSent\<close> of the session manager\<close>

definition sc_responseSent :: "u8 \<Rightarrow> session_control \<Rightarrow> session_control" where
  "sc_responseSent result s =
     (let s = (if result \<noteq> ISO_RESPONSE_PENDING then sc_startTimeout s else s)
      in if sc_testerPresentReceived s then s\<lparr>sc_testerPresentReceived := False\<rparr>
         else sc_notify (DiagSessionResponseSent result) s)"

text \<open>\<^verbatim>\<open>responseSent\<close> of the job, after it has terminated the connection\<close>

definition sc_jobResponseSent :: "session_control \<Rightarrow> session_control" where
  "sc_jobResponseSent s =
     (if sc_requestProgrammingSession s
      then sc_call (WriteSession SESSION_PROGRAMMING) (s\<lparr>sc_requestProgrammingSession := False\<rparr>) else s)"

definition sc_addDiagSessionListener :: "nat \<Rightarrow> session_control \<Rightarrow> session_control" where
  "sc_addDiagSessionListener l s = s\<lparr>sc_listeners := sc_listeners s @ [l]\<rparr>"

definition sc_removeDiagSessionListener :: "nat \<Rightarrow> session_control \<Rightarrow> session_control" where
  "sc_removeDiagSessionListener l s = s\<lparr>sc_listeners := remove1 l (sc_listeners s)\<rparr>"

definition sc_expired :: "session_control \<Rightarrow> session_control" where
  "sc_expired s = (if session_equal (sc_current s) ExtendedSession then sc_switchSession DefaultSession s else s)"

definition sc_sessionRead :: "session_control \<Rightarrow> session_control" where
  "sc_sessionRead s =
     (let s = sc_switchSession DefaultSession s;
          s = (if sc_initCompleteDelegate s then sc_call InitComplete s else s)
      in s\<lparr>sc_initializing := False\<rparr>)"

definition sc_sessionWritten :: "bool \<Rightarrow> session_control \<Rightarrow> session_control" where
  "sc_sessionWritten successful s = (if successful then sc_call RequestHardReset s else s)"

section \<open>Runs\<close>

text \<open>
  What happens to the session manager: jobs are accepted and answered, its own job is asked for a
  session, the timeout expires, the persistence answers, and the system acts. \<open>prog\<close> is whether the
  programming session is supported.
\<close>

datatype session_label =
    InitSession nat bool
  | Accepted nat
  | Responded u8
  | Requested u8
  | JobResponded
  | TimeoutExpires
  | SessionRead
  | SessionWritten bool
  | ListenerAdded nat
  | ListenerRemoved nat
  | ResetToDefault
  | ShutdownSession

fun sc_step :: "bool \<Rightarrow> session_label \<Rightarrow> session_control \<Rightarrow> session_control" where
  "sc_step prog (InitSession tp d) s = sc_init tp d s"
| "sc_step prog (Accepted j) s = sc_acceptedJob j s"
| "sc_step prog (Responded code) s = sc_responseSent code s"
| "sc_step prog (Requested t) s =
     (if isTransitionPossible prog (sc_current s) t = DIAG_OK
      then sc_switchSession (getTransitionResult prog (sc_current s) t) s else s)"
| "sc_step prog JobResponded s = sc_jobResponseSent s"
| "sc_step prog TimeoutExpires s = (if sc_timeout s = None then s else sc_expired (s\<lparr>sc_timeout := None\<rparr>))"
| "sc_step prog SessionRead s = sc_sessionRead s"
| "sc_step prog (SessionWritten ok) s = sc_sessionWritten ok s"
| "sc_step prog (ListenerAdded l) s = sc_addDiagSessionListener l s"
| "sc_step prog (ListenerRemoved l) s = sc_removeDiagSessionListener l s"
| "sc_step prog ResetToDefault s = sc_resetToDefaultSession prog s"
| "sc_step prog ShutdownSession s = sc_shutdown s"

definition sc_run :: "bool \<Rightarrow> session_label list \<Rightarrow> session_control \<Rightarrow> session_control" where
  "sc_run prog labs s = fold (sc_step prog) labs s"

definition sc_inv :: "session_control \<Rightarrow> bool" where
  "sc_inv s \<longleftrightarrow> sc_current s \<noteq> ProgrammingSession \<and> (sc_timeout s \<noteq> None \<longrightarrow> session_equal (sc_current s) ExtendedSession)"

lemmas sc_defs = sc_init_def sc_call_def sc_notify_def sc_shutdown_def sc_setTimeout_def sc_startTimeout_def sc_stopTimeout_def
  sc_acceptedJob_def sc_responseSent_def sc_jobResponseSent_def sc_addDiagSessionListener_def sc_removeDiagSessionListener_def

lemma session_equal_iff:
  "session_equal s DefaultSession \<longleftrightarrow> s = DefaultSession" "session_equal s ProgrammingSession \<longleftrightarrow> s = ProgrammingSession"
  "session_equal s ExtendedSession \<longleftrightarrow> s = ExtendedSession \<or> s = AppProgrammingSession"
  by (cases s; simp add: session_equal_def)+

lemma switch_current:
  "sc_current (sc_switchSession t s) = (if t = ProgrammingSession then sc_current s else t)"
  "sc_timeout (sc_switchSession t s) = (if t = DefaultSession then None
     else if t = ProgrammingSession then sc_timeout s else Some TESTER_PRESENT_TIMEOUT_MS)"
  by (cases t; simp add: sc_switchSession_def session_equal_iff sc_defs)+

lemma switch_inv: "sc_inv s \<Longrightarrow> sc_inv (sc_switchSession t s)"
  by (cases t) (auto simp: sc_inv_def switch_current session_equal_iff)

lemma session_step_inv: "sc_inv s \<Longrightarrow> sc_inv (sc_step prog lab s)"
proof (cases lab)
  case (Requested t)
  then show "sc_inv s \<Longrightarrow> ?thesis" using switch_inv by simp
next
  case TimeoutExpires
  have "sc_inv s \<Longrightarrow> sc_inv (s\<lparr>sc_timeout := None\<rparr>)" by (simp add: sc_inv_def)
  then show "sc_inv s \<Longrightarrow> ?thesis" using TimeoutExpires switch_inv by (auto simp: sc_expired_def)
next
  case SessionRead
  then show "sc_inv s \<Longrightarrow> ?thesis" using switch_inv [of s DefaultSession] by (auto simp: sc_sessionRead_def sc_inv_def sc_defs Let_def)
next
  case ResetToDefault
  then show "sc_inv s \<Longrightarrow> ?thesis" using switch_inv by (simp add: sc_resetToDefaultSession_def)
qed (auto simp: sc_inv_def sc_defs session_equal_iff sc_sessionWritten_def Let_def)

lemma session_run_inv: "sc_inv s \<Longrightarrow> sc_inv (sc_run prog labs s)"
  by (induction labs arbitrary: s) (simp_all add: sc_run_def session_step_inv)

lemma responded_expires:
  assumes "sc_inv s" "code \<noteq> ISO_RESPONSE_PENDING"
  shows "sc_current (sc_run prog [Responded code, TimeoutExpires] s) = DefaultSession"
  using assms by (cases "sc_current s") (auto simp: sc_run_def sc_inv_def session_equal_iff sc_defs sc_expired_def switch_current Let_def)

end
