(* ===== verification/UdsJobs.thy ===== *)
theory UdsJobs imports UdsSessions begin

text \<open>
  The diagnostic jobs of \<^verbatim>\<open>bsw/uds\<close>: a tree of nodes linked by first child and next sibling, in which
  a node is added under the job that implements its prefix, and a request is given from the root to
  the job that verifies it. The nodes are kept in a store; a pointer is an index. A request is a
  part of the buffer of the connection's request message.
\<close>

section \<open>Jobs\<close>

text \<open>The classes of the jobs; a routine node refers to its routine, whose sequence check may be disabled.\<close>

datatype job_kind =
    RootJob
  | PlainService
  | ReadDataService
  | WriteDataService
  | InputOutputService
  | RoutineService
  | PlainSubfunction
  | ReadMemory "u8 list"
  | WriteMemory
  | TesterPresentService
  | SessionControlService
  | CommunicationService
  | ControlDTCService
  | ClearDTCService
  | ReadDTCService
  | RoutineJob nat bool
  | ResetJob
  | PowerDownJob
  | RapidShutdownJob

record job =
  j_kind :: job_kind
  j_request :: "u8 list option"
  j_firstChild :: "nat option"
  j_nextJob :: "nat option"
  j_allowedSessions :: u8
  j_responseLength :: nat
  j_requestLength :: nat
  j_prefixLength :: nat
  j_requestPayloadLength :: nat
  j_defaultCode :: u8
  j_suppressEnabled :: bool
  j_authenticator :: "nat option"

type_synonym job_store = "nat \<Rightarrow> job option"

definition VARIABLE_LENGTH :: nat where "VARIABLE_LENGTH = 0xFF"
definition SUPPRESS_POSITIVE_RESPONSE_MASK :: u8 where "SUPPRESS_POSITIVE_RESPONSE_MASK = 0x80"
definition SHUTDOWN_TIME :: u8 where "SHUTDOWN_TIME = 10"

text \<open>The constructor of \<^verbatim>\<open>AbstractDiagJob\<close>, and those of the classes derived from it\<close>

definition job_new :: "job_kind \<Rightarrow> u8 list option \<Rightarrow> nat \<Rightarrow> nat \<Rightarrow> nat \<Rightarrow> nat \<Rightarrow> u8 \<Rightarrow> job option" where
  "job_new kind request requestLength prefixLength requestPayloadLength responseLength sessionMask = do {
     ensure (requestLength > 0 \<longrightarrow> requestLength > prefixLength);
     Some \<lparr>j_kind = kind, j_request = request, j_firstChild = None, j_nextJob = None, j_allowedSessions = sessionMask,
       j_responseLength = responseLength, j_requestLength = requestLength, j_prefixLength = prefixLength,
       j_requestPayloadLength = requestPayloadLength, j_defaultCode = ISO_GENERAL_REJECT, j_suppressEnabled = False,
       j_authenticator = None\<rparr> }"

definition root_new :: "job option" where
  "root_new = map_option (\<lambda>j. j\<lparr>j_defaultCode := ISO_SERVICE_NOT_SUPPORTED\<rparr>)
     (job_new RootJob None 0 0 VARIABLE_LENGTH VARIABLE_LENGTH mask_open)"

definition service_new :: "job_kind \<Rightarrow> u8 \<Rightarrow> nat \<Rightarrow> nat \<Rightarrow> u8 \<Rightarrow> job option" where
  "service_new kind service requestPayloadLength responseLength sessionMask =
     map_option (\<lambda>j. j\<lparr>j_defaultCode := ISO_SUBFUNCTION_NOT_SUPPORTED\<rparr>)
       (job_new kind (Some [service]) 1 0 requestPayloadLength responseLength sessionMask)"

definition subfunction_new :: "job_kind \<Rightarrow> u8 list \<Rightarrow> nat \<Rightarrow> nat \<Rightarrow> u8 \<Rightarrow> job option" where
  "subfunction_new kind request requestPayloadLength responseLength sessionMask =
     job_new kind (Some request) 2 1 requestPayloadLength responseLength sessionMask"

definition identifier_new :: "job_kind \<Rightarrow> u8 list \<Rightarrow> u8 \<Rightarrow> job option" where
  "identifier_new kind request sessionMask = job_new kind (Some request) 3 1 VARIABLE_LENGTH VARIABLE_LENGTH sessionMask"

definition routine_new :: "nat \<Rightarrow> bool \<Rightarrow> u8 list \<Rightarrow> u8 \<Rightarrow> job option" where
  "routine_new routine sequenceCheck request sessionMask =
     job_new (RoutineJob routine sequenceCheck) (Some request) (length request) 2 VARIABLE_LENGTH VARIABLE_LENGTH sessionMask"

definition default_code :: "u8 \<Rightarrow> job option \<Rightarrow> job option" where
  "default_code code = map_option (\<lambda>j. j\<lparr>j_defaultCode := code\<rparr>)"

definition enable_suppress :: "job option \<Rightarrow> job option" where
  "enable_suppress = map_option (\<lambda>j. j\<lparr>j_suppressEnabled := True\<rparr>)"

definition readDataByIdentifier :: "job option" where
  "readDataByIdentifier = default_code ISO_REQUEST_OUT_OF_RANGE (service_new ReadDataService 0x22 VARIABLE_LENGTH VARIABLE_LENGTH mask_open)"

definition writeDataByIdentifier :: "job option" where
  "writeDataByIdentifier = default_code ISO_REQUEST_OUT_OF_RANGE (service_new WriteDataService 0x2E VARIABLE_LENGTH VARIABLE_LENGTH mask_open)"

definition inputOutputControl :: "job option" where
  "inputOutputControl = default_code ISO_REQUEST_OUT_OF_RANGE (service_new InputOutputService 0x2F VARIABLE_LENGTH VARIABLE_LENGTH mask_open)"

definition routineControl :: "job option" where
  "routineControl = enable_suppress (default_code ISO_SUBFUNCTION_NOT_SUPPORTED
     (service_new RoutineService 0x31 VARIABLE_LENGTH VARIABLE_LENGTH mask_open))"

definition routineSubfunction :: "u8 \<Rightarrow> job option" where
  "routineSubfunction sub = default_code ISO_REQUEST_OUT_OF_RANGE
     (subfunction_new PlainSubfunction [0x31, sub] VARIABLE_LENGTH VARIABLE_LENGTH mask_open)"

definition ecuReset :: "job option" where
  "ecuReset = enable_suppress (service_new PlainService 0x11 VARIABLE_LENGTH VARIABLE_LENGTH mask_open)"

definition hardReset :: "job option" where
  "hardReset = subfunction_new ResetJob [0x11, 0x01] 0 0 mask_open"

definition softReset :: "job option" where
  "softReset = subfunction_new ResetJob [0x11, 0x03] 0 0
     (mask_add ExtendedSession (mask_add ProgrammingSession (mask_add DefaultSession 0)))"

definition powerDown :: "job option" where
  "powerDown = subfunction_new PowerDownJob [0x11, 0x41] 0 0 (mask_add ExtendedSession (mask_add DefaultSession 0))"

definition enableRapidPowerShutdown :: "job option" where
  "enableRapidPowerShutdown = subfunction_new RapidShutdownJob [0x11, 0x04] 0 1 (mask_add ExtendedSession (mask_add DefaultSession 0))"

definition testerPresent :: "job option" where
  "testerPresent = enable_suppress (service_new TesterPresentService 0x3E 1 1 mask_open)"

definition diagnosticSessionControl :: "job option" where
  "diagnosticSessionControl = enable_suppress (service_new SessionControlService 0x10 VARIABLE_LENGTH VARIABLE_LENGTH mask_open)"

definition communicationControl :: "job option" where
  "communicationControl = enable_suppress (service_new CommunicationService 0x28 VARIABLE_LENGTH 1 (mask_add ExtendedSession 0))"

definition controlDTCSetting :: "job option" where
  "controlDTCSetting = enable_suppress (service_new ControlDTCService 0x85 1 1 (mask_add ExtendedSession 0))"

definition clearDiagnosticInformation :: "job option" where
  "clearDiagnosticInformation = default_code ISO_REQUEST_OUT_OF_RANGE (service_new ClearDTCService 0x14 3 0 mask_open)"

definition readDTCInformation :: "job option" where
  "readDTCInformation = default_code ISO_SUBFUNCTION_NOT_SUPPORTED (service_new ReadDTCService 0x19 VARIABLE_LENGTH VARIABLE_LENGTH mask_open)"

definition identifier_request :: "u8 \<Rightarrow> u16 \<Rightarrow> u8 list" where
  "identifier_request sid identifier = [sid, ucast (drop_bit 8 identifier), ucast identifier]"

definition readIdentifierFromMemory :: "u16 \<Rightarrow> u8 list \<Rightarrow> u8 \<Rightarrow> job option" where
  "readIdentifierFromMemory identifier responseData sessionMask =
     identifier_new (ReadMemory responseData) (identifier_request 0x22 identifier) sessionMask"

definition writeIdentifierToMemory :: "u16 \<Rightarrow> u8 \<Rightarrow> job option" where
  "writeIdentifierToMemory identifier sessionMask = identifier_new WriteMemory (identifier_request 0x2E identifier) sessionMask"

definition demoRoutine :: "nat \<Rightarrow> u8 \<Rightarrow> u16 \<Rightarrow> job option" where
  "demoRoutine routine sub routineId =
     routine_new routine False [0x31, sub, ucast (drop_bit 8 routineId), ucast routineId] mask_open"

section \<open>The tree\<close>

text \<open>\<^verbatim>\<open>AbstractDiagJob::compare\<close>, which reads beyond an array that is too short\<close>

definition job_compare :: "u8 list option \<Rightarrow> u8 list option \<Rightarrow> nat \<Rightarrow> bool option" where
  "job_compare data1 data2 len =
     (if len = 0 then Some True
      else case (data1, data2) of
          (None, None) \<Rightarrow> Some True
        | (Some x, Some y) \<Rightarrow> do { ensure (len \<le> length x \<and> len \<le> length y); Some (take len x = take len y) }
        | _ \<Rightarrow> Some False)"

definition job_equal :: "job \<Rightarrow> job \<Rightarrow> bool option" where
  "job_equal x y =
     (if j_request x \<noteq> None \<and> j_request y \<noteq> None \<and> j_requestLength x = j_requestLength y \<and> j_prefixLength x = j_prefixLength y
      then job_compare (j_request x) (j_request y) (j_requestLength x) else Some False)"

definition isChild :: "job \<Rightarrow> u8 list option \<Rightarrow> nat \<Rightarrow> bool option" where
  "isChild j prefix len = (if len = j_prefixLength j then job_compare prefix (j_request j) len else Some False)"

definition isFamily :: "job \<Rightarrow> u8 list option \<Rightarrow> nat \<Rightarrow> bool option" where
  "isFamily j prefix len = (if len \<le> j_prefixLength j then job_compare prefix (j_request j) len else Some False)"

definition job_set :: "nat \<Rightarrow> (job \<Rightarrow> job) \<Rightarrow> job_store \<Rightarrow> job_store option" where
  "job_set i f h = do { j \<leftarrow> h i; Some (h(i \<mapsto> f j)) }"

definition setNextJob :: "nat \<Rightarrow> nat option \<Rightarrow> job_store \<Rightarrow> job_store option" where
  "setNextJob i p h = do {
     eq \<leftarrow> (case p of None \<Rightarrow> Some False
           | Some q \<Rightarrow> if q = i then Some True else do { Q \<leftarrow> h q; I \<leftarrow> h i; job_equal Q I });
     if eq then Some h else job_set i (\<lambda>j. j\<lparr>j_nextJob := p\<rparr>) h }"

text \<open>The children of the first pointer: the last of them, or nothing when one is the job or equal to it.\<close>

partial_function (option) job_scan :: "job_store \<Rightarrow> nat \<Rightarrow> nat \<Rightarrow> nat option option" where
  "job_scan h j cur = do {
     C \<leftarrow> h cur; J \<leftarrow> h j; eq \<leftarrow> job_equal C J;
     if cur = j \<or> eq then Some None
     else do {
       cur \<leftarrow> (case j_nextJob C of None \<Rightarrow> Some cur | Some n \<Rightarrow> Some n);
       C \<leftarrow> h cur;
       if j_nextJob C \<noteq> None then job_scan h j cur
       else do {
         eq \<leftarrow> job_equal C J;
         Some (if cur = j \<or> eq then None else Some cur) } } }"

datatype add_result = JobAdded | JobNotAdded

definition job_append :: "nat \<Rightarrow> nat \<Rightarrow> job_store \<Rightarrow> (add_result \<times> job_store) option" where
  "job_append p j h = do {
     P \<leftarrow> h p;
     l \<leftarrow> (case j_firstChild P of None \<Rightarrow> do { h \<leftarrow> job_set p (\<lambda>P. P\<lparr>j_firstChild := Some j\<rparr>) h; Some (Some h) }
          | Some c \<Rightarrow> do {
              l \<leftarrow> job_scan h j c;
              (case l of None \<Rightarrow> Some None | Some l \<Rightarrow> do { h \<leftarrow> setNextJob l (Some j) h; Some (Some h) }) });
     (case l of None \<Rightarrow> Some (JobNotAdded, h)
      | Some h \<Rightarrow> do {
          h \<leftarrow> job_set j (\<lambda>J. J\<lparr>j_nextJob := None, j_firstChild := None\<rparr>) h;
          Some (JobAdded, h) }) }"

text \<open>
  What \<^verbatim>\<open>addAbstractDiagJob\<close> does before it asks its children: it answers, or gives the first child
  to ask.
\<close>

definition job_add_here :: "nat \<Rightarrow> nat \<Rightarrow> job_store \<Rightarrow> ((add_result \<times> job_store) + nat option) option" where
  "job_add_here p j h =
     (if j = p then Some (Inl (JobNotAdded, h))
      else do {
        P \<leftarrow> h p; J \<leftarrow> h j; eq \<leftarrow> job_equal J P;
        if eq \<or> j_firstChild P = Some j then Some (Inl (JobNotAdded, h))
        else do {
          child \<leftarrow> isChild J (j_request P) (j_requestLength P);
          if child then map_option Inl (job_append p j h)
          else do {
            family \<leftarrow> isFamily J (j_request P) (j_requestLength P);
            if family then Some (Inr (j_firstChild P)) else Some (Inl (JobNotAdded, h)) } } })"

partial_function (option) job_add_children :: "nat \<Rightarrow> nat option \<Rightarrow> job_store \<Rightarrow> (add_result \<times> job_store) option" where
  "job_add_children j cur h =
     (case cur of None \<Rightarrow> Some (JobNotAdded, h)
      | Some p \<Rightarrow> do {
          x \<leftarrow> job_add_here p j h;
          (r, h) \<leftarrow> (case x of Inl a \<Rightarrow> Some a | Inr c \<Rightarrow> job_add_children j c h);
          if r = JobAdded then Some (JobAdded, h)
          else do { P \<leftarrow> h p; job_add_children j (j_nextJob P) h } })"

definition addAbstractDiagJob :: "nat \<Rightarrow> nat \<Rightarrow> job_store \<Rightarrow> (add_result \<times> job_store) option" where
  "addAbstractDiagJob p j h = do {
     x \<leftarrow> job_add_here p j h;
     (case x of Inl a \<Rightarrow> Some a | Inr c \<Rightarrow> job_add_children j c h) }"

partial_function (option) removeAbstractDiagJob :: "nat \<Rightarrow> nat \<Rightarrow> job_store \<Rightarrow> job_store option" where
  "removeAbstractDiagJob p j h =
     (if j = p then Some h
      else do {
        P \<leftarrow> h p;
        if j_firstChild P = Some j
        then do { J \<leftarrow> h j; Some (h(p \<mapsto> P\<lparr>j_firstChild := j_nextJob J\<rparr>)) }
        else do {
          h \<leftarrow> (case j_firstChild P of None \<Rightarrow> Some h | Some c \<Rightarrow> removeAbstractDiagJob c j h);
          P \<leftarrow> h p;
          if j_nextJob P = Some j then do { J \<leftarrow> h j; setNextJob p (j_nextJob J) h }
          else (case j_nextJob P of None \<Rightarrow> Some h | Some n \<Rightarrow> removeAbstractDiagJob n j h) } })"

definition getRequestId :: "job \<Rightarrow> u32" where
  "getRequestId j = (case j_request j of None \<Rightarrow> 0
     | Some bs \<Rightarrow> foldl (\<lambda>res b. push_bit 8 res + ucast b) 0 (take (min 4 (j_requestLength j)) bs))"

end
