(* ===== verification/UdsExecute.thy ===== *)
theory UdsExecute imports UdsJobs begin

text \<open>
  The execution of a request in the tree of jobs: \<^verbatim>\<open>verify\<close> and \<^verbatim>\<open>process\<close> of every class of job,
  \<^verbatim>\<open>AbstractDiagJob::execute\<close> and \<^verbatim>\<open>DiagJobRoot::execute\<close>. The jobs act on the connection, the session
  manager and their own data.
\<close>

section \<open>State\<close>

datatype communication_state =
    DISABLE_NORMAL_MESSAGE_TRANSMISSION
  | ENABLE_NORMAL_MESSAGE_TRANSMISSION
  | DISABLE_NM_MESSAGE_TRANSMISSION
  | ENABLE_NN_MESSAGE_TRANSMISSION
  | DISABLE_ALL_MESSAGE_TRANSMISSION
  | ENABLE_ALL_MESSAGE_TRANSMISSION
  | ENABLE_REC_DISABLE_NORMAL_MESSAGE_SEND_TRANSMISSION
  | ENABLE_REC_DISABLE_NM_SEND_TRANSMISSION
  | ENABLE_REC_DISABLE_ALL_SEND_TRANSMISSION
  | DISABLE_REC_ENABLE_NORMAL_MESSAGE_SEND_TRANSMISSION
  | DISABLE_REC_ENABLE_NM_SEND_TRANSMISSION
  | DISABLE_REC_ENABLE_ALL_SEND_TRANSMISSION

text \<open>The listeners of the communication state, the calls to them, and which nodes they answer for.\<close>

datatype communication_call = StateChanged communication_state | SubStateChanged bool u16

record communication_control =
  cc_state :: communication_state
  cc_subNodeIdDisabledTx :: u16
  cc_neverNotified :: bool
  cc_listeners :: nat
  cc_subListeners :: "(bool \<Rightarrow> u16 \<Rightarrow> bool) list"
  cc_calls :: "communication_call list"

text \<open>
  What the jobs of one request act on. The last component records which jobs have accepted it.
\<close>

record diag_state =
  ds_con :: diag_connection
  ds_session :: session_control
  ds_communication :: communication_control
  ds_memory :: "nat \<Rightarrow> u8 list"
  ds_started :: "nat \<Rightarrow> bool"
  ds_accepted :: "nat list"

text \<open>
  The environment: the authenticators, whether programming is supported in the application, and
  whether the lifecycle permits a reset.
\<close>

record job_env =
  je_isAuthenticated :: "nat \<Rightarrow> u16 \<Rightarrow> bool"
  je_notAuthenticatedCode :: "nat \<Rightarrow> u8"
  je_programming :: bool
  je_modeChangePossible :: bool

text \<open>A request is the offset and the length of a part of the buffer of the request message.\<close>

type_synonym diag_request = "nat \<times> nat"

definition request_byte :: "diag_connection \<Rightarrow> diag_request \<Rightarrow> nat \<Rightarrow> u8 option" where
  "request_byte c r i = do {
     m \<leftarrow> con_requestMessage c;
     ensure (fst r + i < length (tm_buffer m));
     Some (tm_buffer m ! (fst r + i)) }"

definition request_bytes :: "diag_connection \<Rightarrow> diag_request \<Rightarrow> nat \<Rightarrow> u8 list option" where
  "request_bytes c r n = do {
     m \<leftarrow> con_requestMessage c;
     ensure (fst r + n \<le> length (tm_buffer m));
     Some (take n (drop (fst r) (tm_buffer m))) }"

text \<open>The length is a 16 bit integer, so it wraps around when more is taken off than there is.\<close>

definition request_advance :: "nat \<Rightarrow> diag_request \<Rightarrow> diag_request" where
  "request_advance k r = (fst r + k, to_u16 (snd r + 65536 - k))"

section \<open>verify\<close>

definition service_verify :: "job \<Rightarrow> session \<Rightarrow> diag_connection \<Rightarrow> diag_request \<Rightarrow> u8 option" where
  "service_verify J s c r = do {
     b \<leftarrow> request_byte c r 0;
     bs \<leftarrow> j_request J;
     ensure (bs \<noteq> []);
     Some (if b \<noteq> bs ! 0 then NOT_RESPONSIBLE
           else if \<not> mask_match (j_allowedSessions J) s then ISO_SERVICE_NOT_SUPPORTED_IN_ACTIVE_SESSION
           else DIAG_OK) }"

definition subfunction_verify :: "job \<Rightarrow> session \<Rightarrow> diag_connection \<Rightarrow> diag_request \<Rightarrow> u8 option" where
  "subfunction_verify J s c r =
     (if snd r < 1 then Some ISO_INVALID_FORMAT
      else do {
        b \<leftarrow> request_byte c r 0;
        bs \<leftarrow> j_request J;
        ensure (1 < length bs);
        Some (if b \<noteq> bs ! 1 then NOT_RESPONSIBLE
              else if \<not> mask_match (j_allowedSessions J) s then ISO_SUBFUNCTION_NOT_SUPPORTED_IN_ACTIVE_SESSION
              else DIAG_OK) })"

text \<open>The bytes of the implemented request from an offset on\<close>

definition bytes_verify :: "nat \<Rightarrow> nat \<Rightarrow> job \<Rightarrow> diag_connection \<Rightarrow> diag_request \<Rightarrow> bool option" where
  "bytes_verify k n J c r =
     (if n = 0 then Some True
      else do { x \<leftarrow> request_bytes c r n; bs \<leftarrow> j_request J; ensure (k + n \<le> length bs); Some (x = take n (drop k bs)) })"

definition readData_verify :: "job \<Rightarrow> session \<Rightarrow> diag_connection \<Rightarrow> diag_request \<Rightarrow> u8 option" where
  "readData_verify J s c r = do {
     result \<leftarrow> service_verify J s c r;
     Some (if result = DIAG_OK \<and> snd r \<noteq> 3 then ISO_INVALID_FORMAT else result) }"

definition writeData_verify :: "job \<Rightarrow> session \<Rightarrow> diag_connection \<Rightarrow> diag_request \<Rightarrow> u8 option" where
  "writeData_verify J s c r = do {
     result \<leftarrow> service_verify J s c r;
     Some (if result = DIAG_OK \<and> snd r < 3 then ISO_INVALID_FORMAT else result) }"

definition routineControl_verify :: "job \<Rightarrow> session \<Rightarrow> diag_connection \<Rightarrow> diag_request \<Rightarrow> u8 option" where
  "routineControl_verify J s c r = do {
     result \<leftarrow> service_verify J s c r;
     Some (if result = DIAG_OK \<and> snd r < 4 then ISO_INVALID_FORMAT else result) }"

definition SHORT_TERM_ADJUSTMENT :: u8 where "SHORT_TERM_ADJUSTMENT = 3"

definition inputOutput_verify :: "job \<Rightarrow> session \<Rightarrow> diag_connection \<Rightarrow> diag_request \<Rightarrow> u8 option" where
  "inputOutput_verify J s c r = do {
     result \<leftarrow> service_verify J s c r;
     if result = DIAG_OK
     then do {
       let result = (if snd r < 4 then ISO_INVALID_FORMAT else result);
       controlParameter \<leftarrow> request_byte c r 3;
       Some (if controlParameter = SHORT_TERM_ADJUSTMENT \<and> snd r < 5 then ISO_INVALID_FORMAT else result) }
     else Some result }"

definition dataIdentifier_verify :: "job \<Rightarrow> diag_connection \<Rightarrow> diag_request \<Rightarrow> u8 option" where
  "dataIdentifier_verify J c r = do { eq \<leftarrow> bytes_verify 1 2 J c r; Some (if eq then DIAG_OK else NOT_RESPONSIBLE) }"

definition writeMemory_verify :: "nat \<Rightarrow> job \<Rightarrow> diag_connection \<Rightarrow> diag_request \<Rightarrow> u8 option" where
  "writeMemory_verify memoryLength J c r = do {
     eq \<leftarrow> bytes_verify 1 2 J c r;
     Some (if \<not> eq then NOT_RESPONSIBLE else if snd r \<noteq> memoryLength + 2 then ISO_INVALID_FORMAT else DIAG_OK) }"

definition routineJob_verify :: "job \<Rightarrow> diag_connection \<Rightarrow> diag_request \<Rightarrow> u8 option" where
  "routineJob_verify R c r = do {
     ensure (2 \<le> j_requestLength R);
     eq \<leftarrow> bytes_verify 2 (j_requestLength R - 2) R c r;
     Some (if eq then DIAG_OK else NOT_RESPONSIBLE) }"

definition root_verify :: "diag_request \<Rightarrow> u8" where
  "root_verify r = (if snd r < 1 then ISO_GENERAL_REJECT else DIAG_OK)"

definition job_verify :: "job_store \<Rightarrow> nat \<Rightarrow> job \<Rightarrow> diag_state \<Rightarrow> diag_request \<Rightarrow> u8 option" where
  "job_verify h i J st r =
     (let s = sc_current (ds_session st); c = ds_con st in
      case j_kind J of
        RootJob \<Rightarrow> Some (root_verify r)
      | ReadDataService \<Rightarrow> readData_verify J s c r
      | WriteDataService \<Rightarrow> writeData_verify J s c r
      | InputOutputService \<Rightarrow> inputOutput_verify J s c r
      | RoutineService \<Rightarrow> routineControl_verify J s c r
      | PlainSubfunction \<Rightarrow> subfunction_verify J s c r
      | ResetJob \<Rightarrow> subfunction_verify J s c r
      | PowerDownJob \<Rightarrow> subfunction_verify J s c r
      | RapidShutdownJob \<Rightarrow> subfunction_verify J s c r
      | ReadMemory bs \<Rightarrow> dataIdentifier_verify J c r
      | WriteMemory \<Rightarrow> writeMemory_verify (length (ds_memory st i)) J c r
      | RoutineJob routine b \<Rightarrow> do { R \<leftarrow> h routine; routineJob_verify R c r }
      | _ \<Rightarrow> service_verify J s c r)"

section \<open>process\<close>

fun append_pieces :: "u8 list list \<Rightarrow> diag_connection \<Rightarrow> diag_connection option" where
  "append_pieces [] c = Some c"
| "append_pieces (bs # bss) c = do { (_, c) \<leftarrow> pr_appendData bs c; append_pieces bss c }"

text \<open>The response of most jobs: the response buffer, the pieces appended, and its length sent.\<close>

definition job_respond :: "nat \<Rightarrow> u8 list list \<Rightarrow> diag_state \<Rightarrow> (u8 \<times> diag_state) option" where
  "job_respond i pieces st = do {
     c \<leftarrow> con_releaseRequestGetResponse (ds_con st);
     c \<leftarrow> append_pieces pieces c;
     let c = snd (con_sendPositiveResponseInternal (pr_getLength (con_positiveResponse c)) i c);
     Some (DIAG_OK, st\<lparr>ds_con := c\<rparr>) }"

definition writeMemory_process :: "nat \<Rightarrow> diag_request \<Rightarrow> diag_state \<Rightarrow> (u8 \<times> diag_state) option" where
  "writeMemory_process i r st = do {
     c \<leftarrow> con_releaseRequestGetResponse (ds_con st);
     bs \<leftarrow> request_bytes c r (snd r);
     let memory = ds_memory st i;
     let memory = (if length bs \<le> length memory then bs @ drop (length bs) memory else memory);
     (_, c) \<leftarrow> con_sendPositiveResponse i c;
     Some (DIAG_OK, st\<lparr>ds_con := c, ds_memory := (ds_memory st)(i := memory)\<rparr>) }"

definition TESTER_PRESENT_ANSWER :: u8 where "TESTER_PRESENT_ANSWER = 0"

definition testerPresent_process :: "nat \<Rightarrow> diag_request \<Rightarrow> diag_state \<Rightarrow> (u8 \<times> diag_state) option" where
  "testerPresent_process i r st = do {
     b \<leftarrow> request_byte (ds_con st) r 0;
     if b = TESTER_PRESENT_ANSWER then job_respond i [[TESTER_PRESENT_ANSWER]] st
     else Some (ISO_SUBFUNCTION_NOT_SUPPORTED, st) }"

definition controlDTC_process :: "nat \<Rightarrow> diag_request \<Rightarrow> diag_state \<Rightarrow> (u8 \<times> diag_state) option" where
  "controlDTC_process i r st = do {
     b \<leftarrow> request_byte (ds_con st) r 0;
     if b = 1 \<or> b = 2 then job_respond i [[b]] st else Some (ISO_SUBFUNCTION_NOT_SUPPORTED, st) }"

definition clearDTC_process :: "nat \<Rightarrow> diag_request \<Rightarrow> diag_state \<Rightarrow> (u8 \<times> diag_state) option" where
  "clearDTC_process i r st = do {
     groupOfDTC \<leftarrow> request_bytes (ds_con st) r 3;
     if groupOfDTC = [0xFF, 0xFF, 0xFF] then job_respond i [] st else Some (ISO_REQUEST_OUT_OF_RANGE, st) }"

definition readDTC_process :: "nat \<Rightarrow> diag_request \<Rightarrow> diag_state \<Rightarrow> (u8 \<times> diag_state) option" where
  "readDTC_process i r st = do {
     subFunction \<leftarrow> request_byte (ds_con st) r 0;
     if subFunction = 2
     then (if snd r < 2 then Some (ISO_INVALID_FORMAT, st)
           else job_respond i [[subFunction], [0xFF, 0x12, 0x34, 0x56, 0x09]] st)
     else Some (ISO_SUBFUNCTION_NOT_SUPPORTED, st) }"

definition DEFAULT_DIAG_RESPONSE :: "u8 list list" where "DEFAULT_DIAG_RESPONSE = [[0x00, 0x32], [0x01, 0xF4]]"
definition PROGRAMMING_DIAG_RESPONSE :: "u8 list list" where "PROGRAMMING_DIAG_RESPONSE = [[0x00, 0x32], [0x13, 0x88]]"

definition sessionControl_process :: "job_env \<Rightarrow> nat \<Rightarrow> diag_request \<Rightarrow> diag_state \<Rightarrow> (u8 \<times> diag_state) option" where
  "sessionControl_process E i r st =
     (if snd r \<noteq> 1 then Some (ISO_INVALID_FORMAT, st)
      else do {
        requestedSession \<leftarrow> request_byte (ds_con st) r 0;
        let current = sc_current (ds_session st);
        let result = isTransitionPossible (je_programming E) current requestedSession;
        if result \<noteq> DIAG_OK then Some (result, st)
        else do {
          c \<leftarrow> con_addIdentifier (ds_con st);
          c \<leftarrow> con_releaseRequestGetResponse c;
          if pr_getMaximumLength (con_positiveResponse c) < 4 then Some (ISO_RESPONSE_TOO_LONG, st\<lparr>ds_con := c\<rparr>)
          else do {
            c \<leftarrow> append_pieces (if requestedSession = SESSION_PROGRAMMING then PROGRAMMING_DIAG_RESPONSE else DEFAULT_DIAG_RESPONSE) c;
            let s = sc_switchSession (getTransitionResult (je_programming E) current requestedSession) (ds_session st);
            let c = snd (con_sendPositiveResponseInternal (pr_getLength (con_positiveResponse c)) i c);
            Some (DIAG_OK, st\<lparr>ds_con := c, ds_session := s\<rparr>) } } })"

definition cc_setCommunicationState :: "communication_state \<Rightarrow> communication_control \<Rightarrow> communication_control" where
  "cc_setCommunicationState state cc =
     (if cc_state cc \<noteq> state \<or> cc_neverNotified cc
      then cc\<lparr>cc_state := state, cc_neverNotified := False,
              cc_calls := cc_calls cc @ replicate (cc_listeners cc) (StateChanged state)\<rparr>
      else cc)"

text \<open>The state is that transmission is disabled, or enabled again.\<close>

definition cc_notifySubListeners :: "u16 \<Rightarrow> bool \<Rightarrow> communication_control \<Rightarrow> bool \<times> communication_control" where
  "cc_notifySubListeners nodeId disabled cc =
     ((\<exists>l \<in> set (cc_subListeners cc). l disabled nodeId),
      cc\<lparr>cc_calls := cc_calls cc @ map (\<lambda>_. SubStateChanged disabled nodeId) (cc_subListeners cc)\<rparr>)"

definition cc_resetCommunicationSubState :: "communication_control \<Rightarrow> communication_control" where
  "cc_resetCommunicationSubState cc =
     (snd (cc_notifySubListeners (cc_subNodeIdDisabledTx cc) False cc))\<lparr>cc_subNodeIdDisabledTx := 0\<rparr>"

definition cc_state_of :: "u8 \<Rightarrow> u8 \<Rightarrow> communication_state" where
  "cc_state_of controlType typeLo =
     (if controlType = 2 then (if typeLo = 1 then DISABLE_REC_ENABLE_NORMAL_MESSAGE_SEND_TRANSMISSION
        else if typeLo = 2 then DISABLE_REC_ENABLE_NM_SEND_TRANSMISSION else DISABLE_REC_ENABLE_ALL_SEND_TRANSMISSION)
      else if controlType = 3 then (if typeLo = 1 then DISABLE_NORMAL_MESSAGE_TRANSMISSION
        else if typeLo = 2 then DISABLE_NM_MESSAGE_TRANSMISSION else DISABLE_ALL_MESSAGE_TRANSMISSION)
      else if controlType = 0 then (if typeLo = 1 then ENABLE_NORMAL_MESSAGE_TRANSMISSION
        else if typeLo = 2 then ENABLE_NN_MESSAGE_TRANSMISSION else ENABLE_ALL_MESSAGE_TRANSMISSION)
      else (if typeLo = 1 then ENABLE_REC_DISABLE_NORMAL_MESSAGE_SEND_TRANSMISSION
        else if typeLo = 2 then ENABLE_REC_DISABLE_NM_SEND_TRANSMISSION else ENABLE_REC_DISABLE_ALL_SEND_TRANSMISSION))"

text \<open>What a request does to the communication state, and the code it has then.\<close>

definition cc_control :: "u8 \<Rightarrow> u8 \<Rightarrow> u8 \<Rightarrow> u16 \<Rightarrow> communication_control \<Rightarrow> u8 \<times> communication_control" where
  "cc_control controlType typeLo typeHi rcvNode cc =
     (if controlType < 4
      then let cc = cc_setCommunicationState (cc_state_of controlType typeLo) cc
           in (DIAG_OK,
               if controlType = 0 \<and> (typeHi = 0xF0 \<or> typeHi = 0) \<and> cc_subNodeIdDisabledTx cc \<noteq> 0
               then cc_resetCommunicationSubState cc else cc)
      else if typeLo \<noteq> 1 then (DIAG_OK, cc)
      else if controlType = 4
      then (if cc_subNodeIdDisabledTx cc = 0
            then let (found, cc) = cc_notifySubListeners rcvNode True cc
                 in if found then (DIAG_OK, cc\<lparr>cc_subNodeIdDisabledTx := rcvNode\<rparr>) else (ISO_SUBFUNCTION_NOT_SUPPORTED, cc)
            else if cc_subNodeIdDisabledTx cc \<noteq> rcvNode then (ISO_SUBFUNCTION_NOT_SUPPORTED, cc)
            else (DIAG_OK, cc))
      else (if rcvNode = cc_subNodeIdDisabledTx cc
            then let (found, cc) = cc_notifySubListeners rcvNode False cc
                 in if found then (DIAG_OK, cc\<lparr>cc_subNodeIdDisabledTx := 0\<rparr>) else (ISO_SUBFUNCTION_NOT_SUPPORTED, cc)
            else (ISO_SUBFUNCTION_NOT_SUPPORTED, cc)))"

definition communication_process :: "nat \<Rightarrow> diag_request \<Rightarrow> diag_state \<Rightarrow> (u8 \<times> diag_state) option" where
  "communication_process i r st = do {
     controlType \<leftarrow> request_byte (ds_con st) r 0;
     communicationType \<leftarrow> request_byte (ds_con st) r 1;
     let typeLo = communicationType AND 0x0F;
     let typeHi = communicationType AND 0xF0;
     if (controlType = 4 \<or> controlType = 5) \<and> snd r \<noteq> 4 \<or> controlType \<le> 3 \<and> snd r \<noteq> 2
     then Some (ISO_INVALID_FORMAT, st)
     else do {
       c \<leftarrow> con_releaseRequestGetResponse (ds_con st);
       let st = st\<lparr>ds_con := c\<rparr>;
       if controlType > 5
       then Some (if 0x40 \<le> controlType \<and> controlType \<le> 0x5F then NOT_RESPONSIBLE else ISO_SUBFUNCTION_NOT_SUPPORTED, st)
       else do {
         rcvNode \<leftarrow> (if controlType \<ge> 4 \<and> typeLo = 1
                    then do { hi \<leftarrow> request_byte c r 2; lo \<leftarrow> request_byte c r 3; Some (word_cat hi lo) } else Some 0);
         let (ret, cc) = cc_control controlType typeLo typeHi rcvNode (ds_communication st);
         let st = st\<lparr>ds_communication := cc\<rparr>;
         if ret \<noteq> DIAG_OK then Some (ret, st)
         else do {
           (_, c) \<leftarrow> pr_appendUint8 controlType c;
           let c = snd (con_sendPositiveResponseInternal (pr_getLength (con_positiveResponse c)) i c);
           Some (DIAG_OK, st\<lparr>ds_con := c\<rparr>) } } } }"

text \<open>\<^verbatim>\<open>start\<close>, \<^verbatim>\<open>stop\<close> and \<^verbatim>\<open>requestResults\<close> of \<^verbatim>\<open>DemoRoutine\<close>\<close>

definition demoRoutine_respond :: "u8 \<Rightarrow> nat \<Rightarrow> job \<Rightarrow> diag_state \<Rightarrow> (u8 \<times> diag_state) option" where
  "demoRoutine_respond sub routine R st = do {
     bs \<leftarrow> j_request R;
     ensure (3 < length bs);
     job_respond routine [[sub], [bs ! 2], [bs ! 3]] st }"

definition routine_process :: "nat \<Rightarrow> job \<Rightarrow> diag_state \<Rightarrow> (u8 \<times> diag_state) option" where
  "routine_process routine R st =
     (let sub = con_getIdentifier 1 (ds_con st);
          sequenceOk = (ds_started st routine \<or> (case j_kind R of RoutineJob _ b \<Rightarrow> \<not> b | _ \<Rightarrow> True))
      in if sub = 1 then demoRoutine_respond 1 routine R (st\<lparr>ds_started := (ds_started st)(routine := True)\<rparr>)
         else if sub = 2
         then (if sequenceOk
               then do {
                 (result, st) \<leftarrow> demoRoutine_respond 2 routine R st;
                 Some (result, if result = DIAG_OK then st\<lparr>ds_started := (ds_started st)(routine := False)\<rparr> else st) }
               else Some (ISO_REQUEST_SEQUENCE_ERROR, st))
         else if sub = 3
         then (if sequenceOk then demoRoutine_respond 3 routine R st else Some (ISO_REQUEST_SEQUENCE_ERROR, st))
         else Some (ISO_SUBFUNCTION_NOT_SUPPORTED, st))"

definition powerDown_process :: "nat \<Rightarrow> diag_state \<Rightarrow> (u8 \<times> diag_state) option" where
  "powerDown_process i st = do { (_, c) \<leftarrow> con_sendPositiveResponse i (ds_con st); Some (DIAG_OK, st\<lparr>ds_con := c\<rparr>) }"

definition reset_process :: "job_env \<Rightarrow> nat \<Rightarrow> diag_state \<Rightarrow> (u8 \<times> diag_state) option" where
  "reset_process E i st =
     (if je_modeChangePossible E
      then do {
        (_, c) \<leftarrow> con_sendPositiveResponse i (ds_con st);
        Some (DIAG_OK, st\<lparr>ds_con := c, ds_session := (ds_session st)\<lparr>sc_enabled := False\<rparr>\<rparr>) }
      else Some (ISO_CONDITIONS_NOT_CORRECT, st))"

text \<open>Jobs that hand the request to their children have the \<^verbatim>\<open>process\<close> of \<^verbatim>\<open>AbstractDiagJob\<close>.\<close>

definition job_is_node :: "job_kind \<Rightarrow> bool" where
  "job_is_node k \<longleftrightarrow> k \<in> {RootJob, PlainService, ReadDataService, WriteDataService, InputOutputService, RoutineService, PlainSubfunction}"

definition job_process :: "job_env \<Rightarrow> job_store \<Rightarrow> nat \<Rightarrow> job \<Rightarrow> diag_request \<Rightarrow> diag_state \<Rightarrow> (u8 \<times> diag_state) option" where
  "job_process E h i J r st =
     (case j_kind J of
        ReadMemory bs \<Rightarrow> job_respond i [bs] st
      | WriteMemory \<Rightarrow> writeMemory_process i r st
      | TesterPresentService \<Rightarrow> testerPresent_process i r st
      | SessionControlService \<Rightarrow> sessionControl_process E i r st
      | CommunicationService \<Rightarrow> communication_process i r st
      | ControlDTCService \<Rightarrow> controlDTC_process i r st
      | ClearDTCService \<Rightarrow> clearDTC_process i r st
      | ReadDTCService \<Rightarrow> readDTC_process i r st
      | RoutineJob routine b \<Rightarrow> do { R \<leftarrow> h routine; routine_process routine R st }
      | ResetJob \<Rightarrow> reset_process E i st
      | PowerDownJob \<Rightarrow> powerDown_process i st
      | RapidShutdownJob \<Rightarrow> job_respond i [[SHUTDOWN_TIME]] st
      | _ \<Rightarrow> None)"

section \<open>execute\<close>

definition job_acceptedJob :: "nat \<Rightarrow> diag_state \<Rightarrow> diag_state" where
  "job_acceptedJob i st = st\<lparr>ds_session := sc_acceptedJob i (ds_session st), ds_accepted := ds_accepted st @ [i]\<rparr>"

definition job_acceptJob :: "nat \<Rightarrow> job \<Rightarrow> diag_state \<Rightarrow> diag_state" where
  "job_acceptJob i J st = (if j_requestLength J > 0 then job_acceptedJob i st else st)"

fun con_addIdentifiers :: "nat \<Rightarrow> diag_connection \<Rightarrow> diag_connection option" where
  "con_addIdentifiers 0 c = Some c"
| "con_addIdentifiers (Suc n) c = do { c \<leftarrow> con_addIdentifier c; con_addIdentifiers n c }"

text \<open>The bit is cleared in the request message.\<close>

definition checkSuppressPositiveResponseBit :: "job \<Rightarrow> diag_request \<Rightarrow> diag_connection \<Rightarrow> diag_connection option" where
  "checkSuppressPositiveResponseBit J r c =
     (if j_suppressEnabled J
      then do {
        b \<leftarrow> request_byte c r 0;
        Some (if b AND SUPPRESS_POSITIVE_RESPONSE_MASK > 0
              then let poke = map_option (\<lambda>m. m\<lparr>tm_buffer := (tm_buffer m)[fst r := b AND 0x7F]\<rparr>)
                   in c\<lparr>con_requestMessage := poke (con_requestMessage c), con_responseMessage := poke (con_responseMessage c),
                        con_suppressPositiveResponse := True\<rparr>
              else c) }
      else Some c)"

definition isAuthenticated :: "job_env \<Rightarrow> job \<Rightarrow> u16 \<Rightarrow> bool" where
  "isAuthenticated E J address = (case j_authenticator J of None \<Rightarrow> True | Some a \<Rightarrow> je_isAuthenticated E a address)"

definition getNotAuthenticatedReturnCode :: "job_env \<Rightarrow> job \<Rightarrow> u8" where
  "getNotAuthenticatedReturnCode E J = (case j_authenticator J of None \<Rightarrow> 0x34 | Some a \<Rightarrow> je_notAuthenticatedCode E a)"

text \<open>\<^verbatim>\<open>verifySupplierIndication\<close> of \<^verbatim>\<open>DiagJobRoot\<close> has no complaints.\<close>

definition verifySupplierIndication :: u8 where "verifySupplierIndication = DIAG_OK"

text \<open>
  What \<^verbatim>\<open>execute\<close> does before it calls \<^verbatim>\<open>process\<close>: a code, or the rest of the request to process.
\<close>

definition job_enter :: "job_env \<Rightarrow> job_store \<Rightarrow> nat \<Rightarrow> job \<Rightarrow> diag_request \<Rightarrow> diag_state \<Rightarrow> ((u8 \<times> diag_state) + (diag_request \<times> diag_state)) option" where
  "job_enter E h i J r st = do {
     status \<leftarrow> job_verify h i J st r;
     ensure (j_prefixLength J \<le> j_requestLength J);
     let k = j_requestLength J - j_prefixLength J;
     if status = DIAG_OK
     then if \<not> mask_match (j_allowedSessions J) (sc_current (ds_session st))
       then Some (Inl (ISO_REQUEST_OUT_OF_RANGE, job_acceptJob i J st))
       else if \<not> isAuthenticated E J (con_sourceAddress (ds_con st))
       then Some (Inl (getNotAuthenticatedReturnCode E J, job_acceptJob i J st))
       else if verifySupplierIndication \<noteq> DIAG_OK
       then Some (Inl (verifySupplierIndication, job_acceptJob i J st))
       else if j_requestPayloadLength J \<noteq> VARIABLE_LENGTH \<and> snd (request_advance k r) \<noteq> j_requestPayloadLength J
       then Some (Inl (ISO_INVALID_FORMAT, job_acceptJob i J st))
       else do {
         c \<leftarrow> con_addIdentifiers k (ds_con st);
         maximum \<leftarrow> con_getMaximumResponseLength c;
         if j_responseLength J \<noteq> VARIABLE_LENGTH \<and> maximum < j_responseLength J
         then Some (Inl (ISO_RESPONSE_TOO_LONG, job_acceptJob i J (st\<lparr>ds_con := c\<rparr>)))
         else do {
           c \<leftarrow> checkSuppressPositiveResponseBit J (request_advance k r) c;
           Some (Inr (request_advance k r, job_acceptJob i J (st\<lparr>ds_con := c\<rparr>))) } }
     else if status \<noteq> NOT_RESPONSIBLE
     then Some (Inl (status, job_acceptedJob i st))
     else Some (Inl (status, st)) }"

text \<open>The loop of \<^verbatim>\<open>process\<close> over the jobs from a pointer on, each executed with its children.\<close>

partial_function (option) job_walk :: "job_env \<Rightarrow> job_store \<Rightarrow> nat option \<Rightarrow> diag_request \<Rightarrow> diag_state \<Rightarrow> (u8 \<times> diag_state) option" where
  "job_walk E h cur r st =
     (case cur of None \<Rightarrow> Some (NOT_RESPONSIBLE, st)
      | Some i \<Rightarrow> do {
          J \<leftarrow> h i;
          x \<leftarrow> job_enter E h i J r st;
          (result, st) \<leftarrow>
            (case x of Inl a \<Rightarrow> Some a
             | Inr (r, st) \<Rightarrow>
                 if job_is_node (j_kind J)
                 then do {
                   (result, st) \<leftarrow> job_walk E h (j_firstChild J) r st;
                   Some (if result = NOT_RESPONSIBLE then j_defaultCode J else result, st) }
                 else job_process E h i J r st);
          if result = NOT_RESPONSIBLE then job_walk E h (j_nextJob J) r st else Some (result, st) })"

section \<open>DiagJobRoot::execute\<close>

definition SERVICE_TESTER_PRESENT :: u8 where "SERVICE_TESTER_PRESENT = 0x3E"

definition root_execute :: "job_env \<Rightarrow> job_store \<Rightarrow> nat \<Rightarrow> diag_request \<Rightarrow> diag_state \<Rightarrow> (u8 \<times> diag_state) option" where
  "root_execute E h root r st = do {
     R \<leftarrow> h root;
     let c = ds_con st;
     if con_serviceId c = NEGATIVE_RESPONSE_IDENTIFIER
     then do { c \<leftarrow> con_terminate c; Some (DIAG_OK, st\<lparr>ds_con := c\<rparr>) }
     else do {
       ignored \<leftarrow>
         (if isFunctionalAddress (con_targetAddress c) \<and> con_serviceId c = SERVICE_TESTER_PRESENT
             \<and> \<not> sc_isActive (ds_session st) \<and> snd r > 1
          then do { b \<leftarrow> request_byte c r 1; Some (b AND SUPPRESS_POSITIVE_RESPONSE_MASK > 0) } else Some False);
       if ignored then do { c \<leftarrow> con_terminate c; Some (DIAG_OK, st\<lparr>ds_con := c\<rparr>) }
       else if root_verify r \<noteq> DIAG_OK then Some (root_verify r, job_acceptedJob root st)
       else if \<not> mask_match (j_allowedSessions R) (sc_current (ds_session st))
       then Some (ISO_REQUEST_OUT_OF_RANGE, job_acceptJob root R st)
       else do {
         (result, st) \<leftarrow> job_walk E h (j_firstChild R) r st;
         Some (if result = NOT_RESPONSIBLE then j_defaultCode R else result, st) } } }"

end
