(* ===== verification/UdsExecuteCorrect.thy ===== *)
theory UdsExecuteCorrect imports UdsExecute UdsConnectionRuns begin

text \<open>
  The execution of requests in a tree of jobs: the tree in the store, that no job fails, and that
  a request is either responded to by one job or returned with a code to respond with.
\<close>

section \<open>Requests\<close>

lemma request_byte_read:
  assumes "messages_ok c" "fst r + i < blen c"
  shows "\<exists>b. request_byte c r i = Some b"
  using assms by (auto simp: messages_ok_def request_byte_def blen_def)

lemma request_bytes_read:
  assumes "messages_ok c" "fst r + n \<le> blen c"
  shows "\<exists>bs. request_bytes c r n = Some bs \<and> length bs = n"
  using assms by (auto simp: messages_ok_def request_bytes_def blen_def)

text \<open>The connection while jobs are asked.\<close>

definition asking :: "diag_connection \<Rightarrow> bool" where
  "asking c \<longleftrightarrow> con_inv None None False c \<and> con_isOpen c \<and> \<not> con_isResponseActive c \<and> 6 \<le> blen c"

lemma askingD:
  assumes "asking c"
  shows "con_inv None None False c" "con_isOpen c" "\<not> con_isResponseActive c" "6 \<le> blen c" "messages_ok c"
    "response_ok c" "con_nestedRequest c = None" "con_messageSender c" "con_sender c = None"
  using assms unanswered [of None None c] by (simp_all add: asking_def)

lemma asking_change:
  assumes c: "asking c" and d: "messages_ok d" "blen d = blen c"
    and e: "con_nestedRequest d = con_nestedRequest c" "con_posted d = con_posted c" "con_flight d = con_flight c"
      "con_processedArgs d = con_processedArgs c" "con_sender d = con_sender c"
      "con_responsePendingIsBeingSent d = con_responsePendingIsBeingSent c"
      "con_numPendingMessageProcessedCallbacks d = con_numPendingMessageProcessedCallbacks c"
      "con_trace d = con_trace c" "con_isOpen d = con_isOpen c" "con_messageSender d = con_messageSender c"
      "con_diagDispatcher d = con_diagDispatcher c" "con_requestListener d = con_requestListener c"
      "con_connectionTerminationIsPending d = con_connectionTerminationIsPending c"
      "con_isResponseActive d = con_isResponseActive c"
  shows "asking d"
proof -
  have "response_ok d" using askingD(3) [OF c] e(14) by (simp add: response_ok_def)
  from unanswered_change [OF askingD(1,2) [OF c] d(1) this e(1-13)] show ?thesis using askingD [OF c] d e by (simp add: asking_def)
qed

lemma asking_identifier:
  assumes "asking c"
  shows "\<exists>ids. con_addIdentifier c = Some (c\<lparr>con_identifiers := ids\<rparr>) \<and> asking (c\<lparr>con_identifiers := ids\<rparr>)"
proof -
  note a = askingD [OF assms]
  obtain q where q: "con_requestMessage c = Some q" using a(5) by (auto simp: messages_ok_def)
  show ?thesis
  proof (cases "length (con_identifiers c) < MAXIMUM_NUMBER_OF_IDENTIFIERS")
    case True
    let ?ids = "con_identifiers c @ [tm_buffer q ! length (con_identifiers c)]"
    have l: "length (con_identifiers c) < blen c" using True a(4) by (simp add: MAXIMUM_NUMBER_OF_IDENTIFIERS_def)
    have "con_addIdentifier c = Some (c\<lparr>con_identifiers := ?ids\<rparr>)"
      using a(3,7) q True l by (simp add: con_addIdentifier_def blen_def)
    moreover have "messages_ok (c\<lparr>con_identifiers := ?ids\<rparr>)" using a(5) l by (auto simp: messages_ok_def blen_def)
    then have "asking (c\<lparr>con_identifiers := ?ids\<rparr>)" by (rule asking_change [OF assms]) (simp_all add: blen_def)
    ultimately show ?thesis by blast
  next
    case False
    then have "con_addIdentifier c = Some (c\<lparr>con_identifiers := con_identifiers c\<rparr>)" using a(3,7) q by (simp add: con_addIdentifier_def)
    then show ?thesis using assms by (intro exI [of _ "con_identifiers c"]) simp
  qed
qed

lemma asking_identifiers:
  assumes "asking c"
  shows "\<exists>ids. con_addIdentifiers n c = Some (c\<lparr>con_identifiers := ids\<rparr>) \<and> asking (c\<lparr>con_identifiers := ids\<rparr>)"
  using assms
proof (induction n arbitrary: c)
  case 0
  then show ?case by (intro exI [of _ "con_identifiers c"]) simp
next
  case (Suc n)
  from asking_identifier [OF Suc.prems] obtain ids where
    ids: "con_addIdentifier c = Some (c\<lparr>con_identifiers := ids\<rparr>)" "asking (c\<lparr>con_identifiers := ids\<rparr>)" by blast
  from Suc.IH [OF ids(2)] ids(1) show ?case by auto
qed

lemma asking_maximum: "asking c \<Longrightarrow> \<exists>n. con_getMaximumResponseLength c = Some n"
  using askingD [of c] by (auto simp: messages_ok_def con_getMaximumResponseLength_def)

lemma asking_suppress:
  assumes "asking c" "fst r < blen c"
  shows "\<exists>c'. checkSuppressPositiveResponseBit J r c = Some c' \<and> asking c' \<and> blen c' = blen c"
proof (cases "j_suppressEnabled J")
  case True
  note a = askingD [OF assms(1)]
  obtain b where b: "request_byte c r 0 = Some b" using request_byte_read [of c r 0] a assms(2) by auto
  show ?thesis
  proof (cases "b AND SUPPRESS_POSITIVE_RESPONSE_MASK > 0")
    case t: True
    let ?p = "map_option (\<lambda>m. m\<lparr>tm_buffer := (tm_buffer m)[fst r := b AND 0x7F]\<rparr>)"
    let ?d = "c\<lparr>con_requestMessage := ?p (con_requestMessage c), con_responseMessage := ?p (con_responseMessage c), con_suppressPositiveResponse := True\<rparr>"
    have bl: "blen ?d = blen c" by (simp add: blen_def split: option.split)
    have "messages_ok ?d"
    proof -
      obtain q where q: "con_requestMessage c = Some q" "tm_wf q"
        "\<And>m. con_responseMessage c = Some m \<Longrightarrow> tm_wf m \<and> tm_buffer m = tm_buffer q"
        using a(5) by (auto simp: messages_ok_def)
      let ?q = "q\<lparr>tm_buffer := (tm_buffer q)[fst r := b AND 0x7F]\<rparr>"
      have "con_requestMessage ?d = Some ?q" "tm_wf ?q" using q(1,2) by (simp_all add: tm_wf_def)
      moreover have "tm_wf m \<and> tm_buffer m = tm_buffer ?q" if "con_responseMessage ?d = Some m" for m
        using that q(3) by (auto simp: tm_wf_def)
      moreover have "3 \<le> blen ?d" "length (con_identifiers ?d) \<le> blen ?d" "length (con_negativeResponseTempBuffer ?d) = 3"
        using a(5) unfolding bl messages_ok_def by simp_all
      ultimately show ?thesis unfolding messages_ok_def by blast
    qed
    then have "asking ?d" using bl by (rule asking_change [OF assms(1)]) simp_all
    then show ?thesis using True b t bl by (simp add: checkSuppressPositiveResponseBit_def Let_def)
  next
    case False
    then show ?thesis using True b assms(1) by (simp add: checkSuppressPositiveResponseBit_def)
  qed
next
  case False
  then show ?thesis using assms(1) by (simp add: checkSuppressPositiveResponseBit_def)
qed

section \<open>Responding\<close>

text \<open>The connection while a job builds its response.\<close>

definition building :: "diag_connection \<Rightarrow> bool" where
  "building c \<longleftrightarrow> con_inv None None False c \<and> con_isOpen c \<and> con_isResponseActive c"

text \<open>The outcome of a job: it has responded, or the request is still unanswered.\<close>

definition outcome :: "u8 \<Rightarrow> diag_connection \<Rightarrow> bool" where
  "outcome code c \<longleftrightarrow> (if code = DIAG_OK then con_inv (Some SendPositiveResponse) None True c
     else con_inv None None False c \<and> con_isOpen c \<and> code \<noteq> ISO_RESPONSE_PENDING)"

lemma asking_outcome: "asking c \<Longrightarrow> code \<noteq> DIAG_OK \<Longrightarrow> code \<noteq> ISO_RESPONSE_PENDING \<Longrightarrow> outcome code c"
  by (simp add: outcome_def asking_def)

lemma get_building:
  assumes "asking c"
  shows "\<exists>c'. con_releaseRequestGetResponse c = Some c' \<and> building c' \<and> blen c' = blen c"
  using get_response [of None c] askingD [OF assms] by (auto simp: building_def)

lemma append_building:
  assumes "building c"
  shows "\<exists>n c'. pr_appendData bs c = Some (n, c') \<and> building c' \<and> blen c' = blen c"
proof -
  from append_response [of None c bs] assms obtain n c' where
    c': "pr_appendData bs c = Some (n, c')" "con_inv None None False c'" by (auto simp: building_def)
  have "con_isOpen c' = con_isOpen c \<and> con_isResponseActive c' = con_isResponseActive c \<and> blen c' = blen c"
  proof (cases "snd (pr_buffer (con_positiveResponse c)) < length bs")
    case True
    then have "c' = c\<lparr>con_positiveResponse := (con_positiveResponse c)\<lparr>pr_isOverflow := True\<rparr>\<rparr>" using c'(1) by (simp add: pr_appendData_def Let_def)
    then show ?thesis by (simp add: blen_def)
  next
    case False
    obtain q where q: "con_requestMessage c = Some q" "\<And>m. con_responseMessage c = Some m \<Longrightarrow> tm_buffer m = tm_buffer q"
      using assms unanswered(3) [of None None c] by (auto simp: building_def messages_ok_def)
    from False c'(1) obtain m buf where m: "con_responseMessage c = Some m"
      "mem_copy bs (length bs) (tm_buffer m) (fst (pr_buffer (con_positiveResponse c))) = Some buf"
      "c' = (con_setResponse (m\<lparr>tm_buffer := buf\<rparr>) c)\<lparr>con_positiveResponse := pr_advance (length bs) (con_positiveResponse c)\<rparr>"
      by (auto simp: pr_appendData_def Let_def bind_eq_Some_conv)
    have "length buf = length (tm_buffer m)" using m(2) by (auto simp: mem_copy_def split: if_splits)
    moreover have "tm_buffer m = tm_buffer q" using q(2) m(1) .
    ultimately have "blen c' = blen c" unfolding m(3) by (simp add: q(1) con_setResponse_def blen_def)
    then show ?thesis unfolding m(3) by (simp add: con_setResponse_def)
  qed
  then show ?thesis using c' assms by (auto simp: building_def)
qed

lemma append_pieces_building:
  assumes "building c"
  shows "\<exists>c'. append_pieces pieces c = Some c' \<and> building c'"
  using assms
proof (induction pieces arbitrary: c)
  case (Cons bs pieces)
  from append_building [OF Cons.prems, of bs] Cons.IH show ?case by fastforce
qed simp

lemma send_building:
  assumes "building c"
  shows "\<exists>c'. con_sendPositiveResponseInternal (pr_getLength (con_positiveResponse c)) i c = (UDS_OK, c')
    \<and> con_inv (Some SendPositiveResponse) None True c'"
proof -
  have c: "con_inv None None False c" "con_isOpen c" "con_isResponseActive c" using assms by (simp_all add: building_def)
  note u = unanswered [OF c(1,2)]
  have "length (con_identifiers c) \<le> blen c" using u(3) by (simp add: messages_ok_def)
  moreover have "con_responseMessage c \<noteq> None" "snd (pr_original (con_positiveResponse c)) = blen c - length (con_identifiers c)"
    using u(4) c(3) by (simp_all add: response_ok_def)
  ultimately have "con_responseMessage c \<noteq> None" "length (con_identifiers c) + pr_getLength (con_positiveResponse c) \<le> blen c"
    by (simp_all add: pr_getLength_def)
  from respond_positive_length [OF c(1,2) this] show ?thesis .
qed

lemma respond_outcome:
  assumes "asking (ds_con st)"
  shows "\<exists>st'. job_respond i pieces st = Some (DIAG_OK, st') \<and> outcome DIAG_OK (ds_con st')"
proof -
  from get_building [OF assms] obtain c1 where c1: "con_releaseRequestGetResponse (ds_con st) = Some c1" "building c1" by blast
  from append_pieces_building [OF c1(2)] obtain c2 where c2: "append_pieces pieces c1 = Some c2" "building c2" by blast
  from send_building [OF c2(2), of i] c1(1) c2(1) show ?thesis by (auto simp: job_respond_def Let_def outcome_def)
qed

section \<open>Well-formed jobs\<close>

definition good_code :: "u8 \<Rightarrow> bool" where
  "good_code code \<longleftrightarrow> code \<noteq> DIAG_OK \<and> code \<noteq> ISO_RESPONSE_PENDING \<and> code \<noteq> NOT_RESPONSIBLE"

lemma good_codes [simp]:
  "good_code ISO_GENERAL_REJECT" "good_code ISO_SERVICE_NOT_SUPPORTED" "good_code ISO_SUBFUNCTION_NOT_SUPPORTED" "good_code ISO_INVALID_FORMAT"
  "good_code ISO_RESPONSE_TOO_LONG" "good_code ISO_CONDITIONS_NOT_CORRECT" "good_code ISO_REQUEST_SEQUENCE_ERROR"
  "good_code ISO_REQUEST_OUT_OF_RANGE" "good_code ISO_SUBFUNCTION_NOT_SUPPORTED_IN_ACTIVE_SESSION"
  "good_code ISO_SERVICE_NOT_SUPPORTED_IN_ACTIVE_SESSION" "good_code 0x34"
  by (simp_all add: good_code_def code_defs)

lemma codes_differ [simp]: "DIAG_OK \<noteq> NOT_RESPONSIBLE" "NOT_RESPONSIBLE \<noteq> DIAG_OK" "DIAG_OK \<noteq> ISO_RESPONSE_PENDING"
    "NOT_RESPONSIBLE \<noteq> ISO_RESPONSE_PENDING" "\<not> good_code DIAG_OK" "\<not> good_code NOT_RESPONSIBLE"
  by (simp_all add: good_code_def code_defs)

definition is_service :: "job_kind \<Rightarrow> bool" where
  "is_service k \<longleftrightarrow> k \<in> {PlainService, ReadDataService, WriteDataService, InputOutputService, RoutineService, TesterPresentService,
     SessionControlService, CommunicationService, ControlDTCService, ClearDTCService, ReadDTCService}"

definition is_subfunction :: "job_kind \<Rightarrow> bool" where
  "is_subfunction k \<longleftrightarrow> k \<in> {PlainSubfunction, ResetJob, PowerDownJob, RapidShutdownJob}"

definition is_identifier :: "job_kind \<Rightarrow> bool" where
  "is_identifier k \<longleftrightarrow> k = WriteMemory \<or> (\<exists>bs. k = ReadMemory bs)"

text \<open>What the constructors establish of a job, and a default code that is a negative response.\<close>

definition routine_shape :: "job_store \<Rightarrow> nat \<Rightarrow> bool" where
  "routine_shape h routine \<longleftrightarrow> (\<exists>R bs b. h routine = Some R \<and> j_kind R = RoutineJob routine b \<and> j_request R = Some bs
     \<and> j_requestLength R = length bs \<and> 4 \<le> length bs \<and> length bs \<le> 5)"

definition job_shape :: "job_store \<Rightarrow> job \<Rightarrow> bool" where
  "job_shape h J \<longleftrightarrow> good_code (j_defaultCode J)
     \<and> (\<exists>bs. j_request J = Some bs \<and> length bs = j_requestLength J \<and> j_prefixLength J < j_requestLength J \<and>
       (is_service (j_kind J) \<and> j_requestLength J = 1
        \<or> is_subfunction (j_kind J) \<and> j_requestLength J = 2 \<and> j_prefixLength J = 1
        \<or> is_identifier (j_kind J) \<and> j_requestLength J = 3 \<and> j_prefixLength J = 1
        \<or> (\<exists>routine b. j_kind J = RoutineJob routine b \<and> routine_shape h routine) \<and> j_prefixLength J = 2 \<and> j_requestLength J \<le> 5))"

definition env_shape :: "job_env \<Rightarrow> bool" where
  "env_shape E \<longleftrightarrow> (\<forall>a. good_code (je_notAuthenticatedCode E a))"

lemma isAuthenticated_code: "env_shape E \<Longrightarrow> good_code (getNotAuthenticatedReturnCode E J)"
  by (simp add: env_shape_def getNotAuthenticatedReturnCode_def split: option.split)

section \<open>Process\<close>

lemma positive_outcome:
  assumes "asking c"
  shows "\<exists>e c'. con_sendPositiveResponse i c = Some (e, c') \<and> outcome DIAG_OK c'"
  using respond_positive [of None c i] askingD [OF assms] by (auto simp: outcome_def)

lemma building_unanswered: "building c \<Longrightarrow> code \<noteq> DIAG_OK \<Longrightarrow> code \<noteq> ISO_RESPONSE_PENDING \<Longrightarrow> outcome code c"
  by (simp add: outcome_def building_def)

lemma request_bytes_con:
  "con_requestMessage c' = con_requestMessage c \<Longrightarrow> request_bytes c' r n = request_bytes c r n"
  by (simp add: request_bytes_def)

lemma writeMemory_outcome:
  assumes c: "asking (ds_con st)" and r: "fst r + snd r \<le> blen (ds_con st)"
  shows "\<exists>st'. writeMemory_process i r st = Some (DIAG_OK, st') \<and> outcome DIAG_OK (ds_con st')"
proof -
  from get_building [OF c] obtain c1 where c1: "con_releaseRequestGetResponse (ds_con st) = Some c1" "building c1" "blen c1 = blen (ds_con st)" by blast
  have i: "con_inv None None False c1" "con_isOpen c1" using c1(2) by (simp_all add: building_def)
  from request_bytes_read [OF unanswered(3) [OF i], of r "snd r"] r c1(3) obtain bs where "request_bytes c1 r (snd r) = Some bs" by auto
  moreover from respond_positive [OF i, of i] obtain c2 where "con_sendPositiveResponse i c1 = Some (UDS_OK, c2)" "outcome DIAG_OK c2"
    by (auto simp: outcome_def)
  ultimately show ?thesis using c1(1) by (auto simp: writeMemory_process_def Let_def)
qed

lemma sessionControl_outcome:
  assumes c: "asking (ds_con st)" and r: "fst r < blen (ds_con st)"
  shows "\<exists>code st'. sessionControl_process E i r st = Some (code, st') \<and> code \<noteq> NOT_RESPONSIBLE \<and> outcome code (ds_con st')"
proof (cases "snd r = 1")
  case False
  then show ?thesis using asking_outcome [OF c, of ISO_INVALID_FORMAT] by (simp add: sessionControl_process_def code_defs)
next
  case True
  obtain b where b: "request_byte (ds_con st) r 0 = Some b" using request_byte_read [of "ds_con st" r 0] askingD(5) [OF c] r by auto
  let ?t = "isTransitionPossible (je_programming E) (sc_current (ds_session st)) b"
  have t: "?t = DIAG_OK \<or> good_code ?t"
    by (cases "sc_current (ds_session st)") simp_all
  show ?thesis
  proof (cases "?t = DIAG_OK")
    case False
    then have "outcome ?t (ds_con st)" "?t \<noteq> NOT_RESPONSIBLE" using t asking_outcome [OF c, of ?t] by (auto simp: good_code_def)
    then show ?thesis using True b False by (simp add: sessionControl_process_def Let_def)
  next
    case ok: True
    from asking_identifier [OF c] obtain ids where
      ids: "con_addIdentifier (ds_con st) = Some ((ds_con st)\<lparr>con_identifiers := ids\<rparr>)" "asking ((ds_con st)\<lparr>con_identifiers := ids\<rparr>)" by blast
    from get_building [OF ids(2)] obtain c1 where
      c1: "con_releaseRequestGetResponse ((ds_con st)\<lparr>con_identifiers := ids\<rparr>) = Some c1" "building c1" by blast
    show ?thesis
    proof (cases "pr_getMaximumLength (con_positiveResponse c1) < 4")
      case l: True
      have "outcome ISO_RESPONSE_TOO_LONG c1" by (rule building_unanswered [OF c1(2)]) (simp_all add: code_defs)
      moreover have "ISO_RESPONSE_TOO_LONG \<noteq> NOT_RESPONSIBLE" by (simp add: code_defs)
      ultimately show ?thesis using True b ok ids(1) c1(1) l by (simp add: sessionControl_process_def Let_def)
    next
      case l: False
      let ?pieces = "if b = SESSION_PROGRAMMING then PROGRAMMING_DIAG_RESPONSE else DEFAULT_DIAG_RESPONSE"
      from append_pieces_building [OF c1(2), of ?pieces] obtain c2 where c2: "append_pieces ?pieces c1 = Some c2" "building c2" by blast
      from send_building [OF c2(2), of i] obtain c3 where
        "con_sendPositiveResponseInternal (pr_getLength (con_positiveResponse c2)) i c2 = (UDS_OK, c3)" "outcome DIAG_OK c3"
        by (auto simp: outcome_def)
      then show ?thesis using True b ok ids(1) c1(1) l c2(1) by (simp add: sessionControl_process_def Let_def del: append_pieces.simps)
    qed
  qed
qed

lemma cc_control_code: "fst (cc_control t lo hi n cc) = DIAG_OK \<or> fst (cc_control t lo hi n cc) = ISO_SUBFUNCTION_NOT_SUPPORTED"
  by (simp add: cc_control_def Let_def split: prod.split)

lemma communication_outcome:
  assumes c: "asking (ds_con st)" and r: "fst r + 3 < blen (ds_con st)"
  shows "\<exists>code st'. communication_process i r st = Some (code, st') \<and> outcome code (ds_con st')"
proof -
  have m: "messages_ok (ds_con st)" using askingD(5) [OF c] .
  obtain t where t: "request_byte (ds_con st) r 0 = Some t" using request_byte_read [OF m, of r 0] r by auto
  obtain y where y: "request_byte (ds_con st) r 1 = Some y" using request_byte_read [OF m, of r 1] r by auto
  from get_building [OF c] obtain c1 where c1: "con_releaseRequestGetResponse (ds_con st) = Some c1" "building c1" "blen c1 = blen (ds_con st)" by blast
  have u: "outcome code c1" if "good_code code \<or> code = NOT_RESPONSIBLE" for code
    using building_unanswered [OF c1(2)] that by (auto simp: good_code_def)
  have m1: "messages_ok c1" using c1(2) unanswered(3) [of None None c1] by (simp add: building_def)
  consider "(t = 4 \<or> t = 5) \<and> snd r \<noteq> 4 \<or> t \<le> 3 \<and> snd r \<noteq> 2" | "\<not> ((t = 4 \<or> t = 5) \<and> snd r \<noteq> 4 \<or> t \<le> 3 \<and> snd r \<noteq> 2)" "t > 5"
    | "\<not> ((t = 4 \<or> t = 5) \<and> snd r \<noteq> 4 \<or> t \<le> 3 \<and> snd r \<noteq> 2)" "\<not> t > 5" by blast
  then show ?thesis
  proof cases
    case 1
    then show ?thesis using t y asking_outcome [OF c, of ISO_INVALID_FORMAT] by (simp add: communication_process_def Let_def code_defs)
  next
    case 2
    then have "communication_process i r st = Some (if 0x40 \<le> t \<and> t \<le> 0x5F then NOT_RESPONSIBLE else ISO_SUBFUNCTION_NOT_SUPPORTED, st\<lparr>ds_con := c1\<rparr>)"
      using t y c1(1) unfolding communication_process_def Let_def by auto
    then show ?thesis using u [of NOT_RESPONSIBLE] u [of ISO_SUBFUNCTION_NOT_SUPPORTED] by auto
  next
    case 3
    obtain hi lo where hl: "request_byte c1 r 2 = Some hi" "request_byte c1 r 3 = Some lo"
      using request_byte_read [OF m1, of r 2] request_byte_read [OF m1, of r 3] r c1(3) by auto
    define n where "n = (if t \<ge> 4 \<and> y AND 0x0F = 1 then word_cat hi lo else (0 :: u16))"
    have n: "(if t \<ge> 4 \<and> y AND 0x0F = 1 then do { hi \<leftarrow> request_byte c1 r 2; lo \<leftarrow> request_byte c1 r 3; Some (word_cat hi lo) } else Some 0) = Some n"
      by (simp add: hl n_def)
    obtain ret cc where r: "cc_control t (y AND 0x0F) (y AND 0xF0) n (ds_communication st) = (ret, cc)" by fastforce
    have ret: "ret = DIAG_OK \<or> ret = ISO_SUBFUNCTION_NOT_SUPPORTED" using cc_control_code [of t "y AND 0x0F" "y AND 0xF0" n "ds_communication st"] r by simp
    show ?thesis
    proof (cases "ret = DIAG_OK")
      case True
      from append_building [OF c1(2), of "[t]"] obtain k c2 where c2: "pr_appendData [t] c1 = Some (k, c2)" "building c2" by blast
      from send_building [OF c2(2), of i] obtain c3 where
        c3: "con_sendPositiveResponseInternal (pr_getLength (con_positiveResponse c2)) i c2 = (UDS_OK, c3)" "outcome DIAG_OK c3"
        by (auto simp: outcome_def)
      have "communication_process i r st = Some (DIAG_OK, st\<lparr>ds_con := c3, ds_communication := cc\<rparr>)"
        using 3 t y c1(1) n r True c2(1) c3(1) unfolding communication_process_def Let_def pr_appendUint8_def by auto
      then show ?thesis using c3(2) by simp
    next
      case False
      have "communication_process i r st = Some (ret, st\<lparr>ds_con := c1, ds_communication := cc\<rparr>)"
        using 3 t y c1(1) n r False unfolding communication_process_def Let_def by auto
      then show ?thesis using u [of ret] ret False by auto
    qed
  qed
qed

lemma routine_outcome:
  assumes c: "asking (ds_con st)" and h: "routine_shape h routine" "h routine = Some R"
  shows "\<exists>code st'. routine_process routine R st = Some (code, st') \<and> code \<noteq> NOT_RESPONSIBLE \<and> outcome code (ds_con st')"
proof -
  obtain bs where bs: "j_request R = Some bs" "3 < length bs" using h by (auto simp: routine_shape_def)
  have d: "\<exists>st'. demoRoutine_respond sub routine R s = Some (DIAG_OK, st') \<and> outcome DIAG_OK (ds_con st')" if "asking (ds_con s)" for sub s
    using bs respond_outcome [OF that, of routine "[[sub], [bs ! 2], [bs ! 3]]"] by (simp add: demoRoutine_respond_def)
  have e: "outcome ISO_REQUEST_SEQUENCE_ERROR (ds_con st)" "outcome ISO_SUBFUNCTION_NOT_SUPPORTED (ds_con st)"
    by (rule asking_outcome [OF c]; simp add: code_defs)+
  have n: "ISO_REQUEST_SEQUENCE_ERROR \<noteq> NOT_RESPONSIBLE" "ISO_SUBFUNCTION_NOT_SUPPORTED \<noteq> NOT_RESPONSIBLE" by (simp_all add: code_defs)
  let ?sub = "con_getIdentifier 1 (ds_con st)"
  let ?ok = "ds_started st routine \<or> (case j_kind R of RoutineJob _ b \<Rightarrow> \<not> b | _ \<Rightarrow> True)"
  consider "?sub = 1" | "?sub = 2" | "?sub = 3" | "?sub \<noteq> 1" "?sub \<noteq> 2" "?sub \<noteq> 3" by blast
  then show ?thesis
  proof cases
    case 1
    from d [of "st\<lparr>ds_started := (ds_started st)(routine := True)\<rparr>" 1] c obtain st' where
      "demoRoutine_respond 1 routine R (st\<lparr>ds_started := (ds_started st)(routine := True)\<rparr>) = Some (DIAG_OK, st')" "outcome DIAG_OK (ds_con st')" by auto
    then show ?thesis using 1 by (simp add: routine_process_def)
  next
    case 2
    from d [OF c, of 2] obtain st' where "demoRoutine_respond 2 routine R st = Some (DIAG_OK, st')" "outcome DIAG_OK (ds_con st')" by auto
    then show ?thesis using 2 e(1) n(1) by (cases ?ok) (simp_all add: routine_process_def)
  next
    case 3
    from d [OF c, of 3] obtain st' where "demoRoutine_respond 3 routine R st = Some (DIAG_OK, st')" "outcome DIAG_OK (ds_con st')" by auto
    then show ?thesis using 3 e(1) n(1) by (cases ?ok) (simp_all add: routine_process_def)
  next
    case 4
    then show ?thesis using e(2) n(2) by (simp add: routine_process_def)
  qed
qed

lemma byte_outcomes:
  assumes c: "asking (ds_con st)" and r: "fst r + 2 < blen (ds_con st)"
  shows "\<exists>code st'. testerPresent_process i r st = Some (code, st') \<and> code \<noteq> NOT_RESPONSIBLE \<and> outcome code (ds_con st')"
    and "\<exists>code st'. controlDTC_process i r st = Some (code, st') \<and> code \<noteq> NOT_RESPONSIBLE \<and> outcome code (ds_con st')"
    and "\<exists>code st'. clearDTC_process i r st = Some (code, st') \<and> code \<noteq> NOT_RESPONSIBLE \<and> outcome code (ds_con st')"
    and "\<exists>code st'. readDTC_process i r st = Some (code, st') \<and> code \<noteq> NOT_RESPONSIBLE \<and> outcome code (ds_con st')"
proof -
  have m: "messages_ok (ds_con st)" using askingD(5) [OF c] .
  obtain b where b: "request_byte (ds_con st) r 0 = Some b" using request_byte_read [OF m, of r 0] r by auto
  obtain bs where bs: "request_bytes (ds_con st) r 3 = Some bs" using request_bytes_read [OF m, of r 3] r by auto
  have o: "outcome code (ds_con st)" if "good_code code" for code
    using asking_outcome [OF c] that by (simp add: good_code_def)
  have n: "code \<noteq> NOT_RESPONSIBLE" if "good_code code" for code using that by (simp add: good_code_def)
  note e = o [of ISO_SUBFUNCTION_NOT_SUPPORTED] o [of ISO_REQUEST_OUT_OF_RANGE] o [of ISO_INVALID_FORMAT]
    n [of ISO_SUBFUNCTION_NOT_SUPPORTED] n [of ISO_REQUEST_OUT_OF_RANGE] n [of ISO_INVALID_FORMAT]
  show "\<exists>code st'. testerPresent_process i r st = Some (code, st') \<and> code \<noteq> NOT_RESPONSIBLE \<and> outcome code (ds_con st')"
    using b e respond_outcome [OF c, of i "[[TESTER_PRESENT_ANSWER]]"] by (cases "b = TESTER_PRESENT_ANSWER") (auto simp: testerPresent_process_def)
  show "\<exists>code st'. controlDTC_process i r st = Some (code, st') \<and> code \<noteq> NOT_RESPONSIBLE \<and> outcome code (ds_con st')"
    using b e respond_outcome [OF c, of i "[[b]]"] by (cases "b = 1 \<or> b = 2") (auto simp: controlDTC_process_def)
  show "\<exists>code st'. clearDTC_process i r st = Some (code, st') \<and> code \<noteq> NOT_RESPONSIBLE \<and> outcome code (ds_con st')"
    using bs e respond_outcome [OF c, of i "[]"] by (cases "bs = [0xFF, 0xFF, 0xFF]") (auto simp: clearDTC_process_def)
  show "\<exists>code st'. readDTC_process i r st = Some (code, st') \<and> code \<noteq> NOT_RESPONSIBLE \<and> outcome code (ds_con st')"
    using b e respond_outcome [OF c, of i "[[b], [0xFF, 0x12, 0x34, 0x56, 0x09]]"]
    by (cases "b = 2"; cases "snd r < 2") (auto simp: readDTC_process_def)
qed

lemma power_outcomes:
  assumes c: "asking (ds_con st)"
  shows "\<exists>code st'. powerDown_process i st = Some (code, st') \<and> code \<noteq> NOT_RESPONSIBLE \<and> outcome code (ds_con st')"
    and "\<exists>code st'. reset_process E i st = Some (code, st') \<and> code \<noteq> NOT_RESPONSIBLE \<and> outcome code (ds_con st')"
proof -
  obtain e c' where c': "con_sendPositiveResponse i (ds_con st) = Some (e, c')" "outcome DIAG_OK c'" using positive_outcome [OF c] by blast
  then show "\<exists>code st'. powerDown_process i st = Some (code, st') \<and> code \<noteq> NOT_RESPONSIBLE \<and> outcome code (ds_con st')"
    by (simp add: powerDown_process_def)
  have "outcome ISO_CONDITIONS_NOT_CORRECT (ds_con st)" by (rule asking_outcome [OF c]) (simp_all add: code_defs)
  moreover have "ISO_CONDITIONS_NOT_CORRECT \<noteq> NOT_RESPONSIBLE" by (simp add: code_defs)
  ultimately show "\<exists>code st'. reset_process E i st = Some (code, st') \<and> code \<noteq> NOT_RESPONSIBLE \<and> outcome code (ds_con st')"
    using c' by (cases "je_modeChangePossible E") (simp_all add: reset_process_def)
qed

text \<open>Only the communication control may decline a request it has verified.\<close>

lemma process_outcome:
  assumes c: "asking (ds_con st)" and J: "job_shape h J" "\<not> job_is_node (j_kind J)" and r: "fst r = j_requestLength J"
    and w: "j_kind J = WriteMemory \<Longrightarrow> fst r + snd r \<le> blen (ds_con st)"
  shows "\<exists>code st'. job_process E h i J r st = Some (code, st') \<and> outcome code (ds_con st')
    \<and> (code = NOT_RESPONSIBLE \<longrightarrow> j_kind J = CommunicationService)"
proof -
  have b: "6 \<le> blen (ds_con st)" using askingD(4) [OF c] .
  have one: "fst r = 1" if "is_service (j_kind J)" using J(1) r that
    by (auto simp: job_shape_def is_service_def is_subfunction_def is_identifier_def)
  have l2: "fst r + 2 < blen (ds_con st)" "fst r + 3 < blen (ds_con st)" "fst r < blen (ds_con st)" if "is_service (j_kind J)"
    using one [OF that] b by simp_all
  have s: "is_service k" if "k \<in> {TesterPresentService, SessionControlService, CommunicationService, ControlDTCService, ClearDTCService, ReadDTCService}" for k
    using that by (auto simp: is_service_def)
  show ?thesis
  proof (cases "j_kind J")
    case (ReadMemory bs)
    then show ?thesis using respond_outcome [OF c, of i "[bs]"] by (auto simp: job_process_def)
  next
    case WriteMemory
    then show ?thesis using writeMemory_outcome [OF c w [OF WriteMemory], of i] by (auto simp: job_process_def)
  next
    case TesterPresentService
    then show ?thesis using byte_outcomes(1) [OF c l2(1), of i] s by (auto simp: job_process_def)
  next
    case SessionControlService
    then show ?thesis using sessionControl_outcome [OF c l2(3), of E i] s by (auto simp: job_process_def)
  next
    case CommunicationService
    then show ?thesis using communication_outcome [OF c l2(2), of i] s by (auto simp: job_process_def)
  next
    case ControlDTCService
    then show ?thesis using byte_outcomes(2) [OF c l2(1), of i] s by (auto simp: job_process_def)
  next
    case ClearDTCService
    then show ?thesis using byte_outcomes(3) [OF c l2(1), of i] s by (auto simp: job_process_def)
  next
    case ReadDTCService
    then show ?thesis using byte_outcomes(4) [OF c l2(1), of i] s by (auto simp: job_process_def)
  next
    case (RoutineJob routine q)
    then have rs: "routine_shape h routine" using J(1) by (auto simp: job_shape_def is_service_def is_subfunction_def is_identifier_def)
    then obtain R where "h routine = Some R" by (auto simp: routine_shape_def)
    then show ?thesis using routine_outcome [OF c rs] RoutineJob by (auto simp: job_process_def)
  next
    case ResetJob
    then show ?thesis using power_outcomes(2) [OF c, of E i] by (auto simp: job_process_def)
  next
    case PowerDownJob
    then show ?thesis using power_outcomes(1) [OF c, of i] by (auto simp: job_process_def)
  next
    case RapidShutdownJob
    then show ?thesis using respond_outcome [OF c, of i "[[SHUTDOWN_TIME]]"] by (auto simp: job_process_def)
  qed (use J(2) in \<open>simp_all add: job_is_node_def\<close>)
qed

section \<open>Verify\<close>

definition fits :: "job \<Rightarrow> diag_request \<Rightarrow> bool" where
  "fits J r \<longleftrightarrow> (case j_kind J of ReadMemory bs \<Rightarrow> True | RoutineJob routine b \<Rightarrow> True
     | _ \<Rightarrow> j_requestLength J - j_prefixLength J \<le> snd r)"

lemma service_verify_total:
  assumes "messages_ok c" "fst r < blen c" "j_request J = Some bs" "bs \<noteq> []"
  shows "\<exists>s. service_verify J t c r = Some s \<and> s \<noteq> ISO_RESPONSE_PENDING"
proof -
  obtain b where "request_byte c r 0 = Some b" using request_byte_read [of c r 0] assms by auto
  then show ?thesis using assms(3,4) by (simp add: service_verify_def code_defs)
qed

lemma subfunction_verify_total:
  assumes "messages_ok c" "fst r + snd r \<le> blen c" "j_request J = Some bs" "length bs = 2"
  shows "\<exists>s. subfunction_verify J t c r = Some s \<and> s \<noteq> ISO_RESPONSE_PENDING \<and> (s = DIAG_OK \<longrightarrow> 1 \<le> snd r)"
proof (cases "snd r < 1")
  case True
  then show ?thesis by (simp add: subfunction_verify_def code_defs)
next
  case False
  then obtain b where "request_byte c r 0 = Some b" using request_byte_read [of c r 0] assms by auto
  then show ?thesis using assms(3,4) False by (simp add: subfunction_verify_def code_defs)
qed

lemma bytes_verify_total:
  assumes "messages_ok c" "fst r + n \<le> blen c" "j_request J = Some bs" "k + n \<le> length bs"
  shows "\<exists>b. bytes_verify k n J c r = Some b"
proof (cases "n = 0")
  case True
  then have "bytes_verify k n J c r = Some True" by (simp add: bytes_verify_def)
  then show ?thesis by blast
next
  case False
  obtain x where "request_bytes c r n = Some x" using request_bytes_read [OF assms(1,2)] by blast
  then show ?thesis using assms(3,4) False by (simp add: bytes_verify_def)
qed

lemma verify_total:
  assumes c: "asking (ds_con st)" and J: "job_shape h J" and r: "fst r = j_prefixLength J" "fst r + snd r \<le> blen (ds_con st)"
    and z: "j_prefixLength J = 0 \<Longrightarrow> 1 \<le> snd r"
  shows "\<exists>s. job_verify h i J st r = Some s \<and> s \<noteq> ISO_RESPONSE_PENDING \<and> (s = DIAG_OK \<longrightarrow> fits J r)"
proof -
  obtain bs where bs: "j_request J = Some bs" "length bs = j_requestLength J" using J by (auto simp: job_shape_def)
  have m: "messages_ok (ds_con st)" "6 \<le> blen (ds_con st)" using askingD(4,5) [OF c] by simp_all
  note k = job_shape_def is_service_def is_subfunction_def is_identifier_def
  consider (service) "is_service (j_kind J)" "j_requestLength J = 1" "j_prefixLength J = 0"
    | (subfunction) "is_subfunction (j_kind J)" "j_requestLength J = 2" "j_prefixLength J = 1"
    | (ident) "is_identifier (j_kind J)" "j_requestLength J = 3" "j_prefixLength J = 1"
    | (routine) routine b where "j_kind J = RoutineJob routine b" "routine_shape h routine" "j_prefixLength J = 2"
    using J by (auto simp: job_shape_def)
  then show ?thesis
  proof cases
    case service
    have f: "fits J r" using service z by (auto simp: fits_def is_service_def split: job_kind.split)
    have s: "\<exists>s. service_verify J t (ds_con st) r = Some s \<and> s \<noteq> ISO_RESPONSE_PENDING" for t
      by (rule service_verify_total [OF m(1) _ bs(1)]) (use m(2) service r(1) bs(2) in auto)
    obtain b where b: "request_byte (ds_con st) r 3 = Some b" using request_byte_read [OF m(1), of r 3] m(2) service(3) r(1) by auto
    have p: "ISO_INVALID_FORMAT \<noteq> ISO_RESPONSE_PENDING" "DIAG_OK \<noteq> ISO_RESPONSE_PENDING" by (simp_all add: code_defs)
    show ?thesis using service(1) f s [of "sc_current (ds_session st)"] b p
      by (auto simp: is_service_def job_verify_def readData_verify_def writeData_verify_def inputOutput_verify_def
        routineControl_verify_def Let_def)
  next
    case subfunction
    have "\<exists>s. subfunction_verify J t (ds_con st) r = Some s \<and> s \<noteq> ISO_RESPONSE_PENDING \<and> (s = DIAG_OK \<longrightarrow> 1 \<le> snd r)" for t
      by (rule subfunction_verify_total [OF m(1) r(2) bs(1)]) (use subfunction bs(2) in auto)
    then show ?thesis using subfunction by (auto simp: is_subfunction_def job_verify_def Let_def fits_def)
  next
    case ident
    obtain b where "bytes_verify 1 2 J (ds_con st) r = Some b"
      using bytes_verify_total [OF m(1), of r 2 J bs 1] m(2) ident bs r(1) by auto
    then show ?thesis using ident
      by (auto simp: is_identifier_def job_verify_def Let_def fits_def dataIdentifier_verify_def writeMemory_verify_def code_defs)
  next
    case routine
    then obtain R bs' where R: "h routine = Some R" "j_request R = Some bs'" "j_requestLength R = length bs'" "4 \<le> length bs'" "length bs' \<le> 5"
      by (auto simp: routine_shape_def)
    have "fst r + (j_requestLength R - 2) \<le> blen (ds_con st)" "2 + (j_requestLength R - 2) \<le> length bs'"
      using R routine(3) r(1) m(2) by linarith+
    from bytes_verify_total [OF m(1) this(1) R(2) this(2)] obtain b where
      "bytes_verify 2 (j_requestLength R - 2) R (ds_con st) r = Some b" by blast
    then show ?thesis using routine R by (auto simp: job_verify_def Let_def fits_def routineJob_verify_def code_defs)
  qed
qed

section \<open>Enter\<close>

lemma advance_fits:
  assumes "snd r \<le> 65535" "k \<le> snd r"
  shows "request_advance k r = (fst r + k, snd r - k)"
proof -
  have "(snd r + 65536 - k) mod 65536 = snd r - k" using assms by (simp add: mod_if)
  then show ?thesis by (simp add: request_advance_def to_u16_def)
qed

lemma accept_con [simp]: "ds_con (job_acceptJob i J st) = ds_con st" "ds_con (job_acceptedJob i st) = ds_con st"
    "ds_memory (job_acceptJob i J st) = ds_memory st"
  by (simp_all add: job_acceptJob_def job_acceptedJob_def)

lemma blen_bound: "asking c \<Longrightarrow> blen c \<le> 65535"
  using askingD(5) [of c] by (auto simp: messages_ok_def blen_def tm_wf_def)

lemma enter_total:
  assumes c: "asking (ds_con st)" and J: "job_shape h J" and E: "env_shape E"
    and r: "fst r = j_prefixLength J" "fst r + snd r \<le> blen (ds_con st)" and z: "j_prefixLength J = 0 \<Longrightarrow> 1 \<le> snd r"
  shows "(\<exists>code st'. job_enter E h i J r st = Some (Inl (code, st')) \<and> (code = NOT_RESPONSIBLE \<and> st' = st \<or> good_code code \<and> outcome code (ds_con st')))
    \<or> (\<exists>st'. job_enter E h i J r st = Some (Inr (request_advance (j_requestLength J - j_prefixLength J) r, st')) \<and> asking (ds_con st')
        \<and> blen (ds_con st') = blen (ds_con st) \<and> job_verify h i J st r = Some DIAG_OK)"
proof -
  from verify_total [OF c J r z] obtain s where s: "job_verify h i J st r = Some s" "s \<noteq> ISO_RESPONSE_PENDING" by blast
  have p: "j_prefixLength J \<le> j_requestLength J" "j_requestLength J \<le> 5"
    using J by (auto simp: job_shape_def)
  have o: "outcome code (ds_con st)" if "good_code code" for code using asking_outcome [OF c] that by (simp add: good_code_def)
  let ?k = "j_requestLength J - j_prefixLength J"
  show ?thesis
  proof (cases "s = DIAG_OK")
    case False
    show ?thesis
    proof (cases "s = NOT_RESPONSIBLE")
      case True
      then have "job_enter E h i J r st = Some (Inl (NOT_RESPONSIBLE, st))" using s p False by (simp add: job_enter_def)
      then show ?thesis by blast
    next
      case n: False
      then have "good_code s" using False s(2) by (simp add: good_code_def)
      moreover have "job_enter E h i J r st = Some (Inl (s, job_acceptedJob i st))" using s p False n by (simp add: job_enter_def)
      ultimately show ?thesis using o by auto
    qed
  next
    case True
    from asking_identifiers [OF c, of ?k] obtain ids where
      ids: "con_addIdentifiers ?k (ds_con st) = Some ((ds_con st)\<lparr>con_identifiers := ids\<rparr>)" "asking ((ds_con st)\<lparr>con_identifiers := ids\<rparr>)" by blast
    let ?c = "(ds_con st)\<lparr>con_identifiers := ids\<rparr>"
    have bl: "blen ?c = blen (ds_con st)" by (simp add: blen_def)
    obtain n where n: "con_getMaximumResponseLength ?c = Some n" using asking_maximum [OF ids(2)] by blast
    have "fst (request_advance ?k r) < blen ?c" using p r(1) bl askingD(4) [OF c] by (simp add: request_advance_def)
    from asking_suppress [OF ids(2) this, of J] obtain c' where
      c': "checkSuppressPositiveResponseBit J (request_advance ?k r) ?c = Some c'" "asking c'" "blen c' = blen (ds_con st)"
      using bl by auto
    let ?accept = "job_acceptJob i J st" and ?a = "getNotAuthenticatedReturnCode E J"
    have a: "good_code ?a" using isAuthenticated_code [OF E] .
    have v: "verifySupplierIndication = DIAG_OK" by (simp add: verifySupplierIndication_def)
    consider "\<not> mask_match (j_allowedSessions J) (sc_current (ds_session st))"
      | "mask_match (j_allowedSessions J) (sc_current (ds_session st))" "\<not> isAuthenticated E J (con_sourceAddress (ds_con st))"
      | "mask_match (j_allowedSessions J) (sc_current (ds_session st))" "isAuthenticated E J (con_sourceAddress (ds_con st))"
        "j_requestPayloadLength J \<noteq> VARIABLE_LENGTH \<and> snd (request_advance ?k r) \<noteq> j_requestPayloadLength J"
      | "mask_match (j_allowedSessions J) (sc_current (ds_session st))" "isAuthenticated E J (con_sourceAddress (ds_con st))"
        "\<not> (j_requestPayloadLength J \<noteq> VARIABLE_LENGTH \<and> snd (request_advance ?k r) \<noteq> j_requestPayloadLength J)"
        "j_responseLength J \<noteq> VARIABLE_LENGTH \<and> n < j_responseLength J"
      | "mask_match (j_allowedSessions J) (sc_current (ds_session st))" "isAuthenticated E J (con_sourceAddress (ds_con st))"
        "\<not> (j_requestPayloadLength J \<noteq> VARIABLE_LENGTH \<and> snd (request_advance ?k r) \<noteq> j_requestPayloadLength J)"
        "\<not> (j_responseLength J \<noteq> VARIABLE_LENGTH \<and> n < j_responseLength J)" by blast
    then show ?thesis
    proof cases
      case 1
      then have "job_enter E h i J r st = Some (Inl (ISO_REQUEST_OUT_OF_RANGE, ?accept))" using s True p(1) by (simp add: job_enter_def)
      then show ?thesis using o [of ISO_REQUEST_OUT_OF_RANGE] by auto
    next
      case 2
      then have "job_enter E h i J r st = Some (Inl (?a, ?accept))" using s True p(1) by (simp add: job_enter_def)
      then show ?thesis using o [OF a] a by auto
    next
      case 3
      then have "job_enter E h i J r st = Some (Inl (ISO_INVALID_FORMAT, ?accept))" using s True p(1) v by (simp add: job_enter_def Let_def)
      then show ?thesis using o [of ISO_INVALID_FORMAT] by auto
    next
      case 4
      then have "job_enter E h i J r st = Some (Inl (ISO_RESPONSE_TOO_LONG, job_acceptJob i J (st\<lparr>ds_con := ?c\<rparr>)))"
        using s True p(1) v ids(1) n by (auto simp: job_enter_def Let_def)
      moreover have "outcome ISO_RESPONSE_TOO_LONG ?c" by (rule asking_outcome [OF ids(2)]) (simp_all add: code_defs)
      ultimately show ?thesis by auto
    next
      case 5
      then have "job_enter E h i J r st = Some (Inr (request_advance ?k r, job_acceptJob i J (st\<lparr>ds_con := c'\<rparr>)))"
        using s True p(1) v ids(1) n c'(1) by (auto simp: job_enter_def Let_def)
      then show ?thesis using c'(2,3) s(1) True by auto
    qed
  qed
qed

section \<open>Trees in the store\<close>

datatype job_tree = JobNode nat "job_tree list"

fun tree_rep :: "job_store \<Rightarrow> nat option \<Rightarrow> job_tree list \<Rightarrow> bool" where
  "tree_rep h p [] \<longleftrightarrow> p = None"
| "tree_rep h p (JobNode i cs # ts) \<longleftrightarrow> p = Some i
     \<and> (\<exists>J. h i = Some J \<and> tree_rep h (j_firstChild J) cs \<and> tree_rep h (j_nextJob J) ts)"

definition differs :: "job_store \<Rightarrow> job \<Rightarrow> job_tree \<Rightarrow> bool" where
  "differs h J t \<longleftrightarrow> (case t of JobNode j cs \<Rightarrow> \<exists>K. h j = Some K \<and> job_equal J K = Some False)"

text \<open>Every job has the shape of its class and its parent's request as its prefix; siblings differ.\<close>

fun tree_ok :: "job_store \<Rightarrow> u8 list option \<Rightarrow> nat \<Rightarrow> job_tree list \<Rightarrow> bool" where
  "tree_ok h prefix n [] \<longleftrightarrow> True"
| "tree_ok h prefix n (JobNode i cs # ts) \<longleftrightarrow>
     (\<exists>J. h i = Some J \<and> job_shape h J \<and> isChild J prefix n = Some True
       \<and> tree_ok h (j_request J) (j_requestLength J) cs \<and> list_all (differs h J) ts)
     \<and> tree_ok h prefix n ts"

lemma isChild_prefix: "isChild J prefix n = Some True \<Longrightarrow> j_prefixLength J = n"
  by (simp add: isChild_def split: if_splits)

section \<open>A job that declines\<close>

lemma walk_skip:
  assumes "tree_rep h p ts" "list_all (\<lambda>t. case t of JobNode j cs \<Rightarrow> \<exists>J. h j = Some J \<and> job_shape h J
      \<and> job_verify h j J st r = Some NOT_RESPONSIBLE) ts"
  shows "job_walk E h p r st = Some (NOT_RESPONSIBLE, st)"
  using assms
proof (induction ts arbitrary: p)
  case Nil
  then show ?case by (simp add: job_walk.simps)
next
  case (Cons t ts)
  obtain i cs where t: "t = JobNode i cs" by (cases t)
  obtain J where J: "p = Some i" "h i = Some J" "job_shape h J" "job_verify h i J st r = Some NOT_RESPONSIBLE" "tree_rep h (j_nextJob J) ts"
    using Cons.prems t by auto
  have "j_prefixLength J \<le> j_requestLength J" using J(3) by (auto simp: job_shape_def)
  then have "job_enter E h i J r st = Some (Inl (NOT_RESPONSIBLE, st))" using J(4) by (simp add: job_enter_def)
  then show ?case using J Cons.IH [OF J(5)] Cons.prems(2) by (subst job_walk.simps) simp
qed

lemma identifier_keeps: "con_addIdentifier c = Some c' \<Longrightarrow> con_requestMessage c' = con_requestMessage c"
  by (auto simp: con_addIdentifier_def bind_eq_Some_conv split: option.splits if_splits)

lemma identifiers_keep: "con_addIdentifiers n c = Some c' \<Longrightarrow> con_requestMessage c' = con_requestMessage c"
  by (induction n arbitrary: c) (auto simp: bind_eq_Some_conv dest: identifier_keeps)

lemma suppress_keeps:
  assumes "checkSuppressPositiveResponseBit J r' c = Some c'" "fst r < fst r'"
  shows "request_byte c' r 0 = request_byte c r 0"
  using assms
  by (auto simp: checkSuppressPositiveResponseBit_def bind_eq_Some_conv Let_def request_byte_def split: if_splits option.splits)

lemma enter_keeps:
  assumes "job_enter E h i J r st = Some (Inr (r', st'))" "j_prefixLength J < j_requestLength J"
  shows "request_byte (ds_con st') r 0 = request_byte (ds_con st) r 0"
proof -
  obtain c c' where c: "con_addIdentifiers (j_requestLength J - j_prefixLength J) (ds_con st) = Some c"
    "checkSuppressPositiveResponseBit J (request_advance (j_requestLength J - j_prefixLength J) r) c = Some c'"
    "st' = job_acceptJob i J (st\<lparr>ds_con := c'\<rparr>)"
    using assms(1) by (auto simp: job_enter_def bind_eq_Some_conv Let_def split: if_splits)
  have "fst r < fst (request_advance (j_requestLength J - j_prefixLength J) r)" using assms(2) by (simp add: request_advance_def)
  from suppress_keeps [OF c(2) this] identifiers_keep [OF c(1)] show ?thesis by (simp add: c(3) request_byte_def)
qed

lemma release_keeps:
  assumes "con_releaseRequestGetResponse c = Some c'" "messages_ok c" "con_nestedRequest c = None"
  shows "request_byte c' r i = request_byte c r i"
proof -
  obtain q where q: "con_requestMessage c = Some q" "\<And>m. con_responseMessage c = Some m \<Longrightarrow> tm_buffer m = tm_buffer q"
    using assms(2) by (auto simp: messages_ok_def)
  obtain m where m: "(case con_responseMessage c of Some m \<Rightarrow> Some m
     | None \<Rightarrow> do { r \<leftarrow> con_requestMessage c; tm_init (Some (tm_buffer r)) (length (tm_buffer r)) (tm_new []) }) = Some m"
    "con_requestMessage c' = con_requestMessage (con_setResponse m c)"
    using assms(1,3) by (auto simp: con_releaseRequestGetResponse_def bind_eq_Some_conv)
  have "tm_buffer m = tm_buffer q"
  proof (cases "con_responseMessage c")
    case None
    then show ?thesis using m(1) q(1) by (auto simp: tm_init_def tm_new_def setPayloadLength_def Let_def bind_eq_Some_conv split: if_splits)
  next
    case (Some x)
    then have "m = x" using m(1) by simp
    then show ?thesis using q(2) [OF Some] by simp
  qed
  then show ?thesis using m(2) q(1) by (simp add: request_byte_def con_setResponse_def)
qed

lemma communication_declines:
  assumes "communication_process i r st = Some (NOT_RESPONSIBLE, st')" "asking (ds_con st)"
  shows "request_byte (ds_con st') q 0 = request_byte (ds_con st) q 0 \<and> ds_session st' = ds_session st"
proof -
  have d: "ISO_INVALID_FORMAT \<noteq> NOT_RESPONSIBLE" "ISO_SUBFUNCTION_NOT_SUPPORTED \<noteq> NOT_RESPONSIBLE" by (simp_all add: code_defs)
  obtain t y where t: "request_byte (ds_con st) r 0 = Some t" "request_byte (ds_con st) r 1 = Some y"
    using assms(1) unfolding communication_process_def by (auto simp: bind_eq_Some_conv)
  obtain c1 where c1: "con_releaseRequestGetResponse (ds_con st) = Some c1" "building c1" using get_building [OF assms(2)] by blast
  let ?P = "(t = 4 \<or> t = 5) \<and> snd r \<noteq> 4 \<or> t \<le> 3 \<and> snd r \<noteq> 2"
  have p: "\<not> ?P"
  proof
    assume ?P
    then have "communication_process i r st = Some (ISO_INVALID_FORMAT, st)" using t unfolding communication_process_def Let_def by auto
    then show False using assms(1) d(1) by simp
  qed
  have st: "st' = st\<lparr>ds_con := c1\<rparr>"
  proof (cases "t > 5")
    case True
    then have "communication_process i r st = Some (if 0x40 \<le> t \<and> t \<le> 0x5F then NOT_RESPONSIBLE else ISO_SUBFUNCTION_NOT_SUPPORTED, st\<lparr>ds_con := c1\<rparr>)"
      using t c1(1) p unfolding communication_process_def Let_def by auto
    then show ?thesis using assms(1) by simp
  next
    case False
    obtain n ret cc where n: "cc_control t (y AND 0x0F) (y AND 0xF0) n (ds_communication (st\<lparr>ds_con := c1\<rparr>)) = (ret, cc)"
      "(if ret \<noteq> DIAG_OK then Some (ret, st\<lparr>ds_con := c1, ds_communication := cc\<rparr>)
        else do { (_, c) \<leftarrow> pr_appendUint8 t c1;
           Some (DIAG_OK, st\<lparr>ds_con := c1, ds_communication := cc, ds_con := snd (con_sendPositiveResponseInternal (pr_getLength (con_positiveResponse c)) i c)\<rparr>) })
       = Some (NOT_RESPONSIBLE, st')"
    proof -
      have "communication_process i r st = do {
         rcvNode \<leftarrow> (if t \<ge> 4 \<and> y AND 0x0F = 1
                    then do { hi \<leftarrow> request_byte c1 r 2; lo \<leftarrow> request_byte c1 r 3; Some (word_cat hi lo) } else Some 0);
         let (ret, cc) = cc_control t (y AND 0x0F) (y AND 0xF0) rcvNode (ds_communication (st\<lparr>ds_con := c1\<rparr>));
         if ret \<noteq> DIAG_OK then Some (ret, st\<lparr>ds_con := c1, ds_communication := cc\<rparr>)
         else do { (_, c) \<leftarrow> pr_appendUint8 t c1;
           Some (DIAG_OK, st\<lparr>ds_con := c1, ds_communication := cc, ds_con := snd (con_sendPositiveResponseInternal (pr_getLength (con_positiveResponse c)) i c)\<rparr>) } }"
      proof -
        have p2: "?P = False" "(5 < t) = False" using p False by blast+
        show ?thesis unfolding communication_process_def Let_def
          by (simp only: t c1(1) bind.bind_lunit p2 if_False)
      qed
      from this [symmetric] assms(1) obtain n where "(case cc_control t (y AND 0x0F) (y AND 0xF0) n (ds_communication (st\<lparr>ds_con := c1\<rparr>)) of (ret, cc) \<Rightarrow>
         if ret \<noteq> DIAG_OK then Some (ret, st\<lparr>ds_con := c1, ds_communication := cc\<rparr>)
         else do { (_, c) \<leftarrow> pr_appendUint8 t c1;
           Some (DIAG_OK, st\<lparr>ds_con := c1, ds_communication := cc, ds_con := snd (con_sendPositiveResponseInternal (pr_getLength (con_positiveResponse c)) i c)\<rparr>) })
          = Some (NOT_RESPONSIBLE, st')"
        by (auto simp only: bind_eq_Some_conv Let_def)
      then show thesis using that [of n] by (cases "cc_control t (y AND 0x0F) (y AND 0xF0) n (ds_communication (st\<lparr>ds_con := c1\<rparr>))") simp
    qed
    have "ret = DIAG_OK \<or> ret = ISO_SUBFUNCTION_NOT_SUPPORTED" using cc_control_code [of t "y AND 0x0F" "y AND 0xF0" n "ds_communication (st\<lparr>ds_con := c1\<rparr>)"] n(1) by simp
    then show ?thesis using n(2) d(2) by (auto simp: bind_eq_Some_conv split: if_splits)
  qed
  then show ?thesis using release_keeps [OF c1(1)] askingD(5,7) [OF assms(2)] by simp
qed

section \<open>The walk\<close>

lemma service_shape: "job_shape h J \<Longrightarrow> j_prefixLength J = 0 \<Longrightarrow> is_service (j_kind J) \<and> j_requestLength J = 1"
  by (auto simp: job_shape_def)

lemma service_declines:
  assumes "is_service (j_kind J)" "j_request J = Some [a]" "request_byte (ds_con st) r 0 = Some b" "b \<noteq> a"
  shows "job_verify h i J st r = Some NOT_RESPONSIBLE"
  using assms
  by (auto simp: is_service_def job_verify_def service_verify_def readData_verify_def writeData_verify_def inputOutput_verify_def
      routineControl_verify_def)

lemma service_accepts:
  assumes "is_service (j_kind J)" "j_request J = Some [a]" "job_verify h i J st r = Some DIAG_OK"
  shows "request_byte (ds_con st) r 0 = Some a"
proof -
  have "request_byte (ds_con st) r 0 \<noteq> None"
  proof
    assume "request_byte (ds_con st) r 0 = None"
    then have "service_verify J t (ds_con st) r = None" for t by (simp add: service_verify_def)
    then show False using assms(1,3)
      by (auto simp: is_service_def job_verify_def readData_verify_def writeData_verify_def inputOutput_verify_def
        routineControl_verify_def)
  qed
  then obtain b where "request_byte (ds_con st) r 0 = Some b" by blast
  then show ?thesis using service_declines [OF assms(1,2), of st r b h i] assms(3) by (cases "b = a") auto
qed

lemma siblings_decline:
  assumes J: "job_shape h J" "j_prefixLength J = 0" and ts: "tree_ok h prefix 0 ts" "list_all (differs h J) ts"
    and v: "job_verify h i J st r = Some DIAG_OK" and b: "request_byte (ds_con st') r 0 = request_byte (ds_con st) r 0"
  shows "list_all (\<lambda>t. case t of JobNode j cs \<Rightarrow> \<exists>K. h j = Some K \<and> job_shape h K
      \<and> job_verify h j K st' r = Some NOT_RESPONSIBLE) ts"
  using ts
proof (induction ts)
  case (Cons t ts)
  obtain j cs where t: "t = JobNode j cs" by (cases t)
  obtain K where K: "h j = Some K" "job_shape h K" "isChild K prefix 0 = Some True" "job_equal J K = Some False" "tree_ok h prefix 0 ts"
    using Cons.prems t by (auto simp: differs_def)
  have s: "is_service (j_kind J)" "j_requestLength J = 1" "is_service (j_kind K)" "j_requestLength K = 1" "j_prefixLength K = 0"
    using service_shape J service_shape [OF K(2)] isChild_prefix [OF K(3)] by auto
  obtain x where x: "j_request J = Some [x]" using J(1) s(2) by (auto simp: job_shape_def length_Suc_conv)
  obtain y where y: "j_request K = Some [y]" using K(2) s(4) by (auto simp: job_shape_def length_Suc_conv)
  have "x \<noteq> y" using K(4) x y s J(2) by (auto simp: job_equal_def job_compare_def)
  moreover have "request_byte (ds_con st') r 0 = Some x" using service_accepts [OF s(1) x v] b by simp
  ultimately have "job_verify h j K st' r = Some NOT_RESPONSIBLE" using service_declines [OF s(3) y] by metis
  then show ?case using Cons.IH [OF K(5)] Cons.prems(2) t K(1,2) by simp
qed simp

lemma enter_fits:
  assumes c: "asking (ds_con st)" and J: "job_shape h J" and r: "fst r = j_prefixLength J" "fst r + snd r \<le> blen (ds_con st)"
    and z: "j_prefixLength J = 0 \<Longrightarrow> 1 \<le> snd r" and v: "job_verify h i J st r = Some DIAG_OK" and k: "job_is_node (j_kind J) \<or> j_kind J = WriteMemory"
  shows "request_advance (j_requestLength J - j_prefixLength J) r = (j_requestLength J, snd r - (j_requestLength J - j_prefixLength J))"
    "j_requestLength J + (snd r - (j_requestLength J - j_prefixLength J)) \<le> blen (ds_con st)"
proof -
  let ?k = "j_requestLength J - j_prefixLength J"
  have f: "fits J r" using verify_total [OF c J r z, of i] v by auto
  then have f: "?k \<le> snd r" using k by (auto simp: fits_def job_is_node_def)
  have l: "j_prefixLength J \<le> j_requestLength J" using J by (auto simp: job_shape_def)
  have "snd r \<le> 65535" using r blen_bound [OF c] by simp
  from advance_fits [OF this f] show "request_advance ?k r = (j_requestLength J, snd r - ?k)" using r(1) l by simp
  show "j_requestLength J + (snd r - ?k) \<le> blen (ds_con st)" using r f l by linarith
qed

lemma walk_total:
  assumes "tree_rep h p ts" "tree_ok h prefix n ts" "env_shape E"
    and "asking (ds_con st)" "fst r = n" "fst r + snd r \<le> blen (ds_con st)" "n = 0 \<Longrightarrow> 1 \<le> snd r"
  shows "\<exists>code st'. job_walk E h p r st = Some (code, st') \<and> outcome code (ds_con st')"
  using assms
proof (induction h prefix n ts arbitrary: p r st rule: tree_ok.induct)
  case (1 h prefix n)
  then show ?case using asking_outcome [of "ds_con st" NOT_RESPONSIBLE] by (simp add: job_walk.simps)
next
  case (2 h prefix n i cs ts)
  note c = "2.prems"(4)
  obtain J where J: "p = Some i" "h i = Some J" "tree_rep h (j_firstChild J) cs" "tree_rep h (j_nextJob J) ts"
    "job_shape h J" "isChild J prefix n = Some True" "tree_ok h (j_request J) (j_requestLength J) cs"
    "list_all (differs h J) ts" "tree_ok h prefix n ts"
    using "2.prems"(1,2) by auto
  have n: "j_prefixLength J = n" using isChild_prefix [OF J(6)] .
  have r: "fst r = j_prefixLength J" "fst r + snd r \<le> blen (ds_con st)" "j_prefixLength J = 0 \<Longrightarrow> 1 \<le> snd r"
    using "2.prems"(5-7) n by auto
  have l: "j_prefixLength J < j_requestLength J" using J(5) by (auto simp: job_shape_def)
  let ?r = "request_advance (j_requestLength J - j_prefixLength J) r"
  have rest: "\<exists>code st'. job_walk E h (j_nextJob J) r st = Some (code, st') \<and> outcome code (ds_con st')"
    using "2.IH"(2) [OF J(4,9) "2.prems"(3-7)] .
  consider (declined) "job_enter E h i J r st = Some (Inl (NOT_RESPONSIBLE, st))"
    | (refused) code st' where "job_enter E h i J r st = Some (Inl (code, st'))" "good_code code" "outcome code (ds_con st')"
    | (entered) st' where "job_enter E h i J r st = Some (Inr (?r, st'))" "asking (ds_con st')"
        "blen (ds_con st') = blen (ds_con st)" "job_verify h i J st r = Some DIAG_OK"
    using enter_total [OF c J(5) "2.prems"(3) r(1,2,3), of i] by auto
  then show ?case
  proof cases
    case declined
    then have "job_walk E h p r st = job_walk E h (j_nextJob J) r st" using J by (subst job_walk.simps) simp
    then show ?thesis using rest by simp
  next
    case refused
    then have "code \<noteq> NOT_RESPONSIBLE" by (auto simp: good_code_def)
    then have "job_walk E h p r st = Some (code, st')" using J refused by (subst job_walk.simps) simp
    then show ?thesis using refused by simp
  next
    case entered
    show ?thesis
    proof (cases "job_is_node (j_kind J)")
      case True
      from enter_fits [OF c J(5) r entered(4)] True have f: "fst ?r = j_requestLength J" "fst ?r + snd ?r \<le> blen (ds_con st')"
        using entered(3) by simp_all
      have "j_requestLength J = 0 \<Longrightarrow> 1 \<le> snd ?r" using l by simp
      from "2.IH"(1) [OF J(3,7) "2.prems"(3) entered(2) f this] obtain code st'' where
        w: "job_walk E h (j_firstChild J) ?r st' = Some (code, st'')" "outcome code (ds_con st'')" by blast
      let ?code = "if code = NOT_RESPONSIBLE then j_defaultCode J else code"
      have g: "good_code (j_defaultCode J)" using J(5) by (simp add: job_shape_def)
      have "?code \<noteq> NOT_RESPONSIBLE" "outcome ?code (ds_con st'')" using g w(2) by (auto simp: good_code_def outcome_def)
      moreover have "job_walk E h p r st = Some (?code, st'')" using J(1,2) entered(1) True w(1) calculation(1) by (subst job_walk.simps) simp
      ultimately show ?thesis by blast
    next
      case False
      have f: "fst ?r = j_requestLength J" using r(1) l by (simp add: request_advance_def)
      have w: "fst ?r + snd ?r \<le> blen (ds_con st')" if "j_kind J = WriteMemory"
        using enter_fits [OF c J(5) r entered(4)] that entered(3) by simp
      from process_outcome [OF entered(2) J(5) False f w, of E i] obtain code st'' where
        p: "job_process E h i J ?r st' = Some (code, st'')" "outcome code (ds_con st'')" "code = NOT_RESPONSIBLE \<Longrightarrow> j_kind J = CommunicationService" by auto
      have step: "job_walk E h p r st = (if code = NOT_RESPONSIBLE then job_walk E h (j_nextJob J) r st'' else Some (code, st''))"
        using J(1,2) entered(1) False p(1) by (subst job_walk.simps) simp
      show ?thesis
      proof (cases "code = NOT_RESPONSIBLE")
        case d: True
        then have k: "j_kind J = CommunicationService" using p(3) by simp
        then have z: "j_prefixLength J = 0" using J(5) by (auto simp: job_shape_def is_subfunction_def is_identifier_def)
        have "communication_process i ?r st' = Some (NOT_RESPONSIBLE, st'')" using p(1) k d by (simp add: job_process_def)
        from communication_declines [OF this entered(2), of r] enter_keeps [OF entered(1) l]
        have "request_byte (ds_con st'') r 0 = request_byte (ds_con st) r 0" by simp
        from walk_skip [OF J(4) siblings_decline [OF J(5) z _ J(8) entered(4) this], of prefix E] J(9) n z
        have "job_walk E h (j_nextJob J) r st'' = Some (NOT_RESPONSIBLE, st'')" by simp
        then show ?thesis using step d p(2) by simp
      next
        case False
        then show ?thesis using step p(2) by simp
      qed
    qed
  qed
qed

end
