(* ===== verification/UdsDispatch.thy ===== *)
theory UdsDispatch imports UdsExecuteCorrect begin

text \<open>
  The dispatch of a request: the dispatcher opens a connection for it and gives it to the tree of
  jobs. What the tree does not answer is answered negatively, and the connection closed.
\<close>

definition dispatchIncomingRequest :: "job_env \<Rightarrow> job_store \<Rightarrow> nat \<Rightarrow> u16 \<Rightarrow> bool \<Rightarrow> bool \<Rightarrow> transport_message \<Rightarrow> diag_state \<Rightarrow> diag_state option" where
  "dispatchIncomingRequest E h root diagAddress activateOutgoingPending listener m st = do {
     c \<leftarrow> dd_openConnection diagAddress activateOutgoingPending listener m;
     (result, st) \<leftarrow> root_execute E h root (0, tm_payloadLength m) (st\<lparr>ds_con := c\<rparr>);
     if result \<noteq> DIAG_OK
     then do {
       (_, c) \<leftarrow> con_sendNegativeResponse result root (ds_con st);
       c \<leftarrow> con_terminate c;
       Some (st\<lparr>ds_con := c\<rparr>) }
     else Some st }"

section \<open>Every dispatched request\<close>

text \<open>A tree as the constructors and \<^verbatim>\<open>addAbstractDiagJob\<close> build it.\<close>

definition tree_shape :: "job_store \<Rightarrow> nat \<Rightarrow> bool" where
  "tree_shape h root \<longleftrightarrow> (\<exists>R ts. h root = Some R \<and> good_code (j_defaultCode R)
     \<and> tree_rep h (j_firstChild R) ts \<and> tree_ok h (j_request R) 0 ts)"

text \<open>The connection after a dispatch: a response has been given, or it is closed.\<close>

definition answered :: "diag_connection \<Rightarrow> bool" where
  "answered c \<longleftrightarrow> (\<exists>cl msg. con_inv cl msg True c)"

definition closed :: "diag_connection \<Rightarrow> bool" where
  "closed c \<longleftrightarrow> con_inv None None False c \<and> \<not> con_isOpen c"

text \<open>A request that must not be answered: a response, or a functional sign of life.\<close>

definition unanswerable :: "u8 \<Rightarrow> u16 \<Rightarrow> bool" where
  "unanswerable sid target \<longleftrightarrow> sid = NEGATIVE_RESPONSE_IDENTIFIER \<or> isFunctionalAddress target \<and> sid = SERVICE_TESTER_PRESENT"

lemma terminated_open: "con_isOpen (dd_diagConnectionTerminated c) = con_isOpen c"
  by (simp add: dd_diagConnectionTerminated_def Let_def con_call_def split: option.split)

lemma terminated:
  assumes "con_inv None None False c" "con_isOpen c"
  shows "\<exists>c'. con_terminate c = Some c' \<and> closed c'"
proof -
  have "con_core None None False c" using assms(1) by (simp add: con_inv_def)
  from terminate_inv [OF this] obtain c' where c': "con_terminate c = Some c'" "con_inv None None False c'" by blast
  note u = unanswered [OF assms]
  have "count_ok None None (con_sender c) (con_responsePendingIsBeingSent c) (con_numPendingMessageProcessedCallbacks c)"
    using assms(1) by (simp add: con_inv_def con_core_def)
  then have "con_numPendingMessageProcessedCallbacks c = 0" by (auto simp: count_ok_def on_way_def)
  then have "\<not> con_isOpen c'" using c'(1) u assms(2)
    by (auto simp: con_terminate_def con_terminateNestedRequest_def Let_def terminated_open bind_eq_Some_conv split: if_splits)
  then show ?thesis using c' unfolding closed_def by blast
qed

lemma execute_outcome:
  assumes t: "tree_shape h root" and E: "env_shape E"
    and c: "asking (ds_con st)" and l: "len \<le> blen (ds_con st)"
  shows "\<exists>code st'. root_execute E h root (0, len) st = Some (code, st')
    \<and> (outcome code (ds_con st') \<or> code = DIAG_OK \<and> closed (ds_con st') \<and> unanswerable (con_serviceId (ds_con st)) (con_targetAddress (ds_con st)))"
proof -
  obtain R ts where R: "h root = Some R" "good_code (j_defaultCode R)" "tree_rep h (j_firstChild R) ts" "tree_ok h (j_request R) 0 ts"
    using t by (auto simp: tree_shape_def)
  note a = askingD [OF c]
  from terminated [OF a(1,2)] obtain c' where c': "con_terminate (ds_con st) = Some c'" "closed c'" by blast
  obtain b where b: "request_byte (ds_con st) (0, len) 1 = Some b" using request_byte_read [OF a(5), of "(0, len)" 1] a(4) by auto
  have o: "outcome code (ds_con st)" if "good_code code" for code using asking_outcome [OF c] that by (simp add: good_code_def)
  let ?ignored = "isFunctionalAddress (con_targetAddress (ds_con st)) \<and> con_serviceId (ds_con st) = SERVICE_TESTER_PRESENT
    \<and> \<not> sc_isActive (ds_session st) \<and> 1 < len \<and> b AND SUPPRESS_POSITIVE_RESPONSE_MASK > 0"
  consider "con_serviceId (ds_con st) = NEGATIVE_RESPONSE_IDENTIFIER \<or> ?ignored"
    | "con_serviceId (ds_con st) \<noteq> NEGATIVE_RESPONSE_IDENTIFIER" "\<not> ?ignored" "len = 0"
    | "con_serviceId (ds_con st) \<noteq> NEGATIVE_RESPONSE_IDENTIFIER" "\<not> ?ignored" "len \<noteq> 0"
        "\<not> mask_match (j_allowedSessions R) (sc_current (ds_session st))"
    | "con_serviceId (ds_con st) \<noteq> NEGATIVE_RESPONSE_IDENTIFIER" "\<not> ?ignored" "len \<noteq> 0"
        "mask_match (j_allowedSessions R) (sc_current (ds_session st))" by blast
  then show ?thesis
  proof cases
    case 1
    then have "root_execute E h root (0, len) st = Some (DIAG_OK, st\<lparr>ds_con := c'\<rparr>)"
      using R(1) b c'(1) by (auto simp: root_execute_def Let_def)
    then show ?thesis using c'(2) 1 by (auto simp: unanswerable_def)
  next
    case 2
    then have "root_execute E h root (0, len) st = Some (ISO_GENERAL_REJECT, job_acceptedJob root st)"
      using R(1) b by (auto simp: root_execute_def Let_def root_verify_def code_defs)
    then show ?thesis using o [of ISO_GENERAL_REJECT] by auto
  next
    case 3
    then have "root_execute E h root (0, len) st = Some (ISO_REQUEST_OUT_OF_RANGE, job_acceptJob root R st)"
      using R(1) b by (auto simp: root_execute_def Let_def root_verify_def)
    then show ?thesis using o [of ISO_REQUEST_OUT_OF_RANGE] by auto
  next
    case 4
    have "(0::nat) = 0 \<Longrightarrow> 1 \<le> snd (0, len)" using 4 by simp
    from walk_total [OF R(3,4) E c _ _ this] l obtain code st' where
      w: "job_walk E h (j_firstChild R) (0, len) st = Some (code, st')" "outcome code (ds_con st')" by auto
    let ?code = "if code = NOT_RESPONSIBLE then j_defaultCode R else code"
    have "outcome ?code (ds_con st')" using w(2) R(2) by (auto simp: outcome_def good_code_def)
    moreover have "root_execute E h root (0, len) st = Some (?code, st')"
      using 4 R(1) b w(1) by (auto simp: root_execute_def Let_def root_verify_def)
    ultimately show ?thesis by blast
  qed
qed

lemma opened_asking:
  assumes "tm_wf m" "6 \<le> length (tm_buffer m)"
  shows "\<exists>c. dd_openConnection addr activate True m = Some c \<and> asking c \<and> blen c = length (tm_buffer m)
    \<and> con_serviceId c = tm_buffer m ! 0 \<and> con_targetAddress c = tm_targetAddress m"
proof -
  from opened [of m addr activate] assms obtain c where
    c: "dd_openConnection addr activate True m = Some c" "con_inv None None False c" "con_isOpen c" by auto
  then have "\<not> con_isResponseActive c \<and> blen c = length (tm_buffer m) \<and> con_serviceId c = tm_buffer m ! 0 \<and> con_targetAddress c = tm_targetAddress m"
    by (auto simp: dd_openConnection_def con_open_def con_new_def blen_def bind_eq_Some_conv)
  then show ?thesis using c assms by (auto simp: asking_def)
qed

lemma dispatch_total:
  assumes m: "tm_wf m" "6 \<le> length (tm_buffer m)" and t: "tree_shape h root" and E: "env_shape E"
  shows "\<exists>st'. dispatchIncomingRequest E h root addr activate True m st = Some st'
    \<and> (answered (ds_con st') \<or> closed (ds_con st') \<and> unanswerable (tm_buffer m ! 0) (tm_targetAddress m))"
proof -
  from opened_asking [OF m] obtain c where c: "dd_openConnection addr activate True m = Some c" "asking c" "blen c = length (tm_buffer m)"
    "con_serviceId c = tm_buffer m ! 0" "con_targetAddress c = tm_targetAddress m" by blast
  have "tm_payloadLength m \<le> blen (ds_con (st\<lparr>ds_con := c\<rparr>))" using m(1) c(3) by (simp add: tm_wf_def)
  from execute_outcome [OF t E _ this] c(2,4,5) obtain code st1 where
    x: "root_execute E h root (0, tm_payloadLength m) (st\<lparr>ds_con := c\<rparr>) = Some (code, st1)"
      "outcome code (ds_con st1) \<or> code = DIAG_OK \<and> closed (ds_con st1) \<and> unanswerable (tm_buffer m ! 0) (tm_targetAddress m)" by auto
  show ?thesis
  proof (cases "code = DIAG_OK")
    case True
    then have "dispatchIncomingRequest E h root addr activate True m st = Some st1" using c(1) x(1) by (simp add: dispatchIncomingRequest_def)
    then show ?thesis using x(2) True by (auto simp: outcome_def answered_def)
  next
    case False
    then have o: "con_inv None None False (ds_con st1)" "con_isOpen (ds_con st1)" "code \<noteq> ISO_RESPONSE_PENDING"
      using x(2) by (auto simp: outcome_def)
    from respond_negative [OF o] obtain c1 where c1: "con_sendNegativeResponse code root (ds_con st1) = Some (UDS_OK, c1)"
      "con_inv (Some SendNegativeResponse) None True c1" by blast
    then have "con_core (Some SendNegativeResponse) None True c1" by (simp add: con_inv_def)
    from terminate_inv [OF this] obtain c2 where c2: "con_terminate c1 = Some c2" "con_inv (Some SendNegativeResponse) None True c2" by blast
    then have "dispatchIncomingRequest E h root addr activate True m st = Some (st1\<lparr>ds_con := c2\<rparr>)"
      using c(1) x(1) False c1(1) by (simp add: dispatchIncomingRequest_def)
    then show ?thesis using c2(2) by (auto simp: answered_def)
  qed
qed

text \<open>What a connection does once its response has been given.\<close>

lemma step_answered: "con_step E lab (True, c) = Some (r, c') \<Longrightarrow> con_enabled lab (True, c) \<Longrightarrow> r"
  by (cases lab) auto

lemma answered_runs:
  assumes "answered c" "\<And>j. ce_terminates E j"
  shows "\<exists>c'. con_run E labs (True, c) = Some (True, c') \<and> answered c'"
  using assms(1)
proof (induction labs arbitrary: c)
  case (Cons lab labs)
  show ?case
  proof (cases "con_enabled lab (True, c)")
    case True
    obtain cl msg where "con_inv cl msg True c" using Cons.prems by (auto simp: answered_def)
    from con_step_inv [OF this True late_responded assms(2)] obtain r' c' cl' msg' where
      s: "con_step E lab (True, c) = Some (r', c')" "con_inv cl' msg' r' c'" by blast
    moreover have "r'" using step_answered [OF s(1) True] .
    moreover have "answered c'" using s(2) \<open>r'\<close> by (auto simp: answered_def)
    ultimately show ?thesis using Cons.IH [of c'] True by simp
  next
    case False
    then show ?thesis using Cons.IH [OF Cons.prems] by simp
  qed
qed simp

lemma answered_seen:
  assumes "answered c"
  shows "length (con_flight c) \<le> 1" "notices c \<le> 1" "request_ends c = of_bool (\<not> con_isOpen c)"
    "destructions c = of_bool (\<not> con_isOpen c)" "con_posted c = [] \<and> con_flight c = [] \<Longrightarrow> \<not> con_isOpen c \<and> notices c = 1"
  using assms con_inv_seen by (fastforce simp: answered_def)+

lemma closed_seen: "closed c \<Longrightarrow> \<not> con_isOpen c \<and> request_ends c = 1 \<and> destructions c = 1 \<and> notices c = 0 \<and> con_flight c = []"
  using con_inv_seen [of None None False c] by (auto simp: closed_def con_inv_def con_core_def shape_def)

end
