(* ===== verification/UdsTree.thy ===== *)
theory UdsTree imports UdsDispatch begin

text \<open>
  How the tree of jobs grows: \<^verbatim>\<open>addAbstractDiagJob\<close> adds a job as the last child of the job that
  implements its prefix, or leaves the tree as it is.
\<close>

section \<open>Ids and links\<close>

fun tree_ids :: "job_tree list \<Rightarrow> nat list" where
  "tree_ids [] = []"
| "tree_ids (JobNode i cs # ts) = i # tree_ids cs @ tree_ids ts"

fun root_id :: "job_tree \<Rightarrow> nat" where "root_id (JobNode i cs) = i"

definition unlinked :: "job \<Rightarrow> job" where
  "unlinked J = J\<lparr>j_firstChild := None, j_nextJob := None\<rparr>"

text \<open>The stores differ in links only.\<close>

definition relinked :: "job_store \<Rightarrow> job_store \<Rightarrow> bool" where
  "relinked h h' \<longleftrightarrow> (\<forall>i. map_option unlinked (h' i) = map_option unlinked (h i))"

lemma unlinked_links [simp]: "unlinked (J\<lparr>j_firstChild := a\<rparr>) = unlinked J" "unlinked (J\<lparr>j_nextJob := b\<rparr>) = unlinked J"
  by (simp_all add: unlinked_def)

lemma relinked_refl [simp]: "relinked h h" by (simp add: relinked_def)

lemma relinked_trans: "relinked h h1 \<Longrightarrow> relinked h1 h2 \<Longrightarrow> relinked h h2"
  by (simp add: relinked_def)

lemma relinked_update: "h i = Some J \<Longrightarrow> unlinked K = unlinked J \<Longrightarrow> relinked h (h(i \<mapsto> K))"
  by (simp add: relinked_def)

lemma unlinked_fields:
  assumes "unlinked J = unlinked K"
  shows "j_kind J = j_kind K" "j_request J = j_request K" "j_requestLength J = j_requestLength K" "j_prefixLength J = j_prefixLength K"
    "j_defaultCode J = j_defaultCode K"
  using assms by (cases J; cases K; simp add: unlinked_def)+

lemma unlinked_equal:
  assumes "unlinked J = unlinked K"
  shows "job_equal X J = job_equal X K" "job_equal J X = job_equal K X" "isChild J pre n = isChild K pre n" "isFamily J pre n = isFamily K pre n"
  unfolding job_equal_def isChild_def isFamily_def unlinked_fields [OF assms] by (rule refl)+

lemma relinkedD:
  assumes "relinked h h'" "h i = Some J"
  shows "\<exists>K. h' i = Some K \<and> unlinked K = unlinked J"
proof -
  have "map_option unlinked (h' i) = Some (unlinked J)" using assms unfolding relinked_def by simp
  then show ?thesis by auto
qed

lemma relinked_sym: "relinked h h' \<Longrightarrow> relinked h' h" by (simp add: relinked_def)

lemma routine_shape_relinked:
  assumes "relinked h h'" "routine_shape h i"
  shows "routine_shape h' i"
proof -
  obtain R bs b where R: "h i = Some R" "j_kind R = RoutineJob i b" "j_request R = Some bs" "j_requestLength R = length bs"
    "4 \<le> length bs" "length bs \<le> 5" using assms(2) unfolding routine_shape_def by blast
  from relinkedD [OF assms(1) R(1)] obtain K where "h' i = Some K" "unlinked K = unlinked R" by blast
  then show ?thesis using R unlinked_fields [of K R] by (simp add: routine_shape_def)
qed

lemma job_shape_relinked:
  assumes "relinked h h'" "unlinked K = unlinked J" "job_shape h J"
  shows "job_shape h' K"
proof -
  have "routine_shape h i \<Longrightarrow> routine_shape h' i" for i by (rule routine_shape_relinked [OF assms(1)])
  then show ?thesis using assms(3) unfolding job_shape_def unlinked_fields [OF assms(2)] by blast
qed

lemma differs_relinked:
  assumes "relinked h h'" "unlinked K = unlinked J" "differs h J t"
  shows "differs h' K t"
proof -
  obtain i cs where t: "t = JobNode i cs" by (cases t)
  obtain L where L: "h i = Some L" "job_equal J L = Some False" using assms(3) t by (auto simp: differs_def)
  from relinkedD [OF assms(1) L(1)] obtain M where M: "h' i = Some M" "unlinked M = unlinked L" by blast
  then have "job_equal K M = Some False" using unlinked_equal(1) [OF M(2)] unlinked_equal(2) [OF assms(2)] L(2) by simp
  then show ?thesis using M(1) t by (simp add: differs_def)
qed

lemma tree_ok_relinked:
  assumes "relinked h h'" "tree_ok h pre n ts"
  shows "tree_ok h' pre n ts"
  using assms(2,1)
proof (induction h pre n ts rule: tree_ok.induct)
  case (2 h pre n i cs ts)
  obtain J where J: "h i = Some J" "job_shape h J" "isChild J pre n = Some True" "tree_ok h (j_request J) (j_requestLength J) cs"
    "list_all (differs h J) ts" "tree_ok h pre n ts"
    using "2.prems" by auto
  from relinkedD [OF "2.prems"(2) J(1)] obtain K where K: "h' i = Some K" "unlinked K = unlinked J" by blast
  have "job_shape h' K" "isChild K pre n = Some True"
    using job_shape_relinked [OF "2.prems"(2) K(2) J(2)] unlinked_equal [OF K(2)] J(3) by simp_all
  moreover have "list_all (differs h' K) ts" using J(5) differs_relinked [OF "2.prems"(2) K(2)] by (auto simp: list_all_iff)
  moreover have "tree_ok h' (j_request K) (j_requestLength K) cs"
    using "2.IH"(1) [OF J(4) "2.prems"(2)] unlinked_fields [OF K(2)] by simp
  ultimately show ?case using K(1) "2.IH"(2) [OF J(6) "2.prems"(2)] by auto
qed simp

lemma tree_rep_frame: "tree_rep h p ts \<Longrightarrow> (\<And>i. i \<in> set (tree_ids ts) \<Longrightarrow> h' i = h i) \<Longrightarrow> tree_rep h' p ts"
  by (induction h p ts rule: tree_rep.induct) auto

section \<open>Comparisons\<close>

lemma shape_request: "job_shape h J \<Longrightarrow> \<exists>bs. j_request J = Some bs \<and> length bs = j_requestLength J \<and> j_prefixLength J < j_requestLength J"
  by (auto simp: job_shape_def)

lemma job_equal_total: "job_shape h J \<Longrightarrow> job_shape h' K \<Longrightarrow> \<exists>b. job_equal J K = Some b"
  using shape_request [of h J] shape_request [of h' K] by (auto simp: job_equal_def job_compare_def)

lemma job_equal_sym: "job_shape h J \<Longrightarrow> job_shape h' K \<Longrightarrow> job_equal J K = job_equal K J"
  using shape_request [of h J] shape_request [of h' K] by (auto simp: job_equal_def job_compare_def)

text \<open>A parent: the root, or a job of its own.\<close>

definition parent_shape :: "job_store \<Rightarrow> job \<Rightarrow> bool" where
  "parent_shape h P \<longleftrightarrow> j_request P = None \<and> j_requestLength P = 0 \<or> job_shape h P"

lemma parent_compare:
  assumes "parent_shape h P" "job_shape h' J"
  shows "\<exists>b. isChild J (j_request P) (j_requestLength P) = Some b" "\<exists>b. isFamily J (j_request P) (j_requestLength P) = Some b"
    "\<exists>b. job_equal J P = Some b"
    "job_equal J P = Some True \<Longrightarrow> isChild J (j_request P) (j_requestLength P) = Some False
      \<and> isFamily J (j_request P) (j_requestLength P) = Some False"
  using assms shape_request [of h' J] shape_request [of h P]
  by (auto simp: parent_shape_def isChild_def isFamily_def job_equal_def job_compare_def)

section \<open>The scan of the children\<close>

definition clashes :: "job_store \<Rightarrow> job \<Rightarrow> job_tree \<Rightarrow> bool" where
  "clashes h J t \<longleftrightarrow> (\<exists>K. h (root_id t) = Some K \<and> job_equal K J = Some True)"

lemma scan_children:
  assumes "tree_rep h (Some c) cs" "\<forall>t \<in> set cs. \<exists>K. h (root_id t) = Some K \<and> job_shape h K" "h j = Some J" "job_shape h J"
    "j \<notin> root_id ` set cs"
  shows "job_scan h j c = Some (if \<exists>t \<in> set cs. clashes h J t then None else Some (root_id (last cs)))"
  using assms(1,2,5)
proof (induction cs arbitrary: c)
  case (Cons t ts)
  obtain i us where t: "t = JobNode i us" by (cases t)
  obtain C where C: "c = i" "h i = Some C" "job_shape h C" "tree_rep h (j_nextJob C) ts" "c \<noteq> j"
    using Cons.prems t by auto
  obtain b where b: "job_equal C J = Some b" using job_equal_total [OF C(3) assms(4)] by blast
  have cl: "clashes h J t \<longleftrightarrow> b" using t C(2) b by (simp add: clashes_def)
  show ?case
  proof (cases b)
    case True
    then show ?thesis using C b cl assms(3) by (subst job_scan.simps) simp
  next
    case nb: False
    show ?thesis
    proof (cases ts)
      case Nil
      then have "j_nextJob C = None" using C(4) by simp
      then show ?thesis using C b cl assms(3) nb t Nil by (subst job_scan.simps) simp
    next
      case (Cons s ss)
      obtain k vs where s: "s = JobNode k vs" by (cases s)
      obtain K where K: "j_nextJob C = Some k" "h k = Some K" "job_shape h K" "tree_rep h (j_nextJob K) ss" "k \<noteq> j"
        using C(4) Cons s Cons.prems(2,3) by auto
      obtain b' where b': "job_equal K J = Some b'" using job_equal_total [OF K(3) assms(4)] by blast
      have step: "job_scan h j c = (if j_nextJob K \<noteq> None then job_scan h j k else Some (if b' then None else Some k))"
        using C K b nb b' assms(3) by (subst job_scan.simps) simp
      show ?thesis
      proof (cases "j_nextJob K")
        case None
        then have "ss = []" using K(4) by (cases ss rule: tree_ids.cases) auto
        then show ?thesis using step None cl nb Cons s K b' by (simp add: clashes_def)
      next
        case (Some x)
        have "tree_rep h (Some k) ts" using C(4) K(1) by simp
        from Cons.IH [OF this] Cons.prems(2,3) have
          "job_scan h j k = Some (if \<exists>t \<in> set ts. clashes h J t then None else Some (root_id (last ts)))" by simp
        then show ?thesis using step Some cl nb Cons by simp
      qed
    qed
  qed
qed simp

section \<open>Appending\<close>

lemma tree_rep_snoc:
  assumes "tree_rep h p cs" "cs \<noteq> []" "distinct (tree_ids cs)" "j \<notin> set (tree_ids cs)" "h (root_id (last cs)) = Some L"
  shows "tree_rep (h(root_id (last cs) \<mapsto> L\<lparr>j_nextJob := Some j\<rparr>, j \<mapsto> J\<lparr>j_nextJob := None, j_firstChild := None\<rparr>)) p (cs @ [JobNode j []])"
  using assms
proof (induction cs arbitrary: p)
  case (Cons t ts)
  obtain i us where t: "t = JobNode i us" by (cases t)
  obtain C where C: "p = Some i" "h i = Some C" "tree_rep h (j_firstChild C) us" "tree_rep h (j_nextJob C) ts"
    using Cons.prems(1) t by auto
  have i: "i \<noteq> j" "i \<notin> set (tree_ids us)" "i \<notin> set (tree_ids ts)" "set (tree_ids us) \<inter> set (tree_ids ts) = {}" "j \<notin> set (tree_ids us)"
    using Cons.prems(3,4) t by auto
  show ?case
  proof (cases "ts = []")
    case True
    let ?h = "h(i \<mapsto> L\<lparr>j_nextJob := Some j\<rparr>, j \<mapsto> J\<lparr>j_nextJob := None, j_firstChild := None\<rparr>)"
    have L: "L = C" using True Cons.prems(5) t C(2) by simp
    have "tree_rep ?h (j_firstChild C) us" by (rule tree_rep_frame [OF C(3)]) (use i in auto)
    then show ?thesis using True t C(1) L i(1) by (simp del: fun_upd_apply add: fun_upd_same fun_upd_other)
  next
    case False
    let ?l = "root_id (last ts)"
    let ?h = "h(?l \<mapsto> L\<lparr>j_nextJob := Some j\<rparr>, j \<mapsto> J\<lparr>j_nextJob := None, j_firstChild := None\<rparr>)"
    have l: "?l \<in> set (tree_ids ts)" using False
    proof (induction ts)
      case (Cons s ss)
      then show ?case by (cases s) auto
    qed simp
    have "?h i = h i" using i l by auto
    moreover have "tree_rep ?h (j_firstChild C) us" by (rule tree_rep_frame [OF C(3)]) (use i l in auto)
    moreover have "tree_rep ?h (j_nextJob C) (ts @ [JobNode j []])"
      using Cons.IH [OF C(4) False] Cons.prems t False by (simp del: fun_upd_apply)
    ultimately show ?thesis using t C(1,2) False by (simp del: fun_upd_apply)
  qed
qed simp

lemma root_ids_in: "t \<in> set ts \<Longrightarrow> root_id t \<in> set (tree_ids ts)"
proof (induction ts)
  case (Cons s ss)
  then show ?case by (cases s) auto
qed simp

lemma tree_ok_roots:
  "tree_ok h pre n ts \<Longrightarrow> t \<in> set ts \<Longrightarrow> \<exists>K. h (root_id t) = Some K \<and> job_shape h K \<and> isChild K pre n = Some True"
  by (induction h pre n ts rule: tree_ok.induct) auto

lemma tree_ok_snoc:
  assumes "tree_ok h pre n ts" "h j = Some J" "job_shape h J" "isChild J pre n = Some True" "\<forall>t \<in> set ts. \<not> clashes h J t"
  shows "tree_ok h pre n (ts @ [JobNode j []])"
  using assms(1,5)
proof (induction ts)
  case Nil
  then show ?case using assms by simp
next
  case (Cons t ts)
  obtain i us where t: "t = JobNode i us" by (cases t)
  obtain C where C: "h i = Some C" "job_shape h C" "isChild C pre n = Some True" "tree_ok h (j_request C) (j_requestLength C) us"
    "list_all (differs h C) ts" "tree_ok h pre n ts" using Cons.prems(1) t by auto
  obtain b where "job_equal C J = Some b" using job_equal_total [OF C(2) assms(3)] by blast
  then have "job_equal C J = Some False" using Cons.prems(2) t C(1) by (simp add: clashes_def)
  then have "differs h C (JobNode j [])" using assms(2) by (simp add: differs_def)
  then show ?case using C Cons.IH [OF C(6)] Cons.prems(2) t by simp
qed

text \<open>The outcome of adding a job: whether the trees have it now, and the store.\<close>

definition grown :: "job_store \<Rightarrow> job_store \<Rightarrow> nat set \<Rightarrow> bool" where
  "grown h h' A \<longleftrightarrow> relinked h h' \<and> (\<forall>i. i \<notin> A \<longrightarrow> h' i = h i)"

lemma append_correct:
  assumes P: "h p = Some P" "tree_rep h (j_firstChild P) cs" "tree_ok h (j_request P) (j_requestLength P) cs"
    and d: "distinct (p # tree_ids cs)" "j \<notin> set (p # tree_ids cs)"
    and J: "h j = Some J" "job_shape h J"
  shows "if \<exists>t \<in> set cs. clashes h J t then job_append p j h = Some (JobNotAdded, h)
    else \<exists>h' P'. job_append p j h = Some (JobAdded, h') \<and> h' p = Some P' \<and> j_nextJob P' = j_nextJob P \<and> unlinked P' = unlinked P
      \<and> tree_rep h' (j_firstChild P') (cs @ [JobNode j []]) \<and> grown h h' (insert j (insert p (set (tree_ids cs))))"
proof (cases cs)
  case Nil
  let ?h = "h(p \<mapsto> P\<lparr>j_firstChild := Some j\<rparr>, j \<mapsto> J\<lparr>j_nextJob := None, j_firstChild := None\<rparr>)"
  have "j_firstChild P = None" using P(2) Nil by simp
  then have "job_append p j h = Some (JobAdded, ?h)" using P(1) J(1) d by (simp add: job_append_def job_set_def)
  moreover have "grown h ?h (insert j (insert p (set (tree_ids cs))))"
    using P(1) J(1) d by (auto simp: grown_def relinked_def)
  ultimately show ?thesis using Nil d by (intro iffD2 [OF if_splits(1)]) auto
next
  case (Cons t ts)
  obtain c us where t: "t = JobNode c us" by (cases t)
  have c: "j_firstChild P = Some c" using P(2) Cons t by simp
  have roots: "\<forall>t \<in> set cs. \<exists>K. h (root_id t) = Some K \<and> job_shape h K" using tree_ok_roots [OF P(3)] by blast
  have j: "j \<notin> root_id ` set cs" using d(2) root_ids_in by fastforce
  have scan: "job_scan h j c = Some (if \<exists>t \<in> set cs. clashes h J t then None else Some (root_id (last cs)))"
    using scan_children [OF _ roots J j] P(2) c by simp
  show ?thesis
  proof (cases "\<exists>t \<in> set cs. clashes h J t")
    case True
    then show ?thesis using scan P(1) c by (simp add: job_append_def)
  next
    case False
    let ?l = "root_id (last cs)"
    have l: "?l \<in> set (tree_ids cs)" "last cs \<in> set cs" using root_ids_in [of "last cs" cs] Cons by simp_all
    obtain L where L: "h ?l = Some L" "job_shape h L" using roots l(2) by blast
    have lj: "?l \<noteq> j" "?l \<noteq> p" "j \<noteq> p" using l(1) d by auto
    obtain b where b: "job_equal L J = Some b" using job_equal_total [OF L(2) J(2)] by blast
    then have "\<not> b" using False l(2) L(1) by (auto simp: clashes_def)
    then have "job_equal J L = Some False" using b job_equal_sym [OF L(2) J(2)] by simp
    then have n: "setNextJob ?l (Some j) h = Some (h(?l \<mapsto> L\<lparr>j_nextJob := Some j\<rparr>))"
      using lj J(1) L(1) by (simp add: setNextJob_def job_set_def)
    let ?h = "h(?l \<mapsto> L\<lparr>j_nextJob := Some j\<rparr>, j \<mapsto> J\<lparr>j_nextJob := None, j_firstChild := None\<rparr>)"
    have a: "job_append p j h = Some (JobAdded, ?h)"
      using P(1) c scan False n J(1) lj by (simp add: job_append_def job_set_def)
    have "tree_rep ?h (j_firstChild P) (cs @ [JobNode j []])"
      by (rule tree_rep_snoc [OF P(2)]) (use Cons d L(1) in auto)
    moreover have "grown h ?h (insert j (insert p (set (tree_ids cs))))"
      using l(1) L(1) J(1) lj by (auto simp: grown_def relinked_def)
    moreover have "?h p = Some P" using P(1) lj by simp
    ultimately show ?thesis using a False by (simp only: if_False) blast
  qed
qed

section \<open>The reference: trees that grow\<close>

text \<open>
  A job is added at the end of the children of the job whose request is its prefix, unless one of
  them is equal to it; the job is looked for where the prefix leads.
\<close>

definition grow_here :: "job_store \<Rightarrow> nat \<Rightarrow> job \<Rightarrow> job \<Rightarrow> job_tree list \<Rightarrow> job_tree list option \<Rightarrow> job_tree list option" where
  "grow_here h j J P cs below =
     (if isChild J (j_request P) (j_requestLength P) = Some True
      then (if \<exists>t \<in> set cs. clashes h J t then None else Some (cs @ [JobNode j []]))
      else if isFamily J (j_request P) (j_requestLength P) = Some True then below else None)"

fun grow :: "job_store \<Rightarrow> nat \<Rightarrow> job \<Rightarrow> job_tree list \<Rightarrow> job_tree list option" where
  "grow h j J [] = None"
| "grow h j J (JobNode i cs # ts) =
     (case (case h i of None \<Rightarrow> None | Some P \<Rightarrow> grow_here h j J P cs (grow h j J cs)) of
        Some cs' \<Rightarrow> Some (JobNode i cs' # ts)
      | None \<Rightarrow> map_option ((#) (JobNode i cs)) (grow h j J ts))"

definition children_added :: "job_store \<Rightarrow> nat \<Rightarrow> nat option \<Rightarrow> job_tree list \<Rightarrow> job_tree list option \<Rightarrow> bool" where
  "children_added h j cur cs r \<longleftrightarrow> (case r of
     None \<Rightarrow> job_add_children j cur h = Some (JobNotAdded, h)
   | Some cs' \<Rightarrow> \<exists>h'. job_add_children j cur h = Some (JobAdded, h') \<and> tree_rep h' cur cs' \<and> grown h h' (insert j (set (tree_ids cs))))"

definition job_added :: "job_store \<Rightarrow> nat \<Rightarrow> nat \<Rightarrow> job \<Rightarrow> job_tree list \<Rightarrow> job_tree list option \<Rightarrow> bool" where
  "job_added h p j P cs r \<longleftrightarrow> (case r of
     None \<Rightarrow> addAbstractDiagJob p j h = Some (JobNotAdded, h)
   | Some cs' \<Rightarrow> \<exists>h' P'. addAbstractDiagJob p j h = Some (JobAdded, h') \<and> h' p = Some P' \<and> j_nextJob P' = j_nextJob P
       \<and> unlinked P' = unlinked P \<and> tree_rep h' (j_firstChild P') cs' \<and> grown h h' (insert j (insert p (set (tree_ids cs)))))"

lemma grown_mono: "grown h h' A \<Longrightarrow> A \<subseteq> B \<Longrightarrow> grown h h' B" by (auto simp: grown_def)

lemma add_correct:
  assumes P: "h p = Some P" "tree_rep h (j_firstChild P) cs" "tree_ok h (j_request P) (j_requestLength P) cs" "parent_shape h P"
    and d: "distinct (p # tree_ids cs)" "j \<notin> set (p # tree_ids cs)"
    and J: "h j = Some J" "job_shape h J"
    and below: "children_added h j (j_firstChild P) cs below"
  shows "job_added h p j P cs (grow_here h j J P cs below)"
proof -
  have jp: "j \<noteq> p" using d(2) by simp
  have f: "j_firstChild P \<noteq> Some j" using P(2) d(2) by (cases cs rule: tree_ids.cases) auto
  obtain eq where eq: "job_equal J P = Some eq" using parent_compare(3) [OF P(4) J(2)] by blast
  obtain child where child: "isChild J (j_request P) (j_requestLength P) = Some child" using parent_compare(1) [OF P(4) J(2)] by blast
  obtain family where family: "isFamily J (j_request P) (j_requestLength P) = Some family" using parent_compare(2) [OF P(4) J(2)] by blast
  have e: "eq \<Longrightarrow> \<not> child \<and> \<not> family" using parent_compare(4) [OF P(4) J(2)] eq child family by simp
  have x: "job_add_here p j h = (if eq then Some (Inl (JobNotAdded, h)) else if child then map_option Inl (job_append p j h)
     else if family then Some (Inr (j_firstChild P)) else Some (Inl (JobNotAdded, h)))"
    using jp f P(1) J(1) eq child family by (simp add: job_add_here_def)
  consider "eq" | "\<not> eq" "child" | "\<not> eq" "\<not> child" "family" | "\<not> eq" "\<not> child" "\<not> family" by blast
  then show ?thesis
  proof cases
    case 1
    then show ?thesis using x e child family by (simp add: job_added_def grow_here_def addAbstractDiagJob_def)
  next
    case 2
    then have a: "addAbstractDiagJob p j h = job_append p j h"
      using x by (cases "job_append p j h") (simp_all add: addAbstractDiagJob_def)
    show ?thesis using append_correct [OF P(1-3) d J] 2 child
      unfolding job_added_def grow_here_def a by (simp split: if_splits)
  next
    case 3
    then have a: "addAbstractDiagJob p j h = job_add_children j (j_firstChild P) h" using x by (simp add: addAbstractDiagJob_def)
    have g: "grow_here h j J P cs below = below" using 3 child family by (simp add: grow_here_def)
    show ?thesis
    proof (cases below)
      case None
      then show ?thesis using below g a by (simp add: job_added_def children_added_def)
    next
      case (Some cs')
      then obtain h' where h': "job_add_children j (j_firstChild P) h = Some (JobAdded, h')" "tree_rep h' (j_firstChild P) cs'"
        "grown h h' (insert j (set (tree_ids cs)))" using below by (auto simp: children_added_def)
      have "h' p = Some P" using h'(3) P(1) d jp by (auto simp: grown_def)
      moreover have "grown h h' (insert j (insert p (set (tree_ids cs))))" by (rule grown_mono [OF h'(3)]) auto
      ultimately show ?thesis using g Some a h' by (simp add: job_added_def)
    qed
  next
    case 4
    then show ?thesis using x e child family by (simp add: job_added_def grow_here_def addAbstractDiagJob_def)
  qed
qed

lemma add_children_step:
  "job_add_children j (Some p) h = do {
     (r, h) \<leftarrow> addAbstractDiagJob p j h;
     if r = JobAdded then Some (JobAdded, h) else do { P \<leftarrow> h p; job_add_children j (j_nextJob P) h } }"
  by (subst job_add_children.simps) (simp add: addAbstractDiagJob_def)

lemma add_children_correct:
  assumes "tree_rep h cur ts" "tree_ok h pre n ts" "distinct (tree_ids ts)" "j \<notin> set (tree_ids ts)" "h j = Some J" "job_shape h J"
  shows "children_added h j cur ts (grow h j J ts)"
  using assms(1-4)
proof (induction ts arbitrary: cur pre n rule: tree_ids.induct)
  case 1
  then show ?case by (simp add: children_added_def job_add_children.simps)
next
  case (2 i cs ts)
  obtain P where P: "cur = Some i" "h i = Some P" "tree_rep h (j_firstChild P) cs" "tree_rep h (j_nextJob P) ts" "job_shape h P"
    "tree_ok h (j_request P) (j_requestLength P) cs" "tree_ok h pre n ts" using "2.prems"(1,2) by auto
  have d: "distinct (i # tree_ids cs)" "j \<notin> set (i # tree_ids cs)" "distinct (tree_ids ts)" "j \<notin> set (tree_ids ts)"
    "distinct (tree_ids cs)" "j \<notin> set (tree_ids cs)" using "2.prems"(3,4) by auto
  have s: "parent_shape h P" using P(5) by (simp add: parent_shape_def)
  let ?r = "grow_here h j J P cs (grow h j J cs)"
  have a: "job_added h i j P cs ?r"
    by (rule add_correct [OF P(2,3,6) s d(1,2) assms(5,6) "2.IH"(1) [OF P(3,6) d(5,6)]])
  have b: "children_added h j (j_nextJob P) ts (grow h j J ts)" by (rule "2.IH"(2) [OF P(4,7) d(3,4)])
  show ?case
  proof (cases ?r)
    case (Some cs')
    then obtain h' P' where h': "addAbstractDiagJob i j h = Some (JobAdded, h')" "h' i = Some P'" "j_nextJob P' = j_nextJob P"
      "tree_rep h' (j_firstChild P') cs'" "grown h h' (insert j (insert i (set (tree_ids cs))))"
      using a by (auto simp: job_added_def)
    have "tree_rep h' (j_nextJob P) ts" by (rule tree_rep_frame [OF P(4)]) (use h'(5) "2.prems"(3,4) in \<open>auto simp: grown_def\<close>)
    then have t: "tree_rep h' cur (JobNode i cs' # ts)" using P(1) h' by simp
    have c: "job_add_children j cur h = Some (JobAdded, h')" using h'(1) P(1) by (simp add: add_children_step)
    have "grow h j J (JobNode i cs # ts) = Some (JobNode i cs' # ts)" using P(2) Some by simp
    moreover have "grown h h' (insert j (set (tree_ids (JobNode i cs # ts))))" by (rule grown_mono [OF h'(5)]) auto
    ultimately show ?thesis using c t unfolding children_added_def by (simp del: tree_rep.simps grow.simps)
  next
    case None
    then have n: "addAbstractDiagJob i j h = Some (JobNotAdded, h)" using a by (simp add: job_added_def)
    then have c: "job_add_children j cur h = job_add_children j (j_nextJob P) h" using P(1,2) by (simp add: add_children_step)
    have g: "grow h j J (JobNode i cs # ts) = map_option ((#) (JobNode i cs)) (grow h j J ts)" using P(2) None by simp
    show ?thesis
    proof (cases "grow h j J ts")
      case None
      then show ?thesis using b c g by (simp add: children_added_def)
    next
      case (Some ts')
      then obtain h' where h': "job_add_children j (j_nextJob P) h = Some (JobAdded, h')" "tree_rep h' (j_nextJob P) ts'"
        "grown h h' (insert j (set (tree_ids ts)))" using b by (auto simp: children_added_def)
      have "tree_rep h' (j_firstChild P) cs" by (rule tree_rep_frame [OF P(3)]) (use h'(3) "2.prems"(3,4) in \<open>auto simp: grown_def\<close>)
      moreover have "h' i = Some P" using h'(3) P(2) "2.prems"(3,4) by (auto simp: grown_def)
      ultimately have "tree_rep h' cur (JobNode i cs # ts')" using P(1) h'(2) by simp
      moreover have "grown h h' (insert j (set (tree_ids (JobNode i cs # ts))))" by (rule grown_mono [OF h'(3)]) auto
      ultimately show ?thesis using c h'(1) g Some unfolding children_added_def by (simp del: tree_rep.simps grow.simps)
    qed
  qed
qed

lemma tree_ids_append [simp]: "tree_ids (xs @ ys) = tree_ids xs @ tree_ids ys"
  by (induction xs rule: tree_ids.induct) auto

lemma grow_ids:
  "grow h j J ts = Some ts' \<Longrightarrow> map root_id ts' = map root_id ts \<and> set (tree_ids ts') = insert j (set (tree_ids ts))
    \<and> (distinct (tree_ids ts) \<and> j \<notin> set (tree_ids ts) \<longrightarrow> distinct (tree_ids ts'))"
proof (induction ts arbitrary: ts' rule: tree_ids.induct)
  case (2 i cs ts)
  let ?r = "case h i of None \<Rightarrow> None | Some P \<Rightarrow> grow_here h j J P cs (grow h j J cs)"
  show ?case
  proof (cases ?r)
    case None
    then obtain ts'' where t: "grow h j J ts = Some ts''" "ts' = JobNode i cs # ts''" using "2.prems" by auto
    from "2.IH"(2) [OF t(1)] show ?thesis using t(2) by auto
  next
    case (Some cs')
    then have t: "ts' = JobNode i cs' # ts" using "2.prems" by simp
    have "set (tree_ids cs') = insert j (set (tree_ids cs)) \<and> (distinct (tree_ids cs) \<and> j \<notin> set (tree_ids cs) \<longrightarrow> distinct (tree_ids cs'))"
    proof (cases "cs' = cs @ [JobNode j []]")
      case False
      then have "grow h j J cs = Some cs'" using Some by (auto simp: grow_here_def split: option.splits if_splits)
      then show ?thesis using "2.IH"(1) by simp
    qed simp
    then show ?thesis using t by auto
  qed
qed simp

lemma differs_root: "differs h J t \<longleftrightarrow> (\<exists>K. h (root_id t) = Some K \<and> job_equal J K = Some False)"
  by (cases t) (simp add: differs_def)

lemma differs_roots:
  assumes "map root_id ts' = map root_id ts"
  shows "list_all (differs h J) ts' = list_all (differs h J) ts"
proof -
  have "list_all (differs h J) ts = list_all (\<lambda>i. \<exists>K. h i = Some K \<and> job_equal J K = Some False) (map root_id ts)" for ts
    by (simp add: list_all_iff differs_root)
  then show ?thesis using assms by simp
qed

lemma grow_ok:
  assumes "h j = Some J" "job_shape h J" "tree_ok h pre n ts" "grow h j J ts = Some ts'"
  shows "tree_ok h pre n ts'"
  using assms(3,4)
proof (induction ts arbitrary: ts' pre n rule: tree_ids.induct)
  case (2 i cs ts)
  obtain P where P: "h i = Some P" "job_shape h P" "isChild P pre n = Some True" "tree_ok h (j_request P) (j_requestLength P) cs"
    "list_all (differs h P) ts" "tree_ok h pre n ts" using "2.prems"(1) by auto
  let ?r = "grow_here h j J P cs (grow h j J cs)"
  show ?case
  proof (cases ?r)
    case None
    then obtain ts'' where t: "grow h j J ts = Some ts''" "ts' = JobNode i cs # ts''" using "2.prems"(2) P(1) by auto
    then show ?thesis using P "2.IH"(2) [OF P(6) t(1)] differs_roots [of ts'' ts] grow_ids [OF t(1)] by auto
  next
    case (Some cs')
    then have t: "ts' = JobNode i cs' # ts" using "2.prems"(2) P(1) by simp
    have "tree_ok h (j_request P) (j_requestLength P) cs'"
    proof (cases "isChild J (j_request P) (j_requestLength P) = Some True")
      case True
      then have "\<forall>t \<in> set cs. \<not> clashes h J t" "cs' = cs @ [JobNode j []]" using Some by (auto simp: grow_here_def split: if_splits)
      then show ?thesis using tree_ok_snoc [OF P(4) assms(1,2) True] by simp
    next
      case False
      then have "grow h j J cs = Some cs'" using Some by (auto simp: grow_here_def split: if_splits)
      from "2.IH"(1) [OF P(4) this] show ?thesis .
    qed
    then show ?thesis using t P by auto
  qed
qed simp

section \<open>The whole tree\<close>

definition is_tree :: "job_store \<Rightarrow> nat \<Rightarrow> job_tree list \<Rightarrow> bool" where
  "is_tree h root ts \<longleftrightarrow> (\<exists>R. h root = Some R \<and> good_code (j_defaultCode R) \<and> j_request R = None \<and> j_requestLength R = 0
     \<and> tree_rep h (j_firstChild R) ts) \<and> tree_ok h None 0 ts \<and> distinct (root # tree_ids ts)"

lemma is_tree_shape: "is_tree h root ts \<Longrightarrow> tree_shape h root"
  by (auto simp: is_tree_def tree_shape_def)

definition grow_root :: "job_store \<Rightarrow> nat \<Rightarrow> job \<Rightarrow> job_tree list \<Rightarrow> job_tree list option" where
  "grow_root h j J ts =
     (if j_prefixLength J = 0
      then (if \<exists>t \<in> set ts. clashes h J t then None else Some (ts @ [JobNode j []]))
      else grow h j J ts)"

lemma add_tree:
  assumes t: "is_tree h root ts" and J: "h j = Some J" "job_shape h J" "j \<notin> set (root # tree_ids ts)"
  shows "\<exists>h'. addAbstractDiagJob root j h = Some (if grow_root h j J ts = None then JobNotAdded else JobAdded, h')
    \<and> relinked h h' \<and> (\<forall>i. i \<notin> set (j # root # tree_ids ts) \<longrightarrow> h' i = h i)
    \<and> is_tree h' root (case grow_root h j J ts of None \<Rightarrow> ts | Some ts' \<Rightarrow> ts')"
proof -
  obtain R where R: "h root = Some R" "good_code (j_defaultCode R)" "j_request R = None" "j_requestLength R = 0" "tree_rep h (j_firstChild R) ts"
    "tree_ok h (j_request R) (j_requestLength R) ts" "tree_ok h None 0 ts" "distinct (root # tree_ids ts)" using t by (auto simp: is_tree_def)
  have p: "parent_shape h R" using R by (simp add: parent_shape_def)
  have d: "distinct (tree_ids ts)" "j \<notin> set (tree_ids ts)" using R(8) J(3) by auto
  have "grow_here h j J R ts (grow h j J ts) = grow_root h j J ts"
    by (simp add: grow_here_def grow_root_def R(3,4) isChild_def isFamily_def job_compare_def)
  with add_correct [OF R(1,5,6) p R(8) J(3,1,2) add_children_correct [OF R(5,6) d J(1,2)]]
  have a: "job_added h root j R ts (grow_root h j J ts)" by simp
  show ?thesis
  proof (cases "grow_root h j J ts")
    case None
    then show ?thesis using a t by (simp add: job_added_def)
  next
    case (Some ts')
    then obtain h' R' where h': "addAbstractDiagJob root j h = Some (JobAdded, h')" "h' root = Some R'" "unlinked R' = unlinked R"
      "tree_rep h' (j_firstChild R') ts'" "grown h h' (insert j (insert root (set (tree_ids ts))))" using a by (auto simp: job_added_def)
    have "tree_ok h None 0 ts' \<and> set (tree_ids ts') = insert j (set (tree_ids ts)) \<and> distinct (tree_ids ts')"
    proof (cases "j_prefixLength J = 0")
      case True
      then have "\<forall>t \<in> set ts. \<not> clashes h J t" "ts' = ts @ [JobNode j []]" "isChild J None 0 = Some True"
        using Some by (auto simp: grow_root_def isChild_def job_compare_def split: if_splits)
      then show ?thesis using tree_ok_snoc [OF R(7) J(1,2)] d by simp
    next
      case False
      then have "grow h j J ts = Some ts'" using Some by (simp add: grow_root_def)
      then show ?thesis using grow_ok [OF J(1,2) R(7)] grow_ids d by simp
    qed
    moreover have "relinked h h'" using h'(5) by (simp add: grown_def)
    ultimately have "is_tree h' root ts'" using h' R tree_ok_relinked [of h h' None 0 ts'] unlinked_fields [OF h'(3)] J(3)
      by (auto simp: is_tree_def)
    then show ?thesis using h' Some by (auto simp: grown_def)
  qed
qed

section \<open>Many jobs\<close>

text \<open>\<^verbatim>\<open>(void)addAbstractDiagJob\<close>, for one job after the other\<close>

fun addDiagJobs :: "nat \<Rightarrow> nat list \<Rightarrow> job_store \<Rightarrow> job_store option" where
  "addDiagJobs root [] h = Some h"
| "addDiagJobs root (j # js) h = do { (_, h) \<leftarrow> addAbstractDiagJob root j h; addDiagJobs root js h }"

fun grow_all :: "job_store \<Rightarrow> nat list \<Rightarrow> job_tree list \<Rightarrow> job_tree list" where
  "grow_all h [] ts = ts"
| "grow_all h (j # js) ts =
     grow_all h js (case h j of None \<Rightarrow> ts | Some J \<Rightarrow> (case grow_root h j J ts of None \<Rightarrow> ts | Some ts' \<Rightarrow> ts'))"

lemma clashes_relinked:
  assumes "relinked h h'" "unlinked K = unlinked J"
  shows "clashes h' K t = clashes h J t"
proof -
  have "clashes h K t" if h: "relinked h' h" "clashes h' J t" "unlinked K = unlinked J" for h h' J K
  proof -
    obtain L where L: "h' (root_id t) = Some L" "job_equal L J = Some True" using h(2) by (auto simp: clashes_def)
    from relinkedD [OF h(1) L(1)] obtain M where M: "h (root_id t) = Some M" "unlinked M = unlinked L" by blast
    then have "job_equal M K = Some True" using unlinked_equal(2) [OF M(2)] unlinked_equal(1) [OF h(3)] L(2) by simp
    then show ?thesis using M(1) by (simp add: clashes_def)
  qed
  from this [of h' h K J] this [of h h' J K] show ?thesis using assms relinked_sym by metis
qed

lemma grow_relinked:
  assumes "relinked h h'" "unlinked K = unlinked J"
  shows "grow h' j K ts = grow h j J ts"
proof (induction ts rule: tree_ids.induct)
  case (2 i cs ts)
  have "(case h' i of None \<Rightarrow> None | Some P \<Rightarrow> grow_here h' j K P cs (grow h' j K cs))
      = (case h i of None \<Rightarrow> None | Some P \<Rightarrow> grow_here h j J P cs (grow h j J cs))"
  proof (cases "h i")
    case None
    then have "h' i = None" using assms(1) unfolding relinked_def by (metis option.map_disc_iff)
    then show ?thesis using None by simp
  next
    case (Some P)
    from relinkedD [OF assms(1) Some] obtain P' where P': "h' i = Some P'" "unlinked P' = unlinked P" by blast
    then show ?thesis using Some "2.IH"(1) unfolding grow_here_def
      by (simp add: clashes_relinked [OF assms] unlinked_equal [OF assms(2)] unlinked_fields [OF P'(2)])
  qed
  then show ?case using "2.IH"(2) by (simp only: grow.simps)
qed simp

lemma grow_root_relinked:
  assumes "relinked h h'" "unlinked K = unlinked J"
  shows "grow_root h' j K ts = grow_root h j J ts"
  using grow_relinked [OF assms] clashes_relinked [OF assms] unlinked_fields [OF assms(2)] by (simp add: grow_root_def)

lemma grow_all_relinked: "relinked h h' \<Longrightarrow> grow_all h' js ts = grow_all h js ts"
proof (induction js arbitrary: ts)
  case (Cons j js)
  show ?case
  proof (cases "h j")
    case None
    then have "h' j = None" using Cons.prems unfolding relinked_def by (metis option.map_disc_iff)
    then show ?thesis using None Cons by simp
  next
    case (Some J)
    from relinkedD [OF Cons.prems Some] obtain K where K: "h' j = Some K" "unlinked K = unlinked J" by blast
    then show ?thesis using Some Cons by (simp add: grow_root_relinked [OF Cons.prems K(2)])
  qed
qed simp

lemma grow_root_ids:
  assumes "grow_root h j J ts = Some ts'"
  shows "set (tree_ids ts') = insert j (set (tree_ids ts))"
  using assms grow_ids [of h j J ts ts'] by (auto simp: grow_root_def split: if_splits)

lemma add_all:
  assumes "is_tree h root ts" "distinct js" "set js \<inter> set (root # tree_ids ts) = {}"
    "\<forall>j \<in> set js. \<exists>J. h j = Some J \<and> job_shape h J"
  shows "\<exists>h'. addDiagJobs root js h = Some h' \<and> relinked h h' \<and> is_tree h' root (grow_all h js ts)"
  using assms
proof (induction js arbitrary: h ts)
  case (Cons j js)
  obtain J where J: "h j = Some J" "job_shape h J" using Cons.prems(4) by auto
  have f: "j \<notin> set (root # tree_ids ts)" using Cons.prems(3) by auto
  let ?ts = "case grow_root h j J ts of None \<Rightarrow> ts | Some ts' \<Rightarrow> ts'"
  from add_tree [OF Cons.prems(1) J f] obtain r h1 where
    h1: "addAbstractDiagJob root j h = Some (r, h1)" "relinked h h1" "is_tree h1 root ?ts" by blast
  have "set (tree_ids ?ts) \<subseteq> insert j (set (tree_ids ts))" using grow_root_ids [of h j J ts] by (auto split: option.split)
  then have s: "set js \<inter> set (root # tree_ids ?ts) = {}" using Cons.prems(2,3) by auto
  have "\<exists>K. h1 k = Some K \<and> job_shape h1 K" if k: "k \<in> set js" for k
  proof -
    obtain L where L: "h k = Some L" "job_shape h L" using Cons.prems(4) k by auto
    from relinkedD [OF h1(2) L(1)] obtain K where "h1 k = Some K" "unlinked K = unlinked L" by blast
    then show ?thesis using job_shape_relinked [OF h1(2) _ L(2)] by blast
  qed
  then have "\<forall>k \<in> set js. \<exists>K. h1 k = Some K \<and> job_shape h1 K" by blast
  from Cons.IH [OF h1(3) _ s this] Cons.prems(2) obtain h' where
    h': "addDiagJobs root js h1 = Some h'" "relinked h1 h'" "is_tree h' root (grow_all h1 js ?ts)" by auto
  then show ?case using h1(1) J(1) grow_all_relinked [OF h1(2)] relinked_trans [OF h1(2)] by auto
qed auto

text \<open>What the tree depends on, of every job.\<close>

definition job_spec :: "job \<Rightarrow> job_kind \<Rightarrow> u8 list \<Rightarrow> nat \<Rightarrow> bool" where
  "job_spec J kind request prefix \<longleftrightarrow> j_kind J = kind \<and> j_request J = Some request \<and> j_requestLength J = length request
     \<and> j_prefixLength J = prefix \<and> good_code (j_defaultCode J)"

section \<open>The reference by requests\<close>

text \<open>The request of a job and the length of its prefix decide where it is added.\<close>

definition key_match :: "u8 list \<Rightarrow> u8 list \<times> nat \<Rightarrow> bool" where
  "key_match p k \<longleftrightarrow> length p \<le> snd k \<and> take (length p) (fst k) = p"

fun key_grow :: "(nat \<Rightarrow> u8 list \<times> nat) \<Rightarrow> nat \<Rightarrow> job_tree list \<Rightarrow> job_tree list option" where
  "key_grow key j [] = None"
| "key_grow key j (JobNode i cs # ts) =
     (case (if \<not> key_match (fst (key i)) (key j) then None
            else if length (fst (key i)) < snd (key j) then key_grow key j cs
            else if \<exists>t \<in> set cs. key (root_id t) = key j then None else Some (cs @ [JobNode j []])) of
        Some cs' \<Rightarrow> Some (JobNode i cs' # ts)
      | None \<Rightarrow> map_option ((#) (JobNode i cs)) (key_grow key j ts))"

definition key_grow_root :: "(nat \<Rightarrow> u8 list \<times> nat) \<Rightarrow> nat \<Rightarrow> job_tree list \<Rightarrow> job_tree list" where
  "key_grow_root key j ts =
     (case (if snd (key j) = 0 then (if \<exists>t \<in> set ts. key (root_id t) = key j then None else Some (ts @ [JobNode j []]))
            else key_grow key j ts) of None \<Rightarrow> ts | Some ts' \<Rightarrow> ts')"

definition has_keys :: "job_store \<Rightarrow> (nat \<Rightarrow> u8 list \<times> nat) \<Rightarrow> nat \<Rightarrow> bool" where
  "has_keys h key i \<longleftrightarrow> (\<exists>J kind. h i = Some J \<and> job_spec J kind (fst (key i)) (snd (key i)) \<and> snd (key i) \<le> length (fst (key i)))"

lemma spec_clash:
  assumes "has_keys h key (root_id t)" "has_keys h key j" "h j = Some J"
  shows "clashes h J t \<longleftrightarrow> key (root_id t) = key j"
  using assms by (auto simp: has_keys_def clashes_def job_spec_def job_equal_def job_compare_def prod_eq_iff)

lemma spec_here:
  assumes "has_keys h key i" "has_keys h key j" "h i = Some P" "h j = Some J" "\<forall>t \<in> set cs. has_keys h key (root_id t)"
  shows "grow_here h j J P cs below =
    (if \<not> key_match (fst (key i)) (key j) then None
     else if length (fst (key i)) < snd (key j) then below
     else if \<exists>t \<in> set cs. key (root_id t) = key j then None else Some (cs @ [JobNode j []]))"
proof -
  have j: "j_request J = Some (fst (key j))" "j_prefixLength J = snd (key j)" "snd (key j) \<le> length (fst (key j))"
    using assms(2,4) by (auto simp: has_keys_def job_spec_def)
  have i: "j_request P = Some (fst (key i))" "j_requestLength P = length (fst (key i))"
    using assms(1,3) by (auto simp: has_keys_def job_spec_def)
  have c: "(\<exists>t \<in> set cs. clashes h J t) = (\<exists>t \<in> set cs. key (root_id t) = key j)"
    using spec_clash [OF _ assms(2,4)] assms(5) by blast
  show ?thesis unfolding grow_here_def c using i j
    by (auto simp: isChild_def isFamily_def job_compare_def key_match_def)
qed

lemma grow_key:
  assumes "has_keys h key j" "h j = Some J" "\<forall>i \<in> set (tree_ids ts). has_keys h key i"
  shows "grow h j J ts = key_grow key j ts"
  using assms(3)
proof (induction ts rule: tree_ids.induct)
  case (2 i cs ts)
  obtain P where P: "h i = Some P" using "2.prems" by (auto simp: has_keys_def)
  have "\<forall>t \<in> set cs. has_keys h key (root_id t)" using "2.prems" root_ids_in [of _ cs] by auto
  from spec_here [OF _ assms(1) P assms(2) this] "2.prems" "2.IH" P show ?case by (simp cong: option.case_cong)
qed simp

lemma grow_root_key:
  assumes "has_keys h key j" "h j = Some J" "\<forall>i \<in> set (tree_ids ts). has_keys h key i"
  shows "(case grow_root h j J ts of None \<Rightarrow> ts | Some ts' \<Rightarrow> ts') = key_grow_root key j ts"
proof -
  have c: "(\<exists>t \<in> set ts. clashes h J t) = (\<exists>t \<in> set ts. key (root_id t) = key j)"
    using spec_clash [OF _ assms(1,2)] assms(3) root_ids_in by blast
  have "j_prefixLength J = snd (key j)" using assms(1,2) by (auto simp: has_keys_def job_spec_def)
  then show ?thesis unfolding grow_root_def key_grow_root_def c grow_key [OF assms] by simp
qed

lemma grow_all_key:
  assumes "\<forall>i \<in> set js \<union> set (tree_ids ts). has_keys h key i"
  shows "grow_all h js ts = fold (key_grow_root key) js ts"
  using assms
proof (induction js arbitrary: ts)
  case (Cons j js)
  have j: "has_keys h key j" using Cons.prems by simp
  then obtain J where J: "h j = Some J" by (auto simp: has_keys_def)
  let ?ts = "case grow_root h j J ts of None \<Rightarrow> ts | Some ts' \<Rightarrow> ts'"
  have "set (tree_ids ?ts) \<subseteq> insert j (set (tree_ids ts))" using grow_root_ids [of h j J ts] by (auto split: option.split)
  then have "\<forall>i \<in> set js \<union> set (tree_ids ?ts). has_keys h key i" using Cons.prems by auto
  from Cons.IH [OF this] grow_root_key [OF j J, of ts] Cons.prems J show ?case by simp
qed simp

lemma add_all_keys:
  assumes t: "is_tree h root ts" and js: "distinct js" "set js \<inter> set (root # tree_ids ts) = {}"
    and J: "\<forall>j \<in> set js. \<exists>J. h j = Some J \<and> job_shape h J" and k: "\<forall>i \<in> set js \<union> set (tree_ids ts). has_keys h key i"
  shows "\<exists>h'. addDiagJobs root js h = Some h' \<and> relinked h h' \<and> is_tree h' root (fold (key_grow_root key) js ts)"
  using add_all [OF t js J] grow_all_key [OF k] by simp

end
