(* ===== verification/UdsSystem.thy ===== *)
theory UdsSystem imports UdsTree begin

text \<open>
  The diagnostic jobs of the reference application, and the tree they are put in at its start.
\<close>

section \<open>The jobs of the reference application\<close>

definition responseData22Cf01 :: "u8 list" where
  "responseData22Cf01 = [0x01, 0x02, 0x00, 0x02, 0x22, 0x02, 0x16, 0x0F, 0x01, 0x00, 0x00, 0x6D,
     0x2F, 0x00, 0x00, 0x01, 0x06, 0x00, 0x00, 0x8F, 0xE0, 0x00, 0x00, 0x01]"

text \<open>The value of the potentiometer is 2 where there is none. It is sent in network byte order.\<close>

definition readIdentifierPot :: "u32 \<Rightarrow> u8 \<Rightarrow> job option" where
  "readIdentifierPot adcValue sessionMask =
     identifier_new (ReadMemory [ucast (drop_bit 24 adcValue), ucast (drop_bit 16 adcValue), ucast (drop_bit 8 adcValue), ucast adcValue])
       (identifier_request 0x22 0xCF02) sessionMask"

text \<open>The root is the first, then the jobs in the order in which they are added.\<close>

definition udsSystem_jobs :: "u32 \<Rightarrow> job option list" where
  "udsSystem_jobs adcValue =
     [root_new, clearDiagnosticInformation,
      readDataByIdentifier, readIdentifierFromMemory 0xCF01 responseData22Cf01 mask_open, readIdentifierPot adcValue mask_open,
      writeDataByIdentifier, writeIdentifierToMemory 0xCF03 mask_open,
      routineControl, routineSubfunction 1, routineSubfunction 2, routineSubfunction 3,
      testerPresent, diagnosticSessionControl, communicationControl, readDTCInformation]"

definition udsSystem_store :: "u32 \<Rightarrow> job_store" where
  "udsSystem_store adcValue i = (if i < length (udsSystem_jobs adcValue) then udsSystem_jobs adcValue ! i else None)"

definition udsSystem_addDiagJobs :: "u32 \<Rightarrow> job_store option" where
  "udsSystem_addDiagJobs adcValue = addDiagJobs 0 [1..<length (udsSystem_jobs adcValue)] (udsSystem_store adcValue)"

lemmas udsSystem_defs = udsSystem_jobs_def root_new_def clearDiagnosticInformation_def readDataByIdentifier_def readIdentifierFromMemory_def
  readIdentifierPot_def writeDataByIdentifier_def writeIdentifierToMemory_def routineControl_def routineSubfunction_def testerPresent_def
  diagnosticSessionControl_def communicationControl_def readDTCInformation_def
  default_code_def enable_suppress_def service_new_def subfunction_new_def identifier_new_def job_new_def

definition udsSystem_specs :: "u32 \<Rightarrow> (job_kind \<times> u8 list \<times> nat) list" where
  "udsSystem_specs adcValue =
     [(ClearDTCService, [0x14], 0),
      (ReadDataService, [0x22], 0), (ReadMemory responseData22Cf01, [0x22, 0xCF, 0x01], 1),
      (ReadMemory [ucast (drop_bit 24 adcValue), ucast (drop_bit 16 adcValue), ucast (drop_bit 8 adcValue), ucast adcValue], [0x22, 0xCF, 0x02], 1),
      (WriteDataService, [0x2E], 0), (WriteMemory, [0x2E, 0xCF, 0x03], 1),
      (RoutineService, [0x31], 0), (PlainSubfunction, [0x31, 1], 1), (PlainSubfunction, [0x31, 2], 1), (PlainSubfunction, [0x31, 3], 1),
      (TesterPresentService, [0x3E], 0), (SessionControlService, [0x10], 0), (CommunicationService, [0x28], 0), (ReadDTCService, [0x19], 0)]"

lemma identifier_requests: "identifier_request s 0xCF01 = [s, 0xCF, 0x01]" "identifier_request s 0xCF02 = [s, 0xCF, 0x02]"
    "identifier_request s 0xCF03 = [s, 0xCF, 0x03]"
  by (simp_all add: identifier_request_def)

lemma udsSystem_meets:
  "list_all2 (\<lambda>j (kind, request, prefix). \<exists>J. j = Some J \<and> job_spec J kind request prefix) (tl (udsSystem_jobs adc)) (udsSystem_specs adc)"
  by (simp add: udsSystem_defs udsSystem_specs_def identifier_requests job_spec_def)


text \<open>Each index, in the form that evaluates.\<close>

lemma udsSystem_length: "length (udsSystem_jobs adc) = 15" "length (udsSystem_specs adc) = 14"
  by (simp_all add: udsSystem_jobs_def udsSystem_specs_def)

lemma udsSystem_nth:
  assumes "k < 14" "udsSystem_specs adc ! k = (kind, request, prefix)"
  shows "\<exists>J. udsSystem_store adc (Suc k) = Some J \<and> job_spec J kind request prefix"
proof -
  have "k < length (tl (udsSystem_jobs adc))" using assms(1) by (simp add: udsSystem_length)
  from list_all2_nthD [OF udsSystem_meets this] assms show ?thesis by (simp add: nth_tl udsSystem_store_def udsSystem_length)
qed

lemma spec_shape:
  assumes "job_spec J kind request prefix"
    "is_service kind \<and> length request = 1 \<and> prefix = 0 \<or> is_subfunction kind \<and> length request = 2 \<and> prefix = 1
      \<or> is_identifier kind \<and> length request = 3 \<and> prefix = 1"
  shows "job_shape h J"
  using assms by (auto simp: job_spec_def job_shape_def)

lemma udsSystem_shapes:
  assumes "1 \<le> j" "j < 15"
  shows "\<exists>J. udsSystem_store adc j = Some J \<and> job_shape h J"
proof -
  obtain k where k: "j = Suc k" "k < 14" using assms by (cases j) auto
  obtain kind request prefix where s: "udsSystem_specs adc ! k = (kind, request, prefix)" by (cases "udsSystem_specs adc ! k") 
  have "list_all (\<lambda>(kind, request, prefix). is_service kind \<and> length request = 1 \<and> prefix = 0
      \<or> is_subfunction kind \<and> length request = 2 \<and> prefix = 1
      \<or> is_identifier kind \<and> length request = 3 \<and> prefix = 1) (udsSystem_specs adc)"
    by (simp add: udsSystem_specs_def is_service_def is_subfunction_def is_identifier_def)
  then have "is_service kind \<and> length request = 1 \<and> prefix = 0 \<or> is_subfunction kind \<and> length request = 2 \<and> prefix = 1
      \<or> is_identifier kind \<and> length request = 3 \<and> prefix = 1"
    using s k(2) by (auto simp: list_all_length udsSystem_length)
  with udsSystem_nth [OF k(2) s] spec_shape show ?thesis using k(1) by blast
qed

section \<open>The tree of the reference application\<close>

definition udsSystem_key :: "nat \<Rightarrow> u8 list \<times> nat" where
  "udsSystem_key i = snd (udsSystem_specs 0 ! (i - 1))"

definition udsSystem_trees :: "job_tree list" where
  "udsSystem_trees =
     [JobNode 1 [], JobNode 2 [JobNode 3 [], JobNode 4 []], JobNode 5 [JobNode 6 []],
      JobNode 7 [JobNode 8 [], JobNode 9 [], JobNode 10 []], JobNode 11 [], JobNode 12 [], JobNode 13 [], JobNode 14 []]"

lemma udsSystem_keys:
  assumes "1 \<le> j" "j < 15"
  shows "has_keys (udsSystem_store adc) udsSystem_key j"
proof -
  obtain k where k: "j = Suc k" "k < 14" using assms by (cases j) auto
  obtain kind request prefix where s: "udsSystem_specs adc ! k = (kind, request, prefix)" by (cases "udsSystem_specs adc ! k")
  have "map snd (udsSystem_specs adc) = map snd (udsSystem_specs 0)" by (simp add: udsSystem_specs_def)
  then have "snd (udsSystem_specs adc ! k) = snd (udsSystem_specs 0 ! k)" using k(2) nth_map [of k _ snd] by (metis udsSystem_length(2))
  then have key: "udsSystem_key j = (request, prefix)" using s k(1) by (simp add: udsSystem_key_def)
  have "list_all (\<lambda>(kind, request, prefix). prefix \<le> length request) (udsSystem_specs adc)" by (simp add: udsSystem_specs_def)
  then have "prefix \<le> length request" using s k(2) by (auto simp: list_all_length udsSystem_length)
  then show ?thesis using udsSystem_nth [OF k(2) s] key k(1) by (auto simp: has_keys_def)
qed

lemma udsSystem_grown: "fold (key_grow_root udsSystem_key) [1..<15] [] = udsSystem_trees"
  by code_simp


lemma udsSystem_root: "is_tree (udsSystem_store adc) 0 []"
  by (simp add: is_tree_def udsSystem_store_def udsSystem_length) (simp add: udsSystem_defs)

lemma udsSystem_tree:
  "\<exists>h. udsSystem_addDiagJobs adc = Some h \<and> relinked (udsSystem_store adc) h \<and> is_tree h 0 udsSystem_trees"
proof -
  have j: "1 \<le> j \<and> j < 15" if "j \<in> set [1..<15]" for j :: nat using that unfolding set_upt by simp
  have "\<forall>j \<in> set [1..<15]. \<exists>J. udsSystem_store adc j = Some J \<and> job_shape (udsSystem_store adc) J"
    using udsSystem_shapes j by blast
  moreover have "\<forall>j \<in> set [1..<15] \<union> set (tree_ids []). has_keys (udsSystem_store adc) udsSystem_key j"
    using udsSystem_keys j by simp
  moreover have "set [1..<15] \<inter> set (0 # tree_ids []) = {}" unfolding set_upt by simp
  ultimately show ?thesis using add_all_keys [OF udsSystem_root distinct_upt] udsSystem_grown
    unfolding udsSystem_addDiagJobs_def udsSystem_length by metis
qed

end
