(* ===== verification/UdsRead.thy ===== *)
theory UdsRead imports UdsTree UdsProps begin

text \<open>
  A data identifier that is read, from the dispatch of the request to the response that the
  transport layer gets.
\<close>

text \<open>A job that is ready to serve: session, authentication and lengths let the request pass.\<close>

definition serves :: "job_env \<Rightarrow> session \<Rightarrow> u16 \<Rightarrow> job \<Rightarrow> bool" where
  "serves E s source J \<longleftrightarrow> mask_match (j_allowedSessions J) s \<and> isAuthenticated E J source
     \<and> j_requestPayloadLength J = VARIABLE_LENGTH \<and> j_responseLength J = VARIABLE_LENGTH \<and> \<not> j_suppressEnabled J"

lemma walk_to:
  assumes "tree_rep h p (pre @ JobNode i cs # post)"
    "\<forall>t \<in> set pre. \<exists>K. h (root_id t) = Some K \<and> job_shape h K \<and> job_verify h (root_id t) K st r = Some NOT_RESPONSIBLE"
  shows "job_walk E h p r st = job_walk E h (Some i) r st"
  using assms
proof (induction pre arbitrary: p)
  case (Cons t ts)
  obtain k us where t: "t = JobNode k us" by (cases t)
  obtain K where K: "p = Some k" "h k = Some K" "tree_rep h (j_nextJob K) (ts @ JobNode i cs # post)" "job_shape h K"
    "job_verify h k K st r = Some NOT_RESPONSIBLE" using Cons.prems t by auto
  have "j_prefixLength K \<le> j_requestLength K" using K(4) by (auto simp: job_shape_def)
  then have "job_enter E h k K r st = Some (Inl (NOT_RESPONSIBLE, st))" using K(5) by (simp add: job_enter_def)
  then have "job_walk E h p r st = job_walk E h (j_nextJob K) r st" using K(1,2) by (subst job_walk.simps) simp
  then show ?case using Cons.IH [OF K(3)] Cons.prems(2) by simp
qed simp

lemma identifiers_taken:
  assumes "con_requestMessage c = Some m" "\<not> con_isResponseActive c" "con_nestedRequest c = None"
    "con_identifiers c = take n (tm_buffer m)" "n + k \<le> MAXIMUM_NUMBER_OF_IDENTIFIERS" "n + k \<le> length (tm_buffer m)"
  shows "con_addIdentifiers k c = Some (c\<lparr>con_identifiers := take (n + k) (tm_buffer m)\<rparr>)"
  using assms
proof (induction k arbitrary: c n)
  case (Suc k)
  have "con_addIdentifier c = Some (c\<lparr>con_identifiers := take (Suc n) (tm_buffer m)\<rparr>)"
    using Suc.prems by (simp add: con_addIdentifier_def take_Suc_conv_app_nth)
  then show ?case using Suc.IH [of "c\<lparr>con_identifiers := take (Suc n) (tm_buffer m)\<rparr>" "Suc n"] Suc.prems by simp
qed simp

lemma enter_serves:
  assumes v: "job_verify h i J st r = Some DIAG_OK" and s: "serves E (sc_current (ds_session st)) (con_sourceAddress (ds_con st)) J"
    and c: "con_requestMessage (ds_con st) = Some m" "\<not> con_isResponseActive (ds_con st)" "con_nestedRequest (ds_con st) = None"
      "con_identifiers (ds_con st) = take (j_prefixLength J) (tm_buffer m)"
    and l: "j_prefixLength J < j_requestLength J" "j_requestLength J \<le> MAXIMUM_NUMBER_OF_IDENTIFIERS" "j_requestLength J \<le> length (tm_buffer m)"
  shows "job_enter E h i J r st = Some (Inr (request_advance (j_requestLength J - j_prefixLength J) r,
    job_acceptedJob i (st\<lparr>ds_con := (ds_con st)\<lparr>con_identifiers := take (j_requestLength J) (tm_buffer m)\<rparr>\<rparr>)))"
proof -
  let ?k = "j_requestLength J - j_prefixLength J"
  have "con_addIdentifiers ?k (ds_con st) = Some ((ds_con st)\<lparr>con_identifiers := take (j_requestLength J) (tm_buffer m)\<rparr>)"
    using identifiers_taken [OF c, of ?k] l by simp
  moreover have "\<exists>n. con_getMaximumResponseLength ((ds_con st)\<lparr>con_identifiers := take (j_requestLength J) (tm_buffer m)\<rparr>) = Some n"
    using c by (simp add: con_getMaximumResponseLength_def)
  ultimately show ?thesis using v s l
    by (auto simp: job_enter_def serves_def verifySupplierIndication_def checkSuppressPositiveResponseBit_def job_acceptJob_def Let_def)
qed

lemma session_kept [simp]: "sc_current (ds_session (job_acceptedJob i st)) = sc_current (ds_session st)"
  by (simp add: job_acceptedJob_def sc_acceptedJob_def sc_stopTimeout_def)

lemma readService_verify:
  assumes "j_kind S = ReadDataService" "j_request S = Some [a]" "mask_match (j_allowedSessions S) (sc_current (ds_session st))"
    "request_byte (ds_con st) r 0 = Some a" "snd r = 3"
  shows "job_verify h s S st r = Some DIAG_OK"
  using assms by (simp add: job_verify_def readData_verify_def service_verify_def Let_def)

lemma identifier_verify:
  assumes "is_identifier (j_kind K)" "j_request K = Some bs" "length bs = 3" "request_bytes (ds_con st) r 2 = Some x"
  shows "x \<noteq> drop 1 bs \<Longrightarrow> job_verify h k K st r = Some NOT_RESPONSIBLE"
    "x = drop 1 bs \<Longrightarrow> j_kind K = ReadMemory d \<Longrightarrow> job_verify h k K st r = Some DIAG_OK"
  using assms by (auto simp: is_identifier_def job_verify_def dataIdentifier_verify_def writeMemory_verify_def bytes_verify_def Let_def)

lemma tree_ok_split:
  assumes "tree_ok h pre n (xs @ JobNode i cs # ys)"
  shows "\<exists>J. h i = Some J \<and> job_shape h J \<and> isChild J pre n = Some True \<and> tree_ok h (j_request J) (j_requestLength J) cs
    \<and> (\<forall>t \<in> set xs. \<exists>K. h (root_id t) = Some K \<and> job_shape h K \<and> isChild K pre n = Some True \<and> job_equal K J = Some False)"
  using assms
proof (induction xs)
  case (Cons t ts)
  obtain k us where t: "t = JobNode k us" by (cases t)
  obtain K where K: "h k = Some K" "job_shape h K" "isChild K pre n = Some True" "list_all (differs h K) (ts @ JobNode i cs # ys)"
    "tree_ok h pre n (ts @ JobNode i cs # ys)" using Cons.prems t by auto
  from Cons.IH [OF K(5)] obtain J where J: "h i = Some J" "job_shape h J" "isChild J pre n = Some True" "tree_ok h (j_request J) (j_requestLength J) cs"
    "\<forall>t \<in> set ts. \<exists>K. h (root_id t) = Some K \<and> job_shape h K \<and> isChild K pre n = Some True \<and> job_equal K J = Some False" by blast
  have "job_equal K J = Some False" using K(4) J(1) by (simp add: differs_def)
  then show ?case using J K(1-3) t by auto
qed auto

lemma tree_rep_at: "tree_rep h p (pre @ JobNode s cs # post) \<Longrightarrow> \<exists>S. h s = Some S \<and> tree_rep h (j_firstChild S) cs"
proof (induction pre arbitrary: p)
  case (Cons t ts)
  then show ?case by (cases t) auto
qed auto

text \<open>The response of a job that has one piece: the connection is where the run of its calls leads.\<close>

lemma respond_run:
  assumes c: "con_isOpen c" "con_nestedRequest c = None" "\<not> con_isResponseActive c" "con_requestMessage c = Some m"
    "con_responseMessage c = None" "con_identifiers c = []" "con_messageSender c" "con_sender c = None"
    and k: "k \<le> MAXIMUM_NUMBER_OF_IDENTIFIERS" "k + length bs \<le> length (tm_buffer m)" "tm_wf m"
    and st: "ds_con st = c\<lparr>con_identifiers := take k (tm_buffer m)\<rparr>"
  shows "\<exists>d. job_respond i [bs] st = Some (DIAG_OK, st\<lparr>ds_con := d\<rparr>)
    \<and> con_run E (replicate k JobAddIdentifier @ [JobGetResponse, JobAppend bs, JobPositive i]) (False, c) = Some (True, d)"
proof -
  let ?C = "c\<lparr>con_identifiers := take k (tm_buffer m)\<rparr>" and ?P = "prepared m k bs c"
  have a: "con_run E (replicate k JobAddIdentifier) (False, c) = Some (False, ?C)"
    using identifiers_added [OF c(1-4,6) k(1)] k(2) by simp
  have p: "con_run E (replicate k JobAddIdentifier @ [JobGetResponse, JobAppend bs]) (False, c) = Some (False, ?P)"
    by (rule response_prepared [OF c(1-6) k])
  have "con_run E [JobGetResponse, JobAppend bs] (False, ?C) = Some (False, ?P)" using p by (simp add: con_run_append a)
  then obtain C1 where C1: "con_releaseRequestGetResponse ?C = Some C1" "con_run E [JobAppend bs] (False, C1) = Some (False, ?P)"
    using c(1) by (auto split: option.splits)
  have "con_isOpen C1 \<and> con_isResponseActive C1" using C1(1) c(1,2)
    by (auto simp: con_releaseRequestGetResponse_def con_setResponse_def bind_eq_Some_conv)
  then obtain n where n: "pr_appendData bs C1 = Some (n, ?P)" using C1(2) by (auto split: option.splits)
  have P: "con_isOpen ?P" "con_isResponseActive ?P" "con_messageSender ?P" "con_sender ?P = None" "con_responseMessage ?P \<noteq> None"
    using c by (simp_all add: prepared_def Let_def)
  let ?x = "con_sendPositiveResponseInternal (pr_getLength (con_positiveResponse ?P)) i ?P"
  have x: "fst ?x = UDS_OK" using P by (simp add: con_sendPositiveResponseInternal_def)
  have "con_run E (replicate k JobAddIdentifier @ [JobGetResponse, JobAppend bs] @ [JobPositive i]) (False, c) = Some (True, snd ?x)"
    unfolding append_assoc [symmetric] using P x by (subst con_run_append) (simp add: p con_sendPositiveResponse_def)
  moreover have "job_respond i [bs] st = Some (DIAG_OK, st\<lparr>ds_con := snd ?x\<rparr>)"
    using st C1(1) n by (simp add: job_respond_def Let_def)
  ultimately show ?thesis by auto
qed


section \<open>A read request\<close>

lemma read_walk:
  assumes t: "is_tree h root ts" and R: "h root = Some R"
    and S: "JobNode s cs \<in> set ts" "h s = Some S" "j_kind S = ReadDataService"
    and J: "JobNode i us \<in> set cs" "h i = Some J" "j_kind J = ReadMemory bs"
    and ids: "\<forall>t \<in> set cs. \<exists>K. h (root_id t) = Some K \<and> is_identifier (j_kind K)"
    and serve: "serves E (sc_current (ds_session st)) (con_sourceAddress c) S" "serves E (sc_current (ds_session st)) (con_sourceAddress c) J"
    and m: "j_request J = Some (take 3 (tm_buffer m))" "tm_wf m" "3 + length bs \<le> length (tm_buffer m)"
    and c: "con_isOpen c" "con_nestedRequest c = None" "\<not> con_isResponseActive c" "con_requestMessage c = Some m"
      "con_responseMessage c = None" "con_identifiers c = []" "con_messageSender c" "con_sender c = None" "ds_con st = c"
  shows "\<exists>st' d. job_walk E h (j_firstChild R) (0, 3) st = Some (DIAG_OK, st') \<and> ds_con st' = d
    \<and> con_run CE (replicate 3 JobAddIdentifier @ [JobGetResponse, JobAppend bs, JobPositive i]) (False, c) = Some (True, d)"
proof -
  obtain pre post where ts: "ts = pre @ JobNode s cs # post" using S(1) by (auto simp: in_set_conv_decomp)
  obtain pre' post' where cs: "cs = pre' @ JobNode i us # post'" using J(1) by (auto simp: in_set_conv_decomp)
  have root: "tree_rep h (j_firstChild R) (pre @ JobNode s cs # post)" "tree_ok h None 0 (pre @ JobNode s cs # post)"
    using t R ts by (auto simp: is_tree_def)
  from tree_ok_split [OF root(2)] S(2) have S2: "job_shape h S" "isChild S None 0 = Some True"
    "tree_ok h (j_request S) (j_requestLength S) (pre' @ JobNode i us # post')"
    "\<forall>t \<in> set pre. \<exists>K. h (root_id t) = Some K \<and> job_shape h K \<and> isChild K None 0 = Some True \<and> job_equal K S = Some False"
    using cs by auto
  from tree_ok_split [OF S2(3)] J(2) have J2: "job_shape h J" "isChild J (j_request S) (j_requestLength S) = Some True"
    "\<forall>t \<in> set pre'. \<exists>K. h (root_id t) = Some K \<and> job_shape h K \<and> isChild K (j_request S) (j_requestLength S) = Some True
      \<and> job_equal K J = Some False" by auto
  have s: "j_prefixLength S = 0" "j_requestLength S = 1" using service_shape [OF S2(1)] isChild_prefix [OF S2(2)] by simp_all
  obtain a where a: "j_request S = Some [a]" using S2(1) s(2) by (auto simp: job_shape_def length_Suc_conv)
  have j: "j_requestLength J = 3" "j_prefixLength J = 1" using J2(1) J(3) by (auto simp: job_shape_def is_service_def is_subfunction_def)
  have len: "length (tm_buffer m) \<ge> 3" using m(3) by simp
  then obtain x y z r where b: "tm_buffer m = x # y # z # r" by (auto simp: numeral_3_eq_3 Suc_le_length_iff)
  have xa: "x = a" using J2(2) j a s m(1) b by (simp add: isChild_def job_compare_def)
  have byte: "request_byte (ds_con st) (0, 3) 0 = Some a" using c(4,9) b xa by (simp add: request_byte_def)
  have "\<exists>K. h (root_id t) = Some K \<and> job_shape h K \<and> job_verify h (root_id t) K st (0, 3) = Some NOT_RESPONSIBLE" if t: "t \<in> set pre" for t
  proof -
    obtain K where K: "h (root_id t) = Some K" "job_shape h K" "isChild K None 0 = Some True" "job_equal K S = Some False" using S2(4) t by blast
    have k: "is_service (j_kind K)" "j_requestLength K = 1" "j_prefixLength K = 0" using service_shape [OF K(2)] isChild_prefix [OF K(3)] by simp_all
    obtain b' where b': "j_request K = Some [b']" using K(2) k(2) by (auto simp: job_shape_def length_Suc_conv)
    have "a \<noteq> b'" using K(4) b' a k s by (auto simp: job_equal_def job_compare_def)
    then show ?thesis using K(1,2) service_declines [OF k(1) b' byte] by blast
  qed
  then have w: "job_walk E h (j_firstChild R) (0, 3) st = job_walk E h (Some s) (0, 3) st" using walk_to [OF root(1)] by blast
  have v: "job_verify h s S st (0, 3) = Some DIAG_OK"
    by (rule readService_verify [OF S(3) a _ byte]) (use serve(1) in \<open>simp_all add: serves_def\<close>)
  let ?c1 = "c\<lparr>con_identifiers := take 1 (tm_buffer m)\<rparr>"
  let ?st1 = "job_acceptedJob s (st\<lparr>ds_con := ?c1\<rparr>)"
  have "con_identifiers (ds_con st) = take (j_prefixLength S) (tm_buffer m)" using c(6,9) s by simp
  from enter_serves [OF v _ _ _ _ this] have e: "job_enter E h s S (0, 3) st = Some (Inr ((1, 2), ?st1))"
    using serve(1) c s len by (simp add: MAXIMUM_NUMBER_OF_IDENTIFIERS_def request_advance_def to_u16_def)
  have sub: "tree_rep h (j_firstChild S) (pre' @ JobNode i us # post')" using tree_rep_at [OF root(1)] S(2) cs by auto
  have bytes: "request_bytes (ds_con ?st1) (1, 2) 2 = Some [y, z]" using c(4) b by (simp add: request_bytes_def)
  have "\<exists>K. h (root_id t) = Some K \<and> job_shape h K \<and> job_verify h (root_id t) K ?st1 (1, 2) = Some NOT_RESPONSIBLE" if t: "t \<in> set pre'" for t
  proof -
    obtain K where K: "h (root_id t) = Some K" "job_shape h K" "isChild K (j_request S) (j_requestLength S) = Some True" "job_equal K J = Some False"
      using J2(3) t by blast
    have "t \<in> set cs" using t cs by simp
    then have k: "is_identifier (j_kind K)" using ids K(1) by fastforce
    have kl: "j_requestLength K = 3" "j_prefixLength K = 1" using K(2) k
      by (auto simp: job_shape_def is_service_def is_subfunction_def is_identifier_def)
    obtain x' y' z' where b': "j_request K = Some [x', y', z']" using K(2) kl(1) by (auto simp: job_shape_def numeral_3_eq_3 length_Suc_conv)
    have "x' = a" using K(3) kl b' a s by (simp add: isChild_def job_compare_def)
    then have "[y, z] \<noteq> drop 1 [x', y', z']" using K(4) b' kl j m(1) b xa by (auto simp: job_equal_def job_compare_def)
    then show ?thesis using K(1,2) identifier_verify(1) [OF k b' _ bytes] by auto
  qed
  then have w1: "job_walk E h (j_firstChild S) (1, 2) ?st1 = job_walk E h (Some i) (1, 2) ?st1" using walk_to [OF sub] by blast
  have v1: "job_verify h i J ?st1 (1, 2) = Some DIAG_OK"
    by (rule identifier_verify(2) [OF _ m(1) _ bytes _ J(3)]) (use J(3) b in \<open>simp_all add: is_identifier_def\<close>)
  let ?c2 = "c\<lparr>con_identifiers := take 3 (tm_buffer m)\<rparr>"
  have "con_identifiers (ds_con ?st1) = take (j_prefixLength J) (tm_buffer m)" using j by simp
  from enter_serves [OF v1 _ _ _ _ this] have e1: "job_enter E h i J (1, 2) ?st1 = Some (Inr ((3, 0), job_acceptedJob i (?st1\<lparr>ds_con := ?c2\<rparr>)))"
    using serve(2) c j len by (simp add: MAXIMUM_NUMBER_OF_IDENTIFIERS_def request_advance_def to_u16_def)
  let ?st2 = "job_acceptedJob i (?st1\<lparr>ds_con := ?c2\<rparr>)"
  have "ds_con ?st2 = ?c2" by simp
  from respond_run [OF c(1-8) _ m(3,2) this] obtain d where
    d: "job_respond i [bs] ?st2 = Some (DIAG_OK, ?st2\<lparr>ds_con := d\<rparr>)"
      "con_run CE (replicate 3 JobAddIdentifier @ [JobGetResponse, JobAppend bs, JobPositive i]) (False, c) = Some (True, d)"
    by (auto simp: MAXIMUM_NUMBER_OF_IDENTIFIERS_def)
  have "job_walk E h (Some i) (1, 2) ?st1 = Some (DIAG_OK, ?st2\<lparr>ds_con := d\<rparr>)"
    using J(2,3) e1 d(1) by (subst job_walk.simps) (simp add: job_is_node_def job_process_def)
  then have "job_walk E h (Some s) (0, 3) st = Some (DIAG_OK, ?st2\<lparr>ds_con := d\<rparr>)"
    using S(2,3) e w1 by (subst job_walk.simps) (simp add: job_is_node_def)
  then show ?thesis using w d(2) by auto
qed

end
