(* ===== verification/UdsJobsProps.thy ===== *)
theory UdsJobsProps imports UdsSystem UdsRead begin

text \<open>The properties of the diagnostic jobs: the tree they are put in, and the requests given to it.\<close>

section \<open>The tree\<close>

text \<open>C22: Jobs that are added to the root of a well-formed tree one after the other, whatever their
  order, end in the tree that their requests alone determine: every job is the last child of the
  job whose whole request is its prefix, unless there is none or one of the children has the same
  request, and then the job is left out. No step fails, the requests of the jobs are unchanged,
  and the tree in the store stays well-formed.\<close>

theorem jobs_are_added_by_prefix:
  assumes "is_tree h root ts" "distinct js" "set js \<inter> set (root # tree_ids ts) = {}"
    "\<forall>j \<in> set js. \<exists>J. h j = Some J \<and> job_shape h J" "\<forall>i \<in> set js \<union> set (tree_ids ts). has_keys h key i"
  shows "\<exists>h'. addDiagJobs root js h = Some h' \<and> relinked h h' \<and> is_tree h' root (fold (key_grow_root key) js ts)"
  by (rule add_all_keys [OF assms])

theorem jobs_are_added_by_prefix_witness:
  "\<exists>h. addDiagJobs 0 [1..<15] (udsSystem_store 2) = Some h
    \<and> is_tree h 0 [JobNode 1 [], JobNode 2 [JobNode 3 [], JobNode 4 []], JobNode 5 [JobNode 6 []],
        JobNode 7 [JobNode 8 [], JobNode 9 [], JobNode 10 []], JobNode 11 [], JobNode 12 [], JobNode 13 [], JobNode 14 []]"
proof -
  have j: "1 \<le> j \<and> j < 15" if "j \<in> set [1..<15]" for j :: nat using that unfolding set_upt by simp
  have s: "\<forall>j \<in> set [1..<15]. \<exists>J. udsSystem_store 2 j = Some J \<and> job_shape (udsSystem_store 2) J"
    using udsSystem_shapes j by blast
  have k: "\<forall>j \<in> set [1..<15] \<union> set (tree_ids []). has_keys (udsSystem_store 2) udsSystem_key j"
    using udsSystem_keys j by simp
  have d: "set [1..<15] \<inter> set (0 # tree_ids []) = {}" unfolding set_upt by simp
  from jobs_are_added_by_prefix [OF udsSystem_root distinct_upt d s k] show ?thesis
    unfolding udsSystem_grown udsSystem_trees_def by blast
qed

section \<open>Every request\<close>

text \<open>C2: Any message in a buffer of at least six bytes that is dispatched to a well-formed tree of jobs,
  whatever the state of the session, the authenticators and the lifecycle, is processed without a
  failure. Either it is a message that must not be answered, a response or a functional sign
  of life, and its connection is closed and the message given back at once; or a response has
  been given, by a job or by the dispatcher, and in every run of the connection that follows
  its job is told of the end of the response at most once, the message is given back once,
  exactly when the connection is destroyed, and when nothing waits any more both have happened.\<close>

theorem every_request_is_answered:
  assumes "is_tree h root ts" "env_shape E" "tm_wf m" "6 \<le> length (tm_buffer m)" "\<And>j. ce_terminates CE j"
  shows "\<exists>st'. dispatchIncomingRequest E h root addr activate True m st = Some st'
    \<and> (unanswerable (tm_buffer m ! 0) (tm_targetAddress m) \<and> \<not> con_isOpen (ds_con st')
         \<and> request_ends (ds_con st') = 1 \<and> destructions (ds_con st') = 1 \<and> con_flight (ds_con st') = []
       \<or> (\<exists>c. con_run CE labs (True, ds_con st') = Some (True, c)
         \<and> length (con_flight c) \<le> 1 \<and> notices c \<le> 1
         \<and> request_ends c = of_bool (\<not> con_isOpen c) \<and> destructions c = of_bool (\<not> con_isOpen c)
         \<and> (con_posted c = [] \<and> con_flight c = [] \<longrightarrow> \<not> con_isOpen c \<and> notices c = 1)))"
proof -
  from dispatch_total [OF assms(3,4) is_tree_shape [OF assms(1)] assms(2)] obtain st' where
    st': "dispatchIncomingRequest E h root addr activate True m st = Some st'"
      "answered (ds_con st') \<or> closed (ds_con st') \<and> unanswerable (tm_buffer m ! 0) (tm_targetAddress m)" by blast
  show ?thesis
  proof (cases "answered (ds_con st')")
    case True
    from answered_runs [OF this assms(5), of labs] obtain c where
      "con_run CE labs (True, ds_con st') = Some (True, c)" "answered c" by blast
    with st'(1) answered_seen [OF this(2)] show ?thesis by blast
  next
    case False
    with st' closed_seen show ?thesis by blast
  qed
qed

definition example_job_env :: job_env where
  "example_job_env = \<lparr>je_isAuthenticated = (\<lambda>a s. True), je_notAuthenticatedCode = (\<lambda>a. 0x33), je_programming = False,
     je_modeChangePossible = True\<rparr>"

definition example_state :: diag_state where
  "example_state = \<lparr>ds_con = con_new, ds_session = sc_new,
     ds_communication = \<lparr>cc_state = ENABLE_ALL_MESSAGE_TRANSMISSION, cc_subNodeIdDisabledTx = 0, cc_neverNotified = True,
       cc_listeners = 0, cc_subListeners = [], cc_calls = []\<rparr>,
     ds_memory = (\<lambda>i. [0, 0, 0]), ds_started = (\<lambda>i. False), ds_accepted = []\<rparr>"

lemma example_job_env_shape: "env_shape example_job_env"
  by (simp add: env_shape_def example_job_env_def good_code_def code_defs)

theorem every_request_is_answered_witness:
  "\<exists>h st' c. udsSystem_addDiagJobs 2 = Some h
    \<and> dispatchIncomingRequest example_job_env h 0 0x10 True True example_request example_state = Some st'
    \<and> con_run example_env [Runs SendPositiveResponse, Runs SendNegativeResponse, Processed True, Runs TransportMessageProcessed] (True, ds_con st') = Some (True, c)
    \<and> notices c \<le> 1"
proof -
  obtain h where h: "udsSystem_addDiagJobs 2 = Some h" "is_tree h 0 udsSystem_trees" using udsSystem_tree by blast
  have t: "ce_terminates example_env j" for j by (simp add: example_env_def)
  have "6 \<le> length (tm_buffer example_request)" "\<not> unanswerable (tm_buffer example_request ! 0) (tm_targetAddress example_request)"
    by (simp_all add: example_request_def tm_new_def unanswerable_def NEGATIVE_RESPONSE_IDENTIFIER_def SERVICE_TESTER_PRESENT_def isFunctionalAddress_def)
  from every_request_is_answered [OF h(2) example_job_env_shape example_request_wf(1) this(1) t, where addr = "0x10" and activate = True
      and st = example_state and labs = "[Runs SendPositiveResponse, Runs SendNegativeResponse, Processed True, Runs TransportMessageProcessed]"]
    this(2) h(1) show ?thesis by (elim exE conjE disjE) blast+
qed

section \<open>Reading a data identifier\<close>

text \<open>C21: In a tree that has a ReadDataByIdentifier service with only data identifiers below it, whatever
  else is in the tree, a request of three bytes that is the request of one of these
  identifiers, in a session that root, service and identifier allow and from an authenticated
  tester, is answered by that identifier: the transport layer gets one message to the tester, which
  consists of the service identifier raised by 64, the two bytes of the identifier and all the data
  behind it, where the data fits into the buffer of the request.\<close>

theorem read_identifier_returns_its_data:
  assumes t: "is_tree h root ts" and R: "h root = Some R" "mask_match (j_allowedSessions R) (sc_current (ds_session st))"
    and S: "JobNode s cs \<in> set ts" "h s = Some S" "j_kind S = ReadDataService" "serves E (sc_current (ds_session st)) (tm_sourceAddress m) S"
    and J: "JobNode i us \<in> set cs" "h i = Some J" "j_kind J = ReadMemory bs" "serves E (sc_current (ds_session st)) (tm_sourceAddress m) J"
    and ids: "\<forall>t \<in> set cs. \<exists>K. h (root_id t) = Some K \<and> is_identifier (j_kind K)"
    and m: "j_request J = Some (take 3 (tm_buffer m))" "tm_payloadLength m = 3" "tm_wf m" "3 + length bs \<le> length (tm_buffer m)"
      "\<not> unanswerable (tm_buffer m ! 0) (tm_targetAddress m)"
    and send: "ce_send CE [SessionResponseSent DIAG_OK]"
  shows "\<exists>st' c r. dispatchIncomingRequest E h root addr activate listener m st = Some st'
    \<and> con_run CE [Runs SendPositiveResponse] (True, ds_con st') = Some (True, c)
    \<and> con_trace c = [SessionResponseSent DIAG_OK, SendMessage ResponseMessage r True] \<and> con_flight c = [ResponseMessage]
    \<and> tm_data r = (tm_buffer m ! 0 + POSITIVE_RESPONSE_OFFSET) # take 2 (drop 1 (tm_buffer m)) @ bs
    \<and> tm_targetAddress r = tm_sourceAddress m
    \<and> tm_sourceAddress r = (if isFunctionalAddress (tm_targetAddress m) then addr else tm_targetAddress m)"
proof -
  have b: "tm_buffer m \<noteq> []" "3 \<le> length (tm_buffer m)" "tm_buffer m ! 0 \<noteq> NEGATIVE_RESPONSE_IDENTIFIER"
    "1 \<le> (3::nat)" "3 \<le> MAXIMUM_NUMBER_OF_IDENTIFIERS"
    using m(4,5) by (auto simp: unanswerable_def MAXIMUM_NUMBER_OF_IDENTIFIERS_def)
  from opened_connection [OF b(1), of addr activate listener] obtain c where
    c: "dd_openConnection addr activate listener m = Some c" "con_isOpen c" "con_nestedRequest c = None" "\<not> con_isResponseActive c"
    "con_requestMessage c = Some m" "con_responseMessage c = None" "con_identifiers c = []" "con_messageSender c" "con_sender c = None"
    "con_serviceId c = tm_buffer m ! 0" "con_sourceAddress c = tm_sourceAddress m" "con_targetAddress c = tm_targetAddress m" .
  let ?st = "st\<lparr>ds_con := c\<rparr>"
  have "serves E (sc_current (ds_session ?st)) (con_sourceAddress c) S" "serves E (sc_current (ds_session ?st)) (con_sourceAddress c) J"
    using S(4) J(4) c by simp_all
  from read_walk [OF t R(1) S(1-3) J(1-3) ids this m(1,3,4) c(2-9), where CE = CE] obtain st' where
    w: "job_walk E h (j_firstChild R) (0, 3) ?st = Some (DIAG_OK, st')"
      "con_run CE (replicate 3 JobAddIdentifier @ [JobGetResponse, JobAppend bs, JobPositive i]) (False, c) = Some (True, ds_con st')" by auto
  have d: "dispatchIncomingRequest E h root addr activate listener m st = Some st'"
    using c w(1) R b(3) m(2,5)
    by (auto simp: dispatchIncomingRequest_def root_execute_def Let_def unanswerable_def root_verify_def)
  from positive_response_run [OF m(3) b(2-5) m(4) send, of addr activate listener i] c(1) obtain c' r where
    p: "con_run CE ((replicate 3 JobAddIdentifier @ [JobGetResponse, JobAppend bs, JobPositive i]) @ [Runs SendPositiveResponse]) (False, c) = Some (True, c')"
      "con_trace c' = [SessionResponseSent DIAG_OK, SendMessage ResponseMessage r True]" "con_flight c' = [ResponseMessage]"
      "tm_data r = (tm_buffer m ! 0 + POSITIVE_RESPONSE_OFFSET) # take (3 - 1) (drop 1 (tm_buffer m)) @ bs"
      "tm_targetAddress r = tm_sourceAddress m" "tm_sourceAddress r = (if isFunctionalAddress (tm_targetAddress m) then addr else tm_targetAddress m)"
    by auto
  have "con_run CE [Runs SendPositiveResponse] (True, ds_con st') = Some (True, c')"
    using p(1) unfolding con_run_append [of CE "replicate 3 JobAddIdentifier @ [JobGetResponse, JobAppend bs, JobPositive i]"] w(2) by simp
  then show ?thesis using d p(2-6) by auto
qed

lemma unlinked_serves:
  assumes "unlinked J = unlinked K"
  shows "j_allowedSessions J = j_allowedSessions K" "serves E s a J = serves E s a K"
  using assms by (cases J; cases K; simp add: unlinked_def serves_def isAuthenticated_def)+

text \<open>Identifier CF01 of the reference application, in the default session\<close>

definition example_read :: transport_message where
  "example_read = (tm_new ([0x22, 0xCF, 0x01] @ replicate 24 0))\<lparr>tm_sourceAddress := 0xF1, tm_targetAddress := 0x10, tm_validBytes := 3, tm_payloadLength := 3\<rparr>"

theorem read_identifier_returns_its_data_witness:
  "\<exists>h st' c r. udsSystem_addDiagJobs 2 = Some h \<and> dispatchIncomingRequest example_job_env h 0 0x10 True True example_read example_state = Some st'
    \<and> con_run example_env [Runs SendPositiveResponse] (True, ds_con st') = Some (True, c)
    \<and> tm_data r = [0x62, 0xCF, 0x01] @ responseData22Cf01 \<and> con_trace c = [SessionResponseSent DIAG_OK, SendMessage ResponseMessage r True]"
proof -
  obtain h where h: "udsSystem_addDiagJobs 2 = Some h" "relinked (udsSystem_store 2) h" "is_tree h 0 udsSystem_trees" using udsSystem_tree by blast
  have f: "\<exists>R S J K. udsSystem_store 2 0 = Some R \<and> udsSystem_store 2 2 = Some S \<and> udsSystem_store 2 3 = Some J \<and> udsSystem_store 2 4 = Some K
      \<and> mask_match (j_allowedSessions R) DefaultSession \<and> j_kind S = ReadDataService \<and> serves example_job_env DefaultSession 0xF1 S
      \<and> j_kind J = ReadMemory responseData22Cf01 \<and> serves example_job_env DefaultSession 0xF1 J \<and> j_request J = Some [0x22, 0xCF, 0x01]
      \<and> is_identifier (j_kind K)"
    by (simp add: udsSystem_store_def udsSystem_length) (simp add: udsSystem_defs serves_def identifier_requests isAuthenticated_def is_identifier_def)
  obtain R S J K where u: "udsSystem_store 2 0 = Some R" "udsSystem_store 2 2 = Some S" "udsSystem_store 2 3 = Some J" "udsSystem_store 2 4 = Some K"
    "mask_match (j_allowedSessions R) DefaultSession" "j_kind S = ReadDataService" "serves example_job_env DefaultSession 0xF1 S"
    "j_kind J = ReadMemory responseData22Cf01" "serves example_job_env DefaultSession 0xF1 J" "j_request J = Some [0x22, 0xCF, 0x01]"
    "is_identifier (j_kind K)" using f by blast
  obtain R' where R': "h 0 = Some R'" "unlinked R' = unlinked R" using relinkedD [OF h(2) u(1)] by blast
  obtain S' where S': "h 2 = Some S'" "unlinked S' = unlinked S" using relinkedD [OF h(2) u(2)] by blast
  obtain J' where J': "h 3 = Some J'" "unlinked J' = unlinked J" using relinkedD [OF h(2) u(3)] by blast
  obtain K' where K': "h 4 = Some K'" "unlinked K' = unlinked K" using relinkedD [OF h(2) u(4)] by blast
  have e: "sc_current (ds_session example_state) = DefaultSession" "tm_sourceAddress example_read = 0xF1" "tm_payloadLength example_read = 3"
    "tm_buffer example_read = [0x22, 0xCF, 0x01] @ replicate 24 0" "tm_wf example_read" "tm_targetAddress example_read = 0x10"
    "3 + length responseData22Cf01 \<le> length (tm_buffer example_read)"
    by (simp_all add: example_state_def sc_new_def example_read_def tm_new_def tm_wf_def responseData22Cf01_def)
  have n: "\<not> unanswerable (tm_buffer example_read ! 0) (tm_targetAddress example_read)"
    by (simp add: e unanswerable_def NEGATIVE_RESPONSE_IDENTIFIER_def SERVICE_TESTER_PRESENT_def)
  have k: "j_kind S' = ReadDataService" "j_kind J' = ReadMemory responseData22Cf01" "j_request J' = Some (take 3 (tm_buffer example_read))"
    "mask_match (j_allowedSessions R') (sc_current (ds_session example_state))"
    "serves example_job_env (sc_current (ds_session example_state)) (tm_sourceAddress example_read) S'"
    "serves example_job_env (sc_current (ds_session example_state)) (tm_sourceAddress example_read) J'"
    using u e unlinked_fields [OF S'(2)] unlinked_fields [OF J'(2)] unlinked_serves(1) [OF R'(2)] unlinked_serves(2) [OF S'(2)] unlinked_serves(2) [OF J'(2)]
    by simp_all
  have ids: "\<forall>t \<in> set [JobNode 3 [], JobNode 4 []]. \<exists>K. h (root_id t) = Some K \<and> is_identifier (j_kind K)"
    using J'(1) K'(1) k(2) unlinked_fields [OF K'(2)] u(11) by (simp add: is_identifier_def)
  have nodes: "JobNode 2 [JobNode 3 [], JobNode 4 []] \<in> set udsSystem_trees" "JobNode 3 [] \<in> set [JobNode 3 [], JobNode 4 []]"
    by (simp_all add: udsSystem_trees_def)
  have "ce_send example_env [SessionResponseSent DIAG_OK]" by (simp add: example_env_def)
  from read_identifier_returns_its_data [OF h(3) R'(1) k(4) nodes(1) S'(1) k(1,5) nodes(2) J'(1) k(2,6) ids k(3) e(3,5,7) n this,
      of "0x10" True True] h(1) e(4)
  show ?thesis by (auto simp: POSITIVE_RESPONSE_OFFSET_def)
qed

section \<open>Sessions\<close>

text \<open>C38: In every run of the session manager of the application from its start, the boot loader's programming session
  is never the active one, and the session timeout is armed only in the sessions that count as the
  extended session. After any response but a pending one the expiry of the timeout leads back to
  the default session; a job that has been accepted stops the timeout, so until its response the
  session stays as it is.\<close>

theorem session_follows_its_responses:
  assumes "code \<noteq> ISO_RESPONSE_PENDING"
  shows "let s = sc_run prog labs sc_new in
    sc_current s \<noteq> ProgrammingSession
    \<and> (sc_timeout s \<noteq> None \<longrightarrow> session_equal (sc_current s) ExtendedSession)
    \<and> sc_current (sc_run prog [Responded code, TimeoutExpires] s) = DefaultSession
    \<and> sc_current (sc_run prog [Accepted j, TimeoutExpires] s) = sc_current s"
proof -
  have i: "sc_inv (sc_run prog labs sc_new)" by (rule session_run_inv) (simp add: sc_inv_def sc_new_def)
  have "sc_current (sc_run prog [Accepted j, TimeoutExpires] s) = sc_current s" for s
    by (simp add: sc_run_def sc_defs)
  then show ?thesis using i responded_expires [OF i assms] by (simp add: Let_def sc_inv_def)
qed

theorem session_follows_its_responses_witness:
  "sc_current (sc_run False [Requested 3] sc_new) = ExtendedSession
    \<and> sc_current (sc_run False [Responded DIAG_OK, TimeoutExpires] (sc_run False [Requested 3] sc_new)) = DefaultSession"
proof -
  have "DIAG_OK \<noteq> ISO_RESPONSE_PENDING" by (simp add: code_defs)
  from session_follows_its_responses [OF this, of False "[Requested 3]"] show ?thesis
    by (simp add: Let_def sc_run_def sc_new_def switch_current SESSION_DEFAULT_def SESSION_EXTENDED_def)
qed

end
