(* ===== verification/UdsDispatcher.thy ===== *)
theory UdsDispatcher imports UdsDispatch begin

text \<open>
  \<^verbatim>\<open>DiagDispatcher\<close> of \<^verbatim>\<open>bsw/uds\<close>, without outgoing connections (\<^verbatim>\<open>UDS_ENABLE_OUTGOING\<close> is off by default):
  the queue of requests, the checks made on a request, the pool of connections and the shutdown.
  The pool is the list of all connections that were opened, of which the open ones take a place.
\<close>

section \<open>Addresses\<close>

record logical_address =
  la_address2Byte :: u16
  la_address1Byte :: u16

definition TESTER_ADDRESS_RANGE :: "logical_address list" where
  "TESTER_ADDRESS_RANGE = map (\<lambda>i. \<lparr>la_address2Byte = 0x0EF0 + of_nat i, la_address1Byte = 0x00F0 + of_nat i\<rparr>) [0..<12]"

definition findBy2ByteAddress :: "logical_address list \<Rightarrow> u16 \<Rightarrow> logical_address option" where
  "findBy2ByteAddress list address = find (\<lambda>l. la_address2Byte l = address) list"

definition findBy1ByteAddress :: "logical_address list \<Rightarrow> u16 \<Rightarrow> logical_address option" where
  "findBy1ByteAddress list address = find (\<lambda>l. la_address1Byte l = address) list"

definition is1ByteTesterAddress :: "u16 \<Rightarrow> bool" where
  "is1ByteTesterAddress address \<longleftrightarrow> findBy1ByteAddress TESTER_ADDRESS_RANGE address \<noteq> None"

definition is2ByteTesterAddress :: "u16 \<Rightarrow> bool" where
  "is2ByteTesterAddress address \<longleftrightarrow> findBy2ByteAddress TESTER_ADDRESS_RANGE address \<noteq> None"

definition isFromTester :: "transport_message \<Rightarrow> bool" where
  "isFromTester m \<longleftrightarrow> is1ByteTesterAddress (tm_sourceAddress m)"

definition convert2ByteAddressTo1Byte :: "u16 \<Rightarrow> u16" where
  "convert2ByteAddressTo1Byte address =
     (if address AND 0xFF00 \<noteq> 0x0E00 then address
      else (case findBy2ByteAddress TESTER_ADDRESS_RANGE address of None \<Rightarrow> address | Some l \<Rightarrow> la_address1Byte l))"

definition convert1ByteAddressTo2Byte :: "u16 \<Rightarrow> u16" where
  "convert1ByteAddressTo2Byte address =
     (if address AND 0xFFF0 \<noteq> 0x00F0 then address
      else (case findBy1ByteAddress TESTER_ADDRESS_RANGE address of None \<Rightarrow> address | Some l \<Rightarrow> la_address2Byte l))"

text \<open>The converted address of a tester is converted back.\<close>

lemma tester_addresses:
  assumes "is1ByteTesterAddress a"
  shows "is2ByteTesterAddress (convert1ByteAddressTo2Byte a) \<and> convert2ByteAddressTo1Byte (convert1ByteAddressTo2Byte a) = a"
proof -
  have r: "TESTER_ADDRESS_RANGE = map (\<lambda>i. \<lparr>la_address2Byte = 0x0EF0 + of_nat i, la_address1Byte = 0x00F0 + of_nat i\<rparr>) [0, 1, 2, 3, 4, 5, 6, 7, 8, 9, 10, 11]"
    by (simp add: TESTER_ADDRESS_RANGE_def upt_rec)
  have "a \<in> {0xF0, 0xF1, 0xF2, 0xF3, 0xF4, 0xF5, 0xF6, 0xF7, 0xF8, 0xF9, 0xFA, 0xFB}"
    using assms by (auto simp: is1ByteTesterAddress_def findBy1ByteAddress_def r split: if_splits)
  then show ?thesis
    by (elim insertE emptyE) (simp_all add: convert1ByteAddressTo2Byte_def convert2ByteAddressTo1Byte_def findBy1ByteAddress_def
      findBy2ByteAddress_def is2ByteTesterAddress_def r)
qed

definition DIAG_PAYLOAD_SIZE :: nat where "DIAG_PAYLOAD_SIZE = 4095"

section \<open>State\<close>

text \<open>Who is told that a message has been processed; the dispatcher itself listens for its copies.\<close>

datatype dd_listener = DefaultListener | SenderListener nat | DispatcherListener

record transport_job =
  job_id :: nat
  job_message :: transport_message
  job_listener :: dd_listener

datatype dd_event =
    MessageProcessed nat dd_listener bool
  | CopyTaken nat
  | CopyReleased nat
  | BusySent transport_message bool
  | ConnectionsReleased nat
  | ShutdownComplete

record dd_config =
  cfg_diagAddress :: u16
  cfg_broadcastAddress :: u16
  cfg_activateOutgoingPending :: bool
  cfg_acceptAllRequests :: bool
  cfg_copyFunctionalRequests :: bool
  cfg_queueSize :: nat
  cfg_poolSize :: nat

text \<open>A connection with the request it was opened for\<close>

record dd_slot =
  slot_id :: nat
  slot_listener :: dd_listener
  slot_con :: diag_connection

text \<open>Whether the dispatcher is enabled is kept with the session manager, which also writes it.\<close>

record dispatcher =
  dd_state :: diag_state
  dd_queue :: "transport_job list"
  dd_posted :: bool
  dd_slots :: "dd_slot list"
  dd_connectionShutdownRequested :: bool
  dd_busyMessage :: transport_message
  dd_events :: "dd_event list"

text \<open>
  The environment: the jobs and their tree, the connections', a message from the provider for a
  copy, and whether the busy response is received.
\<close>

record dd_env =
  de_job :: job_env
  de_store :: job_store
  de_root :: nat
  de_con :: con_env
  de_provide :: "dd_event list \<Rightarrow> transport_message option"
  de_receive :: "dd_event list \<Rightarrow> bool"

definition dd_event :: "dd_event \<Rightarrow> dispatcher \<Rightarrow> dispatcher" where
  "dd_event x w = w\<lparr>dd_events := dd_events w @ [x]\<rparr>"

text \<open>\<^verbatim>\<open>processedListener->transportMessageProcessed\<close>; the dispatcher gives a copy back to its provider.\<close>

definition dd_processed :: "nat \<Rightarrow> dd_listener \<Rightarrow> bool \<Rightarrow> dispatcher \<Rightarrow> dispatcher" where
  "dd_processed i l ok w = dd_event (case l of DispatcherListener \<Rightarrow> CopyReleased i | _ \<Rightarrow> MessageProcessed i l ok) w"

definition dd_open :: "dispatcher \<Rightarrow> nat" where
  "dd_open w = length (filter (\<lambda>s. con_isOpen (slot_con s)) (dd_slots w))"

section \<open>Sending\<close>

definition enqueueMessage :: "dd_config \<Rightarrow> nat \<Rightarrow> transport_message \<Rightarrow> dd_listener option \<Rightarrow> dispatcher \<Rightarrow> tp_error \<times> dispatcher" where
  "enqueueMessage cfg i m listener w =
     (if \<not> isComplete m then (TP_MESSAGE_INCOMPLETE, w)
      else if length (dd_queue w) < cfg_queueSize cfg
      then let l = (case listener of Some l \<Rightarrow> l | None \<Rightarrow> DefaultListener)
           in (TP_OK, w\<lparr>dd_queue := dd_queue w @ [\<lparr>job_id = i, job_message = m, job_listener = l\<rparr>]\<rparr>)
      else (TP_QUEUE_FULL, w))"

text \<open>The send of a listener that is not one of the dispatcher's connections\<close>

definition dd_send :: "dd_config \<Rightarrow> nat \<Rightarrow> transport_message \<Rightarrow> dd_listener option \<Rightarrow> dispatcher \<Rightarrow> tp_error \<times> dispatcher" where
  "dd_send cfg i m listener w =
     (if \<not> sc_enabled (ds_session (dd_state w)) then (TP_SEND_FAIL, w)
      else if tm_targetAddress m \<noteq> cfg_diagAddress cfg
        \<and> (cfg_broadcastAddress cfg \<noteq> INVALID_ADDRESS16 \<and> tm_targetAddress m \<noteq> cfg_broadcastAddress cfg)
      then (TP_SEND_FAIL, w)
      else let (result, w) = enqueueMessage cfg i m listener w
           in (result, if result = TP_OK then w\<lparr>dd_posted := True\<rparr> else w))"

text \<open>The address of the caller's message is changed, whether or not there is room in the queue.\<close>

definition dd_resume :: "dd_config \<Rightarrow> nat \<Rightarrow> transport_message \<Rightarrow> dd_listener option \<Rightarrow> dispatcher \<Rightarrow> tp_error \<times> transport_message \<times> dispatcher" where
  "dd_resume cfg i m listener w =
     (if \<not> sc_enabled (ds_session (dd_state w)) then (TP_SEND_FAIL, m, w)
      else if tm_targetAddress m \<noteq> cfg_diagAddress cfg
        \<and> (cfg_broadcastAddress cfg = INVALID_ADDRESS16 \<or> tm_targetAddress m \<noteq> cfg_broadcastAddress cfg)
      then (TP_SEND_FAIL, m, w)
      else let m = m\<lparr>tm_targetAddress := INVALID_ADDRESS16\<rparr>;
               (result, w) = enqueueMessage cfg i m listener w
           in (result, m, if result = TP_OK then w\<lparr>dd_posted := True\<rparr> else w))"

section \<open>Processing\<close>

datatype precheck_result = PrecheckAbort | PrecheckBusy | PrecheckReady

definition copyFunctionalRequest :: "transport_message \<Rightarrow> transport_message option \<Rightarrow> transport_message option option" where
  "copyFunctionalRequest request provided =
     (case provided of None \<Rightarrow> Some None
      | Some p \<Rightarrow> do {
          let p = (resetValidBytes p)\<lparr>tm_sourceAddress := tm_sourceAddress request, tm_targetAddress := tm_targetAddress request\<rparr>;
          p \<leftarrow> setPayloadLength (tm_payloadLength request) p;
          (_, p) \<leftarrow> tm_append (tm_buffer request) (tm_payloadLength request) p;
          Some (Some p) })"

definition precheckRequest :: "dd_config \<Rightarrow> dd_env \<Rightarrow> transport_job \<Rightarrow> dispatcher \<Rightarrow> (precheck_result \<times> transport_job \<times> dispatcher) option" where
  "precheckRequest cfg E j w =
     (let j = (if tm_targetAddress (job_message j) = INVALID_ADDRESS16
               then j\<lparr>job_message := (job_message j)\<lparr>tm_targetAddress := cfg_diagAddress cfg\<rparr>\<rparr> else j)
      in if \<not> cfg_acceptAllRequests cfg \<and> \<not> isFromTester (job_message j)
         then Some (PrecheckAbort, j, dd_processed (job_id j) (job_listener j) False w)
         else if cfg_copyFunctionalRequests cfg \<and> isFunctionalAddress (tm_targetAddress (job_message j))
         then do {
           copy \<leftarrow> copyFunctionalRequest (job_message j) (de_provide E (dd_events w));
           (case copy of
              None \<Rightarrow> Some (PrecheckBusy, j, w)
            | Some p \<Rightarrow> Some (PrecheckReady, j\<lparr>job_message := p, job_listener := DispatcherListener\<rparr>,
                           dd_processed (job_id j) (job_listener j) True (dd_event (CopyTaken (job_id j)) w))) }
         else Some (PrecheckReady, j, w))"

definition sendBusyResponse :: "dd_config \<Rightarrow> dd_env \<Rightarrow> transport_message \<Rightarrow> dispatcher \<Rightarrow> dispatcher option" where
  "sendBusyResponse cfg E m w = do {
     ensure (tm_buffer m \<noteq> [] \<and> 1 < length (tm_buffer (dd_busyMessage w)));
     let b = (dd_busyMessage w)\<lparr>tm_sourceAddress := cfg_diagAddress cfg, tm_targetAddress := tm_sourceAddress m,
               tm_buffer := (tm_buffer (dd_busyMessage w))[1 := tm_buffer m ! 0]\<rparr>;
     Some (dd_event (BusySent b (de_receive E (dd_events w))) (w\<lparr>dd_busyMessage := b\<rparr>)) }"

text \<open>\<^verbatim>\<open>dispatchIncomingRequest\<close>: the result is that there is no connection.\<close>

definition dd_dispatch :: "dd_config \<Rightarrow> dd_env \<Rightarrow> transport_job \<Rightarrow> dispatcher \<Rightarrow> (bool \<times> dispatcher) option" where
  "dd_dispatch cfg E j w =
     (if dd_open w \<ge> cfg_poolSize cfg then Some (True, w)
      else do {
        st \<leftarrow> dispatchIncomingRequest (de_job E) (de_store E) (de_root E) (cfg_diagAddress cfg) (cfg_activateOutgoingPending cfg)
          True (job_message j) (dd_state w);
        let w = w\<lparr>dd_state := st, dd_slots := dd_slots w @ [\<lparr>slot_id = job_id j, slot_listener = job_listener j, slot_con = ds_con st\<rparr>]\<rparr>;
        Some (False, if con_isOpen (ds_con st) then w else dd_processed (job_id j) (job_listener j) True w) })"

definition dd_process :: "dd_config \<Rightarrow> dd_env \<Rightarrow> transport_job \<Rightarrow> dispatcher \<Rightarrow> dispatcher option" where
  "dd_process cfg E j w = do {
     (precheckResult, j, w) \<leftarrow> precheckRequest cfg E j w;
     (busy, w) \<leftarrow>
       (if precheckResult = PrecheckBusy then Some (True, w)
        else if precheckResult = PrecheckReady \<and> \<not> dd_connectionShutdownRequested w then dd_dispatch cfg E j w
        else Some (False, w));
     if busy
     then do {
       w \<leftarrow> sendBusyResponse cfg E (job_message j) w;
       Some (dd_processed (job_id j) (job_listener j) True w) }
     else Some w }"

text \<open>The jobs of the queue one by one; what comes in meanwhile is another run of it.\<close>

fun dd_process_all :: "dd_config \<Rightarrow> dd_env \<Rightarrow> transport_job list \<Rightarrow> dispatcher \<Rightarrow> dispatcher option" where
  "dd_process_all cfg E [] w = Some w"
| "dd_process_all cfg E (j # js) w = do {
     w \<leftarrow> dd_process cfg E j (w\<lparr>dd_queue := js\<rparr>);
     dd_process_all cfg E js w }"

definition processQueue :: "dd_config \<Rightarrow> dd_env \<Rightarrow> dispatcher \<Rightarrow> dispatcher option" where
  "processQueue cfg E w = dd_process_all cfg E (dd_queue w) w"

section \<open>Connections\<close>

text \<open>
  What the connection has newly called: the listener is told of the request, the session manager of
  a response, and its own job of the end of its response.
\<close>

definition dd_session :: "(session_control \<Rightarrow> session_control) \<Rightarrow> dispatcher \<Rightarrow> dispatcher" where
  "dd_session f w = w\<lparr>dd_state := (dd_state w)\<lparr>ds_session := f (ds_session (dd_state w))\<rparr>\<rparr>"

definition dd_told :: "dd_env \<Rightarrow> dd_slot \<Rightarrow> con_call \<Rightarrow> dispatcher \<Rightarrow> dispatcher" where
  "dd_told E s x w =
     (case x of
        RequestProcessed m \<Rightarrow> dd_processed (slot_id s) (slot_listener s) True w
      | SessionResponseSent code \<Rightarrow> dd_session (sc_responseSent code) w
      | ResponseSent job sent \<Rightarrow>
          (case de_store E job of
             Some J \<Rightarrow> if j_kind J = SessionControlService then dd_session sc_jobResponseSent w else w
           | None \<Rightarrow> w)
      | _ \<Rightarrow> w)"

text \<open>\<^verbatim>\<open>checkConnectionShutdownProgress\<close>: connections that are still open lose their
  place in the pool. What the timers and closures of such a connection still do is not modelled.\<close>

definition checkConnectionShutdownProgress :: "dispatcher \<Rightarrow> dispatcher" where
  "checkConnectionShutdownProgress w =
     (if \<not> dd_connectionShutdownRequested w then w
      else let w = (if dd_open w > 0
                    then dd_event (ConnectionsReleased (dd_open w))
                           (w\<lparr>dd_slots := filter (\<lambda>s. \<not> con_isOpen (slot_con s)) (dd_slots w)\<rparr>)
                    else w)
           in dd_event ShutdownComplete w)"

definition dd_connection :: "dd_env \<Rightarrow> nat \<Rightarrow> con_label \<Rightarrow> dispatcher \<Rightarrow> dispatcher option" where
  "dd_connection E k lab w =
     (if k < length (dd_slots w) \<and> con_isOpen (slot_con (dd_slots w ! k)) \<and> con_enabled lab (True, slot_con (dd_slots w ! k))
      then do {
        let s = dd_slots w ! k;
        (_, c) \<leftarrow> con_step (de_con E) lab (True, slot_con s);
        let w = fold (dd_told E s) (drop (length (con_trace (slot_con s))) (con_trace c)) (w\<lparr>dd_slots := (dd_slots w)[k := s\<lparr>slot_con := c\<rparr>]\<rparr>);
        Some (if con_isOpen c then w else checkConnectionShutdownProgress w) }
      else Some w)"

section \<open>Lifecycle\<close>

definition dd_new :: "diag_state \<Rightarrow> dispatcher" where
  "dd_new st = \<lparr>dd_state = st, dd_queue = [], dd_posted = False, dd_slots = [], dd_connectionShutdownRequested = False,
     dd_busyMessage = (tm_new ([NEGATIVE_RESPONSE_IDENTIFIER, 0, ISO_BUSY_REPEAT_REQUEST] @ replicate 7 0))\<lparr>tm_validBytes := 3, tm_payloadLength := 3\<rparr>,
     dd_events = []\<rparr>"

definition dd_setEnabled :: "bool \<Rightarrow> dispatcher \<Rightarrow> dispatcher" where
  "dd_setEnabled b = dd_session (\<lambda>s. s\<lparr>sc_enabled := b\<rparr>)"

definition dd_init :: "dispatcher \<Rightarrow> dispatcher" where
  "dd_init w = dd_setEnabled True (w\<lparr>dd_connectionShutdownRequested := False\<rparr>)"

definition dd_shutdown :: "dispatcher \<Rightarrow> dispatcher" where
  "dd_shutdown w = checkConnectionShutdownProgress ((dd_setEnabled False w)\<lparr>dd_connectionShutdownRequested := True\<rparr>)"

definition dd_trigger :: "dispatcher \<Rightarrow> dispatcher" where
  "dd_trigger w = w\<lparr>dd_posted := True\<rparr>"

end
