(* ===== verification/UdsDispatcherCorrect.thy ===== *)
theory UdsDispatcherCorrect imports UdsDispatcher begin

text \<open>
  How a connection without a nested request goes on: it only adds to its calls, and is not opened
  again. The requests that are given back are told to their listeners in the order of the calls.
\<close>

section \<open>Later connections\<close>

definition later :: "diag_connection \<Rightarrow> diag_connection \<Rightarrow> bool" where
  "later c d \<longleftrightarrow> con_nestedRequest d = None \<and> (\<exists>xs. con_trace d = con_trace c @ xs) \<and> (con_isOpen d \<longrightarrow> con_isOpen c)"

lemma later_trans: "later a b \<Longrightarrow> later b c \<Longrightarrow> later a c"
  by (auto simp: later_def)

lemma later_same:
  "con_nestedRequest d = None \<Longrightarrow> con_trace d = con_trace c \<Longrightarrow> con_isOpen d = con_isOpen c \<Longrightarrow> later c d"
  by (simp add: later_def)

lemma later_from:
  "con_trace c = con_trace c' \<Longrightarrow> con_isOpen c = con_isOpen c' \<Longrightarrow> later c d = later c' d"
  by (simp add: later_def)

lemma later_call: "con_nestedRequest c = None \<Longrightarrow> later c (con_call x c)"
  by (simp add: later_def con_call_def)

lemma later_terminated: "con_nestedRequest c = None \<Longrightarrow> later c (dd_diagConnectionTerminated c)"
  by (auto simp: later_def dd_diagConnectionTerminated_def Let_def con_call_def split: option.split)

lemma later_terminate:
  assumes "con_terminate c = Some d" "con_nestedRequest c = None"
  shows "later c d"
proof -
  let ?c = "c\<lparr>con_isOpen := False, con_responsePendingTimeout := False, con_globalPendingTimeout := False,
    con_connectionTerminationIsPending := False, con_sender := None\<rparr>"
  have "d = c \<or> d = c\<lparr>con_connectionTerminationIsPending := True\<rparr> \<or> d = dd_diagConnectionTerminated ?c"
    using assms by (auto simp: con_terminate_def con_terminateNestedRequest_def Let_def bind_eq_Some_conv split: if_splits)
  moreover have "later ?c (dd_diagConnectionTerminated ?c)" by (rule later_terminated) (simp add: assms)
  then have "later c (dd_diagConnectionTerminated ?c)" by (simp add: later_def)
  ultimately show ?thesis using assms(2) by (auto simp: later_def)
qed

lemma later_responseSent: "con_responseSent E job sent c = Some d \<Longrightarrow> con_nestedRequest c = None \<Longrightarrow> later c d"
  using later_terminate [of "con_call (ResponseSent job sent) c" d] later_call [of c "ResponseSent job sent"] later_trans
  by (auto simp: con_responseSent_def Let_def later_def con_call_def split: if_splits)

lemma later_send: "con_nestedRequest c = None \<Longrightarrow> later c (snd (con_send E k m c))"
  by (simp add: con_send_def Let_def later_def con_call_def)

lemma later_sendResponse:
  assumes "con_sendResponse E c = Some (e, d)" "con_nestedRequest c = None"
  shows "later c d"
proof (cases "con_responseMessage c")
  case None
  then show ?thesis using assms by (simp add: con_sendResponse_def later_def)
next
  case (Some m)
  obtain ok s where s: "con_send E ResponseMessage m c = (ok, s)" by (cases "con_send E ResponseMessage m c")
  have l: "later c s" using later_send [OF assms(2), of E ResponseMessage m] s by simp
  then have n: "con_nestedRequest s = None" by (simp add: later_def)
  show ?thesis
  proof (cases ok)
    case True
    then show ?thesis using assms(1) Some s l by (auto simp: con_sendResponse_def bind_eq_Some_conv)
  next
    case False
    let ?s = "s\<lparr>con_numPendingMessageProcessedCallbacks := con_numPendingMessageProcessedCallbacks s - 1\<rparr>"
    from False assms(1) Some s obtain a where
      a: "(case con_sender ?s of Some job \<Rightarrow> con_responseSent E job False (?s\<lparr>con_sender := None\<rparr>) | None \<Rightarrow> Some ?s) = Some a"
        "(if con_connectionTerminationIsPending a \<and> con_numPendingMessageProcessedCallbacks a = 0 then con_terminate a else Some a) = Some d"
      by (auto simp: con_sendResponse_def Let_def bind_eq_Some_conv)
    have "later s a" using a(1) n later_responseSent [of E _ False "?s\<lparr>con_sender := None\<rparr>" a]
      by (auto simp: later_def split: option.splits)
    moreover have "later a d" using a(2) later_terminate [of a d] calculation by (auto simp: later_def split: if_splits)
    ultimately show ?thesis using l later_trans by blast
  qed
qed

lemma later_trySendPending: "con_trySendPending E c = Some d \<Longrightarrow> con_nestedRequest c = None \<Longrightarrow> later c d"
  by (auto simp: con_trySendPending_def sendResponsePending_def con_send_def con_call_def later_def Let_def bind_eq_Some_conv split: if_splits)


section \<open>Steps\<close>

lemma later_keeps:
  "con_trace d = con_trace c \<Longrightarrow> con_isOpen d = con_isOpen c \<Longrightarrow> con_nestedRequest d = con_nestedRequest c
    \<Longrightarrow> con_nestedRequest c = None \<Longrightarrow> later c d"
  by (simp add: later_def)

lemma later_notice:
  assumes "(case con_sender a of Some job \<Rightarrow> con_responseSent E job sent (a\<lparr>con_sender := None\<rparr>) | None \<Rightarrow> Some a) = Some d"
    "con_nestedRequest a = None"
  shows "later a d"
  using assms later_responseSent [of E _ sent "a\<lparr>con_sender := None\<rparr>" d] by (auto simp: later_def split: option.splits)

lemma later_positive:
  assumes x: "con_asyncSendPositiveResponse E len job c = Some d" and n: "con_nestedRequest c = None"
  shows "later c d"
proof -
  from x n obtain a where a:
    "(case con_responseMessage c of None \<Rightarrow> Some c
      | Some m \<Rightarrow> do { m \<leftarrow> con_positiveMessage len c m;
          Some (con_call (SessionResponseSent DIAG_OK) ((con_setResponse m c)\<lparr>con_sender := job\<rparr>)) }) = Some a"
    "(if \<not> con_suppressPositiveResponse a \<or> con_responsePendingSent a
      then (if \<not> con_responsePendingIsBeingSent a then map_option snd (con_sendResponse E a) else Some a)
      else let a = a\<lparr>con_numPendingMessageProcessedCallbacks := con_numPendingMessageProcessedCallbacks a - 1\<rparr> in
        (case con_sender a of Some job \<Rightarrow> con_responseSent E job True (a\<lparr>con_sender := None\<rparr>) | None \<Rightarrow> Some a)) = Some d"
    by (auto simp: con_asyncSendPositiveResponse_def Let_def bind_eq_Some_conv split: option.splits)
  from a(1) n have l: "later c a" by (auto simp: later_def con_call_def con_setResponse_def bind_eq_Some_conv split: option.splits)
  then have m: "con_nestedRequest a = None" by (simp add: later_def)
  let ?a = "a\<lparr>con_numPendingMessageProcessedCallbacks := con_numPendingMessageProcessedCallbacks a - 1\<rparr>"
  from a(2) have "later a d"
    using later_sendResponse [of E a _ d] later_notice [of ?a E True d] m
    by (auto simp: Let_def later_def split: if_splits)
  then show ?thesis using l later_trans by blast
qed

lemma later_negative:
  assumes x: "con_asyncSendNegativeResponse E code job c = Some d" and n: "con_nestedRequest c = None"
  shows "later c d"
proof -
  from x n obtain m backup m' where m: "con_responseMessage c = Some m" "con_negativeMessage code c m = Some (backup, m')"
    by (auto simp: con_asyncSendNegativeResponse_def bind_eq_Some_conv)
  define b where "b = (con_setResponse m' c)\<lparr>con_negativeResponseTempBuffer := backup, con_sender := job\<rparr>"
  define a where "a = (if code \<noteq> ISO_RESPONSE_PENDING then con_call (SessionResponseSent code) b else b)"
  have l: "later c a" using n by (auto simp: later_def con_call_def con_setResponse_def a_def b_def)
  then have k: "con_nestedRequest a = None" by (simp add: later_def)
  let ?a = "a\<lparr>con_numPendingMessageProcessedCallbacks := con_numPendingMessageProcessedCallbacks a - 1\<rparr>"
  have d: "(if \<not> (isFunctionalAddress (con_targetAddress a) \<and> suppressed_code code)
     then (if con_responsePendingIsBeingSent a then Some a
           else map_option snd (con_sendResponse E (if code = ISO_RESPONSE_PENDING then con_restartPendingTimeout a else a)))
     else (case con_sender ?a of Some job \<Rightarrow> con_responseSent E job True (?a\<lparr>con_sender := None\<rparr>) | None \<Rightarrow> Some ?a)) = Some d"
    using x unfolding con_asyncSendNegativeResponse_def Let_def a_def b_def by (simp only: n m option.case bind.bind_lunit prod.case)
  have "later a d"
  proof (cases "isFunctionalAddress (con_targetAddress a) \<and> suppressed_code code")
    case True
    then show ?thesis using d later_notice [of ?a E True d] k by (simp add: later_def)
  next
    case False
    let ?r = "if code = ISO_RESPONSE_PENDING then con_restartPendingTimeout a else a"
    have "later a ?r" "con_nestedRequest ?r = None" using k by (simp_all add: later_def con_restartPendingTimeout_def)
    then show ?thesis using d False later_sendResponse [of E ?r _ d] later_trans [of a ?r d] k
      by (cases "con_responsePendingIsBeingSent a") (auto simp: later_def)
  qed
  then show ?thesis using l later_trans by blast
qed

lemma later_rest:
  assumes x: "con_processed_rest E k ok c = Some d" and n: "con_nestedRequest c = None"
  shows "later c d"
proof -
  from x obtain a where a:
    "(case con_sender c of Some job \<Rightarrow> if k \<noteq> PendingMessage then con_responseSent E job ok (c\<lparr>con_sender := None\<rparr>)
        else map_option snd (con_sendResponse E c) | None \<Rightarrow> Some c) = Some a"
    "(if con_numPendingMessageProcessedCallbacks a = 0
      then (if con_connectionTerminationIsPending a then con_terminate a
            else if con_responsePendingIsPending a then con_trySendPending E (a\<lparr>con_responsePendingIsPending := False\<rparr>) else Some a)
      else Some a) = Some d"
    by (auto simp: con_processed_rest_def bind_eq_Some_conv)
  have l: "later c a"
    using a(1) n later_responseSent [of E _ ok "c\<lparr>con_sender := None\<rparr>" a] later_sendResponse [of E c _ a]
    by (auto simp: later_def split: option.splits if_splits)
  then have m: "con_nestedRequest a = None" by (simp add: later_def)
  have "later a d"
    using a(2) m later_terminate [of a d] later_trySendPending [of E "a\<lparr>con_responsePendingIsPending := False\<rparr>" d]
    by (auto simp: later_def split: if_splits)
  then show ?thesis using l later_trans by blast
qed

lemma later_execute:
  assumes x: "con_execute E k c = Some d" and n: "con_nestedRequest c = None"
  shows "later c d"
proof -
  let ?c = "c\<lparr>con_posted := removeAll k (con_posted c)\<rparr>"
  have n': "con_nestedRequest ?c = None" using n by simp
  have "later ?c d"
  proof (cases k)
    case TransportMessageProcessed
    define a where "a = ?c\<lparr>con_numPendingMessageProcessedCallbacks := con_numPendingMessageProcessedCallbacks c - 1\<rparr>"
    define b where "b = (if fst (con_processedArgs c) = PendingMessage then a\<lparr>con_responsePendingIsBeingSent := False\<rparr> else a)"
    have b: "later ?c b" "con_nestedRequest b = None" using n by (simp_all add: a_def b_def later_def)
    have "con_processed_rest E (fst (con_processedArgs c)) (snd (con_processedArgs c)) b = Some d"
      using x TransportMessageProcessed n by (simp add: con_execute_def con_asyncTransportMessageProcessed_def Let_def a_def b_def split: if_splits)
    from later_rest [OF this b(2)] b(1) show ?thesis using later_trans by blast
  next
    case SendPositiveResponse
    then show ?thesis using x later_positive [OF _ n', of E _ _ d] by (simp add: con_execute_def Let_def)
  next
    case SendNegativeResponse
    then show ?thesis using x later_negative [OF _ n', of E _ _ d] by (simp add: con_execute_def Let_def)
  next
    case TriggerNextNestedRequest
    then show ?thesis using x n by (simp add: con_execute_def Let_def con_triggerNextNestedRequest.simps)
  qed
  then show ?thesis by (simp add: later_def)
qed

lemma later_expired:
  assumes x: "con_expiredResponsePending E c = Some d" and n: "con_nestedRequest c = None"
  shows "later c d"
proof -
  let ?c = "c\<lparr>con_responsePendingIsPending := (con_numPendingMessageProcessedCallbacks c \<noteq> 0)\<rparr>"
  from x obtain a where a: "(if \<not> con_responsePendingIsPending ?c then con_trySendPending E ?c else Some ?c) = Some a"
    "d = con_restartPendingTimeout a"
    by (auto simp: con_expiredResponsePending_def Let_def bind_eq_Some_conv)
  have "later ?c a" using a(1) n later_trySendPending [of E ?c a] by (auto simp: later_def split: if_splits)
  then show ?thesis unfolding a(2) by (simp add: later_def con_restartPendingTimeout_def)
qed


text \<open>What happens to an answered connection: the closures, the transport layer and the timers.\<close>

lemma later_step:
  assumes x: "con_step E lab (True, c) = Some (r, d)" and e: "con_enabled lab (True, c)" and n: "con_nestedRequest c = None"
  shows "later c d"
proof (cases lab)
  case (Runs k)
  then show ?thesis using x n later_execute by auto
next
  case (Processed ok)
  then show ?thesis using x n by (auto simp: con_transportMessageProcessed_def con_post_def later_def split: if_splits)
next
  case ResponsePendingExpires
  then show ?thesis using x n later_expired [of E "c\<lparr>con_responsePendingTimeout := False\<rparr>" d] by (auto simp: later_def)
next
  case GlobalExpires
  then show ?thesis using x n later_terminate [of "c\<lparr>con_globalPendingTimeout := False, con_responsePendingTimeout := False\<rparr>" d]
    by (auto simp: con_expiredGlobal_def later_def)
next
  case Terminates
  then show ?thesis using x n later_terminate by auto
qed (use e in auto)

end
