(* ===== verification/UdsDispatcherRuns.thy ===== *)
theory UdsDispatcherRuns imports UdsDispatcherCorrect "HOL-Library.Multiset" begin

text \<open>
  The runs of the dispatcher until its shutdown, and the account of the requests: each that was
  taken into the queue waits there, has an open connection, or has been given back.
\<close>

section \<open>Runs of the dispatcher\<close>

text \<open>
  What happens to the dispatcher until it is shut down: requests come in, the context runs the queue,
  and the connections and the session manager go on. The numbers of the requests that were taken
  into the queue are kept beside.
\<close>

datatype dd_label =
    SendRequest nat transport_message "dd_listener option"
  | ResumeRequest nat transport_message "dd_listener option"
  | TriggerQueue
  | RunQueue
  | StepConnection nat con_label
  | StepSession session_label

fun dd_step :: "dd_config \<Rightarrow> dd_env \<Rightarrow> bool \<Rightarrow> dd_label \<Rightarrow> dispatcher \<times> nat list \<Rightarrow> (dispatcher \<times> nat list) option" where
  "dd_step cfg E prog (SendRequest i m l) (w, acc) =
     (let (result, w) = dd_send cfg i m l w in Some (w, if result = TP_OK then acc @ [i] else acc))"
| "dd_step cfg E prog (ResumeRequest i m l) (w, acc) =
     (let (result, _, w) = dd_resume cfg i m l w in Some (w, if result = TP_OK then acc @ [i] else acc))"
| "dd_step cfg E prog TriggerQueue (w, acc) = Some (dd_trigger w, acc)"
| "dd_step cfg E prog RunQueue (w, acc) =
     (if dd_posted w then map_option (\<lambda>w. (w, acc)) (processQueue cfg E (w\<lparr>dd_posted := False\<rparr>)) else Some (w, acc))"
| "dd_step cfg E prog (StepConnection k lab) (w, acc) = map_option (\<lambda>w. (w, acc)) (dd_connection E k lab w)"
| "dd_step cfg E prog (StepSession lab) (w, acc) = Some (dd_session (sc_step prog lab) w, acc)"

fun dd_run :: "dd_config \<Rightarrow> dd_env \<Rightarrow> bool \<Rightarrow> dd_label list \<Rightarrow> dispatcher \<times> nat list \<Rightarrow> (dispatcher \<times> nat list) option" where
  "dd_run cfg E prog [] s = Some s"
| "dd_run cfg E prog (lab # labs) s = do { s \<leftarrow> dd_step cfg E prog lab s; dd_run cfg E prog labs s }"

text \<open>A request of a listener outside; what is copied fits into the messages the provider gives.\<close>

definition good_message :: "dd_config \<Rightarrow> transport_message \<Rightarrow> bool" where
  "good_message cfg m \<longleftrightarrow> tm_wf m \<and> 6 \<le> length (tm_buffer m) \<and> (cfg_copyFunctionalRequests cfg \<longrightarrow> tm_payloadLength m \<le> DIAG_PAYLOAD_SIZE)"

fun good_label :: "dd_config \<Rightarrow> dd_label \<Rightarrow> bool" where
  "good_label cfg (SendRequest i m l) \<longleftrightarrow> good_message cfg m \<and> l \<noteq> Some DispatcherListener"
| "good_label cfg (ResumeRequest i m l) \<longleftrightarrow> good_message cfg m \<and> l \<noteq> Some DispatcherListener"
| "good_label cfg _ \<longleftrightarrow> True"

definition good_env :: "dd_env \<Rightarrow> bool" where
  "good_env E \<longleftrightarrow> tree_shape (de_store E) (de_root E) \<and> env_shape (de_job E) \<and> (\<forall>j. ce_terminates (de_con E) j)
     \<and> (\<forall>es p. de_provide E es = Some p \<longrightarrow> tm_wf p \<and> DIAG_PAYLOAD_SIZE \<le> length (tm_buffer p))"

section \<open>The account of the requests\<close>

fun told_of :: "dd_event \<Rightarrow> nat list" where
  "told_of (MessageProcessed i l ok) = [i]"
| "told_of _ = []"

fun taken_of :: "dd_event \<Rightarrow> nat list" where
  "taken_of (CopyTaken i) = [i]"
| "taken_of _ = []"

fun released_of :: "dd_event \<Rightarrow> nat list" where
  "released_of (CopyReleased i) = [i]"
| "released_of _ = []"

definition event_ids :: "(dd_event \<Rightarrow> nat list) \<Rightarrow> dispatcher \<Rightarrow> nat multiset" where
  "event_ids f w = mset (concat (map f (dd_events w)))"

text \<open>The requests of open connections: those of the senders, and copies\<close>

definition open_ids :: "bool \<Rightarrow> dispatcher \<Rightarrow> nat multiset" where
  "open_ids copy w = image_mset slot_id {# s \<in># mset (dd_slots w). con_isOpen (slot_con s) \<and> (slot_listener s = DispatcherListener \<longleftrightarrow> copy) #}"

definition accounted :: "dispatcher \<Rightarrow> nat multiset" where
  "accounted w = open_ids False w + event_ids told_of w"

definition good_job :: "dd_config \<Rightarrow> transport_job \<Rightarrow> bool" where
  "good_job cfg j \<longleftrightarrow> good_message cfg (job_message j) \<and> job_listener j \<noteq> DispatcherListener"

definition dd_part :: "dd_config \<Rightarrow> dispatcher \<Rightarrow> bool" where
  "dd_part cfg w \<longleftrightarrow> (\<forall>s \<in> set (dd_slots w). con_isOpen (slot_con s) \<longrightarrow> answered (slot_con s))
     \<and> 1 < length (tm_buffer (dd_busyMessage w)) \<and> dd_open w \<le> cfg_poolSize cfg \<and> \<not> dd_connectionShutdownRequested w"

definition dd_core :: "dd_config \<Rightarrow> dispatcher \<Rightarrow> bool" where
  "dd_core cfg w \<longleftrightarrow> dd_part cfg w \<and> event_ids taken_of w = open_ids True w + event_ids released_of w"

definition dd_inv :: "dd_config \<Rightarrow> dispatcher \<times> nat list \<Rightarrow> bool" where
  "dd_inv cfg s \<longleftrightarrow> (let (w, acc) = s in dd_core cfg w \<and> (\<forall>j \<in> set (dd_queue w). good_job cfg j)
     \<and> length (dd_queue w) \<le> cfg_queueSize cfg \<and> (dd_queue w \<noteq> [] \<longrightarrow> dd_posted w)
     \<and> mset acc = mset (map job_id (dd_queue w)) + accounted w)"

lemmas account_defs = accounted_def open_ids_def event_ids_def

lemma event_ids_event [simp]: "event_ids f (dd_event x w) = event_ids f w + mset (f x)"
  by (simp add: event_ids_def dd_event_def)

lemma event_fields [simp]:
  "dd_queue (dd_event x w) = dd_queue w" "dd_slots (dd_event x w) = dd_slots w" "dd_posted (dd_event x w) = dd_posted w"
  "dd_busyMessage (dd_event x w) = dd_busyMessage w" "dd_connectionShutdownRequested (dd_event x w) = dd_connectionShutdownRequested w"
  "dd_open (dd_event x w) = dd_open w" "open_ids b (dd_event x w) = open_ids b w"
  by (simp_all add: dd_event_def dd_open_def open_ids_def)

lemma session_fields [simp]:
  "dd_queue (dd_session f w) = dd_queue w" "dd_slots (dd_session f w) = dd_slots w" "dd_posted (dd_session f w) = dd_posted w"
  "dd_busyMessage (dd_session f w) = dd_busyMessage w" "dd_connectionShutdownRequested (dd_session f w) = dd_connectionShutdownRequested w"
  "dd_open (dd_session f w) = dd_open w" "open_ids b (dd_session f w) = open_ids b w" "event_ids g (dd_session f w) = event_ids g w"
  "accounted (dd_session f w) = accounted w"
  by (simp_all add: dd_session_def dd_open_def account_defs)

definition tell_ids :: "nat \<Rightarrow> bool \<Rightarrow> nat multiset" where
  "tell_ids i b = (if b then {#i#} else {#})"

lemma processed_ids:
  "event_ids told_of (dd_processed i l ok w) = event_ids told_of w + tell_ids i (l \<noteq> DispatcherListener)"
  "event_ids released_of (dd_processed i l ok w) = event_ids released_of w + tell_ids i (l = DispatcherListener)"
  "event_ids taken_of (dd_processed i l ok w) = event_ids taken_of w"
  by (simp_all add: dd_processed_def tell_ids_def split: dd_listener.split)

lemma processed_fields [simp]:
  "dd_queue (dd_processed i l ok w) = dd_queue w" "dd_slots (dd_processed i l ok w) = dd_slots w" "dd_posted (dd_processed i l ok w) = dd_posted w"
  "dd_busyMessage (dd_processed i l ok w) = dd_busyMessage w"
  "dd_connectionShutdownRequested (dd_processed i l ok w) = dd_connectionShutdownRequested w"
  "dd_open (dd_processed i l ok w) = dd_open w" "open_ids b (dd_processed i l ok w) = open_ids b w"
  by (simp_all add: dd_processed_def)

section \<open>The queue\<close>

text \<open>A request that is being processed, whose listener is still to be told, and one that is settled\<close>

definition dd_due :: "dd_config \<Rightarrow> nat \<Rightarrow> dd_listener \<Rightarrow> dispatcher \<Rightarrow> dispatcher \<Rightarrow> bool" where
  "dd_due cfg i l w0 w \<longleftrightarrow> dd_part cfg w \<and> dd_queue w = dd_queue w0 \<and> dd_posted w = dd_posted w0
     \<and> accounted w + tell_ids i (l \<noteq> DispatcherListener) = accounted w0 + {#i#}
     \<and> event_ids taken_of w = open_ids True w + event_ids released_of w + tell_ids i (l = DispatcherListener)"

definition dd_settled :: "dd_config \<Rightarrow> nat \<Rightarrow> dispatcher \<Rightarrow> dispatcher \<Rightarrow> bool" where
  "dd_settled cfg i w0 w \<longleftrightarrow> dd_core cfg w \<and> dd_queue w = dd_queue w0 \<and> dd_posted w = dd_posted w0
     \<and> accounted w = accounted w0 + {#i#}"

lemma part_processed [simp]: "dd_part cfg (dd_processed i l ok w) = dd_part cfg w" "dd_part cfg (dd_event x w) = dd_part cfg w"
  by (simp_all add: dd_part_def)

lemma due_processed: "dd_due cfg i l w0 w \<Longrightarrow> dd_settled cfg i w0 (dd_processed i l ok w)"
  by (auto simp: dd_due_def dd_settled_def dd_core_def accounted_def processed_ids ac_simps)

lemma due_start: "dd_core cfg w \<Longrightarrow> l \<noteq> DispatcherListener \<Longrightarrow> dd_due cfg i l w w"
  by (simp add: dd_due_def dd_core_def tell_ids_def)

lemma copy_request:
  assumes m: "tm_wf m" "tm_payloadLength m \<le> DIAG_PAYLOAD_SIZE"
    and p: "\<And>p. provided = Some p \<Longrightarrow> tm_wf p \<and> DIAG_PAYLOAD_SIZE \<le> length (tm_buffer p)"
  shows "\<exists>c. copyFunctionalRequest m provided = Some c \<and> (\<forall>q. c = Some q \<longrightarrow> tm_wf q \<and> 6 \<le> length (tm_buffer q))"
proof (cases provided)
  case None
  then show ?thesis by (simp add: copyFunctionalRequest_def)
next
  case (Some p)
  let ?p = "(resetValidBytes p)\<lparr>tm_sourceAddress := tm_sourceAddress m, tm_targetAddress := tm_targetAddress m, tm_payloadLength := tm_payloadLength m\<rparr>"
  have w: "tm_wf p" "DIAG_PAYLOAD_SIZE \<le> length (tm_buffer p)" using p Some by auto
  then have q: "tm_wf ?p" "tm_validBytes ?p + tm_payloadLength m \<le> length (tm_buffer ?p)" "tm_payloadLength m \<le> length (tm_buffer m)"
    using m by (auto simp: tm_wf_def resetValidBytes_def)
  obtain c where c: "tm_append (tm_buffer m) (tm_payloadLength m) ?p = Some (TP_MSG_OK, c)" "tm_wf c" "length (tm_buffer c) = length (tm_buffer ?p)"
    by (rule tm_append_fits [OF q])
  have "getMaxPayloadLength ((resetValidBytes p)\<lparr>tm_sourceAddress := tm_sourceAddress m, tm_targetAddress := tm_targetAddress m\<rparr>) = length (tm_buffer p)"
    using getMaxPayloadLength_wf [OF w(1)] by (simp add: getMaxPayloadLength_def resetValidBytes_def)
  then have "copyFunctionalRequest m provided = Some (Some c)"
    using c(1) q(2) Some by (simp add: copyFunctionalRequest_def Let_def setPayloadLength_def resetValidBytes_def)
  then show ?thesis using c(2,3) w(2) by (simp add: resetValidBytes_def DIAG_PAYLOAD_SIZE_def)
qed

lemma precheck:
  assumes j: "good_job cfg j" and w: "dd_core cfg w" and E: "good_env E"
  shows "\<exists>r j' w'. precheckRequest cfg E j w = Some (r, j', w') \<and> job_id j' = job_id j
    \<and> tm_wf (job_message j') \<and> 6 \<le> length (tm_buffer (job_message j'))
    \<and> (if r = PrecheckAbort then dd_settled cfg (job_id j) w w' else dd_due cfg (job_id j) (job_listener j') w w')"
proof -
  define k where "k = (if tm_targetAddress (job_message j) = INVALID_ADDRESS16
            then j\<lparr>job_message := (job_message j)\<lparr>tm_targetAddress := cfg_diagAddress cfg\<rparr>\<rparr> else j)"
  have eq: "precheckRequest cfg E j w =
    (if \<not> cfg_acceptAllRequests cfg \<and> \<not> isFromTester (job_message k)
     then Some (PrecheckAbort, k, dd_processed (job_id k) (job_listener k) False w)
     else if cfg_copyFunctionalRequests cfg \<and> isFunctionalAddress (tm_targetAddress (job_message k))
     then do {
       copy \<leftarrow> copyFunctionalRequest (job_message k) (de_provide E (dd_events w));
       (case copy of
          None \<Rightarrow> Some (PrecheckBusy, k, w)
        | Some p \<Rightarrow> Some (PrecheckReady, k\<lparr>job_message := p, job_listener := DispatcherListener\<rparr>,
                       dd_processed (job_id k) (job_listener k) True (dd_event (CopyTaken (job_id k)) w))) }
     else Some (PrecheckReady, k, w))"
    by (simp only: precheckRequest_def Let_def k_def)
  have k: "tm_wf (job_message k)" "6 \<le> length (tm_buffer (job_message k))" "job_listener k = job_listener j" "job_id k = job_id j"
    "cfg_copyFunctionalRequests cfg \<Longrightarrow> tm_payloadLength (job_message k) \<le> DIAG_PAYLOAD_SIZE" "job_listener j \<noteq> DispatcherListener"
    using j by (auto simp: k_def good_job_def good_message_def tm_wf_def)
  have d: "dd_due cfg (job_id j) (job_listener j) w w" by (rule due_start [OF w k(6)])
  consider (abort) "\<not> cfg_acceptAllRequests cfg \<and> \<not> isFromTester (job_message k)"
    | (copy) "\<not> (\<not> cfg_acceptAllRequests cfg \<and> \<not> isFromTester (job_message k))"
      "cfg_copyFunctionalRequests cfg" "isFunctionalAddress (tm_targetAddress (job_message k))"
    | (ready) "\<not> (\<not> cfg_acceptAllRequests cfg \<and> \<not> isFromTester (job_message k))"
      "\<not> (cfg_copyFunctionalRequests cfg \<and> isFunctionalAddress (tm_targetAddress (job_message k)))" by blast
  then show ?thesis
  proof cases
    case abort
    then have "precheckRequest cfg E j w = Some (PrecheckAbort, k, dd_processed (job_id j) (job_listener j) False w)"
      using k(3,4) by (simp add: eq)
    then show ?thesis using k(1,2,4) due_processed [OF d] by auto
  next
    case copy
    have "\<And>p. de_provide E (dd_events w) = Some p \<Longrightarrow> tm_wf p \<and> DIAG_PAYLOAD_SIZE \<le> length (tm_buffer p)"
      using E by (simp add: good_env_def)
    from copy_request [OF k(1) k(5) [OF copy(2)] this] obtain c where
      c: "copyFunctionalRequest (job_message k) (de_provide E (dd_events w)) = Some c" "\<And>q. c = Some q \<Longrightarrow> tm_wf q \<and> 6 \<le> length (tm_buffer q)" by blast
    show ?thesis
    proof (cases c)
      case None
      then have "precheckRequest cfg E j w = Some (PrecheckBusy, k, w)"
        using copy c(1) by (auto simp: eq)
      then show ?thesis using k(1-4) d by auto
    next
      case (Some p)
      let ?w = "dd_processed (job_id j) (job_listener j) True (dd_event (CopyTaken (job_id j)) w)"
      have "precheckRequest cfg E j w = Some (PrecheckReady, k\<lparr>job_message := p, job_listener := DispatcherListener\<rparr>, ?w)"
        using copy c(1) Some k(3,4) by (auto simp: eq)
      moreover have "dd_due cfg (job_id j) DispatcherListener w ?w"
        using d k(6) by (auto simp: dd_due_def accounted_def processed_ids tell_ids_def ac_simps)
      ultimately show ?thesis using c(2) [OF Some] k(4) by auto
    qed
  next
    case ready
    then have "precheckRequest cfg E j w = Some (PrecheckReady, k, w)"
      by (auto simp: eq)
    then show ?thesis using k(1-4) d by auto
  qed
qed

lemma busy_sent:
  assumes "dd_due cfg i l w0 w" "6 \<le> length (tm_buffer m)"
  shows "\<exists>w'. sendBusyResponse cfg E m w = Some w' \<and> dd_due cfg i l w0 w'"
proof -
  let ?b = "(dd_busyMessage w)\<lparr>tm_sourceAddress := cfg_diagAddress cfg, tm_targetAddress := tm_sourceAddress m,
               tm_buffer := (tm_buffer (dd_busyMessage w))[1 := tm_buffer m ! 0]\<rparr>"
  have b: "tm_buffer m \<noteq> [] \<and> 1 < length (tm_buffer (dd_busyMessage w))" using assms by (auto simp: dd_due_def dd_part_def)
  have "dd_due cfg i l w0 (w\<lparr>dd_busyMessage := ?b\<rparr>)"
    using assms(1) by (simp add: dd_due_def dd_part_def dd_open_def account_defs)
  then have "dd_due cfg i l w0 (dd_event (BusySent ?b x) (w\<lparr>dd_busyMessage := ?b\<rparr>))" for x
    by (simp add: dd_due_def accounted_def)
  then show ?thesis using b by (simp add: sendBusyResponse_def Let_def)
qed

definition dd_slot_ids :: "bool \<Rightarrow> dd_slot \<Rightarrow> nat multiset" where
  "dd_slot_ids copy s = tell_ids (slot_id s) (con_isOpen (slot_con s) \<and> (slot_listener s = DispatcherListener \<longleftrightarrow> copy))"

lemma open_append:
  "open_ids b (w\<lparr>dd_state := st, dd_slots := dd_slots w @ [s]\<rparr>) = open_ids b w + dd_slot_ids b s"
  "dd_open (w\<lparr>dd_state := st, dd_slots := dd_slots w @ [s]\<rparr>) = dd_open w + of_bool (con_isOpen (slot_con s))"
  by (simp_all add: open_ids_def dd_open_def dd_slot_ids_def tell_ids_def)

lemma dispatched:
  assumes w: "dd_due cfg (job_id j) (job_listener j) w0 w" and m: "tm_wf (job_message j)" "6 \<le> length (tm_buffer (job_message j))"
    and E: "good_env E"
  shows "\<exists>b w'. dd_dispatch cfg E j w = Some (b, w')
    \<and> (if b then dd_due cfg (job_id j) (job_listener j) w0 w' else dd_settled cfg (job_id j) w0 w')"
proof (cases "dd_open w \<ge> cfg_poolSize cfg")
  case True
  then have "dd_dispatch cfg E j w = Some (True, w)" by (simp add: dd_dispatch_def)
  then show ?thesis using w by (intro exI [of _ True] exI [of _ w]) simp
next
  case False
  have e: "tree_shape (de_store E) (de_root E)" "env_shape (de_job E)" using E by (simp_all add: good_env_def)
  from dispatch_total [OF m e] obtain st where
    st: "dispatchIncomingRequest (de_job E) (de_store E) (de_root E) (cfg_diagAddress cfg) (cfg_activateOutgoingPending cfg)
      True (job_message j) (dd_state w) = Some st" "answered (ds_con st) \<or> closed (ds_con st)" by blast
  define s where "s = \<lparr>slot_id = job_id j, slot_listener = job_listener j, slot_con = ds_con st\<rparr>"
  define v where "v = w\<lparr>dd_state := st, dd_slots := dd_slots w @ [s]\<rparr>"
  have d: "dd_dispatch cfg E j w = Some (False, if con_isOpen (ds_con st) then v else dd_processed (job_id j) (job_listener j) True v)"
    using False st(1) by (simp add: dd_dispatch_def Let_def v_def s_def)
  have a: "con_isOpen (ds_con st) \<Longrightarrow> answered (ds_con st)" using st(2) by (auto simp: closed_def)
  have o: "open_ids b v = open_ids b w + dd_slot_ids b s" for b by (simp add: v_def open_append)
  have p: "dd_part cfg v" "dd_queue v = dd_queue w" "dd_posted v = dd_posted w" "event_ids f v = event_ids f w" for f
    using w False a open_append(2) [of w s st] by (auto simp: dd_due_def dd_part_def v_def s_def event_ids_def)
  show ?thesis
  proof (cases "con_isOpen (ds_con st)")
    case True
    then have "dd_slot_ids b s = tell_ids (job_id j) (job_listener j = DispatcherListener \<longleftrightarrow> b)" for b by (simp add: dd_slot_ids_def s_def)
    then have "dd_settled cfg (job_id j) w0 v"
      using w p o by (simp add: dd_due_def dd_settled_def dd_core_def accounted_def ac_simps)
    then show ?thesis using d True by (intro exI [of _ False] exI [of _ v]) simp
  next
    case False
    then have "dd_slot_ids b s = {#}" for b by (simp add: dd_slot_ids_def s_def tell_ids_def)
    then have "dd_due cfg (job_id j) (job_listener j) w0 v" using w p o by (simp add: dd_due_def accounted_def)
    from due_processed [OF this, of True] show ?thesis using d False by (intro exI [of _ False] exI) auto
  qed
qed

lemma processed_job:
  assumes j: "good_job cfg j" and w: "dd_core cfg w" and E: "good_env E"
  shows "\<exists>w'. dd_process cfg E j w = Some w' \<and> dd_settled cfg (job_id j) w w'"
proof -
  from precheck [OF assms] obtain r k v where k: "precheckRequest cfg E j w = Some (r, k, v)" "job_id k = job_id j"
    "tm_wf (job_message k)" "6 \<le> length (tm_buffer (job_message k))"
    "if r = PrecheckAbort then dd_settled cfg (job_id j) w v else dd_due cfg (job_id k) (job_listener k) w v" by auto
  have busy: "\<exists>w'. do { w \<leftarrow> sendBusyResponse cfg E (job_message k) u; Some (dd_processed (job_id k) (job_listener k) True w) } = Some w'
    \<and> dd_settled cfg (job_id j) w w'" if "dd_due cfg (job_id k) (job_listener k) w u" for u
    using busy_sent [OF that k(4), of E] due_processed [of cfg "job_id k" "job_listener k" w _ True] k(2) by auto
  have n: "\<not> dd_connectionShutdownRequested v"
    using k(5) by (auto simp: dd_settled_def dd_core_def dd_due_def dd_part_def split: if_splits)
  show ?thesis
  proof (cases r)
    case PrecheckAbort
    then show ?thesis using k by (simp add: dd_process_def)
  next
    case PrecheckBusy
    then show ?thesis using k busy [of v] by (simp add: dd_process_def)
  next
    case PrecheckReady
    then have "dd_due cfg (job_id k) (job_listener k) w v" using k(5) by simp
    from dispatched [OF this k(3,4) E] obtain b u where
      u: "dd_dispatch cfg E k v = Some (b, u)" "if b then dd_due cfg (job_id k) (job_listener k) w u else dd_settled cfg (job_id k) w u" by blast
    then show ?thesis using PrecheckReady k n busy [of u] by (cases b) (simp_all add: dd_process_def)
  qed
qed

lemma core_queue [simp]:
  "dd_core cfg (w\<lparr>dd_queue := js\<rparr>) = dd_core cfg w" "accounted (w\<lparr>dd_queue := js\<rparr>) = accounted w"
  "dd_core cfg (w\<lparr>dd_posted := b\<rparr>) = dd_core cfg w" "accounted (w\<lparr>dd_posted := b\<rparr>) = accounted w"
  by (simp_all add: dd_core_def dd_part_def dd_open_def account_defs)

lemma processed_jobs:
  assumes "\<forall>j \<in> set js. good_job cfg j" "dd_core cfg w" "good_env E"
  shows "\<exists>w'. dd_process_all cfg E js w = Some w' \<and> dd_core cfg w' \<and> dd_queue w' = (if js = [] then dd_queue w else [])
    \<and> dd_posted w' = dd_posted w \<and> accounted w' = accounted w + mset (map job_id js)"
  using assms(1,2)
proof (induction js arbitrary: w)
  case (Cons j js)
  have "good_job cfg j" "dd_core cfg (w\<lparr>dd_queue := js\<rparr>)" using Cons.prems by simp_all
  from processed_job [OF this assms(3)] obtain v where
    v: "dd_process cfg E j (w\<lparr>dd_queue := js\<rparr>) = Some v" "dd_settled cfg (job_id j) (w\<lparr>dd_queue := js\<rparr>) v" by blast
  have "dd_core cfg v" "\<forall>j \<in> set js. good_job cfg j" using v(2) Cons.prems by (simp_all add: dd_settled_def)
  from Cons.IH [OF this(2,1)] v show ?case by (cases "js = []") (auto simp: dd_settled_def)
qed simp

lemma processed_queue:
  assumes "\<forall>j \<in> set (dd_queue w). good_job cfg j" "dd_core cfg w" "good_env E"
  shows "\<exists>w'. processQueue cfg E w = Some w' \<and> dd_core cfg w' \<and> dd_queue w' = [] \<and> dd_posted w' = dd_posted w
    \<and> accounted w' = accounted w + mset (map job_id (dd_queue w))"
  using processed_jobs [OF assms] by (fastforce simp: processQueue_def split: if_splits)

section \<open>Steps of connections\<close>

lemma told_fields [simp]:
  "dd_queue (dd_told E s x w) = dd_queue w" "dd_slots (dd_told E s x w) = dd_slots w" "dd_posted (dd_told E s x w) = dd_posted w"
  "dd_busyMessage (dd_told E s x w) = dd_busyMessage w" "dd_connectionShutdownRequested (dd_told E s x w) = dd_connectionShutdownRequested w"
  "dd_open (dd_told E s x w) = dd_open w" "open_ids b (dd_told E s x w) = open_ids b w"
  by (simp_all add: dd_told_def split: con_call.split option.split)

lemma told_ids:
  "event_ids told_of (dd_told E s x w) = event_ids told_of w + tell_ids (slot_id s) (is_request_end x \<and> slot_listener s \<noteq> DispatcherListener)"
  "event_ids released_of (dd_told E s x w) = event_ids released_of w + tell_ids (slot_id s) (is_request_end x \<and> slot_listener s = DispatcherListener)"
  "event_ids taken_of (dd_told E s x w) = event_ids taken_of w"
  by (cases x; simp add: dd_told_def processed_ids tell_ids_def split: option.split)+

lemma fold_told_fields [simp]:
  "dd_queue (fold (dd_told E s) xs w) = dd_queue w" "dd_slots (fold (dd_told E s) xs w) = dd_slots w" "dd_posted (fold (dd_told E s) xs w) = dd_posted w"
  "dd_busyMessage (fold (dd_told E s) xs w) = dd_busyMessage w"
  "dd_connectionShutdownRequested (fold (dd_told E s) xs w) = dd_connectionShutdownRequested w"
  "dd_open (fold (dd_told E s) xs w) = dd_open w" "open_ids b (fold (dd_told E s) xs w) = open_ids b w"
  "event_ids taken_of (fold (dd_told E s) xs w) = event_ids taken_of w"
  by (induction xs arbitrary: w) (simp_all add: told_ids)

lemma fold_told_none:
  assumes "filter is_request_end xs = []"
  shows "event_ids told_of (fold (dd_told E s) xs w) = event_ids told_of w" "event_ids released_of (fold (dd_told E s) xs w) = event_ids released_of w"
  using assms by (induction xs arbitrary: w) (simp_all add: told_ids tell_ids_def split: if_splits)

lemma fold_told_once:
  assumes "length (filter is_request_end xs) = 1"
  shows "event_ids told_of (fold (dd_told E s) xs w) = event_ids told_of w + tell_ids (slot_id s) (slot_listener s \<noteq> DispatcherListener)"
    "event_ids released_of (fold (dd_told E s) xs w) = event_ids released_of w + tell_ids (slot_id s) (slot_listener s = DispatcherListener)"
  using assms
  by (induction xs arbitrary: w) (simp_all add: told_ids fold_told_none tell_ids_def split: if_splits)

lemma open_update:
  assumes "k < length (dd_slots w)" "con_isOpen (slot_con (dd_slots w ! k))"
  defines "s \<equiv> dd_slots w ! k"
  shows "\<exists>M n. open_ids b w = M + tell_ids (slot_id s) (slot_listener s = DispatcherListener \<longleftrightarrow> b) \<and> dd_open w = Suc n
    \<and> (\<forall>d. open_ids b (w\<lparr>dd_slots := (dd_slots w)[k := s\<lparr>slot_con := d\<rparr>]\<rparr>)
         = M + tell_ids (slot_id s) (con_isOpen d \<and> (slot_listener s = DispatcherListener \<longleftrightarrow> b))
       \<and> dd_open (w\<lparr>dd_slots := (dd_slots w)[k := s\<lparr>slot_con := d\<rparr>]\<rparr>) = n + of_bool (con_isOpen d))"
proof -
  define R where "R = mset (dd_slots w) - {#s#}"
  have m: "mset (dd_slots w) = add_mset s R" using assms(1) by (simp add: R_def s_def)
  have u: "mset ((dd_slots w)[k := x]) = add_mset x R" for x using assms(1) by (simp add: R_def s_def mset_update)
  have o: "dd_open v = size {# s \<in># mset (dd_slots v). con_isOpen (slot_con s) #}" for v
    by (simp add: dd_open_def flip: mset_filter)
  show ?thesis
    by (rule exI [of _ "image_mset slot_id {# s \<in># R. con_isOpen (slot_con s) \<and> (slot_listener s = DispatcherListener \<longleftrightarrow> b) #}"],
        rule exI [of _ "size {# s \<in># R. con_isOpen (slot_con s) #}"])
      (use assms(2) in \<open>simp add: o open_ids_def m u tell_ids_def flip: s_def\<close>)
qed

lemma connection_step:
  assumes w: "dd_core cfg w" and E: "good_env E"
  shows "\<exists>w'. dd_connection E k lab w = Some w' \<and> dd_core cfg w' \<and> dd_queue w' = dd_queue w \<and> dd_posted w' = dd_posted w
    \<and> accounted w' = accounted w"
proof (cases "k < length (dd_slots w) \<and> con_isOpen (slot_con (dd_slots w ! k)) \<and> con_enabled lab (True, slot_con (dd_slots w ! k))")
  case True
  define s where "s = dd_slots w ! k"
  define c where "c = slot_con s"
  have t: "k < length (dd_slots w)" "con_isOpen c" "con_enabled lab (True, c)" using True by (simp_all add: s_def c_def)
  then have "answered c" using w by (auto simp: dd_core_def dd_part_def s_def c_def)
  then obtain cl msg where i: "con_inv cl msg True c" by (auto simp: answered_def)
  have "\<And>j. ce_terminates (de_con E) j" using E by (simp add: good_env_def)
  from con_step_inv [OF i t(3) late_responded this] obtain r d cl' msg' where
    d: "con_step (de_con E) lab (True, c) = Some (r, d)" "con_inv cl' msg' r d" by blast
  have r: "r" by (rule step_answered [OF d(1) t(3)])
  have n: "con_nestedRequest c = None" using i by (simp add: con_inv_def con_core_def shape_def)
  from later_step [OF d(1) t(3) n] obtain xs where xs: "con_trace d = con_trace c @ xs" by (auto simp: later_def)
  have "request_ends c = 0" "request_ends d = of_bool (\<not> con_isOpen d)" using con_inv_seen(3) [OF i] con_inv_seen(3) [OF d(2)] t(2) by simp_all
  then have e: "length (filter is_request_end xs) = of_bool (\<not> con_isOpen d)" using xs by (simp add: request_ends_def)
  define u where "u = w\<lparr>dd_slots := (dd_slots w)[k := s\<lparr>slot_con := d\<rparr>]\<rparr>"
  define v where "v = fold (dd_told E s) xs u"
  have a: "answered d" using d(2) r by (auto simp: answered_def)
  have eq: "dd_connection E k lab w = Some (if con_isOpen d then v else checkConnectionShutdownProgress v)"
    using True d(1) xs by (simp add: dd_connection_def Let_def v_def u_def s_def c_def)
  have sd: "\<not> dd_connectionShutdownRequested v" using w by (simp add: v_def u_def dd_core_def dd_part_def)
  then have eq: "dd_connection E k lab w = Some v" using eq by (simp add: checkConnectionShutdownProgress_def)
  from open_update [of k w True] t(1,2) obtain M n where
    M: "open_ids True w = M + tell_ids (slot_id s) (slot_listener s = DispatcherListener)" "dd_open w = Suc n"
      "open_ids True u = M + tell_ids (slot_id s) (con_isOpen d \<and> slot_listener s = DispatcherListener)" "dd_open u = n + of_bool (con_isOpen d)"
    unfolding u_def s_def c_def by auto
  from open_update [of k w False] t(1,2) obtain N where
    N: "open_ids False w = N + tell_ids (slot_id s) (slot_listener s \<noteq> DispatcherListener)"
      "open_ids False u = N + tell_ids (slot_id s) (con_isOpen d \<and> slot_listener s \<noteq> DispatcherListener)"
    unfolding u_def s_def c_def by auto
  have f: "event_ids g u = event_ids g w" for g by (simp add: u_def event_ids_def)
  have b: "event_ids taken_of w = open_ids True w + event_ids released_of w" "dd_open w \<le> cfg_poolSize cfg" using w by (simp_all add: dd_core_def dd_part_def)
  have "\<forall>s \<in> set (dd_slots u). con_isOpen (slot_con s) \<longrightarrow> answered (slot_con s)"
    using w a by (auto simp: u_def dd_core_def dd_part_def dest!: set_mp [OF set_update_subset_insert])
  then have "dd_part cfg v" using w M(2,4) b(2) by (auto simp: v_def u_def dd_core_def dd_part_def)
  moreover have "event_ids taken_of v = open_ids True v + event_ids released_of v \<and> accounted v = accounted w"
  proof (cases "con_isOpen d")
    case True
    then have "filter is_request_end xs = []" using e by simp
    from fold_told_none [OF this, of E s u] show ?thesis using True M N b(1) f by (simp add: v_def accounted_def)
  next
    case False
    then have "length (filter is_request_end xs) = 1" using e by simp
    from fold_told_once [OF this, of E s u] show ?thesis using False M N b(1) f
      by (simp add: v_def accounted_def tell_ids_def)
  qed
  ultimately show ?thesis using eq by (simp add: dd_core_def v_def u_def)
next
  case False
  then have "dd_connection E k lab w = Some w" unfolding dd_connection_def by (rule if_not_P)
  then show ?thesis using w by simp
qed

section \<open>Runs\<close>

lemma enqueued:
  assumes "dd_inv cfg (w, acc)" "good_message cfg m" "l \<noteq> Some DispatcherListener" "enqueueMessage cfg i m l w = (e, v)"
  shows "dd_inv cfg (if e = TP_OK then v\<lparr>dd_posted := True\<rparr> else v, if e = TP_OK then acc @ [i] else acc)"
  using assms
  by (auto simp: enqueueMessage_def dd_inv_def Let_def good_job_def split: if_splits option.splits)

lemma step_keeps:
  assumes s: "dd_inv cfg s" and l: "good_label cfg lab" and E: "good_env E"
  shows "\<exists>s'. dd_step cfg E prog lab s = Some s' \<and> dd_inv cfg s'"
proof -
  obtain w acc where w: "s = (w, acc)" by (cases s)
  have i: "dd_inv cfg (w, acc)" using s w by simp
  show ?thesis
  proof (cases lab)
    case (SendRequest i' m li)
    obtain e v where q: "enqueueMessage cfg i' m li w = (e, v)" by fastforce
    have "dd_inv cfg (if e = TP_OK then v\<lparr>dd_posted := True\<rparr> else v, if e = TP_OK then acc @ [i'] else acc)"
      by (rule enqueued [OF i _ _ q]) (use SendRequest l in simp_all)
    then show ?thesis using q SendRequest i by (auto simp: w dd_send_def Let_def split: if_splits)
  next
    case (ResumeRequest i' m li)
    obtain e v where q: "enqueueMessage cfg i' (m\<lparr>tm_targetAddress := INVALID_ADDRESS16\<rparr>) li w = (e, v)" by fastforce
    have g: "good_message cfg (m\<lparr>tm_targetAddress := INVALID_ADDRESS16\<rparr>)"
      using ResumeRequest l by (simp add: good_message_def tm_wf_def)
    have "dd_inv cfg (if e = TP_OK then v\<lparr>dd_posted := True\<rparr> else v, if e = TP_OK then acc @ [i'] else acc)"
      by (rule enqueued [OF i g _ q]) (use ResumeRequest l in simp)
    then show ?thesis using q ResumeRequest i by (auto simp: w dd_resume_def Let_def split: if_splits)
  next
    case TriggerQueue
    then show ?thesis using i by (auto simp: w dd_trigger_def dd_inv_def)
  next
    case RunQueue
    show ?thesis
    proof (cases "dd_posted w")
      case True
      have "\<forall>j \<in> set (dd_queue (w\<lparr>dd_posted := False\<rparr>)). good_job cfg j" "dd_core cfg (w\<lparr>dd_posted := False\<rparr>)" using i by (simp_all add: dd_inv_def)
      from processed_queue [OF this E] obtain v where
        v: "processQueue cfg E (w\<lparr>dd_posted := False\<rparr>) = Some v" "dd_core cfg v" "dd_queue v = []" "accounted v = accounted w + mset (map job_id (dd_queue w))" by auto
      then show ?thesis using RunQueue True i by (auto simp: w dd_inv_def ac_simps)
    next
      case False
      then show ?thesis using RunQueue i by (simp add: w)
    qed
  next
    case (StepConnection k x)
    have "dd_core cfg w" using i by (simp add: dd_inv_def)
    from connection_step [OF this E, of k x] show ?thesis using StepConnection i by (auto simp: w dd_inv_def)
  next
    case (StepSession x)
    have "dd_core cfg (dd_session f w) = dd_core cfg w" for f by (simp add: dd_core_def dd_part_def)
    then show ?thesis using StepSession i by (simp add: w dd_inv_def)
  qed
qed

lemma runs_keep:
  assumes "dd_inv cfg s" "\<forall>lab \<in> set labs. good_label cfg lab" "good_env E"
  shows "\<exists>s'. dd_run cfg E prog labs s = Some s' \<and> dd_inv cfg s'"
  using assms(1,2)
proof (induction labs arbitrary: s)
  case (Cons lab labs)
  from step_keeps [OF Cons.prems(1) _ assms(3), of lab prog] Cons.prems(2) obtain t where
    t: "dd_step cfg E prog lab s = Some t" "dd_inv cfg t" by auto
  from Cons.IH [OF t(2)] Cons.prems(2) t(1) show ?case by simp
qed simp

lemma new_inv: "dd_inv cfg (dd_init (dd_new st), [])"
  by (simp add: dd_inv_def dd_core_def dd_part_def dd_init_def dd_setEnabled_def dd_new_def dd_open_def account_defs dd_session_def tm_new_def)

end
