(* ===== verification/UdsDispatcherProps.thy ===== *)
theory UdsDispatcherProps imports UdsDispatcherRuns UdsJobsProps begin

text \<open>
  The properties of the dispatcher: the account of all requests in every run, and what happens to
  them when the queue is full or the dispatcher is shut down.
\<close>

section \<open>The account of the requests\<close>

lemma no_open_ids:
  assumes "dd_open w = 0"
  shows "open_ids copy w = {#}"
  using assms by (auto simp: dd_open_def open_ids_def filter_empty_conv filter_mset_eq_conv simp flip: mset_filter)

text \<open>C20: In every run of the dispatcher from its start, requests, triggers, runs of the queue, steps of open
  connections and of the session manager in any order, with a well-formed tree and whatever the
  transport layer and the provider of copies answer, nothing fails and every request that was
  taken into the queue is in one place: in the queue, at an open connection, or given back to its
  listener, never twice. The same holds of the copies of functional requests. There are never more
  connections and queued requests than there is room for, every open connection has a closure
  or a message on its way that leads on, and a run of the queue leaves it empty; when it is and no connection is
  open, all requests and copies have been given back.\<close>

theorem requests_are_accounted:
  assumes t: "is_tree (de_store E) (de_root E) ts" and e: "env_shape (de_job E)" "\<And>j. ce_terminates (de_con E) j"
    and p: "\<forall>es p. de_provide E es = Some p \<longrightarrow> tm_wf p \<and> DIAG_PAYLOAD_SIZE \<le> length (tm_buffer p)"
    and l: "\<forall>lab \<in> set labs. good_label cfg lab"
  shows "\<exists>w acc. dd_run cfg E prog labs (dd_init (dd_new st), []) = Some (w, acc)
    \<and> mset acc = mset (map job_id (dd_queue w)) + open_ids False w + event_ids told_of w
    \<and> event_ids taken_of w = open_ids True w + event_ids released_of w
    \<and> length (dd_queue w) \<le> cfg_queueSize cfg \<and> dd_open w \<le> cfg_poolSize cfg
    \<and> (\<forall>s \<in> set (dd_slots w). con_isOpen (slot_con s) \<longrightarrow> con_posted (slot_con s) \<noteq> [] \<or> con_flight (slot_con s) \<noteq> [])
    \<and> (\<exists>w'. dd_step cfg E prog RunQueue (w, acc) = Some (w', acc) \<and> dd_queue w' = [])
    \<and> (dd_queue w = [] \<and> dd_open w = 0 \<longrightarrow> mset acc = event_ids told_of w \<and> event_ids taken_of w = event_ids released_of w)"
proof -
  have E: "good_env E" using is_tree_shape [OF t] e p by (auto simp: good_env_def)
  from runs_keep [OF new_inv l E, of prog st] obtain w acc where
    w: "dd_run cfg E prog labs (dd_init (dd_new st), []) = Some (w, acc)" "dd_inv cfg (w, acc)" by auto
  have c: "dd_core cfg w" "\<forall>j \<in> set (dd_queue w). good_job cfg j" and q: "dd_queue w \<noteq> [] \<longrightarrow> dd_posted w"
    using w(2) by (auto simp: dd_inv_def)
  have "\<exists>w'. dd_step cfg E prog RunQueue (w, acc) = Some (w', acc) \<and> dd_queue w' = []"
    using q processed_queue [of "w\<lparr>dd_posted := False\<rparr>" cfg E] c E by (cases "dd_posted w") auto
  moreover have "con_posted (slot_con s) \<noteq> [] \<or> con_flight (slot_con s) \<noteq> []" if "s \<in> set (dd_slots w)" "con_isOpen (slot_con s)" for s
  proof -
    have "answered (slot_con s)" using c(1) that by (simp add: dd_core_def dd_part_def)
    from answered_seen(5) [OF this] that(2) show ?thesis by blast
  qed
  ultimately show ?thesis using w no_open_ids
    by (intro exI [of _ w] exI [of _ acc]) (auto simp: dd_inv_def dd_core_def dd_part_def accounted_def)
qed

definition example_cfg :: dd_config where
  "example_cfg = \<lparr>cfg_diagAddress = 0x10, cfg_broadcastAddress = 0xDF, cfg_activateOutgoingPending = True, cfg_acceptAllRequests = False,
     cfg_copyFunctionalRequests = True, cfg_queueSize = 2, cfg_poolSize = 1\<rparr>"

definition example_dd_env :: "job_store \<Rightarrow> dd_env" where
  "example_dd_env h = \<lparr>de_job = example_job_env, de_store = h, de_root = 0, de_con = example_env, de_provide = (\<lambda>es. None), de_receive = (\<lambda>es. True)\<rparr>"

text \<open>Three requests come in, of which the queue of two places takes two.\<close>

theorem requests_are_accounted_witness:
  "\<exists>h w. udsSystem_addDiagJobs 2 = Some h
    \<and> dd_run example_cfg (example_dd_env h) False
        [SendRequest 1 example_read None, SendRequest 2 example_read (Some (SenderListener 7)), SendRequest 3 example_read None, RunQueue, StepConnection 0 (Runs SendPositiveResponse)]
        (dd_init (dd_new example_state), []) = Some (w, [1, 2])
    \<and> mset [1, 2] = mset (map job_id (dd_queue w)) + open_ids False w + event_ids told_of w \<and> dd_open w \<le> 1"
proof -
  obtain h where h: "udsSystem_addDiagJobs 2 = Some h" "is_tree h 0 udsSystem_trees" using udsSystem_tree by blast
  let ?labs = "[SendRequest 1 example_read None, SendRequest 2 example_read (Some (SenderListener 7)), SendRequest 3 example_read None, RunQueue,
    StepConnection 0 (Runs SendPositiveResponse)]"
  have t: "is_tree (de_store (example_dd_env h)) (de_root (example_dd_env h)) udsSystem_trees" using h(2) by (simp add: example_dd_env_def)
  have e: "env_shape (de_job (example_dd_env h))" "ce_terminates (de_con (example_dd_env h)) j" for j
    using example_job_env_shape by (simp_all add: example_dd_env_def example_env_def)
  have p: "\<forall>es p. de_provide (example_dd_env h) es = Some p \<longrightarrow> tm_wf p \<and> DIAG_PAYLOAD_SIZE \<le> length (tm_buffer p)"
    by (simp add: example_dd_env_def)
  have m: "good_message example_cfg example_read"
    by (simp add: good_message_def example_read_def tm_new_def tm_wf_def DIAG_PAYLOAD_SIZE_def)
  have l: "\<forall>lab \<in> set ?labs. good_label example_cfg lab" using m by simp
  from requests_are_accounted [OF t e p l, where prog = False and st = example_state] obtain w acc where
    w: "dd_run example_cfg (example_dd_env h) False ?labs (dd_init (dd_new example_state), []) = Some (w, acc)"
      "mset acc = mset (map job_id (dd_queue w)) + open_ids False w + event_ids told_of w" "dd_open w \<le> cfg_poolSize example_cfg" by blast
  have s: "isComplete example_read" "tm_targetAddress example_read = cfg_diagAddress example_cfg" "cfg_queueSize example_cfg = 2" "cfg_poolSize example_cfg = 1"
    by (simp_all add: isComplete_def example_read_def tm_new_def example_cfg_def)
  have "acc = [1, 2]" using w(1) s
    by (auto simp: dd_send_def enqueueMessage_def Let_def dd_init_def dd_setEnabled_def dd_session_def dd_new_def bind_eq_Some_conv)
  then show ?thesis using h(1) w s(4) by auto
qed

section \<open>A full queue\<close>

text \<open>C39: When a message cannot be resumed because it is incomplete or the queue is full, its target address
  has been replaced by the invalid address all the same; from then on every attempt to resume it
  fails, whatever room there is in the queue.\<close>

theorem failed_resume_is_final:
  assumes "dd_resume cfg i m l w = (e, m', w')" "e = TP_QUEUE_FULL \<or> e = TP_MESSAGE_INCOMPLETE" "cfg_diagAddress cfg \<noteq> INVALID_ADDRESS16"
  shows "w' = w \<and> tm_targetAddress m' = INVALID_ADDRESS16 \<and> dd_resume cfg i' m' l' v = (TP_SEND_FAIL, m', v)"
  using assms by (auto simp: dd_resume_def enqueueMessage_def Let_def split: if_splits)

theorem failed_resume_is_final_witness:
  "\<exists>m'. dd_resume (example_cfg\<lparr>cfg_queueSize := 0\<rparr>) 1 example_read None (dd_init (dd_new example_state)) = (TP_QUEUE_FULL, m', dd_init (dd_new example_state))
    \<and> dd_resume (example_cfg\<lparr>cfg_queueSize := 5\<rparr>) 1 m' None (dd_init (dd_new example_state)) = (TP_SEND_FAIL, m', dd_init (dd_new example_state))"
proof -
  let ?w = "dd_init (dd_new example_state)"
  obtain e m' w' where r: "dd_resume (example_cfg\<lparr>cfg_queueSize := 0\<rparr>) 1 example_read None ?w = (e, m', w')" by (metis prod.exhaust)
  then have e: "e = TP_QUEUE_FULL"
    by (auto simp: dd_resume_def enqueueMessage_def Let_def dd_init_def dd_setEnabled_def dd_session_def dd_new_def example_cfg_def
      isComplete_def example_read_def tm_new_def split: if_splits)
  have d: "cfg_diagAddress (example_cfg\<lparr>cfg_queueSize := 0\<rparr>) \<noteq> INVALID_ADDRESS16" by (simp add: example_cfg_def INVALID_ADDRESS16_def)
  from failed_resume_is_final [OF r _ d] e have
    f: "w' = ?w" "dd_resume (example_cfg\<lparr>cfg_queueSize := 0\<rparr>) 1 m' None ?w = (TP_SEND_FAIL, m', ?w)" "tm_targetAddress m' = INVALID_ADDRESS16" by auto
  have "dd_resume (example_cfg\<lparr>cfg_queueSize := 5\<rparr>) 1 m' None ?w = (TP_SEND_FAIL, m', ?w)"
    using f(3) by (simp add: dd_resume_def example_cfg_def INVALID_ADDRESS16_def)
  then show ?thesis using r e f(1) by blast
qed

section \<open>Shutdown\<close>

lemma shut_down:
  "dd_shutdown w = (let v = (dd_setEnabled False w)\<lparr>dd_connectionShutdownRequested := True,
      dd_slots := filter (\<lambda>s. \<not> con_isOpen (slot_con s)) (dd_slots w),
      dd_events := dd_events w @ (if dd_open w > 0 then [ConnectionsReleased (dd_open w)] else [])\<rparr>
    in dd_event ShutdownComplete v)"
proof -
  have "filter (\<lambda>s. \<not> con_isOpen (slot_con s)) (dd_slots w) = dd_slots w" if "dd_open w = 0"
    using that by (auto simp: dd_open_def filter_empty_conv filter_id_conv)
  moreover have "dd_open ((dd_setEnabled False w)\<lparr>dd_connectionShutdownRequested := True\<rparr>) = dd_open w"
    by (simp add: dd_open_def dd_setEnabled_def dd_session_def)
  ultimately show ?thesis
    by (cases w) (auto simp: dd_shutdown_def checkConnectionShutdownProgress_def Let_def dd_event_def dd_setEnabled_def dd_session_def)
qed

text \<open>A request that would be given to a connection\<close>

definition ready_job :: "transport_job \<Rightarrow> bool" where
  "ready_job j \<longleftrightarrow> isFromTester (job_message j) \<and> tm_targetAddress (job_message j) \<noteq> INVALID_ADDRESS16
     \<and> \<not> isFunctionalAddress (tm_targetAddress (job_message j))"

lemma ready_dropped:
  assumes "\<forall>j \<in> set js. ready_job j" "dd_connectionShutdownRequested w"
  shows "dd_process_all cfg E js w = Some (if js = [] then w else w\<lparr>dd_queue := []\<rparr>)"
  using assms
  by (induction js arbitrary: w) (simp_all add: dd_process_def precheckRequest_def Let_def ready_job_def)

text \<open>C40: A shutdown takes the places of all open connections away and says that it is complete, but gives none
  of their requests and copies back; and the physically addressed requests of testers that still wait in the queue are taken
  from it afterwards without being dispatched or given back. Their senders wait for ever.\<close>

theorem shutdown_loses_requests:
  assumes "\<forall>j \<in> set (dd_queue w). ready_job j"
  shows "\<exists>w'. processQueue cfg E (dd_shutdown w) = Some w' \<and> dd_queue w' = [] \<and> dd_open w' = 0
    \<and> dd_events w' = dd_events w @ (if dd_open w > 0 then [ConnectionsReleased (dd_open w)] else []) @ [ShutdownComplete]
    \<and> event_ids told_of w' = event_ids told_of w \<and> event_ids released_of w' = event_ids released_of w"
proof -
  let ?v = "dd_shutdown w"
  have v: "dd_queue ?v = dd_queue w" "dd_connectionShutdownRequested ?v" "dd_open ?v = 0"
    "dd_events ?v = dd_events w @ (if dd_open w > 0 then [ConnectionsReleased (dd_open w)] else []) @ [ShutdownComplete]"
    by (simp_all add: shut_down Let_def dd_event_def dd_open_def dd_setEnabled_def dd_session_def filter_empty_conv)
  have "event_ids f ?v = event_ids f w" if "\<And>n. f (ConnectionsReleased n) = []" "f ShutdownComplete = []" for f
    using that by (simp add: event_ids_def v(4))
  then have "event_ids told_of ?v = event_ids told_of w" "event_ids released_of ?v = event_ids released_of w" by simp_all
  moreover have "processQueue cfg E ?v = Some (if dd_queue w = [] then ?v else ?v\<lparr>dd_queue := []\<rparr>)"
    using ready_dropped [of "dd_queue w" ?v] assms v(1,2) by (simp add: processQueue_def)
  ultimately show ?thesis using v by (auto simp: dd_open_def event_ids_def)
qed

text \<open>One request is in progress and one waits.\<close>

definition example_dispatcher :: dispatcher where
  "example_dispatcher = (dd_init (dd_new example_state))\<lparr>dd_queue := [\<lparr>job_id = 2, job_message = example_read, job_listener = DefaultListener\<rparr>],
     dd_slots := [\<lparr>slot_id = 1, slot_listener = SenderListener 7, slot_con = con_new\<lparr>con_isOpen := True\<rparr>\<rparr>]\<rparr>"

theorem shutdown_loses_requests_witness:
  "\<exists>w'. processQueue example_cfg (example_dd_env Map.empty) (dd_shutdown example_dispatcher) = Some w'
    \<and> dd_queue w' = [] \<and> dd_events w' = [ConnectionsReleased 1, ShutdownComplete]"
proof -
  have "is1ByteTesterAddress 0xF1"
    by (simp add: is1ByteTesterAddress_def findBy1ByteAddress_def TESTER_ADDRESS_RANGE_def upt_rec)
  then have "\<forall>j \<in> set (dd_queue example_dispatcher). ready_job j"
    by (simp add: example_dispatcher_def ready_job_def isFromTester_def example_read_def tm_new_def INVALID_ADDRESS16_def isFunctionalAddress_def)
  from shutdown_loses_requests [OF this, of example_cfg "example_dd_env Map.empty"] show ?thesis
    by (auto simp: example_dispatcher_def dd_open_def dd_init_def dd_setEnabled_def dd_session_def dd_new_def)
qed

end
