(* ===== verification/Spec2Isabelle.thy ===== *)
theory Spec2Isabelle imports DocanCodecCorrect DocanParams DocanRxProtocol DocanTxProtocol DocanEndToEnd DocanReceiverProps DocanTransmitterProps IoProps BuddyMemoryProps TimerProps LifecycleProps CanProps StorageEepProps StorageMappingProps UdsProps UdsJobsProps UdsDispatcherProps begin

text \<open>
  A verification development of openbsw, a C++ stack of base software for automotive control
  units. The sources named below are relative to \<^verbatim>\<open>src/\<close>; \<^verbatim>\<open>bsw\<close> stands for
  \<^verbatim>\<open>libs/bsw\<close>.

  \<^bold>\<open>The program.\<close> The modelled part is the path of a diagnostic message and the services it runs on.
  CAN frames pass the filters of a transceiver (\<^verbatim>\<open>bsw/cpp2can\<close>) to the ISO 15765-2 transport layer
  (\<^verbatim>\<open>bsw/docan\<close>): the receiver and the transmitter keep pools of message receivers and
  transmitters, each a protocol state machine with timers and a transport message
  (\<^verbatim>\<open>bsw/transport\<close>), and translate them from and to frames with the codec. Other messages go through
  the queues of \<^verbatim>\<open>bsw/io\<close>; memory comes from the buddy memory manager of \<^verbatim>\<open>bsw/util\<close>; work is
  scheduled by \<^verbatim>\<open>bsw/timer\<close>; components are started and stopped by \<^verbatim>\<open>bsw/lifecycle\<close>; persistent data
  is kept by \<^verbatim>\<open>bsw/storage\<close> on an EEPROM driver. A complete request becomes a diagnostic connection of
  \<^verbatim>\<open>bsw/uds\<close>, and the tree of diagnostic jobs finds the job that answers it.

  \<^bold>\<open>How the code is modelled.\<close>
  \<^item> An object is a record, an operation a function from the state to the result and the new state. A
    pointer is an index; where the code keeps pointers to list elements, the index does not change
    when other elements are removed (the slot numbers of the pools, the numbers of the timeouts).
  \<^item> An option around a result: \<open>None\<close> is a run without a defined result, a failed \<^verbatim>\<open>ETL_ASSERT\<close>, an
    access outside of an array or through a null pointer, or a loop that does not end. So a theorem with
    \<open>= Some\<close> is a theorem that the code returns. Errors that the code reports are values
    (\<open>codec_error + 'a\<close>, \<open>job_result\<close>, the result enumerations).
  \<^item> Integers whose wrap-around matters are words (sequence numbers, clocks, retry counters, CAN
    identifiers); sizes are natural numbers with the narrowing casts written out.
  \<^item> Callbacks, listeners, the clock and the operating system are parameters. What a component calls is
    recorded as a trace or returned as a list of actions, so that theorems can speak of it.

  \<^bold>\<open>Theories.\<close>
  \<^item> \<^verbatim>\<open>BswPrelude\<close>: the machine types, the assertions, the big endian and byte span primitives
    (\<^verbatim>\<open>etl::mem_copy\<close> and the like), the hint collections and the lemmas on lists and options.
  \<^item> \<^verbatim>\<open>DocanCodec\<close>, \<^verbatim>\<open>DocanCodecCorrect\<close>: \<^verbatim>\<open>DoCanFrameCodec.h\<close>, the presets and the frame size
    mappers, the frame decoder. The mapper's contract is a locale with both mappers as
    interpretations; the lemmas are the round trips of every frame type, and that no encoder writes
    outside of its frame.
  \<^item> \<^verbatim>\<open>DocanParams\<close>: \<^verbatim>\<open>DoCanParameters\<close>, the STmin coding, and the comparison of the wrapping clock.
  \<^item> \<^verbatim>\<open>TransportMsg\<close>: \<^verbatim>\<open>TransportMessage\<close>, the message buffer and its bounds.
  \<^item> \<^verbatim>\<open>DocanRxProtocol\<close>, \<^verbatim>\<open>DocanTxProtocol\<close>: the two protocol handlers as state machines over the calls
    made on them, their invariants, and an abstract sender that the transmit handler refines.
  \<^item> \<^verbatim>\<open>DocanMessages\<close>: \<^verbatim>\<open>DoCanMessageReceiver\<close> and \<^verbatim>\<open>DoCanMessageTransmitter\<close>, handler plus message.
  \<^item> \<^verbatim>\<open>DocanEndToEnd\<close>: a sender and a receiver over a channel without loss: every message of a size both
    accept arrives in a bounded number of rounds.
  \<^item> \<^verbatim>\<open>DocanReceiver\<close>, \<^verbatim>\<open>DocanTransmitter\<close> with \<^verbatim>\<open>Correct\<close> and \<^verbatim>\<open>Props\<close>: \<^verbatim>\<open>DoCanReceiver\<close> and
    \<^verbatim>\<open>DoCanTransmitter\<close>, every handler with the nested calls of their listeners. The pool
    invariant, every transport message is released and every listener notified once; the one call that
    can fail is a shutdown of the transmitter while a finished transmission waits for its removal.
  \<^item> \<^verbatim>\<open>IoMemoryQueue\<close>, \<^verbatim>\<open>IoMemoryQueueCorrect\<close>: \<^verbatim>\<open>MemoryQueue.h\<close>, the lock-free ring, and its refinement of a
    list of slices. \<^verbatim>\<open>IoAdapters\<close>, \<^verbatim>\<open>IoContracts\<close>, \<^verbatim>\<open>IoProps\<close>: readers and writers as locales, the adapters
    (buffered, splitting, joining, forwarding) proved once against them and
    interpreted on the queue.
  \<^item> \<^verbatim>\<open>BuddyMemory\<close> with \<^verbatim>\<open>Correct\<close> and \<^verbatim>\<open>Props\<close>: \<^verbatim>\<open>BuddyMemoryManager\<close>, the tag tree, the invariant that each
    bucket has one owner, and that acquiring and releasing is exact.
  \<^item> \<^verbatim>\<open>TimerModel\<close>, \<^verbatim>\<open>TimerCorrect\<close>, \<^verbatim>\<open>TimerProps\<close>: \<^verbatim>\<open>Timer.h\<close> against a timer with unbounded time.
  \<^item> \<^verbatim>\<open>Lifecycle\<close> with \<^verbatim>\<open>Correct\<close> and \<^verbatim>\<open>Props\<close>: \<^verbatim>\<open>LifecycleManager\<close> among components, contexts and
    listeners that act in any order, as a step relation.
  \<^item> \<^verbatim>\<open>CanFilters\<close>, \<^verbatim>\<open>CanFiltersCorrect\<close>, \<^verbatim>\<open>CanProps\<close>: \<^verbatim>\<open>CanId\<close>, \<^verbatim>\<open>CANFrame\<close>, the filters as sets of identifiers
    and the listeners of \<^verbatim>\<open>AbstractCANTransceiver\<close>.
  \<^item> \<^verbatim>\<open>StorageEep\<close> with \<^verbatim>\<open>Correct\<close> and \<^verbatim>\<open>Props\<close>: \<^verbatim>\<open>StorageJob\<close>, \<^verbatim>\<open>EepStorage\<close> and the POSIX \<^verbatim>\<open>EepromDriver\<close>; the driver's
    contract is a locale, interpreted on the POSIX driver for all answers of the operating system.
  \<^item> \<^verbatim>\<open>StorageMapping\<close> with \<^verbatim>\<open>Correct\<close> and \<^verbatim>\<open>Props\<close>: \<^verbatim>\<open>MappingStorage\<close> and \<^verbatim>\<open>QueuingStorage\<close> among users and lower
    storages that act in any order; every job is completed once, with the right result.
  \<^item> \<^verbatim>\<open>UdsConnection\<close> with \<^verbatim>\<open>Correct\<close>, \<^verbatim>\<open>Runs\<close> and \<^verbatim>\<open>UdsProps\<close>: \<^verbatim>\<open>IncomingDiagConnection\<close>, \<^verbatim>\<open>PositiveResponse\<close> and
    \<^verbatim>\<open>NestedDiagRequest\<close> of \<^verbatim>\<open>bsw/uds\<close>: a request among its job, its context, the transport layer, its timers
    and the dispatcher. What is outstanding is an invariant with ghost arguments (the response that
    waits, the message on its way, whether the job has responded); every request is given back and
    every job told once, and the contents of the responses. The invariant and the runs are about a
    connection without a nested request.
  \<^item> \<^verbatim>\<open>UdsSessions\<close>: \<^verbatim>\<open>DiagSession\<close> of the reference application, \<^verbatim>\<open>Mask\<close> and \<^verbatim>\<open>DiagnosticSessionControl\<close>, with
    the runs of the session manager. \<^verbatim>\<open>UdsJobs\<close>: \<^verbatim>\<open>AbstractDiagJob\<close> as a tree of nodes in a store,
    adding and removing of jobs, and the constructors of the jobs and services. \<^verbatim>\<open>UdsExecute\<close>:
    \<^verbatim>\<open>verify\<close>, \<^verbatim>\<open>execute\<close> and \<^verbatim>\<open>process\<close> of all of them, and \<^verbatim>\<open>DiagJobRoot\<close>; \<^verbatim>\<open>UdsDispatch\<close>: the dispatch of one
    request by \<^verbatim>\<open>DiagDispatcher\<close>. \<^verbatim>\<open>UdsExecuteCorrect\<close> shows that the walk through a well-formed tree ends
    and leaves the connection answered or still to be answered, also when \<^verbatim>\<open>CommunicationControl\<close>
    declines a request after it has taken its buffer.
  \<^item> \<^verbatim>\<open>UdsTree\<close>, \<^verbatim>\<open>UdsSystem\<close>, \<^verbatim>\<open>UdsRead\<close>, \<^verbatim>\<open>UdsJobsProps\<close>: the growth of the tree against a reference that knows only
    the requests of the jobs, the tree of the reference application (\<^verbatim>\<open>UdsSystem.cpp\<close>) computed
    with it, and the path of a request through dispatcher, tree and connection to its response.
  \<^item> \<^verbatim>\<open>UdsDispatcher\<close> with \<^verbatim>\<open>Correct\<close>, \<^verbatim>\<open>Runs\<close> and \<^verbatim>\<open>Props\<close>: \<^verbatim>\<open>DiagDispatcher\<close> without outgoing connections: the
    addresses of testers (\<^verbatim>\<open>TransportConfiguration.h\<close>), the queue of requests, their checks and copies, the
    busy response, the pool of connections and the shutdown. \<^verbatim>\<open>Correct\<close> shows that a connection only adds to its
    calls; \<^verbatim>\<open>Runs\<close> keeps an account of the requests as multisets of their numbers, which every
    operation preserves: each request is in the queue, at an open connection, or given back.

  \<^bold>\<open>Bounds and fuel.\<close> Loops that depend on data or on callbacks (clearing the memory queue, adding a
  range to the bit field, the transitions of the receiver, the sending of the transmitter) are
  \<open>partial_function\<close>s, and the theorems say when they return; the others are structural
  recursions or have a measure. Where a theorem needs a bound
  (delays below half the range of the clock, block sizes of 16 bits, capacities below the range
  of the index type), it is a premise of the theorem and its witness meets it.

  \<^bold>\<open>What the theorems do not say.\<close> Critical sections are atomic steps; the memory queue is
  sequentially consistent (its atomics use acquire and release). A callback may call back into the
  receiver, the transmitter and the lifecycle manager where the code permits it; the callbacks of the
  timer may set and cancel timeouts; elsewhere callbacks do not call back.

  \<^bold>\<open>Not modelled.\<close> Hardware drivers and the ports to the operating systems
  (\<^verbatim>\<open>platforms\<close>, \<^verbatim>\<open>bsw/bsp\<close>, \<^verbatim>\<open>bsw/asyncFreeRtos\<close>, \<^verbatim>\<open>bsw/asyncThreadX\<close>), the network stacks
  (\<^verbatim>\<open>bsw/doip\<close>, \<^verbatim>\<open>bsw/cpp2someip\<close>, \<^verbatim>\<open>bsw/cpp2ethernet\<close>, \<^verbatim>\<open>bsw/lwipSocket\<close>), the outgoing
  connections of the diagnostic dispatcher, security access and the demonstration services of
  \<^verbatim>\<open>bsw/uds\<close>, the middleware, logging, third-party code, the rest of the reference application and the tools. They
  are left out for their size or because they are glue to code outside of the repository; the manifest
  names each of them.
\<close>

end
